(* ===== verification/Prelude.thy ===== *)
theory Prelude
  imports Complex_Main "HOL-Library.Word" "HOL-Library.Signed_Division"
begin

text \<open>
  What every component shares: the C-level vocabulary (faults as values of a sum type,
  checked array accesses and pointer reads, 32-bit signed arithmetic with overflow as a
  fault), the machine types of the RP2040 build, and the generic lemmas and the
  \<^theory_text>\<open>named_theorems\<close> collections the component proofs use.

  A fault is behaviour that C leaves undefined and that the repository's code does not
  check for.  A definition that returns \<open>Inl f\<close> says that the source would do the
  undefined thing \<open>f\<close> at that point; a definition that returns \<open>Inr x\<close> says that the
  source reaches the value \<open>x\<close> with every access defined.
\<close>

section \<open>Collections\<close>

named_theorems c_defs "definitions of the C vocabulary, unfolded by evaluation proofs"
named_theorems stack_defs "definitions of the stack operations"

section \<open>Machine types of the build\<close>

type_synonym u8 = "8 word"
type_synonym u16 = "16 word"
type_synonym u32 = "32 word"
type_synonym handle = nat
type_synonym ptr = "nat option"

section \<open>Faults\<close>

datatype fault =
    NullDeref
  | OutOfBounds
  | BadConversion
  | IntOverflow
  | Diverges \<comment> \<open>a loop of the source that does not end\<close>

definition bindE :: "'e + 'a \<Rightarrow> ('a \<Rightarrow> 'e + 'b) \<Rightarrow> 'e + 'b" where
  "bindE m f = (case m of Inl e \<Rightarrow> Inl e | Inr x \<Rightarrow> f x)"

lemma bindE_simps [simp]:
  "bindE (Inl e) f = Inl e"
  "bindE (Inr x) f = f x"
  by (simp_all add: bindE_def)

lemma bindE_eq_Inr [simp]:
  "(bindE m f = Inr y) \<longleftrightarrow> (\<exists>x. m = Inr x \<and> f x = Inr y)"
  by (cases m) auto

lemma bindE_eq_Inl:
  "(bindE m f = Inl e) \<longleftrightarrow> (m = Inl e \<or> (\<exists>x. m = Inr x \<and> f x = Inl e))"
  by (cases m) auto

text \<open>Turns a \<open>let\<close> of a model into a variable with an equation, so that it is not duplicated.\<close>

lemma Let_eq_ex: "(Let a f = y) \<longleftrightarrow> (\<exists>x. x = a \<and> f x = y)"
  by simp

lemma bindE_assoc: "bindE (bindE m f) g = bindE m (\<lambda>x. bindE (f x) g)"
  by (cases m) auto

lemma if_Inl_eq_Inr [simp]:
  "((if b then Inl e else m) = Inr y) \<longleftrightarrow> (\<not> b \<and> m = Inr y)"
  "((if b then m else Inl e) = Inr y) \<longleftrightarrow> (b \<and> m = Inr y)"
  by auto

section \<open>Arrays and pointers\<close>

definition arr_get :: "'a list \<Rightarrow> int \<Rightarrow> fault + 'a" where
  "arr_get xs i = (if 0 \<le> i \<and> i < int (length xs) then Inr (xs ! nat i) else Inl OutOfBounds)"

definition arr_set :: "'a list \<Rightarrow> int \<Rightarrow> 'a \<Rightarrow> fault + 'a list" where
  "arr_set xs i v = (if 0 \<le> i \<and> i < int (length xs) then Inr (xs[nat i := v]) else Inl OutOfBounds)"

text \<open>A pointer is NULL or the index of an element of the pointed-to table.\<close>

definition deref :: "'a list \<Rightarrow> ptr \<Rightarrow> fault + nat" where
  "deref xs p = (case p of None \<Rightarrow> Inl NullDeref
     | Some i \<Rightarrow> if i < length xs then Inr i else Inl OutOfBounds)"

lemma arr_get_ok [simp]: "i < length xs \<Longrightarrow> arr_get xs (int i) = Inr (xs ! i)"
  by (simp add: arr_get_def)

lemma arr_get_Inr_iff:
  "arr_get xs i = Inr v \<longleftrightarrow> 0 \<le> i \<and> i < int (length xs) \<and> v = xs ! nat i"
  by (auto simp: arr_get_def)

lemma arr_set_Inr_iff:
  "arr_set xs i v = Inr ys \<longleftrightarrow> 0 \<le> i \<and> i < int (length xs) \<and> ys = xs[nat i := v]"
  by (auto simp: arr_set_def)

lemma deref_Inr_iff [simp]: "deref xs p = Inr i \<longleftrightarrow> p = Some i \<and> i < length xs"
  by (auto simp: deref_def split: option.splits)

lemma deref_NULL [simp]: "deref xs None = Inl NullDeref"
  by (simp add: deref_def)

section \<open>Signed 32-bit arithmetic\<close>

definition int_max :: int where "int_max = 2 ^ 31 - 1"
definition int_min :: int where "int_min = - (2 ^ 31)"

definition chk32 :: "int \<Rightarrow> fault + int" where
  "chk32 x = (if int_min \<le> x \<and> x \<le> int_max then Inr x else Inl IntOverflow)"

lemma chk32_Inr_iff [simp]: "chk32 x = Inr y \<longleftrightarrow> y = x \<and> int_min \<le> x \<and> x \<le> int_max"
  by (auto simp: chk32_def)

text \<open>C's \<open>%\<close> and \<open>/\<close> truncate towards zero; a zero divisor is not checked by the source.\<close>

definition c_mod :: "int \<Rightarrow> int \<Rightarrow> fault + int" where
  "c_mod a b = (if b = 0 \<or> (a = int_min \<and> b = -1) then Inl IntOverflow else Inr (a smod b))"

definition c_div :: "int \<Rightarrow> int \<Rightarrow> fault + int" where
  "c_div a b = (if b = 0 \<or> (a = int_min \<and> b = -1) then Inl IntOverflow else Inr (a sdiv b))"

lemmas [c_defs] = bindE_def arr_get_def arr_set_def deref_def chk32_def c_mod_def c_div_def
  int_max_def int_min_def

lemma smod_int_eq: "a smod b = sgn a * (\<bar>a\<bar> mod \<bar>b\<bar>)" for a b :: int
  by (fact signed_modulo_int_def)

lemma smod_abs_less: "b \<noteq> 0 \<Longrightarrow> \<bar>a smod b\<bar> < \<bar>b\<bar>" for a b :: int
  by (cases "a = 0") (simp_all add: smod_int_eq abs_mult abs_sgn_eq)

lemma gcd_smod: "gcd b (a smod b) = gcd a b" for a b :: int
proof -
  have "gcd b (a smod b) = gcd \<bar>b\<bar> \<bar>a smod b\<bar>" by simp
  also have "\<dots> = gcd \<bar>b\<bar> (\<bar>a\<bar> mod \<bar>b\<bar>)"
    by (cases "a = 0") (simp_all add: smod_int_eq abs_mult abs_sgn_eq)
  also have "\<dots> = gcd \<bar>b\<bar> \<bar>a\<bar>" by (metis gcd.commute gcd_red_int)
  finally show ?thesis by (simp add: gcd.commute)
qed

end
