(* ===== verification/Float32.thy ===== *)
theory Float32
  imports Prelude
begin

text \<open>
  The floating-point arithmetic the partitioner computes with: C \<open>float\<close> is IEEE-754
  binary32 and \<open>double\<close> binary64, both with round-to-nearest-even, as on the RP2040 build.

  A finite value is the integer \<open>k\<close> for which the number is \<open>k * 2^-scale\<close>: every finite
  binary32 number is a multiple of \<open>2^-149\<close>, every binary64 number of \<open>2^-1074\<close>.  So the
  operations are integer operations followed by one rounding to \<open>prec\<close> significant bits,
  comparisons are integer comparisons, and a concrete run evaluates with the simplifier.
  The sign of a zero is not represented: nothing in the modelled code observes it, because
  every divisor it uses is an unsigned integer.

  The lemmas show that the rounding is monotone, is the identity on representable numbers
  and has representable results; \<open>rounding\<close> is the interface through which the partitioner
  uses them.
\<close>

section \<open>Formats and values\<close>

record fp_format =
  prec :: nat
  scale :: nat
  top_exp :: nat

definition binary32 :: fp_format where
  "binary32 = \<lparr>prec = 24, scale = 149, top_exp = 277\<rparr>"

definition binary64 :: fp_format where
  "binary64 = \<lparr>prec = 53, scale = 1074, top_exp = 2098\<rparr>"

datatype fp = Fin int | PInf | MInf | NaN

type_synonym f32 = fp
type_synonym f64 = fp

section \<open>Rounding\<close>

text \<open>\<open>rhe p q\<close> is \<open>p / q\<close> rounded to the nearest integer, ties to even, for \<open>0 < q\<close>.\<close>

definition rhe :: "int \<Rightarrow> int \<Rightarrow> int" where
  "rhe p q = (let f = p div q; r = p mod q in
     if 2 * r < q then f else if q < 2 * r then f + 1 else if even f then f else f + 1)"

text \<open>The number of low bits that do not fit into \<open>p\<close> significant bits.\<close>

function excess :: "nat \<Rightarrow> int \<Rightarrow> nat" where
  "excess p n = (if n < 2 ^ p then 0 else Suc (excess p (n div 2)))"
  by pat_completeness auto
termination
proof (relation "measure (\<lambda>(p, n). nat n)")
  fix p :: nat and n :: int
  assume "\<not> n < 2 ^ p"
  moreover have "(1::int) \<le> 2 ^ p" by simp
  ultimately have "0 < n" by linarith
  then show "((p, n div 2), p, n) \<in> measure (\<lambda>(p, n). nat n)" by simp
qed simp

declare excess.simps [simp del]

definition rnd_ratio :: "nat \<Rightarrow> int \<Rightarrow> int \<Rightarrow> int" where
  "rnd_ratio p a b = (let s = excess p (a div b) in rhe a (b * 2 ^ s) * 2 ^ s)"

definition rnd_sgn :: "nat \<Rightarrow> int \<Rightarrow> int \<Rightarrow> int" where
  "rnd_sgn p a b = (if a < 0 then - rnd_ratio p (- a) b else rnd_ratio p a b)"

definition fp_round :: "fp_format \<Rightarrow> int \<Rightarrow> int \<Rightarrow> fp" where
  "fp_round F a b = (let k = rnd_sgn (prec F) a b in
     if k \<le> - (2 ^ top_exp F) then MInf else if 2 ^ top_exp F \<le> k then PInf else Fin k)"

section \<open>Operations\<close>

fun fp_add :: "fp_format \<Rightarrow> fp \<Rightarrow> fp \<Rightarrow> fp" where
  "fp_add F (Fin a) (Fin b) = fp_round F (a + b) 1"
| "fp_add F NaN y = NaN"
| "fp_add F x NaN = NaN"
| "fp_add F PInf MInf = NaN"
| "fp_add F MInf PInf = NaN"
| "fp_add F PInf y = PInf"
| "fp_add F MInf y = MInf"
| "fp_add F x PInf = PInf"
| "fp_add F x MInf = MInf"

fun fp_neg :: "fp \<Rightarrow> fp" where
  "fp_neg (Fin a) = Fin (- a)"
| "fp_neg PInf = MInf"
| "fp_neg MInf = PInf"
| "fp_neg NaN = NaN"

definition fp_sub :: "fp_format \<Rightarrow> fp \<Rightarrow> fp \<Rightarrow> fp" where
  "fp_sub F x y = fp_add F x (fp_neg y)"

definition fp_inf :: "int \<Rightarrow> fp" where
  "fp_inf s = (if s = 0 then NaN else if 0 < s then PInf else MInf)"

fun fp_sgn :: "fp \<Rightarrow> int" where
  "fp_sgn (Fin a) = sgn a"
| "fp_sgn PInf = 1"
| "fp_sgn MInf = -1"
| "fp_sgn NaN = 0"

fun fp_mul :: "fp_format \<Rightarrow> fp \<Rightarrow> fp \<Rightarrow> fp" where
  "fp_mul F (Fin a) (Fin b) = fp_round F (a * b) (2 ^ scale F)"
| "fp_mul F x y = fp_inf (fp_sgn x * fp_sgn y)"

fun fp_div :: "fp_format \<Rightarrow> fp \<Rightarrow> fp \<Rightarrow> fp" where
  "fp_div F (Fin a) (Fin b) =
     (if b = 0 then fp_inf (sgn a) else fp_round F (sgn b * a * 2 ^ scale F) \<bar>b\<bar>)"
| "fp_div F NaN y = NaN"
| "fp_div F x NaN = NaN"
| "fp_div F (Fin a) y = Fin 0"
| "fp_div F x (Fin b) = fp_inf (fp_sgn x * (if b < 0 then -1 else 1))"
| "fp_div F x y = NaN"

fun fp_lt :: "fp \<Rightarrow> fp \<Rightarrow> bool" where
  "fp_lt (Fin a) (Fin b) = (a < b)"
| "fp_lt NaN y = False"
| "fp_lt x NaN = False"
| "fp_lt MInf y = (y \<noteq> MInf)"
| "fp_lt x PInf = (x \<noteq> PInf)"
| "fp_lt x y = False"

definition fp_le :: "fp \<Rightarrow> fp \<Rightarrow> bool" where
  "fp_le x y = (fp_lt x y \<or> (x = y \<and> x \<noteq> NaN))"

definition fp_of_int :: "fp_format \<Rightarrow> int \<Rightarrow> fp" where
  "fp_of_int F n = fp_round F (n * 2 ^ scale F) 1"

fun fp_conv :: "fp_format \<Rightarrow> fp_format \<Rightarrow> fp \<Rightarrow> fp" where
  "fp_conv F G (Fin k) = fp_round G (k * 2 ^ scale G) (2 ^ scale F)"
| "fp_conv F G x = x"

text \<open>
  Conversion to \<open>uint16_t\<close> truncates; outside the range of the type C leaves it undefined.
\<close>

fun fp_to_u16 :: "fp_format \<Rightarrow> fp \<Rightarrow> fault + u16" where
  "fp_to_u16 F (Fin k) =
     (let t = k sdiv (2 ^ scale F) in
      if 0 \<le> t \<and> t < 2 ^ 16 then Inr (word_of_int t) else Inl BadConversion)"
| "fp_to_u16 F x = Inl BadConversion"

section \<open>Laws of the rounding\<close>

lemma rhe_cases:
  assumes "0 < q"
  shows "2 * p - q \<le> 2 * (rhe p q * q)" "2 * (rhe p q * q) \<le> 2 * p + q"
    "2 * p - q = 2 * (rhe p q * q) \<or> 2 * (rhe p q * q) = 2 * p + q \<Longrightarrow> even (rhe p q)"
proof -
  define f r R where "f = p div q" and "r = p mod q" and "R = rhe p q"
  have p: "p = f * q + r" by (simp add: f_def r_def)
  have r: "0 \<le> r" "r < q" using assms by (simp_all add: r_def)
  have R: "R = (if 2 * r < q then f else if q < 2 * r then f + 1 else if even f then f else f + 1)"
    by (simp add: rhe_def f_def r_def R_def Let_def)
  show "2 * p - q \<le> 2 * (rhe p q * q)" "2 * (rhe p q * q) \<le> 2 * p + q"
    unfolding R_def [symmetric] using p r R by (auto simp: algebra_simps split: if_splits)
  show "even (rhe p q)" if "2 * p - q = 2 * (rhe p q * q) \<or> 2 * (rhe p q * q) = 2 * p + q"
    using that r assms unfolding R_def [symmetric] using p R by (auto simp: algebra_simps split: if_splits)
qed

lemma rhe_exact: "0 < q \<Longrightarrow> rhe (k * q) q = k"
  by (simp add: rhe_def)

lemma rhe_mono:
  assumes q: "0 < q1" "0 < q2" and le: "p1 * q2 \<le> p2 * q1"
  shows "rhe p1 q1 \<le> rhe p2 q2"
proof (rule ccontr)
  define a b where "a = rhe p1 q1" and "b = rhe p2 q2"
  assume "\<not> rhe p1 q1 \<le> rhe p2 q2"
  then have ab: "b + 1 \<le> a" by (simp add: a_def b_def)
  note A = rhe_cases [OF q(1), of p1, folded a_def] and B = rhe_cases [OF q(2), of p2, folded b_def]
  have Q: "0 < q1 * q2" using q by simp
  have "2 * a * (q1 * q2) \<le> (2 * p1 + q1) * q2"
    using mult_right_mono [OF A(2), of q2] q by (simp add: algebra_simps)
  moreover have "(2 * p2 - q2) * q1 \<le> 2 * b * (q1 * q2)"
    using mult_right_mono [OF B(1), of q1] q by (simp add: algebra_simps)
  moreover have "(2 * b + 2) * (q1 * q2) \<le> 2 * a * (q1 * q2)"
    using ab Q by (intro mult_right_mono) auto
  ultimately have E: "2 * a * (q1 * q2) = (2 * p1 + q1) * q2" "(2 * p2 - q2) * q1 = 2 * b * (q1 * q2)"
    "(2 * b + 2) * (q1 * q2) = 2 * a * (q1 * q2)"
    using le by (simp_all add: algebra_simps)
  from E(1) have "(2 * (a * q1)) * q2 = (2 * p1 + q1) * q2" by (simp add: algebra_simps)
  then have "2 * (a * q1) = 2 * p1 + q1" using q by simp
  then have "even a" using A(3) by blast
  from E(2) have "(2 * p2 - q2) * q1 = 2 * (b * q2) * q1" by (simp add: algebra_simps)
  then have "2 * p2 - q2 = 2 * (b * q2)" using q by simp
  then have "even b" using B(3) by blast
  moreover have "2 * b + 2 = 2 * a" using E(3) Q by (metis mult_right_cancel less_irrefl)
  ultimately show False using \<open>even a\<close> by presburger
qed

lemma excess_upper: "n < 2 ^ (p + excess p n)"
proof (induction p n rule: excess.induct)
  case (1 p n)
  show ?case
  proof (cases "n < 2 ^ p")
    case True
    then show ?thesis by (simp add: excess.simps)
  next
    case False
    with 1 have "n div 2 < 2 ^ (p + excess p (n div 2))" by simp
    then have "n < 2 * 2 ^ (p + excess p (n div 2))" by linarith
    with False show ?thesis by (simp add: excess.simps [of p n])
  qed
qed

lemma excess_lower: "excess p n \<noteq> 0 \<Longrightarrow> 2 ^ (p + excess p n - 1) \<le> n"
proof (induction p n rule: excess.induct)
  case (1 p n)
  from 1(2) have big: "\<not> n < 2 ^ p" by (auto simp: excess.simps [of p n] split: if_splits)
  show ?case
  proof (cases "excess p (n div 2) = 0")
    case True
    with big show ?thesis by (simp add: excess.simps [of p n])
  next
    case False
    define e where "e = excess p (n div 2)"
    from False 1(1) [OF big] have le: "2 ^ (p + e - 1) \<le> n div 2" by (simp add: e_def)
    have "(2::int) ^ (p + e) = 2 * 2 ^ (p + e - 1)"
      using False by (cases e) (simp_all add: e_def)
    then have "2 ^ (p + e) \<le> n" using le by linarith
    with big show ?thesis by (simp add: excess.simps [of p n] e_def)
  qed
qed

lemma excess_le: "n < 2 ^ (p + s) \<Longrightarrow> excess p n \<le> s"
proof (rule ccontr)
  assume n: "n < 2 ^ (p + s)" and "\<not> excess p n \<le> s"
  then have "excess p n \<noteq> 0" "p + s \<le> p + excess p n - 1" by simp_all
  then have "(2::int) ^ (p + s) \<le> 2 ^ (p + excess p n - 1)" by (simp add: power_increasing)
  also have "\<dots> \<le> n" using \<open>excess p n \<noteq> 0\<close> by (rule excess_lower)
  finally show False using n by simp
qed

lemma excess_mono: "m \<le> n \<Longrightarrow> excess p m \<le> excess p n"
  by (rule excess_le) (use excess_upper [of n p] in simp)

lemma rnd_ratio_le_top:
  assumes "0 < b" "a div b < 2 ^ (p + s)" "excess p (a div b) = s"
  shows "rnd_ratio p a b \<le> 2 ^ (p + s)"
proof -
  have "a < (a div b + 1) * b"
    using div_mult_mod_eq [of a b] pos_mod_bound [OF assms(1), of a] by (simp only: distrib_right)
  moreover have "(a div b + 1) * b \<le> 2 ^ (p + s) * b"
    using assms(1,2) by (intro mult_right_mono) auto
  ultimately have "a < 2 ^ (p + s) * b" by linarith
  then have "rhe a (b * 2 ^ s) \<le> rhe (2 ^ p * (b * 2 ^ s)) (b * 2 ^ s)"
    using assms(1) by (intro rhe_mono) (auto simp: power_add algebra_simps)
  also have "\<dots> = 2 ^ p" using assms(1) by (intro rhe_exact) simp
  finally show ?thesis
    using assms(3) by (simp add: rnd_ratio_def Let_def power_add)
qed

lemma rnd_ratio_ge_top:
  assumes "0 < b" "0 < p" "excess p (a div b) = s" "s \<noteq> 0"
  shows "2 ^ (p + s - 1) \<le> rnd_ratio p a b"
proof -
  have "2 ^ (p + s - 1) \<le> a div b" using assms(3,4) excess_lower by blast
  then have "2 ^ (p + s - 1) * b \<le> (a div b) * b"
    using assms(1) by (simp add: mult_right_mono)
  also have "\<dots> \<le> a" using assms(1)
    by (metis add.commute le_add_same_cancel2 less_imp_le mod_div_mult_eq pos_mod_sign)
  finally have ge: "2 ^ (p + s - 1) * b \<le> a" .
  have ps: "p + s - 1 = (p - 1) + s" using assms(2) by simp
  have "(2::int) ^ (p - 1) = rhe (2 ^ (p - 1) * (b * 2 ^ s)) (b * 2 ^ s)"
    using assms(1) by (intro rhe_exact [symmetric]) simp
  also have "\<dots> \<le> rhe a (b * 2 ^ s)"
  proof (rule rhe_mono)
    have e: "2 ^ (p - 1) * (b * 2 ^ s) = 2 ^ (p + s - 1) * b" by (simp only: ps power_add) simp
    show "2 ^ (p - 1) * (b * 2 ^ s) * (b * 2 ^ s) \<le> a * (b * 2 ^ s)"
      unfolding e using ge assms(1) by (intro mult_right_mono) simp_all
  qed (use assms(1) in simp_all)
  finally have "2 ^ (p - 1) * 2 ^ s \<le> rhe a (b * 2 ^ s) * 2 ^ s" by (intro mult_right_mono) simp_all
  moreover have "(2::int) ^ (p + s - 1) = 2 ^ (p - 1) * 2 ^ s" by (simp only: ps power_add)
  moreover have "rnd_ratio p a b = rhe a (b * 2 ^ s) * 2 ^ s"
    using assms(3) by (simp add: rnd_ratio_def Let_def)
  ultimately show ?thesis by simp
qed

lemma rnd_ratio_mono:
  assumes "0 < b1" "0 < b2" "0 < p" and le: "a1 * b2 \<le> a2 * b1"
  shows "rnd_ratio p a1 b1 \<le> rnd_ratio p a2 b2"
proof -
  define s1 s2 where "s1 = excess p (a1 div b1)" and "s2 = excess p (a2 div b2)"
  have "(a1 div b1) * b1 \<le> a1" using assms(1)
    by (metis add.commute le_add_same_cancel2 less_imp_le mod_div_mult_eq pos_mod_sign)
  then have "(a1 div b1) * b1 * b2 \<le> a2 * b1"
    using le assms(2) by (meson less_imp_le mult_right_mono order_trans)
  then have "((a1 div b1) * b2) * b1 \<le> a2 * b1" by (simp add: algebra_simps)
  then have "(a1 div b1) * b2 \<le> a2" using assms(1) by simp
  then have "a1 div b1 \<le> a2 div b2"
    using assms(2) by (metis less_imp_neq nonzero_mult_div_cancel_right zdiv_mono1)
  then have s: "s1 \<le> s2" by (simp add: s1_def s2_def excess_mono)
  show ?thesis
  proof (cases "s1 = s2")
    case True
    have "rhe a1 (b1 * 2 ^ s1) \<le> rhe a2 (b2 * 2 ^ s1)"
      using assms by (intro rhe_mono) (auto simp: mult.assoc [symmetric])
    with True show ?thesis by (simp add: rnd_ratio_def Let_def s1_def s2_def)
  next
    case False
    with s have "s1 < s2" by simp
    have "rnd_ratio p a1 b1 \<le> 2 ^ (p + s1)"
      using assms(1) by (rule rnd_ratio_le_top) (simp_all add: s1_def excess_upper)
    also have "\<dots> \<le> 2 ^ (p + s2 - 1)" using \<open>s1 < s2\<close> by (intro power_increasing) auto
    also have "\<dots> \<le> rnd_ratio p a2 b2"
      using assms(2,3) \<open>s1 < s2\<close> by (intro rnd_ratio_ge_top) (auto simp: s2_def)
    finally show ?thesis .
  qed
qed

definition representable :: "nat \<Rightarrow> int \<Rightarrow> bool" where
  "representable p k \<longleftrightarrow> 2 ^ excess p \<bar>k\<bar> dvd k"

lemma representableI:
  assumes "\<bar>m\<bar> \<le> 2 ^ p" "0 < p"
  shows "representable p (m * 2 ^ s)"
proof (cases "\<bar>m\<bar> = 2 ^ p")
  case True
  have k: "\<bar>m * 2 ^ s\<bar> = 2 ^ (p + s)" using True by (simp add: abs_mult power_add)
  have "excess p (2 ^ (p + s)) \<le> s + 1" by (rule excess_le) simp
  then have "(2::int) ^ excess p (2 ^ (p + s)) dvd 2 ^ (p + s)"
    using assms(2) by (intro le_imp_power_dvd) simp
  then have "2 ^ excess p \<bar>m * 2 ^ s\<bar> dvd \<bar>m * 2 ^ s\<bar>" unfolding k .
  then show ?thesis unfolding representable_def by (simp only: dvd_abs_iff)
next
  case False
  then have "\<bar>m\<bar> < 2 ^ p" using assms(1) by simp
  then have "\<bar>m * 2 ^ s\<bar> < 2 ^ (p + s)" by (simp add: abs_mult power_add)
  then have "excess p \<bar>m * 2 ^ s\<bar> \<le> s" by (rule excess_le)
  then have "(2::int) ^ excess p \<bar>m * 2 ^ s\<bar> dvd 2 ^ s" by (rule le_imp_power_dvd)
  then show ?thesis unfolding representable_def by (rule dvd_mult)
qed

lemma representable_neg [simp]: "representable p (- k) \<longleftrightarrow> representable p k"
  by (simp add: representable_def)

lemma rnd_ratio_exact: "0 \<le> k \<Longrightarrow> representable p k \<Longrightarrow> rnd_ratio p k 1 = k"
proof -
  assume "0 \<le> k" "representable p k"
  then obtain m where "k = m * 2 ^ excess p k"
    by (auto simp: representable_def dvd_def mult.commute)
  then show ?thesis using rhe_exact [of "2 ^ excess p k" m]
    by (simp add: rnd_ratio_def Let_def)
qed

lemma rnd_ratio_nonneg: "0 \<le> a \<Longrightarrow> 0 < b \<Longrightarrow> 0 < p \<Longrightarrow> 0 \<le> rnd_ratio p a b"
proof -
  assume "0 \<le> a" "0 < b" "0 < p"
  then have "rnd_ratio p 0 1 \<le> rnd_ratio p a b" by (intro rnd_ratio_mono) simp_all
  then show ?thesis by (simp add: rnd_ratio_exact representable_def)
qed

lemma rnd_ratio_representable:
  assumes "0 \<le> a" "0 < b" "0 < p"
  shows "representable p (rnd_ratio p a b)"
proof -
  define s where "s = excess p (a div b)"
  define m where "m = rhe a (b * 2 ^ s)"
  have r: "rnd_ratio p a b = m * 2 ^ s" by (simp add: rnd_ratio_def Let_def s_def m_def)
  have "rnd_ratio p a b \<le> 2 ^ (p + s)"
    by (rule rnd_ratio_le_top [OF assms(2)]) (simp_all add: s_def excess_upper)
  then have "m * 2 ^ s \<le> 2 ^ p * 2 ^ s" unfolding r power_add .
  then have "m \<le> 2 ^ p" by simp
  moreover have "0 \<le> m" using rnd_ratio_nonneg [OF assms] unfolding r by (simp add: zero_le_mult_iff)
  ultimately show ?thesis unfolding r using assms(3) by (intro representableI) auto
qed

section \<open>Rounding of integers, and the interface\<close>

definition rnd_int :: "nat \<Rightarrow> int \<Rightarrow> int" where
  "rnd_int p k = rnd_sgn p k 1"

lemma rnd_int_mono: "0 < p \<Longrightarrow> x \<le> y \<Longrightarrow> rnd_int p x \<le> rnd_int p y"
proof -
  assume p: "0 < p" and "x \<le> y"
  then have "rnd_ratio p x 1 \<le> rnd_ratio p y 1" "rnd_ratio p (- y) 1 \<le> rnd_ratio p (- x) 1"
    by (auto intro!: rnd_ratio_mono)
  moreover have "0 \<le> rnd_ratio p (- x) 1" if "x < 0" using that p by (intro rnd_ratio_nonneg) auto
  moreover have "0 \<le> rnd_ratio p y 1" if "0 \<le> y" using that p by (intro rnd_ratio_nonneg) auto
  ultimately show ?thesis using \<open>x \<le> y\<close> by (auto simp: rnd_int_def rnd_sgn_def)
qed

lemma rnd_int_exact: "representable p k \<Longrightarrow> rnd_int p k = k"
  using rnd_ratio_exact [of "- k" p] rnd_ratio_exact [of k p]
  by (auto simp: rnd_int_def rnd_sgn_def)

lemma rnd_int_representable: "0 < p \<Longrightarrow> representable p (rnd_int p k)"
  by (auto simp: rnd_int_def rnd_sgn_def intro!: rnd_ratio_representable)

definition ulp :: "nat \<Rightarrow> int \<Rightarrow> int" where
  "ulp p k = 2 ^ excess p \<bar>k\<bar>"

lemma ulp_mono: "0 \<le> x \<Longrightarrow> x \<le> y \<Longrightarrow> ulp p x \<le> ulp p y"
  unfolding ulp_def by (intro power_increasing excess_mono) auto

lemma rnd_int_error: "0 \<le> x \<Longrightarrow> 2 * \<bar>rnd_int p x - x\<bar> \<le> ulp p x"
proof -
  assume x: "0 \<le> x"
  define u where "u = (2::int) ^ excess p x"
  have "rnd_int p x = rhe x u * u"
    using x by (simp add: rnd_int_def rnd_sgn_def rnd_ratio_def Let_def u_def)
  moreover have "2 * x - u \<le> 2 * (rhe x u * u)" "2 * (rhe x u * u) \<le> 2 * x + u"
    by (rule rhe_cases, simp add: u_def)+
  moreover have "ulp p x = u" using x by (simp add: ulp_def u_def)
  ultimately show ?thesis by (simp add: abs_if)
qed

lemma representable_split:
  assumes "representable p k" "0 \<le> k"
  obtains m where "k = m * ulp p k" "0 \<le> m" "m < 2 ^ p"
proof -
  from assms obtain m where m: "k = m * ulp p k"
    by (auto simp: representable_def ulp_def dvd_def mult.commute)
  have "m * ulp p k < 2 ^ p * ulp p k"
    using excess_upper [of k p] assms(2) unfolding m [symmetric] by (simp add: ulp_def power_add)
  then have "m < 2 ^ p" by (simp add: ulp_def)
  moreover have "0 \<le> m"
    using assms(2) m by (metis ulp_def zero_le_mult_iff zero_less_numeral zero_less_power not_le)
  ultimately show thesis using m that by blast
qed

lemma representable_succ: "0 < p \<Longrightarrow> representable p b \<Longrightarrow> 0 \<le> b \<Longrightarrow> representable p (b + ulp p b)"
proof -
  assume "0 < p" and b: "representable p b" "0 \<le> b"
  from b obtain m where m: "b = m * ulp p b" "0 \<le> m" "m < 2 ^ p" by (rule representable_split)
  have "b + ulp p b = (m + 1) * 2 ^ excess p \<bar>b\<bar>"
    using m(1) by (simp add: ulp_def distrib_right)
  then show ?thesis using m \<open>0 < p\<close> by (simp only:) (intro representableI, auto)
qed

text \<open>The exact-difference lemma of Sterbenz: numbers within a factor of two subtract exactly.\<close>

lemma representable_sterbenz:
  assumes "0 < p" "representable p b" "representable p c" "0 \<le> c" "c \<le> b" "b \<le> 2 * c"
  shows "representable p (b - c)"
proof -
  define s where "s = excess p c"
  have "excess p c \<le> excess p b" using assms(5) by (rule excess_mono)
  then have "(2::int) ^ s dvd 2 ^ excess p b" unfolding s_def by (rule le_imp_power_dvd)
  moreover have "2 ^ excess p b dvd b" using assms(2,4,5) by (simp add: representable_def)
  ultimately have "2 ^ s dvd b" by (rule dvd_trans)
  moreover have "2 ^ s dvd c" using assms(3,4) by (simp add: representable_def s_def)
  ultimately have "2 ^ s dvd b - c" by (rule dvd_diff)
  then obtain m where m: "b - c = m * 2 ^ s" by (auto simp: dvd_def mult.commute)
  have "b - c < 2 ^ p * 2 ^ s"
    using excess_upper [of c p] assms(6) unfolding s_def by (simp add: power_add)
  then have "m * 2 ^ s < 2 ^ p * 2 ^ s" unfolding m .
  then have "m < 2 ^ p" by simp
  moreover have "0 \<le> m * 2 ^ s" using assms(5) unfolding m [symmetric] by simp
  then have "0 \<le> m" by (simp add: zero_le_mult_iff)
  ultimately show ?thesis unfolding m using assms(1) by (intro representableI) auto
qed

locale rounding =
  fixes rnd :: "int \<Rightarrow> int" and rep :: "int \<Rightarrow> bool" and gap :: "int \<Rightarrow> int"
  assumes mono: "x \<le> y \<Longrightarrow> rnd x \<le> rnd y"
    and exact: "rep x \<Longrightarrow> rnd x = x"
    and rep_rnd: "rep (rnd x)"
    and rep_zero: "rep 0"
    and rep_next: "rep b \<Longrightarrow> 0 \<le> b \<Longrightarrow> rep (b + gap b)"
    and gap_mono: "0 \<le> x \<Longrightarrow> x \<le> y \<Longrightarrow> gap x \<le> gap y"
    and half_gap: "0 \<le> x \<Longrightarrow> 2 * \<bar>rnd x - x\<bar> \<le> gap x"
    and sterbenz: "rep b \<Longrightarrow> rep c \<Longrightarrow> 0 \<le> c \<Longrightarrow> c \<le> b \<Longrightarrow> b \<le> 2 * c \<Longrightarrow> rep (b - c)"
begin

lemma idem [simp]: "rnd (rnd x) = rnd x"
  by (rule exact [OF rep_rnd])

lemma upper: "x \<le> b \<Longrightarrow> rep b \<Longrightarrow> rnd x \<le> b"
  using mono exact by metis

lemma lower: "b \<le> x \<Longrightarrow> rep b \<Longrightarrow> b \<le> rnd x"
  using mono exact by metis

lemma nonneg: "0 \<le> x \<Longrightarrow> 0 \<le> rnd x"
  using lower rep_zero by blast

lemma add_increases: "rep c \<Longrightarrow> 0 \<le> t \<Longrightarrow> c \<le> rnd (c + t)"
  by (rule lower) simp_all

text \<open>Filling a budget \<open>b\<close> from \<open>c\<close> by the rounded difference overshoots it by one gap at most.\<close>

lemma fill_upper:
  assumes "rep b" "0 \<le> c" "c \<le> b"
  shows "rnd (c + rnd (b - c)) \<le> b + gap b"
proof (rule upper)
  have g: "gap (b - c) \<le> gap b" using assms by (intro gap_mono) auto
  have h: "2 * \<bar>rnd (b - c) - (b - c)\<bar> \<le> gap (b - c)" using assms by (intro half_gap) auto
  with g show "c + rnd (b - c) \<le> b + gap b" by (simp add: abs_if split: if_splits)
  show "rep (b + gap b)" using assms by (intro rep_next) auto
qed

text \<open>It fills the budget exactly when at least half of it was used before.\<close>

lemma fill_exact:
  assumes "rep b" "rep c" "0 \<le> c" "c \<le> b" "b \<le> 2 * c"
  shows "rnd (c + rnd (b - c)) = b"
  using assms sterbenz [OF assms] by (simp add: exact)

end

interpretation r32: rounding "rnd_int 24" "representable 24" "ulp 24"
  by unfold_locales
    (auto intro: rnd_int_mono rnd_int_exact rnd_int_representable representable_succ ulp_mono
      rnd_int_error representable_sterbenz simp: representable_def [of 24 0])

section \<open>The operations on finite values\<close>

lemma fp_round_int:
  "fp_round F k 1 = (let r = rnd_int (prec F) k in
     if r \<le> - (2 ^ top_exp F) then MInf else if 2 ^ top_exp F \<le> r then PInf else Fin r)"
  by (simp add: fp_round_def rnd_int_def)

lemma fp_add_Fin_le:
  assumes "0 \<le> a + b" "a + b \<le> c" "representable 24 c" "c < 2 ^ 277"
  shows "fp_add binary32 (Fin a) (Fin b) = Fin (rnd_int 24 (a + b))"
  using assms r32.upper [of "a + b" c] r32.nonneg [of "a + b"]
  by (simp add: fp_round_int binary32_def Let_def)

lemma fp_sub_Fin: "fp_sub F (Fin a) (Fin b) = fp_round F (a - b) 1"
  by (simp add: fp_sub_def)

lemma fp_sub_Fin_ok:
  assumes "0 \<le> b" "b \<le> a" "representable 24 a" "a < 2 ^ 277"
  shows "fp_sub binary32 (Fin a) (Fin b) = Fin (rnd_int 24 (a - b))"
  using assms r32.upper [of "a - b" a] r32.nonneg [of "a - b"]
  by (simp add: fp_sub_Fin fp_round_int binary32_def Let_def)

lemma fp_le_Fin [simp]: "fp_le (Fin a) (Fin b) \<longleftrightarrow> a \<le> b"
  by (auto simp: fp_le_def)

section \<open>Evaluation of a rounding\<close>

text \<open>
  The rounding of a concrete ratio, by its number of dropped bits \<open>s\<close> and its significand
  \<open>m\<close>: checking them needs multiplications and comparisons only.
\<close>

lemma excess_eqI: "s = 0 \<or> 2 ^ (p + s - 1) \<le> n \<Longrightarrow> n < 2 ^ (p + s) \<Longrightarrow> excess p n = s"
proof -
  assume a: "s = 0 \<or> 2 ^ (p + s - 1) \<le> n" "n < 2 ^ (p + s)"
  have le: "excess p n \<le> s" using a(2) by (rule excess_le)
  moreover have "s \<le> excess p n" if "s \<noteq> 0"
  proof (rule ccontr)
    assume "\<not> s \<le> excess p n"
    then have "p + excess p n \<le> p + s - 1" by simp
    then have "(2::int) ^ (p + excess p n) \<le> 2 ^ (p + s - 1)" by (rule power_increasing) simp
    also have "\<dots> \<le> n" using a(1) that by blast
    also have "\<dots> < 2 ^ (p + excess p n)" by (rule excess_upper)
    finally show False by simp
  qed
  ultimately show ?thesis by (cases "s = 0") auto
qed

lemma rhe_eqI:
  assumes q: "0 < q" and le: "2 * a - q \<le> 2 * (m * q)" "2 * (m * q) \<le> 2 * a + q"
    and tie: "even m \<or> (2 * a - q < 2 * (m * q) \<and> 2 * (m * q) < 2 * a + q)"
  shows "rhe a q = m"
proof -
  define d where "d = rhe a q - m"
  note R = rhe_cases [OF q, of a]
  have dq: "d * q = rhe a q * q - m * q" by (simp add: d_def left_diff_distrib)
  have "d * q \<le> 1 * q" "- d * q \<le> 1 * q" using R(1,2) le dq by simp_all
  then have "d \<le> 1" "- d \<le> 1" using q by (simp_all only: mult_le_cancel_right_pos)
  then consider "d = 0" | "d = 1" | "d = -1" by linarith
  then show ?thesis
  proof cases
    case 1
    then show ?thesis by (simp add: d_def)
  next
    case 2
    then have "2 * (rhe a q * q) = 2 * a + q" "2 * (m * q) = 2 * a - q" using R(1,2) le dq by simp_all
    then have "even (rhe a q)" "even m" using R(3) tie by auto
    then have "even (rhe a q - m)" by simp
    with 2 show ?thesis by (simp add: d_def)
  next
    case 3
    then have "2 * a - q = 2 * (rhe a q * q)" "2 * (m * q) = 2 * a + q" using R(1,2) le dq by simp_all
    then have "even (rhe a q)" "even m" using R(3) tie by auto
    then have "even (rhe a q - m)" by simp
    with 3 show ?thesis by (simp add: d_def)
  qed
qed

lemma zdiv_less_mult: "0 < b \<Longrightarrow> a < c * b \<Longrightarrow> a div b < c" for a b c :: int
proof (rule ccontr)
  assume b: "0 < b" and a: "a < c * b" and "\<not> a div b < c"
  then have "c * b \<le> a div b * b" by (intro mult_right_mono) auto
  also have "\<dots> \<le> a" using b by (simp add: minus_mod_eq_div_mult [symmetric])
  finally show False using a by simp
qed

lemma fp_round_evalI:
  assumes "0 \<le> m" "0 < b" "s = 0 \<or> 2 ^ (prec F + s - 1) * b \<le> a" "0 \<le> a" "a < 2 ^ (prec F + s) * b"
    "2 * a - b * 2 ^ s \<le> 2 * (m * (b * 2 ^ s))" "2 * (m * (b * 2 ^ s)) \<le> 2 * a + b * 2 ^ s"
    "even m \<or> (2 * a - b * 2 ^ s < 2 * (m * (b * 2 ^ s)) \<and> 2 * (m * (b * 2 ^ s)) < 2 * a + b * 2 ^ s)"
    "m * 2 ^ s = k" "k < 2 ^ top_exp F"
  shows "fp_round F a b = Fin k"
proof -
  have "2 ^ (prec F + s - 1) \<le> a div b" if "2 ^ (prec F + s - 1) * b \<le> a"
    using zdiv_mono1 [OF that assms(2)] assms(2) by simp
  moreover have "a div b < 2 ^ (prec F + s)"
    using assms(2,5) by (intro zdiv_less_mult)
  ultimately have s: "excess (prec F) (a div b) = s" using assms(3) by (intro excess_eqI) auto
  have "0 \<le> k" using assms(1,9) by auto
  moreover have "(0::int) < 2 ^ top_exp F" by simp
  ultimately have "\<not> k \<le> - (2 ^ top_exp F)" by linarith
  then show ?thesis using assms(4,9,10) rhe_eqI [OF _ assms(6-8)] assms(2)
    by (simp add: fp_round_def rnd_sgn_def rnd_ratio_def s Let_def)
qed


text \<open>A common factor of numerator and denominator does not matter.\<close>

lemma rhe_scale: "0 < c \<Longrightarrow> 0 < q \<Longrightarrow> rhe (p * c) (q * c) = rhe p q"
proof -
  assume c: "0 < c" "0 < q"
  then have "rhe (p * c) (q * c) \<le> rhe p q" "rhe p q \<le> rhe (p * c) (q * c)"
    by (intro rhe_mono; simp)+
  then show ?thesis by simp
qed

lemma fp_round_scale: "0 < c \<Longrightarrow> 0 < b \<Longrightarrow> fp_round F (a * c) (b * c) = fp_round F a b"
proof -
  assume c: "0 < c" "0 < b"
  have "rhe (x * c) (b * c * 2 ^ s) = rhe x (b * 2 ^ s)" for x s
    using rhe_scale [of c "b * 2 ^ s" x] c by (simp add: ac_simps)
  then have r: "rnd_ratio p (x * c) (b * c) = rnd_ratio p x b" for p x
    using c by (simp add: rnd_ratio_def Let_def)
  have "rnd_sgn p (a * c) (b * c) = rnd_sgn p a b" for p
    using c r [of p a] r [of p "- a"] by (simp add: rnd_sgn_def mult_less_0_iff)
  then show ?thesis by (simp add: fp_round_def)
qed

end
