(* ===== verification/TaskManager.thy ===== *)
theory TaskManager
  imports Float32
begin

text \<open>
  \<open>smp_test/task_manager.c\<close> and \<open>task_manager.h\<close>: the task and core tables, the two
  pointer stacks, the utilisation bounds, task splitting and core assignment of the SPA2
  partitioner, and the \<open>int\<close> arithmetic that computes the hyperperiod.

  Pointers into \<open>task_list\<close> and \<open>core_list\<close> are indices, NULL is \<^term>\<open>None\<close>.  The kernel
  calls the code issues (\<open>xTaskCreate\<close>, \<open>vTaskCoreAffinitySet\<close>) are recorded in order in
  the state; the handle that a creation returns is an argument \<open>mk\<close> of the definitions:
  \<open>mk n\<close> is the handle written by the \<open>n\<close>-th creation, \<^term>\<open>None\<close> if the kernel could not
  allocate the task (the code ignores the return value and the pointer is not written).
  \<open>printf\<close> output is not modelled; every branch that only prints is a branch of the model.
\<close>

section \<open>Constants and tables\<close>

definition NUM_OF_TASK :: nat where "NUM_OF_TASK = 7"
definition configNUMBER_OF_CORES :: nat where "configNUMBER_OF_CORES = 2"
definition MAX_NUM_TASKS :: nat where
  "MAX_NUM_TASKS = NUM_OF_TASK + configNUMBER_OF_CORES - 1"

definition Core0 :: u32 where "Core0 = 1"
definition Core1 :: u32 where "Core1 = 2"

record task_info =
  Task_Code :: nat
  Task_Name :: string
  Runtime :: u16
  Period :: u32
  Core_Affinity :: u32
  priority :: u8
  subnum :: u8
  my_ptr :: "handle option"
  splitted_ptr :: "handle option"
  Dependency :: bool
  Heavy :: bool
  Utilization :: f32

record task_stack =
  t_list :: "ptr list"
  t_top :: int

record core_info =
  Core_num :: u32
  C_Utilization :: f32
  pre_assigned :: bool

record core_stack =
  c_list :: "ptr list"
  c_top :: int
  Utilization_Bound :: f32

text \<open>The kernel calls issued by the partitioner, with the arguments that matter.\<close>

datatype kcall =
    CallTaskCreate nat nat u8 \<comment> \<open>table entry, task function, priority\<close>
  | CallMonitorCreate u8 \<comment> \<open>the monitor task of main, with its priority\<close>
  | CallCoreAffinitySet "handle option" u32

section \<open>Utilisation bounds\<close>

text \<open>
  \<open>pow\<close> is the C library's double-precision power function.  The expression is evaluated in
  \<open>double\<close> (\<open>n\<close> is promoted) and converted to \<open>float\<close> when it is assigned to \<open>U\<close>.
\<close>

definition get_Utilization :: "(f64 \<Rightarrow> f64 \<Rightarrow> f64) \<Rightarrow> f32" where
  "get_Utilization pow =
     (let n = fp_of_int binary32 (int NUM_OF_TASK);
          nd = fp_conv binary32 binary64 n;
          p = pow (fp_of_int binary64 2) (fp_div binary64 (fp_of_int binary64 1) nd);
          U = fp_mul binary64 nd (fp_sub binary64 p (fp_of_int binary64 1))
      in fp_conv binary64 binary32 U)"

definition get_lighttask :: "f32 \<Rightarrow> f32" where
  "get_lighttask U = fp_div binary32 U (fp_add binary32 (fp_of_int binary32 1) U)"

section \<open>The task stack\<close>

definition init_task_stack :: "task_stack \<Rightarrow> task_stack" where
  "init_task_stack s = s\<lparr>t_top := -1\<rparr>"

definition T_is_full :: "task_stack \<Rightarrow> bool" where
  "T_is_full s = (t_top s \<ge> int MAX_NUM_TASKS - 1)"

definition T_is_empty :: "task_stack \<Rightarrow> bool" where
  "T_is_empty s = (t_top s < 0)"

definition Pop_task :: "task_stack \<Rightarrow> fault + (ptr \<times> task_stack)" where
  "Pop_task s =
     (if T_is_empty s then Inr (None, s)
      else bindE (arr_get (t_list s) (t_top s)) (\<lambda>p.
        Inr (p, s\<lparr>t_top := t_top s - 1\<rparr>)))"

definition Push_task :: "ptr \<Rightarrow> task_stack \<Rightarrow> fault + task_stack" where
  "Push_task T s =
     (if T_is_full s then Inr s
      else bindE (arr_set (t_list s) (t_top s + 1) T) (\<lambda>l.
        Inr (s\<lparr>t_top := t_top s + 1, t_list := l\<rparr>)))"

section \<open>The core stack\<close>

definition init_core_stack :: "core_stack \<Rightarrow> core_stack" where
  "init_core_stack s = s\<lparr>c_top := -1\<rparr>"

definition C_is_full :: "core_stack \<Rightarrow> bool" where
  "C_is_full s = (c_top s \<ge> int configNUMBER_OF_CORES - 1)"

definition C_is_empty :: "core_stack \<Rightarrow> bool" where
  "C_is_empty s = (c_top s < 0)"

definition Pop_core :: "core_stack \<Rightarrow> fault + (ptr \<times> core_stack)" where
  "Pop_core s =
     (if C_is_empty s then Inr (None, s)
      else bindE (arr_get (c_list s) (c_top s)) (\<lambda>p.
        Inr (p, s\<lparr>c_top := c_top s - 1\<rparr>)))"

definition Push_core :: "ptr \<Rightarrow> core_stack \<Rightarrow> fault + core_stack" where
  "Push_core P s =
     (if C_is_full s then Inr s
      else bindE (arr_set (c_list s) (c_top s + 1) P) (\<lambda>l.
        Inr (s\<lparr>c_top := c_top s + 1, c_list := l\<rparr>)))"

text \<open>\<open>init_core\<close> pushes \<open>&core_list[0]\<close>, \<open>&core_list[1]\<close> in this order.\<close>

fun init_core_loop :: "nat list \<Rightarrow> core_stack \<Rightarrow> fault + core_stack" where
  "init_core_loop [] s = Inr s"
| "init_core_loop (i # is) s = bindE (Push_core (Some i) s) (init_core_loop is)"

definition init_core :: "core_stack \<Rightarrow> fault + core_stack" where
  "init_core s = init_core_loop [0..<configNUMBER_OF_CORES] (init_core_stack s)"

text \<open>
  \<open>get_min_core\<close>: the loop runs \<open>i\<close> from \<open>top - 1\<close> down to 0 and keeps the index of the
  strictly smaller utilisation.  With an empty stack it reads \<open>list[-1]\<close>.
\<close>

definition core_util :: "core_info list \<Rightarrow> core_stack \<Rightarrow> int \<Rightarrow> fault + fp" where
  "core_util cl s i = bindE (arr_get (c_list s) i) (\<lambda>p.
     bindE (deref cl p) (\<lambda>c. Inr (C_Utilization (cl ! c))))"

fun min_core_loop :: "core_info list \<Rightarrow> core_stack \<Rightarrow> nat \<Rightarrow> int \<Rightarrow> fault + int" where
  "min_core_loop cl s 0 min_i = Inr min_i"
| "min_core_loop cl s (Suc i) min_i =
     bindE (core_util cl s (int i)) (\<lambda>ui.
     bindE (core_util cl s min_i) (\<lambda>um.
       min_core_loop cl s i (if fp_lt ui um then int i else min_i)))"

definition get_min_core :: "core_info list \<Rightarrow> core_stack \<Rightarrow> fault + ptr" where
  "get_min_core cl s =
     bindE (min_core_loop cl s (nat (c_top s)) (c_top s)) (arr_get (c_list s))"

lemmas [stack_defs] = init_task_stack_def T_is_full_def T_is_empty_def Pop_task_def Push_task_def
  init_core_stack_def C_is_full_def C_is_empty_def Pop_core_def Push_core_def
  MAX_NUM_TASKS_def NUM_OF_TASK_def configNUMBER_OF_CORES_def

section \<open>The partitioner's state\<close>

record spa2 =
  task_list :: "task_info list"
  core_list :: "core_info list"
  task_manager :: task_stack
  UQ :: task_stack
  core_manager :: core_stack
  pre_assigned_core :: core_stack
  curr_idx :: int
  n_created :: nat
  kcalls :: "kcall list"

definition upd_task :: "nat \<Rightarrow> (task_info \<Rightarrow> task_info) \<Rightarrow> spa2 \<Rightarrow> spa2" where
  "upd_task i f s = s\<lparr>task_list := (task_list s)[i := f (task_list s ! i)]\<rparr>"

definition upd_core :: "nat \<Rightarrow> (core_info \<Rightarrow> core_info) \<Rightarrow> spa2 \<Rightarrow> spa2" where
  "upd_core c f s = s\<lparr>core_list := (core_list s)[c := f (core_list s ! c)]\<rparr>"

text \<open>The call \<open>xTaskCreate(t->Task_Code, ..., t->priority, &(t->my_ptr))\<close>.\<close>

definition create_task :: "(nat \<Rightarrow> handle option) \<Rightarrow> nat \<Rightarrow> spa2 \<Rightarrow> spa2" where
  "create_task mk i s =
     (let t = task_list s ! i;
          s1 = s\<lparr>kcalls := kcalls s @ [CallTaskCreate i (Task_Code t) (priority t)],
                 n_created := Suc (n_created s)\<rparr>
      in case mk (n_created s) of None \<Rightarrow> s1
         | Some h \<Rightarrow> upd_task i (\<lambda>t. t\<lparr>my_ptr := Some h\<rparr>) s1)"

section \<open>Initialising the tasks\<close>

definition init_task_entry :: "(nat \<Rightarrow> handle option) \<Rightarrow> f32 \<Rightarrow> nat \<Rightarrow> spa2 \<Rightarrow> fault + spa2" where
  "init_task_entry mk Light_bound i s =
     bindE (Push_task (Some i) (task_manager s)) (\<lambda>tm.
     bindE (arr_get (t_list tm) (int i)) (\<lambda>p.
     bindE (deref (task_list s) p) (\<lambda>t.
       let s1 = s\<lparr>task_manager := tm\<rparr>;
           s2 = upd_task t (\<lambda>x. x\<lparr>Utilization :=
                  fp_div binary32 (fp_of_int binary32 (uint (Runtime x)))
                                  (fp_of_int binary32 (uint (Period x)))\<rparr>) s1;
           s3 = (if fp_lt Light_bound (Utilization (task_list s2 ! t))
                 then upd_task t (\<lambda>x. x\<lparr>Heavy := True\<rparr>) s2 else s2)
       in Inr (create_task mk t s3))))"

fun init_task_loop :: "(nat \<Rightarrow> handle option) \<Rightarrow> f32 \<Rightarrow> nat list \<Rightarrow> spa2 \<Rightarrow> fault + spa2" where
  "init_task_loop mk lb [] s = Inr s"
| "init_task_loop mk lb (i # is) s = bindE (init_task_entry mk lb i s) (init_task_loop mk lb is)"

definition init_task ::
  "(f64 \<Rightarrow> f64 \<Rightarrow> f64) \<Rightarrow> (nat \<Rightarrow> handle option) \<Rightarrow> spa2 \<Rightarrow> fault + (f32 \<times> spa2)" where
  "init_task pow mk s =
     (let U = get_Utilization pow; Light_bound = get_lighttask U
      in bindE (init_task_loop mk Light_bound [0..<NUM_OF_TASK]
                  (s\<lparr>task_manager := init_task_stack (task_manager s)\<rparr>))
           (\<lambda>s'. Inr (U, s')))"

section \<open>Admission test, new tasks, splitting, assignment\<close>

fun sum_util :: "task_info list \<Rightarrow> task_stack \<Rightarrow> nat list \<Rightarrow> f32 \<Rightarrow> fault + f32" where
  "sum_util tab ts [] acc = Inr acc"
| "sum_util tab ts (i # is) acc =
     bindE (arr_get (t_list ts) (int i)) (\<lambda>p.
     bindE (deref tab p) (\<lambda>t.
       sum_util tab ts is (fp_add binary32 acc (Utilization (tab ! t)))))"

definition simple_test :: "nat \<Rightarrow> core_stack \<Rightarrow> task_info list \<Rightarrow> task_stack \<Rightarrow> fault + bool" where
  "simple_test num_of_Lower_T cs tab ts =
     bindE (sum_util tab ts [num_of_Lower_T + 1..<NUM_OF_TASK] (Fin 0)) (\<lambda>sum.
       Inr (\<not> fp_lt (fp_mul binary32 (fp_of_int binary32 (c_top cs)) (Utilization_Bound cs)) sum))"

definition new_task :: "int \<Rightarrow> ptr \<times> int" where
  "new_task idx = (if idx \<ge> int MAX_NUM_TASKS then (None, idx) else (Some (nat idx), idx + 1))"

text \<open>
  \<open>Task_split(T, Tail_T, C, &core_manager, &UQ)\<close>.  The runtime of the body is the product of
  its share and its period, truncated to \<open>uint16_t\<close>; the tail gets the rest.
\<close>

definition Task_split :: "(nat \<Rightarrow> handle option) \<Rightarrow> ptr \<Rightarrow> ptr \<Rightarrow> ptr \<Rightarrow> spa2 \<Rightarrow> fault + spa2" where
  "Task_split mk T Tail_T C s =
     bindE (deref (task_list s) T) (\<lambda>b.
     bindE (deref (task_list s) Tail_T) (\<lambda>t.
       let s1 = upd_task t (\<lambda>x. x\<lparr>Task_Name := Task_Name (task_list s ! b),
                  Period := Period (task_list s ! b), priority := priority (task_list s ! b)\<rparr>) s;
           Origin_U = Utilization (task_list s1 ! b);
           Origin_R = fp_of_int binary32 (uint (Runtime (task_list s1 ! b)))
       in bindE (deref (core_list s1) C) (\<lambda>c.
       let s2 = upd_task b (\<lambda>x. x\<lparr>Utilization :=
                  fp_sub binary32 (Utilization_Bound (core_manager s1)) (C_Utilization (core_list s1 ! c))\<rparr>) s1
       in bindE (fp_to_u16 binary32 (fp_mul binary32 (Utilization (task_list s2 ! b))
                  (fp_of_int binary32 (uint (Period (task_list s2 ! b)))))) (\<lambda>rb.
       let s3 = upd_task b (\<lambda>x. x\<lparr>Runtime := rb\<rparr>) s2;
           s4 = upd_task t (\<lambda>x. x\<lparr>Utilization :=
                  fp_sub binary32 Origin_U (Utilization (task_list s3 ! b))\<rparr>) s3
       in bindE (fp_to_u16 binary32 (fp_sub binary32 Origin_R
                  (fp_of_int binary32 (uint (Runtime (task_list s4 ! b)))))) (\<lambda>rt.
       let s5 = upd_task t (\<lambda>x. x\<lparr>Runtime := rt\<rparr>) s4;
           s6 = upd_task t (\<lambda>x. x\<lparr>subnum := subnum (task_list s5 ! b) + 1, Dependency := True\<rparr>) s5;
           s7 = create_task mk t s6;
           s8 = upd_task b (\<lambda>x. x\<lparr>splitted_ptr := my_ptr (task_list s7 ! t)\<rparr>) s7
       in bindE (Push_task (Some t) (UQ s8)) (\<lambda>uq. Inr (s8\<lparr>UQ := uq\<rparr>)))))))"

definition Assign_task :: "ptr \<Rightarrow> ptr \<Rightarrow> spa2 \<Rightarrow> fault + spa2" where
  "Assign_task T C s =
     bindE (deref (task_list s) T) (\<lambda>t.
     bindE (deref (core_list s) C) (\<lambda>c.
       let s1 = s\<lparr>kcalls := kcalls s @
                  [CallCoreAffinitySet (my_ptr (task_list s ! t)) (Core_num (core_list s ! c))]\<rparr>
       in Inr (upd_core c (\<lambda>x. x\<lparr>C_Utilization :=
                 fp_add binary32 (C_Utilization x) (Utilization (task_list s1 ! t))\<rparr>) s1)))"

section \<open>The hyperperiod\<close>

function C_gcd :: "int \<Rightarrow> int \<Rightarrow> fault + int" where
  "C_gcd a b =
     (if b = 0 then Inr a
      else case c_mod a b of Inl e \<Rightarrow> Inl e | Inr r \<Rightarrow> C_gcd b r)"
  by pat_completeness auto
termination
  by (relation "measure (\<lambda>(a, b). nat \<bar>b\<bar>)") (auto simp: c_mod_def smod_abs_less split: if_splits)

declare C_gcd.simps [simp del]

definition C_lcm :: "int \<Rightarrow> int \<Rightarrow> fault + int" where
  "C_lcm a b = bindE (chk32 (a * b)) (\<lambda>ab. bindE (C_gcd a b) (\<lambda>g. c_div ab g))"

fun lcm_loop :: "int \<Rightarrow> int list \<Rightarrow> fault + int" where
  "lcm_loop r [] = Inr r"
| "lcm_loop r (p # ps) = bindE (C_lcm r p) (\<lambda>r'. lcm_loop r' ps)"

text \<open>\<open>periods\<close> is an array of \<open>NUM_OF_TASK\<close> ints.\<close>

definition calculate_lcm :: "int list \<Rightarrow> fault + int" where
  "calculate_lcm periods =
     bindE (arr_get periods 0) (\<lambda>r. lcm_loop r (take (NUM_OF_TASK - 1) (drop 1 periods)))"

section \<open>Frame lemmas\<close>

lemma upd_task_frame [simp]:
  "core_list (upd_task i f s) = core_list s" "task_manager (upd_task i f s) = task_manager s"
  "UQ (upd_task i f s) = UQ s" "core_manager (upd_task i f s) = core_manager s"
  "pre_assigned_core (upd_task i f s) = pre_assigned_core s" "curr_idx (upd_task i f s) = curr_idx s"
  "kcalls (upd_task i f s) = kcalls s" "n_created (upd_task i f s) = n_created s"
  "length (task_list (upd_task i f s)) = length (task_list s)"
  by (simp_all add: upd_task_def)

lemma upd_core_frame [simp]:
  "task_list (upd_core i g s) = task_list s" "task_manager (upd_core i g s) = task_manager s"
  "UQ (upd_core i g s) = UQ s" "core_manager (upd_core i g s) = core_manager s"
  "pre_assigned_core (upd_core i g s) = pre_assigned_core s" "curr_idx (upd_core i g s) = curr_idx s"
  "kcalls (upd_core i g s) = kcalls s" "n_created (upd_core i g s) = n_created s"
  "length (core_list (upd_core i g s)) = length (core_list s)"
  by (simp_all add: upd_core_def)

lemma create_task_frame [simp]:
  "core_list (create_task mk i s) = core_list s" "task_manager (create_task mk i s) = task_manager s"
  "UQ (create_task mk i s) = UQ s" "core_manager (create_task mk i s) = core_manager s"
  "pre_assigned_core (create_task mk i s) = pre_assigned_core s"
  "curr_idx (create_task mk i s) = curr_idx s"
  "length (task_list (create_task mk i s)) = length (task_list s)"
  "n_created (create_task mk i s) = Suc (n_created s)"
  by (simp_all add: create_task_def Let_def split: option.splits)

lemma task_list_upd_task:
  "task_list (upd_task i f s) ! j =
     (if i = j \<and> i < length (task_list s) then f (task_list s ! i) else task_list s ! j)"
  by (cases "i = j"; cases "i < length (task_list s)") (simp_all add: upd_task_def list_update_beyond)

lemma core_list_upd_core:
  "core_list (upd_core i g s) ! j =
     (if i = j \<and> i < length (core_list s) then g (core_list s ! i) else core_list s ! j)"
  by (cases "i = j"; cases "i < length (core_list s)") (simp_all add: upd_core_def list_update_beyond)

lemma create_task_nth:
  "task_list (create_task mk i s) ! j =
     (case mk (n_created s) of None \<Rightarrow> task_list s ! j
      | Some h \<Rightarrow> if i = j \<and> i < length (task_list s) then (task_list s ! i)\<lparr>my_ptr := Some h\<rparr>
                  else task_list s ! j)"
  by (auto simp: create_task_def Let_def task_list_upd_task split: option.splits)

lemma create_task_Utilization [simp]:
  "Utilization (task_list (create_task mk i s) ! j) = Utilization (task_list s ! j)"
  by (auto simp: create_task_nth split: option.splits)

end
