(* ===== verification/Partition.thy ===== *)
theory Partition
  imports TaskManager
begin

text \<open>
  The partitioning algorithm of \<open>main\<close> in \<open>smp_test/main.c\<close>, compiled with \<open>SPA2 = 1\<close>:
  the initial tables, the pre-assignment of heavy tasks, and the normal assignment that
  fills the least loaded core and splits the task that does not fit.
\<close>

section \<open>The initial tables\<close>

definition mk_entry :: "nat \<Rightarrow> string \<Rightarrow> u16 \<Rightarrow> u32 \<Rightarrow> u32 \<Rightarrow> u8 \<Rightarrow> task_info" where
  "mk_entry code nm run per core prio =
     \<lparr>Task_Code = code, Task_Name = nm, Runtime = run, Period = per, Core_Affinity = core,
      priority = prio, subnum = 1, my_ptr = None, splitted_ptr = None, Dependency = False,
      Heavy = False, Utilization = Fin 0\<rparr>"

definition task_list_init :: "task_info list" where
  "task_list_init =
    [mk_entry 0 ''TASK 0'' 3 30 Core0 7,
     mk_entry 1 ''TASK 1'' 2 30 Core1 6,
     mk_entry 2 ''TASK 2'' 3 30 Core1 5,
     mk_entry 3 ''TASK 3'' 8 35 Core0 4,
     mk_entry 4 ''TASK 4'' 36 50 Core0 3,
     mk_entry 5 ''TASK 5'' 12 100 0 2,
     mk_entry 6 ''TASK 6'' 12 100 0 1,
     mk_entry 7 ''Extra T'' 0 0 0 1]"

definition core_list_init :: "core_info list" where
  "core_list_init =
    [\<lparr>Core_num = Core0, C_Utilization = Fin 0, pre_assigned = False\<rparr>,
     \<lparr>Core_num = Core1, C_Utilization = Fin 0, pre_assigned = False\<rparr>]"

text \<open>The file-scope variables before \<open>main\<close> runs: zero-initialised, but for the two tables.\<close>

definition zero_task_stack :: task_stack where
  "zero_task_stack = \<lparr>t_list = replicate MAX_NUM_TASKS None, t_top = 0\<rparr>"

definition zero_core_stack :: core_stack where
  "zero_core_stack = \<lparr>c_list = replicate configNUMBER_OF_CORES None, c_top = 0, Utilization_Bound = Fin 0\<rparr>"

definition globals :: "task_info list \<Rightarrow> spa2" where
  "globals tab =
     \<lparr>task_list = tab, core_list = core_list_init, task_manager = zero_task_stack,
      UQ = zero_task_stack, core_manager = zero_core_stack, pre_assigned_core = zero_core_stack,
      curr_idx = 0, n_created = 0, kcalls = []\<rparr>"

section \<open>The two assignment loops\<close>

definition pre_assign_step :: "nat \<Rightarrow> spa2 \<Rightarrow> fault + spa2" where
  "pre_assign_step i s =
     bindE (arr_get (t_list (task_manager s)) (int i)) (\<lambda>T.
     bindE (deref (task_list s) T) (\<lambda>t.
     bindE (if Heavy (task_list s ! t)
            then simple_test i (core_manager s) (task_list s) (task_manager s) else Inr False) (\<lambda>ok.
       if ok then
         bindE (Pop_core (core_manager s)) (\<lambda>(C, cm).
         bindE (Assign_task T C (s\<lparr>core_manager := cm\<rparr>)) (\<lambda>s1.
         bindE (deref (core_list s1) C) (\<lambda>c.
           let s2 = upd_core c (\<lambda>x. x\<lparr>pre_assigned := True\<rparr>) s1
           in bindE (Push_core C (pre_assigned_core s2)) (\<lambda>pc.
             Inr (s2\<lparr>pre_assigned_core := pc\<rparr>)))))
       else bindE (Push_task T (UQ s)) (\<lambda>uq. Inr (s\<lparr>UQ := uq\<rparr>)))))"

fun pre_assign :: "nat list \<Rightarrow> spa2 \<Rightarrow> fault + spa2" where
  "pre_assign [] s = Inr s"
| "pre_assign (i # is) s = bindE (pre_assign_step i s) (pre_assign is)"

datatype 'a loop = Brk 'a | Cont 'a

text \<open>The choice of the core: the least loaded one, or a pre-assigned one when that is full.\<close>

definition select_core :: "f32 \<Rightarrow> ptr \<Rightarrow> spa2 \<Rightarrow> fault + (ptr \<times> bool \<times> spa2)" where
  "select_core ub min_C s =
     bindE (deref (core_list s) min_C) (\<lambda>c.
       if fp_le ub (C_Utilization (core_list s ! c)) then
         bindE (Pop_core (pre_assigned_core s)) (\<lambda>(p, pc).
         bindE (deref (core_list s) p) (\<lambda>c'.
           Inr (p, fp_le ub (C_Utilization (core_list s ! c')), s\<lparr>pre_assigned_core := pc\<rparr>)))
       else Inr (min_C, False, s))"

definition place_task :: "(nat \<Rightarrow> handle option) \<Rightarrow> f32 \<Rightarrow> ptr \<Rightarrow> ptr \<Rightarrow> spa2 \<Rightarrow> fault + spa2" where
  "place_task mk ub T C s =
     bindE (deref (core_list s) C) (\<lambda>c.
     bindE (deref (task_list s) T) (\<lambda>t.
       if fp_le (fp_add binary32 (C_Utilization (core_list s ! c)) (Utilization (task_list s ! t))) ub
       then Assign_task T C s
       else (case new_task (curr_idx s) of (Tail_T, idx) \<Rightarrow>
         bindE (Task_split mk T Tail_T C (s\<lparr>curr_idx := idx\<rparr>)) (Assign_task T C))))"

definition normal_step :: "(nat \<Rightarrow> handle option) \<Rightarrow> f32 \<Rightarrow> spa2 \<Rightarrow> fault + spa2 loop" where
  "normal_step mk ub s =
     bindE (get_min_core (core_list s) (core_manager s)) (\<lambda>min_C.
     bindE (Pop_task (UQ s)) (\<lambda>(T, uq).
     bindE (select_core ub min_C (s\<lparr>UQ := uq\<rparr>)) (\<lambda>(C, full, s1).
       if full then Inr (Brk s1)
       else bindE (place_task mk ub T C s1) (\<lambda>s2.
         bindE (deref (core_list s2) C) (\<lambda>c.
           if pre_assigned (core_list s2 ! c)
           then bindE (Push_core C (pre_assigned_core s2)) (\<lambda>pc. Inr (Cont (s2\<lparr>pre_assigned_core := pc\<rparr>)))
           else Inr (Cont s2))))))"

section \<open>Termination of the normal assignment\<close>

text \<open>
  Every round takes a task off the queue; a round that splits puts the tail back, but uses up
  one of the \<open>MAX_NUM_TASKS\<close> entries of \<open>task_list\<close>.
\<close>

definition work_left :: "spa2 \<Rightarrow> nat" where
  "work_left s = nat (t_top (UQ s) + 1) + 2 * nat (int MAX_NUM_TASKS - curr_idx s)"

lemma Push_task_top: "Push_task T s = Inr s' \<Longrightarrow> t_top s' \<le> t_top s + 1"
  by (auto simp: Push_task_def split: if_splits)

lemma Pop_task_top:
  "Pop_task s = Inr (T, s') \<Longrightarrow> \<not> T_is_empty s \<Longrightarrow> t_top s' = t_top s - 1 \<and> t_list s' = t_list s"
  by (auto simp: Pop_task_def)

lemma Assign_task_frame:
  assumes "Assign_task T C s = Inr s'"
  shows "task_list s' = task_list s" "UQ s' = UQ s" "curr_idx s' = curr_idx s"
    "core_manager s' = core_manager s" "pre_assigned_core s' = pre_assigned_core s"
    "task_manager s' = task_manager s" "n_created s' = n_created s"
    "length (core_list s') = length (core_list s)"
  using assms by (auto simp: Assign_task_def Let_def)

lemma Task_split_frame:
  assumes "Task_split mk T Tail C s = Inr s'"
  shows "core_list s' = core_list s" "curr_idx s' = curr_idx s"
    "core_manager s' = core_manager s" "pre_assigned_core s' = pre_assigned_core s"
    "task_manager s' = task_manager s" "t_top (UQ s') \<le> t_top (UQ s) + 1"
    "length (task_list s') = length (task_list s)" "Tail \<noteq> None"
  using assms by (auto simp: Task_split_def Let_def dest!: Push_task_top)

lemma select_core_frame:
  assumes "select_core ub p s = Inr (C, full, s')"
  shows "core_list s' = core_list s" "UQ s' = UQ s" "curr_idx s' = curr_idx s"
    "task_list s' = task_list s" "core_manager s' = core_manager s" "task_manager s' = task_manager s"
  using assms by (auto simp: select_core_def split: if_splits)

lemma place_taskE:
  assumes "place_task mk ub T C s = Inr s'"
  obtains (fits) c t where "C = Some c" "T = Some t" "c < length (core_list s)" "t < length (task_list s)"
      "fp_le (fp_add binary32 (C_Utilization (core_list s ! c)) (Utilization (task_list s ! t))) ub"
      "Assign_task T C s = Inr s'"
  | (split) c t s1 where "C = Some c" "T = Some t" "c < length (core_list s)" "t < length (task_list s)"
      "\<not> fp_le (fp_add binary32 (C_Utilization (core_list s ! c)) (Utilization (task_list s ! t))) ub"
      "curr_idx s < int MAX_NUM_TASKS"
      "Task_split mk T (Some (nat (curr_idx s))) C (s\<lparr>curr_idx := curr_idx s + 1\<rparr>) = Inr s1"
      "Assign_task T C s1 = Inr s'"
  using assms Task_split_frame(8)
  by (fastforce simp: place_task_def new_task_def split: if_splits prod.splits)

lemma place_task_work:
  assumes "place_task mk ub T C s = Inr s'"
  shows "work_left s' \<le> work_left s"
  using assms
proof (cases rule: place_taskE)
  case fits
  then show ?thesis by (simp add: work_left_def Assign_task_frame)
next
  case (split c t s1)
  then show ?thesis
    using Task_split_frame(2,6) [OF split(7)] by (auto simp: work_left_def Assign_task_frame)
qed

lemma normal_step_work:
  assumes "normal_step mk ub s = Inr (Cont s')" "\<not> T_is_empty (UQ s)"
  shows "work_left s' < work_left s"
proof -
  from assms(1) obtain m T uq C s1 s2 where
    pop: "Pop_task (UQ s) = Inr (T, uq)" and
    sel: "select_core ub m (s\<lparr>UQ := uq\<rparr>) = Inr (C, False, s1)" and
    put: "place_task mk ub T C s1 = Inr s2" and
    s': "UQ s' = UQ s2" "curr_idx s' = curr_idx s2"
    by (fastforce simp: normal_step_def split: if_splits prod.splits)
  have "work_left s' \<le> work_left s1"
    using place_task_work [OF put] s' by (simp add: work_left_def)
  also have "\<dots> = work_left (s\<lparr>UQ := uq\<rparr>)"
    using select_core_frame(2,3) [OF sel] by (simp add: work_left_def)
  also have "\<dots> < work_left s"
    using Pop_task_top [OF pop assms(2)] assms(2) by (simp add: work_left_def T_is_empty_def)
  finally show ?thesis .
qed

function normal_assign :: "(nat \<Rightarrow> handle option) \<Rightarrow> f32 \<Rightarrow> spa2 \<Rightarrow> fault + spa2" where
  "normal_assign mk ub s =
     (if T_is_empty (UQ s) then Inr s
      else case normal_step mk ub s of
        Inl e \<Rightarrow> Inl e
      | Inr (Brk s') \<Rightarrow> Inr s'
      | Inr (Cont s') \<Rightarrow> normal_assign mk ub s')"
  by pat_completeness auto
termination
  by (relation "measure (\<lambda>(mk, ub, s). work_left s)") (auto intro: normal_step_work)

declare normal_assign.simps [simp del]

section \<open>main\<close>

text \<open>
  \<open>main\<close> up to \<open>vTaskStartScheduler\<close>.  The utilisations printed at the end are read through
  \<open>core_manager.list[0]\<close> and \<open>list[1]\<close>.
\<close>

definition main_spa2 ::
  "(f64 \<Rightarrow> f64 \<Rightarrow> f64) \<Rightarrow> (nat \<Rightarrow> handle option) \<Rightarrow> spa2 \<Rightarrow> fault + spa2" where
  "main_spa2 pow mk s =
     (let s0 = s\<lparr>kcalls := kcalls s @ [CallMonitorCreate 10], n_created := Suc (n_created s)\<rparr>
      in bindE (init_core (core_manager s0)) (\<lambda>cm.
         bindE (init_task pow mk (s0\<lparr>core_manager := cm\<rparr>)) (\<lambda>(ub, s1).
           let s2 = s1\<lparr>curr_idx := int NUM_OF_TASK,
                       core_manager := (core_manager s1)\<lparr>Utilization_Bound := ub\<rparr>,
                       pre_assigned_core := init_core_stack ((pre_assigned_core s1)\<lparr>Utilization_Bound := ub\<rparr>),
                       UQ := init_task_stack (UQ s1)\<rparr>
           in bindE (pre_assign [0..<NUM_OF_TASK] s2) (\<lambda>s3.
              bindE (normal_assign mk ub s3) (\<lambda>s4.
              bindE (core_util (core_list s4) (core_manager s4) 0) (\<lambda>_.
              bindE (core_util (core_list s4) (core_manager s4) 1) (\<lambda>_. Inr s4)))))))"

end
