(* ===== verification/TaskManagerProps.thy ===== *)
theory TaskManagerProps
  imports TaskManager
begin

text \<open>
  What the operations of \<open>task_manager.c\<close> guarantee: the two stacks implement one bounded
  stack interface (\<open>bounded_stack\<close>), \<open>get_min_core\<close> finds a least loaded core, a split
  loses no execution time, and the hyperperiod arithmetic computes the least common multiple.
\<close>

section \<open>The interface of a bounded stack of pointers\<close>

locale bounded_stack =
  fixes push :: "ptr \<Rightarrow> 's \<Rightarrow> fault + 's"
    and pop :: "'s \<Rightarrow> fault + (ptr \<times> 's)"
    and contents :: "'s \<Rightarrow> ptr list"
    and invar :: "'s \<Rightarrow> bool"
    and cap :: nat
  assumes push_room: "invar s \<Longrightarrow> length (contents s) < cap \<Longrightarrow>
      \<exists>s'. push x s = Inr s' \<and> invar s' \<and> contents s' = x # contents s"
    and push_full: "invar s \<Longrightarrow> length (contents s) = cap \<Longrightarrow> push x s = Inr s"
    and pop_some: "invar s \<Longrightarrow> contents s = x # xs \<Longrightarrow>
      \<exists>s'. pop s = Inr (x, s') \<and> invar s' \<and> contents s' = xs"
    and pop_none: "invar s \<Longrightarrow> contents s = [] \<Longrightarrow> pop s = Inr (None, s)"
    and bounded: "invar s \<Longrightarrow> length (contents s) \<le> cap"
begin

lemma push_total: "invar s \<Longrightarrow> \<exists>s'. push x s = Inr s' \<and> invar s'"
  using push_room push_full bounded by (metis le_neq_implies_less)

lemma pop_total: "invar s \<Longrightarrow> \<exists>p s'. pop s = Inr (p, s') \<and> invar s'"
  using pop_some pop_none by (cases "contents s") blast+

lemma push_contents:
  "invar s \<Longrightarrow> push x s = Inr s' \<Longrightarrow>
     invar s' \<and> contents s' = (if length (contents s) < cap then x # contents s else contents s)"
  using push_room [of s x] push_full [of s x] bounded [of s] by (cases "length (contents s) < cap") auto

lemma pop_contents:
  "invar s \<Longrightarrow> pop s = Inr (p, s') \<Longrightarrow> invar s' \<and>
     (case contents s of [] \<Rightarrow> p = None \<and> s' = s | x # xs \<Rightarrow> p = x \<and> contents s' = xs)"
  using pop_some pop_none by (cases "contents s") fastforce+

lemma pop_push:
  "invar s \<Longrightarrow> length (contents s) < cap \<Longrightarrow> push x s = Inr s' \<Longrightarrow>
     \<exists>s''. pop s' = Inr (x, s'') \<and> contents s'' = contents s"
  using push_contents pop_some by fastforce

end

section \<open>Both stacks implement it\<close>

definition t_contents :: "task_stack \<Rightarrow> ptr list" where
  "t_contents s = rev (take (nat (t_top s + 1)) (t_list s))"

definition t_invar :: "task_stack \<Rightarrow> bool" where
  "t_invar s \<longleftrightarrow> length (t_list s) = MAX_NUM_TASKS \<and> -1 \<le> t_top s \<and> t_top s < int MAX_NUM_TASKS"

definition c_contents :: "core_stack \<Rightarrow> ptr list" where
  "c_contents s = rev (take (nat (c_top s + 1)) (c_list s))"

definition c_invar :: "core_stack \<Rightarrow> bool" where
  "c_invar s \<longleftrightarrow> length (c_list s) = configNUMBER_OF_CORES \<and> -1 \<le> c_top s \<and>
     c_top s < int configNUMBER_OF_CORES"

lemma rev_take_Suc: "n < length xs \<Longrightarrow> rev (take (Suc n) xs) = xs ! n # rev (take n xs)"
  by (simp add: take_Suc_conv_app_nth)

lemma take_Suc_update: "n < length xs \<Longrightarrow> take (Suc n) (xs[n := x]) = take n xs @ [x]"
  by (simp add: take_Suc_conv_app_nth)

lemma rev_take_Cons: "rev (take n xs) = y # ys \<Longrightarrow> n \<le> length xs \<Longrightarrow>
    0 < n \<and> y = xs ! (n - 1) \<and> ys = rev (take (n - 1) xs)"
  by (cases n) (auto simp: rev_take_Suc)

lemma t_contents_empty: "t_invar s \<Longrightarrow> t_contents s = [] \<longleftrightarrow> T_is_empty s"
  by (auto simp: t_contents_def t_invar_def T_is_empty_def MAX_NUM_TASKS_def NUM_OF_TASK_def
      configNUMBER_OF_CORES_def)

lemma t_contents_length: "t_invar s \<Longrightarrow> length (t_contents s) = nat (t_top s + 1)"
  by (auto simp: t_contents_def t_invar_def)

lemma c_contents_length: "c_invar s \<Longrightarrow> length (c_contents s) = nat (c_top s + 1)"
  by (auto simp: c_contents_def c_invar_def)

interpretation ts: bounded_stack Push_task Pop_task t_contents t_invar MAX_NUM_TASKS
proof
  fix s x assume inv: "t_invar s" and len: "length (t_contents s) < MAX_NUM_TASKS"
  then have "nat (t_top s + 1) < length (t_list s)"
    by (simp add: t_contents_length t_invar_def)
  moreover from inv have "nat (t_top s + 1 + 1) = Suc (nat (t_top s + 1))"
    unfolding t_invar_def by arith
  ultimately show "\<exists>s'. Push_task x s = Inr s' \<and> t_invar s' \<and> t_contents s' = x # t_contents s"
    using inv len by (auto simp: Push_task_def T_is_full_def arr_set_def t_contents_length
        t_contents_def t_invar_def take_Suc_update)
next
  fix s x assume "t_invar s" "length (t_contents s) = MAX_NUM_TASKS"
  then have "int MAX_NUM_TASKS - 1 \<le> t_top s"
    using t_contents_length [of s] unfolding t_invar_def by linarith
  then show "Push_task x s = Inr s" by (simp add: Push_task_def T_is_full_def)
next
  fix s x xs assume inv: "t_invar s" and c: "t_contents s = x # xs"
  then have top: "0 \<le> t_top s" using t_contents_length [OF inv] by simp
  have "0 < nat (t_top s + 1) \<and> x = t_list s ! (nat (t_top s + 1) - 1) \<and>
      xs = rev (take (nat (t_top s + 1) - 1) (t_list s))"
    using c inv unfolding t_contents_def by (intro rev_take_Cons) (auto simp: t_invar_def)
  moreover have "nat (t_top s + 1) - 1 = nat (t_top s)" using top by simp
  ultimately show "\<exists>s'. Pop_task s = Inr (x, s') \<and> t_invar s' \<and> t_contents s' = xs"
    using inv top by (auto simp: Pop_task_def T_is_empty_def arr_get_def t_contents_def t_invar_def)
next
  fix s assume "t_invar s" "t_contents s = []"
  then show "Pop_task s = Inr (None, s)" by (simp add: Pop_task_def t_contents_empty)
next
  fix s assume "t_invar s"
  then show "length (t_contents s) \<le> MAX_NUM_TASKS" by (auto simp: t_contents_length t_invar_def)
qed

interpretation cs: bounded_stack Push_core Pop_core c_contents c_invar configNUMBER_OF_CORES
proof
  fix s x assume inv: "c_invar s" and len: "length (c_contents s) < configNUMBER_OF_CORES"
  then have "nat (c_top s + 1) < length (c_list s)"
    by (simp add: c_contents_length c_invar_def)
  moreover from inv have "nat (c_top s + 1 + 1) = Suc (nat (c_top s + 1))"
    unfolding c_invar_def by arith
  ultimately show "\<exists>s'. Push_core x s = Inr s' \<and> c_invar s' \<and> c_contents s' = x # c_contents s"
    using inv len by (auto simp: Push_core_def C_is_full_def arr_set_def c_contents_length
        c_contents_def c_invar_def take_Suc_update)
next
  fix s x assume "c_invar s" "length (c_contents s) = configNUMBER_OF_CORES"
  then have "int configNUMBER_OF_CORES - 1 \<le> c_top s"
    using c_contents_length [of s] unfolding c_invar_def by linarith
  then show "Push_core x s = Inr s" by (simp add: Push_core_def C_is_full_def)
next
  fix s x xs assume inv: "c_invar s" and c: "c_contents s = x # xs"
  then have top: "0 \<le> c_top s" using c_contents_length [OF inv] by simp
  have "0 < nat (c_top s + 1) \<and> x = c_list s ! (nat (c_top s + 1) - 1) \<and>
      xs = rev (take (nat (c_top s + 1) - 1) (c_list s))"
    using c inv unfolding c_contents_def by (intro rev_take_Cons) (auto simp: c_invar_def)
  moreover have "nat (c_top s + 1) - 1 = nat (c_top s)" using top by simp
  ultimately show "\<exists>s'. Pop_core s = Inr (x, s') \<and> c_invar s' \<and> c_contents s' = xs"
    using inv top by (auto simp: Pop_core_def C_is_empty_def arr_get_def c_contents_def c_invar_def)
next
  fix s assume "c_invar s" "c_contents s = []"
  then show "Pop_core s = Inr (None, s)"
    using c_contents_length [of s] by (simp add: Pop_core_def C_is_empty_def)
next
  fix s assume "c_invar s"
  then show "length (c_contents s) \<le> configNUMBER_OF_CORES" by (auto simp: c_contents_length c_invar_def)
qed

section \<open>The least loaded core\<close>

text \<open>\<open>fin_cores\<close>: the stack points to cores whose recorded utilisations are numbers.\<close>

definition fin_cores :: "core_info list \<Rightarrow> core_stack \<Rightarrow> bool" where
  "fin_cores cl s \<longleftrightarrow> c_invar s \<and>
     (\<forall>p \<in> set (c_contents s). \<exists>c. p = Some c \<and> c < length cl \<and> (\<exists>k. C_Utilization (cl ! c) = Fin k))"

fun fin_val :: "fp \<Rightarrow> int" where
  "fin_val (Fin k) = k"
| "fin_val _ = 0"

definition load_at :: "core_info list \<Rightarrow> core_stack \<Rightarrow> nat \<Rightarrow> int" where
  "load_at cl s j = fin_val (C_Utilization (cl ! the (c_list s ! j)))"

lemma fin_cores_nth:
  assumes "fin_cores cl s" "int j \<le> c_top s"
  shows "\<exists>c. c_list s ! j = Some c \<and> c < length cl \<and> C_Utilization (cl ! c) = Fin (load_at cl s j)"
proof -
  have len: "length (c_list s) = configNUMBER_OF_CORES" "c_top s < int configNUMBER_OF_CORES"
    using assms(1) by (auto simp: fin_cores_def c_invar_def)
  have "j < nat (c_top s + 1)" "j < length (c_list s)" using assms(2) len by linarith+
  then have "c_list s ! j \<in> set (c_contents s)"
    unfolding c_contents_def by (auto simp: in_set_conv_nth intro!: exI [of _ j])
  with assms(1) show ?thesis by (fastforce simp: fin_cores_def load_at_def)
qed

lemma core_util_ok:
  assumes "fin_cores cl s" "int j \<le> c_top s"
  shows "core_util cl s (int j) = Inr (Fin (load_at cl s j))"
proof -
  have "int j < int (length (c_list s))"
    using assms by (auto simp: fin_cores_def c_invar_def)
  with fin_cores_nth [OF assms] show ?thesis by (auto simp: core_util_def)
qed

lemma min_core_loop_ok:
  assumes "fin_cores cl s" "int m \<le> c_top s" "int i \<le> c_top s"
  shows "\<exists>r. min_core_loop cl s i (int m) = Inr (int r) \<and> int r \<le> c_top s \<and>
     load_at cl s r \<le> load_at cl s m \<and> (\<forall>j < i. load_at cl s r \<le> load_at cl s j)"
  using assms(2,3)
proof (induction i arbitrary: m)
  case 0
  then show ?case by (intro exI [of _ m]) simp
next
  case (Suc i)
  define m' where "m' = (if load_at cl s i < load_at cl s m then i else m)"
  have step: "min_core_loop cl s (Suc i) (int m) = min_core_loop cl s i (int m')"
    using Suc.prems core_util_ok [OF assms(1), of i] core_util_ok [OF assms(1), of m]
    by (simp add: m'_def)
  have "int m' \<le> c_top s" using Suc.prems by (simp add: m'_def)
  then obtain r where r: "min_core_loop cl s i (int m') = Inr (int r)" "int r \<le> c_top s"
      "load_at cl s r \<le> load_at cl s m'" "\<forall>j < i. load_at cl s r \<le> load_at cl s j"
    using Suc.IH [of m'] Suc.prems by auto
  have "load_at cl s m' \<le> load_at cl s m" "load_at cl s m' \<le> load_at cl s i"
    by (auto simp: m'_def)
  with r step show ?case by (intro exI [of _ r]) (auto simp: less_Suc_eq)
qed

lemma get_min_core_ok:
  assumes "fin_cores cl s" "c_contents s \<noteq> []"
  shows "\<exists>c k. get_min_core cl s = Inr (Some c) \<and> Some c \<in> set (c_contents s) \<and> c < length cl \<and>
     C_Utilization (cl ! c) = Fin k \<and>
     (\<forall>c'. Some c' \<in> set (c_contents s) \<longrightarrow> k \<le> fin_val (C_Utilization (cl ! c')))"
proof -
  have inv: "c_invar s" using assms(1) by (simp add: fin_cores_def)
  have top: "0 \<le> c_top s" using assms(2) c_contents_length [OF inv] by (cases "c_contents s") auto
  define t where "t = nat (c_top s)"
  have t: "c_top s = int t" using top by (simp add: t_def)
  from min_core_loop_ok [OF assms(1), of t t]
  obtain r where r: "min_core_loop cl s t (int t) = Inr (int r)" "r \<le> t"
      "load_at cl s r \<le> load_at cl s t" "\<forall>j < t. load_at cl s r \<le> load_at cl s j"
    by (auto simp: t)
  have len: "t < length (c_list s)" using inv t by (auto simp: c_invar_def)
  obtain c where c: "c_list s ! r = Some c" "c < length cl" "C_Utilization (cl ! c) = Fin (load_at cl s r)"
    using fin_cores_nth [OF assms(1), of r] r(2) t by auto
  have get: "get_min_core cl s = Inr (Some c)"
    using r(1,2) len c(1) by (simp add: get_min_core_def t)
  have mem: "x \<in> set (c_contents s) \<longleftrightarrow> (\<exists>j \<le> t. x = c_list s ! j)" for x
    using len by (auto simp: c_contents_def t nat_add_distrib in_set_conv_nth less_Suc_eq_le)
  have least: "load_at cl s r \<le> load_at cl s j" if "j \<le> t" for j
    using that r(3,4) by (cases "j = t") auto
  have "load_at cl s r \<le> fin_val (C_Utilization (cl ! c'))" if "Some c' \<in> set (c_contents s)" for c'
  proof -
    from that obtain j where j: "j \<le> t" "c_list s ! j = Some c'" using mem by metis
    then show ?thesis using least [OF j(1)] by (simp add: load_at_def)
  qed
  moreover have "Some c \<in> set (c_contents s)" using mem c(1) r(2) by metis
  ultimately show ?thesis using get c by blast
qed

section \<open>The hyperperiod\<close>

lemma smod_nonneg: "0 \<le> a \<Longrightarrow> 0 < b \<Longrightarrow> a smod b = a mod b" for a b :: int
  by (cases "a = 0") (simp_all add: smod_int_eq)

lemma sdiv_nonneg: "0 \<le> a \<Longrightarrow> 0 < b \<Longrightarrow> a sdiv b = a div b" for a b :: int
  by (cases "a = 0") (simp_all add: signed_divide_int_def)

lemma C_gcd_ok: "0 \<le> a \<Longrightarrow> 0 \<le> b \<Longrightarrow> C_gcd a b = Inr (gcd a b)"
proof (induction a b rule: C_gcd.induct)
  case (1 a b)
  show ?case
  proof (cases "b = 0")
    case True
    then show ?thesis using 1(2) by (simp add: C_gcd.simps)
  next
    case False
    then have b: "0 < b" using 1(3) by simp
    then have m: "c_mod a b = Inr (a mod b)" using 1(2) by (simp add: c_mod_def smod_nonneg)
    then have "C_gcd b (a mod b) = Inr (gcd b (a mod b))" using 1(1) False b by simp
    with m False show ?thesis by (simp add: C_gcd.simps [of a b] gcd_red_int [symmetric])
  qed
qed

lemma C_lcm_ok:
  assumes "0 < a" "0 < b" "a * b \<le> int_max"
  shows "C_lcm a b = Inr (lcm a b)"
proof -
  have "0 < a * b" using assms by simp
  then have "chk32 (a * b) = Inr (a * b)" using assms(3) by (simp add: int_min_def)
  moreover have "C_gcd a b = Inr (gcd a b)" using assms by (intro C_gcd_ok) auto
  moreover have "0 < gcd a b" using assms(1) by simp
  then have "c_div (a * b) (gcd a b) = Inr (a * b div gcd a b)"
    using \<open>0 < a * b\<close> by (simp add: c_div_def sdiv_nonneg int_min_def)
  moreover have "lcm a b = a * b div gcd a b"
    using assms(1,2) by (simp add: lcm_int_def lcm_nat_def nat_mult_distrib gcd_int_def zdiv_int)
  ultimately show ?thesis by (simp add: C_lcm_def)
qed

lemma C_lcm_overflow: "int_max < a * b \<Longrightarrow> C_lcm a b = Inl IntOverflow"
  by (simp add: C_lcm_def chk32_def)

lemma lcm_Lcm_pos:
  fixes r :: int
  assumes "0 < r" "\<forall>p \<in> set ps. 0 < p"
  shows "0 < lcm r (Lcm (set ps))"
proof -
  have "0 \<notin> set ps" using assms(2) by auto
  then have "Lcm (set ps) \<noteq> 0" by (simp add: Lcm_0_iff)
  then have "lcm r (Lcm (set ps)) \<noteq> 0" using assms(1) by simp
  moreover have "0 \<le> lcm r (Lcm (set ps))" by simp
  ultimately show ?thesis by linarith
qed

lemma lcm_loop_ok:
  assumes "0 < r" "\<forall>p \<in> set ps. 0 < p \<and> lcm r (Lcm (set ps)) * p \<le> int_max"
  shows "lcm_loop r ps = Inr (lcm r (Lcm (set ps)))"
  using assms
proof (induction ps arbitrary: r)
  case Nil
  then show ?case by simp
next
  case (Cons p ps)
  have L: "lcm r (Lcm (set (p # ps))) = lcm (lcm r p) (Lcm (set ps))" by (simp add: lcm.assoc)
  have p: "0 < p" using Cons.prems by simp
  have pos: "0 < lcm r (Lcm (set (p # ps)))"
    using Cons.prems by (intro lcm_Lcm_pos) auto
  then have "r \<le> lcm r (Lcm (set (p # ps)))" by (simp add: zdvd_imp_le)
  then have "r * p \<le> lcm r (Lcm (set (p # ps))) * p" using p by (intro mult_right_mono) auto
  also have "\<dots> \<le> int_max" using Cons.prems(2) by simp
  finally have step: "C_lcm r p = Inr (lcm r p)" using Cons.prems(1) p by (intro C_lcm_ok) auto
  have "lcm_loop (lcm r p) ps = Inr (lcm (lcm r p) (Lcm (set ps)))"
  proof (rule Cons.IH)
    show "0 < lcm r p" using Cons.prems(1) p by (simp add: lcm_pos_int)
    show "\<forall>q \<in> set ps. 0 < q \<and> lcm (lcm r p) (Lcm (set ps)) * q \<le> int_max"
      using Cons.prems(2) L by auto
  qed
  with step L show ?case by simp
qed

lemma calculate_lcm_ok:
  assumes "length ps = NUM_OF_TASK" "\<forall>p \<in> set ps. 0 < p \<and> Lcm (set ps) * p \<le> int_max"
  shows "calculate_lcm ps = Inr (Lcm (set ps))"
proof -
  obtain r qs where ps: "ps = r # qs" "length qs = NUM_OF_TASK - 1"
    using assms(1) by (cases ps) (auto simp: NUM_OF_TASK_def)
  have "lcm_loop r qs = Inr (lcm r (Lcm (set qs)))"
    using assms(2) ps(1) by (intro lcm_loop_ok) auto
  then show ?thesis using ps by (simp add: calculate_lcm_def arr_get_def)
qed

section \<open>What a split does\<close>

lemma Task_splitE:
  assumes "Task_split mk T Tail C s = Inr s'"
  obtains b t c s1 s2 rb s3 s4 rt s5 s6 s7 s8 uq where
    "T = Some b" "b < length (task_list s)" "Tail = Some t" "t < length (task_list s)"
    "C = Some c" "c < length (core_list s)"
    "s1 = upd_task t (\<lambda>x. x\<lparr>Task_Name := Task_Name (task_list s ! b),
       Period := Period (task_list s ! b), priority := priority (task_list s ! b)\<rparr>) s"
    "s2 = upd_task b (\<lambda>x. x\<lparr>Utilization :=
       fp_sub binary32 (Utilization_Bound (core_manager s)) (C_Utilization (core_list s ! c))\<rparr>) s1"
    "fp_to_u16 binary32 (fp_mul binary32 (Utilization (task_list s2 ! b))
       (fp_of_int binary32 (uint (Period (task_list s2 ! b))))) = Inr rb"
    "s3 = upd_task b (\<lambda>x. x\<lparr>Runtime := rb\<rparr>) s2"
    "s4 = upd_task t (\<lambda>x. x\<lparr>Utilization :=
       fp_sub binary32 (Utilization (task_list s1 ! b)) (Utilization (task_list s3 ! b))\<rparr>) s3"
    "fp_to_u16 binary32 (fp_sub binary32 (fp_of_int binary32 (uint (Runtime (task_list s1 ! b))))
       (fp_of_int binary32 (uint (Runtime (task_list s4 ! b))))) = Inr rt"
    "s5 = upd_task t (\<lambda>x. x\<lparr>Runtime := rt\<rparr>) s4"
    "s6 = upd_task t (\<lambda>x. x\<lparr>subnum := subnum (task_list s5 ! b) + 1, Dependency := True\<rparr>) s5"
    "s7 = create_task mk t s6"
    "s8 = upd_task b (\<lambda>x. x\<lparr>splitted_ptr := my_ptr (task_list s7 ! t)\<rparr>) s7"
    "Push_task (Some t) (UQ s) = Inr uq" "s' = s8\<lparr>UQ := uq\<rparr>"
proof -
  from assms obtain b t s1 oU oR c s2 rb s3 s4 rt s5 s6 s7 s8 uq where *:
    "T = Some b" "b < length (task_list s)" "Tail = Some t" "t < length (task_list s)"
    "s1 = upd_task t (\<lambda>x. x\<lparr>Task_Name := Task_Name (task_list s ! b),
       Period := Period (task_list s ! b), priority := priority (task_list s ! b)\<rparr>) s"
    "oU = Utilization (task_list s1 ! b)"
    "oR = fp_of_int binary32 (uint (Runtime (task_list s1 ! b)))"
    "C = Some c" "c < length (core_list s1)"
    "s2 = upd_task b (\<lambda>x. x\<lparr>Utilization :=
       fp_sub binary32 (Utilization_Bound (core_manager s1)) (C_Utilization (core_list s1 ! c))\<rparr>) s1"
    "fp_to_u16 binary32 (fp_mul binary32 (Utilization (task_list s2 ! b))
       (fp_of_int binary32 (uint (Period (task_list s2 ! b))))) = Inr rb"
    "s3 = upd_task b (\<lambda>x. x\<lparr>Runtime := rb\<rparr>) s2"
    "s4 = upd_task t (\<lambda>x. x\<lparr>Utilization := fp_sub binary32 oU (Utilization (task_list s3 ! b))\<rparr>) s3"
    "fp_to_u16 binary32 (fp_sub binary32 oR
       (fp_of_int binary32 (uint (Runtime (task_list s4 ! b))))) = Inr rt"
    "s5 = upd_task t (\<lambda>x. x\<lparr>Runtime := rt\<rparr>) s4"
    "s6 = upd_task t (\<lambda>x. x\<lparr>subnum := subnum (task_list s5 ! b) + 1, Dependency := True\<rparr>) s5"
    "s7 = create_task mk t s6"
    "s8 = upd_task b (\<lambda>x. x\<lparr>splitted_ptr := my_ptr (task_list s7 ! t)\<rparr>) s7"
    "Push_task (Some t) (UQ s8) = Inr uq" "Inr (s8\<lparr>UQ := uq\<rparr>) = (Inr s' :: fault + spa2)"
    unfolding Task_split_def bindE_eq_Inr Let_eq_ex deref_Inr_iff
    by (elim exE conjE) (rule that)
  show thesis
    by (rule that [of b t c s1 s2 rb s3 s4 rt s5 s6 s7 s8 uq]) (use * in simp_all)
qed

lemma Task_split_effect:
  assumes "Task_split mk (Some b) (Some t) C s = Inr s'" "b \<noteq> t"
  shows "b < length (task_list s)" "t < length (task_list s)"
    "\<exists>c. C = Some c \<and> c < length (core_list s) \<and>
       Utilization (task_list s' ! b) =
         fp_sub binary32 (Utilization_Bound (core_manager s)) (C_Utilization (core_list s ! c))"
    "Utilization (task_list s' ! t) =
       fp_sub binary32 (Utilization (task_list s ! b)) (Utilization (task_list s' ! b))"
    "fp_to_u16 binary32 (fp_mul binary32 (Utilization (task_list s' ! b))
       (fp_of_int binary32 (uint (Period (task_list s ! b))))) = Inr (Runtime (task_list s' ! b))"
    "fp_to_u16 binary32 (fp_sub binary32 (fp_of_int binary32 (uint (Runtime (task_list s ! b))))
       (fp_of_int binary32 (uint (Runtime (task_list s' ! b))))) = Inr (Runtime (task_list s' ! t))"
    "Period (task_list s' ! t) = Period (task_list s ! b)"
    "Period (task_list s' ! b) = Period (task_list s ! b)"
    "subnum (task_list s' ! t) = subnum (task_list s ! b) + 1"
    "priority (task_list s' ! t) = priority (task_list s ! b)"
    "Dependency (task_list s' ! t)"
    "splitted_ptr (task_list s' ! b) = my_ptr (task_list s' ! t)"
    "my_ptr (task_list s' ! b) = my_ptr (task_list s ! b)"
    "\<forall>j. j \<noteq> b \<longrightarrow> j \<noteq> t \<longrightarrow> task_list s' ! j = task_list s ! j"
    "Push_task (Some t) (UQ s) = Inr (UQ s')"
    "kcalls s' = kcalls s @ [CallTaskCreate t (Task_Code (task_list s ! t)) (priority (task_list s ! b))]"
    "n_created s' = Suc (n_created s)"
    "my_ptr (task_list s' ! t) = (case mk (n_created s) of None \<Rightarrow> my_ptr (task_list s ! t) | h \<Rightarrow> h)"
proof -
  from assms(1) show "b < length (task_list s)" "t < length (task_list s)"
    by (auto elim!: Task_splitE)
  from assms(1) obtain c s1 s2 rb s3 s4 rt s5 s6 s7 s8 uq where D:
    "b < length (task_list s)" "t < length (task_list s)" "C = Some c" "c < length (core_list s)"
    "s1 = upd_task t (\<lambda>x. x\<lparr>Task_Name := Task_Name (task_list s ! b),
       Period := Period (task_list s ! b), priority := priority (task_list s ! b)\<rparr>) s"
    "s2 = upd_task b (\<lambda>x. x\<lparr>Utilization :=
       fp_sub binary32 (Utilization_Bound (core_manager s)) (C_Utilization (core_list s ! c))\<rparr>) s1"
    and rb: "fp_to_u16 binary32 (fp_mul binary32 (Utilization (task_list s2 ! b))
       (fp_of_int binary32 (uint (Period (task_list s2 ! b))))) = Inr rb"
    and D3: "s3 = upd_task b (\<lambda>x. x\<lparr>Runtime := rb\<rparr>) s2"
    "s4 = upd_task t (\<lambda>x. x\<lparr>Utilization :=
       fp_sub binary32 (Utilization (task_list s1 ! b)) (Utilization (task_list s3 ! b))\<rparr>) s3"
    and rt: "fp_to_u16 binary32 (fp_sub binary32 (fp_of_int binary32 (uint (Runtime (task_list s1 ! b))))
       (fp_of_int binary32 (uint (Runtime (task_list s4 ! b))))) = Inr rt"
    and D5: "s5 = upd_task t (\<lambda>x. x\<lparr>Runtime := rt\<rparr>) s4"
    "s6 = upd_task t (\<lambda>x. x\<lparr>subnum := subnum (task_list s5 ! b) + 1, Dependency := True\<rparr>) s5"
    "s7 = create_task mk t s6"
    "s8 = upd_task b (\<lambda>x. x\<lparr>splitted_ptr := my_ptr (task_list s7 ! t)\<rparr>) s7"
    and uq: "Push_task (Some t) (UQ s) = Inr uq" "s' = s8\<lparr>UQ := uq\<rparr>"
    by (auto elim!: Task_splitE)
  note N = task_list_upd_task create_task_nth
  have 1: "task_list s1 ! b = task_list s ! b" using D(1,2,5) assms(2) by (simp add: N)
  have 4: "task_list s' ! b = (task_list s4 ! b)\<lparr>splitted_ptr := my_ptr (task_list s7 ! t)\<rparr>"
    using D D3 D5 uq assms(2) by (simp add: N split: option.splits)
  have 7: "task_list s' ! t = task_list s7 ! t"
    using D D3 D5 uq assms(2) by (simp add: N split: option.splits)
  have b4: "task_list s4 ! b = (task_list s ! b)\<lparr>Utilization :=
      fp_sub binary32 (Utilization_Bound (core_manager s)) (C_Utilization (core_list s ! c)), Runtime := rb\<rparr>"
    using D D3 assms(2) 1 by (simp add: N)
  have b2: "task_list s2 ! b = (task_list s ! b)\<lparr>Utilization :=
      fp_sub binary32 (Utilization_Bound (core_manager s)) (C_Utilization (core_list s ! c))\<rparr>"
    using D assms(2) 1 by (simp add: N)
  have b3: "Utilization (task_list s3 ! b) = Utilization (task_list s4 ! b)"
    using D D3 assms(2) by (simp add: N)
  have b5: "task_list s5 ! b = task_list s4 ! b" using D5(1) assms(2) by (simp add: N)
  define U where "U = Utilization (task_list s4 ! b)"
  define rest where "rest = fp_sub binary32 (Utilization (task_list s ! b)) U"
  have t3: "task_list s3 ! t = (task_list s ! t)\<lparr>Task_Name := Task_Name (task_list s ! b),
      Period := Period (task_list s ! b), priority := priority (task_list s ! b)\<rparr>"
    using D D3(1) assms(2) by (simp add: N)
  have l3: "length (task_list s3) = length (task_list s)" using D D3(1) by simp
  have s4: "s4 = upd_task t (\<lambda>x. x\<lparr>Utilization := rest\<rparr>) s3"
    unfolding rest_def U_def b3 [symmetric] 1 [symmetric] by (rule D3(2))
  have t4: "task_list s4 ! t = (task_list s3 ! t)\<lparr>Utilization := rest\<rparr>"
    unfolding s4 using D(2) l3 by (simp add: N)
  have l4: "length (task_list s4) = length (task_list s)" unfolding s4 using l3 by simp
  have sub: "subnum (task_list s5 ! b) = subnum (task_list s ! b)" by (simp add: b5 b4)
  have t5: "task_list s5 ! t = (task_list s4 ! t)\<lparr>Runtime := rt\<rparr>"
    unfolding D5(1) using D(2) l4 by (simp add: N)
  have l5: "length (task_list s5) = length (task_list s)" unfolding D5(1) using l4 by simp
  have t6': "task_list s6 ! t = (task_list s5 ! t)\<lparr>subnum := subnum (task_list s ! b) + 1, Dependency := True\<rparr>"
    unfolding D5(2) sub using D(2) l5 by (simp add: N)
  have t6: "task_list s6 ! t = (task_list s ! t)\<lparr>Task_Name := Task_Name (task_list s ! b),
      Period := Period (task_list s ! b), priority := priority (task_list s ! b),
      Utilization := fp_sub binary32 (Utilization (task_list s ! b)) (Utilization (task_list s4 ! b)),
      Runtime := rt, subnum := subnum (task_list s ! b) + 1, Dependency := True\<rparr>"
    by (simp add: t6' t5 t4 t3 rest_def U_def)
  have n6: "n_created s6 = n_created s" "kcalls s6 = kcalls s" using D D3 D5 by simp_all
  have l6: "length (task_list s6) = length (task_list s)" using D D3 D5 by simp
  have t7: "task_list s7 ! t = (task_list s6 ! t)\<lparr>my_ptr :=
      (case mk (n_created s) of None \<Rightarrow> my_ptr (task_list s ! t) | h \<Rightarrow> h)\<rparr>"
    using D(2) l6 t6 by (simp add: D5(3) N n6 split: option.splits)
  show "\<exists>c. C = Some c \<and> c < length (core_list s) \<and> Utilization (task_list s' ! b) =
         fp_sub binary32 (Utilization_Bound (core_manager s)) (C_Utilization (core_list s ! c))"
    using D(3,4) by (simp add: 4 b4)
  show "Utilization (task_list s' ! t) =
       fp_sub binary32 (Utilization (task_list s ! b)) (Utilization (task_list s' ! b))"
    by (simp add: 4 7 t7 t6)
  show "fp_to_u16 binary32 (fp_mul binary32 (Utilization (task_list s' ! b))
       (fp_of_int binary32 (uint (Period (task_list s ! b))))) = Inr (Runtime (task_list s' ! b))"
    using rb by (simp add: 4 b4 b2)
  show "fp_to_u16 binary32 (fp_sub binary32 (fp_of_int binary32 (uint (Runtime (task_list s ! b))))
       (fp_of_int binary32 (uint (Runtime (task_list s' ! b))))) = Inr (Runtime (task_list s' ! t))"
    using rt by (simp add: 4 7 t7 t6 1)
  show "Period (task_list s' ! t) = Period (task_list s ! b)"
    "Period (task_list s' ! b) = Period (task_list s ! b)"
    "subnum (task_list s' ! t) = subnum (task_list s ! b) + 1"
    "priority (task_list s' ! t) = priority (task_list s ! b)" "Dependency (task_list s' ! t)"
    "splitted_ptr (task_list s' ! b) = my_ptr (task_list s' ! t)"
    "my_ptr (task_list s' ! b) = my_ptr (task_list s ! b)"
    "my_ptr (task_list s' ! t) = (case mk (n_created s) of None \<Rightarrow> my_ptr (task_list s ! t) | h \<Rightarrow> h)"
    by (simp_all add: 4 7 t7 t6 b4)
  show "\<forall>j. j \<noteq> b \<longrightarrow> j \<noteq> t \<longrightarrow> task_list s' ! j = task_list s ! j"
    using D D3 D5 uq by (simp add: N split: option.splits)
  show "Push_task (Some t) (UQ s) = Inr (UQ s')" using uq by simp
  show "n_created s' = Suc (n_created s)" using uq D5 n6 by simp
  have "kcalls s7 = kcalls s @ [CallTaskCreate t (Task_Code (task_list s ! t)) (priority (task_list s ! b))]"
    by (simp add: D5(3) create_task_def Let_def n6 t6 split: option.splits)
  then show "kcalls s' = kcalls s @ [CallTaskCreate t (Task_Code (task_list s ! t)) (priority (task_list s ! b))]"
    by (simp add: uq D5(4))
qed

lemma fp_of_int_small:
  "\<bar>n\<bar> \<le> 2 ^ 24 \<Longrightarrow> fp_of_int binary32 n = Fin (n * 2 ^ 149)"
proof -
  assume n: "\<bar>n\<bar> \<le> 2 ^ 24"
  then have "representable 24 (n * 2 ^ 149)" by (intro representableI) auto
  then have "rnd_int 24 (n * 2 ^ 149) = n * 2 ^ 149" by (rule rnd_int_exact)
  moreover have "\<bar>n * 2 ^ 149\<bar> < 2 ^ 277" using n by (simp add: abs_mult)
  ultimately show ?thesis
    by (simp add: fp_of_int_def fp_round_int binary32_def Let_def abs_less_iff)
qed

lemma uint_u16: "0 \<le> uint (r :: u16)" "uint (r :: u16) < 2 ^ 16"
  using uint_lt2p [of r] by simp_all

lemma uint_word_of_int_u16: "0 \<le> d \<Longrightarrow> d < 2 ^ 16 \<Longrightarrow> uint (word_of_int d :: u16) = d"
  by (simp add: uint_word_of_int_eq take_bit_int_eq_self)

lemma uint_u16_diff:
  assumes "0 \<le> uint (R :: u16) - uint (r :: u16)"
  shows "uint (word_of_int (uint R - uint r) :: u16) = uint R - uint r"
  using assms uint_u16(2) [of R] uint_u16(1) [of r] by (intro uint_word_of_int_u16) linarith+

lemma fp_sub_small:
  assumes "0 \<le> m" "m < 2 ^ 16" "0 \<le> n" "n < 2 ^ 16"
  shows "fp_sub binary32 (fp_of_int binary32 m) (fp_of_int binary32 n) = Fin ((m - n) * 2 ^ 149)"
proof -
  have s: "fp_of_int binary32 m = Fin (m * 2 ^ 149)" "fp_of_int binary32 n = Fin (n * 2 ^ 149)"
    using assms by (simp_all add: fp_of_int_small)
  have "fp_round binary32 ((m - n) * 2 ^ 149) 1 = fp_of_int binary32 (m - n)"
    by (simp add: fp_of_int_def binary32_def)
  also have "\<dots> = Fin ((m - n) * 2 ^ 149)" using assms by (simp add: fp_of_int_small)
  finally show ?thesis by (simp add: s fp_sub_Fin left_diff_distrib)
qed

lemma fp_to_u16_int:
  "fp_to_u16 binary32 (Fin (n * 2 ^ 149)) =
     (if 0 \<le> n \<and> n < 2 ^ 16 then Inr (word_of_int n) else Inl BadConversion)"
proof -
  have "(n * 2 ^ 149) sdiv 2 ^ 149 = n" by (simp add: signed_divide_int_def sgn_mult abs_mult mult.assoc sgn_mult_abs)
  then show ?thesis by (simp add: binary32_def Let_def)
qed

text \<open>The body and the tail together run as long as the task did.\<close>

lemma fp_sub_to_u16:
  assumes "fp_to_u16 binary32 (fp_sub binary32 (fp_of_int binary32 (uint (R :: u16)))
    (fp_of_int binary32 (uint (r :: u16)))) = Inr q"
  shows "unat r + unat (q :: u16) = unat R"
proof -
  have "fp_sub binary32 (fp_of_int binary32 (uint R)) (fp_of_int binary32 (uint r))
      = Fin ((uint R - uint r) * 2 ^ 149)"
    by (rule fp_sub_small) (rule uint_u16)+
  with assms have q: "(if 0 \<le> uint R - uint r \<and> uint R - uint r < 2 ^ 16
      then Inr (word_of_int (uint R - uint r)) else Inl BadConversion) = Inr q"
    by (simp only: fp_to_u16_int)
  then have le: "0 \<le> uint R - uint r" and "q = word_of_int (uint R - uint r)"
    by (cases "0 \<le> uint R - uint r \<and> uint R - uint r < 2 ^ 16"; simp)+
  then have "uint q = uint R - uint r" by (simp only: uint_u16_diff)
  with le have "uint r + uint q = uint R" by linarith
  then have "int (unat r + unat q) = int (unat R)" by simp
  then show ?thesis by (simp only: of_nat_eq_iff)
qed

lemma Task_split_runtime:
  assumes "Task_split mk (Some b) (Some t) C s = Inr s'" "b \<noteq> t"
  shows "unat (Runtime (task_list s' ! b)) + unat (Runtime (task_list s' ! t)) =
    unat (Runtime (task_list s ! b))"
  using Task_split_effect(6) [OF assms] by (rule fp_sub_to_u16)

end
