(* ===== verification/PartitionProps.thy ===== *)
theory PartitionProps
  imports Partition TaskManagerProps "HOL-Library.Multiset"
begin

text \<open>
  The invariants of the partitioner: the recorded load of a core never exceeds the
  utilisation bound by more than one unit in the last place, no core is lost between the two
  core stacks, and every task (the tails of splits included) is pinned to a core exactly
  once, unless the algorithm stops because every core is full.
\<close>

section \<open>Predicates on the state\<close>

definition util_in :: "int \<Rightarrow> fp \<Rightarrow> bool" where
  "util_in b x \<longleftrightarrow> (\<exists>u. x = Fin u \<and> representable 24 u \<and> 0 \<le> u \<and> u \<le> b)"

definition loads_ok :: "int \<Rightarrow> spa2 \<Rightarrow> bool" where
  "loads_ok b s \<longleftrightarrow> length (core_list s) = configNUMBER_OF_CORES \<and>
     Utilization_Bound (core_manager s) = Fin b \<and>
     (\<forall>c < configNUMBER_OF_CORES. util_in (b + ulp 24 b) (C_Utilization (core_list s ! c)))"

text \<open>Every core is in one of the two stacks or held (\<open>H\<close>) by the running step.\<close>

definition cores_in :: "ptr multiset \<Rightarrow> spa2 \<Rightarrow> bool" where
  "cores_in H s \<longleftrightarrow> c_invar (core_manager s) \<and> c_invar (pre_assigned_core s) \<and>
     mset (c_contents (core_manager s)) + mset (c_contents (pre_assigned_core s)) + H = {#Some 0, Some 1#} \<and>
     (\<forall>c < configNUMBER_OF_CORES.
        pre_assigned (core_list s ! c) \<longleftrightarrow> Some c \<notin> set (c_contents (core_manager s)))"

definition queue_ok :: "int \<Rightarrow> nat \<Rightarrow> spa2 \<Rightarrow> bool" where
  "queue_ok b n s \<longleftrightarrow> t_invar (UQ s) \<and> length (task_list s) = MAX_NUM_TASKS \<and> n \<le> MAX_NUM_TASKS \<and>
     (\<forall>p \<in> set (t_contents (UQ s)). \<exists>i < n. p = Some i \<and> util_in b (Utilization (task_list s ! i)))"

text \<open>The \<open>vTaskCoreAffinitySet\<close> calls issued so far: the handle and the mask of each.\<close>

fun pinned :: "kcall list \<Rightarrow> (handle option \<times> u32) list" where
  "pinned [] = []"
| "pinned (CallCoreAffinitySet h m # cs) = (h, m) # pinned cs"
| "pinned (_ # cs) = pinned cs"

text \<open>
  An assignment \<open>a\<close> lists tasks and the cores they went to, in order.  \<open>core_load\<close> adds up the
  utilisations assigned to a core the way the code does, rounding at every step.
  \<open>placement\<close> says that the kernel calls and the recorded loads are those of \<open>a\<close>.
\<close>

definition core_load :: "task_info list \<Rightarrow> (nat \<times> nat) list \<Rightarrow> nat \<Rightarrow> f32" where
  "core_load tab a c =
     foldl (\<lambda>u (t, d). if d = c then fp_add binary32 u (Utilization (tab ! t)) else u) (Fin 0) a"

definition core_mask :: "nat \<Rightarrow> u32" where
  "core_mask c = (if c = 0 then Core0 else Core1)"

definition placement :: "(nat \<times> nat) list \<Rightarrow> spa2 \<Rightarrow> bool" where
  "placement a s \<longleftrightarrow>
     pinned (kcalls s) = map (\<lambda>(t, c). (my_ptr (task_list s ! t), core_mask c)) a \<and>
     (\<forall>(t, c) \<in> set a. c < configNUMBER_OF_CORES) \<and>
     map Core_num (core_list s) = [Core0, Core1] \<and>
     (\<forall>c < configNUMBER_OF_CORES. C_Utilization (core_list s ! c) = core_load (task_list s) a c)"

text \<open>Of the first \<open>n\<close> tasks each is assigned, queued or in \<open>P\<close>, and in one of these only.\<close>

definition accounted :: "nat \<Rightarrow> nat multiset \<Rightarrow> spa2 \<Rightarrow> bool" where
  "accounted n P s \<longleftrightarrow> (\<exists>a. placement a s \<and>
     mset (map fst a) + mset (map the (t_contents (UQ s))) + P = mset [0..<n])"

lemma accountedE:
  assumes "accounted n P s"
  obtains a where "placement a s" "mset (map fst a) + mset (map the (t_contents (UQ s))) + P = mset [0..<n]"
  using assms by (auto simp: accounted_def)

lemma accountedI:
  "placement a s \<Longrightarrow> mset (map fst a) + mset (map the (t_contents (UQ s))) + P = mset [0..<n] \<Longrightarrow>
     accounted n P s"
  by (auto simp: accounted_def)

lemma accounted_cong:
  assumes "accounted n P s" "pinned (kcalls s') = pinned (kcalls s)" "task_list s' = task_list s"
    "map Core_num (core_list s') = map Core_num (core_list s)" "UQ s' = UQ s"
    "\<And>c. C_Utilization (core_list s' ! c) = C_Utilization (core_list s ! c)"
  shows "accounted n P s'"
  using assms by (simp add: accounted_def placement_def)

lemma map_field_upd: "f (g (xs ! i)) = f (xs ! i) \<Longrightarrow> map f (xs[i := g (xs ! i)]) = map f xs"
  by (metis list_update_id map_update)

lemma core_load_snoc:
  "core_load tab (a @ [(t, d)]) c =
     (if d = c then fp_add binary32 (core_load tab a c) (Utilization (tab ! t)) else core_load tab a c)"
  by (simp add: core_load_def)

lemma core_load_cong:
  assumes "\<And>t c. (t, c) \<in> set a \<Longrightarrow> Utilization (tab' ! t) = Utilization (tab ! t)"
  shows "core_load tab' a c = core_load tab a c"
  unfolding core_load_def by (rule foldl_cong) (use assms in auto)

lemma pinned_append [simp]: "pinned (xs @ ys) = pinned xs @ pinned ys"
  by (induction xs rule: pinned.induct) auto

lemma util_inD: "util_in b x \<Longrightarrow> \<exists>u. x = Fin u \<and> representable 24 u \<and> 0 \<le> u \<and> u \<le> b"
  by (simp add: util_in_def)

section \<open>Assigning a task\<close>

lemma Assign_task_eq:
  assumes "Assign_task (Some t) (Some c) s = Inr s'"
  shows "c < length (core_list s)" "t < length (task_list s)"
    "core_list s' = (core_list s)[c := (core_list s ! c)\<lparr>C_Utilization :=
       fp_add binary32 (C_Utilization (core_list s ! c)) (Utilization (task_list s ! t))\<rparr>]"
    "kcalls s' = kcalls s @ [CallCoreAffinitySet (my_ptr (task_list s ! t)) (Core_num (core_list s ! c))]"
  using assms by (auto simp: Assign_task_def Let_def upd_core_def)

lemma Assign_task_loads:
  assumes "Assign_task (Some t) (Some c) s = Inr s'" "loads_ok b s" "c < configNUMBER_OF_CORES"
    "util_in (b + ulp 24 b)
       (fp_add binary32 (C_Utilization (core_list s ! c)) (Utilization (task_list s ! t)))"
  shows "loads_ok b s'"
  using assms by (auto simp: loads_ok_def Assign_task_eq(3) [OF assms(1)] nth_list_update
      Assign_task_frame [OF assms(1)])

lemma Assign_task_pre_assigned:
  assumes "Assign_task (Some t) (Some c) s = Inr s'"
  shows "pre_assigned (core_list s' ! d) = pre_assigned (core_list s ! d)"
  using assms by (cases "c = d") (simp_all add: Assign_task_eq)

lemma Assign_task_cores:
  assumes "Assign_task (Some t) (Some c) s = Inr s'" "cores_in H s"
    "length (core_list s) = configNUMBER_OF_CORES"
  shows "cores_in H s'"
  using assms Assign_task_pre_assigned [OF assms(1)]
  by (simp add: cores_in_def Assign_task_frame [OF assms(1)])

lemma Assign_task_accounted:
  assumes "Assign_task (Some t) (Some c) s = Inr s'" "accounted n (add_mset t P) s"
  shows "accounted n P s'"
proof -
  obtain a where a: "placement a s" "mset (map fst a) + mset (map the (t_contents (UQ s))) + add_mset t P = mset [0..<n]"
    using assms(2) by (rule accountedE)
  note E = Assign_task_eq [OF assms(1)] and F = Assign_task_frame [OF assms(1)]
  have "length (core_list s) = configNUMBER_OF_CORES"
    using a(1) by (auto simp: placement_def configNUMBER_OF_CORES_def dest: arg_cong [of _ _ length])
  then have c: "c < configNUMBER_OF_CORES" using E(1) by simp
  have num: "map Core_num (core_list s) = [Core0, Core1]" using a(1) by (simp add: placement_def)
  then have "map Core_num (core_list s) ! c = core_mask c"
    using c by (auto simp: core_mask_def configNUMBER_OF_CORES_def less_2_cases_iff)
  then have mask: "Core_num (core_list s ! c) = core_mask c" using E(1) by simp
  have "map Core_num (core_list s') = [Core0, Core1]"
    unfolding E(3) num [symmetric] by (rule map_field_upd) simp
  then have "placement (a @ [(t, c)]) s'"
    using a(1) c E(1) by (auto simp: placement_def E(3,4) F core_load_snoc nth_list_update mask)
  then show ?thesis by (rule accountedI) (use a(2) in \<open>simp add: F\<close>)
qed

lemma Assign_task_queue:
  assumes "Assign_task (Some t) (Some c) s = Inr s'" "queue_ok b n s"
  shows "queue_ok b n s'"
  using assms by (simp add: queue_ok_def Assign_task_frame [OF assms(1)])

text \<open>The two ways a core may gain load without passing the bound by more than a unit.\<close>

lemma util_in_mono: "util_in a x \<Longrightarrow> a \<le> b \<Longrightarrow> util_in b x"
  by (auto simp: util_in_def)

lemma ulp_nonneg: "0 \<le> ulp p k"
  by (simp add: ulp_def)

lemma fits_util_in:
  assumes "util_in B x" "util_in b y" "0 \<le> b" "fp_le (fp_add binary32 x y) (Fin b)"
  shows "util_in (b + ulp 24 b) (fp_add binary32 x y)"
proof -
  obtain k u where x: "x = Fin k" "0 \<le> k" and y: "y = Fin u" "0 \<le> u"
    using assms(1,2) by (auto simp: util_in_def)
  have "0 \<le> rnd_int 24 (k + u)" using x y by (intro r32.nonneg) simp
  then have "fp_add binary32 x y \<in> {PInf, Fin (rnd_int 24 (k + u))}"
    by (simp add: x y fp_round_int binary32_def Let_def)
  with assms(4) have eq: "fp_add binary32 x y = Fin (rnd_int 24 (k + u))"
    by (auto simp: fp_le_def)
  with assms(4) have "rnd_int 24 (k + u) \<le> b" by simp
  with eq \<open>0 \<le> rnd_int 24 (k + u)\<close> ulp_nonneg [of 24 b] show ?thesis
    by (auto simp: util_in_def r32.rep_rnd)
qed

text \<open>Splitting: the body gets what is left of the bound, the tail what is left of the task.\<close>

lemma split_util_in:
  assumes "util_in (b + ulp 24 b) x" "util_in b y" "representable 24 b" "b < 2 ^ 277"
    "b + ulp 24 b < 2 ^ 277"
    "\<not> fp_le (Fin b) x" "\<not> fp_le (fp_add binary32 x y) (Fin b)"
  shows "util_in (b + ulp 24 b) (fp_add binary32 x (fp_sub binary32 (Fin b) x))"
    "util_in b (fp_sub binary32 y (fp_sub binary32 (Fin b) x))"
    "util_in b (fp_sub binary32 (Fin b) x)"
proof -
  obtain k u where x: "x = Fin k" "0 \<le> k" "representable 24 k"
      and y: "y = Fin u" "0 \<le> u" "u \<le> b" "representable 24 u"
    using assms(1,2) by (auto simp: util_in_def)
  have kb: "k < b" using assms(6) x by simp
  have d: "fp_sub binary32 (Fin b) x = Fin (rnd_int 24 (b - k))"
    unfolding x by (rule fp_sub_Fin_ok) (use x kb assms in auto)
  have d0: "0 \<le> rnd_int 24 (b - k)" using kb by (intro r32.nonneg) simp
  have gap: "k + rnd_int 24 (b - k) \<le> b + ulp 24 b"
  proof -
    have "ulp 24 (b - k) \<le> ulp 24 b" using kb x by (intro ulp_mono) auto
    moreover have "2 * \<bar>rnd_int 24 (b - k) - (b - k)\<bar> \<le> ulp 24 (b - k)" using kb by (intro rnd_int_error) simp
    ultimately show ?thesis by (simp add: abs_if split: if_splits)
  qed
  have rep: "representable 24 (b + ulp 24 b)"
    by (rule r32.rep_next) (use assms kb x in auto)
  have "fp_add binary32 x (Fin (rnd_int 24 (b - k))) = Fin (rnd_int 24 (k + rnd_int 24 (b - k)))"
    unfolding x by (rule fp_add_Fin_le [OF _ gap rep]) (use x d0 assms in auto)
  moreover have "rnd_int 24 (k + rnd_int 24 (b - k)) \<le> b + ulp 24 b"
    by (rule r32.upper [OF gap rep])
  moreover have "0 \<le> rnd_int 24 (k + rnd_int 24 (b - k))" using x d0 by (intro r32.nonneg) simp
  ultimately show "util_in (b + ulp 24 b) (fp_add binary32 x (fp_sub binary32 (Fin b) x))"
    unfolding d by (auto simp: util_in_def r32.rep_rnd)
  have "b < k + u"
  proof (rule ccontr)
    assume "\<not> b < k + u"
    then have le: "k + u \<le> b" by simp
    then have "fp_add binary32 x y = Fin (rnd_int 24 (k + u))"
      unfolding x y by (intro fp_add_Fin_le [OF _ le assms(3)]) (use x y assms in auto)
    moreover have "rnd_int 24 (k + u) \<le> b" by (rule r32.upper [OF le assms(3)])
    ultimately show False using assms(7) by simp
  qed
  then have du: "rnd_int 24 (b - k) \<le> u" by (intro r32.upper y) simp
  have "fp_sub binary32 y (Fin (rnd_int 24 (b - k))) = Fin (rnd_int 24 (u - rnd_int 24 (b - k)))"
    unfolding y by (rule fp_sub_Fin_ok) (use y d0 du assms in auto)
  moreover have "0 \<le> rnd_int 24 (u - rnd_int 24 (b - k))" using du by (intro r32.nonneg) simp
  moreover have "rnd_int 24 (u - rnd_int 24 (b - k)) \<le> b"
    by (rule r32.upper) (use d0 y assms in auto)
  ultimately show "util_in b (fp_sub binary32 y (fp_sub binary32 (Fin b) x))"
    unfolding d by (auto simp: util_in_def r32.rep_rnd)
  show "util_in b (fp_sub binary32 (Fin b) x)"
    unfolding d using d0 du y by (auto simp: util_in_def r32.rep_rnd)
qed

section \<open>Placing a task\<close>

definition sane_bound :: "int \<Rightarrow> bool" where
  "sane_bound b \<longleftrightarrow> representable 24 b \<and> 0 \<le> b \<and> b < 2 ^ 277 \<and> b + ulp 24 b < 2 ^ 277"

definition part_inv :: "int \<Rightarrow> nat \<Rightarrow> ptr multiset \<Rightarrow> nat multiset \<Rightarrow> spa2 \<Rightarrow> bool" where
  "part_inv b n H P s \<longleftrightarrow> loads_ok b s \<and> cores_in H s \<and> queue_ok b n s \<and> accounted n P s"

lemma Task_split_inv:
  assumes split: "Task_split mk (Some t) (Some n) (Some c) s = Inr s'"
    and t: "t < n" "n < MAX_NUM_TASKS"
    and inv: "part_inv b n H {#t#} s"
    and tail: "util_in b (Utilization (task_list s' ! n))" "util_in b (Utilization (task_list s' ! t))"
  shows "part_inv b (Suc n) H {#t#} s'"
proof -
  have ne: "t \<noteq> n" using t by simp
  note F = Task_split_frame [OF split] and E = Task_split_effect [OF split ne]
  have q: "t_invar (UQ s)" "length (task_list s) = MAX_NUM_TASKS"
    "\<forall>p \<in> set (t_contents (UQ s)). \<exists>i < n. p = Some i \<and> util_in b (Utilization (task_list s ! i))"
    "p \<in> set (t_contents (UQ s)) \<Longrightarrow> \<exists>i < n. p = Some i" for p
    using inv by (auto simp: part_inv_def queue_ok_def)
  obtain a where a: "placement a s" "mset (map fst a) + mset (map the (t_contents (UQ s))) + {#t#} = mset [0..<n]"
    using inv by (auto simp: part_inv_def elim: accountedE)
  have "size (mset (map fst a) + mset (map the (t_contents (UQ s))) + {#t#}) = n" unfolding a(2) by simp
  then have "length (t_contents (UQ s)) < MAX_NUM_TASKS" using t by simp
  then have uq: "t_invar (UQ s')" "t_contents (UQ s') = Some n # t_contents (UQ s)"
    using ts.push_contents [OF q(1) E(15)] by auto
  have other: "i < n" "i \<noteq> t" if "(i, d) \<in> set a" for i d
  proof -
    have i: "i \<in># mset (map fst a)" using that by force
    then have "i \<in># mset [0..<n]" unfolding a(2) [symmetric] by simp
    then show "i < n" by simp
    have "count (mset [0..<n]) t \<le> 1" using distinct_count_atmost_1 [of "[0..<n]"] by simp
    then have "count (mset (map fst a)) t = 0" unfolding a(2) [symmetric] by simp
    with i show "i \<noteq> t" by (metis not_in_iff)
  qed
  have same: "task_list s' ! i = task_list s ! i" if "(i, d) \<in> set a" for i d
    using other [OF that] E(14) by simp
  have "map (\<lambda>(t, c). (my_ptr (task_list s' ! t), core_mask c)) a =
      map (\<lambda>(t, c). (my_ptr (task_list s ! t), core_mask c)) a"
    using same by (intro map_cong) auto
  moreover have "core_load (task_list s') a d = core_load (task_list s) a d" for d
    using same by (intro core_load_cong) auto
  ultimately have "placement a s'" using a(1) by (simp add: placement_def F E(16))
  then have "accounted (Suc n) {#t#} s'"
    by (rule accountedI) (use a(2) in \<open>simp add: uq\<close>)
  moreover have "queue_ok b (Suc n) s'"
  proof -
    have "\<exists>i < Suc n. p = Some i \<and> util_in b (Utilization (task_list s' ! i))"
      if p: "p \<in> set (t_contents (UQ s))" for p
    proof -
      obtain i where i: "i < n" "p = Some i" "util_in b (Utilization (task_list s ! i))"
        using q(3) p by blast
      with tail(2) E(14) have "util_in b (Utilization (task_list s' ! i))" by (cases "i = t") auto
      with i show ?thesis by auto
    qed
    then show ?thesis using uq q tail F(7) t by (auto simp: queue_ok_def)
  qed
  ultimately show ?thesis
    using inv by (simp add: part_inv_def loads_ok_def cores_in_def F)
qed

lemma Assign_task_inv:
  assumes "Assign_task (Some t) (Some c) s = Inr s'" "part_inv b n H (add_mset t P) s"
    "util_in (b + ulp 24 b) (fp_add binary32 (C_Utilization (core_list s ! c)) (Utilization (task_list s ! t)))"
  shows "part_inv b n H P s'"
proof -
  have len: "length (core_list s) = configNUMBER_OF_CORES"
    using assms(2) by (simp add: part_inv_def loads_ok_def)
  have "c < configNUMBER_OF_CORES" using Assign_task_eq(1) [OF assms(1)] len by simp
  with assms len show ?thesis unfolding part_inv_def
    by (blast intro: Assign_task_loads Assign_task_cores Assign_task_accounted Assign_task_queue)
qed

lemma place_task_inv:
  assumes put: "place_task mk (Fin b) (Some t) (Some c) s = Inr s'" and b: "sane_bound b"
    and inv: "part_inv b (nat (curr_idx s)) H {#t#} s"
    and t: "t < nat (curr_idx s)" "util_in b (Utilization (task_list s ! t))"
    and room: "\<not> fp_le (Fin b) (C_Utilization (core_list s ! c))"
  shows "part_inv b (nat (curr_idx s')) H {#} s' \<and> 0 \<le> curr_idx s' \<and>
    core_manager s' = core_manager s \<and> pre_assigned_core s' = pre_assigned_core s"
proof -
  have load: "util_in (b + ulp 24 b) (C_Utilization (core_list s ! c))" if "c < length (core_list s)"
    using inv that by (simp add: part_inv_def loads_ok_def)
  have bound: "Utilization_Bound (core_manager s) = Fin b"
    using inv by (simp add: part_inv_def loads_ok_def)
  have pos: "0 \<le> curr_idx s" using t(1) by simp
  from put show ?thesis
  proof (cases rule: place_taskE)
    case (fits c' t')
    have "part_inv b (nat (curr_idx s)) H {#} s'"
      by (rule Assign_task_inv [OF fits(6) inv], rule fits_util_in [OF load t(2)])
        (use fits(1-5) b in \<open>simp_all add: sane_bound_def\<close>)
    then show ?thesis using Assign_task_frame [OF fits(6)] pos by simp
  next
    case (split c' t' s1)
    define n where "n = nat (curr_idx s)"
    let ?s0 = "s\<lparr>curr_idx := curr_idx s + 1\<rparr>"
    have eqs: "c' = c" "t' = t" using split(1,2) by auto
    have sp: "Task_split mk (Some t) (Some n) (Some c) ?s0 = Inr s1"
      using split(7) by (simp add: n_def)
    have n: "t < n" "n < MAX_NUM_TASKS" using t(1) split(6) by (auto simp: n_def)
    have ne: "t \<noteq> n" using n by simp
    note E = Task_split_effect [OF sp ne] and F = Task_split_frame [OF sp]
    have u: "Utilization (task_list s1 ! t) = fp_sub binary32 (Fin b) (C_Utilization (core_list s ! c))"
      using E(3) bound by auto
    note S = split_util_in [OF load t(2) _ _ _ room]
    have sb: "representable 24 b" "b < 2 ^ 277" "b + ulp 24 b < 2 ^ 277"
      using b by (auto simp: sane_bound_def)
    have cl: "c < length (core_list s)" using split(3) unfolding eqs .
    have nf: "\<not> fp_le (fp_add binary32 (C_Utilization (core_list s ! c)) (Utilization (task_list s ! t))) (Fin b)"
      using split(5) unfolding eqs .
    have inv0: "part_inv b n H {#t#} ?s0"
      using inv by (simp add: n_def part_inv_def loads_ok_def cores_in_def queue_ok_def accounted_def
          placement_def)
    have tailu: "Utilization (task_list s1 ! n) = fp_sub binary32 (Utilization (task_list s ! t))
        (fp_sub binary32 (Fin b) (C_Utilization (core_list s ! c)))"
      using E(4) u by simp
    have "part_inv b (Suc n) H {#t#} s1"
      by (rule Task_split_inv [OF sp n inv0])
        (use S(2,3) [OF cl sb nf] u tailu in \<open>simp_all\<close>)
    then have "part_inv b (Suc n) H {#} s'"
      by (rule Assign_task_inv [OF split(8)])
        (use S(1) [OF cl sb nf] u F(1) in simp)
    moreover have "nat (curr_idx s') = Suc n" "0 \<le> curr_idx s'"
      using Assign_task_frame [OF split(8)] F(2) pos by (simp_all add: n_def)
    ultimately show ?thesis using Assign_task_frame [OF split(8)] F by simp
  qed
qed

section \<open>A round of the normal assignment\<close>

definition normal_inv :: "int \<Rightarrow> spa2 \<Rightarrow> bool" where
  "normal_inv b s \<longleftrightarrow> 0 \<le> curr_idx s \<and> part_inv b (nat (curr_idx s)) {#} {#} s"

definition all_full :: "int \<Rightarrow> spa2 \<Rightarrow> bool" where
  "all_full b s \<longleftrightarrow> (\<forall>c < configNUMBER_OF_CORES. fp_le (Fin b) (C_Utilization (core_list s ! c)))"

lemma get_min_core_empty:
  assumes "c_invar s" "c_contents s = []"
  shows "get_min_core cl s = Inl OutOfBounds"
proof -
  have "c_top s = -1" using assms c_contents_length [OF assms(1)] by (simp add: c_invar_def)
  then show ?thesis by (simp add: get_min_core_def arr_get_def)
qed

lemma cores_in_fin:
  assumes "loads_ok b s" "cores_in H s"
  shows "fin_cores (core_list s) (core_manager s)"
proof -
  have "\<exists>c. p = Some c \<and> c < configNUMBER_OF_CORES" if "p \<in> set (c_contents (core_manager s))" for p
  proof -
    have "p \<in># mset (c_contents (core_manager s)) + mset (c_contents (pre_assigned_core s)) + H"
      using that by simp
    moreover have "mset (c_contents (core_manager s)) + mset (c_contents (pre_assigned_core s)) + H =
        {#Some 0, Some 1#}" using assms(2) by (simp only: cores_in_def)
    ultimately have "p \<in># {#Some 0, Some 1#}" by (simp only:)
    then show ?thesis by (auto simp: configNUMBER_OF_CORES_def)
  qed
  with assms show ?thesis by (fastforce simp: fin_cores_def cores_in_def loads_ok_def util_in_def)
qed

lemma cores_in_member:
  "cores_in H s \<Longrightarrow> Some c \<in># mset (c_contents (core_manager s)) + mset (c_contents (pre_assigned_core s)) + H
    \<Longrightarrow> c < configNUMBER_OF_CORES"
  by (auto simp: cores_in_def configNUMBER_OF_CORES_def)

lemma two_cores_distinct: "add_mset x (add_mset x M) = {#Some (0::nat), Some 1#} \<Longrightarrow> False"
  by (auto simp: add_eq_conv_ex)

lemma cores_in_held:
  assumes "cores_in (add_mset (Some c) H) s"
  shows "pre_assigned (core_list s ! c)"
proof -
  have c: "c < configNUMBER_OF_CORES" using cores_in_member [OF assms, of c] by simp
  have "Some c \<notin> set (c_contents (core_manager s))"
  proof
    assume "Some c \<in> set (c_contents (core_manager s))"
    then obtain M where "mset (c_contents (core_manager s)) = add_mset (Some c) M"
      by (metis multi_member_split set_mset_mset)
    then have "add_mset (Some c) (add_mset (Some c) (M + mset (c_contents (pre_assigned_core s)) + H)) =
        {#Some 0, Some 1#}"
      using assms by (simp add: cores_in_def)
    then show False by (rule two_cores_distinct)
  qed
  with assms c show ?thesis by (simp add: cores_in_def)
qed

lemma cores_in_push:
  assumes "cores_in (add_mset (Some c) H) s" "Push_core (Some c) (pre_assigned_core s) = Inr pc"
  shows "cores_in H (s\<lparr>pre_assigned_core := pc\<rparr>)"
proof -
  have "size (mset (c_contents (core_manager s)) + mset (c_contents (pre_assigned_core s)) +
      add_mset (Some c) H) = size {#Some (0::nat), Some 1#}"
    using assms(1) by (simp only: cores_in_def)
  then have "length (c_contents (pre_assigned_core s)) < configNUMBER_OF_CORES"
    by (simp add: configNUMBER_OF_CORES_def)
  then have "c_invar pc" "c_contents pc = Some c # c_contents (pre_assigned_core s)"
    using cs.push_contents [OF _ assms(2)] assms(1) by (auto simp: cores_in_def)
  then show ?thesis using assms(1) by (simp add: cores_in_def)
qed

lemma cores_in_pop:
  assumes "cores_in H s" "Pop_core (pre_assigned_core s) = Inr (Some c, pc)"
  shows "cores_in (add_mset (Some c) H) (s\<lparr>pre_assigned_core := pc\<rparr>)"
proof -
  have "c_invar pc \<and> c_contents (pre_assigned_core s) = Some c # c_contents pc"
    using cs.pop_contents [OF _ assms(2)] assms(1) by (auto simp: cores_in_def split: list.splits)
  then show ?thesis using assms(1) by (simp add: cores_in_def)
qed

lemma part_inv_upd:
  "part_inv b n H P s \<Longrightarrow> cores_in H' (s\<lparr>pre_assigned_core := pc\<rparr>) \<Longrightarrow>
     part_inv b n H' P (s\<lparr>pre_assigned_core := pc\<rparr>)"
  by (simp add: part_inv_def loads_ok_def queue_ok_def accounted_def placement_def)

lemma part_inv_pop:
  assumes inv: "part_inv b n H P s" and pop: "Pop_task (UQ s) = Inr (T, uq)" and ne: "\<not> T_is_empty (UQ s)"
  obtains t where "T = Some t" "t < n" "util_in b (Utilization (task_list s ! t))"
    "part_inv b n H (add_mset t P) (s\<lparr>UQ := uq\<rparr>)"
proof -
  have ti: "t_invar (UQ s)" using inv by (simp add: part_inv_def queue_ok_def)
  then obtain ps where ps: "t_contents (UQ s) = T # ps" "t_contents uq = ps" "t_invar uq"
    using ts.pop_contents [OF ti pop] ne t_contents_empty [OF ti] by (cases "t_contents (UQ s)") auto
  then obtain t where t: "T = Some t" "t < n" "util_in b (Utilization (task_list s ! t))"
    using inv by (fastforce simp: part_inv_def queue_ok_def)
  have "part_inv b n H (add_mset t P) (s\<lparr>UQ := uq\<rparr>)"
    using inv ps t by (simp add: part_inv_def loads_ok_def cores_in_def queue_ok_def accounted_def
        placement_def)
  with t show thesis by (rule that)
qed

text \<open>The round as a case distinction: the least loaded core, or a pre-assigned one, or the exit.\<close>

lemma normal_stepE:
  assumes "normal_step mk ub s = Inr r"
  obtains (light) m T uq s2 where "get_min_core (core_list s) (core_manager s) = Inr (Some m)"
      "m < length (core_list s)" "Pop_task (UQ s) = Inr (T, uq)"
      "\<not> fp_le ub (C_Utilization (core_list s ! m))"
      "place_task mk ub T (Some m) (s\<lparr>UQ := uq\<rparr>) = Inr s2"
      "pre_assigned (core_list s2 ! m) \<longrightarrow> (\<exists>pc. Push_core (Some m) (pre_assigned_core s2) = Inr pc \<and>
         r = Cont (s2\<lparr>pre_assigned_core := pc\<rparr>))"
      "\<not> pre_assigned (core_list s2 ! m) \<longrightarrow> r = Cont s2"
  | (heavy) m T uq c pc s2 where "get_min_core (core_list s) (core_manager s) = Inr (Some m)"
      "m < length (core_list s)" "Pop_task (UQ s) = Inr (T, uq)"
      "fp_le ub (C_Utilization (core_list s ! m))"
      "Pop_core (pre_assigned_core s) = Inr (Some c, pc)" "c < length (core_list s)"
      "\<not> fp_le ub (C_Utilization (core_list s ! c))"
      "place_task mk ub T (Some c) (s\<lparr>UQ := uq, pre_assigned_core := pc\<rparr>) = Inr s2"
      "pre_assigned (core_list s2 ! c) \<longrightarrow> (\<exists>pc'. Push_core (Some c) (pre_assigned_core s2) = Inr pc' \<and>
         r = Cont (s2\<lparr>pre_assigned_core := pc'\<rparr>))"
      "\<not> pre_assigned (core_list s2 ! c) \<longrightarrow> r = Cont s2"
  | (full) m T uq c pc where "get_min_core (core_list s) (core_manager s) = Inr (Some m)"
      "m < length (core_list s)" "Pop_task (UQ s) = Inr (T, uq)"
      "fp_le ub (C_Utilization (core_list s ! m))"
      "Pop_core (pre_assigned_core s) = Inr (Some c, pc)" "c < length (core_list s)"
      "fp_le ub (C_Utilization (core_list s ! c))"
      "r = Brk (s\<lparr>UQ := uq, pre_assigned_core := pc\<rparr>)"
proof -
  from assms obtain minC T uq C f s1 where 1:
    "get_min_core (core_list s) (core_manager s) = Inr minC" "Pop_task (UQ s) = Inr (T, uq)"
    "select_core ub minC (s\<lparr>UQ := uq\<rparr>) = Inr (C, f, s1)"
    and R: "(if f then Inr (Brk s1)
       else bindE (place_task mk ub T C s1) (\<lambda>s2. bindE (deref (core_list s2) C) (\<lambda>c.
         if pre_assigned (core_list s2 ! c)
         then bindE (Push_core C (pre_assigned_core s2)) (\<lambda>pc. Inr (Cont (s2\<lparr>pre_assigned_core := pc\<rparr>)))
         else Inr (Cont s2)))) = Inr r"
    unfolding normal_step_def bindE_eq_Inr by (auto split: prod.splits)
  have 2: "f \<Longrightarrow> r = Brk s1" using R by simp
  have 3: "\<exists>s2 c. place_task mk ub T C s1 = Inr s2 \<and> C = Some c \<and>
       (if pre_assigned (core_list s2 ! c)
        then \<exists>pc. Push_core C (pre_assigned_core s2) = Inr pc \<and> r = Cont (s2\<lparr>pre_assigned_core := pc\<rparr>)
        else r = Cont s2)" if "\<not> f"
  proof -
    from R that obtain s2 c where "place_task mk ub T C s1 = Inr s2" "C = Some c"
      and e: "(if pre_assigned (core_list s2 ! c)
         then bindE (Push_core C (pre_assigned_core s2)) (\<lambda>pc. Inr (Cont (s2\<lparr>pre_assigned_core := pc\<rparr>)))
         else Inr (Cont s2)) = Inr r" by auto
    moreover from e have "if pre_assigned (core_list s2 ! c)
        then \<exists>pc. Push_core C (pre_assigned_core s2) = Inr pc \<and> r = Cont (s2\<lparr>pre_assigned_core := pc\<rparr>)
        else r = Cont s2" by (cases "pre_assigned (core_list s2 ! c)") auto
    ultimately show ?thesis by blast
  qed
  obtain m where m: "minC = Some m" "m < length (core_list s)"
    and S: "(if fp_le ub (C_Utilization (core_list s ! m))
       then bindE (Pop_core (pre_assigned_core s)) (\<lambda>(p, pc). bindE (deref (core_list s) p) (\<lambda>c'.
              Inr (p, fp_le ub (C_Utilization (core_list s ! c')), s\<lparr>UQ := uq, pre_assigned_core := pc\<rparr>)))
       else Inr (minC, False, s\<lparr>UQ := uq\<rparr>)) = Inr (C, f, s1)"
    using 1(3) unfolding select_core_def bindE_eq_Inr by (auto cong: if_cong)
  consider
    (l) "\<not> fp_le ub (C_Utilization (core_list s ! m))" "C = Some m" "\<not> f" "s1 = s\<lparr>UQ := uq\<rparr>"
  | (h) c pc where "fp_le ub (C_Utilization (core_list s ! m))"
      "Pop_core (pre_assigned_core s) = Inr (Some c, pc)" "C = Some c" "c < length (core_list s)"
      "f = fp_le ub (C_Utilization (core_list s ! c))" "s1 = s\<lparr>UQ := uq, pre_assigned_core := pc\<rparr>"
    using S m by (cases "fp_le ub (C_Utilization (core_list s ! m))") auto
  then show thesis
  proof cases
    case l
    obtain s2 where "place_task mk ub T C s1 = Inr s2"
      "if pre_assigned (core_list s2 ! m)
        then \<exists>pc. Push_core C (pre_assigned_core s2) = Inr pc \<and> r = Cont (s2\<lparr>pre_assigned_core := pc\<rparr>)
        else r = Cont s2"
      using 3 l by blast
    with l m 1 show thesis by (intro light [of m T uq s2]) auto
  next
    case h
    show thesis
    proof (cases f)
      case True
      with h m 1 2 show thesis by (intro full [of m T uq c pc]) auto
    next
      case False
      then obtain s2 where "place_task mk ub T C s1 = Inr s2"
        "if pre_assigned (core_list s2 ! c)
          then \<exists>pc. Push_core C (pre_assigned_core s2) = Inr pc \<and> r = Cont (s2\<lparr>pre_assigned_core := pc\<rparr>)
          else r = Cont s2"
        using 3 h by blast
      with False h m 1 show thesis by (intro heavy [of m T uq c pc s2]) auto
    qed
  qed
qed

lemma normal_min_core:
  assumes "part_inv b n H P s" "get_min_core (core_list s) (core_manager s) = Inr (Some m)"
  shows "Some m \<in> set (c_contents (core_manager s))"
    "Some c \<in> set (c_contents (core_manager s)) \<Longrightarrow> fp_le (Fin b) (C_Utilization (core_list s ! m)) \<Longrightarrow>
       fp_le (Fin b) (C_Utilization (core_list s ! c))"
proof -
  have fin: "fin_cores (core_list s) (core_manager s)"
    using assms(1) by (auto simp: part_inv_def intro: cores_in_fin)
  have ne: "c_contents (core_manager s) \<noteq> []"
    using assms get_min_core_empty [of "core_manager s"] by (auto simp: part_inv_def cores_in_def)
  from get_min_core_ok [OF fin ne] assms(2) obtain k where
    k: "Some m \<in> set (c_contents (core_manager s))" "C_Utilization (core_list s ! m) = Fin k"
      "\<And>c'. Some c' \<in> set (c_contents (core_manager s)) \<Longrightarrow> k \<le> fin_val (C_Utilization (core_list s ! c'))"
    by auto
  then show "Some m \<in> set (c_contents (core_manager s))" by simp
  show "fp_le (Fin b) (C_Utilization (core_list s ! c))"
    if "Some c \<in> set (c_contents (core_manager s))" "fp_le (Fin b) (C_Utilization (core_list s ! m))"
  proof -
    have "\<exists>l. C_Utilization (core_list s ! c) = Fin l" using fin that(1) by (auto simp: fin_cores_def)
    then show ?thesis using k(2) k(3) [OF that(1)] that(2) by auto
  qed
qed

lemma normal_step_inv:
  assumes step: "normal_step mk (Fin b) s = Inr r" and ne: "\<not> T_is_empty (UQ s)"
    and inv: "normal_inv b s" and b: "sane_bound b"
  shows "case r of Cont s' \<Rightarrow> normal_inv b s' | Brk s' \<Rightarrow> loads_ok b s' \<and> all_full b s' \<and> (\<exists>P. accounted (nat (curr_idx s')) P s')"
  using step
proof (cases rule: normal_stepE)
  case (light m T uq s2)
  define s1 where "s1 = s\<lparr>UQ := uq\<rparr>"
  have P: "part_inv b (nat (curr_idx s)) {#} {#} s" "0 \<le> curr_idx s" using inv by (auto simp: normal_inv_def)
  obtain t where t: "T = Some t" "t < nat (curr_idx s1)" "util_in b (Utilization (task_list s1 ! t))"
    "part_inv b (nat (curr_idx s1)) {#} {#t#} s1"
    using part_inv_pop [OF P(1) light(3) ne] by (auto simp: s1_def)
  have put: "place_task mk (Fin b) (Some t) (Some m) s1 = Inr s2" using light(5) t by (simp add: s1_def)
  have room: "\<not> fp_le (Fin b) (C_Utilization (core_list s1 ! m))" using light(4) by (simp add: s1_def)
  note I = place_task_inv [OF put b t(4,2,3) room]
  have "Some m \<in> set (c_contents (core_manager s2))"
    using normal_min_core(1) [OF P(1) light(1)] I by (simp add: s1_def)
  moreover have C2: "cores_in {#} s2" using I by (simp add: part_inv_def)
  moreover have "m < configNUMBER_OF_CORES"
    by (rule cores_in_member [OF C2]) (use calculation(1) in simp)
  ultimately have "\<not> pre_assigned (core_list s2 ! m)" by (simp add: cores_in_def)
  then show ?thesis using light(7) I by (simp add: normal_inv_def)
next
  case (heavy m T uq c pc s2)
  define s1 where "s1 = s\<lparr>UQ := uq\<rparr>"
  have P: "part_inv b (nat (curr_idx s)) {#} {#} s" "0 \<le> curr_idx s" using inv by (auto simp: normal_inv_def)
  obtain t where t: "T = Some t" "t < nat (curr_idx s1)" "util_in b (Utilization (task_list s1 ! t))"
    "part_inv b (nat (curr_idx s1)) {#} {#t#} s1"
    using part_inv_pop [OF P(1) heavy(3) ne] by (auto simp: s1_def)
  define sp where "sp = s1\<lparr>pre_assigned_core := pc\<rparr>"
  have "cores_in {#} s1" using t(4) by (simp add: part_inv_def)
  then have H: "cores_in {#Some c#} sp"
    unfolding sp_def by (rule cores_in_pop) (simp add: s1_def heavy(5))
  have "part_inv b (nat (curr_idx sp)) {#Some c#} {#t#} sp"
    using part_inv_upd [OF t(4) H [unfolded sp_def]] by (simp add: sp_def)
  moreover have "place_task mk (Fin b) (Some t) (Some c) sp = Inr s2"
    using heavy(8) t(1) by (simp add: sp_def s1_def)
  moreover have "\<not> fp_le (Fin b) (C_Utilization (core_list sp ! c))" using heavy(7) by (simp add: sp_def s1_def)
  ultimately have I: "part_inv b (nat (curr_idx s2)) {#Some c#} {#} s2 \<and> 0 \<le> curr_idx s2"
    using place_task_inv [of mk b t c sp s2] t(2,3) b by (simp add: sp_def)
  then have held: "cores_in {#Some c#} s2" by (simp add: part_inv_def)
  then obtain pc' where pc': "Push_core (Some c) (pre_assigned_core s2) = Inr pc'"
      "r = Cont (s2\<lparr>pre_assigned_core := pc'\<rparr>)"
    using heavy(9) cores_in_held [OF held] by auto
  have "cores_in {#} (s2\<lparr>pre_assigned_core := pc'\<rparr>)" by (rule cores_in_push [OF held pc'(1)])
  then have "part_inv b (nat (curr_idx s2)) {#} {#} (s2\<lparr>pre_assigned_core := pc'\<rparr>)"
    using I by (auto intro: part_inv_upd)
  then show ?thesis using I by (simp add: pc' normal_inv_def)
next
  case (full m T uq c pc)
  have P: "part_inv b (nat (curr_idx s)) {#} {#} s" using inv by (simp add: normal_inv_def)
  have C: "cores_in {#} s" using P by (simp add: part_inv_def)
  then have CH: "cores_in {#Some c#} (s\<lparr>pre_assigned_core := pc\<rparr>)" by (rule cores_in_pop [OF _ full(5)])
  have m: "Some m \<in># mset (c_contents (core_manager s))" using normal_min_core(1) [OF P full(1)] by simp
  have "all_full b s"
    unfolding all_full_def
  proof (intro allI impI)
    fix d assume d: "d < configNUMBER_OF_CORES"
    show "fp_le (Fin b) (C_Utilization (core_list s ! d))"
    proof (cases "Some d \<in> set (c_contents (core_manager s))")
      case True
      then show ?thesis using normal_min_core(2) [OF P full(1)] full(4) by blast
    next
      case False
      have E: "mset (c_contents (core_manager s)) + mset (c_contents pc) + {#Some c#} = {#Some 0, Some 1#}"
        using CH by (simp add: cores_in_def)
      have "d = c"
      proof (rule ccontr)
        assume dc: "d \<noteq> c"
        have "Some d \<in># mset (c_contents (core_manager s)) + mset (c_contents pc) + {#Some c#}"
          unfolding E using d by (auto simp: configNUMBER_OF_CORES_def)
        then have "Some d \<in># mset (c_contents pc)" using dc False by auto
        then obtain M where "mset (c_contents pc) = add_mset (Some d) M" by (metis multi_member_split)
        moreover obtain N where "mset (c_contents (core_manager s)) = add_mset (Some m) N"
          using m by (metis multi_member_split)
        ultimately have "size (add_mset (Some m) N + add_mset (Some d) M + {#Some c#}) = size {#Some (0::nat), Some 1#}"
          using E by (simp only:)
        then show False by simp
      qed
      then show ?thesis using full(7) by simp
    qed
  qed
  moreover obtain t where "part_inv b (nat (curr_idx s)) {#} {#t#} (s\<lparr>UQ := uq\<rparr>)"
    using part_inv_pop [OF P full(3) ne] by auto
  then have "accounted (nat (curr_idx s)) {#t#} (s\<lparr>UQ := uq\<rparr>)" by (simp add: part_inv_def)
  then have "accounted (nat (curr_idx s)) {#t#} (s\<lparr>UQ := uq, pre_assigned_core := pc\<rparr>)"
    by (rule accounted_cong) simp_all
  ultimately show ?thesis
    using P by (auto simp: full(8) part_inv_def loads_ok_def all_full_def)
qed

lemma normal_assign_inv:
  assumes "normal_assign mk (Fin b) s = Inr s'" "normal_inv b s" "sane_bound b"
  shows "loads_ok b s' \<and> (normal_inv b s' \<and> T_is_empty (UQ s') \<or>
    all_full b s' \<and> (\<exists>P. accounted (nat (curr_idx s')) P s'))"
  using assms(1,2)
proof (induction mk "Fin b" s rule: normal_assign.induct)
  case (1 mk s)
  show ?case
  proof (cases "T_is_empty (UQ s)")
    case True
    then show ?thesis using 1(2,3) by (simp add: normal_assign.simps normal_inv_def part_inv_def)
  next
    case False
    with 1(2) obtain r where r: "normal_step mk (Fin b) s = Inr r"
      by (auto simp: normal_assign.simps [of mk "Fin b" s] split: sum.splits)
    note I = normal_step_inv [OF r False 1(3) assms(3)]
    show ?thesis
    proof (cases r)
      case (Brk s1)
      then have "s' = s1" using 1(2) r False by (simp add: normal_assign.simps [of mk "Fin b" s])
      then show ?thesis using I Brk by simp
    next
      case (Cont s1)
      then have "normal_assign mk (Fin b) s1 = Inr s'"
        using 1(2) r False by (simp add: normal_assign.simps [of mk "Fin b" s])
      moreover have "normal_inv b s1" using I Cont by simp
      ultimately show ?thesis using 1(1) [OF False r Cont] by simp
    qed
  qed
qed

section \<open>The pre-assignment of heavy tasks\<close>

definition pre_inv :: "int \<Rightarrow> nat \<Rightarrow> spa2 \<Rightarrow> bool" where
  "pre_inv b i s \<longleftrightarrow> curr_idx s = int NUM_OF_TASK \<and> part_inv b i {#} {#} s \<and>
     length (pinned (kcalls s)) = length (c_contents (pre_assigned_core s)) \<and>
     (\<forall>c. Some c \<in> set (c_contents (core_manager s)) \<longrightarrow> C_Utilization (core_list s ! c) = Fin 0) \<and>
     (\<forall>j < NUM_OF_TASK. util_in b (Utilization (task_list s ! j)) \<and> t_list (task_manager s) ! j = Some j) \<and>
     length (t_list (task_manager s)) = MAX_NUM_TASKS"

lemma cores_in_size:
  "cores_in {#} s \<Longrightarrow> length (c_contents (core_manager s)) + length (c_contents (pre_assigned_core s)) =
     configNUMBER_OF_CORES"
  by (drule cores_in_def [THEN iffD1, THEN conjunct2, THEN conjunct2, THEN conjunct1, THEN arg_cong [of _ _ size]])
    (simp add: configNUMBER_OF_CORES_def)

lemma cores_in_room:
  assumes "cores_in {#} s" "Pop_core (core_manager s) = Inr (Some c, cm)"
  shows "length (c_contents (pre_assigned_core s)) < configNUMBER_OF_CORES"
proof -
  have "c_contents (core_manager s) \<noteq> []"
    using cs.pop_contents [OF _ assms(2)] assms(1) by (auto simp: cores_in_def split: list.splits)
  then show ?thesis using cores_in_size [OF assms(1)] by (cases "c_contents (core_manager s)") auto
qed

lemma cores_in_preassign:
  assumes C: "cores_in {#} s" and pop: "Pop_core (core_manager s) = Inr (Some c, cm)"
    and push: "Push_core (Some c) (pre_assigned_core s) = Inr pc"
    and s': "core_manager s' = cm" "pre_assigned_core s' = pc"
      "\<forall>d < configNUMBER_OF_CORES. pre_assigned (core_list s' ! d) \<longleftrightarrow> d = c \<or> pre_assigned (core_list s ! d)"
  shows "cores_in {#} s'" "set (c_contents cm) = set (c_contents (core_manager s)) - {Some c}"
    "c < configNUMBER_OF_CORES"
proof -
  have cm: "c_invar cm" "c_contents (core_manager s) = Some c # c_contents cm"
    using cs.pop_contents [OF _ pop] C by (auto simp: cores_in_def split: list.splits)
  have E: "mset (c_contents (core_manager s)) + mset (c_contents (pre_assigned_core s)) = {#Some 0, Some 1#}"
    using C by (simp add: cores_in_def)
  then have "size (mset (c_contents (core_manager s)) + mset (c_contents (pre_assigned_core s))) =
      size {#Some (0::nat), Some 1#}" by (simp only:)
  then have "length (c_contents (pre_assigned_core s)) < configNUMBER_OF_CORES"
    by (simp add: cm configNUMBER_OF_CORES_def)
  then have pc: "c_invar pc" "c_contents pc = Some c # c_contents (pre_assigned_core s)"
    using cs.push_contents [OF _ push] C by (auto simp: cores_in_def)
  have "Some c \<notin> set (c_contents cm)"
  proof
    assume "Some c \<in> set (c_contents cm)"
    then obtain M where "mset (c_contents cm) = add_mset (Some c) M"
      by (metis multi_member_split set_mset_mset)
    then have "add_mset (Some c) (add_mset (Some c) (M + mset (c_contents (pre_assigned_core s)))) =
        {#Some 0, Some 1#}" using E by (simp add: cm)
    then show False by (rule two_cores_distinct)
  qed
  then show set': "set (c_contents cm) = set (c_contents (core_manager s)) - {Some c}"
    by (simp add: cm)
  show "c < configNUMBER_OF_CORES" by (rule cores_in_member [OF C]) (simp add: cm)
  have "mset (c_contents cm) + mset (c_contents pc) = {#Some 0, Some 1#}"
    using E by (simp add: pc(2) cm(2))
  moreover have "\<forall>d < configNUMBER_OF_CORES. pre_assigned (core_list s' ! d) \<longleftrightarrow> Some d \<notin> set (c_contents cm)"
    using C s'(3) unfolding set' by (auto simp: cores_in_def)
  ultimately show "cores_in {#} s'" using cm(1) pc(1) s'(1,2) by (simp add: cores_in_def)
qed

lemma fp_add_zero: "util_in b u \<Longrightarrow> sane_bound b \<Longrightarrow> fp_add binary32 (Fin 0) u = u"
proof -
  assume "util_in b u" "sane_bound b"
  then obtain k where k: "u = Fin k" "representable 24 k" "0 \<le> k" "k < 2 ^ 277"
    by (auto simp: util_in_def sane_bound_def)
  then have "fp_add binary32 (Fin 0) (Fin k) = Fin (rnd_int 24 (0 + k))"
    by (intro fp_add_Fin_le [of _ _ k]) auto
  then show ?thesis using k by (simp add: r32.exact)
qed

lemma util_in_weaken: "util_in b u \<Longrightarrow> util_in (b + ulp 24 b) u"
  by (erule util_in_mono) (use ulp_nonneg [of 24 b] in linarith)

lemma accounted_size:
  assumes "accounted n P s"
  shows "length (pinned (kcalls s)) + length (t_contents (UQ s)) + size P = n"
proof -
  obtain a where a: "placement a s" "mset (map fst a) + mset (map the (t_contents (UQ s))) + P = mset [0..<n]"
    using assms by (rule accountedE)
  have "size (mset (map fst a) + mset (map the (t_contents (UQ s))) + P) = n" unfolding a(2) by simp
  then show ?thesis using a(1) by (simp add: placement_def)
qed

lemma accounted_Suc: "accounted n {#} s \<Longrightarrow> accounted (Suc n) {#n#} s"
  by (simp add: accounted_def)

lemma pre_assign_step_inv:
  assumes step: "pre_assign_step i s = Inr s'" and i: "i < NUM_OF_TASK" and inv: "pre_inv b i s"
    and b: "sane_bound b"
  shows "pre_inv b (Suc i) s'"
proof -
  have P: "loads_ok b s" "cores_in {#} s" "queue_ok b i s" "accounted i {#} s"
    using inv by (auto simp: pre_inv_def part_inv_def)
  have iu: "util_in b (Utilization (task_list s ! i))" using inv i by (simp add: pre_inv_def)
  have len: "length (task_list s) = MAX_NUM_TASKS" using P(3) by (simp add: queue_ok_def)
  have il: "i < length (task_list s)" using i len by (simp add: MAX_NUM_TASKS_def configNUMBER_OF_CORES_def)
  have T: "arr_get (t_list (task_manager s)) (int i) = Inr (Some i)"
    using inv i by (simp add: pre_inv_def MAX_NUM_TASKS_def configNUMBER_OF_CORES_def)
  have A1: "accounted (Suc i) {#i#} s" by (rule accounted_Suc [OF P(4)])
  have Q1: "queue_ok b (Suc i) s" using P(3) il len by (fastforce simp: queue_ok_def)
  from step T obtain ok where ok:
    "(if ok then
         bindE (Pop_core (core_manager s)) (\<lambda>(C, cm).
         bindE (Assign_task (Some i) C (s\<lparr>core_manager := cm\<rparr>)) (\<lambda>s1.
         bindE (deref (core_list s1) C) (\<lambda>c.
           let s2 = upd_core c (\<lambda>x. x\<lparr>pre_assigned := True\<rparr>) s1
           in bindE (Push_core C (pre_assigned_core s2)) (\<lambda>pc. Inr (s2\<lparr>pre_assigned_core := pc\<rparr>)))))
       else bindE (Push_task (Some i) (UQ s)) (\<lambda>uq. Inr (s\<lparr>UQ := uq\<rparr>))) = Inr s'"
    unfolding pre_assign_step_def bindE_eq_Inr by auto
  show ?thesis
  proof (cases ok)
    case False
    then obtain uq where uq: "Push_task (Some i) (UQ s) = Inr uq" "s' = s\<lparr>UQ := uq\<rparr>" using ok by auto
    have "length (t_contents (UQ s)) < MAX_NUM_TASKS"
      using accounted_size [OF P(4)] i by (simp add: MAX_NUM_TASKS_def configNUMBER_OF_CORES_def)
    then have q: "t_invar uq" "t_contents uq = Some i # t_contents (UQ s)"
      using ts.push_contents [OF _ uq(1)] P(3) by (auto simp: queue_ok_def)
    have "accounted (Suc i) {#} s'"
      using A1 by (simp add: uq(2) accounted_def q placement_def)
    moreover have "queue_ok b (Suc i) s'"
      using Q1 q iu by (auto simp: uq(2) queue_ok_def)
    ultimately show ?thesis
      using inv P by (simp add: uq(2) pre_inv_def part_inv_def loads_ok_def cores_in_def)
  next
    case True
    then obtain C cm s1 c pc where 1: "Pop_core (core_manager s) = Inr (C, cm)"
      "Assign_task (Some i) C (s\<lparr>core_manager := cm\<rparr>) = Inr s1" "C = Some c" "c < length (core_list s1)"
      "Push_core C (pre_assigned_core s1) = Inr pc"
      "s' = (upd_core c (\<lambda>x. x\<lparr>pre_assigned := True\<rparr>) s1)\<lparr>pre_assigned_core := pc\<rparr>"
      using ok by (auto simp: Let_def split: prod.splits)
    let ?s0 = "s\<lparr>core_manager := cm\<rparr>"
    have as: "Assign_task (Some i) (Some c) ?s0 = Inr s1" using 1(2,3) by simp
    note F = Assign_task_frame [OF as] and E = Assign_task_eq [OF as]
    have cmb: "Utilization_Bound cm = Utilization_Bound (core_manager s)"
      using 1(1) by (auto simp: Pop_core_def split: if_splits)
    have pop: "Pop_core (core_manager s) = Inr (Some c, cm)" using 1(1,3) by simp
    have push: "Push_core (Some c) (pre_assigned_core s) = Inr pc" using 1(3,5) F by simp
    have flags: "\<forall>d < configNUMBER_OF_CORES. pre_assigned (core_list s' ! d) \<longleftrightarrow> d = c \<or> pre_assigned (core_list s ! d)"
      using 1(4) E by (auto simp: 1(6) core_list_upd_core nth_list_update)
    note K = cores_in_preassign [OF P(2) pop push _ _ flags]
    have K': "cores_in {#} s'" "set (c_contents cm) = set (c_contents (core_manager s)) - {Some c}"
      "c < configNUMBER_OF_CORES"
      by (rule K; simp add: 1(6) F)+
    have "Some c \<in> set (c_contents (core_manager s))"
      using cs.pop_contents [OF _ pop] P(2) by (auto simp: cores_in_def split: list.splits)
    then have zero: "C_Utilization (core_list s ! c) = Fin 0" using inv by (simp add: pre_inv_def)
    have L0: "loads_ok b ?s0" using P(1) cmb by (simp add: loads_ok_def)
    have "loads_ok b s1"
      by (rule Assign_task_loads [OF as L0 K'(3)])
        (use zero iu b fp_add_zero util_in_weaken in \<open>simp add: fp_add_zero\<close>)
    then have L: "loads_ok b s'" by (auto simp: loads_ok_def 1(6) core_list_upd_core)
    have "accounted (Suc i) {#i#} ?s0" using A1 by (rule accounted_cong) simp_all
    then have "accounted (Suc i) {#} s1" by (rule Assign_task_accounted [OF as])
    then have A: "accounted (Suc i) {#} s'"
      by (rule accounted_cong) (simp_all add: 1(6) core_list_upd_core, simp add: upd_core_def map_field_upd)
    have "queue_ok b (Suc i) ?s0" using Q1 by (simp add: queue_ok_def)
    then have "queue_ok b (Suc i) s1" by (rule Assign_task_queue [OF as])
    then have Q: "queue_ok b (Suc i) s'" by (simp add: 1(6) queue_ok_def)
    have Z: "C_Utilization (core_list s' ! d) = Fin 0" if "Some d \<in> set (c_contents cm)" for d
      using that inv K'(2) by (auto simp: pre_inv_def 1(6) core_list_upd_core E(3))
    have "length (pinned (kcalls s')) = length (c_contents pc)" if "c_contents pc = Some c # c_contents (pre_assigned_core s)"
      using inv that by (simp add: 1(6) E(4) pre_inv_def)
    moreover have "length (c_contents (pre_assigned_core s)) < configNUMBER_OF_CORES"
      using P(2) pop by (rule cores_in_room)
    then have "c_contents pc = Some c # c_contents (pre_assigned_core s)"
      using cs.push_contents [OF _ push] P(2) by (auto simp: cores_in_def)
    ultimately show ?thesis
      using inv L K'(1) Q A Z by (simp add: pre_inv_def part_inv_def 1(6) F)
  qed
qed

lemma pre_assign_inv:
  assumes "pre_assign [i..<NUM_OF_TASK] s = Inr s'" "i \<le> NUM_OF_TASK" "pre_inv b i s" "sane_bound b"
  shows "pre_inv b NUM_OF_TASK s'"
  using assms
proof (induction "NUM_OF_TASK - i" arbitrary: i s)
  case 0
  then show ?case by simp
next
  case (Suc k)
  then have i: "i < NUM_OF_TASK" by simp
  with Suc.prems(1) obtain s1 where "pre_assign_step i s = Inr s1" "pre_assign [Suc i..<NUM_OF_TASK] s1 = Inr s'"
    by (auto simp: upt_conv_Cons)
  moreover have "pre_inv b (Suc i) s1"
    by (rule pre_assign_step_inv) (use i Suc.prems calculation in auto)
  ultimately show ?case using Suc.hyps(1) [of "Suc i" s1] Suc.hyps(2) Suc.prems(4) i by simp
qed

section \<open>The initialisation of the tasks\<close>

definition task_util :: "task_info \<Rightarrow> f32" where
  "task_util x = fp_div binary32 (fp_of_int binary32 (uint (Runtime x))) (fp_of_int binary32 (uint (Period x)))"

lemma fp_round_binary32:
  "0 < b \<Longrightarrow> fp_round binary32 a b = Fin k \<Longrightarrow> representable 24 k \<and> (0 \<le> a \<longrightarrow> 0 \<le> k) \<and> k < 2 ^ 277"
  by (auto simp: fp_round_def binary32_def Let_def rnd_sgn_def rnd_ratio_nonneg
      intro!: rnd_ratio_representable split: if_splits)

lemma fp_round_nonneg: "0 \<le> a \<Longrightarrow> 0 < b \<Longrightarrow> fp_round binary32 a b = PInf \<or> (\<exists>k. fp_round binary32 a b = Fin k)"
proof -
  assume "0 \<le> a" "0 < b"
  then have "0 \<le> rnd_ratio 24 a b" by (intro rnd_ratio_nonneg) auto
  then show ?thesis using \<open>0 \<le> a\<close> by (simp add: fp_round_def binary32_def Let_def rnd_sgn_def)
qed

lemma fp_of_uint: "\<exists>k. fp_of_int binary32 (uint (w :: 'a :: len word)) = Fin k \<and> 0 \<le> k \<or>
    fp_of_int binary32 (uint w) = PInf"
  using fp_round_nonneg [of "uint w * 2 ^ scale binary32" 1] fp_round_binary32 [of 1 "uint w * 2 ^ scale binary32"]
  by (fastforce simp: fp_of_int_def)

lemma nonneg_div_in:
  assumes "r = PInf \<or> (\<exists>k. r = Fin k \<and> 0 \<le> k)" "p = PInf \<or> (\<exists>k. p = Fin k \<and> 0 \<le> k)"
    "fp_le (fp_div binary32 r p) (Fin b)"
  shows "util_in b (fp_div binary32 r p)"
proof (cases "\<exists>k l. r = Fin k \<and> p = Fin l \<and> l \<noteq> 0")
  case True
  then obtain k l where kl: "r = Fin k" "p = Fin l" "0 \<le> k" "0 < l" using assms(1,2) by force
  then have d: "fp_div binary32 r p = fp_round binary32 (k * 2 ^ 149) l" by (simp add: binary32_def)
  have "0 \<le> k * 2 ^ 149" using kl by simp
  with kl d assms(3) obtain m where m: "fp_round binary32 (k * 2 ^ 149) l = Fin m"
    using fp_round_nonneg [of "k * 2 ^ 149" l] by (auto simp: fp_le_def)
  then have "representable 24 m" "0 \<le> m"
    using fp_round_binary32 [OF kl(4) m] \<open>0 \<le> k * 2 ^ 149\<close> by blast+
  then show ?thesis using assms(3) unfolding d m by (simp add: util_in_def)
next
  case False
  then consider "r = PInf" "p = PInf" | k where "r = PInf" "p = Fin k" "0 \<le> k"
    | k where "r = Fin k" "0 \<le> k" "p = Fin 0" | k where "r = Fin k" "p = PInf"
    using assms(1,2) by blast
  then show ?thesis
    using assms(3) by cases (auto simp: fp_le_def fp_inf_def util_in_def r32.rep_zero sgn_if split: if_splits)
qed

lemma task_util_in: "fp_le (task_util x) (Fin b) \<Longrightarrow> util_in b (task_util x)"
  unfolding task_util_def by (rule nonneg_div_in) (use fp_of_uint in blast)+

definition init_state :: "nat \<Rightarrow> spa2 \<Rightarrow> spa2 \<Rightarrow> bool" where
  "init_state i s0 s \<longleftrightarrow>
     length (t_list (task_manager s)) = MAX_NUM_TASKS \<and> t_top (task_manager s) = int i - 1 \<and>
     (\<forall>j < i. t_list (task_manager s) ! j = Some j) \<and>
     length (task_list s) = MAX_NUM_TASKS \<and>
     (\<forall>j < i. Utilization (task_list s ! j) = task_util (task_list s0 ! j)) \<and>
     (\<forall>j \<ge> i. task_list s ! j = task_list s0 ! j) \<and>
     pinned (kcalls s) = pinned (kcalls s0) \<and> core_list s = core_list s0 \<and>
     core_manager s = core_manager s0 \<and> pre_assigned_core s = pre_assigned_core s0 \<and> UQ s = UQ s0"

lemma pinned_create_task [simp]: "pinned (kcalls (create_task mk i s)) = pinned (kcalls s)"
  by (simp add: create_task_def Let_def split: option.splits)

lemma init_task_entry_state:
  assumes "init_task_entry mk lb i s = Inr s'" "init_state i s0 s" "i < NUM_OF_TASK"
  shows "init_state (Suc i) s0 s'"
proof -
  have len: "i < MAX_NUM_TASKS" using assms(3) by (simp add: MAX_NUM_TASKS_def configNUMBER_OF_CORES_def)
  have I: "length (t_list (task_manager s)) = MAX_NUM_TASKS" "t_top (task_manager s) = int i - 1"
    "length (task_list s) = MAX_NUM_TASKS" "task_list s ! i = task_list s0 ! i"
    using assms(2) by (auto simp: init_state_def)
  define tm where "tm = (task_manager s)\<lparr>t_top := int i, t_list := (t_list (task_manager s))[i := Some i]\<rparr>"
  have push: "Push_task (Some i) (task_manager s) = Inr tm"
    using I len by (simp add: Push_task_def T_is_full_def arr_set_def tm_def)
  define s2 where "s2 = upd_task i (\<lambda>x. x\<lparr>Utilization := task_util x\<rparr>) (s\<lparr>task_manager := tm\<rparr>)"
  define s3 where "s3 = (if fp_lt lb (Utilization (task_list s2 ! i)) then upd_task i (\<lambda>x. x\<lparr>Heavy := True\<rparr>) s2 else s2)"
  have "arr_get (t_list tm) (int i) = Inr (Some i)" using I len by (simp add: tm_def)
  then have s': "s' = create_task mk i s3"
    using assms(1) push I(3) len
    by (auto simp: init_task_entry_def Let_def deref_def s3_def s2_def task_util_def [abs_def])
  have t3: "Utilization (task_list s3 ! i) = task_util (task_list s0 ! i)" "length (task_list s3) = MAX_NUM_TASKS"
    "\<And>j. j \<noteq> i \<Longrightarrow> task_list s3 ! j = task_list s ! j"
    using I len by (simp_all add: s3_def s2_def task_list_upd_task)
  have f3: "kcalls s3 = kcalls s" "core_list s3 = core_list s" "core_manager s3 = core_manager s"
    "pre_assigned_core s3 = pre_assigned_core s" "UQ s3 = UQ s" "task_manager s3 = tm"
    by (simp_all add: s3_def s2_def)
  have oth: "task_list s' ! j = task_list s3 ! j" if "j \<noteq> i" for j
    using that by (simp add: s' create_task_nth split: option.splits)
  show ?thesis
    using assms(2) t3 oth I len
    by (auto simp: init_state_def s' f3 tm_def less_Suc_eq nth_list_update)
qed

lemma init_task_loop_state:
  assumes "init_task_loop mk lb [i..<NUM_OF_TASK] s = Inr s'" "init_state i s0 s" "i \<le> NUM_OF_TASK"
  shows "init_state NUM_OF_TASK s0 s'"
  using assms
proof (induction "NUM_OF_TASK - i" arbitrary: i s)
  case 0
  then show ?case by simp
next
  case (Suc k)
  then have i: "i < NUM_OF_TASK" by simp
  with Suc.prems(1) obtain s1 where s1: "init_task_entry mk lb i s = Inr s1"
    "init_task_loop mk lb [Suc i..<NUM_OF_TASK] s1 = Inr s'"
    by (auto simp: upt_conv_Cons)
  have "init_state (Suc i) s0 s1" by (rule init_task_entry_state [OF s1(1) Suc.prems(2) i])
  then show ?case using Suc.hyps(1) [of "Suc i" s1] Suc.hyps(2) i s1(2) by simp
qed

section \<open>The whole of main\<close>

text \<open>
  The tables \<open>main\<close> is compiled with are arbitrary, as long as the bound is a number of
  representable size and no task alone exceeds it.
\<close>

definition admissible :: "(f64 \<Rightarrow> f64 \<Rightarrow> f64) \<Rightarrow> task_info list \<Rightarrow> int \<Rightarrow> bool" where
  "admissible pow tab b \<longleftrightarrow> length tab = MAX_NUM_TASKS \<and> get_Utilization pow = Fin b \<and>
     0 \<le> b \<and> b \<le> 2 ^ 149 \<and>
     (\<forall>i < NUM_OF_TASK. fp_le (task_util (tab ! i)) (Fin b))"

lemma fp_conv_representable: "fp_conv F binary32 x = Fin k \<Longrightarrow> representable 24 k"
  by (cases x) (auto dest!: fp_round_binary32 [rotated])

lemma admissible_bound: "admissible pow tab b \<Longrightarrow> sane_bound b"
proof -
  assume a: "admissible pow tab b"
  then have r: "representable 24 b" and b: "0 \<le> b" "b \<le> 2 ^ 149"
    using fp_conv_representable by (auto simp: admissible_def get_Utilization_def Let_def)
  have "excess 24 b \<le> 126" by (rule excess_le) (use b in simp)
  then have "ulp 24 b \<le> 2 ^ 126" using b(1) unfolding ulp_def by (intro power_increasing) auto
  with r b show ?thesis by (simp add: sane_bound_def)
qed

lemma init_core_zero:
  "init_core zero_core_stack = Inr \<lparr>c_list = [Some 0, Some 1], c_top = 1, Utilization_Bound = Fin 0\<rparr>"
  by (simp add: init_core_def zero_core_stack_def stack_defs arr_set_def upt_conv_Cons numeral_2_eq_2)

text \<open>The state in which the assignment loops start.\<close>

lemma main_start_inv:
  assumes "admissible pow tab b" "init_task pow mk s0 = Inr (ub, s1)"
    "task_list s0 = tab" "core_list s0 = core_list_init" "task_manager s0 = zero_task_stack"
    "UQ s0 = zero_task_stack" "pre_assigned_core s0 = zero_core_stack" "pinned (kcalls s0) = []"
    "core_manager s0 = \<lparr>c_list = [Some 0, Some 1], c_top = 1, Utilization_Bound = Fin 0\<rparr>"
  shows "ub = Fin b" "pre_inv b 0 (s1\<lparr>curr_idx := int NUM_OF_TASK,
     core_manager := (core_manager s1)\<lparr>Utilization_Bound := ub\<rparr>,
     pre_assigned_core := init_core_stack ((pre_assigned_core s1)\<lparr>Utilization_Bound := ub\<rparr>),
     UQ := init_task_stack (UQ s1)\<rparr>)"
proof -
  have b: "get_Utilization pow = Fin b" "length tab = MAX_NUM_TASKS" "0 \<le> b"
    using assms(1) by (auto simp: admissible_def)
  let ?t0 = "s0\<lparr>task_manager := init_task_stack (task_manager s0)\<rparr>"
  obtain lb where loop: "init_task_loop mk lb [0..<NUM_OF_TASK] ?t0 = Inr s1" and ub: "ub = Fin b"
    using assms(2) b(1) by (auto simp: init_task_def Let_def)
  have "init_state 0 ?t0 ?t0"
    using assms(3,5) b(2) by (simp add: init_state_def init_task_stack_def zero_task_stack_def)
  then have I: "init_state NUM_OF_TASK ?t0 s1" using init_task_loop_state [OF loop] by simp
  show "ub = Fin b" by (rule ub)
  have u: "util_in b (Utilization (task_list s1 ! j))" if "j < NUM_OF_TASK" for j
    using I that assms(1,3) task_util_in by (simp add: init_state_def admissible_def)
  have cs: "core_list s1 = core_list_init" "pre_assigned_core s1 = zero_core_stack" "UQ s1 = zero_task_stack"
    "core_manager s1 = \<lparr>c_list = [Some 0, Some 1], c_top = 1, Utilization_Bound = Fin 0\<rparr>"
    "pinned (kcalls s1) = []"
    using I assms by (simp_all add: init_state_def)
  have z: "util_in (b + ulp 24 b) (Fin 0)" "util_in b (Fin 0)"
    using b(3) ulp_nonneg [of 24 b] by (simp_all add: util_in_def r32.rep_zero)
  define s where "s = s1\<lparr>curr_idx := int NUM_OF_TASK,
     core_manager := (core_manager s1)\<lparr>Utilization_Bound := ub\<rparr>,
     pre_assigned_core := init_core_stack ((pre_assigned_core s1)\<lparr>Utilization_Bound := ub\<rparr>),
     UQ := init_task_stack (UQ s1)\<rparr>"
  have "loads_ok b s"
    using z by (simp add: loads_ok_def s_def cs ub core_list_init_def configNUMBER_OF_CORES_def
        less_2_cases_iff)
  moreover have "cores_in {#} s"
    by (simp add: cores_in_def s_def cs c_invar_def c_contents_def init_core_stack_def zero_core_stack_def
        core_list_init_def configNUMBER_OF_CORES_def less_2_cases_iff)
  moreover have "queue_ok b 0 s" "accounted 0 {#} s"
    using I [unfolded init_state_def, THEN conjunct2, THEN conjunct2, THEN conjunct2, THEN conjunct1]
    by (simp_all add: queue_ok_def accounted_def s_def cs t_invar_def t_contents_def placement_def
        init_task_stack_def zero_task_stack_def core_list_init_def configNUMBER_OF_CORES_def
        less_2_cases_iff core_load_def)
  moreover have "C_Utilization (core_list s ! c) = Fin 0" if "Some c \<in> set (c_contents (core_manager s))" for c
    using that by (auto simp: s_def cs c_contents_def core_list_init_def)
  moreover have "t_list (task_manager s) ! j = Some j" if "j < NUM_OF_TASK" for j
    using I that by (simp add: s_def init_state_def)
  moreover have none: "pinned (kcalls s) = []" "c_contents (pre_assigned_core s) = []"
    by (simp_all add: s_def cs c_contents_def init_core_stack_def)
  moreover have "curr_idx s = int NUM_OF_TASK" "task_list s = task_list s1"
    "task_manager s = task_manager s1" by (simp_all add: s_def)
  ultimately have "pre_inv b 0 s"
    using I u by (simp add: pre_inv_def part_inv_def init_state_def none)
  then show "pre_inv b 0 (s1\<lparr>curr_idx := int NUM_OF_TASK,
     core_manager := (core_manager s1)\<lparr>Utilization_Bound := ub\<rparr>,
     pre_assigned_core := init_core_stack ((pre_assigned_core s1)\<lparr>Utilization_Bound := ub\<rparr>),
     UQ := init_task_stack (UQ s1)\<rparr>)" by (simp add: s_def)
qed

lemma main_spa2_start:
  assumes "init_task pow mk ((globals tab)\<lparr>kcalls := [CallMonitorCreate 10], n_created := 1,
     core_manager := \<lparr>c_list = [Some 0, Some 1], c_top = 1, Utilization_Bound = Fin 0\<rparr>\<rparr>) = Inr (ub, s1)"
  shows "main_spa2 pow mk (globals tab) =
     bindE (pre_assign [0..<NUM_OF_TASK] (s1\<lparr>curr_idx := int NUM_OF_TASK,
         core_manager := (core_manager s1)\<lparr>Utilization_Bound := ub\<rparr>,
         pre_assigned_core := init_core_stack ((pre_assigned_core s1)\<lparr>Utilization_Bound := ub\<rparr>),
         UQ := init_task_stack (UQ s1)\<rparr>)) (\<lambda>s3.
     bindE (normal_assign mk ub s3) (\<lambda>s4.
     bindE (core_util (core_list s4) (core_manager s4) 0) (\<lambda>_.
     bindE (core_util (core_list s4) (core_manager s4) 1) (\<lambda>_. Inr s4))))"
proof -
  have "init_core (core_manager ((globals tab)\<lparr>kcalls := kcalls (globals tab) @ [CallMonitorCreate 10],
      n_created := Suc (n_created (globals tab))\<rparr>)) =
      Inr \<lparr>c_list = [Some 0, Some 1], c_top = 1, Utilization_Bound = Fin 0\<rparr>"
    using init_core_zero by (simp add: globals_def)
  moreover have "(globals tab)\<lparr>kcalls := kcalls (globals tab) @ [CallMonitorCreate 10],
      n_created := Suc (n_created (globals tab)),
      core_manager := \<lparr>c_list = [Some 0, Some 1], c_top = 1, Utilization_Bound = Fin 0\<rparr>\<rparr> =
    (globals tab)\<lparr>kcalls := [CallMonitorCreate 10], n_created := 1,
      core_manager := \<lparr>c_list = [Some 0, Some 1], c_top = 1, Utilization_Bound = Fin 0\<rparr>\<rparr>"
    by (simp add: globals_def)
  ultimately show ?thesis by (simp only: main_spa2_def Let_def assms bindE_simps prod.case)
qed

lemma main_inv:
  assumes "admissible pow tab b" "main_spa2 pow mk (globals tab) = Inr s'"
  shows "loads_ok b s' \<and> (normal_inv b s' \<and> T_is_empty (UQ s') \<or>
    all_full b s' \<and> (\<exists>P. accounted (nat (curr_idx s')) P s'))"
proof -
  note sane = admissible_bound [OF assms(1)]
  let ?s0 = "(globals tab)\<lparr>kcalls := [CallMonitorCreate 10], n_created := 1,
      core_manager := \<lparr>c_list = [Some 0, Some 1], c_top = 1, Utilization_Bound = Fin 0\<rparr>\<rparr>"
  obtain ub s1 where it: "init_task pow mk ?s0 = Inr (ub, s1)"
    and rest: "\<exists>s3. pre_assign [0..<NUM_OF_TASK] (s1\<lparr>curr_idx := int NUM_OF_TASK,
         core_manager := (core_manager s1)\<lparr>Utilization_Bound := ub\<rparr>,
         pre_assigned_core := init_core_stack ((pre_assigned_core s1)\<lparr>Utilization_Bound := ub\<rparr>),
         UQ := init_task_stack (UQ s1)\<rparr>) = Inr s3 \<and> normal_assign mk ub s3 = Inr s'"
    using assms(2) by (auto simp: main_spa2_def globals_def init_core_zero Let_def)
  have S: "ub = Fin b" "pre_inv b 0 (s1\<lparr>curr_idx := int NUM_OF_TASK,
         core_manager := (core_manager s1)\<lparr>Utilization_Bound := ub\<rparr>,
         pre_assigned_core := init_core_stack ((pre_assigned_core s1)\<lparr>Utilization_Bound := ub\<rparr>),
         UQ := init_task_stack (UQ s1)\<rparr>)"
    by (rule main_start_inv [OF assms(1) it]; simp add: globals_def)+
  from rest obtain s3 where s3: "pre_inv b NUM_OF_TASK s3" "normal_assign mk (Fin b) s3 = Inr s'"
    using pre_assign_inv [OF _ _ S(2) sane] S(1) by auto
  then have "normal_inv b s3" by (simp add: pre_inv_def normal_inv_def)
  then show ?thesis by (rule normal_assign_inv [OF s3(2) _ sane])
qed

section \<open>Every core pre-assigned\<close>

text \<open>The states \<open>main\<close> passes through: at the call of \<open>init_task\<close>, and before the two
  assignment loops.\<close>

definition at_init_task :: "task_info list \<Rightarrow> spa2" where
  "at_init_task tab = (globals tab)\<lparr>kcalls := [CallMonitorCreate 10], n_created := 1,
     core_manager := \<lparr>c_list = [Some 0, Some 1], c_top = 1, Utilization_Bound = Fin 0\<rparr>\<rparr>"

definition before_loops :: "f32 \<Rightarrow> spa2 \<Rightarrow> spa2" where
  "before_loops ub s1 = s1\<lparr>curr_idx := int NUM_OF_TASK,
     core_manager := (core_manager s1)\<lparr>Utilization_Bound := ub\<rparr>,
     pre_assigned_core := init_core_stack ((pre_assigned_core s1)\<lparr>Utilization_Bound := ub\<rparr>),
     UQ := init_task_stack (UQ s1)\<rparr>"

lemma before_loops_inv:
  assumes "admissible pow tab b" "init_task pow mk (at_init_task tab) = Inr (ub, s1)"
    "pre_assign [0..<NUM_OF_TASK] (before_loops ub s1) = Inr s3"
  shows "pre_inv b NUM_OF_TASK s3"
proof -
  have "pre_inv b 0 (before_loops ub s1)"
    unfolding before_loops_def
    by (rule main_start_inv(2) [OF assms(1) assms(2) [unfolded at_init_task_def]]; simp add: globals_def)
  then show ?thesis by (intro pre_assign_inv [OF assms(3)] admissible_bound [OF assms(1)]) simp
qed

lemma all_pre_assigned:
  assumes "pre_inv b NUM_OF_TASK s" "\<forall>c < configNUMBER_OF_CORES. pre_assigned (core_list s ! c)"
  shows "c_top (core_manager s) = -1" "t_contents (UQ s) \<noteq> []"
    "get_min_core (core_list s) (core_manager s) = Inl OutOfBounds" "\<not> T_is_empty (UQ s)"
proof -
  have I: "cores_in {#} s" "accounted NUM_OF_TASK {#} s" "t_invar (UQ s)"
    "length (pinned (kcalls s)) = length (c_contents (pre_assigned_core s))"
    using assms(1) by (auto simp: pre_inv_def part_inv_def queue_ok_def)
  have "Some c \<notin> set (c_contents (core_manager s))" for c
  proof
    assume c: "Some c \<in> set (c_contents (core_manager s))"
    then have "c < configNUMBER_OF_CORES" by (intro cores_in_member [OF I(1)]) simp
    then show False using c assms(2) I(1) by (simp add: cores_in_def)
  qed
  moreover have "p \<in> set (c_contents (core_manager s)) \<Longrightarrow> \<exists>c. p = Some c" for p
  proof -
    assume "p \<in> set (c_contents (core_manager s))"
    then have "p \<in># mset (c_contents (core_manager s)) + mset (c_contents (pre_assigned_core s)) + {#}" by simp
    moreover have "mset (c_contents (core_manager s)) + mset (c_contents (pre_assigned_core s)) + {#} =
        {#Some 0, Some 1#}" using I(1) by (simp only: cores_in_def)
    ultimately have "p \<in># {#Some 0, Some 1#}" by (simp only:)
    then show ?thesis by auto
  qed
  ultimately have empty: "c_contents (core_manager s) = []" by (metis last_in_set)
  have inv: "c_invar (core_manager s)" using I(1) by (simp add: cores_in_def)
  then show "c_top (core_manager s) = -1" using empty c_contents_length [OF inv] by (simp add: c_invar_def)
  show "get_min_core (core_list s) (core_manager s) = Inl OutOfBounds"
    by (rule get_min_core_empty [OF inv empty])
  have "length (t_contents (UQ s)) + configNUMBER_OF_CORES = NUM_OF_TASK"
    using accounted_size [OF I(2)] cores_in_size [OF I(1)] empty I(4) by simp
  then show q: "t_contents (UQ s) \<noteq> []" by (auto simp: NUM_OF_TASK_def configNUMBER_OF_CORES_def)
  then show "\<not> T_is_empty (UQ s)" using t_contents_empty [OF I(3)] by simp
qed

lemma all_pre_assigned_fault:
  assumes "admissible pow tab b" "init_task pow mk (at_init_task tab) = Inr (ub, s1)"
    "pre_assign [0..<NUM_OF_TASK] (before_loops ub s1) = Inr s3"
    "\<forall>c < configNUMBER_OF_CORES. pre_assigned (core_list s3 ! c)"
  shows "main_spa2 pow mk (globals tab) = Inl OutOfBounds"
proof -
  note A = all_pre_assigned [OF before_loops_inv [OF assms(1-3)] assms(4)]
  have "normal_assign mk ub s3 = Inl OutOfBounds"
    using A(3,4) by (simp add: normal_assign.simps normal_step_def)
  then show ?thesis
    using main_spa2_start [OF assms(2) [unfolded at_init_task_def]] assms(3)
    by (simp add: before_loops_def)
qed

end
