(* ===== verification/ShippedRun.thy ===== *)
theory ShippedRun
  imports PartitionProps
begin

text \<open>
  The program as shipped: \<open>main\<close> on the tables of the repository, with the C library's power
  function at its correctly rounded value, and a kernel whose creations succeed.  The
  roundings that occur are evaluated one by one; the run is then evaluated step by step.
\<close>

section \<open>The bound\<close>

text \<open>The double nearest to \<open>2\<close> to the power \<open>1/7\<close>, the only value of \<open>pow\<close> the program asks for.\<close>

definition pow_w :: "f64 \<Rightarrow> f64 \<Rightarrow> f64" where
  "pow_w x y = Fin (4972377122365053 * 2 ^ 1022)"

definition mk_w :: "nat \<Rightarrow> handle option" where
  "mk_w n = Some (100 + n)"

lemma scale_simps [simp]: "scale binary32 = 149" "scale binary64 = 1074"
  by (simp_all add: binary32_def binary64_def)

lemma of_int_eval: "\<bar>n\<bar> \<le> 2 ^ 24 \<Longrightarrow> fp_of_int binary32 n = Fin (n * 2 ^ 149)"
  by (rule fp_of_int_small)

lemma bound_rnd_1: "fp_round binary32 519965313790418986789190085899499600376496128 1 = Fin 519965323161646000414422532670994671659384832"
  by (rule fp_round_evalI [where s = 125 and m = 12224326]) (simp_all add: binary32_def)


lemma fp_round64_exact: "\<bar>m\<bar> < 2 ^ 53 \<Longrightarrow> s < 2000 \<Longrightarrow> fp_round binary64 (m * 2 ^ s) 1 = Fin (m * 2 ^ s)"
proof -
  assume m: "\<bar>m\<bar> < 2 ^ 53" and s: "s < 2000"
  have "representable 53 (m * 2 ^ s)" using m by (intro representableI) auto
  then have "rnd_int 53 (m * 2 ^ s) = m * 2 ^ s" by (rule rnd_int_exact)
  moreover have "\<bar>m * 2 ^ s\<bar> < 2 ^ 2098"
  proof -
    have "\<bar>m * 2 ^ s\<bar> = \<bar>m\<bar> * 2 ^ s" by (simp add: abs_mult)
    also have "\<dots> < 2 ^ 53 * 2 ^ s" using m by (intro mult_strict_right_mono) auto
    also have "\<dots> \<le> 2 ^ 53 * 2 ^ 2045" using s by (intro mult_left_mono power_increasing) auto
    also have "\<dots> = 2 ^ 2098" by (simp only: power_add [symmetric]) simp
    finally show ?thesis .
  qed
  ultimately show ?thesis by (simp only: fp_round_int binary64_def fp_format.simps Let_def) (simp add: abs_less_iff)
qed

lemma shipped_bound: "get_Utilization pow_w = Fin 519965323161646000414422532670994671659384832"
proof -
  have n: "fp_of_int binary32 (int NUM_OF_TASK) = Fin (7 * 2 ^ 149)"
    using fp_of_int_small [of 7] by (simp add: NUM_OF_TASK_def)
  have "fp_conv binary32 binary64 (Fin (7 * 2 ^ 149)) = fp_round binary64 (7 * 2 ^ 1074 * 2 ^ 149) (1 * 2 ^ 149)"
    by (simp only: fp_conv.simps scale_simps mult_1 ac_simps)
  also have "\<dots> = fp_round binary64 (7 * 2 ^ 1074) 1" by (rule fp_round_scale) simp_all
  also have "\<dots> = Fin (7 * 2 ^ 1074)" by (rule fp_round64_exact) simp_all
  finally have nd: "fp_conv binary32 binary64 (Fin (7 * 2 ^ 149)) = Fin (7 * 2 ^ 1074)" .
  have one: "fp_of_int binary64 1 = Fin (1 * 2 ^ 1074)"
    unfolding fp_of_int_def scale_simps by (rule fp_round64_exact) simp_all
  have "fp_sub binary64 (Fin (4972377122365053 * 2 ^ 1022)) (Fin (1 * 2 ^ 1074)) =
      fp_round binary64 (468777494994557 * 2 ^ 1022) 1"
    unfolding fp_sub_Fin by (rule arg_cong [where f = "\<lambda>k. fp_round binary64 k 1"]) simp
  also have "\<dots> = Fin (468777494994557 * 2 ^ 1022)" by (rule fp_round64_exact) simp_all
  finally have p: "fp_sub binary64 (Fin (4972377122365053 * 2 ^ 1022)) (Fin (1 * 2 ^ 1074)) = Fin (468777494994557 * 2 ^ 1022)" .
  have "fp_mul binary64 (Fin (7 * 2 ^ 1074)) (Fin (468777494994557 * 2 ^ 1022)) =
      fp_round binary64 ((7 * 468777494994557) * 2 ^ 1022 * 2 ^ 1074) (1 * 2 ^ 1074)"
    by (simp only: fp_mul.simps scale_simps mult_1 ac_simps)
  also have "\<dots> = fp_round binary64 ((7 * 468777494994557) * 2 ^ 1022) 1" by (rule fp_round_scale) simp_all
  also have "\<dots> = Fin ((7 * 468777494994557) * 2 ^ 1022)" by (rule fp_round64_exact) simp_all
  finally have u: "fp_mul binary64 (Fin (7 * 2 ^ 1074)) (Fin (468777494994557 * 2 ^ 1022)) = Fin ((7 * 468777494994557) * 2 ^ 1022)" .
  have "fp_conv binary64 binary32 (Fin ((7 * 468777494994557) * 2 ^ 1022)) =
      fp_round binary32 ((7 * 468777494994557 * 2 ^ 97) * 2 ^ 1074) (1 * 2 ^ 1074)"
    by (simp only: fp_conv.simps scale_simps mult_1 mult.assoc power_add [symmetric]) simp
  also have "\<dots> = fp_round binary32 519965313790418986789190085899499600376496128 1" by (subst fp_round_scale) simp_all
  also have "\<dots> = Fin 519965323161646000414422532670994671659384832" by (rule bound_rnd_1)
  finally show ?thesis
    by (simp only: get_Utilization_def Let_def n nd pow_w_def one p u)
qed

section \<open>The roundings of the run\<close>

lemma shipped_rnd_1: "fp_round binary32 4995366924470859583704000893073232977339613184 1 = Fin 4995366924470859583704000893073232977339613184"
  by (rule fp_round_evalI [where s = 128 and m = 14680064]) (simp_all add: binary32_def)

lemma shipped_rnd_2: "fp_round binary32 713623846352979940529142984724747568191373312 1 = Fin 713623846352979940529142984724747568191373312"
  by (rule fp_round_evalI [where s = 126 and m = 8388608]) (simp_all add: binary32_def)

lemma shipped_rnd_3: "fp_round binary32 1233589169514625940943565517395742239850758144 1 = Fin 1233589169514625940943565517395742239850758144"
  by (rule fp_round_evalI [where s = 126 and m = 14500771]) (simp_all add: binary32_def)

lemma shipped_rnd_4: "fp_round binary32 371059653884784027353072220212379993468130416018795070394782546679592826017897587182403584 1233589169514625940943565517395742239850758144 = Fin 300796787966406268833281377039165514162634752"
  by (rule fp_round_evalI [where s = 124 and m = 14143397]) (simp_all add: binary32_def)

lemma shipped_rnd_5: "fp_round binary32 2140871539058939821587428954174242704574119936 1 = Fin 2140871539058939821587428954174242704574119936"
  by (rule fp_round_evalI [where s = 127 and m = 12582912]) (simp_all add: binary32_def)

lemma shipped_rnd_6: "fp_round binary32 21408715390589398215874289541742427045741199360 1 = Fin 21408715390589398215874289541742427045741199360"
  by (rule fp_round_evalI [where s = 130 and m = 15728640]) (simp_all add: binary32_def)

lemma shipped_rnd_7: "fp_round binary32 1527776982250864564701334266307033620788601295249452187977105337015785974822502529637548032 21408715390589398215874289541742427045741199360 = Fin 71362385698680390680846996795520405043412992"
  by (rule fp_round_evalI [where s = 122 and m = 13421773]) (simp_all add: binary32_def)

lemma shipped_rnd_8: "fp_round binary32 1427247692705959881058285969449495136382746624 1 = Fin 1427247692705959881058285969449495136382746624"
  by (rule fp_round_evalI [where s = 127 and m = 8388608]) (simp_all add: binary32_def)

lemma shipped_rnd_9: "fp_round binary32 1018517988167243043134222844204689080525734196832968125318070224677190649881668353091698688 21408715390589398215874289541742427045741199360 = Fin 47574925571424254833785828402089683736068096"
  by (rule fp_round_evalI [where s = 122 and m = 8947849]) (simp_all add: binary32_def)

lemma shipped_rnd_10: "fp_round binary32 5708990770823839524233143877797980545530986496 1 = Fin 5708990770823839524233143877797980545530986496"
  by (rule fp_round_evalI [where s = 129 and m = 8388608]) (simp_all add: binary32_def)

lemma shipped_rnd_11: "fp_round binary32 24976834622354297918520004465366164886698065920 1 = Fin 24976834622354297918520004465366164886698065920"
  by (rule fp_round_evalI [where s = 131 and m = 9175040]) (simp_all add: binary32_def)

lemma shipped_rnd_12: "fp_round binary32 4074071952668972172536891376818756322102936787331872501272280898708762599526673412366794752 24976834622354297918520004465366164886698065920 = Fin 163114022935008897802032137928267142635978752"
  by (rule fp_round_evalI [where s = 123 and m = 15339169]) (simp_all add: binary32_def)

lemma shipped_rnd_13: "fp_round binary32 25690458468707277859049147450090912454889439232 1 = Fin 25690458468707277859049147450090912454889439232"
  by (rule fp_round_evalI [where s = 131 and m = 9437184]) (simp_all add: binary32_def)

lemma shipped_rnd_14: "fp_round binary32 35681192317648997026457149236237378409568665600 1 = Fin 35681192317648997026457149236237378409568665600"
  by (rule fp_round_evalI [where s = 131 and m = 13107200]) (simp_all add: binary32_def)

lemma shipped_rnd_15: "fp_round binary32 18333323787010374776416011195684403449463215542993426255725264044189431697870030355650576384 35681192317648997026457149236237378409568665600 = Fin 513809189791087572437290756804294695003881472"
  by (rule fp_round_evalI [where s = 125 and m = 12079596]) (simp_all add: binary32_def)

lemma shipped_rnd_16: "fp_round binary32 8563486156235759286349715816696970818296479744 1 = Fin 8563486156235759286349715816696970818296479744"
  by (rule fp_round_evalI [where s = 129 and m = 12582912]) (simp_all add: binary32_def)

lemma shipped_rnd_17: "fp_round binary32 71362384635297994052914298472474756819137331200 1 = Fin 71362384635297994052914298472474756819137331200"
  by (rule fp_round_evalI [where s = 132 and m = 13107200]) (simp_all add: binary32_def)

lemma shipped_rnd_18: "fp_round binary32 6111107929003458258805337065228134483154405180997808751908421348063143899290010118550192128 71362384635297994052914298472474756819137331200 = Fin 85634859648269278933218301185487541379268608"
  by (rule fp_round_evalI [where s = 122 and m = 16106127]) (simp_all add: binary32_def)

lemma shipped_rnd_19: "fp_round binary32 85634859648269278933218301185487541379268608 1 = Fin 85634859648269278933218301185487541379268608"
  by (rule fp_round_evalI [where s = 122 and m = 16106127]) (simp_all add: binary32_def)

lemma shipped_rnd_20: "fp_round binary32 171269719296538557866436602370975082758537216 1 = Fin 171269719296538557866436602370975082758537216"
  by (rule fp_round_evalI [where s = 123 and m = 16106127]) (simp_all add: binary32_def)

lemma shipped_rnd_21: "fp_round binary32 371059653884784027353072220212379993468130416018795070394782546679592826017897587182403584 713623846352979940529142984724747568191373312 = Fin 519965323161646000414422532670994671659384832"
  by (rule fp_round_evalI [where s = 125 and m = 12224326]) (simp_all add: binary32_def)

lemma shipped_rnd_22: "fp_round binary32 513809189791087572437290756804294695003881472 1 = Fin 513809189791087572437290756804294695003881472"
  by (rule fp_round_evalI [where s = 125 and m = 12079596]) (simp_all add: binary32_def)

lemma shipped_rnd_23: "fp_round binary32 334383742231547455668468740299242225394515968 1 = Fin 334383742231547455668468740299242225394515968"
  by (rule fp_round_evalI [where s = 124 and m = 15722648]) (simp_all add: binary32_def)

lemma shipped_rnd_24: "fp_round binary32 405746127930227846349315737094762630437928960 1 = Fin 405746143880963795768306211940447353802063872"
  by (rule fp_round_evalI [where s = 125 and m = 9539046]) (simp_all add: binary32_def)

lemma shipped_rnd_25: "fp_round binary32 453321069452388050602092040342537037538131968 1 = Fin 453321064135476067462428548727308796416753664"
  by (rule fp_round_evalI [where s = 125 and m = 10657527]) (simp_all add: binary32_def)

lemma shipped_rnd_26: "fp_round binary32 524683449834156458143275545522829201460166656 1 = Fin 524683465784892407562266020368513924824301568"
  by (rule fp_round_evalI [where s = 125 and m = 12335249]) (simp_all add: binary32_def)

lemma shipped_rnd_27: "fp_round binary32 66644259026169932951993983943685875242631168 1 = Fin 66644259026169932951993983943685875242631168"
  by (rule fp_round_evalI [where s = 122 and m = 12534392]) (simp_all add: binary32_def)

lemma shipped_rnd_28: "fp_round binary32 1426767973907990663712910310694929343472695184228149913948977389890549450854016626437652480 713623846352979940529142984724747568191373312 = Fin 1999327685714506258325203652466924399336882176"
  by (rule fp_round_evalI [where s = 127 and m = 11750992]) (simp_all add: binary32_def)

lemma shipped_rnd_29: "fp_round binary32 4718126672510457728853012851834529800781824 1 = Fin 4718126672510457728853012851834529800781824"
  by (rule fp_round_evalI [where s = 118 and m = 14198096]) (simp_all add: binary32_def)

lemma shipped_rnd_30: "fp_round binary32 519965323161646000414422532670994671659384832 1 = Fin 519965323161646000414422532670994671659384832"
  by (rule fp_round_evalI [where s = 125 and m = 12224326]) (simp_all add: binary32_def)

lemma shipped_rnd_31: "fp_round binary32 518527316463598030166143769656129224804663296 1 = Fin 518527332414333979585134244501813948168798208"
  by (rule fp_round_evalI [where s = 125 and m = 12190519]) (simp_all add: binary32_def)

lemmas shipped_rnd = shipped_rnd_1 shipped_rnd_2 shipped_rnd_3 shipped_rnd_4 shipped_rnd_5 shipped_rnd_6 shipped_rnd_7 shipped_rnd_8 shipped_rnd_9 shipped_rnd_10 shipped_rnd_11 shipped_rnd_12 shipped_rnd_13 shipped_rnd_14 shipped_rnd_15 shipped_rnd_16 shipped_rnd_17 shipped_rnd_18 shipped_rnd_19 shipped_rnd_20 shipped_rnd_21 shipped_rnd_22 shipped_rnd_23 shipped_rnd_24 shipped_rnd_25 shipped_rnd_26 shipped_rnd_27 shipped_rnd_28 shipped_rnd_29 shipped_rnd_30 shipped_rnd_31

section \<open>The states of the run\<close>

text \<open>After four tasks, after all tasks are initialised, after the pre-assignment, after four rounds, at the end.\<close>

definition shipped_half :: spa2 where
  "shipped_half = \<lparr>task_list =
     [\<lparr>Task_Code = 0, Task_Name = ''TASK 0'', Runtime = 3, Period = 30, Core_Affinity = 1, priority = 7, subnum = 1, my_ptr = Some 101, splitted_ptr = None, Dependency = False, Heavy = False, Utilization = Fin 71362385698680390680846996795520405043412992\<rparr>,
      \<lparr>Task_Code = 1, Task_Name = ''TASK 1'', Runtime = 2, Period = 30, Core_Affinity = 2, priority = 6, subnum = 1, my_ptr = Some 102, splitted_ptr = None, Dependency = False, Heavy = False, Utilization = Fin 47574925571424254833785828402089683736068096\<rparr>,
      \<lparr>Task_Code = 2, Task_Name = ''TASK 2'', Runtime = 3, Period = 30, Core_Affinity = 2, priority = 5, subnum = 1, my_ptr = Some 103, splitted_ptr = None, Dependency = False, Heavy = False, Utilization = Fin 71362385698680390680846996795520405043412992\<rparr>,
      \<lparr>Task_Code = 3, Task_Name = ''TASK 3'', Runtime = 8, Period = 35, Core_Affinity = 1, priority = 4, subnum = 1, my_ptr = Some 104, splitted_ptr = None, Dependency = False, Heavy = False, Utilization = Fin 163114022935008897802032137928267142635978752\<rparr>,
      \<lparr>Task_Code = 4, Task_Name = ''TASK 4'', Runtime = 36, Period = 50, Core_Affinity = 1, priority = 3, subnum = 1, my_ptr = None, splitted_ptr = None, Dependency = False, Heavy = False, Utilization = Fin 0\<rparr>,
      \<lparr>Task_Code = 5, Task_Name = ''TASK 5'', Runtime = 12, Period = 100, Core_Affinity = 0, priority = 2, subnum = 1, my_ptr = None, splitted_ptr = None, Dependency = False, Heavy = False, Utilization = Fin 0\<rparr>,
      \<lparr>Task_Code = 6, Task_Name = ''TASK 6'', Runtime = 12, Period = 100, Core_Affinity = 0, priority = 1, subnum = 1, my_ptr = None, splitted_ptr = None, Dependency = False, Heavy = False, Utilization = Fin 0\<rparr>,
      \<lparr>Task_Code = 7, Task_Name = ''Extra T'', Runtime = 0, Period = 0, Core_Affinity = 0, priority = 1, subnum = 1, my_ptr = None, splitted_ptr = None, Dependency = False, Heavy = False, Utilization = Fin 0\<rparr>],
   core_list = [\<lparr>Core_num = 1, C_Utilization = Fin 0, pre_assigned = False\<rparr>,
      \<lparr>Core_num = 2, C_Utilization = Fin 0, pre_assigned = False\<rparr>],
   task_manager = \<lparr>t_list = [Some 0, Some 1, Some 2, Some 3, None, None, None, None], t_top = 3\<rparr>,
   UQ = \<lparr>t_list = [None, None, None, None, None, None, None, None], t_top = 0\<rparr>,
   core_manager = \<lparr>c_list = [Some 0, Some 1], c_top = 1, Utilization_Bound = Fin 0\<rparr>,
   pre_assigned_core = \<lparr>c_list = [None, None], c_top = 0, Utilization_Bound = Fin 0\<rparr>,
   curr_idx = 0, n_created = 5,
   kcalls = [CallMonitorCreate 10,
      CallTaskCreate 0 0 7,
      CallTaskCreate 1 1 6,
      CallTaskCreate 2 2 5,
      CallTaskCreate 3 3 4]\<rparr>"

definition shipped_tasks :: spa2 where
  "shipped_tasks = \<lparr>task_list =
     [\<lparr>Task_Code = 0, Task_Name = ''TASK 0'', Runtime = 3, Period = 30, Core_Affinity = 1, priority = 7, subnum = 1, my_ptr = Some 101, splitted_ptr = None, Dependency = False, Heavy = False, Utilization = Fin 71362385698680390680846996795520405043412992\<rparr>,
      \<lparr>Task_Code = 1, Task_Name = ''TASK 1'', Runtime = 2, Period = 30, Core_Affinity = 2, priority = 6, subnum = 1, my_ptr = Some 102, splitted_ptr = None, Dependency = False, Heavy = False, Utilization = Fin 47574925571424254833785828402089683736068096\<rparr>,
      \<lparr>Task_Code = 2, Task_Name = ''TASK 2'', Runtime = 3, Period = 30, Core_Affinity = 2, priority = 5, subnum = 1, my_ptr = Some 103, splitted_ptr = None, Dependency = False, Heavy = False, Utilization = Fin 71362385698680390680846996795520405043412992\<rparr>,
      \<lparr>Task_Code = 3, Task_Name = ''TASK 3'', Runtime = 8, Period = 35, Core_Affinity = 1, priority = 4, subnum = 1, my_ptr = Some 104, splitted_ptr = None, Dependency = False, Heavy = False, Utilization = Fin 163114022935008897802032137928267142635978752\<rparr>,
      \<lparr>Task_Code = 4, Task_Name = ''TASK 4'', Runtime = 36, Period = 50, Core_Affinity = 1, priority = 3, subnum = 1, my_ptr = Some 105, splitted_ptr = None, Dependency = False, Heavy = True, Utilization = Fin 513809189791087572437290756804294695003881472\<rparr>,
      \<lparr>Task_Code = 5, Task_Name = ''TASK 5'', Runtime = 12, Period = 100, Core_Affinity = 0, priority = 2, subnum = 1, my_ptr = Some 106, splitted_ptr = None, Dependency = False, Heavy = False, Utilization = Fin 85634859648269278933218301185487541379268608\<rparr>,
      \<lparr>Task_Code = 6, Task_Name = ''TASK 6'', Runtime = 12, Period = 100, Core_Affinity = 0, priority = 1, subnum = 1, my_ptr = Some 107, splitted_ptr = None, Dependency = False, Heavy = False, Utilization = Fin 85634859648269278933218301185487541379268608\<rparr>,
      \<lparr>Task_Code = 7, Task_Name = ''Extra T'', Runtime = 0, Period = 0, Core_Affinity = 0, priority = 1, subnum = 1, my_ptr = None, splitted_ptr = None, Dependency = False, Heavy = False, Utilization = Fin 0\<rparr>],
   core_list = [\<lparr>Core_num = 1, C_Utilization = Fin 0, pre_assigned = False\<rparr>,
      \<lparr>Core_num = 2, C_Utilization = Fin 0, pre_assigned = False\<rparr>],
   task_manager = \<lparr>t_list = [Some 0, Some 1, Some 2, Some 3, Some 4, Some 5, Some 6, None], t_top = 6\<rparr>,
   UQ = \<lparr>t_list = [None, None, None, None, None, None, None, None], t_top = 0\<rparr>,
   core_manager = \<lparr>c_list = [Some 0, Some 1], c_top = 1, Utilization_Bound = Fin 0\<rparr>,
   pre_assigned_core = \<lparr>c_list = [None, None], c_top = 0, Utilization_Bound = Fin 0\<rparr>,
   curr_idx = 0, n_created = 8,
   kcalls = [CallMonitorCreate 10,
      CallTaskCreate 0 0 7,
      CallTaskCreate 1 1 6,
      CallTaskCreate 2 2 5,
      CallTaskCreate 3 3 4,
      CallTaskCreate 4 4 3,
      CallTaskCreate 5 5 2,
      CallTaskCreate 6 6 1]\<rparr>"

definition shipped_pre :: spa2 where
  "shipped_pre = \<lparr>task_list =
     [\<lparr>Task_Code = 0, Task_Name = ''TASK 0'', Runtime = 3, Period = 30, Core_Affinity = 1, priority = 7, subnum = 1, my_ptr = Some 101, splitted_ptr = None, Dependency = False, Heavy = False, Utilization = Fin 71362385698680390680846996795520405043412992\<rparr>,
      \<lparr>Task_Code = 1, Task_Name = ''TASK 1'', Runtime = 2, Period = 30, Core_Affinity = 2, priority = 6, subnum = 1, my_ptr = Some 102, splitted_ptr = None, Dependency = False, Heavy = False, Utilization = Fin 47574925571424254833785828402089683736068096\<rparr>,
      \<lparr>Task_Code = 2, Task_Name = ''TASK 2'', Runtime = 3, Period = 30, Core_Affinity = 2, priority = 5, subnum = 1, my_ptr = Some 103, splitted_ptr = None, Dependency = False, Heavy = False, Utilization = Fin 71362385698680390680846996795520405043412992\<rparr>,
      \<lparr>Task_Code = 3, Task_Name = ''TASK 3'', Runtime = 8, Period = 35, Core_Affinity = 1, priority = 4, subnum = 1, my_ptr = Some 104, splitted_ptr = None, Dependency = False, Heavy = False, Utilization = Fin 163114022935008897802032137928267142635978752\<rparr>,
      \<lparr>Task_Code = 4, Task_Name = ''TASK 4'', Runtime = 36, Period = 50, Core_Affinity = 1, priority = 3, subnum = 1, my_ptr = Some 105, splitted_ptr = None, Dependency = False, Heavy = True, Utilization = Fin 513809189791087572437290756804294695003881472\<rparr>,
      \<lparr>Task_Code = 5, Task_Name = ''TASK 5'', Runtime = 12, Period = 100, Core_Affinity = 0, priority = 2, subnum = 1, my_ptr = Some 106, splitted_ptr = None, Dependency = False, Heavy = False, Utilization = Fin 85634859648269278933218301185487541379268608\<rparr>,
      \<lparr>Task_Code = 6, Task_Name = ''TASK 6'', Runtime = 12, Period = 100, Core_Affinity = 0, priority = 1, subnum = 1, my_ptr = Some 107, splitted_ptr = None, Dependency = False, Heavy = False, Utilization = Fin 85634859648269278933218301185487541379268608\<rparr>,
      \<lparr>Task_Code = 7, Task_Name = ''Extra T'', Runtime = 0, Period = 0, Core_Affinity = 0, priority = 1, subnum = 1, my_ptr = None, splitted_ptr = None, Dependency = False, Heavy = False, Utilization = Fin 0\<rparr>],
   core_list = [\<lparr>Core_num = 1, C_Utilization = Fin 0, pre_assigned = False\<rparr>,
      \<lparr>Core_num = 2, C_Utilization = Fin 513809189791087572437290756804294695003881472, pre_assigned = True\<rparr>],
   task_manager = \<lparr>t_list = [Some 0, Some 1, Some 2, Some 3, Some 4, Some 5, Some 6, None], t_top = 6\<rparr>,
   UQ = \<lparr>t_list = [Some 0, Some 1, Some 2, Some 3, Some 5, Some 6, None, None], t_top = 5\<rparr>,
   core_manager = \<lparr>c_list = [Some 0, Some 1], c_top = 0, Utilization_Bound = Fin 519965323161646000414422532670994671659384832\<rparr>,
   pre_assigned_core = \<lparr>c_list = [Some 1, None], c_top = 0, Utilization_Bound = Fin 519965323161646000414422532670994671659384832\<rparr>,
   curr_idx = 7, n_created = 8,
   kcalls = [CallMonitorCreate 10,
      CallTaskCreate 0 0 7,
      CallTaskCreate 1 1 6,
      CallTaskCreate 2 2 5,
      CallTaskCreate 3 3 4,
      CallTaskCreate 4 4 3,
      CallTaskCreate 5 5 2,
      CallTaskCreate 6 6 1,
      CallCoreAffinitySet (Some 105) 2]\<rparr>"

definition shipped_mid :: spa2 where
  "shipped_mid = \<lparr>task_list =
     [\<lparr>Task_Code = 0, Task_Name = ''TASK 0'', Runtime = 3, Period = 30, Core_Affinity = 1, priority = 7, subnum = 1, my_ptr = Some 101, splitted_ptr = None, Dependency = False, Heavy = False, Utilization = Fin 71362385698680390680846996795520405043412992\<rparr>,
      \<lparr>Task_Code = 1, Task_Name = ''TASK 1'', Runtime = 2, Period = 30, Core_Affinity = 2, priority = 6, subnum = 1, my_ptr = Some 102, splitted_ptr = None, Dependency = False, Heavy = False, Utilization = Fin 47574925571424254833785828402089683736068096\<rparr>,
      \<lparr>Task_Code = 2, Task_Name = ''TASK 2'', Runtime = 3, Period = 30, Core_Affinity = 2, priority = 5, subnum = 1, my_ptr = Some 103, splitted_ptr = None, Dependency = False, Heavy = False, Utilization = Fin 71362385698680390680846996795520405043412992\<rparr>,
      \<lparr>Task_Code = 3, Task_Name = ''TASK 3'', Runtime = 8, Period = 35, Core_Affinity = 1, priority = 4, subnum = 1, my_ptr = Some 104, splitted_ptr = None, Dependency = False, Heavy = False, Utilization = Fin 163114022935008897802032137928267142635978752\<rparr>,
      \<lparr>Task_Code = 4, Task_Name = ''TASK 4'', Runtime = 36, Period = 50, Core_Affinity = 1, priority = 3, subnum = 1, my_ptr = Some 105, splitted_ptr = None, Dependency = False, Heavy = True, Utilization = Fin 513809189791087572437290756804294695003881472\<rparr>,
      \<lparr>Task_Code = 5, Task_Name = ''TASK 5'', Runtime = 12, Period = 100, Core_Affinity = 0, priority = 2, subnum = 1, my_ptr = Some 106, splitted_ptr = None, Dependency = False, Heavy = False, Utilization = Fin 85634859648269278933218301185487541379268608\<rparr>,
      \<lparr>Task_Code = 6, Task_Name = ''TASK 6'', Runtime = 12, Period = 100, Core_Affinity = 0, priority = 1, subnum = 1, my_ptr = Some 107, splitted_ptr = None, Dependency = False, Heavy = False, Utilization = Fin 85634859648269278933218301185487541379268608\<rparr>,
      \<lparr>Task_Code = 7, Task_Name = ''Extra T'', Runtime = 0, Period = 0, Core_Affinity = 0, priority = 1, subnum = 1, my_ptr = None, splitted_ptr = None, Dependency = False, Heavy = False, Utilization = Fin 0\<rparr>],
   core_list = [\<lparr>Core_num = 1, C_Utilization = Fin 405746143880963795768306211940447353802063872, pre_assigned = False\<rparr>,
      \<lparr>Core_num = 2, C_Utilization = Fin 513809189791087572437290756804294695003881472, pre_assigned = True\<rparr>],
   task_manager = \<lparr>t_list = [Some 0, Some 1, Some 2, Some 3, Some 4, Some 5, Some 6, None], t_top = 6\<rparr>,
   UQ = \<lparr>t_list = [Some 0, Some 1, Some 2, Some 3, Some 5, Some 6, None, None], t_top = 1\<rparr>,
   core_manager = \<lparr>c_list = [Some 0, Some 1], c_top = 0, Utilization_Bound = Fin 519965323161646000414422532670994671659384832\<rparr>,
   pre_assigned_core = \<lparr>c_list = [Some 1, None], c_top = 0, Utilization_Bound = Fin 519965323161646000414422532670994671659384832\<rparr>,
   curr_idx = 7, n_created = 8,
   kcalls = [CallMonitorCreate 10,
      CallTaskCreate 0 0 7,
      CallTaskCreate 1 1 6,
      CallTaskCreate 2 2 5,
      CallTaskCreate 3 3 4,
      CallTaskCreate 4 4 3,
      CallTaskCreate 5 5 2,
      CallTaskCreate 6 6 1,
      CallCoreAffinitySet (Some 105) 2,
      CallCoreAffinitySet (Some 107) 1,
      CallCoreAffinitySet (Some 106) 1,
      CallCoreAffinitySet (Some 104) 1,
      CallCoreAffinitySet (Some 103) 1]\<rparr>"

definition shipped_final :: spa2 where
  "shipped_final = \<lparr>task_list =
     [\<lparr>Task_Code = 0, Task_Name = ''TASK 0'', Runtime = 2, Period = 30, Core_Affinity = 1, priority = 7, subnum = 1, my_ptr = Some 101, splitted_ptr = Some 108, Dependency = False, Heavy = False, Utilization = Fin 66644259026169932951993983943685875242631168\<rparr>,
      \<lparr>Task_Code = 1, Task_Name = ''TASK 1'', Runtime = 2, Period = 30, Core_Affinity = 2, priority = 6, subnum = 1, my_ptr = Some 102, splitted_ptr = None, Dependency = False, Heavy = False, Utilization = Fin 47574925571424254833785828402089683736068096\<rparr>,
      \<lparr>Task_Code = 2, Task_Name = ''TASK 2'', Runtime = 3, Period = 30, Core_Affinity = 2, priority = 5, subnum = 1, my_ptr = Some 103, splitted_ptr = None, Dependency = False, Heavy = False, Utilization = Fin 71362385698680390680846996795520405043412992\<rparr>,
      \<lparr>Task_Code = 3, Task_Name = ''TASK 3'', Runtime = 8, Period = 35, Core_Affinity = 1, priority = 4, subnum = 1, my_ptr = Some 104, splitted_ptr = None, Dependency = False, Heavy = False, Utilization = Fin 163114022935008897802032137928267142635978752\<rparr>,
      \<lparr>Task_Code = 4, Task_Name = ''TASK 4'', Runtime = 36, Period = 50, Core_Affinity = 1, priority = 3, subnum = 1, my_ptr = Some 105, splitted_ptr = None, Dependency = False, Heavy = True, Utilization = Fin 513809189791087572437290756804294695003881472\<rparr>,
      \<lparr>Task_Code = 5, Task_Name = ''TASK 5'', Runtime = 12, Period = 100, Core_Affinity = 0, priority = 2, subnum = 1, my_ptr = Some 106, splitted_ptr = None, Dependency = False, Heavy = False, Utilization = Fin 85634859648269278933218301185487541379268608\<rparr>,
      \<lparr>Task_Code = 6, Task_Name = ''TASK 6'', Runtime = 12, Period = 100, Core_Affinity = 0, priority = 1, subnum = 1, my_ptr = Some 107, splitted_ptr = None, Dependency = False, Heavy = False, Utilization = Fin 85634859648269278933218301185487541379268608\<rparr>,
      \<lparr>Task_Code = 7, Task_Name = ''TASK 0'', Runtime = 1, Period = 30, Core_Affinity = 0, priority = 7, subnum = 2, my_ptr = Some 108, splitted_ptr = None, Dependency = True, Heavy = False, Utilization = Fin 4718126672510457728853012851834529800781824\<rparr>],
   core_list = [\<lparr>Core_num = 1, C_Utilization = Fin 519965323161646000414422532670994671659384832, pre_assigned = False\<rparr>,
      \<lparr>Core_num = 2, C_Utilization = Fin 518527332414333979585134244501813948168798208, pre_assigned = True\<rparr>],
   task_manager = \<lparr>t_list = [Some 0, Some 1, Some 2, Some 3, Some 4, Some 5, Some 6, None], t_top = 6\<rparr>,
   UQ = \<lparr>t_list = [Some 7, Some 1, Some 2, Some 3, Some 5, Some 6, None, None], t_top = -1\<rparr>,
   core_manager = \<lparr>c_list = [Some 0, Some 1], c_top = 0, Utilization_Bound = Fin 519965323161646000414422532670994671659384832\<rparr>,
   pre_assigned_core = \<lparr>c_list = [Some 1, None], c_top = 0, Utilization_Bound = Fin 519965323161646000414422532670994671659384832\<rparr>,
   curr_idx = 8, n_created = 9,
   kcalls = [CallMonitorCreate 10,
      CallTaskCreate 0 0 7,
      CallTaskCreate 1 1 6,
      CallTaskCreate 2 2 5,
      CallTaskCreate 3 3 4,
      CallTaskCreate 4 4 3,
      CallTaskCreate 5 5 2,
      CallTaskCreate 6 6 1,
      CallCoreAffinitySet (Some 105) 2,
      CallCoreAffinitySet (Some 107) 1,
      CallCoreAffinitySet (Some 106) 1,
      CallCoreAffinitySet (Some 104) 1,
      CallCoreAffinitySet (Some 103) 1,
      CallCoreAffinitySet (Some 102) 1,
      CallTaskCreate 7 7 7,
      CallCoreAffinitySet (Some 101) 1,
      CallCoreAffinitySet (Some 108) 2]\<rparr>"

text \<open>The state in which the tasks are initialised and the one in which the loops start.\<close>

definition shipped_start :: spa2 where
  "shipped_start = (globals task_list_init)\<lparr>kcalls := [CallMonitorCreate 10], n_created := 1,
     task_manager := init_task_stack zero_task_stack,
     core_manager := \<lparr>c_list = [Some 0, Some 1], c_top = 1, Utilization_Bound = Fin 0\<rparr>\<rparr>"

definition shipped_loops :: spa2 where
  "shipped_loops = shipped_tasks\<lparr>curr_idx := 7,
     core_manager := (core_manager shipped_tasks)\<lparr>Utilization_Bound := Fin 519965323161646000414422532670994671659384832\<rparr>,
     pre_assigned_core := init_core_stack ((pre_assigned_core shipped_tasks)\<lparr>Utilization_Bound := Fin 519965323161646000414422532670994671659384832\<rparr>),
     UQ := init_task_stack (UQ shipped_tasks)\<rparr>"

lemma run_lists:
  "[0..<7] = [0,1,2,3,4,5,6]" "[5..<7] = [5,6]" "replicate 8 x = [x,x,x,x,x,x,x,x]"
  "replicate 2 x = [x,x]" "[0..<2] = [0,1]" "[Suc 0..<7] = [1,2,3,4,5,6]" "[7..<7] = []"
  by (simp_all add: upt_conv_Cons numeral_eq_Suc)

lemmas run_defs = run_lists core_list_init_def Core0_def Core1_def of_int_eval shipped_rnd arr_set_def arr_get_def
  deref_def upd_task_def upd_core_def create_task_def mk_w_def MAX_NUM_TASKS_def NUM_OF_TASK_def
  configNUMBER_OF_CORES_def Let_def Pop_task_def Push_task_def T_is_full_def T_is_empty_def Pop_core_def
  Push_core_def C_is_full_def C_is_empty_def

text \<open>The parts of a computation are evaluated in the order of the computation.\<close>

lemma bindE_weak_cong: "m = m' \<Longrightarrow> bindE m f = bindE m' f"
  by simp

lemmas eval_cong = bindE_weak_cong let_weak_cong

section \<open>The run\<close>

lemma shipped_light: "get_lighttask (Fin 519965323161646000414422532670994671659384832) = Fin 300796787966406268833281377039165514162634752"
  by (simp add: get_lighttask_def of_int_eval shipped_rnd)

lemma init_task_loop_append:
  "init_task_loop mk lb (xs @ ys) s = bindE (init_task_loop mk lb xs s) (init_task_loop mk lb ys)"
  by (induction xs arbitrary: s) (auto simp: bindE_def split: sum.splits)

lemma shipped_entries_1: "init_task_loop mk_w (Fin 300796787966406268833281377039165514162634752) [0, 1, 2, 3] shipped_start = Inr shipped_half"
  by (simp add: shipped_start_def shipped_half_def globals_def task_list_init_def mk_entry_def
      init_task_entry_def init_task_stack_def zero_task_stack_def zero_core_stack_def run_defs cong: eval_cong)

lemma shipped_entries_2: "init_task_loop mk_w (Fin 300796787966406268833281377039165514162634752) [4, 5, 6] shipped_half = Inr shipped_tasks"
  by (simp add: shipped_half_def shipped_tasks_def init_task_entry_def run_defs cong: eval_cong)

lemma shipped_init: "init_task pow_w mk_w ((globals task_list_init)\<lparr>kcalls := [CallMonitorCreate 10], n_created := 1,
     core_manager := \<lparr>c_list = [Some 0, Some 1], c_top = 1, Utilization_Bound = Fin 0\<rparr>\<rparr>) =
   Inr (Fin 519965323161646000414422532670994671659384832, shipped_tasks)"
proof -
  have "[0..<NUM_OF_TASK] = [0, 1, 2, 3] @ [4, 5, 6]" by (simp add: NUM_OF_TASK_def upt_conv_Cons)
  then have "init_task_loop mk_w (Fin 300796787966406268833281377039165514162634752) [0..<NUM_OF_TASK] shipped_start = Inr shipped_tasks"
    by (simp only: init_task_loop_append shipped_entries_1 shipped_entries_2 bindE_simps)
  then show ?thesis
    by (simp add: init_task_def shipped_bound shipped_light Let_def shipped_start_def globals_def)
qed

lemma shipped_pre_assign: "pre_assign [0..<NUM_OF_TASK] shipped_loops = Inr shipped_pre"
  by (simp add: shipped_loops_def shipped_tasks_def shipped_pre_def init_core_stack_def init_task_stack_def
      pre_assign_step_def simple_test_def Assign_task_def run_defs cong: eval_cong)

lemma shipped_rounds_1: "normal_assign mk_w (Fin 519965323161646000414422532670994671659384832) shipped_pre =
    normal_assign mk_w (Fin 519965323161646000414422532670994671659384832) shipped_mid"
  by (simp add: shipped_mid_def shipped_pre_def normal_assign.simps normal_step_def get_min_core_def core_util_def
      select_core_def place_task_def new_task_def Assign_task_def run_defs cong: eval_cong)

lemma shipped_rounds_2: "normal_assign mk_w (Fin 519965323161646000414422532670994671659384832) shipped_mid = Inr shipped_final"
  by (simp add: shipped_mid_def shipped_final_def Task_split_def fp_sub_Fin signed_divide_int_def
      normal_assign.simps normal_step_def get_min_core_def core_util_def
      select_core_def place_task_def new_task_def Assign_task_def run_defs cong: eval_cong)

lemma shipped_run: "main_spa2 pow_w mk_w (globals task_list_init) = Inr shipped_final"
proof -
  have "core_util (core_list shipped_final) (core_manager shipped_final) 0 = Inr (C_Utilization (core_list shipped_final ! 0))"
    by (simp add: core_util_def shipped_final_def arr_get_def deref_def)
  moreover have "core_util (core_list shipped_final) (core_manager shipped_final) 1 = Inr (C_Utilization (core_list shipped_final ! 1))"
    by (simp add: core_util_def shipped_final_def arr_get_def deref_def)
  moreover have "shipped_tasks\<lparr>curr_idx := int NUM_OF_TASK,
       core_manager := (core_manager shipped_tasks)\<lparr>Utilization_Bound := Fin 519965323161646000414422532670994671659384832\<rparr>,
       pre_assigned_core := init_core_stack ((pre_assigned_core shipped_tasks)\<lparr>Utilization_Bound := Fin 519965323161646000414422532670994671659384832\<rparr>),
       UQ := init_task_stack (UQ shipped_tasks)\<rparr> = shipped_loops"
    by (simp add: shipped_loops_def NUM_OF_TASK_def)
  ultimately show ?thesis
    by (simp only: main_spa2_start [OF shipped_init] bindE_simps shipped_pre_assign shipped_rounds_1 shipped_rounds_2)
qed

section \<open>Two other task sets\<close>

text \<open>
  Two heavy tasks that are both pre-assigned, with five light ones; and seven tasks that each
  need three tenths of a core.
\<close>

lemma fp_round_zero [simp]: "0 < b \<Longrightarrow> fp_round binary32 0 b = Fin 0"
  by (simp add: fp_round_def binary32_def rnd_sgn_def rnd_ratio_def excess.simps rhe_def Let_def)

definition two_heavy :: "task_info list" where
  "two_heavy =
    [mk_entry 0 ''T'' 5 10 0 1,
     mk_entry 1 ''T'' 1 100 0 1,
     mk_entry 2 ''T'' 1 100 0 1,
     mk_entry 3 ''T'' 1 100 0 1,
     mk_entry 4 ''T'' 1 100 0 1,
     mk_entry 5 ''T'' 1 100 0 1,
     mk_entry 6 ''T'' 5 10 0 1,
     mk_entry 7 ''E'' 0 0 0 1]"

definition overload :: "task_info list" where
  "overload =
    [mk_entry 0 ''T'' 3 10 0 1,
     mk_entry 1 ''T'' 3 10 0 1,
     mk_entry 2 ''T'' 3 10 0 1,
     mk_entry 3 ''T'' 3 10 0 1,
     mk_entry 4 ''T'' 3 10 0 1,
     mk_entry 5 ''T'' 3 10 0 1,
     mk_entry 6 ''T'' 3 10 0 1,
     mk_entry 7 ''E'' 0 0 0 1]"

lemma other_rnd_1: "fp_round binary32 3568119231764899702645714923623737840956866560 1 = Fin 3568119231764899702645714923623737840956866560"
  by (rule fp_round_evalI [where s = 128 and m = 10485760]) (simp_all add: binary32_def)

lemma other_rnd_2: "fp_round binary32 7136238463529799405291429847247475681913733120 1 = Fin 7136238463529799405291429847247475681913733120"
  by (rule fp_round_evalI [where s = 129 and m = 10485760]) (simp_all add: binary32_def)

lemma other_rnd_3: "fp_round binary32 2546294970418107607835557110511722701314335492082420313295175561692976624704170882729246720 7136238463529799405291429847247475681913733120 = Fin 356811923176489970264571492362373784095686656"
  by (rule fp_round_evalI [where s = 125 and m = 8388608]) (simp_all add: binary32_def)

lemma other_rnd_4: "fp_round binary32 509258994083621521567111422102344540262867098416484062659035112338595324940834176545849344 71362384635297994052914298472474756819137331200 = Fin 7136238304022439911101525098790628448272384"
  by (rule fp_round_evalI [where s = 119 and m = 10737418]) (simp_all add: binary32_def)

lemma other_rnd_5: "fp_round binary32 7136238304022439911101525098790628448272384 1 = Fin 7136238304022439911101525098790628448272384"
  by (rule fp_round_evalI [where s = 119 and m = 10737418]) (simp_all add: binary32_def)

lemma other_rnd_6: "fp_round binary32 14272476608044879822203050197581256896544768 1 = Fin 14272476608044879822203050197581256896544768"
  by (rule fp_round_evalI [where s = 120 and m = 10737418]) (simp_all add: binary32_def)

lemma other_rnd_7: "fp_round binary32 21408714912067319733304575296371885344817152 1 = Fin 21408714912067319733304575296371885344817152"
  by (rule fp_round_evalI [where s = 120 and m = 16106127]) (simp_all add: binary32_def)

lemma other_rnd_8: "fp_round binary32 28544953216089759644406100395162513793089536 1 = Fin 28544953216089759644406100395162513793089536"
  by (rule fp_round_evalI [where s = 121 and m = 10737418]) (simp_all add: binary32_def)

lemma other_rnd_9: "fp_round binary32 35681191520112199555507625493953142241361920 1 = Fin 35681190190884203770591752590146081961017344"
  by (rule fp_round_evalI [where s = 121 and m = 13421772]) (simp_all add: binary32_def)

lemma other_rnd_10: "fp_round binary32 392493113367374174035163244952519866056704000 1 = Fin 392493124001198140314490228182976348299460608"
  by (rule fp_round_evalI [where s = 125 and m = 9227469]) (simp_all add: binary32_def)

lemma other_rnd_11: "fp_round binary32 356811923176489970264571492362373784095686656 1 = Fin 356811923176489970264571492362373784095686656"
  by (rule fp_round_evalI [where s = 125 and m = 8388608]) (simp_all add: binary32_def)

lemma other_rnd_12: "fp_round binary32 1527776982250864564701334266307033620788601295249452187977105337015785974822502529637548032 7136238463529799405291429847247475681913733120 = Fin 214087162412953155182204482001789456251617280"
  by (rule fp_round_evalI [where s = 124 and m = 10066330]) (simp_all add: binary32_def)

lemma other_rnd_13: "fp_round binary32 214087162412953155182204482001789456251617280 1 = Fin 214087162412953155182204482001789456251617280"
  by (rule fp_round_evalI [where s = 124 and m = 10066330]) (simp_all add: binary32_def)

lemma other_rnd_14: "fp_round binary32 428174324825906310364408964003578912503234560 1 = Fin 428174324825906310364408964003578912503234560"
  by (rule fp_round_evalI [where s = 125 and m = 10066330]) (simp_all add: binary32_def)

lemma other_rnd_15: "fp_round binary32 642261487238859465546613446005368368754851840 1 = Fin 642261487238859465546613446005368368754851840"
  by (rule fp_round_evalI [where s = 125 and m = 15099495]) (simp_all add: binary32_def)

lemma other_rnd_16: "fp_round binary32 91790998335739690050013568667415759156150272 1 = Fin 91790998335739690050013568667415759156150272"
  by (rule fp_round_evalI [where s = 123 and m = 8631984]) (simp_all add: binary32_def)

lemma other_rnd_17: "fp_round binary32 655042452929305380019986737043363516634169904538618887234894714526080701852452987223408640 713623846352979940529142984724747568191373312 = Fin 917909983357396900500135686674157591561502720"
  by (rule fp_round_evalI [where s = 126 and m = 10789980]) (simp_all add: binary32_def)

lemma other_rnd_18: "fp_round binary32 122296164077213465132190913334373697095467008 1 = Fin 122296164077213465132190913334373697095467008"
  by (rule fp_round_evalI [where s = 123 and m = 11500676]) (simp_all add: binary32_def)

lemma other_rnd_19: "fp_round binary32 550470488903119775496599877337952609598701568 1 = Fin 550470488903119775496599877337952609598701568"
  by (rule fp_round_evalI [where s = 125 and m = 12941499]) (simp_all add: binary32_def)

lemmas other_rnd = other_rnd_1 other_rnd_2 other_rnd_3 other_rnd_4 other_rnd_5 other_rnd_6 other_rnd_7 other_rnd_8 other_rnd_9 other_rnd_10 other_rnd_11 other_rnd_12 other_rnd_13 other_rnd_14 other_rnd_15 other_rnd_16 other_rnd_17 other_rnd_18 other_rnd_19

definition two_heavy_init :: spa2 where
  "two_heavy_init = \<lparr>task_list =
     [\<lparr>Task_Code = 0, Task_Name = ''T'', Runtime = 5, Period = 10, Core_Affinity = 0, priority = 1, subnum = 1, my_ptr = Some 101, splitted_ptr = None, Dependency = False, Heavy = True, Utilization = Fin 356811923176489970264571492362373784095686656\<rparr>,
      \<lparr>Task_Code = 1, Task_Name = ''T'', Runtime = 1, Period = 100, Core_Affinity = 0, priority = 1, subnum = 1, my_ptr = Some 102, splitted_ptr = None, Dependency = False, Heavy = False, Utilization = Fin 7136238304022439911101525098790628448272384\<rparr>,
      \<lparr>Task_Code = 2, Task_Name = ''T'', Runtime = 1, Period = 100, Core_Affinity = 0, priority = 1, subnum = 1, my_ptr = Some 103, splitted_ptr = None, Dependency = False, Heavy = False, Utilization = Fin 7136238304022439911101525098790628448272384\<rparr>,
      \<lparr>Task_Code = 3, Task_Name = ''T'', Runtime = 1, Period = 100, Core_Affinity = 0, priority = 1, subnum = 1, my_ptr = Some 104, splitted_ptr = None, Dependency = False, Heavy = False, Utilization = Fin 7136238304022439911101525098790628448272384\<rparr>,
      \<lparr>Task_Code = 4, Task_Name = ''T'', Runtime = 1, Period = 100, Core_Affinity = 0, priority = 1, subnum = 1, my_ptr = Some 105, splitted_ptr = None, Dependency = False, Heavy = False, Utilization = Fin 7136238304022439911101525098790628448272384\<rparr>,
      \<lparr>Task_Code = 5, Task_Name = ''T'', Runtime = 1, Period = 100, Core_Affinity = 0, priority = 1, subnum = 1, my_ptr = Some 106, splitted_ptr = None, Dependency = False, Heavy = False, Utilization = Fin 7136238304022439911101525098790628448272384\<rparr>,
      \<lparr>Task_Code = 6, Task_Name = ''T'', Runtime = 5, Period = 10, Core_Affinity = 0, priority = 1, subnum = 1, my_ptr = Some 107, splitted_ptr = None, Dependency = False, Heavy = True, Utilization = Fin 356811923176489970264571492362373784095686656\<rparr>,
      \<lparr>Task_Code = 7, Task_Name = ''E'', Runtime = 0, Period = 0, Core_Affinity = 0, priority = 1, subnum = 1, my_ptr = None, splitted_ptr = None, Dependency = False, Heavy = False, Utilization = Fin 0\<rparr>],
   core_list = [\<lparr>Core_num = 1, C_Utilization = Fin 0, pre_assigned = False\<rparr>,
      \<lparr>Core_num = 2, C_Utilization = Fin 0, pre_assigned = False\<rparr>],
   task_manager = \<lparr>t_list = [Some 0, Some 1, Some 2, Some 3, Some 4, Some 5, Some 6, None], t_top = 6\<rparr>,
   UQ = \<lparr>t_list = [None, None, None, None, None, None, None, None], t_top = -1\<rparr>,
   core_manager = \<lparr>c_list = [Some 0, Some 1], c_top = 1, Utilization_Bound = Fin 519965323161646000414422532670994671659384832\<rparr>,
   pre_assigned_core = \<lparr>c_list = [None, None], c_top = -1, Utilization_Bound = Fin 519965323161646000414422532670994671659384832\<rparr>,
   curr_idx = 7, n_created = 8,
   kcalls = [CallMonitorCreate 10,
      CallTaskCreate 0 0 1,
      CallTaskCreate 1 1 1,
      CallTaskCreate 2 2 1,
      CallTaskCreate 3 3 1,
      CallTaskCreate 4 4 1,
      CallTaskCreate 5 5 1,
      CallTaskCreate 6 6 1]\<rparr>"

definition two_heavy_pre :: spa2 where
  "two_heavy_pre = \<lparr>task_list =
     [\<lparr>Task_Code = 0, Task_Name = ''T'', Runtime = 5, Period = 10, Core_Affinity = 0, priority = 1, subnum = 1, my_ptr = Some 101, splitted_ptr = None, Dependency = False, Heavy = True, Utilization = Fin 356811923176489970264571492362373784095686656\<rparr>,
      \<lparr>Task_Code = 1, Task_Name = ''T'', Runtime = 1, Period = 100, Core_Affinity = 0, priority = 1, subnum = 1, my_ptr = Some 102, splitted_ptr = None, Dependency = False, Heavy = False, Utilization = Fin 7136238304022439911101525098790628448272384\<rparr>,
      \<lparr>Task_Code = 2, Task_Name = ''T'', Runtime = 1, Period = 100, Core_Affinity = 0, priority = 1, subnum = 1, my_ptr = Some 103, splitted_ptr = None, Dependency = False, Heavy = False, Utilization = Fin 7136238304022439911101525098790628448272384\<rparr>,
      \<lparr>Task_Code = 3, Task_Name = ''T'', Runtime = 1, Period = 100, Core_Affinity = 0, priority = 1, subnum = 1, my_ptr = Some 104, splitted_ptr = None, Dependency = False, Heavy = False, Utilization = Fin 7136238304022439911101525098790628448272384\<rparr>,
      \<lparr>Task_Code = 4, Task_Name = ''T'', Runtime = 1, Period = 100, Core_Affinity = 0, priority = 1, subnum = 1, my_ptr = Some 105, splitted_ptr = None, Dependency = False, Heavy = False, Utilization = Fin 7136238304022439911101525098790628448272384\<rparr>,
      \<lparr>Task_Code = 5, Task_Name = ''T'', Runtime = 1, Period = 100, Core_Affinity = 0, priority = 1, subnum = 1, my_ptr = Some 106, splitted_ptr = None, Dependency = False, Heavy = False, Utilization = Fin 7136238304022439911101525098790628448272384\<rparr>,
      \<lparr>Task_Code = 6, Task_Name = ''T'', Runtime = 5, Period = 10, Core_Affinity = 0, priority = 1, subnum = 1, my_ptr = Some 107, splitted_ptr = None, Dependency = False, Heavy = True, Utilization = Fin 356811923176489970264571492362373784095686656\<rparr>,
      \<lparr>Task_Code = 7, Task_Name = ''E'', Runtime = 0, Period = 0, Core_Affinity = 0, priority = 1, subnum = 1, my_ptr = None, splitted_ptr = None, Dependency = False, Heavy = False, Utilization = Fin 0\<rparr>],
   core_list = [\<lparr>Core_num = 1, C_Utilization = Fin 356811923176489970264571492362373784095686656, pre_assigned = True\<rparr>,
      \<lparr>Core_num = 2, C_Utilization = Fin 356811923176489970264571492362373784095686656, pre_assigned = True\<rparr>],
   task_manager = \<lparr>t_list = [Some 0, Some 1, Some 2, Some 3, Some 4, Some 5, Some 6, None], t_top = 6\<rparr>,
   UQ = \<lparr>t_list = [Some 1, Some 2, Some 3, Some 4, Some 5, None, None, None], t_top = 4\<rparr>,
   core_manager = \<lparr>c_list = [Some 0, Some 1], c_top = -1, Utilization_Bound = Fin 519965323161646000414422532670994671659384832\<rparr>,
   pre_assigned_core = \<lparr>c_list = [Some 1, Some 0], c_top = 1, Utilization_Bound = Fin 519965323161646000414422532670994671659384832\<rparr>,
   curr_idx = 7, n_created = 8,
   kcalls = [CallMonitorCreate 10,
      CallTaskCreate 0 0 1,
      CallTaskCreate 1 1 1,
      CallTaskCreate 2 2 1,
      CallTaskCreate 3 3 1,
      CallTaskCreate 4 4 1,
      CallTaskCreate 5 5 1,
      CallTaskCreate 6 6 1,
      CallCoreAffinitySet (Some 101) 2,
      CallCoreAffinitySet (Some 107) 1]\<rparr>"

lemma two_heavy_init: "init_task pow_w mk_w ((globals two_heavy)\<lparr>kcalls := [CallMonitorCreate 10], n_created := 1,
     core_manager := \<lparr>c_list = [Some 0, Some 1], c_top = 1, Utilization_Bound = Fin 0\<rparr>\<rparr>) =
   Inr (Fin 519965323161646000414422532670994671659384832, two_heavy_init\<lparr>curr_idx := 0, UQ := zero_task_stack,
     pre_assigned_core := zero_core_stack,
     core_manager := (core_manager two_heavy_init)\<lparr>Utilization_Bound := Fin 0\<rparr>\<rparr>)"
  by (simp add: init_task_def shipped_bound shipped_light globals_def two_heavy_def mk_entry_def two_heavy_init_def
      init_task_entry_def init_task_stack_def zero_task_stack_def zero_core_stack_def run_defs other_rnd
      cong: eval_cong)

lemma two_heavy_pre_assign: "pre_assign [0..<NUM_OF_TASK] two_heavy_init = Inr two_heavy_pre"
  by (simp add: two_heavy_init_def two_heavy_pre_def pre_assign_step_def simple_test_def Assign_task_def run_defs
      other_rnd cong: eval_cong)

definition two_heavy_created :: spa2 where
  "two_heavy_created = two_heavy_init\<lparr>curr_idx := 0, UQ := zero_task_stack,
     pre_assigned_core := zero_core_stack,
     core_manager := (core_manager two_heavy_init)\<lparr>Utilization_Bound := Fin 0\<rparr>\<rparr>"

lemma two_heavy_start:
  "init_task pow_w mk_w (at_init_task two_heavy) =
     Inr (Fin 519965323161646000414422532670994671659384832, two_heavy_created)"
  using two_heavy_init by (simp add: at_init_task_def two_heavy_created_def)

lemma two_heavy_loops:
  "before_loops (Fin 519965323161646000414422532670994671659384832) two_heavy_created = two_heavy_init"
  by (simp add: before_loops_def two_heavy_created_def two_heavy_init_def init_core_stack_def
      init_task_stack_def zero_task_stack_def zero_core_stack_def run_defs)

definition overload_init :: spa2 where
  "overload_init = \<lparr>task_list =
     [\<lparr>Task_Code = 0, Task_Name = ''T'', Runtime = 3, Period = 10, Core_Affinity = 0, priority = 1, subnum = 1, my_ptr = Some 101, splitted_ptr = None, Dependency = False, Heavy = False, Utilization = Fin 214087162412953155182204482001789456251617280\<rparr>,
      \<lparr>Task_Code = 1, Task_Name = ''T'', Runtime = 3, Period = 10, Core_Affinity = 0, priority = 1, subnum = 1, my_ptr = Some 102, splitted_ptr = None, Dependency = False, Heavy = False, Utilization = Fin 214087162412953155182204482001789456251617280\<rparr>,
      \<lparr>Task_Code = 2, Task_Name = ''T'', Runtime = 3, Period = 10, Core_Affinity = 0, priority = 1, subnum = 1, my_ptr = Some 103, splitted_ptr = None, Dependency = False, Heavy = False, Utilization = Fin 214087162412953155182204482001789456251617280\<rparr>,
      \<lparr>Task_Code = 3, Task_Name = ''T'', Runtime = 3, Period = 10, Core_Affinity = 0, priority = 1, subnum = 1, my_ptr = Some 104, splitted_ptr = None, Dependency = False, Heavy = False, Utilization = Fin 214087162412953155182204482001789456251617280\<rparr>,
      \<lparr>Task_Code = 4, Task_Name = ''T'', Runtime = 3, Period = 10, Core_Affinity = 0, priority = 1, subnum = 1, my_ptr = Some 105, splitted_ptr = None, Dependency = False, Heavy = False, Utilization = Fin 214087162412953155182204482001789456251617280\<rparr>,
      \<lparr>Task_Code = 5, Task_Name = ''T'', Runtime = 3, Period = 10, Core_Affinity = 0, priority = 1, subnum = 1, my_ptr = Some 106, splitted_ptr = None, Dependency = False, Heavy = False, Utilization = Fin 214087162412953155182204482001789456251617280\<rparr>,
      \<lparr>Task_Code = 6, Task_Name = ''T'', Runtime = 3, Period = 10, Core_Affinity = 0, priority = 1, subnum = 1, my_ptr = Some 107, splitted_ptr = None, Dependency = False, Heavy = False, Utilization = Fin 214087162412953155182204482001789456251617280\<rparr>,
      \<lparr>Task_Code = 7, Task_Name = ''E'', Runtime = 0, Period = 0, Core_Affinity = 0, priority = 1, subnum = 1, my_ptr = None, splitted_ptr = None, Dependency = False, Heavy = False, Utilization = Fin 0\<rparr>],
   core_list = [\<lparr>Core_num = 1, C_Utilization = Fin 0, pre_assigned = False\<rparr>,
      \<lparr>Core_num = 2, C_Utilization = Fin 0, pre_assigned = False\<rparr>],
   task_manager = \<lparr>t_list = [Some 0, Some 1, Some 2, Some 3, Some 4, Some 5, Some 6, None], t_top = 6\<rparr>,
   UQ = \<lparr>t_list = [None, None, None, None, None, None, None, None], t_top = -1\<rparr>,
   core_manager = \<lparr>c_list = [Some 0, Some 1], c_top = 1, Utilization_Bound = Fin 519965323161646000414422532670994671659384832\<rparr>,
   pre_assigned_core = \<lparr>c_list = [None, None], c_top = -1, Utilization_Bound = Fin 519965323161646000414422532670994671659384832\<rparr>,
   curr_idx = 7, n_created = 8,
   kcalls = [CallMonitorCreate 10,
      CallTaskCreate 0 0 1,
      CallTaskCreate 1 1 1,
      CallTaskCreate 2 2 1,
      CallTaskCreate 3 3 1,
      CallTaskCreate 4 4 1,
      CallTaskCreate 5 5 1,
      CallTaskCreate 6 6 1]\<rparr>"

definition overload_pre :: spa2 where
  "overload_pre = \<lparr>task_list =
     [\<lparr>Task_Code = 0, Task_Name = ''T'', Runtime = 3, Period = 10, Core_Affinity = 0, priority = 1, subnum = 1, my_ptr = Some 101, splitted_ptr = None, Dependency = False, Heavy = False, Utilization = Fin 214087162412953155182204482001789456251617280\<rparr>,
      \<lparr>Task_Code = 1, Task_Name = ''T'', Runtime = 3, Period = 10, Core_Affinity = 0, priority = 1, subnum = 1, my_ptr = Some 102, splitted_ptr = None, Dependency = False, Heavy = False, Utilization = Fin 214087162412953155182204482001789456251617280\<rparr>,
      \<lparr>Task_Code = 2, Task_Name = ''T'', Runtime = 3, Period = 10, Core_Affinity = 0, priority = 1, subnum = 1, my_ptr = Some 103, splitted_ptr = None, Dependency = False, Heavy = False, Utilization = Fin 214087162412953155182204482001789456251617280\<rparr>,
      \<lparr>Task_Code = 3, Task_Name = ''T'', Runtime = 3, Period = 10, Core_Affinity = 0, priority = 1, subnum = 1, my_ptr = Some 104, splitted_ptr = None, Dependency = False, Heavy = False, Utilization = Fin 214087162412953155182204482001789456251617280\<rparr>,
      \<lparr>Task_Code = 4, Task_Name = ''T'', Runtime = 3, Period = 10, Core_Affinity = 0, priority = 1, subnum = 1, my_ptr = Some 105, splitted_ptr = None, Dependency = False, Heavy = False, Utilization = Fin 214087162412953155182204482001789456251617280\<rparr>,
      \<lparr>Task_Code = 5, Task_Name = ''T'', Runtime = 3, Period = 10, Core_Affinity = 0, priority = 1, subnum = 1, my_ptr = Some 106, splitted_ptr = None, Dependency = False, Heavy = False, Utilization = Fin 214087162412953155182204482001789456251617280\<rparr>,
      \<lparr>Task_Code = 6, Task_Name = ''T'', Runtime = 3, Period = 10, Core_Affinity = 0, priority = 1, subnum = 1, my_ptr = Some 107, splitted_ptr = None, Dependency = False, Heavy = False, Utilization = Fin 214087162412953155182204482001789456251617280\<rparr>,
      \<lparr>Task_Code = 7, Task_Name = ''E'', Runtime = 0, Period = 0, Core_Affinity = 0, priority = 1, subnum = 1, my_ptr = None, splitted_ptr = None, Dependency = False, Heavy = False, Utilization = Fin 0\<rparr>],
   core_list = [\<lparr>Core_num = 1, C_Utilization = Fin 0, pre_assigned = False\<rparr>,
      \<lparr>Core_num = 2, C_Utilization = Fin 0, pre_assigned = False\<rparr>],
   task_manager = \<lparr>t_list = [Some 0, Some 1, Some 2, Some 3, Some 4, Some 5, Some 6, None], t_top = 6\<rparr>,
   UQ = \<lparr>t_list = [Some 0, Some 1, Some 2, Some 3, Some 4, Some 5, Some 6, None], t_top = 6\<rparr>,
   core_manager = \<lparr>c_list = [Some 0, Some 1], c_top = 1, Utilization_Bound = Fin 519965323161646000414422532670994671659384832\<rparr>,
   pre_assigned_core = \<lparr>c_list = [None, None], c_top = -1, Utilization_Bound = Fin 519965323161646000414422532670994671659384832\<rparr>,
   curr_idx = 7, n_created = 8,
   kcalls = [CallMonitorCreate 10,
      CallTaskCreate 0 0 1,
      CallTaskCreate 1 1 1,
      CallTaskCreate 2 2 1,
      CallTaskCreate 3 3 1,
      CallTaskCreate 4 4 1,
      CallTaskCreate 5 5 1,
      CallTaskCreate 6 6 1]\<rparr>"

lemma overload_init: "init_task pow_w mk_w ((globals overload)\<lparr>kcalls := [CallMonitorCreate 10], n_created := 1,
     core_manager := \<lparr>c_list = [Some 0, Some 1], c_top = 1, Utilization_Bound = Fin 0\<rparr>\<rparr>) =
   Inr (Fin 519965323161646000414422532670994671659384832, overload_init\<lparr>curr_idx := 0, UQ := zero_task_stack,
     pre_assigned_core := zero_core_stack,
     core_manager := (core_manager overload_init)\<lparr>Utilization_Bound := Fin 0\<rparr>\<rparr>)"
  by (simp add: init_task_def shipped_bound shipped_light globals_def overload_def mk_entry_def overload_init_def
      init_task_entry_def init_task_stack_def zero_task_stack_def zero_core_stack_def run_defs other_rnd
      cong: eval_cong)

lemma overload_pre_assign: "pre_assign [0..<NUM_OF_TASK] overload_init = Inr overload_pre"
  by (simp add: overload_init_def overload_pre_def pre_assign_step_def simple_test_def Assign_task_def run_defs
      other_rnd cong: eval_cong)

lemma overload_normal: "normal_assign mk_w (Fin 519965323161646000414422532670994671659384832) overload_pre = Inl NullDeref"
  by (simp add: overload_pre_def normal_assign.simps normal_step_def get_min_core_def core_util_def
      select_core_def place_task_def new_task_def Assign_task_def Task_split_def fp_sub_Fin
      signed_divide_int_def run_defs other_rnd cong: eval_cong)

lemma overload_fault: "main_spa2 pow_w mk_w (globals overload) = Inl NullDeref"
proof -
  have "(\<lambda>s1. s1\<lparr>curr_idx := int NUM_OF_TASK,
       core_manager := (core_manager s1)\<lparr>Utilization_Bound := Fin 519965323161646000414422532670994671659384832\<rparr>,
       pre_assigned_core := init_core_stack ((pre_assigned_core s1)\<lparr>Utilization_Bound := Fin 519965323161646000414422532670994671659384832\<rparr>),
       UQ := init_task_stack (UQ s1)\<rparr>) (overload_init\<lparr>curr_idx := 0, UQ := zero_task_stack,
     pre_assigned_core := zero_core_stack,
     core_manager := (core_manager overload_init)\<lparr>Utilization_Bound := Fin 0\<rparr>\<rparr>) = overload_init"
    by (simp add: overload_init_def init_core_stack_def init_task_stack_def zero_task_stack_def
        zero_core_stack_def run_defs)
  then show ?thesis
    by (simp add: main_spa2_start [OF overload_init] overload_pre_assign overload_normal)
qed

section \<open>The split of the run\<close>

text \<open>The state before task 0 is split on core 0, and the one after the split.\<close>

definition split_before :: spa2 where
  "split_before = \<lparr>task_list =
     [\<lparr>Task_Code = 0, Task_Name = ''TASK 0'', Runtime = 3, Period = 30, Core_Affinity = 1, priority = 7, subnum = 1, my_ptr = Some 101, splitted_ptr = None, Dependency = False, Heavy = False, Utilization = Fin 71362385698680390680846996795520405043412992\<rparr>,
      \<lparr>Task_Code = 1, Task_Name = ''TASK 1'', Runtime = 2, Period = 30, Core_Affinity = 2, priority = 6, subnum = 1, my_ptr = Some 102, splitted_ptr = None, Dependency = False, Heavy = False, Utilization = Fin 47574925571424254833785828402089683736068096\<rparr>,
      \<lparr>Task_Code = 2, Task_Name = ''TASK 2'', Runtime = 3, Period = 30, Core_Affinity = 2, priority = 5, subnum = 1, my_ptr = Some 103, splitted_ptr = None, Dependency = False, Heavy = False, Utilization = Fin 71362385698680390680846996795520405043412992\<rparr>,
      \<lparr>Task_Code = 3, Task_Name = ''TASK 3'', Runtime = 8, Period = 35, Core_Affinity = 1, priority = 4, subnum = 1, my_ptr = Some 104, splitted_ptr = None, Dependency = False, Heavy = False, Utilization = Fin 163114022935008897802032137928267142635978752\<rparr>,
      \<lparr>Task_Code = 4, Task_Name = ''TASK 4'', Runtime = 36, Period = 50, Core_Affinity = 1, priority = 3, subnum = 1, my_ptr = Some 105, splitted_ptr = None, Dependency = False, Heavy = True, Utilization = Fin 513809189791087572437290756804294695003881472\<rparr>,
      \<lparr>Task_Code = 5, Task_Name = ''TASK 5'', Runtime = 12, Period = 100, Core_Affinity = 0, priority = 2, subnum = 1, my_ptr = Some 106, splitted_ptr = None, Dependency = False, Heavy = False, Utilization = Fin 85634859648269278933218301185487541379268608\<rparr>,
      \<lparr>Task_Code = 6, Task_Name = ''TASK 6'', Runtime = 12, Period = 100, Core_Affinity = 0, priority = 1, subnum = 1, my_ptr = Some 107, splitted_ptr = None, Dependency = False, Heavy = False, Utilization = Fin 85634859648269278933218301185487541379268608\<rparr>,
      \<lparr>Task_Code = 7, Task_Name = ''Extra T'', Runtime = 0, Period = 0, Core_Affinity = 0, priority = 1, subnum = 1, my_ptr = None, splitted_ptr = None, Dependency = False, Heavy = False, Utilization = Fin 0\<rparr>],
   core_list = [\<lparr>Core_num = 1, C_Utilization = Fin 453321064135476067462428548727308796416753664, pre_assigned = False\<rparr>,
      \<lparr>Core_num = 2, C_Utilization = Fin 513809189791087572437290756804294695003881472, pre_assigned = True\<rparr>],
   task_manager = \<lparr>t_list = [Some 0, Some 1, Some 2, Some 3, Some 4, Some 5, Some 6, None], t_top = 6\<rparr>,
   UQ = \<lparr>t_list = [Some 0, Some 1, Some 2, Some 3, Some 5, Some 6, None, None], t_top = -1\<rparr>,
   core_manager = \<lparr>c_list = [Some 0, Some 1], c_top = 0, Utilization_Bound = Fin 519965323161646000414422532670994671659384832\<rparr>,
   pre_assigned_core = \<lparr>c_list = [Some 1, None], c_top = 0, Utilization_Bound = Fin 519965323161646000414422532670994671659384832\<rparr>,
   curr_idx = 8, n_created = 8,
   kcalls = [CallMonitorCreate 10,
      CallTaskCreate 0 0 7,
      CallTaskCreate 1 1 6,
      CallTaskCreate 2 2 5,
      CallTaskCreate 3 3 4,
      CallTaskCreate 4 4 3,
      CallTaskCreate 5 5 2,
      CallTaskCreate 6 6 1,
      CallCoreAffinitySet (Some 105) 2,
      CallCoreAffinitySet (Some 107) 1,
      CallCoreAffinitySet (Some 106) 1,
      CallCoreAffinitySet (Some 104) 1,
      CallCoreAffinitySet (Some 103) 1,
      CallCoreAffinitySet (Some 102) 1]\<rparr>"

definition split_after :: spa2 where
  "split_after = \<lparr>task_list =
     [\<lparr>Task_Code = 0, Task_Name = ''TASK 0'', Runtime = 2, Period = 30, Core_Affinity = 1, priority = 7, subnum = 1, my_ptr = Some 101, splitted_ptr = Some 108, Dependency = False, Heavy = False, Utilization = Fin 66644259026169932951993983943685875242631168\<rparr>,
      \<lparr>Task_Code = 1, Task_Name = ''TASK 1'', Runtime = 2, Period = 30, Core_Affinity = 2, priority = 6, subnum = 1, my_ptr = Some 102, splitted_ptr = None, Dependency = False, Heavy = False, Utilization = Fin 47574925571424254833785828402089683736068096\<rparr>,
      \<lparr>Task_Code = 2, Task_Name = ''TASK 2'', Runtime = 3, Period = 30, Core_Affinity = 2, priority = 5, subnum = 1, my_ptr = Some 103, splitted_ptr = None, Dependency = False, Heavy = False, Utilization = Fin 71362385698680390680846996795520405043412992\<rparr>,
      \<lparr>Task_Code = 3, Task_Name = ''TASK 3'', Runtime = 8, Period = 35, Core_Affinity = 1, priority = 4, subnum = 1, my_ptr = Some 104, splitted_ptr = None, Dependency = False, Heavy = False, Utilization = Fin 163114022935008897802032137928267142635978752\<rparr>,
      \<lparr>Task_Code = 4, Task_Name = ''TASK 4'', Runtime = 36, Period = 50, Core_Affinity = 1, priority = 3, subnum = 1, my_ptr = Some 105, splitted_ptr = None, Dependency = False, Heavy = True, Utilization = Fin 513809189791087572437290756804294695003881472\<rparr>,
      \<lparr>Task_Code = 5, Task_Name = ''TASK 5'', Runtime = 12, Period = 100, Core_Affinity = 0, priority = 2, subnum = 1, my_ptr = Some 106, splitted_ptr = None, Dependency = False, Heavy = False, Utilization = Fin 85634859648269278933218301185487541379268608\<rparr>,
      \<lparr>Task_Code = 6, Task_Name = ''TASK 6'', Runtime = 12, Period = 100, Core_Affinity = 0, priority = 1, subnum = 1, my_ptr = Some 107, splitted_ptr = None, Dependency = False, Heavy = False, Utilization = Fin 85634859648269278933218301185487541379268608\<rparr>,
      \<lparr>Task_Code = 7, Task_Name = ''TASK 0'', Runtime = 1, Period = 30, Core_Affinity = 0, priority = 7, subnum = 2, my_ptr = Some 108, splitted_ptr = None, Dependency = True, Heavy = False, Utilization = Fin 4718126672510457728853012851834529800781824\<rparr>],
   core_list = [\<lparr>Core_num = 1, C_Utilization = Fin 453321064135476067462428548727308796416753664, pre_assigned = False\<rparr>,
      \<lparr>Core_num = 2, C_Utilization = Fin 513809189791087572437290756804294695003881472, pre_assigned = True\<rparr>],
   task_manager = \<lparr>t_list = [Some 0, Some 1, Some 2, Some 3, Some 4, Some 5, Some 6, None], t_top = 6\<rparr>,
   UQ = \<lparr>t_list = [Some 7, Some 1, Some 2, Some 3, Some 5, Some 6, None, None], t_top = 0\<rparr>,
   core_manager = \<lparr>c_list = [Some 0, Some 1], c_top = 0, Utilization_Bound = Fin 519965323161646000414422532670994671659384832\<rparr>,
   pre_assigned_core = \<lparr>c_list = [Some 1, None], c_top = 0, Utilization_Bound = Fin 519965323161646000414422532670994671659384832\<rparr>,
   curr_idx = 8, n_created = 9,
   kcalls = [CallMonitorCreate 10,
      CallTaskCreate 0 0 7,
      CallTaskCreate 1 1 6,
      CallTaskCreate 2 2 5,
      CallTaskCreate 3 3 4,
      CallTaskCreate 4 4 3,
      CallTaskCreate 5 5 2,
      CallTaskCreate 6 6 1,
      CallCoreAffinitySet (Some 105) 2,
      CallCoreAffinitySet (Some 107) 1,
      CallCoreAffinitySet (Some 106) 1,
      CallCoreAffinitySet (Some 104) 1,
      CallCoreAffinitySet (Some 103) 1,
      CallCoreAffinitySet (Some 102) 1,
      CallTaskCreate 7 7 7]\<rparr>"

lemma split_run: "Task_split mk_w (Some 0) (Some 7) (Some 0) split_before = Inr split_after"
  by (simp add: split_before_def split_after_def Task_split_def fp_sub_Fin signed_divide_int_def
      run_defs cong: eval_cong)

definition shipped_round :: spa2 where
  "shipped_round = \<lparr>task_list =
     [\<lparr>Task_Code = 0, Task_Name = ''TASK 0'', Runtime = 3, Period = 30, Core_Affinity = 1, priority = 7, subnum = 1, my_ptr = Some 101, splitted_ptr = None, Dependency = False, Heavy = False, Utilization = Fin 71362385698680390680846996795520405043412992\<rparr>,
      \<lparr>Task_Code = 1, Task_Name = ''TASK 1'', Runtime = 2, Period = 30, Core_Affinity = 2, priority = 6, subnum = 1, my_ptr = Some 102, splitted_ptr = None, Dependency = False, Heavy = False, Utilization = Fin 47574925571424254833785828402089683736068096\<rparr>,
      \<lparr>Task_Code = 2, Task_Name = ''TASK 2'', Runtime = 3, Period = 30, Core_Affinity = 2, priority = 5, subnum = 1, my_ptr = Some 103, splitted_ptr = None, Dependency = False, Heavy = False, Utilization = Fin 71362385698680390680846996795520405043412992\<rparr>,
      \<lparr>Task_Code = 3, Task_Name = ''TASK 3'', Runtime = 8, Period = 35, Core_Affinity = 1, priority = 4, subnum = 1, my_ptr = Some 104, splitted_ptr = None, Dependency = False, Heavy = False, Utilization = Fin 163114022935008897802032137928267142635978752\<rparr>,
      \<lparr>Task_Code = 4, Task_Name = ''TASK 4'', Runtime = 36, Period = 50, Core_Affinity = 1, priority = 3, subnum = 1, my_ptr = Some 105, splitted_ptr = None, Dependency = False, Heavy = True, Utilization = Fin 513809189791087572437290756804294695003881472\<rparr>,
      \<lparr>Task_Code = 5, Task_Name = ''TASK 5'', Runtime = 12, Period = 100, Core_Affinity = 0, priority = 2, subnum = 1, my_ptr = Some 106, splitted_ptr = None, Dependency = False, Heavy = False, Utilization = Fin 85634859648269278933218301185487541379268608\<rparr>,
      \<lparr>Task_Code = 6, Task_Name = ''TASK 6'', Runtime = 12, Period = 100, Core_Affinity = 0, priority = 1, subnum = 1, my_ptr = Some 107, splitted_ptr = None, Dependency = False, Heavy = False, Utilization = Fin 85634859648269278933218301185487541379268608\<rparr>,
      \<lparr>Task_Code = 7, Task_Name = ''Extra T'', Runtime = 0, Period = 0, Core_Affinity = 0, priority = 1, subnum = 1, my_ptr = None, splitted_ptr = None, Dependency = False, Heavy = False, Utilization = Fin 0\<rparr>],
   core_list = [\<lparr>Core_num = 1, C_Utilization = Fin 85634859648269278933218301185487541379268608, pre_assigned = False\<rparr>,
      \<lparr>Core_num = 2, C_Utilization = Fin 513809189791087572437290756804294695003881472, pre_assigned = True\<rparr>],
   task_manager = \<lparr>t_list = [Some 0, Some 1, Some 2, Some 3, Some 4, Some 5, Some 6, None], t_top = 6\<rparr>,
   UQ = \<lparr>t_list = [Some 0, Some 1, Some 2, Some 3, Some 5, Some 6, None, None], t_top = 4\<rparr>,
   core_manager = \<lparr>c_list = [Some 0, Some 1], c_top = 0, Utilization_Bound = Fin 519965323161646000414422532670994671659384832\<rparr>,
   pre_assigned_core = \<lparr>c_list = [Some 1, None], c_top = 0, Utilization_Bound = Fin 519965323161646000414422532670994671659384832\<rparr>,
   curr_idx = 7, n_created = 8,
   kcalls = [CallMonitorCreate 10,
      CallTaskCreate 0 0 7,
      CallTaskCreate 1 1 6,
      CallTaskCreate 2 2 5,
      CallTaskCreate 3 3 4,
      CallTaskCreate 4 4 3,
      CallTaskCreate 5 5 2,
      CallTaskCreate 6 6 1,
      CallCoreAffinitySet (Some 105) 2,
      CallCoreAffinitySet (Some 107) 1]\<rparr>"

lemma first_round: "normal_step mk_w (Fin 519965323161646000414422532670994671659384832) shipped_pre = Inr (Cont shipped_round)"
  by (simp add: shipped_pre_def shipped_round_def normal_step_def get_min_core_def core_util_def
      select_core_def place_task_def new_task_def Assign_task_def run_defs cong: eval_cong)

end
