(* ===== verification/PartitionResults.thy ===== *)
theory PartitionResults
  imports ShippedRun
begin

text \<open>
  What the partitioner guarantees, for every task set whose tasks each fit under the bound,
  and what it does on the shipped tables and on two others.
\<close>

section \<open>Loads and assignments\<close>

lemma admissible_shipped: "admissible pow_w task_list_init 519965323161646000414422532670994671659384832"
proof -
  have "fp_le (task_util (task_list_init ! i)) (Fin 519965323161646000414422532670994671659384832)"
    if "i < NUM_OF_TASK" for i
  proof -
    have "i \<in> {0, 1, 2, 3, 4, 5, 6}" using that by (auto simp: NUM_OF_TASK_def)
    then show ?thesis
      by (auto simp: task_list_init_def mk_entry_def task_util_def of_int_eval shipped_rnd)
  qed
  then show ?thesis
    by (simp add: admissible_def shipped_bound task_list_init_def MAX_NUM_TASKS_def NUM_OF_TASK_def
        configNUMBER_OF_CORES_def)
qed

text \<open>C5: When every task fits under the utilisation bound on its own, the load the
  partitioner records for a core never exceeds the bound by more than one unit in the last
  place of a float, whatever is split and whichever cores are pre-assigned.\<close>

theorem spa2_load_bound:
  assumes "admissible pow tab b" "main_spa2 pow mk (globals tab) = Inr s'" "c < configNUMBER_OF_CORES"
  shows "\<exists>k. C_Utilization (core_list s' ! c) = Fin k \<and> 0 \<le> k \<and> k \<le> b + ulp 24 b"
proof -
  have "loads_ok b s'" using main_inv [OF assms(1,2)] by simp
  then show ?thesis using assms(3) by (auto simp: loads_ok_def util_in_def)
qed

theorem spa2_load_bound_witness:
  "\<exists>k. C_Utilization (core_list shipped_final ! 1) = Fin k \<and> 0 \<le> k \<and>
     k \<le> 519965323161646000414422532670994671659384832 + ulp 24 519965323161646000414422532670994671659384832"
  by (rule spa2_load_bound [OF admissible_shipped shipped_run]) (simp add: configNUMBER_OF_CORES_def)

text \<open>C4: The calls of \<open>vTaskCoreAffinitySet\<close> that the partitioner makes are those of an
  assignment of tasks to cores: each call passes the handle of a task in use and the mask of
  the core the task was assigned to, core 0 or core 1, no task is assigned twice, and the load
  recorded for a core is the rounded sum of the utilisations of exactly the tasks pinned to
  it.  When the task stack runs empty every task in use, the tails of splits included, is
  assigned; the only other way out is the early exit, which is taken only when every core has
  reached the bound.  The tables are arbitrary, as long as every task fits under the bound on
  its own.\<close>

theorem spa2_all_pinned:
  assumes "admissible pow tab b" "main_spa2 pow mk (globals tab) = Inr s'"
  shows "\<exists>a. pinned (kcalls s') =
      map (\<lambda>(t, c). (my_ptr (task_list s' ! t), if c = 0 then Core0 else Core1)) a \<and>
    distinct (map fst a) \<and>
    (\<forall>(t, c) \<in> set a. t < nat (curr_idx s') \<and> c < configNUMBER_OF_CORES) \<and>
    (\<forall>c < configNUMBER_OF_CORES. C_Utilization (core_list s' ! c) = core_load (task_list s') a c) \<and>
    (set (map fst a) = {..<nat (curr_idx s')} \<or>
     (\<forall>c < configNUMBER_OF_CORES. fp_le (Fin b) (C_Utilization (core_list s' ! c))))"
proof -
  have R: "normal_inv b s' \<and> T_is_empty (UQ s') \<or> all_full b s' \<and> (\<exists>P. accounted (nat (curr_idx s')) P s')"
    using main_inv [OF assms] by simp
  then obtain P where P: "accounted (nat (curr_idx s')) P s'" "P = {#} \<and> t_contents (UQ s') = [] \<or> all_full b s'"
    using t_contents_empty by (force simp: normal_inv_def part_inv_def queue_ok_def)
  then obtain a where a: "placement a s'"
      "mset (map fst a) + mset (map the (t_contents (UQ s'))) + P = mset [0..<nat (curr_idx s')]"
    by (auto elim: accountedE)
  have sub: "mset (map fst a) \<subseteq># mset [0..<nat (curr_idx s')]"
    unfolding a(2) [symmetric] by (simp only: add.assoc mset_subset_eq_add_left)
  have "count (mset (map fst a)) x \<le> 1" for x
    using mset_subset_eq_count [OF sub, of x] distinct_count_atmost_1 [of "[0..<nat (curr_idx s')]"]
    by (simp split: if_splits)
  moreover have "0 < count (mset (map fst a)) x" if "x \<in> set (map fst a)" for x
    using that by (simp only: count_greater_zero_iff set_mset_mset)
  ultimately have "count (mset (map fst a)) x = (if x \<in> set (map fst a) then 1 else 0)" for x
    by (metis (no_types) One_nat_def le_0_eq le_antisym not_gr_zero not_in_iff set_mset_mset Suc_leI)
  then have d: "distinct (map fst a)" "set (map fst a) \<subseteq> {..<nat (curr_idx s')}"
    using set_mset_mono [OF sub] by (auto simp only: distinct_count_atmost_1 set_mset_mset set_upt
        lessThan_iff atLeastLessThan_iff)
  have all: "set (map fst a) = {..<nat (curr_idx s')}" if "P = {#}" "t_contents (UQ s') = []"
    using arg_cong [OF a(2), of set_mset] that by (simp add: atLeast0LessThan)
  show ?thesis
  proof (intro exI conjI)
    show "pinned (kcalls s') = map (\<lambda>(t, c). (my_ptr (task_list s' ! t), if c = 0 then Core0 else Core1)) a"
      using a(1) by (simp add: placement_def core_mask_def)
    show "\<forall>(t, c) \<in> set a. t < nat (curr_idx s') \<and> c < configNUMBER_OF_CORES"
      using a(1) d(2) by (force simp: placement_def)
    show "set (map fst a) = {..<nat (curr_idx s')} \<or>
        (\<forall>c < configNUMBER_OF_CORES. fp_le (Fin b) (C_Utilization (core_list s' ! c)))"
      using P(2) all by (auto simp: all_full_def)
  qed (use a(1) d in \<open>simp_all add: placement_def\<close>)
qed

theorem spa2_all_pinned_witness:
  "\<exists>a. pinned (kcalls shipped_final) =
      map (\<lambda>(t, c). (my_ptr (task_list shipped_final ! t), if c = 0 then Core0 else Core1)) a \<and>
    distinct (map fst a) \<and>
    (\<forall>(t, c) \<in> set a. t < nat (curr_idx shipped_final) \<and> c < configNUMBER_OF_CORES) \<and>
    (\<forall>c < configNUMBER_OF_CORES. C_Utilization (core_list shipped_final ! c) =
       core_load (task_list shipped_final) a c) \<and>
    (set (map fst a) = {..<nat (curr_idx shipped_final)} \<or>
     (\<forall>c < configNUMBER_OF_CORES. fp_le (Fin 519965323161646000414422532670994671659384832)
       (C_Utilization (core_list shipped_final ! c))))"
  by (rule spa2_all_pinned [OF admissible_shipped shipped_run])

section \<open>Splits\<close>

text \<open>A split loses no execution time: the runtimes of the body and the tail add up to
  the runtime of the task, and both keep its period.\<close>

theorem split_conserves_runtime:
  assumes "Task_split mk (Some b) (Some t) C s = Inr s'" "b \<noteq> t"
  shows "unat (Runtime (task_list s' ! b)) + unat (Runtime (task_list s' ! t)) = unat (Runtime (task_list s ! b)) \<and>
    Period (task_list s' ! b) = Period (task_list s ! b) \<and> Period (task_list s' ! t) = Period (task_list s ! b)"
  using Task_split_runtime [OF assms] Task_split_effect(7,8) [OF assms] by simp

theorem split_conserves_runtime_witness:
  "unat (Runtime (task_list split_after ! 0)) + unat (Runtime (task_list split_after ! 7)) =
     unat (Runtime (task_list split_before ! 0)) \<and>
   Period (task_list split_after ! 0) = Period (task_list split_before ! 0) \<and>
   Period (task_list split_after ! 7) = Period (task_list split_before ! 0)"
  by (rule split_conserves_runtime [OF split_run]) simp

text \<open>C34: When a core is at least half full, splitting a task fills it to the bound exactly:
  the share of the body is the exact difference, so no rounding is left.\<close>

theorem split_fills_core:
  assumes "Task_split mk (Some b) (Some t) (Some c) s = Inr s1" "b \<noteq> t" "Assign_task (Some b) (Some c) s1 = Inr s'"
    and "Utilization_Bound (core_manager s) = Fin ub" "representable 24 ub" "ub < 2 ^ 277"
    and "C_Utilization (core_list s ! c) = Fin k" "representable 24 k" "0 \<le> k" "k \<le> ub" "ub \<le> 2 * k"
  shows "C_Utilization (core_list s' ! c) = Fin ub"
proof -
  have c: "C_Utilization (core_list s1 ! c) = Fin k"
    using Task_split_frame(1) [OF assms(1)] assms(7) by simp
  have "Utilization (task_list s1 ! b) = fp_sub binary32 (Fin ub) (Fin k)"
    using Task_split_effect(3) [OF assms(1,2)] assms(4,7) by auto
  also have "\<dots> = Fin (ub - k)"
    using fp_sub_Fin_ok [OF assms(9,10,5,6)] r32.sterbenz [OF assms(5,8-11)] by (simp add: r32.exact)
  finally have "fp_add binary32 (C_Utilization (core_list s1 ! c)) (Utilization (task_list s1 ! b)) = Fin ub"
    using fp_add_Fin_le [of k "ub - k" ub] assms(5,6,9,10) by (simp add: c r32.exact)
  then show ?thesis using Assign_task_eq(1,3) [OF assms(3)] by simp
qed

lemma split_assign_run: "\<exists>s'. Assign_task (Some 0) (Some 0) split_after = Inr s'"
  by (simp add: Assign_task_def split_after_def deref_def Let_def)

theorem split_fills_core_witness:
  "\<exists>s'. Assign_task (Some 0) (Some 0) split_after = Inr s' \<and>
     C_Utilization (core_list s' ! 0) = Fin 519965323161646000414422532670994671659384832"
proof -
  obtain s' where s': "Assign_task (Some 0) (Some 0) split_after = Inr s'" using split_assign_run by blast
  have "C_Utilization (core_list s' ! 0) = Fin 519965323161646000414422532670994671659384832"
  proof (rule split_fills_core [OF split_run _ s'])
    show "C_Utilization (core_list split_before ! 0) = Fin 453321064135476067462428548727308796416753664"
      by (simp add: split_before_def)
    show "representable 24 (519965323161646000414422532670994671659384832::int)"
      using fp_conv_representable shipped_bound by (auto simp: get_Utilization_def Let_def)
    show "representable 24 (453321064135476067462428548727308796416753664::int)"
      using fp_round_binary32 [OF zero_less_one shipped_rnd_25] by simp
  qed (simp_all add: split_before_def)
  then show ?thesis using s' by blast
qed

section \<open>Searching, stacking, terminating\<close>

text \<open>\<open>get_min_core\<close> returns a core of the stack whose recorded load is least, when the
  stack is not empty and the loads are numbers.\<close>

theorem get_min_core_least:
  assumes "fin_cores cl s" "c_contents s \<noteq> []"
  shows "\<exists>c k. get_min_core cl s = Inr (Some c) \<and> Some c \<in> set (c_contents s) \<and>
     C_Utilization (cl ! c) = Fin k \<and>
     (\<forall>c'. Some c' \<in> set (c_contents s) \<longrightarrow> fp_le (C_Utilization (cl ! c)) (C_Utilization (cl ! c')))"
proof -
  obtain c k where ck: "get_min_core cl s = Inr (Some c)" "Some c \<in> set (c_contents s)"
    "C_Utilization (cl ! c) = Fin k"
    "\<And>c'. Some c' \<in> set (c_contents s) \<Longrightarrow> k \<le> fin_val (C_Utilization (cl ! c'))"
    using get_min_core_ok [OF assms] by blast
  have "fp_le (C_Utilization (cl ! c)) (C_Utilization (cl ! c'))" if c': "Some c' \<in> set (c_contents s)" for c'
  proof -
    obtain k' where "C_Utilization (cl ! c') = Fin k'" using assms(1) c' by (auto simp: fin_cores_def)
    then show ?thesis using ck(3) ck(4) [OF c'] by simp
  qed
  with ck show ?thesis by blast
qed

theorem get_min_core_least_witness:
  "\<exists>c k. get_min_core (core_list split_before) (core_manager shipped_loops) = Inr (Some c) \<and>
     Some c \<in> set (c_contents (core_manager shipped_loops)) \<and>
     C_Utilization (core_list split_before ! c) = Fin k \<and>
     (\<forall>c'. Some c' \<in> set (c_contents (core_manager shipped_loops)) \<longrightarrow>
        fp_le (C_Utilization (core_list split_before ! c)) (C_Utilization (core_list split_before ! c')))"
  by (rule get_min_core_least)
    (auto simp: fin_cores_def c_invar_def c_contents_def split_before_def shipped_loops_def
      shipped_tasks_def configNUMBER_OF_CORES_def less_2_cases_iff)

text \<open>Both assignment loops end: every round of the normal assignment that continues
  lowers the number of queued tasks plus twice the number of unused table entries, so there
  are at most \<open>work_left\<close> rounds.\<close>

theorem normal_assign_progress:
  assumes "normal_step mk ub s = Inr (Cont s')" "\<not> T_is_empty (UQ s)"
  shows "work_left s' < work_left s"
  by (rule normal_step_work [OF assms])

theorem normal_assign_progress_witness: "work_left shipped_round < work_left shipped_pre"
  by (rule normal_assign_progress [OF first_round]) (simp add: T_is_empty_def shipped_pre_def)

text \<open>The task stack is a bounded last-in-first-out stack: below capacity, what was pushed
  last is popped first and the rest is as before.\<close>

theorem task_stack_lifo:
  assumes "t_invar s" "length (t_contents s) < MAX_NUM_TASKS" "Push_task x s = Inr s'"
  shows "\<exists>s''. Pop_task s' = Inr (x, s'') \<and> t_contents s'' = t_contents s"
  by (rule ts.pop_push [OF assms])

theorem task_stack_lifo_witness:
  "\<exists>s''. Pop_task \<lparr>t_list = [Some 3, None, None, None, None, None, None, None], t_top = 0\<rparr> = Inr (Some 3, s'') \<and>
     t_contents s'' = t_contents \<lparr>t_list = replicate 8 None, t_top = -1\<rparr>"
  by (rule task_stack_lifo)
    (simp_all add: t_invar_def t_contents_def MAX_NUM_TASKS_def NUM_OF_TASK_def configNUMBER_OF_CORES_def
      Push_task_def T_is_full_def arr_set_def numeral_eq_Suc)

section \<open>The hyperperiod\<close>

text \<open>\<open>calculate_lcm\<close> computes the least common multiple of the seven periods, as long as
  the products of its result with each period fit into an \<open>int\<close>.\<close>

theorem calculate_lcm_correct:
  assumes "length ps = NUM_OF_TASK" "\<forall>p \<in> set ps. 0 < p \<and> Lcm (set ps) * p \<le> int_max"
  shows "calculate_lcm ps = Inr (Lcm (set ps))"
  by (rule calculate_lcm_ok [OF assms])

lemma shipped_lcm: "Lcm {30, 35, 50, 100 :: int} = 2100"
proof -
  have "lcm (50::int) 100 = 100" "lcm (35::int) 100 = 700" "lcm (30::int) 700 = 2100"
    by (simp_all add: lcm_int_def lcm_nat_def gcd_non_0_nat)
  then show ?thesis by simp
qed

theorem calculate_lcm_correct_witness: "calculate_lcm [30, 30, 30, 35, 50, 100, 100] = Inr 2100"
proof -
  have "calculate_lcm [30, 30, 30, 35, 50, 100, 100] = Inr (Lcm (set [30, 30, 30, 35, 50, 100, 100]))"
    by (rule calculate_lcm_correct) (use shipped_lcm in \<open>auto simp: NUM_OF_TASK_def int_max_def\<close>)
  then show ?thesis using shipped_lcm by simp
qed

text \<open>The multiplication before the division in \<open>C_lcm\<close> overflows an \<open>int\<close> although the
  least common multiple is small: for two periods of 60000 ticks it is 60000.\<close>

theorem C_lcm_overflows_early: "C_lcm 60000 60000 = Inl IntOverflow \<and> lcm 60000 60000 = (60000 :: int)"
  by (simp add: C_lcm_overflow int_max_def)

section \<open>Concrete task sets\<close>

text \<open>The shipped task set is partitioned without a fault: task 4 is heavy and
  pre-assigned to core 1, tasks 6, 5, 3, 2, 1 and the body of task 0 fill core 0 to the bound,
  and the tail of task 0, in the extra entry 7, goes to core 1.\<close>

theorem shipped_partition:
  "\<exists>s'. main_spa2 pow_w mk_w (globals task_list_init) = Inr s' \<and> curr_idx s' = 8 \<and>
     pinned (kcalls s') = map (\<lambda>(i, m). (my_ptr (task_list s' ! i), m))
       [(4, Core1), (6, Core0), (5, Core0), (3, Core0), (2, Core0), (1, Core0), (0, Core0), (7, Core1)] \<and>
     map C_Utilization (core_list s') = [Fin 519965323161646000414422532670994671659384832,
                                          Fin 518527332414333979585134244501813948168798208] \<and>
     map Runtime (task_list s') = [2, 2, 3, 8, 36, 12, 12, 1] \<and> Period (task_list s' ! 7) = 30"
  by (rule exI [of _ shipped_final]) (simp add: shipped_run, simp add: shipped_final_def Core0_def Core1_def)

text \<open>The split of the shipped set overloads core 1.  Execution times are whole numbers of
  ticks, so the tail of task 0 runs 1 of 30 ticks although its recorded utilisation is less
  than a hundredth; with the 36 of 50 ticks of task 4 the load of core 1 is above the bound,
  while the recorded load is below it.\<close>

theorem shipped_split_exceeds_bound:
  "\<exists>s' b k u. main_spa2 pow_w mk_w (globals task_list_init) = Inr s' \<and> get_Utilization pow_w = Fin b \<and>
     C_Utilization (core_list s' ! 1) = Fin k \<and> k \<le> b \<and> Utilization (task_list s' ! 7) = Fin u \<and>
     100 * u < 2 ^ 149 \<and> unat (Runtime (task_list s' ! 7)) = 1 \<and> Period (task_list s' ! 7) = 30 \<and>
     real (unat (Runtime (task_list s' ! 4))) / real (unat (Period (task_list s' ! 4))) +
       real (unat (Runtime (task_list s' ! 7))) / real (unat (Period (task_list s' ! 7))) > real_of_int b / 2 ^ 149"
  by (rule exI [of _ shipped_final], rule exI [of _ 519965323161646000414422532670994671659384832],
      rule exI [of _ 518527332414333979585134244501813948168798208],
      rule exI [of _ 4718126672510457728853012851834529800781824])
    (simp add: shipped_run shipped_bound, simp add: shipped_final_def)

text \<open>C36: Whenever the pre-assignment has given every core a heavy task, \<open>main\<close> faults: the
  core stack is empty, tasks are still waiting on the task stack, and the first round of the
  normal assignment reads the element below the empty core stack, because \<open>get_min_core\<close> has
  no check for an empty stack.  Two heavy and five light tasks suffice.\<close>

theorem every_core_heavy_out_of_bounds:
  assumes "admissible pow tab b"
    and "init_task pow mk (at_init_task tab) = Inr (ub, s1)"
    and "pre_assign [0..<NUM_OF_TASK] (before_loops ub s1) = Inr s3"
    and "\<forall>c < configNUMBER_OF_CORES. pre_assigned (core_list s3 ! c)"
  shows "c_top (core_manager s3) = -1 \<and> t_contents (UQ s3) \<noteq> [] \<and>
    get_min_core (core_list s3) (core_manager s3) = Inl OutOfBounds \<and>
    main_spa2 pow mk (globals tab) = Inl OutOfBounds"
  using all_pre_assigned [OF before_loops_inv [OF assms(1-3)] assms(4)] all_pre_assigned_fault [OF assms]
  by simp

lemma admissible_two_heavy: "admissible pow_w two_heavy 519965323161646000414422532670994671659384832"
proof -
  have "fp_le (task_util (two_heavy ! i)) (Fin 519965323161646000414422532670994671659384832)"
    if "i < NUM_OF_TASK" for i
  proof -
    have "i \<in> {0, 1, 2, 3, 4, 5, 6}" using that by (auto simp: NUM_OF_TASK_def)
    then show ?thesis
      by (auto simp: two_heavy_def mk_entry_def task_util_def of_int_eval other_rnd)
  qed
  then show ?thesis
    by (simp add: admissible_def shipped_bound two_heavy_def MAX_NUM_TASKS_def NUM_OF_TASK_def
        configNUMBER_OF_CORES_def)
qed

theorem every_core_heavy_out_of_bounds_witness:
  "c_top (core_manager two_heavy_pre) = -1 \<and> t_contents (UQ two_heavy_pre) \<noteq> [] \<and>
    get_min_core (core_list two_heavy_pre) (core_manager two_heavy_pre) = Inl OutOfBounds \<and>
    main_spa2 pow_w mk_w (globals two_heavy) = Inl OutOfBounds"
  by (rule every_core_heavy_out_of_bounds [OF admissible_two_heavy two_heavy_start])
    (simp add: two_heavy_loops two_heavy_pre_assign,
     simp add: two_heavy_pre_def configNUMBER_OF_CORES_def less_2_cases_iff)

text \<open>A task set that does not fit makes the partitioner follow a null pointer instead of
  reporting that all processors are fully utilised: the second split finds no table entry, and
  \<open>Task_split\<close> does not check for NULL.\<close>

theorem overload_null_pointer: "main_spa2 pow_w mk_w (globals overload) = Inl NullDeref"
  by (rule overload_fault)

end
