(* ===== verification/ListImpl.thy ===== *)
theory ListImpl
  imports Prelude
begin

text \<open>
  \<open>FreeRTOS-Kernel/list.c\<close> and the access macros of \<open>list.h\<close>: the intrusive circular doubly
  linked lists all kernel objects are kept in, at pointer level.

  A \<open>ListItem_t *\<close> is a node: the end marker inside a \<open>List_t\<close> or an item; the heap maps
  nodes to their fields and list identifiers to the other fields of \<open>List_t\<close>.  Integrity
  check bytes are configured out and \<open>configASSERT\<close> is empty.  \<open>list_rep h l xs\<close> says that
  the list \<open>l\<close> is well formed and holds the items \<open>xs\<close> in this order; the lemmas show that
  the operations refine insertion at the end, ordered insertion and removal on \<open>xs\<close> and
  leave every other list alone.
\<close>

section \<open>Data\<close>

datatype node = End nat | Item nat

record list_item =
  xItemValue :: u32
  pxNext :: "node option"
  pxPrevious :: "node option"
  pvOwner :: ptr
  pxContainer :: ptr

record list_hdr =
  uxNumberOfItems :: u32
  pxIndex :: "node option"

record lheap =
  nodes :: "node \<Rightarrow> list_item"
  hdrs :: "nat \<Rightarrow> list_hdr"

definition portMAX_DELAY :: u32 where "portMAX_DELAY = 0xffffffff"

definition upd_node :: "node \<Rightarrow> (list_item \<Rightarrow> list_item) \<Rightarrow> lheap \<Rightarrow> lheap" where
  "upd_node n f h = h\<lparr>nodes := (nodes h)(n := f (nodes h n))\<rparr>"

definition upd_hdr :: "nat \<Rightarrow> (list_hdr \<Rightarrow> list_hdr) \<Rightarrow> lheap \<Rightarrow> lheap" where
  "upd_hdr l f h = h\<lparr>hdrs := (hdrs h)(l := f (hdrs h l))\<rparr>"

definition follow :: "'a option \<Rightarrow> fault + 'a" where
  "follow p = (case p of None \<Rightarrow> Inl NullDeref | Some n \<Rightarrow> Inr n)"

lemma follow_Some [simp]: "follow (Some n) = Inr n"
  by (simp add: follow_def)

section \<open>Operations\<close>

definition vListInitialise :: "nat \<Rightarrow> lheap \<Rightarrow> lheap" where
  "vListInitialise l h =
     (let h1 = upd_hdr l (\<lambda>x. x\<lparr>pxIndex := Some (End l)\<rparr>) h;
          h2 = upd_node (End l) (\<lambda>n. n\<lparr>xItemValue := portMAX_DELAY\<rparr>) h1;
          h3 = upd_node (End l) (\<lambda>n. n\<lparr>pxNext := Some (End l), pxPrevious := Some (End l)\<rparr>) h2;
          h4 = upd_node (End l) (\<lambda>n. n\<lparr>pvOwner := None, pxContainer := None\<rparr>) h3
      in upd_hdr l (\<lambda>x. x\<lparr>uxNumberOfItems := 0\<rparr>) h4)"

definition vListInitialiseItem :: "nat \<Rightarrow> lheap \<Rightarrow> lheap" where
  "vListInitialiseItem i = upd_node (Item i) (\<lambda>n. n\<lparr>pxContainer := None\<rparr>)"

definition listSET_LIST_ITEM_OWNER :: "nat \<Rightarrow> ptr \<Rightarrow> lheap \<Rightarrow> lheap" where
  "listSET_LIST_ITEM_OWNER i ow = upd_node (Item i) (\<lambda>n. n\<lparr>pvOwner := ow\<rparr>)"

definition listSET_LIST_ITEM_VALUE :: "nat \<Rightarrow> u32 \<Rightarrow> lheap \<Rightarrow> lheap" where
  "listSET_LIST_ITEM_VALUE i v = upd_node (Item i) (\<lambda>n. n\<lparr>xItemValue := v\<rparr>)"

definition vListInsertEnd :: "nat \<Rightarrow> nat \<Rightarrow> lheap \<Rightarrow> fault + lheap" where
  "vListInsertEnd l i h =
     bindE (follow (pxIndex (hdrs h l))) (\<lambda>ix.
       let h1 = upd_node (Item i) (\<lambda>n. n\<lparr>pxNext := Some ix\<rparr>) h;
           h2 = upd_node (Item i) (\<lambda>n. n\<lparr>pxPrevious := pxPrevious (nodes h1 ix)\<rparr>) h1
       in bindE (follow (pxPrevious (nodes h2 ix))) (\<lambda>pv.
       let h3 = upd_node pv (\<lambda>n. n\<lparr>pxNext := Some (Item i)\<rparr>) h2;
           h4 = upd_node ix (\<lambda>n. n\<lparr>pxPrevious := Some (Item i)\<rparr>) h3;
           h5 = upd_node (Item i) (\<lambda>n. n\<lparr>pxContainer := Some l\<rparr>) h4
       in Inr (upd_hdr l (\<lambda>x. x\<lparr>uxNumberOfItems := uxNumberOfItems x + 1\<rparr>) h5)))"

text \<open>
  The loop of \<open>vListInsert\<close> ends only if a node with a larger value is reached; \<^term>\<open>None\<close>
  is a call that does not return.
\<close>

partial_function (option) insert_pos :: "lheap \<Rightarrow> u32 \<Rightarrow> node \<Rightarrow> (fault + node) option" where
  "insert_pos h v it = (case pxNext (nodes h it) of
     None \<Rightarrow> Some (Inl NullDeref)
   | Some nx \<Rightarrow> if xItemValue (nodes h nx) \<le> v then insert_pos h v nx else Some (Inr it))"

definition vListInsert :: "nat \<Rightarrow> nat \<Rightarrow> lheap \<Rightarrow> (fault + lheap) option" where
  "vListInsert l i h =
     (let v = xItemValue (nodes h (Item i)) in
      case (if v = portMAX_DELAY then Some (follow (pxPrevious (nodes h (End l))))
            else insert_pos h v (End l)) of
        None \<Rightarrow> None
      | Some r \<Rightarrow> Some (bindE r (\<lambda>it.
          let h1 = upd_node (Item i) (\<lambda>n. n\<lparr>pxNext := pxNext (nodes h it)\<rparr>) h
          in bindE (follow (pxNext (nodes h1 (Item i)))) (\<lambda>nx.
          let h2 = upd_node nx (\<lambda>n. n\<lparr>pxPrevious := Some (Item i)\<rparr>) h1;
              h3 = upd_node (Item i) (\<lambda>n. n\<lparr>pxPrevious := Some it\<rparr>) h2;
              h4 = upd_node it (\<lambda>n. n\<lparr>pxNext := Some (Item i)\<rparr>) h3;
              h5 = upd_node (Item i) (\<lambda>n. n\<lparr>pxContainer := Some l\<rparr>) h4
          in Inr (upd_hdr l (\<lambda>x. x\<lparr>uxNumberOfItems := uxNumberOfItems x + 1\<rparr>) h5)))))"

definition uxListRemove :: "nat \<Rightarrow> lheap \<Rightarrow> fault + (u32 \<times> lheap)" where
  "uxListRemove i h =
     bindE (follow (pxContainer (nodes h (Item i)))) (\<lambda>l.
     bindE (follow (pxNext (nodes h (Item i)))) (\<lambda>nx.
     let h1 = upd_node nx (\<lambda>n. n\<lparr>pxPrevious := pxPrevious (nodes h (Item i))\<rparr>) h
     in bindE (follow (pxPrevious (nodes h1 (Item i)))) (\<lambda>pv.
     let h2 = upd_node pv (\<lambda>n. n\<lparr>pxNext := pxNext (nodes h1 (Item i))\<rparr>) h1;
         h3 = (if pxIndex (hdrs h2 l) = Some (Item i)
               then upd_hdr l (\<lambda>x. x\<lparr>pxIndex := pxPrevious (nodes h2 (Item i))\<rparr>) h2 else h2);
         h4 = upd_node (Item i) (\<lambda>n. n\<lparr>pxContainer := None\<rparr>) h3;
         h5 = upd_hdr l (\<lambda>x. x\<lparr>uxNumberOfItems := uxNumberOfItems x - 1\<rparr>) h4
     in Inr (uxNumberOfItems (hdrs h5 l), h5))))"

section \<open>Access macros\<close>

definition listLIST_IS_EMPTY :: "nat \<Rightarrow> lheap \<Rightarrow> bool" where
  "listLIST_IS_EMPTY l h = (uxNumberOfItems (hdrs h l) = 0)"

definition listCURRENT_LIST_LENGTH :: "nat \<Rightarrow> lheap \<Rightarrow> u32" where
  "listCURRENT_LIST_LENGTH l h = uxNumberOfItems (hdrs h l)"

definition listGET_HEAD_ENTRY :: "nat \<Rightarrow> lheap \<Rightarrow> node option" where
  "listGET_HEAD_ENTRY l h = pxNext (nodes h (End l))"

definition listGET_ITEM_VALUE_OF_HEAD_ENTRY :: "nat \<Rightarrow> lheap \<Rightarrow> fault + u32" where
  "listGET_ITEM_VALUE_OF_HEAD_ENTRY l h =
     bindE (follow (pxNext (nodes h (End l)))) (\<lambda>n. Inr (xItemValue (nodes h n)))"

definition listGET_OWNER_OF_HEAD_ENTRY :: "nat \<Rightarrow> lheap \<Rightarrow> fault + ptr" where
  "listGET_OWNER_OF_HEAD_ENTRY l h =
     bindE (follow (pxNext (nodes h (End l)))) (\<lambda>n. Inr (pvOwner (nodes h n)))"

definition listIS_CONTAINED_WITHIN :: "nat \<Rightarrow> nat \<Rightarrow> lheap \<Rightarrow> bool" where
  "listIS_CONTAINED_WITHIN l i h = (pxContainer (nodes h (Item i)) = Some l)"

definition listLIST_IS_INITIALISED :: "nat \<Rightarrow> lheap \<Rightarrow> bool" where
  "listLIST_IS_INITIALISED l h = (xItemValue (nodes h (End l)) = portMAX_DELAY)"

section \<open>Chains of nodes\<close>

fun linked :: "lheap \<Rightarrow> node \<Rightarrow> node list \<Rightarrow> node \<Rightarrow> bool" where
  "linked h a [] b \<longleftrightarrow> pxNext (nodes h a) = Some b \<and> pxPrevious (nodes h b) = Some a"
| "linked h a (x # xs) b \<longleftrightarrow>
     pxNext (nodes h a) = Some x \<and> pxPrevious (nodes h x) = Some a \<and> linked h x xs b"

lemma linked_cong:
  assumes "\<forall>x \<in> set (a # xs). pxNext (nodes h' x) = pxNext (nodes h x)"
    "\<forall>x \<in> set (b # xs). pxPrevious (nodes h' x) = pxPrevious (nodes h x)"
  shows "linked h' a xs b = linked h a xs b"
  using assms by (induction xs arbitrary: a) auto

lemma linked_split:
  "linked h a (us @ vs) b \<Longrightarrow>
     pxNext (nodes h (last (a # us))) = Some (hd (vs @ [b])) \<and>
     pxPrevious (nodes h (hd (vs @ [b]))) = Some (last (a # us))"
  by (induction us arbitrary: a) (cases vs; auto)+

text \<open>Linking a node in between two neighbours, and linking a node out.\<close>

lemma linked_insert:
  assumes "linked h a (us @ vs) b" "distinct (a # us @ vs)" "n \<notin> set (a # b # us @ vs)" "b \<notin> set (us @ vs)"
    "\<forall>x. pxNext (nodes h' x) =
       (if x = n then Some (hd (vs @ [b])) else if x = last (a # us) then Some n else pxNext (nodes h x))"
    "\<forall>x. pxPrevious (nodes h' x) =
       (if x = n then Some (last (a # us)) else if x = hd (vs @ [b]) then Some n else pxPrevious (nodes h x))"
  shows "linked h' a (us @ n # vs) b"
  using assms
proof (induction us arbitrary: a)
  case Nil
  show ?case
  proof (cases vs)
    case Nil
    with Nil.prems show ?thesis by auto
  next
    case (Cons v vs')
    have "linked h' v vs' b = linked h v vs' b"
      using Nil.prems Cons by (intro linked_cong) auto
    with Nil.prems Cons show ?thesis by auto
  qed
next
  case (Cons u us)
  have "last (a # u # us) = last (u # us)" by simp
  moreover have "a \<noteq> last (u # us)" using Cons.prems(2) last_in_set [of "u # us"] by auto
  moreover have "u \<noteq> hd (vs @ [b])" using Cons.prems(2,4) by (cases vs) auto
  ultimately show ?case using Cons.prems Cons.IH [of u] by auto
qed

lemma linked_remove:
  assumes "linked h a (us @ x # vs) b" "distinct (a # us @ x # vs)" "b \<notin> set (us @ x # vs)"
    "\<forall>y. pxNext (nodes h' y) = (if y = last (a # us) then Some (hd (vs @ [b])) else pxNext (nodes h y))"
    "\<forall>y. pxPrevious (nodes h' y) = (if y = hd (vs @ [b]) then Some (last (a # us)) else pxPrevious (nodes h y))"
  shows "linked h' a (us @ vs) b"
  using assms
proof (induction us arbitrary: a)
  case Nil
  show ?case
  proof (cases vs)
    case Nil
    with Nil.prems show ?thesis by auto
  next
    case (Cons v vs')
    have "linked h' v vs' b = linked h v vs' b"
      using Nil.prems Cons by (intro linked_cong) auto
    with Nil.prems Cons show ?thesis by auto
  qed
next
  case (Cons u us)
  have "last (a # u # us) = last (u # us)" by simp
  moreover have "a \<noteq> last (u # us)" using Cons.prems(2) last_in_set [of "u # us"] by auto
  moreover have "u \<noteq> hd (vs @ [b])" using Cons.prems(2,3) by (cases vs) auto
  ultimately show ?case using Cons.prems Cons.IH [of u] by auto
qed

section \<open>Well-formed lists\<close>

definition list_rep :: "lheap \<Rightarrow> nat \<Rightarrow> nat list \<Rightarrow> bool" where
  "list_rep h l xs \<longleftrightarrow> distinct xs \<and> length xs < 2 ^ 32 \<and>
     linked h (End l) (map Item xs) (End l) \<and> pxIndex (hdrs h l) = Some (End l) \<and>
     uxNumberOfItems (hdrs h l) = of_nat (length xs) \<and>
     (\<forall>i \<in> set xs. pxContainer (nodes h (Item i)) = Some l) \<and>
     xItemValue (nodes h (End l)) = portMAX_DELAY"

text \<open>What an operation leaves alone: values and owners, and the lists it does not touch.\<close>

definition keeps :: "nat \<Rightarrow> nat \<Rightarrow> lheap \<Rightarrow> lheap \<Rightarrow> bool" where
  "keeps l i h h' \<longleftrightarrow>
     (\<forall>n. xItemValue (nodes h' n) = xItemValue (nodes h n) \<and> pvOwner (nodes h' n) = pvOwner (nodes h n)) \<and>
     (\<forall>l' ys. l' \<noteq> l \<longrightarrow> i \<notin> set ys \<longrightarrow> list_rep h l' ys \<longrightarrow> list_rep h' l' ys)"

lemma list_rep_frame:
  assumes "list_rep h l ys" "\<forall>n \<in> set (End l # map Item ys). nodes h' n = nodes h n" "hdrs h' l = hdrs h l"
  shows "list_rep h' l ys"
proof -
  have "linked h' (End l) (map Item ys) (End l) = linked h (End l) (map Item ys) (End l)"
    using assms(2) by (intro linked_cong) auto
  then show ?thesis using assms by (simp add: list_rep_def)
qed

lemma keepsI:
  assumes rep: "list_rep h l xs"
    and val: "\<forall>n. xItemValue (nodes h' n) = xItemValue (nodes h n) \<and> pvOwner (nodes h' n) = pvOwner (nodes h n)"
    and out: "\<forall>n. n \<notin> insert (End l) (insert (Item i) (Item ` set xs)) \<longrightarrow> nodes h' n = nodes h n"
    and hdr: "\<forall>l'. l' \<noteq> l \<longrightarrow> hdrs h' l' = hdrs h l'"
  shows "keeps l i h h'"
  unfolding keeps_def
proof (intro conjI allI impI)
  fix l' ys assume a: "l' \<noteq> l" "i \<notin> set ys" "list_rep h l' ys"
  have "set xs \<inter> set ys = {}" using rep a(1,3) by (fastforce simp: list_rep_def)
  then show "list_rep h' l' ys" using a out hdr by (intro list_rep_frame [OF a(3)]) auto
qed (use val in auto)

lemma list_rep_prev:
  "list_rep h l xs \<Longrightarrow> pxPrevious (nodes h (End l)) = Some (last (End l # map Item xs))"
  using linked_split [of h "End l" "map Item xs" "[]" "End l"] by (simp add: list_rep_def)

lemma list_rep_next:
  "list_rep h l xs \<Longrightarrow> pxNext (nodes h (End l)) = Some (hd (map Item xs @ [End l]))"
  using linked_split [of h "End l" "[]" "map Item xs" "End l"] by (simp add: list_rep_def)

lemma last_map_Item: "xs \<noteq> [] \<Longrightarrow> last (map Item xs) = Item (last xs)"
  by (simp add: last_map)

lemma last_node: "last (End l # map Item xs) \<in> insert (End l) (Item ` set xs)"
  using last_in_set [of "End l # map Item xs"] by simp

lemma hd_node: "hd (map Item xs @ [End l]) \<in> insert (End l) (Item ` set xs)"
  by (cases xs) auto

lemma list_rep_initialise: "list_rep (vListInitialise l h) l []"
  by (simp add: list_rep_def vListInitialise_def Let_def upd_node_def upd_hdr_def)

text \<open>The common part of both insertions: the item goes between two neighbours.\<close>

lemma list_rep_insert:
  assumes rep: "list_rep h l (us @ vs)" and i: "i \<notin> set (us @ vs)" and len: "length (us @ vs) < 2 ^ 32 - 1"
    and p: "p = last (End l # map Item us)" and q: "q = hd (map Item vs @ [End l])"
    and nx: "\<forall>x. pxNext (nodes h' x) =
       (if x = Item i then Some q else if x = p then Some (Item i) else pxNext (nodes h x))"
    and pv: "\<forall>x. pxPrevious (nodes h' x) =
       (if x = Item i then Some p else if x = q then Some (Item i) else pxPrevious (nodes h x))"
    and con: "\<forall>x. pxContainer (nodes h' x) = (if x = Item i then Some l else pxContainer (nodes h x))"
    and val: "\<forall>n. xItemValue (nodes h' n) = xItemValue (nodes h n) \<and> pvOwner (nodes h' n) = pvOwner (nodes h n)"
    and hdr: "hdrs h' = (hdrs h)(l := (hdrs h l)\<lparr>uxNumberOfItems := uxNumberOfItems (hdrs h l) + 1\<rparr>)"
    and out: "\<forall>n. n \<notin> {Item i, p, q} \<longrightarrow> nodes h' n = nodes h n"
  shows "list_rep h' l (us @ i # vs) \<and> keeps l i h h'"
proof -
  have "linked h' (End l) (map Item us @ Item i # map Item vs) (End l)"
  proof (rule linked_insert [where h = h])
    show "linked h (End l) (map Item us @ map Item vs) (End l)" using rep by (simp add: list_rep_def)
    show "distinct (End l # map Item us @ map Item vs)"
      using rep by (auto simp: list_rep_def distinct_map inj_on_def)
    show "Item i \<notin> set (End l # End l # map Item us @ map Item vs)" using i by auto
  qed (use nx pv in \<open>auto simp: p q\<close>)
  moreover have "length (us @ i # vs) < 2 ^ 32" using len by simp
  moreover have "uxNumberOfItems (hdrs h l) + 1 = of_nat (length (us @ i # vs))"
    using rep by (simp add: list_rep_def)
  ultimately have "list_rep h' l (us @ i # vs)"
    using rep i con val hdr by (simp add: list_rep_def)
  moreover have "p \<in> insert (End l) (Item ` set (us @ vs))" "q \<in> insert (End l) (Item ` set (us @ vs))"
    using last_node [of l us] hd_node [of vs l] by (auto simp: p q)
  then have "keeps l i h h'" using out val hdr by (intro keepsI [OF rep]) auto
  ultimately show ?thesis by blast
qed

lemma vListInsertEnd_ok:
  assumes rep: "list_rep h l xs" and i: "i \<notin> set xs" and len: "length xs < 2 ^ 32 - 1"
  shows "\<exists>h'. vListInsertEnd l i h = Inr h' \<and> list_rep h' l (xs @ [i]) \<and> keeps l i h h'"
proof -
  define p where "p = last (End l # map Item xs)"
  have pv: "pxPrevious (nodes h (End l)) = Some p" using list_rep_prev [OF rep] by (simp add: p_def)
  have ix: "pxIndex (hdrs h l) = Some (End l)" using rep by (simp add: list_rep_def)
  have pi: "p \<noteq> Item i" using last_node [of l xs] i by (auto simp: p_def)
  obtain h' where h': "vListInsertEnd l i h = Inr h'"
    "h' = upd_hdr l (\<lambda>x. x\<lparr>uxNumberOfItems := uxNumberOfItems x + 1\<rparr>)
      (upd_node (Item i) (\<lambda>n. n\<lparr>pxContainer := Some l\<rparr>) (upd_node (End l) (\<lambda>n. n\<lparr>pxPrevious := Some (Item i)\<rparr>)
      (upd_node p (\<lambda>n. n\<lparr>pxNext := Some (Item i)\<rparr>) (upd_node (Item i) (\<lambda>n. n\<lparr>pxPrevious := Some p\<rparr>)
      (upd_node (Item i) (\<lambda>n. n\<lparr>pxNext := Some (End l)\<rparr>) h)))))"
    using pv ix by (simp add: vListInsertEnd_def Let_def upd_node_def)
  have "list_rep h' l (xs @ i # []) \<and> keeps l i h h'"
    by (rule list_rep_insert [where h = h and p = p and q = "End l"])
      (use rep i len pi in \<open>auto simp: h'(2) p_def upd_node_def upd_hdr_def\<close>)
  with h'(1) show ?thesis by auto
qed

section \<open>Ordered insertion\<close>

definition item_value :: "lheap \<Rightarrow> nat \<Rightarrow> u32" where
  "item_value h i = xItemValue (nodes h (Item i))"

text \<open>The abstract insertion: after all items whose value is not larger, up to the first larger one.\<close>

definition insert_after_le :: "(nat \<Rightarrow> u32) \<Rightarrow> nat \<Rightarrow> nat list \<Rightarrow> nat list" where
  "insert_after_le val i xs = takeWhile (\<lambda>j. val j \<le> val i) xs @ i # dropWhile (\<lambda>j. val j \<le> val i) xs"

lemma le_portMAX_DELAY: "x \<le> portMAX_DELAY"
  using uint_lt2p [of x] by (simp add: portMAX_DELAY_def word_le_def)

lemma insert_pos_ok:
  assumes "linked h a (map Item xs) (End l)" "v < xItemValue (nodes h (End l))"
  shows "insert_pos h v a = Some (Inr (last (a # map Item (takeWhile (\<lambda>j. item_value h j \<le> v) xs))))"
  using assms
proof (induction xs arbitrary: a)
  case Nil
  then show ?case by (auto simp: insert_pos.simps [of h v a])
next
  case (Cons x xs)
  then show ?case by (simp add: insert_pos.simps [of h v a] item_value_def)
qed

lemma last_takeWhile_node:
  "last (End l # map Item (takeWhile P xs)) = Item i \<Longrightarrow> i \<in> set xs"
  using last_node [of l "takeWhile P xs"] by (auto dest: set_takeWhileD)

lemma vListInsert_ok:
  assumes rep: "list_rep h l xs" and i: "i \<notin> set xs" and len: "length xs < 2 ^ 32 - 1"
  shows "\<exists>h'. vListInsert l i h = Some (Inr h') \<and>
    list_rep h' l (insert_after_le (item_value h) i xs) \<and> keeps l i h h'"
proof -
  define v where "v = xItemValue (nodes h (Item i))"
  define us vs where "us = takeWhile (\<lambda>j. item_value h j \<le> v) xs" and "vs = dropWhile (\<lambda>j. item_value h j \<le> v) xs"
  have xs: "xs = us @ vs" by (simp add: us_def vs_def)
  define p q where "p = last (End l # map Item us)" and "q = hd (map Item vs @ [End l])"
  have top: "xItemValue (nodes h (End l)) = portMAX_DELAY" using rep by (simp add: list_rep_def)
  have pos: "(if v = portMAX_DELAY then Some (follow (pxPrevious (nodes h (End l)))) else insert_pos h v (End l)) =
      Some (Inr p)"
  proof (cases "v = portMAX_DELAY")
    case True
    then have "us = xs" unfolding us_def by (simp add: takeWhile_eq_all_conv le_portMAX_DELAY)
    with True show ?thesis using list_rep_prev [OF rep] by (simp add: p_def)
  next
    case False
    have "v < portMAX_DELAY" using False le_portMAX_DELAY [of v] by simp
    moreover have "linked h (End l) (map Item xs) (End l)" using rep by (simp add: list_rep_def)
    ultimately show ?thesis using insert_pos_ok [of h "End l" xs l v] top False by (simp add: p_def us_def)
  qed
  have lk: "pxNext (nodes h p) = Some q" "pxPrevious (nodes h q) = Some p"
    using linked_split [of h "End l" "map Item us" "map Item vs" "End l"] rep
    by (simp_all add: list_rep_def xs p_def q_def)
  have ne: "p \<noteq> Item i" "q \<noteq> Item i"
    using last_node [of l us] hd_node [of vs l] i by (auto simp: p_def q_def xs)
  obtain h' where h': "vListInsert l i h = Some (Inr h')"
    "h' = upd_hdr l (\<lambda>x. x\<lparr>uxNumberOfItems := uxNumberOfItems x + 1\<rparr>)
      (upd_node (Item i) (\<lambda>n. n\<lparr>pxContainer := Some l\<rparr>) (upd_node p (\<lambda>n. n\<lparr>pxNext := Some (Item i)\<rparr>)
      (upd_node (Item i) (\<lambda>n. n\<lparr>pxPrevious := Some p\<rparr>) (upd_node q (\<lambda>n. n\<lparr>pxPrevious := Some (Item i)\<rparr>)
      (upd_node (Item i) (\<lambda>n. n\<lparr>pxNext := Some q\<rparr>) h)))))"
    using pos [unfolded v_def] lk by (simp add: vListInsert_def Let_def upd_node_def)
  have "list_rep h' l (us @ i # vs) \<and> keeps l i h h'"
    by (rule list_rep_insert [where h = h and p = p and q = q])
      (use rep i len ne in \<open>auto simp: h'(2) xs p_def q_def upd_node_def upd_hdr_def\<close>)
  with h'(1) show ?thesis by (auto simp: insert_after_le_def item_value_def us_def vs_def v_def)
qed

lemma sorted_insert_after_le:
  assumes "sorted (map val xs)"
  shows "sorted (map val (insert_after_le val i xs))"
proof -
  have "\<forall>y \<in> set (dropWhile (\<lambda>j. val j \<le> val i) xs). val i \<le> val y"
    using assms
  proof (induction xs)
    case (Cons x xs)
    show ?case
    proof (cases "val x \<le> val i")
      case True
      with Cons show ?thesis by simp
    next
      case False
      with Cons.prems show ?thesis by fastforce
    qed
  qed simp
  moreover have "\<forall>x \<in> set (takeWhile (\<lambda>j. val j \<le> val i) xs). val x \<le> val i"
    by (auto dest: set_takeWhileD)
  moreover have "sorted (map val (takeWhile (\<lambda>j. val j \<le> val i) xs))"
    "sorted (map val (dropWhile (\<lambda>j. val j \<le> val i) xs))"
    using assms by (metis map_append sorted_append takeWhile_dropWhile_id)+
  ultimately show ?thesis
    by (simp add: insert_after_le_def sorted_append) (metis order_trans)
qed

lemma set_insert_after_le: "set (insert_after_le val i xs) = insert i (set xs)"
  by (simp add: insert_after_le_def) (metis set_append takeWhile_dropWhile_id)

section \<open>Removal\<close>

lemma uxListRemove_ok:
  assumes rep: "list_rep h l (us @ i # vs)"
  shows "\<exists>h'. uxListRemove i h = Inr (of_nat (length (us @ vs)), h') \<and> list_rep h' l (us @ vs) \<and>
    keeps l i h h' \<and> pxContainer (nodes h' (Item i)) = None"
proof -
  define p q where "p = last (End l # map Item us)" and "q = hd (map Item vs @ [End l])"
  have L: "linked h (End l) (map Item us @ Item i # map Item vs) (End l)" using rep by (simp add: list_rep_def)
  have ip: "pxPrevious (nodes h (Item i)) = Some p"
    using linked_split [of h "End l" "map Item us" "Item i # map Item vs" "End l"] L by (simp add: p_def)
  have inx: "pxNext (nodes h (Item i)) = Some q"
    using linked_split [of h "End l" "map Item us @ [Item i]" "map Item vs" "End l"] L by (simp add: q_def)
  have con: "pxContainer (nodes h (Item i)) = Some l" "pxIndex (hdrs h l) = Some (End l)"
    using rep by (auto simp: list_rep_def)
  have i: "i \<notin> set us" "i \<notin> set vs" using rep by (auto simp: list_rep_def)
  have ne: "p \<noteq> Item i" "q \<noteq> Item i"
    using last_node [of l us] hd_node [of vs l] i by (auto simp: p_def q_def)
  define h' where "h' = upd_hdr l (\<lambda>x. x\<lparr>uxNumberOfItems := uxNumberOfItems x - 1\<rparr>)
      (upd_node (Item i) (\<lambda>n. n\<lparr>pxContainer := None\<rparr>) (upd_node p (\<lambda>n. n\<lparr>pxNext := Some q\<rparr>)
      (upd_node q (\<lambda>n. n\<lparr>pxPrevious := Some p\<rparr>) h)))"
  have r: "uxListRemove i h = Inr (uxNumberOfItems (hdrs h' l), h')"
    using ip inx con ne by (simp add: uxListRemove_def Let_def upd_node_def upd_hdr_def h'_def)
  have n: "uxNumberOfItems (hdrs h' l) = of_nat (length (us @ vs))"
    using rep by (simp add: list_rep_def h'_def upd_hdr_def upd_node_def)
  have "linked h' (End l) (map Item us @ map Item vs) (End l)"
  proof (rule linked_remove [OF L])
    show "distinct (End l # map Item us @ Item i # map Item vs)"
      using rep by (auto simp: list_rep_def distinct_map inj_on_def)
  qed (use ne in \<open>auto simp: h'_def upd_node_def upd_hdr_def p_def q_def\<close>)
  moreover have "p \<in> insert (End l) (Item ` set (us @ i # vs))" "q \<in> insert (End l) (Item ` set (us @ i # vs))"
    using last_node [of l us] hd_node [of vs l] by (auto simp: p_def q_def)
  then have "keeps l i h h'"
    by (intro keepsI [OF rep]) (auto simp: h'_def upd_node_def upd_hdr_def)
  moreover have "\<forall>j \<in> set (us @ vs). pxContainer (nodes h' (Item j)) = Some l"
    using rep i by (auto simp: list_rep_def h'_def upd_node_def upd_hdr_def)
  moreover have "xItemValue (nodes h' (End l)) = portMAX_DELAY" "pxIndex (hdrs h' l) = Some (End l)"
    using rep by (auto simp: list_rep_def h'_def upd_node_def upd_hdr_def)
  ultimately have "list_rep h' l (us @ vs)"
    using rep n by (simp add: list_rep_def)
  moreover have "pxContainer (nodes h' (Item i)) = None" by (simp add: h'_def upd_node_def upd_hdr_def)
  ultimately show ?thesis using r n \<open>keeps l i h h'\<close> by auto
qed

section \<open>The contract of the lists\<close>

text \<open>A concrete heap, with one empty list and items 1 to 3 of values 30, 10 and 20.\<close>

definition list_w :: lheap where
  "list_w = vListInitialise 0
     \<lparr>nodes = (\<lambda>n. \<lparr>xItemValue = (case n of Item i \<Rightarrow> [0, 30, 10, 20] ! i | End l \<Rightarrow> 0),
                    pxNext = None, pxPrevious = None, pvOwner = None, pxContainer = None\<rparr>),
      hdrs = (\<lambda>_. \<lparr>uxNumberOfItems = 0, pxIndex = None\<rparr>)\<rparr>"

lemma list_w_rep: "list_rep list_w 0 []"
  unfolding list_w_def by (rule list_rep_initialise)

text \<open>In a well-formed list, whose \<open>pxIndex\<close> is the end marker as in every SMP build,
  \<open>vListInsertEnd\<close> appends the item, counts it, and leaves all values, owners and other lists
  alone.\<close>

theorem vListInsertEnd_appends:
  assumes "list_rep h l xs" "i \<notin> set xs" "length xs < 2 ^ 32 - 1"
  shows "\<exists>h'. vListInsertEnd l i h = Inr h' \<and> list_rep h' l (xs @ [i]) \<and> keeps l i h h'"
  by (rule vListInsertEnd_ok [OF assms])

theorem vListInsertEnd_appends_witness:
  "\<exists>h'. vListInsertEnd 0 1 list_w = Inr h' \<and> list_rep h' 0 ([] @ [1]) \<and> keeps 0 1 list_w h'"
  by (rule vListInsertEnd_appends [OF list_w_rep]) simp_all

text \<open>C30: \<open>vListInsert\<close> returns on every well-formed list, for every value including
  \<open>portMAX_DELAY\<close>, and keeps an ordered list ordered, the new item after those of equal value.\<close>

theorem vListInsert_ordered:
  assumes "list_rep h l xs" "i \<notin> set xs" "length xs < 2 ^ 32 - 1" "sorted (map (item_value h) xs)"
  shows "\<exists>h' ys. vListInsert l i h = Some (Inr h') \<and> list_rep h' l ys \<and>
    ys = insert_after_le (item_value h) i xs \<and> set ys = insert i (set xs) \<and>
    sorted (map (item_value h') ys) \<and> keeps l i h h'"
proof -
  obtain h' where h': "vListInsert l i h = Some (Inr h')"
    "list_rep h' l (insert_after_le (item_value h) i xs)" "keeps l i h h'"
    using vListInsert_ok [OF assms(1-3)] by blast
  have "item_value h' = item_value h" using h'(3) by (auto simp: keeps_def item_value_def)
  then show ?thesis
    using h' sorted_insert_after_le [OF assms(4)] set_insert_after_le [of "item_value h" i xs] by auto
qed

theorem vListInsert_ordered_witness:
  "\<exists>h' ys. vListInsert 0 2 list_w = Some (Inr h') \<and> list_rep h' 0 ys \<and>
    ys = insert_after_le (item_value list_w) 2 [] \<and> set ys = insert 2 (set []) \<and>
    sorted (map (item_value h') ys) \<and> keeps 0 2 list_w h'"
  by (rule vListInsert_ordered [OF list_w_rep]) simp_all

text \<open>\<open>uxListRemove\<close> takes an item out of the list it is in, wherever it stands, returns the
  number of items left, clears the item's container and leaves all other lists alone.\<close>

theorem uxListRemove_unlinks:
  assumes "list_rep h l (us @ i # vs)"
  shows "\<exists>h'. uxListRemove i h = Inr (of_nat (length (us @ vs)), h') \<and> list_rep h' l (us @ vs) \<and>
    keeps l i h h' \<and> \<not> listIS_CONTAINED_WITHIN l i h'"
  using uxListRemove_ok [OF assms] by (auto simp: listIS_CONTAINED_WITHIN_def)

theorem uxListRemove_unlinks_witness:
  "\<exists>h1 h2. vListInsertEnd 0 1 list_w = Inr h1 \<and> uxListRemove 1 h1 = Inr (of_nat (length ([] @ [])), h2) \<and>
     list_rep h2 0 ([] @ []) \<and> keeps 0 1 h1 h2 \<and> \<not> listIS_CONTAINED_WITHIN 0 1 h2"
proof -
  obtain h1 where "vListInsertEnd 0 1 list_w = Inr h1" "list_rep h1 0 ([] @ 1 # [])"
    using vListInsertEnd_ok [OF list_w_rep, of 1] by auto
  then show ?thesis using uxListRemove_unlinks [of h1 0 "[]" 1 "[]"] by auto
qed

end
