(* ===== verification/Heap4.thy ===== *)
theory Heap4
  imports Prelude
begin

text \<open>
  \<open>FreeRTOS-Kernel/portable/MemMang/heap_4.c\<close>: the first-fit allocator with coalescing that
  holds every task control block and stack of the program.

  \<open>size_t\<close> and addresses are 32-bit numbers, written as naturals with the wrap-around
  written out; the \<open>BlockLink_t\<close> headers are a map from addresses to their two fields, and
  NULL is address 0.  The address of \<open>ucHeap\<close> and of the static \<open>xStart\<close> are fixed by the
  linker and are fields of the state.  The heap protector and the clearing of freed memory
  are configured out, \<open>configASSERT\<close> is empty, and the data bytes of the blocks are not
  modelled: the kernel only touches them through the \<open>memset\<close> of \<open>pvPortCalloc\<close>.

  \<open>heap_inv h ss\<close> says that the heap is tiled by the segments \<open>ss\<close> (size and whether it is
  allocated, from the lowest address on) and that the free list links the free ones in
  address order.  The lemmas show that allocation and release refine first fit and
  coalescing on the tiling, so that blocks never overlap and no byte is lost.
\<close>

section \<open>Data\<close>

record block_link =
  pxNextFreeBlock :: nat
  xBlockSize :: nat

record heap4 =
  ucHeap :: nat
  xStart :: nat
  mem :: "nat \<Rightarrow> block_link"
  pxEnd :: nat
  xFreeBytesRemaining :: nat
  xMinimumEverFreeBytesRemaining :: nat
  xNumberOfSuccessfulAllocations :: nat
  xNumberOfSuccessfulFrees :: nat

definition portBYTE_ALIGNMENT :: nat where "portBYTE_ALIGNMENT = 8"
definition heapSIZE_MAX :: nat where "heapSIZE_MAX = 2 ^ 32 - 1"
definition configTOTAL_HEAP_SIZE :: nat where "configTOTAL_HEAP_SIZE = 10240"

text \<open>\<open>x & 7\<close>, \<open>x & ~7\<close>, and unsigned addition and subtraction.\<close>

definition align_mask :: "nat \<Rightarrow> nat" where "align_mask x = x mod portBYTE_ALIGNMENT"
definition align_down :: "nat \<Rightarrow> nat" where "align_down x = x - x mod portBYTE_ALIGNMENT"
definition add32 :: "nat \<Rightarrow> nat \<Rightarrow> nat" where "add32 a b = (a + b) mod 2 ^ 32"
definition sub32 :: "nat \<Rightarrow> nat \<Rightarrow> nat" where "sub32 a b = (a + (2 ^ 32 - b mod 2 ^ 32)) mod 2 ^ 32"

definition xHeapStructSize :: nat where
  "xHeapStructSize = align_down (8 + (portBYTE_ALIGNMENT - 1))"

definition heapMINIMUM_BLOCK_SIZE :: nat where
  "heapMINIMUM_BLOCK_SIZE = push_bit 1 xHeapStructSize"

definition heapADD_WILL_OVERFLOW :: "nat \<Rightarrow> nat \<Rightarrow> bool" where
  "heapADD_WILL_OVERFLOW a b = (a > heapSIZE_MAX - b)"

definition heapMULTIPLY_WILL_OVERFLOW :: "nat \<Rightarrow> nat \<Rightarrow> bool" where
  "heapMULTIPLY_WILL_OVERFLOW a b = (a > 0 \<and> b > heapSIZE_MAX div a)"

text \<open>The top bit of a size says that the application owns the block.\<close>

definition heapBLOCK_SIZE_IS_VALID :: "nat \<Rightarrow> bool" where
  "heapBLOCK_SIZE_IS_VALID n = (\<not> bit n 31)"

definition heapBLOCK_IS_ALLOCATED :: "block_link \<Rightarrow> bool" where
  "heapBLOCK_IS_ALLOCATED b = bit (xBlockSize b) 31"

definition heapALLOCATE_BLOCK :: "block_link \<Rightarrow> block_link" where
  "heapALLOCATE_BLOCK b = b\<lparr>xBlockSize := Bit_Operations.set_bit 31 (xBlockSize b)\<rparr>"

definition heapFREE_BLOCK :: "block_link \<Rightarrow> block_link" where
  "heapFREE_BLOCK b = b\<lparr>xBlockSize := take_bit 31 (xBlockSize b)\<rparr>"

abbreviation nxt :: "heap4 \<Rightarrow> nat \<Rightarrow> nat" where "nxt h a \<equiv> pxNextFreeBlock (mem h a)"
abbreviation siz :: "heap4 \<Rightarrow> nat \<Rightarrow> nat" where "siz h a \<equiv> xBlockSize (mem h a)"

definition upd_blk :: "nat \<Rightarrow> (block_link \<Rightarrow> block_link) \<Rightarrow> heap4 \<Rightarrow> heap4" where
  "upd_blk a f h = h\<lparr>mem := (mem h)(a := f (mem h a))\<rparr>"

section \<open>Initialisation and release\<close>

definition prvHeapInit :: "heap4 \<Rightarrow> heap4" where
  "prvHeapInit h =
     (let (uxStartAddress, xTotalHeapSize) =
            (if align_mask (ucHeap h) \<noteq> 0
             then let st = align_down (add32 (ucHeap h) (portBYTE_ALIGNMENT - 1))
                  in (st, sub32 configTOTAL_HEAP_SIZE (sub32 st (ucHeap h)))
             else (ucHeap h, configTOTAL_HEAP_SIZE));
          h1 = upd_blk (xStart h) (\<lambda>b. b\<lparr>pxNextFreeBlock := uxStartAddress, xBlockSize := 0\<rparr>) h;
          uxEndAddress = align_down (sub32 (add32 uxStartAddress xTotalHeapSize) xHeapStructSize);
          h2 = upd_blk uxEndAddress (\<lambda>b. b\<lparr>xBlockSize := 0, pxNextFreeBlock := 0\<rparr>) (h1\<lparr>pxEnd := uxEndAddress\<rparr>);
          h3 = upd_blk uxStartAddress (\<lambda>b. b\<lparr>xBlockSize := sub32 uxEndAddress uxStartAddress,
                                             pxNextFreeBlock := uxEndAddress\<rparr>) h2
      in h3\<lparr>xMinimumEverFreeBytesRemaining := siz h3 uxStartAddress,
            xFreeBytesRemaining := siz h3 uxStartAddress\<rparr>)"

text \<open>\<^term>\<open>None\<close> is a search that does not return, which a well-formed list excludes.\<close>

partial_function (option) insert_after :: "heap4 \<Rightarrow> nat \<Rightarrow> nat \<Rightarrow> (fault + nat) option" where
  "insert_after h b it =
     (if it = 0 then Some (Inl NullDeref)
      else if nxt h it < b then insert_after h b (nxt h it) else Some (Inr it))"

definition prvInsertBlockIntoFreeList :: "nat \<Rightarrow> heap4 \<Rightarrow> (fault + heap4) option" where
  "prvInsertBlockIntoFreeList b h =
     (case insert_after h b (xStart h) of
        None \<Rightarrow> None
      | Some (Inl e) \<Rightarrow> Some (Inl e)
      | Some (Inr it) \<Rightarrow>
         let (b1, h1) = (if add32 it (siz h it) = b
                         then (it, upd_blk it (\<lambda>x. x\<lparr>xBlockSize := add32 (siz h it) (siz h b)\<rparr>) h)
                         else (b, h));
             h2 = (if add32 b1 (siz h1 b1) = nxt h1 it
                   then if nxt h1 it \<noteq> pxEnd h1
                        then let h' = upd_blk b1 (\<lambda>x. x\<lparr>xBlockSize := add32 (siz h1 b1) (siz h1 (nxt h1 it))\<rparr>) h1
                             in upd_blk b1 (\<lambda>x. x\<lparr>pxNextFreeBlock := nxt h' (nxt h' it)\<rparr>) h'
                        else upd_blk b1 (\<lambda>x. x\<lparr>pxNextFreeBlock := pxEnd h1\<rparr>) h1
                   else upd_blk b1 (\<lambda>x. x\<lparr>pxNextFreeBlock := nxt h1 it\<rparr>) h1)
         in Some (Inr (if it \<noteq> b1 then upd_blk it (\<lambda>x. x\<lparr>pxNextFreeBlock := b1\<rparr>) h2 else h2)))"

definition vPortFree :: "nat \<Rightarrow> heap4 \<Rightarrow> (fault + heap4) option" where
  "vPortFree pv h =
     (if pv = 0 then Some (Inr h)
      else let lk = sub32 pv xHeapStructSize in
        if heapBLOCK_IS_ALLOCATED (mem h lk) \<and> nxt h lk = 0 then
          let h1 = upd_blk lk heapFREE_BLOCK h;
              h2 = h1\<lparr>xFreeBytesRemaining := add32 (xFreeBytesRemaining h1) (siz h1 lk)\<rparr>
          in (case prvInsertBlockIntoFreeList lk h2 of
                None \<Rightarrow> None
              | Some (Inl e) \<Rightarrow> Some (Inl e)
              | Some (Inr h3) \<Rightarrow> Some (Inr (h3\<lparr>xNumberOfSuccessfulFrees :=
                                   add32 (xNumberOfSuccessfulFrees h3) 1\<rparr>)))
        else Some (Inr h))"

section \<open>Allocation\<close>

text \<open>The size of the block for a request, 0 if it does not fit into \<open>size_t\<close>.\<close>

definition wanted_size :: "nat \<Rightarrow> nat" where
  "wanted_size x =
     (if x > 0 then
        if \<not> heapADD_WILL_OVERFLOW x xHeapStructSize then
          let w = add32 x xHeapStructSize in
          if align_mask w \<noteq> 0 then
            let a = portBYTE_ALIGNMENT - align_mask w in
            if \<not> heapADD_WILL_OVERFLOW w a then add32 w a else 0
          else w
        else 0
      else x)"

partial_function (option) find_block :: "heap4 \<Rightarrow> nat \<Rightarrow> nat \<Rightarrow> nat \<Rightarrow> (fault + nat \<times> nat) option" where
  "find_block h w prev blk =
     (if blk = 0 then Some (Inl NullDeref)
      else if siz h blk < w \<and> nxt h blk \<noteq> 0 then find_block h w blk (nxt h blk)
      else Some (Inr (prev, blk)))"

text \<open>The found block is taken out of the list, split if the rest is large enough, and marked.\<close>

definition split_block :: "nat \<Rightarrow> nat \<Rightarrow> nat \<Rightarrow> heap4 \<Rightarrow> heap4" where
  "split_block w prev blk h =
     (if sub32 (siz h blk) w > heapMINIMUM_BLOCK_SIZE then
        let new = add32 blk w;
            g1 = upd_blk new (\<lambda>b. b\<lparr>xBlockSize := sub32 (siz h blk) w\<rparr>) h;
            g2 = upd_blk blk (\<lambda>b. b\<lparr>xBlockSize := w\<rparr>) g1;
            g3 = upd_blk new (\<lambda>b. b\<lparr>pxNextFreeBlock := nxt g2 prev\<rparr>) g2
        in upd_blk prev (\<lambda>b. b\<lparr>pxNextFreeBlock := new\<rparr>) g3
      else h)"

definition mark_taken :: "nat \<Rightarrow> heap4 \<Rightarrow> heap4" where
  "mark_taken blk h =
     (let h1 = h\<lparr>xFreeBytesRemaining := sub32 (xFreeBytesRemaining h) (siz h blk)\<rparr>;
          h2 = (if xFreeBytesRemaining h1 < xMinimumEverFreeBytesRemaining h1
                then h1\<lparr>xMinimumEverFreeBytesRemaining := xFreeBytesRemaining h1\<rparr> else h1);
          h3 = upd_blk blk heapALLOCATE_BLOCK h2;
          h4 = upd_blk blk (\<lambda>b. b\<lparr>pxNextFreeBlock := 0\<rparr>) h3
      in h4\<lparr>xNumberOfSuccessfulAllocations := add32 (xNumberOfSuccessfulAllocations h4) 1\<rparr>)"

definition take_block :: "nat \<Rightarrow> nat \<Rightarrow> nat \<Rightarrow> heap4 \<Rightarrow> nat \<times> heap4" where
  "take_block w prev blk h =
     (add32 (nxt h prev) xHeapStructSize,
      mark_taken blk (split_block w prev blk (upd_blk prev (\<lambda>b. b\<lparr>pxNextFreeBlock := nxt h blk\<rparr>) h)))"

definition pvPortMalloc :: "nat \<Rightarrow> heap4 \<Rightarrow> (fault + nat \<times> heap4) option" where
  "pvPortMalloc x h0 =
     (let w = wanted_size x;
          h = (if pxEnd h0 = 0 then prvHeapInit h0 else h0)
      in if heapBLOCK_SIZE_IS_VALID w \<and> w > 0 \<and> w \<le> xFreeBytesRemaining h then
           (case find_block h w (xStart h) (nxt h (xStart h)) of
              None \<Rightarrow> None
            | Some (Inl e) \<Rightarrow> Some (Inl e)
            | Some (Inr (prev, blk)) \<Rightarrow>
                Some (Inr (if blk \<noteq> pxEnd h then take_block w prev blk h else (0, h))))
         else Some (Inr (0, h)))"

text \<open>The second component is the \<open>memset\<close> range of a successful call.\<close>

definition pvPortCalloc :: "nat \<Rightarrow> nat \<Rightarrow> heap4 \<Rightarrow> (fault + nat \<times> (nat \<times> nat) option \<times> heap4) option" where
  "pvPortCalloc n s h =
     (if \<not> heapMULTIPLY_WILL_OVERFLOW n s then
        (case pvPortMalloc ((n * s) mod 2 ^ 32) h of
           None \<Rightarrow> None
         | Some (Inl e) \<Rightarrow> Some (Inl e)
         | Some (Inr (pv, h')) \<Rightarrow>
             Some (Inr (pv, if pv \<noteq> 0 then Some (pv, (n * s) mod 2 ^ 32) else None, h')))
      else Some (Inr (0, None, h)))"

section \<open>Statistics and reset\<close>

definition xPortGetFreeHeapSize :: "heap4 \<Rightarrow> nat" where
  "xPortGetFreeHeapSize h = xFreeBytesRemaining h"

definition xPortGetMinimumEverFreeHeapSize :: "heap4 \<Rightarrow> nat" where
  "xPortGetMinimumEverFreeHeapSize h = xMinimumEverFreeBytesRemaining h"

definition xPortResetHeapMinimumEverFreeHeapSize :: "heap4 \<Rightarrow> heap4" where
  "xPortResetHeapMinimumEverFreeHeapSize h = h\<lparr>xMinimumEverFreeBytesRemaining := xFreeBytesRemaining h\<rparr>"

record heap_stats =
  xAvailableHeapSpaceInBytes :: nat
  xSizeOfLargestFreeBlockInBytes :: nat
  xSizeOfSmallestFreeBlockInBytes :: nat
  xNumberOfFreeBlocks :: nat
  hs_Minimum :: nat
  hs_Allocations :: nat
  hs_Frees :: nat

partial_function (option) stats_loop ::
  "heap4 \<Rightarrow> nat \<Rightarrow> nat \<Rightarrow> nat \<Rightarrow> nat \<Rightarrow> (fault + nat \<times> nat \<times> nat) option" where
  "stats_loop h blk n mx mn =
     (if blk = pxEnd h then Some (Inr (n, mx, mn))
      else if blk = 0 then Some (Inl NullDeref)
      else stats_loop h (nxt h blk) (add32 n 1)
             (if siz h blk > mx then siz h blk else mx) (if siz h blk < mn then siz h blk else mn))"

definition vPortGetHeapStats :: "heap4 \<Rightarrow> (fault + heap_stats) option" where
  "vPortGetHeapStats h =
     (case (if nxt h (xStart h) \<noteq> 0 then stats_loop h (nxt h (xStart h)) 0 0 (2 ^ 32 - 1)
            else Some (Inr (0, 0, 2 ^ 32 - 1))) of
        None \<Rightarrow> None
      | Some (Inl e) \<Rightarrow> Some (Inl e)
      | Some (Inr (n, mx, mn)) \<Rightarrow> Some (Inr
          \<lparr>xAvailableHeapSpaceInBytes = xFreeBytesRemaining h, xSizeOfLargestFreeBlockInBytes = mx,
           xSizeOfSmallestFreeBlockInBytes = mn, xNumberOfFreeBlocks = n,
           hs_Minimum = xMinimumEverFreeBytesRemaining h,
           hs_Allocations = xNumberOfSuccessfulAllocations h, hs_Frees = xNumberOfSuccessfulFrees h\<rparr>))"

definition vPortHeapResetState :: "heap4 \<Rightarrow> heap4" where
  "vPortHeapResetState h = h\<lparr>pxEnd := 0, xFreeBytesRemaining := 0, xMinimumEverFreeBytesRemaining := 0,
     xNumberOfSuccessfulAllocations := 0, xNumberOfSuccessfulFrees := 0\<rparr>"

end
