(* ===== verification/Heap4Props.thy ===== *)
theory Heap4Props
  imports Heap4
begin

text \<open>
  The heap invariant and the refinement of the allocator: the arena is tiled by segments, the
  free list links the free segments in address order, allocation is first fit with
  splitting, and release coalesces with both neighbours.
\<close>

section \<open>Constants\<close>

lemma struct_size [simp]: "xHeapStructSize = 8"
  by (simp add: xHeapStructSize_def align_down_def portBYTE_ALIGNMENT_def)

lemma minimum_block [simp]: "heapMINIMUM_BLOCK_SIZE = 16"
  by (simp add: heapMINIMUM_BLOCK_SIZE_def push_bit_eq_mult)

lemma add32_small: "a + b < 2 ^ 32 \<Longrightarrow> add32 a b = a + b"
  by (simp add: add32_def)

lemma sub32_small: "b \<le> a \<Longrightarrow> a < 2 ^ 32 \<Longrightarrow> sub32 a b = a - b"
proof -
  assume "b \<le> a" "a < 2 ^ 32"
  then have "sub32 a b = ((a - b) + 2 ^ 32) mod 2 ^ 32" by (simp add: sub32_def)
  also have "\<dots> = a - b" using \<open>a < 2 ^ 32\<close> by (subst mod_add_self2) simp
  finally show ?thesis .
qed

lemma bit31_small: "n < 2 ^ 31 \<Longrightarrow> \<not> bit (n :: nat) 31"
  by (simp add: bit_iff_odd)

lemma set_bit31: "n < 2 ^ 31 \<Longrightarrow> Bit_Operations.set_bit 31 (n :: nat) = n + 2 ^ 31"
  by (simp add: set_bit_eq bit31_small)

lemma bit31_alloc: "n < 2 ^ 31 \<Longrightarrow> bit (n + 2 ^ 31 :: nat) 31"
  by (simp add: bit_iff_odd)

lemma clear_bit31: "n < 2 ^ 31 \<Longrightarrow> take_bit 31 (n + 2 ^ 31 :: nat) = n"
  by (simp add: take_bit_eq_mod)

section \<open>The tiling\<close>

type_synonym segs = "(nat \<times> bool) list"

fun total :: "segs \<Rightarrow> nat" where
  "total [] = 0"
| "total ((n, al) # ss) = n + total ss"

fun free_total :: "segs \<Rightarrow> nat" where
  "free_total [] = 0"
| "free_total ((n, al) # ss) = (if al then free_total ss else n + free_total ss)"

lemma total_append [simp]: "total (us @ vs) = total us + total vs"
  by (induction us rule: total.induct) auto

lemma free_total_append [simp]: "free_total (us @ vs) = free_total us + free_total vs"
  by (induction us rule: free_total.induct) auto

lemma free_total_le: "free_total ss \<le> total ss"
  by (induction ss rule: free_total.induct) auto

text \<open>Sizes are positive multiples of the alignment, and free neighbours have been merged.\<close>

definition segs_ok :: "segs \<Rightarrow> bool" where
  "segs_ok ss \<longleftrightarrow> (\<forall>s \<in> set ss. 0 < fst s \<and> fst s mod 8 = 0) \<and>
     successively (\<lambda>s t. snd s \<or> snd t) ss"

lemma segs_ok_simps [simp]:
  "segs_ok []"
  "segs_ok ((n, al) # ss) \<longleftrightarrow> 0 < n \<and> n mod 8 = 0 \<and> segs_ok ss \<and> (ss = [] \<or> al \<or> snd (hd ss))"
  by (cases ss; auto simp: segs_ok_def)+

lemma segs_ok_append: "segs_ok (us @ vs) \<Longrightarrow> segs_ok us \<and> segs_ok vs"
  by (simp add: segs_ok_def successively_append_iff ball_Un)

lemma segs_ok_append_Cons:
  "segs_ok (us @ (n, al) # vs) \<longleftrightarrow>
     segs_ok us \<and> segs_ok ((n, al) # vs) \<and> (us = [] \<or> snd (last us) \<or> al)"
  by (auto simp: segs_ok_def successively_append_iff ball_Un simp del: segs_ok_simps)

text \<open>
  \<open>prefix h p a us\<close>: the headers of the segments \<open>us\<close> from address \<open>a\<close> on, when \<open>p\<close> is the
  last link of the free list below \<open>a\<close>; \<open>chain\<close> is the same up to the end marker.
\<close>

fun prefix :: "heap4 \<Rightarrow> nat \<Rightarrow> nat \<Rightarrow> segs \<Rightarrow> bool" where
  "prefix h p a [] = True"
| "prefix h p a ((n, al) # us) =
     (if al then nxt h a = 0 \<and> siz h a = n + 2 ^ 31 \<and> prefix h p (a + n) us
      else nxt h p = a \<and> siz h a = n \<and> prefix h a (a + n) us)"

fun last_link :: "nat \<Rightarrow> nat \<Rightarrow> segs \<Rightarrow> nat" where
  "last_link p a [] = p"
| "last_link p a ((n, al) # us) = last_link (if al then p else a) (a + n) us"

definition chain :: "heap4 \<Rightarrow> nat \<Rightarrow> nat \<Rightarrow> segs \<Rightarrow> bool" where
  "chain h p a ss \<longleftrightarrow> prefix h p a ss \<and> nxt h (last_link p a ss) = pxEnd h \<and> a + total ss = pxEnd h"

definition heap_inv :: "heap4 \<Rightarrow> nat \<Rightarrow> segs \<Rightarrow> bool" where
  "heap_inv h base ss \<longleftrightarrow> chain h (xStart h) base ss \<and> segs_ok ss \<and>
     0 < base \<and> base mod 8 = 0 \<and> pxEnd h + 8 < 2 ^ 32 \<and> total ss < 2 ^ 31 \<and>
     xStart h \<noteq> 0 \<and> xStart h < 2 ^ 32 \<and> (xStart h < base \<or> pxEnd h < xStart h) \<and>
     siz h (xStart h) = 0 \<and> siz h (pxEnd h) = 0 \<and> nxt h (pxEnd h) = 0 \<and>
     xFreeBytesRemaining h = free_total ss"

lemma prefix_append:
  "prefix h p a (us @ vs) \<longleftrightarrow> prefix h p a us \<and> prefix h (last_link p a us) (a + total us) vs"
  by (induction us arbitrary: p a rule: total.induct) (auto simp: add.assoc)

lemma last_link_append: "last_link p a (us @ vs) = last_link (last_link p a us) (a + total us) vs"
  by (induction us arbitrary: p a rule: total.induct) (auto simp: add.assoc)

lemma chain_append:
  "chain h p a (us @ vs) \<longleftrightarrow> prefix h p a us \<and> chain h (last_link p a us) (a + total us) vs"
  by (auto simp: chain_def prefix_append last_link_append add.assoc)

lemma last_link_bounds:
  "segs_ok us \<Longrightarrow> last_link p a us = p \<or> (a \<le> last_link p a us \<and> last_link p a us < a + total us)"
proof (induction us arbitrary: p a rule: total.induct)
  case (2 n al us)
  have "0 < n" "segs_ok us" using 2(2) by simp_all
  then show ?case
    using 2(1) [of "if al then p else a" "a + n"] by (cases al) auto
qed simp

text \<open>The headers between \<open>a\<close> and \<open>a + total us\<close> decide \<open>prefix\<close>, but for the link of the last one.\<close>

lemma prefix_frame:
  assumes "prefix h p a us" "segs_ok us" "p < a \<or> a + total us \<le> p"
    "\<forall>x. a \<le> x \<longrightarrow> x < a + total us \<longrightarrow> siz h' x = siz h x"
    "\<forall>x. a \<le> x \<longrightarrow> x < a + total us \<longrightarrow> x \<noteq> last_link p a us \<longrightarrow> nxt h' x = nxt h x"
    "p \<noteq> last_link p a us \<Longrightarrow> nxt h' p = nxt h p"
  shows "prefix h' p a us"
  using assms
proof (induction us arbitrary: p a rule: total.induct)
  case (2 n al us)
  have n: "0 < n" "segs_ok us" using 2(3) by simp_all
  show ?case
  proof (cases al)
    case True
    have "a \<noteq> last_link p (a + n) us" using last_link_bounds [OF n(2), of p "a + n"] 2(4) n True by auto
    moreover have "prefix h' p (a + n) us"
      by (rule 2(1)) (use 2(2-) n True in auto)
    ultimately show ?thesis using 2(2-6) n True by simp
  next
    case False
    have "p \<noteq> last_link a (a + n) us" using last_link_bounds [OF n(2), of a "a + n"] 2(4) n False by auto
    moreover have "prefix h' a (a + n) us"
      by (rule 2(1)) (use 2(2-) n False in auto)
    ultimately show ?thesis using 2(2-7) n False by simp
  qed
qed simp

lemma chain_Cons:
  "chain h p a ((n, al) # vs) \<longleftrightarrow>
     (if al then nxt h a = 0 \<and> siz h a = n + 2 ^ 31 \<and> chain h p (a + n) vs
      else nxt h p = a \<and> siz h a = n \<and> chain h a (a + n) vs)"
  by (auto simp: chain_def add.assoc)

lemma chain_Nil: "chain h p a [] \<longleftrightarrow> nxt h p = a \<and> a = pxEnd h"
  by (auto simp: chain_def)

text \<open>The suffix of the list may hang on another link that points to the same place.\<close>

lemma chain_relink:
  assumes "chain h p a vs" "segs_ok vs" "nxt h' p' = nxt h p" "pxEnd h' = pxEnd h"
    "p < a \<or> a + total vs \<le> p" "p' < a \<or> a + total vs \<le> p'"
    "\<forall>x. a \<le> x \<longrightarrow> x < a + total vs \<longrightarrow> mem h' x = mem h x"
  shows "chain h' p' a vs"
  using assms
proof (induction vs arbitrary: p p' a rule: total.induct)
  case (2 n al vs)
  have n: "0 < n" "segs_ok vs" using 2(3) by simp_all
  show ?case
  proof (cases al)
    case True
    with 2(2) have "chain h p (a + n) vs" by (simp add: chain_Cons)
    then have "chain h' p' (a + n) vs"
      by (rule 2(1)) (use 2 n in auto)
    with 2 True n show ?thesis by (simp add: chain_Cons)
  next
    case False
    with 2(2) have "chain h a (a + n) vs" by (simp add: chain_Cons)
    then have "chain h' a (a + n) vs"
      by (rule 2(1)) (use 2 n in auto)
    with 2 False n show ?thesis by (simp add: chain_Cons)
  qed
qed (simp add: chain_def)

text \<open>The next link of a chain is the next free segment or the end marker.\<close>

lemma chain_next: "chain h p a ss \<Longrightarrow> segs_ok ss \<Longrightarrow> a \<le> nxt h p \<and> nxt h p \<le> pxEnd h"
proof (induction ss arbitrary: p a rule: total.induct)
  case (2 n al ss)
  have e: "a + total ((n, al) # ss) = pxEnd h" using 2(2) by (simp add: chain_def)
  show ?case
  proof (cases al)
    case True
    with 2(2) have "chain h p (a + n) ss" by (simp add: chain_Cons)
    then have "a + n \<le> nxt h p \<and> nxt h p \<le> pxEnd h" by (rule 2(1)) (use 2(3) in simp)
    then show ?thesis by simp
  next
    case False
    with 2(2) have "nxt h p = a" by (simp add: chain_Cons)
    with e show ?thesis by simp
  qed
qed (simp add: chain_Nil)

lemma segs_ok_dvd: "segs_ok ss \<Longrightarrow> 8 dvd total ss"
proof (induction ss rule: total.induct)
  case (2 n al ss)
  then have "8 dvd n" "8 dvd total ss" by auto
  then show ?case by simp
qed simp

section \<open>First fit\<close>

abbreviation too_small :: "nat \<Rightarrow> nat \<times> bool \<Rightarrow> bool" where
  "too_small w s \<equiv> snd s \<or> fst s < w"

lemma find_block_ok:
  assumes "chain h p a ss" "segs_ok ss" "0 < a" "siz h (pxEnd h) = 0" "nxt h (pxEnd h) = 0" "0 < w"
  shows "find_block h w p (nxt h p) = Some (Inr
     (last_link p a (takeWhile (too_small w) ss),
      if dropWhile (too_small w) ss = [] then pxEnd h else a + total (takeWhile (too_small w) ss)))"
  using assms
proof (induction ss arbitrary: p a rule: total.induct)
  case 1
  then show ?case by (simp add: chain_Nil find_block.simps [of h w p "pxEnd h"])
next
  case (2 n al ss)
  have n: "0 < n" "segs_ok ss" using 2(3) by simp_all
  show ?case
  proof (cases al)
    case True
    with 2(2) have "chain h p (a + n) ss" by (simp add: chain_Cons)
    then show ?thesis using 2(1) [of p "a + n"] 2(4-7) n True by (simp add: add.assoc del: dropWhile_eq_Nil_conv)
  next
    case False
    with 2(2) have c: "nxt h p = a" "siz h a = n" "chain h a (a + n) ss" by (simp_all add: chain_Cons)
    show ?thesis
    proof (cases "n < w")
      case True
      have "nxt h a \<noteq> 0" using chain_next [OF c(3) n(2)] 2(4) by auto
      with c True 2(4) have "find_block h w p (nxt h p) = find_block h w a (nxt h a)"
        by (simp add: find_block.simps [of h w p a])
      then show ?thesis using 2(1) [OF c(3) n(2)] 2(4-7) True False by (simp add: add.assoc del: dropWhile_eq_Nil_conv)
    next
      case False
      with c 2(4) \<open>\<not> al\<close> show ?thesis by (simp add: find_block.simps [of h w p a])
    qed
  qed
qed

definition alloc_segs :: "nat \<Rightarrow> nat \<Rightarrow> segs" where
  "alloc_segs w n = (if n - w > 16 then [(w, True), (n - w, False)] else [(n, True)])"

lemma heap_inv_split:
  assumes "heap_inv h base (us @ (n, al) # vs)"
  defines "q \<equiv> last_link (xStart h) base us" and "b \<equiv> base + total us"
  shows "prefix h (xStart h) base us" "q = xStart h \<or> (base \<le> q \<and> q < b)" "0 < n" "n mod 8 = 0"
    "0 < b" "b mod 8 = 0" "b + n + total vs = pxEnd h" "segs_ok us" "segs_ok vs"
    "if al then nxt h b = 0 \<and> siz h b = n + 2 ^ 31 \<and> chain h q (b + n) vs
     else nxt h q = b \<and> siz h b = n \<and> chain h b (b + n) vs"
    "n < 2 ^ 31" "q \<noteq> 0"
proof -
  have C: "chain h (xStart h) base (us @ (n, al) # vs)" and S: "segs_ok (us @ (n, al) # vs)"
    and B: "0 < base" "base mod 8 = 0" "total (us @ (n, al) # vs) < 2 ^ 31" "xStart h \<noteq> 0"
    using assms(1) by (auto simp: heap_inv_def)
  from C have P: "prefix h (xStart h) base us" and R: "chain h q b ((n, al) # vs)"
    by (auto simp: chain_append q_def b_def)
  show "prefix h (xStart h) base us" by (rule P)
  show so: "segs_ok us" using S by (simp add: segs_ok_append_Cons)
  show qb: "q = xStart h \<or> (base \<le> q \<and> q < b)"
    using last_link_bounds [OF so, of "xStart h" base] by (simp add: q_def b_def)
  show "q \<noteq> 0" using qb B by auto
  show "0 < n" "n mod 8 = 0" "segs_ok vs" using S by (auto simp: segs_ok_append_Cons)
  show "0 < b" using B by (simp add: b_def)
  show "n < 2 ^ 31" using B by simp
  have "8 dvd base" "8 dvd total us" using B(2) segs_ok_dvd [OF so] by auto
  then have "8 dvd b" by (simp add: b_def)
  then show "b mod 8 = 0" by simp
  show "b + n + total vs = pxEnd h" using C by (simp add: chain_def b_def)
  show "if al then nxt h b = 0 \<and> siz h b = n + 2 ^ 31 \<and> chain h q (b + n) vs
     else nxt h q = b \<and> siz h b = n \<and> chain h b (b + n) vs"
    using R by (simp add: chain_Cons)
qed

text \<open>The heap after \<open>take_block\<close>, when the rest of the block is split off and when it is not.\<close>

lemma mem_upd_blk [simp]: "mem (upd_blk a f h) = (mem h)(a := f (mem h a))"
  by (simp add: upd_blk_def)

lemma upd_blk_frame [simp]:
  "xStart (upd_blk a f h) = xStart h" "pxEnd (upd_blk a f h) = pxEnd h"
  "xFreeBytesRemaining (upd_blk a f h) = xFreeBytesRemaining h"
  "xMinimumEverFreeBytesRemaining (upd_blk a f h) = xMinimumEverFreeBytesRemaining h"
  by (simp_all add: upd_blk_def)

lemma block_link_upd [simp]:
  "b\<lparr>xBlockSize := s, pxNextFreeBlock := n\<rparr> = \<lparr>pxNextFreeBlock = n, xBlockSize = s\<rparr>"
  by (rule block_link.equality) simp_all

lemma mark_taken_simps:
  "mem (mark_taken b h) = (mem h)(b := \<lparr>pxNextFreeBlock = 0, xBlockSize = Bit_Operations.set_bit 31 (siz h b)\<rparr>)"
  "xFreeBytesRemaining (mark_taken b h) = sub32 (xFreeBytesRemaining h) (siz h b)"
  "xStart (mark_taken b h) = xStart h" "pxEnd (mark_taken b h) = pxEnd h"
  by (simp_all add: mark_taken_def heapALLOCATE_BLOCK_def Let_def)

lemma split_block_frame [simp]:
  "xStart (split_block w q b h) = xStart h" "pxEnd (split_block w q b h) = pxEnd h"
  "xFreeBytesRemaining (split_block w q b h) = xFreeBytesRemaining h"
  by (simp_all add: split_block_def Let_def)

lemma split_block_mem:
  assumes "q \<noteq> b" "q \<noteq> b + w" "0 < w" "w \<le> n" "n < 2 ^ 32" "b + w < 2 ^ 32" "siz h b = n"
  shows "mem (split_block w q b h) =
    (if n - w > 16
     then (mem h)(b + w := \<lparr>pxNextFreeBlock = nxt h q, xBlockSize = n - w\<rparr>,
            b := (mem h b)\<lparr>xBlockSize := w\<rparr>, q := (mem h q)\<lparr>pxNextFreeBlock := b + w\<rparr>)
     else mem h)"
proof -
  have e: "sub32 n w = n - w" "add32 b w = b + w"
    using assms by (auto intro: sub32_small add32_small)
  show ?thesis
    using assms(1-3,7) by (simp add: split_block_def Let_def e fun_eq_iff)
qed

lemma take_block_frame [simp]:
  "xStart (snd (take_block w q b h)) = xStart h" "pxEnd (snd (take_block w q b h)) = pxEnd h"
  by (simp_all add: take_block_def mark_taken_simps)

definition alloc_size :: "nat \<Rightarrow> nat \<Rightarrow> nat" where
  "alloc_size w n = (if n - w > 16 then w else n)"

lemma take_block_mem:
  assumes "q \<noteq> b" "q \<noteq> b + w" "0 < w" "w \<le> n" "n < 2 ^ 31" "b + w < 2 ^ 32" "siz h b = n"
  shows "mem (snd (take_block w q b h)) =
    (let m = (mem h)(q := (mem h q)\<lparr>pxNextFreeBlock := if n - w > 16 then b + w else nxt h b\<rparr>,
                     b := \<lparr>pxNextFreeBlock = 0, xBlockSize = alloc_size w n + 2 ^ 31\<rparr>)
     in if n - w > 16 then m(b + w := \<lparr>pxNextFreeBlock = nxt h b, xBlockSize = n - w\<rparr>) else m)"
    "siz (split_block w q b (upd_blk q (\<lambda>x. x\<lparr>pxNextFreeBlock := nxt h b\<rparr>) h)) b = alloc_size w n"
proof -
  let ?h1 = "upd_blk q (\<lambda>x. x\<lparr>pxNextFreeBlock := nxt h b\<rparr>) h"
  have n32: "n < 2 ^ 32" using assms(5) by simp
  have sz: "siz ?h1 b = n" using assms(1,7) by simp
  note M = split_block_mem [OF assms(1-4) n32 assms(6) sz]
  show s: "siz (split_block w q b ?h1) b = alloc_size w n"
    using assms(1,3,7) by (simp add: M alloc_size_def)
  have "alloc_size w n < 2 ^ 31" using assms(4,5) by (simp add: alloc_size_def)
  then have b31: "Bit_Operations.set_bit 31 (alloc_size w n) = alloc_size w n + 2 ^ 31" by (rule set_bit31)
  show "mem (snd (take_block w q b h)) =
    (let m = (mem h)(q := (mem h q)\<lparr>pxNextFreeBlock := if n - w > 16 then b + w else nxt h b\<rparr>,
                     b := \<lparr>pxNextFreeBlock = 0, xBlockSize = alloc_size w n + 2 ^ 31\<rparr>)
     in if n - w > 16 then m(b + w := \<lparr>pxNextFreeBlock = nxt h b, xBlockSize = n - w\<rparr>) else m)"
    unfolding take_block_def snd_conv mark_taken_simps unfolding s b31 unfolding M Let_def
    using assms(1-3) by (simp add: fun_eq_iff)
qed

text \<open>Allocation on the tiling: the first free segment that is large enough, split if worthwhile.\<close>

lemma take_block_inv:
  assumes inv: "heap_inv h base (us @ (n, False) # vs)" and w: "0 < w" "w \<le> n" "w mod 8 = 0"
  defines "q \<equiv> last_link (xStart h) base us" and "b \<equiv> base + total us"
  shows "fst (take_block w q b h) = b + 8"
    "heap_inv (snd (take_block w q b h)) base (us @ alloc_segs w n @ vs)"
proof -
  note S = heap_inv_split [OF inv, folded q_def b_def]
  have link: "nxt h q = b" "siz h b = n" "chain h b (b + n) vs" using S(10) by simp_all
  have G: "pxEnd h + 8 < 2 ^ 32" "xStart h < base \<or> pxEnd h < xStart h" "0 < base"
    "xFreeBytesRemaining h = free_total (us @ (n, False) # vs)" "siz h (xStart h) = 0"
    "siz h (pxEnd h) = 0" "nxt h (pxEnd h) = 0" "total (us @ (n, False) # vs) < 2 ^ 31"
    "segs_ok (us @ (n, False) # vs)" "base mod 8 = 0" "xStart h \<noteq> 0" "xStart h < 2 ^ 32"
    using inv by (auto simp: heap_inv_def)
  have be: "b + n \<le> pxEnd h" "base \<le> b" using S(7) by (auto simp: b_def)
  have qr: "q < b \<or> pxEnd h < q" using S(2) G(2) be by auto
  have ne: "q \<noteq> b" "q \<noteq> b + w" using qr be w by auto
  have b32: "b + w < 2 ^ 32" using be w G(1) by simp
  define h' where "h' = snd (take_block w q b h)"
  note M = take_block_mem [OF ne w(1,2) S(11) b32 link(2)]
  have m: "mem h' = (let m = (mem h)(q := (mem h q)\<lparr>pxNextFreeBlock := if n - w > 16 then b + w else nxt h b\<rparr>,
                     b := \<lparr>pxNextFreeBlock = 0, xBlockSize = alloc_size w n + 2 ^ 31\<rparr>)
     in if n - w > 16 then m(b + w := \<lparr>pxNextFreeBlock = nxt h b, xBlockSize = n - w\<rparr>) else m)"
    using M(1) by (simp add: h'_def)
  have fr: "xStart h' = xStart h" "pxEnd h' = pxEnd h" by (simp_all add: h'_def)
  show "fst (take_block w q b h) = b + 8"
    using link(1) be G(1) by (simp add: take_block_def add32_small)
  have pre: "prefix h' (xStart h) base us"
  proof (rule prefix_frame [OF S(1) S(8)])
    show "xStart h < base \<or> base + total us \<le> xStart h" using G(2) be by (auto simp: b_def)
    show "\<forall>x. base \<le> x \<longrightarrow> x < base + total us \<longrightarrow> siz h' x = siz h x"
      unfolding b_def [symmetric] using ne w by (auto simp: m Let_def)
    show "\<forall>x. base \<le> x \<longrightarrow> x < base + total us \<longrightarrow> x \<noteq> last_link (xStart h) base us \<longrightarrow> nxt h' x = nxt h x"
      unfolding b_def [symmetric] q_def [symmetric] using ne w by (auto simp: m Let_def)
    show "xStart h \<noteq> last_link (xStart h) base us \<Longrightarrow> nxt h' (xStart h) = nxt h (xStart h)"
      unfolding q_def [symmetric] using ne w G(2) be by (auto simp: m Let_def)
  qed
  have rest: "chain h' q b (alloc_segs w n @ vs)"
  proof (cases "n - w > 16")
    case True
    then have nw: "w < n" by simp
    have "chain h' (b + w) (b + n) vs"
      by (rule chain_relink [OF link(3) S(9)])
        (use True nw ne be qr S(7) S(3) fr w in \<open>auto simp: m Let_def\<close>)
    then show ?thesis using True nw ne w(1) by (simp add: alloc_segs_def chain_Cons m Let_def alloc_size_def)
  next
    case False
    have "chain h' q (b + n) vs"
      by (rule chain_relink [OF link(3) S(9)])
        (use False ne be qr S(7) S(3) fr w in \<open>auto simp: m Let_def\<close>)
    then show ?thesis using False ne by (simp add: alloc_segs_def chain_Cons m Let_def alloc_size_def)
  qed
  have "chain h' (xStart h') base (us @ alloc_segs w n @ vs)"
    using pre rest by (simp add: chain_append fr q_def b_def)
  moreover have "segs_ok (us @ alloc_segs w n @ vs)"
  proof -
    have "(n - w) mod 8 = 0" using S(4) w(2,3) by (metis dvd_diff_nat mod_0_imp_dvd mod_eq_0_iff_dvd)
    then show ?thesis using G(9) w by (auto simp: alloc_segs_def segs_ok_append_Cons)
  qed
  moreover have tot: "total (us @ alloc_segs w n @ vs) = total (us @ (n, False) # vs)"
    using w by (simp add: alloc_segs_def)
  moreover have "xFreeBytesRemaining h' = free_total (us @ alloc_segs w n @ vs)"
  proof -
    have "free_total (us @ (n, False) # vs) < 2 ^ 32"
      using free_total_le [of "us @ (n, False) # vs"] G(8) by simp
    moreover have "alloc_size w n \<le> n" using w by (simp add: alloc_size_def)
    ultimately have "xFreeBytesRemaining h' = free_total (us @ (n, False) # vs) - alloc_size w n"
      using G(4) by (simp add: h'_def take_block_def mark_taken_simps M(2) sub32_small)
    then show ?thesis using w by (simp add: alloc_segs_def alloc_size_def)
  qed
  moreover have "siz h' (xStart h') = 0" "siz h' (pxEnd h') = 0" "nxt h' (pxEnd h') = 0"
    using G ne be w qr S(3) by (auto simp: m Let_def fr)
  ultimately show "heap_inv (snd (take_block w q b h)) base (us @ alloc_segs w n @ vs)"
    using G by (simp add: heap_inv_def h'_def [symmetric] fr)
qed

section \<open>pvPortMalloc\<close>

lemma wanted_size_ok:
  assumes "x < 2 ^ 32"
  shows "wanted_size x = 0 \<or>
    (0 < x \<and> x + 8 \<le> wanted_size x \<and> wanted_size x < x + 16 \<and> wanted_size x mod 8 = 0 \<and> wanted_size x < 2 ^ 32)"
proof -
  have al: "(a + (8 - a mod 8)) mod 8 = 0" for a :: nat
    by (metis mod_add_left_eq le_add_diff_inverse less_imp_le_nat mod_less_divisor mod_self zero_less_numeral)
  have le: "a mod 8 < 8" for a :: nat by simp
  show ?thesis
    using assms al [of "x + 8"] le [of "x + 8"]
    by (auto simp: wanted_size_def heapADD_WILL_OVERFLOW_def heapSIZE_MAX_def align_mask_def
        portBYTE_ALIGNMENT_def Let_def add32_small)
qed

lemma heap_inv_init: "heap_inv h base ss \<Longrightarrow> pxEnd h \<noteq> 0"
  by (auto simp: heap_inv_def chain_def)

lemma too_small_free_total:
  "s \<in> set ss \<Longrightarrow> \<not> too_small w s \<Longrightarrow> w \<le> free_total ss"
  by (induction ss rule: free_total.induct) auto

lemma find_block_inv:
  assumes "heap_inv h base ss" "0 < w"
  shows "find_block h w (xStart h) (nxt h (xStart h)) = Some (Inr
     (last_link (xStart h) base (takeWhile (too_small w) ss),
      if dropWhile (too_small w) ss = [] then pxEnd h else base + total (takeWhile (too_small w) ss)))"
  by (rule find_block_ok) (use assms in \<open>auto simp: heap_inv_def\<close>)

text \<open>No room, or a size that overflows: NULL, and nothing changes.\<close>

lemma malloc_fails_inv:
  assumes inv: "heap_inv h base ss" and none: "wanted_size x = 0 \<or> (\<forall>s \<in> set ss. too_small (wanted_size x) s)"
  shows "pvPortMalloc x h = Some (Inr (0, h))"
proof (cases "wanted_size x = 0")
  case True
  then show ?thesis using heap_inv_init [OF inv] by (simp add: pvPortMalloc_def Let_def)
next
  case False
  with none have "takeWhile (too_small (wanted_size x)) ss = ss" "dropWhile (too_small (wanted_size x)) ss = []"
    by (auto simp: takeWhile_eq_all_conv)
  with find_block_inv [OF inv, of "wanted_size x"] False show ?thesis
    using heap_inv_init [OF inv] by (simp add: pvPortMalloc_def Let_def)
qed

text \<open>Otherwise the first segment that fits is returned, past its header.\<close>

lemma malloc_inv:
  assumes inv: "heap_inv h base (us @ (n, False) # vs)" and x: "x < 2 ^ 32"
    and w: "wanted_size x \<noteq> 0" "wanted_size x \<le> n" "\<forall>s \<in> set us. too_small (wanted_size x) s"
  shows "\<exists>h'. pvPortMalloc x h = Some (Inr (base + total us + 8, h')) \<and>
    heap_inv h' base (us @ alloc_segs (wanted_size x) n @ vs)"
proof -
  define w where "w = wanted_size x"
  have W: "0 < w" "w mod 8 = 0" "w \<le> n" using wanted_size_ok [OF x] assms(3,4) by (auto simp: w_def)
  have n31: "n < 2 ^ 31" by (rule heap_inv_split(11) [OF inv])
  have tw: "takeWhile (too_small w) (us @ (n, False) # vs) = us"
    "dropWhile (too_small w) (us @ (n, False) # vs) \<noteq> []"
    using assms(5) W(3) by (auto simp: w_def takeWhile_append2 dropWhile_append2)
  have fb: "find_block h w (xStart h) (nxt h (xStart h)) =
      Some (Inr (last_link (xStart h) base us, base + total us))"
    using find_block_inv [OF inv W(1)] by (simp only: tw if_False)
  have "w \<le> xFreeBytesRemaining h" using inv W(3) by (simp add: heap_inv_def)
  moreover have "heapBLOCK_SIZE_IS_VALID w"
    using W(3) n31 bit31_small [of w] by (simp add: heapBLOCK_SIZE_IS_VALID_def)
  moreover have "base + total us \<noteq> pxEnd h" using heap_inv_split(3,7) [OF inv] by simp
  ultimately have "pvPortMalloc x h = Some (Inr (take_block w (last_link (xStart h) base us) (base + total us) h))"
    using W(1) fb heap_inv_init [OF inv] by (simp add: pvPortMalloc_def Let_def w_def)
  with take_block_inv [OF inv W(1,3,2)] show ?thesis
    by (cases "take_block w (last_link (xStart h) base us) (base + total us) h") (simp add: w_def)
qed

section \<open>Release\<close>

text \<open>The last free segment of a prefix, and the first free one of a suffix.\<close>

lemma last_link_cases:
  assumes "prefix h p a us"
  obtains (none) "last_link p a us = p" "\<forall>s \<in> set us. snd s"
  | (free) us1 k us2 where "us = us1 @ (k, False) # us2" "\<forall>s \<in> set us2. snd s"
      "last_link p a us = a + total us1" "siz h (last_link p a us) = k"
  using assms
proof (induction us rule: rev_induct)
  case Nil
  then show ?case by simp
next
  case (snoc s us)
  obtain n al where s: "s = (n, al)" by (cases s)
  show ?case
  proof (cases al)
    case True
    with snoc(4) s have P: "prefix h p a us" and L: "last_link p a (us @ [s]) = last_link p a us"
      by (simp_all add: prefix_append last_link_append)
    show ?thesis
    proof (rule snoc(1) [OF _ _ P])
      assume "last_link p a us = p" "\<forall>s \<in> set us. snd s"
      then show ?thesis using snoc(2) L s True by auto
    next
      fix us1 k us2
      assume "us = us1 @ (k, False) # us2" "\<forall>s \<in> set us2. snd s"
        "last_link p a us = a + total us1" "siz h (last_link p a us) = k"
      then show ?thesis using snoc(3) [of us1 k "us2 @ [s]"] L s True by auto
    qed
  next
    case False
    with snoc(4) s show ?thesis using snoc(3) [of us n "[]"] by (simp add: prefix_append last_link_append)
  qed
qed

lemma next_link_cases:
  assumes "chain h p a vs"
  obtains (none) "nxt h p = pxEnd h" "a + total vs = pxEnd h" "\<forall>s \<in> set vs. snd s"
  | (free) vs1 m vs2 where "vs = vs1 @ (m, False) # vs2" "\<forall>s \<in> set vs1. snd s" "nxt h p = a + total vs1"
  using assms
proof (induction vs arbitrary: a rule: total.induct)
  case 1
  then show ?case by (simp add: chain_Nil)
next
  case (2 n al vs)
  show ?case
  proof (cases al)
    case True
    with 2(4) have c: "chain h p (a + n) vs" by (simp add: chain_Cons)
    show ?thesis
    proof (rule 2(1) [OF _ _ c])
      assume "nxt h p = pxEnd h" "a + n + total vs = pxEnd h" "\<forall>s \<in> set vs. snd s"
      then show ?thesis using 2(2) True by simp
    next
      fix vs1 m vs2
      assume "vs = vs1 @ (m, False) # vs2" "\<forall>s \<in> set vs1. snd s" "nxt h p = a + n + total vs1"
      then show ?thesis using 2(3) [of "(n, al) # vs1" m vs2] True by simp
    qed
  next
    case False
    with 2(4) show ?thesis using 2(3) [of "[]" n vs] by (simp add: chain_Cons)
  qed
qed

lemma total_zero: "segs_ok us \<Longrightarrow> total us = 0 \<longleftrightarrow> us = []"
  by (cases us) (auto simp: neq_Nil_conv)

text \<open>The search for the insertion point stops at the last free block below the released one.\<close>

lemma insert_after_ok:
  assumes "prefix h p a us" "segs_ok us" "a + total us \<le> b" "b < nxt h (last_link p a us)" "p \<noteq> 0" "0 < a"
  shows "insert_after h b p = Some (Inr (last_link p a us))"
  using assms
proof (induction us arbitrary: p a rule: total.induct)
  case 1
  then show ?case by (simp add: insert_after.simps [of h b p])
next
  case (2 n al us)
  show ?case
  proof (cases al)
    case True
    have "insert_after h b p = Some (Inr (last_link p (a + n) us))"
      by (rule 2(1) [of p "a + n"]) (use 2(2-7) True in auto)
    then show ?thesis using True by simp
  next
    case False
    have "insert_after h b a = Some (Inr (last_link a (a + n) us))"
      by (rule 2(1) [of a "a + n"]) (use 2(2-7) False in auto)
    moreover have "nxt h p = a" "a < b" using 2(2-4) False by auto
    ultimately show ?thesis using 2(6) False by (simp add: insert_after.simps [of h b p])
  qed
qed

text \<open>The memory after an insertion behind the link \<open>q\<close>, with \<open>c\<close> the next link.\<close>

lemma insert_block_mem:
  assumes "insert_after h b (xStart h) = Some (Inr q)" "nxt h q = c" "siz h b = n"
    "q \<noteq> b" "c \<noteq> q" "c \<noteq> b" "add32 b n = b + n" "add32 q (siz h q) = q + siz h q"
    "q + siz h q = b \<Longrightarrow> add32 (siz h q) n = siz h q + n \<and> add32 q (siz h q + n) = q + siz h q + n"
    "b + n = c \<Longrightarrow> c \<noteq> pxEnd h \<Longrightarrow> add32 n (siz h c) = n + siz h c \<and>
       (q + siz h q = b \<longrightarrow> add32 (siz h q + n) (siz h c) = siz h q + n + siz h c)"
  shows "\<exists>h'. prvInsertBlockIntoFreeList b h = Some (Inr h') \<and> xStart h' = xStart h \<and> pxEnd h' = pxEnd h \<and>
    xFreeBytesRemaining h' = xFreeBytesRemaining h \<and>
    mem h' = (let r = (b + n = c \<and> c \<noteq> pxEnd h); nx = (if r then nxt h c else c); m = (if r then siz h c else 0)
      in if q + siz h q = b then (mem h)(q := \<lparr>pxNextFreeBlock = nx, xBlockSize = siz h q + n + m\<rparr>)
         else (mem h)(b := \<lparr>pxNextFreeBlock = nx, xBlockSize = n + m\<rparr>, q := (mem h q)\<lparr>pxNextFreeBlock := b\<rparr>))"
proof (cases "q + siz h q = b")
  case True
  have q: "add32 (siz h q) n = siz h q + n" "add32 q (siz h q + n) = b + n" using assms(9) True by auto
  show ?thesis
  proof (cases "b + n = c \<and> c \<noteq> pxEnd h")
    case r: True
    then have "add32 (siz h q + n) (siz h c) = siz h q + n + siz h c" using assms(10) True by simp
    with r True q assms(1-8) show ?thesis
      by (simp add: prvInsertBlockIntoFreeList_def Let_def fun_eq_iff)
  next
    case r: False
    with True q assms(1-8) show ?thesis
      by (auto simp: prvInsertBlockIntoFreeList_def Let_def fun_eq_iff intro!: block_link.equality)
  qed
next
  case False
  show ?thesis
  proof (cases "b + n = c \<and> c \<noteq> pxEnd h")
    case r: True
    then have "add32 n (siz h c) = n + siz h c" using assms(10) by simp
    with r False assms(1-8) show ?thesis
      by (simp add: prvInsertBlockIntoFreeList_def Let_def fun_eq_iff)
  next
    case r: False
    with False assms(1-8) show ?thesis
      by (auto simp: prvInsertBlockIntoFreeList_def Let_def fun_eq_iff intro!: block_link.equality)
  qed
qed

definition merge_right :: "nat \<Rightarrow> segs \<Rightarrow> segs" where
  "merge_right n vs = (case vs of (m, False) # ws \<Rightarrow> (n + m, False) # ws | _ \<Rightarrow> (n, False) # vs)"

definition release :: "segs \<Rightarrow> nat \<Rightarrow> segs \<Rightarrow> segs" where
  "release us n vs =
     (if us \<noteq> [] \<and> \<not> snd (last us) then butlast us @ merge_right (fst (last us) + n) vs
      else us @ merge_right n vs)"

lemma merge_right_totals [simp]:
  "total (merge_right n vs) = n + total vs" "free_total (merge_right n vs) = n + free_total vs"
  by (auto simp: merge_right_def split: list.splits prod.splits bool.splits)

lemma release_totals [simp]:
  "total (release us n vs) = total us + n + total vs"
  "free_total (release us n vs) = free_total us + n + free_total vs"
proof -
  have "us \<noteq> [] \<Longrightarrow> \<not> snd (last us) \<Longrightarrow> us = butlast us @ [(fst (last us), False)]"
    by (metis append_butlast_last_id prod.collapse)
  then have e: "us \<noteq> [] \<Longrightarrow> \<not> snd (last us) \<Longrightarrow> total us = total (butlast us) + fst (last us) \<and>
      free_total us = free_total (butlast us) + fst (last us)"
    by (metis add.right_neutral free_total.simps total.simps free_total_append total_append)
  then show "total (release us n vs) = total us + n + total vs"
    "free_total (release us n vs) = free_total us + n + free_total vs"
    by (auto simp: release_def)
qed

lemma segs_ok_merge_right:
  assumes "segs_ok vs" "0 < k" "k mod 8 = 0"
  shows "segs_ok (merge_right k vs)" "merge_right k vs \<noteq> []" "\<not> snd (hd (merge_right k vs))"
proof -
  show "segs_ok (merge_right k vs)"
  proof (cases "vs = [] \<or> snd (hd vs)")
    case True
    then show ?thesis using assms by (cases vs) (auto simp: merge_right_def split: bool.splits)
  next
    case False
    then obtain m ws where vs: "vs = (m, False) # ws" by (cases vs) auto
    have "(k + m) mod 8 = 0" using assms vs by (metis dvd_add mod_0_imp_dvd mod_eq_0_iff_dvd segs_ok_simps(2))
    then show ?thesis using assms vs by (simp add: merge_right_def)
  qed
  show "merge_right k vs \<noteq> []" "\<not> snd (hd (merge_right k vs))"
    by (auto simp: merge_right_def split: list.splits prod.splits bool.splits)
qed

lemma segs_ok_join:
  "segs_ok us \<Longrightarrow> segs_ok ws \<Longrightarrow> us = [] \<or> snd (last us) \<Longrightarrow> segs_ok (us @ ws)"
  by (auto simp: segs_ok_def successively_append_iff simp del: segs_ok_simps)

lemma free_last: "us \<noteq> [] \<Longrightarrow> \<not> snd (last us) \<Longrightarrow> us = butlast us @ [(fst (last us), False)]"
  by (metis append_butlast_last_id prod.collapse)

lemma segs_ok_release:
  assumes "segs_ok (us @ (n, True) # vs)"
  shows "segs_ok (release us n vs)"
proof -
  have S: "segs_ok us" "segs_ok vs" "0 < n" "n mod 8 = 0" using assms by (auto simp: segs_ok_append_Cons)
  show ?thesis
  proof (cases "us \<noteq> [] \<and> \<not> snd (last us)")
    case True
    define k where "k = fst (last us)"
    have us: "us = butlast us @ [(k, False)]" unfolding k_def using True by (intro free_last) auto
    have "segs_ok (butlast us @ (k, False) # [])" using S(1) us by simp
    then have B: "segs_ok (butlast us)" "0 < k" "k mod 8 = 0" "butlast us = [] \<or> snd (last (butlast us))"
      unfolding segs_ok_append_Cons by auto
    have "(k + n) mod 8 = 0" using B S by (metis dvd_add mod_0_imp_dvd mod_eq_0_iff_dvd)
    then have "segs_ok (merge_right (k + n) vs)" using S B by (intro segs_ok_merge_right) auto
    then show ?thesis using True B by (simp add: release_def k_def segs_ok_join)
  next
    case False
    then show ?thesis using S segs_ok_merge_right(1) [OF S(2-4)] by (auto simp: release_def segs_ok_join)
  qed
qed

lemma chain_last:
  assumes "prefix h p a us" "segs_ok us" "q = last_link p a us" "siz h p = 0" "p < a \<or> a + total us < p"
  shows "q + siz h q = a + total us \<longleftrightarrow> us \<noteq> [] \<and> \<not> snd (last us)"
    "us \<noteq> [] \<Longrightarrow> \<not> snd (last us) \<Longrightarrow> q = a + total (butlast us) \<and> siz h q = fst (last us)"
proof -
  have "(q + siz h q = a + total us \<longleftrightarrow> us \<noteq> [] \<and> \<not> snd (last us)) \<and>
    (us \<noteq> [] \<and> \<not> snd (last us) \<longrightarrow> q = a + total (butlast us) \<and> siz h q = fst (last us))"
    using assms(1)
  proof (cases rule: last_link_cases)
    case none
    then have "us \<noteq> [] \<Longrightarrow> snd (last us)" by auto
    then show ?thesis using none assms(3-5) by auto
  next
    case (free us1 k us2)
    show ?thesis
    proof (cases "us2 = []")
      case True
      then show ?thesis using free assms(3) by simp
    next
      case False
      then have "snd (last us)" using free by simp
      moreover have "segs_ok us2" using assms(2) free(1) by (simp add: segs_ok_append_Cons)
      then have "0 < total us2" using total_zero [of us2] False by simp
      ultimately show ?thesis using free assms(3) by simp
    qed
  qed
  then show "q + siz h q = a + total us \<longleftrightarrow> us \<noteq> [] \<and> \<not> snd (last us)"
    "us \<noteq> [] \<Longrightarrow> \<not> snd (last us) \<Longrightarrow> q = a + total (butlast us) \<and> siz h q = fst (last us)" by auto
qed

lemma chain_first:
  assumes "chain h p a vs" "segs_ok vs" "c = nxt h p"
  shows "a = c \<and> c \<noteq> pxEnd h \<longleftrightarrow> (\<exists>m ws. vs = (m, False) # ws)"
  using assms(1)
proof (cases rule: next_link_cases)
  case none
  then show ?thesis using assms(3) by auto
next
  case (free vs1 m vs2)
  have ok: "segs_ok vs1" "0 < m" using assms(2) free(1) by (auto simp: segs_ok_append_Cons)
  have e: "a + total vs = pxEnd h" using assms(1) by (simp add: chain_def)
  show ?thesis
  proof (cases "vs1 = []")
    case True
    then show ?thesis using free assms(3) ok(2) e by simp
  next
    case False
    then have "0 < total vs1" using total_zero [OF ok(1)] by simp
    moreover have "\<not> (\<exists>m ws. vs = (m, False) # ws)" using False free(1,2) by (cases vs1) auto
    ultimately show ?thesis using free(3) assms(3) by simp
  qed
qed

text \<open>Releasing a block gives its segment back, merged with its free neighbours.\<close>

lemma free_inv:
  assumes inv: "heap_inv h base (us @ (n, True) # vs)"
  shows "\<exists>h'. vPortFree (base + total us + 8) h = Some (Inr h') \<and> heap_inv h' base (release us n vs)"
proof -
  define q b where "q = last_link (xStart h) base us" and "b = base + total us"
  note S = heap_inv_split [OF inv, folded q_def b_def]
  have link: "nxt h b = 0" "siz h b = n + 2 ^ 31" "chain h q (b + n) vs" using S(10) by simp_all
  have G: "pxEnd h + 8 < 2 ^ 32" "xStart h < base \<or> pxEnd h < xStart h" "0 < base" "siz h (xStart h) = 0"
    "siz h (pxEnd h) = 0" "nxt h (pxEnd h) = 0" "xStart h \<noteq> 0" "base mod 8 = 0"
    "xStart h < 2 ^ 32"
    and fr: "xFreeBytesRemaining h = free_total (us @ (n, True) # vs)" "total (us @ (n, True) # vs) < 2 ^ 31"
    "segs_ok (us @ (n, True) # vs)"
    using inv by (auto simp: heap_inv_def)
  have be: "b + n + total vs = pxEnd h" "base \<le> b" using S(7) by (auto simp: b_def)
  have qr: "q < b \<or> pxEnd h < q" using S(2) G(2) be by auto
  define h2 where "h2 = (upd_blk b heapFREE_BLOCK h)\<lparr>xFreeBytesRemaining := xFreeBytesRemaining h + n\<rparr>"
  have fb: "heapFREE_BLOCK (mem h b) = \<lparr>pxNextFreeBlock = 0, xBlockSize = n\<rparr>"
    using link(1,2) clear_bit31 [OF S(11)]
    by (intro block_link.equality) (simp_all add: heapFREE_BLOCK_def)
  have m2: "mem h2 = (mem h)(b := \<lparr>pxNextFreeBlock = 0, xBlockSize = n\<rparr>)" and
    f2: "xStart h2 = xStart h" "pxEnd h2 = pxEnd h" "xFreeBytesRemaining h2 = xFreeBytesRemaining h + n"
    using fb by (simp_all add: h2_def)
  have qb: "q \<noteq> b" using qr be by auto
  have P2: "prefix h2 (xStart h) base us"
    by (rule prefix_frame [OF S(1) S(8)])
      (use G(2) be qb in \<open>auto simp: m2 b_def q_def [symmetric]\<close>)
  have C2: "chain h2 q (b + n) vs"
    by (rule chain_relink [OF link(3) S(9)]) (use qr be qb S(3) in \<open>auto simp: m2 f2\<close>)
  define c where "c = nxt h2 q"
  have cb: "b + n \<le> c" "c \<le> pxEnd h" using chain_next [OF C2 S(9)] by (auto simp: c_def f2)
  have start0: "siz h2 (xStart h) = 0" using G(2,4) be by (auto simp: m2)
  have ia: "insert_after h2 b (xStart h2) = Some (Inr q)"
    unfolding q_def f2(1)
    by (rule insert_after_ok [OF P2 S(8)])
      (use cb S(3) G(3,7) in \<open>auto simp: b_def c_def q_def\<close>)
  have p0: "xStart h < base \<or> base + total us < xStart h" using G(2) be S(3) by (auto simp: b_def)
  note L = chain_last [OF P2 S(8) q_def start0 p0, folded b_def]
  have R: "b + n = c \<and> c \<noteq> pxEnd h \<longleftrightarrow> (\<exists>m ws. vs = (m, False) # ws)"
    using chain_first [OF C2 S(9) c_def] by (simp add: f2)
  have head: "siz h2 c = m \<and> chain h2 c (c + m) ws" if "vs = (m, False) # ws" for m ws
    using C2 that R by (auto simp: chain_Cons c_def)
  have lim: "total us + n + total vs < 2 ^ 31" using fr(2) by simp
  have cm: "n + siz h2 c \<le> n + total vs" if "b + n = c" "c \<noteq> pxEnd h"
    using that R head by auto
  have kl: "siz h2 q \<le> total us" if "q + siz h2 q = b"
  proof -
    have ne: "us \<noteq> []" "\<not> snd (last us)" using that L(1) by auto
    have "us = butlast us @ [(fst (last us), False)]" by (rule free_last [OF ne])
    then have "total us = total (butlast us) + fst (last us)"
      by (metis add.right_neutral total.simps total_append)
    with L(2) [OF ne] show ?thesis by (metis le_add2)
  qed
  have qs: "q + siz h2 q < 2 ^ 32"
    using P2
  proof (cases rule: last_link_cases)
    case none
    then show ?thesis using start0 G(9) by (simp add: q_def)
  next
    case (free us1 k us2)
    then have "q + siz h2 q \<le> b" by (simp add: q_def b_def)
    then show ?thesis using be G(1) by simp
  qed
  have blen: "b + n + total vs < 2 ^ 32" using be G(1) by simp
  obtain h' where h': "prvInsertBlockIntoFreeList b h2 = Some (Inr h')" "xStart h' = xStart h" "pxEnd h' = pxEnd h"
    "xFreeBytesRemaining h' = xFreeBytesRemaining h + n"
    "mem h' = (let r = (b + n = c \<and> c \<noteq> pxEnd h2); nx = (if r then nxt h2 c else c); m = (if r then siz h2 c else 0)
      in if q + siz h2 q = b then (mem h2)(q := \<lparr>pxNextFreeBlock = nx, xBlockSize = siz h2 q + n + m\<rparr>)
         else (mem h2)(b := \<lparr>pxNextFreeBlock = nx, xBlockSize = n + m\<rparr>, q := (mem h2 q)\<lparr>pxNextFreeBlock := b\<rparr>))"
  proof -
    have "\<exists>h'. prvInsertBlockIntoFreeList b h2 = Some (Inr h') \<and> xStart h' = xStart h2 \<and> pxEnd h' = pxEnd h2 \<and>
      xFreeBytesRemaining h' = xFreeBytesRemaining h2 \<and>
      mem h' = (let r = (b + n = c \<and> c \<noteq> pxEnd h2); nx = (if r then nxt h2 c else c); m = (if r then siz h2 c else 0)
      in if q + siz h2 q = b then (mem h2)(q := \<lparr>pxNextFreeBlock = nx, xBlockSize = siz h2 q + n + m\<rparr>)
         else (mem h2)(b := \<lparr>pxNextFreeBlock = nx, xBlockSize = n + m\<rparr>, q := (mem h2 q)\<lparr>pxNextFreeBlock := b\<rparr>))"
    proof (rule insert_block_mem [OF ia])
      show "nxt h2 q = c" by (simp add: c_def)
      show "siz h2 b = n" by (simp add: m2)
      show "q \<noteq> b" by (rule qb)
      show "c \<noteq> q" "c \<noteq> b" using cb qr S(3) by auto
      show "add32 b n = b + n" using blen by (simp add: add32_small)
      show "add32 q (siz h2 q) = q + siz h2 q" using qs by (rule add32_small)
      show "add32 (siz h2 q) n = siz h2 q + n \<and> add32 q (siz h2 q + n) = q + siz h2 q + n" if "q + siz h2 q = b"
        using kl [OF that] that lim blen by (simp add: add32_small)
      show "add32 n (siz h2 c) = n + siz h2 c \<and>
         (q + siz h2 q = b \<longrightarrow> add32 (siz h2 q + n) (siz h2 c) = siz h2 q + n + siz h2 c)"
        if "b + n = c" "c \<noteq> pxEnd h2"
        using cm [OF that(1)] that(2) kl lim by (auto simp: f2 intro!: add32_small)
    qed
    then show thesis using that f2 by auto
  qed
  have sufR: "chain h' l (c + m) ws" if "vs = (m, False) # ws" "nxt h' l = nxt h2 c" "l \<in> {q, b}" for l m ws
  proof (rule chain_relink [OF head [OF that(1), THEN conjunct2] _ that(2)])
    have e: "b + n = c" "c + m + total ws = pxEnd h" using R that(1) be by auto
    have m0: "0 < m" using S(9) that(1) by simp
    show "segs_ok ws" using S(9) that(1) by simp
    show "pxEnd h' = pxEnd h2" by (simp add: h'(3) f2)
    show "c < c + m \<or> c + m + total ws \<le> c" using m0 by simp
    show "l < c + m \<or> c + m + total ws \<le> l" using that(3) e qr S(3) by auto
    show "\<forall>x. c + m \<le> x \<longrightarrow> x < c + m + total ws \<longrightarrow> mem h' x = mem h2 x"
      using e qr S(3) by (auto simp: h'(5) Let_def)
  qed
  have sufN: "chain h' l (b + n) vs" if "nxt h' l = c" "l \<in> {q, b}" for l
  proof (rule chain_relink [OF C2 S(9)])
    show "nxt h' l = nxt h2 q" using that(1) by (simp add: c_def)
    show "pxEnd h' = pxEnd h2" by (simp add: h'(3) f2)
    show "q < b + n \<or> b + n + total vs \<le> q" "l < b + n \<or> b + n + total vs \<le> l"
      using that(2) be qr S(3) by auto
    show "\<forall>x. b + n \<le> x \<longrightarrow> x < b + n + total vs \<longrightarrow> mem h' x = mem h2 x"
      using be qr S(3) by (auto simp: h'(5) Let_def)
  qed
  have nomerge: "merge_right k vs = (k, False) # vs" if "\<not> (b + n = c \<and> c \<noteq> pxEnd h)" for k
    using that R by (auto simp: merge_right_def split: list.splits prod.splits bool.splits)
  have chain': "chain h' (xStart h) base (release us n vs)"
  proof (cases "us \<noteq> [] \<and> \<not> snd (last us)")
    case True
    define us0 k where "us0 = butlast us" and "k = fst (last us)"
    have us: "us = us0 @ [(k, False)]" unfolding us0_def k_def using True by (intro free_last) auto
    have q: "q = base + total us0" "siz h2 q = k" "q + siz h2 q = b"
      using L True by (auto simp: us0_def k_def b_def)
    define q0 where "q0 = last_link (xStart h) base us0"
    have P0: "prefix h2 (xStart h) base us0" "nxt h2 q0 = q" and ok0: "segs_ok us0" "0 < k"
      using P2 S(8) by (auto simp: us prefix_append q0_def q(1) segs_ok_append_Cons)
    have q0q: "q0 \<noteq> q" using last_link_bounds [OF ok0(1), of "xStart h" base] G(2) be q by (auto simp: q0_def)
    have "prefix h' (xStart h) base us0"
      by (rule prefix_frame [OF P0(1) ok0(1)])
        (use G(2) be q in \<open>auto simp: h'(5) Let_def\<close>)
    moreover have "chain h' q0 q (merge_right (k + n) vs)"
    proof (cases "b + n = c \<and> c \<noteq> pxEnd h")
      case r: True
      then obtain m ws where vs: "vs = (m, False) # ws" using R by auto
      have eqn: "q + (k + n + m) = c + m" using r q by simp
      have "nxt h' q = nxt h2 c" using r q(2,3) by (simp add: h'(5) Let_def f2)
      then have "chain h' q (q + (k + n + m)) ws"
        unfolding eqn by (rule sufR [OF vs]) simp
      moreover have "siz h2 c = m" using head [OF vs] by simp
      ultimately show ?thesis
        using r q(2,3) q0q P0(2) by (simp add: merge_right_def vs chain_Cons h'(5) Let_def f2)
    next
      case r: False
      have eqn: "q + (k + n) = b + n" using q by simp
      have "nxt h' q = c" using r q(2,3) by (auto simp: h'(5) Let_def f2)
      then have "chain h' q (q + (k + n)) vs" unfolding eqn by (rule sufN) simp
      then show ?thesis
        using r q(2,3) q0q P0(2) by (simp only: nomerge [OF r]) (auto simp: chain_Cons h'(5) Let_def f2)
    qed
    ultimately show ?thesis
      using True by (simp add: release_def us0_def [symmetric] k_def [symmetric] chain_append q0_def q(1))
  next
    case False
    then have nl: "q + siz h2 q \<noteq> b" using L(1) by simp
    have "prefix h' (xStart h) base us"
      by (rule prefix_frame [OF P2 S(8)])
        (use G(2) be nl in \<open>auto simp: h'(5) Let_def q_def [symmetric] b_def [symmetric]\<close>)
    moreover have "chain h' q b (merge_right n vs)"
    proof (cases "b + n = c \<and> c \<noteq> pxEnd h")
      case r: True
      then obtain m ws where vs: "vs = (m, False) # ws" using R by auto
      have eqn: "b + (n + m) = c + m" using r by simp
      have "nxt h' b = nxt h2 c" using r nl qb by (simp add: h'(5) Let_def f2)
      then have "chain h' b (b + (n + m)) ws"
        unfolding eqn by (rule sufR [OF vs]) simp
      moreover have "siz h2 c = m" using head [OF vs] by simp
      ultimately show ?thesis
        using r nl qb by (simp add: merge_right_def vs chain_Cons h'(5) Let_def f2)
    next
      case r: False
      have "chain h' b (b + n) vs" by (rule sufN) (use r nl qb in \<open>auto simp add: h'(5) Let_def f2\<close>)
      then show ?thesis
        using r nl qb by (simp only: nomerge [OF r]) (auto simp: chain_Cons h'(5) Let_def f2)
    qed
    ultimately show ?thesis using False by (auto simp: release_def chain_append q_def b_def)
  qed
  have zero: "siz h' (xStart h) = 0" "siz h' (pxEnd h) = 0" "nxt h' (pxEnd h) = 0"
  proof -
    have "xStart h \<noteq> b" "pxEnd h \<noteq> b" "pxEnd h \<noteq> q" using G(2) be qr S(3) by auto
    moreover have "q + siz h2 q \<noteq> b \<or> xStart h \<noteq> q" using start0 G(2) be by auto
    ultimately show "siz h' (xStart h) = 0" "siz h' (pxEnd h) = 0" "nxt h' (pxEnd h) = 0"
      using G(4-6) start0 by (auto simp: h'(5) Let_def m2)
  qed
  have free: "xFreeBytesRemaining h' = free_total (release us n vs)" using h'(4) fr(1) by simp
  have call: "vPortFree (b + 8) h = Some (Inr (h'\<lparr>xNumberOfSuccessfulFrees := add32 (xNumberOfSuccessfulFrees h') 1\<rparr>))"
  proof -
    have "sub32 (b + 8) 8 = b" using be G(1) by (simp add: sub32_small)
    moreover have "heapBLOCK_IS_ALLOCATED (mem h b)"
      using link(2) bit31_alloc [OF S(11)] by (simp add: heapBLOCK_IS_ALLOCATED_def)
    moreover have "free_total us + free_total vs + n < 2 ^ 32"
      using fr(2) free_total_le [of us] free_total_le [of vs] by simp
    then have "add32 (xFreeBytesRemaining h) n = xFreeBytesRemaining h + n"
      using fr(1) by (simp add: add32_small)
    moreover have "siz (upd_blk b heapFREE_BLOCK h) b = n" using fb by simp
    ultimately show ?thesis
      using link(1) h'(1) by (simp add: vPortFree_def Let_def h2_def)
  qed
  have "heap_inv (h'\<lparr>xNumberOfSuccessfulFrees := add32 (xNumberOfSuccessfulFrees h') 1\<rparr>) base (release us n vs)"
  proof -
    have same: "chain (h'\<lparr>xNumberOfSuccessfulFrees := x\<rparr>) p a ss = chain h' p a ss" for x p a ss
    proof -
      have "prefix (h'\<lparr>xNumberOfSuccessfulFrees := x\<rparr>) p a ss = prefix h' p a ss"
        by (induction ss arbitrary: p a rule: total.induct) auto
      then show ?thesis by (simp add: chain_def)
    qed
    show ?thesis
      using chain' zero free G fr(2) segs_ok_release [OF fr(3)] h'(2,3)
      by (simp add: heap_inv_def same)
  qed
  then show ?thesis using call by (auto simp: b_def)
qed

section \<open>The first allocation\<close>

definition heap_base :: "heap4 \<Rightarrow> nat" where
  "heap_base h = align_down (ucHeap h + 7)"

lemma align_down_props: "align_down x mod 8 = 0" "align_down x \<le> x" "x < align_down x + 8"
proof -
  have "x mod 8 < 8" by simp
  then show "align_down x \<le> x" "x < align_down x + 8"
    using mod_less_eq_dividend [of x 8] by (simp_all add: align_down_def portBYTE_ALIGNMENT_def)
  have "align_down x = 8 * (x div 8)"
    by (simp add: align_down_def portBYTE_ALIGNMENT_def minus_mod_eq_mult_div)
  then show "align_down x mod 8 = 0" by simp
qed

lemma align_down_aligned: "x mod 8 = 0 \<Longrightarrow> align_down x = x"
  by (simp add: align_down_def portBYTE_ALIGNMENT_def)

text \<open>Initialisation leaves one free segment that covers the aligned arena up to the end marker.\<close>

lemma init_inv:
  assumes u: "0 < ucHeap h" "ucHeap h + configTOTAL_HEAP_SIZE + 8 < 2 ^ 32"
    and st: "0 < xStart h" "xStart h < 2 ^ 32"
      "xStart h < ucHeap h \<or> ucHeap h + configTOTAL_HEAP_SIZE < xStart h"
  shows "heap_inv (prvHeapInit h) (heap_base h)
     [(align_down (ucHeap h + configTOTAL_HEAP_SIZE - 8) - heap_base h, False)]"
proof -
  define T where "T = configTOTAL_HEAP_SIZE"
  have T: "T = 10240" by (simp add: T_def configTOTAL_HEAP_SIZE_def)
  define a e where "a = heap_base h" and "e = align_down (ucHeap h + T - 8)"
  have A: "a mod 8 = 0" "ucHeap h \<le> a" "a \<le> ucHeap h + 7"
    using align_down_props [of "ucHeap h + 7"] by (auto simp: a_def heap_base_def)
  have E: "e mod 8 = 0" "e \<le> ucHeap h + T - 8" "ucHeap h + T - 8 < e + 8"
    using align_down_props [of "ucHeap h + T - 8"] by (auto simp: e_def)
  have u32: "ucHeap h + T + 8 < 2 ^ 32" using u(2) by (simp add: T_def)
  have init: "prvHeapInit h = (let h1 = upd_blk (xStart h) (\<lambda>b. b\<lparr>pxNextFreeBlock := a, xBlockSize := 0\<rparr>) h;
      h2 = upd_blk e (\<lambda>b. b\<lparr>xBlockSize := 0, pxNextFreeBlock := 0\<rparr>) (h1\<lparr>pxEnd := e\<rparr>);
      h3 = upd_blk a (\<lambda>b. b\<lparr>xBlockSize := e - a, pxNextFreeBlock := e\<rparr>) h2
      in h3\<lparr>xMinimumEverFreeBytesRemaining := siz h3 a, xFreeBytesRemaining := siz h3 a\<rparr>)"
  proof -
    have ea: "sub32 e a = e - a" using A E u32 T by (intro sub32_small) auto
    show ?thesis
    proof (cases "align_mask (ucHeap h) \<noteq> 0")
      case True
      have s: "align_down (add32 (ucHeap h) (portBYTE_ALIGNMENT - 1)) = a"
        using u32 T by (simp add: a_def heap_base_def portBYTE_ALIGNMENT_def add32_small)
      have t: "sub32 T (sub32 a (ucHeap h)) = T - (a - ucHeap h)"
        using A u32 T by (simp add: sub32_small)
      have "add32 a (T - (a - ucHeap h)) = ucHeap h + T" using A u32 T by (simp add: add32_small)
      then have "align_down (sub32 (add32 a (T - (a - ucHeap h))) 8) = e"
        using u32 T by (simp add: e_def sub32_small)
      then show ?thesis
        using True s t ea by (simp add: prvHeapInit_def T_def Let_def)
    next
      case False
      then have m: "ucHeap h mod 8 = 0" by (simp add: align_mask_def portBYTE_ALIGNMENT_def)
      have "a = ucHeap h"
      proof -
        have "(ucHeap h + 7) mod 8 = 7" using m by presburger
        then show ?thesis by (simp add: a_def heap_base_def align_down_def portBYTE_ALIGNMENT_def)
      qed
      moreover have "align_down (sub32 (add32 (ucHeap h) T) 8) = e"
        using u32 T by (simp add: e_def sub32_small add32_small)
      ultimately show ?thesis using False ea by (simp add: prvHeapInit_def T_def Let_def)
    qed
  qed
  have ne: "a \<noteq> e" "a < e" "xStart h \<noteq> a" "xStart h \<noteq> e" using A E T st(3) by (auto simp: T_def [symmetric])
  have mm: "mem (prvHeapInit h) = (mem h)(xStart h := (mem h (xStart h))\<lparr>pxNextFreeBlock := a, xBlockSize := 0\<rparr>,
      e := \<lparr>pxNextFreeBlock = 0, xBlockSize = 0\<rparr>, a := \<lparr>pxNextFreeBlock = e, xBlockSize = e - a\<rparr>)"
    using ne by (simp add: init Let_def fun_eq_iff)
  have ff: "pxEnd (prvHeapInit h) = e" "xStart (prvHeapInit h) = xStart h"
    "xFreeBytesRemaining (prvHeapInit h) = e - a"
    using ne by (simp_all add: init Let_def)
  have "8 dvd e - a" using A(1) E(1) by (simp add: dvd_diff_nat mod_0_imp_dvd)
  moreover have "e - a < 2 ^ 31" "xStart h < a \<or> e < xStart h"
    using A E T st(3) by (auto simp: T_def [symmetric])
  ultimately have "heap_inv (prvHeapInit h) a [(e - a, False)]"
    using ne A E T st u u32 by (simp add: heap_inv_def chain_def mm ff)
  then show ?thesis by (simp add: a_def e_def T_def)
qed

section \<open>The allocator's contract\<close>

text \<open>A concrete heap, as the linker may place it.\<close>

definition heap_w :: heap4 where
  "heap_w = \<lparr>ucHeap = 0x20000004, xStart = 0x20008000, mem = (\<lambda>_. \<lparr>pxNextFreeBlock = 0, xBlockSize = 0\<rparr>),
     pxEnd = 0, xFreeBytesRemaining = 0, xMinimumEverFreeBytesRemaining = 0,
     xNumberOfSuccessfulAllocations = 0, xNumberOfSuccessfulFrees = 0\<rparr>"

lemma heap_w_inv: "heap_inv (prvHeapInit heap_w) 0x20000008 [(10224, False)]"
proof -
  have "heap_inv (prvHeapInit heap_w) (heap_base heap_w)
     [(align_down (ucHeap heap_w + configTOTAL_HEAP_SIZE - 8) - heap_base heap_w, False)]"
    by (rule init_inv) (simp_all add: heap_w_def configTOTAL_HEAP_SIZE_def)
  then show ?thesis
    by (simp add: heap_w_def heap_base_def align_down_def portBYTE_ALIGNMENT_def configTOTAL_HEAP_SIZE_def)
qed

text \<open>Wherever the linker places the arena, the first allocation finds one free block that
  starts at the first aligned address and ends at the aligned end marker, and every byte of it
  counts as free.\<close>

theorem prvHeapInit_establishes:
  assumes "0 < ucHeap h" "ucHeap h + configTOTAL_HEAP_SIZE + 8 < 2 ^ 32"
    and "0 < xStart h" "xStart h < 2 ^ 32" "xStart h < ucHeap h \<or> ucHeap h + configTOTAL_HEAP_SIZE < xStart h"
  shows "heap_inv (prvHeapInit h) (heap_base h)
     [(align_down (ucHeap h + configTOTAL_HEAP_SIZE - 8) - heap_base h, False)]"
  by (rule init_inv [OF assms])

theorem prvHeapInit_establishes_witness:
  "heap_inv (prvHeapInit heap_w) (heap_base heap_w)
     [(align_down (ucHeap heap_w + configTOTAL_HEAP_SIZE - 8) - heap_base heap_w, False)]"
  by (rule prvHeapInit_establishes) (simp_all add: heap_w_def configTOTAL_HEAP_SIZE_def)

text \<open>C31: \<open>pvPortMalloc\<close> is first fit: if some free block is large enough for the request, its
  header and the alignment, the first such block is returned, 8-byte aligned and with room for
  the request behind its header; a rest of more than two headers stays free; the invariant of
  the heap, in particular that blocks do not overlap and no byte is lost, is kept.\<close>

theorem pvPortMalloc_first_fit:
  assumes "heap_inv h base (us @ (n, False) # vs)" "x < 2 ^ 32"
    and "wanted_size x \<noteq> 0" "wanted_size x \<le> n" "\<forall>s \<in> set us. too_small (wanted_size x) s"
  shows "\<exists>p h'. pvPortMalloc x h = Some (Inr (p, h')) \<and> p = base + total us + 8 \<and> p mod 8 = 0 \<and>
    x + 8 \<le> alloc_size (wanted_size x) n \<and> p + x \<le> base + total us + alloc_size (wanted_size x) n \<and>
    heap_inv h' base (us @ alloc_segs (wanted_size x) n @ vs)"
proof -
  have "x + 8 \<le> wanted_size x" using wanted_size_ok [OF assms(2)] assms(3) by auto
  then have "x + 8 \<le> alloc_size (wanted_size x) n" using assms(4) by (simp add: alloc_size_def)
  moreover have "(base + total us + 8) mod 8 = 0" using heap_inv_split(6) [OF assms(1)] by simp
  ultimately show ?thesis using malloc_inv [OF assms] by auto
qed

theorem pvPortMalloc_first_fit_witness:
  "\<exists>p h'. pvPortMalloc 100 (prvHeapInit heap_w) = Some (Inr (p, h')) \<and>
    p = 0x20000008 + total [] + 8 \<and> p mod 8 = 0 \<and>
    100 + 8 \<le> alloc_size (wanted_size 100) 10224 \<and>
    p + 100 \<le> 0x20000008 + total [] + alloc_size (wanted_size 100) 10224 \<and>
    heap_inv h' 0x20000008 ([] @ alloc_segs (wanted_size 100) 10224 @ [])"
  by (rule pvPortMalloc_first_fit)
    (use heap_w_inv in \<open>simp_all add: wanted_size_def heapADD_WILL_OVERFLOW_def heapSIZE_MAX_def
      align_mask_def portBYTE_ALIGNMENT_def add32_def\<close>)

text \<open>\<open>pvPortMalloc\<close> returns NULL and leaves the heap as it was when the padded size
  overflows \<open>size_t\<close> or no free block is large enough.\<close>

theorem pvPortMalloc_null:
  assumes "heap_inv h base ss" "wanted_size x = 0 \<or> (\<forall>s \<in> set ss. too_small (wanted_size x) s)"
  shows "pvPortMalloc x h = Some (Inr (0, h))"
  by (rule malloc_fails_inv [OF assms])

theorem pvPortMalloc_null_witness: "pvPortMalloc 0xfffffff8 (prvHeapInit heap_w) = Some (Inr (0, prvHeapInit heap_w))"
  by (rule pvPortMalloc_null [OF heap_w_inv])
    (simp add: wanted_size_def heapADD_WILL_OVERFLOW_def heapSIZE_MAX_def)

text \<open>C32: \<open>vPortFree\<close> gives a block back and merges it with a free neighbour on either side, so
  that no two free blocks are ever adjacent; the search for the place in the list returns.\<close>

theorem vPortFree_coalesces:
  assumes "heap_inv h base (us @ (n, True) # vs)"
  shows "\<exists>h'. vPortFree (base + total us + 8) h = Some (Inr h') \<and> heap_inv h' base (release us n vs)"
  by (rule free_inv [OF assms])

lemma wanted_100: "wanted_size 100 = 112"
  by (simp add: wanted_size_def heapADD_WILL_OVERFLOW_def heapSIZE_MAX_def align_mask_def
      portBYTE_ALIGNMENT_def add32_def)

lemma heap_w_alloc: "\<exists>h'. pvPortMalloc 100 (prvHeapInit heap_w) = Some (Inr (0x20000010, h')) \<and>
    heap_inv h' 0x20000008 ([] @ (112, True) # [(10112, False)])"
proof -
  have "heap_inv (prvHeapInit heap_w) 0x20000008 ([] @ (10224, False) # [])" using heap_w_inv by simp
  from malloc_inv [OF this, where x = 100] show ?thesis by (simp add: wanted_100 alloc_segs_def)
qed

theorem vPortFree_coalesces_witness:
  "\<exists>h1 h2. pvPortMalloc 100 (prvHeapInit heap_w) = Some (Inr (0x20000010, h1)) \<and>
     vPortFree (0x20000008 + total [] + 8) h1 = Some (Inr h2) \<and>
     heap_inv h2 0x20000008 (release [] 112 [(10112, False)])"
proof -
  obtain h1 where h1: "pvPortMalloc 100 (prvHeapInit heap_w) = Some (Inr (0x20000010, h1))"
    "heap_inv h1 0x20000008 ([] @ (112, True) # [(10112, False)])"
    using heap_w_alloc by blast
  from vPortFree_coalesces [OF h1(2)] h1(1) show ?thesis by blast
qed

text \<open>Freeing what was just allocated restores the heap's tiling: the split-off rest is
  merged back, so allocate-and-free pairs do not fragment the heap.\<close>

theorem malloc_free_roundtrip:
  assumes "heap_inv h base (us @ (n, False) # vs)" "x < 2 ^ 32"
    and "wanted_size x \<noteq> 0" "wanted_size x \<le> n" "\<forall>s \<in> set us. too_small (wanted_size x) s"
  shows "\<exists>p h1 h2. pvPortMalloc x h = Some (Inr (p, h1)) \<and> vPortFree p h1 = Some (Inr h2) \<and>
    heap_inv h2 base (us @ (n, False) # vs)"
proof -
  define w where "w = wanted_size x"
  obtain h1 where h1: "pvPortMalloc x h = Some (Inr (base + total us + 8, h1))"
    "heap_inv h1 base (us @ alloc_segs w n @ vs)"
    using malloc_inv [OF assms] by (auto simp: w_def)
  define m ws where "m = alloc_size w n" and "ws = (if n - w > 16 then (n - w, False) # vs else vs)"
  have e: "us @ alloc_segs w n @ vs = us @ (m, True) # ws"
    by (simp add: alloc_segs_def alloc_size_def m_def ws_def)
  have ok: "segs_ok (us @ (n, False) # vs)" using assms(1) by (simp add: heap_inv_def)
  then have nb: "us = [] \<or> snd (last us)" "vs = [] \<or> snd (hd vs)"
    by (auto simp: segs_ok_append_Cons)
  have "release us m ws = us @ (n, False) # vs"
  proof (cases "n - w > 16")
    case True
    then show ?thesis using nb(1) assms(4)
      by (auto simp: release_def merge_right_def m_def ws_def alloc_size_def w_def)
  next
    case False
    then show ?thesis using nb
      by (cases vs) (auto simp: release_def merge_right_def m_def ws_def alloc_size_def split: bool.splits)
  qed
  then show ?thesis using free_inv [where us = us and n = m and vs = ws and h = h1 and base = base] h1 e by auto
qed

theorem malloc_free_roundtrip_witness:
  "\<exists>p h1 h2. pvPortMalloc 100 (prvHeapInit heap_w) = Some (Inr (p, h1)) \<and> vPortFree p h1 = Some (Inr h2) \<and>
    heap_inv h2 0x20000008 ([] @ (10224, False) # [])"
  by (rule malloc_free_roundtrip) (use heap_w_inv in \<open>simp_all add: wanted_100\<close>)

end
