(* ===== verification/PeriodicTask.thy ===== *)
theory PeriodicTask
  imports TaskManager
begin

text \<open>
  The code the tasks run: \<open>Periodic_Job\<close> of \<open>smp_test/task_manager.c\<close>, \<open>run_task\<close>, the task
  functions and the monitor of \<open>smp_test/main.c\<close>, and the four tasks of \<open>led_task/main.c\<close>.

  Time is what the task observes: \<open>clk n\<close> is the value its \<open>n\<close>-th call of
  \<open>xTaskGetTickCount\<close> returns, and every such call, those in the arguments of \<open>printf\<close>
  included, takes the next reading.  The kernel calls a task makes are recorded in order.
  \<^term>\<open>None\<close> is a busy-waiting loop that never ends.  A task that enters its
  \<open>while(true);\<close> after a missed deadline is \<open>Hung\<close>.
\<close>

section \<open>The environment of a task\<close>

type_synonym clock = "nat \<Rightarrow> u32"

datatype tcall =
    CallSuspend "handle option"
  | CallResume "handle option"
  | CallDelay u32
  | CallDelayUntil u32 u32 \<comment> \<open>previous wake time, period\<close>
  | CallDelete "handle option"
  | CallSleep nat \<comment> \<open>\<open>sleep_ms\<close>\<close>

record trun =
  reads :: nat
  tcalls :: "tcall list"
  schedulable :: bool

datatype 'a outcome = Going 'a | Hung 'a

definition issue :: "tcall \<Rightarrow> trun \<Rightarrow> trun" where
  "issue c s = s\<lparr>tcalls := tcalls s @ [c]\<rparr>"

definition skip_reads :: "nat \<Rightarrow> trun \<Rightarrow> trun" where
  "skip_reads k s = s\<lparr>reads := reads s + k\<rparr>"

definition pdMS_TO_TICKS :: "u32 \<Rightarrow> u32" where
  "pdMS_TO_TICKS ms = (ucast ((ucast ms * 100 :: 64 word) div 1000) :: u32)"

definition sync_R :: u32 where "sync_R = 10"

section \<open>One job\<close>

text \<open>\<open>while(xTaskGetTickCount() < counter)\<close>, from reading \<open>n\<close> on; the result is the next reading.\<close>

partial_function (option) busy_wait :: "clock \<Rightarrow> u32 \<Rightarrow> nat \<Rightarrow> nat option" where
  "busy_wait clk counter n =
     (if clk n < counter then busy_wait clk counter (Suc n) else Some (Suc n))"

text \<open>The loop over the \<open>Runtime\<close> ticks; \<open>counter\<close> is what the last iteration left.\<close>

fun run_ticks :: "clock \<Rightarrow> nat \<Rightarrow> u32 \<Rightarrow> nat \<Rightarrow> (u32 \<times> nat) option" where
  "run_ticks clk 0 counter n = Some (counter, n)"
| "run_ticks clk (Suc k) counter n =
     (case busy_wait clk (clk n + 1) (Suc n) of
        None \<Rightarrow> None | Some m \<Rightarrow> run_ticks clk k (clk n + 1) m)"

text \<open>\<open>Periodic_Job(T, Deadline)\<close>: whether the deadline was met, and the next reading.\<close>

definition Periodic_Job :: "clock \<Rightarrow> task_info \<Rightarrow> u16 \<Rightarrow> nat \<Rightarrow> (bool \<times> nat) option" where
  "Periodic_Job clk T Deadline n =
     (let end_tick = clk n + ucast (Runtime T);
          n1 = n + 2 \<comment> \<open>the second reading is an argument of \<open>printf\<close>\<close>
      in if end_tick > ucast Deadline then Some (False, Suc n1)
         else case run_ticks clk (unat (Runtime T)) 0 n1 of
           None \<Rightarrow> None
         | Some (counter, m) \<Rightarrow>
             if clk m > ucast Deadline then Some (False, m + 2) else Some (True, Suc m))"

section \<open>The tasks of \<open>smp_test\<close>\<close>

definition run_task :: "clock \<Rightarrow> task_info \<Rightarrow> u32 \<Rightarrow> trun \<Rightarrow> (u32 \<times> trun) outcome option" where
  "run_task clk Task Last s =
     (let Deadline = Last + Period Task;
          s1 = (if Dependency Task then issue (CallSuspend (my_ptr Task)) (skip_reads 1 s) else s)
      in case Periodic_Job clk Task (ucast Deadline) (reads s1) of
           None \<Rightarrow> None
         | Some (flag, n) \<Rightarrow>
             let s2 = s1\<lparr>reads := n\<rparr> in
             if \<not> flag then Some (Hung (Last, s2\<lparr>schedulable := False\<rparr>))
             else let s3 = (if splitted_ptr Task \<noteq> None then issue (CallResume (splitted_ptr Task)) s2 else s2)
                  in Some (Going (Last + Period Task, issue (CallDelayUntil Last (Period Task)) s3)))"

fun run_task_loop :: "clock \<Rightarrow> task_info \<Rightarrow> nat \<Rightarrow> u32 \<Rightarrow> trun \<Rightarrow> (u32 \<times> trun) outcome option" where
  "run_task_loop clk Task 0 Last s = Some (Going (Last, s))"
| "run_task_loop clk Task (Suc k) Last s =
     (case run_task clk Task Last s of
        None \<Rightarrow> None
      | Some (Hung r) \<Rightarrow> Some (Hung r)
      | Some (Going (Last', s')) \<Rightarrow> run_task_loop clk Task k Last' s')"

text \<open>A task function copies its table entry when it starts; \<open>k\<close> rounds of its endless loop.\<close>

definition task_function :: "nat \<Rightarrow> clock \<Rightarrow> task_info list \<Rightarrow> nat \<Rightarrow> trun \<Rightarrow> (u32 \<times> trun) outcome option" where
  "task_function task_num clk tab k s =
     (let Task = tab ! task_num;
          LastRequestTime = clk (reads s);
          s1 = issue (CallDelay (pdMS_TO_TICKS sync_R)) (skip_reads 1 s)
      in run_task_loop clk Task k LastRequestTime s1)"

definition vTask0 :: "clock \<Rightarrow> task_info list \<Rightarrow> nat \<Rightarrow> trun \<Rightarrow> (u32 \<times> trun) outcome option" where
  "vTask0 = task_function 0"
definition vTask1 :: "clock \<Rightarrow> task_info list \<Rightarrow> nat \<Rightarrow> trun \<Rightarrow> (u32 \<times> trun) outcome option" where
  "vTask1 = task_function 1"
definition vTask2 :: "clock \<Rightarrow> task_info list \<Rightarrow> nat \<Rightarrow> trun \<Rightarrow> (u32 \<times> trun) outcome option" where
  "vTask2 = task_function 2"
definition vTask3 :: "clock \<Rightarrow> task_info list \<Rightarrow> nat \<Rightarrow> trun \<Rightarrow> (u32 \<times> trun) outcome option" where
  "vTask3 = task_function 3"
definition vTask4 :: "clock \<Rightarrow> task_info list \<Rightarrow> nat \<Rightarrow> trun \<Rightarrow> (u32 \<times> trun) outcome option" where
  "vTask4 = task_function 4"
definition vTask5 :: "clock \<Rightarrow> task_info list \<Rightarrow> nat \<Rightarrow> trun \<Rightarrow> (u32 \<times> trun) outcome option" where
  "vTask5 = task_function 5"
definition vTask6 :: "clock \<Rightarrow> task_info list \<Rightarrow> nat \<Rightarrow> trun \<Rightarrow> (u32 \<times> trun) outcome option" where
  "vTask6 = task_function 6"
definition vTask7 :: "clock \<Rightarrow> task_info list \<Rightarrow> nat \<Rightarrow> trun \<Rightarrow> (u32 \<times> trun) outcome option" where
  "vTask7 = task_function 7"

text \<open>
  \<open>MonitorTask\<close>: the periods are converted to \<open>int\<close>; the verdict is the value of \<open>schedulable\<close>
  when the delay is over, an argument here because the other tasks write it meanwhile.
\<close>

definition MonitorTask :: "task_info list \<Rightarrow> bool \<Rightarrow> trun \<Rightarrow> fault + (bool \<times> trun)" where
  "MonitorTask tab sched_at_end s =
     bindE (calculate_lcm (map (\<lambda>i. sint (Period (tab ! i))) [0..<NUM_OF_TASK])) (\<lambda>l.
       let lcm_ticks = word_of_int l :: u32;
           s1 = issue (CallDelay (lcm_ticks + 1)) (skip_reads 1 s);
           s2 = s1\<lparr>schedulable := sched_at_end\<rparr>;
           s3 = fold (\<lambda>i. issue (CallDelete (my_ptr (tab ! i)))) [0..<MAX_NUM_TASKS] s2
       in Inr (schedulable s2, issue (CallDelete None) s3))"

section \<open>The tasks of \<open>led_task\<close>\<close>

text \<open>One round: \<open>Inl\<close> is the \<open>return\<close> after a deadline overflow.\<close>

definition led_round :: "clock \<Rightarrow> u16 \<Rightarrow> u32 \<Rightarrow> u32 \<Rightarrow> trun \<Rightarrow> trun + (u32 \<times> trun)" where
  "led_round clk Run_tick per Last s =
     (let Deadline = Last + per; n = reads s in
      if clk n + ucast Run_tick \<ge> Deadline
      then Inl (issue (CallSleep 5000) (skip_reads 1 s))
      else let s1 = fold (\<lambda>_. issue (CallSleep 10)) [0..<unat Run_tick] (skip_reads 2 s) in
        if clk (reads s1) > Deadline
        then Inl (issue (CallSleep 5000) (skip_reads 1 s1))
        else Inr (Last + per, issue (CallDelayUntil Last per) (skip_reads 2 s1)))"

fun led_loop :: "clock \<Rightarrow> u16 \<Rightarrow> u32 \<Rightarrow> nat \<Rightarrow> u32 \<Rightarrow> trun \<Rightarrow> trun + (u32 \<times> trun)" where
  "led_loop clk Run_tick per 0 Last s = Inr (Last, s)"
| "led_loop clk Run_tick per (Suc k) Last s =
     bindE (led_round clk Run_tick per Last s) (\<lambda>(Last', s'). led_loop clk Run_tick per k Last' s')"

definition led_function :: "u16 \<Rightarrow> u32 \<Rightarrow> clock \<Rightarrow> nat \<Rightarrow> trun \<Rightarrow> trun + (u32 \<times> trun)" where
  "led_function Run_tick per clk k s =
     led_loop clk Run_tick per k (clk (reads s)) (issue (CallDelay (pdMS_TO_TICKS sync_R)) (skip_reads 1 s))"

definition task1 :: "clock \<Rightarrow> nat \<Rightarrow> trun \<Rightarrow> trun + (u32 \<times> trun)" where
  "task1 = led_function 10 50"
definition task2 :: "clock \<Rightarrow> nat \<Rightarrow> trun \<Rightarrow> trun + (u32 \<times> trun)" where
  "task2 = led_function 40 100"
definition task3 :: "clock \<Rightarrow> nat \<Rightarrow> trun \<Rightarrow> trun + (u32 \<times> trun)" where
  "task3 = led_function 10 60"
definition task4 :: "clock \<Rightarrow> nat \<Rightarrow> trun \<Rightarrow> trun + (u32 \<times> trun)" where
  "task4 = led_function 10 200"

text \<open>The \<open>xTaskCreate\<close> calls of \<open>led_task\<close>'s \<open>main\<close>: task function, stack depth, priority.\<close>

definition led_creates :: "(nat \<times> nat \<times> u32) list" where
  "led_creates = [(1, 256, 4), (2, 256, 3), (3, 256, 2), (4, 256, 1)]"

end
