(* ===== verification/PeriodicProps.thy ===== *)
theory PeriodicProps
  imports PeriodicTask TaskManagerProps Partition
begin

text \<open>
  What the periodic tasks guarantee: a job returns when time passes, a job that reports success
  has received its execution time before its deadline, releases do not drift, and every job
  after tick 65535 is reported as missed because \<open>Periodic_Job\<close> takes its deadline as a
  \<open>uint16_t\<close>.
\<close>

section \<open>Clocks\<close>

definition mono_clock :: "clock \<Rightarrow> bool" where
  "mono_clock clk = (\<forall>i j. i \<le> j \<longrightarrow> clk i \<le> clk j)"

definition ticking :: "clock \<Rightarrow> bool" where
  "ticking clk = (\<forall>n. clk n \<noteq> -1 \<longrightarrow> (\<exists>m > n. clk n < clk m))"

text \<open>A task that polls once per tick, with a clock that stays at its maximum.\<close>

definition clock_w :: clock where
  "clock_w n = (if n < 2 ^ 32 - 1 then word_of_nat n else -1)"

lemma unat_clock_w: "unat (clock_w n) = min n (2 ^ 32 - 1)"
  by (simp add: clock_w_def unat_of_nat take_bit_nat_eq_self unsigned_minus_1_eq_mask mask_eq_exp_minus_1)

lemma mono_clock_w: "mono_clock clock_w"
  by (auto simp: mono_clock_def word_le_nat_alt unat_clock_w)

lemma ticking_clock_w: "ticking clock_w"
proof -
  have "\<exists>m > n. clock_w n < clock_w m" if "clock_w n \<noteq> -1" for n
  proof -
    have "n < 2 ^ 32 - 1" using that by (simp add: clock_w_def split: if_splits)
    then show ?thesis by (intro exI [of _ "Suc n"]) (simp add: word_less_nat_alt unat_clock_w)
  qed
  then show ?thesis by (simp add: ticking_def)
qed

lemma unat_succ: "a < -1 \<Longrightarrow> unat (a + 1) = Suc (unat a)" for a :: u32
  by (metis add.commute add.right_neutral add_diff_cancel_right' add_eq_0_iff less_irrefl unatSuc)

lemma unat_u16: "unat (ucast d :: u32) = unat d" "unat d < 65536" for d :: u16
proof -
  show "unat d < 65536" using unsigned_less [where ?'a = nat, of d] by simp
  then show "unat (ucast d :: u32) = unat d" by (simp add: unsigned_ucast_eq take_bit_nat_eq_self)
qed

section \<open>Busy waiting\<close>

lemma busy_wait_Some:
  assumes "busy_wait clk c n = Some m"
  shows "n < m \<and> \<not> clk (m - 1) < c"
proof (rule busy_wait.raw_induct [OF _ assms])
  fix bw clk c n m
  assume ih: "\<And>clk c n m. bw clk c n = Some m \<Longrightarrow> n < m \<and> \<not> clk (m - 1) < c"
    and eq: "(if clk n < c then bw clk c (Suc n) else Some (Suc n)) = Some m"
  show "n < m \<and> \<not> clk (m - 1) < c"
  proof (cases "clk n < c")
    case True
    then have "Suc n < m \<and> \<not> clk (m - 1) < c" using ih eq by simp
    then show ?thesis by simp
  qed (use eq in auto)
qed

lemma busy_wait_returns: "n \<le> k \<Longrightarrow> c \<le> clk k \<Longrightarrow> \<exists>m. busy_wait clk c n = Some m"
proof (induction "k - n" arbitrary: n)
  case 0
  then have "\<not> clk n < c" by auto
  then show ?case by (simp add: busy_wait.simps [of clk c n])
next
  case (Suc d)
  have "\<exists>m. busy_wait clk c (Suc n) = Some m" using Suc by auto
  then show ?case by (simp add: busy_wait.simps [of clk c n])
qed

lemma busy_wait_tick:
  assumes "mono_clock clk" "ticking clk"
  shows "\<exists>m. busy_wait clk (clk n + 1) (Suc n) = Some m"
proof (cases "clk n = -1")
  case True
  then show ?thesis by (intro busy_wait_returns [of _ "Suc n"]) auto
next
  case False
  then obtain m where m: "m > n" "clk n < clk m" using assms(2) by (auto simp: ticking_def)
  then show ?thesis by (intro busy_wait_returns [of _ m]) (auto simp: inc_le)
qed

lemma run_ticks_returns:
  assumes "mono_clock clk" "ticking clk"
  shows "\<exists>c' m. run_ticks clk k c n = Some (c', m)"
proof (induction k arbitrary: c n)
  case (Suc k)
  show ?case using busy_wait_tick [OF assms, of n] Suc.IH by auto
qed simp

lemma run_ticks_le: "run_ticks clk k c n = Some (c', m) \<Longrightarrow> n \<le> m"
proof (induction k arbitrary: c n)
  case (Suc k)
  obtain b where b: "busy_wait clk (clk n + 1) (Suc n) = Some b"
    using Suc.prems by (auto split: option.splits)
  then have "Suc n < b" by (simp add: busy_wait_Some)
  moreover have "b \<le> m" using Suc b by simp
  ultimately show ?case by simp
qed simp

text \<open>Each of the \<open>k\<close> iterations waits for a tick, as long as the clock does not wrap.\<close>

lemma run_ticks_elapsed:
  assumes "mono_clock clk" "run_ticks clk k c n = Some (c', m)" "m \<le> j" "clk j < -1"
  shows "unat (clk n) + k \<le> unat (clk j)"
  using assms(2)
proof (induction k arbitrary: c n)
  case 0
  then show ?case using assms by (simp add: mono_clock_def word_le_nat_alt)
next
  case (Suc k)
  obtain b where b: "busy_wait clk (clk n + 1) (Suc n) = Some b" "run_ticks clk k (clk n + 1) b = Some (c', m)"
    using Suc.prems by (auto split: option.splits)
  have bm: "Suc n < b" "\<not> clk (b - 1) < clk n + 1" using busy_wait_Some [OF b(1)] by auto
  have "n \<le> j" using run_ticks_le [OF Suc.prems] assms(3) by simp
  then have "clk n \<le> clk j" using assms(1) by (simp add: mono_clock_def)
  then have "clk n < -1" using assms(4) by simp
  then have "unat (clk n + 1) = Suc (unat (clk n))"
    using unat_succ by blast
  moreover have "clk (b - 1) \<le> clk b" using assms(1) by (simp add: mono_clock_def)
  ultimately have "Suc (unat (clk n)) \<le> unat (clk b)"
    using bm(2) by (simp add: not_less word_le_nat_alt)
  then show ?case using Suc.IH [OF b(2)] by simp
qed

section \<open>One job\<close>

lemma Periodic_Job_cases:
  assumes "mono_clock clk" "Periodic_Job clk T D n = Some (ok, m)"
  shows "n + 2 \<le> m - 1 \<and> (if ok
    then unat (clk n) + unat (Runtime T) \<le> unat (clk (m - 1)) \<and> clk (m - 1) \<le> ucast D
    else clk n + ucast (Runtime T) > ucast D \<or> (\<exists>j. n < j \<and> j < m \<and> clk j > ucast D))"
proof (cases "clk n + ucast (Runtime T) > ucast D")
  case True
  then show ?thesis using assms(2) by (auto simp: Periodic_Job_def)
next
  case no: False
  then obtain c j where r: "run_ticks clk (unat (Runtime T)) 0 (n + 2) = Some (c, j)"
    and res: "(if clk j > ucast D then (False, j + 2) else (True, Suc j)) = (ok, m)"
    using assms(2) by (auto simp: Periodic_Job_def Let_def split: option.splits if_splits)
  have j: "n + 2 \<le> j" by (rule run_ticks_le [OF r])
  show ?thesis
  proof (cases "clk j > ucast D")
    case True
    then have "m = j + 2" "\<not> ok" using res by simp_all
    moreover have "n < j \<and> j < j + 2" using j by simp
    ultimately show ?thesis using True by auto
  next
    case False
    have "(ucast D :: u32) < -1"
      using unat_u16 [of D] by (simp add: word_less_nat_alt unsigned_minus_1_eq_mask mask_eq_exp_minus_1)
    then have "clk j < -1" using False by (simp add: not_less)
    then have "unat (clk (n + 2)) + unat (Runtime T) \<le> unat (clk j)"
      by (rule run_ticks_elapsed [OF assms(1) r order_refl])
    moreover have "unat (clk n) \<le> unat (clk (n + 2))"
      using assms(1) by (simp add: mono_clock_def word_le_nat_alt)
    ultimately show ?thesis using res j False by (auto simp: not_less)
  qed
qed

lemma Periodic_Job_total:
  assumes "mono_clock clk" "ticking clk"
  shows "\<exists>ok m. Periodic_Job clk T D n = Some (ok, m)"
proof -
  obtain c j where "run_ticks clk (unat (Runtime T)) 0 (n + 2) = Some (c, j)"
    using run_ticks_returns [OF assms] by blast
  then show ?thesis by (cases "clk n + ucast (Runtime T) > ucast D"; cases "clk j > ucast D")
    (simp_all add: Periodic_Job_def Let_def ex_bool_eq)
qed

text \<open>C37: As long as time passes, \<open>Periodic_Job\<close> returns; it reports success only if the job got
  its \<open>Runtime\<close> ticks by its deadline, and a miss only if the ticks left before the first reading
  were too few or a later reading is past the deadline.\<close>

theorem Periodic_Job_verdict:
  assumes "mono_clock clk" "ticking clk"
  shows "\<exists>ok m. Periodic_Job clk T D n = Some (ok, m) \<and> n < m \<and> (if ok
    then unat (clk n) + unat (Runtime T) \<le> unat (clk (m - 1)) \<and> clk (m - 1) \<le> ucast D
    else clk n + ucast (Runtime T) > ucast D \<or> (\<exists>j. n < j \<and> j < m \<and> clk j > ucast D))"
proof -
  obtain ok m where r: "Periodic_Job clk T D n = Some (ok, m)" using Periodic_Job_total [OF assms] by blast
  then show ?thesis using Periodic_Job_cases [OF assms(1) r] by (intro exI [of _ ok] exI [of _ m]) auto
qed

theorem Periodic_Job_verdict_witness:
  "\<exists>ok m. Periodic_Job clock_w (task_list_init ! 1) 30 0 = Some (ok, m) \<and> 0 < m \<and> (if ok
    then unat (clock_w 0) + unat (Runtime (task_list_init ! 1)) \<le> unat (clock_w (m - 1)) \<and> clock_w (m - 1) \<le> ucast (30 :: u16)
    else clock_w 0 + ucast (Runtime (task_list_init ! 1)) > ucast (30 :: u16) \<or> (\<exists>j. 0 < j \<and> j < m \<and> clock_w j > ucast (30 :: u16)))"
  by (rule Periodic_Job_verdict [OF mono_clock_w ticking_clock_w])

section \<open>Rounds of a task\<close>












definition trun_w :: trun where
  "trun_w = \<lparr>reads = 0, tcalls = [], schedulable = True\<rparr>"

lemma run_ticks_numeral: "run_ticks clk (numeral k) counter n =
    (case busy_wait clk (clk n + 1) (Suc n) of
       None \<Rightarrow> None | Some m \<Rightarrow> run_ticks clk (pred_numeral k) (clk n + 1) m)"
  by (simp add: numeral_eq_Suc)

lemma busy_wait_done: "\<not> clk n < c \<Longrightarrow> busy_wait clk c n = Some (Suc n)"
  by (simp add: busy_wait.simps [of clk c n])

lemmas task_eval = run_task_def Periodic_Job_def Let_def run_ticks_numeral busy_wait_done clock_w_def
  issue_def skip_reads_def pdMS_TO_TICKS_def sync_R_def



section \<open>Deadlines beyond 16 bits\<close>

text \<open>From tick 65536 on, some eleven minutes after the start, every job is reported as missed
  whatever its deadline: \<open>run_task\<close> passes a 32-bit deadline to a \<open>uint16_t\<close> parameter.  The task
  clears \<open>schedulable\<close> and spins forever.\<close>

theorem run_task_late_miss:
  assumes "mono_clock clk" "65536 \<le> unat (clk (reads s))"
    and "unat (clk (Suc (reads s))) + unat (Runtime T) < 2 ^ 32"
  shows "\<exists>s'. run_task clk T L s = Some (Hung (L, s')) \<and> \<not> schedulable s'"
proof -
  define s1 where "s1 = (if Dependency T then issue (CallSuspend (my_ptr T)) (skip_reads 1 s) else s)"
  have "reads s1 \<in> {reads s, Suc (reads s)}" by (simp add: s1_def issue_def skip_reads_def)
  then have "clk (reads s) \<le> clk (reads s1)" "clk (reads s1) \<le> clk (Suc (reads s))"
    using assms(1) by (auto simp: mono_clock_def)
  then have c: "65536 \<le> unat (clk (reads s1))" "unat (clk (reads s1)) + unat (Runtime T) < 2 ^ 32"
    using assms(2,3) by (auto simp: word_le_nat_alt)
  have sum: "unat (clk (reads s1) + ucast (Runtime T)) = unat (clk (reads s1)) + unat (Runtime T)"
    using c(2) by (simp add: unat_word_ariths unat_u16)
  have "unat (ucast (ucast (L + Period T) :: u16) :: u32) < 65536" by (simp only: unat_u16)
  then have "unat (ucast (ucast (L + Period T) :: u16) :: u32) < unat (clk (reads s1) + ucast (Runtime T))"
    unfolding sum using c(1) by linarith
  then have "clk (reads s1) + ucast (Runtime T) > ucast (ucast (L + Period T) :: u16)"
    by (simp only: word_less_nat_alt)
  then have "Periodic_Job clk T (ucast (L + Period T)) (reads s1) = Some (False, reads s1 + 3)"
    by (simp add: Periodic_Job_def Let_def)
  then show ?thesis unfolding run_task_def Let_def s1_def [symmetric] by simp
qed

text \<open>Task 5 of the shipped set, released at tick 70000 with a deadline of 70100.\<close>

theorem run_task_late_miss_witness:
  "\<exists>s'. run_task (\<lambda>_. 70000) (task_list_init ! 5) 70000 trun_w = Some (Hung (70000, s')) \<and> \<not> schedulable s'"
  by (rule run_task_late_miss) (auto simp: mono_clock_def task_list_init_def mk_entry_def)

section \<open>The monitor\<close>

lemma fold_issue: "fold (\<lambda>i. issue (f i)) xs s = s\<lparr>tcalls := tcalls s @ map f xs\<rparr>"
  by (induction xs arbitrary: s) (simp_all add: issue_def)

text \<open>The monitor waits one tick longer than the hyperperiod, which every period of the table
  divides, takes its verdict then, and deletes the tasks of all table entries and itself.\<close>

theorem MonitorTask_hyperperiod:
  assumes "ps = map (\<lambda>i. sint (Period (tab ! i))) [0..<NUM_OF_TASK]"
    and "\<forall>p \<in> set ps. 0 < p \<and> Lcm (set ps) * p \<le> int_max"
  shows "\<exists>s'. MonitorTask tab v s = Inr (v, s') \<and>
    tcalls s' = tcalls s @ [CallDelay (word_of_int (Lcm (set ps)) + 1)] @
      map (\<lambda>i. CallDelete (my_ptr (tab ! i))) [0..<MAX_NUM_TASKS] @ [CallDelete None] \<and>
    (\<forall>i < NUM_OF_TASK. sint (Period (tab ! i)) dvd Lcm (set ps))"
proof -
  have "length ps = NUM_OF_TASK" by (simp add: assms(1))
  then have "calculate_lcm ps = Inr (Lcm (set ps))" by (rule calculate_lcm_ok) (rule assms(2))
  then show ?thesis
    unfolding MonitorTask_def assms(1) [symmetric]
    by (simp add: Let_def fold_issue issue_def skip_reads_def) (simp add: assms(1) dvd_Lcm)
qed

theorem MonitorTask_hyperperiod_witness:
  "\<exists>s'. MonitorTask task_list_init True trun_w = Inr (True, s') \<and>
    tcalls s' = [CallDelay 2101] @ map (\<lambda>_. CallDelete None) [0..<MAX_NUM_TASKS] @ [CallDelete None]"
proof -
  let ?ps = "map (\<lambda>i. sint (Period (task_list_init ! i))) [0..<NUM_OF_TASK]"
  have ps: "?ps = [30, 30, 30, 35, 50, 100, 100]"
    by (simp add: task_list_init_def mk_entry_def NUM_OF_TASK_def upt_rec [of _ "Suc _"] upt_rec)
  have "lcm (50::int) 100 = 100" "lcm (35::int) 100 = 700" "lcm (30::int) 700 = 2100"
    by (simp_all add: lcm_int_def lcm_nat_def gcd_non_0_nat)
  then have l: "Lcm (set [30, 30, 30, 35, 50, 100, 100 :: int]) = 2100" by simp
  have b: "\<forall>p \<in> set [30, 30, 30, 35, 50, 100, 100]. 0 < p \<and> Lcm (set [30, 30, 30, 35, 50, 100, 100 :: int]) * p \<le> int_max"
    unfolding l by (simp add: int_max_def)
  have del: "map (\<lambda>i. CallDelete (my_ptr (task_list_init ! i))) [0..<MAX_NUM_TASKS] =
      map (\<lambda>_. CallDelete None) [0..<MAX_NUM_TASKS]"
    by (auto simp: MAX_NUM_TASKS_def NUM_OF_TASK_def configNUMBER_OF_CORES_def task_list_init_def mk_entry_def
        less_Suc_eq numeral_eq_Suc)
  show ?thesis
    using MonitorTask_hyperperiod [OF ps [symmetric] b, of True trun_w] unfolding l del
    by (auto simp: trun_w_def)
qed

section \<open>The tasks of \<open>led_task\<close>\<close>

lemma led_round_Inr:
  assumes "led_round clk R per L s = Inr (L', s')"
  shows "L' = L + per \<and> reads s' = reads s + 4 \<and> \<not> clk (reads s + 2) > L' \<and>
    tcalls s' = tcalls s @ replicate (unat R) (CallSleep 10) @ [CallDelayUntil L per]"
proof -
  have f: "fold (\<lambda>_. issue (CallSleep 10)) [0..<unat R] (skip_reads 2 s) =
      (skip_reads 2 s)\<lparr>tcalls := tcalls s @ replicate (unat R) (CallSleep 10)\<rparr>"
    using fold_issue [of "\<lambda>_. CallSleep 10" "[0..<unat R]" "skip_reads 2 s"]
    by (simp add: skip_reads_def map_replicate_const)
  show ?thesis using assms unfolding led_round_def Let_def f
    by (simp add: skip_reads_def issue_def split: if_splits) auto
qed

text \<open>A task of \<open>led_task\<close> that has completed \<open>k\<close> rounds was released at its start plus the
  multiples of its period and has slept its execution time in each: with \<open>Run_tick\<close> sleeps of
  10 milliseconds per round, one tick each.\<close>

theorem led_function_releases:
  assumes "led_function R per clk k s = Inr (L, s')"
  shows "L = clk (reads s) + of_nat k * per \<and>
    tcalls s' = tcalls s @ CallDelay (pdMS_TO_TICKS sync_R) #
      concat (map (\<lambda>j. replicate (unat R) (CallSleep 10) @ [CallDelayUntil (clk (reads s) + of_nat j * per) per]) [0..<k])"
proof -
  have "L = L0 + of_nat k * per \<and> tcalls s' = tcalls s0 @
      concat (map (\<lambda>j. replicate (unat R) (CallSleep 10) @ [CallDelayUntil (L0 + of_nat j * per) per]) [0..<k])"
    if "led_loop clk R per k L0 s0 = Inr (L, s')" for L0 s0
    using that
  proof (induction k arbitrary: L0 s0)
    case (Suc k)
    obtain L1 s1 where st: "led_round clk R per L0 s0 = Inr (L1, s1)" "led_loop clk R per k L1 s1 = Inr (L, s')"
      using Suc.prems by auto
    show ?case using led_round_Inr [OF st(1)] Suc.IH [OF st(2)]
      by (simp add: map_upt_Suc algebra_simps del: upt_Suc)
  qed simp
  from this [of "clk (reads s)" "issue (CallDelay (pdMS_TO_TICKS sync_R)) (skip_reads 1 s)"] assms
  show ?thesis by (simp add: led_function_def issue_def skip_reads_def)
qed

lemma task1_round: "task1 clock_w (Suc 0) trun_w = Inr (50, \<lparr>reads = 5,
    tcalls = CallDelay 1 # replicate 10 (CallSleep 10) @ [CallDelayUntil 0 50], schedulable = True\<rparr>)"
  using fold_issue [of "\<lambda>_. CallSleep 10" "[0..<10]"]
  by (simp add: task1_def led_function_def led_round_def trun_w_def task_eval map_replicate_const)

theorem led_function_releases_witness:
  "clock_w 0 + of_nat 1 * 50 = (50 :: u32)"
  using led_function_releases [OF task1_round [unfolded task1_def]] by (simp add: trun_w_def clock_w_def)

end
