(* ===== verification/KernelState.thy ===== *)
theory KernelState
  imports ListImpl TaskManager
begin

text \<open>
  The state of \<open>FreeRTOS-Kernel/tasks.c\<close> in the two-core build, and the operations every other
  part of the scheduler uses: the lists a task can be in, yield requests, critical sections.

  A \<open>TCB_t *\<close> is the number of a task, NULL is \<^term>\<open>None\<close>.  The lists of the kernel are the
  sequences of tasks that \<^theory_text>\<open>ListImpl\<close> shows the pointer structures to represent: \<open>vListInsertEnd\<close>
  appends, \<open>vListInsert\<close> is \<^const>\<open>insert_after_le\<close>, \<open>uxListRemove\<close> takes the item out of the
  list its container field names.  Priorities and counters are natural numbers, bounded by the code;
  tick counts and list values are 32-bit words.

  \<open>c\<close> is always the core that executes the code (\<open>portGET_CORE_ID\<close>).  The interrupt that makes a
  core switch contexts is the field \<open>pendsv\<close>: \<open>portYIELD\<close> and \<open>portYIELD_CORE\<close> set it.  The spin
  locks make the critical sections of the two cores exclude each other, so each is one step here.
\<close>

section \<open>Data\<close>

datatype klist =
    ReadyL nat \<comment> \<open>\<open>pxReadyTasksLists[p]\<close>\<close>
  | DelayedL1
  | DelayedL2
  | SuspendedL
  | TerminationL
  | PendingReadyL
  | EventL nat \<comment> \<open>the event list of a kernel object\<close>

datatype notify_state = NotWaiting | Waiting | Received

record tcb_rec =
  uxCoreAffinityMask :: u32
  xStateListItem :: u32 \<comment> \<open>the item's value\<close>
  stateContainer :: "klist option"
  xEventListItem :: u32
  eventContainer :: "klist option"
  uxPriority :: nat
  xTaskRunState :: int
  isIdle :: bool \<comment> \<open>the idle bit of \<open>uxTaskAttributes\<close>\<close>
  pcTaskName :: string
  uxBasePriority :: nat
  uxMutexesHeld :: nat
  pxTaskTag :: ptr
  ulNotifiedValue :: u32
  ucNotifyState :: notify_state
  ucDelayAborted :: bool

record kernel =
  tcb :: "nat \<Rightarrow> tcb_rec"
  lists :: "klist \<Rightarrow> nat list"
  pxCurrentTCBs :: "nat \<Rightarrow> ptr"
  pxDelayedTaskList :: klist
  pxOverflowDelayedTaskList :: klist
  uxDeletedTasksWaitingCleanUp :: nat
  uxCurrentNumberOfTasks :: nat
  xTickCount :: u32
  uxTopReadyPriority :: nat
  xSchedulerRunning :: bool
  xPendedTicks :: u32
  xYieldPendings :: "nat \<Rightarrow> bool"
  xNumOfOverflows :: int
  uxTaskNumber :: nat
  xNextTaskUnblockTime :: u32
  xIdleTaskHandles :: "nat \<Rightarrow> ptr"
  uxSchedulerSuspended :: nat
  uxCriticalNestings :: "nat \<Rightarrow> nat"
  pendsv :: "nat \<Rightarrow> bool"

definition configMAX_PRIORITIES :: nat where "configMAX_PRIORITIES = 5"
definition configMAX_TASK_NAME_LEN :: nat where "configMAX_TASK_NAME_LEN = 4"
definition taskTASK_NOT_RUNNING :: int where "taskTASK_NOT_RUNNING = -1"
definition taskTASK_SCHEDULED_TO_YIELD :: int where "taskTASK_SCHEDULED_TO_YIELD = -2"
definition taskEVENT_LIST_ITEM_VALUE_IN_USE :: u32 where "taskEVENT_LIST_ITEM_VALUE_IN_USE = 0x80000000"

text \<open>The TCB after \<open>memset\<close>.\<close>

definition zero_tcb :: tcb_rec where
  "zero_tcb = \<lparr>uxCoreAffinityMask = 0, xStateListItem = 0, stateContainer = None, xEventListItem = 0,
     eventContainer = None, uxPriority = 0, xTaskRunState = 0, isIdle = False, pcTaskName = [],
     uxBasePriority = 0, uxMutexesHeld = 0, pxTaskTag = None, ulNotifiedValue = 0,
     ucNotifyState = NotWaiting, ucDelayAborted = False\<rparr>"

text \<open>The file-scope variables of \<open>tasks.c\<close> before the first call.\<close>

definition kernel_init :: kernel where
  "kernel_init = \<lparr>tcb = (\<lambda>_. zero_tcb), lists = (\<lambda>_. []), pxCurrentTCBs = (\<lambda>_. None),
     pxDelayedTaskList = DelayedL1, pxOverflowDelayedTaskList = DelayedL2,
     uxDeletedTasksWaitingCleanUp = 0, uxCurrentNumberOfTasks = 0, xTickCount = 0,
     uxTopReadyPriority = 0, xSchedulerRunning = False, xPendedTicks = 0,
     xYieldPendings = (\<lambda>_. False), xNumOfOverflows = 0, uxTaskNumber = 0,
     xNextTaskUnblockTime = 0, xIdleTaskHandles = (\<lambda>_. None), uxSchedulerSuspended = 0,
     uxCriticalNestings = (\<lambda>_. 0), pendsv = (\<lambda>_. False)\<rparr>"

abbreviation prio :: "kernel \<Rightarrow> nat \<Rightarrow> nat" where "prio s t \<equiv> uxPriority (tcb s t)"
abbreviation runstate :: "kernel \<Rightarrow> nat \<Rightarrow> int" where "runstate s t \<equiv> xTaskRunState (tcb s t)"
abbreviation ready :: "kernel \<Rightarrow> nat \<Rightarrow> nat list" where "ready s p \<equiv> lists s (ReadyL p)"
abbreviation delayed :: "kernel \<Rightarrow> nat list" where "delayed s \<equiv> lists s (pxDelayedTaskList s)"
abbreviation overflowed :: "kernel \<Rightarrow> nat list" where "overflowed s \<equiv> lists s (pxOverflowDelayedTaskList s)"

text \<open>Decrement of a \<open>UBaseType_t\<close> counter.\<close>

definition dec32 :: "nat \<Rightarrow> nat" where "dec32 n = (n + (2 ^ 32 - 1)) mod 2 ^ 32"

lemma dec32_Suc [simp]: "Suc n < 2 ^ 32 \<Longrightarrow> dec32 (Suc n) = n"
  by (simp add: dec32_def)

definition upd_tcb :: "nat \<Rightarrow> (tcb_rec \<Rightarrow> tcb_rec) \<Rightarrow> kernel \<Rightarrow> kernel" where
  "upd_tcb t f s = s\<lparr>tcb := (tcb s)(t := f (tcb s t))\<rparr>"

definition set_list :: "klist \<Rightarrow> nat list \<Rightarrow> kernel \<Rightarrow> kernel" where
  "set_list L xs s = s\<lparr>lists := (lists s)(L := xs)\<rparr>"

text \<open>\<open>pxCurrentTCBs[x]\<close> followed, and a \<open>TaskHandle_t\<close> in which NULL stands for the caller.\<close>

definition current :: "nat \<Rightarrow> kernel \<Rightarrow> fault + nat" where
  "current x s = follow (pxCurrentTCBs s x)"

definition prvGetTCBFromHandle :: "nat \<Rightarrow> ptr \<Rightarrow> kernel \<Rightarrow> fault + nat" where
  "prvGetTCBFromHandle c h s = (case h of None \<Rightarrow> current c s | Some t \<Rightarrow> Inr t)"

definition taskTASK_IS_RUNNING :: "nat \<Rightarrow> kernel \<Rightarrow> bool" where
  "taskTASK_IS_RUNNING t s = (runstate s t \<ge> 0 \<and> runstate s t < int configNUMBER_OF_CORES)"

definition taskTASK_IS_RUNNING_OR_SCHEDULED_TO_YIELD :: "nat \<Rightarrow> kernel \<Rightarrow> bool" where
  "taskTASK_IS_RUNNING_OR_SCHEDULED_TO_YIELD t s = (runstate s t \<noteq> taskTASK_NOT_RUNNING)"

text \<open>\<open>(uxCoreAffinityMask & (1U << x)) != 0\<close>\<close>

definition may_run_on :: "kernel \<Rightarrow> nat \<Rightarrow> nat \<Rightarrow> bool" where
  "may_run_on s t x = bit (uxCoreAffinityMask (tcb s t)) x"

section \<open>List operations\<close>

definition state_remove :: "nat \<Rightarrow> kernel \<Rightarrow> fault + kernel" where
  "state_remove t s =
     bindE (follow (stateContainer (tcb s t))) (\<lambda>L.
       Inr (upd_tcb t (\<lambda>x. x\<lparr>stateContainer := None\<rparr>) (set_list L (remove1 t (lists s L)) s)))"

definition state_insert_end :: "klist \<Rightarrow> nat \<Rightarrow> kernel \<Rightarrow> kernel" where
  "state_insert_end L t s =
     upd_tcb t (\<lambda>x. x\<lparr>stateContainer := Some L\<rparr>) (set_list L (lists s L @ [t]) s)"

definition state_insert :: "klist \<Rightarrow> nat \<Rightarrow> kernel \<Rightarrow> kernel" where
  "state_insert L t s =
     upd_tcb t (\<lambda>x. x\<lparr>stateContainer := Some L\<rparr>)
       (set_list L (insert_after_le (\<lambda>i. xStateListItem (tcb s i)) t (lists s L)) s)"

definition event_remove :: "nat \<Rightarrow> kernel \<Rightarrow> fault + kernel" where
  "event_remove t s =
     bindE (follow (eventContainer (tcb s t))) (\<lambda>L.
       Inr (upd_tcb t (\<lambda>x. x\<lparr>eventContainer := None\<rparr>) (set_list L (remove1 t (lists s L)) s)))"

definition event_insert_end :: "klist \<Rightarrow> nat \<Rightarrow> kernel \<Rightarrow> kernel" where
  "event_insert_end L t s =
     upd_tcb t (\<lambda>x. x\<lparr>eventContainer := Some L\<rparr>) (set_list L (lists s L @ [t]) s)"

definition event_insert :: "klist \<Rightarrow> nat \<Rightarrow> kernel \<Rightarrow> kernel" where
  "event_insert L t s =
     upd_tcb t (\<lambda>x. x\<lparr>eventContainer := Some L\<rparr>)
       (set_list L (insert_after_le (\<lambda>i. xEventListItem (tcb s i)) t (lists s L)) s)"

text \<open>The removal from an event list that several functions guard with the container test.\<close>

definition event_remove_if_waiting :: "nat \<Rightarrow> kernel \<Rightarrow> fault + kernel" where
  "event_remove_if_waiting t s =
     (if eventContainer (tcb s t) \<noteq> None then event_remove t s else Inr s)"

definition head_of :: "klist \<Rightarrow> kernel \<Rightarrow> fault + nat" where
  "head_of L s = (case lists s L of [] \<Rightarrow> Inl NullDeref | t # _ \<Rightarrow> Inr t)"

section \<open>The ready lists and the next unblock time\<close>

text \<open>A priority indexes \<open>pxReadyTasksLists\<close>.\<close>

definition prvAddTaskToReadyList :: "nat \<Rightarrow> kernel \<Rightarrow> fault + kernel" where
  "prvAddTaskToReadyList t s =
     (if prio s t < configMAX_PRIORITIES then
        let s1 = (if prio s t > uxTopReadyPriority s then s\<lparr>uxTopReadyPriority := prio s t\<rparr> else s)
        in Inr (state_insert_end (ReadyL (prio s1 t)) t s1)
      else Inl OutOfBounds)"

definition prvResetNextTaskUnblockTime :: "kernel \<Rightarrow> kernel" where
  "prvResetNextTaskUnblockTime s =
     s\<lparr>xNextTaskUnblockTime := (case delayed s of [] \<Rightarrow> portMAX_DELAY
         | t # _ \<Rightarrow> xStateListItem (tcb s t))\<rparr>"

definition prvAddCurrentTaskToDelayedList :: "nat \<Rightarrow> u32 \<Rightarrow> bool \<Rightarrow> kernel \<Rightarrow> fault + kernel" where
  "prvAddCurrentTaskToDelayedList c xTicksToWait xCanBlockIndefinitely s =
     (let xConstTickCount = xTickCount s in
      bindE (current c s) (\<lambda>t.
      bindE (state_remove t (upd_tcb t (\<lambda>x. x\<lparr>ucDelayAborted := False\<rparr>) s)) (\<lambda>s1.
        if xTicksToWait = portMAX_DELAY \<and> xCanBlockIndefinitely then Inr (state_insert_end SuspendedL t s1)
        else
          let xTimeToWake = xConstTickCount + xTicksToWait;
              s2 = upd_tcb t (\<lambda>x. x\<lparr>xStateListItem := xTimeToWake\<rparr>) s1
          in if xTimeToWake < xConstTickCount then Inr (state_insert (pxOverflowDelayedTaskList s) t s2)
             else let s3 = state_insert (pxDelayedTaskList s) t s2
               in Inr (if xTimeToWake < xNextTaskUnblockTime s3
                       then s3\<lparr>xNextTaskUnblockTime := xTimeToWake\<rparr> else s3))))"

section \<open>Yields\<close>

definition portYIELD :: "nat \<Rightarrow> kernel \<Rightarrow> kernel" where
  "portYIELD x s = s\<lparr>pendsv := (pendsv s)(x := True)\<rparr>"

definition set_yield_pending :: "nat \<Rightarrow> bool \<Rightarrow> kernel \<Rightarrow> kernel" where
  "set_yield_pending x b s = s\<lparr>xYieldPendings := (xYieldPendings s)(x := b)\<rparr>"

definition vTaskYieldWithinAPI :: "nat \<Rightarrow> kernel \<Rightarrow> kernel" where
  "vTaskYieldWithinAPI c s =
     (if uxCriticalNestings s c = 0 then portYIELD c s else set_yield_pending c True s)"

definition prvYieldCore :: "nat \<Rightarrow> nat \<Rightarrow> kernel \<Rightarrow> fault + kernel" where
  "prvYieldCore c x s =
     (if x = c then Inr (set_yield_pending x True s)
      else bindE (current x s) (\<lambda>t.
        if runstate s t \<noteq> taskTASK_SCHEDULED_TO_YIELD
        then Inr (upd_tcb t (\<lambda>k. k\<lparr>xTaskRunState := taskTASK_SCHEDULED_TO_YIELD\<rparr>) (portYIELD x s))
        else Inr s))"

text \<open>The priority a core's task counts with: an idle task is below every other task.\<close>

definition effective_priority :: "kernel \<Rightarrow> nat \<Rightarrow> int" where
  "effective_priority s t = (if isIdle (tcb s t) then int (prio s t) - 1 else int (prio s t))"

text \<open>The loop of \<open>prvYieldForTask\<close> over the cores; the accumulator is the lowest priority found
  so far and the core it was found on.\<close>

fun find_core_to_preempt :: "nat \<Rightarrow> nat list \<Rightarrow> kernel \<Rightarrow> int \<times> int \<Rightarrow> fault + int" where
  "find_core_to_preempt t [] s (low, core) = Inr core"
| "find_core_to_preempt t (x # xs) s (low, core) =
     bindE (current x s) (\<lambda>u.
       if taskTASK_IS_RUNNING u s \<and> \<not> xYieldPendings s x \<and> effective_priority s u \<le> low \<and> may_run_on s t x
       then find_core_to_preempt t xs s (effective_priority s u, int x)
       else find_core_to_preempt t xs s (low, core))"

definition prvYieldForTask :: "nat \<Rightarrow> nat \<Rightarrow> kernel \<Rightarrow> fault + kernel" where
  "prvYieldForTask c t s =
     (if \<not> taskTASK_IS_RUNNING t s then
        bindE (find_core_to_preempt t [0..<configNUMBER_OF_CORES] s (int (prio s t) - 1, -1)) (\<lambda>core.
          if core \<ge> 0 then prvYieldCore c (nat core) s else Inr s)
      else Inr s)"

section \<open>Critical sections\<close>

definition set_nesting :: "nat \<Rightarrow> nat \<Rightarrow> kernel \<Rightarrow> kernel" where
  "set_nesting c n s = s\<lparr>uxCriticalNestings := (uxCriticalNestings s)(c := n)\<rparr>"

text \<open>
  A task that another core has asked to yield is switched out before its outermost critical
  section begins (\<open>prvCheckForRunStateChange\<close>); \<open>must_yield\<close> is that condition, and the steps of
  a task are taken when it does not hold.
\<close>

definition must_yield :: "nat \<Rightarrow> kernel \<Rightarrow> bool" where
  "must_yield c s = (case pxCurrentTCBs s c of None \<Rightarrow> False
     | Some t \<Rightarrow> runstate s t = taskTASK_SCHEDULED_TO_YIELD)"

definition vTaskEnterCritical :: "nat \<Rightarrow> kernel \<Rightarrow> kernel" where
  "vTaskEnterCritical c s =
     (if xSchedulerRunning s then set_nesting c (uxCriticalNestings s c + 1) s else s)"

definition vTaskExitCritical :: "nat \<Rightarrow> kernel \<Rightarrow> kernel" where
  "vTaskExitCritical c s =
     (if xSchedulerRunning s then
        if uxCriticalNestings s c > 0 then
          let s1 = set_nesting c (uxCriticalNestings s c - 1) s
          in if uxCriticalNestings s1 c = 0 \<and> xYieldPendings s1 c then portYIELD c s1 else s1
        else s
      else s)"

definition vTaskEnterCriticalFromISR :: "nat \<Rightarrow> kernel \<Rightarrow> kernel" where
  "vTaskEnterCriticalFromISR c s =
     (if xSchedulerRunning s then set_nesting c (uxCriticalNestings s c + 1) s else s)"

definition vTaskExitCriticalFromISR :: "nat \<Rightarrow> kernel \<Rightarrow> kernel" where
  "vTaskExitCriticalFromISR c s =
     (if xSchedulerRunning s \<and> uxCriticalNestings s c > 0
      then set_nesting c (uxCriticalNestings s c - 1) s else s)"

text \<open>A critical section around a state change.\<close>

definition critical :: "nat \<Rightarrow> (kernel \<Rightarrow> fault + 'a \<times> kernel) \<Rightarrow> kernel \<Rightarrow> fault + 'a \<times> kernel" where
  "critical c f s = bindE (f (vTaskEnterCritical c s)) (\<lambda>(r, s'). Inr (r, vTaskExitCritical c s'))"

end
