(* ===== verification/Scheduler.thy ===== *)
theory Scheduler
  imports KernelState
begin

text \<open>
  The scheduler proper of \<open>tasks.c\<close>: which ready task a core runs
  (\<open>prvSelectHighestPriorityTask\<close>, \<open>vTaskSwitchContext\<close>), the tick (\<open>xTaskIncrementTick\<close>,
  \<open>vTaskStepTick\<close>), and the suspension of the scheduler (\<open>vTaskSuspendAll\<close>, \<open>xTaskResumeAll\<close>).
  Loops over a list are bounded by its length; a longer run is the fault \<^const>\<open>Diverges\<close>, which
  the invariant of \<^theory_text>\<open>KernelInv\<close> excludes.
\<close>

section \<open>Selecting a task\<close>

text \<open>The running task goes to the end of its ready list, if it is still in it.\<close>

definition rotate_current :: "nat \<Rightarrow> kernel \<Rightarrow> fault + kernel" where
  "rotate_current c s =
     bindE (current c s) (\<lambda>t.
       if stateContainer (tcb s t) = Some (ReadyL (prio s t)) then
         bindE (state_remove t s) (\<lambda>s1. Inr (state_insert_end (ReadyL (prio s t)) t s1))
       else Inr s)"

text \<open>
  The inner \<open>for\<close> loop over one ready list: the first task that may run on \<open>c\<close> and is not running
  anywhere, or is the current one of \<open>c\<close>.  The result says whether a task was scheduled, and the
  task it replaced.
\<close>

fun scan_ready :: "nat \<Rightarrow> nat list \<Rightarrow> kernel \<Rightarrow> fault + (bool \<times> ptr \<times> kernel)" where
  "scan_ready c [] s = Inr (False, None, s)"
| "scan_ready c (t # ts) s =
     bindE (current c s) (\<lambda>cur.
       if runstate s t = taskTASK_NOT_RUNNING then
         if may_run_on s t c then
           let s1 = upd_tcb cur (\<lambda>x. x\<lparr>xTaskRunState := taskTASK_NOT_RUNNING\<rparr>) s;
               s2 = upd_tcb t (\<lambda>x. x\<lparr>xTaskRunState := int c\<rparr>) s1
           in Inr (True, Some cur, s2\<lparr>pxCurrentTCBs := (pxCurrentTCBs s2)(c := Some t)\<rparr>)
         else scan_ready c ts s
       else if t = cur then
         if may_run_on s t c then Inr (True, None, upd_tcb t (\<lambda>x. x\<lparr>xTaskRunState := int c\<rparr>) s)
         else scan_ready c ts s
       else scan_ready c ts s)"

text \<open>The \<open>while\<close> loop over the priorities, from \<open>p\<close> down; \<open>decr\<close> is \<open>xDecrementTopPriority\<close>.\<close>

fun select_loop :: "nat \<Rightarrow> nat \<Rightarrow> bool \<Rightarrow> kernel \<Rightarrow> fault + (bool \<times> ptr \<times> kernel)" where
  "select_loop c p decr s =
     (if p < configMAX_PRIORITIES then
        if ready s p \<noteq> [] then
          bindE (scan_ready c (ready s p) s) (\<lambda>(sched, prev, s1).
            case p of 0 \<Rightarrow> Inr (sched, prev, s1)
            | Suc q \<Rightarrow> if sched then Inr (sched, prev, s1) else select_loop c q False s1)
        else
          let s1 = (if decr then s\<lparr>uxTopReadyPriority := dec32 (uxTopReadyPriority s)\<rparr> else s)
          in case p of 0 \<Rightarrow> Inr (False, None, s1) | Suc q \<Rightarrow> select_loop c q decr s1
      else Inl OutOfBounds)"

declare select_loop.simps [simp del]

text \<open>
  The evicted task may run on another core: the loop over the cores, from the last to the first,
  looks for the one with the lowest priority among those in the core map.
\<close>

fun find_core_for_evicted :: "nat list \<Rightarrow> u32 \<Rightarrow> kernel \<Rightarrow> int \<times> int \<Rightarrow> fault + int" where
  "find_core_for_evicted [] cmap s (low, core) = Inr core"
| "find_core_for_evicted (x # xs) cmap s (low, core) =
     (if bit cmap x then
        bindE (current x s) (\<lambda>u.
          let pr = effective_priority s u; cmap' = unset_bit x cmap in
          if pr < low \<and> taskTASK_IS_RUNNING u s \<and> \<not> xYieldPendings s x
          then find_core_for_evicted xs cmap' s (pr, int x)
          else find_core_for_evicted xs cmap' s (low, core))
      else find_core_for_evicted xs cmap s (low, core))"

definition place_evicted :: "nat \<Rightarrow> nat \<Rightarrow> kernel \<Rightarrow> fault + kernel" where
  "place_evicted c prev s =
     (if stateContainer (tcb s prev) = Some (ReadyL (prio s prev)) then
        bindE (current c s) (\<lambda>cur.
          let m0 = uxCoreAffinityMask (tcb s prev);
              m1 = (if bit m0 c then and m0 (not (uxCoreAffinityMask (tcb s cur))) else m0);
              m2 = and m1 (mask configNUMBER_OF_CORES)
          in bindE (find_core_for_evicted (rev [0..<configNUMBER_OF_CORES]) m2 s (effective_priority s prev, -1))
               (\<lambda>core. if core \<ge> 0 then prvYieldCore c (nat core) s else Inr s))
      else Inr s)"

definition prvSelectHighestPriorityTask :: "nat \<Rightarrow> kernel \<Rightarrow> fault + kernel" where
  "prvSelectHighestPriorityTask c s =
     bindE (rotate_current c s) (\<lambda>s1.
     bindE (select_loop c (uxTopReadyPriority s) True s1) (\<lambda>(sched, prev, s2).
       if sched then (case prev of None \<Rightarrow> Inr s2 | Some t \<Rightarrow> place_evicted c t s2) else Inr s2))"

text \<open>What the pended interrupt of a core runs.\<close>

definition vTaskSwitchContext :: "nat \<Rightarrow> kernel \<Rightarrow> fault + kernel" where
  "vTaskSwitchContext c s =
     (if uxSchedulerSuspended s \<noteq> 0 then Inr (set_yield_pending c True s)
      else prvSelectHighestPriorityTask c (set_yield_pending c False s))"

section \<open>The tick\<close>

definition taskSWITCH_DELAYED_LISTS :: "kernel \<Rightarrow> kernel" where
  "taskSWITCH_DELAYED_LISTS s =
     prvResetNextTaskUnblockTime
       (s\<lparr>pxDelayedTaskList := pxOverflowDelayedTaskList s, pxOverflowDelayedTaskList := pxDelayedTaskList s,
          xNumOfOverflows := xNumOfOverflows s + 1\<rparr>)"

text \<open>The \<open>for( ; ; )\<close> loop that wakes the tasks whose time has come.\<close>

fun unblock_loop :: "nat \<Rightarrow> nat \<Rightarrow> u32 \<Rightarrow> kernel \<Rightarrow> fault + kernel" where
  "unblock_loop 0 c now s = Inl Diverges"
| "unblock_loop (Suc fuel) c now s =
     (case delayed s of
        [] \<Rightarrow> Inr (s\<lparr>xNextTaskUnblockTime := portMAX_DELAY\<rparr>)
      | t # _ \<Rightarrow>
          let v = xStateListItem (tcb s t) in
          if now < v then Inr (s\<lparr>xNextTaskUnblockTime := v\<rparr>)
          else bindE (state_remove t s) (\<lambda>s1.
               bindE (event_remove_if_waiting t s1) (\<lambda>s2.
               bindE (prvAddTaskToReadyList t s2) (\<lambda>s3.
               bindE (prvYieldForTask c t s3) (unblock_loop fuel c now)))))"

text \<open>Time slicing: a core whose task shares its priority with another ready task is to yield.\<close>

fun time_slice :: "nat list \<Rightarrow> kernel \<Rightarrow> fault + kernel" where
  "time_slice [] s = Inr s"
| "time_slice (x # xs) s =
     bindE (current x s) (\<lambda>t.
       if prio s t < configMAX_PRIORITIES then
         time_slice xs (if length (ready s (prio s t)) > 1 then set_yield_pending x True s else s)
       else Inl OutOfBounds)"

fun request_yields :: "nat \<Rightarrow> nat list \<Rightarrow> bool \<Rightarrow> kernel \<Rightarrow> fault + (bool \<times> kernel)" where
  "request_yields c [] sw s = Inr (sw, s)"
| "request_yields c (x # xs) sw s =
     (if xYieldPendings s x then
        if x = c then request_yields c xs True s
        else bindE (prvYieldCore c x s) (request_yields c xs sw)
      else request_yields c xs sw s)"

definition xTaskIncrementTick :: "nat \<Rightarrow> kernel \<Rightarrow> fault + (bool \<times> kernel)" where
  "xTaskIncrementTick c s =
     (if uxSchedulerSuspended s = 0 then
        let now = xTickCount s + 1;
            s1 = s\<lparr>xTickCount := now\<rparr>;
            s2 = (if now = 0 then taskSWITCH_DELAYED_LISTS s1 else s1)
        in bindE (if now \<ge> xNextTaskUnblockTime s2 then unblock_loop (Suc (length (delayed s2))) c now s2 else Inr s2) (\<lambda>s3.
           bindE (time_slice [0..<configNUMBER_OF_CORES] s3) (\<lambda>s4.
             request_yields c [0..<configNUMBER_OF_CORES] False s4))
      else Inr (False, s\<lparr>xPendedTicks := xPendedTicks s + 1\<rparr>))"

text \<open>The tick interrupt of core 0 (\<open>port.c\<close>).\<close>

definition xPortSysTickHandler :: "nat \<Rightarrow> kernel \<Rightarrow> fault + kernel" where
  "xPortSysTickHandler c s =
     bindE (xTaskIncrementTick c (vTaskEnterCriticalFromISR c s)) (\<lambda>(sw, s1).
       Inr (vTaskExitCriticalFromISR c (if sw then portYIELD c s1 else s1)))"

definition vTaskStepTick :: "nat \<Rightarrow> u32 \<Rightarrow> kernel \<Rightarrow> kernel" where
  "vTaskStepTick c xTicksToJump s =
     (let xUpdatedTickCount = xTickCount s + xTicksToJump in
      if xUpdatedTickCount = xNextTaskUnblockTime s then
        let s1 = vTaskEnterCritical c s;
            s2 = s1\<lparr>xPendedTicks := xPendedTicks s1 + 1\<rparr>;
            s3 = vTaskExitCritical c s2
        in s3\<lparr>xTickCount := xTickCount s3 + (xTicksToJump - 1)\<rparr>
      else s\<lparr>xTickCount := xTickCount s + xTicksToJump\<rparr>)"

definition prvGetExpectedIdleTime :: "nat \<Rightarrow> kernel \<Rightarrow> fault + u32" where
  "prvGetExpectedIdleTime c s =
     bindE (current c s) (\<lambda>t.
       Inr (if prio s t > 0 then 0
            else if length (ready s 0) > 1 then 0
            else if uxTopReadyPriority s > 0 then 0
            else xNextTaskUnblockTime s - xTickCount s))"

definition xTaskGetTickCount :: "kernel \<Rightarrow> u32" where
  "xTaskGetTickCount s = xTickCount s"

section \<open>Suspending the scheduler\<close>

definition vTaskSuspendAll :: "kernel \<Rightarrow> kernel" where
  "vTaskSuspendAll s =
     (if xSchedulerRunning s then s\<lparr>uxSchedulerSuspended := uxSchedulerSuspended s + 1\<rparr> else s)"

text \<open>The tasks readied meanwhile; the flag says whether there was one.\<close>

fun pending_ready_loop :: "nat \<Rightarrow> bool \<Rightarrow> kernel \<Rightarrow> fault + (bool \<times> kernel)" where
  "pending_ready_loop 0 moved s = Inl Diverges"
| "pending_ready_loop (Suc fuel) moved s =
     (case lists s PendingReadyL of
        [] \<Rightarrow> Inr (moved, s)
      | t # _ \<Rightarrow>
          bindE (event_remove t s) (\<lambda>s1.
          bindE (state_remove t s1) (\<lambda>s2.
          bindE (prvAddTaskToReadyList t s2) (pending_ready_loop fuel True))))"

text \<open>The ticks counted meanwhile.\<close>

fun pended_ticks_loop :: "nat \<Rightarrow> nat \<Rightarrow> kernel \<Rightarrow> fault + kernel" where
  "pended_ticks_loop c 0 s = Inr s"
| "pended_ticks_loop c (Suc n) s =
     bindE (xTaskIncrementTick c s) (\<lambda>(sw, s1).
       pended_ticks_loop c n (if sw then set_yield_pending c True s1 else s1))"

text \<open>The outermost \<open>xTaskResumeAll\<close>, inside its critical section.\<close>

definition resume_outermost :: "nat \<Rightarrow> kernel \<Rightarrow> fault + (bool \<times> kernel)" where
  "resume_outermost c s =
     bindE (pending_ready_loop (Suc (length (lists s PendingReadyL))) False s) (\<lambda>(moved, s1).
       let s2 = (if moved then prvResetNextTaskUnblockTime s1 else s1) in
       bindE (if xPendedTicks s2 > 0
              then bindE (pended_ticks_loop c (unat (xPendedTicks s2)) s2) (\<lambda>s3. Inr (s3\<lparr>xPendedTicks := 0\<rparr>))
              else Inr s2) (\<lambda>s4. Inr (xYieldPendings s4 c, s4)))"

definition xTaskResumeAll :: "nat \<Rightarrow> kernel \<Rightarrow> fault + (bool \<times> kernel)" where
  "xTaskResumeAll c s =
     (if xSchedulerRunning s then
        critical c (\<lambda>s0.
          let s1 = s0\<lparr>uxSchedulerSuspended := dec32 (uxSchedulerSuspended s0)\<rparr> in
          if uxSchedulerSuspended s1 = 0 \<and> uxCurrentNumberOfTasks s1 > 0
          then resume_outermost c s1 else Inr (False, s1)) s
      else Inr (False, s))"

definition xTaskCatchUpTicks :: "nat \<Rightarrow> u32 \<Rightarrow> kernel \<Rightarrow> fault + (bool \<times> kernel)" where
  "xTaskCatchUpTicks c n s =
     (let s1 = vTaskEnterCritical c (vTaskSuspendAll s);
          s2 = vTaskExitCritical c (s1\<lparr>xPendedTicks := xPendedTicks s1 + n\<rparr>)
      in xTaskResumeAll c s2)"

end
