(* ===== verification/TaskApi.thy ===== *)
theory TaskApi
  imports Scheduler
begin

text \<open>
  The functions of \<open>tasks.c\<close> that tasks and interrupts call: creation and deletion, delays,
  suspension, priorities, core affinity, event lists, timeouts, priority inheritance and task
  notifications.  Memory is the concern of \<^theory_text>\<open>Heap4\<close>: the TCB of a new task is an argument.
\<close>

section \<open>Creation and start\<close>

definition prvInitialiseNewTask :: "bool \<Rightarrow> string \<Rightarrow> u32 \<Rightarrow> nat \<Rightarrow> kernel \<Rightarrow> kernel" where
  "prvInitialiseNewTask idle_function pcName pr t s =
     (let uxPrio = (if unat pr \<ge> configMAX_PRIORITIES then configMAX_PRIORITIES - 1 else unat pr)
      in upd_tcb t (\<lambda>x. x\<lparr>pcTaskName := take (configMAX_TASK_NAME_LEN - 1) pcName,
           uxPriority := uxPrio, uxBasePriority := uxPrio, stateContainer := None, eventContainer := None,
           xEventListItem := of_nat configMAX_PRIORITIES - of_nat uxPrio,
           xTaskRunState := taskTASK_NOT_RUNNING, isIdle := (isIdle x \<or> idle_function)\<rparr>) s)"

definition prvInitialiseTaskLists :: "kernel \<Rightarrow> kernel" where
  "prvInitialiseTaskLists s =
     (let s1 = fold (\<lambda>p. set_list (ReadyL p) []) [0..<configMAX_PRIORITIES] s;
          s2 = fold (\<lambda>L. set_list L []) [DelayedL1, DelayedL2, PendingReadyL, TerminationL, SuspendedL] s1
      in s2\<lparr>pxDelayedTaskList := DelayedL1, pxOverflowDelayedTaskList := DelayedL2\<rparr>)"

definition prvAddNewTaskToReadyList :: "nat \<Rightarrow> nat \<Rightarrow> kernel \<Rightarrow> fault + kernel" where
  "prvAddNewTaskToReadyList c t s =
     (let s0 = vTaskEnterCritical c s;
          s1 = s0\<lparr>uxCurrentNumberOfTasks := uxCurrentNumberOfTasks s0 + 1\<rparr>;
          s2 = (if \<not> xSchedulerRunning s1 \<and> uxCurrentNumberOfTasks s1 = 1 then prvInitialiseTaskLists s1 else s1);
          s3 = s2\<lparr>uxTaskNumber := uxTaskNumber s2 + 1\<rparr>
      in bindE (prvAddTaskToReadyList t s3) (\<lambda>s4.
         bindE (if xSchedulerRunning s4 then prvYieldForTask c t s4 else Inr s4) (\<lambda>s5.
           Inr (vTaskExitCritical c s5))))"

text \<open>The part of \<open>xTaskCreate\<close>, \<open>xTaskCreateStatic\<close> and their affinity variants after the TCB
  \<open>t\<close> has been obtained and cleared.\<close>

definition create_with_affinity :: "nat \<Rightarrow> bool \<Rightarrow> string \<Rightarrow> u32 \<Rightarrow> u32 \<Rightarrow> nat \<Rightarrow> kernel \<Rightarrow> fault + kernel" where
  "create_with_affinity c idle_function pcName pr affinity t s =
     prvAddNewTaskToReadyList c t (upd_tcb t (\<lambda>x. x\<lparr>uxCoreAffinityMask := affinity\<rparr>)
       (prvInitialiseNewTask idle_function pcName pr t (upd_tcb t (\<lambda>_. zero_tcb) s)))"

definition configTASK_DEFAULT_CORE_AFFINITY :: u32 where "configTASK_DEFAULT_CORE_AFFINITY = -1"

text \<open>The loop of \<open>prvCreateIdleTasks\<close>; \<open>mk x\<close> is the static TCB of the idle task of core \<open>x\<close>.\<close>

fun create_idle_loop :: "nat \<Rightarrow> (nat \<Rightarrow> nat) \<Rightarrow> nat list \<Rightarrow> kernel \<Rightarrow> fault + kernel" where
  "create_idle_loop c mk [] s = Inr s"
| "create_idle_loop c mk (x # xs) s =
     bindE (create_with_affinity c True (''ID'' @ (if x = 0 then ''0'' else ''1'')) 0
              configTASK_DEFAULT_CORE_AFFINITY (mk x) s) (\<lambda>s1.
       let s2 = s1\<lparr>xIdleTaskHandles := (xIdleTaskHandles s1)(x := Some (mk x))\<rparr>;
           s3 = upd_tcb (mk x) (\<lambda>k. k\<lparr>xTaskRunState := int x\<rparr>) s2
       in create_idle_loop c mk xs (s3\<lparr>pxCurrentTCBs := (pxCurrentTCBs s3)(x := Some (mk x))\<rparr>))"

definition prvCreateIdleTasks :: "nat \<Rightarrow> (nat \<Rightarrow> nat) \<Rightarrow> kernel \<Rightarrow> fault + kernel" where
  "prvCreateIdleTasks c mk = create_idle_loop c mk [0..<configNUMBER_OF_CORES]"

text \<open>\<open>vTaskStartScheduler\<close> up to \<open>xPortStartScheduler\<close>; \<open>tmr\<close> is the TCB of the timer task,
  which \<open>xTimerCreateTimerTask\<close> creates with the highest priority.\<close>

definition vTaskStartScheduler :: "(nat \<Rightarrow> nat) \<Rightarrow> nat \<Rightarrow> kernel \<Rightarrow> fault + kernel" where
  "vTaskStartScheduler mk tmr s =
     bindE (prvCreateIdleTasks 0 mk s) (\<lambda>s1.
     bindE (create_with_affinity 0 False ''Tmr Svc'' (of_nat (configMAX_PRIORITIES - 1))
              configTASK_DEFAULT_CORE_AFFINITY tmr s1) (\<lambda>s2.
       Inr (s2\<lparr>xNextTaskUnblockTime := portMAX_DELAY, xSchedulerRunning := True, xTickCount := 0\<rparr>)))"

section \<open>Deletion\<close>

text \<open>\<open>vTaskDelete\<close> once the task is out of its lists.\<close>

definition delete_removed :: "nat \<Rightarrow> nat \<Rightarrow> kernel \<Rightarrow> fault + (ptr \<times> kernel)" where
  "delete_removed c t s2 =
     (let s3 = s2\<lparr>uxTaskNumber := uxTaskNumber s2 + 1\<rparr> in
      if xSchedulerRunning s3 \<and> taskTASK_IS_RUNNING_OR_SCHEDULED_TO_YIELD t s3 then
        let s4 = state_insert_end TerminationL t s3;
            s5 = s4\<lparr>uxDeletedTasksWaitingCleanUp := uxDeletedTasksWaitingCleanUp s4 + 1\<rparr>
        in if taskTASK_IS_RUNNING t s5 then
             if runstate s5 t = int c then Inr (None, vTaskYieldWithinAPI c s5)
             else bindE (prvYieldCore c (nat (runstate s5 t)) s5) (\<lambda>s6. Inr (None, s6))
           else Inr (None, s5)
      else Inr (Some t, prvResetNextTaskUnblockTime
             (s3\<lparr>uxCurrentNumberOfTasks := dec32 (uxCurrentNumberOfTasks s3)\<rparr>)))"

text \<open>The second component says whether the TCB was freed at once (\<open>prvDeleteTCB\<close>).\<close>

definition vTaskDelete :: "nat \<Rightarrow> ptr \<Rightarrow> kernel \<Rightarrow> fault + (ptr \<times> kernel)" where
  "vTaskDelete c h s =
     critical c (\<lambda>s0.
       bindE (prvGetTCBFromHandle c h s0) (\<lambda>t.
       bindE (state_remove t s0) (\<lambda>s1.
       bindE (event_remove_if_waiting t s1) (delete_removed c t)))) s"

text \<open>One round of \<open>prvCheckTasksWaitingTermination\<close>: the TCB to free, and whether to go on.\<close>

definition termination_round :: "nat \<Rightarrow> kernel \<Rightarrow> fault + ((ptr \<times> bool) \<times> kernel)" where
  "termination_round c s =
     critical c (\<lambda>s0.
       if uxDeletedTasksWaitingCleanUp s0 > 0 then
         bindE (head_of TerminationL s0) (\<lambda>t.
           if runstate s0 t = taskTASK_NOT_RUNNING then
             bindE (state_remove t s0) (\<lambda>s1.
               Inr ((Some t, True), s1\<lparr>uxCurrentNumberOfTasks := dec32 (uxCurrentNumberOfTasks s1),
                      uxDeletedTasksWaitingCleanUp := dec32 (uxDeletedTasksWaitingCleanUp s1)\<rparr>))
           else Inr ((None, False), s0))
       else Inr ((None, True), s0)) s"

fun check_termination_loop :: "nat \<Rightarrow> nat \<Rightarrow> nat list \<Rightarrow> kernel \<Rightarrow> fault + (nat list \<times> kernel)" where
  "check_termination_loop 0 c freed s = (if uxDeletedTasksWaitingCleanUp s > 0 then Inl Diverges else Inr (freed, s))"
| "check_termination_loop (Suc fuel) c freed s =
     (if uxDeletedTasksWaitingCleanUp s > 0 then
        bindE (termination_round c s) (\<lambda>((p, go), s1).
          if go then check_termination_loop fuel c (case p of None \<Rightarrow> freed | Some t \<Rightarrow> freed @ [t]) s1
          else Inr (freed, s1))
      else Inr (freed, s))"

definition prvCheckTasksWaitingTermination :: "nat \<Rightarrow> kernel \<Rightarrow> fault + (nat list \<times> kernel)" where
  "prvCheckTasksWaitingTermination c s = check_termination_loop (uxDeletedTasksWaitingCleanUp s) c [] s"

section \<open>Delays\<close>

definition vTaskDelay :: "nat \<Rightarrow> u32 \<Rightarrow> kernel \<Rightarrow> fault + kernel" where
  "vTaskDelay c xTicksToDelay s =
     bindE (if xTicksToDelay > 0 then
              bindE (prvAddCurrentTaskToDelayedList c xTicksToDelay False (vTaskSuspendAll s)) (xTaskResumeAll c)
            else Inr (False, s)) (\<lambda>(xAlreadyYielded, s1).
       Inr (if xAlreadyYielded then s1 else vTaskYieldWithinAPI c s1))"

definition should_delay :: "u32 \<Rightarrow> u32 \<Rightarrow> u32 \<Rightarrow> bool" where
  "should_delay now prev wake =
     (if now < prev then wake < prev \<and> wake > now else wake < prev \<or> wake > now)"

text \<open>The new \<open>*pxPreviousWakeTime\<close>, the result, and the state.\<close>

definition xTaskDelayUntil :: "nat \<Rightarrow> u32 \<Rightarrow> u32 \<Rightarrow> kernel \<Rightarrow> fault + ((u32 \<times> bool) \<times> kernel)" where
  "xTaskDelayUntil c pxPreviousWakeTime xTimeIncrement s =
     (let s0 = vTaskSuspendAll s;
          now = xTickCount s0;
          xTimeToWake = pxPreviousWakeTime + xTimeIncrement;
          xShouldDelay = should_delay now pxPreviousWakeTime xTimeToWake
      in bindE (if xShouldDelay then prvAddCurrentTaskToDelayedList c (xTimeToWake - now) False s0 else Inr s0) (\<lambda>s1.
         bindE (xTaskResumeAll c s1) (\<lambda>(xAlreadyYielded, s2).
           Inr ((xTimeToWake, xShouldDelay), if xAlreadyYielded then s2 else vTaskYieldWithinAPI c s2))))"

datatype eTaskState = eRunning | eReady | eBlocked | eSuspended | eDeleted

definition eTaskGetState :: "nat \<Rightarrow> kernel \<Rightarrow> eTaskState" where
  "eTaskGetState t s =
     (let sl = stateContainer (tcb s t); el = eventContainer (tcb s t) in
      if el = Some PendingReadyL then eReady
      else if sl = Some (pxDelayedTaskList s) \<or> sl = Some (pxOverflowDelayedTaskList s) then eBlocked
      else if sl = Some SuspendedL then
        if el = None then (if ucNotifyState (tcb s t) = Waiting then eBlocked else eSuspended) else eBlocked
      else if sl = Some TerminationL \<or> sl = None then eDeleted
      else if taskTASK_IS_RUNNING t s then eRunning else eReady)"

definition xTaskAbortDelay :: "nat \<Rightarrow> nat \<Rightarrow> kernel \<Rightarrow> fault + (bool \<times> kernel)" where
  "xTaskAbortDelay c t s =
     (let s0 = vTaskSuspendAll s in
      bindE (if eTaskGetState t s0 = eBlocked then
               bindE (state_remove t s0) (\<lambda>s1.
               bindE (critical c (\<lambda>s2.
                        if eventContainer (tcb s2 t) \<noteq> None then
                          bindE (event_remove t s2) (\<lambda>s3. Inr ((), upd_tcb t (\<lambda>x. x\<lparr>ucDelayAborted := True\<rparr>) s3))
                        else Inr ((), s2)) s1) (\<lambda>(_, s4).
               bindE (prvAddTaskToReadyList t s4) (\<lambda>s5.
               bindE (critical c (\<lambda>s6. bindE (prvYieldForTask c t s6) (\<lambda>s7. Inr ((), s7))) s5) (\<lambda>(_, s8).
                 Inr (True, s8)))))
             else Inr (False, s0)) (\<lambda>(r, s9).
      bindE (xTaskResumeAll c s9) (\<lambda>(_, s10). Inr (r, s10))))"

section \<open>Suspension\<close>

text \<open>\<open>vTaskSuspend\<close> once the task is out of its lists: it is put into the suspended list, and
  leaves its core.\<close>

definition suspend_removed :: "nat \<Rightarrow> kernel \<Rightarrow> kernel" where
  "suspend_removed t s2 =
     (let s3 = state_insert_end SuspendedL t s2
      in if ucNotifyState (tcb s3 t) = Waiting then upd_tcb t (\<lambda>x. x\<lparr>ucNotifyState := NotWaiting\<rparr>) s3 else s3)"

definition suspend_leave :: "nat \<Rightarrow> nat \<Rightarrow> kernel \<Rightarrow> fault + (unit \<times> kernel)" where
  "suspend_leave c t s4 =
     (if xSchedulerRunning s4 then
        let s5 = prvResetNextTaskUnblockTime s4 in
        if taskTASK_IS_RUNNING t s5 then
          if runstate s5 t = int c then Inr ((), vTaskYieldWithinAPI c s5)
          else bindE (prvYieldCore c (nat (runstate s5 t)) s5) (\<lambda>s6. Inr ((), s6))
        else Inr ((), s5)
      else Inr ((), s4))"

definition vTaskSuspend :: "nat \<Rightarrow> ptr \<Rightarrow> kernel \<Rightarrow> fault + (unit \<times> kernel)" where
  "vTaskSuspend c h s =
     critical c (\<lambda>s0.
       bindE (prvGetTCBFromHandle c h s0) (\<lambda>t.
       bindE (state_remove t s0) (\<lambda>s1.
       bindE (event_remove_if_waiting t s1) (\<lambda>s2. suspend_leave c t (suspend_removed t s2))))) s"

definition prvTaskIsTaskSuspended :: "nat \<Rightarrow> kernel \<Rightarrow> bool" where
  "prvTaskIsTaskSuspended t s =
     (if stateContainer (tcb s t) = Some SuspendedL then
        if eventContainer (tcb s t) \<noteq> Some PendingReadyL then
          if eventContainer (tcb s t) = None then ucNotifyState (tcb s t) \<noteq> Waiting else False
        else False
      else False)"

definition vTaskResume :: "nat \<Rightarrow> ptr \<Rightarrow> kernel \<Rightarrow> fault + (unit \<times> kernel)" where
  "vTaskResume c h s =
     (case h of None \<Rightarrow> Inr ((), s)
      | Some t \<Rightarrow> critical c (\<lambda>s0.
          if prvTaskIsTaskSuspended t s0 then
            bindE (state_remove t s0) (\<lambda>s1.
            bindE (prvAddTaskToReadyList t s1) (\<lambda>s2.
            bindE (prvYieldForTask c t s2) (\<lambda>s3. Inr ((), s3))))
          else Inr ((), s0)) s)"

definition xTaskResumeFromISR :: "nat \<Rightarrow> nat \<Rightarrow> kernel \<Rightarrow> fault + (bool \<times> kernel)" where
  "xTaskResumeFromISR c t s =
     (let s0 = vTaskEnterCriticalFromISR c s in
      bindE (if prvTaskIsTaskSuspended t s0 then
               bindE (if uxSchedulerSuspended s0 = 0
                      then bindE (state_remove t s0) (prvAddTaskToReadyList t)
                      else Inr (event_insert_end PendingReadyL t s0)) (\<lambda>s1.
               bindE (prvYieldForTask c t s1) (\<lambda>s2. Inr (xYieldPendings s2 c, s2)))
             else Inr (False, s0)) (\<lambda>(r, s3). Inr (r, vTaskExitCriticalFromISR c s3)))"

section \<open>Priorities and affinity\<close>

definition uxTaskPriorityGet :: "nat \<Rightarrow> ptr \<Rightarrow> kernel \<Rightarrow> fault + nat" where
  "uxTaskPriorityGet c h s = bindE (prvGetTCBFromHandle c h s) (\<lambda>t. Inr (prio s t))"

text \<open>The value of an event list item, unless it is in use for an event group.\<close>

definition set_event_value :: "nat \<Rightarrow> nat \<Rightarrow> kernel \<Rightarrow> kernel" where
  "set_event_value t pr s =
     (if and (xEventListItem (tcb s t)) taskEVENT_LIST_ITEM_VALUE_IN_USE = 0
      then upd_tcb t (\<lambda>x. x\<lparr>xEventListItem := of_nat configMAX_PRIORITIES - of_nat pr\<rparr>) s else s)"

definition vTaskPrioritySet :: "nat \<Rightarrow> ptr \<Rightarrow> u32 \<Rightarrow> kernel \<Rightarrow> fault + (unit \<times> kernel)" where
  "vTaskPrioritySet c h uxNewPriority s =
     (let np = (if unat uxNewPriority \<ge> configMAX_PRIORITIES then configMAX_PRIORITIES - 1 else unat uxNewPriority) in
      critical c (\<lambda>s0.
        bindE (prvGetTCBFromHandle c h s0) (\<lambda>t.
          let uxCurrentBasePriority = uxBasePriority (tcb s0 t) in
          if uxCurrentBasePriority \<noteq> np then
            let xYieldForTask = (np > uxCurrentBasePriority);
                xYieldRequired = (\<not> np > uxCurrentBasePriority \<and> taskTASK_IS_RUNNING t s0);
                uxPriorityUsedOnEntry = prio s0 t;
                s1 = (if uxBasePriority (tcb s0 t) = prio s0 t \<or> np > prio s0 t
                      then upd_tcb t (\<lambda>x. x\<lparr>uxPriority := np\<rparr>) s0 else s0);
                s2 = set_event_value t np (upd_tcb t (\<lambda>x. x\<lparr>uxBasePriority := np\<rparr>) s1)
            in bindE (if stateContainer (tcb s2 t) = Some (ReadyL uxPriorityUsedOnEntry)
                      then bindE (state_remove t s2) (\<lambda>s3. bindE (prvAddTaskToReadyList t s3) (\<lambda>s4. Inr (xYieldForTask, s4)))
                      else Inr (False, s2)) (\<lambda>(yft, s5).
               if xYieldRequired then bindE (prvYieldCore c (nat (runstate s5 t)) s5) (\<lambda>s6. Inr ((), s6))
               else if yft then bindE (prvYieldForTask c t s5) (\<lambda>s6. Inr ((), s6))
               else Inr ((), s5))
          else Inr ((), s0))) s)"

text \<open>\<open>prvYieldForTask\<close> gets the handle, not the TCB: for a NULL handle it follows NULL.\<close>

definition vTaskCoreAffinitySet :: "nat \<Rightarrow> ptr \<Rightarrow> u32 \<Rightarrow> kernel \<Rightarrow> fault + (unit \<times> kernel)" where
  "vTaskCoreAffinitySet c h uxCoreMask s =
     critical c (\<lambda>s0.
       bindE (prvGetTCBFromHandle c h s0) (\<lambda>t.
         let s1 = upd_tcb t (\<lambda>x. x\<lparr>uxCoreAffinityMask := uxCoreMask\<rparr>) s0 in
         if xSchedulerRunning s1 then
           if taskTASK_IS_RUNNING t s1 then
             if \<not> bit uxCoreMask (nat (runstate s1 t))
             then bindE (prvYieldCore c (nat (runstate s1 t)) s1) (\<lambda>s2. Inr ((), s2))
             else Inr ((), s1)
           else bindE (follow h) (\<lambda>u. bindE (prvYieldForTask c u s1) (\<lambda>s2. Inr ((), s2)))
         else Inr ((), s1))) s"

definition vTaskCoreAffinityGet :: "nat \<Rightarrow> ptr \<Rightarrow> kernel \<Rightarrow> fault + u32" where
  "vTaskCoreAffinityGet c h s = bindE (prvGetTCBFromHandle c h s) (\<lambda>t. Inr (uxCoreAffinityMask (tcb s t)))"

end
