(* ===== verification/TaskEvents.thy ===== *)
theory TaskEvents
  imports TaskApi
begin

text \<open>
  The part of \<open>tasks.c\<close> that queues, event groups and timers build on: blocking on an event list
  and being removed from one, timeouts, priority inheritance for mutexes, and task notifications.
  A function that blocks is split where the calling task is switched out: the first definition
  ends with the yield, the second is what the task does when it runs again.
\<close>

section \<open>Event lists\<close>

definition vTaskPlaceOnEventList :: "nat \<Rightarrow> klist \<Rightarrow> u32 \<Rightarrow> kernel \<Rightarrow> fault + kernel" where
  "vTaskPlaceOnEventList c L xTicksToWait s =
     bindE (current c s) (\<lambda>t. prvAddCurrentTaskToDelayedList c xTicksToWait True (event_insert L t s))"

definition vTaskPlaceOnUnorderedEventList :: "nat \<Rightarrow> klist \<Rightarrow> u32 \<Rightarrow> u32 \<Rightarrow> kernel \<Rightarrow> fault + kernel" where
  "vTaskPlaceOnUnorderedEventList c L xItemVal xTicksToWait s =
     bindE (current c s) (\<lambda>t.
       prvAddCurrentTaskToDelayedList c xTicksToWait True
         (event_insert_end L t
           (upd_tcb t (\<lambda>x. x\<lparr>xEventListItem := or xItemVal taskEVENT_LIST_ITEM_VALUE_IN_USE\<rparr>) s)))"

definition vTaskPlaceOnEventListRestricted :: "nat \<Rightarrow> klist \<Rightarrow> u32 \<Rightarrow> bool \<Rightarrow> kernel \<Rightarrow> fault + kernel" where
  "vTaskPlaceOnEventListRestricted c L xTicksToWait xWaitIndefinitely s =
     bindE (current c s) (\<lambda>t.
       prvAddCurrentTaskToDelayedList c (if xWaitIndefinitely then portMAX_DELAY else xTicksToWait)
         xWaitIndefinitely (event_insert_end L t s))"

definition xTaskRemoveFromEventList :: "nat \<Rightarrow> klist \<Rightarrow> kernel \<Rightarrow> fault + (bool \<times> kernel)" where
  "xTaskRemoveFromEventList c L s =
     bindE (head_of L s) (\<lambda>t.
     bindE (event_remove t s) (\<lambda>s1.
     bindE (if uxSchedulerSuspended s1 = 0
            then bindE (state_remove t s1) (\<lambda>s2.
                 bindE (prvAddTaskToReadyList t s2) (\<lambda>s3. Inr (prvResetNextTaskUnblockTime s3)))
            else Inr (event_insert_end PendingReadyL t s1)) (\<lambda>s4.
     bindE (prvYieldForTask c t s4) (\<lambda>s5. Inr (xYieldPendings s5 c, s5)))))"

definition vTaskRemoveFromUnorderedEventList :: "nat \<Rightarrow> nat \<Rightarrow> u32 \<Rightarrow> kernel \<Rightarrow> fault + kernel" where
  "vTaskRemoveFromUnorderedEventList c t xItemVal s =
     bindE (event_remove t (upd_tcb t (\<lambda>x. x\<lparr>xEventListItem := or xItemVal taskEVENT_LIST_ITEM_VALUE_IN_USE\<rparr>) s)) (\<lambda>s1.
     bindE (state_remove t (prvResetNextTaskUnblockTime s1)) (\<lambda>s2.
     bindE (prvAddTaskToReadyList t s2) (\<lambda>s3.
     bindE (critical c (\<lambda>s4. bindE (prvYieldForTask c t s4) (\<lambda>s5. Inr ((), s5))) s3) (\<lambda>(_, s6). Inr s6))))"

definition uxTaskResetEventItemValue :: "nat \<Rightarrow> kernel \<Rightarrow> fault + (u32 \<times> kernel)" where
  "uxTaskResetEventItemValue c s =
     bindE (current c s) (\<lambda>t. Inr (xEventListItem (tcb s t),
       upd_tcb t (\<lambda>x. x\<lparr>xEventListItem := of_nat configMAX_PRIORITIES - of_nat (uxPriority x)\<rparr>) s))"

section \<open>Timeouts\<close>

record timeout =
  xOverflowCount :: int
  xTimeOnEntering :: u32

definition vTaskInternalSetTimeOutState :: "kernel \<Rightarrow> timeout" where
  "vTaskInternalSetTimeOutState s = \<lparr>xOverflowCount = xNumOfOverflows s, xTimeOnEntering = xTickCount s\<rparr>"

definition vTaskSetTimeOutState :: "nat \<Rightarrow> kernel \<Rightarrow> timeout \<times> kernel" where
  "vTaskSetTimeOutState c s =
     (let s0 = vTaskEnterCritical c s
      in (\<lparr>xOverflowCount = xNumOfOverflows s0, xTimeOnEntering = xTickCount s0\<rparr>, vTaskExitCritical c s0))"

text \<open>The decision of \<open>xTaskCheckForTimeOut\<close>: timed out, the new timeout, the ticks left.\<close>

definition check_timeout :: "kernel \<Rightarrow> timeout \<Rightarrow> u32 \<Rightarrow> bool \<times> timeout \<times> u32" where
  "check_timeout s tmo ticks =
     (let now = xTickCount s; elapsed = now - xTimeOnEntering tmo in
      if ticks = portMAX_DELAY then (False, tmo, ticks)
      else if xNumOfOverflows s \<noteq> xOverflowCount tmo \<and> now \<ge> xTimeOnEntering tmo then (True, tmo, 0)
      else if elapsed < ticks then (False, vTaskInternalSetTimeOutState s, ticks - elapsed)
      else (True, tmo, 0))"

definition xTaskCheckForTimeOut :: "nat \<Rightarrow> timeout \<Rightarrow> u32 \<Rightarrow> kernel \<Rightarrow> fault + ((bool \<times> timeout \<times> u32) \<times> kernel)" where
  "xTaskCheckForTimeOut c tmo ticks s =
     critical c (\<lambda>s0.
       bindE (current c s0) (\<lambda>t.
         if ucDelayAborted (tcb s0 t)
         then Inr ((True, tmo, ticks), upd_tcb t (\<lambda>x. x\<lparr>ucDelayAborted := False\<rparr>) s0)
         else Inr (check_timeout s0 tmo ticks, s0))) s"

definition vTaskMissedYield :: "nat \<Rightarrow> kernel \<Rightarrow> kernel" where
  "vTaskMissedYield c s = set_yield_pending c True s"

section \<open>Priority inheritance\<close>

definition pvTaskIncrementMutexHeldCount :: "nat \<Rightarrow> kernel \<Rightarrow> ptr \<times> kernel" where
  "pvTaskIncrementMutexHeldCount c s =
     (case pxCurrentTCBs s c of None \<Rightarrow> (None, s)
      | Some t \<Rightarrow> (Some t, upd_tcb t (\<lambda>x. x\<lparr>uxMutexesHeld := uxMutexesHeld x + 1\<rparr>) s))"

definition xTaskPriorityInherit :: "nat \<Rightarrow> ptr \<Rightarrow> kernel \<Rightarrow> fault + (bool \<times> kernel)" where
  "xTaskPriorityInherit c holder s =
     (case holder of None \<Rightarrow> Inr (False, s)
      | Some t \<Rightarrow> bindE (current c s) (\<lambda>cur.
          if prio s t < prio s cur then
            let s1 = set_event_value t (prio s cur) s in
            if stateContainer (tcb s1 t) = Some (ReadyL (prio s1 t)) then
              bindE (state_remove t s1) (\<lambda>s2.
              bindE (prvAddTaskToReadyList t (upd_tcb t (\<lambda>x. x\<lparr>uxPriority := prio s2 cur\<rparr>) s2)) (\<lambda>s3.
                if \<not> taskTASK_IS_RUNNING t s3
                then bindE (prvYieldForTask c t s3) (\<lambda>s4. Inr (True, s4)) else Inr (True, s3)))
            else Inr (True, upd_tcb t (\<lambda>x. x\<lparr>uxPriority := prio s1 cur\<rparr>) s1)
          else Inr (uxBasePriority (tcb s t) < prio s cur, s)))"

definition xTaskPriorityDisinherit :: "nat \<Rightarrow> ptr \<Rightarrow> kernel \<Rightarrow> fault + (bool \<times> kernel)" where
  "xTaskPriorityDisinherit c holder s =
     (case holder of None \<Rightarrow> Inr (False, s)
      | Some t \<Rightarrow>
          let s0 = upd_tcb t (\<lambda>x. x\<lparr>uxMutexesHeld := dec32 (uxMutexesHeld x)\<rparr>) s in
          if prio s0 t \<noteq> uxBasePriority (tcb s0 t) \<and> uxMutexesHeld (tcb s0 t) = 0 then
            bindE (state_remove t s0) (\<lambda>s1.
            let s2 = upd_tcb t (\<lambda>x. x\<lparr>uxPriority := uxBasePriority x\<rparr>) s1;
                s3 = upd_tcb t (\<lambda>x. x\<lparr>xEventListItem := of_nat configMAX_PRIORITIES - of_nat (uxPriority x)\<rparr>) s2
            in bindE (prvAddTaskToReadyList t s3) (\<lambda>s4.
               if taskTASK_IS_RUNNING t s4
               then bindE (prvYieldCore c (nat (runstate s4 t)) s4) (\<lambda>s5. Inr (True, s5))
               else Inr (True, s4)))
          else Inr (False, s0))"

definition vTaskPriorityDisinheritAfterTimeout :: "nat \<Rightarrow> ptr \<Rightarrow> nat \<Rightarrow> kernel \<Rightarrow> fault + kernel" where
  "vTaskPriorityDisinheritAfterTimeout c holder highest s =
     (case holder of None \<Rightarrow> Inr s
      | Some t \<Rightarrow>
          let use = (if uxBasePriority (tcb s t) < highest then highest else uxBasePriority (tcb s t)) in
          if prio s t \<noteq> use \<and> uxMutexesHeld (tcb s t) = 1 then
            let uxPriorityUsedOnEntry = prio s t;
                s1 = set_event_value t use (upd_tcb t (\<lambda>x. x\<lparr>uxPriority := use\<rparr>) s)
            in if stateContainer (tcb s1 t) = Some (ReadyL uxPriorityUsedOnEntry) then
                 bindE (state_remove t s1) (\<lambda>s2.
                 bindE (prvAddTaskToReadyList t s2) (\<lambda>s3.
                   if taskTASK_IS_RUNNING t s3 then prvYieldCore c (nat (runstate s3 t)) s3 else Inr s3))
               else Inr s1
          else Inr s)"

section \<open>Notifications\<close>

datatype eNotifyAction = eNoAction | eSetBits | eIncrement | eSetValueWithOverwrite | eSetValueWithoutOverwrite

text \<open>The new notification value and whether the call succeeds.\<close>

definition notify_value :: "eNotifyAction \<Rightarrow> notify_state \<Rightarrow> u32 \<Rightarrow> u32 \<Rightarrow> u32 \<times> bool" where
  "notify_value act st old v = (case act of
       eNoAction \<Rightarrow> (old, True)
     | eSetBits \<Rightarrow> (or old v, True)
     | eIncrement \<Rightarrow> (old + 1, True)
     | eSetValueWithOverwrite \<Rightarrow> (v, True)
     | eSetValueWithoutOverwrite \<Rightarrow> if st \<noteq> Received then (v, True) else (old, False))"

text \<open>The result and the previous value.\<close>

definition xTaskGenericNotify :: "nat \<Rightarrow> nat \<Rightarrow> u32 \<Rightarrow> eNotifyAction \<Rightarrow> kernel \<Rightarrow> fault + ((bool \<times> u32) \<times> kernel)" where
  "xTaskGenericNotify c t ulValue act s =
     critical c (\<lambda>s0.
       let prev = ulNotifiedValue (tcb s0 t);
           orig = ucNotifyState (tcb s0 t);
           (v, ok) = notify_value act orig prev ulValue;
           s1 = upd_tcb t (\<lambda>x. x\<lparr>ucNotifyState := Received, ulNotifiedValue := v\<rparr>) s0
       in if orig = Waiting then
            bindE (state_remove t s1) (\<lambda>s2.
            bindE (prvAddTaskToReadyList t s2) (\<lambda>s3.
            bindE (prvYieldForTask c t (prvResetNextTaskUnblockTime s3)) (\<lambda>s4. Inr ((ok, prev), s4))))
          else Inr ((ok, prev), s1)) s"

text \<open>Both waiting functions: the blocking part, given whether to block and what to do first.\<close>

definition notify_block :: "nat \<Rightarrow> u32 \<Rightarrow> (tcb_rec \<Rightarrow> bool) \<Rightarrow> (tcb_rec \<Rightarrow> tcb_rec) \<Rightarrow> kernel \<Rightarrow> fault + kernel" where
  "notify_block c xTicksToWait cond f s =
     bindE (current c s) (\<lambda>t0.
       if cond (tcb s t0) \<and> xTicksToWait > 0 then
         bindE (critical c (\<lambda>s0. bindE (current c s0) (\<lambda>t.
             if cond (tcb s0 t) then Inr (True, upd_tcb t (\<lambda>x. (f x)\<lparr>ucNotifyState := Waiting\<rparr>) s0)
             else Inr (False, s0))) (vTaskSuspendAll s)) (\<lambda>(blk, s1).
         bindE (if blk then prvAddCurrentTaskToDelayedList c xTicksToWait True s1 else Inr s1) (\<lambda>s2.
         bindE (xTaskResumeAll c s2) (\<lambda>(xAlreadyYielded, s3).
           Inr (if blk \<and> \<not> xAlreadyYielded then vTaskYieldWithinAPI c s3 else s3))))
       else Inr s)"

definition ulTaskGenericNotifyTake_block :: "nat \<Rightarrow> u32 \<Rightarrow> kernel \<Rightarrow> fault + kernel" where
  "ulTaskGenericNotifyTake_block c xTicksToWait =
     notify_block c xTicksToWait (\<lambda>x. ulNotifiedValue x = 0) (\<lambda>x. x)"

definition ulTaskGenericNotifyTake_return :: "nat \<Rightarrow> bool \<Rightarrow> kernel \<Rightarrow> fault + (u32 \<times> kernel)" where
  "ulTaskGenericNotifyTake_return c xClearCountOnExit s =
     critical c (\<lambda>s0. bindE (current c s0) (\<lambda>t.
       let r = ulNotifiedValue (tcb s0 t);
           s1 = (if r \<noteq> 0 then upd_tcb t (\<lambda>x. x\<lparr>ulNotifiedValue := (if xClearCountOnExit then 0 else r - 1)\<rparr>) s0 else s0)
       in Inr (r, upd_tcb t (\<lambda>x. x\<lparr>ucNotifyState := NotWaiting\<rparr>) s1))) s"

definition xTaskGenericNotifyWait_block :: "nat \<Rightarrow> u32 \<Rightarrow> u32 \<Rightarrow> kernel \<Rightarrow> fault + kernel" where
  "xTaskGenericNotifyWait_block c ulBitsToClearOnEntry xTicksToWait =
     notify_block c xTicksToWait (\<lambda>x. ucNotifyState x \<noteq> Received)
       (\<lambda>x. x\<lparr>ulNotifiedValue := and (ulNotifiedValue x) (not ulBitsToClearOnEntry)\<rparr>)"

text \<open>Whether a notification was received, and the value written through the pointer.\<close>

definition xTaskGenericNotifyWait_return :: "nat \<Rightarrow> u32 \<Rightarrow> kernel \<Rightarrow> fault + ((bool \<times> u32) \<times> kernel)" where
  "xTaskGenericNotifyWait_return c ulBitsToClearOnExit s =
     critical c (\<lambda>s0. bindE (current c s0) (\<lambda>t.
       let v = ulNotifiedValue (tcb s0 t);
           got = (ucNotifyState (tcb s0 t) = Received);
           s1 = (if got then upd_tcb t (\<lambda>x. x\<lparr>ulNotifiedValue := and v (not ulBitsToClearOnExit)\<rparr>) s0 else s0)
       in Inr ((got, v), upd_tcb t (\<lambda>x. x\<lparr>ucNotifyState := NotWaiting\<rparr>) s1))) s"

definition xTaskGenericNotifyStateClear :: "nat \<Rightarrow> ptr \<Rightarrow> kernel \<Rightarrow> fault + (bool \<times> kernel)" where
  "xTaskGenericNotifyStateClear c h s =
     bindE (prvGetTCBFromHandle c h s) (\<lambda>t.
       critical c (\<lambda>s0.
         if ucNotifyState (tcb s0 t) = Received
         then Inr (True, upd_tcb t (\<lambda>x. x\<lparr>ucNotifyState := NotWaiting\<rparr>) s0) else Inr (False, s0)) s)"

definition ulTaskGenericNotifyValueClear :: "nat \<Rightarrow> ptr \<Rightarrow> u32 \<Rightarrow> kernel \<Rightarrow> fault + (u32 \<times> kernel)" where
  "ulTaskGenericNotifyValueClear c h ulBitsToClear s =
     bindE (prvGetTCBFromHandle c h s) (\<lambda>t.
       critical c (\<lambda>s0. Inr (ulNotifiedValue (tcb s0 t),
         upd_tcb t (\<lambda>x. x\<lparr>ulNotifiedValue := and (ulNotifiedValue x) (not ulBitsToClear)\<rparr>) s0)) s)"

end
