(* ===== verification/KernelInv.thy ===== *)
theory KernelInv
  imports TaskEvents
begin

text \<open>
  The invariant of the kernel state and the lemmas that carry it through the list operations, the
  yields and the loops.  \<open>kinv\<close> is what holds inside a critical section; \<open>stable\<close> adds what holds
  between the calls of tasks and interrupts.  \<open>ensures\<close> is total correctness of a computation that
  may fault: it reaches a value, and the value has the property.
\<close>

named_theorems kinv_intros "rules that carry the invariant through one primitive operation"

section \<open>Computations that do not fault\<close>

definition ensures :: "'e + 'a \<Rightarrow> ('a \<Rightarrow> bool) \<Rightarrow> bool" where
  "ensures m Q = (\<exists>x. m = Inr x \<and> Q x)"

lemma ensures_Inr [simp]: "ensures (Inr x) Q = Q x"
  by (simp add: ensures_def)

lemma ensures_Inl [simp]: "\<not> ensures (Inl e) Q"
  by (simp add: ensures_def)

lemma ensures_bind: "ensures m P \<Longrightarrow> (\<And>x. P x \<Longrightarrow> ensures (f x) Q) \<Longrightarrow> ensures (bindE m f) Q"
  by (auto simp: ensures_def)

lemma ensures_mono: "ensures m P \<Longrightarrow> (\<And>x. P x \<Longrightarrow> Q x) \<Longrightarrow> ensures m Q"
  by (auto simp: ensures_def)

lemma ensures_if: "(b \<Longrightarrow> ensures m Q) \<Longrightarrow> (\<not> b \<Longrightarrow> ensures n Q) \<Longrightarrow> ensures (if b then m else n) Q"
  by simp

lemma ensures_obtain: "ensures m Q \<Longrightarrow> (\<And>x. m = Inr x \<Longrightarrow> Q x \<Longrightarrow> P) \<Longrightarrow> P"
  by (auto simp: ensures_def)

section \<open>The invariant\<close>

definition cur :: "kernel \<Rightarrow> nat \<Rightarrow> nat" where
  "cur s x = the (pxCurrentTCBs s x)"

definition state_list :: "klist \<Rightarrow> bool" where
  "state_list L = (case L of PendingReadyL \<Rightarrow> False | EventL _ \<Rightarrow> False | _ \<Rightarrow> True)"

lemma state_list_simps [simp]:
  "state_list (ReadyL p)" "state_list DelayedL1" "state_list DelayedL2" "state_list SuspendedL"
  "state_list TerminationL" "\<not> state_list PendingReadyL" "\<not> state_list (EventL n)"
  by (simp_all add: state_list_def)

text \<open>A task is in the list its container field names, once, and in no other list of the kind.\<close>

definition lists_wf :: "kernel \<Rightarrow> bool" where
  "lists_wf s \<longleftrightarrow> (\<forall>L. distinct (lists s L)) \<and>
     (\<forall>L t. t \<in> set (lists s L) \<longleftrightarrow>
        (if state_list L then stateContainer (tcb s t) = Some L else eventContainer (tcb s t) = Some L)) \<and>
     (\<forall>L t. stateContainer (tcb s t) = Some L \<longrightarrow> state_list L) \<and>
     (\<forall>L t. eventContainer (tcb s t) = Some L \<longrightarrow> \<not> state_list L)"

text \<open>Every ready task is in the list of its priority, and \<open>uxTopReadyPriority\<close> is an upper bound
  of the priorities with a ready task.\<close>

definition prios_wf :: "kernel \<Rightarrow> bool" where
  "prios_wf s \<longleftrightarrow> (\<forall>t. prio s t < configMAX_PRIORITIES \<and> uxBasePriority (tcb s t) < configMAX_PRIORITIES) \<and>
     uxTopReadyPriority s < configMAX_PRIORITIES \<and>
     (\<forall>p. \<forall>t \<in> set (ready s p). prio s t = p \<and> p \<le> uxTopReadyPriority s)"

definition delays_wf :: "kernel \<Rightarrow> bool" where
  "delays_wf s \<longleftrightarrow>
     (pxDelayedTaskList s, pxOverflowDelayedTaskList s) \<in> {(DelayedL1, DelayedL2), (DelayedL2, DelayedL1)} \<and>
     sorted (map (\<lambda>t. xStateListItem (tcb s t)) (delayed s)) \<and>
     sorted (map (\<lambda>t. xStateListItem (tcb s t)) (overflowed s)) \<and>
     (\<forall>t \<in> set (delayed s). xNextTaskUnblockTime s \<le> xStateListItem (tcb s t))"

text \<open>A task that no core runs is marked as not running.\<close>

definition settled :: "kernel \<Rightarrow> nat \<Rightarrow> bool" where
  "settled s t \<longleftrightarrow> runstate s t = taskTASK_NOT_RUNNING \<or> (\<exists>x < configNUMBER_OF_CORES. cur s x = t)"

text \<open>Each core has a task of its own, which may run on that core unless it is being switched out.\<close>

definition cores_wf :: "kernel \<Rightarrow> bool" where
  "cores_wf s \<longleftrightarrow>
     (\<forall>x < configNUMBER_OF_CORES. pxCurrentTCBs s x = Some (cur s x) \<and>
        (runstate s (cur s x) = int x \<and> may_run_on s (cur s x) x \<or>
         runstate s (cur s x) = taskTASK_SCHEDULED_TO_YIELD)) \<and>
     cur s 0 \<noteq> cur s 1 \<and>
     (\<forall>t. stateContainer (tcb s t) \<noteq> None \<longrightarrow> settled s t)"

definition idle_task :: "kernel \<Rightarrow> nat \<Rightarrow> bool" where
  "idle_task s t \<longleftrightarrow> (\<exists>x < configNUMBER_OF_CORES. xIdleTaskHandles s x = Some t)"

text \<open>The idle tasks are always ready, at the lowest priority, and may run anywhere.\<close>

definition idle_wf :: "kernel \<Rightarrow> bool" where
  "idle_wf s \<longleftrightarrow>
     (\<forall>x < configNUMBER_OF_CORES. \<exists>i. xIdleTaskHandles s x = Some i \<and> i \<in> set (ready s 0) \<and>
        isIdle (tcb s i) \<and> (\<forall>y < configNUMBER_OF_CORES. may_run_on s i y)) \<and>
     xIdleTaskHandles s 0 \<noteq> xIdleTaskHandles s 1"

definition kinv :: "kernel \<Rightarrow> bool" where
  "kinv s \<longleftrightarrow> lists_wf s \<and> prios_wf s \<and> delays_wf s \<and> cores_wf s \<and> idle_wf s"

lemmas kinv_defs = lists_wf_def prios_wf_def delays_wf_def cores_wf_def idle_wf_def settled_def
  cur_def may_run_on_def
lemmas prim_defs = upd_tcb_def set_list_def

lemma all_cores [simp]: "(\<forall>x < configNUMBER_OF_CORES. P x) \<longleftrightarrow> P 0 \<and> P (1::nat)"
  by (auto simp: configNUMBER_OF_CORES_def less_2_cases_iff)

lemma ex_core [simp]: "(\<exists>x < configNUMBER_OF_CORES. P x) \<longleftrightarrow> P 0 \<or> P (1::nat)"
  by (auto simp: configNUMBER_OF_CORES_def less_2_cases_iff)

lemma in_state_list:
  assumes "kinv s" "state_list L"
  shows "t \<in> set (lists s L) \<longleftrightarrow> stateContainer (tcb s t) = Some L"
proof -
  have "\<forall>L t. t \<in> set (lists s L) \<longleftrightarrow>
      (if state_list L then stateContainer (tcb s t) = Some L else eventContainer (tcb s t) = Some L)"
    using assms(1) unfolding kinv_def lists_wf_def by blast
  with assms(2) show ?thesis by simp
qed

lemma kinv_delay_lists:
  "kinv s \<Longrightarrow> (pxDelayedTaskList s, pxOverflowDelayedTaskList s) \<in> {(DelayedL1, DelayedL2), (DelayedL2, DelayedL1)}"
  by (simp add: kinv_def delays_wf_def)

lemma kinv_distinct: "kinv s \<Longrightarrow> distinct (lists s L)"
  by (simp add: kinv_def lists_wf_def)

lemma kinv_sorted:
  "kinv s \<Longrightarrow> sorted (map (\<lambda>t. xStateListItem (tcb s t)) (delayed s))"
  "kinv s \<Longrightarrow> sorted (map (\<lambda>t. xStateListItem (tcb s t)) (overflowed s))"
  by (simp_all add: kinv_def delays_wf_def)

text \<open>The fields the invariant does not speak of.\<close>

lemma kinv_fields [simp]:
  "kinv (s\<lparr>xTickCount := a\<rparr>) = kinv s"
  "kinv (s\<lparr>xPendedTicks := a\<rparr>) = kinv s"
  "kinv (s\<lparr>xYieldPendings := b\<rparr>) = kinv s"
  "kinv (s\<lparr>pendsv := b\<rparr>) = kinv s"
  "kinv (s\<lparr>uxCriticalNestings := d\<rparr>) = kinv s"
  "kinv (s\<lparr>uxSchedulerSuspended := e\<rparr>) = kinv s"
  "kinv (s\<lparr>uxTaskNumber := e\<rparr>) = kinv s"
  "kinv (s\<lparr>uxCurrentNumberOfTasks := e\<rparr>) = kinv s"
  "kinv (s\<lparr>uxDeletedTasksWaitingCleanUp := e\<rparr>) = kinv s"
  "kinv (s\<lparr>xNumOfOverflows := i\<rparr>) = kinv s"
  "kinv (s\<lparr>xSchedulerRunning := r\<rparr>) = kinv s"
  by (simp_all add: kinv_def kinv_defs)

lemma kinv_nesting [simp]:
  "kinv (set_nesting c n s) = kinv s"
  "kinv (portYIELD c s) = kinv s"
  "kinv (set_yield_pending c b s) = kinv s"
  "kinv (vTaskEnterCritical c s) = kinv s"
  "kinv (vTaskExitCritical c s) = kinv s"
  "kinv (vTaskEnterCriticalFromISR c s) = kinv s"
  "kinv (vTaskExitCriticalFromISR c s) = kinv s"
  "kinv (vTaskYieldWithinAPI c s) = kinv s"
  "kinv (vTaskSuspendAll s) = kinv s"
  by (simp_all add: set_nesting_def portYIELD_def set_yield_pending_def vTaskEnterCritical_def
      vTaskExitCritical_def vTaskEnterCriticalFromISR_def vTaskExitCriticalFromISR_def
      vTaskYieldWithinAPI_def vTaskSuspendAll_def Let_def)

text \<open>What the invariant says beyond \<open>lists_wf\<close> depends on this much of the state.\<close>

definition core_same :: "kernel \<Rightarrow> kernel \<Rightarrow> bool" where
  "core_same s s' \<longleftrightarrow> (\<forall>K. state_list K \<longrightarrow> lists s' K = lists s K) \<and>
     (\<forall>u. stateContainer (tcb s' u) = stateContainer (tcb s u) \<and> xStateListItem (tcb s' u) = xStateListItem (tcb s u) \<and>
        uxCoreAffinityMask (tcb s' u) = uxCoreAffinityMask (tcb s u) \<and> prio s' u = prio s u \<and>
        uxBasePriority (tcb s' u) = uxBasePriority (tcb s u) \<and> runstate s' u = runstate s u \<and>
        isIdle (tcb s' u) = isIdle (tcb s u)) \<and>
     pxCurrentTCBs s' = pxCurrentTCBs s \<and> pxDelayedTaskList s' = pxDelayedTaskList s \<and>
     pxOverflowDelayedTaskList s' = pxOverflowDelayedTaskList s \<and> uxTopReadyPriority s' = uxTopReadyPriority s \<and>
     xNextTaskUnblockTime s' = xNextTaskUnblockTime s \<and> xIdleTaskHandles s' = xIdleTaskHandles s"

lemma kinv_core_same:
  assumes "kinv s" "core_same s s'" "lists_wf s'"
  shows "kinv s'"
proof -
  have "state_list (pxDelayedTaskList s)" "state_list (pxOverflowDelayedTaskList s)"
    using assms(1) by (auto simp: kinv_def delays_wf_def)
  then have d: "delayed s' = delayed s" "overflowed s' = overflowed s"
    using assms(2) by (auto simp: core_same_def)
  have "prios_wf s'" "cores_wf s'" "idle_wf s'"
    using assms(1,2) by (simp_all add: core_same_def kinv_def prios_wf_def cores_wf_def idle_wf_def
        settled_def cur_def may_run_on_def)
  moreover have "delays_wf s'"
    using assms(1,2) unfolding delays_wf_def d by (simp add: core_same_def kinv_def delays_wf_def)
  ultimately show ?thesis using assms(3) by (simp add: kinv_def)
qed

text \<open>Updates of the fields of a task the invariant does not speak of.\<close>

definition neutral :: "(tcb_rec \<Rightarrow> tcb_rec) \<Rightarrow> bool" where
  "neutral f \<longleftrightarrow> (\<forall>x. uxCoreAffinityMask (f x) = uxCoreAffinityMask x \<and> xStateListItem (f x) = xStateListItem x \<and>
     stateContainer (f x) = stateContainer x \<and> eventContainer (f x) = eventContainer x \<and>
     uxPriority (f x) = uxPriority x \<and> xTaskRunState (f x) = xTaskRunState x \<and> isIdle (f x) = isIdle x \<and>
     uxBasePriority (f x) = uxBasePriority x)"

lemma kinv_neutral [kinv_intros]:
  assumes "kinv s" "neutral f"
  shows "kinv (upd_tcb t f s)"
proof (rule kinv_core_same [OF assms(1)])
  show "core_same s (upd_tcb t f s)" using assms(2) by (auto simp: core_same_def neutral_def upd_tcb_def)
  have "lists_wf s" using assms(1) by (simp add: kinv_def)
  moreover have "stateContainer (tcb (upd_tcb t f s) u) = stateContainer (tcb s u)"
    "eventContainer (tcb (upd_tcb t f s) u) = eventContainer (tcb s u)" for u
    using assms(2) by (auto simp: neutral_def upd_tcb_def)
  ultimately show "lists_wf (upd_tcb t f s)" by (simp add: lists_wf_def) (simp add: upd_tcb_def)
qed

section \<open>List operations\<close>

definition state_out :: "klist \<Rightarrow> nat \<Rightarrow> kernel \<Rightarrow> kernel" where
  "state_out L t s = upd_tcb t (\<lambda>x. x\<lparr>stateContainer := None\<rparr>) (set_list L (remove1 t (lists s L)) s)"

definition event_out :: "klist \<Rightarrow> nat \<Rightarrow> kernel \<Rightarrow> kernel" where
  "event_out L t s = upd_tcb t (\<lambda>x. x\<lparr>eventContainer := None\<rparr>) (set_list L (remove1 t (lists s L)) s)"

lemma state_remove_eq: "stateContainer (tcb s t) = Some L \<Longrightarrow> state_remove t s = Inr (state_out L t s)"
  by (simp add: state_remove_def state_out_def)

lemma event_remove_eq: "eventContainer (tcb s t) = Some L \<Longrightarrow> event_remove t s = Inr (event_out L t s)"
  by (simp add: event_remove_def event_out_def)

lemma kinv_state_out [kinv_intros]:
  assumes "kinv s" "stateContainer (tcb s t) = Some L" "\<not> idle_task s t"
  shows "kinv (state_out L t s)"
proof -
  have lw: "lists_wf s" and sl: "state_list L" using assms by (auto simp: kinv_def lists_wf_def)
  have d: "distinct (lists s L)" using lw by (simp add: lists_wf_def)
  have "lists_wf (state_out L t s)"
    using lw sl assms(2) d by (auto simp: lists_wf_def state_out_def prim_defs)
  moreover have "prios_wf (state_out L t s)"
    using assms(1) notin_set_remove1 by (fastforce simp: kinv_def prios_wf_def state_out_def prim_defs)
  moreover have "delays_wf (state_out L t s)"
  proof -
    have w: "xStateListItem (tcb (state_out L t s) u) = xStateListItem (tcb s u)" for u
      by (simp add: state_out_def prim_defs)
    then show ?thesis using assms(1)
      by (auto simp: kinv_def delays_wf_def w sorted_map_remove1)
        (auto simp: state_out_def prim_defs sorted_map_remove1 split: if_splits
          dest: set_remove1_subset [THEN subsetD])
  qed
  moreover have "cores_wf (state_out L t s)"
    using assms by (auto simp: kinv_def cores_wf_def settled_def cur_def may_run_on_def state_out_def prim_defs)
  moreover have "idle_wf (state_out L t s)"
    using assms by (auto simp: kinv_def idle_wf_def idle_task_def may_run_on_def state_out_def prim_defs)
  ultimately show ?thesis by (simp add: kinv_def)
qed


lemma kinv_insert_end [kinv_intros]:
  assumes "kinv s" "stateContainer (tcb s t) = None" "settled s t"
    and "L \<in> {SuspendedL, TerminationL} \<or> L = ReadyL (prio s t) \<and> prio s t \<le> uxTopReadyPriority s"
  shows "kinv (state_insert_end L t s)"
proof -
  have lw: "lists_wf s" and sl: "state_list L" using assms by (auto simp: kinv_def lists_wf_def)
  have out: "t \<notin> set (lists s K)" if "state_list K" for K using lw assms(2) that by (simp add: lists_wf_def)
  have "lists_wf (state_insert_end L t s)"
    using lw sl out by (auto simp: lists_wf_def state_insert_end_def prim_defs)
  moreover have "prios_wf (state_insert_end L t s)"
    using assms(1,4) by (auto simp: kinv_def prios_wf_def state_insert_end_def prim_defs)
  moreover have "delays_wf (state_insert_end L t s)"
  proof -
    have w: "xStateListItem (tcb (state_insert_end L t s) u) = xStateListItem (tcb s u)" for u
      by (simp add: state_insert_end_def prim_defs)
    show ?thesis using assms(1,4)
      by (auto simp: kinv_def delays_wf_def w) (auto simp: state_insert_end_def prim_defs)
  qed
  moreover have "cores_wf (state_insert_end L t s)"
    using assms by (auto simp: kinv_def cores_wf_def settled_def cur_def may_run_on_def state_insert_end_def prim_defs)
  moreover have "idle_wf (state_insert_end L t s)"
    using assms by (auto simp: kinv_def idle_wf_def may_run_on_def state_insert_end_def prim_defs)
  ultimately show ?thesis by (simp add: kinv_def)
qed

lemma distinct_insert_after_le: "i \<notin> set xs \<Longrightarrow> distinct xs \<Longrightarrow> distinct (insert_after_le val i xs)"
  by (simp add: insert_after_le_def)
    (metis distinct_append set_append takeWhile_dropWhile_id UnCI)

lemma kinv_insert [kinv_intros]:
  assumes "kinv s" "stateContainer (tcb s t) = None" "settled s t"
    and "L = pxOverflowDelayedTaskList s \<or>
      L = pxDelayedTaskList s \<and> xNextTaskUnblockTime s \<le> xStateListItem (tcb s t)"
  shows "kinv (state_insert L t s)"
proof -
  have lw: "lists_wf s" and dw: "delays_wf s" using assms by (auto simp: kinv_def)
  have L: "L \<in> {DelayedL1, DelayedL2}" using dw assms(4) by (auto simp: delays_wf_def)
  have out: "t \<notin> set (lists s K)" if "state_list K" for K using lw assms(2) that by (simp add: lists_wf_def)
  have "lists_wf (state_insert L t s)"
    using lw L out by (auto simp: lists_wf_def state_insert_def prim_defs set_insert_after_le distinct_insert_after_le)
  moreover have "prios_wf (state_insert L t s)"
    using assms(1) L by (auto simp: kinv_def prios_wf_def state_insert_def prim_defs)
  moreover have "delays_wf (state_insert L t s)"
  proof -
    have w: "xStateListItem (tcb (state_insert L t s) u) = xStateListItem (tcb s u)" for u
      by (simp add: state_insert_def prim_defs)
    show ?thesis using dw assms(4)
      by (auto simp: delays_wf_def w)
        (auto simp: state_insert_def prim_defs set_insert_after_le intro!: sorted_insert_after_le)
  qed
  moreover have "cores_wf (state_insert L t s)"
    using assms by (auto simp: kinv_def cores_wf_def settled_def cur_def may_run_on_def state_insert_def prim_defs)
  moreover have "idle_wf (state_insert L t s)"
    using assms(1) L by (auto simp: kinv_def idle_wf_def may_run_on_def state_insert_def prim_defs)
  ultimately show ?thesis by (simp add: kinv_def)
qed

lemma kinv_event_out [kinv_intros]:
  assumes "kinv s" "eventContainer (tcb s t) = Some L"
  shows "kinv (event_out L t s)"
proof -
  have lw: "lists_wf s" and sl: "\<not> state_list L" and d: "distinct (lists s L)"
    using assms by (auto simp: kinv_def lists_wf_def)
  have "core_same s (event_out L t s)" using sl by (auto simp: core_same_def event_out_def prim_defs)
  moreover have "lists_wf (event_out L t s)"
    using lw sl d assms(2) by (auto simp: lists_wf_def event_out_def prim_defs)
  ultimately show ?thesis using kinv_core_same assms(1) by blast
qed

lemma kinv_event_insert [kinv_intros]:
  assumes "kinv s" "eventContainer (tcb s t) = None" "\<not> state_list L"
  shows "kinv (event_insert L t s)" "kinv (event_insert_end L t s)"
proof -
  have lw: "lists_wf s" using assms(1) by (simp add: kinv_def)
  have "t \<notin> set (lists s L)" using lw assms(2,3) by (auto simp: lists_wf_def)
  then have "lists_wf (event_insert L t s)" "lists_wf (event_insert_end L t s)"
    using lw assms(2,3) by (auto simp: lists_wf_def event_insert_def event_insert_end_def prim_defs
        set_insert_after_le distinct_insert_after_le)
  moreover have "core_same s (event_insert L t s)" "core_same s (event_insert_end L t s)"
    using assms(3) by (auto simp: core_same_def event_insert_def event_insert_end_def prim_defs)
  ultimately show "kinv (event_insert L t s)" "kinv (event_insert_end L t s)"
    using kinv_core_same assms(1) by blast+
qed

lemma kinv_wake_value [kinv_intros]:
  assumes "kinv s" "stateContainer (tcb s t) = None"
  shows "kinv (upd_tcb t (\<lambda>x. x\<lparr>xStateListItem := v\<rparr>) s)"
proof -
  let ?s = "upd_tcb t (\<lambda>x. x\<lparr>xStateListItem := v\<rparr>) s"
  have lw: "lists_wf s" and dw: "delays_wf s" using assms by (simp_all add: kinv_def)
  have out: "t \<notin> set (lists s K)" if "state_list K" for K using lw assms(2) that by (simp add: lists_wf_def)
  have "lists_wf ?s" using lw by (auto simp: lists_wf_def prim_defs)
  moreover have "prios_wf ?s" "cores_wf ?s" "idle_wf ?s"
    using assms(1) by (auto simp: kinv_def prios_wf_def cores_wf_def idle_wf_def settled_def cur_def
        may_run_on_def prim_defs)
  moreover have "delays_wf ?s"
  proof -
    have v: "xStateListItem (tcb ?s u) = xStateListItem (tcb s u)" if "state_list K" "u \<in> set (lists s K)" for u K
      using out that by (auto simp: prim_defs)
    have m: "map (\<lambda>u. xStateListItem (tcb ?s u)) (lists s K) = map (\<lambda>u. xStateListItem (tcb s u)) (lists s K)"
      if "state_list K" for K using v [OF that] by simp
    have l: "lists ?s = lists s" "pxDelayedTaskList ?s = pxDelayedTaskList s"
      "pxOverflowDelayedTaskList ?s = pxOverflowDelayedTaskList s" "xNextTaskUnblockTime ?s = xNextTaskUnblockTime s"
      by (simp_all add: prim_defs)
    have sl: "state_list (pxDelayedTaskList s)" "state_list (pxOverflowDelayedTaskList s)"
      using dw by (auto simp: delays_wf_def)
    show ?thesis using dw unfolding delays_wf_def l m [OF sl(1)] m [OF sl(2)] by (simp add: v [OF sl(1)])
  qed
  ultimately show ?thesis by (simp add: kinv_def)
qed

section \<open>Yield requests\<close>

text \<open>What a request to yield changes: flags, and the run state of a task that is asked to yield
  together with the interrupt of its core.\<close>

definition yields :: "kernel \<Rightarrow> kernel \<Rightarrow> bool" where
  "yields s s' \<longleftrightarrow> (\<exists>y p r. s' = s\<lparr>xYieldPendings := y, pendsv := p, tcb := (\<lambda>t. (tcb s t)\<lparr>xTaskRunState := r t\<rparr>)\<rparr> \<and>
     (\<forall>x. pendsv s x \<longrightarrow> p x) \<and> (\<forall>x. xYieldPendings s x \<longrightarrow> y x) \<and>
     (\<forall>t. r t = runstate s t \<or> r t = taskTASK_SCHEDULED_TO_YIELD \<and>
        (\<exists>x < configNUMBER_OF_CORES. pxCurrentTCBs s x = Some t \<and> p x)))"

lemma yields_refl [simp, intro]: "yields s s"
  unfolding yields_def
  by (rule exI [of _ "xYieldPendings s"], rule exI [of _ "pendsv s"], rule exI [of _ "\<lambda>t. runstate s t"]) simp

lemma yields_trans [trans]:
  assumes "yields s s1" "yields s1 s2"
  shows "yields s s2"
proof -
  obtain y p r where 1: "s1 = s\<lparr>xYieldPendings := y, pendsv := p, tcb := (\<lambda>t. (tcb s t)\<lparr>xTaskRunState := r t\<rparr>)\<rparr>"
    "\<forall>x. pendsv s x \<longrightarrow> p x" "\<forall>x. xYieldPendings s x \<longrightarrow> y x"
    "\<forall>t. r t = runstate s t \<or> r t = taskTASK_SCHEDULED_TO_YIELD \<and>
        (\<exists>x < configNUMBER_OF_CORES. pxCurrentTCBs s x = Some t \<and> p x)"
    using assms(1) unfolding yields_def by blast
  obtain y' p' r' where 2: "s2 = s1\<lparr>xYieldPendings := y', pendsv := p', tcb := (\<lambda>t. (tcb s1 t)\<lparr>xTaskRunState := r' t\<rparr>)\<rparr>"
    "\<forall>x. pendsv s1 x \<longrightarrow> p' x" "\<forall>x. xYieldPendings s1 x \<longrightarrow> y' x"
    "\<forall>t. r' t = runstate s1 t \<or> r' t = taskTASK_SCHEDULED_TO_YIELD \<and>
        (\<exists>x < configNUMBER_OF_CORES. pxCurrentTCBs s1 x = Some t \<and> p' x)"
    using assms(2) unfolding yields_def by blast
  show ?thesis unfolding yields_def
    by (rule exI [of _ y'], rule exI [of _ p'], rule exI [of _ r'], intro conjI)
      (use 1 2 in \<open>auto; metis\<close>)+
qed

lemma yields_set_pending [simp]: "yields s (set_yield_pending x True s)"
  unfolding yields_def set_yield_pending_def
  by (rule exI [of _ "(xYieldPendings s)(x := True)"], rule exI [of _ "pendsv s"],
      rule exI [of _ "\<lambda>t. runstate s t"]) simp

lemma yields_portYIELD [simp]: "yields s (portYIELD x s)"
  unfolding yields_def portYIELD_def
  by (rule exI [of _ "xYieldPendings s"], rule exI [of _ "(pendsv s)(x := True)"],
      rule exI [of _ "\<lambda>t. runstate s t"]) simp

lemma yields_same:
  assumes "yields s s'"
  shows "lists s' = lists s" "pxCurrentTCBs s' = pxCurrentTCBs s" "pxDelayedTaskList s' = pxDelayedTaskList s"
    "pxOverflowDelayedTaskList s' = pxOverflowDelayedTaskList s" "uxTopReadyPriority s' = uxTopReadyPriority s"
    "xNextTaskUnblockTime s' = xNextTaskUnblockTime s" "xIdleTaskHandles s' = xIdleTaskHandles s"
    "xTickCount s' = xTickCount s" "xPendedTicks s' = xPendedTicks s" "xSchedulerRunning s' = xSchedulerRunning s"
    "uxSchedulerSuspended s' = uxSchedulerSuspended s" "uxCriticalNestings s' = uxCriticalNestings s"
    "uxDeletedTasksWaitingCleanUp s' = uxDeletedTasksWaitingCleanUp s"
    "uxCurrentNumberOfTasks s' = uxCurrentNumberOfTasks s" "xNumOfOverflows s' = xNumOfOverflows s"
    "stateContainer (tcb s' t) = stateContainer (tcb s t)" "eventContainer (tcb s' t) = eventContainer (tcb s t)"
    "xStateListItem (tcb s' t) = xStateListItem (tcb s t)" "prio s' t = prio s t"
    "uxBasePriority (tcb s' t) = uxBasePriority (tcb s t)" "isIdle (tcb s' t) = isIdle (tcb s t)"
    "uxCoreAffinityMask (tcb s' t) = uxCoreAffinityMask (tcb s t)" "cur s' x = cur s x"
    "ulNotifiedValue (tcb s' t) = ulNotifiedValue (tcb s t)" "ucNotifyState (tcb s' t) = ucNotifyState (tcb s t)"
    "xEventListItem (tcb s' t) = xEventListItem (tcb s t)" "uxMutexesHeld (tcb s' t) = uxMutexesHeld (tcb s t)"
  using assms by (auto simp: yields_def cur_def)

lemma yields_mono:
  assumes "yields s s'"
  shows "pendsv s x \<Longrightarrow> pendsv s' x" "xYieldPendings s x \<Longrightarrow> xYieldPendings s' x"
    "runstate s' t = runstate s t \<or> runstate s' t = taskTASK_SCHEDULED_TO_YIELD \<and>
       (\<exists>x < configNUMBER_OF_CORES. pxCurrentTCBs s x = Some t \<and> pendsv s' x)"
  using assms by (auto simp: yields_def)

lemma kinv_yields [kinv_intros]:
  assumes "kinv s" "yields s s'"
  shows "kinv s'"
proof -
  note same = yields_same [OF assms(2)]
  have wf: "lists_wf s" "prios_wf s" "delays_wf s" "idle_wf s" using assms(1) by (simp_all add: kinv_def)
  have "lists_wf s'" using wf(1) by (simp add: lists_wf_def same)
  moreover have "prios_wf s'" using wf(2) by (simp add: prios_wf_def same)
  moreover have "delays_wf s'" using wf(3) by (simp add: delays_wf_def same)
  moreover have "idle_wf s'" using wf(4) by (simp add: idle_wf_def may_run_on_def same)
  moreover have "cores_wf s'"
  proof -
    have cw: "cores_wf s" using assms(1) by (simp add: kinv_def)
    have r: "runstate s' (cur s x) \<in> {runstate s (cur s x), taskTASK_SCHEDULED_TO_YIELD}" for x
      using yields_mono(3) [OF assms(2), of "cur s x"] by auto
    have "settled s' t" if "settled s t" for t
      using yields_mono(3) [OF assms(2), of t] that by (auto simp: settled_def same cur_def)
    then show ?thesis using cw r [of 0] r [of "Suc 0"] by (auto simp: cores_wf_def same may_run_on_def)
  qed
  ultimately show ?thesis by (simp add: kinv_def)
qed

lemma current_eq: "kinv s \<Longrightarrow> x < configNUMBER_OF_CORES \<Longrightarrow> current x s = Inr (cur s x)"
  by (auto simp: kinv_def cores_wf_def current_def configNUMBER_OF_CORES_def less_2_cases_iff)

lemma kinv_cur_ne: "kinv s \<Longrightarrow> x < configNUMBER_OF_CORES \<Longrightarrow> y < configNUMBER_OF_CORES \<Longrightarrow> cur s x = cur s y \<Longrightarrow> x = y"
  by (auto simp: kinv_def cores_wf_def configNUMBER_OF_CORES_def less_2_cases_iff)

lemma kinv_runstate:
  "kinv s \<Longrightarrow> x < configNUMBER_OF_CORES \<Longrightarrow>
   runstate s (cur s x) = int x \<or> runstate s (cur s x) = taskTASK_SCHEDULED_TO_YIELD"
  by (auto simp: kinv_def cores_wf_def configNUMBER_OF_CORES_def less_2_cases_iff)

lemma runs_somewhere:
  assumes "kinv s" "taskTASK_IS_RUNNING t s" "settled s t"
  shows "\<exists>x < configNUMBER_OF_CORES. runstate s t = int x \<and> cur s x = t"
proof -
  obtain x where x: "x < configNUMBER_OF_CORES" "cur s x = t"
    using assms(2,3) unfolding settled_def
  proof (elim disjE exE conjE)
    show thesis if "runstate s t = taskTASK_NOT_RUNNING"
      using that assms(2) by (simp add: taskTASK_IS_RUNNING_def taskTASK_NOT_RUNNING_def)
  qed
  then show ?thesis using kinv_runstate [OF assms(1) x(1)] assms(2)
    by (intro exI [of _ x]) (auto simp: taskTASK_IS_RUNNING_def taskTASK_SCHEDULED_TO_YIELD_def)
qed

lemma prvYieldCore_ok:
  assumes "kinv s" "x < configNUMBER_OF_CORES"
  shows "ensures (prvYieldCore c x s) (\<lambda>s'. yields s s' \<and> (x = c \<longrightarrow> xYieldPendings s' c) \<and>
    (x \<noteq> c \<longrightarrow> runstate s' (cur s x) = taskTASK_SCHEDULED_TO_YIELD) \<and>
    (\<forall>t. t \<noteq> cur s x \<longrightarrow> runstate s' t = runstate s t))"
proof (cases "x = c")
  case True
  then have "prvYieldCore c x s = Inr (set_yield_pending x True s)" by (simp add: prvYieldCore_def)
  with True show ?thesis by (simp add: set_yield_pending_def del: fun_upd_apply)
    (use yields_set_pending [of s c] in \<open>simp add: set_yield_pending_def\<close>)
next
  case False
  have cx: "pxCurrentTCBs s x = Some (cur s x)"
    using assms by (auto simp: kinv_def cores_wf_def configNUMBER_OF_CORES_def less_2_cases_iff)
  let ?s = "upd_tcb (cur s x) (\<lambda>k. k\<lparr>xTaskRunState := taskTASK_SCHEDULED_TO_YIELD\<rparr>) (portYIELD x s)"
  have t: "(tcb s)(cur s x := (tcb s (cur s x))\<lparr>xTaskRunState := taskTASK_SCHEDULED_TO_YIELD\<rparr>) =
      (\<lambda>t. (tcb s t)\<lparr>xTaskRunState := if t = cur s x then taskTASK_SCHEDULED_TO_YIELD else runstate s t\<rparr>)"
    by (rule ext) simp
  have "yields s ?s"
    unfolding yields_def upd_tcb_def portYIELD_def
    by (rule exI [of _ "xYieldPendings s"], rule exI [of _ "(pendsv s)(x := True)"],
        rule exI [of _ "\<lambda>t. if t = cur s x then taskTASK_SCHEDULED_TO_YIELD else runstate s t"])
      (use cx assms(2) in \<open>auto simp: t configNUMBER_OF_CORES_def less_2_cases_iff\<close>)
  then show ?thesis using False current_eq [OF assms]
    by (auto simp: prvYieldCore_def) (auto simp: upd_tcb_def portYIELD_def)
qed

lemma find_core_ok:
  assumes "kinv s" "\<forall>x \<in> set xs. x < configNUMBER_OF_CORES"
  shows "ensures (find_core_to_preempt t xs s (low, core)) (\<lambda>k. k = core \<or> k \<ge> 0 \<and> nat k \<in> set xs \<and>
    taskTASK_IS_RUNNING (cur s (nat k)) s \<and> \<not> xYieldPendings s (nat k) \<and>
    effective_priority s (cur s (nat k)) \<le> low \<and> may_run_on s t (nat k))"
  using assms(2)
proof (induction xs arbitrary: low core)
  case (Cons x xs)
  then have c: "current x s = Inr (cur s x)" using current_eq [OF assms(1)] by simp
  have ih: "ensures (find_core_to_preempt t xs s (low', core')) (\<lambda>k. k = core' \<or> k \<ge> 0 \<and> nat k \<in> set xs \<and>
    taskTASK_IS_RUNNING (cur s (nat k)) s \<and> \<not> xYieldPendings s (nat k) \<and>
    effective_priority s (cur s (nat k)) \<le> low' \<and> may_run_on s t (nat k))" for low' core'
    using Cons by simp
  show ?case
  proof (cases "taskTASK_IS_RUNNING (cur s x) s \<and> \<not> xYieldPendings s x \<and> effective_priority s (cur s x) \<le> low \<and> may_run_on s t x")
    case True
    show ?thesis unfolding find_core_to_preempt.simps c bindE_simps if_P [OF True]
      by (rule ensures_mono [OF ih]) (use True in auto)
  next
    case False
    show ?thesis unfolding find_core_to_preempt.simps c bindE_simps if_not_P [OF False]
      by (rule ensures_mono [OF ih]) auto
  qed
qed simp

lemma prvYieldForTask_ok:
  assumes "kinv s"
  shows "ensures (prvYieldForTask c t s) (\<lambda>s'. yields s s')"
proof (cases "taskTASK_IS_RUNNING t s")
  case False
  have "ensures (find_core_to_preempt t [0..<configNUMBER_OF_CORES] s (int (prio s t) - 1, -1))
    (\<lambda>k. k = -1 \<or> k \<ge> 0 \<and> nat k < configNUMBER_OF_CORES)"
    by (rule ensures_mono [OF find_core_ok [OF assms]]) auto
  then show ?thesis using False unfolding prvYieldForTask_def
    by (auto intro!: ensures_bind intro: ensures_mono [OF prvYieldCore_ok [OF assms]])
qed (simp add: prvYieldForTask_def)

lemma time_slice_ok:
  assumes "kinv s" "\<forall>x \<in> set xs. x < configNUMBER_OF_CORES"
  shows "ensures (time_slice xs s) (\<lambda>s'. yields s s')"
  using assms
proof (induction xs arbitrary: s)
  case (Cons x xs)
  have "prio s (cur s x) < configMAX_PRIORITIES" using Cons.prems(1) by (simp add: kinv_def prios_wf_def)
  moreover have "current x s = Inr (cur s x)" using Cons.prems current_eq by simp
  ultimately show ?case using Cons
    by (auto intro: ensures_mono [OF Cons.IH [of "set_yield_pending x True s"]] yields_trans [OF yields_set_pending])
qed simp

lemma request_yields_ok:
  assumes "kinv s" "\<forall>x \<in> set xs. x < configNUMBER_OF_CORES"
  shows "ensures (request_yields c xs sw s) (\<lambda>(b, s'). yields s s')"
  using assms
proof (induction xs arbitrary: s sw)
  case (Cons x xs)
  show ?case
  proof (cases "xYieldPendings s x \<and> x \<noteq> c")
    case True
    have "x < configNUMBER_OF_CORES" using Cons.prems by simp
    have "ensures (prvYieldCore c x s) (\<lambda>s'. yields s s')"
      by (rule ensures_mono [OF prvYieldCore_ok [OF Cons.prems(1) \<open>x < _\<close>]]) simp
    moreover have "ensures (request_yields c xs sw s1) (\<lambda>(b, s'). yields s s')" if "yields s s1" for s1
      by (rule ensures_mono [OF Cons.IH [of s1 sw]])
        (use that Cons.prems in \<open>auto intro: kinv_yields yields_trans\<close>)
    ultimately show ?thesis using True by (auto intro: ensures_bind)
  next
    case False
    then show ?thesis using Cons by auto
  qed
qed simp

section \<open>Moving a task between lists\<close>

text \<open>What the operations on lists and yields leave alone.\<close>

definition quiet :: "kernel \<Rightarrow> kernel \<Rightarrow> bool" where
  "quiet s s' \<longleftrightarrow> (\<forall>t. uxCoreAffinityMask (tcb s' t) = uxCoreAffinityMask (tcb s t) \<and>
       xStateListItem (tcb s' t) = xStateListItem (tcb s t) \<and> prio s' t = prio s t \<and>
       uxBasePriority (tcb s' t) = uxBasePriority (tcb s t) \<and> isIdle (tcb s' t) = isIdle (tcb s t)) \<and>
     pxCurrentTCBs s' = pxCurrentTCBs s \<and> pxDelayedTaskList s' = pxDelayedTaskList s \<and>
     pxOverflowDelayedTaskList s' = pxOverflowDelayedTaskList s \<and>
     uxDeletedTasksWaitingCleanUp s' = uxDeletedTasksWaitingCleanUp s \<and>
     uxCurrentNumberOfTasks s' = uxCurrentNumberOfTasks s \<and> xTickCount s' = xTickCount s \<and>
     xSchedulerRunning s' = xSchedulerRunning s \<and> xPendedTicks s' = xPendedTicks s \<and>
     uxSchedulerSuspended s' = uxSchedulerSuspended s \<and> uxCriticalNestings s' = uxCriticalNestings s \<and>
     xNumOfOverflows s' = xNumOfOverflows s \<and> xIdleTaskHandles s' = xIdleTaskHandles s \<and>
     lists s' TerminationL = lists s TerminationL \<and> set (lists s' PendingReadyL) \<subseteq> set (lists s PendingReadyL)"

lemma quiet_refl [simp]: "quiet s s"
  by (simp add: quiet_def)

lemma quiet_trans [trans]: "quiet s s1 \<Longrightarrow> quiet s1 s2 \<Longrightarrow> quiet s s2"
  by (auto simp: quiet_def)

lemma yields_quiet: "yields s s' \<Longrightarrow> quiet s s'"
  by (simp add: quiet_def yields_same)

text \<open>Task \<open>t\<close> is now in the state list \<open>L\<close>, or in none; all other tasks are where they were, and
  the run states and yield requests are unchanged.\<close>

definition moves :: "nat \<Rightarrow> klist option \<Rightarrow> kernel \<Rightarrow> kernel \<Rightarrow> bool" where
  "moves t L s s' \<longleftrightarrow> quiet s s' \<and> pendsv s' = pendsv s \<and> xYieldPendings s' = xYieldPendings s \<and>
     (\<forall>u. runstate s' u = runstate s u \<and>
          stateContainer (tcb s' u) = (if u = t then L else stateContainer (tcb s u)))"

lemma moves_trans [trans]: "moves t K s s1 \<Longrightarrow> moves t L s1 s2 \<Longrightarrow> moves t L s s2"
  by (auto simp: moves_def intro: quiet_trans)

lemma moves_quiet: "moves t L s s' \<Longrightarrow> quiet s s'"
  by (simp add: moves_def)

lemma moves_container: "moves t L s s' \<Longrightarrow> stateContainer (tcb s' t) = L"
  by (simp add: moves_def)

lemma moves_settled: "moves t L s s' \<Longrightarrow> settled s' u = settled s u"
  by (simp add: moves_def quiet_def settled_def cur_def)

lemma state_remove_ok:
  assumes "kinv s" "stateContainer (tcb s t) = Some L" "\<not> idle_task s t" "L \<noteq> TerminationL"
  shows "ensures (state_remove t s) (\<lambda>s'. kinv s' \<and> moves t None s s')"
proof -
  have "state_list L" using assms(1,2) by (auto simp: kinv_def lists_wf_def)
  then show ?thesis using kinv_state_out [OF assms(1-3)] assms(4)
    by (auto simp: state_remove_eq [OF assms(2)])
      (auto simp: state_out_def prim_defs moves_def quiet_def)
qed

lemma event_remove_ok:
  assumes "kinv s"
  shows "ensures (event_remove_if_waiting t s) (\<lambda>s'. kinv s' \<and> moves t (stateContainer (tcb s t)) s s' \<and>
    eventContainer (tcb s' t) = None)"
proof (cases "eventContainer (tcb s t)")
  case (Some L)
  have "\<not> state_list L" using assms Some by (auto simp: kinv_def lists_wf_def)
  then show ?thesis using Some kinv_event_out [OF assms Some] event_remove_eq [OF Some]
    by (auto simp: event_remove_if_waiting_def)
      (auto simp: event_out_def prim_defs moves_def quiet_def dest: set_remove1_subset [THEN subsetD])
qed (simp_all add: event_remove_if_waiting_def assms moves_def)

lemma wf_fields [simp]:
  "lists_wf (s\<lparr>uxTopReadyPriority := p\<rparr>) = lists_wf s"
  "delays_wf (s\<lparr>uxTopReadyPriority := p\<rparr>) = delays_wf s"
  "cores_wf (s\<lparr>uxTopReadyPriority := p\<rparr>) = cores_wf s"
  "idle_wf (s\<lparr>uxTopReadyPriority := p\<rparr>) = idle_wf s"
  "lists_wf (s\<lparr>xNextTaskUnblockTime := v\<rparr>) = lists_wf s"
  "prios_wf (s\<lparr>xNextTaskUnblockTime := v\<rparr>) = prios_wf s"
  "cores_wf (s\<lparr>xNextTaskUnblockTime := v\<rparr>) = cores_wf s"
  "idle_wf (s\<lparr>xNextTaskUnblockTime := v\<rparr>) = idle_wf s"
  by (simp_all add: kinv_defs)

lemma kinv_top:
  assumes "kinv s" "uxTopReadyPriority s \<le> p" "p < configMAX_PRIORITIES"
  shows "kinv (s\<lparr>uxTopReadyPriority := p\<rparr>)"
proof -
  have "prios_wf (s\<lparr>uxTopReadyPriority := p\<rparr>)"
    using assms unfolding kinv_def prios_wf_def by fastforce
  with assms(1) show ?thesis
    by (simp add: kinv_def)
qed

lemma prvAddTaskToReadyList_ok:
  assumes "kinv s" "stateContainer (tcb s t) = None" "settled s t"
  shows "ensures (prvAddTaskToReadyList t s) (\<lambda>s'. kinv s' \<and> moves t (Some (ReadyL (prio s t))) s s' \<and>
    prio s t \<le> uxTopReadyPriority s')"
proof -
  have p: "prio s t < configMAX_PRIORITIES" using assms(1) by (simp add: kinv_def prios_wf_def)
  define s1 where "s1 = (if prio s t > uxTopReadyPriority s then s\<lparr>uxTopReadyPriority := prio s t\<rparr> else s)"
  have "kinv s1" using assms(1) p by (simp add: s1_def kinv_top)
  moreover have "stateContainer (tcb s1 t) = None" "settled s1 t" "prio s1 t = prio s t" "prio s t \<le> uxTopReadyPriority s1"
    using assms(2,3) by (auto simp: s1_def settled_def cur_def)
  ultimately have "kinv (state_insert_end (ReadyL (prio s t)) t s1)" by (auto intro!: kinv_insert_end)
  moreover have "prvAddTaskToReadyList t s = Inr (state_insert_end (ReadyL (prio s t)) t s1)"
    using p by (simp add: prvAddTaskToReadyList_def s1_def Let_def)
  ultimately show ?thesis
    by (simp add: moves_def quiet_def) (simp add: s1_def state_insert_end_def prim_defs)
qed

lemma kinv_reset: "kinv s \<Longrightarrow> kinv (prvResetNextTaskUnblockTime s)"
  by (simp add: kinv_def prvResetNextTaskUnblockTime_def)
    (auto simp: delays_wf_def le_portMAX_DELAY split: list.splits)

lemma reset_same:
  "moves t (stateContainer (tcb s t)) s (prvResetNextTaskUnblockTime s)"
  by (simp add: prvResetNextTaskUnblockTime_def moves_def quiet_def)

text \<open>A task taken out of its list and put into the ready list of its priority.\<close>

lemma requeue_ok:
  assumes "kinv s" "stateContainer (tcb s t) = Some L" "\<not> idle_task s t" "L \<noteq> TerminationL"
  shows "ensures (bindE (state_remove t s) (prvAddTaskToReadyList t))
    (\<lambda>s'. kinv s' \<and> moves t (Some (ReadyL (prio s t))) s s')"
proof (rule ensures_bind [OF state_remove_ok [OF assms]])
  fix s1 assume s1: "kinv s1 \<and> moves t None s s1"
  have "settled s t" using assms(1,2) by (simp add: kinv_def cores_wf_def)
  then have s: "settled s1 t" "stateContainer (tcb s1 t) = None" and p: "prio s1 t = prio s t"
    using s1 moves_settled [of t None s s1 t] by (simp_all add: moves_def quiet_def)
  show "ensures (prvAddTaskToReadyList t s1) (\<lambda>s'. kinv s' \<and> moves t (Some (ReadyL (prio s t))) s s')"
    by (rule ensures_mono [OF prvAddTaskToReadyList_ok [OF _ s(2,1)]])
      (use s1 p moves_trans in \<open>auto\<close>)
qed

lemma idle_ready:
  assumes "kinv s" "idle_task s t"
  shows "stateContainer (tcb s t) = Some (ReadyL 0)"
proof -
  have "idle_wf s" using assms(1) by (simp add: kinv_def)
  then have "t \<in> set (ready s 0)" using assms(2) unfolding idle_wf_def idle_task_def by auto
  then show ?thesis using in_state_list [OF assms(1), of "ReadyL 0" t] by simp
qed

lemma kinv_settled: "kinv s \<Longrightarrow> stateContainer (tcb s t) \<noteq> None \<Longrightarrow> settled s t"
  by (simp add: kinv_def cores_wf_def)

section \<open>Between the steps of tasks and interrupts\<close>

text \<open>The task of core \<open>x\<close> may go on.\<close>

definition runs :: "kernel \<Rightarrow> nat \<Rightarrow> bool" where
  "runs s x \<longleftrightarrow> runstate s (cur s x) = int x \<and>
     stateContainer (tcb s (cur s x)) = Some (ReadyL (prio s (cur s x)))"

definition pended :: "kernel \<Rightarrow> bool" where
  "pended s \<longleftrightarrow> (\<forall>x < configNUMBER_OF_CORES. runs s x \<or> pendsv s x)"

text \<open>A sleeping task's wake time is in the future: later than now in the delayed list, after the
  next wrap in the other.\<close>

definition ontime :: "kernel \<Rightarrow> bool" where
  "ontime s \<longleftrightarrow> (\<forall>t.
     (stateContainer (tcb s t) = Some (pxDelayedTaskList s) \<longrightarrow> xTickCount s < xStateListItem (tcb s t)) \<and>
     (stateContainer (tcb s t) = Some (pxOverflowDelayedTaskList s) \<longrightarrow> xStateListItem (tcb s t) < xTickCount s))"

text \<open>A TCB has a 32-bit address, which is not NULL.\<close>

definition addressed :: "kernel \<Rightarrow> bool" where
  "addressed s \<longleftrightarrow> (\<forall>t. stateContainer (tcb s t) \<noteq> None \<longrightarrow> t < 2 ^ 32 - 1)"

definition stable :: "kernel \<Rightarrow> bool" where
  "stable s \<longleftrightarrow> kinv s \<and> pended s \<and> ontime s \<and> addressed s \<and>
     length (lists s TerminationL) = uxDeletedTasksWaitingCleanUp s \<and>
     xSchedulerRunning s \<and> uxSchedulerSuspended s = 0 \<and> xPendedTicks s = 0 \<and>
     (\<forall>x < configNUMBER_OF_CORES. uxCriticalNestings s x = 0) \<and> lists s PendingReadyL = []"

lemma runs_yields:
  assumes "kinv s" "yields s s'" "x < configNUMBER_OF_CORES" "runs s x"
  shows "runs s' x \<or> pendsv s' x"
proof -
  have cx: "pxCurrentTCBs s x = Some (cur s x)" using assms(1,3)
    by (auto simp: kinv_def cores_wf_def configNUMBER_OF_CORES_def less_2_cases_iff)
  obtain y where "runstate s' (cur s x) = runstate s (cur s x) \<or>
      y < configNUMBER_OF_CORES \<and> pxCurrentTCBs s y = Some (cur s x) \<and> pendsv s' y"
    using yields_mono(3) [OF assms(2), of "cur s x"] by blast
  then show ?thesis
  proof (elim disjE conjE)
    assume "runstate s' (cur s x) = runstate s (cur s x)"
    then show ?thesis using \<open>runs s x\<close> by (simp add: runs_def yields_same [OF assms(2)])
  next
    assume y: "y < configNUMBER_OF_CORES" "pxCurrentTCBs s y = Some (cur s x)" "pendsv s' y"
    then have "x = y" using kinv_cur_ne [OF assms(1,3), of y] by (simp add: cur_def)
    with y show ?thesis by simp
  qed
qed

text \<open>No core that may go on, or will be interrupted, gets stuck.\<close>

definition goes_on :: "kernel \<Rightarrow> kernel \<Rightarrow> bool" where
  "goes_on s s' \<longleftrightarrow> (\<forall>x < configNUMBER_OF_CORES. runs s x \<or> pendsv s x \<longrightarrow> runs s' x \<or> pendsv s' x)"

lemma goes_on_refl [simp]: "goes_on s s"
  by (simp add: goes_on_def del: all_cores)

lemma goes_on_trans [trans]: "goes_on s s1 \<Longrightarrow> goes_on s1 s2 \<Longrightarrow> goes_on s s2"
  unfolding goes_on_def by blast

lemma goes_on_pended: "goes_on s s' \<Longrightarrow> pended s \<Longrightarrow> pended s'"
  unfolding goes_on_def pended_def by blast

lemma goes_on_yields: "kinv s \<Longrightarrow> yields s s' \<Longrightarrow> goes_on s s'"
  using runs_yields yields_mono(1) unfolding goes_on_def by blast

lemma goes_on_moves:
  assumes "moves t L s s'"
    and "\<And>x. x < configNUMBER_OF_CORES \<Longrightarrow> cur s x = t \<Longrightarrow> runs s x \<Longrightarrow> L = Some (ReadyL (prio s t)) \<or> pendsv s x"
  shows "goes_on s s'"
  unfolding goes_on_def
proof (intro allI impI)
  fix x assume x: "x < configNUMBER_OF_CORES" and "runs s x \<or> pendsv s x"
  then show "runs s' x \<or> pendsv s' x"
    using assms(1) assms(2) [OF x] by (auto simp: moves_def quiet_def runs_def cur_def)
qed

lemma pended_yields: "kinv s \<Longrightarrow> yields s s' \<Longrightarrow> pended s \<Longrightarrow> pended s'"
  using runs_yields yields_mono(1) unfolding pended_def by blast

lemma pended_moves:
  assumes "moves t L s s'" "pended s"
    and "\<And>x. x < configNUMBER_OF_CORES \<Longrightarrow> cur s x = t \<Longrightarrow> runs s x \<Longrightarrow> L = Some (ReadyL (prio s t)) \<or> pendsv s x"
  shows "pended s'"
  using goes_on_pended goes_on_moves assms by blast

lemma ontime_moves:
  "moves t L s s' \<Longrightarrow> ontime s \<Longrightarrow> L \<notin> {Some (pxDelayedTaskList s), Some (pxOverflowDelayedTaskList s)} \<Longrightarrow> ontime s'"
  by (auto simp: ontime_def moves_def quiet_def)

lemma ontime_yields: "yields s s' \<Longrightarrow> ontime s \<Longrightarrow> ontime s'"
  by (auto simp: ontime_def yields_same)

end
