(* ===== verification/SelectProps.thy ===== *)
theory SelectProps
  imports KernelInv
begin

text \<open>
  Which task a core runs next.  \<open>prvSelectHighestPriorityTask\<close> refines one line of specification:
  after the running task has gone to the end of its list, take the first task, in the order of
  priorities and then of the lists, that may run on the core and that no other core runs.
\<close>

section \<open>The specification\<close>

definition ready_queue :: "kernel \<Rightarrow> nat list" where
  "ready_queue s = concat (map (ready s) (rev [0..<configMAX_PRIORITIES]))"

definition eligible :: "nat \<Rightarrow> kernel \<Rightarrow> nat \<Rightarrow> bool" where
  "eligible c s t \<longleftrightarrow> may_run_on s t c \<and> (runstate s t = taskTASK_NOT_RUNNING \<or> t = cur s c)"

definition rotated :: "nat \<Rightarrow> kernel \<Rightarrow> kernel" where
  "rotated c s = (let t = cur s c in
     if stateContainer (tcb s t) = Some (ReadyL (prio s t))
     then set_list (ReadyL (prio s t)) (remove1 t (ready s (prio s t)) @ [t]) s else s)"

definition next_task :: "nat \<Rightarrow> kernel \<Rightarrow> ptr" where
  "next_task c s = List.find (eligible c s) (ready_queue s)"

text \<open>What running \<open>t\<close> on \<open>c\<close> changes.\<close>

definition dispatch :: "nat \<Rightarrow> nat \<Rightarrow> kernel \<Rightarrow> kernel" where
  "dispatch c t s = (upd_tcb t (\<lambda>x. x\<lparr>xTaskRunState := int c\<rparr>)
     (upd_tcb (cur s c) (\<lambda>x. x\<lparr>xTaskRunState := taskTASK_NOT_RUNNING\<rparr>) s))
     \<lparr>pxCurrentTCBs := (pxCurrentTCBs s)(c := Some t)\<rparr>"

section \<open>Rotation\<close>

lemma kinv_perm:
  assumes "kinv s" "set xs = set (ready s p)" "distinct xs"
  shows "kinv (set_list (ReadyL p) xs s)"
proof -
  have "lists_wf s" "prios_wf s" "delays_wf s" "cores_wf s" "idle_wf s" using assms(1) by (simp_all add: kinv_def)
  then have "lists_wf (set_list (ReadyL p) xs s)" "prios_wf (set_list (ReadyL p) xs s)"
    "cores_wf (set_list (ReadyL p) xs s)" "idle_wf (set_list (ReadyL p) xs s)"
    using assms(2,3) by (simp_all add: lists_wf_def prios_wf_def cores_wf_def settled_def cur_def idle_wf_def
        may_run_on_def set_list_def)
  moreover have "delays_wf (set_list (ReadyL p) xs s)"
    using \<open>delays_wf s\<close> by (auto simp: delays_wf_def set_list_def)
  ultimately show ?thesis by (simp add: kinv_def)
qed

lemma kinv_rotated: "kinv s \<Longrightarrow> kinv (rotated c s)"
  using kinv_distinct [of s "ReadyL (prio s (cur s c))"]
    in_state_list [of s "ReadyL (prio s (cur s c))" "cur s c"]
  by (auto simp: rotated_def Let_def intro!: kinv_perm)

lemma rotate_current_eq:
  assumes "kinv s" "c < configNUMBER_OF_CORES"
  shows "rotate_current c s = Inr (rotated c s)"
proof (cases "stateContainer (tcb s (cur s c)) = Some (ReadyL (prio s (cur s c)))")
  case True
  let ?t = "cur s c"
  have "state_insert_end (ReadyL (prio s ?t)) ?t (state_out (ReadyL (prio s ?t)) ?t s) = rotated c s"
    using True by (simp add: state_insert_end_def state_out_def prim_defs rotated_def Let_def fun_upd_idem)
  then show ?thesis using True by (simp add: rotate_current_def current_eq [OF assms] state_remove_eq)
qed (simp add: rotate_current_def current_eq [OF assms] rotated_def)

lemma rotated_same [simp]:
  "tcb (rotated c s) = tcb s" "pxCurrentTCBs (rotated c s) = pxCurrentTCBs s" "cur (rotated c s) = cur s"
  "uxTopReadyPriority (rotated c s) = uxTopReadyPriority s" "pendsv (rotated c s) = pendsv s"
  "uxSchedulerSuspended (rotated c s) = uxSchedulerSuspended s"
  by (simp_all add: rotated_def Let_def set_list_def cur_def fun_eq_iff)

section \<open>Scanning one list\<close>

lemma dispatch_self: "kinv s \<Longrightarrow> c < configNUMBER_OF_CORES \<Longrightarrow>
  dispatch c (cur s c) s = upd_tcb (cur s c) (\<lambda>x. x\<lparr>xTaskRunState := int c\<rparr>) s"
proof -
  assume "kinv s" "c < configNUMBER_OF_CORES"
  then have "pxCurrentTCBs s c = Some (cur s c)"
    by (auto simp: kinv_def cores_wf_def configNUMBER_OF_CORES_def less_2_cases_iff)
  then have "(pxCurrentTCBs s)(c := Some (cur s c)) = pxCurrentTCBs s" by auto
  then show ?thesis by (simp add: dispatch_def upd_tcb_def)
qed

lemma scan_ready_eq:
  assumes "kinv s" "c < configNUMBER_OF_CORES"
  shows "scan_ready c ts s = Inr (case List.find (eligible c s) ts of None \<Rightarrow> (False, None, s)
    | Some t \<Rightarrow> (True, if t = cur s c then None else Some (cur s c), dispatch c t s))"
proof (induction ts)
  case (Cons t ts)
  have "runstate s (cur s c) \<noteq> taskTASK_NOT_RUNNING"
    using kinv_runstate [OF assms] by (auto simp: taskTASK_NOT_RUNNING_def taskTASK_SCHEDULED_TO_YIELD_def)
  then have ne: "t \<noteq> cur s c" if "runstate s t = taskTASK_NOT_RUNNING" using that by auto
  show ?case
  proof (cases "runstate s t = taskTASK_NOT_RUNNING")
    case True
    then show ?thesis using Cons ne [OF True]
      by (simp add: current_eq [OF assms] eligible_def) (simp add: dispatch_def Let_def upd_tcb_def)
  next
    case False
    then show ?thesis using Cons
      by (cases "t = cur s c") (simp_all add: current_eq [OF assms] eligible_def dispatch_self [OF assms])
  qed
qed simp

lemma kinv_dispatch:
  assumes "kinv s" "c < configNUMBER_OF_CORES" "eligible c s t"
  shows "kinv (dispatch c t s)"
proof -
  let ?s = "dispatch c t s"
  have cw: "cores_wf s" using assms(1) by (simp add: kinv_def)
  have ne: "t \<noteq> cur s d" "cur s c \<noteq> cur s d" if "d < configNUMBER_OF_CORES" "d \<noteq> c" for d
    using assms that kinv_runstate [OF assms(1) that(1)] kinv_cur_ne [OF assms(1)]
    by (auto simp: eligible_def taskTASK_NOT_RUNNING_def taskTASK_SCHEDULED_TO_YIELD_def)
  have cur: "cur ?s x = (if x = c then t else cur s x)" for x by (simp add: dispatch_def cur_def)
  have "cores_wf ?s"
  proof -
    have "\<forall>x < configNUMBER_OF_CORES. pxCurrentTCBs ?s x = Some (cur ?s x) \<and>
        (runstate ?s (cur ?s x) = int x \<and> may_run_on ?s (cur ?s x) x \<or>
         runstate ?s (cur ?s x) = taskTASK_SCHEDULED_TO_YIELD)"
    proof (intro allI impI)
      fix x assume x: "x < configNUMBER_OF_CORES"
      have "pxCurrentTCBs s x = Some (cur s x) \<and> (runstate s (cur s x) = int x \<and> may_run_on s (cur s x) x \<or>
         runstate s (cur s x) = taskTASK_SCHEDULED_TO_YIELD)"
        using cw x unfolding cores_wf_def by blast
      then show "pxCurrentTCBs ?s x = Some (cur ?s x) \<and>
        (runstate ?s (cur ?s x) = int x \<and> may_run_on ?s (cur ?s x) x \<or>
         runstate ?s (cur ?s x) = taskTASK_SCHEDULED_TO_YIELD)"
        using ne [OF x] assms(3) unfolding cur
        by (cases "x = c") (auto simp: dispatch_def upd_tcb_def may_run_on_def eligible_def)
    qed
    moreover have "cur ?s 0 \<noteq> cur ?s 1"
      using assms(2) ne [of 0] ne [of 1] by (auto simp: cur configNUMBER_OF_CORES_def less_2_cases_iff)
    moreover have "settled ?s u" if "settled s u" for u
    proof (cases "u = t \<or> u = cur s c")
      case True
      then show ?thesis using assms(2) unfolding settled_def
        by (auto simp: cur simp del: ex_core intro: exI [of _ c]) (auto simp: dispatch_def upd_tcb_def)
    next
      case False
      then show ?thesis using that unfolding settled_def
        by (auto simp: cur simp del: ex_core) (auto simp: dispatch_def upd_tcb_def)
    qed
    moreover have "stateContainer (tcb ?s u) = stateContainer (tcb s u)" for u
      by (simp add: dispatch_def upd_tcb_def)
    ultimately show ?thesis using cw unfolding cores_wf_def by simp
  qed
  moreover have "lists_wf s" "prios_wf s" "delays_wf s" "idle_wf s" using assms(1) by (simp_all add: kinv_def)
  then have "lists_wf ?s" "prios_wf ?s" "idle_wf ?s"
    by (auto simp: lists_wf_def prios_wf_def idle_wf_def may_run_on_def dispatch_def upd_tcb_def)
  moreover have "delays_wf ?s"
  proof -
    have "xStateListItem (tcb ?s u) = xStateListItem (tcb s u)" for u by (simp add: dispatch_def upd_tcb_def)
    then show ?thesis using \<open>delays_wf s\<close> by (simp add: delays_wf_def) (simp add: dispatch_def upd_tcb_def)
  qed
  ultimately show ?thesis by (simp add: kinv_def)
qed

section \<open>The priorities\<close>

lemma find_append: "List.find P (xs @ ys) = (case List.find P xs of None \<Rightarrow> List.find P ys | Some x \<Rightarrow> Some x)"
  by (induction xs) auto

lemma top_fields [simp]:
  "eligible c (s\<lparr>uxTopReadyPriority := p\<rparr>) = eligible c s" "cur (s\<lparr>uxTopReadyPriority := p\<rparr>) = cur s"
  by (simp_all add: eligible_def cur_def may_run_on_def fun_eq_iff)

lemma select_loop_ok:
  assumes "kinv s" "c < configNUMBER_OF_CORES" "p < configMAX_PRIORITIES" "decr \<Longrightarrow> uxTopReadyPriority s = p"
    and "List.find (eligible c s) (concat (map (ready s) (rev [0..<Suc p]))) = Some t"
  shows "ensures (select_loop c p decr s) (\<lambda>(b, prev, s'). b \<and> prev = (if t = cur s c then None else Some (cur s c)) \<and>
    (\<exists>tp. kinv (s\<lparr>uxTopReadyPriority := tp\<rparr>) \<and> s' = dispatch c t (s\<lparr>uxTopReadyPriority := tp\<rparr>)))"
  using assms
proof (induction p arbitrary: s decr)
  case 0
  then have "ready s 0 \<noteq> []" "List.find (eligible c s) (ready s 0) = Some t" by auto
  with 0(1-3) show ?case
    by (simp add: select_loop.simps [of c 0] scan_ready_eq) (intro exI [of _ "uxTopReadyPriority s"], simp)
next
  case (Suc p)
  show ?case
  proof (cases "List.find (eligible c s) (ready s (Suc p))")
    case (Some u)
    then have "ready s (Suc p) \<noteq> []" "u = t" using Suc.prems(5) by (auto simp: find_append)
    with Some Suc.prems(1-3) show ?thesis
      by (simp add: select_loop.simps [of c "Suc p"] scan_ready_eq) (intro exI [of _ "uxTopReadyPriority s"], simp)
  next
    case None
    then have rest: "List.find (eligible c s) (concat (map (ready s) (rev [0..<Suc p]))) = Some t"
      using Suc.prems(5) by (simp add: find_append)
    show ?thesis
    proof (cases "ready s (Suc p) = []")
      case False
      have "select_loop c (Suc p) decr s = select_loop c p False s"
        using False None Suc.prems(1-3) by (simp add: select_loop.simps [of c "Suc p"] scan_ready_eq)
      then show ?thesis using Suc.IH [of s False] Suc.prems(1-3) rest by simp
    next
      case True
      define s1 where "s1 = (if decr then s\<lparr>uxTopReadyPriority := p\<rparr> else s)"
      have k1: "kinv s1"
      proof (cases decr)
        case d: True
        have "prios_wf (s\<lparr>uxTopReadyPriority := p\<rparr>)"
        proof -
          have pw: "prios_wf s" using Suc.prems(1) by (simp add: kinv_def)
          have "q \<le> p" if "u \<in> set (ready s q)" for q u
          proof -
            have "q \<le> Suc p" using pw that Suc.prems(4) d unfolding prios_wf_def by metis
            moreover have "q \<noteq> Suc p" using that True by auto
            ultimately show ?thesis by simp
          qed
          then show ?thesis using pw Suc.prems(3) by (simp add: prios_wf_def)
        qed
        then show ?thesis using Suc.prems(1) d by (simp add: s1_def kinv_def)
      qed (simp add: s1_def Suc.prems(1))
      have "dec32 (Suc p) = p" using Suc.prems(3) by (simp add: configMAX_PRIORITIES_def)
      then have eq: "select_loop c (Suc p) decr s = select_loop c p decr s1"
        using True Suc.prems(3,4) by (simp add: select_loop.simps [of c "Suc p"] s1_def)
      have same: "eligible c s1 = eligible c s" "lists s1 = lists s" "cur s1 = cur s"
        "s1\<lparr>uxTopReadyPriority := tp\<rparr> = s\<lparr>uxTopReadyPriority := tp\<rparr>" for tp
        by (simp_all add: s1_def)
      have top: "uxTopReadyPriority s1 = p" if decr using that by (simp add: s1_def)
      show ?thesis unfolding eq
        by (rule ensures_mono [OF Suc.IH [of s1 decr]])
          (use k1 Suc.prems(2,3) rest top in \<open>auto simp: same\<close>)
    qed
  qed
qed

text \<open>An idle task that the other core does not run is always eligible.\<close>

lemma idle_eligible:
  assumes "kinv s" "c < configNUMBER_OF_CORES"
  shows "\<exists>i \<in> set (ready s 0). eligible c s i"
proof -
  have iw: "idle_wf s" using assms(1) by (simp add: kinv_def)
  have "\<exists>i. xIdleTaskHandles s x = Some i \<and> i \<in> set (ready s 0) \<and> may_run_on s i c"
    if "x < configNUMBER_OF_CORES" for x using iw assms(2) that unfolding idle_wf_def by blast
  moreover have "xIdleTaskHandles s 0 \<noteq> xIdleTaskHandles s 1" using iw by (simp add: idle_wf_def)
  ultimately obtain i j where ij: "i \<noteq> j" "i \<in> set (ready s 0)" "j \<in> set (ready s 0)"
    "may_run_on s i c" "may_run_on s j c"
    by (metis configNUMBER_OF_CORES_def one_less_numeral_iff semiring_norm(76) zero_less_numeral)
  have "settled s i" "settled s j"
    using ij(2,3) kinv_settled [OF assms(1)] in_state_list [OF assms(1), of "ReadyL 0"] by auto
  then show ?thesis
  proof (cases "eligible c s i")
    case False
    then obtain d where "d < configNUMBER_OF_CORES" "cur s d = i" "d \<noteq> c"
      using \<open>settled s i\<close> ij(4) unfolding settled_def eligible_def by blast
    moreover have "runstate s j = taskTASK_NOT_RUNNING \<or> (\<exists>e < configNUMBER_OF_CORES. cur s e = j)"
      using \<open>settled s j\<close> unfolding settled_def .
    ultimately have "runstate s j = taskTASK_NOT_RUNNING \<or> cur s c = j"
      using ij(1) assms(2) by (auto simp: configNUMBER_OF_CORES_def less_2_cases_iff simp del: ex_core)
    then show ?thesis using ij(3,5) by (auto simp: eligible_def)
  qed (use ij(2) in blast)
qed

lemma ready_above_top: "kinv s \<Longrightarrow> p > uxTopReadyPriority s \<Longrightarrow> ready s p = []"
proof -
  assume "kinv s" "p > uxTopReadyPriority s"
  then have "\<forall>t \<in> set (ready s p). p \<le> uxTopReadyPriority s" by (simp add: kinv_def prios_wf_def)
  then show ?thesis using \<open>p > _\<close> by (cases "ready s p") auto
qed

lemma queue_from_top:
  assumes "kinv s"
  shows "concat (map (ready s) (rev [0..<Suc (uxTopReadyPriority s)])) = ready_queue s"
proof -
  have top: "uxTopReadyPriority s < configMAX_PRIORITIES" using assms by (simp add: kinv_def prios_wf_def)
  then obtain k where k: "configMAX_PRIORITIES = Suc (uxTopReadyPriority s) + k"
    using less_imp_add_positive by (metis add_Suc_shift less_iff_Suc_add)
  then have "rev [0..<configMAX_PRIORITIES] =
      rev [Suc (uxTopReadyPriority s)..<configMAX_PRIORITIES] @ rev [0..<Suc (uxTopReadyPriority s)]"
    using upt_add_eq_append [of 0 "Suc (uxTopReadyPriority s)" k] by simp
  moreover have "concat (map (ready s) (rev [Suc (uxTopReadyPriority s)..<configMAX_PRIORITIES])) = []"
    using ready_above_top [OF assms] by auto
  ultimately show ?thesis by (simp add: ready_queue_def)
qed

lemma next_task_exists:
  assumes "kinv s" "c < configNUMBER_OF_CORES"
  shows "\<exists>t. next_task c s = Some t"
proof -
  obtain i where "i \<in> set (ready s 0)" "eligible c s i" using idle_eligible [OF assms] by blast
  then have "i \<in> set (ready_queue s)" by (auto simp: ready_queue_def configMAX_PRIORITIES_def)
  then show ?thesis using \<open>eligible c s i\<close> by (auto simp: next_task_def find_None_iff not_None_eq [symmetric])
qed

section \<open>The evicted task\<close>

lemma find_core_for_evicted_ok:
  assumes "kinv s" "\<forall>x \<in> set xs. x < configNUMBER_OF_CORES"
  shows "ensures (find_core_for_evicted xs cmap s (low, core)) (\<lambda>k. k = core \<or> k \<ge> 0 \<and> nat k < configNUMBER_OF_CORES)"
  using assms(2)
proof (induction xs arbitrary: cmap low core)
  case (Cons x xs)
  then have c: "current x s = Inr (cur s x)" using current_eq [OF assms(1)] by simp
  have ih: "ensures (find_core_for_evicted xs cmap' s (low', core'))
    (\<lambda>k. k = core' \<or> k \<ge> 0 \<and> nat k < configNUMBER_OF_CORES)" for cmap' low' core'
    using Cons by simp
  show ?case using Cons.prems
    by (auto simp: c Let_def intro: ih intro!: ensures_mono [OF ih])
qed simp

lemma place_evicted_ok:
  assumes "kinv s" "c < configNUMBER_OF_CORES"
  shows "ensures (place_evicted c prev s) (\<lambda>s'. yields s s' \<and> runstate s' (cur s c) = runstate s (cur s c))"
proof (cases "stateContainer (tcb s prev) = Some (ReadyL (prio s prev))")
  case True
  have find: "ensures (find_core_for_evicted (rev [0..<configNUMBER_OF_CORES]) m s (low, -1))
      (\<lambda>k. k = -1 \<or> k \<ge> 0 \<and> nat k < configNUMBER_OF_CORES)" for m low
    by (rule find_core_for_evicted_ok [OF assms(1)]) simp
  have go: "ensures (if k \<ge> 0 then prvYieldCore c (nat k) s else Inr s)
      (\<lambda>s'. yields s s' \<and> runstate s' (cur s c) = runstate s (cur s c))"
    if k: "k = -1 \<or> k \<ge> 0 \<and> nat k < configNUMBER_OF_CORES" for k :: int
  proof (cases "k \<ge> 0")
    case True
    with k have x: "nat k < configNUMBER_OF_CORES" by simp
    have "runstate s' (cur s c) = runstate s (cur s c)" if "prvYieldCore c (nat k) s = Inr s'"
      "\<forall>t. t \<noteq> cur s (nat k) \<longrightarrow> runstate s' t = runstate s t" for s'
    proof (cases "nat k = c")
      case True
      then show ?thesis using that(1) by (auto simp: prvYieldCore_def set_yield_pending_def)
    next
      case False
      then show ?thesis using that(2) kinv_cur_ne [OF assms(1) x assms(2)] by metis
    qed
    then show ?thesis using prvYieldCore_ok [OF assms(1) x, of c] True by (auto simp: ensures_def)
  qed simp
  show ?thesis using True unfolding place_evicted_def Let_def current_eq [OF assms] bindE_simps if_P [OF True]
    by (intro ensures_bind [OF find] go)
qed (simp add: place_evicted_def)

section \<open>The switch\<close>

text \<open>What a context switch of core \<open>c\<close> achieves.\<close>

definition switched :: "nat \<Rightarrow> kernel \<Rightarrow> kernel \<Rightarrow> bool" where
  "switched c s s' \<longleftrightarrow> kinv s' \<and> Some (cur s' c) = next_task c (rotated c s) \<and>
     runs s' c \<and> may_run_on s' (cur s' c) c \<and>
     (\<forall>x < configNUMBER_OF_CORES. x \<noteq> c \<longrightarrow> cur s' x = cur s x) \<and>
     (\<forall>x < configNUMBER_OF_CORES. x \<noteq> c \<and> (runs s x \<or> pendsv s x) \<longrightarrow> runs s' x \<or> pendsv s' x) \<and>
     (\<forall>t. stateContainer (tcb s' t) = stateContainer (tcb s t)) \<and>
     quiet (s\<lparr>pxCurrentTCBs := pxCurrentTCBs s'\<rparr>) s'"

lemma next_task_ready:
  assumes "kinv s" "next_task c s = Some t"
  shows "eligible c s t" "stateContainer (tcb s t) = Some (ReadyL (prio s t))"
proof -
  have "t \<in> set (ready_queue s)" "eligible c s t"
    using assms(2) by (auto simp: next_task_def find_Some_iff)
  then show "eligible c s t" by simp
  obtain p where p: "t \<in> set (ready s p)" using \<open>t \<in> _\<close> by (auto simp: ready_queue_def)
  then have "prio s t = p" using assms(1) by (simp add: kinv_def prios_wf_def)
  then show "stateContainer (tcb s t) = Some (ReadyL (prio s t))"
    using p in_state_list [OF assms(1), of "ReadyL p"] by simp
qed

lemma switched_dispatch:
  assumes k: "kinv s" and c: "c < configNUMBER_OF_CORES" and t: "next_task c (rotated c s) = Some t"
    and top: "kinv ((rotated c s)\<lparr>uxTopReadyPriority := tp\<rparr>)"
  shows "switched c s (dispatch c t ((rotated c s)\<lparr>uxTopReadyPriority := tp\<rparr>))"
proof -
  let ?r = "rotated c s"
  let ?d = "dispatch c t (?r\<lparr>uxTopReadyPriority := tp\<rparr>)"
  note nt = next_task_ready [OF kinv_rotated [OF k] t]
  have el: "eligible c s t" using nt(1) by (simp add: eligible_def may_run_on_def)
  have kd: "kinv ?d" by (rule kinv_dispatch [OF top c]) (simp add: nt)
  have other: "cur s x \<noteq> t" "cur s x \<noteq> cur s c" if "x < configNUMBER_OF_CORES" "x \<noteq> c" for x
    using el kinv_runstate [OF k that(1)] kinv_cur_ne [OF k that(1) c] that(2)
    by (auto simp: eligible_def taskTASK_NOT_RUNNING_def taskTASK_SCHEDULED_TO_YIELD_def)
  have cur: "cur ?d x = (if x = c then t else cur s x)" for x by (simp add: dispatch_def cur_def)
  have tcb: "tcb ?d u = tcb s u" if "u \<noteq> t" "u \<noteq> cur s c" for u using that by (simp add: dispatch_def upd_tcb_def)
  have same: "stateContainer (tcb ?d u) = stateContainer (tcb s u)" "prio ?d u = prio s u"
    "uxCoreAffinityMask (tcb ?d u) = uxCoreAffinityMask (tcb s u)" for u
    by (simp_all add: dispatch_def upd_tcb_def)
  have run: "runs ?d c \<and> may_run_on ?d (cur ?d c) c"
    using nt el by (simp add: runs_def cur same may_run_on_def eligible_def) (simp add: dispatch_def upd_tcb_def)
  have others: "runs ?d x \<or> pendsv ?d x" if "x < configNUMBER_OF_CORES" "x \<noteq> c" "runs s x \<or> pendsv s x" for x
    using that(3) other [OF that(1,2)] that(2) by (simp add: runs_def cur tcb) (simp add: dispatch_def upd_tcb_def)
  have "quiet (s\<lparr>pxCurrentTCBs := pxCurrentTCBs ?d\<rparr>) ?d"
    by (simp add: quiet_def dispatch_def upd_tcb_def) (simp add: rotated_def Let_def set_list_def)
  moreover have "next_task c ?r = Some (cur ?d c)" using t by (simp add: cur)
  ultimately show ?thesis using kd run others same(1) by (simp add: switched_def cur del: all_cores)
qed

lemma switched_yields:
  assumes "switched c s d" "c < configNUMBER_OF_CORES" "yields d s'" "runstate s' (cur d c) = runstate d (cur d c)"
  shows "switched c s s'"
proof -
  note y = yields_same [OF assms(3)]
  have kd: "kinv d" using assms(1) by (simp add: switched_def)
  have "runs s' x \<or> pendsv s' x" if "runs d x \<or> pendsv d x" "x < configNUMBER_OF_CORES" for x
    using that yields_mono(1) [OF assms(3)] runs_yields [OF kd assms(3)] by blast
  moreover have "runs d c" using assms(1) by (simp add: switched_def)
  then have "runs s' c" using assms(4) by (simp add: runs_def y)
  moreover have "quiet (s\<lparr>pxCurrentTCBs := pxCurrentTCBs s'\<rparr>) s'"
    using assms(1) quiet_trans [OF _ yields_quiet [OF assms(3)]] by (simp add: switched_def y)
  ultimately show ?thesis using assms(1) kinv_yields [OF kd assms(3)]
    unfolding switched_def by (simp add: y may_run_on_def del: all_cores)
qed

lemma prvSelectHighestPriorityTask_ok:
  assumes "kinv s" "c < configNUMBER_OF_CORES"
  shows "ensures (prvSelectHighestPriorityTask c s) (switched c s)"
proof -
  let ?r = "rotated c s"
  have kr: "kinv ?r" by (rule kinv_rotated [OF assms(1)])
  obtain t where t: "next_task c ?r = Some t" using next_task_exists [OF kr assms(2)] by blast
  have find: "List.find (eligible c ?r) (concat (map (ready ?r) (rev [0..<Suc (uxTopReadyPriority s)]))) = Some t"
    using t queue_from_top [OF kr] by (simp add: next_task_def del: upt_Suc)
  have top: "uxTopReadyPriority s < configMAX_PRIORITIES" using assms(1) by (simp add: kinv_def prios_wf_def)
  have "ensures (select_loop c (uxTopReadyPriority s) True ?r) (\<lambda>(b, prev, s2). b \<and>
    prev = (if t = cur ?r c then None else Some (cur ?r c)) \<and>
    (\<exists>tp. kinv (?r\<lparr>uxTopReadyPriority := tp\<rparr>) \<and> s2 = dispatch c t (?r\<lparr>uxTopReadyPriority := tp\<rparr>)))"
    by (rule select_loop_ok [OF kr assms(2) top _ find]) simp
  then have "ensures (select_loop c (uxTopReadyPriority s) True ?r) (\<lambda>(b, prev, s2). b \<and> switched c s s2)"
    by (rule ensures_mono) (use switched_dispatch [OF assms t] in auto)
  moreover have "ensures (case prev of None \<Rightarrow> Inr s2 | Some u \<Rightarrow> place_evicted c u s2) (switched c s)"
    if "switched c s s2" for prev s2
  proof (cases prev)
    case (Some u)
    have "kinv s2" using that by (simp add: switched_def)
    from ensures_mono [OF place_evicted_ok [OF this assms(2), of u]] show ?thesis
      using Some switched_yields [OF that assms(2)] by simp
  qed (use that in simp)
  ultimately show ?thesis unfolding prvSelectHighestPriorityTask_def rotate_current_eq [OF assms] bindE_simps
    by (elim ensures_bind) auto
qed

end
