(* ===== verification/TickProps.thy ===== *)
theory TickProps
  imports KernelInv
begin

text \<open>
  The tick: \<open>xTaskIncrementTick\<close> does not fault, keeps the invariant, and wakes exactly the tasks
  whose wake time is the new tick count, also when the count wraps around and the delayed lists
  change places.  Against the abstract specification, in which a sleeping task has a number of
  ticks left, the tick is the decrement of every one of them.
\<close>

section \<open>The loop that wakes tasks\<close>

text \<open>The tasks of \<open>W\<close> have become ready; nothing else moved.\<close>

definition woken :: "nat set \<Rightarrow> kernel \<Rightarrow> kernel \<Rightarrow> bool" where
  "woken W s s' \<longleftrightarrow> kinv s' \<and> quiet s s' \<and>
     (\<forall>t. stateContainer (tcb s' t) =
        (if t \<in> W then Some (ReadyL (prio s t)) else stateContainer (tcb s t))) \<and>
     goes_on s s'"

lemma woken_trans [trans]:
  "woken V s s1 \<Longrightarrow> woken W s1 s2 \<Longrightarrow> woken (V \<union> W) s s2"
  using goes_on_trans by (auto simp: woken_def quiet_def)

lemma delayed_head:
  assumes "kinv s" "delayed s = t # ts"
  shows "stateContainer (tcb s t) = Some (pxDelayedTaskList s)" "\<not> idle_task s t"
    "pxDelayedTaskList s \<in> {DelayedL1, DelayedL2}"
    "\<forall>u \<in> set ts. xStateListItem (tcb s t) \<le> xStateListItem (tcb s u)" "t \<notin> set ts"
proof -
  show d: "pxDelayedTaskList s \<in> {DelayedL1, DelayedL2}"
    using kinv_delay_lists [OF assms(1)] by auto
  have "t \<in> set (delayed s)" using assms(2) by simp
  then show c: "stateContainer (tcb s t) = Some (pxDelayedTaskList s)"
    using d in_state_list [OF assms(1), of "pxDelayedTaskList s" t] by auto
  then show "\<not> idle_task s t" using idle_ready [OF assms(1), of t] d by auto
  show "\<forall>u \<in> set ts. xStateListItem (tcb s t) \<le> xStateListItem (tcb s u)" "t \<notin> set ts"
    using kinv_sorted(1) [OF assms(1)] kinv_distinct [OF assms(1), of "pxDelayedTaskList s"]
    unfolding assms(2) by auto
qed

lemma wake_one:
  assumes "kinv s" "delayed s = t # ts"
  shows "ensures (bindE (state_remove t s) (\<lambda>s1. bindE (event_remove_if_waiting t s1) (\<lambda>s2.
      bindE (prvAddTaskToReadyList t s2) (prvYieldForTask c t)))) (woken {t} s)"
proof -
  note h = delayed_head [OF assms]
  have "ensures (state_remove t s) (\<lambda>s1. kinv s1 \<and> moves t None s s1)"
    using h by (auto intro!: state_remove_ok assms(1))
  moreover have "ensures (event_remove_if_waiting t s1) (\<lambda>s2. kinv s2 \<and> moves t None s s2)"
    if "kinv s1 \<and> moves t None s s1" for s1
    by (rule ensures_mono [OF event_remove_ok [of s1 t]])
      (use that in \<open>auto simp: moves_container intro: moves_trans\<close>)
  moreover have "ensures (prvAddTaskToReadyList t s2) (\<lambda>s3. kinv s3 \<and> moves t (Some (ReadyL (prio s t))) s s3)"
    if "kinv s2 \<and> moves t None s s2" for s2
  proof -
    have "settled s2 t" using that moves_settled kinv_settled assms(1) h(1) by auto
    moreover have "prio s2 t = prio s t" using that by (simp add: moves_def quiet_def)
    ultimately show ?thesis
      by (intro ensures_mono [OF prvAddTaskToReadyList_ok [of s2 t]])
        (use that in \<open>auto simp: moves_container intro: moves_trans\<close>)
  qed
  moreover have "ensures (prvYieldForTask c t s3) (woken {t} s)"
    if "kinv s3 \<and> moves t (Some (ReadyL (prio s t))) s s3" for s3
  proof (rule ensures_mono [OF prvYieldForTask_ok])
    show "kinv s3" using that by simp
    fix s4 assume y: "yields s3 s4"
    have "goes_on s s3" using \<open>kinv s3 \<and> _\<close> by (auto intro: goes_on_moves)
    then show "woken {t} s s4"
      using that y quiet_trans [OF moves_quiet yields_quiet [OF y]] kinv_yields [OF _ y] goes_on_trans goes_on_yields [OF _ y]
      by (auto simp: woken_def yields_same [OF y] moves_def)
  qed
  ultimately show ?thesis by (blast intro: ensures_bind)
qed

lemma unblock_loop_ok:
  assumes "kinv s" "length (delayed s) < fuel"
  shows "ensures (unblock_loop fuel c now s) (\<lambda>s'.
    woken {t \<in> set (delayed s). xStateListItem (tcb s t) \<le> now} s s' \<and>
    (\<forall>t \<in> set (delayed s'). now < xStateListItem (tcb s' t)))"
  using assms
proof (induction fuel arbitrary: s)
  case (Suc fuel)
  note k = Suc.prems(1)
  show ?case
  proof (cases "delayed s")
    case Nil
    have "kinv (s\<lparr>xNextTaskUnblockTime := portMAX_DELAY\<rparr>)"
      using kinv_reset [OF k] Nil by (simp add: prvResetNextTaskUnblockTime_def)
    then show ?thesis using Nil by (simp add: woken_def quiet_def goes_on_def runs_def cur_def)
  next
    case (Cons t ts)
    note h = delayed_head [OF k Cons]
    show ?thesis
    proof (cases "now < xStateListItem (tcb s t)")
      case True
      let ?s = "s\<lparr>xNextTaskUnblockTime := xStateListItem (tcb s t)\<rparr>"
      have r: "unblock_loop (Suc fuel) c now s = Inr ?s" using True Cons by simp
      have "kinv ?s" using kinv_reset [OF k] Cons by (simp add: prvResetNextTaskUnblockTime_def)
      moreover have late: "\<forall>u \<in> set (delayed s). now < xStateListItem (tcb s u)" using True h(4) Cons by auto
      then have W: "{u \<in> set (delayed s). xStateListItem (tcb s u) \<le> now} = {}" by fastforce
      ultimately show ?thesis using late unfolding r W ensures_Inr
        by (simp add: woken_def quiet_def goes_on_def runs_def cur_def)
    next
      case False
      have "ensures (bindE (bindE (state_remove t s) (\<lambda>s1. bindE (event_remove_if_waiting t s1) (\<lambda>s2.
          bindE (prvAddTaskToReadyList t s2) (prvYieldForTask c t)))) (unblock_loop fuel c now))
        (\<lambda>s'. woken {t \<in> set (delayed s). xStateListItem (tcb s t) \<le> now} s s' \<and>
          (\<forall>t \<in> set (delayed s'). now < xStateListItem (tcb s' t)))"
      proof (rule ensures_bind [OF wake_one [OF k Cons]])
        fix s1 assume w: "woken {t} s s1"
        have k1: "kinv s1" and px: "pxDelayedTaskList s1 = pxDelayedTaskList s"
          and v: "\<And>u. xStateListItem (tcb s1 u) = xStateListItem (tcb s u)"
          using w by (simp_all add: woken_def quiet_def)
        have sl: "state_list (pxDelayedTaskList s)" using h(3) by auto
        have mem: "u \<in> set (delayed s1) \<longleftrightarrow> u \<in> set ts" for u
        proof -
          have "u \<in> set (delayed s1) \<longleftrightarrow> u \<noteq> t \<and> u \<in> set (delayed s)"
            using w h(3) in_state_list [OF k sl, of u] in_state_list [OF k1, of "pxDelayedTaskList s" u] sl
            by (auto simp: woken_def px)
          with Cons h(5) show ?thesis by auto
        qed
        then have "set (delayed s1) = set ts" by blast
        moreover have "distinct ts" using kinv_distinct [OF k, of "pxDelayedTaskList s"] Cons by simp
        ultimately have "length (delayed s1) = length ts"
          using distinct_card [OF kinv_distinct [OF k1, of "pxDelayedTaskList s1"]] distinct_card [of ts] by simp
        then have len: "length (delayed s1) < fuel" using Suc.prems(2) Cons by simp
        have W: "{t} \<union> {u \<in> set (delayed s1). xStateListItem (tcb s1 u) \<le> now} =
            {u \<in> set (delayed s). xStateListItem (tcb s u) \<le> now}"
          using False mem Cons by (auto simp: v)
        show "ensures (unblock_loop fuel c now s1) (\<lambda>s'.
            woken {t \<in> set (delayed s). xStateListItem (tcb s t) \<le> now} s s' \<and>
            (\<forall>t \<in> set (delayed s'). now < xStateListItem (tcb s' t)))"
          unfolding W [symmetric]
          by (rule ensures_mono [OF Suc.IH [OF k1 len]]) (erule conjE, intro conjI woken_trans [OF w]; assumption)
      qed
      then show ?thesis using Cons False by (simp add: bindE_assoc Let_def)
    qed
  qed
qed simp

section \<open>One tick\<close>

definition sleeping :: "kernel \<Rightarrow> nat \<Rightarrow> bool" where
  "sleeping s t \<longleftrightarrow> stateContainer (tcb s t) \<in> {Some DelayedL1, Some DelayedL2}"

text \<open>The contract of a tick.\<close>

definition ticked :: "kernel \<Rightarrow> kernel \<Rightarrow> bool" where
  "ticked s s' \<longleftrightarrow> kinv s' \<and> ontime s' \<and> goes_on s s' \<and>
     (\<forall>t. stateContainer (tcb s' t) =
        (if sleeping s t \<and> xStateListItem (tcb s t) = xTickCount s + 1
         then Some (ReadyL (prio s t)) else stateContainer (tcb s t))) \<and>
     quiet (s\<lparr>xTickCount := xTickCount s + 1,
       pxDelayedTaskList := pxDelayedTaskList s', pxOverflowDelayedTaskList := pxOverflowDelayedTaskList s',
       xNumOfOverflows := xNumOfOverflows s + (if xTickCount s + 1 = 0 then 1 else 0)\<rparr>) s'"

lemma kinv_switch:
  assumes "kinv s"
  shows "kinv (taskSWITCH_DELAYED_LISTS s)"
proof -
  let ?s = "s\<lparr>pxDelayedTaskList := pxOverflowDelayedTaskList s, pxOverflowDelayedTaskList := pxDelayedTaskList s,
    xNumOfOverflows := xNumOfOverflows s + 1\<rparr>"
  have wf: "lists_wf s" "prios_wf s" "cores_wf s" "idle_wf s" "delays_wf s" using assms by (simp_all add: kinv_def)
  have "lists_wf (prvResetNextTaskUnblockTime ?s)" using wf(1) by (simp add: lists_wf_def prvResetNextTaskUnblockTime_def)
  moreover have "prios_wf (prvResetNextTaskUnblockTime ?s)"
    using wf(2) by (simp add: prios_wf_def prvResetNextTaskUnblockTime_def)
  moreover have "cores_wf (prvResetNextTaskUnblockTime ?s)"
    using wf(3) by (simp add: cores_wf_def settled_def cur_def may_run_on_def prvResetNextTaskUnblockTime_def)
  moreover have "idle_wf (prvResetNextTaskUnblockTime ?s)"
    using wf(4) by (simp add: idle_wf_def may_run_on_def prvResetNextTaskUnblockTime_def)
  moreover have "delays_wf (prvResetNextTaskUnblockTime ?s)"
    using wf(5) by (auto simp: delays_wf_def prvResetNextTaskUnblockTime_def le_portMAX_DELAY split: list.splits)
  ultimately show ?thesis by (simp add: kinv_def taskSWITCH_DELAYED_LISTS_def)
qed

lemma unblock_step:
  assumes "kinv s"
  shows "ensures (if now \<ge> xNextTaskUnblockTime s then unblock_loop (Suc (length (delayed s))) c now s else Inr s)
    (\<lambda>s'. woken {t \<in> set (delayed s). xStateListItem (tcb s t) \<le> now} s s' \<and>
      (\<forall>t \<in> set (delayed s'). now < xStateListItem (tcb s' t)))"
proof (cases "now \<ge> xNextTaskUnblockTime s")
  case True
  then show ?thesis using unblock_loop_ok [OF assms, of "Suc (length (delayed s))" c now] by simp
next
  case False
  have late: "\<forall>t \<in> set (delayed s). now < xStateListItem (tcb s t)"
    using assms False by (auto simp: kinv_def delays_wf_def not_le intro: less_le_trans)
  then have W: "{t \<in> set (delayed s). xStateListItem (tcb s t) \<le> now} = {}" by fastforce
  then show ?thesis using False late assms unfolding W by (simp add: woken_def)
qed

text \<open>The tasks due at the new tick count, and what is left to sleep.\<close>

lemma due_tasks:
  assumes "kinv s" "ontime s"
  defines "now \<equiv> xTickCount s + 1"
  defines "D \<equiv> (if now = 0 then pxOverflowDelayedTaskList s else pxDelayedTaskList s)"
  defines "E \<equiv> (if now = 0 then pxDelayedTaskList s else pxOverflowDelayedTaskList s)"
  shows "t \<in> set (lists s D) \<and> xStateListItem (tcb s t) \<le> now \<longleftrightarrow> sleeping s t \<and> xStateListItem (tcb s t) = now"
    and "stateContainer (tcb s t) = Some E \<longrightarrow> xStateListItem (tcb s t) < now"
proof -
  note dl = kinv_delay_lists [OF assms(1)]
  have "state_list D" using dl by (auto simp: D_def)
  then have m: "t \<in> set (lists s D) \<longleftrightarrow> stateContainer (tcb s t) = Some D" by (rule in_state_list [OF assms(1)])
  have ot: "stateContainer (tcb s t) = Some (pxDelayedTaskList s) \<longrightarrow> xTickCount s < xStateListItem (tcb s t)"
    "stateContainer (tcb s t) = Some (pxOverflowDelayedTaskList s) \<longrightarrow> xStateListItem (tcb s t) < xTickCount s"
    using assms(2) by (simp_all add: ontime_def)
  have no: "\<not> x < y" if "x + 1 = 0" for x y :: u32
  proof -
    have "x = -1" using that by (simp add: add_eq_0_iff2)
    then show ?thesis by simp
  qed
  have le: "x < y \<Longrightarrow> x + 1 \<le> y" for x y :: u32 by (rule inc_le)
  have lt: "x < x + 1" if "x + 1 \<noteq> 0" for x :: u32
    using that inc_less_eq_iff [of x x] by (simp add: not_le [symmetric] add_eq_0_iff2)
  show "t \<in> set (lists s D) \<and> xStateListItem (tcb s t) \<le> now \<longleftrightarrow> sleeping s t \<and> xStateListItem (tcb s t) = now"
  proof (cases "now = 0")
    case True
    then have "stateContainer (tcb s t) \<noteq> Some (pxDelayedTaskList s)" using ot(1) no by (auto simp: now_def)
    then show ?thesis using True dl unfolding m by (auto simp: sleeping_def D_def)
  next
    case False
    have a: "stateContainer (tcb s t) = Some (pxDelayedTaskList s) \<longrightarrow> now \<le> xStateListItem (tcb s t)"
      using ot(1) le by (simp add: now_def)
    have b: "stateContainer (tcb s t) = Some (pxOverflowDelayedTaskList s) \<longrightarrow> xStateListItem (tcb s t) < now"
      using ot(2) lt False by (auto simp: now_def intro: less_trans)
    have "sleeping s t \<longleftrightarrow> stateContainer (tcb s t) = Some (pxDelayedTaskList s) \<or>
        stateContainer (tcb s t) = Some (pxOverflowDelayedTaskList s)"
      using dl by (auto simp: sleeping_def)
    then show ?thesis using False a b unfolding m by (auto simp: D_def)
  qed
  show "stateContainer (tcb s t) = Some E \<longrightarrow> xStateListItem (tcb s t) < now"
    using ot no lt by (auto simp: E_def now_def intro: less_trans)
qed

lemma xTaskIncrementTick_ok:
  assumes "kinv s" "ontime s" "uxSchedulerSuspended s = 0"
  shows "ensures (xTaskIncrementTick c s) (\<lambda>(sw, s'). ticked s s')"
proof -
  define now where "now = xTickCount s + 1"
  define s2 where "s2 = (if now = 0 then taskSWITCH_DELAYED_LISTS (s\<lparr>xTickCount := now\<rparr>) else s\<lparr>xTickCount := now\<rparr>)"
  have k2: "kinv s2" using assms(1) by (simp add: s2_def kinv_switch)
  have s2: "pxDelayedTaskList s2 = (if now = 0 then pxOverflowDelayedTaskList s else pxDelayedTaskList s)"
    "pxOverflowDelayedTaskList s2 = (if now = 0 then pxDelayedTaskList s else pxOverflowDelayedTaskList s)"
    "lists s2 = lists s" "tcb s2 = tcb s" "xTickCount s2 = now" "goes_on s s2"
    by (simp_all add: s2_def taskSWITCH_DELAYED_LISTS_def prvResetNextTaskUnblockTime_def goes_on_def runs_def cur_def)
  have q2: "quiet (s\<lparr>xTickCount := now, pxDelayedTaskList := pxDelayedTaskList s2,
       pxOverflowDelayedTaskList := pxOverflowDelayedTaskList s2,
       xNumOfOverflows := xNumOfOverflows s + (if now = 0 then 1 else 0)\<rparr>) s2"
    by (simp add: s2_def taskSWITCH_DELAYED_LISTS_def prvResetNextTaskUnblockTime_def quiet_def)
  note due = due_tasks [OF assms(1,2)]
  let ?W = "{t. sleeping s t \<and> xStateListItem (tcb s t) = now}"
  have W: "{t \<in> set (delayed s2). xStateListItem (tcb s2 t) \<le> now} = ?W"
    using due(1) by (simp add: s2 now_def)
  have unblock: "ensures (if now \<ge> xNextTaskUnblockTime s2 then unblock_loop (Suc (length (delayed s2))) c now s2 else Inr s2)
    (\<lambda>s3. woken ?W s2 s3 \<and> (\<forall>t \<in> set (delayed s3). now < xStateListItem (tcb s3 t)))"
    using unblock_step [OF k2, of now c] unfolding W .
  have cores: "\<forall>x \<in> set [0..<configNUMBER_OF_CORES]. x < configNUMBER_OF_CORES" by simp
  have fin: "ticked s s5" if w: "woken ?W s2 s3" "\<forall>t \<in> set (delayed s3). now < xStateListItem (tcb s3 t)"
    and y: "yields s3 s5" for s3 s5
  proof -
    have k3: "kinv s3" and q3: "quiet s2 s3" using w(1) by (simp_all add: woken_def)
    have q5: "quiet s2 s5" using q3 yields_quiet [OF y] by (rule quiet_trans)
    have k5: "kinv s5" using k3 y by (rule kinv_yields)
    have c5: "stateContainer (tcb s5 t) = (if t \<in> ?W then Some (ReadyL (prio s t)) else stateContainer (tcb s t))" for t
      using w(1) by (simp add: woken_def yields_same [OF y] s2)
    have sl: "state_list (pxDelayedTaskList s3)" using kinv_delay_lists [OF k3] by auto
    have late: "now < xStateListItem (tcb s t)" if "stateContainer (tcb s5 t) = Some (pxDelayedTaskList s5)" for t
    proof -
      have "t \<in> set (delayed s3)" using that in_state_list [OF k3 sl] by (simp add: yields_same [OF y])
      then show ?thesis using w(2) q3 by (simp add: quiet_def s2)
    qed
    have early: "xStateListItem (tcb s t) < now" if "stateContainer (tcb s5 t) = Some (pxOverflowDelayedTaskList s5)" for t
    proof -
      have px: "pxOverflowDelayedTaskList s5 = pxOverflowDelayedTaskList s2" using q5 by (simp add: quiet_def)
      have "t \<notin> ?W" using that kinv_delay_lists [OF k5] c5 [of t] by (auto split: if_splits)
      then have "stateContainer (tcb s t) = Some (pxOverflowDelayedTaskList s2)" using that c5 [of t] px by (auto split: if_splits)
      then show ?thesis using due(2) [of t] by (simp add: s2 now_def)
    qed
    have "ontime s5" using late early q5 by (simp add: ontime_def quiet_def s2)
    moreover have "goes_on s s5"
      using w(1) goes_on_trans [OF s2(6) goes_on_trans [OF _ goes_on_yields [OF k3 y]]] by (simp add: woken_def)
    moreover have "quiet (s\<lparr>xTickCount := now, pxDelayedTaskList := pxDelayedTaskList s5,
       pxOverflowDelayedTaskList := pxOverflowDelayedTaskList s5,
       xNumOfOverflows := xNumOfOverflows s + (if now = 0 then 1 else 0)\<rparr>) s5"
    proof -
      have "pxDelayedTaskList s5 = pxDelayedTaskList s2" "pxOverflowDelayedTaskList s5 = pxOverflowDelayedTaskList s2"
        using q5 by (simp_all add: quiet_def)
      then show ?thesis using quiet_trans [OF q2 q5] by simp
    qed
    ultimately show ?thesis using k5 c5 by (simp add: ticked_def now_def)
  qed
  have tail: "ensures (bindE (time_slice [0..<configNUMBER_OF_CORES] s3)
      (request_yields c [0..<configNUMBER_OF_CORES] False)) (\<lambda>(sw, s'). ticked s s')"
    if w: "woken ?W s2 s3 \<and> (\<forall>t \<in> set (delayed s3). now < xStateListItem (tcb s3 t))" for s3
  proof (rule ensures_bind [OF time_slice_ok [OF _ cores]])
    show k3: "kinv s3" using w by (simp add: woken_def)
    fix s4 assume y: "yields s3 s4"
    show "ensures (request_yields c [0..<configNUMBER_OF_CORES] False s4) (\<lambda>(sw, s'). ticked s s')"
      by (rule ensures_mono [OF request_yields_ok [OF kinv_yields [OF k3 y] cores]])
        (use w fin yields_trans [OF y] in auto)
  qed
  show ?thesis unfolding xTaskIncrementTick_def Let_def if_P [OF assms(3)]
    by (fold now_def, fold s2_def) (rule ensures_bind [OF unblock tail])
qed

section \<open>The abstract view: ticks left to sleep\<close>

definition remaining :: "kernel \<Rightarrow> nat \<Rightarrow> nat option" where
  "remaining s t = (if sleeping s t then Some (unat (xStateListItem (tcb s t) - xTickCount s)) else None)"

definition age :: "nat \<Rightarrow> nat option \<Rightarrow> nat option" where
  "age n r = (case r of None \<Rightarrow> None | Some k \<Rightarrow> if k \<le> n then None else Some (k - n))"

lemma age_age: "age n (age m r) = age (m + n) r"
  by (auto simp: age_def split: option.splits)

lemma age_0: "remaining s t \<noteq> Some 0 \<Longrightarrow> age 0 (remaining s t) = remaining s t"
  by (auto simp: age_def split: option.splits)

lemma ontime_ne:
  assumes "kinv s" "ontime s" "sleeping s t"
  shows "xStateListItem (tcb s t) \<noteq> xTickCount s"
proof -
  have "stateContainer (tcb s t) \<in> {Some (pxDelayedTaskList s), Some (pxOverflowDelayedTaskList s)}"
    using kinv_delay_lists [OF assms(1)] assms(3) by (auto simp: sleeping_def)
  then show ?thesis using assms(2) by (auto simp: ontime_def)
qed

lemma remaining_pos: "kinv s \<Longrightarrow> ontime s \<Longrightarrow> remaining s t \<noteq> Some 0"
  using ontime_ne by (auto simp: remaining_def unat_gt_0)

lemma unat_dec: "w \<noteq> 0 \<Longrightarrow> unat (w - 1) = unat w - 1" for w :: u32
  by (rule unat_minus_one)

lemma ticked_remaining:
  assumes "kinv s" "ontime s" "ticked s s'"
  shows "remaining s' t = age 1 (remaining s t)"
proof -
  let ?v = "xStateListItem (tcb s t)"
  have c: "stateContainer (tcb s' t) = (if sleeping s t \<and> ?v = xTickCount s + 1
      then Some (ReadyL (prio s t)) else stateContainer (tcb s t))"
    and v: "xStateListItem (tcb s' t) = ?v" "xTickCount s' = xTickCount s + 1"
    using assms(3) by (simp_all add: ticked_def quiet_def)
  show ?thesis
  proof (cases "sleeping s t")
    case True
    have ne: "?v - xTickCount s \<noteq> 0" using ontime_ne [OF assms(1,2) True] by simp
    have d: "unat (?v - xTickCount s') = unat (?v - xTickCount s) - 1"
      using unat_dec [OF ne] by (simp add: v diff_diff_add)
    have pos: "0 < unat (?v - xTickCount s)" using ne by (simp add: unat_gt_0)
    show ?thesis
    proof (cases "?v = xTickCount s + 1")
      case now: True
      then have "\<not> sleeping s' t" using c True by (simp add: sleeping_def)
      then show ?thesis using True now by (simp add: remaining_def age_def)
    next
      case False
      then have "sleeping s' t" using c True by (simp add: sleeping_def)
      moreover have "unat (?v - xTickCount s) \<noteq> 1"
      proof
        assume "unat (?v - xTickCount s) = 1"
        then have "?v - xTickCount s = 1" by (simp add: word_unat_eq_iff)
        with False show False by (simp add: algebra_simps)
      qed
      ultimately show ?thesis using True d pos by (simp add: remaining_def age_def v)
    qed
  next
    case False
    then show ?thesis using c by (simp add: remaining_def age_def sleeping_def)
  qed
qed

text \<open>A task that stopped sleeping is in the ready list of its priority.\<close>

lemma ticked_ready:
  assumes "ticked s s'" "sleeping s t" "\<not> sleeping s' t"
  shows "stateContainer (tcb s' t) = Some (ReadyL (prio s t))"
  using assms by (auto simp: ticked_def sleeping_def split: if_splits)

section \<open>Several ticks\<close>

text \<open>What \<open>n\<close> ticks do.\<close>

definition aged :: "nat \<Rightarrow> kernel \<Rightarrow> kernel \<Rightarrow> bool" where
  "aged n s s' \<longleftrightarrow> kinv s' \<and> ontime s' \<and> goes_on s s' \<and>
     xTickCount s' = xTickCount s + of_nat n \<and>
     (\<forall>t. remaining s' t = age n (remaining s t)) \<and>
     (\<forall>t. stateContainer (tcb s' t) = (if sleeping s t \<and> \<not> sleeping s' t
        then Some (ReadyL (prio s t)) else stateContainer (tcb s t))) \<and>
     quiet (s\<lparr>xTickCount := xTickCount s',
       pxDelayedTaskList := pxDelayedTaskList s', pxOverflowDelayedTaskList := pxOverflowDelayedTaskList s',
       xNumOfOverflows := xNumOfOverflows s'\<rparr>) s'"

lemma aged_0: "kinv s \<Longrightarrow> ontime s \<Longrightarrow> aged 0 s s"
  using age_0 remaining_pos by (auto simp: aged_def quiet_def)

lemma ticked_quiet:
  "ticked s s' \<Longrightarrow> quiet (s\<lparr>xTickCount := xTickCount s', pxDelayedTaskList := pxDelayedTaskList s',
     pxOverflowDelayedTaskList := pxOverflowDelayedTaskList s', xNumOfOverflows := xNumOfOverflows s'\<rparr>) s'"
  by (simp add: ticked_def quiet_def)

lemma aged_ticked:
  assumes "aged n s s1" "ticked s1 s2"
  shows "aged (Suc n) s s2"
proof -
  have k: "kinv s1" "ontime s1" using assms(1) by (simp_all add: aged_def)
  have r: "remaining s2 t = age (Suc n) (remaining s t)" for t
    using ticked_remaining [OF k assms(2), of t] assms(1) age_age [of 1 n] by (simp add: aged_def)
  have prio: "prio s1 t = prio s t" for t using assms(1) by (simp add: aged_def quiet_def)
  have c: "stateContainer (tcb s2 t) = (if sleeping s t \<and> \<not> sleeping s2 t
      then Some (ReadyL (prio s t)) else stateContainer (tcb s t))" for t
  proof (cases "sleeping s1 t")
    case True
    have "stateContainer (tcb s1 t) = (if sleeping s t \<and> \<not> sleeping s1 t
        then Some (ReadyL (prio s t)) else stateContainer (tcb s t))"
      using assms(1) by (simp add: aged_def)
    with True have e: "stateContainer (tcb s1 t) = stateContainer (tcb s t)" by simp
    with True have "sleeping s t" by (simp add: sleeping_def)
    note e = e this
    show ?thesis
    proof (cases "sleeping s2 t")
      case s2: True
      then show ?thesis using e assms(2) by (auto simp: ticked_def sleeping_def split: if_splits)
    qed (use ticked_ready [OF assms(2) True] e prio in simp)
  next
    case False
    then have "stateContainer (tcb s2 t) = stateContainer (tcb s1 t)" using assms(2) by (simp add: ticked_def)
    moreover have "sleeping s2 t = sleeping s1 t" using calculation by (simp add: sleeping_def)
    ultimately show ?thesis using False assms(1) by (simp add: aged_def)
  qed
  have q: "quiet (s\<lparr>xTickCount := xTickCount s2, pxDelayedTaskList := pxDelayedTaskList s2,
      pxOverflowDelayedTaskList := pxOverflowDelayedTaskList s2, xNumOfOverflows := xNumOfOverflows s2\<rparr>) s2"
    using assms(1) ticked_quiet [OF assms(2)] by (auto simp: aged_def quiet_def)
  have "goes_on s s2" using assms goes_on_trans by (auto simp: aged_def ticked_def)
  then show ?thesis using assms r c q by (simp add: aged_def ticked_def quiet_def algebra_simps)
qed

lemma counters [simp]:
  "ontime (s\<lparr>uxSchedulerSuspended := u\<rparr>) = ontime s" "sleeping (s\<lparr>uxSchedulerSuspended := u\<rparr>) = sleeping s" "remaining (s\<lparr>uxSchedulerSuspended := u\<rparr>) = remaining s"
  "goes_on (s\<lparr>uxSchedulerSuspended := u\<rparr>) s' = goes_on s s'" "goes_on s (s'\<lparr>uxSchedulerSuspended := u\<rparr>) = goes_on s s'"
  "ontime (s\<lparr>xPendedTicks := p\<rparr>) = ontime s" "sleeping (s\<lparr>xPendedTicks := p\<rparr>) = sleeping s" "remaining (s\<lparr>xPendedTicks := p\<rparr>) = remaining s"
  "goes_on (s\<lparr>xPendedTicks := p\<rparr>) s' = goes_on s s'" "goes_on s (s'\<lparr>xPendedTicks := p\<rparr>) = goes_on s s'"
  "ontime (s\<lparr>uxCriticalNestings := n\<rparr>) = ontime s" "sleeping (s\<lparr>uxCriticalNestings := n\<rparr>) = sleeping s" "remaining (s\<lparr>uxCriticalNestings := n\<rparr>) = remaining s"
  "goes_on (s\<lparr>uxCriticalNestings := n\<rparr>) s' = goes_on s s'" "goes_on s (s'\<lparr>uxCriticalNestings := n\<rparr>) = goes_on s s'"
  by (simp_all add: ontime_def sleeping_def remaining_def goes_on_def runs_def cur_def fun_eq_iff)

lemma aged_yields:
  assumes "aged n s s1" "yields s1 s2"
  shows "aged n s s2"
proof -
  note y = yields_same [OF assms(2)]
  have k: "kinv s1" using assms(1) by (simp add: aged_def)
  have same: "remaining s2 t = remaining s1 t" "sleeping s2 t = sleeping s1 t" for t
    by (simp_all add: remaining_def sleeping_def y)
  have "quiet (s\<lparr>xTickCount := xTickCount s2, pxDelayedTaskList := pxDelayedTaskList s2,
      pxOverflowDelayedTaskList := pxOverflowDelayedTaskList s2, xNumOfOverflows := xNumOfOverflows s2\<rparr>) s2"
    using assms(1) quiet_trans [OF _ yields_quiet [OF assms(2)]] unfolding aged_def y by blast
  moreover have "goes_on s s2" using goes_on_trans [OF _ goes_on_yields [OF k assms(2)]] assms(1) by (simp add: aged_def)
  ultimately show ?thesis using assms(1) kinv_yields [OF k assms(2)] ontime_yields [OF assms(2)]
    by (simp add: aged_def same y)
qed

end
