(* ===== verification/CallProps.thy ===== *)
theory CallProps
  imports SelectProps TickProps
begin

text \<open>
  The calls of tasks, one by one: from a stable state each returns without a fault and leaves a
  stable state, and what it does to the task it is about is the contract of the function.
\<close>

declare all_cores [simp del] ex_core [simp del]

section \<open>What the calls keep\<close>

definition basic :: "kernel \<Rightarrow> bool" where
  "basic s \<longleftrightarrow> kinv s \<and> ontime s \<and> addressed s \<and>
     length (lists s TerminationL) = uxDeletedTasksWaitingCleanUp s \<and> xSchedulerRunning s \<and> lists s PendingReadyL = []"

text \<open>Every core may go on, will be interrupted, or runs task \<open>t\<close>.\<close>

definition pended_but :: "nat \<Rightarrow> kernel \<Rightarrow> bool" where
  "pended_but t s \<longleftrightarrow> (\<forall>x < configNUMBER_OF_CORES. runs s x \<or> pendsv s x \<or> cur s x = t \<and> runstate s t = int x)"

text \<open>Every core may go on, or will be interrupted when core \<open>c\<close> leaves its critical section.\<close>

definition pended_at :: "nat \<Rightarrow> kernel \<Rightarrow> bool" where
  "pended_at c s \<longleftrightarrow> (\<forall>x < configNUMBER_OF_CORES. runs s x \<or> pendsv s x \<or> x = c \<and> xYieldPendings s c)"

definition nestings :: "nat \<Rightarrow> nat \<Rightarrow> kernel \<Rightarrow> bool" where
  "nestings c n s \<longleftrightarrow> (\<forall>x < configNUMBER_OF_CORES. uxCriticalNestings s x = (if x = c then n else 0))"

lemma stable_iff: "c < configNUMBER_OF_CORES \<Longrightarrow> stable s \<longleftrightarrow>
    basic s \<and> pended s \<and> uxSchedulerSuspended s = 0 \<and> xPendedTicks s = 0 \<and> nestings c 0 s"
  by (auto simp: stable_def basic_def nestings_def)

lemma basic_fields [simp]:
  "basic (s\<lparr>pendsv := p\<rparr>) = basic s" "basic (s\<lparr>xYieldPendings := y\<rparr>) = basic s"
  "basic (s\<lparr>uxCriticalNestings := n\<rparr>) = basic s" "basic (s\<lparr>uxSchedulerSuspended := u\<rparr>) = basic s"
  "basic (s\<lparr>xPendedTicks := k\<rparr>) = basic s" "basic (s\<lparr>uxTaskNumber := u\<rparr>) = basic s"
  "basic (s\<lparr>uxCurrentNumberOfTasks := u\<rparr>) = basic s"
  by (simp_all add: basic_def ontime_def addressed_def)

lemma basic_moves:
  assumes "basic s" "kinv s'" "moves t L s s'" "stateContainer (tcb s t) \<noteq> None"
    "L \<notin> {Some DelayedL1, Some DelayedL2}"
  shows "basic s'"
proof -
  have k: "kinv s" using assms(1) by (simp add: basic_def)
  have "L \<notin> {Some (pxDelayedTaskList s), Some (pxOverflowDelayedTaskList s)}"
    using kinv_delay_lists [OF k] assms(5) by auto
  then have "ontime s'" using assms(1,3) by (auto simp: basic_def intro: ontime_moves)
  moreover have "addressed s'" using assms(1,3,4) by (auto simp: basic_def addressed_def moves_def)
  ultimately show ?thesis using assms(1-3) by (auto simp: basic_def moves_def quiet_def)
qed

lemma basic_yields: "basic s \<Longrightarrow> yields s s' \<Longrightarrow> basic s'"
  by (auto simp: basic_def ontime_def addressed_def yields_same intro: kinv_yields)

lemma moves_pended_but:
  assumes "kinv s" "moves t L s s'" "pended s"
  shows "pended_but t s'"
  unfolding pended_but_def
proof (intro allI impI)
  fix x assume x: "x < configNUMBER_OF_CORES"
  then have "runs s x \<or> pendsv s x" using assms(3) unfolding pended_def by blast
  then show "runs s' x \<or> pendsv s' x \<or> cur s' x = t \<and> runstate s' t = int x"
    using assms(2) by (auto simp: moves_def quiet_def runs_def cur_def)
qed

lemma pended_imp_at: "pended s \<Longrightarrow> pended_at c s"
  by (auto simp: pended_def pended_at_def)

lemma pended_at_yields:
  "kinv s \<Longrightarrow> yields s s' \<Longrightarrow> pended_at c s \<Longrightarrow> pended_at c s'"
  using runs_yields yields_mono(1,2) unfolding pended_at_def by blast

section \<open>Critical sections\<close>

lemma enter_eq: "xSchedulerRunning s \<Longrightarrow> uxCriticalNestings s c = 0 \<Longrightarrow> vTaskEnterCritical c s = set_nesting c 1 s"
  by (simp add: vTaskEnterCritical_def)

lemma stable_enter:
  assumes "stable s" "c < configNUMBER_OF_CORES"
  shows "vTaskEnterCritical c s = set_nesting c 1 s" "basic (set_nesting c 1 s)" "pended (set_nesting c 1 s)"
    "uxSchedulerSuspended (set_nesting c 1 s) = 0" "xPendedTicks (set_nesting c 1 s) = 0" "nestings c 1 (set_nesting c 1 s)"
proof -
  have s: "basic s" "pended s" "uxSchedulerSuspended s = 0" "xPendedTicks s = 0" "nestings c 0 s"
    using assms unfolding stable_iff [OF assms(2)] by simp_all
  have "uxCriticalNestings s c = 0" "xSchedulerRunning s" using s(1,5) assms(2) by (auto simp: nestings_def basic_def)
  then show "vTaskEnterCritical c s = set_nesting c 1 s" by (rule enter_eq [rotated])
  show "basic (set_nesting c 1 s)" "pended (set_nesting c 1 s)" "uxSchedulerSuspended (set_nesting c 1 s) = 0"
    "xPendedTicks (set_nesting c 1 s) = 0" "nestings c 1 (set_nesting c 1 s)"
    using s by (simp_all add: set_nesting_def pended_def runs_def cur_def nestings_def)
qed

lemma stable_exit:
  assumes "basic s" "pended_at c s" "uxSchedulerSuspended s = 0" "xPendedTicks s = 0" "nestings c 1 s"
    "c < configNUMBER_OF_CORES"
  shows "stable (vTaskExitCritical c s)"
proof -
  let ?s = "set_nesting c 0 s"
  have n: "uxCriticalNestings s c = 1" using assms(5,6) unfolding nestings_def by auto
  have eq: "vTaskExitCritical c s = (if xYieldPendings s c then portYIELD c ?s else ?s)"
    using assms(1) n by (simp add: vTaskExitCritical_def basic_def set_nesting_def)
  have b: "basic (vTaskExitCritical c s)" unfolding eq using assms(1) by (simp add: set_nesting_def portYIELD_def)
  have "pended (vTaskExitCritical c s)"
    using assms(2) unfolding eq pended_def pended_at_def
    by (auto simp: set_nesting_def portYIELD_def runs_def cur_def)
  moreover have "nestings c 0 (vTaskExitCritical c s)"
    using assms(5) unfolding eq nestings_def by (auto simp: set_nesting_def portYIELD_def)
  ultimately show ?thesis using b assms(3,4) unfolding stable_iff [OF assms(6)]
    by (simp add: eq) (simp add: set_nesting_def portYIELD_def)
qed

text \<open>A critical section from one stable state to the next.\<close>

lemma critical_ok:
  assumes "stable s" "c < configNUMBER_OF_CORES"
    and "\<And>s0. basic s0 \<Longrightarrow> pended s0 \<Longrightarrow> uxSchedulerSuspended s0 = 0 \<Longrightarrow> xPendedTicks s0 = 0 \<Longrightarrow> nestings c 1 s0 \<Longrightarrow>
      s0 = set_nesting c 1 s \<Longrightarrow>
      ensures (f s0) (\<lambda>(r, s'). P r s' \<and> basic s' \<and> pended_at c s' \<and>
        uxSchedulerSuspended s' = 0 \<and> xPendedTicks s' = 0 \<and> nestings c 1 s')"
    and "\<And>r s'. P r s' \<Longrightarrow> Q r (vTaskExitCritical c s')"
  shows "ensures (critical c f s) (\<lambda>(r, s'). Q r s' \<and> stable s')"
  unfolding critical_def stable_enter(1) [OF assms(1,2)]
proof (rule ensures_bind [OF assms(3)])
  show "ensures (case x of (r, s') \<Rightarrow> Inr (r, vTaskExitCritical c s')) (\<lambda>(r, s'). Q r s' \<and> stable s')"
    if "case x of (r, s') \<Rightarrow> P r s' \<and> basic s' \<and> pended_at c s' \<and>
        uxSchedulerSuspended s' = 0 \<and> xPendedTicks s' = 0 \<and> nestings c 1 s'" for x
    using that assms(4) stable_exit assms(2) by auto
qed (rule stable_enter [OF assms(1,2)] refl)+

section \<open>Suspending and resuming\<close>

text \<open>A task that can be suspended or deleted: it exists, and is not an idle task.\<close>

definition live :: "kernel \<Rightarrow> nat \<Rightarrow> bool" where
  "live s t \<longleftrightarrow> stateContainer (tcb s t) \<notin> {None, Some TerminationL} \<and> \<not> idle_task s t"

text \<open>The task a handle stands for.\<close>

definition target :: "nat \<Rightarrow> ptr \<Rightarrow> kernel \<Rightarrow> nat" where
  "target c h s = (case h of None \<Rightarrow> cur s c | Some t \<Rightarrow> t)"

lemma handle_ok: "kinv s \<Longrightarrow> c < configNUMBER_OF_CORES \<Longrightarrow> prvGetTCBFromHandle c h s = Inr (target c h s)"
  by (simp add: prvGetTCBFromHandle_def target_def current_eq split: option.splits)

lemma target_cong: "cur s' = cur s \<Longrightarrow> target c h s' = target c h s"
  by (cases h) (simp_all add: target_def)

lemma target_nesting [simp]: "target c h (set_nesting d n s) = target c h s"
  by (simp add: target_def set_nesting_def cur_def split: option.splits)

text \<open>How suspension and deletion make a running task leave its core.\<close>

lemma leave_core_ok:
  assumes "kinv s" "pended_but t s" "settled s t" "c < configNUMBER_OF_CORES" "uxCriticalNestings s c \<noteq> 0"
  shows "ensures (if taskTASK_IS_RUNNING t s then
      if runstate s t = int c then Inr (r, vTaskYieldWithinAPI c s)
      else bindE (prvYieldCore c (nat (runstate s t)) s) (\<lambda>s'. Inr (r, s'))
    else Inr (r, s)) (\<lambda>(r', s'). r' = r \<and> yields s s' \<and> pended_at c s')"
proof (cases "taskTASK_IS_RUNNING t s")
  case True
  then obtain x where x: "x < configNUMBER_OF_CORES" "runstate s t = int x" "cur s x = t"
    using runs_somewhere [OF assms(1) _ assms(3)] by blast
  have only: "y = x" if "y < configNUMBER_OF_CORES" "cur s y = t \<and> runstate s t = int y" for y
    using that x by simp
  show ?thesis
  proof (cases "x = c")
    case here: True
    have "pended_at c (set_yield_pending c True s)"
      using assms(2) only here unfolding pended_at_def pended_but_def
      by (auto simp: set_yield_pending_def runs_def cur_def)
    then show ?thesis using True x here assms(5) by (simp add: vTaskYieldWithinAPI_def)
  next
    case False
    have "pended_at c s'" if y: "yields s s'" and r: "runstate s' (cur s x) = taskTASK_SCHEDULED_TO_YIELD" for s'
      unfolding pended_at_def
    proof (intro allI impI)
      fix z assume z: "z < configNUMBER_OF_CORES"
      show "runs s' z \<or> pendsv s' z \<or> z = c \<and> xYieldPendings s' c"
      proof (cases "z = x")
        case True
        have "runstate s' t \<noteq> runstate s t" using r x by (simp add: taskTASK_SCHEDULED_TO_YIELD_def)
        then obtain w where "w < configNUMBER_OF_CORES" "pxCurrentTCBs s w = Some t" "pendsv s' w"
          using yields_mono(3) [OF y, of t] by auto
        then show ?thesis using True x kinv_cur_ne [OF assms(1), of w x] by (auto simp: cur_def)
      next
        case ne: False
        then have "runs s z \<or> pendsv s z" using assms(2) z only unfolding pended_but_def by blast
        then show ?thesis using runs_yields [OF assms(1) y z] yields_mono(1) [OF y] by blast
      qed
    qed
    then show ?thesis using True x False
      by simp (rule ensures_bind [OF prvYieldCore_ok [OF assms(1) x(1), of c]], use x in auto)
  qed
next
  case False
  have "\<not> runstate s t = int x" if "x < configNUMBER_OF_CORES" for x
    using False that by (auto simp: taskTASK_IS_RUNNING_def)
  then have "pended_at c s" using assms(2) unfolding pended_at_def pended_but_def by blast
  with False show ?thesis by simp
qed

text \<open>Taking a task out of the lists it is in.\<close>

lemma take_out_ok:
  assumes "kinv s" "stateContainer (tcb s t) = Some L" "\<not> idle_task s t" "L \<noteq> TerminationL"
  shows "ensures (bindE (state_remove t s) (event_remove_if_waiting t))
    (\<lambda>s'. kinv s' \<and> moves t None s s' \<and> eventContainer (tcb s' t) = None)"
proof (rule ensures_bind [OF state_remove_ok [OF assms]])
  fix s1 assume s1: "kinv s1 \<and> moves t None s s1"
  then have n: "stateContainer (tcb s1 t) = None" by (auto dest: moves_container)
  show "ensures (event_remove_if_waiting t s1) (\<lambda>s'. kinv s' \<and> moves t None s s' \<and> eventContainer (tcb s' t) = None)"
    by (rule ensures_mono [OF event_remove_ok [of s1 t]]) (use s1 n moves_trans in auto)
qed

lemma suspend_insert:
  assumes "kinv s" "stateContainer (tcb s t) = None" "settled s t"
  shows "kinv (state_insert_end SuspendedL t s)" "moves t (Some SuspendedL) s (state_insert_end SuspendedL t s)"
  using assms by (auto intro: kinv_insert_end)
    (simp add: state_insert_end_def prim_defs moves_def quiet_def)

lemma clear_waiting:
  "neutral (\<lambda>x. x\<lparr>ucNotifyState := n\<rparr>)"
  "moves t (stateContainer (tcb s t)) s (upd_tcb u (\<lambda>x. x\<lparr>ucNotifyState := n\<rparr>) s)"
  by (simp_all add: neutral_def moves_def quiet_def upd_tcb_def)

lemma suspend_removed_ok:
  assumes "kinv s2" "moves t None s s2" "settled s t" "eventContainer (tcb s2 t) = None"
  shows "kinv (suspend_removed t s2) \<and> moves t (Some SuspendedL) s (suspend_removed t s2) \<and>
    eventContainer (tcb (suspend_removed t s2) t) = None \<and> ucNotifyState (tcb (suspend_removed t s2) t) \<noteq> Waiting"
proof -
  have n: "stateContainer (tcb s2 t) = None" "settled s2 t"
    using assms moves_settled by (auto dest: moves_container)
  let ?s3 = "state_insert_end SuspendedL t s2"
  note i = suspend_insert [OF assms(1) n]
  have c3: "stateContainer (tcb ?s3 t) = Some SuspendedL" using i(2) by (auto dest: moves_container)
  have "kinv (suspend_removed t s2)" using i(1) by (simp add: suspend_removed_def Let_def kinv_neutral clear_waiting(1))
  moreover have "moves t (Some SuspendedL) s2 (suspend_removed t s2)"
    using i(2) moves_trans [OF i(2) clear_waiting(2) [of t ?s3 t NotWaiting, unfolded c3]]
    by (simp add: suspend_removed_def Let_def)
  moreover have "eventContainer (tcb (suspend_removed t s2) t) = None" "ucNotifyState (tcb (suspend_removed t s2) t) \<noteq> Waiting"
    using assms(4) by (simp_all add: suspend_removed_def Let_def state_insert_end_def prim_defs)
  ultimately show ?thesis using moves_trans assms(2) by blast
qed

text \<open>What a call inside a critical section hands over to the end of the section.\<close>

definition section_end :: "nat \<Rightarrow> kernel \<Rightarrow> bool" where
  "section_end c s \<longleftrightarrow> basic s \<and> pended_at c s \<and> uxSchedulerSuspended s = 0 \<and> xPendedTicks s = 0 \<and> nestings c 1 s"

definition section_begin :: "nat \<Rightarrow> kernel \<Rightarrow> bool" where
  "section_begin c s \<longleftrightarrow> basic s \<and> pended s \<and> uxSchedulerSuspended s = 0 \<and> xPendedTicks s = 0 \<and> nestings c 1 s"

lemma critical_section:
  assumes "stable s" "c < configNUMBER_OF_CORES"
    and "\<And>s0. section_begin c s0 \<Longrightarrow> tcb s0 = tcb s \<Longrightarrow> cur s0 = cur s \<Longrightarrow> xIdleTaskHandles s0 = xIdleTaskHandles s \<Longrightarrow>
      ensures (f s0) (\<lambda>(r, s'). P r (tcb s') \<and> section_end c s')"
  shows "ensures (critical c f s) (\<lambda>(r, s'). P r (tcb s') \<and> stable s')"
proof (rule critical_ok [OF assms(1,2), where P = "\<lambda>r s'. P r (tcb s')"])
  fix s0 assume "basic s0" "pended s0" "uxSchedulerSuspended s0 = 0" "xPendedTicks s0 = 0" "nestings c 1 s0"
    "s0 = set_nesting c 1 s"
  then show "ensures (f s0) (\<lambda>(r, s'). P r (tcb s') \<and> basic s' \<and> pended_at c s' \<and>
        uxSchedulerSuspended s' = 0 \<and> xPendedTicks s' = 0 \<and> nestings c 1 s')"
    using assms(3) [of s0] unfolding section_end_def
    by (simp add: section_begin_def set_nesting_def cur_def fun_eq_iff)
qed (simp add: vTaskExitCritical_def set_nesting_def portYIELD_def Let_def)

lemma section_beginD:
  "section_begin c s \<Longrightarrow> kinv s"
  "section_begin c s \<Longrightarrow> c < configNUMBER_OF_CORES \<Longrightarrow> uxCriticalNestings s c \<noteq> 0"
  "section_begin c s \<Longrightarrow> xSchedulerRunning s"
  by (auto simp: section_begin_def basic_def nestings_def)

lemma section_end_moves:
  assumes "section_begin c s" "kinv s1" "moves t L s s1" "stateContainer (tcb s t) \<noteq> None"
    "L \<notin> {Some DelayedL1, Some DelayedL2}" "yields s1 s'" "pended_at c s'"
  shows "section_end c s'"
proof -
  have "basic s1" using assms by (auto simp: section_begin_def intro: basic_moves)
  then show ?thesis using assms basic_yields
    by (auto simp: section_end_def section_begin_def yields_same nestings_def moves_def quiet_def)
qed

text \<open>What suspension does to the state containers and to the suspended task.\<close>

definition parked :: "(nat \<Rightarrow> tcb_rec) \<Rightarrow> nat \<Rightarrow> (nat \<Rightarrow> tcb_rec) \<Rightarrow> bool" where
  "parked T t T' \<longleftrightarrow> stateContainer (T' t) = Some SuspendedL \<and> eventContainer (T' t) = None \<and>
     ucNotifyState (T' t) \<noteq> Waiting \<and> (\<forall>u. u \<noteq> t \<longrightarrow> stateContainer (T' u) = stateContainer (T u)) \<and>
     (\<forall>u. uxPriority (T' u) = uxPriority (T u) \<and> uxCoreAffinityMask (T' u) = uxCoreAffinityMask (T u))"

lemma suspend_leave_ok:
  assumes "section_begin c s" "c < configNUMBER_OF_CORES" "stateContainer (tcb s t) \<noteq> None"
    "kinv s4 \<and> moves t (Some SuspendedL) s s4 \<and> eventContainer (tcb s4 t) = None \<and> ucNotifyState (tcb s4 t) \<noteq> Waiting"
  shows "ensures (suspend_leave c t s4) (\<lambda>(r, s'). parked (tcb s) t (tcb s') \<and> section_end c s')"
proof -
  let ?s5 = "prvResetNextTaskUnblockTime s4"
  have k5: "kinv ?s5" using assms(4) by (simp add: kinv_reset)
  have c4: "stateContainer (tcb s4 t) = Some SuspendedL" using assms(4) by (auto dest: moves_container)
  have m5: "moves t (Some SuspendedL) s ?s5"
    using moves_trans [OF _ reset_same [of t s4, unfolded c4]] assms(4) by blast
  have e5: "eventContainer (tcb ?s5 t) = None" "ucNotifyState (tcb ?s5 t) \<noteq> Waiting"
    using assms(4) by (simp_all add: prvResetNextTaskUnblockTime_def)
  have p: "pended s" using assms(1) by (simp add: section_begin_def)
  have "settled ?s5 t" using kinv_settled [OF k5, of t] m5 by (simp add: moves_def)
  moreover have "uxCriticalNestings ?s5 c \<noteq> 0"
    using section_beginD(2) [OF assms(1,2)] m5 by (simp add: moves_def quiet_def)
  ultimately have leave: "ensures (if taskTASK_IS_RUNNING t ?s5 then
        if runstate ?s5 t = int c then Inr ((), vTaskYieldWithinAPI c ?s5)
        else bindE (prvYieldCore c (nat (runstate ?s5 t)) ?s5) (\<lambda>s'. Inr ((), s'))
      else Inr ((), ?s5)) (\<lambda>(r', s'). r' = () \<and> yields ?s5 s' \<and> pended_at c s')"
    by (rule leave_core_ok [OF k5 moves_pended_but [OF section_beginD(1) [OF assms(1)] m5 p] _ assms(2)])
  have run: "xSchedulerRunning s4" using assms(4) section_beginD(3) [OF assms(1)] by (simp add: moves_def quiet_def)
  show ?thesis unfolding suspend_leave_def Let_def if_P [OF run]
  proof (rule ensures_mono [OF leave])
    fix r assume r: "case r of (r', s') \<Rightarrow> r' = () \<and> yields ?s5 s' \<and> pended_at c s'"
    then obtain s' where s': "r = ((), s')" "yields ?s5 s'" "pended_at c s'" by (cases r) auto
    have "section_end c s'" by (rule section_end_moves [OF assms(1) k5 m5 assms(3) _ s'(2,3)]) simp
    moreover have "parked (tcb s) t (tcb s')"
      using m5 e5 by (simp add: parked_def yields_same [OF s'(2)] moves_def quiet_def)
    ultimately show "case r of (r, s') \<Rightarrow> parked (tcb s) t (tcb s') \<and> section_end c s'" by (simp add: s'(1))
  qed
qed

lemma vTaskSuspend_ok:
  assumes "stable s" "c < configNUMBER_OF_CORES" "live s (target c h s)"
  shows "ensures (vTaskSuspend c h s) (\<lambda>(_, s'). parked (tcb s) (target c h s) (tcb s') \<and> stable s')"
  unfolding vTaskSuspend_def
proof (rule critical_section [OF assms(1,2)])
  fix s0 assume s0: "section_begin c s0" "tcb s0 = tcb s" "cur s0 = cur s" "xIdleTaskHandles s0 = xIdleTaskHandles s"
  let ?t = "target c h s"
  note k = section_beginD(1) [OF s0(1)]
  obtain L where L: "stateContainer (tcb s0 ?t) = Some L" "\<not> idle_task s0 ?t" "L \<noteq> TerminationL"
    using assms(3) by (auto simp: live_def s0(2,4) idle_task_def)
  have h: "prvGetTCBFromHandle c h s0 = Inr ?t" using handle_ok [OF k assms(2), of h] target_cong [OF s0(3)] by simp
  have st: "settled s0 ?t" using kinv_settled [OF k, of ?t] L(1) by simp
  have "ensures (bindE (bindE (state_remove ?t s0) (event_remove_if_waiting ?t))
      (\<lambda>s2. suspend_leave c ?t (suspend_removed ?t s2))) (\<lambda>(r, s'). parked (tcb s) ?t (tcb s') \<and> section_end c s')"
    by (rule ensures_bind [OF take_out_ok [OF k L]])
      (use suspend_leave_ok [OF s0(1) assms(2)] suspend_removed_ok [OF _ _ st] L(1) s0(2) in auto)
  then show "ensures (bindE (prvGetTCBFromHandle c h s0) (\<lambda>t. bindE (state_remove t s0) (\<lambda>s1.
       bindE (event_remove_if_waiting t s1) (\<lambda>s2. suspend_leave c t (suspend_removed t s2)))))
      (\<lambda>(r, s'). parked (tcb s) ?t (tcb s') \<and> section_end c s')"
    unfolding h bindE_simps bindE_assoc .
qed

lemma suspended_not_idle: "kinv s \<Longrightarrow> prvTaskIsTaskSuspended t s \<Longrightarrow> \<not> idle_task s t"
  using idle_ready by (auto simp: prvTaskIsTaskSuspended_def split: if_splits)

lemma pended_imp_section_end: "section_begin c s \<Longrightarrow> section_end c s"
  by (simp add: section_begin_def section_end_def pended_imp_at)

text \<open>Task \<open>t\<close> is ready, everything else is where it was.\<close>

definition readied :: "(nat \<Rightarrow> tcb_rec) \<Rightarrow> nat \<Rightarrow> (nat \<Rightarrow> tcb_rec) \<Rightarrow> bool" where
  "readied T t T' \<longleftrightarrow> (\<forall>u. stateContainer (T' u) = (if u = t then Some (ReadyL (uxPriority (T t))) else stateContainer (T u))) \<and>
     (\<forall>u. uxPriority (T' u) = uxPriority (T u) \<and> uxCoreAffinityMask (T' u) = uxCoreAffinityMask (T u))"

lemma ready_task_ok:
  assumes "section_begin c s" "stateContainer (tcb s t) = Some L" "\<not> idle_task s t" "L \<noteq> TerminationL"
  shows "ensures (bindE (state_remove t s) (\<lambda>s1. bindE (prvAddTaskToReadyList t s1) (prvYieldForTask c t)))
    (\<lambda>s'. readied (tcb s) t (tcb s') \<and> section_end c s')"
proof -
  note k = section_beginD(1) [OF assms(1)]
  have "ensures (bindE (bindE (state_remove t s) (prvAddTaskToReadyList t)) (prvYieldForTask c t))
      (\<lambda>s'. readied (tcb s) t (tcb s') \<and> section_end c s')"
  proof (rule ensures_bind [OF requeue_ok [OF k assms(2-4)]])
    fix s2 assume s2: "kinv s2 \<and> moves t (Some (ReadyL (prio s t))) s s2"
    have p: "pended s2" using s2 assms(1) by (auto simp: section_begin_def intro: pended_moves)
    show "ensures (prvYieldForTask c t s2) (\<lambda>s'. readied (tcb s) t (tcb s') \<and> section_end c s')"
    proof (rule ensures_mono [OF prvYieldForTask_ok])
      fix s3 assume y: "yields s2 s3"
      have "pended_at c s3" using pended_yields [OF _ y p] s2 by (simp add: pended_imp_at)
      then have "section_end c s3"
        using s2 assms(2) by (intro section_end_moves [OF assms(1) _ _ _ _ y]) auto
      then show "readied (tcb s) t (tcb s3) \<and> section_end c s3"
        using s2 by (simp add: readied_def yields_same [OF y] moves_def quiet_def)
    qed (use s2 in simp)
  qed
  then show ?thesis by (simp add: bindE_assoc)
qed

lemma vTaskResume_ok:
  assumes "stable s" "c < configNUMBER_OF_CORES"
  shows "ensures (vTaskResume c (Some t) s) (\<lambda>(_, s'). (if prvTaskIsTaskSuspended t s
    then readied (tcb s) t (tcb s') else tcb s' = tcb s) \<and> stable s')"
  unfolding vTaskResume_def option.case
proof (rule critical_section [OF assms])
  fix s0 assume s0: "section_begin c s0" "tcb s0 = tcb s"
  have same: "prvTaskIsTaskSuspended t s0 = prvTaskIsTaskSuspended t s"
    by (simp add: s0(2) prvTaskIsTaskSuspended_def)
  let ?Q = "\<lambda>s'. (if prvTaskIsTaskSuspended t s then readied (tcb s) t (tcb s') else tcb s' = tcb s) \<and> section_end c s'"
  show "ensures (if prvTaskIsTaskSuspended t s0 then bindE (state_remove t s0) (\<lambda>s1. bindE (prvAddTaskToReadyList t s1)
      (\<lambda>s2. bindE (prvYieldForTask c t s2) (\<lambda>s3. Inr ((), s3)))) else Inr ((), s0)) (\<lambda>(r, s'). ?Q s')"
  proof (cases "prvTaskIsTaskSuspended t s0")
    case True
    then have L: "stateContainer (tcb s0 t) = Some SuspendedL" by (simp add: prvTaskIsTaskSuspended_def split: if_splits)
    have "ensures (bindE (state_remove t s0) (\<lambda>s1. bindE (prvAddTaskToReadyList t s1) (prvYieldForTask c t))) ?Q"
      by (rule ensures_mono [OF ready_task_ok [OF s0(1) L suspended_not_idle [OF section_beginD(1) [OF s0(1)] True]]])
        (use True same s0(2) in simp_all)
    from ensures_bind [OF this, of "\<lambda>s3. Inr ((), s3)" "\<lambda>(r, s'). ?Q s'"] True
    show ?thesis by (simp add: bindE_assoc)
  next
    case False
    then show ?thesis using pended_imp_section_end [OF s0(1)] s0(2) by (simp add: same)
  qed
qed

section \<open>Deletion\<close>

lemma terminate_ok:
  fixes n :: nat
  assumes "basic s" "pended s" "stateContainer (tcb s t) \<noteq> None" "kinv s2" "moves t None s s2"
  defines "s5 \<equiv> (state_insert_end TerminationL t (s2\<lparr>uxTaskNumber := n\<rparr>))
      \<lparr>uxDeletedTasksWaitingCleanUp := uxDeletedTasksWaitingCleanUp s2 + 1\<rparr>"
  shows "basic s5" "pended_but t s5" "settled s5 t"
    "\<forall>u. stateContainer (tcb s5 u) = (if u = t then Some TerminationL else stateContainer (tcb s u))"
    "uxSchedulerSuspended s5 = uxSchedulerSuspended s" "xPendedTicks s5 = xPendedTicks s"
    "uxCriticalNestings s5 = uxCriticalNestings s" "runstate s5 t = runstate s t"
    "\<forall>u. prio s5 u = prio s u \<and> uxCoreAffinityMask (tcb s5 u) = uxCoreAffinityMask (tcb s u)"
proof -
  have k: "kinv s" using assms(1) by (simp add: basic_def)
  have st: "settled s2 t" using moves_settled [OF assms(5)] kinv_settled [OF k assms(3)] by simp
  have n: "stateContainer (tcb s2 t) = None" using assms(5) by (auto dest: moves_container)
  have k2: "kinv (s2\<lparr>uxTaskNumber := n\<rparr>)" using assms(4) by simp
  have "settled (s2\<lparr>uxTaskNumber := n\<rparr>) t" using st by (simp add: settled_def cur_def)
  then have k5: "kinv s5" using n unfolding s5_def by (simp add: kinv_insert_end [OF k2])
  show c5: "\<forall>u. stateContainer (tcb s5 u) = (if u = t then Some TerminationL else stateContainer (tcb s u))"
    using assms(5) by (simp add: s5_def state_insert_end_def prim_defs moves_def)
  then show "settled s5 t" using kinv_settled [OF k5, of t] by simp
  have same: "pxCurrentTCBs s5 = pxCurrentTCBs s" "xTickCount s5 = xTickCount s" "pendsv s5 = pendsv s"
    "pxDelayedTaskList s5 = pxDelayedTaskList s" "pxOverflowDelayedTaskList s5 = pxOverflowDelayedTaskList s"
    "xStateListItem (tcb s5 u) = xStateListItem (tcb s u)" "prio s5 u = prio s u" "runstate s5 u = runstate s u"
    "xSchedulerRunning s5 = xSchedulerRunning s"
    "lists s5 TerminationL = lists s TerminationL @ [t]" "set (lists s5 PendingReadyL) \<subseteq> set (lists s PendingReadyL)"
    "uxDeletedTasksWaitingCleanUp s5 = uxDeletedTasksWaitingCleanUp s + 1" for u
    using assms(5) by (simp_all add: s5_def state_insert_end_def prim_defs moves_def quiet_def)
  show "uxSchedulerSuspended s5 = uxSchedulerSuspended s" "xPendedTicks s5 = xPendedTicks s"
    "uxCriticalNestings s5 = uxCriticalNestings s" "runstate s5 t = runstate s t"
    "\<forall>u. prio s5 u = prio s u \<and> uxCoreAffinityMask (tcb s5 u) = uxCoreAffinityMask (tcb s u)"
    using assms(5) by (simp_all add: s5_def state_insert_end_def prim_defs moves_def quiet_def)
  have "addressed s" "ontime s" using assms(1) by (simp_all add: basic_def)
  then have "addressed s5" "ontime s5"
    using c5 assms(3) kinv_delay_lists [OF k] by (auto simp: addressed_def ontime_def same)
  then show "basic s5" using assms(1) k5 same(10,11) by (simp add: basic_def same)
  show "pended_but t s5"
    using assms(2) c5 unfolding pended_but_def pended_def by (auto simp: runs_def cur_def same)
qed

text \<open>The result is the TCB that was freed at once; a running task frees its TCB through the idle task.\<close>

definition deleted :: "kernel \<Rightarrow> nat \<Rightarrow> ptr \<Rightarrow> (nat \<Rightarrow> tcb_rec) \<Rightarrow> bool" where
  "deleted s t p T \<longleftrightarrow>
     (let dying = taskTASK_IS_RUNNING_OR_SCHEDULED_TO_YIELD t s in
      stateContainer (T t) = (if dying then Some TerminationL else None) \<and> p = (if dying then None else Some t) \<and>
      (\<forall>u. u \<noteq> t \<longrightarrow> stateContainer (T u) = stateContainer (tcb s u)) \<and>
      (\<forall>u. uxPriority (T u) = prio s u \<and> uxCoreAffinityMask (T u) = uxCoreAffinityMask (tcb s u)))"

lemma delete_running_ok:
  assumes "section_begin c s" "c < configNUMBER_OF_CORES" "stateContainer (tcb s t) \<noteq> None" "kinv s2" "moves t None s s2"
    "runstate s t \<noteq> taskTASK_NOT_RUNNING"
  shows "ensures (delete_removed c t s2) (\<lambda>(p, s'). deleted s t p (tcb s') \<and> section_end c s')"
proof -
  let ?s5 = "(state_insert_end TerminationL t (s2\<lparr>uxTaskNumber := uxTaskNumber s2 + 1\<rparr>))
    \<lparr>uxDeletedTasksWaitingCleanUp := uxDeletedTasksWaitingCleanUp s2 + 1\<rparr>"
  have b: "basic s" "pended s" using assms(1) by (simp_all add: section_begin_def)
  note e = terminate_ok [OF b assms(3-5), of "uxTaskNumber s2 + 1"]
  have k5: "kinv ?s5" using e(1) by (simp add: basic_def)
  have cond: "xSchedulerRunning s2" "runstate s2 t \<noteq> taskTASK_NOT_RUNNING"
    using assms(5,6) section_beginD(3) [OF assms(1)] by (simp_all add: moves_def quiet_def)
  have "uxCriticalNestings ?s5 c \<noteq> 0" unfolding e(7) by (rule section_beginD(2) [OF assms(1,2)])
  from leave_core_ok [OF k5 e(2,3) assms(2) this, of "None :: ptr"]
  have "ensures (if taskTASK_IS_RUNNING t ?s5 then
      if runstate ?s5 t = int c then Inr (None, vTaskYieldWithinAPI c ?s5)
      else bindE (prvYieldCore c (nat (runstate ?s5 t)) ?s5) (\<lambda>s'. Inr (None, s'))
    else Inr (None, ?s5)) (\<lambda>(p, s'). deleted s t p (tcb s') \<and> section_end c s')"
  proof (rule ensures_mono)
    fix r :: "ptr \<times> kernel" assume "case r of (r', s') \<Rightarrow> r' = None \<and> yields ?s5 s' \<and> pended_at c s'"
    then obtain s' where r: "r = (None, s')" "yields ?s5 s'" "pended_at c s'" by (cases r) auto
    have "section_end c s'" using e(5-7) r(3) assms(1) basic_yields [OF e(1) r(2)]
      by (simp add: section_end_def section_begin_def yields_same [OF r(2)] nestings_def)
    moreover have "deleted s t None (tcb s')" using e(4,9) assms(6)
      by (simp add: deleted_def taskTASK_IS_RUNNING_OR_SCHEDULED_TO_YIELD_def yields_same [OF r(2)])
    ultimately show "case r of (p, s') \<Rightarrow> deleted s t p (tcb s') \<and> section_end c s'" by (simp add: r(1))
  qed
  moreover have "uxDeletedTasksWaitingCleanUp (state_insert_end TerminationL t (s2\<lparr>uxTaskNumber := n\<rparr>)) =
      uxDeletedTasksWaitingCleanUp s2" for n
    by (simp add: state_insert_end_def prim_defs)
  ultimately show ?thesis using cond
    by (simp add: delete_removed_def Let_def taskTASK_IS_RUNNING_OR_SCHEDULED_TO_YIELD_def cong: if_cong)
qed

lemma delete_idle_ok:
  assumes "section_begin c s" "stateContainer (tcb s t) \<noteq> None" "kinv s2" "moves t None s s2"
    "runstate s t = taskTASK_NOT_RUNNING"
  shows "ensures (delete_removed c t s2) (\<lambda>(p, s'). deleted s t p (tcb s') \<and> section_end c s')"
proof -
  let ?s' = "prvResetNextTaskUnblockTime (s2\<lparr>uxTaskNumber := uxTaskNumber s2 + 1,
    uxCurrentNumberOfTasks := dec32 (uxCurrentNumberOfTasks s2)\<rparr>)"
  have cond: "runstate s2 t = taskTASK_NOT_RUNNING" using assms(4,5) by (simp add: moves_def)
  have b: "basic s2" by (rule basic_moves [OF _ assms(3,4,2)]) (use assms(1) in \<open>simp_all add: section_begin_def\<close>)
  have "basic (s2\<lparr>uxTaskNumber := uxTaskNumber s2 + 1, uxCurrentNumberOfTasks := dec32 (uxCurrentNumberOfTasks s2)\<rparr>)"
    using b by simp
  then have b': "basic ?s'"
    by (simp add: basic_def kinv_reset) (simp add: prvResetNextTaskUnblockTime_def ontime_def addressed_def)
  have "pended_but t s2"
    by (rule moves_pended_but [OF section_beginD(1) [OF assms(1)] assms(4)]) (use assms(1) in \<open>simp_all add: section_begin_def\<close>)
  then have "pended_at c s2" using cond unfolding pended_but_def pended_at_def by (auto simp: taskTASK_NOT_RUNNING_def)
  then have "pended_at c ?s'" by (simp add: prvResetNextTaskUnblockTime_def pended_at_def runs_def cur_def)
  then have "section_end c ?s'" using b' assms(1,4)
    by (simp add: section_end_def section_begin_def) (simp add: prvResetNextTaskUnblockTime_def moves_def quiet_def nestings_def)
  moreover have "deleted s t (Some t) (tcb ?s')"
    using assms(4,5) by (simp add: deleted_def taskTASK_IS_RUNNING_OR_SCHEDULED_TO_YIELD_def
        prvResetNextTaskUnblockTime_def moves_def quiet_def)
  ultimately show ?thesis using cond
    by (simp add: delete_removed_def Let_def taskTASK_IS_RUNNING_OR_SCHEDULED_TO_YIELD_def)
qed

lemma vTaskDelete_ok:
  assumes "stable s" "c < configNUMBER_OF_CORES" "live s (target c h s)"
  shows "ensures (vTaskDelete c h s) (\<lambda>(p, s'). deleted s (target c h s) p (tcb s') \<and> stable s')"
  unfolding vTaskDelete_def
proof (rule critical_section [OF assms(1,2)])
  fix s0 assume s0: "section_begin c s0" "tcb s0 = tcb s" "cur s0 = cur s" "xIdleTaskHandles s0 = xIdleTaskHandles s"
  let ?t = "target c h s"
  note k = section_beginD(1) [OF s0(1)]
  obtain L where L: "stateContainer (tcb s0 ?t) = Some L" "\<not> idle_task s0 ?t" "L \<noteq> TerminationL"
    using assms(3) by (auto simp: live_def s0(2,4) idle_task_def)
  have h: "prvGetTCBFromHandle c h s0 = Inr ?t" using handle_ok [OF k assms(2), of h] target_cong [OF s0(3)] by simp
  have d: "deleted s0 = deleted s" by (simp add: deleted_def fun_eq_iff s0(2) taskTASK_IS_RUNNING_OR_SCHEDULED_TO_YIELD_def)
  have "ensures (delete_removed c ?t s2) (\<lambda>(p, s'). deleted s ?t p (tcb s') \<and> section_end c s')"
    if "kinv s2 \<and> moves ?t None s0 s2" for s2
    using delete_running_ok [OF s0(1) assms(2), of ?t s2] delete_idle_ok [OF s0(1), of ?t s2] that L(1)
    by (cases "runstate s0 ?t = taskTASK_NOT_RUNNING") (simp_all add: d)
  then have "ensures (bindE (bindE (state_remove ?t s0) (event_remove_if_waiting ?t)) (delete_removed c ?t))
      (\<lambda>(p, s'). deleted s ?t p (tcb s') \<and> section_end c s')"
    by (intro ensures_bind [OF take_out_ok [OF k L]]) auto
  then show "ensures (bindE (prvGetTCBFromHandle c h s0) (\<lambda>t. bindE (state_remove t s0) (\<lambda>s1.
       bindE (event_remove_if_waiting t s1) (delete_removed c t))))
      (\<lambda>(p, s'). deleted s ?t p (tcb s') \<and> section_end c s')"
    unfolding h bindE_simps bindE_assoc .
qed

end
