(* ===== verification/DelayProps.thy ===== *)
theory DelayProps
  imports CallProps
begin

text \<open>
  Delays and the suspension of the scheduler: no tick that arrives while the scheduler is suspended
  is lost, a delay of \<open>n\<close> ticks lets the task sleep for exactly \<open>n\<close> ticks from the count the call
  read, and \<open>xTaskDelayUntil\<close> blocks exactly when the wake time is still ahead, across the wrap of
  the tick count.
\<close>

section \<open>Resuming the scheduler\<close>

lemma pended_ticks_loop_ok:
  assumes "kinv s" "ontime s" "uxSchedulerSuspended s = 0"
  shows "ensures (pended_ticks_loop c n s) (\<lambda>s'. aged n s s')"
proof -
  have "ensures (pended_ticks_loop c n s1) (\<lambda>s'. aged (m + n) s s')" if "aged m s s1" for m s1
    using that
  proof (induction n arbitrary: m s1)
    case (Suc n)
    have s1: "kinv s1" "ontime s1" "uxSchedulerSuspended s1 = 0"
      using Suc.prems assms(3) by (simp_all add: aged_def quiet_def)
    have step: "ensures (pended_ticks_loop c n (if sw then set_yield_pending c True s2 else s2))
        (\<lambda>s'. aged (m + Suc n) s s')" if "ticked s1 s2" for sw s2
    proof -
      have a: "aged (Suc m) s s2" by (rule aged_ticked [OF Suc.prems that])
      have "aged (Suc m) s (set_yield_pending c True s2)"
        by (rule aged_yields [OF a]) simp
      then show ?thesis using a Suc.IH [of "Suc m" s2] Suc.IH [of "Suc m" "set_yield_pending c True s2"]
        by (cases sw) simp_all
    qed
    have "ensures (xTaskIncrementTick c s1) (\<lambda>(sw, s2). ticked s1 s2)"
      by (rule xTaskIncrementTick_ok [OF s1])
    then show ?case using step by (auto intro!: ensures_bind)
  qed simp
  from this [of 0 s] show ?thesis using aged_0 assms by simp
qed

text \<open>The state with the scheduler no longer suspended and no ticks to catch up with.\<close>

definition unsuspended :: "kernel \<Rightarrow> kernel" where
  "unsuspended s = s\<lparr>uxSchedulerSuspended := 0, xPendedTicks := 0\<rparr>"

lemma aged_pended_ticks:
  assumes "aged n (s\<lparr>uxSchedulerSuspended := 0\<rparr>) s1"
  shows "aged n (unsuspended s) (s1\<lparr>xPendedTicks := 0\<rparr>)"
  using assms by (simp add: aged_def unsuspended_def quiet_def)

lemma resume_outermost_ok:
  assumes "kinv s" "ontime s" "uxSchedulerSuspended s = 0" "lists s PendingReadyL = []"
  shows "ensures (resume_outermost c s) (\<lambda>(b, s'). aged (unat (xPendedTicks s)) (unsuspended s) s' \<and> b = xYieldPendings s' c)"
proof (cases "xPendedTicks s > 0")
  case True
  have s: "s\<lparr>uxSchedulerSuspended := 0\<rparr> = s" using assms(3) by simp
  have "ensures (pended_ticks_loop c (unat (xPendedTicks s)) s) (\<lambda>s'. aged (unat (xPendedTicks s)) s s')"
    by (rule pended_ticks_loop_ok [OF assms(1-3)])
  then show ?thesis using True assms(4) aged_pended_ticks [of _ s, unfolded s]
    by (auto simp: resume_outermost_def ensures_def Let_def)
next
  case False
  then have "unsuspended s = s" using assms(3) by (simp add: unsuspended_def word_gt_0)
  then show ?thesis using False assms(4) aged_0 [OF assms(1,2)]
    by (auto simp: resume_outermost_def Let_def word_gt_0)
qed

lemma xTaskResumeAll_ok:
  assumes "kinv s" "ontime s" "uxSchedulerSuspended s = 1" "lists s PendingReadyL = []" "xSchedulerRunning s"
    and "uxCriticalNestings s c = 0" "uxCurrentNumberOfTasks s > 0 \<or> xPendedTicks s = 0"
  shows "ensures (xTaskResumeAll c s) (\<lambda>(b, s'). aged (unat (xPendedTicks s)) (unsuspended s) s' \<and> (b \<longrightarrow> pendsv s' c))"
proof -
  define s1 where "s1 = (set_nesting c 1 s)\<lparr>uxSchedulerSuspended := 0\<rparr>"
  have k1: "kinv s1" "ontime s1" "uxSchedulerSuspended s1 = 0" "lists s1 PendingReadyL = []"
    "xPendedTicks s1 = xPendedTicks s" "uxCurrentNumberOfTasks s1 = uxCurrentNumberOfTasks s"
    using assms by (simp_all add: s1_def) (simp_all add: set_nesting_def ontime_def)
  have body: "ensures (if uxCurrentNumberOfTasks s1 > 0 then resume_outermost c s1 else Inr (False, s1))
      (\<lambda>(b, s'). aged (unat (xPendedTicks s)) (unsuspended s1) s' \<and> (b \<longrightarrow> xYieldPendings s' c))"
  proof (cases "uxCurrentNumberOfTasks s1 > 0")
    case True
    then show ?thesis using resume_outermost_ok [OF k1(1-4), of c] k1(5) by (auto elim!: ensures_mono)
  next
    case False
    then have "xPendedTicks s = 0" using assms(7) k1(6) by simp
    moreover from this have "unsuspended s1 = s1" using k1 by (simp add: unsuspended_def)
    ultimately show ?thesis using False aged_0 [OF k1(1,2)] by simp
  qed
  have fin: "aged n (unsuspended s) (vTaskExitCritical c s') \<and> (xYieldPendings s' c \<longrightarrow> pendsv (vTaskExitCritical c s') c)"
    if a: "aged n (unsuspended s1) s'" for n s'
  proof -
    have n: "uxCriticalNestings s' = (uxCriticalNestings s)(c := 1)" "xSchedulerRunning s'"
      using a assms(5) by (simp_all add: aged_def quiet_def unsuspended_def s1_def set_nesting_def)
    have "(uxCriticalNestings s')(c := 0) = uxCriticalNestings s" using assms(6) by (auto simp: n)
    then have e: "vTaskExitCritical c s' = (let r = s'\<lparr>uxCriticalNestings := uxCriticalNestings s\<rparr> in
        if xYieldPendings s' c then portYIELD c r else r)"
      using n assms(6) by (simp add: vTaskExitCritical_def set_nesting_def Let_def)
    have "aged n (unsuspended s) (s'\<lparr>uxCriticalNestings := uxCriticalNestings s\<rparr>)"
      using a by (simp add: aged_def unsuspended_def s1_def set_nesting_def quiet_def)
    from this aged_yields [OF this yields_portYIELD, of c] show ?thesis
      by (auto simp: e Let_def portYIELD_def)
  qed
  have "ensures (critical c (\<lambda>s0. let s1 = s0\<lparr>uxSchedulerSuspended := dec32 (uxSchedulerSuspended s0)\<rparr> in
      if uxSchedulerSuspended s1 = 0 \<and> uxCurrentNumberOfTasks s1 > 0 then resume_outermost c s1 else Inr (False, s1)) s)
    (\<lambda>(b, s'). aged (unat (xPendedTicks s)) (unsuspended s) s' \<and> (b \<longrightarrow> pendsv s' c))"
  proof -
    have e: "vTaskEnterCritical c s = set_nesting c 1 s" using assms(5,6) by (simp add: enter_eq)
    have d: "dec32 (uxSchedulerSuspended (set_nesting c 1 s)) = 0"
      using assms(3) dec32_Suc [of 0] by (simp add: set_nesting_def)
    have u: "(set_nesting c 1 s)\<lparr>uxSchedulerSuspended := dec32 (uxSchedulerSuspended (set_nesting c 1 s))\<rparr> = s1"
      unfolding d s1_def ..
    show ?thesis unfolding critical_def e Let_def u
      by (simp only: k1(3) simp_thms) (rule ensures_bind [OF body], use fin in auto)
  qed
  then show ?thesis using assms(5) by (simp add: xTaskResumeAll_def)
qed

section \<open>Going to sleep\<close>

text \<open>Task \<open>t\<close> sleeps until tick count \<open>w\<close>; nothing else changed.\<close>

definition asleep :: "nat \<Rightarrow> u32 \<Rightarrow> kernel \<Rightarrow> kernel \<Rightarrow> bool" where
  "asleep t w s s' \<longleftrightarrow>
     (\<forall>u. stateContainer (tcb s' u) = (if u = t
        then Some (if w < xTickCount s then pxOverflowDelayedTaskList s else pxDelayedTaskList s)
        else stateContainer (tcb s u)) \<and>
        xStateListItem (tcb s' u) = (if u = t then w else xStateListItem (tcb s u)) \<and>
        prio s' u = prio s u \<and> uxCoreAffinityMask (tcb s' u) = uxCoreAffinityMask (tcb s u) \<and>
        runstate s' u = runstate s u) \<and>
     pxCurrentTCBs s' = pxCurrentTCBs s \<and> pxDelayedTaskList s' = pxDelayedTaskList s \<and>
     pxOverflowDelayedTaskList s' = pxOverflowDelayedTaskList s \<and> pendsv s' = pendsv s \<and>
     uxDeletedTasksWaitingCleanUp s' = uxDeletedTasksWaitingCleanUp s \<and>
     uxCurrentNumberOfTasks s' = uxCurrentNumberOfTasks s \<and> xTickCount s' = xTickCount s \<and>
     xSchedulerRunning s' = xSchedulerRunning s \<and> xPendedTicks s' = xPendedTicks s \<and>
     uxSchedulerSuspended s' = uxSchedulerSuspended s \<and> uxCriticalNestings s' = uxCriticalNestings s \<and>
     xIdleTaskHandles s' = xIdleTaskHandles s \<and> lists s' TerminationL = lists s TerminationL \<and>
     lists s' PendingReadyL = lists s PendingReadyL"

lemma kinv_next: "kinv s \<Longrightarrow> v \<le> xNextTaskUnblockTime s \<Longrightarrow> kinv (s\<lparr>xNextTaskUnblockTime := v\<rparr>)"
  by (auto simp: kinv_def delays_wf_def)

lemma state_insert_next:
  "(state_insert L t s)\<lparr>xNextTaskUnblockTime := v\<rparr> = state_insert L t (s\<lparr>xNextTaskUnblockTime := v\<rparr>)"
  by (simp add: state_insert_def prim_defs)

lemma add_delayed_ok:
  assumes "kinv s" "c < configNUMBER_OF_CORES" "stateContainer (tcb s (cur s c)) = Some L"
    "\<not> idle_task s (cur s c)" "L \<noteq> TerminationL"
  shows "ensures (prvAddCurrentTaskToDelayedList c n False s)
    (\<lambda>s'. kinv s' \<and> asleep (cur s c) (xTickCount s + n) s s')"
proof -
  let ?t = "cur s c"
  let ?w = "xTickCount s + n"
  let ?a = "upd_tcb ?t (\<lambda>x. x\<lparr>ucDelayAborted := False\<rparr>) s"
  have ka: "kinv ?a" by (rule kinv_neutral [OF assms(1)]) (simp add: neutral_def)
  have ca: "stateContainer (tcb ?a ?t) = Some L" "\<not> idle_task ?a ?t"
    using assms(3,4) by (simp_all add: upd_tcb_def idle_task_def)
  define s1 where "s1 = state_out L ?t ?a"
  have k1: "kinv s1" unfolding s1_def by (rule kinv_state_out [OF ka ca])
  have sl: "state_list L" using assms(1,3) by (auto simp: kinv_def lists_wf_def)
  have s1: "stateContainer (tcb s1 ?t) = None" "settled s1 ?t"
    using assms(2) by (simp_all add: s1_def state_out_def prim_defs)
      (auto simp: settled_def cur_def)
  define s2 where "s2 = upd_tcb ?t (\<lambda>x. x\<lparr>xStateListItem := ?w\<rparr>) s1"
  have k2: "kinv s2" unfolding s2_def by (rule kinv_wake_value [OF k1 s1(1)])
  have s2: "stateContainer (tcb s2 ?t) = None" "settled s2 ?t" "xStateListItem (tcb s2 ?t) = ?w"
    "pxDelayedTaskList s2 = pxDelayedTaskList s" "pxOverflowDelayedTaskList s2 = pxOverflowDelayedTaskList s"
    using s1 by (simp_all add: s2_def upd_tcb_def settled_def cur_def)
      (simp_all add: s1_def state_out_def prim_defs)
  have base: "asleep ?t ?w s (state_insert K ?t s2)" "asleep ?t ?w s (state_insert K ?t (s2\<lparr>xNextTaskUnblockTime := v\<rparr>))"
    if "K = (if ?w < xTickCount s then pxOverflowDelayedTaskList s else pxDelayedTaskList s)" for K v
    using sl assms(5) that kinv_delay_lists [OF assms(1)]
    by (auto simp: asleep_def state_insert_def s2_def s1_def state_out_def prim_defs)
  have r: "state_remove ?t ?a = Inr s1" unfolding s1_def by (rule state_remove_eq [OF ca(1)])
  show ?thesis
  proof (cases "?w < xTickCount s")
    case True
    have "kinv (state_insert (pxOverflowDelayedTaskList s) ?t s2)"
      by (rule kinv_insert [OF k2 s2(1,2)]) (simp add: s2)
    then show ?thesis using True base(1)
      by (simp add: prvAddCurrentTaskToDelayedList_def current_eq [OF assms(1,2)] r s2_def [symmetric] Let_def)
  next
    case False
    let ?s3 = "state_insert (pxDelayedTaskList s) ?t s2"
    have n3: "xNextTaskUnblockTime ?s3 = xNextTaskUnblockTime s2" by (simp add: state_insert_def prim_defs)
    have "kinv (if ?w < xNextTaskUnblockTime ?s3 then ?s3\<lparr>xNextTaskUnblockTime := ?w\<rparr> else ?s3)"
    proof (cases "?w < xNextTaskUnblockTime ?s3")
      case True
      have "kinv (state_insert (pxDelayedTaskList s) ?t (s2\<lparr>xNextTaskUnblockTime := ?w\<rparr>))"
        by (rule kinv_insert) (use True n3 s2 k2 in \<open>simp_all add: kinv_next settled_def cur_def\<close>)
      then show ?thesis using True by (simp add: state_insert_next)
    next
      case False
      have "kinv ?s3" by (rule kinv_insert [OF k2 s2(1,2)]) (use False n3 in \<open>auto simp: s2 not_less\<close>)
      with False show ?thesis by simp
    qed
    moreover have "asleep ?t ?w s (if ?w < xNextTaskUnblockTime ?s3 then ?s3\<lparr>xNextTaskUnblockTime := ?w\<rparr> else ?s3)"
      using False base by (simp add: state_insert_next)
    ultimately show ?thesis using False
      by (simp add: prvAddCurrentTaskToDelayedList_def current_eq [OF assms(1,2)] r s2_def [symmetric] Let_def)
  qed
qed

lemma asleep_ok:
  assumes "asleep t (xTickCount s + n) s s'" "kinv s'" "basic s" "stateContainer (tcb s t) \<noteq> None" "n \<noteq> 0"
  shows "basic s'" "remaining s' t = Some (unat n)" "u \<noteq> t \<Longrightarrow> remaining s' u = remaining s u"
    "\<And>x. cur s x \<noteq> t \<Longrightarrow> runs s x \<or> pendsv s x \<Longrightarrow> runs s' x \<or> pendsv s' x"
proof -
  have k: "kinv s" and ot: "ontime s" using assms(3) by (simp_all add: basic_def)
  note dl = kinv_delay_lists [OF k]
  have ne: "xTickCount s + n \<noteq> xTickCount s" using assms(5) by simp
  have lt: "xTickCount s < xTickCount s + n" if "\<not> xTickCount s + n < xTickCount s"
    using that ne by (simp add: not_less order_le_less)
  have "ontime s'" using assms(1) ot lt dl by (auto simp: ontime_def asleep_def)
  moreover have "addressed s'" using assms(1,3,4) by (auto simp: addressed_def asleep_def basic_def)
  ultimately show "basic s'" using assms(1-3) by (simp add: basic_def asleep_def)
  show "remaining s' t = Some (unat n)"
    using assms(1) dl by (auto simp: remaining_def sleeping_def asleep_def)
  show "u \<noteq> t \<Longrightarrow> remaining s' u = remaining s u"
    using assms(1) by (simp add: remaining_def sleeping_def asleep_def)
  show "\<And>x. cur s x \<noteq> t \<Longrightarrow> runs s x \<or> pendsv s x \<Longrightarrow> runs s' x \<or> pendsv s' x"
    using assms(1) by (auto simp: runs_def cur_def asleep_def)
qed

lemma aged_0D:
  assumes "aged 0 s s'" "kinv s" "ontime s"
  shows "remaining s' t = remaining s t" "stateContainer (tcb s' t) = stateContainer (tcb s t)"
proof -
  show r: "remaining s' t = remaining s t"
    using assms(1) age_0 [OF remaining_pos [OF assms(2,3)]] by (simp add: aged_def)
  then have "sleeping s' t = sleeping s t" by (auto simp: remaining_def split: if_splits)
  then show "stateContainer (tcb s' t) = stateContainer (tcb s t)" using assms(1) by (simp add: aged_def)
qed

text \<open>The end of both delay functions: the scheduler is resumed, and the core is made to switch.\<close>

definition resumed_from :: "nat \<Rightarrow> kernel \<Rightarrow> kernel \<Rightarrow> bool" where
  "resumed_from c s s' \<longleftrightarrow> stable s' \<and> pendsv s' c \<and> cur s' = cur s \<and>
     (\<forall>u. remaining s' u = remaining s u \<and> stateContainer (tcb s' u) = stateContainer (tcb s u) \<and>
        prio s' u = prio s u \<and> uxCoreAffinityMask (tcb s' u) = uxCoreAffinityMask (tcb s u))"

lemma yield_after_resume:
  assumes b: "basic s1" "nestings c 0 s1" "\<forall>x < configNUMBER_OF_CORES. x \<noteq> c \<longrightarrow> runs s1 x \<or> pendsv s1 x"
    and c: "c < configNUMBER_OF_CORES" and s2: "aged 0 (unsuspended s1) s2" "r \<longrightarrow> pendsv s2 c"
  shows "resumed_from c s1 (if r then s2 else vTaskYieldWithinAPI c s2)"
proof -
  have u: "kinv (unsuspended s1)" "ontime (unsuspended s1)" using b(1) by (simp_all add: unsuspended_def basic_def)
  note d = aged_0D [OF s2(1) u]
  have k2: "kinv s2" using s2(1) by (simp add: aged_def)
  have n2: "uxCriticalNestings s2 = uxCriticalNestings s1" "uxSchedulerSuspended s2 = 0" "xPendedTicks s2 = 0"
    "cur s2 = cur s1" "\<And>u. prio s2 u = prio s1 u"
    "\<And>u. uxCoreAffinityMask (tcb s2 u) = uxCoreAffinityMask (tcb s1 u)"
    using s2(1) by (simp_all add: aged_def quiet_def unsuspended_def cur_def fun_eq_iff)
  define s3 where "s3 = (if r then s2 else portYIELD c s2)"
  have eq: "(if r then s2 else vTaskYieldWithinAPI c s2) = s3"
    using n2(1) b(2) c by (simp add: s3_def vTaskYieldWithinAPI_def nestings_def)
  have y: "yields s2 s3" by (simp add: s3_def)
  note y3 = yields_same [OF y]
  have pc: "pendsv s3 c" using s2(2) by (auto simp: s3_def portYIELD_def)
  have "basic s2" using b(1) s2(1) d(2) by (auto simp: basic_def aged_def quiet_def unsuspended_def addressed_def)
  then have b3: "basic s3" using y by (rule basic_yields)
  have "goes_on s1 s3" using s2(1) goes_on_trans [OF _ goes_on_yields [OF k2 y]] by (simp add: aged_def unsuspended_def)
  then have "pended s3" using b(3) pc unfolding pended_def goes_on_def by metis
  moreover have "nestings c 0 s3" using b(2) n2(1) by (simp add: nestings_def y3)
  ultimately have "stable s3" unfolding stable_iff [OF c] using b3 n2 by (simp add: y3)
  moreover have "remaining s3 u = remaining s1 u \<and> stateContainer (tcb s3 u) = stateContainer (tcb s1 u)" for u
  proof -
    have "remaining s3 u = remaining s2 u" by (simp add: remaining_def sleeping_def y3)
    then show ?thesis using d [of u] by (simp add: unsuspended_def y3)
  qed
  ultimately show ?thesis unfolding eq using pc n2(4-6) by (simp add: resumed_from_def y3 cur_def fun_eq_iff)
qed

lemma resume_yield_ok:
  assumes "basic s1" "nestings c 0 s1" "\<forall>x < configNUMBER_OF_CORES. x \<noteq> c \<longrightarrow> runs s1 x \<or> pendsv s1 x"
    and "c < configNUMBER_OF_CORES" "uxSchedulerSuspended s1 = 1" "xPendedTicks s1 = 0"
  shows "ensures (xTaskResumeAll c s1) (\<lambda>(b, s2). resumed_from c s1 (if b then s2 else vTaskYieldWithinAPI c s2))"
proof -
  have "ensures (xTaskResumeAll c s1) (\<lambda>(b, s'). aged (unat (xPendedTicks s1)) (unsuspended s1) s' \<and> (b \<longrightarrow> pendsv s' c))"
    by (rule xTaskResumeAll_ok) (use assms in \<open>simp_all add: basic_def nestings_def\<close>)
  then show ?thesis
    by (rule ensures_mono) (use yield_after_resume [OF assms(1-4)] assms(6) in \<open>simp add: case_prod_beta\<close>)
qed

text \<open>The caller of a delay sleeps, and its core will switch; no other task moved.\<close>

definition delayed_by :: "nat \<Rightarrow> u32 \<Rightarrow> kernel \<Rightarrow> kernel \<Rightarrow> bool" where
  "delayed_by c n s s' \<longleftrightarrow> stable s' \<and> pendsv s' c \<and> remaining s' (cur s c) = Some (unat n) \<and>
     (\<forall>u. u \<noteq> cur s c \<longrightarrow> remaining s' u = remaining s u \<and> stateContainer (tcb s' u) = stateContainer (tcb s u)) \<and>
     (\<forall>u. prio s' u = prio s u \<and> uxCoreAffinityMask (tcb s' u) = uxCoreAffinityMask (tcb s u))"

lemma resume_after_sleep:
  assumes st: "stable s" and c: "c < configNUMBER_OF_CORES" and live: "live s (cur s c)" and n: "n \<noteq> 0"
    and a: "asleep (cur s c) (xTickCount s + n) (s\<lparr>uxSchedulerSuspended := 1\<rparr>) s1" "kinv s1"
  shows "ensures (xTaskResumeAll c s1) (\<lambda>(b, s2). delayed_by c n s (if b then s2 else vTaskYieldWithinAPI c s2))"
proof -
  have b: "basic s" "pended s" "xPendedTicks s = 0" "nestings c 0 s" using st unfolding stable_iff [OF c] by simp_all
  have ks: "kinv s" using b(1) by (simp add: basic_def)
  let ?s = "s\<lparr>uxSchedulerSuspended := 1\<rparr>"
  have a': "asleep (cur s c) (xTickCount ?s + n) ?s s1" using a(1) by simp
  have "basic ?s" "stateContainer (tcb ?s (cur s c)) \<noteq> None" using b(1) live by (simp_all add: live_def)
  note s1 = asleep_ok [OF a' a(2) this n]
  have others: "\<forall>x < configNUMBER_OF_CORES. x \<noteq> c \<longrightarrow> runs s1 x \<or> pendsv s1 x"
  proof (intro allI impI)
    fix x assume x: "x < configNUMBER_OF_CORES" "x \<noteq> c"
    have "runs s x \<or> pendsv s x" using b(2) x unfolding pended_def by blast
    moreover have "cur s x \<noteq> cur s c" using kinv_cur_ne [OF ks x(1) c] x(2) by blast
    ultimately show "runs s1 x \<or> pendsv s1 x" using s1(4) [of x] by (simp add: runs_def cur_def)
  qed
  have "nestings c 0 s1" "uxSchedulerSuspended s1 = 1" "xPendedTicks s1 = 0"
    using a(1) b(3,4) by (simp_all add: asleep_def nestings_def)
  from resume_yield_ok [OF s1(1) this(1) others c this(2,3)] show ?thesis
  proof (rule ensures_mono)
    fix r assume r: "case r of (b, s2) \<Rightarrow> resumed_from c s1 (if b then s2 else vTaskYieldWithinAPI c s2)"
    have c1: "stateContainer (tcb s1 u) = stateContainer (tcb s u)" if "u \<noteq> cur s c" for u
      using a(1) that by (simp add: asleep_def)
    have p1: "prio s1 u = prio s u" "uxCoreAffinityMask (tcb s1 u) = uxCoreAffinityMask (tcb s u)" for u
      using a(1) by (simp_all add: asleep_def)
    show "case r of (b, s2) \<Rightarrow> delayed_by c n s (if b then s2 else vTaskYieldWithinAPI c s2)"
      using r s1(2,3) c1 p1 by (cases r) (simp add: delayed_by_def resumed_from_def)
  qed
qed

lemma stable_vTaskSuspendAll:
  assumes "stable s"
  shows "vTaskSuspendAll s = s\<lparr>uxSchedulerSuspended := 1\<rparr>"
  using assms by (simp add: vTaskSuspendAll_def stable_def)

lemma sleep_ok:
  assumes "stable s" "c < configNUMBER_OF_CORES" "live s (cur s c)" "n \<noteq> 0"
  shows "ensures (bindE (prvAddCurrentTaskToDelayedList c n False (vTaskSuspendAll s)) (xTaskResumeAll c))
    (\<lambda>(b, s2). delayed_by c n s (if b then s2 else vTaskYieldWithinAPI c s2))"
proof -
  let ?s = "s\<lparr>uxSchedulerSuspended := 1\<rparr>"
  have k: "kinv ?s" using assms(1) by (simp add: stable_def)
  have cur: "cur ?s c = cur s c" by (simp add: cur_def)
  obtain L where L: "stateContainer (tcb ?s (cur ?s c)) = Some L" "\<not> idle_task ?s (cur ?s c)" "L \<noteq> TerminationL"
    using assms(3) by (auto simp: live_def idle_task_def cur_def)
  note add = add_delayed_ok [OF k assms(2) L, of n, unfolded cur]
  show ?thesis unfolding stable_vTaskSuspendAll [OF assms(1)]
    by (rule ensures_bind [OF add], rule resume_after_sleep [OF assms]) simp_all
qed

lemma vTaskDelay_ok:
  assumes "stable s" "c < configNUMBER_OF_CORES" "live s (cur s c)" "n \<noteq> 0"
  shows "ensures (vTaskDelay c n s) (delayed_by c n s)"
proof -
  have "n > 0" using assms(4) by (simp add: word_gt_0)
  then show ?thesis unfolding vTaskDelay_def
    using ensures_bind [OF sleep_ok [OF assms], of "\<lambda>(b, s1). Inr (if b then s1 else vTaskYieldWithinAPI c s1)" "delayed_by c n s"]
    by auto
qed

text \<open>\<open>vTaskDelay( 0 )\<close> only yields.\<close>

lemma vTaskDelay_0: "uxCriticalNestings s c = 0 \<Longrightarrow> vTaskDelay c 0 s = Inr (portYIELD c s)"
  by (simp add: vTaskDelay_def vTaskYieldWithinAPI_def)

lemma stable_portYIELD: "stable s \<Longrightarrow> stable (portYIELD c s)"
  by (auto simp: stable_def portYIELD_def ontime_def addressed_def pended_def runs_def cur_def)

text \<open>
  The decision of \<open>xTaskDelayUntil\<close>, against times that do not wrap: \<open>p\<close> is the previous wake
  time, \<open>i\<close> the increment, \<open>d\<close> the ticks that passed since, all in unbounded arithmetic.  The task is
  to wait exactly when the increment has not passed yet.
\<close>

lemma should_delay_iff:
  fixes prev :: u32
  assumes "i < 2 ^ 32" "d < 2 ^ 32"
  shows "should_delay (prev + of_nat d) prev (prev + of_nat i) \<longleftrightarrow> d < i"
proof -
  define p where "p = unat prev"
  have p: "p < 2 ^ 32" using unsigned_less [of prev] by (simp add: p_def)
  have u: "unat (prev + of_nat j) = (if p + j < 2 ^ 32 then p + j else p + j - 2 ^ 32)" if "j < 2 ^ 32" for j
  proof -
    have "unat (prev + of_nat j) = (p + j) mod 2 ^ 32"
      using that by (simp add: p_def unat_word_ariths unat_of_nat take_bit_nat_def)
    also have "\<dots> = (if p + j < 2 ^ 32 then p + j else p + j - 2 ^ 32)"
      using p that by (simp add: le_mod_geq)
    finally show ?thesis .
  qed
  show ?thesis
    unfolding should_delay_def word_less_nat_alt u [OF assms(1)] u [OF assms(2)] p_def [symmetric]
    using assms p by (auto split: if_splits)
qed

lemma xTaskDelayUntil_ok:
  assumes "stable s" "c < configNUMBER_OF_CORES" "live s (cur s c)"
  shows "ensures (xTaskDelayUntil c prev inc s) (\<lambda>((wake, b), s'). wake = prev + inc \<and>
    b = should_delay (xTickCount s) prev (prev + inc) \<and>
    (if b then delayed_by c (prev + inc - xTickCount s) s s' else resumed_from c s s'))"
proof -
  let ?w = "prev + inc"
  have tick: "xTickCount (vTaskSuspendAll s) = xTickCount s" by (simp add: vTaskSuspendAll_def)
  show ?thesis
  proof (cases "should_delay (xTickCount s) prev ?w")
    case True
    then have "?w - xTickCount s \<noteq> 0" by (auto simp: should_delay_def split: if_splits)
    from sleep_ok [OF assms this] show ?thesis
      unfolding xTaskDelayUntil_def Let_def tick if_P [OF True] bindE_assoc [symmetric]
      by (rule ensures_bind) (use True in auto)
  next
    case False
    let ?s = "s\<lparr>uxSchedulerSuspended := 1\<rparr>"
    have st: "basic ?s" "nestings c 0 ?s" "xPendedTicks ?s = 0"
      using assms(1) unfolding stable_iff [OF assms(2)] by (simp_all add: nestings_def)
    have "\<forall>x < configNUMBER_OF_CORES. x \<noteq> c \<longrightarrow> runs ?s x \<or> pendsv ?s x"
      using assms(1) by (simp add: stable_def pended_def runs_def cur_def)
    from resume_yield_ok [OF st(1,2) this assms(2) _ st(3)]
    have r: "ensures (xTaskResumeAll c ?s) (\<lambda>(b, s2). resumed_from c ?s (if b then s2 else vTaskYieldWithinAPI c s2))"
      by simp
    have "resumed_from c ?s = resumed_from c s" by (simp add: resumed_from_def cur_def fun_eq_iff)
    note r = r [unfolded this]
    have t: "xTickCount ?s = xTickCount s" by simp
    show ?thesis
      unfolding xTaskDelayUntil_def Let_def stable_vTaskSuspendAll [OF assms(1)] t if_not_P [OF False] bindE_simps
      by (rule ensures_bind [OF r]) (use False in auto)
  qed
qed

end
