(* ===== verification/KernelSteps.thy ===== *)
theory KernelSteps
  imports DelayProps PeriodicTask
begin

text \<open>
  The running system as a state machine: tick interrupts, context switches, the calls the tasks of
  \<^theory_text>\<open>PeriodicTask\<close> issue, and the idle tasks.  Every step that is enabled in a stable state
  completes without a fault and leads to a stable state.
\<close>

section \<open>The tick interrupt\<close>

lemma aged_addressed:
  assumes "aged n s s'" "addressed s"
  shows "addressed s'"
  unfolding addressed_def
proof (intro allI impI)
  fix t assume "stateContainer (tcb s' t) \<noteq> None"
  moreover have "stateContainer (tcb s' t) = (if sleeping s t \<and> \<not> sleeping s' t
      then Some (ReadyL (prio s t)) else stateContainer (tcb s t))"
    using assms(1) by (simp add: aged_def)
  moreover have "stateContainer (tcb s t) \<noteq> None" if "sleeping s t" using that unfolding sleeping_def by fastforce
  ultimately have "stateContainer (tcb s t) \<noteq> None" by (cases "sleeping s t") simp_all
  then show "t < 2 ^ 32 - 1" using assms(2) unfolding addressed_def by blast
qed

lemma xPortSysTickHandler_ok:
  assumes "stable s" "c < configNUMBER_OF_CORES"
  shows "ensures (xPortSysTickHandler c s) (\<lambda>s'. stable s' \<and> aged 1 s s')"
proof -
  have b: "basic s" "pended s" "uxSchedulerSuspended s = 0" "xPendedTicks s = 0" "nestings c 0 s"
    using assms(1) unfolding stable_iff [OF assms(2)] by simp_all
  have n0: "uxCriticalNestings s c = 0" "xSchedulerRunning s" using b(1,5) assms(2) by (simp_all add: nestings_def basic_def)
  define s0 where "s0 = s\<lparr>uxCriticalNestings := (uxCriticalNestings s)(c := 1)\<rparr>"
  have e: "vTaskEnterCriticalFromISR c s = s0"
    using n0 by (simp add: vTaskEnterCriticalFromISR_def set_nesting_def s0_def)
  have k: "kinv s0" "ontime s0" "uxSchedulerSuspended s0 = 0" using b by (simp_all add: s0_def basic_def)
  have fin: "stable (vTaskExitCriticalFromISR c s2) \<and> aged 1 s (vTaskExitCriticalFromISR c s2)"
    if a0: "aged 1 s0 s2" for s2
  proof -
    have n2: "uxCriticalNestings s2 = (uxCriticalNestings s)(c := 1)" "xSchedulerRunning s2"
      using a0 n0 by (simp_all add: aged_def quiet_def s0_def)
    have "(uxCriticalNestings s)(c := 0) = uxCriticalNestings s" using n0 by auto
    then have x: "vTaskExitCriticalFromISR c s2 = s2\<lparr>uxCriticalNestings := uxCriticalNestings s\<rparr>"
      using n2 by (simp add: vTaskExitCriticalFromISR_def set_nesting_def)
    have a: "aged 1 s (s2\<lparr>uxCriticalNestings := uxCriticalNestings s\<rparr>)"
      using a0 by (simp add: aged_def s0_def quiet_def)
    have "addressed (s2\<lparr>uxCriticalNestings := uxCriticalNestings s\<rparr>)"
      using aged_addressed [OF a] b(1) by (simp add: basic_def)
    then have "basic (s2\<lparr>uxCriticalNestings := uxCriticalNestings s\<rparr>)"
      using a b(1) by (auto simp: basic_def aged_def quiet_def)
    moreover have "pended (s2\<lparr>uxCriticalNestings := uxCriticalNestings s\<rparr>)"
      by (rule goes_on_pended [OF _ b(2)]) (use a in \<open>simp add: aged_def\<close>)
    ultimately have "stable (s2\<lparr>uxCriticalNestings := uxCriticalNestings s\<rparr>)"
      unfolding stable_iff [OF assms(2)] using a b(3-5) by (simp add: aged_def quiet_def nestings_def)
    with a show ?thesis unfolding x by simp
  qed
  have "ensures (xTaskIncrementTick c s0) (\<lambda>(sw, s1). aged 1 s0 s1)"
    by (rule ensures_mono [OF xTaskIncrementTick_ok [OF k]])
      (use aged_ticked [OF aged_0 [OF k(1,2)]] in auto)
  moreover have "aged 1 s0 (if sw then portYIELD c s1 else s1)" if "aged 1 s0 s1" for sw s1
    using aged_yields [OF that yields_portYIELD, of c] that by simp
  ultimately show ?thesis unfolding xPortSysTickHandler_def e
    by (elim ensures_bind) (use fin in \<open>simp only: case_prod_beta ensures_Inr\<close>)
qed

section \<open>The pended interrupt\<close>

lemma vTaskSwitchContext_ok:
  assumes "stable s" "c < configNUMBER_OF_CORES"
  defines "s0 \<equiv> s\<lparr>pendsv := (pendsv s)(c := False)\<rparr>"
  shows "ensures (vTaskSwitchContext c s0) (\<lambda>s'. stable s' \<and> switched c (set_yield_pending c False s0) s')"
proof -
  let ?s1 = "set_yield_pending c False s0"
  have b: "basic s" "pended s" "uxSchedulerSuspended s = 0" "xPendedTicks s = 0" "nestings c 0 s"
    using assms(1) unfolding stable_iff [OF assms(2)] by simp_all
  have k: "kinv ?s1" using b(1) by (simp add: s0_def basic_def)
  have eq: "vTaskSwitchContext c s0 = prvSelectHighestPriorityTask c ?s1"
    using b(3) by (simp add: vTaskSwitchContext_def s0_def)
  show ?thesis unfolding eq
  proof (rule ensures_mono [OF prvSelectHighestPriorityTask_ok [OF k assms(2)]])
    fix s' assume sw: "switched c ?s1 s'"
    have q: "quiet (?s1\<lparr>pxCurrentTCBs := pxCurrentTCBs s'\<rparr>) s'" and cs: "\<And>t. stateContainer (tcb s' t) = stateContainer (tcb s t)"
      and ks: "kinv s'" using sw by (simp_all add: switched_def s0_def set_yield_pending_def)
    have "ontime s'" "addressed s'" using b(1) q cs
      by (simp_all add: basic_def ontime_def addressed_def quiet_def s0_def set_yield_pending_def)
    then have "basic s'" using b(1) q ks by (auto simp: basic_def quiet_def s0_def set_yield_pending_def)
    moreover have "pended s'"
      unfolding pended_def
    proof (intro allI impI)
      fix x assume x: "x < configNUMBER_OF_CORES"
      show "runs s' x \<or> pendsv s' x"
      proof (cases "x = c")
        case True
        then show ?thesis using sw by (simp add: switched_def)
      next
        case False
        have "runs s x \<or> pendsv s x" using b(2) x unfolding pended_def by blast
        then have "runs ?s1 x \<or> pendsv ?s1 x"
          using False by (simp add: s0_def set_yield_pending_def runs_def cur_def)
        then show ?thesis using sw x False unfolding switched_def by blast
      qed
    qed
    ultimately have "stable s'" unfolding stable_iff [OF assms(2)] using b(3-5) q
      by (simp add: quiet_def s0_def set_yield_pending_def nestings_def)
    with sw show "stable s' \<and> switched c ?s1 s'" by simp
  qed
qed

section \<open>The idle task\<close>

text \<open>What a run of \<open>prvCheckTasksWaitingTermination\<close> has freed so far.\<close>

definition reaped :: "kernel \<Rightarrow> nat list \<Rightarrow> kernel \<Rightarrow> bool" where
  "reaped s fr s' \<longleftrightarrow> lists s TerminationL = fr @ lists s' TerminationL \<and>
     (\<forall>t. runstate s' t = runstate s t) \<and> (\<forall>t \<in> set fr. runstate s t = taskTASK_NOT_RUNNING) \<and>
     (\<forall>t. stateContainer (tcb s' t) = (if t \<in> set fr then None else stateContainer (tcb s t)) \<and>
        prio s' t = prio s t \<and> uxCoreAffinityMask (tcb s' t) = uxCoreAffinityMask (tcb s t))"

lemma stable_terminating:
  assumes "stable s" "lists s TerminationL = t # ts"
  shows "stateContainer (tcb s t) = Some TerminationL" "\<not> idle_task s t" "t \<notin> set ts" "length (t # ts) < 2 ^ 32"
proof -
  have k: "kinv s" and ad: "addressed s" using assms(1) by (simp_all add: stable_def)
  have mem: "u \<in> set (lists s TerminationL) \<longleftrightarrow> stateContainer (tcb s u) = Some TerminationL" for u
    by (rule in_state_list [OF k]) simp
  show c: "stateContainer (tcb s t) = Some TerminationL" using mem [of t] assms(2) by simp
  then show "\<not> idle_task s t" using idle_ready [OF k, of t] by auto
  show "t \<notin> set ts" using kinv_distinct [OF k, of TerminationL] assms(2) by simp
  have "set (t # ts) \<subseteq> {..< 2 ^ 32 - 1}" using mem ad assms(2) by (auto simp: addressed_def)
  then have "card (set (t # ts)) \<le> 2 ^ 32 - 1" using card_mono [of "{..< 2 ^ 32 - 1}" "set (t # ts)"] by simp
  then show "length (t # ts) < 2 ^ 32"
    using distinct_card [OF kinv_distinct [OF k, of TerminationL]] assms(2) by simp
qed

lemma reap_one:
  fixes n :: nat
  assumes "section_begin c s0" "lists s0 TerminationL = t # ts" "runstate s0 t = taskTASK_NOT_RUNNING"
    "stateContainer (tcb s0 t) = Some TerminationL" "\<not> idle_task s0 t" "t \<notin> set ts" "length (t # ts) < 2 ^ 32"
    "c < configNUMBER_OF_CORES"
  defines "s2 \<equiv> (state_out TerminationL t s0)\<lparr>uxCurrentNumberOfTasks := n,
      uxDeletedTasksWaitingCleanUp := dec32 (uxDeletedTasksWaitingCleanUp s0)\<rparr>"
  shows "section_end c s2" "reaped s0 [t] s2"
proof -
  have b: "basic s0" "pended s0" using assms(1) by (simp_all add: section_begin_def)
  have k2: "kinv s2" using kinv_state_out [OF _ assms(4,5)] b(1) by (simp add: s2_def basic_def)
  have len: "uxDeletedTasksWaitingCleanUp s0 = Suc (length ts)" using b(1) assms(2) by (simp add: basic_def)
  have d: "dec32 (uxDeletedTasksWaitingCleanUp s0) = length ts" using assms(7) by (simp add: len)
  have l2: "lists s2 TerminationL = ts" "lists s2 PendingReadyL = lists s0 PendingReadyL"
    using assms(2) by (simp_all add: s2_def state_out_def prim_defs)
  have tcb: "tcb s2 = (tcb s0)(t := (tcb s0 t)\<lparr>stateContainer := None\<rparr>)"
    by (simp add: s2_def state_out_def prim_defs)
  have same: "pxCurrentTCBs s2 = pxCurrentTCBs s0" "pendsv s2 = pendsv s0" "xTickCount s2 = xTickCount s0"
    "pxDelayedTaskList s2 = pxDelayedTaskList s0" "pxOverflowDelayedTaskList s2 = pxOverflowDelayedTaskList s0"
    "xSchedulerRunning s2 = xSchedulerRunning s0" "uxSchedulerSuspended s2 = uxSchedulerSuspended s0"
    "xPendedTicks s2 = xPendedTicks s0" "uxCriticalNestings s2 = uxCriticalNestings s0"
    "uxDeletedTasksWaitingCleanUp s2 = length ts"
    by (simp_all add: s2_def state_out_def prim_defs d)
  have "ontime s2" "addressed s2" using b(1) by (simp_all add: basic_def ontime_def addressed_def tcb same)
  then have "basic s2" using b(1) k2 l2 by (simp add: basic_def same)
  moreover have "pended s2" using b(2) assms(4) by (auto simp: pended_def runs_def cur_def tcb same)
  ultimately show "section_end c s2" using assms(1) pended_imp_at
    by (simp add: section_end_def section_begin_def nestings_def same)
  show "reaped s0 [t] s2" using assms(2,3) l2 by (simp add: reaped_def tcb)
qed

lemma reaped_refl: "reaped s [] s"
  by (simp add: reaped_def)

lemma reaped_trans: "reaped s fr s1 \<Longrightarrow> reaped s1 gs s2 \<Longrightarrow> reaped s (fr @ gs) s2"
  by (auto simp: reaped_def)

lemma reaped_cong:
  assumes "lists s1 = lists s0" "tcb s1 = tcb s0" "lists s2 = lists s3" "tcb s2 = tcb s3"
  shows "reaped s1 fr s2 = reaped s0 fr s3"
  using assms by (simp add: reaped_def)

lemma exit_same [simp]:
  "tcb (vTaskExitCritical c s) = tcb s" "lists (vTaskExitCritical c s) = lists s"
  "uxDeletedTasksWaitingCleanUp (vTaskExitCritical c s) = uxDeletedTasksWaitingCleanUp s"
  by (simp_all add: vTaskExitCritical_def set_nesting_def portYIELD_def Let_def)

lemma reaped_exit [simp]: "reaped s fr (vTaskExitCritical c s') = reaped s fr s'"
  by (simp add: reaped_def)

text \<open>One round: it frees the first task, or stops at a first task that still runs.\<close>

lemma termination_round_ok:
  assumes "stable s" "c < configNUMBER_OF_CORES" "uxDeletedTasksWaitingCleanUp s > 0"
  shows "ensures (termination_round c s) (\<lambda>((p, go), s'). ((go \<longrightarrow> (\<exists>t. p = Some t \<and> reaped s [t] s')) \<and>
    (\<not> go \<longrightarrow> lists s' = lists s \<and> tcb s' = tcb s \<and> (\<exists>t ts. lists s TerminationL = t # ts \<and> runstate s t \<noteq> taskTASK_NOT_RUNNING))) \<and>
    stable s')"
proof -
  have "length (lists s TerminationL) > 0" using assms(1,3) by (simp add: stable_def)
  then obtain t ts where tl: "lists s TerminationL = t # ts" by (cases "lists s TerminationL") auto
  note st = stable_terminating [OF assms(1) tl]
  let ?P = "\<lambda>(p, go) s'. (go \<longrightarrow> (\<exists>t. p = Some t \<and> reaped s [t] s')) \<and>
    (\<not> go \<longrightarrow> lists s' = lists s \<and> tcb s' = tcb s \<and> (\<exists>t ts. lists s TerminationL = t # ts \<and> runstate s t \<noteq> taskTASK_NOT_RUNNING))"
  have "ensures (termination_round c s) (\<lambda>(r, s'). ?P r s' \<and> stable s')"
    unfolding termination_round_def
  proof (rule critical_ok [OF assms(1,2), where P = ?P])
    fix s0 assume s0: "basic s0" "pended s0" "uxSchedulerSuspended s0 = 0" "xPendedTicks s0 = 0" "nestings c 1 s0"
      "s0 = set_nesting c 1 s"
    have sb: "section_begin c s0" using s0 by (simp add: section_begin_def)
    have same: "tcb s0 = tcb s" "lists s0 = lists s" "xIdleTaskHandles s0 = xIdleTaskHandles s"
      "uxDeletedTasksWaitingCleanUp s0 = uxDeletedTasksWaitingCleanUp s" by (simp_all add: s0(6) set_nesting_def)
    have idle: "\<not> idle_task s0 t" using st(2) by (simp add: idle_task_def same)
    have hd: "head_of TerminationL s0 = Inr t" by (simp add: head_of_def same tl)
    let ?Q = "\<lambda>(r, s'). ?P r s' \<and> basic s' \<and> pended_at c s' \<and> uxSchedulerSuspended s' = 0 \<and>
      xPendedTicks s' = 0 \<and> nestings c 1 s'"
    show "ensures (if 0 < uxDeletedTasksWaitingCleanUp s0 then bindE (head_of TerminationL s0) (\<lambda>t.
         if runstate s0 t = taskTASK_NOT_RUNNING then
           bindE (state_remove t s0) (\<lambda>s1. Inr ((Some t, True), s1\<lparr>uxCurrentNumberOfTasks := dec32 (uxCurrentNumberOfTasks s1),
             uxDeletedTasksWaitingCleanUp := dec32 (uxDeletedTasksWaitingCleanUp s1)\<rparr>))
         else Inr ((None, False), s0)) else Inr ((None, True), s0)) ?Q"
    proof (cases "runstate s0 t = taskTASK_NOT_RUNNING")
      case True
      let ?s1 = "state_out TerminationL t s0"
      have r: "state_remove t s0 = Inr ?s1" by (rule state_remove_eq) (simp add: same st)
      have d: "uxDeletedTasksWaitingCleanUp ?s1 = uxDeletedTasksWaitingCleanUp s0" by (simp add: state_out_def prim_defs)
      note one = reap_one [OF sb _ True _ idle st(3,4) assms(2), of "dec32 (uxCurrentNumberOfTasks ?s1)", unfolded same, OF tl st(1)]
      have "reaped s [t] (?s1\<lparr>uxCurrentNumberOfTasks := dec32 (uxCurrentNumberOfTasks ?s1),
          uxDeletedTasksWaitingCleanUp := dec32 (uxDeletedTasksWaitingCleanUp s)\<rparr>)"
        using one(2) by (simp add: reaped_def same)
      then show ?thesis using one(1) True assms(3) r hd
        by (simp add: d same section_end_def)
    next
      case False
      have "pended_at c s0" using s0(2) by (rule pended_imp_at)
      then show ?thesis using False s0(1,3-5) assms(3) hd tl by (simp add: same)
    qed
  next
    show "?P r (vTaskExitCritical c s')" if "?P r s'" for r s'
      using that by (simp split: prod.splits)
  qed
  then show ?thesis by (rule ensures_mono) auto
qed

text \<open>Nothing more can be freed.\<close>

definition none_to_reap :: "kernel \<Rightarrow> bool" where
  "none_to_reap s = (case lists s TerminationL of [] \<Rightarrow> True | t # _ \<Rightarrow> runstate s t \<noteq> taskTASK_NOT_RUNNING)"

lemma check_termination_loop_ok:
  assumes "stable s" "c < configNUMBER_OF_CORES" "uxDeletedTasksWaitingCleanUp s \<le> fuel"
  shows "ensures (check_termination_loop fuel c fr s) (\<lambda>(fr', s'). stable s' \<and> none_to_reap s' \<and>
    (\<exists>gs. fr' = fr @ gs \<and> reaped s gs s'))"
  using assms
proof (induction fuel arbitrary: fr s)
  case 0
  then have "lists s TerminationL = []" by (simp add: stable_def)
  with 0 show ?case by (simp add: none_to_reap_def reaped_refl)
next
  case (Suc fuel)
  show ?case
  proof (cases "uxDeletedTasksWaitingCleanUp s > 0")
    case False
    then have "lists s TerminationL = []" using Suc.prems by (simp add: stable_def)
    with False Suc.prems show ?thesis by (simp add: none_to_reap_def reaped_refl)
  next
    case True
    let ?Q = "\<lambda>(fr', s'). stable s' \<and> none_to_reap s' \<and> (\<exists>gs. fr' = fr @ gs \<and> reaped s gs s')"
    have next_ok: "ensures (case r of ((p, go), s1) \<Rightarrow>
        if go then check_termination_loop fuel c (case p of None \<Rightarrow> fr | Some t \<Rightarrow> fr @ [t]) s1 else Inr (fr, s1)) ?Q"
      if r: "case r of ((p, go), s') \<Rightarrow> ((go \<longrightarrow> (\<exists>t. p = Some t \<and> reaped s [t] s')) \<and>
        (\<not> go \<longrightarrow> lists s' = lists s \<and> tcb s' = tcb s \<and>
          (\<exists>t ts. lists s TerminationL = t # ts \<and> runstate s t \<noteq> taskTASK_NOT_RUNNING))) \<and> stable s'" for r
    proof -
      obtain p go s1 where x: "r = ((p, go), s1)" by (cases r) auto
      show ?thesis
      proof (cases go)
        case True
        then obtain t where t: "p = Some t" "reaped s [t] s1" "stable s1" using r x by auto
        have "uxDeletedTasksWaitingCleanUp s1 < uxDeletedTasksWaitingCleanUp s"
          using t Suc.prems(1) by (auto simp: stable_def reaped_def)
        then have "uxDeletedTasksWaitingCleanUp s1 \<le> fuel" using Suc.prems(3) by simp
        from Suc.IH [OF t(3) Suc.prems(2) this, of "fr @ [t]"] show ?thesis
          using True t reaped_trans [OF t(2)] by (auto simp: x elim!: ensures_mono)
      next
        case False
        then show ?thesis using r by (auto simp: x none_to_reap_def reaped_def)
      qed
    qed
    have "ensures (bindE (termination_round c s) (\<lambda>((p, go), s1).
        if go then check_termination_loop fuel c (case p of None \<Rightarrow> fr | Some t \<Rightarrow> fr @ [t]) s1 else Inr (fr, s1))) ?Q"
      by (rule ensures_bind [OF termination_round_ok [OF Suc.prems(1,2) True]])
        (use next_ok in \<open>simp only: case_prod_beta\<close>)
    with True show ?thesis by simp
  qed
qed

lemma prvCheckTasksWaitingTermination_ok:
  assumes "stable s" "c < configNUMBER_OF_CORES"
  shows "ensures (prvCheckTasksWaitingTermination c s) (\<lambda>(fr, s'). stable s' \<and> none_to_reap s' \<and> reaped s fr s')"
  unfolding prvCheckTasksWaitingTermination_def
  by (rule ensures_mono [OF check_termination_loop_ok [OF assms order_refl]]) auto

section \<open>The state machine\<close>

text \<open>A call of a task that core \<open>c\<close> runs.  \<open>sleep_ms\<close> is a function of the SDK that does not call
  the kernel.\<close>

definition perform :: "nat \<Rightarrow> tcall \<Rightarrow> kernel \<Rightarrow> fault + kernel" where
  "perform c call s = (case call of
       CallSuspend h \<Rightarrow> bindE (vTaskSuspend c h s) (\<lambda>(_, s'). Inr s')
     | CallResume h \<Rightarrow> bindE (vTaskResume c h s) (\<lambda>(_, s'). Inr s')
     | CallDelay n \<Rightarrow> vTaskDelay c n s
     | CallDelayUntil prev inc \<Rightarrow> bindE (xTaskDelayUntil c prev inc s) (\<lambda>(_, s'). Inr s')
     | CallDelete h \<Rightarrow> bindE (vTaskDelete c h s) (\<lambda>(_, s'). Inr s')
     | CallSleep _ \<Rightarrow> Inr s)"

text \<open>The pieces of the idle tasks (\<open>prvIdleTask\<close>, \<open>prvPassiveIdleTask\<close>) between which other cores
  may run: the yield at their start, a round of \<open>prvCheckTasksWaitingTermination\<close>, the yield to a
  task that shares the idle priority, and the tickless sleep, whose function
  \<open>portSUPPRESS_TICKS_AND_SLEEP\<close> of the port is the argument \<open>slp\<close>.\<close>

datatype idle_piece = IdleStart | IdleReap | IdleShare | IdleSleep

definition configEXPECTED_IDLE_TIME_BEFORE_SLEEP :: u32 where "configEXPECTED_IDLE_TIME_BEFORE_SLEEP = 2"

definition idle_sleep :: "(u32 \<Rightarrow> kernel \<Rightarrow> fault + kernel) \<Rightarrow> nat \<Rightarrow> kernel \<Rightarrow> fault + kernel" where
  "idle_sleep slp c s =
     bindE (prvGetExpectedIdleTime c s) (\<lambda>n.
       if n \<ge> configEXPECTED_IDLE_TIME_BEFORE_SLEEP then
         let s1 = vTaskSuspendAll s in
         bindE (prvGetExpectedIdleTime c s1) (\<lambda>n1.
         bindE (if n1 \<ge> configEXPECTED_IDLE_TIME_BEFORE_SLEEP then slp n1 s1 else Inr s1) (\<lambda>s2.
         bindE (xTaskResumeAll c s2) (\<lambda>(_, s3). Inr s3)))
       else Inr s)"

definition prvIdleTask :: "(u32 \<Rightarrow> kernel \<Rightarrow> fault + kernel) \<Rightarrow> nat \<Rightarrow> idle_piece \<Rightarrow> kernel \<Rightarrow> fault + kernel" where
  "prvIdleTask slp c piece s = (case piece of
       IdleStart \<Rightarrow> Inr (portYIELD c s)
     | IdleReap \<Rightarrow> (if uxDeletedTasksWaitingCleanUp s > 0 then bindE (termination_round c s) (\<lambda>(_, s'). Inr s') else Inr s)
     | IdleShare \<Rightarrow> Inr (if length (ready s 0) > configNUMBER_OF_CORES then portYIELD c s else s)
     | IdleSleep \<Rightarrow> idle_sleep slp c s)"

definition prvPassiveIdleTask :: "nat \<Rightarrow> idle_piece \<Rightarrow> kernel \<Rightarrow> fault + kernel" where
  "prvPassiveIdleTask c piece s = (case piece of
       IdleStart \<Rightarrow> Inr (portYIELD c s)
     | IdleShare \<Rightarrow> Inr (if length (ready s 0) > configNUMBER_OF_CORES then portYIELD c s else s)
     | _ \<Rightarrow> Inr s)"

datatype action = Tick | Switch nat | TaskCall nat tcall | IdleRun nat idle_piece

text \<open>A task runs between two interrupts of its core.  The handles it passes for suspension and
  deletion are those of tasks that exist and are not idle tasks.\<close>

definition enabled :: "action \<Rightarrow> kernel \<Rightarrow> bool" where
  "enabled a s = (case a of
       Tick \<Rightarrow> True
     | Switch x \<Rightarrow> x < configNUMBER_OF_CORES \<and> pendsv s x
     | TaskCall c call \<Rightarrow> c < configNUMBER_OF_CORES \<and> \<not> pendsv s c \<and> \<not> idle_task s (cur s c) \<and>
         (case call of CallSuspend h \<Rightarrow> live s (target c h s) | CallDelete h \<Rightarrow> live s (target c h s) | _ \<Rightarrow> True)
     | IdleRun c _ \<Rightarrow> c < configNUMBER_OF_CORES \<and> \<not> pendsv s c \<and> idle_task s (cur s c))"

text \<open>\<open>prvCreateIdleTasks\<close> makes the first idle task the active one, the others passive.\<close>

definition act :: "(u32 \<Rightarrow> kernel \<Rightarrow> fault + kernel) \<Rightarrow> action \<Rightarrow> kernel \<Rightarrow> fault + kernel" where
  "act slp a s = (case a of
       Tick \<Rightarrow> xPortSysTickHandler 0 s
     | Switch x \<Rightarrow> vTaskSwitchContext x (s\<lparr>pendsv := (pendsv s)(x := False)\<rparr>)
     | TaskCall c call \<Rightarrow> perform c call s
     | IdleRun c piece \<Rightarrow> (if xIdleTaskHandles s 0 = pxCurrentTCBs s c then prvIdleTask slp c piece s
         else prvPassiveIdleTask c piece s))"

inductive kstep :: "(u32 \<Rightarrow> kernel \<Rightarrow> fault + kernel) \<Rightarrow> kernel \<Rightarrow> action \<Rightarrow> kernel \<Rightarrow> bool" for slp where
  step: "enabled a s \<Longrightarrow> act slp a s = Inr s' \<Longrightarrow> kstep slp s a s'"

inductive reaches :: "(u32 \<Rightarrow> kernel \<Rightarrow> fault + kernel) \<Rightarrow> kernel \<Rightarrow> action list \<Rightarrow> kernel \<Rightarrow> bool" for slp where
  here: "reaches slp s [] s"
| more: "reaches slp s as s1 \<Longrightarrow> kstep slp s1 a s2 \<Longrightarrow> reaches slp s (as @ [a]) s2"

inductive_simps kstep_iff: "kstep slp s a s'"
inductive_cases reaches_NilE: "reaches slp s [] s'"

lemma ensures_snd: "ensures m (\<lambda>(r, s'). P s') \<Longrightarrow> ensures (bindE m (\<lambda>(_, s'). Inr s')) P"
  by (auto simp: ensures_def)

lemma running_live:
  assumes "stable s" "c < configNUMBER_OF_CORES" "\<not> pendsv s c" "\<not> idle_task s (cur s c)"
  shows "live s (cur s c)" "runs s c"
proof -
  show "runs s c" using assms(1-3) by (auto simp: stable_def pended_def)
  then show "live s (cur s c)" using assms(4) by (simp add: live_def runs_def)
qed

text \<open>No step changes a priority or a core affinity.\<close>

definition same_params :: "kernel \<Rightarrow> kernel \<Rightarrow> bool" where
  "same_params s s' \<longleftrightarrow> (\<forall>t. prio s' t = prio s t \<and> uxCoreAffinityMask (tcb s' t) = uxCoreAffinityMask (tcb s t))"

lemma perform_ok:
  assumes "stable s" "enabled (TaskCall c call) s"
  shows "ensures (perform c call s) (\<lambda>s'. stable s' \<and> same_params s s')"
proof -
  have c: "c < configNUMBER_OF_CORES" "\<not> pendsv s c" "\<not> idle_task s (cur s c)" using assms(2) by (simp_all add: enabled_def)
  note lv = running_live(1) [OF assms(1) c]
  show ?thesis
  proof (cases call)
    case (CallSuspend h)
    have "live s (target c h s)" using assms(2) by (simp add: enabled_def CallSuspend)
    then have "ensures (vTaskSuspend c h s) (\<lambda>(_, s'). stable s' \<and> same_params s s')"
      by (intro ensures_mono [OF vTaskSuspend_ok [OF assms(1) c(1)]]) (auto simp: parked_def same_params_def)
    from ensures_snd [OF this] show ?thesis by (simp add: perform_def CallSuspend)
  next
    case (CallResume h)
    show ?thesis
    proof (cases h)
      case None
      then show ?thesis using assms(1) by (simp add: perform_def CallResume vTaskResume_def same_params_def)
    next
      case (Some t)
      have "ensures (vTaskResume c (Some t) s) (\<lambda>(_, s'). stable s' \<and> same_params s s')"
        by (rule ensures_mono [OF vTaskResume_ok [OF assms(1) c(1)]])
          (auto simp: readied_def same_params_def split: if_splits)
      from ensures_snd [OF this] show ?thesis by (simp add: perform_def CallResume Some)
    qed
  next
    case (CallDelay n)
    have nest: "uxCriticalNestings s c = 0" using assms(1) c(1) by (simp add: stable_def)
    show ?thesis
    proof (cases "n = 0")
      case True
      then show ?thesis using vTaskDelay_0 [OF nest] stable_portYIELD [OF assms(1)]
        by (simp add: perform_def CallDelay same_params_def portYIELD_def)
    next
      case False
      from ensures_mono [OF vTaskDelay_ok [OF assms(1) c(1) lv False]] show ?thesis
        by (simp add: perform_def CallDelay delayed_by_def same_params_def)
    qed
  next
    case (CallDelayUntil prev inc)
    have "ensures (xTaskDelayUntil c prev inc s) (\<lambda>(_, s'). stable s' \<and> same_params s s')"
      by (rule ensures_mono [OF xTaskDelayUntil_ok [OF assms(1) c(1) lv]])
        (auto simp: delayed_by_def resumed_from_def same_params_def split: if_splits)
    from ensures_snd [OF this] show ?thesis by (simp add: perform_def CallDelayUntil)
  next
    case (CallDelete h)
    have "live s (target c h s)" using assms(2) by (simp add: enabled_def CallDelete)
    then have "ensures (vTaskDelete c h s) (\<lambda>(_, s'). stable s' \<and> same_params s s')"
      by (intro ensures_mono [OF vTaskDelete_ok [OF assms(1) c(1)]]) (auto simp: deleted_def Let_def same_params_def)
    from ensures_snd [OF this] show ?thesis by (simp add: perform_def CallDelete)
  next
    case (CallSleep n)
    then show ?thesis using assms(1) by (simp add: perform_def same_params_def)
  qed
qed

text \<open>With two idle tasks ready, the expected idle time is zero, and no tick is ever suppressed.\<close>

lemma two_ready:
  assumes "kinv s"
  shows "length (ready s 0) > 1"
proof -
  have "idle_wf s" "distinct (ready s 0)" using assms by (simp_all add: kinv_def lists_wf_def)
  then obtain i j where ij: "i \<in> set (ready s 0)" "j \<in> set (ready s 0)" "i \<noteq> j" "distinct (ready s 0)"
    unfolding idle_wf_def by (auto simp: all_cores)
  then have "card {i, j} \<le> card (set (ready s 0))" by (intro card_mono) auto
  then show ?thesis using ij(3,4) by (simp add: distinct_card)
qed

lemma prvGetExpectedIdleTime_ok:
  assumes "stable s" "c < configNUMBER_OF_CORES"
  shows "prvGetExpectedIdleTime c s = Inr 0"
proof -
  have "kinv s" using assms(1) by (simp add: stable_def)
  from two_ready [OF this] current_eq [OF this assms(2)] show ?thesis by (simp add: prvGetExpectedIdleTime_def)
qed

lemma prvIdleTask_ok:
  assumes "stable s" "c < configNUMBER_OF_CORES"
  shows "ensures (idle_sleep slp c s) (\<lambda>s'. stable s' \<and> same_params s s')"
    "uxDeletedTasksWaitingCleanUp s > 0 \<Longrightarrow>
      ensures (bindE (termination_round c s) (\<lambda>(_, s'). Inr s')) (\<lambda>s'. stable s' \<and> same_params s s')"
proof -
  show "ensures (idle_sleep slp c s) (\<lambda>s'. stable s' \<and> same_params s s')"
    using assms(1) prvGetExpectedIdleTime_ok [OF assms]
    by (simp add: idle_sleep_def configEXPECTED_IDLE_TIME_BEFORE_SLEEP_def same_params_def)
  assume "uxDeletedTasksWaitingCleanUp s > 0"
  then have "ensures (termination_round c s) (\<lambda>(r, s'). stable s' \<and> same_params s s')"
    by (intro ensures_mono [OF termination_round_ok [OF assms]]) (auto simp: reaped_def same_params_def)
  from ensures_snd [OF this]
  show "ensures (bindE (termination_round c s) (\<lambda>(_, s'). Inr s')) (\<lambda>s'. stable s' \<and> same_params s s')" .
qed

lemma act_ok:
  assumes "stable s" "enabled a s"
  shows "ensures (act slp a s) (\<lambda>s'. stable s' \<and> same_params s s')"
proof (cases a)
  case Tick
  have "(0::nat) < configNUMBER_OF_CORES" by (simp add: configNUMBER_OF_CORES_def)
  from ensures_mono [OF xPortSysTickHandler_ok [OF assms(1) this]] show ?thesis
    by (simp add: act_def Tick same_params_def aged_def quiet_def)
next
  case (Switch x)
  then have "x < configNUMBER_OF_CORES" using assms(2) by (simp add: enabled_def)
  from ensures_mono [OF vTaskSwitchContext_ok [OF assms(1) this]] show ?thesis
    by (simp add: act_def Switch same_params_def switched_def quiet_def set_yield_pending_def)
next
  case (TaskCall c call)
  then show ?thesis using perform_ok assms by (simp add: act_def)
next
  case (IdleRun c piece)
  then have c: "c < configNUMBER_OF_CORES" using assms(2) by (simp add: enabled_def)
  have y: "stable (portYIELD c s) \<and> same_params s (portYIELD c s)"
    using stable_portYIELD [OF assms(1)] by (simp add: same_params_def portYIELD_def)
  have "ensures (prvPassiveIdleTask c piece s) (\<lambda>s'. stable s' \<and> same_params s s')"
    using y assms(1) by (cases piece) (simp_all add: prvPassiveIdleTask_def same_params_def)
  moreover have "ensures (prvIdleTask slp c piece s) (\<lambda>s'. stable s' \<and> same_params s s')"
    using y assms(1) prvIdleTask_ok [OF assms(1) c] by (cases piece) (simp_all add: prvIdleTask_def same_params_def)
  ultimately show ?thesis by (simp add: act_def IdleRun)
qed

lemma kstep_ok: "stable s \<Longrightarrow> kstep slp s a s' \<Longrightarrow> stable s' \<and> same_params s s'"
  using act_ok [of s a slp] by (auto simp: kstep_iff ensures_def)

lemma reaches_ok: "reaches slp s as s' \<Longrightarrow> stable s \<Longrightarrow> stable s' \<and> same_params s s'"
proof (induction rule: reaches.induct)
  case (more s as s1 a s2)
  then show ?case using kstep_ok [OF _ more.hyps(2)] by (simp add: same_params_def)
qed (simp add: same_params_def)

end
