(* ===== verification/Boot.thy ===== *)
theory Boot
  imports KernelSteps PartitionResults
begin

text \<open>
  From power-on to the running scheduler: the kernel calls the partitioner issues, executed on the
  kernel, followed by \<open>vTaskStartScheduler\<close>.  The result is a stable state in which every task
  has the core affinity the partitioner gave it last.
\<close>

section \<open>The calls of \<open>main\<close>, executed\<close>

text \<open>The \<open>n\<close>-th creation gets the TCB \<open>mk n\<close>, or none when memory is exhausted; the callers do
  not look at the result of \<open>xTaskCreate\<close>.\<close>

definition boot_create :: "handle option \<Rightarrow> string \<Rightarrow> u8 \<Rightarrow> kernel \<Rightarrow> fault + kernel" where
  "boot_create h name pr s = (case h of None \<Rightarrow> Inr s
     | Some t \<Rightarrow> create_with_affinity 0 False name (ucast pr) configTASK_DEFAULT_CORE_AFFINITY t s)"

fun boot_calls :: "(nat \<Rightarrow> handle option) \<Rightarrow> task_info list \<Rightarrow> nat \<Rightarrow> kcall list \<Rightarrow> kernel \<Rightarrow> fault + kernel" where
  "boot_calls mk tab n [] s = Inr s"
| "boot_calls mk tab n (CallTaskCreate i code pr # cs) s =
     bindE (boot_create (mk n) (Task_Name (tab ! i)) pr s) (boot_calls mk tab (Suc n) cs)"
| "boot_calls mk tab n (CallMonitorCreate pr # cs) s =
     bindE (boot_create (mk n) ''MONITOR'' pr s) (boot_calls mk tab (Suc n) cs)"
| "boot_calls mk tab n (CallCoreAffinitySet h m # cs) s =
     bindE (vTaskCoreAffinitySet 0 h m s) (\<lambda>(_, s'). boot_calls mk tab n cs s')"

definition boot :: "(nat \<Rightarrow> handle option) \<Rightarrow> (nat \<Rightarrow> nat) \<Rightarrow> nat \<Rightarrow> task_info list \<Rightarrow> kcall list \<Rightarrow> fault + kernel" where
  "boot mk idle tmr tab calls = bindE (boot_calls mk tab 0 calls kernel_init) (vTaskStartScheduler idle tmr)"

text \<open>The TCBs that the allocator returns are distinct non-NULL addresses, and a core affinity is set only for a
  task that was created before, or for NULL, the handle of a task whose creation failed.  The result is the list of
  the created tasks.\<close>

fun created :: "(nat \<Rightarrow> handle option) \<Rightarrow> nat \<Rightarrow> nat list \<Rightarrow> kcall list \<Rightarrow> nat list option" where
  "created mk n H [] = Some H"
| "created mk n H (CallCoreAffinitySet h m # cs) =
     (case h of None \<Rightarrow> created mk n H cs | Some t \<Rightarrow> if t \<in> set H then created mk n H cs else None)"
| "created mk n H (_ # cs) = (case mk n of None \<Rightarrow> created mk (Suc n) H cs
     | Some t \<Rightarrow> if t \<in> set H \<or> t \<ge> 2 ^ 32 - 1 then None else created mk (Suc n) (t # H) cs)"

text \<open>The affinity of NULL is set.\<close>

definition sets_null_affinity :: "kcall list \<Rightarrow> bool" where
  "sets_null_affinity cs \<longleftrightarrow> (\<exists>c \<in> set cs. case c of CallCoreAffinitySet None m \<Rightarrow> True | _ \<Rightarrow> False)"

text \<open>The affinity a task has at the end.\<close>

fun final_mask :: "(nat \<Rightarrow> handle option) \<Rightarrow> nat \<Rightarrow> (nat \<Rightarrow> u32) \<Rightarrow> kcall list \<Rightarrow> nat \<Rightarrow> u32" where
  "final_mask mk n M [] = M"
| "final_mask mk n M (CallCoreAffinitySet h m # cs) =
     final_mask mk n (case h of None \<Rightarrow> M | Some t \<Rightarrow> M(t := m)) cs"
| "final_mask mk n M (_ # cs) =
     final_mask mk (Suc n) (case mk n of None \<Rightarrow> M | Some t \<Rightarrow> M(t := configTASK_DEFAULT_CORE_AFFINITY)) cs"

text \<open>Its priority, which \<open>prvInitialiseNewTask\<close> limits to \<open>configMAX_PRIORITIES - 1\<close>.\<close>

definition new_prio :: "u32 \<Rightarrow> nat" where
  "new_prio pr = (if unat pr \<ge> configMAX_PRIORITIES then configMAX_PRIORITIES - 1 else unat pr)"

fun final_prio :: "(nat \<Rightarrow> handle option) \<Rightarrow> nat \<Rightarrow> (nat \<Rightarrow> nat) \<Rightarrow> kcall list \<Rightarrow> nat \<Rightarrow> nat" where
  "final_prio mk n P [] = P"
| "final_prio mk n P (CallCoreAffinitySet h m # cs) = final_prio mk n P cs"
| "final_prio mk n P (CallTaskCreate i code pr # cs) =
     final_prio mk (Suc n) (case mk n of None \<Rightarrow> P | Some t \<Rightarrow> P(t := new_prio (ucast pr))) cs"
| "final_prio mk n P (CallMonitorCreate pr # cs) =
     final_prio mk (Suc n) (case mk n of None \<Rightarrow> P | Some t \<Rightarrow> P(t := new_prio (ucast pr))) cs"

section \<open>Before the scheduler runs\<close>

text \<open>\<open>H\<close> are the tasks created so far, \<open>X\<close> those that already stand on a core.\<close>

definition boot_wf :: "nat set \<Rightarrow> nat set \<Rightarrow> kernel \<Rightarrow> bool" where
  "boot_wf H X s \<longleftrightarrow> lists_wf s \<and> prios_wf s \<and> (\<forall>L. (\<forall>p. L \<noteq> ReadyL p) \<longrightarrow> lists s L = []) \<and>
     pxDelayedTaskList s = DelayedL1 \<and> pxOverflowDelayedTaskList s = DelayedL2 \<and>
     \<not> xSchedulerRunning s \<and> uxSchedulerSuspended s = 0 \<and> xPendedTicks s = 0 \<and>
     uxCriticalNestings s = (\<lambda>_. 0) \<and> uxDeletedTasksWaitingCleanUp s = 0 \<and>
     (\<forall>t. stateContainer (tcb s t) = (if t \<in> H then Some (ReadyL (prio s t)) else None)) \<and>
     (\<forall>t \<in> H. t < 2 ^ 32 - 1 \<and> (t \<notin> X \<longrightarrow> runstate s t = taskTASK_NOT_RUNNING)) \<and>
     (uxCurrentNumberOfTasks s = 0 \<longrightarrow> H = {})"

lemma boot_wf_init: "boot_wf {} {} kernel_init"
  by (simp add: boot_wf_def kernel_init_def lists_wf_def prios_wf_def zero_tcb_def configMAX_PRIORITIES_def)

lemma init_lists_same:
  assumes "\<forall>L. lists s L = []" "pxDelayedTaskList s = DelayedL1" "pxOverflowDelayedTaskList s = DelayedL2"
  shows "prvInitialiseTaskLists s = s"
proof -
  have set: "set_list L [] s = s" for L
  proof -
    have "(lists s)(L := []) = lists s" using assms(1) by (simp add: fun_upd_idem)
    then show ?thesis by (simp add: set_list_def)
  qed
  have f: "fold (\<lambda>p. set_list (ReadyL p) []) ps s = s" for ps by (induction ps) (simp_all add: set)
  have g: "fold (\<lambda>L. set_list L []) Ls s = s" for Ls by (induction Ls) (simp_all add: set)
  have "s\<lparr>pxDelayedTaskList := DelayedL1, pxOverflowDelayedTaskList := DelayedL2\<rparr> = s" using assms(2,3) by simp
  then show ?thesis unfolding prvInitialiseTaskLists_def Let_def f g .
qed

lemma boot_wf_empty:
  assumes "boot_wf H X s" "uxCurrentNumberOfTasks s = 0"
  shows "\<forall>L. lists s L = []"
proof
  fix L
  have n: "\<forall>u. stateContainer (tcb s u) = None" using assms by (simp add: boot_wf_def)
  have l: "lists_wf s" and o: "\<forall>L. (\<forall>p. L \<noteq> ReadyL p) \<longrightarrow> lists s L = []" using assms(1) by (simp_all add: boot_wf_def)
  show "lists s L = []"
  proof (cases "\<exists>p. L = ReadyL p")
    case True
    then have "state_list L" by auto
    then have "u \<notin> set (lists s L)" for u using l n by (simp add: lists_wf_def)
    then show ?thesis by (cases "lists s L") auto
  next
    case False
    then show ?thesis using o by blast
  qed
qed

text \<open>A creation before the scheduler runs appends the new TCB to the ready list of its priority.\<close>

definition new_tcb :: "bool \<Rightarrow> string \<Rightarrow> u32 \<Rightarrow> u32 \<Rightarrow> tcb_rec" where
  "new_tcb idle name pr aff = zero_tcb\<lparr>uxCoreAffinityMask := aff, pcTaskName := take (configMAX_TASK_NAME_LEN - 1) name,
    uxPriority := new_prio pr, uxBasePriority := new_prio pr,
    xEventListItem := of_nat configMAX_PRIORITIES - of_nat (new_prio pr),
    xTaskRunState := taskTASK_NOT_RUNNING, isIdle := idle\<rparr>"

lemma new_tcb_sel [simp]:
  "uxCoreAffinityMask (new_tcb i n p a) = a" "uxPriority (new_tcb i n p a) = new_prio p"
  "uxBasePriority (new_tcb i n p a) = new_prio p" "xTaskRunState (new_tcb i n p a) = taskTASK_NOT_RUNNING"
  "isIdle (new_tcb i n p a) = i" "stateContainer (new_tcb i n p a) = None" "eventContainer (new_tcb i n p a) = None"
  by (simp_all add: new_tcb_def zero_tcb_def)

lemma new_prio_less [simp]: "new_prio pr < configMAX_PRIORITIES"
  by (simp add: new_prio_def configMAX_PRIORITIES_def)

definition with_new :: "nat \<Rightarrow> tcb_rec \<Rightarrow> kernel \<Rightarrow> kernel" where
  "with_new t x s = (let q = uxPriority x in s\<lparr>tcb := (tcb s)(t := x\<lparr>stateContainer := Some (ReadyL q)\<rparr>),
     lists := (lists s)(ReadyL q := ready s q @ [t]), uxTopReadyPriority := max q (uxTopReadyPriority s),
     uxCurrentNumberOfTasks := uxCurrentNumberOfTasks s + 1, uxTaskNumber := uxTaskNumber s + 1\<rparr>)"

lemma with_new_sel [simp]:
  "pxCurrentTCBs (with_new t x s) = pxCurrentTCBs s" "xIdleTaskHandles (with_new t x s) = xIdleTaskHandles s"
  "tcb (with_new t x s) u = (if u = t then x\<lparr>stateContainer := Some (ReadyL (uxPriority x))\<rparr> else tcb s u)"
  by (simp_all add: with_new_def Let_def)

lemma new_task_eq:
  "upd_tcb t (\<lambda>y. y\<lparr>uxCoreAffinityMask := aff\<rparr>) (prvInitialiseNewTask idle name pr t (upd_tcb t (\<lambda>_. zero_tcb) s)) =
     s\<lparr>tcb := (tcb s)(t := new_tcb idle name pr aff)\<rparr>"
  by (simp add: prvInitialiseNewTask_def upd_tcb_def Let_def new_tcb_def new_prio_def zero_tcb_def)

lemma create_eq:
  assumes b: "boot_wf H X s"
  shows "create_with_affinity c idle name pr aff t s = Inr (with_new t (new_tcb idle name pr aff) s)"
proof -
  let ?x = "new_tcb idle name pr aff"
  let ?s1 = "s\<lparr>tcb := (tcb s)(t := ?x)\<rparr>"
  let ?s2 = "?s1\<lparr>uxCurrentNumberOfTasks := uxCurrentNumberOfTasks ?s1 + 1\<rparr>"
  have nr: "\<not> xSchedulerRunning s" using b by (simp add: boot_wf_def)
  have il: "(if \<not> xSchedulerRunning ?s2 \<and> uxCurrentNumberOfTasks ?s2 = 1 then prvInitialiseTaskLists ?s2 else ?s2) = ?s2"
  proof (cases "uxCurrentNumberOfTasks s = 0")
    case True
    have "prvInitialiseTaskLists ?s2 = ?s2"
      using boot_wf_empty [OF b True] b by (intro init_lists_same) (simp_all add: boot_wf_def)
    then show ?thesis using True by simp
  qed simp
  have e: "vTaskEnterCritical c ?s1 = ?s1" using nr by (simp add: vTaskEnterCritical_def)
  have a: "prvAddTaskToReadyList t (?s2\<lparr>uxTaskNumber := uxTaskNumber s + 1\<rparr>) = Inr (with_new t ?x s)"
    by (simp add: prvAddTaskToReadyList_def state_insert_end_def prim_defs with_new_def Let_def max_def)
  have w: "\<not> xSchedulerRunning (with_new t ?x s)" "vTaskExitCritical c (with_new t ?x s) = with_new t ?x s"
    using nr by (simp_all add: with_new_def vTaskExitCritical_def Let_def)
  show ?thesis unfolding create_with_affinity_def new_task_eq prvAddNewTaskToReadyList_def Let_def e il
    using a w by simp
qed

lemma with_new_wf:
  assumes b: "boot_wf H X s" and t: "t \<notin> H" "t < 2 ^ 32 - 1"
  shows "boot_wf (insert t H) (X - {t}) (with_new t (new_tcb idle name pr aff) s)"
proof -
  let ?x = "new_tcb idle name pr aff" and ?q = "new_prio pr"
  let ?s = "with_new t ?x s"
  have l: "lists_wf s" and p: "prios_wf s" and sc: "stateContainer (tcb s t) = None"
    and o: "\<forall>L. (\<forall>p. L \<noteq> ReadyL p) \<longrightarrow> lists s L = []" using b t(1) by (simp_all add: boot_wf_def)
  have out: "t \<notin> set (lists s L)" for L
  proof (cases "state_list L")
    case True
    then show ?thesis using l sc by (simp add: lists_wf_def)
  next
    case False
    then have "\<forall>p. L \<noteq> ReadyL p" by auto
    then show ?thesis using o by simp
  qed
  have tc: "tcb ?s = (tcb s)(t := ?x\<lparr>stateContainer := Some (ReadyL ?q)\<rparr>)"
    and ls: "lists ?s = (lists s)(ReadyL ?q := ready s ?q @ [t])" by (simp_all add: with_new_def Let_def)
  have "lists_wf ?s"
    unfolding lists_wf_def
  proof (intro conjI allI impI)
    fix L u
    show "distinct (lists ?s L)" using l out [of "ReadyL ?q"] unfolding lists_wf_def by (auto simp: ls)
    have "u \<in> set (lists s L) \<longleftrightarrow>
       (if state_list L then stateContainer (tcb s u) = Some L else eventContainer (tcb s u) = Some L)"
      using l by (simp add: lists_wf_def)
    then show "u \<in> set (lists ?s L) \<longleftrightarrow>
       (if state_list L then stateContainer (tcb ?s u) = Some L else eventContainer (tcb ?s u) = Some L)"
      using out [of L] by (auto simp: ls tc)
    show "state_list L" if "stateContainer (tcb ?s u) = Some L" using that l by (auto simp: tc lists_wf_def split: if_splits)
    show "\<not> state_list L" if "eventContainer (tcb ?s u) = Some L" using that l by (auto simp: tc lists_wf_def split: if_splits)
  qed
  moreover have "prios_wf ?s"
    using p out unfolding prios_wf_def by (auto simp: with_new_def Let_def le_max_iff_disj)
  moreover have "\<forall>L. (\<forall>p. L \<noteq> ReadyL p) \<longrightarrow> lists ?s L = []" using o by (simp add: ls)
  ultimately show ?thesis using b t unfolding boot_wf_def
    by (simp add: tc) (simp add: with_new_def Let_def)
qed

text \<open>The fields that \<open>boot_wf\<close> does not speak of; the tasks in \<open>X\<close> may get another run state.\<close>

definition boot_same :: "nat set \<Rightarrow> kernel \<Rightarrow> kernel \<Rightarrow> bool" where
  "boot_same X s s' \<longleftrightarrow> lists s' = lists s \<and>
     (\<forall>u. stateContainer (tcb s' u) = stateContainer (tcb s u) \<and> eventContainer (tcb s' u) = eventContainer (tcb s u) \<and>
        prio s' u = prio s u \<and> uxBasePriority (tcb s' u) = uxBasePriority (tcb s u) \<and>
        (u \<notin> X \<longrightarrow> runstate s' u = runstate s u)) \<and>
     uxTopReadyPriority s' = uxTopReadyPriority s \<and> pxDelayedTaskList s' = pxDelayedTaskList s \<and>
     pxOverflowDelayedTaskList s' = pxOverflowDelayedTaskList s \<and> xSchedulerRunning s' = xSchedulerRunning s \<and>
     uxSchedulerSuspended s' = uxSchedulerSuspended s \<and> xPendedTicks s' = xPendedTicks s \<and>
     uxCriticalNestings s' = uxCriticalNestings s \<and> uxDeletedTasksWaitingCleanUp s' = uxDeletedTasksWaitingCleanUp s \<and>
     uxCurrentNumberOfTasks s' = uxCurrentNumberOfTasks s"

lemma boot_wf_same:
  assumes b: "boot_wf H X s" and X: "X \<subseteq> X'" and e: "boot_same X' s s'"
  shows "boot_wf H X' s'"
proof -
  have l: "lists_wf s" and p: "prios_wf s" using b by (simp_all add: boot_wf_def)
  have tc: "stateContainer (tcb s' u) = stateContainer (tcb s u)" "eventContainer (tcb s' u) = eventContainer (tcb s u)"
    "prio s' u = prio s u" "uxBasePriority (tcb s' u) = uxBasePriority (tcb s u)" for u
    using e by (simp_all add: boot_same_def)
  have ls: "lists s' = lists s" "uxTopReadyPriority s' = uxTopReadyPriority s" using e by (simp_all add: boot_same_def)
  have "lists_wf s'" using l unfolding lists_wf_def tc ls .
  moreover have "prios_wf s'" using p unfolding prios_wf_def tc ls .
  moreover have "\<forall>t \<in> H. t < 2 ^ 32 - 1 \<and> (t \<notin> X' \<longrightarrow> runstate s' t = taskTASK_NOT_RUNNING)"
    using b X e unfolding boot_wf_def boot_same_def by (metis subsetD)
  ultimately show ?thesis using b e unfolding boot_wf_def boot_same_def by simp
qed

abbreviation masks :: "kernel \<Rightarrow> nat \<Rightarrow> u32" where
  "masks s \<equiv> \<lambda>t. uxCoreAffinityMask (tcb s t)"

lemma affinity_before_start:
  assumes b: "boot_wf H X s" and t: "t \<in> H"
  shows "\<exists>s'. vTaskCoreAffinitySet c (Some t) m s = Inr ((), s') \<and> boot_wf H X s' \<and> masks s' = (masks s)(t := m) \<and>
    prio s' = prio s \<and> pxCurrentTCBs s' = pxCurrentTCBs s"
proof -
  let ?s = "upd_tcb t (\<lambda>x. x\<lparr>uxCoreAffinityMask := m\<rparr>) s"
  have nr: "\<not> xSchedulerRunning s" using b by (simp add: boot_wf_def)
  have "vTaskCoreAffinitySet c (Some t) m s = Inr ((), ?s)"
    using nr by (simp add: vTaskCoreAffinitySet_def critical_def vTaskEnterCritical_def vTaskExitCritical_def
        prvGetTCBFromHandle_def upd_tcb_def)
  moreover have "boot_wf H X ?s" by (rule boot_wf_same [OF b order_refl]) (auto simp: boot_same_def upd_tcb_def)
  moreover have "masks ?s = (masks s)(t := m)" "prio ?s = prio s" "pxCurrentTCBs ?s = pxCurrentTCBs s"
    by (auto simp: upd_tcb_def)
  ultimately show ?thesis by blast
qed

lemma boot_create_ok:
  assumes b: "boot_wf H {} s" and t: "\<And>t. h = Some t \<Longrightarrow> t \<notin> H \<and> t < 2 ^ 32 - 1"
  shows "ensures (boot_create h name pr s) (\<lambda>s'. boot_wf (H \<union> set_option h) {} s' \<and>
    masks s' = (case h of None \<Rightarrow> masks s | Some t \<Rightarrow> (masks s)(t := configTASK_DEFAULT_CORE_AFFINITY)) \<and>
    prio s' = (case h of None \<Rightarrow> prio s | Some t \<Rightarrow> (prio s)(t := new_prio (ucast pr))) \<and>
    pxCurrentTCBs s' = pxCurrentTCBs s)"
proof (cases h)
  case None
  then show ?thesis using b by (simp add: boot_create_def)
next
  case (Some t)
  have "t \<notin> H" "t < 2 ^ 32 - 1" using assms(2) [OF Some] by simp_all
  from with_new_wf [OF b this] show ?thesis
    using b by (auto simp: boot_create_def Some create_eq with_new_def Let_def)
qed

text \<open>Before the scheduler runs there is no current task, for which NULL would stand.\<close>

lemma null_affinity_before_start: "pxCurrentTCBs s = (\<lambda>_. None) \<Longrightarrow> vTaskCoreAffinitySet c None m s = Inl NullDeref"
  by (simp add: vTaskCoreAffinitySet_def critical_def prvGetTCBFromHandle_def current_def follow_def vTaskEnterCritical_def
      set_nesting_def)

lemma boot_calls_ok:
  assumes "boot_wf (set H) {} s" "pxCurrentTCBs s = (\<lambda>_. None)" "created mk n H cs = Some H'"
  shows "if sets_null_affinity cs then boot_calls mk tab n cs s = Inl NullDeref
    else ensures (boot_calls mk tab n cs s) (\<lambda>s'. boot_wf (set H') {} s' \<and>
      masks s' = final_mask mk n (masks s) cs \<and> prio s' = final_prio mk n (prio s) cs)"
  using assms
proof (induction cs arbitrary: n H s)
  case Nil
  then show ?case by (simp add: sets_null_affinity_def)
next
  case (Cons c cs)
  let ?M = "case mk n of None \<Rightarrow> masks s | Some t \<Rightarrow> (masks s)(t := configTASK_DEFAULT_CORE_AFFINITY)"
  let ?P = "\<lambda>pr :: u8. case mk n of None \<Rightarrow> prio s | Some t \<Rightarrow> (prio s)(t := new_prio (ucast pr))"
  have new: "if sets_null_affinity cs then bindE (boot_create (mk n) name pr s) (boot_calls mk tab (Suc n) cs) = Inl NullDeref
      else ensures (bindE (boot_create (mk n) name pr s) (boot_calls mk tab (Suc n) cs))
        (\<lambda>s'. boot_wf (set H') {} s' \<and> masks s' = final_mask mk (Suc n) ?M cs \<and> prio s' = final_prio mk (Suc n) (?P pr) cs)"
    if c: "(case mk n of None \<Rightarrow> created mk (Suc n) H cs
     | Some t \<Rightarrow> if t \<in> set H \<or> t \<ge> 2 ^ 32 - 1 then None else created mk (Suc n) (t # H) cs) = Some H'" for name pr
  proof -
    have "t \<notin> set H \<and> t < 2 ^ 32 - 1" if "mk n = Some t" for t using c that by (simp split: if_splits)
    then obtain s1 where s1: "boot_create (mk n) name pr s = Inr s1" "boot_wf (set H \<union> set_option (mk n)) {} s1"
      "masks s1 = ?M" "prio s1 = ?P pr" "pxCurrentTCBs s1 = (\<lambda>_. None)"
      using boot_create_ok [OF Cons.prems(1), of "mk n" name pr] Cons.prems(2) by (auto simp: ensures_def)
    obtain H1 where "boot_wf (set H1) {} s1" "created mk (Suc n) H1 cs = Some H'"
    proof (cases "mk n")
      case None
      then show ?thesis using that [of H] s1(2) c by simp
    next
      case (Some t)
      then show ?thesis using that [of "t # H"] s1(2) c by (simp split: if_splits)
    qed
    from Cons.IH [OF this(1) s1(5) this(2)] show ?thesis unfolding s1(1,3,4) by simp
  qed
  show ?case
  proof (cases c)
    case (CallCoreAffinitySet h m)
    show ?thesis
    proof (cases h)
      case None
      then show ?thesis using null_affinity_before_start [OF Cons.prems(2)] by (simp add: CallCoreAffinitySet sets_null_affinity_def)
    next
      case (Some t)
      then have t: "t \<in> set H" "created mk n H cs = Some H'"
        using Cons.prems(3) CallCoreAffinitySet by (auto split: if_splits)
      obtain s1 where s1: "vTaskCoreAffinitySet 0 (Some t) m s = Inr ((), s1)" "boot_wf (set H) {} s1"
        "masks s1 = (masks s)(t := m)" "prio s1 = prio s" "pxCurrentTCBs s1 = (\<lambda>_. None)"
        using affinity_before_start [OF Cons.prems(1) t(1)] Cons.prems(2) by fastforce
      show ?thesis using Cons.IH [OF s1(2,5) t(2)] s1(1) unfolding s1(3,4)
        by (simp add: CallCoreAffinitySet Some sets_null_affinity_def)
    qed
  next
    case (CallTaskCreate i code pr)
    then show ?thesis using new Cons.prems(3) by (simp add: sets_null_affinity_def)
  next
    case (CallMonitorCreate pr)
    then show ?thesis using new Cons.prems(3) by (simp add: sets_null_affinity_def)
  qed
qed

section \<open>The start of the scheduler\<close>

text \<open>The idle task of core \<open>x\<close> is created and put on its core.\<close>

abbreviation idle_tcb :: "nat \<Rightarrow> tcb_rec" where
  "idle_tcb x \<equiv> new_tcb True (''ID'' @ (if x = 0 then ''0'' else ''1'')) 0 configTASK_DEFAULT_CORE_AFFINITY"

definition idle_started :: "nat \<Rightarrow> nat \<Rightarrow> kernel \<Rightarrow> kernel" where
  "idle_started x t s = (let s1 = with_new t (idle_tcb x) s;
     s2 = s1\<lparr>xIdleTaskHandles := (xIdleTaskHandles s1)(x := Some t)\<rparr>;
     s3 = upd_tcb t (\<lambda>k. k\<lparr>xTaskRunState := int x\<rparr>) s2
   in s3\<lparr>pxCurrentTCBs := (pxCurrentTCBs s3)(x := Some t)\<rparr>)"

lemma new_prio_0 [simp]: "new_prio 0 = 0"
  by (simp add: new_prio_def configMAX_PRIORITIES_def)

lemma idle_started_fields [simp]:
  "pxCurrentTCBs (idle_started x t s) = (pxCurrentTCBs s)(x := Some t)"
  "xIdleTaskHandles (idle_started x t s) = (xIdleTaskHandles s)(x := Some t)"
  "tcb (idle_started x t s) = (tcb s)(t := (idle_tcb x)\<lparr>stateContainer := Some (ReadyL 0), xTaskRunState := int x\<rparr>)"
  "xTickCount (idle_started x t s) = xTickCount s" "pendsv (idle_started x t s) = pendsv s"
  by (simp_all add: idle_started_def with_new_def upd_tcb_def Let_def)

lemma idle_started_wf:
  assumes "boot_wf H X s" "t \<notin> H" "t < 2 ^ 32 - 1"
  shows "boot_wf (insert t H) (insert t X) (idle_started x t s)"
  by (rule boot_wf_same [OF with_new_wf [OF assms, where idle = True and name = "''ID'' @ (if x = 0 then ''0'' else ''1'')"
        and pr = 0 and aff = configTASK_DEFAULT_CORE_AFFINITY]])
    (auto simp: boot_same_def idle_started_def upd_tcb_def Let_def)

lemma create_idle_ok:
  assumes "boot_wf H {} s" "mk 0 \<notin> H" "mk 1 \<notin> H" "mk 0 \<noteq> mk 1" "mk 0 < 2 ^ 32 - 1" "mk 1 < 2 ^ 32 - 1"
  defines "s' \<equiv> idle_started 1 (mk 1) (idle_started 0 (mk 0) s)"
  shows "prvCreateIdleTasks c mk s = Inr s'" "boot_wf (insert (mk 1) (insert (mk 0) H)) {mk 0, mk 1} s'"
proof -
  note b1 = idle_started_wf [OF assms(1,2,5), of 0]
  have n: "mk 1 \<notin> insert (mk 0) H" using assms(3,4) by auto
  show "boot_wf (insert (mk 1) (insert (mk 0) H)) {mk 0, mk 1} s'"
    using idle_started_wf [OF b1 n assms(6), of 1] by (simp add: s'_def insert_commute)
  have "[0..<configNUMBER_OF_CORES] = [0, 1]" by (simp add: configNUMBER_OF_CORES_def numeral_2_eq_2)
  then show "prvCreateIdleTasks c mk s = Inr s'"
    unfolding prvCreateIdleTasks_def
    by (simp add: create_eq [OF assms(1)] create_eq [OF b1, unfolded idle_started_def Let_def, simplified]
        s'_def idle_started_def Let_def)
qed

lemma start_stable:
  assumes b: "boot_wf H {i0, i1} s" and ne: "i0 \<noteq> i1" and H: "i0 \<in> H" "i1 \<in> H"
    and c: "pxCurrentTCBs s 0 = Some i0" "pxCurrentTCBs s 1 = Some i1" "xIdleTaskHandles s 0 = Some i0"
      "xIdleTaskHandles s 1 = Some i1" "isIdle (tcb s i0)" "isIdle (tcb s i1)" "prio s i0 = 0" "prio s i1 = 0"
      "masks s i0 = -1" "masks s i1 = -1" "runstate s i0 = 0" "runstate s i1 = 1"
  shows "stable (s\<lparr>xNextTaskUnblockTime := portMAX_DELAY, xSchedulerRunning := True, xTickCount := 0\<rparr>)"
proof -
  let ?s = "s\<lparr>xNextTaskUnblockTime := portMAX_DELAY, xSchedulerRunning := True, xTickCount := 0\<rparr>"
  have l: "lists_wf s" and p: "prios_wf s" and o: "\<forall>L. (\<forall>p. L \<noteq> ReadyL p) \<longrightarrow> lists s L = []"
    and sc: "\<And>t. stateContainer (tcb s t) = (if t \<in> H then Some (ReadyL (prio s t)) else None)"
    and ds: "pxDelayedTaskList s = DelayedL1" "pxOverflowDelayedTaskList s = DelayedL2"
    and rs: "\<And>t. t \<in> H \<Longrightarrow> t < 2 ^ 32 - 1 \<and> (t \<notin> {i0, i1} \<longrightarrow> runstate s t = taskTASK_NOT_RUNNING)"
    using b by (simp_all add: boot_wf_def)
  have em: "lists s DelayedL1 = []" "lists s DelayedL2 = []" "lists s TerminationL = []" "lists s PendingReadyL = []"
    using o by blast+
  have rd: "t \<in> set (ready s q) \<longleftrightarrow> stateContainer (tcb s t) = Some (ReadyL q)" for t q
  proof -
    have "\<forall>L t. t \<in> set (lists s L) \<longleftrightarrow>
      (if state_list L then stateContainer (tcb s t) = Some L else eventContainer (tcb s t) = Some L)"
      using l unfolding lists_wf_def by blast
    then show ?thesis by simp
  qed
  have "lists_wf ?s" using l by (simp add: lists_wf_def)
  moreover have "prios_wf ?s" using p by (simp add: prios_wf_def)
  moreover have "delays_wf ?s" using ds em by (simp add: delays_wf_def)
  moreover have "cores_wf ?s" using c ne rs sc
    by (auto simp: cores_wf_def cur_def may_run_on_def settled_def all_cores ex_core split: if_splits)
  moreover have "idle_wf ?s" using c ne H sc
    by (auto simp: idle_wf_def rd may_run_on_def all_cores)
  ultimately have k: "kinv ?s" by (simp add: kinv_def)
  have "pended ?s" using c H sc by (simp add: pended_def runs_def cur_def all_cores)
  moreover have "ontime ?s" using sc ds by (simp add: ontime_def)
  moreover have "addressed ?s" using sc rs by (auto simp: addressed_def split: if_splits)
  ultimately show ?thesis using k em b unfolding stable_def boot_wf_def by simp
qed

text \<open>The TCBs of the idle tasks and of the timer task are not those of other tasks.\<close>

definition fresh :: "(nat \<Rightarrow> nat) \<Rightarrow> nat \<Rightarrow> nat set \<Rightarrow> bool" where
  "fresh mk tmr H \<longleftrightarrow> distinct [mk 0, mk 1, tmr] \<and> (\<forall>t \<in> {mk 0, mk 1, tmr}. t \<notin> H \<and> t < 2 ^ 32 - 1)"

lemma vTaskStartScheduler_ok:
  assumes b: "boot_wf H {} s" and f: "fresh mk tmr H"
  shows "ensures (vTaskStartScheduler mk tmr s) (\<lambda>s'. stable s' \<and> (\<forall>t \<in> H. masks s' t = masks s t \<and> prio s' t = prio s t) \<and>
    xIdleTaskHandles s' 0 = Some (mk 0) \<and> xIdleTaskHandles s' 1 = Some (mk 1))"
proof -
  have i: "mk 0 \<notin> H" "mk 1 \<notin> H" "mk 0 \<noteq> mk 1" "mk 0 < 2 ^ 32 - 1" "mk 1 < 2 ^ 32 - 1"
    and tm: "tmr \<notin> insert (mk 1) (insert (mk 0) H)" "tmr < 2 ^ 32 - 1" using f by (auto simp: fresh_def)
  let ?i = "idle_started 1 (mk 1) (idle_started 0 (mk 0) s)"
  let ?x = "new_tcb False ''Tmr Svc'' (of_nat (configMAX_PRIORITIES - 1)) configTASK_DEFAULT_CORE_AFFINITY"
  note idle = create_idle_ok [where mk = mk, OF b i]
  note s2 = with_new_wf [OF idle(2) tm, where idle = False and name = "''Tmr Svc''"
      and pr = "of_nat (configMAX_PRIORITIES - 1)" and aff = configTASK_DEFAULT_CORE_AFFINITY]
  have tn: "tmr \<noteq> mk 0" "tmr \<noteq> mk 1" using tm by auto
  then have X: "{mk 0, mk 1} - {tmr} = {mk 0, mk 1}" by auto
  have st: "stable ((with_new tmr ?x ?i)\<lparr>xNextTaskUnblockTime := portMAX_DELAY, xSchedulerRunning := True, xTickCount := 0\<rparr>)"
    by (rule start_stable [OF s2 [unfolded X] i(3)])
      (use tn i(3) in \<open>simp_all add: configTASK_DEFAULT_CORE_AFFINITY_def\<close>)
  have "t \<noteq> tmr" "t \<noteq> mk 0" "t \<noteq> mk 1" if "t \<in> H" for t using that tm i by auto
  then show ?thesis using st i(3) tn
    by (simp add: vTaskStartScheduler_def idle(1) create_eq [OF idle(2)] del: One_nat_def)
qed

text \<open>The affinity of a task that could not be created is a fault; otherwise the state after the start is stable,
  every task with the affinity it was given last.\<close>

lemma boot_ok:
  assumes "created mk 0 [] calls = Some H" "fresh idle tmr (set H)"
  shows "if sets_null_affinity calls then boot mk idle tmr tab calls = Inl NullDeref
    else ensures (boot mk idle tmr tab calls) (\<lambda>s. stable s \<and>
      (\<forall>t \<in> set H. masks s t = final_mask mk 0 (\<lambda>_. 0) calls t \<and> prio s t = final_prio mk 0 (\<lambda>_. 0) calls t))"
proof -
  have i: "boot_wf (set []) {} kernel_init" "pxCurrentTCBs kernel_init = (\<lambda>_. None)" "masks kernel_init = (\<lambda>_. 0)"
    "prio kernel_init = (\<lambda>_. 0)" using boot_wf_init by (simp_all add: kernel_init_def zero_tcb_def)
  note calls = boot_calls_ok [OF i(1,2) assms(1), of tab, unfolded i(3,4)]
  show ?thesis
  proof (cases "sets_null_affinity calls")
    case True
    then show ?thesis using calls by (simp add: boot_def)
  next
    case False
    then have c: "ensures (boot_calls mk tab 0 calls kernel_init) (\<lambda>s. boot_wf (set H) {} s \<and>
      masks s = final_mask mk 0 (\<lambda>_. 0) calls \<and> prio s = final_prio mk 0 (\<lambda>_. 0) calls)" using calls by simp
    have "ensures (vTaskStartScheduler idle tmr s) (\<lambda>s. stable s \<and>
      (\<forall>t \<in> set H. masks s t = final_mask mk 0 (\<lambda>_. 0) calls t \<and> prio s t = final_prio mk 0 (\<lambda>_. 0) calls t))"
      if "boot_wf (set H) {} s \<and> masks s = final_mask mk 0 (\<lambda>_. 0) calls \<and> prio s = final_prio mk 0 (\<lambda>_. 0) calls" for s
      using that by (intro ensures_mono [OF vTaskStartScheduler_ok [OF _ assms(2)]]) (auto simp: fun_eq_iff)
    from ensures_bind [OF c this] show ?thesis using False by (simp add: boot_def)
  qed
qed

end
