(* ===== verification/KernelExample.thy ===== *)
theory KernelExample
  imports Boot
begin

text \<open>
  A kernel in mid-operation, on which the properties of the kernel are exercised: tasks 1 and 2 run
  on cores 0 and 1, task 6 is ready and may only run on core 0, task 3 sleeps for 5 ticks, task 4 is
  suspended, task 5 has been deleted and waits for its memory to be freed, 10 and 11 are the idle
  tasks.  The state is stable.
\<close>

definition demo_task :: "nat \<Rightarrow> u32 \<Rightarrow> int \<Rightarrow> klist \<Rightarrow> u32 \<Rightarrow> tcb_rec" where
  "demo_task pr aff rs L v = zero_tcb\<lparr>uxPriority := pr, uxBasePriority := pr, uxCoreAffinityMask := aff,
     xTaskRunState := rs, stateContainer := Some L, xStateListItem := v\<rparr>"

definition demo :: kernel where
  "demo = kernel_init\<lparr>
     tcb := (\<lambda>_. zero_tcb)(1 := demo_task 3 1 0 (ReadyL 3) 0, 2 := demo_task 2 2 1 (ReadyL 2) 0,
       3 := demo_task 3 3 (-1) DelayedL1 105, 4 := demo_task 4 1 (-1) SuspendedL 0,
       5 := demo_task 1 3 (-1) TerminationL 0, 6 := demo_task 2 1 (-1) (ReadyL 2) 0,
       10 := (demo_task 0 (-1) (-1) (ReadyL 0) 0)\<lparr>isIdle := True\<rparr>,
       11 := (demo_task 0 (-1) (-1) (ReadyL 0) 0)\<lparr>isIdle := True\<rparr>),
     lists := (\<lambda>_. [])(ReadyL 0 := [10, 11], ReadyL 2 := [2, 6], ReadyL 3 := [1], DelayedL1 := [3],
       SuspendedL := [4], TerminationL := [5]),
     pxCurrentTCBs := (\<lambda>_. None)(0 := Some 1, 1 := Some 2),
     xIdleTaskHandles := (\<lambda>_. None)(0 := Some 10, 1 := Some 11),
     uxDeletedTasksWaitingCleanUp := 1, uxCurrentNumberOfTasks := 8, xTickCount := 100,
     uxTopReadyPriority := 3, xSchedulerRunning := True, uxTaskNumber := 8, xNextTaskUnblockTime := 105\<rparr>"

lemmas demo_defs = demo_def demo_task_def kernel_init_def zero_tcb_def

lemma demo_lists_wf: "lists_wf demo"
  unfolding lists_wf_def
proof (intro conjI allI impI)
  fix L t
  show "distinct (lists demo L)" by (simp add: demo_defs)
  show "(t \<in> set (lists demo L)) =
      (if state_list L then stateContainer (tcb demo t) = Some L else eventContainer (tcb demo t) = Some L)"
    by (cases L) (auto simp: demo_defs)
  show "state_list L" if "stateContainer (tcb demo t) = Some L" using that by (auto simp: demo_defs split: if_splits)
  show "\<not> state_list L" if "eventContainer (tcb demo t) = Some L" using that by (auto simp: demo_defs split: if_splits)
qed

lemma demo_stable: "stable demo"
proof -
  have "prios_wf demo" by (auto simp: prios_wf_def demo_defs configMAX_PRIORITIES_def split: if_splits)
  moreover have "delays_wf demo" by (simp add: delays_wf_def demo_defs)
  moreover have "cores_wf demo"
    by (auto simp: cores_wf_def settled_def cur_def may_run_on_def demo_defs taskTASK_NOT_RUNNING_def
        all_cores ex_core)
  moreover have "idle_wf demo" by (simp add: idle_wf_def may_run_on_def demo_defs all_cores)
  moreover have "pended demo" by (simp add: pended_def runs_def cur_def demo_defs all_cores)
  moreover have "ontime demo" by (auto simp: ontime_def demo_defs)
  moreover have "addressed demo" by (auto simp: addressed_def demo_defs split: if_splits)
  ultimately show ?thesis using demo_lists_wf
    by (simp add: stable_def kinv_def) (simp add: demo_defs)
qed

end
