(* ===== verification/EventProps.thy ===== *)
theory EventProps
  imports KernelSteps
begin

text \<open>
  Event lists: a task that waits for an event sleeps or is suspended as well, and is in one event list;
  waking the first task of a list makes it ready and moves nothing else, and blocking on a list puts the
  calling task there for exactly the time it asked for.
\<close>

section \<open>Waiting tasks\<close>

definition waiters_wf :: "kernel \<Rightarrow> bool" where
  "waiters_wf s \<longleftrightarrow> (\<forall>t. eventContainer (tcb s t) \<noteq> None \<longrightarrow>
     stateContainer (tcb s t) \<in> {Some DelayedL1, Some DelayedL2, Some SuspendedL})"

text \<open>No event list has changed.\<close>

definition ev_same :: "kernel \<Rightarrow> kernel \<Rightarrow> bool" where
  "ev_same s s' \<longleftrightarrow> (\<forall>u. eventContainer (tcb s' u) = eventContainer (tcb s u)) \<and>
     (\<forall>m. lists s' (EventL m) = lists s (EventL m))"

lemma ev_same_refl [simp]: "ev_same s s"
  by (simp add: ev_same_def)

lemma ev_same_trans [trans]: "ev_same s s1 \<Longrightarrow> ev_same s1 s2 \<Longrightarrow> ev_same s s2"
  by (simp add: ev_same_def)

lemma ev_same_yields: "yields s s' \<Longrightarrow> ev_same s s'"
  by (simp add: ev_same_def yields_same)

lemma ev_same_reset: "ev_same s (prvResetNextTaskUnblockTime s)"
  by (simp add: ev_same_def prvResetNextTaskUnblockTime_def)

lemma ev_same_state_remove:
  "state_remove t s = Inr s' \<Longrightarrow> stateContainer (tcb s t) = Some L \<Longrightarrow> state_list L \<Longrightarrow> ev_same s s'"
  by (auto simp: state_remove_def ev_same_def prim_defs)

lemma ev_same_add_ready: "prvAddTaskToReadyList t s = Inr s' \<Longrightarrow> ev_same s s'"
  by (auto simp: prvAddTaskToReadyList_def ev_same_def state_insert_end_def prim_defs Let_def split: if_splits)

lemma ev_same_requeue:
  "bindE (state_remove t s) (prvAddTaskToReadyList t) = Inr s' \<Longrightarrow> stateContainer (tcb s t) = Some L \<Longrightarrow>
    state_list L \<Longrightarrow> ev_same s s'"
  by (cases "state_remove t s") (auto dest!: ev_same_state_remove ev_same_add_ready intro: ev_same_trans)

lemma ensures_also: "ensures m P \<Longrightarrow> (\<And>x. m = Inr x \<Longrightarrow> Q x) \<Longrightarrow> ensures m (\<lambda>x. P x \<and> Q x)"
  by (auto simp: ensures_def)

section \<open>Waking the first task of a list\<close>

text \<open>Task \<open>t\<close>, the first of event list \<open>n\<close>, has become ready; every other task is where it was.\<close>

definition woke :: "nat \<Rightarrow> nat \<Rightarrow> kernel \<Rightarrow> kernel \<Rightarrow> bool" where
  "woke t n s s' \<longleftrightarrow> quiet s s' \<and>
     (\<forall>u. stateContainer (tcb s' u) = (if u = t then Some (ReadyL (prio s t)) else stateContainer (tcb s u)) \<and>
        eventContainer (tcb s' u) = (if u = t then None else eventContainer (tcb s u))) \<and>
     (\<forall>m. lists s' (EventL m) = (if m = n then tl (lists s (EventL n)) else lists s (EventL m)))"

lemma waiter_first:
  assumes "kinv s" "waiters_wf s" "lists s (EventL n) = t # ts"
  shows "eventContainer (tcb s t) = Some (EventL n)"
    "\<exists>L \<in> {DelayedL1, DelayedL2, SuspendedL}. stateContainer (tcb s t) = Some L" "\<not> idle_task s t"
proof -
  have "t \<in> set (lists s (EventL n)) \<longleftrightarrow> eventContainer (tcb s t) = Some (EventL n)"
    using assms(1) unfolding kinv_def lists_wf_def by (metis state_list_simps(7))
  then show e: "eventContainer (tcb s t) = Some (EventL n)" using assms(3) by simp
  then show c: "\<exists>L \<in> {DelayedL1, DelayedL2, SuspendedL}. stateContainer (tcb s t) = Some L"
    using assms(2) by (auto simp: waiters_wf_def)
  then show "\<not> idle_task s t" using idle_ready [OF assms(1), of t] by auto
qed

lemma waiters_wf_woke:
  assumes "waiters_wf s" "woke t n s s'"
  shows "waiters_wf s'"
  using assms unfolding waiters_wf_def woke_def by auto

lemma woke_yields: "woke t n s s1 \<Longrightarrow> yields s1 s' \<Longrightarrow> woke t n s s'"
  using yields_quiet quiet_trans by (simp add: woke_def yields_same) blast

lemma event_out_first:
  assumes "kinv s" "lists s (EventL n) = t # ts" "eventContainer (tcb s t) = Some (EventL n)"
  shows "kinv (event_out (EventL n) t s)" "moves t (stateContainer (tcb s t)) s (event_out (EventL n) t s)"
    "eventContainer (tcb (event_out (EventL n) t s) u) = (if u = t then None else eventContainer (tcb s u))"
    "lists (event_out (EventL n) t s) (EventL m) = (if m = n then tl (lists s (EventL n)) else lists s (EventL m))"
  using kinv_event_out [OF assms(1,3)] assms(2) by (simp_all add: event_out_def prim_defs moves_def quiet_def)

lemma xTaskRemoveFromEventList_ok:
  assumes "section_begin c s" "waiters_wf s" "lists s (EventL n) = t # ts"
  shows "ensures (xTaskRemoveFromEventList c (EventL n) s)
    (\<lambda>(y, s'). woke t n s s' \<and> section_end c s' \<and> y = xYieldPendings s' c)"
proof -
  have k: "kinv s" and p: "pended s" and u0: "uxSchedulerSuspended s = 0" using assms(1) by (simp_all add: section_begin_def basic_def)
  note f = waiter_first [OF k assms(2,3)]
  let ?s1 = "event_out (EventL n) t s"
  note e = event_out_first [OF k assms(3) f(1)]
  obtain L where L: "stateContainer (tcb s t) = Some L" "L \<in> {DelayedL1, DelayedL2, SuspendedL}" using f(2) by auto
  have q1: "quiet s ?s1" using e(2) by (rule moves_quiet)
  have c1: "stateContainer (tcb ?s1 t) = Some L" "\<not> idle_task ?s1 t" "L \<noteq> TerminationL" "state_list L"
    using e(2) L f(3) q1 by (auto simp: moves_def quiet_def idle_task_def)
  let ?P = "\<lambda>s2. kinv s2 \<and> moves t (Some (ReadyL (prio s t))) ?s1 s2 \<and> ev_same ?s1 s2"
  have pr: "prio ?s1 t = prio s t" using q1 by (simp add: quiet_def)
  have "ensures (bindE (state_remove t ?s1) (prvAddTaskToReadyList t)) ?P"
    using ensures_also [OF requeue_ok [OF e(1) c1(1-3)] ev_same_requeue [OF _ c1(1,4)]] pr
    by (auto elim!: ensures_mono)
  then have rq: "ensures (bindE (state_remove t ?s1) (\<lambda>s2. bindE (prvAddTaskToReadyList t s2)
      (\<lambda>s3. Inr (prvResetNextTaskUnblockTime s3)))) ?P"
    unfolding bindE_assoc [symmetric]
  proof (rule ensures_bind)
    fix s3 assume s3: "?P s3"
    then have "stateContainer (tcb s3 t) = Some (ReadyL (prio s t))" by (simp add: moves_def)
    then show "ensures (Inr (prvResetNextTaskUnblockTime s3)) ?P"
      using s3 reset_same [of t s3] moves_trans ev_same_trans [OF _ ev_same_reset] by (auto simp: kinv_reset)
  qed
  have last: "ensures (bindE (prvYieldForTask c t s4) (\<lambda>s5. Inr (xYieldPendings s5 c, s5)))
    (\<lambda>(y, s'). woke t n s s' \<and> section_end c s' \<and> y = xYieldPendings s' c)" if s4: "?P s4" for s4
  proof -
    have k4: "kinv s4" and m4: "moves t (Some (ReadyL (prio s t))) s s4" and v4: "ev_same ?s1 s4"
      using s4 moves_trans [OF e(2)] by auto
    have p4: "pended s4" using m4 p by (auto intro: pended_moves)
    have w4: "woke t n s s4" using m4 v4 e(3,4) by (simp add: woke_def moves_def ev_same_def)
    have "section_end c s5" if y: "yields s4 s5" for s5
    proof -
      have "pended_at c s5" by (rule pended_imp_at [OF pended_yields [OF k4 y p4]])
      then show ?thesis by (intro section_end_moves [OF assms(1) k4 m4 _ _ y]) (use L(1) in auto)
    qed
    then show ?thesis using prvYieldForTask_ok [OF k4, of c t] woke_yields [OF w4]
      by (auto intro!: ensures_bind elim: ensures_mono)
  qed
  have "uxSchedulerSuspended ?s1 = 0" using q1 u0 by (simp add: quiet_def)
  then show ?thesis unfolding xTaskRemoveFromEventList_def
    using ensures_bind [OF rq last] assms(3) event_remove_eq [OF f(1)] by (simp add: head_of_def)
qed

section \<open>Leaving a critical section\<close>

text \<open>A yield that was pended becomes the interrupt of the core.\<close>

definition kick :: "nat \<Rightarrow> kernel \<Rightarrow> kernel" where
  "kick c s = (if xYieldPendings s c then portYIELD c s else s)"

lemma yields_kick [simp]: "yields s (kick c s)"
  by (simp add: kick_def)

lemma kick_same [simp]:
  "tcb (kick c s) = tcb s" "lists (kick c s) = lists s" "xYieldPendings (kick c s) = xYieldPendings s"
  "xSchedulerRunning (kick c s) = xSchedulerRunning s" "uxCriticalNestings (kick c s) = uxCriticalNestings s"
  "uxSchedulerSuspended (kick c s) = uxSchedulerSuspended s" "xPendedTicks (kick c s) = xPendedTicks s"
  "uxCurrentNumberOfTasks (kick c s) = uxCurrentNumberOfTasks s" "pxCurrentTCBs (kick c s) = pxCurrentTCBs s"
  "cur (kick c s) = cur s" "xTickCount (kick c s) = xTickCount s" "xNumOfOverflows (kick c s) = xNumOfOverflows s"
  "pxDelayedTaskList (kick c s) = pxDelayedTaskList s" "pxOverflowDelayedTaskList (kick c s) = pxOverflowDelayedTaskList s"
  "xIdleTaskHandles (kick c s) = xIdleTaskHandles s"
  "kick c (kick c s) = kick c s" "portYIELD c (kick c s) = portYIELD c s" "kick c (portYIELD c s) = portYIELD c s"
  "uxDeletedTasksWaitingCleanUp (kick c s) = uxDeletedTasksWaitingCleanUp s"
  by (simp_all add: kick_def portYIELD_def cur_def fun_eq_iff)

lemma kick_susp [simp]: "kick c (s\<lparr>uxSchedulerSuspended := n\<rparr>) = (kick c s)\<lparr>uxSchedulerSuspended := n\<rparr>"
  by (simp add: kick_def portYIELD_def)

lemma kick_kick: "kick c (kick c s) = kick c s"
  by simp

lemma enter_exit:
  assumes "xSchedulerRunning s" "uxCriticalNestings s c = 0"
  shows "vTaskExitCritical c (vTaskEnterCritical c s) = kick c s"
proof -
  have n: "(uxCriticalNestings s)(c := 0) = uxCriticalNestings s" using assms(2) by (auto simp: fun_eq_iff)
  have s: "set_nesting c 0 (set_nesting c 1 s) = s" by (simp add: set_nesting_def n)
  have "vTaskExitCritical c (set_nesting c 1 s) = (let r = set_nesting c 0 (set_nesting c 1 s) in
      if xYieldPendings s c then portYIELD c r else r)"
    using assms(1) by (simp add: vTaskExitCritical_def set_nesting_def)
  then show ?thesis unfolding s Let_def enter_eq [OF assms] kick_def .
qed

lemma stable_kick: "stable s \<Longrightarrow> stable (kick c s)"
  by (simp add: kick_def stable_portYIELD)

lemma xTaskResumeAll_eq:
  assumes "xSchedulerRunning s" "uxCriticalNestings s c = 0" "uxSchedulerSuspended s = 1"
    "lists s PendingReadyL = []" "xPendedTicks s = 0"
  shows "xTaskResumeAll c s = Inr (uxCurrentNumberOfTasks s > 0 \<and> xYieldPendings s c,
    kick c (s\<lparr>uxSchedulerSuspended := 0\<rparr>))"
proof -
  let ?s0 = "vTaskEnterCritical c s" and ?s1 = "vTaskEnterCritical c (s\<lparr>uxSchedulerSuspended := 0\<rparr>)"
  have d: "dec32 (uxSchedulerSuspended ?s0) = 0" using assms(1,3) dec32_Suc [of 0] by (simp add: vTaskEnterCritical_def set_nesting_def)
  have s1: "?s0\<lparr>uxSchedulerSuspended := 0\<rparr> = ?s1"
    using assms(1) by (simp add: vTaskEnterCritical_def set_nesting_def)
  have n: "uxCurrentNumberOfTasks ?s0 = uxCurrentNumberOfTasks s" by (simp add: vTaskEnterCritical_def set_nesting_def)
  have f: "uxSchedulerSuspended ?s1 = 0" "uxCurrentNumberOfTasks ?s1 = uxCurrentNumberOfTasks s"
    "lists ?s1 PendingReadyL = []" "xPendedTicks ?s1 = 0" "xYieldPendings ?s1 = xYieldPendings s"
    using assms(1,4,5) by (simp_all add: vTaskEnterCritical_def set_nesting_def)
  have r: "resume_outermost c ?s1 = Inr (xYieldPendings s c, ?s1)" using f by (simp add: resume_outermost_def Let_def)
  have x: "vTaskExitCritical c ?s1 = kick c (s\<lparr>uxSchedulerSuspended := 0\<rparr>)"
    by (rule enter_exit) (use assms(1,2) in simp_all)
  show ?thesis using assms(1) f r x n by (auto simp: xTaskResumeAll_def critical_def Let_def d s1)
qed

text \<open>The yield that follows makes the core switch in any case.\<close>

lemma resume_yield_eq:
  assumes "xSchedulerRunning s" "uxCriticalNestings s c = 0" "uxSchedulerSuspended s = 1"
    "lists s PendingReadyL = []" "xPendedTicks s = 0"
  shows "xTaskResumeAll c s = Inr (b, s') \<Longrightarrow>
    (if b then s' else vTaskYieldWithinAPI c s') = portYIELD c (s\<lparr>uxSchedulerSuspended := 0\<rparr>)"
proof -
  assume "xTaskResumeAll c s = Inr (b, s')"
  then have s': "s' = kick c (s\<lparr>uxSchedulerSuspended := 0\<rparr>)" "b \<longrightarrow> xYieldPendings s c"
    unfolding xTaskResumeAll_eq [OF assms] by auto
  then have "vTaskYieldWithinAPI c s' = portYIELD c s'" using assms(2) by (simp add: vTaskYieldWithinAPI_def)
  then show ?thesis using s' by (auto simp: kick_def portYIELD_def)
qed

section \<open>Blocking on a list\<close>

definition event_item :: "kernel \<Rightarrow> nat \<Rightarrow> u32" where
  "event_item s u = xEventListItem (tcb s u)"

lemma add_delayed_frame:
  assumes "kinv s" "c < configNUMBER_OF_CORES" "prvAddCurrentTaskToDelayedList c n b s = Inr s'"
  shows "ev_same s s' \<and> event_item s' = event_item s"
proof -
  let ?t = "cur s c" and ?a = "upd_tcb (cur s c) (\<lambda>x. x\<lparr>ucDelayAborted := False\<rparr>) s"
  have cur: "current c s = Inr ?t" by (rule current_eq [OF assms(1,2)])
  obtain s1 where s1: "state_remove ?t ?a = Inr s1"
    using assms(3) by (cases "state_remove ?t ?a") (simp_all add: prvAddCurrentTaskToDelayedList_def cur Let_def)
  obtain L where L: "stateContainer (tcb ?a ?t) = Some L"
    using s1 by (cases "stateContainer (tcb ?a ?t)") (simp_all add: state_remove_def follow_def)
  have "stateContainer (tcb s ?t) = Some L" using L by (simp add: upd_tcb_def)
  then have "state_list L" using assms(1) unfolding kinv_def lists_wf_def by blast
  then have "ev_same ?a s1" "event_item s1 = event_item ?a"
    using ev_same_state_remove [OF s1 L] s1 L by (auto simp: state_remove_def event_item_def prim_defs)
  moreover have "ev_same s ?a" "event_item ?a = event_item s" by (auto simp: ev_same_def event_item_def upd_tcb_def)
  ultimately have e1: "ev_same s s1" "event_item s1 = event_item s" using ev_same_trans by auto
  have d: "K \<noteq> EventL m" if "K \<in> {pxDelayedTaskList s, pxOverflowDelayedTaskList s, SuspendedL}" for K m
    using kinv_delay_lists [OF assms(1)] that by auto
  have i: "ev_same s1 (state_insert_end K ?t s1)" "event_item (state_insert_end K ?t s1) = event_item s1"
    "ev_same s1 (state_insert K ?t (upd_tcb ?t (\<lambda>x. x\<lparr>xStateListItem := v\<rparr>) s1))"
    "event_item (state_insert K ?t (upd_tcb ?t (\<lambda>x. x\<lparr>xStateListItem := v\<rparr>) s1)) = event_item s1"
    if "K \<in> {pxDelayedTaskList s, pxOverflowDelayedTaskList s, SuspendedL}" for K v
    using d [OF that] by (auto simp: ev_same_def event_item_def state_insert_def state_insert_end_def prim_defs)
  have f: "ev_same s1 (s2\<lparr>xNextTaskUnblockTime := v\<rparr>) = ev_same s1 s2" "event_item (s2\<lparr>xNextTaskUnblockTime := v\<rparr>) = event_item s2" for s2 v
    by (simp_all add: ev_same_def event_item_def fun_eq_iff)
  have "pxDelayedTaskList (upd_tcb ?t g s1) = pxDelayedTaskList s" "pxOverflowDelayedTaskList (upd_tcb ?t g s1) = pxOverflowDelayedTaskList s" for g
    using s1 L by (auto simp: state_remove_def prim_defs)
  then have "ev_same s1 s' \<and> event_item s' = event_item s1"
    using assms(3) i f by (auto simp: prvAddCurrentTaskToDelayedList_def cur s1 Let_def split: if_splits)
  then show ?thesis using e1 ev_same_trans by auto
qed

text \<open>Task \<open>t\<close> is suspended; nothing else changed.\<close>

definition laid_off :: "nat \<Rightarrow> kernel \<Rightarrow> kernel \<Rightarrow> bool" where
  "laid_off t s s' \<longleftrightarrow>
     (\<forall>u. stateContainer (tcb s' u) = (if u = t then Some SuspendedL else stateContainer (tcb s u)) \<and>
        xStateListItem (tcb s' u) = xStateListItem (tcb s u) \<and>
        prio s' u = prio s u \<and> uxCoreAffinityMask (tcb s' u) = uxCoreAffinityMask (tcb s u) \<and>
        runstate s' u = runstate s u) \<and>
     pxCurrentTCBs s' = pxCurrentTCBs s \<and> pxDelayedTaskList s' = pxDelayedTaskList s \<and>
     pxOverflowDelayedTaskList s' = pxOverflowDelayedTaskList s \<and> pendsv s' = pendsv s \<and>
     uxDeletedTasksWaitingCleanUp s' = uxDeletedTasksWaitingCleanUp s \<and>
     uxCurrentNumberOfTasks s' = uxCurrentNumberOfTasks s \<and> xTickCount s' = xTickCount s \<and>
     xSchedulerRunning s' = xSchedulerRunning s \<and> xPendedTicks s' = xPendedTicks s \<and>
     uxSchedulerSuspended s' = uxSchedulerSuspended s \<and> uxCriticalNestings s' = uxCriticalNestings s \<and>
     xIdleTaskHandles s' = xIdleTaskHandles s \<and> lists s' TerminationL = lists s TerminationL \<and>
     lists s' PendingReadyL = lists s PendingReadyL"

lemma add_forever_ok:
  assumes "kinv s" "c < configNUMBER_OF_CORES" "stateContainer (tcb s (cur s c)) = Some L"
    "\<not> idle_task s (cur s c)" "L \<noteq> TerminationL"
  shows "ensures (prvAddCurrentTaskToDelayedList c portMAX_DELAY True s) (\<lambda>s'. kinv s' \<and> laid_off (cur s c) s s')"
proof -
  let ?t = "cur s c"
  let ?a = "upd_tcb ?t (\<lambda>x. x\<lparr>ucDelayAborted := False\<rparr>) s"
  have ka: "kinv ?a" by (rule kinv_neutral [OF assms(1)]) (simp add: neutral_def)
  have ca: "stateContainer (tcb ?a ?t) = Some L" "\<not> idle_task ?a ?t"
    using assms(3,4) by (simp_all add: upd_tcb_def idle_task_def)
  have k1: "kinv (state_out L ?t ?a)" by (rule kinv_state_out [OF ka ca])
  have s1: "stateContainer (tcb (state_out L ?t ?a) ?t) = None" "settled (state_out L ?t ?a) ?t"
    using assms(2) by (simp_all add: state_out_def prim_defs) (auto simp: settled_def cur_def)
  have "state_list L" using assms(1,3) by (auto simp: kinv_def lists_wf_def)
  then have "laid_off ?t s (state_insert_end SuspendedL ?t (state_out L ?t ?a))"
    using assms(5) by (auto simp: laid_off_def state_insert_end_def state_out_def prim_defs)
  then show ?thesis using suspend_insert(1) [OF k1 s1]
    by (simp add: prvAddCurrentTaskToDelayedList_def current_eq [OF assms(1,2)] state_remove_eq [OF ca(1)] Let_def)
qed

lemma laid_off_ok:
  assumes "laid_off t s s'" "kinv s'" "basic s" "stateContainer (tcb s t) \<noteq> None"
  shows "basic s'" "u \<noteq> t \<Longrightarrow> remaining s' u = remaining s u"
    "\<And>x. cur s x \<noteq> t \<Longrightarrow> runs s x \<or> pendsv s x \<Longrightarrow> runs s' x \<or> pendsv s' x"
proof -
  have ot: "ontime s" and dl: "(pxDelayedTaskList s, pxOverflowDelayedTaskList s) \<in> {(DelayedL1, DelayedL2), (DelayedL2, DelayedL1)}"
    using assms(3) kinv_delay_lists by (auto simp: basic_def)
  have "ontime s'" using assms(1) ot dl by (auto simp: ontime_def laid_off_def)
  moreover have "addressed s'" using assms(1,3,4) by (auto simp: addressed_def laid_off_def basic_def)
  ultimately show "basic s'" using assms(1-3) by (simp add: basic_def laid_off_def)
  show "u \<noteq> t \<Longrightarrow> remaining s' u = remaining s u"
    using assms(1) by (simp add: remaining_def sleeping_def laid_off_def)
  show "\<And>x. cur s x \<noteq> t \<Longrightarrow> runs s x \<or> pendsv s x \<Longrightarrow> runs s' x \<or> pendsv s' x"
    using assms(1) by (auto simp: runs_def cur_def laid_off_def)
qed

text \<open>The task of core \<open>c\<close> waits in event list \<open>m\<close> for \<open>n\<close> ticks; nothing else moved, and the core will
  switch.\<close>

definition blocked :: "nat \<Rightarrow> nat \<Rightarrow> u32 \<Rightarrow> kernel \<Rightarrow> kernel \<Rightarrow> bool" where
  "blocked c m n s s' \<longleftrightarrow> pendsv s' c \<and> cur s' = cur s \<and>
     (if n = portMAX_DELAY then stateContainer (tcb s' (cur s c)) = Some SuspendedL
      else remaining s' (cur s c) = Some (unat n)) \<and>
     eventContainer (tcb s' (cur s c)) = Some (EventL m) \<and>
     lists s' (EventL m) = insert_after_le (event_item s) (cur s c) (lists s (EventL m)) \<and>
     (\<forall>k. k \<noteq> m \<longrightarrow> lists s' (EventL k) = lists s (EventL k)) \<and>
     (\<forall>u. u \<noteq> cur s c \<longrightarrow> remaining s' u = remaining s u \<and> stateContainer (tcb s' u) = stateContainer (tcb s u) \<and>
        eventContainer (tcb s' u) = eventContainer (tcb s u)) \<and>
     (\<forall>u. prio s' u = prio s u \<and> uxCoreAffinityMask (tcb s' u) = uxCoreAffinityMask (tcb s u) \<and>
        event_item s' u = event_item s u)"

text \<open>With the scheduler suspended, outside any critical section.\<close>

definition halted :: "nat \<Rightarrow> kernel \<Rightarrow> bool" where
  "halted c s \<longleftrightarrow> basic s \<and> nestings c 0 s \<and> uxSchedulerSuspended s = 1 \<and> xPendedTicks s = 0 \<and>
     (\<forall>x < configNUMBER_OF_CORES. x \<noteq> c \<longrightarrow> runs s x \<or> pendsv s x)"

lemma halted_stable:
  assumes "halted c s" "c < configNUMBER_OF_CORES"
  shows "stable (portYIELD c (s\<lparr>uxSchedulerSuspended := 0\<rparr>))"
  using assms unfolding stable_iff [OF assms(2)] halted_def
  by (auto simp: portYIELD_def pended_def runs_def cur_def nestings_def)

lemma waiting_delayed:
  assumes "kinv s" "waiters_wf s" "stateContainer (tcb s t) = Some (ReadyL p)"
  shows "eventContainer (tcb s t) = None"
  using assms(2,3) by (auto simp: waiters_wf_def)

lemma event_insert_fields:
  "stateContainer (tcb (event_insert L u s) v) = stateContainer (tcb s v)"
  "xStateListItem (tcb (event_insert L u s) v) = xStateListItem (tcb s v)"
  "prio (event_insert L u s) v = prio s v" "runstate (event_insert L u s) v = runstate s v"
  "uxCoreAffinityMask (tcb (event_insert L u s) v) = uxCoreAffinityMask (tcb s v)"
  "pxCurrentTCBs (event_insert L u s) = pxCurrentTCBs s" "pxDelayedTaskList (event_insert L u s) = pxDelayedTaskList s"
  "pxOverflowDelayedTaskList (event_insert L u s) = pxOverflowDelayedTaskList s" "pendsv (event_insert L u s) = pendsv s"
  "uxDeletedTasksWaitingCleanUp (event_insert L u s) = uxDeletedTasksWaitingCleanUp s"
  "uxCurrentNumberOfTasks (event_insert L u s) = uxCurrentNumberOfTasks s" "xTickCount (event_insert L u s) = xTickCount s"
  "xSchedulerRunning (event_insert L u s) = xSchedulerRunning s" "xPendedTicks (event_insert L u s) = xPendedTicks s"
  "uxSchedulerSuspended (event_insert L u s) = uxSchedulerSuspended s"
  "uxCriticalNestings (event_insert L u s) = uxCriticalNestings s" "xIdleTaskHandles (event_insert L u s) = xIdleTaskHandles s"
  "K \<noteq> L \<Longrightarrow> lists (event_insert L u s) K = lists s K"
  by (simp_all add: event_insert_def prim_defs)

text \<open>The task of core \<open>c\<close> is ready.\<close>

definition on_ready :: "nat \<Rightarrow> kernel \<Rightarrow> bool" where
  "on_ready c s \<longleftrightarrow> stateContainer (tcb s (cur s c)) = Some (ReadyL (prio s (cur s c)))"

lemma runs_on_ready: "runs s c \<Longrightarrow> on_ready c s"
  by (simp add: runs_def on_ready_def)

text \<open>The kernel \<open>e\<close> is \<open>s\<close> with task \<open>t\<close> put into event list \<open>m\<close>, which is now \<open>xs\<close>, and with the event
  items \<open>v\<close>.\<close>

definition entered :: "nat \<Rightarrow> nat \<Rightarrow> nat list \<Rightarrow> (nat \<Rightarrow> u32) \<Rightarrow> kernel \<Rightarrow> kernel \<Rightarrow> bool" where
  "entered t m xs v s e \<longleftrightarrow> kinv e \<and>
     (\<forall>u. stateContainer (tcb e u) = stateContainer (tcb s u) \<and> xStateListItem (tcb e u) = xStateListItem (tcb s u) \<and>
        prio e u = prio s u \<and> runstate e u = runstate s u \<and>
        uxCoreAffinityMask (tcb e u) = uxCoreAffinityMask (tcb s u) \<and>
        eventContainer (tcb e u) = (if u = t then Some (EventL m) else eventContainer (tcb s u)) \<and>
        event_item e u = v u) \<and>
     pxCurrentTCBs e = pxCurrentTCBs s \<and> pxDelayedTaskList e = pxDelayedTaskList s \<and>
     pxOverflowDelayedTaskList e = pxOverflowDelayedTaskList s \<and> pendsv e = pendsv s \<and>
     uxDeletedTasksWaitingCleanUp e = uxDeletedTasksWaitingCleanUp s \<and>
     uxCurrentNumberOfTasks e = uxCurrentNumberOfTasks s \<and> xTickCount e = xTickCount s \<and>
     xSchedulerRunning e = xSchedulerRunning s \<and> xPendedTicks e = xPendedTicks s \<and>
     uxSchedulerSuspended e = uxSchedulerSuspended s \<and> uxCriticalNestings e = uxCriticalNestings s \<and>
     xIdleTaskHandles e = xIdleTaskHandles s \<and> lists e TerminationL = lists s TerminationL \<and>
     lists e PendingReadyL = lists s PendingReadyL \<and>
     (\<forall>k. lists e (EventL k) = (if k = m then xs else lists s (EventL k)))"

lemma entered_same:
  assumes "entered t m xs v s e"
  shows "asleep u w e s' = asleep u w s s'" "laid_off u e s' = laid_off u s s'" "cur e = cur s"
    "idle_task e x = idle_task s x" "kinv e" "xTickCount e = xTickCount s"
    "stateContainer (tcb e y) = stateContainer (tcb s y)"
proof -
  have "asleep u w e s' = asleep u w s s'"
    using assms by (simp only: entered_def asleep_def simp_thms)
  moreover have "laid_off u e s' = laid_off u s s'"
    using assms by (simp only: entered_def laid_off_def simp_thms)
  ultimately show "asleep u w e s' = asleep u w s s'" "laid_off u e s' = laid_off u s s'" "cur e = cur s"
    "idle_task e x = idle_task s x" "kinv e" "xTickCount e = xTickCount s"
    "stateContainer (tcb e y) = stateContainer (tcb s y)"
    using assms by (simp_all add: entered_def cur_def [abs_def] idle_task_def)
qed

text \<open>As \<open>blocked\<close>, with event list \<open>m\<close> now \<open>xs\<close> and the event items \<open>v\<close>.\<close>

definition waits_in :: "nat \<Rightarrow> nat \<Rightarrow> u32 \<Rightarrow> nat list \<Rightarrow> (nat \<Rightarrow> u32) \<Rightarrow> kernel \<Rightarrow> kernel \<Rightarrow> bool" where
  "waits_in c m n xs v s s' \<longleftrightarrow> pendsv s' c \<and> cur s' = cur s \<and>
     (if n = portMAX_DELAY then stateContainer (tcb s' (cur s c)) = Some SuspendedL
      else remaining s' (cur s c) = Some (unat n)) \<and>
     (\<forall>u. eventContainer (tcb s' u) = (if u = cur s c then Some (EventL m) else eventContainer (tcb s u))) \<and>
     (\<forall>k. lists s' (EventL k) = (if k = m then xs else lists s (EventL k))) \<and>
     (\<forall>u. u \<noteq> cur s c \<longrightarrow> remaining s' u = remaining s u \<and> stateContainer (tcb s' u) = stateContainer (tcb s u)) \<and>
     (\<forall>u. prio s' u = prio s u \<and> uxCoreAffinityMask (tcb s' u) = uxCoreAffinityMask (tcb s u)) \<and> event_item s' = v"

lemma blocked_waits_in:
  "waits_in c m n (insert_after_le (event_item s) (cur s c) (lists s (EventL m))) (event_item s) s s' \<Longrightarrow> blocked c m n s s'"
  by (simp add: waits_in_def blocked_def)

text \<open>As \<open>waits_in\<close>, for \<open>w\<close> ticks or for ever.\<close>

definition waits_for :: "nat \<Rightarrow> nat \<Rightarrow> nat option \<Rightarrow> nat list \<Rightarrow> (nat \<Rightarrow> u32) \<Rightarrow> kernel \<Rightarrow> kernel \<Rightarrow> bool" where
  "waits_for c m w xs v s s' \<longleftrightarrow> pendsv s' c \<and> cur s' = cur s \<and>
     (case w of None \<Rightarrow> stateContainer (tcb s' (cur s c)) = Some SuspendedL | Some k \<Rightarrow> remaining s' (cur s c) = Some k) \<and>
     (\<forall>u. eventContainer (tcb s' u) = (if u = cur s c then Some (EventL m) else eventContainer (tcb s u))) \<and>
     (\<forall>k. lists s' (EventL k) = (if k = m then xs else lists s (EventL k))) \<and>
     (\<forall>u. u \<noteq> cur s c \<longrightarrow> remaining s' u = remaining s u \<and> stateContainer (tcb s' u) = stateContainer (tcb s u)) \<and>
     (\<forall>u. prio s' u = prio s u \<and> uxCoreAffinityMask (tcb s' u) = uxCoreAffinityMask (tcb s u)) \<and> event_item s' = v"

lemma waits_for_in:
  "waits_for c m (if n = portMAX_DELAY then None else Some (unat n)) xs v s s' = waits_in c m n xs v s s'"
  by (simp add: waits_for_def waits_in_def)

text \<open>A task that has been entered into an event list is taken off the ready list.\<close>

lemma place_for_ok:
  fixes n :: u32 and forever :: bool
  assumes st: "stable s" and c: "c < configNUMBER_OF_CORES" and r: "on_ready c s"
    and live: "\<not> idle_task s (cur s c)" and n: "n \<noteq> 0" and e: "entered (cur s c) m xs v (s\<lparr>uxSchedulerSuspended := 1\<rparr>) e"
  defines "w \<equiv> if n = portMAX_DELAY \<and> forever then None else Some (unat n)"
  shows "ensures (prvAddCurrentTaskToDelayedList c n forever e)
    (\<lambda>s1. halted c s1 \<and> waits_for c m w xs v s (portYIELD c (s1\<lparr>uxSchedulerSuspended := 0\<rparr>)))"
proof -
  let ?s = "s\<lparr>uxSchedulerSuspended := 1\<rparr>" and ?t = "cur s c"
  note es = entered_same [OF e]
  have b: "basic s" "pended s" "xPendedTicks s = 0" "nestings c 0 s" using st unfolding stable_iff [OF c] by simp_all
  have cur: "cur (s\<lparr>uxSchedulerSuspended := v\<rparr>) = cur s" "idle_task (s\<lparr>uxSchedulerSuspended := v\<rparr>) = idle_task s" for v
    by (simp_all add: cur_def idle_task_def fun_eq_iff)
  have rd: "stateContainer (tcb ?s ?t) = Some (ReadyL (prio s ?t))" using r by (simp add: on_ready_def)
  have ce: "stateContainer (tcb e (cur e c)) = Some (ReadyL (prio s ?t))" "\<not> idle_task e (cur e c)"
    "ReadyL (prio s ?t) \<noteq> TerminationL"
    using rd live by (simp_all add: es cur)
  have add: "ensures (prvAddCurrentTaskToDelayedList c n forever e)
      (\<lambda>s1. kinv s1 \<and> (if n = portMAX_DELAY \<and> forever then laid_off ?t ?s s1 else asleep ?t (xTickCount s + n) ?s s1))"
  proof (cases "n = portMAX_DELAY \<and> forever")
    case True
    then show ?thesis using add_forever_ok [OF es(5) c ce] by (simp add: es cur)
  next
    case False
    then have a: "prvAddCurrentTaskToDelayedList c n forever e = prvAddCurrentTaskToDelayedList c n False e"
      by (auto simp: prvAddCurrentTaskToDelayedList_def)
    show ?thesis using add_delayed_ok [OF es(5) c ce, of n] unfolding a if_not_P [OF False] by (simp add: es cur)
  qed
  have bs: "basic ?s" "stateContainer (tcb ?s ?t) \<noteq> None" using b(1) rd by simp_all
  have fin: "halted c s1 \<and> waits_for c m w xs v s (portYIELD c (s1\<lparr>uxSchedulerSuspended := 0\<rparr>))"
    if s1: "kinv s1" "if n = portMAX_DELAY \<and> forever then laid_off ?t ?s s1 else asleep ?t (xTickCount s + n) ?s s1"
      and fr: "ev_same e s1" "event_item s1 = event_item e" for s1
  proof -
    have as: "asleep ?t (xTickCount ?s + n) ?s s1" if "\<not> (n = portMAX_DELAY \<and> forever)" using s1(2) that by simp
    have lo: "laid_off ?t ?s s1" if "n = portMAX_DELAY \<and> forever" using s1(2) that by simp
    have b1: "basic s1" and rem: "\<And>u. u \<noteq> ?t \<Longrightarrow> remaining s1 u = remaining ?s u"
      and oth: "\<And>x. cur ?s x \<noteq> ?t \<Longrightarrow> runs ?s x \<or> pendsv ?s x \<Longrightarrow> runs s1 x \<or> pendsv s1 x"
      using asleep_ok [OF as s1(1) bs n] laid_off_ok [OF lo s1(1) bs] by (cases "n = portMAX_DELAY \<and> forever"; blast)+
    have same: "uxSchedulerSuspended s1 = 1" "xPendedTicks s1 = 0" "uxCriticalNestings s1 = uxCriticalNestings s"
      "pxCurrentTCBs s1 = pxCurrentTCBs s" "prio s1 u = prio s u" "uxCoreAffinityMask (tcb s1 u) = uxCoreAffinityMask (tcb s u)"
      "u \<noteq> ?t \<Longrightarrow> stateContainer (tcb s1 u) = stateContainer (tcb s u)" for u
      using s1(2) b(3) by (auto simp: asleep_def laid_off_def split: if_splits)
    have others: "runs s1 x \<or> pendsv s1 x" if x: "x < configNUMBER_OF_CORES" "x \<noteq> c" for x
    proof -
      have "runs ?s x \<or> pendsv ?s x" using b(2) x(1) unfolding pended_def by (auto simp: runs_def cur)
      moreover have "cur ?s x \<noteq> ?t" using kinv_cur_ne [OF _ x(1) c, of s] x(2) b(1) by (auto simp: cur basic_def)
      ultimately show ?thesis by (rule oth [rotated])
    qed
    have h: "halted c s1" using b1 same b(4) others by (simp add: halted_def nestings_def)
    have t: "case w of None \<Rightarrow> stateContainer (tcb s1 ?t) = Some SuspendedL | Some k \<Rightarrow> remaining s1 ?t = Some k"
      using s1(2) asleep_ok(2) [OF as s1(1) bs n] by (auto simp: laid_off_def w_def)
    have ev: "eventContainer (tcb s1 u) = (if u = ?t then Some (EventL m) else eventContainer (tcb s u))"
      "lists s1 (EventL k) = (if k = m then xs else lists s (EventL k))" "event_item s1 = v" for u k
      using fr e by (simp_all add: ev_same_def entered_def fun_eq_iff)
    have "waits_for c m w xs v s (portYIELD c (s1\<lparr>uxSchedulerSuspended := 0\<rparr>))"
    proof -
      let ?f = "portYIELD c (s1\<lparr>uxSchedulerSuspended := 0\<rparr>)"
      have f: "tcb ?f = tcb s1" "lists ?f = lists s1" "pendsv ?f c" "cur ?f = cur s1" "remaining ?f = remaining s1"
        "event_item ?f = event_item s1"
        by (simp_all add: portYIELD_def cur_def remaining_def sleeping_def event_item_def fun_eq_iff)
      have r: "remaining ?s = remaining s" "cur s1 = cur s"
        using same by (simp_all add: remaining_def sleeping_def cur_def fun_eq_iff)
      show ?thesis unfolding waits_for_def f(1,2,4-6) using f(3) t ev(1,2) same(5-7) rem by (simp add: r ev(3))
    qed
    with h show ?thesis by simp
  qed
  show ?thesis
    by (rule ensures_mono [OF ensures_also [OF add add_delayed_frame [OF es(5) c]]]) (use fin in blast)+
qed

lemmas place_ok = place_for_ok [where forever = True, unfolded simp_thms waits_for_in]

lemma vTaskPlaceOnEventList_ok:
  assumes st: "stable s" and c: "c < configNUMBER_OF_CORES" and w: "waiters_wf s" and r: "on_ready c s"
    and live: "\<not> idle_task s (cur s c)" and n: "n \<noteq> 0"
  shows "ensures (vTaskPlaceOnEventList c (EventL m) n (s\<lparr>uxSchedulerSuspended := 1\<rparr>))
    (\<lambda>s1. halted c s1 \<and> blocked c m n s (portYIELD c (s1\<lparr>uxSchedulerSuspended := 0\<rparr>)))"
proof -
  let ?s = "s\<lparr>uxSchedulerSuspended := 1\<rparr>" and ?t = "cur s c"
  let ?e = "event_insert (EventL m) ?t ?s" and ?xs = "insert_after_le (event_item s) ?t (lists s (EventL m))"
  have k: "kinv ?s" using st by (simp add: stable_iff [OF c] basic_def)
  have cur: "cur ?s = cur s" by (simp add: cur_def fun_eq_iff)
  have "eventContainer (tcb ?s ?t) = None" using waiting_delayed [OF _ w, of ?t] k r by (auto simp: on_ready_def)
  then have "kinv ?e" by (rule kinv_event_insert(1) [OF k]) simp
  moreover have "event_item ?e u = event_item s u" "lists ?e (EventL j) = (if j = m then ?xs else lists ?s (EventL j))"
    "eventContainer (tcb ?e u) = (if u = ?t then Some (EventL m) else eventContainer (tcb ?s u))" for u j
    by (simp_all add: event_insert_def prim_defs event_item_def [abs_def])
  ultimately have "entered ?t m ?xs (event_item s) ?s ?e" unfolding entered_def by (simp add: event_insert_fields)
  then have "ensures (prvAddCurrentTaskToDelayedList c n True ?e)
      (\<lambda>s1. halted c s1 \<and> blocked c m n s (portYIELD c (s1\<lparr>uxSchedulerSuspended := 0\<rparr>)))"
    using place_ok [OF st c r live n] blocked_waits_in by (blast intro: ensures_mono)
  then show ?thesis using current_eq [OF k c] by (simp add: vTaskPlaceOnEventList_def cur [unfolded One_nat_def])
qed

end
