(* ===== verification/ResumeProps.thy ===== *)
theory ResumeProps
  imports EventProps
begin

text \<open>
  The outermost \<open>xTaskResumeAll\<close> with tasks pending ready: every one of them, and nothing else, moves to the
  ready list of its priority, and then the ticks counted meanwhile are processed.
\<close>

section \<open>The pending ready list\<close>

text \<open>The tasks of the pending ready list are ready; nothing else moved.\<close>

definition drained :: "kernel \<Rightarrow> kernel \<Rightarrow> bool" where
  "drained s s' \<longleftrightarrow> kinv s' \<and> quiet s s' \<and> lists s' PendingReadyL = [] \<and>
     (\<forall>t. stateContainer (tcb s' t) =
        (if t \<in> set (lists s PendingReadyL) then Some (ReadyL (prio s t)) else stateContainer (tcb s t)))"

definition pending_wf :: "kernel \<Rightarrow> bool" where
  "pending_wf s \<longleftrightarrow> (\<forall>t \<in> set (lists s PendingReadyL).
     stateContainer (tcb s t) \<in> {Some DelayedL1, Some DelayedL2, Some SuspendedL})"

lemma in_pending: "kinv s \<Longrightarrow> t \<in> set (lists s PendingReadyL) \<longleftrightarrow> eventContainer (tcb s t) = Some PendingReadyL"
  unfolding kinv_def lists_wf_def by (metis state_list_simps(6))

lemma waiters_pending_wf: "kinv s \<Longrightarrow> waiters_wf s \<Longrightarrow> pending_wf s"
  by (simp add: pending_wf_def waiters_wf_def in_pending)

lemma requeue_pending:
  assumes "bindE (state_remove t s) (prvAddTaskToReadyList t) = Inr s'" "stateContainer (tcb s t) = Some L"
    "L \<noteq> PendingReadyL"
  shows "lists s' PendingReadyL = lists s PendingReadyL"
  using assms by (auto simp: state_remove_def prvAddTaskToReadyList_def state_insert_end_def prim_defs Let_def
      split: if_splits)

lemma pending_head:
  assumes "kinv s" "pending_wf s" "lists s PendingReadyL = t # ts"
  shows "ensures (bindE (event_remove t s) (\<lambda>s1. bindE (state_remove t s1) (prvAddTaskToReadyList t)))
    (\<lambda>s'. kinv s' \<and> moves t (Some (ReadyL (prio s t))) s s' \<and> lists s' PendingReadyL = ts)"
proof -
  have ev: "eventContainer (tcb s t) = Some PendingReadyL" using in_pending [OF assms(1), of t] assms(3) by simp
  let ?s1 = "event_out PendingReadyL t s"
  have k1: "kinv ?s1" by (rule kinv_event_out [OF assms(1) ev])
  have l1: "lists ?s1 PendingReadyL = ts" using assms(3) by (simp add: event_out_def prim_defs)
  have m1: "moves t (stateContainer (tcb s t)) s ?s1"
    using assms(3) by (auto simp: event_out_def prim_defs moves_def quiet_def dest: set_remove1_subset [THEN subsetD])
  obtain L where L: "stateContainer (tcb s t) = Some L" "L \<in> {DelayedL1, DelayedL2, SuspendedL}"
    using assms(2,3) by (auto simp: pending_wf_def)
  have c1: "stateContainer (tcb ?s1 t) = Some L" using moves_container [OF m1] L(1) by simp
  have "\<not> idle_task ?s1 t" using idle_ready [OF k1, of t] c1 L(2) by auto
  then have "ensures (bindE (state_remove t ?s1) (prvAddTaskToReadyList t))
      (\<lambda>s'. (kinv s' \<and> moves t (Some (ReadyL (prio ?s1 t))) ?s1 s') \<and> lists s' PendingReadyL = lists ?s1 PendingReadyL)"
    using L(2) by (intro ensures_also [OF requeue_ok [OF k1 c1]] requeue_pending [OF _ c1]) auto
  moreover have "prio ?s1 t = prio s t" using m1 by (simp add: moves_def quiet_def)
  ultimately show ?thesis
    using moves_trans [OF m1] l1 by (auto simp: event_remove_eq [OF ev] elim!: ensures_mono)
qed

lemma pending_ready_loop_ok:
  assumes "kinv s" "pending_wf s" "length (lists s PendingReadyL) < fuel"
  shows "ensures (pending_ready_loop fuel moved s) (\<lambda>(moved', s'). drained s s')"
  using assms
proof (induction fuel arbitrary: moved s)
  case (Suc fuel)
  show ?case
  proof (cases "lists s PendingReadyL")
    case Nil
    then show ?thesis using Suc.prems(1) by (simp add: drained_def)
  next
    case (Cons t ts)
    have d: "distinct (t # ts)" using kinv_distinct [OF Suc.prems(1), of PendingReadyL] Cons by simp
    have "ensures (bindE (bindE (event_remove t s) (\<lambda>s1. bindE (state_remove t s1) (prvAddTaskToReadyList t)))
        (pending_ready_loop fuel True)) (\<lambda>(moved', s'). drained s s')"
    proof (rule ensures_bind [OF pending_head [OF Suc.prems(1,2) Cons]])
      fix s1 assume s1: "kinv s1 \<and> moves t (Some (ReadyL (prio s t))) s s1 \<and> lists s1 PendingReadyL = ts"
      have "pending_wf s1"
        using s1 Suc.prems(2) Cons d by (auto simp: pending_wf_def moves_def)
      then have "ensures (pending_ready_loop fuel True s1) (\<lambda>(moved', s'). drained s1 s')"
        using s1 Suc.prems(3) Cons by (intro Suc.IH) auto
      moreover have "drained s s'" if "drained s1 s'" for s'
        using that s1 Cons d quiet_trans by (auto simp: drained_def moves_def quiet_def)
      ultimately show "ensures (pending_ready_loop fuel True s1) (\<lambda>(moved', s'). drained s s')"
        by (auto elim!: ensures_mono)
    qed
    then show ?thesis using Cons by (simp add: bindE_assoc)
  qed
qed simp

lemma drained_reset: "drained s s' \<Longrightarrow> drained s (prvResetNextTaskUnblockTime s')"
  by (simp add: drained_def kinv_reset) (simp add: prvResetNextTaskUnblockTime_def quiet_def)

lemma drained_ontime:
  assumes "drained s s'" "ontime s"
  shows "ontime s'"
proof -
  have "pxDelayedTaskList s' \<in> {DelayedL1, DelayedL2} \<and> pxOverflowDelayedTaskList s' \<in> {DelayedL1, DelayedL2}"
    using kinv_delay_lists [of s'] assms(1) by (auto simp: drained_def)
  with assms show ?thesis by (auto simp: drained_def ontime_def quiet_def split: if_splits)
qed

text \<open>After the pending ready list has been emptied, what is left is the call with no task pending ready.\<close>

lemma resume_outermost_drain:
  assumes "kinv s" "pending_wf s"
  shows "\<exists>s1. drained s s1 \<and> resume_outermost c s = resume_outermost c s1"
proof -
  obtain moved s1 where s1: "pending_ready_loop (Suc (length (lists s PendingReadyL))) False s = Inr (moved, s1)" "drained s s1"
    using pending_ready_loop_ok [OF assms, of "Suc (length (lists s PendingReadyL))" False] by (auto simp: ensures_def)
  define s2 where "s2 = (if moved then prvResetNextTaskUnblockTime s1 else s1)"
  have d: "drained s s2" using s1(2) drained_reset by (simp add: s2_def)
  then have "pending_ready_loop (Suc (length (lists s2 PendingReadyL))) False s2 = Inr (False, s2)"
    by (simp add: drained_def)
  then have "resume_outermost c s = resume_outermost c s2"
    unfolding resume_outermost_def s1(1) by (simp add: s2_def [symmetric] Let_def)
  with d show ?thesis by blast
qed

section \<open>The outermost call\<close>

text \<open>Leaving the critical section changes the nesting count back and may pend a switch.\<close>

lemma aged_exit:
  assumes "aged n x s'" "xSchedulerRunning x" "uxCriticalNestings x = (uxCriticalNestings s)(c := 1)"
    "uxCriticalNestings s c = 0"
  shows "aged n (x\<lparr>uxCriticalNestings := uxCriticalNestings s\<rparr>) (vTaskExitCritical c s')"
    "xYieldPendings s' c \<Longrightarrow> pendsv (vTaskExitCritical c s') c"
proof -
  have n: "uxCriticalNestings s' = (uxCriticalNestings s)(c := 1)" "xSchedulerRunning s'"
    using assms(1-3) by (simp_all add: aged_def quiet_def)
  have "(uxCriticalNestings s')(c := 0) = uxCriticalNestings s" using assms(4) by (auto simp: n)
  then have e: "vTaskExitCritical c s' = (let r = s'\<lparr>uxCriticalNestings := uxCriticalNestings s\<rparr> in
      if xYieldPendings s' c then portYIELD c r else r)"
    using n assms(4) by (simp add: vTaskExitCritical_def set_nesting_def Let_def)
  have "aged n (x\<lparr>uxCriticalNestings := uxCriticalNestings s\<rparr>) (s'\<lparr>uxCriticalNestings := uxCriticalNestings s\<rparr>)"
    using assms(1) by (simp add: aged_def quiet_def)
  from this aged_yields [OF this yields_portYIELD, of c]
  show "aged n (x\<lparr>uxCriticalNestings := uxCriticalNestings s\<rparr>) (vTaskExitCritical c s')"
    "xYieldPendings s' c \<Longrightarrow> pendsv (vTaskExitCritical c s') c"
    by (auto simp: e Let_def portYIELD_def)
qed

lemma xTaskResumeAll_drains:
  assumes "kinv s" "ontime s" "pending_wf s" "uxSchedulerSuspended s = 1" "xSchedulerRunning s"
    and "uxCriticalNestings s c = 0" "uxCurrentNumberOfTasks s > 0"
  shows "ensures (xTaskResumeAll c s) (\<lambda>(b, s'). (\<exists>s1. drained s s1 \<and>
    aged (unat (xPendedTicks s)) (unsuspended s1) s') \<and> (b \<longrightarrow> pendsv s' c))"
proof -
  define s0 where "s0 = (set_nesting c 1 s)\<lparr>uxSchedulerSuspended := 0\<rparr>"
  have f0: "kinv s0" "ontime s0" "pending_wf s0" "uxSchedulerSuspended s0 = 0" "xPendedTicks s0 = xPendedTicks s"
    "uxCurrentNumberOfTasks s0 > 0" "xSchedulerRunning s0" "uxCriticalNestings s0 = (uxCriticalNestings s)(c := 1)"
    using assms by (simp_all add: s0_def) (simp_all add: set_nesting_def ontime_def pending_wf_def)
  obtain s1 where s1: "drained s0 s1" "resume_outermost c s0 = resume_outermost c s1"
    using resume_outermost_drain [OF f0(1,3), of c] by blast
  have q1: "quiet s0 s1" and k1: "kinv s1" and p1: "lists s1 PendingReadyL = []" using s1(1) by (simp_all add: drained_def)
  have f1: "uxSchedulerSuspended s1 = 0" "xPendedTicks s1 = xPendedTicks s" "xSchedulerRunning s1"
    "uxCriticalNestings s1 = (uxCriticalNestings s)(c := 1)" using q1 f0(4,5,7,8) by (simp_all add: quiet_def)
  define s2 where "s2 = s1\<lparr>uxCriticalNestings := uxCriticalNestings s, uxSchedulerSuspended := 1\<rparr>"
  have d2: "drained s s2" using s1(1) assms(4) by (simp add: drained_def s2_def s0_def quiet_def set_nesting_def)
  have u2: "unsuspended s2 = (unsuspended s1)\<lparr>uxCriticalNestings := uxCriticalNestings s\<rparr>"
    by (simp add: s2_def unsuspended_def)
  have u1: "xSchedulerRunning (unsuspended s1)" "uxCriticalNestings (unsuspended s1) = (uxCriticalNestings s)(c := 1)"
    using f1(3,4) by (simp_all add: unsuspended_def)
  have body: "ensures (resume_outermost c s0)
      (\<lambda>(b, s'). aged (unat (xPendedTicks s)) (unsuspended s1) s' \<and> b = xYieldPendings s' c)"
    unfolding s1(2) f1(2) [symmetric]
    by (rule resume_outermost_ok [OF k1 drained_ontime [OF s1(1) f0(2)] f1(1) p1])
  have fin: "(\<exists>s1. drained s s1 \<and> aged (unat (xPendedTicks s)) (unsuspended s1) (vTaskExitCritical c s')) \<and>
      (xYieldPendings s' c \<longrightarrow> pendsv (vTaskExitCritical c s') c)"
    if "aged (unat (xPendedTicks s)) (unsuspended s1) s'" for s'
    using aged_exit [OF that u1 assms(6)] d2 u2 by auto
  have e: "vTaskEnterCritical c s = set_nesting c 1 s" using assms(5,6) by (simp add: enter_eq)
  have "dec32 (uxSchedulerSuspended (set_nesting c 1 s)) = 0"
    using assms(4) dec32_Suc [of 0] by (simp add: set_nesting_def)
  then have u: "(set_nesting c 1 s)\<lparr>uxSchedulerSuspended := dec32 (uxSchedulerSuspended (set_nesting c 1 s))\<rparr> = s0"
    by (simp only: s0_def)
  have "ensures (critical c (\<lambda>s0. let s1 = s0\<lparr>uxSchedulerSuspended := dec32 (uxSchedulerSuspended s0)\<rparr> in
      if uxSchedulerSuspended s1 = 0 \<and> uxCurrentNumberOfTasks s1 > 0 then resume_outermost c s1 else Inr (False, s1)) s)
    (\<lambda>(b, s'). (\<exists>s1. drained s s1 \<and> aged (unat (xPendedTicks s)) (unsuspended s1) s') \<and> (b \<longrightarrow> pendsv s' c))"
    unfolding critical_def e Let_def u
    by (simp only: f0(4,6) simp_thms if_True) (rule ensures_bind [OF body], use fin in auto)
  then show ?thesis using assms(5) by (simp add: xTaskResumeAll_def)
qed

end
