(* ===== verification/KernelResults.thy ===== *)
theory KernelResults
  imports KernelExample ResumeProps
begin

text \<open>
  The properties of the kernel: what every run of the system keeps, what the scheduler chooses,
  and what the calls of tasks and interrupts do.
\<close>

section \<open>From power-on\<close>

text \<open>C27: Executed on the kernel, the calls of the partitioner and the start of the scheduler complete
  without a fault, if the TCBs of all tasks, the idle and timer tasks included, are distinct, core affinities are set
  only for tasks created before, and none is set for a task whose creation failed; they leave a stable state in which
  every task has the core affinity set last, and its priority limited to \<open>configMAX_PRIORITIES - 1\<close>.  If the affinity of a task that was not created is set, the handle is NULL and the
  kernel follows the current task of core 0, which is NULL before the scheduler runs.\<close>

theorem boot_establishes:
  assumes "created mk 0 [] calls = Some H" "fresh idle tmr (set H)"
  shows "if sets_null_affinity calls then boot mk idle tmr tab calls = Inl NullDeref
    else \<exists>s. boot mk idle tmr tab calls = Inr s \<and> stable s \<and>
      (\<forall>t \<in> set H. uxCoreAffinityMask (tcb s t) = final_mask mk 0 (\<lambda>_. 0) calls t \<and>
         prio s t = final_prio mk 0 (\<lambda>_. 0) calls t)"
  using boot_ok [OF assms, of tab] by (auto simp: ensures_def)

lemma shipped_created: "created mk_w 0 [] (kcalls shipped_final) = Some [108, 107, 106, 105, 104, 103, 102, 101, 100]"
  by (simp add: shipped_final_def mk_w_def)

text \<open>No memory for the monitor task; and the shipped program, whose tasks 101 to 104 were declared with the
  priorities 7, 6, 5, 4.\<close>

theorem boot_establishes_witness:
  "boot (\<lambda>n. None) (\<lambda>x. x) 2 [] [CallMonitorCreate 10, CallCoreAffinitySet None 1] = Inl NullDeref \<and>
   (\<exists>s. boot mk_w (\<lambda>x. x) 2 (task_list shipped_final) (kcalls shipped_final) = Inr s \<and> stable s \<and>
    map (\<lambda>t. uxCoreAffinityMask (tcb s t)) [101, 102, 103, 104, 105, 106, 107, 108] = [1, 1, 1, 1, 2, 1, 1, 2] \<and>
    map (prio s) [100, 101, 102, 103, 104, 105, 106, 107, 108] = [4, 4, 4, 4, 4, 3, 2, 1, 4])"
proof
  show "boot (\<lambda>n. None) (\<lambda>x. x) 2 [] [CallMonitorCreate 10, CallCoreAffinitySet None 1] = Inl NullDeref"
    using boot_establishes [of "\<lambda>n. None" "[CallMonitorCreate 10, CallCoreAffinitySet None 1]" "[]" "\<lambda>x. x" 2 "[]"]
    by (simp add: fresh_def sets_null_affinity_def)
next
  have "fresh (\<lambda>x. x) 2 (set [108, 107, 106, 105, 104, 103, 102, 101, 100])" by (simp add: fresh_def)
  moreover have "\<not> sets_null_affinity (kcalls shipped_final)" by (simp add: sets_null_affinity_def shipped_final_def)
  ultimately obtain s where "boot mk_w (\<lambda>x. x) 2 (task_list shipped_final) (kcalls shipped_final) = Inr s" "stable s"
    and "\<forall>t \<in> set [108, 107, 106, 105, 104, 103, 102, 101, 100].
      uxCoreAffinityMask (tcb s t) = final_mask mk_w 0 (\<lambda>_. 0) (kcalls shipped_final) t \<and>
      prio s t = final_prio mk_w 0 (\<lambda>_. 0) (kcalls shipped_final) t"
    using boot_establishes [OF shipped_created, of "\<lambda>x. x" 2 "task_list shipped_final"] by auto
  moreover have "map (final_mask mk_w 0 (\<lambda>_. 0) (kcalls shipped_final)) [101, 102, 103, 104, 105, 106, 107, 108] =
      [1, 1, 1, 1, 2, 1, 1, 2]" by (simp add: shipped_final_def mk_w_def)
  moreover have "map (final_prio mk_w 0 (\<lambda>_. 0) (kcalls shipped_final)) [100, 101, 102, 103, 104, 105, 106, 107, 108] =
      [4, 4, 4, 4, 4, 3, 2, 1, 4]"
    by (simp add: shipped_final_def mk_w_def new_prio_def configMAX_PRIORITIES_def)
  ultimately show "\<exists>s. boot mk_w (\<lambda>x. x) 2 (task_list shipped_final) (kcalls shipped_final) = Inr s \<and> stable s \<and>
    map (\<lambda>t. uxCoreAffinityMask (tcb s t)) [101, 102, 103, 104, 105, 106, 107, 108] = [1, 1, 1, 1, 2, 1, 1, 2] \<and>
    map (prio s) [100, 101, 102, 103, 104, 105, 106, 107, 108] = [4, 4, 4, 4, 4, 3, 2, 1, 4]" by (intro exI [of _ s]) simp
qed

text \<open>C2: No run of the system ends in a fault: in every state reached from a stable state by ticks,
  context switches, calls of tasks and the idle tasks, every enabled action completes, and the state
  it leaves is stable again.\<close>

theorem kernel_never_faults:
  assumes "stable s" "reaches slp s as s'" "enabled a s'"
  shows "\<exists>s''. act slp a s' = Inr s'' \<and> stable s''"
  using act_ok [of s' a slp] reaches_ok [OF assms(2,1)] assms(3) by (auto simp: ensures_def)

theorem kernel_never_faults_witness: "\<exists>s''. act (\<lambda>_ s. Inr s) (TaskCall 0 (CallDelay 3)) demo = Inr s'' \<and> stable s''"
proof (rule kernel_never_faults [OF demo_stable reaches.here])
  show "enabled (TaskCall 0 (CallDelay 3)) demo"
    by (simp add: enabled_def idle_task_def cur_def demo_defs configNUMBER_OF_CORES_def ex_core [unfolded configNUMBER_OF_CORES_def])
qed

text \<open>C1: In every reachable state a running task may run on the core it runs on: the core is in the
  affinity mask the task had in the beginning; and no task runs on two cores.\<close>

theorem affinity_respected:
  assumes "stable s" "reaches slp s as s'" "x < configNUMBER_OF_CORES"
    and "pxCurrentTCBs s' x = Some t" "taskTASK_IS_RUNNING t s'"
  shows "bit (uxCoreAffinityMask (tcb s t)) x \<and> runstate s' t = int x \<and>
    (\<forall>y < configNUMBER_OF_CORES. y \<noteq> x \<longrightarrow> pxCurrentTCBs s' y \<noteq> Some t)"
proof -
  have s': "stable s'" "same_params s s'" using reaches_ok [OF assms(2,1)] by simp_all
  then have k: "kinv s'" by (simp add: stable_def)
  have t: "t = cur s' x" using assms(4) by (simp add: cur_def)
  have "cores_wf s'" using k by (simp add: kinv_def)
  then have "runstate s' t = int x \<and> may_run_on s' t x \<or> runstate s' t = taskTASK_SCHEDULED_TO_YIELD"
    using assms(3) t unfolding cores_wf_def by blast
  then have "runstate s' t = int x" "may_run_on s' t x"
    using assms(5) by (auto simp: taskTASK_IS_RUNNING_def taskTASK_SCHEDULED_TO_YIELD_def)
  moreover have "pxCurrentTCBs s' y \<noteq> Some t" if "y < configNUMBER_OF_CORES" "y \<noteq> x" for y
    using kinv_cur_ne [OF k that(1) assms(3)] that t by (auto simp: cur_def)
  ultimately show ?thesis using s'(2) by (simp add: may_run_on_def same_params_def)
qed

theorem affinity_respected_witness:
  "bit (uxCoreAffinityMask (tcb demo 2)) 1 \<and> runstate demo 2 = 1 \<and> pxCurrentTCBs demo 0 \<noteq> Some 2"
  using affinity_respected [OF demo_stable reaches.here, where x = 1 and t = 2]
  by (simp add: demo_defs taskTASK_IS_RUNNING_def configNUMBER_OF_CORES_def)

section \<open>What the scheduler chooses\<close>

lemma ready_prio: "kinv s \<Longrightarrow> t \<in> set (ready s p) \<Longrightarrow> prio s t = p"
  by (simp add: kinv_def prios_wf_def)

lemma ready_queue_sorted:
  assumes "kinv s"
  shows "sorted_wrt (\<lambda>t u. prio s u \<le> prio s t) (concat (map (ready s) (rev [0..<n])))"
proof (induction n)
  case (Suc n)
  have "sorted_wrt (\<lambda>t u. prio s u \<le> prio s t) (ready s n)"
    using ready_prio [OF assms nth_mem] by (auto simp: sorted_wrt_iff_nth_less)
  moreover have "prio s u \<le> prio s t" if "t \<in> set (ready s n)" "u \<in> set (ready s p)" "p < n" for t u p
    using ready_prio [OF assms that(1)] ready_prio [OF assms that(2)] that(3) by simp
  ultimately show ?case using Suc by (auto simp: sorted_wrt_append)
qed simp

lemma next_task_highest:
  assumes "kinv s" "next_task c s = Some t" "eligible c s u" "stateContainer (tcb s u) = Some (ReadyL (prio s u))"
  shows "prio s u \<le> prio s t"
proof -
  let ?q = "ready_queue s"
  have "prio s u < configMAX_PRIORITIES" using assms(1) by (simp add: kinv_def prios_wf_def)
  then have "u \<in> set ?q" using in_state_list [OF assms(1), of "ReadyL (prio s u)" u] assms(4)
    by (auto simp: ready_queue_def)
  then obtain j where j: "j < length ?q" "?q ! j = u" by (auto simp: in_set_conv_nth)
  obtain i where i: "i < length ?q" "t = ?q ! i" "\<forall>k < i. \<not> eligible c s (?q ! k)"
    using assms(2) by (auto simp: next_task_def find_Some_iff)
  have "i \<le> j" using i(3) j(2) assms(3) by (meson not_le)
  moreover have "sorted_wrt (\<lambda>t u. prio s u \<le> prio s t) ?q"
    using ready_queue_sorted [OF assms(1)] by (simp add: ready_queue_def)
  ultimately show ?thesis using i(2) j by (cases "i = j") (auto simp: sorted_wrt_iff_nth_less)
qed

lemma rotated_fields [simp]: "tcb (rotated c s) = tcb s" "cur (rotated c s) = cur s"
  "eligible c (rotated c s) = eligible c s"
  by (auto simp: rotated_def Let_def set_list_def cur_def eligible_def may_run_on_def fun_eq_iff)

text \<open>C3: A context switch gives the core the first task of the ready lists, from the highest
  priority down and in the order of each list, the running task moved to the end of its own, that may
  run on the core and does not run on the other: no task that could run there has a higher priority.
  The task of the other core stays.\<close>

theorem switch_picks_first_eligible:
  assumes "kinv s" "c < configNUMBER_OF_CORES"
  shows "\<exists>s'. prvSelectHighestPriorityTask c s = Inr s' \<and> kinv s' \<and>
    pxCurrentTCBs s' c = next_task c (rotated c s) \<and> runs s' c \<and> may_run_on s (cur s' c) c \<and>
    (\<forall>u. eligible c s u \<and> stateContainer (tcb s u) = Some (ReadyL (prio s u)) \<longrightarrow> prio s u \<le> prio s (cur s' c)) \<and>
    pxCurrentTCBs s' (1 - c) = pxCurrentTCBs s (1 - c)"
proof -
  obtain s' where s': "prvSelectHighestPriorityTask c s = Inr s'" "switched c s s'"
    using prvSelectHighestPriorityTask_ok [OF assms] by (auto simp: ensures_def)
  then have k': "kinv s'" and n: "next_task c (rotated c s) = Some (cur s' c)" by (simp_all add: switched_def)
  note kr = kinv_rotated [OF assms(1)]
  have el: "eligible c s (cur s' c)" using next_task_ready(1) [OF kr n] by simp
  have p: "pxCurrentTCBs s' x = Some (cur s' x)" "pxCurrentTCBs s x = Some (cur s x)" if "x < configNUMBER_OF_CORES" for x
    using k' assms(1) that by (simp_all add: kinv_def cores_wf_def)
  have o: "1 - c < configNUMBER_OF_CORES" "1 - c \<noteq> c" using assms(2) by (auto simp: configNUMBER_OF_CORES_def less_2_cases_iff)
  then have "cur s' (1 - c) = cur s (1 - c)" using s'(2) unfolding switched_def by blast
  then have q: "pxCurrentTCBs s' (1 - c) = pxCurrentTCBs s (1 - c)" using p [OF o(1)] by simp
  have m: "may_run_on s (cur s' c) c" using el by (simp add: eligible_def)
  have r: "runs s' c" using s'(2) by (simp add: switched_def)
  have h: "prio s u \<le> prio s (cur s' c)"
    if "eligible c s u \<and> stateContainer (tcb s u) = Some (ReadyL (prio s u))" for u
    using next_task_highest [OF kr n, of u] that by simp
  show ?thesis using s'(1) k' p(1) [OF assms(2)] n r m h q by (intro exI [of _ s']) simp
qed

text \<open>Core 0 goes on with task 1, which is alone at the highest priority that is ready.\<close>

theorem switch_picks_first_eligible_witness:
  "\<exists>s'. prvSelectHighestPriorityTask 0 demo = Inr s' \<and> kinv s' \<and> pxCurrentTCBs s' 0 = Some 1"
proof -
  have "next_task 0 (rotated 0 demo) = Some 1"
    by (simp add: next_task_def ready_queue_def rotated_def eligible_def may_run_on_def cur_def Let_def
        configMAX_PRIORITIES_def upt_rec set_list_def demo_defs)
  moreover have "kinv demo" using demo_stable by (simp add: stable_def)
  ultimately show ?thesis using switch_picks_first_eligible [of demo 0]
    by (auto simp: configNUMBER_OF_CORES_def)
qed

section \<open>The tick\<close>

fun ticks :: "nat \<Rightarrow> kernel \<Rightarrow> fault + kernel" where
  "ticks 0 s = Inr s"
| "ticks (Suc k) s = bindE (ticks k s) (xPortSysTickHandler 0)"

definition after_ticks :: "nat \<Rightarrow> kernel \<Rightarrow> kernel \<Rightarrow> bool" where
  "after_ticks k s s' \<longleftrightarrow> stable s' \<and> xTickCount s' = xTickCount s + of_nat k \<and>
     (\<forall>t. remaining s' t = age k (remaining s t) \<and> prio s' t = prio s t \<and>
        stateContainer (tcb s' t) = (if sleeping s t \<and> \<not> sleeping s' t then Some (ReadyL (prio s t))
          else stateContainer (tcb s t)))"

lemma remaining_None: "remaining s t = None \<longleftrightarrow> \<not> sleeping s t"
  by (simp add: remaining_def)

lemma ticks_ok: "stable s \<Longrightarrow> ensures (ticks k s) (after_ticks k s)"
proof (induction k)
  case 0
  then have "kinv s" "ontime s" by (simp_all add: stable_def)
  then show ?case using 0 age_0 [OF remaining_pos] by (simp add: after_ticks_def)
next
  case (Suc k)
  have "after_ticks (Suc k) s s2" if 1: "after_ticks k s s1" and 2: "stable s2" "aged 1 s1 s2" for s1 s2
  proof -
    have r: "remaining s2 t = age (Suc k) (remaining s t)" for t
      using 1 2 age_age [of 1 k] by (simp add: after_ticks_def aged_def)
    have "\<not> sleeping s2 t" if "\<not> sleeping s1 t" for t
      using that 2(2) by (simp add: aged_def age_def flip: remaining_None)
    moreover have "\<not> sleeping s1 t" if "\<not> sleeping s t" for t
      using that 1 by (simp add: after_ticks_def age_def flip: remaining_None)
    ultimately have "stateContainer (tcb s2 t) = (if sleeping s t \<and> \<not> sleeping s2 t then Some (ReadyL (prio s t))
        else stateContainer (tcb s t))" for t
      using 1 2(2) by (auto simp: after_ticks_def aged_def)
    then show ?thesis using 1 2 r by (simp add: after_ticks_def aged_def quiet_def algebra_simps)
  qed
  moreover have "ensures (xPortSysTickHandler 0 s1) (\<lambda>s2. stable s2 \<and> aged 1 s1 s2)" if "after_ticks k s s1" for s1
    using xPortSysTickHandler_ok [of s1 0] that by (simp add: after_ticks_def configNUMBER_OF_CORES_def)
  ultimately have "ensures (xPortSysTickHandler 0 s1) (after_ticks (Suc k) s)" if "after_ticks k s s1" for s1
    using that by (blast intro: ensures_mono)
  from ensures_bind [OF Suc.IH [OF Suc.prems] this] show ?case by simp
qed

text \<open>C6: A task that sleeps for \<open>n\<close> more ticks sleeps through the next \<open>n - 1\<close> tick interrupts and is
  ready after the \<open>n\<close>-th, also when the 32-bit tick count wraps around in between; no interrupt faults.\<close>

theorem sleeper_wakes_on_time:
  assumes "stable s" "remaining s t = Some n"
  shows "\<exists>s'. ticks k s = Inr s' \<and> stable s' \<and> xTickCount s' = xTickCount s + of_nat k \<and>
    remaining s' t = (if k < n then Some (n - k) else None) \<and>
    (n \<le> k \<longrightarrow> stateContainer (tcb s' t) = Some (ReadyL (prio s t)))"
proof -
  obtain s' where s': "ticks k s = Inr s'" "after_ticks k s s'"
    using ticks_ok [OF assms(1), of k] by (auto simp: ensures_def)
  have r: "remaining s' t = (if k < n then Some (n - k) else None)"
    using s'(2) assms(2) by (auto simp: after_ticks_def age_def)
  have "sleeping s t" using assms(2) remaining_None [of s t] by auto
  moreover have "\<not> sleeping s' t" if "n \<le> k" using r that by (simp flip: remaining_None)
  ultimately show ?thesis using s' r by (simp add: after_ticks_def)
qed

lemma demo_remaining: "remaining demo 3 = Some 5"
  by (simp add: remaining_def sleeping_def demo_defs)

theorem sleeper_wakes_on_time_witness:
  "\<exists>s'. ticks 5 demo = Inr s' \<and> stable s' \<and> xTickCount s' = 105 \<and> remaining s' 3 = None \<and>
    stateContainer (tcb s' 3) = Some (ReadyL 3)"
  using sleeper_wakes_on_time [OF demo_stable demo_remaining, of 5] by (simp add: demo_defs)

text \<open>C33: Nothing that happens while the scheduler is suspended is lost.  The outermost
  \<open>xTaskResumeAll\<close> makes every task that is pending ready ready, in the list of its priority, and leaves
  none pending; it moves the tick count on by the number of ticks counted meanwhile; every other task that
  sleeps sleeps that many ticks less, and those whose time has come are ready; all others stay where they were.\<close>

theorem resume_loses_no_tick:
  assumes "kinv s" "ontime s" "waiters_wf s" "uxSchedulerSuspended s = 1" "xSchedulerRunning s"
    and "uxCriticalNestings s c = 0" "uxCurrentNumberOfTasks s > 0"
  shows "\<exists>b s'. xTaskResumeAll c s = Inr (b, s') \<and> kinv s' \<and> uxSchedulerSuspended s' = 0 \<and> xPendedTicks s' = 0 \<and>
    lists s' PendingReadyL = [] \<and> xTickCount s' = xTickCount s + xPendedTicks s \<and>
    (\<forall>t. remaining s' t = (if t \<in> set (lists s PendingReadyL) then None
         else age (unat (xPendedTicks s)) (remaining s t)) \<and>
       stateContainer (tcb s' t) =
         (if t \<in> set (lists s PendingReadyL) \<or> sleeping s t \<and> \<not> sleeping s' t then Some (ReadyL (prio s t))
          else stateContainer (tcb s t)))"
proof -
  obtain b s' s1 where r: "xTaskResumeAll c s = Inr (b, s')" "drained s s1"
    and a: "aged (unat (xPendedTicks s)) (unsuspended s1) s'"
    using xTaskResumeAll_drains [OF assms(1,2) waiters_pending_wf [OF assms(1,3)] assms(4-7)]
    by (auto simp: ensures_def)
  have d: "stateContainer (tcb s1 t) =
      (if t \<in> set (lists s PendingReadyL) then Some (ReadyL (prio s t)) else stateContainer (tcb s t))"
    "prio s1 t = prio s t" "xStateListItem (tcb s1 t) = xStateListItem (tcb s t)" for t
    using r(2) by (simp_all add: drained_def quiet_def)
  have "xTickCount s1 = xTickCount s" "lists s1 PendingReadyL = []" using r(2) by (simp_all add: drained_def quiet_def)
  note d = d this
  have u: "sleeping (unsuspended s1) t = (t \<notin> set (lists s PendingReadyL) \<and> sleeping s t)"
    "remaining (unsuspended s1) t = (if t \<in> set (lists s PendingReadyL) then None else remaining s t)" for t
    by (simp_all add: sleeping_def remaining_def unsuspended_def d)
  have "lists s' PendingReadyL = []" using a d(5) by (simp add: aged_def quiet_def unsuspended_def)
  moreover have "xTickCount s' = xTickCount s + xPendedTicks s" "uxSchedulerSuspended s' = 0" "xPendedTicks s' = 0" "kinv s'"
    using a d(4) by (simp_all add: aged_def quiet_def unsuspended_def)
  moreover have "remaining s' t = (if t \<in> set (lists s PendingReadyL) then None
         else age (unat (xPendedTicks s)) (remaining s t))" for t
    using a u(2) [of t] by (simp add: aged_def age_def)
  moreover have "stateContainer (tcb s' t) =
         (if t \<in> set (lists s PendingReadyL) \<or> sleeping s t \<and> \<not> sleeping s' t then Some (ReadyL (prio s t))
          else stateContainer (tcb s t))" for t
    using a u(1) [of t] d(1,2) [of t] by (simp add: aged_def unsuspended_def)
  ultimately show ?thesis using r(1) by blast
qed

text \<open>The scheduler was suspended for five ticks, and task 4 became ready meanwhile.\<close>

definition demo_suspended :: kernel where
  "demo_suspended = (event_insert_end PendingReadyL 4 demo)\<lparr>uxSchedulerSuspended := 1, xPendedTicks := 5\<rparr>"

theorem resume_loses_no_tick_witness:
  "\<exists>b s'. xTaskResumeAll 0 demo_suspended = Inr (b, s') \<and> xTickCount s' = 105 \<and> remaining s' 3 = None \<and>
    stateContainer (tcb s' 3) = Some (ReadyL 3) \<and>
    lists demo_suspended PendingReadyL = [4] \<and> stateContainer (tcb s' 4) = Some (ReadyL 4)"
proof -
  have d: "kinv demo" "ontime demo" using demo_stable by (simp_all add: stable_def)
  have "eventContainer (tcb demo 4) = None" by (simp add: demo_defs)
  then have "kinv (event_insert_end PendingReadyL 4 demo)" by (intro kinv_event_insert(2) [OF d(1)]) simp_all
  then have k: "kinv demo_suspended" by (simp add: demo_suspended_def)
  have o: "ontime demo_suspended"
    using d(2) by (simp add: demo_suspended_def ontime_def event_insert_end_def prim_defs)
  have w: "waiters_wf demo_suspended"
    by (auto simp: waiters_wf_def demo_suspended_def event_insert_end_def prim_defs demo_defs split: if_splits)
  have f: "uxSchedulerSuspended demo_suspended = 1" "xPendedTicks demo_suspended = 5" "xTickCount demo_suspended = 100"
    "prio demo_suspended 3 = 3" "prio demo_suspended 4 = 4" "xSchedulerRunning demo_suspended"
    "uxCriticalNestings demo_suspended 0 = 0" "uxCurrentNumberOfTasks demo_suspended > 0"
    "lists demo_suspended PendingReadyL = [4]" "remaining demo_suspended 3 = Some 5" "sleeping demo_suspended 3"
    by (simp_all add: remaining_def sleeping_def demo_suspended_def event_insert_end_def prim_defs demo_defs)
  obtain b s' where s': "xTaskResumeAll 0 demo_suspended = Inr (b, s')" "xTickCount s' = 100 + 5"
    and t: "\<And>t. remaining s' t = (if t \<in> set [4] then None else age (unat (5 :: u32)) (remaining demo_suspended t)) \<and>
      stateContainer (tcb s' t) = (if t \<in> set [4] \<or> sleeping demo_suspended t \<and> \<not> sleeping s' t
        then Some (ReadyL (prio demo_suspended t)) else stateContainer (tcb demo_suspended t))"
    using resume_loses_no_tick [OF k o w f(1,6,7,8), unfolded f(2,3,9)] by blast
  have r: "remaining s' 3 = None" using t [of 3] f(10) by (simp add: age_def)
  then have "stateContainer (tcb s' 3) = Some (ReadyL 3)"
    using t [of 3] f(4,11) by (simp flip: remaining_None)
  then show ?thesis using s' r t [of 4] f(5,9) by simp
qed

section \<open>The calls of tasks\<close>

text \<open>A task that calls \<open>vTaskDelay( n )\<close>, \<open>n > 0\<close>, sleeps for exactly \<open>n\<close> more ticks, its core is
  told to switch, and no other task is affected.\<close>

theorem vTaskDelay_sleeps:
  assumes "stable s" "c < configNUMBER_OF_CORES" "live s (cur s c)" "n \<noteq> 0"
  shows "\<exists>s'. vTaskDelay c n s = Inr s' \<and> stable s' \<and> pendsv s' c \<and> remaining s' (cur s c) = Some (unat n) \<and>
    (\<forall>u. u \<noteq> cur s c \<longrightarrow> remaining s' u = remaining s u \<and> stateContainer (tcb s' u) = stateContainer (tcb s u))"
  using vTaskDelay_ok [OF assms] by (auto simp: ensures_def delayed_by_def)

lemma demo_live: "live demo 1" "live demo 2" "live demo 3" "cur demo 0 = 1" "cur demo 1 = 2"
  by (simp_all add: live_def idle_task_def cur_def ex_core demo_defs)

theorem vTaskDelay_sleeps_witness:
  "\<exists>s'. vTaskDelay 0 7 demo = Inr s' \<and> stable s' \<and> pendsv s' 0 \<and> remaining s' 1 = Some 7 \<and> remaining s' 3 = Some 5"
proof -
  have "unat (7 :: u32) = 7" by simp
  with vTaskDelay_sleeps [OF demo_stable, of 0 7] demo_live demo_remaining show ?thesis
    by (auto simp: configNUMBER_OF_CORES_def)
qed

text \<open>C29: Called \<open>d\<close> ticks after the previous release with an increment of \<open>i\<close> ticks, each less than
  \<open>2 ^ 32\<close>, \<open>xTaskDelayUntil\<close> makes the caller sleep exactly \<open>i - d\<close> ticks when the release is still to
  come, and does not put it to sleep when it has passed, wherever the tick count wraps around; the next
  release is \<open>i\<close> ticks after the previous one.\<close>

theorem xTaskDelayUntil_exact:
  assumes "stable s" "c < configNUMBER_OF_CORES" "live s (cur s c)"
    and "i < 2 ^ 32" "d < 2 ^ 32" "xTickCount s = prev + of_nat d"
  shows "\<exists>s'. xTaskDelayUntil c prev (of_nat i) s = Inr ((prev + of_nat i, d < i), s') \<and> stable s' \<and> pendsv s' c \<and>
    (if d < i then remaining s' (cur s c) = Some (i - d)
     else stateContainer (tcb s' (cur s c)) = stateContainer (tcb s (cur s c)))"
proof -
  have sd: "should_delay (xTickCount s) prev (prev + of_nat i) \<longleftrightarrow> d < i"
    using should_delay_iff [OF assms(4,5), of prev] assms(6) by simp
  have u: "unat (of_nat i - of_nat d :: u32) = i - d" if "d < i"
    using that assms(4,5) by (simp add: unat_sub word_le_nat_alt unat_of_nat take_bit_nat_eq_self)
  obtain s' where s': "xTaskDelayUntil c prev (of_nat i) s = Inr ((prev + of_nat i, d < i), s')"
    "if d < i then delayed_by c (prev + of_nat i - xTickCount s) s s' else resumed_from c s s'"
    using xTaskDelayUntil_ok [OF assms(1-3), of prev "of_nat i"] by (auto simp: ensures_def sd)
  then show ?thesis using u by (auto simp: delayed_by_def resumed_from_def assms(6) split: if_splits)
qed

theorem xTaskDelayUntil_exact_witness:
  "\<exists>s'. xTaskDelayUntil 0 90 30 demo = Inr ((120, True), s') \<and> stable s' \<and> remaining s' 1 = Some 20"
proof -
  have "xTickCount demo = 90 + of_nat 10" by (simp add: demo_defs)
  from xTaskDelayUntil_exact [OF demo_stable _ _ _ _ this, of 0 30] demo_live show ?thesis
    by (auto simp: configNUMBER_OF_CORES_def)
qed

text \<open>Whatever list a task stands in, and whatever core it runs on, \<open>vTaskSuspend\<close> moves it to the
  suspended list, and \<open>vTaskResume\<close> from there to the ready list of its priority; all other tasks stay
  where they are.\<close>

theorem suspend_resume_roundtrip:
  assumes "stable s" "c < configNUMBER_OF_CORES" "c' < configNUMBER_OF_CORES" "live s t"
  shows "\<exists>s1 s2. vTaskSuspend c (Some t) s = Inr ((), s1) \<and> stable s1 \<and> stateContainer (tcb s1 t) = Some SuspendedL \<and>
    vTaskResume c' (Some t) s1 = Inr ((), s2) \<and> stable s2 \<and> stateContainer (tcb s2 t) = Some (ReadyL (prio s t)) \<and>
    (\<forall>u. u \<noteq> t \<longrightarrow> stateContainer (tcb s2 u) = stateContainer (tcb s u))"
proof -
  have "live s (target c (Some t) s)" using assms(4) by (simp add: target_def)
  from vTaskSuspend_ok [OF assms(1,2) this]
  obtain s1 where s1: "vTaskSuspend c (Some t) s = Inr ((), s1)" "parked (tcb s) t (tcb s1)" "stable s1"
    by (auto simp: ensures_def target_def)
  then have "prvTaskIsTaskSuspended t s1" by (simp add: parked_def prvTaskIsTaskSuspended_def)
  with vTaskResume_ok [OF s1(3) assms(3), of t]
  obtain s2 where s2: "vTaskResume c' (Some t) s1 = Inr ((), s2)" "readied (tcb s1) t (tcb s2)" "stable s2"
    by (auto simp: ensures_def)
  show ?thesis using s1 s2
    by (intro exI [of _ s1] exI [of _ s2]) (simp add: parked_def readied_def)
qed

text \<open>Core 0 suspends and resumes the task that core 1 runs.\<close>

theorem suspend_resume_roundtrip_witness:
  "\<exists>s1 s2. vTaskSuspend 0 (Some 2) demo = Inr ((), s1) \<and> vTaskResume 1 (Some 2) s1 = Inr ((), s2) \<and> stable s2 \<and>
    stateContainer (tcb s2 2) = Some (ReadyL 2)"
proof -
  have p: "prio demo 2 = 2" by (simp add: demo_defs)
  have c: "0 < configNUMBER_OF_CORES" "1 < configNUMBER_OF_CORES" by (simp_all add: configNUMBER_OF_CORES_def)
  from suspend_resume_roundtrip [OF demo_stable c demo_live(2), unfolded p] show ?thesis by blast
qed

text \<open>A task that no core runs is freed by \<open>vTaskDelete\<close> at once; a task that runs, on whatever
  core, waits in the termination list.  No other task is affected.\<close>

theorem vTaskDelete_frees_or_defers:
  assumes "stable s" "c < configNUMBER_OF_CORES" "live s (target c h s)"
  shows "\<exists>p s'. vTaskDelete c h s = Inr (p, s') \<and> stable s' \<and>
    (if runstate s (target c h s) = taskTASK_NOT_RUNNING
     then p = Some (target c h s) \<and> stateContainer (tcb s' (target c h s)) = None
     else p = None \<and> stateContainer (tcb s' (target c h s)) = Some TerminationL) \<and>
    (\<forall>u. u \<noteq> target c h s \<longrightarrow> stateContainer (tcb s' u) = stateContainer (tcb s u))"
proof -
  obtain p s' where "vTaskDelete c h s = Inr (p, s')" "deleted s (target c h s) p (tcb s')" "stable s'"
    using vTaskDelete_ok [OF assms] by (auto simp: ensures_def)
  then show ?thesis
    by (intro exI [of _ p] exI [of _ s'])
      (simp add: deleted_def Let_def taskTASK_IS_RUNNING_OR_SCHEDULED_TO_YIELD_def)
qed

theorem vTaskDelete_frees_or_defers_witness:
  "(\<exists>s'. vTaskDelete 0 (Some 3) demo = Inr (Some 3, s') \<and> stable s' \<and> stateContainer (tcb s' 3) = None) \<and>
   (\<exists>s'. vTaskDelete 0 None demo = Inr (None, s') \<and> stable s' \<and> stateContainer (tcb s' 1) = Some TerminationL)"
proof
  have c: "0 < configNUMBER_OF_CORES" by (simp add: configNUMBER_OF_CORES_def)
  have r: "runstate demo 3 = -1" "runstate demo 1 = 0" by (simp_all add: demo_defs)
  have t: "target 0 (Some 3) demo = 3" "target 0 None demo = 1" by (simp_all add: target_def demo_live)
  show "\<exists>s'. vTaskDelete 0 (Some 3) demo = Inr (Some 3, s') \<and> stable s' \<and> stateContainer (tcb s' 3) = None"
    using vTaskDelete_frees_or_defers [OF demo_stable c, of "Some 3", unfolded t] demo_live r
    by (auto simp: taskTASK_NOT_RUNNING_def)
  show "\<exists>s'. vTaskDelete 0 None demo = Inr (None, s') \<and> stable s' \<and> stateContainer (tcb s' 1) = Some TerminationL"
    using vTaskDelete_frees_or_defers [OF demo_stable c, of None, unfolded t] demo_live r
    by (auto simp: taskTASK_NOT_RUNNING_def)
qed

text \<open>C35: The loop of the idle task that frees deleted tasks ends; it frees tasks from the front of the
  termination list, none of which still runs on a core, and stops at the first that does.\<close>

theorem idle_reaps_terminated:
  assumes "stable s" "c < configNUMBER_OF_CORES"
  shows "\<exists>fr s'. prvCheckTasksWaitingTermination c s = Inr (fr, s') \<and> stable s' \<and>
    lists s TerminationL = fr @ lists s' TerminationL \<and>
    (\<forall>t \<in> set fr. runstate s t = taskTASK_NOT_RUNNING \<and> stateContainer (tcb s' t) = None) \<and>
    (\<forall>t ts. lists s' TerminationL = t # ts \<longrightarrow> runstate s t \<noteq> taskTASK_NOT_RUNNING)"
proof -
  obtain fr s' where "prvCheckTasksWaitingTermination c s = Inr (fr, s')" "stable s'" "none_to_reap s'" "reaped s fr s'"
    using prvCheckTasksWaitingTermination_ok [OF assms] by (auto simp: ensures_def)
  then show ?thesis by (intro exI [of _ fr] exI [of _ s']) (auto simp: reaped_def none_to_reap_def split: list.splits)
qed

theorem idle_reaps_terminated_witness:
  "\<exists>s'. prvCheckTasksWaitingTermination 1 demo = Inr ([5], s') \<and> stable s' \<and> stateContainer (tcb s' 5) = None"
proof -
  have c: "1 < configNUMBER_OF_CORES" by (simp add: configNUMBER_OF_CORES_def)
  obtain fr s' where s': "prvCheckTasksWaitingTermination 1 demo = Inr (fr, s')" "stable s'"
    "lists demo TerminationL = fr @ lists s' TerminationL"
    "\<forall>t \<in> set fr. runstate demo t = taskTASK_NOT_RUNNING \<and> stateContainer (tcb s' t) = None"
    "\<forall>t ts. lists s' TerminationL = t # ts \<longrightarrow> runstate demo t \<noteq> taskTASK_NOT_RUNNING"
    using idle_reaps_terminated [OF demo_stable c] by blast
  have d: "lists demo TerminationL = [5]" "runstate demo 5 = taskTASK_NOT_RUNNING"
    by (simp_all add: demo_defs taskTASK_NOT_RUNNING_def)
  have "fr \<noteq> []"
  proof
    assume "fr = []"
    then have "lists s' TerminationL = 5 # []" using s'(3) d(1) by simp
    then show False using s'(5) d(2) by blast
  qed
  then have "fr = [5]" using s'(3) unfolding d(1) by (cases fr) auto
  then show ?thesis using s' by auto
qed

text \<open>With its two idle tasks always ready, the kernel never expects to be idle: whatever the
  function that suppresses ticks does, the idle task of a stable state does not call it, although
  \<open>configUSE_TICKLESS_IDLE\<close> is 1.\<close>

theorem tickless_never_sleeps:
  assumes "stable s" "c < configNUMBER_OF_CORES"
  shows "prvGetExpectedIdleTime c s = Inr 0 \<and> prvIdleTask slp c IdleSleep s = Inr s"
  using prvGetExpectedIdleTime_ok [OF assms]
  by (simp add: prvIdleTask_def idle_sleep_def configEXPECTED_IDLE_TIME_BEFORE_SLEEP_def)

theorem tickless_never_sleeps_witness: "prvIdleTask (\<lambda>_ _. Inl Diverges) 1 IdleSleep demo = Inr demo"
  using tickless_never_sleeps [OF demo_stable, of 1] by (simp add: configNUMBER_OF_CORES_def)

text \<open>\<open>vTaskCoreAffinitySet\<close> follows a null pointer when it gets the handle of a task whose
  creation failed: before the scheduler runs, because the core has no current task yet; and while it
  runs, when the caller has just been asked to yield, because the handle and not the task it stands for
  is passed to \<open>prvYieldForTask\<close>.\<close>

theorem affinity_set_null_handle:
  assumes "pxCurrentTCBs s c = None \<or>
    xSchedulerRunning s \<and> pxCurrentTCBs s c = Some t \<and> \<not> taskTASK_IS_RUNNING t s"
  shows "vTaskCoreAffinitySet c None m s = Inl NullDeref"
  using assms
  by (auto simp: vTaskCoreAffinitySet_def critical_def vTaskEnterCritical_def prvGetTCBFromHandle_def current_def
      set_nesting_def taskTASK_IS_RUNNING_def upd_tcb_def Let_def follow_def)

theorem affinity_set_null_handle_witness:
  "vTaskCoreAffinitySet 0 None 2 kernel_init = Inl NullDeref \<and>
   vTaskCoreAffinitySet 0 None 2 (upd_tcb 1 (\<lambda>x. x\<lparr>xTaskRunState := taskTASK_SCHEDULED_TO_YIELD\<rparr>) demo) = Inl NullDeref"
  using affinity_set_null_handle [of kernel_init 0]
    affinity_set_null_handle [of "upd_tcb 1 (\<lambda>x. x\<lparr>xTaskRunState := taskTASK_SCHEDULED_TO_YIELD\<rparr>) demo" 0 1]
  by (simp add: upd_tcb_def taskTASK_IS_RUNNING_def taskTASK_SCHEDULED_TO_YIELD_def demo_defs)

end
