(* ===== verification/QueueImpl.thy ===== *)
theory QueueImpl
  imports TaskEvents
begin

text \<open>
  Queues, semaphores and mutexes (\<open>queue.c\<close>).  A queue is a number; its storage is a list of bytes and
  the pointers into it are offsets from the start of the storage area.  The event lists of queue \<open>q\<close>
  are the kernel lists \<open>EventL (2 * q)\<close> and \<open>EventL (2 * q + 1)\<close>.

  The members of the union \<open>u\<close> are separate fields; the one write through which both members are
  visible, the reset of a mutex, sets both.  A function that blocks is one round of its loop: the
  result says that it returned, or that the task runs the loop again when it is switched in.
\<close>

section \<open>Data\<close>

text \<open>\<open>pcHead\<close>: NULL marks a mutex, the queue itself a semaphore, anything else the storage area.\<close>

datatype qhead = HeadNull | HeadSelf | HeadStorage

datatype position = queueSEND_TO_BACK | queueSEND_TO_FRONT | queueOVERWRITE

record queue =
  pcHead :: qhead
  storage :: "u8 list"
  pcWriteTo :: int
  pcTail :: int
  pcReadFrom :: int
  xMutexHolder :: ptr
  uxRecursiveCallCount :: nat
  uxMessagesWaiting :: nat
  uxLength :: nat
  uxItemSize :: nat
  cRxLock :: int
  cTxLock :: int
  ucStaticallyAllocated :: bool
  pxQueueSetContainer :: ptr

record qsys =
  kern :: kernel
  queue_of :: "nat \<Rightarrow> queue"

definition queueUNLOCKED :: int where "queueUNLOCKED = -1"
definition queueLOCKED_UNMODIFIED :: int where "queueLOCKED_UNMODIFIED = 0"
definition SIZE_MAX :: nat where "SIZE_MAX = 2 ^ 32 - 1"

definition xTasksWaitingToSend :: "nat \<Rightarrow> klist" where "xTasksWaitingToSend q = EventL (2 * q)"
definition xTasksWaitingToReceive :: "nat \<Rightarrow> klist" where "xTasksWaitingToReceive q = EventL (2 * q + 1)"

definition upd_queue :: "nat \<Rightarrow> (queue \<Rightarrow> queue) \<Rightarrow> qsys \<Rightarrow> qsys" where
  "upd_queue q f s = s\<lparr>queue_of := (queue_of s)(q := f (queue_of s q))\<rparr>"

definition upd_kern :: "(kernel \<Rightarrow> kernel) \<Rightarrow> qsys \<Rightarrow> qsys" where
  "upd_kern f s = s\<lparr>kern := f (kern s)\<rparr>"

text \<open>A function of the kernel called from here.\<close>

definition on_kern :: "(kernel \<Rightarrow> fault + 'a \<times> kernel) \<Rightarrow> qsys \<Rightarrow> fault + 'a \<times> qsys" where
  "on_kern f s = bindE (f (kern s)) (\<lambda>(r, k). Inr (r, s\<lparr>kern := k\<rparr>))"

definition on_kern1 :: "(kernel \<Rightarrow> fault + kernel) \<Rightarrow> qsys \<Rightarrow> fault + qsys" where
  "on_kern1 f s = bindE (f (kern s)) (\<lambda>k. Inr (s\<lparr>kern := k\<rparr>))"

text \<open>\<open>taskENTER_CRITICAL\<close> and \<open>taskEXIT_CRITICAL\<close> around a part of a function.\<close>

definition qcritical :: "nat \<Rightarrow> (qsys \<Rightarrow> fault + 'a \<times> qsys) \<Rightarrow> qsys \<Rightarrow> fault + 'a \<times> qsys" where
  "qcritical c f s = bindE (f (upd_kern (vTaskEnterCritical c) s)) (\<lambda>(r, s'). Inr (r, upd_kern (vTaskExitCritical c) s'))"

definition qcritical_isr :: "nat \<Rightarrow> (qsys \<Rightarrow> fault + 'a \<times> qsys) \<Rightarrow> qsys \<Rightarrow> fault + 'a \<times> qsys" where
  "qcritical_isr c f s = bindE (f (upd_kern (vTaskEnterCriticalFromISR c) s))
     (\<lambda>(r, s'). Inr (r, upd_kern (vTaskExitCriticalFromISR c) s'))"

section \<open>The ring buffer\<close>

text \<open>\<open>memcpy\<close> to and from the storage area.\<close>

definition write_bytes :: "u8 list \<Rightarrow> int \<Rightarrow> u8 list \<Rightarrow> fault + u8 list" where
  "write_bytes xs off bs =
     (if 0 \<le> off \<and> off + int (length bs) \<le> int (length xs)
      then Inr (take (nat off) xs @ bs @ drop (nat off + length bs) xs) else Inl OutOfBounds)"

definition read_bytes :: "u8 list \<Rightarrow> int \<Rightarrow> nat \<Rightarrow> fault + u8 list" where
  "read_bytes xs off n =
     (if 0 \<le> off \<and> off + int n \<le> int (length xs) then Inr (take n (drop (nat off) xs)) else Inl OutOfBounds)"

definition item_bytes :: "nat \<Rightarrow> u8 list \<Rightarrow> fault + u8 list" where
  "item_bytes n item = (if length item < n then Inl OutOfBounds else Inr (take n item))"

text \<open>\<open>prvCopyDataToQueue\<close> for a queue with data: the back of the queue is written at \<open>pcWriteTo\<close>, the
  front at \<open>pcReadFrom\<close>.\<close>

definition copy_to_storage :: "u8 list \<Rightarrow> position \<Rightarrow> queue \<Rightarrow> fault + queue" where
  "copy_to_storage item pos x =
     bindE (item_bytes (uxItemSize x) item) (\<lambda>bs.
      if pos = queueSEND_TO_BACK then
        bindE (write_bytes (storage x) (pcWriteTo x) bs) (\<lambda>st.
          let w = pcWriteTo x + int (uxItemSize x)
          in Inr (x\<lparr>storage := st, pcWriteTo := (if w \<ge> pcTail x then 0 else w)\<rparr>))
      else
        bindE (write_bytes (storage x) (pcReadFrom x) bs) (\<lambda>st.
          let r = pcReadFrom x - int (uxItemSize x)
          in Inr (x\<lparr>storage := st, pcReadFrom := (if r < 0 then pcTail x - int (uxItemSize x) else r)\<rparr>)))"

text \<open>The new number of messages, a 32-bit count: overwriting replaces one.\<close>

definition messages_after :: "position \<Rightarrow> nat \<Rightarrow> nat" where
  "messages_after pos n = ((if pos = queueOVERWRITE \<and> n > 0 then n - 1 else n) + 1) mod 2 ^ 32"

definition prvCopyDataToQueue :: "nat \<Rightarrow> nat \<Rightarrow> u8 list \<Rightarrow> position \<Rightarrow> qsys \<Rightarrow> fault + (bool \<times> qsys)" where
  "prvCopyDataToQueue c q item pos s =
     (let x = queue_of s q; n = uxMessagesWaiting x in
      if uxItemSize x = 0 then
        bindE (if pcHead x = HeadNull then
                 bindE (on_kern (xTaskPriorityDisinherit c (xMutexHolder x)) s) (\<lambda>(r, s1).
                   Inr (r, upd_queue q (\<lambda>x. x\<lparr>xMutexHolder := None\<rparr>) s1))
               else Inr (False, s)) (\<lambda>(r, s2).
          Inr (r, upd_queue q (\<lambda>x. x\<lparr>uxMessagesWaiting := (n + 1) mod 2 ^ 32\<rparr>) s2))
      else
        bindE (copy_to_storage item pos x) (\<lambda>x'.
          Inr (False, upd_queue q (\<lambda>_. x'\<lparr>uxMessagesWaiting := messages_after pos n\<rparr>) s)))"

definition prvCopyDataFromQueue :: "queue \<Rightarrow> fault + (u8 list \<times> queue)" where
  "prvCopyDataFromQueue x =
     (if uxItemSize x \<noteq> 0 then
        let r = pcReadFrom x + int (uxItemSize x); r' = (if r \<ge> pcTail x then 0 else r)
        in bindE (read_bytes (storage x) r' (uxItemSize x)) (\<lambda>item. Inr (item, x\<lparr>pcReadFrom := r'\<rparr>))
      else Inr ([], x))"

definition prvIsQueueEmpty :: "queue \<Rightarrow> bool" where
  "prvIsQueueEmpty x = (uxMessagesWaiting x = 0)"

definition prvIsQueueFull :: "queue \<Rightarrow> bool" where
  "prvIsQueueFull x = (uxMessagesWaiting x = uxLength x)"

definition uxQueueMessagesWaiting :: "queue \<Rightarrow> nat" where
  "uxQueueMessagesWaiting x = uxMessagesWaiting x"

definition uxQueueSpacesAvailable :: "queue \<Rightarrow> nat" where
  "uxQueueSpacesAvailable x = uxLength x - uxMessagesWaiting x"

section \<open>Creation\<close>

text \<open>The fields \<open>xQueueGenericReset\<close> writes; for a mutex the pointers overlay the holder.\<close>

definition reset_queue :: "queue \<Rightarrow> queue" where
  "reset_queue x =
     (let y = x\<lparr>pcTail := int (uxLength x * uxItemSize x), uxMessagesWaiting := 0, pcWriteTo := 0,
        pcReadFrom := int ((uxLength x - 1) * uxItemSize x), cRxLock := queueUNLOCKED, cTxLock := queueUNLOCKED\<rparr>
      in if pcHead x = HeadNull then y\<lparr>xMutexHolder := None, uxRecursiveCallCount := 0\<rparr> else y)"

definition xQueueGenericReset :: "nat \<Rightarrow> nat \<Rightarrow> bool \<Rightarrow> qsys \<Rightarrow> fault + (bool \<times> qsys)" where
  "xQueueGenericReset c q xNewQueue s =
     (let x = queue_of s q in
      if uxLength x \<ge> 1 \<and> SIZE_MAX div uxLength x \<ge> uxItemSize x then
        qcritical c (\<lambda>s0.
          let s1 = upd_queue q reset_queue s0 in
          if \<not> xNewQueue then
            if lists (kern s1) (xTasksWaitingToSend q) \<noteq> [] then
              bindE (on_kern (xTaskRemoveFromEventList c (xTasksWaitingToSend q)) s1) (\<lambda>(woken, s2).
                Inr (True, if woken then upd_kern (vTaskYieldWithinAPI c) s2 else s2))
            else Inr (True, s1)
          else Inr (True, upd_kern (set_list (xTasksWaitingToReceive q) [] \<circ> set_list (xTasksWaitingToSend q) []) s1)) s
      else Inr (False, s))"

definition prvInitialiseNewQueue :: "nat \<Rightarrow> nat \<Rightarrow> nat \<Rightarrow> nat \<Rightarrow> u8 list \<Rightarrow> qsys \<Rightarrow> fault + qsys" where
  "prvInitialiseNewQueue c q uxQueueLength uxSize pucQueueStorage s =
     bindE (xQueueGenericReset c q True (upd_queue q (\<lambda>x. x\<lparr>
         pcHead := (if uxSize = 0 then HeadSelf else HeadStorage), storage := pucQueueStorage,
         uxLength := uxQueueLength, uxItemSize := uxSize\<rparr>) s)) (\<lambda>(_, s1).
       Inr (upd_queue q (\<lambda>x. x\<lparr>pxQueueSetContainer := None\<rparr>) s1))"

text \<open>\<open>xQueueGenericCreate\<close>: \<open>q\<close> is the queue \<open>pvPortMalloc\<close> returned, if any, and \<open>raw\<close> the bytes behind it.
  The size of the \<open>Queue_t\<close> structure is \<open>sz\<close>.\<close>

definition xQueueGenericCreate :: "nat \<Rightarrow> nat \<Rightarrow> nat \<Rightarrow> nat \<Rightarrow> ptr \<Rightarrow> u8 list \<Rightarrow> qsys \<Rightarrow> fault + (ptr \<times> qsys)" where
  "xQueueGenericCreate sz c uxQueueLength uxSize mem raw s =
     (if uxQueueLength > 0 \<and> SIZE_MAX div uxQueueLength \<ge> uxSize \<and> SIZE_MAX - sz \<ge> uxQueueLength * uxSize then
        (case mem of None \<Rightarrow> Inr (None, s)
         | Some q \<Rightarrow> bindE (prvInitialiseNewQueue c q uxQueueLength uxSize raw
             (upd_queue q (\<lambda>x. x\<lparr>ucStaticallyAllocated := False\<rparr>) s)) (\<lambda>s1. Inr (Some q, s1)))
      else Inr (None, s))"

definition xQueueCreateCountingSemaphore :: "nat \<Rightarrow> nat \<Rightarrow> nat \<Rightarrow> nat \<Rightarrow> ptr \<Rightarrow> qsys \<Rightarrow> fault + (ptr \<times> qsys)" where
  "xQueueCreateCountingSemaphore sz c uxMaxCount uxInitialCount mem s =
     (if uxMaxCount \<noteq> 0 \<and> uxInitialCount \<le> uxMaxCount then
        bindE (xQueueGenericCreate sz c uxMaxCount 0 mem [] s) (\<lambda>(p, s1).
          Inr (p, case p of None \<Rightarrow> s1 | Some q \<Rightarrow> upd_queue q (\<lambda>x. x\<lparr>uxMessagesWaiting := uxInitialCount\<rparr>) s1))
      else Inr (None, s))"

end
