(* ===== verification/QueueApi.thy ===== *)
theory QueueApi
  imports QueueImpl
begin

text \<open>
  Sending to and receiving from queues, taking and giving semaphores and mutexes, queue sets, and the
  variants for interrupts (\<open>queue.c\<close>).
\<close>

section \<open>Locks and queue sets\<close>

text \<open>\<open>int8_t\<close> counters.\<close>

definition inc8 :: "int \<Rightarrow> int" where "inc8 x = (if x = 127 then -128 else x + 1)"

text \<open>The comparison with the number of tasks is unsigned.\<close>

definition prvIncrementQueueTxLock :: "nat \<Rightarrow> int \<Rightarrow> qsys \<Rightarrow> qsys" where
  "prvIncrementQueueTxLock q lock s =
     upd_queue q (\<lambda>x. x\<lparr>cTxLock :=
       (if (if lock < 0 then 2 ^ 32 + lock else lock) < int (uxCurrentNumberOfTasks (kern s)) then inc8 lock else cTxLock x)\<rparr>) s"

definition prvIncrementQueueRxLock :: "nat \<Rightarrow> int \<Rightarrow> qsys \<Rightarrow> qsys" where
  "prvIncrementQueueRxLock q lock s =
     upd_queue q (\<lambda>x. x\<lparr>cRxLock :=
       (if (if lock < 0 then 2 ^ 32 + lock else lock) < int (uxCurrentNumberOfTasks (kern s)) then inc8 lock else cRxLock x)\<rparr>) s"

definition prvLockQueue :: "nat \<Rightarrow> nat \<Rightarrow> qsys \<Rightarrow> fault + (unit \<times> qsys)" where
  "prvLockQueue c q s =
     qcritical c (\<lambda>s0. Inr ((), upd_queue q (\<lambda>x. x\<lparr>
       cRxLock := (if cRxLock x = queueUNLOCKED then queueLOCKED_UNMODIFIED else cRxLock x),
       cTxLock := (if cTxLock x = queueUNLOCKED then queueLOCKED_UNMODIFIED else cTxLock x)\<rparr>) s0)) s"

text \<open>Wakes the first task that waits in an event list, if there is one; the result says whether a
  yield is required.\<close>

definition wake_waiting :: "nat \<Rightarrow> klist \<Rightarrow> qsys \<Rightarrow> fault + (bool \<times> qsys)" where
  "wake_waiting c L s =
     (if lists (kern s) L \<noteq> [] then on_kern (xTaskRemoveFromEventList c L) s else Inr (False, s))"

text \<open>A pointer as the bytes of a queue item.\<close>

definition handle_bytes :: "nat \<Rightarrow> u8 list" where
  "handle_bytes n = map (\<lambda>i. of_nat (n div 256 ^ i)) [0..<4]"

definition prvNotifyQueueSetContainer :: "nat \<Rightarrow> nat \<Rightarrow> qsys \<Rightarrow> fault + (bool \<times> qsys)" where
  "prvNotifyQueueSetContainer c q s =
     bindE (follow (pxQueueSetContainer (queue_of s q))) (\<lambda>k.
       let x = queue_of s k in
       if uxMessagesWaiting x < uxLength x then
         let lock = cTxLock x in
         bindE (prvCopyDataToQueue c k (handle_bytes q) queueSEND_TO_BACK s) (\<lambda>(r, s1).
           if lock = queueUNLOCKED then
             bindE (wake_waiting c (xTasksWaitingToReceive k) s1) (\<lambda>(woken, s2). Inr (r \<or> woken, s2))
           else Inr (r, prvIncrementQueueTxLock k lock s1))
       else Inr (False, s))"

text \<open>The loops of \<open>prvUnlockQueue\<close> over the lock counts.\<close>

fun unlock_tx :: "nat \<Rightarrow> nat \<Rightarrow> nat \<Rightarrow> qsys \<Rightarrow> fault + qsys" where
  "unlock_tx c q 0 s = Inr s"
| "unlock_tx c q (Suc n) s =
     (if pxQueueSetContainer (queue_of s q) \<noteq> None then
        bindE (prvNotifyQueueSetContainer c q s) (\<lambda>(y, s1).
          unlock_tx c q n (if y then upd_kern (vTaskMissedYield c) s1 else s1))
      else if lists (kern s) (xTasksWaitingToReceive q) \<noteq> [] then
        bindE (on_kern (xTaskRemoveFromEventList c (xTasksWaitingToReceive q)) s) (\<lambda>(y, s1).
          unlock_tx c q n (if y then upd_kern (vTaskMissedYield c) s1 else s1))
      else Inr s)"

fun unlock_rx :: "nat \<Rightarrow> nat \<Rightarrow> nat \<Rightarrow> qsys \<Rightarrow> fault + qsys" where
  "unlock_rx c q 0 s = Inr s"
| "unlock_rx c q (Suc n) s =
     (if lists (kern s) (xTasksWaitingToSend q) \<noteq> [] then
        bindE (on_kern (xTaskRemoveFromEventList c (xTasksWaitingToSend q)) s) (\<lambda>(y, s1).
          unlock_rx c q n (if y then upd_kern (vTaskMissedYield c) s1 else s1))
      else Inr s)"

definition prvUnlockQueue :: "nat \<Rightarrow> nat \<Rightarrow> qsys \<Rightarrow> fault + qsys" where
  "prvUnlockQueue c q s =
     bindE (qcritical c (\<lambda>s0.
       bindE (unlock_tx c q (nat (cTxLock (queue_of s0 q))) s0) (\<lambda>s1.
         Inr ((), upd_queue q (\<lambda>x. x\<lparr>cTxLock := queueUNLOCKED\<rparr>) s1))) s) (\<lambda>(_, s2).
     bindE (qcritical c (\<lambda>s3.
       bindE (unlock_rx c q (nat (cRxLock (queue_of s3 q))) s3) (\<lambda>s4.
         Inr ((), upd_queue q (\<lambda>x. x\<lparr>cRxLock := queueUNLOCKED\<rparr>) s4))) s2) (\<lambda>(_, s5). Inr s5))"

section \<open>Sending\<close>

text \<open>The critical section of one round: whether the item was put into the queue.\<close>

definition send_body :: "nat \<Rightarrow> nat \<Rightarrow> u8 list \<Rightarrow> position \<Rightarrow> qsys \<Rightarrow> fault + (bool \<times> qsys)" where
  "send_body c q item pos s =
     (let x = queue_of s q; previous = uxMessagesWaiting x in
      if uxMessagesWaiting x < uxLength x \<or> pos = queueOVERWRITE then
        bindE (prvCopyDataToQueue c q item pos s) (\<lambda>(xYieldRequired, s1).
          if pxQueueSetContainer (queue_of s1 q) \<noteq> None then
            if pos = queueOVERWRITE \<and> previous \<noteq> 0 then Inr (True, s1)
            else bindE (prvNotifyQueueSetContainer c q s1) (\<lambda>(y, s2).
                   Inr (True, if y then upd_kern (vTaskYieldWithinAPI c) s2 else s2))
          else if lists (kern s1) (xTasksWaitingToReceive q) \<noteq> [] then
            bindE (on_kern (xTaskRemoveFromEventList c (xTasksWaitingToReceive q)) s1) (\<lambda>(y, s2).
              Inr (True, if y then upd_kern (vTaskYieldWithinAPI c) s2 else s2))
          else Inr (True, if xYieldRequired then upd_kern (vTaskYieldWithinAPI c) s1 else s1))
      else Inr (False, s))"

text \<open>The local variables that live from one round to the next: the time of entry once it has been
  taken, the ticks still to wait, and whether a mutex holder has inherited a priority.\<close>

record waiting =
  xTimeOut :: "timeout option"
  xTicksToWait :: u32
  xInheritanceOccurred :: bool

definition wait_for :: "u32 \<Rightarrow> waiting" where
  "wait_for ticks = \<lparr>xTimeOut = None, xTicksToWait = ticks, xInheritanceOccurred = False\<rparr>"

datatype 'r round = Returned 'r | Again waiting

text \<open>What the blocking functions do after a failed attempt: the check of the waiting time, the wait in
  the event list \<open>L\<close> if the condition \<open>still\<close> holds, and \<open>late\<close> after a timeout.  \<open>before\<close> is done
  before the task is placed on the list and says whether a priority was inherited.\<close>

definition wait_round :: "nat \<Rightarrow> nat \<Rightarrow> klist \<Rightarrow> (queue \<Rightarrow> bool) \<Rightarrow> (qsys \<Rightarrow> fault + (bool \<times> qsys)) \<Rightarrow>
    (waiting \<Rightarrow> qsys \<Rightarrow> fault + ('r round \<times> qsys)) \<Rightarrow> timeout \<Rightarrow> waiting \<Rightarrow> qsys \<Rightarrow> fault + ('r round \<times> qsys)" where
  "wait_round c q L still before late tmo w s =
     bindE (prvLockQueue c q (upd_kern vTaskSuspendAll s)) (\<lambda>(_, s1).
     bindE (on_kern (xTaskCheckForTimeOut c tmo (xTicksToWait w)) s1) (\<lambda>((expired, tmo', ticks'), s2).
       let w' = w\<lparr>xTimeOut := Some tmo', xTicksToWait := ticks'\<rparr> in
       if \<not> expired then
         if still (queue_of s2 q) then
           bindE (before s2) (\<lambda>(inherited, s3).
           bindE (on_kern1 (vTaskPlaceOnEventList c L ticks') s3) (\<lambda>s4.
           bindE (prvUnlockQueue c q s4) (\<lambda>s5.
           bindE (on_kern (xTaskResumeAll c) s5) (\<lambda>(yielded, s6).
             Inr (Again (w'\<lparr>xInheritanceOccurred := inherited\<rparr>),
               if yielded then s6 else upd_kern (vTaskYieldWithinAPI c) s6)))))
         else
           bindE (prvUnlockQueue c q s2) (\<lambda>s3.
           bindE (on_kern (xTaskResumeAll c) s3) (\<lambda>(_, s4). Inr (Again w', s4)))
       else
         bindE (prvUnlockQueue c q s2) (\<lambda>s3.
         bindE (on_kern (xTaskResumeAll c) s3) (\<lambda>(_, s4). late w' s4))))"

text \<open>One round: a critical section that tries, and otherwise takes the time of entry if there is time
  to wait; then the wait.\<close>

definition blocking_round :: "nat \<Rightarrow> (qsys \<Rightarrow> fault + ('r option \<times> qsys)) \<Rightarrow> 'r \<Rightarrow>
    (timeout \<Rightarrow> qsys \<Rightarrow> fault + ('r round \<times> qsys)) \<Rightarrow> waiting \<Rightarrow> qsys \<Rightarrow> fault + ('r round \<times> qsys)" where
  "blocking_round c body fails wait w s =
     bindE (qcritical c (\<lambda>s0. bindE (body s0) (\<lambda>(r, s1).
       Inr ((r, case xTimeOut w of Some tmo \<Rightarrow> tmo | None \<Rightarrow> vTaskInternalSetTimeOutState (kern s1)), s1))) s)
       (\<lambda>((r, tmo), s2). case r of Some x \<Rightarrow> Inr (Returned x, s2)
        | None \<Rightarrow> if xTicksToWait w = 0 then Inr (Returned fails, s2) else wait tmo s2)"

definition xQueueGenericSend :: "nat \<Rightarrow> nat \<Rightarrow> u8 list \<Rightarrow> position \<Rightarrow> waiting \<Rightarrow> qsys \<Rightarrow> fault + (bool round \<times> qsys)" where
  "xQueueGenericSend c q item pos w =
     blocking_round c (\<lambda>s. bindE (send_body c q item pos s) (\<lambda>(ok, s1). Inr (if ok then Some True else None, s1))) False
       (\<lambda>tmo. wait_round c q (xTasksWaitingToSend q) prvIsQueueFull (\<lambda>s. Inr (False, s))
          (\<lambda>_ s. Inr (Returned False, s)) tmo w) w"

section \<open>Receiving\<close>

text \<open>After an item was taken out, a task that waits to send may go on.\<close>

definition after_receive :: "nat \<Rightarrow> klist \<Rightarrow> qsys \<Rightarrow> fault + qsys" where
  "after_receive c L s = bindE (wake_waiting c L s) (\<lambda>(y, s1). Inr (if y then upd_kern (vTaskYieldWithinAPI c) s1 else s1))"

text \<open>The critical section of \<open>xQueueReceive\<close>: the item, if there is one.\<close>

definition receive_body :: "nat \<Rightarrow> nat \<Rightarrow> qsys \<Rightarrow> fault + (u8 list option \<times> qsys)" where
  "receive_body c q s =
     (let x = queue_of s q; n = uxMessagesWaiting x in
      if n > 0 then
        bindE (prvCopyDataFromQueue x) (\<lambda>(item, x').
        bindE (after_receive c (xTasksWaitingToSend q) (upd_queue q (\<lambda>_. x'\<lparr>uxMessagesWaiting := n - 1\<rparr>) s)) (\<lambda>s1.
          Inr (Some item, s1)))
      else Inr (None, s))"

text \<open>The result is the item, or \<open>None\<close> for \<open>errQUEUE_EMPTY\<close>.\<close>

definition late_empty :: "nat \<Rightarrow> 'r \<Rightarrow> waiting \<Rightarrow> qsys \<Rightarrow> fault + ('r round \<times> qsys)" where
  "late_empty q fails w s = Inr (if prvIsQueueEmpty (queue_of s q) then Returned fails else Again w, s)"

definition xQueueReceive :: "nat \<Rightarrow> nat \<Rightarrow> waiting \<Rightarrow> qsys \<Rightarrow> fault + (u8 list option round \<times> qsys)" where
  "xQueueReceive c q w =
     blocking_round c (\<lambda>s. bindE (receive_body c q s) (\<lambda>(r, s1). Inr (map_option Some r, s1))) None
       (\<lambda>tmo. wait_round c q (xTasksWaitingToReceive q) prvIsQueueEmpty (\<lambda>s. Inr (False, s)) (late_empty q None) tmo w) w"

text \<open>Peeking restores the read position, and leaves the item for the next task that waits to receive.\<close>

definition peek_body :: "nat \<Rightarrow> nat \<Rightarrow> qsys \<Rightarrow> fault + (u8 list option \<times> qsys)" where
  "peek_body c q s =
     (let x = queue_of s q in
      if uxMessagesWaiting x > 0 then
        bindE (prvCopyDataFromQueue x) (\<lambda>(item, x').
        bindE (after_receive c (xTasksWaitingToReceive q) (upd_queue q (\<lambda>_. x'\<lparr>pcReadFrom := pcReadFrom x\<rparr>) s)) (\<lambda>s1.
          Inr (Some item, s1)))
      else Inr (None, s))"

definition xQueuePeek :: "nat \<Rightarrow> nat \<Rightarrow> waiting \<Rightarrow> qsys \<Rightarrow> fault + (u8 list option round \<times> qsys)" where
  "xQueuePeek c q w =
     blocking_round c (\<lambda>s. bindE (peek_body c q s) (\<lambda>(r, s1). Inr (map_option Some r, s1))) None
       (\<lambda>tmo. wait_round c q (xTasksWaitingToReceive q) prvIsQueueEmpty (\<lambda>s. Inr (False, s)) (late_empty q None) tmo w) w"

section \<open>Semaphores and mutexes\<close>

definition take_body :: "nat \<Rightarrow> nat \<Rightarrow> qsys \<Rightarrow> fault + (bool \<times> qsys)" where
  "take_body c q s =
     (let n = uxMessagesWaiting (queue_of s q) in
      if n > 0 then
        let s1 = upd_queue q (\<lambda>x. x\<lparr>uxMessagesWaiting := n - 1\<rparr>) s;
            s2 = (if pcHead (queue_of s1 q) = HeadNull then
                    let (holder, k) = pvTaskIncrementMutexHeldCount c (kern s1)
                    in upd_queue q (\<lambda>x. x\<lparr>xMutexHolder := holder\<rparr>) (s1\<lparr>kern := k\<rparr>)
                  else s1)
        in bindE (after_receive c (xTasksWaitingToSend q) s2) (\<lambda>s3. Inr (True, s3))
      else Inr (False, s))"

text \<open>The holder of a mutex inherits the priority of a task that is about to wait for it.\<close>

definition inherit_if_mutex :: "nat \<Rightarrow> nat \<Rightarrow> bool \<Rightarrow> qsys \<Rightarrow> fault + (bool \<times> qsys)" where
  "inherit_if_mutex c q old s =
     (if pcHead (queue_of s q) = HeadNull
      then qcritical c (\<lambda>s0. on_kern (xTaskPriorityInherit c (xMutexHolder (queue_of s0 q))) s0) s
      else Inr (old, s))"

text \<open>The highest priority among the waiting tasks, which are ordered by it.\<close>

definition prvGetHighestPriorityOfWaitToReceiveList :: "nat \<Rightarrow> kernel \<Rightarrow> nat" where
  "prvGetHighestPriorityOfWaitToReceiveList q k =
     (case lists k (xTasksWaitingToReceive q) of [] \<Rightarrow> 0
      | t # _ \<Rightarrow> unat (of_nat configMAX_PRIORITIES - xEventListItem (tcb k t)))"

definition take_late :: "nat \<Rightarrow> nat \<Rightarrow> waiting \<Rightarrow> qsys \<Rightarrow> fault + (bool round \<times> qsys)" where
  "take_late c q w s =
     (if prvIsQueueEmpty (queue_of s q) then
        if xInheritanceOccurred w then
          bindE (qcritical c (\<lambda>s0. bindE (on_kern1 (vTaskPriorityDisinheritAfterTimeout c (xMutexHolder (queue_of s0 q))
              (prvGetHighestPriorityOfWaitToReceiveList q (kern s0))) s0) (\<lambda>s1. Inr ((), s1))) s)
            (\<lambda>(_, s2). Inr (Returned False, s2))
        else Inr (Returned False, s)
      else Inr (Again w, s))"

definition xQueueSemaphoreTake :: "nat \<Rightarrow> nat \<Rightarrow> waiting \<Rightarrow> qsys \<Rightarrow> fault + (bool round \<times> qsys)" where
  "xQueueSemaphoreTake c q w =
     blocking_round c (\<lambda>s. bindE (take_body c q s) (\<lambda>(ok, s1). Inr (if ok then Some True else None, s1))) False
       (\<lambda>tmo. wait_round c q (xTasksWaitingToReceive q) prvIsQueueEmpty
          (inherit_if_mutex c q (xInheritanceOccurred w)) (take_late c q) tmo w) w"

text \<open>\<open>prvInitialiseMutex\<close>: the new queue becomes a mutex, and is given once.\<close>

definition prvInitialiseMutex :: "nat \<Rightarrow> ptr \<Rightarrow> qsys \<Rightarrow> fault + qsys" where
  "prvInitialiseMutex c p s = (case p of None \<Rightarrow> Inr s
     | Some q \<Rightarrow> bindE (xQueueGenericSend c q [] queueSEND_TO_BACK (wait_for 0)
         (upd_queue q (\<lambda>x. x\<lparr>xMutexHolder := None, pcHead := HeadNull, uxRecursiveCallCount := 0\<rparr>) s))
         (\<lambda>(_, s1). Inr s1))"

definition xQueueCreateMutex :: "nat \<Rightarrow> nat \<Rightarrow> ptr \<Rightarrow> qsys \<Rightarrow> fault + (ptr \<times> qsys)" where
  "xQueueCreateMutex sz c mem s =
     bindE (xQueueGenericCreate sz c 1 0 mem [] s) (\<lambda>(p, s1).
     bindE (prvInitialiseMutex c p s1) (\<lambda>s2. Inr (p, s2)))"

definition xQueueGiveMutexRecursive :: "nat \<Rightarrow> nat \<Rightarrow> qsys \<Rightarrow> fault + (bool \<times> qsys)" where
  "xQueueGiveMutexRecursive c q s =
     (if xMutexHolder (queue_of s q) = pxCurrentTCBs (kern s) c then
        let s1 = upd_queue q (\<lambda>x. x\<lparr>uxRecursiveCallCount := dec32 (uxRecursiveCallCount x)\<rparr>) s in
        if uxRecursiveCallCount (queue_of s1 q) = 0 then
          bindE (xQueueGenericSend c q [] queueSEND_TO_BACK (wait_for 0) s1) (\<lambda>(_, s2). Inr (True, s2))
        else Inr (True, s1)
      else Inr (False, s))"

definition xQueueTakeMutexRecursive :: "nat \<Rightarrow> nat \<Rightarrow> waiting \<Rightarrow> qsys \<Rightarrow> fault + (bool round \<times> qsys)" where
  "xQueueTakeMutexRecursive c q w s =
     (let count = upd_queue q (\<lambda>x. x\<lparr>uxRecursiveCallCount := (uxRecursiveCallCount x + 1) mod 2 ^ 32\<rparr>) in
      if xMutexHolder (queue_of s q) = pxCurrentTCBs (kern s) c then Inr (Returned True, count s)
      else bindE (xQueueSemaphoreTake c q w s) (\<lambda>(r, s1). Inr (r, if r = Returned True then count s1 else s1)))"

section \<open>The variants for interrupts\<close>

text \<open>A locked queue is not touched beyond its data: the lock count says how many tasks to wake when it
  is unlocked.  The result is success and whether a woken task needs a yield.\<close>

definition notify_from_isr :: "nat \<Rightarrow> nat \<Rightarrow> bool \<Rightarrow> int \<Rightarrow> qsys \<Rightarrow> fault + (bool \<times> qsys)" where
  "notify_from_isr c q skip_set lock s =
     (if lock = queueUNLOCKED then
        if pxQueueSetContainer (queue_of s q) \<noteq> None then
          if skip_set then Inr (False, s) else prvNotifyQueueSetContainer c q s
        else wake_waiting c (xTasksWaitingToReceive q) s
      else Inr (False, prvIncrementQueueTxLock q lock s))"

definition xQueueGenericSendFromISR :: "nat \<Rightarrow> nat \<Rightarrow> u8 list \<Rightarrow> position \<Rightarrow> qsys \<Rightarrow> fault + ((bool \<times> bool) \<times> qsys)" where
  "xQueueGenericSendFromISR c q item pos s =
     qcritical_isr c (\<lambda>s0.
       let x = queue_of s0 q in
       if uxMessagesWaiting x < uxLength x \<or> pos = queueOVERWRITE then
         bindE (prvCopyDataToQueue c q item pos s0) (\<lambda>(_, s1).
         bindE (notify_from_isr c q (pos = queueOVERWRITE \<and> uxMessagesWaiting x \<noteq> 0) (cTxLock x) s1) (\<lambda>(y, s2).
           Inr ((True, y), s2)))
       else Inr ((False, False), s0)) s"

definition xQueueGiveFromISR :: "nat \<Rightarrow> nat \<Rightarrow> qsys \<Rightarrow> fault + ((bool \<times> bool) \<times> qsys)" where
  "xQueueGiveFromISR c q s =
     qcritical_isr c (\<lambda>s0.
       let x = queue_of s0 q; n = uxMessagesWaiting x in
       if n < uxLength x then
         bindE (notify_from_isr c q False (cTxLock x) (upd_queue q (\<lambda>x. x\<lparr>uxMessagesWaiting := n + 1\<rparr>) s0)) (\<lambda>(y, s1).
           Inr ((True, y), s1))
       else Inr ((False, False), s0)) s"

definition xQueueReceiveFromISR :: "nat \<Rightarrow> nat \<Rightarrow> qsys \<Rightarrow> fault + ((u8 list option \<times> bool) \<times> qsys)" where
  "xQueueReceiveFromISR c q s =
     qcritical_isr c (\<lambda>s0.
       let x = queue_of s0 q; n = uxMessagesWaiting x in
       if n > 0 then
         let lock = cRxLock x in
         bindE (prvCopyDataFromQueue x) (\<lambda>(item, x').
         let s1 = upd_queue q (\<lambda>_. x'\<lparr>uxMessagesWaiting := n - 1\<rparr>) s0 in
         if lock = queueUNLOCKED then
           bindE (wake_waiting c (xTasksWaitingToSend q) s1) (\<lambda>(y, s2). Inr ((Some item, y), s2))
         else Inr ((Some item, False), prvIncrementQueueRxLock q lock s1))
       else Inr ((None, False), s0)) s"

definition xQueuePeekFromISR :: "nat \<Rightarrow> nat \<Rightarrow> qsys \<Rightarrow> fault + (u8 list option \<times> qsys)" where
  "xQueuePeekFromISR c q s =
     qcritical_isr c (\<lambda>s0.
       let x = queue_of s0 q in
       if uxMessagesWaiting x > 0 then
         bindE (prvCopyDataFromQueue x) (\<lambda>(item, x'). Inr (Some item, upd_queue q (\<lambda>_. x'\<lparr>pcReadFrom := pcReadFrom x\<rparr>) s0))
       else Inr (None, s0)) s"

section \<open>Queue sets\<close>

definition xQueueAddToSet :: "nat \<Rightarrow> nat \<Rightarrow> nat \<Rightarrow> qsys \<Rightarrow> fault + (bool \<times> qsys)" where
  "xQueueAddToSet c q k s =
     qcritical c (\<lambda>s0.
       if pxQueueSetContainer (queue_of s0 q) \<noteq> None then Inr (False, s0)
       else if uxMessagesWaiting (queue_of s0 q) \<noteq> 0 then Inr (False, s0)
       else Inr (True, upd_queue q (\<lambda>x. x\<lparr>pxQueueSetContainer := Some k\<rparr>) s0)) s"

definition xQueueRemoveFromSet :: "nat \<Rightarrow> nat \<Rightarrow> nat \<Rightarrow> qsys \<Rightarrow> fault + (bool \<times> qsys)" where
  "xQueueRemoveFromSet c q k s =
     (if pxQueueSetContainer (queue_of s q) \<noteq> Some k then Inr (False, s)
      else if uxMessagesWaiting (queue_of s q) \<noteq> 0 then Inr (False, s)
      else qcritical c (\<lambda>s0. Inr (True, upd_queue q (\<lambda>x. x\<lparr>pxQueueSetContainer := None\<rparr>) s0)) s)"

text \<open>The message a service task waits for while the scheduler is suspended.\<close>

definition vQueueWaitForMessageRestricted :: "nat \<Rightarrow> nat \<Rightarrow> u32 \<Rightarrow> bool \<Rightarrow> qsys \<Rightarrow> fault + qsys" where
  "vQueueWaitForMessageRestricted c q ticks indefinitely s =
     bindE (prvLockQueue c q s) (\<lambda>(_, s1).
     bindE (if uxMessagesWaiting (queue_of s1 q) = 0
            then on_kern1 (vTaskPlaceOnEventListRestricted c (xTasksWaitingToReceive q) ticks indefinitely) s1
            else Inr s1) (prvUnlockQueue c q))"

end
