(* ===== verification/RingBuffer.thy ===== *)
theory RingBuffer
  imports QueueApi
begin

text \<open>
  The storage area of a queue as a bounded buffer with two ends: the bytes between the read and the
  write pointer, cut into items, are the list of messages; copying in and out are the operations of a
  list.  The interface is a locale, interpreted on the copy operations of \<open>queue.c\<close>.
\<close>

section \<open>The interface\<close>

locale bounded_buffer =
  fixes put_back :: "'a \<Rightarrow> 's \<Rightarrow> fault + 's"
    and put_front :: "'a \<Rightarrow> 's \<Rightarrow> fault + 's"
    and get :: "'s \<Rightarrow> fault + ('a \<times> 's)"
    and contents :: "'s \<Rightarrow> 'a list"
    and invar :: "'s \<Rightarrow> bool"
    and capacity :: "'s \<Rightarrow> nat"
    and item_ok :: "'s \<Rightarrow> 'a \<Rightarrow> bool"
  assumes put_back_ok: "invar s \<Longrightarrow> length (contents s) < capacity s \<Longrightarrow> item_ok s x \<Longrightarrow>
      \<exists>s'. put_back x s = Inr s' \<and> invar s' \<and> contents s' = contents s @ [x] \<and> capacity s' = capacity s \<and>
        item_ok s' = item_ok s"
    and put_front_ok: "invar s \<Longrightarrow> length (contents s) < capacity s \<Longrightarrow> item_ok s x \<Longrightarrow>
      \<exists>s'. put_front x s = Inr s' \<and> invar s' \<and> contents s' = x # contents s \<and> capacity s' = capacity s \<and>
        item_ok s' = item_ok s"
    and get_ok: "invar s \<Longrightarrow> contents s = x # xs \<Longrightarrow>
      \<exists>s'. get s = Inr (x, s') \<and> invar s' \<and> contents s' = xs \<and> capacity s' = capacity s \<and> item_ok s' = item_ok s"
begin

fun puts :: "'a list \<Rightarrow> 's \<Rightarrow> fault + 's" where
  "puts [] s = Inr s"
| "puts (x # xs) s = bindE (put_back x s) (puts xs)"

fun gets :: "nat \<Rightarrow> 's \<Rightarrow> fault + ('a list \<times> 's)" where
  "gets 0 s = Inr ([], s)"
| "gets (Suc n) s = bindE (get s) (\<lambda>(x, s1). bindE (gets n s1) (\<lambda>(xs, s2). Inr (x # xs, s2)))"

lemma puts_ok:
  "invar s \<Longrightarrow> length (contents s) + length xs \<le> capacity s \<Longrightarrow> \<forall>x \<in> set xs. item_ok s x \<Longrightarrow>
    \<exists>s'. puts xs s = Inr s' \<and> invar s' \<and> contents s' = contents s @ xs \<and> capacity s' = capacity s"
proof (induction xs arbitrary: s)
  case (Cons x xs)
  then obtain s1 where s1: "put_back x s = Inr s1" "invar s1" "contents s1 = contents s @ [x]"
    "capacity s1 = capacity s" "item_ok s1 = item_ok s" using put_back_ok [of s x] by fastforce
  then show ?case using Cons.IH [of s1] Cons.prems by auto
qed simp

lemma gets_ok:
  "invar s \<Longrightarrow> n \<le> length (contents s) \<Longrightarrow>
    \<exists>s'. gets n s = Inr (take n (contents s), s') \<and> invar s' \<and> contents s' = drop n (contents s)"
proof (induction n arbitrary: s)
  case (Suc n)
  then obtain x xs where c: "contents s = x # xs" by (cases "contents s") auto
  obtain s1 where s1: "get s = Inr (x, s1)" "invar s1" "contents s1 = xs" using get_ok [OF Suc.prems(1) c] by blast
  then show ?case using Suc.IH [of s1] Suc.prems(2) c by auto
qed simp

text \<open>First in, first out, behind what was there.\<close>

lemma fifo:
  assumes "invar s" "length (contents s) + length xs \<le> capacity s" "\<forall>x \<in> set xs. item_ok s x"
  shows "\<exists>s1 s2. puts xs s = Inr s1 \<and> gets (length (contents s) + length xs) s1 = Inr (contents s @ xs, s2) \<and>
    invar s2 \<and> contents s2 = []"
proof -
  obtain s1 where s1: "puts xs s = Inr s1" "invar s1" "contents s1 = contents s @ xs" using puts_ok [OF assms] by blast
  then show ?thesis using gets_ok [OF s1(2), of "length (contents s) + length xs"] by simp
qed

end

section \<open>Slots\<close>

definition slot :: "nat \<Rightarrow> u8 list \<Rightarrow> nat \<Rightarrow> u8 list" where
  "slot sz st i = take sz (drop (i * sz) st)"

lemma slot_bound: "i < len \<Longrightarrow> i * sz + sz \<le> len * sz" for i :: nat
  by (metis Suc_leI add.commute mult_Suc mult_le_mono1)

lemma length_slot: "length st = len * sz \<Longrightarrow> i < len \<Longrightarrow> length (slot sz st i) = sz"
  using slot_bound [of i len sz] by (simp add: slot_def)

lemma slot_write:
  assumes "length st = len * sz" "i < len" "j < len" "length bs = sz"
  shows "slot sz (take (i * sz) st @ bs @ drop (i * sz + sz) st) j = (if i = j then bs else slot sz st j)"
proof -
  note b = slot_bound [OF assms(2), of sz] slot_bound [OF assms(3), of sz]
  consider "i = j" | "j < i" | "i < j" by linarith
  then show ?thesis
  proof cases
    case 1
    then show ?thesis using assms b by (simp add: slot_def)
  next
    case 2
    then have "j * sz + sz \<le> i * sz" by (metis Suc_leI add.commute mult_Suc mult_le_mono1)
    then show ?thesis using 2 assms b by (simp add: slot_def take_drop add.commute min_def)
  next
    case 3
    then have "i * sz + sz \<le> j * sz" by (metis Suc_leI add.commute mult_Suc mult_le_mono1)
    then show ?thesis using 3 assms b by (cases "sz = 0") (auto simp: slot_def min_def)
  qed
qed

section \<open>The abstraction\<close>

definition read_slot :: "queue \<Rightarrow> nat" where
  "read_slot x = nat (pcReadFrom x) div uxItemSize x"

definition items :: "queue \<Rightarrow> u8 list list" where
  "items x = map (\<lambda>k. slot (uxItemSize x) (storage x) ((read_slot x + 1 + k) mod uxLength x)) [0..<uxMessagesWaiting x]"

definition ring_wf :: "queue \<Rightarrow> bool" where
  "ring_wf x \<longleftrightarrow> uxItemSize x > 0 \<and> uxLength x > 0 \<and> uxLength x < 2 ^ 32 \<and> length (storage x) = uxLength x * uxItemSize x \<and>
     pcTail x = int (uxLength x * uxItemSize x) \<and> uxMessagesWaiting x \<le> uxLength x \<and>
     read_slot x < uxLength x \<and> pcReadFrom x = int (read_slot x * uxItemSize x) \<and>
     pcWriteTo x = int (((read_slot x + 1 + uxMessagesWaiting x) mod uxLength x) * uxItemSize x)"

lemma length_items [simp]: "length (items x) = uxMessagesWaiting x"
  by (simp add: items_def)

text \<open>The data part of sending and receiving one message.\<close>

definition put_message :: "position \<Rightarrow> u8 list \<Rightarrow> queue \<Rightarrow> fault + queue" where
  "put_message pos item x = bindE (copy_to_storage item pos x) (\<lambda>x'.
     Inr (x'\<lparr>uxMessagesWaiting := messages_after pos (uxMessagesWaiting x)\<rparr>))"

definition get_message :: "queue \<Rightarrow> fault + (u8 list \<times> queue)" where
  "get_message x = bindE (prvCopyDataFromQueue x) (\<lambda>(item, x').
     Inr (item, x'\<lparr>uxMessagesWaiting := uxMessagesWaiting x - 1\<rparr>))"

definition item_fits :: "queue \<Rightarrow> u8 list \<Rightarrow> bool" where
  "item_fits x item \<longleftrightarrow> length item = uxItemSize x"

lemma next_slot:
  fixes r :: nat
  assumes "r < len" "sz > 0"
  shows "(if int (r * sz) + int sz \<ge> int (len * sz) then 0 else int (r * sz) + int sz) = int (((r + 1) mod len) * sz)"
proof (cases "r + 1 = len")
  case True
  then show ?thesis by (simp flip: True) 
next
  case False
  then have "r + 1 < len" using assms(1) by simp
  then have "(r + 1) * sz < len * sz" using assms(2) by (simp only: mult_less_cancel2)
  then have "\<not> int (r * sz) + int sz \<ge> int (len * sz)" by (simp add: algebra_simps flip: of_nat_add of_nat_mult)
  then show ?thesis using \<open>r + 1 < len\<close> by (simp add: algebra_simps)
qed

lemma write_bytes_nat: "write_bytes xs (int n) bs =
    (if n + length bs \<le> length xs then Inr (take n xs @ bs @ drop (n + length bs) xs) else Inl OutOfBounds)"
  by (simp add: write_bytes_def flip: of_nat_add)

lemma read_bytes_nat: "read_bytes xs (int n) m = (if n + m \<le> length xs then Inr (take m (drop n xs)) else Inl OutOfBounds)"
  by (simp add: read_bytes_def flip: of_nat_add)

lemma write_slot:
  assumes "length st = len * sz" "i < len" "length bs = sz"
  shows "write_bytes st (int (i * sz)) bs = Inr (take (i * sz) st @ bs @ drop (i * sz + sz) st)"
  unfolding write_bytes_nat using slot_bound [OF assms(2), of sz] assms by simp

lemma read_slot_bytes:
  assumes "length st = len * sz" "i < len"
  shows "read_bytes st (int (i * sz)) sz = Inr (slot sz st i)"
  unfolding read_bytes_nat using slot_bound [OF assms(2), of sz] assms by (simp add: slot_def)

lemma read_slot_eq: "sz > 0 \<Longrightarrow> nat (int (r * sz)) div sz = r" for r :: nat
  by (simp add: nat_mult_distrib)

lemma mod_add_inj:
  fixes a :: nat
  assumes "k < w" "w < len"
  shows "(a + k) mod len \<noteq> (a + w) mod len"
proof
  assume "(a + k) mod len = (a + w) mod len"
  then have "len dvd (a + w) - (a + k)" by (metis mod_eq_dvd_iff_nat add_le_cancel_left assms(1) less_imp_le)
  then show False using assms by (simp add: dvd_imp_le nat_dvd_not_less)
qed

section \<open>The copy operations are list operations\<close>

lemma put_back_eq:
  assumes "length item = uxItemSize x" "uxMessagesWaiting x + 1 < 2 ^ 32" "write_bytes (storage x) (pcWriteTo x) item = Inr st"
    "(if pcWriteTo x + int (uxItemSize x) \<ge> pcTail x then 0 else pcWriteTo x + int (uxItemSize x)) = w"
  shows "put_message queueSEND_TO_BACK item x =
    Inr (x\<lparr>storage := st, pcWriteTo := w, uxMessagesWaiting := uxMessagesWaiting x + 1\<rparr>)"
  using assms by (simp add: put_message_def copy_to_storage_def item_bytes_def messages_after_def Let_def)

lemma put_front_eq:
  assumes "length item = uxItemSize x" "uxMessagesWaiting x + 1 < 2 ^ 32" "write_bytes (storage x) (pcReadFrom x) item = Inr st"
    "(if pcReadFrom x - int (uxItemSize x) < 0 then pcTail x - int (uxItemSize x) else pcReadFrom x - int (uxItemSize x)) = r"
  shows "put_message queueSEND_TO_FRONT item x =
    Inr (x\<lparr>storage := st, pcReadFrom := r, uxMessagesWaiting := uxMessagesWaiting x + 1\<rparr>)"
  using assms by (simp add: put_message_def copy_to_storage_def item_bytes_def messages_after_def Let_def)

lemma get_message_eq:
  assumes "uxItemSize x > 0" "read_bytes (storage x) r (uxItemSize x) = Inr item"
    "(if pcReadFrom x + int (uxItemSize x) \<ge> pcTail x then 0 else pcReadFrom x + int (uxItemSize x)) = r"
  shows "get_message x = Inr (item, x\<lparr>pcReadFrom := r, uxMessagesWaiting := uxMessagesWaiting x - 1\<rparr>)"
  using assms by (simp add: get_message_def prvCopyDataFromQueue_def Let_def)

text \<open>The state of the ring as a function of the slot of the read pointer.\<close>

lemma ring_wfI:
  assumes "uxItemSize x > 0" "r < uxLength x" "uxLength x < 2 ^ 32" "length (storage x) = uxLength x * uxItemSize x"
    "pcTail x = int (uxLength x * uxItemSize x)" "uxMessagesWaiting x \<le> uxLength x"
    "pcReadFrom x = int (r * uxItemSize x)"
    "pcWriteTo x = int (((r + 1 + uxMessagesWaiting x) mod uxLength x) * uxItemSize x)"
  shows "ring_wf x" and "read_slot x = r"
proof -
  show r: "read_slot x = r" unfolding read_slot_def assms(7) using assms(1) by (rule read_slot_eq)
  show "ring_wf x" unfolding ring_wf_def r using assms by auto
qed

lemma put_back_message:
  assumes wf: "ring_wf x" and room: "uxMessagesWaiting x < uxLength x" and item: "length item = uxItemSize x"
  shows "\<exists>x'. put_message queueSEND_TO_BACK item x = Inr x' \<and> ring_wf x' \<and> items x' = items x @ [item] \<and>
    uxLength x' = uxLength x \<and> uxItemSize x' = uxItemSize x"
proof -
  let ?sz = "uxItemSize x" and ?len = "uxLength x" and ?n = "uxMessagesWaiting x" and ?r = "read_slot x"
  let ?i = "(?r + 1 + ?n) mod ?len"
  note w = wf [unfolded ring_wf_def]
  have i: "?i < ?len" using w by simp
  let ?st = "take (?i * ?sz) (storage x) @ item @ drop (?i * ?sz + ?sz) (storage x)"
  let ?x = "x\<lparr>storage := ?st, pcWriteTo := int (((?i + 1) mod ?len) * ?sz), uxMessagesWaiting := ?n + 1\<rparr>"
  have st: "length ?st = ?len * ?sz" using slot_bound [OF i, of ?sz] w item by simp
  have put: "put_message queueSEND_TO_BACK item x = Inr ?x"
  proof (rule put_back_eq [OF item])
    show "?n + 1 < 2 ^ 32" using room w by simp
  next
    have wr: "pcWriteTo x = int (?i * ?sz)" and tl: "pcTail x = int (?len * ?sz)" using w by auto
    show "write_bytes (storage x) (pcWriteTo x) item = Inr ?st" unfolding wr by (rule write_slot) (use w i item in auto)
    show "(if pcWriteTo x + int ?sz \<ge> pcTail x then 0 else pcWriteTo x + int ?sz) = int ((?i + 1) mod ?len * ?sz)"
      unfolding wr tl by (rule next_slot [OF i]) (use w in simp)
  qed
  have wf': "ring_wf ?x" and r': "read_slot ?x = ?r"
    by (rule ring_wfI [where r = ?r]; use w room st in \<open>simp add: mod_simps\<close>)+
  have "slot ?sz ?st ((?r + 1 + k) mod ?len) = slot ?sz (storage x) ((?r + 1 + k) mod ?len)" if "k < ?n" for k
    using slot_write [of "storage x" ?len ?sz ?i "(?r + 1 + k) mod ?len" item] w i item
      mod_add_inj [OF that room, of "?r + 1"] by simp
  moreover have "slot ?sz ?st ?i = item" using slot_write [of "storage x" ?len ?sz ?i ?i item] w i item by simp
  ultimately have "items ?x = items x @ [item]" unfolding items_def r' by simp
  then show ?thesis using put wf' by auto
qed

lemma put_front_message:
  assumes wf: "ring_wf x" and room: "uxMessagesWaiting x < uxLength x" and item: "length item = uxItemSize x"
  shows "\<exists>x'. put_message queueSEND_TO_FRONT item x = Inr x' \<and> ring_wf x' \<and> items x' = item # items x \<and>
    uxLength x' = uxLength x \<and> uxItemSize x' = uxItemSize x"
proof -
  let ?sz = "uxItemSize x" and ?len = "uxLength x" and ?n = "uxMessagesWaiting x" and ?r = "read_slot x"
  note w = wf [unfolded ring_wf_def]
  define r' where "r' = (if ?r = 0 then ?len - 1 else ?r - 1)"
  have r'_lt: "r' < ?len" using w by (auto simp: r'_def)
  have home: "(r' + 1) mod ?len = ?r" using w by (auto simp: r'_def)
  have step: "(r' + 1 + Suc k) mod ?len = (?r + 1 + k) mod ?len" for k
    using mod_add_left_eq [of "r' + 1" ?len "Suc k"] unfolding home by simp
  let ?st = "take (?r * ?sz) (storage x) @ item @ drop (?r * ?sz + ?sz) (storage x)"
  let ?x = "x\<lparr>storage := ?st, pcReadFrom := int (r' * ?sz), uxMessagesWaiting := ?n + 1\<rparr>"
  have st: "length ?st = ?len * ?sz" using slot_bound [of ?r ?len ?sz] w item by simp
  have prev: "(if pcReadFrom x - int ?sz < 0 then pcTail x - int ?sz else pcReadFrom x - int ?sz) = int (r' * ?sz)"
    using w by (auto simp: r'_def algebra_simps of_nat_diff diff_mult_distrib)
  have put: "put_message queueSEND_TO_FRONT item x = Inr ?x"
  proof (rule put_front_eq [OF item _ _ prev])
    show "?n + 1 < 2 ^ 32" using room w by simp
  next
    have rd: "pcReadFrom x = int (?r * ?sz)" using w by auto
    show "write_bytes (storage x) (pcReadFrom x) item = Inr ?st" unfolding rd by (rule write_slot) (use w item in auto)
  qed
  have wf': "ring_wf ?x" and rs: "read_slot ?x = r'"
    by (rule ring_wfI [where r = r']; use w room st r'_lt step [of ?n] in simp)+
  have "slot ?sz ?st ((?r + 1 + k) mod ?len) = slot ?sz (storage x) ((?r + 1 + k) mod ?len)" if "k < ?n" for k
  proof -
    have "(?r + 1 + k) mod ?len \<noteq> ?r"
      using mod_add_inj [of 0 "k + 1" ?len ?r] that room w by (simp add: ac_simps)
    then show ?thesis using slot_write [of "storage x" ?len ?sz ?r "(?r + 1 + k) mod ?len" item] w item by simp
  qed
  moreover have "slot ?sz ?st ?r = item" using slot_write [of "storage x" ?len ?sz ?r ?r item] w item by simp
  ultimately have "items ?x = item # items x" unfolding items_def rs
    by (simp add: map_upt_Suc home [simplified] step [simplified] del: upt_Suc)
  then show ?thesis using put wf' by auto
qed

lemma get_first_message:
  assumes wf: "ring_wf x" and some: "items x = item # rest"
  shows "\<exists>x'. get_message x = Inr (item, x') \<and> ring_wf x' \<and> items x' = rest \<and>
    uxLength x' = uxLength x \<and> uxItemSize x' = uxItemSize x"
proof -
  let ?sz = "uxItemSize x" and ?len = "uxLength x" and ?n = "uxMessagesWaiting x" and ?r = "read_slot x"
  note w = wf [unfolded ring_wf_def]
  let ?r' = "(?r + 1) mod ?len"
  have n: "?n > 0" using some length_items [of x] by (cases ?n) auto
  have r': "?r' < ?len" using w by simp
  let ?x = "x\<lparr>pcReadFrom := int (?r' * ?sz), uxMessagesWaiting := ?n - 1\<rparr>"
  have shift: "items x = slot ?sz (storage x) ?r' #
      map (\<lambda>k. slot ?sz (storage x) ((?r' + 1 + k) mod ?len)) [0..<?n - 1]"
  proof -
    have "(?r + 1 + Suc k) mod ?len = (?r' + 1 + k) mod ?len" for k
      using mod_add_left_eq [of "?r + 1" ?len "Suc k"] by simp
    moreover obtain m where "?n = Suc m" using n by (cases ?n) auto
    ultimately show ?thesis unfolding items_def by (simp add: map_upt_Suc del: upt_Suc)
  qed
  then have item: "slot ?sz (storage x) ?r' = item"
    and rest: "map (\<lambda>k. slot ?sz (storage x) ((?r' + 1 + k) mod ?len)) [0..<?n - 1] = rest" using some by auto
  have get: "get_message x = Inr (item, ?x)"
  proof (rule get_message_eq)
    have rd: "pcReadFrom x = int (?r * ?sz)" and tl: "pcTail x = int (?len * ?sz)" using w by auto
    show "?sz > 0" using w by simp
    show "read_bytes (storage x) (int (?r' * ?sz)) ?sz = Inr item"
      unfolding item [symmetric] by (rule read_slot_bytes) (use w r' in auto)
    show "(if pcReadFrom x + int ?sz \<ge> pcTail x then 0 else pcReadFrom x + int ?sz) = int (?r' * ?sz)"
      unfolding rd tl by (rule next_slot) (use w in auto)
  qed
  have wf': "ring_wf ?x" and rs: "read_slot ?x = ?r'"
    by (rule ring_wfI [where r = ?r']; use w n r' in \<open>simp add: mod_simps le_diff_conv\<close>)+
  have "items ?x = rest" unfolding items_def rs using rest by simp
  then show ?thesis using get wf' by auto
qed

text \<open>In a queue of one item, overwriting replaces it.\<close>

lemma overwrite_message:
  assumes wf: "ring_wf x" and one: "uxLength x = 1" and item: "length item = uxItemSize x"
  shows "\<exists>x'. put_message queueOVERWRITE item x = Inr x' \<and> ring_wf x' \<and> items x' = [item] \<and>
    uxLength x' = uxLength x \<and> uxItemSize x' = uxItemSize x"
proof -
  note w = wf [unfolded ring_wf_def]
  have st: "length (storage x) = uxItemSize x" and rd: "pcReadFrom x = int 0" and tl: "pcTail x = int (uxItemSize x)"
    and wr: "pcWriteTo x = 0" and n: "uxMessagesWaiting x \<le> 1" using w one by auto
  let ?x = "x\<lparr>storage := item, pcReadFrom := int (0 * uxItemSize x), uxMessagesWaiting := 1\<rparr>"
  have "write_bytes (storage x) (pcReadFrom x) item = Inr item"
    unfolding rd write_bytes_nat using st item by simp
  then have put: "put_message queueOVERWRITE item x = Inr ?x"
    using item tl rd n w by (auto simp: put_message_def copy_to_storage_def item_bytes_def messages_after_def Let_def le_Suc_eq)
  have "ring_wf ?x" and "read_slot ?x = 0"
    by (rule ring_wfI [where r = 0]; use w one item wr tl in simp)+
  then show ?thesis using put one item by (auto simp: items_def slot_def)
qed

text \<open>The copy operations of a queue are a bounded buffer.\<close>

interpretation ring: bounded_buffer "put_message queueSEND_TO_BACK" "put_message queueSEND_TO_FRONT" get_message
  items ring_wf uxLength item_fits
proof unfold_locales
  fix s :: queue and x :: "u8 list"
  assume "ring_wf s" "length (items s) < uxLength s" "item_fits s x"
  then show "\<exists>s'. put_message queueSEND_TO_BACK x s = Inr s' \<and> ring_wf s' \<and> items s' = items s @ [x] \<and>
      uxLength s' = uxLength s \<and> item_fits s' = item_fits s"
    "\<exists>s'. put_message queueSEND_TO_FRONT x s = Inr s' \<and> ring_wf s' \<and> items s' = x # items s \<and>
      uxLength s' = uxLength s \<and> item_fits s' = item_fits s"
    using put_back_message [of s x] put_front_message [of s x] by (auto simp: item_fits_def fun_eq_iff)
next
  fix s :: queue and x :: "u8 list" and xs
  assume "ring_wf s" "items s = x # xs"
  then show "\<exists>s'. get_message s = Inr (x, s') \<and> ring_wf s' \<and> items s' = xs \<and> uxLength s' = uxLength s \<and>
      item_fits s' = item_fits s"
    using get_first_message [of s x xs] by (auto simp: item_fits_def fun_eq_iff)
qed

end
