(* ===== verification/QueueProps.thy ===== *)
theory QueueProps
  imports EventProps RingBuffer
begin

text \<open>
  Sending and receiving: a queue is the list of its messages, a message that is sent wakes the first task
  that waits to receive, one that is received the first that waits to send, and a call that cannot
  proceed blocks its task for the time it asked for.
\<close>

section \<open>Timeouts\<close>

text \<open>When \<open>k\<close> ticks have gone by since the time was taken, \<open>k < 2 ^ 32\<close>, and the overflow count has been
  kept with it, a timeout is reported exactly when \<open>k\<close> has reached the ticks to wait, and otherwise
  exactly the rest is left to wait.\<close>

lemma check_timeout_exact:
  assumes "k < 2 ^ 32" "ticks_to_wait \<noteq> portMAX_DELAY"
    and "xTickCount s = xTimeOnEntering tmo + of_nat k"
    and "xNumOfOverflows s = xOverflowCount tmo + (if unat (xTimeOnEntering tmo) + k < 2 ^ 32 then 0 else 1)"
  shows "check_timeout s tmo ticks_to_wait =
    (if k < unat ticks_to_wait then (False, vTaskInternalSetTimeOutState s, ticks_to_wait - of_nat k) else (True, tmo, 0))"
proof -
  let ?e = "xTimeOnEntering tmo"
  have e: "unat ?e < 2 ^ 32" using unsigned_less [of ?e] by simp
  have now: "unat (xTickCount s) = (if unat ?e + k < 2 ^ 32 then unat ?e + k else unat ?e + k - 2 ^ 32)"
  proof -
    have "unat (xTickCount s) = (unat ?e + k) mod 2 ^ 32"
      using assms(1) by (simp add: assms(3) unat_word_ariths unat_of_nat take_bit_nat_def mod_add_right_eq)
    then show ?thesis using e assms(1) by (simp add: le_mod_geq)
  qed
  have no: "\<not> (xNumOfOverflows s \<noteq> xOverflowCount tmo \<and> xTickCount s \<ge> ?e)"
    using now e assms(1,4) by (auto simp: word_le_nat_alt split: if_splits)
  have el: "xTickCount s - ?e = of_nat k" by (simp add: assms(3))
  have lt: "(of_nat k :: u32) < ticks_to_wait \<longleftrightarrow> k < unat ticks_to_wait"
    using assms(1) by (simp add: word_less_nat_alt unat_of_nat take_bit_nat_eq_self)
  show ?thesis unfolding check_timeout_def Let_def using no assms(2) by (simp only: el lt if_False)
qed

section \<open>Well-formed queues\<close>

text \<open>A queue with data, or a semaphore, that is not locked and is in no queue set.\<close>

definition queue_wf :: "queue \<Rightarrow> bool" where
  "queue_wf x \<longleftrightarrow> cRxLock x = queueUNLOCKED \<and> cTxLock x = queueUNLOCKED \<and> pxQueueSetContainer x = None \<and>
     uxMessagesWaiting x \<le> uxLength x \<and> 0 < uxLength x \<and> uxLength x < 2 ^ 32 \<and>
     (if uxItemSize x = 0 then pcHead x = HeadSelf else ring_wf x \<and> pcHead x = HeadStorage)"

lemma items_0: "uxItemSize x = 0 \<Longrightarrow> items x = replicate (uxMessagesWaiting x) []"
  by (simp add: items_def slot_def map_replicate_const)

text \<open>The messages after a send.\<close>

definition put_spec :: "position \<Rightarrow> 'a \<Rightarrow> 'a list \<Rightarrow> 'a list" where
  "put_spec pos x xs = (case pos of queueSEND_TO_BACK \<Rightarrow> xs @ [x] | queueSEND_TO_FRONT \<Rightarrow> x # xs | queueOVERWRITE \<Rightarrow> [x])"

text \<open>A message that can be sent to the queue now.\<close>

definition sendable :: "position \<Rightarrow> u8 list \<Rightarrow> queue \<Rightarrow> bool" where
  "sendable pos item x \<longleftrightarrow> length item = uxItemSize x \<and>
     (if pos = queueOVERWRITE then uxLength x = 1 \<and> uxItemSize x \<noteq> 0 else uxMessagesWaiting x < uxLength x)"

text \<open>The fields a transfer of data leaves alone.\<close>

definition same_frame :: "queue \<Rightarrow> queue \<Rightarrow> bool" where
  "same_frame x x' \<longleftrightarrow> uxLength x' = uxLength x \<and> uxItemSize x' = uxItemSize x \<and> pcHead x' = pcHead x \<and>
     cRxLock x' = cRxLock x \<and> cTxLock x' = cTxLock x \<and> pxQueueSetContainer x' = pxQueueSetContainer x"

lemma put_message_frame: "put_message pos item x = Inr x' \<Longrightarrow> same_frame x x'"
  by (cases "item_bytes (uxItemSize x) item")
    (auto simp: put_message_def copy_to_storage_def same_frame_def bindE_def Let_def split: sum.splits if_splits)

lemma get_message_frame: "get_message x = Inr (item, x') \<Longrightarrow> same_frame x x'"
  by (auto simp: get_message_def prvCopyDataFromQueue_def same_frame_def bindE_def Let_def split: sum.splits if_splits)

lemma put_message_ok:
  assumes "ring_wf x" "sendable pos item x"
  shows "\<exists>x'. put_message pos item x = Inr x' \<and> ring_wf x' \<and> items x' = put_spec pos item (items x)"
  using assms put_back_message [of x item] put_front_message [of x item] overwrite_message [of x item]
  by (cases pos) (auto simp: sendable_def put_spec_def)

lemma prvCopyDataToQueue_ok:
  assumes wf: "queue_wf (queue_of s q)" and ok: "sendable pos item (queue_of s q)"
  shows "\<exists>x. prvCopyDataToQueue c q item pos s = Inr (False, upd_queue q (\<lambda>_. x) s) \<and> queue_wf x \<and>
    same_frame (queue_of s q) x \<and> items x = put_spec pos item (items (queue_of s q))"
proof (cases "uxItemSize (queue_of s q) = 0")
  case True
  let ?x = "queue_of s q"
  let ?y = "?x\<lparr>uxMessagesWaiting := (uxMessagesWaiting ?x + 1) mod 2 ^ 32\<rparr>"
  have n: "uxMessagesWaiting ?x + 1 \<le> uxLength ?x" "uxLength ?x < 2 ^ 32" "pcHead ?x = HeadSelf" "item = []" "pos \<noteq> queueOVERWRITE"
    using True wf ok by (auto simp: queue_wf_def sendable_def split: if_splits)
  then have m: "(uxMessagesWaiting ?x + 1) mod 2 ^ 32 = uxMessagesWaiting ?x + 1" by simp
  have y: "queue_wf ?y" "same_frame ?x ?y" using True wf n unfolding m by (simp_all add: queue_wf_def same_frame_def)
  have i: "items ?y = replicate (Suc (uxMessagesWaiting ?x)) []" "items ?x = replicate (uxMessagesWaiting ?x) []"
    using items_0 [of ?y] items_0 [of ?x] True unfolding m by simp_all
  have "items ?y = put_spec pos item (items ?x)"
    using n unfolding i by (cases pos) (simp_all add: put_spec_def replicate_append_same)
  moreover have "prvCopyDataToQueue c q item pos s = Inr (False, upd_queue q (\<lambda>_. ?y) s)"
    using True n by (simp add: prvCopyDataToQueue_def Let_def upd_queue_def)
  ultimately show ?thesis using y by blast
next
  case False
  let ?x = "queue_of s q"
  have r: "ring_wf ?x" using False wf by (simp add: queue_wf_def)
  obtain x' where x': "put_message pos item ?x = Inr x'" "ring_wf x'" "items x' = put_spec pos item (items ?x)"
    using put_message_ok [OF r ok] by blast
  have fr: "same_frame ?x x'" by (rule put_message_frame [OF x'(1)])
  have "prvCopyDataToQueue c q item pos s = Inr (False, upd_queue q (\<lambda>_. x') s)"
    using False x'(1) by (cases "copy_to_storage item pos ?x") (auto simp: prvCopyDataToQueue_def put_message_def Let_def)
  moreover have "queue_wf x'" using False wf fr x'(2) by (simp add: queue_wf_def same_frame_def) (simp add: ring_wf_def)
  ultimately show ?thesis using fr x'(3) by blast
qed

lemma get_message_ok:
  assumes "queue_wf x" "uxMessagesWaiting x > 0"
  shows "\<exists>x'. get_message x = Inr (hd (items x), x') \<and> queue_wf x' \<and> same_frame x x' \<and> items x' = tl (items x)"
proof (cases "uxItemSize x = 0")
  case True
  let ?y = "x\<lparr>uxMessagesWaiting := uxMessagesWaiting x - 1\<rparr>"
  have "get_message x = Inr ([], ?y)" using True by (simp add: get_message_def prvCopyDataFromQueue_def)
  moreover have "queue_wf ?y" "same_frame x ?y" using assms True by (auto simp: queue_wf_def same_frame_def)
  moreover have "hd (items x) = []" "items ?y = tl (items x)"
    using assms(2) items_0 [of x] items_0 [of ?y] True by (cases "uxMessagesWaiting x"; simp)+
  ultimately show ?thesis by auto
next
  case False
  have r: "ring_wf x" using False assms(1) by (simp add: queue_wf_def)
  have "items x = hd (items x) # tl (items x)" using assms(2) length_items [of x] by (cases "items x") auto
  then obtain x' where x': "get_message x = Inr (hd (items x), x')" "ring_wf x'" "items x' = tl (items x)"
    using get_first_message [OF r] by metis
  have fr: "same_frame x x'" by (rule get_message_frame [OF x'(1)])
  moreover have "queue_wf x'" using False assms(1) fr x'(2) by (simp add: queue_wf_def same_frame_def) (simp add: ring_wf_def)
  ultimately show ?thesis using x' by blast
qed

section \<open>Critical sections\<close>

lemma upd_simps [simp]:
  "kern (upd_queue q f s) = kern s" "queue_of (upd_kern g s) = queue_of s" "kern (upd_kern g s) = g (kern s)"
  "queue_of (upd_queue q f s) q = f (queue_of s q)" "k \<noteq> q \<Longrightarrow> queue_of (upd_queue q f s) k = queue_of s k"
  "upd_queue q f (upd_queue q f2 s) = upd_queue q (f \<circ> f2) s" "upd_kern g (upd_kern g2 s) = upd_kern (g \<circ> g2) s"
  "upd_queue q f (upd_kern g s) = upd_kern g (upd_queue q f s)"
  by (simp_all add: upd_queue_def upd_kern_def)

lemma upd_kern_id [simp]: "upd_kern (\<lambda>_. kern s) s = s" "upd_kern id s = s"
  by (simp_all add: upd_kern_def)

text \<open>No task has moved.\<close>

definition unmoved :: "kernel \<Rightarrow> kernel \<Rightarrow> bool" where
  "unmoved k k' \<longleftrightarrow> quiet k k' \<and> (\<forall>u. stateContainer (tcb k' u) = stateContainer (tcb k u)) \<and> ev_same k k'"

text \<open>The first task of event list \<open>n\<close> has become ready, if there is one.\<close>

definition wakes :: "nat \<Rightarrow> kernel \<Rightarrow> kernel \<Rightarrow> bool" where
  "wakes n k k' \<longleftrightarrow> (case lists k (EventL n) of [] \<Rightarrow> unmoved k k' | t # _ \<Rightarrow> woke t n k k')"

lemma unmoved_refl [simp]: "unmoved k k"
  by (simp add: unmoved_def)

lemma unmoved_yields: "yields k k' \<Longrightarrow> unmoved k k'"
  by (simp add: unmoved_def yields_quiet ev_same_yields yields_same)

lemma wakes_yields: "wakes n k k1 \<Longrightarrow> yields k1 k' \<Longrightarrow> wakes n k k'"
  unfolding wakes_def
  by (auto split: list.splits intro: woke_yields)
    (auto simp: unmoved_def yields_same yields_quiet intro: quiet_trans ev_same_trans ev_same_yields)

lemma unmoved_waiters_wf: "unmoved k k' \<Longrightarrow> waiters_wf k \<Longrightarrow> waiters_wf k'"
  by (simp add: unmoved_def waiters_wf_def ev_same_def)

lemma wakes_waiters_wf: "wakes n k k' \<Longrightarrow> waiters_wf k \<Longrightarrow> waiters_wf k'"
  unfolding wakes_def
  by (auto split: list.splits intro: waiters_wf_woke) (simp add: unmoved_def waiters_wf_def ev_same_def)

lemma wakes_section:
  assumes "stable k" "c < configNUMBER_OF_CORES" "wakes n (vTaskEnterCritical c k) k1"
  shows "wakes n k (vTaskExitCritical c k1)"
proof -
  let ?k0 = "vTaskEnterCritical c k" and ?k' = "vTaskExitCritical c k1"
  have e: "?k0 = set_nesting c 1 k" by (rule stable_enter(1) [OF assms(1,2)])
  have n0: "uxCriticalNestings k c = 0" using assms(1,2) unfolding stable_iff [OF assms(2)] by (simp add: nestings_def)
  have q: "quiet ?k0 k1" using assms(3) by (auto simp: wakes_def unmoved_def woke_def split: list.splits)
  then have n1: "uxCriticalNestings k1 = (uxCriticalNestings k)(c := 1)" "xSchedulerRunning k1"
    using assms(1) by (simp_all add: quiet_def e set_nesting_def stable_def)
  have "(uxCriticalNestings k1)(c := 0) = uxCriticalNestings k" using n0 by (auto simp: n1 fun_eq_iff)
  then have x: "?k' = (let r = k1\<lparr>uxCriticalNestings := uxCriticalNestings k\<rparr> in if xYieldPendings k1 c then portYIELD c r else r)"
    using n1 n0 by (simp add: vTaskExitCritical_def set_nesting_def Let_def)
  have qk: "quiet k ?k'" using q unfolding e x by (simp add: quiet_def set_nesting_def portYIELD_def Let_def)
  have tl: "tcb ?k' = tcb k1" "lists ?k' = lists k1" by simp_all
  have t0: "tcb ?k0 = tcb k" "lists ?k0 = lists k" by (simp_all add: e set_nesting_def)
  show ?thesis using assms(3) qk
    by (auto simp: wakes_def unmoved_def woke_def ev_same_def tl t0 split: list.splits)
qed

lemma section_begin_enter: "stable k \<Longrightarrow> c < configNUMBER_OF_CORES \<Longrightarrow> section_begin c (vTaskEnterCritical c k)"
  using stable_enter [of k c] by (simp add: section_begin_def)

lemma enter_waiters [simp]: "waiters_wf (vTaskEnterCritical c k) = waiters_wf k"
  by (simp add: waiters_wf_def vTaskEnterCritical_def set_nesting_def)

lemma enter_lists [simp]: "lists (vTaskEnterCritical c k) = lists k" "tcb (vTaskEnterCritical c k) = tcb k"
  "pxCurrentTCBs (vTaskEnterCritical c k) = pxCurrentTCBs k" "xIdleTaskHandles (vTaskEnterCritical c k) = xIdleTaskHandles k"
  by (simp_all add: vTaskEnterCritical_def set_nesting_def)

lemma section_stable: "section_end c k \<Longrightarrow> c < configNUMBER_OF_CORES \<Longrightarrow> stable (vTaskExitCritical c k)"
  by (simp add: section_end_def stable_exit)

text \<open>A section whose effect on the kernel is a relation that does not look at the nesting and the
  interrupts.\<close>

definition sectional :: "nat \<Rightarrow> kernel \<Rightarrow> (kernel \<Rightarrow> kernel \<Rightarrow> bool) \<Rightarrow> bool" where
  "sectional c k R \<longleftrightarrow> (\<forall>k'. R (vTaskEnterCritical c k) k' \<longrightarrow> R k (vTaskExitCritical c k'))"

lemma sectional_wakes: "stable k \<Longrightarrow> c < configNUMBER_OF_CORES \<Longrightarrow> sectional c k (wakes n)"
  by (simp add: sectional_def wakes_section)

lemma qcritical_ok:
  assumes st: "stable (kern s)" and c: "c < configNUMBER_OF_CORES" and R: "sectional c (kern s) R"
    and f: "\<And>s0. section_begin c (kern s0) \<Longrightarrow> s0 = upd_kern (vTaskEnterCritical c) s \<Longrightarrow>
      ensures (f s0) (\<lambda>(r, s1). P r (queue_of s1) \<and> R (kern s0) (kern s1) \<and> section_end c (kern s1))"
  shows "ensures (qcritical c f s) (\<lambda>(r, s'). P r (queue_of s') \<and> R (kern s) (kern s') \<and> stable (kern s'))"
  unfolding qcritical_def
proof (rule ensures_bind [OF f])
  show "section_begin c (kern (upd_kern (vTaskEnterCritical c) s))"
    using section_begin_enter [OF st c] by simp
  show "ensures (case x of (r, s') \<Rightarrow> Inr (r, upd_kern (vTaskExitCritical c) s'))
      (\<lambda>(r, s'). P r (queue_of s') \<and> R (kern s) (kern s') \<and> stable (kern s'))"
    if "case x of (r, s1) \<Rightarrow> P r (queue_of s1) \<and>
        R (kern (upd_kern (vTaskEnterCritical c) s)) (kern s1) \<and> section_end c (kern s1)" for x
    using that R section_stable [OF _ c] by (auto simp: sectional_def)
qed simp

section \<open>Waking from a queue\<close>

lemma section_end_yield:
  assumes "section_end c k" "c < configNUMBER_OF_CORES"
  shows "section_end c (vTaskYieldWithinAPI c k)" "yields k (vTaskYieldWithinAPI c k)"
proof -
  have n: "uxCriticalNestings k c = 1" using assms by (auto simp: section_end_def nestings_def)
  then have e: "vTaskYieldWithinAPI c k = set_yield_pending c True k" by (simp add: vTaskYieldWithinAPI_def)
  show y: "yields k (vTaskYieldWithinAPI c k)" unfolding e by simp
  have k: "kinv k" using assms by (simp add: section_end_def basic_def)
  show "section_end c (vTaskYieldWithinAPI c k)"
    using assms pended_at_yields [OF k y] basic_yields [OF _ y]
    by (simp add: section_end_def nestings_def yields_same [OF y])
qed

lemma wake_waiting_ok:
  assumes "section_begin c (kern s)" "waiters_wf (kern s)"
  shows "ensures (wake_waiting c (EventL n) s)
    (\<lambda>(y, s'). queue_of s' = queue_of s \<and> wakes n (kern s) (kern s') \<and> section_end c (kern s'))"
proof (cases "lists (kern s) (EventL n)")
  case Nil
  then show ?thesis using pended_imp_section_end [OF assms(1)] by (simp add: wake_waiting_def wakes_def)
next
  case (Cons t ts)
  then show ?thesis using xTaskRemoveFromEventList_ok [OF assms Cons]
    by (auto simp: wake_waiting_def on_kern_def wakes_def ensures_def)
qed

lemma wake_and_yield_ok:
  assumes "section_begin c (kern s)" "waiters_wf (kern s)" "c < configNUMBER_OF_CORES"
  shows "ensures (after_receive c (EventL n) s)
    (\<lambda>s'. queue_of s' = queue_of s \<and> wakes n (kern s) (kern s') \<and> section_end c (kern s'))"
  unfolding after_receive_def
proof (rule ensures_bind [OF wake_waiting_ok [OF assms(1,2)]])
  fix x :: "bool \<times> qsys"
  assume "case x of (y, s') \<Rightarrow> queue_of s' = queue_of s \<and> wakes n (kern s) (kern s') \<and> section_end c (kern s')"
  then show "ensures (case x of (y, s1) \<Rightarrow> Inr (if y then upd_kern (vTaskYieldWithinAPI c) s1 else s1))
      (\<lambda>s'. queue_of s' = queue_of s \<and> wakes n (kern s) (kern s') \<and> section_end c (kern s'))"
    using section_end_yield [OF _ assms(3)] wakes_yields by (cases x) auto
qed

section \<open>The bodies of sending and receiving\<close>

text \<open>What a send that finds room does to the queues.\<close>

definition sent :: "nat \<Rightarrow> position \<Rightarrow> u8 list \<Rightarrow> (nat \<Rightarrow> queue) \<Rightarrow> (nat \<Rightarrow> queue) \<Rightarrow> bool" where
  "sent q pos item Q Q' \<longleftrightarrow> Q' = Q(q := Q' q) \<and> queue_wf (Q' q) \<and> same_frame (Q q) (Q' q) \<and>
     items (Q' q) = put_spec pos item (items (Q q))"

definition received :: "nat \<Rightarrow> u8 list \<Rightarrow> (nat \<Rightarrow> queue) \<Rightarrow> (nat \<Rightarrow> queue) \<Rightarrow> bool" where
  "received q item Q Q' \<longleftrightarrow> Q' = Q(q := Q' q) \<and> queue_wf (Q' q) \<and> same_frame (Q q) (Q' q) \<and>
     items (Q q) = item # items (Q' q)"

lemma send_body_ok:
  assumes "section_begin c (kern s)" "waiters_wf (kern s)" "c < configNUMBER_OF_CORES"
    and wf: "queue_wf (queue_of s q)" and ok: "sendable pos item (queue_of s q)"
  shows "ensures (send_body c q item pos s) (\<lambda>(r, s'). r \<and> sent q pos item (queue_of s) (queue_of s') \<and>
    wakes (2 * q + 1) (kern s) (kern s') \<and> section_end c (kern s'))"
proof -
  obtain x where x: "prvCopyDataToQueue c q item pos s = Inr (False, upd_queue q (\<lambda>_. x) s)" "queue_wf x"
    "same_frame (queue_of s q) x" "items x = put_spec pos item (items (queue_of s q))"
    using prvCopyDataToQueue_ok [OF wf ok] by blast
  let ?s = "upd_queue q (\<lambda>_. x) s"
  have room: "uxMessagesWaiting (queue_of s q) < uxLength (queue_of s q) \<or> pos = queueOVERWRITE"
    using ok by (auto simp: sendable_def split: if_splits)
  have q: "sent q pos item (queue_of s) (queue_of ?s)" using x(2-4) by (simp add: sent_def) (simp add: upd_queue_def)
  have set: "pxQueueSetContainer x = None" using x(2) by (simp add: queue_wf_def)
  have "ensures (after_receive c (EventL (2 * q + 1)) ?s)
      (\<lambda>s'. queue_of s' = queue_of ?s \<and> wakes (2 * q + 1) (kern s) (kern s') \<and> section_end c (kern s'))"
    using wake_and_yield_ok [of c ?s "2 * q + 1"] assms(1-3) by simp
  moreover have "send_body c q item pos s = bindE (after_receive c (EventL (2 * q + 1)) ?s) (\<lambda>s'. Inr (True, s'))"
    using room x(1) set by (cases "lists (kern s) (EventL (2 * q + 1)) = []")
      (simp_all add: send_body_def Let_def xTasksWaitingToReceive_def after_receive_def wake_waiting_def bindE_assoc case_prod_unfold)
  ultimately show ?thesis using q by (auto intro: ensures_bind)
qed

lemma send_body_full:
  "\<not> uxMessagesWaiting (queue_of s q) < uxLength (queue_of s q) \<Longrightarrow> pos \<noteq> queueOVERWRITE \<Longrightarrow>
    send_body c q item pos s = Inr (False, s)"
  by (simp add: send_body_def Let_def)

lemma receive_body_ok:
  assumes "section_begin c (kern s)" "waiters_wf (kern s)" "c < configNUMBER_OF_CORES"
    and wf: "queue_wf (queue_of s q)" and some: "uxMessagesWaiting (queue_of s q) > 0"
  shows "ensures (receive_body c q s) (\<lambda>(r, s'). (\<exists>item. r = Some item \<and> received q item (queue_of s) (queue_of s')) \<and>
    wakes (2 * q) (kern s) (kern s') \<and> section_end c (kern s'))"
proof -
  let ?x = "queue_of s q"
  obtain x where x: "get_message ?x = Inr (hd (items ?x), x)" "queue_wf x" "same_frame ?x x" "items x = tl (items ?x)"
    using get_message_ok [OF wf some] by blast
  let ?s = "upd_queue q (\<lambda>_. x) s"
  have "items ?x = hd (items ?x) # tl (items ?x)" using some length_items [of ?x] by (cases "items ?x") auto
  then have q: "received q (hd (items ?x)) (queue_of s) (queue_of ?s)" using x(2-4) by (simp add: received_def) (simp add: upd_queue_def)
  obtain x' where x': "prvCopyDataFromQueue ?x = Inr (hd (items ?x), x')" "x = x'\<lparr>uxMessagesWaiting := uxMessagesWaiting ?x - 1\<rparr>"
    using x(1) by (cases "prvCopyDataFromQueue ?x") (auto simp: get_message_def)
  have "ensures (after_receive c (EventL (2 * q)) ?s)
      (\<lambda>s'. queue_of s' = queue_of ?s \<and> wakes (2 * q) (kern s) (kern s') \<and> section_end c (kern s'))"
    using wake_and_yield_ok [of c ?s "2 * q"] assms(1-3) by simp
  moreover have "receive_body c q s = bindE (after_receive c (EventL (2 * q)) ?s) (\<lambda>s'. Inr (Some (hd (items ?x)), s'))"
    using some x' by (simp add: receive_body_def Let_def xTasksWaitingToSend_def)
  ultimately show ?thesis using q by (auto intro: ensures_bind)
qed

lemma receive_body_empty: "uxMessagesWaiting (queue_of s q) = 0 \<Longrightarrow> receive_body c q s = Inr (None, s)"
  by (simp add: receive_body_def Let_def)

section \<open>One round of a blocking call\<close>

lemma qcritical_eq:
  assumes "xSchedulerRunning (kern s)" "uxCriticalNestings (kern s) c = 0"
  shows "qcritical c (\<lambda>s0. Inr (r s0, upd_queue q f s0)) s =
    Inr (r (upd_kern (vTaskEnterCritical c) s), upd_kern (kick c) (upd_queue q f s))"
proof -
  have "vTaskExitCritical c (vTaskEnterCritical c (kern s)) = kick c (kern s)" by (rule enter_exit [OF assms])
  then show ?thesis by (simp add: qcritical_def upd_kern_def upd_queue_def)
qed

definition lock :: "queue \<Rightarrow> queue" where
  "lock x = x\<lparr>cRxLock := (if cRxLock x = queueUNLOCKED then queueLOCKED_UNMODIFIED else cRxLock x),
     cTxLock := (if cTxLock x = queueUNLOCKED then queueLOCKED_UNMODIFIED else cTxLock x)\<rparr>"

lemma prvLockQueue_eq:
  "xSchedulerRunning (kern s) \<Longrightarrow> uxCriticalNestings (kern s) c = 0 \<Longrightarrow>
    prvLockQueue c q s = Inr ((), upd_kern (kick c) (upd_queue q lock s))"
  using qcritical_eq [of s c "\<lambda>_. ()" q lock] by (simp add: prvLockQueue_def lock_def [abs_def])

text \<open>No data was transferred while the queue was locked.\<close>

lemma prvUnlockQueue_eq:
  assumes "xSchedulerRunning (kern s)" "uxCriticalNestings (kern s) c = 0"
    "cTxLock (queue_of s q) = queueLOCKED_UNMODIFIED" "cRxLock (queue_of s q) = queueLOCKED_UNMODIFIED"
  shows "prvUnlockQueue c q s =
    Inr (upd_kern (kick c) (upd_queue q (\<lambda>x. x\<lparr>cTxLock := queueUNLOCKED, cRxLock := queueUNLOCKED\<rparr>) s))"
proof -
  let ?s1 = "upd_kern (kick c) (upd_queue q (\<lambda>x. x\<lparr>cTxLock := queueUNLOCKED\<rparr>) s)"
  have "qcritical c (\<lambda>s0. bindE (unlock_tx c q (nat (cTxLock (queue_of s0 q))) s0) (\<lambda>s1.
      Inr ((), upd_queue q (\<lambda>x. x\<lparr>cTxLock := queueUNLOCKED\<rparr>) s1))) s = Inr ((), ?s1)"
    using qcritical_eq [OF assms(1,2), of "\<lambda>_. ()" q "\<lambda>x. x\<lparr>cTxLock := queueUNLOCKED\<rparr>"] assms(3)
    by (simp add: qcritical_def queueLOCKED_UNMODIFIED_def)
  moreover have "qcritical c (\<lambda>s3. bindE (unlock_rx c q (nat (cRxLock (queue_of s3 q))) s3) (\<lambda>s4.
      Inr ((), upd_queue q (\<lambda>x. x\<lparr>cRxLock := queueUNLOCKED\<rparr>) s4))) ?s1 =
    Inr ((), upd_kern (kick c) (upd_queue q (\<lambda>x. x\<lparr>cRxLock := queueUNLOCKED\<rparr>) ?s1))"
    using qcritical_eq [of ?s1 c "\<lambda>_. ()" q "\<lambda>x. x\<lparr>cRxLock := queueUNLOCKED\<rparr>"] assms
    by (simp add: qcritical_def queueLOCKED_UNMODIFIED_def)
  ultimately show ?thesis by (simp add: prvUnlockQueue_def upd_kern_def upd_queue_def)
qed

definition unlocked :: "queue \<Rightarrow> bool" where
  "unlocked x \<longleftrightarrow> cRxLock x = queueUNLOCKED \<and> cTxLock x = queueUNLOCKED"

lemma queue_wf_unlocked: "queue_wf x \<Longrightarrow> unlocked x"
  by (simp add: queue_wf_def unlocked_def)

lemma unlock_lock:
  "unlocked x \<Longrightarrow> (lock x)\<lparr>cTxLock := queueUNLOCKED, cRxLock := queueUNLOCKED\<rparr> = x"
  by (simp add: lock_def unlocked_def)

lemma xTaskCheckForTimeOut_eq:
  assumes "xSchedulerRunning k" "uxCriticalNestings k c = 0" "kinv k" "c < configNUMBER_OF_CORES"
    "\<not> ucDelayAborted (tcb k (cur k c))"
  shows "xTaskCheckForTimeOut c tmo n k = Inr (check_timeout k tmo n, kick c k)"
proof -
  let ?k = "vTaskEnterCritical c k"
  have "kinv ?k" using assms(3) by simp
  then have cur: "current c ?k = Inr (cur k c)" using current_eq [of ?k c] assms(4) by (simp add: vTaskEnterCritical_def set_nesting_def cur_def)
  have "check_timeout ?k tmo n = check_timeout k tmo n"
    by (simp add: check_timeout_def vTaskEnterCritical_def set_nesting_def vTaskInternalSetTimeOutState_def Let_def)
  then show ?thesis using assms(5) by (simp add: xTaskCheckForTimeOut_def critical_def cur enter_exit [OF assms(1,2)])
qed

lemma stable_running: "stable k \<Longrightarrow> xSchedulerRunning k" "stable k \<Longrightarrow> kinv k"
  "stable k \<Longrightarrow> c < configNUMBER_OF_CORES \<Longrightarrow> uxCriticalNestings k c = 0"
  "stable k \<Longrightarrow> uxSchedulerSuspended k = 0" "stable k \<Longrightarrow> lists k PendingReadyL = []" "stable k \<Longrightarrow> xPendedTicks k = 0"
  by (simp_all add: stable_def)

text \<open>The calling task: it runs, is no idle task, and no other task cut its last delay short.\<close>

definition caller :: "nat \<Rightarrow> kernel \<Rightarrow> bool" where
  "caller c k \<longleftrightarrow> c < configNUMBER_OF_CORES \<and> runs k c \<and> \<not> idle_task k (cur k c) \<and> \<not> ucDelayAborted (tcb k (cur k c))"

lemma blocked_kick: "blocked c m n (kick c k) k' = blocked c m n k k'"
proof -
  have "remaining (kick c k) = remaining k" "event_item (kick c k) = event_item k"
    by (simp_all add: remaining_def sleeping_def event_item_def fun_eq_iff)
  then show ?thesis by (simp add: blocked_def)
qed

lemma check_timeout_kick [simp]: "check_timeout (kick c k) = check_timeout k"
  "check_timeout (k\<lparr>uxSchedulerSuspended := v\<rparr>) = check_timeout k"
  by (simp_all add: check_timeout_def vTaskInternalSetTimeOutState_def fun_eq_iff Let_def)

text \<open>The scheduler is suspended, the queue locked, and the time checked.\<close>

definition waiting_state :: "nat \<Rightarrow> nat \<Rightarrow> qsys \<Rightarrow> qsys" where
  "waiting_state c q s = upd_kern (\<lambda>_. (kick c (kern s))\<lparr>uxSchedulerSuspended := 1\<rparr>) (upd_queue q lock s)"

lemma waiting_state_simps [simp]:
  "kern (waiting_state c q s) = (kick c (kern s))\<lparr>uxSchedulerSuspended := 1\<rparr>"
  "queue_of (waiting_state c q s) q = lock (queue_of s q)"
  by (simp_all add: waiting_state_def)

lemma wait_begin:
  assumes "stable (kern s)" "caller c (kern s)"
  shows "prvLockQueue c q (upd_kern vTaskSuspendAll s) = Inr ((), waiting_state c q s)"
    "on_kern (xTaskCheckForTimeOut c tmo n) (waiting_state c q s) = Inr (check_timeout (kern s) tmo n, waiting_state c q s)"
proof -
  let ?h = "(kick c (kern s))\<lparr>uxSchedulerSuspended := 1\<rparr>"
  have c: "c < configNUMBER_OF_CORES" using assms(2) by (simp add: caller_def)
  note run = stable_running [OF assms(1)]
  have k: "xSchedulerRunning ?h" "uxCriticalNestings ?h c = 0" "kinv ?h" "\<not> ucDelayAborted (tcb ?h (cur ?h c))"
    using run c assms(2) stable_running [OF stable_kick [OF assms(1), of c]] by (simp_all add: caller_def cur_def)
  show "prvLockQueue c q (upd_kern vTaskSuspendAll s) = Inr ((), waiting_state c q s)"
    using prvLockQueue_eq [of "upd_kern vTaskSuspendAll s" c q] run c stable_vTaskSuspendAll [OF assms(1)]
    by (simp add: waiting_state_def comp_def)
  show "on_kern (xTaskCheckForTimeOut c tmo n) (waiting_state c q s) = Inr (check_timeout (kern s) tmo n, waiting_state c q s)"
    using xTaskCheckForTimeOut_eq [OF k(1-3) c k(4), of tmo n]
    by (simp add: on_kern_def waiting_state_def upd_kern_def)
qed

lemma wait_unlock:
  assumes "unlocked (queue_of s q)" "xSchedulerRunning k" "uxCriticalNestings k c = 0"
  shows "prvUnlockQueue c q (upd_kern (\<lambda>_. k) (waiting_state c q s)) = Inr (upd_kern (\<lambda>_. kick c k) s)"
proof -
  let ?f = "\<lambda>x. x\<lparr>cTxLock := queueUNLOCKED, cRxLock := queueUNLOCKED\<rparr>" and ?s = "upd_kern (\<lambda>_. k) (waiting_state c q s)"
  have "queue_of (upd_queue q ?f ?s) = queue_of s"
    using unlock_lock [OF assms(1)] by (simp add: waiting_state_def upd_queue_def upd_kern_def fun_eq_iff)
  then have e: "upd_kern (kick c) (upd_queue q ?f ?s) = upd_kern (\<lambda>_. kick c k) s" by (simp add: upd_kern_def upd_queue_def)
  show ?thesis unfolding e [symmetric]
    by (rule prvUnlockQueue_eq) (use assms in \<open>simp_all add: lock_def unlocked_def\<close>)
qed

text \<open>A call that cannot proceed, with time left: the task waits in the list for the rest of its time.\<close>

lemma wait_round_blocks:
  assumes st: "stable (kern s)" and cl: "caller c (kern s)" and wf: "unlocked (queue_of s q)"
    and still: "still (lock (queue_of s q))" and time: "check_timeout (kern s) tmo (xTicksToWait v) = (False, tmo', n)"
    and n: "n \<noteq> 0"
    and before: "before (waiting_state c q s) = Inr (b, upd_kern (\<lambda>_. h\<lparr>uxSchedulerSuspended := 1\<rparr>) (waiting_state c q s))"
    and h: "stable h" "waiters_wf h" "on_ready c h" "\<not> idle_task h (cur h c)"
  shows "ensures (wait_round c q (EventL m) still before late tmo v s) (\<lambda>(r, s').
    r = Again (v\<lparr>xTimeOut := Some tmo', xTicksToWait := n, xInheritanceOccurred := b\<rparr>) \<and> queue_of s' = queue_of s \<and>
    blocked c m n h (kern s') \<and> stable (kern s'))"
proof -
  let ?s = "waiting_state c q s" and ?t = "upd_kern (\<lambda>_. h\<lparr>uxSchedulerSuspended := 1\<rparr>) (waiting_state c q s)"
  have c: "c < configNUMBER_OF_CORES" using cl by (simp add: caller_def)
  obtain k where k: "vTaskPlaceOnEventList c (EventL m) n (h\<lparr>uxSchedulerSuspended := 1\<rparr>) = Inr k" "halted c k"
    "blocked c m n h (portYIELD c (k\<lparr>uxSchedulerSuspended := 0\<rparr>))"
    using vTaskPlaceOnEventList_ok [OF h(1) c h(2-4) n, of m] by (auto simp: ensures_def)
  have f: "xSchedulerRunning k" "uxCriticalNestings k c = 0" "uxSchedulerSuspended k = 1" "lists k PendingReadyL = []" "xPendedTicks k = 0"
    using k(2) c by (simp_all add: halted_def basic_def nestings_def)
  then have f': "xSchedulerRunning (kick c k)" "uxCriticalNestings (kick c k) c = 0" "uxSchedulerSuspended (kick c k) = 1"
    "lists (kick c k) PendingReadyL = []" "xPendedTicks (kick c k) = 0" by simp_all
  obtain y k' where res: "xTaskResumeAll c (kick c k) = Inr (y, k')"
    using xTaskResumeAll_eq [OF f'] by blast
  have fin: "(if y then k' else vTaskYieldWithinAPI c k') = portYIELD c (k\<lparr>uxSchedulerSuspended := 0\<rparr>)"
    unfolding resume_yield_eq [OF f' res] by (simp flip: kick_susp)
  note lk = wait_begin(1) [OF st cl, of q]
    and chk = wait_begin(2) [OF st cl, of tmo "xTicksToWait v" q, unfolded time]
    and ul = wait_unlock [OF wf f(1,2)]
  have pl: "on_kern1 (vTaskPlaceOnEventList c (EventL m) n) ?t = Inr (upd_kern (\<lambda>_. k) ?s)" using k(1) by (simp add: on_kern1_def upd_kern_def)
  have rs: "on_kern (xTaskResumeAll c) (upd_kern (\<lambda>_. kick c k) s) = Inr (y, upd_kern (\<lambda>_. k') s)"
    using res by (simp add: on_kern_def upd_kern_def)
  have st1: "still (queue_of ?s q)" using still by simp
  have last: "(if y then upd_kern (\<lambda>_. k') s else upd_kern (vTaskYieldWithinAPI c) (upd_kern (\<lambda>_. k') s)) =
      upd_kern (\<lambda>_. if y then k' else vTaskYieldWithinAPI c k') s" by (simp add: upd_kern_def)
  have "wait_round c q (EventL m) still before late tmo v s =
      Inr (Again (v\<lparr>xTimeOut := Some tmo', xTicksToWait := n, xInheritanceOccurred := b\<rparr>),
        upd_kern (\<lambda>_. if y then k' else vTaskYieldWithinAPI c k') s)"
    unfolding last [symmetric]
    by (simp only: wait_round_def lk chk before pl ul rs st1 bindE_simps prod.case Let_def simp_thms if_True)
  then show ?thesis using k(3) halted_stable [OF k(2) c] by (simp add: fin)
qed

text \<open>The other two ways out of the wait: it goes on at once, or the time is up.\<close>

lemma wait_round_returns:
  assumes st: "stable (kern s)" and cl: "caller c (kern s)" and wf: "unlocked (queue_of s q)"
    and time: "check_timeout (kern s) tmo (xTicksToWait v) = (expired, tmo', n)"
    and no: "expired \<or> \<not> still (lock (queue_of s q))"
  shows "wait_round c q L still before late tmo v s =
    (let v' = v\<lparr>xTimeOut := Some tmo', xTicksToWait := n\<rparr>; s' = upd_kern (kick c) s
     in if expired then late v' s' else Inr (Again v', s'))"
proof -
  let ?h = "(kick c (kern s))\<lparr>uxSchedulerSuspended := 1\<rparr>" and ?s = "waiting_state c q s"
  have c: "c < configNUMBER_OF_CORES" using cl by (simp add: caller_def)
  note run = stable_running [OF st]
  have h: "xSchedulerRunning ?h" "uxCriticalNestings ?h c = 0" "uxSchedulerSuspended ?h = 1" "lists ?h PendingReadyL = []" "xPendedTicks ?h = 0"
    using run c by simp_all
  have kk: "kick c ?h = ?h" by simp
  have s: "upd_kern (\<lambda>_. ?h) ?s = ?s" by (simp add: upd_kern_def waiting_state_def)
  have ul: "prvUnlockQueue c q ?s = Inr (upd_kern (\<lambda>_. ?h) s)" using wait_unlock [OF wf h(1,2)] unfolding s kk .
  have "kick c (?h\<lparr>uxSchedulerSuspended := 0\<rparr>) = kick c (kern s)"
  proof -
    have "?h\<lparr>uxSchedulerSuspended := 0\<rparr> = kick c (kern s)" using run(4) by (simp add: kick_def portYIELD_def)
    then show ?thesis by (simp only: kick_kick)
  qed
  then have "\<exists>y. xTaskResumeAll c ?h = Inr (y, kick c (kern s))"
    unfolding xTaskResumeAll_eq [OF h] by (simp only: sum.inject prod.inject simp_thms)
  then obtain y where rs: "on_kern (xTaskResumeAll c) (upd_kern (\<lambda>_. ?h) s) = Inr (y, upd_kern (kick c) s)"
    by (auto simp: on_kern_def upd_kern_def)
  note lk = wait_begin(1) [OF st cl, of q]
    and chk = wait_begin(2) [OF st cl, of tmo "xTicksToWait v" q, unfolded time]
  have st1: "still (queue_of ?s q) = still (lock (queue_of s q))" by simp
  show ?thesis using no
    by (cases expired)
      (simp_all only: wait_round_def lk chk ul rs st1 bindE_simps prod.case Let_def simp_thms if_True if_False)
qed

section \<open>The calls\<close>

text \<open>A time at which the task began to wait.\<close>

definition entry_time :: "waiting \<Rightarrow> kernel \<Rightarrow> timeout" where
  "entry_time v k = (case xTimeOut v of Some tmo \<Rightarrow> tmo | None \<Rightarrow> vTaskInternalSetTimeOutState k)"

lemma check_timeout_pos:
  "check_timeout k tmo n = (False, tmo', n') \<Longrightarrow> n \<noteq> 0 \<Longrightarrow> n' \<noteq> 0"
  by (auto simp: check_timeout_def Let_def portMAX_DELAY_def split: if_splits)

lemma check_timeout_now:
  "n \<noteq> 0 \<Longrightarrow> check_timeout k (vTaskInternalSetTimeOutState k) n = (False, vTaskInternalSetTimeOutState k, n)"
  by (simp add: check_timeout_def vTaskInternalSetTimeOutState_def Let_def word_gt_0)

lemma blocking_round_fails:
  assumes st: "stable (kern s)" and c: "c < configNUMBER_OF_CORES"
    and body: "\<And>s0. queue_of s0 = queue_of s \<Longrightarrow> body s0 = Inr (None, s0)"
  shows "blocking_round c body fails wait v s =
    (if xTicksToWait v = 0 then Inr (Returned fails, upd_kern (kick c) s)
     else wait (entry_time v (kern s)) (upd_kern (kick c) s))"
proof -
  let ?r = "\<lambda>s0. (None, case xTimeOut v of Some tmo \<Rightarrow> tmo | None \<Rightarrow> vTaskInternalSetTimeOutState (kern s0))"
  have i: "upd_queue 0 (\<lambda>x. x) s0 = s0" for s0 by (simp add: upd_queue_def)
  have b: "(\<lambda>s0. bindE (body s0) (\<lambda>(r, s1). Inr ((r, case xTimeOut v of Some tmo \<Rightarrow> tmo
      | None \<Rightarrow> vTaskInternalSetTimeOutState (kern s1)), s1))) (upd_kern (vTaskEnterCritical c) s) =
    Inr (?r (upd_kern (vTaskEnterCritical c) s), upd_kern (vTaskEnterCritical c) s)"
    by (simp add: body)
  have "qcritical c (\<lambda>s0. bindE (body s0) (\<lambda>(r, s1). Inr ((r, case xTimeOut v of Some tmo \<Rightarrow> tmo
      | None \<Rightarrow> vTaskInternalSetTimeOutState (kern s1)), s1))) s =
    Inr (?r (upd_kern (vTaskEnterCritical c) s), upd_kern (kick c) s)"
    using qcritical_eq [OF stable_running(1,3) [OF st], of c ?r 0 "\<lambda>x. x"] c unfolding qcritical_def b i by (simp add: st)
  moreover have "vTaskInternalSetTimeOutState (vTaskEnterCritical c k) = vTaskInternalSetTimeOutState k" for k
    by (simp add: vTaskInternalSetTimeOutState_def vTaskEnterCritical_def set_nesting_def)
  ultimately show ?thesis by (simp add: blocking_round_def entry_time_def split: option.splits)
qed

lemma blocking_round_returns:
  assumes st: "stable (kern s)" and c: "c < configNUMBER_OF_CORES" and R: "sectional c (kern s) R"
    and body: "\<And>s0. section_begin c (kern s0) \<Longrightarrow> queue_of s0 = queue_of s \<Longrightarrow> tcb (kern s0) = tcb (kern s) \<Longrightarrow>
      pxCurrentTCBs (kern s0) = pxCurrentTCBs (kern s) \<Longrightarrow> xIdleTaskHandles (kern s0) = xIdleTaskHandles (kern s) \<Longrightarrow>
      ensures (body s0) (\<lambda>(r, s1). (\<exists>x. r = Some x \<and> P x (queue_of s1)) \<and> R (kern s0) (kern s1) \<and> section_end c (kern s1))"
  shows "ensures (blocking_round c body fails wait v s) (\<lambda>(r, s'). (\<exists>x. r = Returned x \<and> P x (queue_of s')) \<and>
    R (kern s) (kern s') \<and> stable (kern s'))"
proof -
  let ?P = "\<lambda>r Q. \<exists>x. fst r = Some x \<and> P x Q"
  have "ensures (qcritical c (\<lambda>s0. bindE (body s0) (\<lambda>(r, s1). Inr ((r, case xTimeOut v of Some tmo \<Rightarrow> tmo
      | None \<Rightarrow> vTaskInternalSetTimeOutState (kern s1)), s1))) s)
    (\<lambda>(r, s'). ?P r (queue_of s') \<and> R (kern s) (kern s') \<and> stable (kern s'))"
  proof (rule qcritical_ok [OF st c R])
    fix s0 assume s0: "section_begin c (kern s0)" "s0 = upd_kern (vTaskEnterCritical c) s"
    show "ensures (bindE (body s0) (\<lambda>(r, s1). Inr ((r, case xTimeOut v of Some tmo \<Rightarrow> tmo
        | None \<Rightarrow> vTaskInternalSetTimeOutState (kern s1)), s1)))
      (\<lambda>(r, s1). ?P r (queue_of s1) \<and> R (kern s0) (kern s1) \<and> section_end c (kern s1))"
      by (rule ensures_bind [OF body [OF s0(1)]]) (use s0(2) in auto)
  qed
  then show ?thesis unfolding blocking_round_def by (rule ensures_bind) auto
qed

lemma waiters_wf_tcb: "tcb k = tcb k' \<Longrightarrow> waiters_wf k = waiters_wf k'"
  by (simp add: waiters_wf_def)

lemma xQueueGenericSend_ok:
  assumes "stable (kern s)" "waiters_wf (kern s)" "c < configNUMBER_OF_CORES" "queue_wf (queue_of s q)"
    "sendable pos item (queue_of s q)"
  shows "ensures (xQueueGenericSend c q item pos v s) (\<lambda>(r, s'). r = Returned True \<and>
    sent q pos item (queue_of s) (queue_of s') \<and> wakes (2 * q + 1) (kern s) (kern s') \<and> stable (kern s'))"
proof -
  have "ensures (xQueueGenericSend c q item pos v s) (\<lambda>(r, s').
      (\<exists>x. r = Returned x \<and> (x \<and> sent q pos item (queue_of s) (queue_of s'))) \<and>
      wakes (2 * q + 1) (kern s) (kern s') \<and> stable (kern s'))"
    unfolding xQueueGenericSend_def
  proof (rule blocking_round_returns [OF assms(1,3) sectional_wakes [OF assms(1,3)]])
    fix s0 :: qsys assume s0: "section_begin c (kern s0)" "queue_of s0 = queue_of s" "tcb (kern s0) = tcb (kern s)"
    note w0 = waiters_wf_tcb [OF s0(3)]
    show "ensures (bindE (send_body c q item pos s0) (\<lambda>(ok, s1). Inr (if ok then Some True else None, s1)))
        (\<lambda>(r, s1). (\<exists>x. r = Some x \<and> (x \<and> sent q pos item (queue_of s) (queue_of s1))) \<and>
          wakes (2 * q + 1) (kern s0) (kern s1) \<and> section_end c (kern s1))"
      by (rule ensures_bind [OF send_body_ok [of c s0 q pos item]]) (use s0(1,2) w0 assms in \<open>auto simp del: One_nat_def\<close>)
  qed
  then show ?thesis by (rule ensures_mono) auto
qed

lemma xQueueReceive_ok:
  assumes "stable (kern s)" "waiters_wf (kern s)" "c < configNUMBER_OF_CORES" "queue_wf (queue_of s q)"
    "items (queue_of s q) \<noteq> []"
  shows "ensures (xQueueReceive c q v s) (\<lambda>(r, s'). (\<exists>item. r = Returned (Some item) \<and>
    received q item (queue_of s) (queue_of s')) \<and> wakes (2 * q) (kern s) (kern s') \<and> stable (kern s'))"
proof -
  have n: "uxMessagesWaiting (queue_of s q) > 0" using assms(5) length_items [of "queue_of s q"] by (cases "items (queue_of s q)") auto
  have "ensures (xQueueReceive c q v s) (\<lambda>(r, s').
      (\<exists>x. r = Returned x \<and> (\<exists>item. x = Some item \<and> received q item (queue_of s) (queue_of s'))) \<and>
      wakes (2 * q) (kern s) (kern s') \<and> stable (kern s'))"
    unfolding xQueueReceive_def
  proof (rule blocking_round_returns [OF assms(1,3) sectional_wakes [OF assms(1,3)]])
    fix s0 :: qsys assume s0: "section_begin c (kern s0)" "queue_of s0 = queue_of s" "tcb (kern s0) = tcb (kern s)"
    note w0 = waiters_wf_tcb [OF s0(3)]
    show "ensures (bindE (receive_body c q s0) (\<lambda>(r, s1). Inr (map_option Some r, s1)))
        (\<lambda>(r, s1). (\<exists>x. r = Some x \<and> (\<exists>item. x = Some item \<and> received q item (queue_of s) (queue_of s1))) \<and>
          wakes (2 * q) (kern s0) (kern s1) \<and> section_end c (kern s1))"
      by (rule ensures_bind [OF receive_body_ok [of c s0 q]]) (use s0(1,2) w0 assms(2-4) n in auto)
  qed
  then show ?thesis by (rule ensures_mono) auto
qed

text \<open>What a call does that found the queue full or empty: it fails if its time is up, and waits otherwise.\<close>

definition failed_or_blocked :: "nat \<Rightarrow> nat \<Rightarrow> 'r \<Rightarrow> waiting \<Rightarrow> qsys \<Rightarrow> 'r round \<Rightarrow> qsys \<Rightarrow> bool" where
  "failed_or_blocked c m fails v s r s' \<longleftrightarrow> queue_of s' = queue_of s \<and> stable (kern s') \<and>
     (let (expired, tmo, n) = check_timeout (kern s) (entry_time v (kern s)) (xTicksToWait v) in
      if xTicksToWait v = 0 \<or> expired then r = Returned fails \<and> unmoved (kern s) (kern s')
      else r = Again (v\<lparr>xTimeOut := Some tmo, xTicksToWait := n, xInheritanceOccurred := False\<rparr>) \<and>
        blocked c m n (kern s) (kern s'))"

lemma blocking_call_waits:
  assumes st: "stable (kern s)" and w: "waiters_wf (kern s)" and cl: "caller c (kern s)" and wf: "queue_wf (queue_of s q)"
    and body: "\<And>s0. queue_of s0 = queue_of s \<Longrightarrow> body s0 = Inr (None, s0)"
    and still: "still (lock (queue_of s q))"
    and before: "\<And>s0. queue_of s0 q = lock (queue_of s q) \<Longrightarrow> before s0 = Inr (False, s0)"
    and late: "\<And>v' s0. queue_of s0 = queue_of s \<Longrightarrow> xInheritanceOccurred v' = xInheritanceOccurred v \<Longrightarrow>
      late v' s0 = Inr (Returned fails, s0)"
  shows "ensures (blocking_round c body fails (\<lambda>tmo. wait_round c q (EventL m) still before late tmo v) v s)
    (\<lambda>(r, s'). failed_or_blocked c m fails v s r s')"
proof -
  let ?s = "upd_kern (kick c) s" and ?t = "entry_time v (kern s)"
  have c: "c < configNUMBER_OF_CORES" using cl by (simp add: caller_def)
  obtain ex tmo n where time: "check_timeout (kern s) ?t (xTicksToWait v) = (ex, tmo, n)" by (metis prod_cases3)
  have stk: "stable (kern ?s)" using stable_kick [OF st] by simp
  have clk: "caller c (kern ?s)" using cl by (simp add: caller_def runs_def idle_task_def)
  have um: "unmoved (kern s) (kick c (kern s))" by (rule unmoved_yields) simp
  let ?w = "\<lambda>tmo. wait_round c q (EventL m) still before late tmo v"
  have eq: "blocking_round c body fails ?w v s =
      (if xTicksToWait v = 0 then Inr (Returned fails, ?s) else ?w ?t ?s)"
    by (rule blocking_round_fails [OF st c]) (rule body)
  consider "xTicksToWait v = 0" | "xTicksToWait v \<noteq> 0" ex | "xTicksToWait v \<noteq> 0" "\<not> ex" by blast
  then show ?thesis
  proof cases
    case 1
    then show ?thesis unfolding eq using stk um by (simp add: failed_or_blocked_def time)
  next
    case 2
    have "wait_round c q (EventL m) still before late ?t v ?s =
        Inr (Returned fails, upd_kern (kick c) ?s)"
      using wait_round_returns [OF stk clk, of q ?t v ex tmo n still "EventL m" before late] queue_wf_unlocked [OF wf] time 2 late
      by (simp add: Let_def)
    then show ?thesis unfolding eq using 2 stk um by (simp add: failed_or_blocked_def time)
  next
    case 3
    have h: "stable (kick c (kern s))" "waiters_wf (kick c (kern s))" "on_ready c (kick c (kern s))"
      "\<not> idle_task (kick c (kern s)) (cur (kick c (kern s)) c)"
      using stk clk w by (simp_all add: caller_def waiters_wf_def runs_on_ready)
    have "upd_kern (\<lambda>_. (kick c (kern s))\<lparr>uxSchedulerSuspended := 1\<rparr>) (waiting_state c q ?s) = waiting_state c q ?s"
      by (simp add: waiting_state_def upd_kern_def upd_queue_def)
    moreover have "queue_of (waiting_state c q ?s) q = lock (queue_of s q)" by simp
    ultimately have "ensures (wait_round c q (EventL m) still before late ?t v ?s) (\<lambda>(r, s').
        r = Again (v\<lparr>xTimeOut := Some tmo, xTicksToWait := n, xInheritanceOccurred := False\<rparr>) \<and> queue_of s' = queue_of ?s \<and>
        blocked c m n (kick c (kern s)) (kern s') \<and> stable (kern s'))"
      by (intro wait_round_blocks [OF stk clk _ _ _ _ _ h])
        (use queue_wf_unlocked [OF wf] still time 3 check_timeout_pos before in simp_all)
    then show ?thesis unfolding eq using 3 by (auto simp: failed_or_blocked_def time blocked_kick elim!: ensures_mono)
  qed
qed

lemma xQueueGenericSend_full:
  assumes "stable (kern s)" "waiters_wf (kern s)" "caller c (kern s)" "queue_wf (queue_of s q)"
    "length (items (queue_of s q)) = uxLength (queue_of s q)" "pos \<noteq> queueOVERWRITE"
  shows "ensures (xQueueGenericSend c q item pos v s) (\<lambda>(r, s'). failed_or_blocked c (2 * q) False v s r s')"
  unfolding xQueueGenericSend_def xTasksWaitingToSend_def
  by (rule blocking_call_waits [OF assms(1-4)])
    (use assms(5,6) in \<open>simp_all add: send_body_full prvIsQueueFull_def lock_def\<close>)

lemma xQueueReceive_empty:
  assumes "stable (kern s)" "waiters_wf (kern s)" "caller c (kern s)" "queue_wf (queue_of s q)" "items (queue_of s q) = []"
  shows "ensures (xQueueReceive c q v s) (\<lambda>(r, s'). failed_or_blocked c (2 * q + 1) None v s r s')"
proof -
  have n: "uxMessagesWaiting (queue_of s q) = 0" using assms(5) length_items [of "queue_of s q"] by simp
  show ?thesis unfolding xQueueReceive_def xTasksWaitingToReceive_def
    by (rule blocking_call_waits [OF assms(1-4)])
      (use n in \<open>simp_all add: receive_body_empty prvIsQueueEmpty_def lock_def late_empty_def\<close>)
qed

text \<open>A counting semaphore is a queue of empty messages: taking it is receiving one.\<close>

lemma take_body_receive:
  assumes "queue_wf (queue_of s q)" "uxItemSize (queue_of s q) = 0"
  shows "take_body c q s = bindE (receive_body c q s) (\<lambda>(r, s1). Inr (r \<noteq> None, s1))"
proof -
  have h: "pcHead (queue_of s q) \<noteq> HeadNull" using assms by (simp add: queue_wf_def)
  have "upd_queue q (\<lambda>x. x\<lparr>uxMessagesWaiting := n\<rparr>) s = upd_queue q (\<lambda>_. (queue_of s q)\<lparr>uxMessagesWaiting := n\<rparr>) s" for n
    by (simp add: upd_queue_def)
  then show ?thesis using assms(2) h
    by (simp add: take_body_def receive_body_def prvCopyDataFromQueue_def Let_def bindE_assoc)
qed

lemma xQueueSemaphoreTake_ok:
  assumes "stable (kern s)" "waiters_wf (kern s)" "c < configNUMBER_OF_CORES" "queue_wf (queue_of s q)"
    "uxItemSize (queue_of s q) = 0" "items (queue_of s q) \<noteq> []"
  shows "ensures (xQueueSemaphoreTake c q v s) (\<lambda>(r, s'). r = Returned True \<and>
    (\<exists>item. received q item (queue_of s) (queue_of s')) \<and> wakes (2 * q) (kern s) (kern s') \<and> stable (kern s'))"
proof -
  have n: "uxMessagesWaiting (queue_of s q) > 0" using assms(6) length_items [of "queue_of s q"] by (cases "items (queue_of s q)") auto
  have "ensures (xQueueSemaphoreTake c q v s) (\<lambda>(r, s').
      (\<exists>x. r = Returned x \<and> (x \<and> (\<exists>item. received q item (queue_of s) (queue_of s')))) \<and>
      wakes (2 * q) (kern s) (kern s') \<and> stable (kern s'))"
    unfolding xQueueSemaphoreTake_def
  proof (rule blocking_round_returns [OF assms(1,3) sectional_wakes [OF assms(1,3)]])
    fix s0 :: qsys assume s0: "section_begin c (kern s0)" "queue_of s0 = queue_of s" "tcb (kern s0) = tcb (kern s)"
    note w0 = waiters_wf_tcb [OF s0(3)]
    have tb: "take_body c q s0 = bindE (receive_body c q s0) (\<lambda>(r, s1). Inr (r \<noteq> None, s1))"
      by (rule take_body_receive) (use s0(2) assms(4,5) in simp_all)
    have "ensures (take_body c q s0) (\<lambda>(r, s1). (r \<and> (\<exists>item. received q item (queue_of s) (queue_of s1))) \<and>
        wakes (2 * q) (kern s0) (kern s1) \<and> section_end c (kern s1))"
      unfolding tb by (rule ensures_bind [OF receive_body_ok [of c s0 q]]) (use s0(1,2) w0 assms(2-4) n in auto)
    then show "ensures (bindE (take_body c q s0) (\<lambda>(ok, s1). Inr (if ok then Some True else None, s1)))
        (\<lambda>(r, s1). (\<exists>x. r = Some x \<and> (x \<and> (\<exists>item. received q item (queue_of s) (queue_of s1)))) \<and>
          wakes (2 * q) (kern s0) (kern s1) \<and> section_end c (kern s1))"
      by (rule ensures_bind) auto
  qed
  then show ?thesis by (rule ensures_mono) auto
qed

lemma xQueueSemaphoreTake_empty:
  assumes "stable (kern s)" "waiters_wf (kern s)" "caller c (kern s)" "queue_wf (queue_of s q)"
    "uxItemSize (queue_of s q) = 0" "items (queue_of s q) = []" "\<not> xInheritanceOccurred v"
  shows "ensures (xQueueSemaphoreTake c q v s) (\<lambda>(r, s'). failed_or_blocked c (2 * q + 1) False v s r s')"
proof -
  have n: "uxMessagesWaiting (queue_of s q) = 0" using assms(6) length_items [of "queue_of s q"] by simp
  have h: "pcHead (queue_of s q) \<noteq> HeadNull" using assms(4,5) by (simp add: queue_wf_def)
  show ?thesis unfolding xQueueSemaphoreTake_def xTasksWaitingToReceive_def
    by (rule blocking_call_waits [OF assms(1-4)])
      (use n h assms(7) in \<open>simp_all add: take_body_def prvIsQueueEmpty_def lock_def take_late_def inherit_if_mutex_def\<close>)
qed

text \<open>Everything a queue call may do keeps the waiting tasks in order.\<close>

lemma blocked_waiters_wf:
  assumes "blocked c m n k k'" "waiters_wf k" "kinv k'"
  shows "waiters_wf k'"
  unfolding waiters_wf_def
proof (intro allI impI)
  fix t assume e: "eventContainer (tcb k' t) \<noteq> None"
  show "stateContainer (tcb k' t) \<in> {Some DelayedL1, Some DelayedL2, Some SuspendedL}"
  proof (cases "t = cur k c")
    case True
    then show ?thesis using assms(1) by (cases "n = portMAX_DELAY") (auto simp: blocked_def remaining_def sleeping_def split: if_splits)
  next
    case False
    then show ?thesis using assms(1,2) e by (simp add: blocked_def waiters_wf_def)
  qed
qed

lemma failed_or_blocked_waiters_wf:
  assumes "failed_or_blocked c m fails v s r s'" "waiters_wf (kern s)"
  shows "waiters_wf (kern s')"
proof -
  have "unmoved (kern s) (kern s') \<or> (\<exists>n. blocked c m n (kern s) (kern s'))" "kinv (kern s')"
    using assms(1) stable_running(2) by (auto simp: failed_or_blocked_def Let_def split: if_splits prod.splits)
  then show ?thesis using assms(2) blocked_waiters_wf unmoved_waiters_wf by blast
qed

end
