(* ===== verification/MutexProps.thy ===== *)
theory MutexProps
  imports QueueProps
begin

text \<open>
  Mutexes: a task that waits for one lends its priority to the holder, and giving the mutex back
  returns the holder to its own priority and wakes the first task that waits.
\<close>

section \<open>A new priority\<close>

text \<open>Task \<open>t\<close> has priority \<open>p\<close>, and is in the ready list of that priority if it was ready; all else is
  as before but for yield requests and mutex counts.\<close>

definition reprio :: "nat \<Rightarrow> nat \<Rightarrow> kernel \<Rightarrow> kernel \<Rightarrow> bool" where
  "reprio t p s s' \<longleftrightarrow> kinv s' \<and> goes_on s s' \<and>
     (\<forall>u. prio s' u = (if u = t then p else prio s u) \<and> uxBasePriority (tcb s' u) = uxBasePriority (tcb s u) \<and>
        uxCoreAffinityMask (tcb s' u) = uxCoreAffinityMask (tcb s u) \<and> xStateListItem (tcb s' u) = xStateListItem (tcb s u) \<and>
        isIdle (tcb s' u) = isIdle (tcb s u) \<and> ucDelayAborted (tcb s' u) = ucDelayAborted (tcb s u) \<and>
        stateContainer (tcb s' u) = (if u = t \<and> stateContainer (tcb s t) = Some (ReadyL (prio s t)) then Some (ReadyL p)
          else stateContainer (tcb s u))) \<and>
     ev_same s s' \<and> pxCurrentTCBs s' = pxCurrentTCBs s \<and> pxDelayedTaskList s' = pxDelayedTaskList s \<and>
     pxOverflowDelayedTaskList s' = pxOverflowDelayedTaskList s \<and>
     uxDeletedTasksWaitingCleanUp s' = uxDeletedTasksWaitingCleanUp s \<and>
     uxCurrentNumberOfTasks s' = uxCurrentNumberOfTasks s \<and> xTickCount s' = xTickCount s \<and>
     xSchedulerRunning s' = xSchedulerRunning s \<and> xPendedTicks s' = xPendedTicks s \<and>
     uxSchedulerSuspended s' = uxSchedulerSuspended s \<and> uxCriticalNestings s' = uxCriticalNestings s \<and>
     xNumOfOverflows s' = xNumOfOverflows s \<and> xIdleTaskHandles s' = xIdleTaskHandles s \<and>
     lists s' TerminationL = lists s TerminationL \<and> lists s' PendingReadyL = lists s PendingReadyL"

lemma reprio_yields:
  assumes "reprio t p s s1" "yields s1 s'"
  shows "reprio t p s s'"
proof -
  have "ucDelayAborted (tcb s' u) = ucDelayAborted (tcb s1 u)" for u using assms(2) by (auto simp: yields_def)
  moreover have "goes_on s s'"
    using assms(1) goes_on_trans [OF _ goes_on_yields [OF _ assms(2)]] by (auto simp: reprio_def)
  moreover have "kinv s'" using assms(1) kinv_yields [OF _ assms(2)] by (simp add: reprio_def)
  moreover have "ev_same s s'" using assms ev_same_trans ev_same_yields by (auto simp: reprio_def)
  ultimately show ?thesis using assms(1) by (simp add: reprio_def yields_same [OF assms(2)])
qed

lemma basic_reprio:
  assumes "basic s" "reprio t p s s'"
  shows "basic s'"
proof -
  have "kinv s" using assms(1) by (simp add: basic_def)
  note dl = kinv_delay_lists [OF this]
  have "ontime s" "addressed s" using assms(1) by (simp_all add: basic_def)
  then have "ontime s'" "addressed s'" using assms(2) dl by (auto simp: ontime_def addressed_def reprio_def)
  then show ?thesis using assms by (simp add: basic_def reprio_def)
qed

lemma waiters_wf_reprio:
  assumes "reprio t p s s'" "waiters_wf s"
  shows "waiters_wf s'"
  using assms unfolding waiters_wf_def reprio_def ev_same_def by auto

text \<open>A task in no ready list may get any priority.\<close>

lemma kinv_prio:
  assumes "kinv s" "\<And>q. stateContainer (tcb s t) \<noteq> Some (ReadyL q)" "p < configMAX_PRIORITIES"
  shows "kinv (upd_tcb t (\<lambda>x. x\<lparr>uxPriority := p\<rparr>) s)"
proof -
  let ?s = "upd_tcb t (\<lambda>x. x\<lparr>uxPriority := p\<rparr>) s"
  have l: "lists ?s = lists s" by (simp add: upd_tcb_def)
  have c: "stateContainer (tcb ?s u) = stateContainer (tcb s u)" "eventContainer (tcb ?s u) = eventContainer (tcb s u)"
    "xStateListItem (tcb ?s u) = xStateListItem (tcb s u)" "runstate ?s u = runstate s u" "isIdle (tcb ?s u) = isIdle (tcb s u)"
    "uxCoreAffinityMask (tcb ?s u) = uxCoreAffinityMask (tcb s u)" "uxBasePriority (tcb ?s u) = uxBasePriority (tcb s u)"
    "prio ?s u = (if u = t then p else prio s u)" for u
    by (simp_all add: upd_tcb_def)
  have f: "pxCurrentTCBs ?s = pxCurrentTCBs s" "pxDelayedTaskList ?s = pxDelayedTaskList s"
    "pxOverflowDelayedTaskList ?s = pxOverflowDelayedTaskList s" "uxTopReadyPriority ?s = uxTopReadyPriority s"
    "xNextTaskUnblockTime ?s = xNextTaskUnblockTime s" "xIdleTaskHandles ?s = xIdleTaskHandles s" "cur ?s = cur s"
    by (simp_all add: upd_tcb_def cur_def fun_eq_iff)
  have out: "t \<notin> set (ready s q)" for q using in_state_list [OF assms(1), of "ReadyL q" t] assms(2) by simp
  have "lists_wf ?s" using assms(1) by (simp add: kinv_def lists_wf_def l c)
  moreover have "prios_wf ?s" using assms(1,3) out by (auto simp: kinv_def prios_wf_def l c f)
  moreover have "delays_wf ?s" using assms(1) by (simp add: kinv_def delays_wf_def l c f)
  moreover have "cores_wf ?s" using assms(1) by (simp add: kinv_def cores_wf_def settled_def may_run_on_def c f)
  moreover have "idle_wf ?s" using assms(1) by (simp add: kinv_def idle_wf_def may_run_on_def l c f)
  ultimately show ?thesis by (simp add: kinv_def)
qed

text \<open>An update of the fields of a task that neither the lists nor the scheduler look at.\<close>

definition light :: "(tcb_rec \<Rightarrow> tcb_rec) \<Rightarrow> bool" where
  "light f \<longleftrightarrow> (\<forall>x. (f x)\<lparr>xEventListItem := 0, uxMutexesHeld := 0\<rparr> = x\<lparr>xEventListItem := 0, uxMutexesHeld := 0\<rparr>)"

lemma light_fields:
  assumes "light f"
  shows "stateContainer (f x) = stateContainer x" "eventContainer (f x) = eventContainer x" "uxPriority (f x) = uxPriority x"
    "uxBasePriority (f x) = uxBasePriority x" "uxCoreAffinityMask (f x) = uxCoreAffinityMask x" "isIdle (f x) = isIdle x"
    "xStateListItem (f x) = xStateListItem x" "ucDelayAborted (f x) = ucDelayAborted x" "xTaskRunState (f x) = xTaskRunState x"
proof -
  have e: "(f x)\<lparr>xEventListItem := 0, uxMutexesHeld := 0\<rparr> = x\<lparr>xEventListItem := 0, uxMutexesHeld := 0\<rparr>"
    using assms by (simp add: light_def)
  show "stateContainer (f x) = stateContainer x" using arg_cong [OF e, of stateContainer] by simp
  show "eventContainer (f x) = eventContainer x" using arg_cong [OF e, of eventContainer] by simp
  show "uxPriority (f x) = uxPriority x" using arg_cong [OF e, of uxPriority] by simp
  show "uxBasePriority (f x) = uxBasePriority x" using arg_cong [OF e, of uxBasePriority] by simp
  show "uxCoreAffinityMask (f x) = uxCoreAffinityMask x" using arg_cong [OF e, of uxCoreAffinityMask] by simp
  show "isIdle (f x) = isIdle x" using arg_cong [OF e, of isIdle] by simp
  show "xStateListItem (f x) = xStateListItem x" using arg_cong [OF e, of xStateListItem] by simp
  show "ucDelayAborted (f x) = ucDelayAborted x" using arg_cong [OF e, of ucDelayAborted] by simp
  show "xTaskRunState (f x) = xTaskRunState x" using arg_cong [OF e, of xTaskRunState] by simp
qed

lemma light_neutral: "light f \<Longrightarrow> neutral f"
  by (simp add: neutral_def light_fields)

lemma light_upd:
  assumes "light f"
  shows "stateContainer (tcb (upd_tcb v f s) u) = stateContainer (tcb s u)" "eventContainer (tcb (upd_tcb v f s) u) = eventContainer (tcb s u)"
    "prio (upd_tcb v f s) u = prio s u" "uxBasePriority (tcb (upd_tcb v f s) u) = uxBasePriority (tcb s u)"
    "uxCoreAffinityMask (tcb (upd_tcb v f s) u) = uxCoreAffinityMask (tcb s u)" "isIdle (tcb (upd_tcb v f s) u) = isIdle (tcb s u)"
    "xStateListItem (tcb (upd_tcb v f s) u) = xStateListItem (tcb s u)" "ucDelayAborted (tcb (upd_tcb v f s) u) = ucDelayAborted (tcb s u)"
    "runstate (upd_tcb v f s) u = runstate s u"
  using light_fields [OF assms] by (simp_all add: upd_tcb_def)

lemma upd_tcb_kernel:
  "pxCurrentTCBs (upd_tcb v f s) = pxCurrentTCBs s" "pxDelayedTaskList (upd_tcb v f s) = pxDelayedTaskList s" "pendsv (upd_tcb v f s) = pendsv s"
  "pxOverflowDelayedTaskList (upd_tcb v f s) = pxOverflowDelayedTaskList s" "uxDeletedTasksWaitingCleanUp (upd_tcb v f s) = uxDeletedTasksWaitingCleanUp s"
  "uxCurrentNumberOfTasks (upd_tcb v f s) = uxCurrentNumberOfTasks s" "xTickCount (upd_tcb v f s) = xTickCount s" "xSchedulerRunning (upd_tcb v f s) = xSchedulerRunning s"
  "xPendedTicks (upd_tcb v f s) = xPendedTicks s" "uxSchedulerSuspended (upd_tcb v f s) = uxSchedulerSuspended s"
  "uxCriticalNestings (upd_tcb v f s) = uxCriticalNestings s" "xNumOfOverflows (upd_tcb v f s) = xNumOfOverflows s"
  "xIdleTaskHandles (upd_tcb v f s) = xIdleTaskHandles s" "lists (upd_tcb v f s) = lists s" "cur (upd_tcb v f s) = cur s"
  by (simp_all add: upd_tcb_def cur_def fun_eq_iff)

lemma reprio_fields:
  assumes "reprio t p (upd_tcb v f s) s'" and "light f"
  shows "reprio t p s s'"
proof -
  have "runs (upd_tcb v f s) = runs s" by (simp add: runs_def light_upd [OF assms(2)] upd_tcb_kernel fun_eq_iff)
  then have "goes_on (upd_tcb v f s) s' = goes_on s s'" by (simp add: goes_on_def upd_tcb_kernel)
  then show ?thesis using assms(1) by (simp add: reprio_def light_upd [OF assms(2)] upd_tcb_kernel ev_same_def)
qed

text \<open>A ready task that changes its priority changes lists; any other only its priority.\<close>

lemma move_ready_ok:
  assumes k: "kinv s" and r: "stateContainer (tcb s t) = Some (ReadyL (prio s t))" and i: "\<not> idle_task s t"
    and p: "p < configMAX_PRIORITIES"
  shows "ensures (bindE (state_remove t s) (\<lambda>s1. prvAddTaskToReadyList t (upd_tcb t (\<lambda>x. x\<lparr>uxPriority := p\<rparr>) s1)))
    (reprio t p s)"
proof -
  have "ensures (state_remove t s) (\<lambda>s1. (kinv s1 \<and> moves t None s s1) \<and> ev_same s s1 \<and> s1 = state_out (ReadyL (prio s t)) t s)"
    by (rule ensures_also [OF state_remove_ok [OF k r i]])
      (use r state_remove_eq [OF r] ev_same_state_remove [OF _ r] in auto)
  then show ?thesis
  proof (rule ensures_bind)
    fix s1 assume s1: "(kinv s1 \<and> moves t None s s1) \<and> ev_same s s1 \<and> s1 = state_out (ReadyL (prio s t)) t s"
    let ?s2 = "upd_tcb t (\<lambda>x. x\<lparr>uxPriority := p\<rparr>) s1"
    have n: "stateContainer (tcb s1 t) = None" using s1 moves_container by auto
    have k1: "kinv s1" and m1: "moves t None s s1" and e1: "ev_same s s1" and q1: "s1 = state_out (ReadyL (prio s t)) t s"
      using s1 by blast+
    have k2: "kinv ?s2" by (rule kinv_prio [OF k1]) (use n p in simp_all)
    have "settled s t" by (rule kinv_settled [OF k]) (simp add: r)
    then have n2: "stateContainer (tcb ?s2 t) = None" "settled ?s2 t"
      using n moves_settled [OF m1, of t] by (simp_all add: upd_tcb_def settled_def cur_def)
    have e2: "ev_same s ?s2" using e1 by (auto simp: ev_same_def upd_tcb_def)
    have d: "ucDelayAborted (tcb s3 u) = ucDelayAborted (tcb s1 u)" if "prvAddTaskToReadyList t ?s2 = Inr s3" for s3 u
      using that by (auto simp: prvAddTaskToReadyList_def state_insert_end_def prim_defs Let_def split: if_splits)
    have d1: "ucDelayAborted (tcb s1 u) = ucDelayAborted (tcb s u)" for u by (simp add: q1 state_out_def prim_defs)
    have pr: "lists s3 PendingReadyL = lists s PendingReadyL" if "prvAddTaskToReadyList t ?s2 = Inr s3" for s3
      using that unfolding q1 by (auto simp: prvAddTaskToReadyList_def state_insert_end_def state_out_def prim_defs Let_def split: if_splits)
    show "ensures (prvAddTaskToReadyList t ?s2) (reprio t p s)"
    proof (rule ensures_mono [OF ensures_also [OF prvAddTaskToReadyList_ok [OF k2 n2]]])
      show "ev_same s s3 \<and> (\<forall>u. ucDelayAborted (tcb s3 u) = ucDelayAborted (tcb s u)) \<and> lists s3 PendingReadyL = lists s PendingReadyL"
        if "prvAddTaskToReadyList t ?s2 = Inr s3" for s3
        using ev_same_trans [OF e2 ev_same_add_ready [OF that]] d [OF that] d1 pr [OF that] by simp
      fix s3 assume s3: "(kinv s3 \<and> moves t (Some (ReadyL (prio ?s2 t))) ?s2 s3 \<and> prio ?s2 t \<le> uxTopReadyPriority s3) \<and>
        ev_same s s3 \<and> (\<forall>u. ucDelayAborted (tcb s3 u) = ucDelayAborted (tcb s u)) \<and> lists s3 PendingReadyL = lists s PendingReadyL"
      have f: "prio ?s2 u = (if u = t then p else prio s1 u)" "runstate ?s2 u = runstate s1 u"
        "stateContainer (tcb ?s2 u) = stateContainer (tcb s1 u)" "uxBasePriority (tcb ?s2 u) = uxBasePriority (tcb s1 u)"
        "uxCoreAffinityMask (tcb ?s2 u) = uxCoreAffinityMask (tcb s1 u)" "xStateListItem (tcb ?s2 u) = xStateListItem (tcb s1 u)"
        "isIdle (tcb ?s2 u) = isIdle (tcb s1 u)" "lists ?s2 = lists s1" for u
        by (simp_all add: upd_tcb_def)
      have fk: "pxCurrentTCBs ?s2 = pxCurrentTCBs s1" "pxDelayedTaskList ?s2 = pxDelayedTaskList s1" "pendsv ?s2 = pendsv s1"
        "pxOverflowDelayedTaskList ?s2 = pxOverflowDelayedTaskList s1" "uxDeletedTasksWaitingCleanUp ?s2 = uxDeletedTasksWaitingCleanUp s1"
        "uxCurrentNumberOfTasks ?s2 = uxCurrentNumberOfTasks s1" "xTickCount ?s2 = xTickCount s1" "xSchedulerRunning ?s2 = xSchedulerRunning s1"
        "xPendedTicks ?s2 = xPendedTicks s1" "uxSchedulerSuspended ?s2 = uxSchedulerSuspended s1"
        "uxCriticalNestings ?s2 = uxCriticalNestings s1" "xNumOfOverflows ?s2 = xNumOfOverflows s1" "xIdleTaskHandles ?s2 = xIdleTaskHandles s1"
        by (simp_all add: upd_tcb_def)
      have same: "\<forall>u. prio s3 u = (if u = t then p else prio s u) \<and> runstate s3 u = runstate s u \<and>
          stateContainer (tcb s3 u) = (if u = t then Some (ReadyL p) else stateContainer (tcb s u))"
        "cur s3 = cur s" "pendsv s3 = pendsv s"
        using m1 s3 by (simp_all add: moves_def quiet_def f fk cur_def fun_eq_iff)
      have "goes_on s s3" using same r by (auto simp: goes_on_def runs_def)
      then show "reprio t p s s3" using m1 s3 r by (simp add: reprio_def moves_def quiet_def f fk)
    qed
  qed
qed

lemma set_prio_ok:
  assumes "kinv s" "\<And>q. stateContainer (tcb s t) \<noteq> Some (ReadyL q)" "p < configMAX_PRIORITIES"
  shows "reprio t p s (upd_tcb t (\<lambda>x. x\<lparr>uxPriority := p\<rparr>) s)"
proof -
  have "goes_on s (upd_tcb t (\<lambda>x. x\<lparr>uxPriority := p\<rparr>) s)"
    using assms(2) by (auto simp: goes_on_def runs_def upd_tcb_def cur_def)
  then show ?thesis using kinv_prio [OF assms] assms(2) by (simp add: reprio_def ev_same_def) (simp add: upd_tcb_def)
qed

lemma reprio_refl: "kinv s \<Longrightarrow> reprio t (prio s t) s s"
  by (simp add: reprio_def)

section \<open>Inheritance\<close>

lemma xTaskPriorityInherit_ok:
  assumes k: "kinv s" and c: "c < configNUMBER_OF_CORES" and i: "\<not> idle_task s t" and lower: "prio s t < prio s (cur s c)"
  shows "ensures (xTaskPriorityInherit c (Some t) s) (\<lambda>(b, s'). b \<and> reprio t (prio s (cur s c)) s s')"
proof -
  let ?p = "prio s (cur s c)"
  define s1 where "s1 = set_event_value t ?p s"
  obtain f where f: "s1 = upd_tcb t f s" "light f"
  proof (cases "and (xEventListItem (tcb s t)) taskEVENT_LIST_ITEM_VALUE_IN_USE = 0")
    case True
    show thesis by (rule that [of "\<lambda>x. x\<lparr>xEventListItem := of_nat configMAX_PRIORITIES - of_nat ?p\<rparr>"])
      (use True in \<open>simp_all add: s1_def set_event_value_def light_def\<close>)
  next
    case False
    have "upd_tcb t (\<lambda>x. x) s = s" by (simp add: upd_tcb_def)
    then show thesis by (intro that [of "\<lambda>x. x"]) (use False in \<open>simp_all add: s1_def set_event_value_def light_def\<close>)
  qed
  note g = light_neutral [OF f(2)]
  have k1: "kinv s1" unfolding f(1) by (rule kinv_neutral [OF k g])
  have s1: "stateContainer (tcb s1 t) = stateContainer (tcb s t)" "prio s1 t = prio s t" "prio s1 (cur s c) = ?p"
    "idle_task s1 = idle_task s" "cur s1 = cur s"
    using g by (auto simp: f(1) upd_tcb_def neutral_def idle_task_def cur_def fun_eq_iff)
  have p: "?p < configMAX_PRIORITIES" using k by (simp add: kinv_def prios_wf_def)
  show ?thesis
  proof (cases "stateContainer (tcb s1 t) = Some (ReadyL (prio s1 t))")
    case True
    have "ensures (bindE (state_remove t s1) (\<lambda>s2. prvAddTaskToReadyList t (upd_tcb t (\<lambda>x. x\<lparr>uxPriority := ?p\<rparr>) s2))) (reprio t ?p s1)"
      by (rule move_ready_ok [OF k1 True _ p]) (use i s1 in simp)
    moreover have "prio s2 (cur s c) = ?p" if "state_remove t s1 = Inr s2" for s2
      using that True s1(3) by (auto simp: state_remove_def prim_defs)
    ultimately have mv: "ensures (bindE (state_remove t s1) (\<lambda>s2. prvAddTaskToReadyList t (upd_tcb t (\<lambda>x. x\<lparr>uxPriority := prio s2 (cur s c)\<rparr>) s2)))
        (reprio t ?p s1)"
      by (cases "state_remove t s1") auto
    have "ensures (if \<not> taskTASK_IS_RUNNING t s3 then bindE (prvYieldForTask c t s3) (\<lambda>s4. Inr (True, s4)) else Inr (True, s3))
        (\<lambda>(b, s'). b \<and> reprio t ?p s s')" if "reprio t ?p s1 s3" for s3
    proof -
      have r: "reprio t ?p s s3" using reprio_fields [OF _ f(2), of t ?p t s s3] that by (simp add: f(1))
      then have "kinv s3" by (simp add: reprio_def)
      then have "ensures (prvYieldForTask c t s3) (reprio t ?p s)"
        by (rule ensures_mono [OF prvYieldForTask_ok]) (rule reprio_yields [OF r])
      then show ?thesis using r by (auto intro: ensures_bind)
    qed
    then have "ensures (bindE (state_remove t s1) (\<lambda>s2. bindE (prvAddTaskToReadyList t (upd_tcb t (\<lambda>x. x\<lparr>uxPriority := prio s2 (cur s c)\<rparr>) s2))
        (\<lambda>s3. if \<not> taskTASK_IS_RUNNING t s3 then bindE (prvYieldForTask c t s3) (\<lambda>s4. Inr (True, s4)) else Inr (True, s3))))
      (\<lambda>(b, s'). b \<and> reprio t ?p s s')"
      unfolding bindE_assoc [symmetric] by (rule ensures_bind [OF mv])
    then show ?thesis using True lower
      by (simp add: xTaskPriorityInherit_def current_eq [OF k c] s1_def [symmetric] Let_def)
  next
    case False
    have "\<forall>q. \<forall>u \<in> set (ready s1 q). prio s1 u = q" using k1 by (simp add: kinv_def prios_wf_def)
    then have "\<And>q. stateContainer (tcb s1 t) \<noteq> Some (ReadyL q)"
      using False in_state_list [OF k1, of "ReadyL _" t] by fastforce
    from set_prio_ok [OF k1 this p] have "reprio t ?p s (upd_tcb t (\<lambda>x. x\<lparr>uxPriority := ?p\<rparr>) s1)"
      using reprio_fields [OF _ f(2)] by (simp add: f(1))
    then show ?thesis using False lower s1(3)
      by (simp add: xTaskPriorityInherit_def current_eq [OF k c] s1_def [symmetric] Let_def)
  qed
qed

lemma xTaskPriorityInherit_none:
  "kinv s \<Longrightarrow> c < configNUMBER_OF_CORES \<Longrightarrow> \<not> prio s t < prio s (cur s c) \<Longrightarrow>
    xTaskPriorityInherit c (Some t) s = Inr (uxBasePriority (tcb s t) < prio s (cur s c), s)"
  by (simp add: xTaskPriorityInherit_def current_eq)

section \<open>Disinheritance\<close>

text \<open>The priority a holder has once it has given one mutex back.\<close>

definition returned_prio :: "kernel \<Rightarrow> nat \<Rightarrow> nat" where
  "returned_prio s t = (if uxMutexesHeld (tcb s t) = 1 then uxBasePriority (tcb s t) else prio s t)"

lemma state_remove_event_item:
  "bindE (state_remove t s) (\<lambda>s1. f (upd_tcb t (\<lambda>x. x\<lparr>xEventListItem := v\<rparr>) s1)) =
   bindE (state_remove t (upd_tcb t (\<lambda>x. x\<lparr>xEventListItem := v\<rparr>) s)) f"
proof -
  have c: "x\<lparr>stateContainer := None, xEventListItem := v\<rparr> = x\<lparr>xEventListItem := v, stateContainer := None\<rparr>" for x :: tcb_rec
    by simp
  show ?thesis
  proof (cases "stateContainer (tcb s t)")
    case (Some L)
    then show ?thesis by (simp add: state_remove_def upd_tcb_def set_list_def follow_def) (simp only: c)
  qed (simp add: state_remove_def upd_tcb_def set_list_def follow_def)
qed

lemma xTaskPriorityDisinherit_ok:
  assumes k: "kinv s" and c: "c < configNUMBER_OF_CORES" and i: "\<not> idle_task s t"
    and r: "stateContainer (tcb s t) = Some (ReadyL (prio s t))"
    and h: "0 < uxMutexesHeld (tcb s t)" "uxMutexesHeld (tcb s t) < 2 ^ 32"
  shows "ensures (xTaskPriorityDisinherit c (Some t) s) (\<lambda>(b, s'). reprio t (returned_prio s t) s s')"
proof -
  let ?held = "\<lambda>x. x\<lparr>uxMutexesHeld := dec32 (uxMutexesHeld x)\<rparr>"
  define s0 where "s0 = upd_tcb t ?held s"
  have f: "light ?held" by (simp add: light_def)
  have dec: "dec32 (uxMutexesHeld (tcb s t)) = uxMutexesHeld (tcb s t) - 1"
    using h dec32_Suc [of "uxMutexesHeld (tcb s t) - 1"] by simp
  have k0: "kinv s0" unfolding s0_def by (rule kinv_neutral [OF k]) (simp add: neutral_def)
  have t0: "prio s0 t = prio s t" "uxBasePriority (tcb s0 t) = uxBasePriority (tcb s t)" "uxMutexesHeld (tcb s0 t) = uxMutexesHeld (tcb s t) - 1"
    by (simp_all add: s0_def upd_tcb_def dec)
  show ?thesis
  proof (cases "prio s0 t \<noteq> uxBasePriority (tcb s0 t) \<and> uxMutexesHeld (tcb s0 t) = 0")
    case False
    then have e: "returned_prio s t = prio s0 t" using h t0 by (auto simp: returned_prio_def)
    have "reprio t (prio s0 t) s s0"
      using reprio_fields [OF _ f, of t "prio s0 t" t s s0] reprio_refl [OF k0, of t] by (simp add: s0_def)
    then show ?thesis
      unfolding xTaskPriorityDisinherit_def option.case Let_def s0_def [symmetric] if_not_P [OF False] e by simp
  next
    case True
    let ?p = "uxBasePriority (tcb s t)" and ?v = "of_nat configMAX_PRIORITIES - of_nat (uxBasePriority (tcb s t)) :: u32"
    have e: "returned_prio s t = ?p" using True h t0 by (simp add: returned_prio_def)
    define s1 where "s1 = upd_tcb t (\<lambda>x. x\<lparr>xEventListItem := ?v\<rparr>) s0"
    have s1: "s1 = upd_tcb t (\<lambda>x. x\<lparr>uxMutexesHeld := dec32 (uxMutexesHeld x), xEventListItem := ?v\<rparr>) s"
      by (simp add: s1_def s0_def upd_tcb_def)
    have k1: "kinv s1" unfolding s1 by (rule kinv_neutral [OF k]) (simp add: neutral_def)
    have c1: "stateContainer (tcb s1 t) = Some (ReadyL (prio s1 t))" "\<not> idle_task s1 t"
      using r i by (simp_all add: s1 upd_tcb_def idle_task_def)
    have p: "?p < configMAX_PRIORITIES" using k by (simp add: kinv_def prios_wf_def)
    have mv: "ensures (bindE (state_remove t s1) (\<lambda>s2. prvAddTaskToReadyList t (upd_tcb t (\<lambda>x. x\<lparr>uxPriority := ?p\<rparr>) s2))) (reprio t ?p s)"
      using move_ready_ok [OF k1 c1 p] by (rule ensures_mono) (unfold s1, erule reprio_fields, simp add: light_def)
    have "bindE (state_remove t s0) (\<lambda>s2.
        prvAddTaskToReadyList t (upd_tcb t (\<lambda>x. x\<lparr>xEventListItem := of_nat configMAX_PRIORITIES - of_nat (uxPriority x)\<rparr>)
          (upd_tcb t (\<lambda>x. x\<lparr>uxPriority := uxBasePriority x\<rparr>) s2))) =
      bindE (state_remove t s1) (\<lambda>s2. prvAddTaskToReadyList t (upd_tcb t (\<lambda>x. x\<lparr>uxPriority := ?p\<rparr>) s2))"
    proof -
      have "prvAddTaskToReadyList t (upd_tcb t (\<lambda>x. x\<lparr>xEventListItem := of_nat configMAX_PRIORITIES - of_nat (uxPriority x)\<rparr>)
          (upd_tcb t (\<lambda>x. x\<lparr>uxPriority := uxBasePriority x\<rparr>) s2)) =
        prvAddTaskToReadyList t (upd_tcb t (\<lambda>x. x\<lparr>uxPriority := ?p\<rparr>) (upd_tcb t (\<lambda>x. x\<lparr>xEventListItem := ?v\<rparr>) s2))"
        if "state_remove t s0 = Inr s2" for s2
      proof -
        have b: "uxBasePriority (tcb s2 t) = ?p" using that r by (auto simp: state_remove_def s0_def prim_defs)
        have comm: "x\<lparr>uxPriority := v, xEventListItem := w\<rparr> = x\<lparr>xEventListItem := w, uxPriority := v\<rparr>" for x :: tcb_rec and v w
          by simp
        show ?thesis by (simp add: upd_tcb_def b) (simp only: comm)
      qed
      then show ?thesis unfolding s1_def state_remove_event_item [of t s0 "\<lambda>s2. prvAddTaskToReadyList t (upd_tcb t (\<lambda>x. x\<lparr>uxPriority := ?p\<rparr>) s2)" ?v, symmetric]
        by (cases "state_remove t s0") simp_all
    qed
    note mv0 = mv [folded this]
    have "ensures (if taskTASK_IS_RUNNING t s4 then bindE (prvYieldCore c (nat (runstate s4 t)) s4) (\<lambda>s5. Inr (True, s5)) else Inr (True, s4))
        (\<lambda>(b, s'). reprio t ?p s s')" if r4: "reprio t ?p s s4" for s4
    proof (cases "taskTASK_IS_RUNNING t s4")
      case run: True
      have k4: "kinv s4" and "stateContainer (tcb s4 t) \<noteq> None" using r4 r by (simp_all add: reprio_def)
      then obtain x where x: "x < configNUMBER_OF_CORES" "runstate s4 t = int x"
        using runs_somewhere [OF k4 run kinv_settled [OF k4]] by blast
      have "ensures (prvYieldCore c x s4) (reprio t ?p s)"
        by (rule ensures_mono [OF prvYieldCore_ok [OF k4 x(1)]]) (use reprio_yields [OF r4] in blast)
      then show ?thesis using run x(2) by (auto intro: ensures_bind)
    qed (use r4 in simp)
    then have "ensures (bindE (bindE (state_remove t s0) (\<lambda>s2.
        prvAddTaskToReadyList t (upd_tcb t (\<lambda>x. x\<lparr>xEventListItem := of_nat configMAX_PRIORITIES - of_nat (uxPriority x)\<rparr>)
          (upd_tcb t (\<lambda>x. x\<lparr>uxPriority := uxBasePriority x\<rparr>) s2))))
        (\<lambda>s4. if taskTASK_IS_RUNNING t s4 then bindE (prvYieldCore c (nat (runstate s4 t)) s4) (\<lambda>s5. Inr (True, s5)) else Inr (True, s4)))
      (\<lambda>(b, s'). reprio t ?p s s')" by (rule ensures_bind [OF mv0])
    then show ?thesis
      unfolding xTaskPriorityDisinherit_def option.case Let_def s0_def [symmetric] if_P [OF True] e bindE_assoc .
  qed
qed

section \<open>Mutexes\<close>

definition mutex_wf :: "queue \<Rightarrow> bool" where
  "mutex_wf x \<longleftrightarrow> uxItemSize x = 0 \<and> pcHead x = HeadNull \<and> uxLength x = 1 \<and> unlocked x \<and> pxQueueSetContainer x = None \<and>
     uxMessagesWaiting x = (if xMutexHolder x = None then 1 else 0)"

text \<open>The relation of a priority change carried through critical sections and the suspended scheduler.\<close>

lemma goes_on_fields [simp]:
  "goes_on (s\<lparr>uxSchedulerSuspended := a\<rparr>) (s'\<lparr>uxSchedulerSuspended := a\<rparr>) = goes_on s s'"
  "goes_on (set_nesting c n s) (set_nesting c n s') = goes_on s s'"
  by (simp_all add: goes_on_def runs_def cur_def set_nesting_def)

lemma reprio_fields2:
  assumes "reprio t p s s'"
  shows "reprio t p (s\<lparr>uxSchedulerSuspended := a\<rparr>) (s'\<lparr>uxSchedulerSuspended := a\<rparr>)"
    "reprio t p (set_nesting c n s) (set_nesting c n s')"
proof -
  have "goes_on s s'" "kinv s'" using assms by (simp_all add: reprio_def)
  then show "reprio t p (s\<lparr>uxSchedulerSuspended := a\<rparr>) (s'\<lparr>uxSchedulerSuspended := a\<rparr>)"
    "reprio t p (set_nesting c n s) (set_nesting c n s')"
    using assms unfolding reprio_def goes_on_fields by (simp_all add: ev_same_def) (simp_all add: set_nesting_def)
qed

lemma reprio_kick:
  assumes "reprio t p (kick c s) s'" "kinv s"
  shows "reprio t p s s'"
proof -
  have "goes_on (kick c s) s'" using assms(1) by (simp add: reprio_def)
  then have "goes_on s s'" by (rule goes_on_trans [OF goes_on_yields [OF assms(2) yields_kick]])
  then show ?thesis using assms(1) by (simp add: reprio_def ev_same_def)
qed

lemma set_nesting_id: "uxCriticalNestings s c = 0 \<Longrightarrow> set_nesting c 0 (set_nesting c n s) = s"
  by (simp add: set_nesting_def) (metis fun_upd_triv kernel.surjective kernel.update_convs(18))

text \<open>A waiting task's priority is lent to the holder while the scheduler is suspended.\<close>

lemma inherit_waiting:
  assumes st: "stable (kern s)" and w: "waiters_wf (kern s)" and cl: "caller c (kern s)"
    and mx: "pcHead (queue_of s q) = HeadNull" "xMutexHolder (queue_of s q) = Some t" and i: "\<not> idle_task (kern s) t"
  defines "p \<equiv> max (prio (kern s) t) (prio (kern s) (cur (kern s) c))"
  shows "\<exists>b h. inherit_if_mutex c q old (waiting_state c q s) =
      Inr (b, upd_kern (\<lambda>_. h\<lparr>uxSchedulerSuspended := 1\<rparr>) (waiting_state c q s)) \<and>
    (prio (kern s) t < p \<longrightarrow> b) \<and> reprio t p (kern s) h \<and> stable h \<and> waiters_wf h \<and> on_ready c h \<and> \<not> idle_task h (cur h c)"
proof -
  let ?k = "kick c (kern s)" and ?w = "(kick c (kern s))\<lparr>uxSchedulerSuspended := 1\<rparr>" and ?s = "waiting_state c q s"
  have c: "c < configNUMBER_OF_CORES" using cl by (simp add: caller_def)
  have stk: "stable ?k" by (rule stable_kick [OF st])
  note run = stable_running [OF stk]
  have n0: "uxCriticalNestings ?w c = 0" and r0: "xSchedulerRunning ?w" using run(1) run(3) [OF c] by simp_all
  have e: "vTaskEnterCritical c ?w = set_nesting c 1 ?w" by (rule enter_eq [OF r0 n0])
  have k1: "kinv (set_nesting c 1 ?w)" using run(2) by simp
  have same: "prio (set_nesting c 1 ?w) u = prio (kern s) u" "cur (set_nesting c 1 ?w) = cur (kern s)"
    "idle_task (set_nesting c 1 ?w) = idle_task (kern s)" for u
    by (simp_all add: set_nesting_def cur_def idle_task_def fun_eq_iff)
  have "ensures (xTaskPriorityInherit c (Some t) (set_nesting c 1 ?w)) (\<lambda>(b, h). (prio (kern s) t < p \<longrightarrow> b) \<and> reprio t p (set_nesting c 1 ?w) h)"
  proof (cases "prio (kern s) t < prio (kern s) (cur (kern s) c)")
    case True
    then have "p = prio (kern s) (cur (kern s) c)" by (simp add: p_def)
    then show ?thesis using xTaskPriorityInherit_ok [OF k1 c, of t] i True unfolding same by (auto elim: ensures_mono)
  next
    case False
    then have p: "p = prio (kern s) t" by (simp add: p_def)
    have "reprio t (prio (kern s) t) (set_nesting c 1 ?w) (set_nesting c 1 ?w)" using reprio_refl [OF k1, of t] unfolding same .
    then show ?thesis using xTaskPriorityInherit_none [OF k1 c, of t] False unfolding same p by simp
  qed
  then obtain b k' where h: "xTaskPriorityInherit c (Some t) (set_nesting c 1 ?w) = Inr (b, k')" "prio (kern s) t < p \<longrightarrow> b"
    "reprio t p (set_nesting c 1 ?w) k'" by (auto simp: ensures_def)
  let ?k1 = "set_nesting c 0 k'" and ?h = "kick c ((set_nesting c 0 k')\<lparr>uxSchedulerSuspended := 0\<rparr>)"
  have fk: "xSchedulerRunning k'" "uxCriticalNestings k' = (uxCriticalNestings ?w)(c := 1)" "uxSchedulerSuspended k' = 1" "xPendedTicks k' = 0"
    using h(3) r0 run(6) by (simp_all add: reprio_def set_nesting_def)
  have x: "vTaskExitCritical c k' = kick c ?k1"
    using fk by (simp add: vTaskExitCritical_def kick_def Let_def) (simp add: set_nesting_def)
  have undo: "set_nesting c 0 (set_nesting c 1 ?w) = ?w" by (rule set_nesting_id [OF n0])
  have rw: "reprio t p ?w ?k1" using reprio_fields2(2) [OF h(3), of c 0] unfolding undo .
  have wk: "?w\<lparr>uxSchedulerSuspended := 0\<rparr> = ?k" using run(4) by (simp add: kick_def portYIELD_def)
  have "reprio t p ?k (?k1\<lparr>uxSchedulerSuspended := 0\<rparr>)" using reprio_fields2(1) [OF rw, of 0] unfolding wk .
  then have rk: "reprio t p ?k ?h" by (rule reprio_yields) (rule yields_kick)
  have rh: "reprio t p (kern s) ?h" using rk stable_running(2) [OF st] by (rule reprio_kick)
  have b: "basic ?h" by (rule basic_reprio [OF _ rh]) (use st in \<open>simp add: stable_iff [OF c]\<close>)
  have "goes_on (kern s) ?h" using rh by (simp add: reprio_def)
  then have pd: "pended ?h" using goes_on_pended st by (auto simp: stable_def)
  have hs: "stable ?h" using b pd rh st unfolding stable_iff [OF c] by (simp add: reprio_def nestings_def)
  have "on_ready c (kern s)" using cl runs_on_ready by (simp add: caller_def)
  then have hr: "on_ready c ?h" "\<not> idle_task ?h (cur ?h c)" "waiters_wf ?h"
    using rh cl w waiters_wf_reprio [OF rh] by (auto simp: on_ready_def reprio_def cur_def idle_task_def caller_def)
  have kh: "?h\<lparr>uxSchedulerSuspended := 1\<rparr> = kick c ?k1"
    using fk(3) by (simp add: kick_def portYIELD_def set_nesting_def)
  have en: "upd_kern (vTaskEnterCritical c) ?s = upd_kern (\<lambda>_. set_nesting c 1 ?w) ?s"
    unfolding e [symmetric] by (simp add: upd_kern_def)
  have m: "pcHead (queue_of ?s q) = HeadNull" "xMutexHolder (queue_of (upd_kern (\<lambda>_. set_nesting c 1 ?w) ?s) q) = Some t"
    using mx by (simp_all add: lock_def)
  have oc: "on_kern (xTaskPriorityInherit c (Some t)) (upd_kern (\<lambda>_. set_nesting c 1 ?w) ?s) = Inr (b, upd_kern (\<lambda>_. k') ?s)"
    using h(1) by (simp add: on_kern_def upd_kern_def)
  have ex: "upd_kern (vTaskExitCritical c) (upd_kern (\<lambda>_. k') ?s) = upd_kern (\<lambda>_. kick c ?k1) ?s"
    using x by (simp add: upd_kern_def)
  have "inherit_if_mutex c q old ?s = Inr (b, upd_kern (\<lambda>_. ?h\<lparr>uxSchedulerSuspended := 1\<rparr>) ?s)"
    unfolding kh inherit_if_mutex_def qcritical_def if_P [OF m(1)] en m(2) oc bindE_simps prod.case ex ..
  then show ?thesis using h(2) rh hs hr by blast
qed

section \<open>Taking and giving\<close>

text \<open>A task that waits for a mutex: the holder has at least its priority.\<close>

lemma xQueueSemaphoreTake_blocks:
  assumes st: "stable (kern s)" and w: "waiters_wf (kern s)" and cl: "caller c (kern s)" and wf: "mutex_wf (queue_of s q)"
    and held: "xMutexHolder (queue_of s q) = Some t" and i: "\<not> idle_task (kern s) t" and n: "n \<noteq> 0"
  shows "ensures (xQueueSemaphoreTake c q (wait_for n) s) (\<lambda>(r, s'). (\<exists>v. r = Again v) \<and> queue_of s' = queue_of s \<and>
    stable (kern s') \<and> (\<exists>h. reprio t (max (prio (kern s) t) (prio (kern s) (cur (kern s) c))) (kern s) h \<and> waiters_wf h \<and>
      blocked c (2 * q + 1) n h (kern s')))"
proof -
  let ?s = "upd_kern (kick c) s" and ?v = "wait_for n"
  let ?p = "max (prio (kern s) t) (prio (kern s) (cur (kern s) c))"
  have c: "c < configNUMBER_OF_CORES" using cl by (simp add: caller_def)
  have none: "uxMessagesWaiting (queue_of s q) = 0" using wf held by (simp add: mutex_wf_def)
  have stk: "stable (kern ?s)" using stable_kick [OF st] by simp
  have clk: "caller c (kern ?s)" using cl by (simp add: caller_def runs_def idle_task_def)
  have wk: "waiters_wf (kern ?s)" using w by (simp add: waiters_wf_def)
  have mx: "pcHead (queue_of ?s q) = HeadNull" "xMutexHolder (queue_of ?s q) = Some t" "\<not> idle_task (kern ?s) t"
    using wf held i by (simp_all add: mutex_wf_def idle_task_def)
  let ?w = "\<lambda>tmo. wait_round c q (xTasksWaitingToReceive q) prvIsQueueEmpty (inherit_if_mutex c q (xInheritanceOccurred ?v)) (take_late c q) tmo ?v"
  let ?t = "entry_time ?v (kern s)"
  have eq: "xQueueSemaphoreTake c q ?v s = ?w ?t ?s"
  proof -
    have "xQueueSemaphoreTake c q ?v s = (if xTicksToWait ?v = 0 then Inr (Returned False, ?s) else ?w ?t ?s)"
      unfolding xQueueSemaphoreTake_def
      by (rule blocking_round_fails [OF st c]) (simp add: take_body_def none Let_def)
    then show ?thesis using n by (simp add: wait_for_def)
  qed
  have now: "check_timeout (kern ?s) ?t (xTicksToWait ?v) = (False, vTaskInternalSetTimeOutState (kern s), n)"
    using check_timeout_now [OF n, of "kern s"] by (simp add: entry_time_def wait_for_def)
  obtain b h where h: "inherit_if_mutex c q (xInheritanceOccurred ?v) (waiting_state c q ?s) =
      Inr (b, upd_kern (\<lambda>_. h\<lparr>uxSchedulerSuspended := 1\<rparr>) (waiting_state c q ?s))"
    "reprio t (max (prio (kern ?s) t) (prio (kern ?s) (cur (kern ?s) c))) (kern ?s) h" "stable h" "waiters_wf h" "on_ready c h" "\<not> idle_task h (cur h c)"
    using inherit_waiting [OF stk wk clk mx] by blast
  have r: "reprio t ?p (kern s) h" using reprio_kick [of t _ c "kern s" h] h(2) stable_running(2) [OF st] by simp
  have ul: "unlocked (queue_of ?s q)" "prvIsQueueEmpty (lock (queue_of ?s q))"
    using wf none by (simp_all add: mutex_wf_def prvIsQueueEmpty_def lock_def)
  show ?thesis unfolding eq xTasksWaitingToReceive_def
    by (rule ensures_mono [OF wait_round_blocks [where still = prvIsQueueEmpty
        and before = "inherit_if_mutex c q (xInheritanceOccurred ?v)", OF stk clk ul now n h(1,3-6)]]) (use r h(4) in auto)
qed

text \<open>A free mutex is taken at once; nothing moves but a task that waits to send.\<close>

lemma wakes_light: "wakes n (upd_tcb u f k) k' \<Longrightarrow> light f \<Longrightarrow> wakes n k k'"
  by (simp add: wakes_def woke_def unmoved_def ev_same_def quiet_def light_upd upd_tcb_kernel split: list.splits)

lemma section_begin_light:
  assumes "section_begin c k" "light f"
  shows "section_begin c (upd_tcb u f k)"
proof -
  have "kinv (upd_tcb u f k)" using kinv_neutral [OF section_beginD(1) [OF assms(1)] light_neutral [OF assms(2)]] .
  then show ?thesis using assms(1)
    by (simp add: section_begin_def basic_def ontime_def addressed_def pended_def runs_def nestings_def
        light_upd [OF assms(2)] upd_tcb_kernel)
qed

definition taken :: "nat \<Rightarrow> nat \<Rightarrow> (nat \<Rightarrow> queue) \<Rightarrow> (nat \<Rightarrow> queue) \<Rightarrow> bool" where
  "taken q t Q Q' \<longleftrightarrow> Q' = Q(q := (Q q)\<lparr>uxMessagesWaiting := 0, xMutexHolder := Some t\<rparr>)"

lemma taken_wf: "taken q t Q Q' \<Longrightarrow> mutex_wf (Q q) \<Longrightarrow> mutex_wf (Q' q)"
  by (simp add: taken_def mutex_wf_def unlocked_def)

lemma xQueueSemaphoreTake_free:
  assumes st: "stable (kern s)" and w: "waiters_wf (kern s)" and c: "c < configNUMBER_OF_CORES" and wf: "mutex_wf (queue_of s q)"
    and free: "xMutexHolder (queue_of s q) = None"
  shows "ensures (xQueueSemaphoreTake c q v s) (\<lambda>(r, s'). r = Returned True \<and> taken q (cur (kern s) c) (queue_of s) (queue_of s') \<and>
    wakes (2 * q) (kern s) (kern s') \<and> stable (kern s'))"
proof -
  have one: "uxMessagesWaiting (queue_of s q) = 1" "pcHead (queue_of s q) = HeadNull" using wf free by (simp_all add: mutex_wf_def)
  have cur: "pxCurrentTCBs (kern s) c = Some (cur (kern s) c)"
    using stable_running(2) [OF st] c by (auto simp: kinv_def cores_wf_def all_cores configNUMBER_OF_CORES_def less_2_cases_iff)
  have "ensures (xQueueSemaphoreTake c q v s) (\<lambda>(r, s'). (\<exists>x. r = Returned x \<and> (x \<and> taken q (cur (kern s) c) (queue_of s) (queue_of s'))) \<and>
      wakes (2 * q) (kern s) (kern s') \<and> stable (kern s'))"
    unfolding xQueueSemaphoreTake_def
  proof (rule blocking_round_returns [OF st c sectional_wakes [OF st c]])
    fix s0 :: qsys assume s0: "section_begin c (kern s0)" "queue_of s0 = queue_of s" "tcb (kern s0) = tcb (kern s)"
      "pxCurrentTCBs (kern s0) = pxCurrentTCBs (kern s)"
    have lt: "light (\<lambda>x. x\<lparr>uxMutexesHeld := uxMutexesHeld x + 1\<rparr>)" by (simp add: light_def)
    let ?u = "cur (kern s) c" and ?g = "upd_tcb (cur (kern s) c) (\<lambda>x. x\<lparr>uxMutexesHeld := uxMutexesHeld x + 1\<rparr>)"
    let ?s = "upd_queue q (\<lambda>x. x\<lparr>uxMessagesWaiting := 0, xMutexHolder := Some ?u\<rparr>) (upd_kern ?g s0)"
    have "pvTaskIncrementMutexHeldCount c (kern s0) = (Some ?u, ?g (kern s0))"
      using s0(4) cur by (simp add: pvTaskIncrementMutexHeldCount_def)
    moreover have comm: "x\<lparr>kern := k, queue_of := Q\<rparr> = x\<lparr>queue_of := Q, kern := k\<rparr>" for x :: qsys and k Q by simp
    ultimately have b: "take_body c q s0 = bindE (after_receive c (EventL (2 * q)) ?s) (\<lambda>s1. Inr (True, s1))"
      using one s0(2) by (simp add: take_body_def Let_def xTasksWaitingToSend_def) (simp add: upd_queue_def upd_kern_def comm)
    have "section_begin c (kern ?s)" using section_begin_light [OF s0(1) lt] by simp
    moreover have "waiters_wf (kern ?s)" using waiters_wf_tcb [OF s0(3)] w by (simp add: waiters_wf_def upd_tcb_def)
    ultimately have a: "ensures (after_receive c (EventL (2 * q)) ?s)
        (\<lambda>s'. queue_of s' = queue_of ?s \<and> wakes (2 * q) (kern ?s) (kern s') \<and> section_end c (kern s'))"
      using c by (rule wake_and_yield_ok)
    have tk: "taken q ?u (queue_of s) (queue_of ?s)" using s0(2) by (simp add: taken_def) (simp add: upd_queue_def)
    have wk: "wakes (2 * q) (kern s0) k'" if "wakes (2 * q) (kern ?s) k'" for k'
      using that wakes_light [OF _ lt] by simp
    show "ensures (bindE (take_body c q s0) (\<lambda>(ok, s1). Inr (if ok then Some True else None, s1)))
        (\<lambda>(r, s1). (\<exists>x. r = Some x \<and> (x \<and> taken q ?u (queue_of s) (queue_of s1))) \<and>
          wakes (2 * q) (kern s0) (kern s1) \<and> section_end c (kern s1))"
      unfolding b bindE_assoc by (rule ensures_bind [OF a]) (use tk wk in auto)
  qed
  then show ?thesis by (rule ensures_mono) auto
qed

text \<open>The holder gives the mutex back: it has its own priority again if it was the only mutex it held, and
  the first task that waits is ready.\<close>

definition given :: "nat \<Rightarrow> (nat \<Rightarrow> queue) \<Rightarrow> (nat \<Rightarrow> queue) \<Rightarrow> bool" where
  "given q Q Q' \<longleftrightarrow> Q' = Q(q := (Q q)\<lparr>xMutexHolder := None, uxMessagesWaiting := 1\<rparr>)"

definition handed_on :: "nat \<Rightarrow> nat \<Rightarrow> nat \<Rightarrow> kernel \<Rightarrow> kernel \<Rightarrow> bool" where
  "handed_on t p n k k' \<longleftrightarrow> cur k' = cur k \<and>
     (\<forall>u. prio k' u = (if u = t then p else prio k u) \<and> uxBasePriority (tcb k' u) = uxBasePriority (tcb k u) \<and>
        uxCoreAffinityMask (tcb k' u) = uxCoreAffinityMask (tcb k u)) \<and>
     (case lists k (EventL n) of
        [] \<Rightarrow> ev_same k k' \<and> (\<forall>u. u \<noteq> t \<longrightarrow> stateContainer (tcb k' u) = stateContainer (tcb k u))
      | w # ws \<Rightarrow> stateContainer (tcb k' w) = Some (ReadyL (prio k' w)) \<and> eventContainer (tcb k' w) = None \<and>
          lists k' (EventL n) = ws \<and>
          (\<forall>u. u \<noteq> t \<and> u \<noteq> w \<longrightarrow> stateContainer (tcb k' u) = stateContainer (tcb k u) \<and>
            eventContainer (tcb k' u) = eventContainer (tcb k u)))"

lemma handed_on_cong:
  assumes "tcb k1 = tcb k" "lists k1 = lists k" "cur k1 = cur k" "tcb k2 = tcb k'" "lists k2 = lists k'" "cur k2 = cur k'"
  shows "handed_on t p n k1 k2 = handed_on t p n k k'"
  unfolding handed_on_def ev_same_def assms ..

lemma handed_onI:
  assumes "reprio t p k k1" "wakes n k1 k'"
  shows "handed_on t p n k k'"
  using assms
  by (auto simp: handed_on_def reprio_def wakes_def woke_def unmoved_def quiet_def ev_same_def cur_def fun_eq_iff split: list.splits)

lemma send_body_mutex:
  assumes b: "section_begin c (kern s)" and w: "waiters_wf (kern s)" and c: "c < configNUMBER_OF_CORES" and wf: "mutex_wf (queue_of s q)"
    and h: "xMutexHolder (queue_of s q) = Some t" "\<not> idle_task (kern s) t" "stateContainer (tcb (kern s) t) = Some (ReadyL (prio (kern s) t))"
      "0 < uxMutexesHeld (tcb (kern s) t)" "uxMutexesHeld (tcb (kern s) t) < 2 ^ 32"
  shows "ensures (send_body c q [] queueSEND_TO_BACK s) (\<lambda>(r, s'). r \<and> given q (queue_of s) (queue_of s') \<and>
    handed_on t (returned_prio (kern s) t) (2 * q + 1) (kern s) (kern s') \<and> waiters_wf (kern s') \<and> section_end c (kern s'))"
proof -
  let ?p = "returned_prio (kern s) t"
  have n: "uxMessagesWaiting (queue_of s q) = 0" "uxLength (queue_of s q) = 1" "uxItemSize (queue_of s q) = 0"
    "pcHead (queue_of s q) = HeadNull" "pxQueueSetContainer (queue_of s q) = None"
    using wf h(1) by (simp_all add: mutex_wf_def)
  obtain y k1 where d: "xTaskPriorityDisinherit c (Some t) (kern s) = Inr (y, k1)" "reprio t ?p (kern s) k1"
    using xTaskPriorityDisinherit_ok [OF section_beginD(1) [OF b] c h(2-5)] by (auto simp: ensures_def)
  let ?f = "\<lambda>x. x\<lparr>xMutexHolder := None, uxMessagesWaiting := 1\<rparr>"
  let ?s = "upd_kern (\<lambda>_. k1) (upd_queue q ?f s)"
  have cp: "prvCopyDataToQueue c q [] queueSEND_TO_BACK s = Inr (y, ?s)"
    using d(1) n h(1) by (simp add: prvCopyDataToQueue_def on_kern_def Let_def) (simp add: upd_queue_def upd_kern_def)
  have g: "given q (queue_of s) (queue_of ?s)" by (simp add: given_def) (simp add: upd_queue_def)
  have w1: "waiters_wf k1" by (rule waiters_wf_reprio [OF d(2) w])
  have b1: "section_begin c k1"
    using b d(2) basic_reprio [OF _ d(2)] goes_on_pended by (auto simp: section_begin_def reprio_def nestings_def)
  have e1: "section_end c k1" by (rule pended_imp_section_end [OF b1])
  have set: "pxQueueSetContainer (queue_of ?s q) = None" using n by simp
  have fin: "handed_on t ?p (2 * q + 1) (kern s) k' \<and> waiters_wf k'" if "wakes (2 * q + 1) k1 k'" for k'
    using handed_onI [OF d(2) that] wakes_waiters_wf [OF that w1] by simp
  show ?thesis
  proof (cases "lists k1 (EventL (2 * q + 1)) = []")
    case True
    have u: "wakes (2 * q + 1) k1 k1" using True by (simp add: wakes_def)
    have yk: "section_end c (vTaskYieldWithinAPI c k1)" "wakes (2 * q + 1) k1 (vTaskYieldWithinAPI c k1)"
      using section_end_yield [OF e1 c] wakes_yields [OF u] by auto
    have "send_body c q [] queueSEND_TO_BACK s = Inr (True, if y then upd_kern (vTaskYieldWithinAPI c) ?s else ?s)"
      using n cp set True by (simp add: send_body_def Let_def xTasksWaitingToReceive_def)
    then show ?thesis using g fin [OF u] fin [OF yk(2)] e1 yk(1) by (cases y) simp_all
  next
    case False
    have eq: "send_body c q [] queueSEND_TO_BACK s = bindE (after_receive c (EventL (2 * q + 1)) ?s) (\<lambda>s'. Inr (True, s'))"
      using n cp set False by (simp add: send_body_def Let_def xTasksWaitingToReceive_def after_receive_def wake_waiting_def bindE_assoc case_prod_unfold)
    have "ensures (after_receive c (EventL (2 * q + 1)) ?s) (\<lambda>s'. queue_of s' = queue_of ?s \<and>
        wakes (2 * q + 1) (kern ?s) (kern s') \<and> section_end c (kern s'))"
      by (rule wake_and_yield_ok) (use b1 w1 c in simp_all)
    then show ?thesis unfolding eq by (rule ensures_bind) (use g fin in auto)
  qed
qed

lemma xQueueGenericSend_mutex:
  assumes st: "stable (kern s)" and w: "waiters_wf (kern s)" and c: "c < configNUMBER_OF_CORES" and wf: "mutex_wf (queue_of s q)"
    and h: "xMutexHolder (queue_of s q) = Some t" "\<not> idle_task (kern s) t" "stateContainer (tcb (kern s) t) = Some (ReadyL (prio (kern s) t))"
      "0 < uxMutexesHeld (tcb (kern s) t)" "uxMutexesHeld (tcb (kern s) t) < 2 ^ 32"
  shows "ensures (xQueueGenericSend c q [] queueSEND_TO_BACK v s) (\<lambda>(r, s'). r = Returned True \<and> given q (queue_of s) (queue_of s') \<and>
    handed_on t (returned_prio (kern s) t) (2 * q + 1) (kern s) (kern s') \<and> waiters_wf (kern s') \<and> stable (kern s'))"
proof -
  let ?R = "\<lambda>k k'. handed_on t (returned_prio (kern s) t) (2 * q + 1) k k' \<and> waiters_wf k'"
  have ex: "cur (vTaskExitCritical c k) = cur k" "cur (vTaskEnterCritical c k) = cur k" for k
    by (simp_all add: vTaskExitCritical_def vTaskEnterCritical_def set_nesting_def portYIELD_def cur_def fun_eq_iff Let_def)
  have R: "sectional c (kern s) ?R"
    using handed_on_cong [OF enter_lists(2,1) ex(2) refl refl refl] handed_on_cong [OF refl refl refl exit_same(1,2) ex(1)] waiters_wf_tcb [OF exit_same(1)]
    by (simp add: sectional_def)
  have "ensures (xQueueGenericSend c q [] queueSEND_TO_BACK v s) (\<lambda>(r, s').
      (\<exists>x. r = Returned x \<and> (x \<and> given q (queue_of s) (queue_of s'))) \<and> ?R (kern s) (kern s') \<and> stable (kern s'))"
    unfolding xQueueGenericSend_def
  proof (rule blocking_round_returns [OF st c R])
    fix s0 :: qsys assume s0: "section_begin c (kern s0)" "queue_of s0 = queue_of s" "tcb (kern s0) = tcb (kern s)"
      "xIdleTaskHandles (kern s0) = xIdleTaskHandles (kern s)"
    have "returned_prio (kern s0) t = returned_prio (kern s) t" "idle_task (kern s0) t = idle_task (kern s) t"
      using s0 by (simp_all add: returned_prio_def idle_task_def)
    then have b: "ensures (send_body c q [] queueSEND_TO_BACK s0) (\<lambda>(r, s'). r \<and> given q (queue_of s) (queue_of s') \<and>
        handed_on t (returned_prio (kern s) t) (2 * q + 1) (kern s0) (kern s') \<and> waiters_wf (kern s') \<and> section_end c (kern s'))"
      using send_body_mutex [OF s0(1) _ c, of q t] waiters_wf_tcb [OF s0(3)] w wf h s0(2,3) by simp
    show "ensures (bindE (send_body c q [] queueSEND_TO_BACK s0) (\<lambda>(ok, s1). Inr (if ok then Some True else None, s1)))
        (\<lambda>(r, s1). (\<exists>x. r = Some x \<and> (x \<and> given q (queue_of s) (queue_of s1))) \<and> ?R (kern s0) (kern s1) \<and> section_end c (kern s1))"
      by (rule ensures_bind [OF b]) auto
  qed
  then show ?thesis by (rule ensures_mono) auto
qed

end
