(* ===== verification/WaitSteps.thy ===== *)
theory WaitSteps
  imports EventProps
begin

text \<open>
  What every step of the running system keeps of the waiting tasks: a task that leaves the delayed or the suspended
  list leaves its event list as well, a task that runs is in none, and event items do not change.  The steps are
  followed once, in a locale whose contract says which moves of a task between lists they make; its two
  interpretations say that no task starts to wait for an event, and that a task that waits without a time limit
  goes on waiting unless it is taken off its event list.
\<close>

section \<open>The containers of the tasks\<close>

definition conts :: "kernel \<Rightarrow> nat \<Rightarrow> klist option \<times> klist option \<times> u32" where
  "conts s t = (stateContainer (tcb s t), eventContainer (tcb s t), event_item s t)"

lemma conts_eqI: "tcb s' = tcb s \<Longrightarrow> conts s' = conts s"
  by (simp add: conts_def event_item_def fun_eq_iff)

text \<open>A task that is in no event list may go to any list.\<close>

abbreviation off :: "nat \<Rightarrow> klist option \<Rightarrow> kernel \<Rightarrow> nat \<Rightarrow> klist option \<times> klist option \<times> u32" where
  "off t x s \<equiv> (conts s)(t := (x, None, snd (snd (conts s t))))"

lemma no_event: "eventContainer (tcb s t) = None \<Longrightarrow> snd (conts s t) = (None, snd (snd (conts s t)))"
  by (simp add: conts_def)

lemma conts_prims [simp]:
  "conts (portYIELD x s) = conts s" "conts (set_yield_pending x b s) = conts s" "conts (set_nesting x n s) = conts s"
  "conts (vTaskYieldWithinAPI x s) = conts s" "conts (prvResetNextTaskUnblockTime s) = conts s"
  "conts (vTaskEnterCritical x s) = conts s" "conts (vTaskExitCritical x s) = conts s"
  "conts (vTaskEnterCriticalFromISR x s) = conts s" "conts (vTaskExitCriticalFromISR x s) = conts s"
  "conts (vTaskSuspendAll s) = conts s" "conts (taskSWITCH_DELAYED_LISTS s) = conts s"
  "conts (s\<lparr>uxSchedulerSuspended := n\<rparr>) = conts s" "conts (s\<lparr>xPendedTicks := m\<rparr>) = conts s"
  "conts (s\<lparr>xTickCount := m\<rparr>) = conts s" "conts (s\<lparr>xNextTaskUnblockTime := m\<rparr>) = conts s" "conts (s\<lparr>pendsv := q\<rparr>) = conts s"
  "conts (s\<lparr>uxTopReadyPriority := n\<rparr>) = conts s" "conts (set_list L xs s) = conts s" "conts (s\<lparr>pxCurrentTCBs := r\<rparr>) = conts s"
  "conts (s\<lparr>uxDeletedTasksWaitingCleanUp := n\<rparr>) = conts s" "conts (s\<lparr>uxCurrentNumberOfTasks := n\<rparr>) = conts s"
  "conts (s\<lparr>uxTaskNumber := v\<rparr>) = conts s"
  by (rule conts_eqI, simp add: portYIELD_def set_yield_pending_def set_nesting_def vTaskYieldWithinAPI_def
      prvResetNextTaskUnblockTime_def vTaskEnterCritical_def vTaskExitCritical_def vTaskEnterCriticalFromISR_def
      vTaskExitCriticalFromISR_def vTaskSuspendAll_def taskSWITCH_DELAYED_LISTS_def set_list_def Let_def; fail)+

lemma conts_upd [simp]:
  "conts (upd_tcb t (\<lambda>x. x\<lparr>xTaskRunState := r\<rparr>) s) = conts s" "conts (upd_tcb t (\<lambda>x. x\<lparr>ucNotifyState := a\<rparr>) s) = conts s"
  "conts (upd_tcb t (\<lambda>x. x\<lparr>xStateListItem := v\<rparr>) s) = conts s" "conts (upd_tcb t (\<lambda>x. x\<lparr>ucDelayAborted := b\<rparr>) s) = conts s"
  by (simp_all add: conts_def event_item_def upd_tcb_def fun_eq_iff)

lemma conts_insert [simp]:
  "conts (state_insert_end L t s) = (conts s)(t := (Some L, snd (conts s t)))"
  "conts (state_insert L t s) = (conts s)(t := (Some L, snd (conts s t)))"
  by (auto simp: conts_def event_item_def state_insert_end_def state_insert_def upd_tcb_def set_list_def fun_eq_iff)

lemma conts_state_remove: "state_remove t s = Inr s' \<Longrightarrow> conts s' = (conts s)(t := (None, snd (conts s t)))"
  by (auto simp: state_remove_def conts_def event_item_def upd_tcb_def set_list_def fun_eq_iff)

lemma conts_event_remove: "event_remove t s = Inr s' \<Longrightarrow> conts s' = off t (fst (conts s t)) s"
  by (auto simp: event_remove_def conts_def event_item_def upd_tcb_def set_list_def fun_eq_iff)

lemma conts_event_remove_if: "event_remove_if_waiting t s = Inr s' \<Longrightarrow> conts s' = off t (fst (conts s t)) s"
  by (auto simp: event_remove_if_waiting_def dest: conts_event_remove split: if_splits) (auto simp: conts_def event_item_def fun_eq_iff)

lemma conts_add_ready: "prvAddTaskToReadyList t s = Inr s' \<Longrightarrow> \<exists>p. conts s' = (conts s)(t := (Some (ReadyL p), snd (conts s t)))"
  by (auto simp: prvAddTaskToReadyList_def Let_def split: if_splits)

lemma conts_yield_core: "prvYieldCore c x s = Inr s' \<Longrightarrow> conts s' = conts s"
  by (auto simp: prvYieldCore_def split: if_splits)

lemma conts_yield_for: "prvYieldForTask c t s = Inr s' \<Longrightarrow> conts s' = conts s"
  by (auto simp: prvYieldForTask_def dest: conts_yield_core split: if_splits)

lemma conts_time_slice: "time_slice xs s = Inr s' \<Longrightarrow> conts s' = conts s"
  by (induction xs arbitrary: s) (auto split: if_splits)

lemma conts_request_yields: "request_yields c xs b s = Inr (b', s') \<Longrightarrow> conts s' = conts s"
  by (induction xs arbitrary: b s) (auto dest: conts_yield_core split: if_splits)

lemmas conts_ops = conts_state_remove conts_event_remove conts_event_remove_if conts_yield_core conts_yield_for
  conts_time_slice conts_request_yields

lemma conts_removed:
  assumes "state_remove t s = Inr s1" "event_remove_if_waiting t s1 = Inr s2"
  shows "conts s2 = off t None s"
  using conts_ops(1) [OF assms(1)] conts_ops(3) [OF assms(2)] by simp

lemma conts_suspend_removed: "conts (suspend_removed t s) = (conts s)(t := (Some SuspendedL, snd (conts s t)))"
  by (simp add: suspend_removed_def Let_def)

lemma conts_suspend_leave: "suspend_leave c t s = Inr (r, s') \<Longrightarrow> conts s' = conts s"
  by (auto simp: suspend_leave_def Let_def dest: conts_yield_core split: if_splits)

lemma conts_delete_removed:
  "delete_removed c t s = Inr (r, s') \<Longrightarrow> fst (conts s t) = None \<Longrightarrow>
    \<exists>x. x \<noteq> Some SuspendedL \<and> conts s' = (conts s)(t := (x, snd (conts s t)))"
proof -
  assume d: "delete_removed c t s = Inr (r, s')" and n: "fst (conts s t) = None"
  have "conts s' = conts s \<or> conts s' = (conts s)(t := (Some TerminationL, snd (conts s t)))"
    using d by (auto simp: delete_removed_def Let_def dest!: conts_yield_core split: if_splits)
  then show ?thesis using n by (metis fun_upd_triv prod.collapse klist.distinct option.distinct(1) option.inject)
qed

lemma on_ready_susp: "on_ready c (vTaskSuspendAll s) = on_ready c s" "kinv (vTaskSuspendAll s) = kinv s"
  by (simp_all add: vTaskSuspendAll_def on_ready_def cur_def)

lemma waiters_wf_susp: "waiters_wf (vTaskSuspendAll s) = waiters_wf s"
  by (simp add: vTaskSuspendAll_def waiters_wf_def)

lemma conts_scan_ready: "scan_ready c ts s = Inr (b, p, s') \<Longrightarrow> conts s' = conts s"
  by (induction ts) (auto simp: Let_def split: if_splits)

lemma conts_select_loop: "select_loop c p d s = Inr (b, q, s') \<Longrightarrow> conts s' = conts s"
proof (induction p arbitrary: d s)
  case 0
  then show ?case by (subst (asm) select_loop.simps) (auto simp: Let_def dest: conts_scan_ready split: if_splits)
next
  case (Suc p)
  show ?case
  proof (cases "ready s (Suc p) = []")
    case True
    have "select_loop c p d (if d then s\<lparr>uxTopReadyPriority := dec32 (uxTopReadyPriority s)\<rparr> else s) = Inr (b, q, s')"
      using Suc.prems True by (simp add: select_loop.simps [of c "Suc p"] Let_def split: if_splits)
    from Suc.IH [OF this] show ?thesis by (simp split: if_splits)
  next
    case False
    then obtain sc pv s1 where s1: "scan_ready c (ready s (Suc p)) s = Inr (sc, pv, s1)"
      "(if sc then Inr (sc, pv, s1) else select_loop c p False s1) = Inr (b, q, s')"
      using Suc.prems by (subst (asm) select_loop.simps) (auto split: if_splits)
    then show ?thesis using conts_scan_ready [OF s1(1)] Suc.IH [of False s1] by (auto split: if_splits)
  qed
qed

lemma conts_place_evicted: "place_evicted c t s = Inr s' \<Longrightarrow> conts s' = conts s"
  by (auto simp: place_evicted_def Let_def dest: conts_yield_core split: if_splits)

lemma conts_rotate: "rotate_current c s = Inr s' \<Longrightarrow> conts s' = conts s"
proof -
  assume r: "rotate_current c s = Inr s'"
  obtain t where t: "current c s = Inr t" using r by (auto simp: rotate_current_def)
  show ?thesis
  proof (cases "stateContainer (tcb s t) = Some (ReadyL (prio s t))")
    case True
    then obtain s1 where "state_remove t s = Inr s1" "s' = state_insert_end (ReadyL (prio s t)) t s1"
      using r t by (auto simp: rotate_current_def)
    then show ?thesis using conts_ops(1) [of t s s1] True by (simp add: conts_def fun_eq_iff)
  qed (use r t in \<open>simp add: rotate_current_def\<close>)
qed

section \<open>The moves of a task\<close>

text \<open>
  A property of the tasks and their lists that an operation keeps when it leaves all tasks where they are, and when
  it takes a task off its lists and puts it into a list other than the suspended one, or, if that is \<open>ok\<close> for
  the task, into the suspended one.
\<close>

locale waiting =
  fixes I :: "kernel \<Rightarrow> bool" and ok :: "nat \<Rightarrow> bool"
  assumes same: "conts s' = conts s \<Longrightarrow> I s \<Longrightarrow> I s'"
    and waits_move: "conts s' = off t x s \<Longrightarrow> x \<noteq> Some SuspendedL \<or> ok t \<Longrightarrow> I s \<Longrightarrow> I s'"
begin

lemma waits_conts: "conts s' = conts s \<Longrightarrow> I s' = I s"
  using same [of s' s] same [of s s'] by auto

subsection \<open>The tick\<close>

lemma waits_unblock_loop: "unblock_loop n c now s = Inr s' \<Longrightarrow> I s \<Longrightarrow> I s'"
proof (induction n arbitrary: s)
  case (Suc n)
  show ?case
  proof (cases "delayed s")
    case Nil
    then have "conts s' = conts s" using Suc.prems(1) by auto
    then show ?thesis using Suc.prems(2) waits_conts by blast
  next
    case (Cons t ts)
    show ?thesis
    proof (cases "now < xStateListItem (tcb s t)")
      case True
      then have "conts s' = conts s" using Cons Suc.prems(1) by (auto simp: Let_def)
      then show ?thesis using Suc.prems(2) waits_conts by blast
    next
      case False
      then obtain s1 s2 s3 s4 where s: "state_remove t s = Inr s1" "event_remove_if_waiting t s1 = Inr s2"
        "prvAddTaskToReadyList t s2 = Inr s3" "prvYieldForTask c t s3 = Inr s4" "unblock_loop n c now s4 = Inr s'"
        using Cons Suc.prems(1) by (auto simp: Let_def)
      obtain p where "conts s4 = off t (Some (ReadyL p)) s"
        using conts_ops(1) [OF s(1)] conts_ops(3) [OF s(2)] conts_add_ready [OF s(3)] conts_ops(5) [OF s(4)] by auto
      then show ?thesis using Suc.IH [OF s(5)] waits_move [OF _ _ Suc.prems(2)] by blast
    qed
  qed
qed simp

lemma waits_tick: "xTaskIncrementTick c s = Inr (b, s') \<Longrightarrow> I s \<Longrightarrow> I s'"
proof -
  assume t: "xTaskIncrementTick c s = Inr (b, s')" and w: "I s"
  show "I s'"
  proof (cases "uxSchedulerSuspended s = 0")
    case True
    define s2 where "s2 = (if xTickCount s + 1 = 0 then taskSWITCH_DELAYED_LISTS (s\<lparr>xTickCount := xTickCount s + 1\<rparr>)
      else s\<lparr>xTickCount := xTickCount s + 1\<rparr>)"
    have w2: "I s2" using w waits_conts [of s2 s] by (simp add: s2_def)
    obtain s3 s4 where s: "(if xTickCount s + 1 \<ge> xNextTaskUnblockTime s2
        then unblock_loop (Suc (length (delayed s2))) c (xTickCount s + 1) s2 else Inr s2) = Inr s3"
      "time_slice [0..<configNUMBER_OF_CORES] s3 = Inr s4" "request_yields c [0..<configNUMBER_OF_CORES] False s4 = Inr (b, s')"
      using t True unfolding xTaskIncrementTick_def Let_def s2_def [symmetric] by (auto simp del: unblock_loop.simps)
    have "I s3" using s(1) w2 waits_unblock_loop by (auto split: if_splits simp del: unblock_loop.simps)
    then show ?thesis using conts_ops(6) [OF s(2)] conts_ops(7) [OF s(3)] waits_conts by metis
  next
    case False
    then have "conts s' = conts s" using t by (auto simp: xTaskIncrementTick_def)
    then show ?thesis using w waits_conts by blast
  qed
qed

subsection \<open>Resuming the scheduler\<close>

lemma waits_pending_ready: "pending_ready_loop n b s = Inr (b', s') \<Longrightarrow> I s \<Longrightarrow> I s'"
proof (induction n arbitrary: b s)
  case (Suc n)
  show ?case
  proof (cases "lists s PendingReadyL")
    case (Cons t ts)
    then obtain s1 s2 s3 where s: "event_remove t s = Inr s1" "state_remove t s1 = Inr s2" "prvAddTaskToReadyList t s2 = Inr s3"
      "pending_ready_loop n True s3 = Inr (b', s')" using Suc.prems(1) by auto
    obtain p where "conts s3 = off t (Some (ReadyL p)) s"
      using conts_ops(2) [OF s(1)] conts_ops(1) [OF s(2)] conts_add_ready [OF s(3)] by auto
    then show ?thesis using Suc.IH [OF s(4)] waits_move [OF _ _ Suc.prems(2)] by blast
  qed (use Suc.prems in auto)
qed simp

lemma waits_pended_ticks: "pended_ticks_loop c n s = Inr s' \<Longrightarrow> I s \<Longrightarrow> I s'"
proof (induction n arbitrary: s)
  case (Suc n)
  obtain sw s1 where s1: "xTaskIncrementTick c s = Inr (sw, s1)" "pended_ticks_loop c n (if sw then set_yield_pending c True s1 else s1) = Inr s'"
    using Suc.prems(1) by auto
  have "I s1" by (rule waits_tick [OF s1(1) Suc.prems(2)])
  then have "I (if sw then set_yield_pending c True s1 else s1)" using waits_conts [OF conts_prims(2)] by simp
  then show ?case by (rule Suc.IH [OF s1(2)])
qed simp

lemma waits_critical:
  assumes "critical c f s = Inr (r, s')" "I s"
    and "\<And>s0 r s1. s0 = vTaskEnterCritical c s \<Longrightarrow> I s0 \<Longrightarrow> f s0 = Inr (r, s1) \<Longrightarrow> I s1"
  shows "I s'"
proof -
  obtain s1 where s1: "f (vTaskEnterCritical c s) = Inr (r, s1)" "s' = vTaskExitCritical c s1"
    using assms(1) by (auto simp: critical_def)
  have "I (vTaskEnterCritical c s)" using assms(2) waits_conts [OF conts_prims(6)] by simp
  then have "I s1" by (rule assms(3) [OF refl _ s1(1)])
  then show ?thesis using s1(2) waits_conts [OF conts_prims(7)] by simp
qed

lemma waits_resume_outermost: "resume_outermost c s = Inr (b, s') \<Longrightarrow> I s \<Longrightarrow> I s'"
proof -
  assume r: "resume_outermost c s = Inr (b, s')" and w: "I s"
  obtain moved s1 where s1: "pending_ready_loop (Suc (length (lists s PendingReadyL))) False s = Inr (moved, s1)"
    using r by (auto simp: resume_outermost_def simp del: pending_ready_loop.simps)
  define s2 where "s2 = (if moved then prvResetNextTaskUnblockTime s1 else s1)"
  have "I s1" by (rule waits_pending_ready [OF s1 w])
  then have w2: "I s2" using waits_conts [of s2 s1] by (simp add: s2_def)
  show "I s'"
  proof (cases "xPendedTicks s2 > 0")
    case True
    then obtain s3 where s3: "pended_ticks_loop c (unat (xPendedTicks s2)) s2 = Inr s3" "s' = s3\<lparr>xPendedTicks := 0\<rparr>"
      using r s1 by (auto simp: resume_outermost_def s2_def [symmetric] Let_def simp del: pending_ready_loop.simps)
    then show ?thesis using waits_pended_ticks [OF s3(1) w2] waits_conts [OF conts_prims(13)] by simp
  next
    case False
    then have "s' = s2" using r s1 by (auto simp: resume_outermost_def s2_def [symmetric] Let_def simp del: pending_ready_loop.simps)
    then show ?thesis using w2 by simp
  qed
qed

lemma waits_resume_all: "xTaskResumeAll c s = Inr (b, s') \<Longrightarrow> I s \<Longrightarrow> I s'"
proof -
  assume r: "xTaskResumeAll c s = Inr (b, s')" and w: "I s"
  show "I s'"
  proof (cases "xSchedulerRunning s")
    case True
    show ?thesis
    proof (rule waits_critical [OF _ w])
      show "critical c (\<lambda>s0. let s1 = s0\<lparr>uxSchedulerSuspended := dec32 (uxSchedulerSuspended s0)\<rparr> in
          if uxSchedulerSuspended s1 = 0 \<and> uxCurrentNumberOfTasks s1 > 0
          then resume_outermost c s1 else Inr (False, s1)) s = Inr (b, s')"
        using r True by (simp add: xTaskResumeAll_def)
      fix s0 r2 s2 assume "I s0" "(let s1 = s0\<lparr>uxSchedulerSuspended := dec32 (uxSchedulerSuspended s0)\<rparr> in
          if uxSchedulerSuspended s1 = 0 \<and> uxCurrentNumberOfTasks s1 > 0
          then resume_outermost c s1 else Inr (False, s1)) = Inr (r2, s2)"
      moreover have "I (s0\<lparr>uxSchedulerSuspended := v\<rparr>) = I s0" for v by (rule waits_conts) simp
      ultimately show "I s2" using waits_resume_outermost by (auto simp: Let_def split: if_splits)
    qed
  qed (use r w in \<open>auto simp: xTaskResumeAll_def\<close>)
qed

subsection \<open>The calls of tasks\<close>

lemma waits_suspend:
  assumes "vTaskSuspend c h s = Inr (r, s')" "I s" "ok (target c h s)"
  shows "I s'"
proof (rule waits_critical [OF assms(1) [unfolded vTaskSuspend_def] assms(2)])
  fix s0 r s1 assume w: "s0 = vTaskEnterCritical c s" "I s0" "bindE (prvGetTCBFromHandle c h s0) (\<lambda>t. bindE (state_remove t s0) (\<lambda>s1.
      bindE (event_remove_if_waiting t s1) (\<lambda>s2. suspend_leave c t (suspend_removed t s2)))) = Inr (r, s1)"
  then obtain t a b where s: "prvGetTCBFromHandle c h s0 = Inr t" "state_remove t s0 = Inr a" "event_remove_if_waiting t a = Inr b"
    "suspend_leave c t (suspend_removed t b) = Inr (r, s1)" by auto
  have "t = target c h s" using s(1) w(1) 
    by (auto simp: prvGetTCBFromHandle_def target_def current_def cur_def follow_def vTaskEnterCritical_def
        set_nesting_def split: option.splits if_splits)
  then have "ok t" using assms(3) by simp
  moreover have "conts s1 = off t (Some SuspendedL) s0"
    unfolding conts_suspend_leave [OF s(4)] conts_suspend_removed conts_removed [OF s(2,3)] by simp
  ultimately show "I s1" using w(2) waits_move by blast
qed

lemma waits_delete: "vTaskDelete c h s = Inr (r, s') \<Longrightarrow> I s \<Longrightarrow> I s'"
  unfolding vTaskDelete_def
proof (erule waits_critical)
  fix s0 r s1 assume w: "I s0" "bindE (prvGetTCBFromHandle c h s0) (\<lambda>t. bindE (state_remove t s0) (\<lambda>s1.
      bindE (event_remove_if_waiting t s1) (delete_removed c t))) = Inr (r, s1)"
  then obtain t a b where s: "state_remove t s0 = Inr a" "event_remove_if_waiting t a = Inr b" "delete_removed c t b = Inr (r, s1)"
    by auto
  obtain x where x: "x \<noteq> Some SuspendedL" "conts s1 = (conts b)(t := (x, snd (conts b t)))"
    using conts_delete_removed [OF s(3)] conts_removed [OF s(1,2)] by auto
  then have "conts s1 = off t x s0" unfolding conts_removed [OF s(1,2)] by simp
  then show "I s1" using w(1) x(1) waits_move by blast
qed

lemma waits_resume: "vTaskResume c h s = Inr (r, s') \<Longrightarrow> I s \<Longrightarrow> I s'"
proof (cases h)
  case (Some t)
  assume r: "vTaskResume c h s = Inr (r, s')" and w: "I s"
  show "I s'"
  proof (rule waits_critical [OF r [unfolded vTaskResume_def Some option.case] w])
    fix s0 r s1 assume w0: "I s0" "(if prvTaskIsTaskSuspended t s0 then bindE (state_remove t s0) (\<lambda>s1.
        bindE (prvAddTaskToReadyList t s1) (\<lambda>s2. bindE (prvYieldForTask c t s2) (\<lambda>s3. Inr ((), s3)))) else Inr ((), s0)) = Inr (r, s1)"
    show "I s1"
    proof (cases "prvTaskIsTaskSuspended t s0")
      case True
      then have n: "snd (conts s0 t) = (None, snd (snd (conts s0 t)))"
        by (intro no_event) (auto simp: prvTaskIsTaskSuspended_def split: if_splits)
      obtain a b where s: "state_remove t s0 = Inr a" "prvAddTaskToReadyList t a = Inr b" "prvYieldForTask c t b = Inr s1"
        using w0(2) True by auto
      obtain p where "conts s1 = (conts s0)(t := (Some (ReadyL p), snd (conts s0 t)))"
        using conts_ops(1) [OF s(1)] conts_add_ready [OF s(2)] conts_ops(5) [OF s(3)] by auto
      then have "conts s1 = off t (Some (ReadyL p)) s0" by (subst (asm) n)
      then show ?thesis using w0(1) waits_move by blast
    qed (use w0 in auto)
  qed
qed (simp add: vTaskResume_def)

text \<open>The running task sleeps: it is in no event list.\<close>

lemma waits_add_delayed:
  assumes "prvAddCurrentTaskToDelayedList c n False s = Inr s'" "I s" "kinv s" "c < configNUMBER_OF_CORES"
    and "on_ready c s" "waiters_wf s"
  shows "I s'"
proof -
  let ?t = "cur s c"
  have n: "snd (conts s ?t) = (None, snd (snd (conts s ?t)))"
    using waiting_delayed [OF assms(3,6), of ?t] assms(5) by (intro no_event) (simp add: on_ready_def)
  obtain s1 where s1: "state_remove ?t (upd_tcb ?t (\<lambda>x. x\<lparr>ucDelayAborted := False\<rparr>) s) = Inr s1"
    using assms(1) by (auto simp: prvAddCurrentTaskToDelayedList_def current_eq [OF assms(3,4)] Let_def)
  have c1: "conts s1 = off ?t None s" using conts_ops(1) [OF s1, unfolded conts_upd] by (subst (asm) n)
  have "pxDelayedTaskList s \<noteq> SuspendedL" "pxOverflowDelayedTaskList s \<noteq> SuspendedL"
    using kinv_delay_lists [OF assms(3)] by auto
  moreover have "pxDelayedTaskList s1 = pxDelayedTaskList s" "pxOverflowDelayedTaskList s1 = pxOverflowDelayedTaskList s"
    using s1 by (auto simp: state_remove_def prim_defs split: option.splits)
  ultimately have "\<exists>x. x \<noteq> Some SuspendedL \<and> conts s' = off ?t x s"
    using assms(1) s1 by (auto simp: prvAddCurrentTaskToDelayedList_def current_eq [OF assms(3,4)] Let_def c1 split: if_splits)
  then show ?thesis using assms(2) waits_move by blast
qed

lemma waits_yield: "I (if b then s else vTaskYieldWithinAPI c s) = I s"
  using waits_conts [OF conts_prims(4)] by simp

lemma waits_delay:
  assumes "vTaskDelay c n s = Inr s'" "I s" "kinv s" "c < configNUMBER_OF_CORES" "on_ready c s" "waiters_wf s"
  shows "I s'"
proof (cases "n = 0")
  case False
  obtain s1 b s2 where s: "prvAddCurrentTaskToDelayedList c n False (vTaskSuspendAll s) = Inr s1" "xTaskResumeAll c s1 = Inr (b, s2)"
    "s' = (if b then s2 else vTaskYieldWithinAPI c s2)"
    using assms(1) False by (auto simp: vTaskDelay_def word_gt_0 split: if_splits)
  have "I s1"
    by (rule waits_add_delayed [OF s(1)]) (use assms waits_conts [OF conts_prims(10)] on_ready_susp waiters_wf_susp in auto)
  then show ?thesis unfolding s(3) waits_yield by (rule waits_resume_all [OF s(2)])
next
  case True
  have "conts s' = conts s" using assms(1) True by (auto simp: vTaskDelay_def)
  then show ?thesis using assms(2) waits_conts by blast
qed

lemma waits_delay_until:
  assumes "xTaskDelayUntil c prev inc s = Inr (r, s')" "I s" "kinv s" "c < configNUMBER_OF_CORES" "on_ready c s" "waiters_wf s"
  shows "I s'"
proof -
  have w0: "I (vTaskSuspendAll s)" using assms(2) waits_conts [OF conts_prims(10)] by simp
  obtain d w s1 b s2 where s: "(if d then prvAddCurrentTaskToDelayedList c w False (vTaskSuspendAll s) else Inr (vTaskSuspendAll s)) = Inr s1"
    "xTaskResumeAll c s1 = Inr (b, s2)" "s' = (if b then s2 else vTaskYieldWithinAPI c s2)"
    using assms(1) unfolding xTaskDelayUntil_def Let_def by (auto split: prod.splits)
  have "I s1"
  proof (cases d)
    case True
    then show ?thesis using waits_add_delayed [of c w "vTaskSuspendAll s" s1] s(1) w0 assms(3-6) on_ready_susp waiters_wf_susp by simp
  qed (use s(1) w0 in simp)
  then show ?thesis unfolding s(3) waits_yield by (rule waits_resume_all [OF s(2)])
qed

subsection \<open>Context switches and idle tasks\<close>

lemma waits_switch: "vTaskSwitchContext c s = Inr s' \<Longrightarrow> I s \<Longrightarrow> I s'"
proof -
  assume v: "vTaskSwitchContext c s = Inr s'" and w: "I s"
  have "conts s' = conts s"
  proof (cases "uxSchedulerSuspended s = 0")
    case True
    then obtain a b p d where s: "rotate_current c (set_yield_pending c False s) = Inr a"
      "select_loop c (uxTopReadyPriority (set_yield_pending c False s)) True a = Inr (b, p, d)"
      "(if b then (case p of None \<Rightarrow> Inr d | Some t \<Rightarrow> place_evicted c t d) else Inr d) = Inr s'"
      using v by (auto simp: vTaskSwitchContext_def prvSelectHighestPriorityTask_def)
    have "conts d = conts s" using conts_rotate [OF s(1)] conts_select_loop [OF s(2)] by simp
    then show ?thesis using s(3) by (auto dest: conts_place_evicted split: if_splits option.splits)
  qed (use v in \<open>auto simp: vTaskSwitchContext_def\<close>)
  then show ?thesis using w waits_conts by blast
qed

lemma waits_termination_round:
  assumes "termination_round c s = Inr (r, s')" "I s" "kinv s" "waiters_wf s"
  shows "I s'"
proof (rule waits_critical [OF assms(1) [unfolded termination_round_def] assms(2)])
  fix s0 r s1 assume s0: "s0 = vTaskEnterCritical c s" "I s0" and r: "(if uxDeletedTasksWaitingCleanUp s0 > 0 then
      bindE (head_of TerminationL s0) (\<lambda>t. if runstate s0 t = taskTASK_NOT_RUNNING then
        bindE (state_remove t s0) (\<lambda>s1. Inr ((Some t, True), s1\<lparr>uxCurrentNumberOfTasks := dec32 (uxCurrentNumberOfTasks s1),
          uxDeletedTasksWaitingCleanUp := dec32 (uxDeletedTasksWaitingCleanUp s1)\<rparr>))
        else Inr ((None, False), s0)) else Inr ((None, True), s0)) = Inr (r, s1)"
  have k: "kinv s0" using assms(3) s0(1) by simp
  have "conts s1 = conts s0 \<or> (\<exists>t. conts s1 = off t None s0)"
  proof (cases "s1 = s0")
    case False
    then obtain t a where t: "head_of TerminationL s0 = Inr t" "state_remove t s0 = Inr a" "conts s1 = conts a"
      using r by (auto split: if_splits)
    have "t \<in> set (lists s0 TerminationL)" using t(1) by (auto simp: head_of_def split: list.splits)
    then have "stateContainer (tcb s0 t) = Some TerminationL" using in_state_list [OF k, of TerminationL t] by simp
    then have n: "snd (conts s0 t) = (None, snd (snd (conts s0 t)))"
      using assms(4) s0(1) by (intro no_event) (auto simp: waiters_wf_def vTaskEnterCritical_def set_nesting_def split: if_splits)
    have "conts s1 = (conts s0)(t := (None, snd (conts s0 t)))" using conts_ops(1) [OF t(2)] t(3) by simp
    then have "conts s1 = off t None s0" by (subst (asm) n)
    then show ?thesis by blast
  qed simp
  then show "I s1" using s0(2) same waits_move [where s' = s1 and x = None and s = s0] by (elim disjE exE) simp_all
qed

subsection \<open>Every step\<close>

lemma waits_handler: "xPortSysTickHandler c s = Inr s' \<Longrightarrow> I s \<Longrightarrow> I s'"
proof -
  assume h: "xPortSysTickHandler c s = Inr s'" and w: "I s"
  obtain b s1 where s1: "xTaskIncrementTick c (vTaskEnterCriticalFromISR c s) = Inr (b, s1)"
    "s' = vTaskExitCriticalFromISR c (if b then portYIELD c s1 else s1)"
    using h by (auto simp: xPortSysTickHandler_def)
  have "I s1" using waits_tick [OF s1(1)] w waits_conts [OF conts_prims(8)] by simp
  moreover have "conts s' = conts s1" using s1(2) by simp
  ultimately show ?thesis using waits_conts by blast
qed

lemma waits_perform:
  assumes "perform c call s = Inr s'" "I s" "stable s" "enabled (TaskCall c call) s" "waiters_wf s"
    and "\<And>h. call = CallSuspend h \<Longrightarrow> ok (target c h s)"
  shows "I s'"
proof -
  have c: "c < configNUMBER_OF_CORES" "\<not> pendsv s c" "\<not> idle_task s (cur s c)" using assms(4) by (simp_all add: enabled_def)
  have k: "kinv s" using assms(3) by (simp add: stable_def)
  have r: "on_ready c s" by (rule runs_on_ready [OF running_live(2) [OF assms(3) c]])
  show ?thesis
    using assms(1,2) waits_delay [OF _ _ k c(1) r assms(5)] waits_delay_until [OF _ _ k c(1) r assms(5)]
    by (cases call) (auto simp: perform_def intro: waits_suspend [OF _ _ assms(6)] waits_resume waits_delete)
qed

lemma waits_idle_sleep:
  assumes "idle_sleep slp c s = Inr s'" "I s" "stable s" "c < configNUMBER_OF_CORES"
  shows "I s'"
  using assms(1,2) prvGetExpectedIdleTime_ok [OF assms(3,4)]
  by (simp add: idle_sleep_def configEXPECTED_IDLE_TIME_BEFORE_SLEEP_def)

lemma waits_act:
  assumes "act slp a s = Inr s'" "enabled a s" "stable s" "I s" "waiters_wf s"
    and "\<And>c h. a = TaskCall c (CallSuspend h) \<Longrightarrow> ok (target c h s)"
  shows "I s'"
proof (cases a)
  case Tick
  then show ?thesis using assms waits_handler by (simp add: act_def)
next
  case (Switch x)
  have "I (s\<lparr>pendsv := (pendsv s)(x := False)\<rparr>)" using assms(4) waits_conts [OF conts_prims(16)] by simp
  then show ?thesis using assms(1) waits_switch by (simp add: act_def Switch)
next
  case (TaskCall c call)
  then show ?thesis using assms waits_perform by (simp add: act_def)
next
  case (IdleRun c piece)
  then have c: "c < configNUMBER_OF_CORES" using assms(2) by (simp add: enabled_def)
  have k: "kinv s" using assms(3) by (simp add: stable_def)
  have y: "I (portYIELD c s)" using assms(4) waits_conts [OF conts_prims(1)] by simp
  have "I s'" if "prvPassiveIdleTask c piece s = Inr s'"
    using that y assms(4) by (cases piece) (auto simp: prvPassiveIdleTask_def split: if_splits)
  moreover have "I s'" if "prvIdleTask slp c piece s = Inr s'"
    using that y assms(4) waits_termination_round [OF _ assms(4) k assms(5)] waits_idle_sleep [OF _ assms(4,3) c]
    by (cases piece) (auto simp: prvIdleTask_def split: if_splits)
  ultimately show ?thesis using assms(1) by (auto simp: act_def IdleRun split: if_splits)
qed

end

section \<open>Who waits afterwards waited before\<close>

text \<open>The tasks that wait afterwards are tasks that waited before, in the same lists.\<close>

definition kept :: "kernel \<Rightarrow> kernel \<Rightarrow> bool" where
  "kept s s' \<longleftrightarrow> (\<forall>t. snd (snd (conts s' t)) = snd (snd (conts s t)) \<and>
     (fst (snd (conts s' t)) \<noteq> None \<longrightarrow> conts s' t = conts s t))"

lemma kept_iff: "kept s s' \<longleftrightarrow> (\<forall>t. event_item s' t = event_item s t \<and> (eventContainer (tcb s' t) \<noteq> None \<longrightarrow>
    eventContainer (tcb s' t) = eventContainer (tcb s t) \<and> stateContainer (tcb s' t) = stateContainer (tcb s t)))"
  by (auto simp: kept_def conts_def)

lemma kept_refl [simp]: "kept s s"
  by (simp add: kept_def)

lemma kept_trans [trans]: "kept s s1 \<Longrightarrow> kept s1 s2 \<Longrightarrow> kept s s2"
  by (auto simp: kept_def)

lemma kept_conts: "conts s' = conts s \<Longrightarrow> kept z s' = kept z s"
  by (simp add: kept_def)

lemma waiters_wf_kept: "waiters_wf s \<Longrightarrow> kept s s' \<Longrightarrow> waiters_wf s'"
  unfolding waiters_wf_def kept_iff by metis


lemma kept_move: "conts s' = off t x s \<Longrightarrow> kept z s \<Longrightarrow> kept z s'"
  by (auto simp: kept_def)

interpretation kept: waiting "kept z" "\<lambda>_. True" for z
proof
  show "conts s' = conts s \<Longrightarrow> kept z s \<Longrightarrow> kept z s'" for s s'
    by (rule iffD2 [OF kept_conts])
  show "conts s' = off t x s \<Longrightarrow> x \<noteq> Some SuspendedL \<or> True \<Longrightarrow> kept z s \<Longrightarrow> kept z s'" for s s' t x
    by (rule kept_move)
qed

lemma kept_act: "act slp a s = Inr s' \<Longrightarrow> enabled a s \<Longrightarrow> stable s \<Longrightarrow> waiters_wf s \<Longrightarrow> kept s s'"
  by (rule kept.waits_act) simp_all

lemma waiters_wf_act: "act slp a s = Inr s' \<Longrightarrow> enabled a s \<Longrightarrow> stable s \<Longrightarrow> waiters_wf s \<Longrightarrow> waiters_wf s'"
  using kept_act waiters_wf_kept by blast

section \<open>A task that waits without a time limit\<close>

text \<open>Task \<open>u\<close> is where it was in \<open>z\<close>, or in no event list and not suspended.\<close>

definition waits_or_left :: "nat \<Rightarrow> kernel \<Rightarrow> kernel \<Rightarrow> bool" where
  "waits_or_left u z s \<longleftrightarrow> conts s u = conts z u \<or>
     eventContainer (tcb s u) = None \<and> stateContainer (tcb s u) \<noteq> Some SuspendedL"

interpretation left: waiting "waits_or_left u z" "\<lambda>t. t \<noteq> u" for u z
proof
  show "conts s' = conts s \<Longrightarrow> waits_or_left u z s \<Longrightarrow> waits_or_left u z s'" for s s'
    by (auto simp: waits_or_left_def conts_def fun_eq_iff)
  fix s s' t x assume c: "conts s' = off t x s" and x: "x \<noteq> Some SuspendedL \<or> t \<noteq> u" and w: "waits_or_left u z s"
  show "waits_or_left u z s'"
  proof (cases "t = u")
    case True
    then have "stateContainer (tcb s' u) = x" "eventContainer (tcb s' u) = None"
      using fun_cong [OF c, of u] by (simp_all add: conts_def)
    then show ?thesis using x True by (simp add: waits_or_left_def)
  next
    case False
    then have "conts s' u = conts s u" using fun_cong [OF c, of u] by simp
    then show ?thesis using w by (auto simp: waits_or_left_def conts_def)
  qed
qed

text \<open>The calls that take task \<open>u\<close> out of the suspended list: its deletion, and its suspension by a call of
  \<open>vTaskSuspend\<close>, after which it can be resumed.\<close>

definition disturbs :: "nat \<Rightarrow> action \<Rightarrow> kernel \<Rightarrow> bool" where
  "disturbs u a s \<longleftrightarrow> (\<exists>c h. (a = TaskCall c (CallSuspend h) \<or> a = TaskCall c (CallDelete h)) \<and> target c h s = u)"

end
