(* ===== verification/QueueSteps.thy ===== *)
theory QueueSteps
  imports QueueProps WaitSteps "HOL-Library.Multiset"
begin

text \<open>
  The running system with queues: tick interrupts, context switches, calls of tasks and idle tasks, and the
  blocking calls on queues and counting semaphores, in any order.  A blocking call is made again with the
  local variables its last round left, or with any others; every step that is enabled completes.
\<close>

section \<open>Steps\<close>

datatype qaction =
    Kernel action
  | QSend nat nat "u8 list" position waiting
  | QReceive nat nat waiting
  | QTake nat nat waiting

datatype qevent = Sent nat position "u8 list" | Got nat "u8 list"

text \<open>The task of core \<open>c\<close> makes the call between two interrupts.\<close>

definition calls_now :: "nat \<Rightarrow> qsys \<Rightarrow> bool" where
  "calls_now c s \<longleftrightarrow> caller c (kern s) \<and> \<not> pendsv (kern s) c"

definition qenabled :: "nat set \<Rightarrow> qaction \<Rightarrow> qsys \<Rightarrow> bool" where
  "qenabled D a s = (case a of
       Kernel k \<Rightarrow> enabled k (kern s)
     | QSend c q item pos v \<Rightarrow> q \<in> D \<and> calls_now c s \<and> length item = uxItemSize (queue_of s q) \<and>
         (pos = queueOVERWRITE \<longrightarrow> uxLength (queue_of s q) = 1 \<and> uxItemSize (queue_of s q) \<noteq> 0)
     | QReceive c q v \<Rightarrow> q \<in> D \<and> calls_now c s
     | QTake c q v \<Rightarrow> q \<in> D \<and> calls_now c s \<and> uxItemSize (queue_of s q) = 0 \<and> \<not> xInheritanceOccurred v)"

text \<open>The messages that were transferred, and the state.\<close>

definition qact :: "(u32 \<Rightarrow> kernel \<Rightarrow> fault + kernel) \<Rightarrow> qaction \<Rightarrow> qsys \<Rightarrow> fault + (qevent list \<times> qsys)" where
  "qact slp a s = (case a of
       Kernel k \<Rightarrow> bindE (on_kern1 (act slp k) s) (\<lambda>s'. Inr ([], s'))
     | QSend c q item pos v \<Rightarrow> bindE (xQueueGenericSend c q item pos v s) (\<lambda>(r, s').
         Inr (if r = Returned True then [Sent q pos item] else [], s'))
     | QReceive c q v \<Rightarrow> bindE (xQueueReceive c q v s) (\<lambda>(r, s').
         Inr (case r of Returned (Some item) \<Rightarrow> [Got q item] | _ \<Rightarrow> [], s'))
     | QTake c q v \<Rightarrow> bindE (xQueueSemaphoreTake c q v s) (\<lambda>(r, s').
         Inr (if r = Returned True then [Got q []] else [], s')))"

inductive qruns :: "(u32 \<Rightarrow> kernel \<Rightarrow> fault + kernel) \<Rightarrow> nat set \<Rightarrow> qsys \<Rightarrow> qevent list \<Rightarrow> qsys \<Rightarrow> bool" for slp D where
  start: "qruns slp D s [] s"
| goes: "qruns slp D s es s1 \<Longrightarrow> qenabled D a s1 \<Longrightarrow> qact slp a s1 = Inr (e, s2) \<Longrightarrow> qruns slp D s (es @ e) s2"

inductive_cases qruns_NilE: "qruns slp D s [] s'"

text \<open>The invariant: the kernel is stable, its event lists are in order and the queues in use are well formed.\<close>

definition sys_ok :: "nat set \<Rightarrow> qsys \<Rightarrow> bool" where
  "sys_ok D s \<longleftrightarrow> stable (kern s) \<and> waiters_wf (kern s) \<and> (\<forall>q \<in> D. queue_wf (queue_of s q))"

section \<open>The queues as lists of messages\<close>

text \<open>What an event does to the messages of queue \<open>q\<close>; an event that cannot happen has no result.\<close>

fun replay :: "nat \<Rightarrow> qevent list \<Rightarrow> u8 list list \<Rightarrow> u8 list list option" where
  "replay q [] xs = Some xs"
| "replay q (Sent k pos x # es) xs = replay q es (if k = q then put_spec pos x xs else xs)"
| "replay q (Got k x # es) xs =
     (if k \<noteq> q then replay q es xs else case xs of [] \<Rightarrow> None | y # ys \<Rightarrow> if y = x then replay q es ys else None)"

lemma replay_append: "replay q (es @ fs) xs = (case replay q es xs of None \<Rightarrow> None | Some ys \<Rightarrow> replay q fs ys)"
  by (induction es xs rule: replay.induct) (auto split: list.splits)

definition sents :: "nat \<Rightarrow> qevent list \<Rightarrow> u8 list list" where
  "sents q es = concat (map (\<lambda>e. case e of Sent k _ x \<Rightarrow> if k = q then [x] else [] | Got _ _ \<Rightarrow> []) es)"

definition gots :: "nat \<Rightarrow> qevent list \<Rightarrow> u8 list list" where
  "gots q es = concat (map (\<lambda>e. case e of Got k x \<Rightarrow> if k = q then [x] else [] | Sent _ _ _ \<Rightarrow> []) es)"

lemma sents_gots_simps [simp]:
  "sents q [] = []" "gots q [] = []" "sents q (Got k x # es) = sents q es" "gots q (Sent k pos x # es) = gots q es"
  "sents q (Sent k pos x # es) = (if k = q then x # sents q es else sents q es)"
  "gots q (Got k x # es) = (if k = q then x # gots q es else gots q es)"
  by (simp_all add: sents_def gots_def)

text \<open>All messages are sent to the back of queue \<open>q\<close>.\<close>

definition back_only :: "nat \<Rightarrow> qevent list \<Rightarrow> bool" where
  "back_only q es \<longleftrightarrow> (\<forall>pos x. Sent q pos x \<in> set es \<longrightarrow> pos = queueSEND_TO_BACK)"

lemma back_only_simps [simp]:
  "back_only q (Got k x # es) = back_only q es"
  "back_only q (Sent k pos x # es) = ((k = q \<longrightarrow> pos = queueSEND_TO_BACK) \<and> back_only q es)"
  by (auto simp: back_only_def)

lemma replay_fifo: "replay q es xs = Some ys \<Longrightarrow> back_only q es \<Longrightarrow> gots q es @ ys = xs @ sents q es"
proof (induction es xs arbitrary: ys rule: replay.induct)
  case (2 q k pos x es xs)
  then show ?case by (cases "k = q") (auto simp: put_spec_def)
next
  case (3 q k x es xs)
  then show ?case by (cases "k = q") (auto split: list.splits if_splits)
qed simp

text \<open>No message of queue \<open>q\<close> is overwritten: then none is lost or doubled, wherever they are sent.\<close>

definition no_overwrite :: "nat \<Rightarrow> qevent list \<Rightarrow> bool" where
  "no_overwrite q es \<longleftrightarrow> (\<forall>x. Sent q queueOVERWRITE x \<notin> set es)"

lemma no_overwrite_simps [simp]:
  "no_overwrite q (Got k x # es) = no_overwrite q es"
  "no_overwrite q (Sent k pos x # es) = ((k = q \<longrightarrow> pos \<noteq> queueOVERWRITE) \<and> no_overwrite q es)"
  by (auto simp: no_overwrite_def)

lemma replay_keeps:
  "replay q es xs = Some ys \<Longrightarrow> no_overwrite q es \<Longrightarrow> mset (gots q es) + mset ys = mset xs + mset (sents q es)"
proof (induction es xs arbitrary: ys rule: replay.induct)
  case (2 q k pos x es xs)
  then show ?case by (cases "k = q"; cases pos) (auto simp: put_spec_def)
next
  case (3 q k x es xs)
  then show ?case by (cases "k = q") (auto split: list.splits if_splits)
qed simp

section \<open>Every step keeps the invariant\<close>

text \<open>One step, seen from the queues: the event is what happened to the messages, and the lengths stay.\<close>

definition refines_queues :: "nat set \<Rightarrow> qsys \<Rightarrow> qevent list \<Rightarrow> qsys \<Rightarrow> bool" where
  "refines_queues D s e s' \<longleftrightarrow> (\<forall>q \<in> D. replay q e (items (queue_of s q)) = Some (items (queue_of s' q)) \<and>
     uxLength (queue_of s' q) = uxLength (queue_of s q) \<and> uxItemSize (queue_of s' q) = uxItemSize (queue_of s q))"

lemma refines_same: "queue_of s' = queue_of s \<Longrightarrow> refines_queues D s [] s'"
  by (simp add: refines_queues_def)

lemma step_sent:
  assumes "sys_ok D s" "sent q pos item (queue_of s) (queue_of s')" "wakes n (kern s) (kern s')" "stable (kern s')"
  shows "sys_ok D s' \<and> refines_queues D s [Sent q pos item] s'"
proof -
  have w: "waiters_wf (kern s')" using assms(1) wakes_waiters_wf [OF assms(3)] by (simp add: sys_ok_def)
  have q: "queue_of s' k = (if k = q then queue_of s' q else queue_of s k)" for k
    using assms(2) by (auto simp: sent_def dest: fun_cong [of _ _ k])
  have "queue_wf (queue_of s' k)" if "k \<in> D" for k
    using assms(1,2) that q [of k] by (cases "k = q") (simp_all add: sys_ok_def sent_def)
  moreover have "replay k [Sent q pos item] (items (queue_of s k)) = Some (items (queue_of s' k)) \<and>
      uxLength (queue_of s' k) = uxLength (queue_of s k) \<and> uxItemSize (queue_of s' k) = uxItemSize (queue_of s k)" for k
    using assms(2) q [of k] by (cases "k = q") (simp_all add: sent_def same_frame_def)
  ultimately show ?thesis using assms(4) w by (simp add: sys_ok_def refines_queues_def)
qed

lemma step_received:
  assumes "sys_ok D s" "received q item (queue_of s) (queue_of s')" "wakes n (kern s) (kern s')" "stable (kern s')"
  shows "sys_ok D s' \<and> refines_queues D s [Got q item] s'"
proof -
  have w: "waiters_wf (kern s')" using assms(1) wakes_waiters_wf [OF assms(3)] by (simp add: sys_ok_def)
  have q: "queue_of s' k = (if k = q then queue_of s' q else queue_of s k)" for k
    using assms(2) by (auto simp: received_def dest: fun_cong [of _ _ k])
  have "queue_wf (queue_of s' k)" if "k \<in> D" for k
    using assms(1,2) that q [of k] by (cases "k = q") (simp_all add: sys_ok_def received_def)
  moreover have "replay k [Got q item] (items (queue_of s k)) = Some (items (queue_of s' k)) \<and>
      uxLength (queue_of s' k) = uxLength (queue_of s k) \<and> uxItemSize (queue_of s' k) = uxItemSize (queue_of s k)" for k
    using assms(2) q [of k] by (cases "k = q") (simp_all add: received_def same_frame_def)
  ultimately show ?thesis using assms(4) w by (simp add: sys_ok_def refines_queues_def)
qed

lemma step_waits:
  assumes "sys_ok D s" "failed_or_blocked c m fails v s r s'"
  shows "sys_ok D s' \<and> refines_queues D s [] s'" "r = Returned x \<Longrightarrow> x = fails"
proof -
  have "queue_of s' = queue_of s" "stable (kern s')" using assms(2) by (simp_all add: failed_or_blocked_def)
  then show "sys_ok D s' \<and> refines_queues D s [] s'"
    using assms(1) failed_or_blocked_waiters_wf [OF assms(2)] refines_same by (simp add: sys_ok_def)
  show "x = fails" if "r = Returned x"
    using assms(2) that by (auto simp: failed_or_blocked_def Let_def split: if_splits prod.splits)
qed

lemma qact_ok:
  assumes ok: "sys_ok D s" and en: "qenabled D a s"
  shows "ensures (qact slp a s) (\<lambda>(e, s'). sys_ok D s' \<and> refines_queues D s e s')"
proof (cases a)
  case (Kernel k)
  have e: "stable (kern s)" "enabled k (kern s)" "waiters_wf (kern s)" using ok en by (simp_all add: sys_ok_def qenabled_def Kernel)
  obtain k' where k': "act slp k (kern s) = Inr k'" "stable k'" using act_ok [OF e(1,2), of slp] by (auto simp: ensures_def)
  have "waiters_wf k'" by (rule waiters_wf_act [OF k'(1) e(2,1,3)])
  then show ?thesis using ok k' refines_same [of "s\<lparr>kern := k'\<rparr>" s D]
    by (simp add: qact_def Kernel on_kern1_def sys_ok_def)
next
  case (QSend c q item pos v)
  have e: "q \<in> D" "caller c (kern s)" "c < configNUMBER_OF_CORES" "stable (kern s)" "waiters_wf (kern s)" "queue_wf (queue_of s q)"
    "length item = uxItemSize (queue_of s q)" "pos = queueOVERWRITE \<longrightarrow> uxLength (queue_of s q) = 1 \<and> uxItemSize (queue_of s q) \<noteq> 0"
    using ok en by (auto simp: sys_ok_def qenabled_def QSend calls_now_def caller_def)
  show ?thesis
  proof (cases "sendable pos item (queue_of s q)")
    case True
    from xQueueGenericSend_ok [OF e(4,5,3,6) True, of v] obtain s' where
      s': "xQueueGenericSend c q item pos v s = Inr (Returned True, s')" "sent q pos item (queue_of s) (queue_of s')"
      "wakes (2 * q + 1) (kern s) (kern s')" "stable (kern s')" by (auto simp: ensures_def)
    then show ?thesis using step_sent [OF ok s'(2-4)] by (simp add: qact_def QSend)
  next
    case False
    then have f: "length (items (queue_of s q)) = uxLength (queue_of s q)" "pos \<noteq> queueOVERWRITE"
      using e(6-8) by (auto simp: sendable_def queue_wf_def split: if_splits)
    from xQueueGenericSend_full [OF e(4,5,2,6) f, of item v] obtain r s' where
      s': "xQueueGenericSend c q item pos v s = Inr (r, s')" "failed_or_blocked c (2 * q) False v s r s'" by (auto simp: ensures_def)
    then show ?thesis using step_waits [OF ok s'(2)] by (auto simp: qact_def QSend)
  qed
next
  case (QReceive c q v)
  have e: "q \<in> D" "caller c (kern s)" "c < configNUMBER_OF_CORES" "stable (kern s)" "waiters_wf (kern s)" "queue_wf (queue_of s q)"
    using ok en by (auto simp: sys_ok_def qenabled_def QReceive calls_now_def caller_def)
  show ?thesis
  proof (cases "items (queue_of s q) = []")
    case False
    from xQueueReceive_ok [OF e(4,5,3,6) False, of v] obtain item s' where
      s': "xQueueReceive c q v s = Inr (Returned (Some item), s')" "received q item (queue_of s) (queue_of s')"
      "wakes (2 * q) (kern s) (kern s')" "stable (kern s')" by (auto simp: ensures_def)
    then show ?thesis using step_received [OF ok s'(2-4)] by (simp add: qact_def QReceive)
  next
    case True
    from xQueueReceive_empty [OF e(4,5,2,6) True, of v] obtain r s' where
      s': "xQueueReceive c q v s = Inr (r, s')" "failed_or_blocked c (2 * q + 1) None v s r s'" by (auto simp: ensures_def)
    then show ?thesis using step_waits [OF ok s'(2)] by (cases r) (auto simp: qact_def QReceive)
  qed
next
  case (QTake c q v)
  have e: "q \<in> D" "caller c (kern s)" "c < configNUMBER_OF_CORES" "stable (kern s)" "waiters_wf (kern s)" "queue_wf (queue_of s q)"
    "uxItemSize (queue_of s q) = 0" "\<not> xInheritanceOccurred v"
    using ok en by (auto simp: sys_ok_def qenabled_def QTake calls_now_def caller_def)
  show ?thesis
  proof (cases "items (queue_of s q) = []")
    case False
    from xQueueSemaphoreTake_ok [OF e(4,5,3,6,7) False, of v] obtain item s' where
      s': "xQueueSemaphoreTake c q v s = Inr (Returned True, s')" "received q item (queue_of s) (queue_of s')"
      "wakes (2 * q) (kern s) (kern s')" "stable (kern s')" by (auto simp: ensures_def)
    have "items (queue_of s q) = replicate (uxMessagesWaiting (queue_of s q)) []" by (rule items_0 [OF e(7)])
    moreover have "item \<in> set (items (queue_of s q))" using s'(2) by (simp add: received_def)
    ultimately have "item = []" by auto
    then show ?thesis using s'(1) step_received [OF ok s'(2-4)] by (simp add: qact_def QTake)
  next
    case True
    from xQueueSemaphoreTake_empty [OF e(4,5,2,6,7) True e(8)] obtain r s' where
      s': "xQueueSemaphoreTake c q v s = Inr (r, s')" "failed_or_blocked c (2 * q + 1) False v s r s'" by (auto simp: ensures_def)
    then show ?thesis using step_waits [OF ok s'(2)] by (auto simp: qact_def QTake)
  qed
qed

lemma refines_trans:
  assumes "refines_queues D s es s1" "refines_queues D s1 e s2"
  shows "refines_queues D s (es @ e) s2"
  using assms by (simp add: refines_queues_def replay_append)

lemma qruns_ok: "qruns slp D s es s' \<Longrightarrow> sys_ok D s \<Longrightarrow> sys_ok D s' \<and> refines_queues D s es s'"
proof (induction rule: qruns.induct)
  case (start s)
  then show ?case by (simp add: refines_same)
next
  case (goes s es s1 a e s2)
  then have s1: "sys_ok D s1" "refines_queues D s es s1" by auto
  have "sys_ok D s2 \<and> refines_queues D s1 e s2"
    using qact_ok [OF s1(1) goes.hyps(2), of slp] goes.hyps(3) by (auto simp: ensures_def)
  then show ?case using refines_trans [OF s1(2)] by blast
qed

end
