(* ===== verification/QueueExample.thy ===== *)
theory QueueExample
  imports MutexProps QueueSteps KernelExample
begin

text \<open>
  Queues in mid-operation: the kernel of the example, where task 3 waits with a time limit to receive from
  queue 0, task 4 waits without one for mutex 1, and task 1 holds mutex 1 at a priority above its own;
  task 6 holds mutex 2 and mutex 3 is free.  Queue 4 is full, queue 5 empty, semaphore 6 stands at 1 of 2.
\<close>

definition demo_kern :: kernel where
  "demo_kern = demo\<lparr>
     tcb := (tcb demo)(3 := (demo_task 3 3 (-1) DelayedL1 105)\<lparr>eventContainer := Some (EventL 1), xEventListItem := 2\<rparr>,
       4 := (demo_task 4 1 (-1) SuspendedL 0)\<lparr>eventContainer := Some (EventL 3), xEventListItem := 1\<rparr>,
       1 := (demo_task 3 1 0 (ReadyL 3) 0)\<lparr>uxBasePriority := 1, uxMutexesHeld := 1\<rparr>,
       6 := (demo_task 2 1 (-1) (ReadyL 2) 0)\<lparr>uxMutexesHeld := 1\<rparr>),
     lists := (lists demo)(EventL 1 := [3], EventL 3 := [4])\<rparr>"

definition demo_queue :: "nat \<Rightarrow> nat \<Rightarrow> nat \<Rightarrow> u8 list \<Rightarrow> queue" where
  "demo_queue len r n st = \<lparr>pcHead = HeadStorage, storage = st, pcWriteTo = int ((r + 1 + n) mod len), pcTail = int len,
     pcReadFrom = int r, xMutexHolder = None, uxRecursiveCallCount = 0, uxMessagesWaiting = n, uxLength = len, uxItemSize = 1,
     cRxLock = queueUNLOCKED, cTxLock = queueUNLOCKED, ucStaticallyAllocated = False, pxQueueSetContainer = None\<rparr>"

definition demo_mutex :: "ptr \<Rightarrow> queue" where
  "demo_mutex h = (demo_queue 1 0 (if h = None then 1 else 0) [])\<lparr>pcHead := HeadNull, uxItemSize := 0, xMutexHolder := h\<rparr>"

definition demo_semaphore :: queue where
  "demo_semaphore = (demo_queue 2 0 1 [])\<lparr>pcHead := HeadSelf, uxItemSize := 0\<rparr>"

definition demo_sys :: qsys where
  "demo_sys = \<lparr>kern = demo_kern, queue_of = (\<lambda>q. if q = 0 then demo_queue 3 2 0 [7, 8, 9]
     else if q = 1 then demo_mutex (Some 1) else if q = 2 then demo_mutex (Some 6) else if q = 3 then demo_mutex None
     else if q = 4 then demo_queue 3 1 3 [7, 8, 9] else if q = 5 then demo_queue 2 1 0 [7, 8] else demo_semaphore)\<rparr>"

lemmas demo_kern_defs = demo_kern_def demo_defs
lemmas demo_queue_defs = demo_queue_def demo_mutex_def demo_semaphore_def

lemma demo_kern_lists_wf: "lists_wf demo_kern"
  unfolding lists_wf_def
proof (intro conjI allI impI)
  fix L t
  show "distinct (lists demo_kern L)" by (simp add: demo_kern_defs)
  show "(t \<in> set (lists demo_kern L)) =
      (if state_list L then stateContainer (tcb demo_kern t) = Some L else eventContainer (tcb demo_kern t) = Some L)"
    by (cases L) (auto simp: demo_kern_defs)
  show "state_list L" if "stateContainer (tcb demo_kern t) = Some L" using that by (auto simp: demo_kern_defs split: if_splits)
  show "\<not> state_list L" if "eventContainer (tcb demo_kern t) = Some L" using that by (auto simp: demo_kern_defs split: if_splits)
qed

lemma demo_kern_stable: "stable demo_kern"
proof -
  have "prios_wf demo_kern" by (auto simp: prios_wf_def demo_kern_defs configMAX_PRIORITIES_def split: if_splits)
  moreover have "delays_wf demo_kern" by (simp add: delays_wf_def demo_kern_defs)
  moreover have "cores_wf demo_kern"
    by (auto simp: cores_wf_def settled_def cur_def may_run_on_def demo_kern_defs taskTASK_NOT_RUNNING_def
        all_cores ex_core)
  moreover have "idle_wf demo_kern" by (simp add: idle_wf_def may_run_on_def demo_kern_defs all_cores)
  moreover have "pended demo_kern" by (simp add: pended_def runs_def cur_def demo_kern_defs all_cores)
  moreover have "ontime demo_kern" by (auto simp: ontime_def demo_kern_defs)
  moreover have "addressed demo_kern" by (auto simp: addressed_def demo_kern_defs split: if_splits)
  ultimately show ?thesis using demo_kern_lists_wf
    by (simp add: stable_def kinv_def) (simp add: demo_kern_defs)
qed

lemma demo_sys_kern [simp]: "kern demo_sys = demo_kern"
  by (simp add: demo_sys_def)

lemma demo_sys_stable: "stable (kern demo_sys)"
  by (simp add: demo_kern_stable)

lemma demo_waiters: "waiters_wf (kern demo_sys)"
  by (simp add: waiters_wf_def demo_kern_defs)

lemma demo_caller: "caller 0 (kern demo_sys)" "caller 1 (kern demo_sys)"
  by (simp_all add: caller_def runs_def idle_task_def cur_def demo_kern_defs configNUMBER_OF_CORES_def
      ex_core [unfolded configNUMBER_OF_CORES_def])

lemma demo_queues_wf: "queue_wf (queue_of demo_sys 0)" "queue_wf (queue_of demo_sys 4)" "queue_wf (queue_of demo_sys 5)"
  "queue_wf (queue_of demo_sys 6)" "mutex_wf (queue_of demo_sys 1)" "mutex_wf (queue_of demo_sys 2)" "mutex_wf (queue_of demo_sys 3)"
  by (simp_all add: demo_sys_def demo_queue_defs queue_wf_def ring_wf_def read_slot_def mutex_wf_def unlocked_def)

lemma demo_items: "items (queue_of demo_sys 0) = []" "items (queue_of demo_sys 4) = [[9], [7], [8]]" "items (queue_of demo_sys 5) = []"
  by (simp_all add: demo_sys_def demo_queue_defs items_def slot_def read_slot_def upt_rec)

lemma demo_sys_ok: "sys_ok {0, 4, 5, 6} demo_sys"
  using demo_sys_stable demo_waiters demo_queues_wf by (simp add: sys_ok_def)

lemma demo_calls_now: "calls_now 0 demo_sys" "calls_now 1 demo_sys"
  using demo_caller by (simp_all add: calls_now_def demo_kern_defs)

end
