(* ===== verification/QueueResults.thy ===== *)
theory QueueResults
  imports QueueExample
begin

text \<open>
  The properties of queues, semaphores and mutexes: a queue is a bounded list of messages, shared by tasks
  that wait for one another, and a mutex has one holder, who never has a lower priority than a task that
  waits for it.
\<close>

section \<open>Sending and receiving\<close>

text \<open>C10: A send that finds room (or overwrites a queue of one item) succeeds, whatever its time limit: the
  message is put behind, before or in place of the messages the queue holds, no other queue changes, and
  the first of the tasks that wait to receive becomes ready, at its own priority, and leaves the event
  list; with none waiting no task moves.\<close>

theorem xQueueGenericSend_refines:
  assumes "stable (kern s)" "waiters_wf (kern s)" "c < configNUMBER_OF_CORES" "queue_wf (queue_of s q)"
    and "length item = uxItemSize (queue_of s q)"
    and "if pos = queueOVERWRITE then uxLength (queue_of s q) = 1 \<and> uxItemSize (queue_of s q) \<noteq> 0
      else length (items (queue_of s q)) < uxLength (queue_of s q)"
  shows "\<exists>s'. xQueueGenericSend c q item pos v s = Inr (Returned True, s') \<and>
    items (queue_of s' q) = (case pos of queueSEND_TO_BACK \<Rightarrow> items (queue_of s q) @ [item]
      | queueSEND_TO_FRONT \<Rightarrow> item # items (queue_of s q) | queueOVERWRITE \<Rightarrow> [item]) \<and>
    (\<forall>k. k \<noteq> q \<longrightarrow> queue_of s' k = queue_of s k) \<and>
    (case lists (kern s) (xTasksWaitingToReceive q) of
       [] \<Rightarrow> \<forall>u. stateContainer (tcb (kern s') u) = stateContainer (tcb (kern s) u)
     | t # ts \<Rightarrow> stateContainer (tcb (kern s') t) = Some (ReadyL (prio (kern s) t)) \<and> eventContainer (tcb (kern s') t) = None \<and>
         lists (kern s') (xTasksWaitingToReceive q) = ts \<and>
         (\<forall>u. u \<noteq> t \<longrightarrow> stateContainer (tcb (kern s') u) = stateContainer (tcb (kern s) u))) \<and>
    stable (kern s') \<and> waiters_wf (kern s') \<and> queue_wf (queue_of s' q)"
proof -
  have ok: "sendable pos item (queue_of s q)" using assms(5,6) by (auto simp: sendable_def split: if_splits)
  obtain s' where s': "xQueueGenericSend c q item pos v s = Inr (Returned True, s')" "sent q pos item (queue_of s) (queue_of s')"
    "wakes (2 * q + 1) (kern s) (kern s')" "stable (kern s')"
    using xQueueGenericSend_ok [OF assms(1-4) ok, of v] by (auto simp: ensures_def)
  have w: "waiters_wf (kern s')" by (rule wakes_waiters_wf [OF s'(3) assms(2)])
  have q: "queue_of s' = (queue_of s)(q := queue_of s' q)" using s'(2) by (simp add: sent_def)
  have o: "\<forall>k. k \<noteq> q \<longrightarrow> queue_of s' k = queue_of s k" using fun_cong [OF q] by (metis fun_upd_other)
  show ?thesis
    by (intro exI [of _ s'] conjI s'(1,4) w o)
      (use s'(2,3) in \<open>auto simp: sent_def put_spec_def wakes_def unmoved_def woke_def xTasksWaitingToReceive_def split: list.splits position.splits\<close>)
qed

text \<open>Task 1 sends to the empty queue 0, and task 3 stops waiting for a message.\<close>

theorem xQueueGenericSend_refines_witness:
  "\<exists>s'. xQueueGenericSend 0 0 [5] queueSEND_TO_BACK (wait_for 0) demo_sys = Inr (Returned True, s') \<and>
    items (queue_of s' 0) = [[5]] \<and> stateContainer (tcb (kern s') 3) = Some (ReadyL 3) \<and> stable (kern s')"
proof -
  have w: "lists (kern demo_sys) (xTasksWaitingToReceive 0) = [3]" "prio demo_kern 3 = 3"
    by (simp_all add: xTasksWaitingToReceive_def demo_kern_defs)
  have q: "length [5::u8] = uxItemSize (queue_of demo_sys 0)"
    "if queueSEND_TO_BACK = queueOVERWRITE then uxLength (queue_of demo_sys 0) = 1 \<and> uxItemSize (queue_of demo_sys 0) \<noteq> 0
      else length (items (queue_of demo_sys 0)) < uxLength (queue_of demo_sys 0)"
    by (simp_all add: demo_sys_def demo_queue_defs)
  have c: "0 < configNUMBER_OF_CORES" by (simp add: configNUMBER_OF_CORES_def)
  from xQueueGenericSend_refines [OF demo_sys_stable demo_waiters c demo_queues_wf(1) q, of "wait_for 0"]
  show ?thesis unfolding demo_items w by (auto simp: w)
qed

text \<open>C11: A receive from a queue that holds messages returns the first at once, whatever its time limit, and
  leaves the others in their order; no other queue changes, and the first of the tasks that wait to send
  becomes ready and leaves the event list.\<close>

theorem xQueueReceive_refines:
  assumes "stable (kern s)" "waiters_wf (kern s)" "c < configNUMBER_OF_CORES" "queue_wf (queue_of s q)"
    and "items (queue_of s q) = item # rest"
  shows "\<exists>s'. xQueueReceive c q v s = Inr (Returned (Some item), s') \<and> items (queue_of s' q) = rest \<and>
    (\<forall>k. k \<noteq> q \<longrightarrow> queue_of s' k = queue_of s k) \<and>
    (case lists (kern s) (xTasksWaitingToSend q) of
       [] \<Rightarrow> \<forall>u. stateContainer (tcb (kern s') u) = stateContainer (tcb (kern s) u)
     | t # ts \<Rightarrow> stateContainer (tcb (kern s') t) = Some (ReadyL (prio (kern s) t)) \<and> eventContainer (tcb (kern s') t) = None \<and>
         lists (kern s') (xTasksWaitingToSend q) = ts \<and>
         (\<forall>u. u \<noteq> t \<longrightarrow> stateContainer (tcb (kern s') u) = stateContainer (tcb (kern s) u))) \<and>
    stable (kern s') \<and> waiters_wf (kern s') \<and> queue_wf (queue_of s' q)"
proof -
  have ne: "items (queue_of s q) \<noteq> []" using assms(5) by simp
  obtain s' item' where s': "xQueueReceive c q v s = Inr (Returned (Some item'), s')" "received q item' (queue_of s) (queue_of s')"
    "wakes (2 * q) (kern s) (kern s')" "stable (kern s')"
    using xQueueReceive_ok [OF assms(1-4) ne, of v] by (auto simp: ensures_def)
  have w: "waiters_wf (kern s')" by (rule wakes_waiters_wf [OF s'(3) assms(2)])
  have i: "item' = item" "items (queue_of s' q) = rest" "queue_wf (queue_of s' q)" using s'(2) assms(5) by (simp_all add: received_def)
  have q: "queue_of s' = (queue_of s)(q := queue_of s' q)" using s'(2) by (simp add: received_def)
  have o: "\<forall>k. k \<noteq> q \<longrightarrow> queue_of s' k = queue_of s k" using fun_cong [OF q] by (metis fun_upd_other)
  show ?thesis
    by (intro exI [of _ s'] conjI s'(1) [unfolded i(1)] s'(4) w o i(2,3))
      (use s'(3) in \<open>auto simp: wakes_def unmoved_def woke_def xTasksWaitingToSend_def split: list.splits\<close>)
qed

theorem xQueueReceive_refines_witness:
  "\<exists>s'. xQueueReceive 1 4 (wait_for 0) demo_sys = Inr (Returned (Some [9]), s') \<and> items (queue_of s' 4) = [[7], [8]]"
proof -
  have c: "1 < configNUMBER_OF_CORES" by (simp add: configNUMBER_OF_CORES_def)
  from xQueueReceive_refines [OF demo_sys_stable demo_waiters c demo_queues_wf(2) demo_items(2), of "wait_for 0"]
  show ?thesis by auto
qed

section \<open>First in, first out\<close>

text \<open>A send, or a receive, that is to succeed at once.\<close>

definition send_now :: "nat \<Rightarrow> nat \<Rightarrow> position \<Rightarrow> u8 list \<Rightarrow> qsys \<Rightarrow> fault + qsys" where
  "send_now c q pos item s = bindE (xQueueGenericSend c q item pos (wait_for 0) s) (\<lambda>(r, s').
     if r = Returned True then Inr s' else Inl Diverges)"

definition receive_now :: "nat \<Rightarrow> nat \<Rightarrow> qsys \<Rightarrow> fault + (u8 list \<times> qsys)" where
  "receive_now c q s = bindE (xQueueReceive c q (wait_for 0) s) (\<lambda>(r, s').
     case r of Returned (Some item) \<Rightarrow> Inr (item, s') | _ \<Rightarrow> Inl Diverges)"

definition queue_ready :: "nat \<Rightarrow> nat \<Rightarrow> qsys \<Rightarrow> bool" where
  "queue_ready c q s \<longleftrightarrow> stable (kern s) \<and> waiters_wf (kern s) \<and> c < configNUMBER_OF_CORES \<and> queue_wf (queue_of s q)"

lemma send_now_ok:
  assumes "queue_ready c q s" "length (items (queue_of s q)) < uxLength (queue_of s q)" "item_fits (queue_of s q) x"
    and pos: "pos \<noteq> queueOVERWRITE"
  shows "\<exists>s'. send_now c q pos x s = Inr s' \<and> queue_ready c q s' \<and> items (queue_of s' q) = put_spec pos x (items (queue_of s q)) \<and>
    same_frame (queue_of s q) (queue_of s' q)"
proof -
  have a: "stable (kern s)" "waiters_wf (kern s)" "c < configNUMBER_OF_CORES" "queue_wf (queue_of s q)"
    using assms(1) by (simp_all add: queue_ready_def)
  have ok: "sendable pos x (queue_of s q)" using assms(2,3) pos by (simp add: sendable_def item_fits_def)
  obtain s' where s': "xQueueGenericSend c q x pos (wait_for 0) s = Inr (Returned True, s')" "sent q pos x (queue_of s) (queue_of s')"
    "wakes (2 * q + 1) (kern s) (kern s')" "stable (kern s')"
    using xQueueGenericSend_ok [OF a ok, of "wait_for 0"] by (auto simp: ensures_def)
  have "waiters_wf (kern s')" by (rule wakes_waiters_wf [OF s'(3) a(2)])
  then show ?thesis using s' a(3) by (auto simp: send_now_def sent_def queue_ready_def)
qed

lemma receive_now_ok:
  assumes "queue_ready c q s" "items (queue_of s q) = x # xs"
  shows "\<exists>s'. receive_now c q s = Inr (x, s') \<and> queue_ready c q s' \<and> items (queue_of s' q) = xs \<and>
    same_frame (queue_of s q) (queue_of s' q)"
proof -
  have a: "stable (kern s)" "waiters_wf (kern s)" "c < configNUMBER_OF_CORES" "queue_wf (queue_of s q)" "items (queue_of s q) \<noteq> []"
    using assms by (simp_all add: queue_ready_def)
  obtain s' y where s': "xQueueReceive c q (wait_for 0) s = Inr (Returned (Some y), s')" "received q y (queue_of s) (queue_of s')"
    "wakes (2 * q) (kern s) (kern s')" "stable (kern s')"
    using xQueueReceive_ok [OF a, of "wait_for 0"] by (auto simp: ensures_def)
  have "waiters_wf (kern s')" by (rule wakes_waiters_wf [OF s'(3) a(2)])
  then show ?thesis using s' a(3) assms(2) by (auto simp: receive_now_def received_def queue_ready_def)
qed

lemma same_frame_fits: "same_frame x y \<Longrightarrow> uxLength y = uxLength x \<and> item_fits y = item_fits x"
  by (simp add: same_frame_def item_fits_def fun_eq_iff)

text \<open>The calls of tasks are a bounded buffer, as the copy operations below them are.\<close>

interpretation calls: bounded_buffer "send_now c q queueSEND_TO_BACK" "send_now c q queueSEND_TO_FRONT" "receive_now c q"
  "\<lambda>s. items (queue_of s q)" "queue_ready c q" "\<lambda>s. uxLength (queue_of s q)" "\<lambda>s. item_fits (queue_of s q)" for c q
proof unfold_locales
  fix s :: qsys and x :: "u8 list"
  assume s: "queue_ready c q s" "length (items (queue_of s q)) < uxLength (queue_of s q)" "item_fits (queue_of s q) x"
  have ok: "\<exists>s'. send_now c q pos x s = Inr s' \<and> queue_ready c q s' \<and> items (queue_of s' q) = put_spec pos x (items (queue_of s q)) \<and>
      uxLength (queue_of s' q) = uxLength (queue_of s q) \<and> item_fits (queue_of s' q) = item_fits (queue_of s q)"
    if "pos \<noteq> queueOVERWRITE" for pos
    using send_now_ok [OF s that] same_frame_fits by blast
  show "\<exists>s'. send_now c q queueSEND_TO_BACK x s = Inr s' \<and> queue_ready c q s' \<and> items (queue_of s' q) = items (queue_of s q) @ [x] \<and>
      uxLength (queue_of s' q) = uxLength (queue_of s q) \<and> item_fits (queue_of s' q) = item_fits (queue_of s q)"
    "\<exists>s'. send_now c q queueSEND_TO_FRONT x s = Inr s' \<and> queue_ready c q s' \<and> items (queue_of s' q) = x # items (queue_of s q) \<and>
      uxLength (queue_of s' q) = uxLength (queue_of s q) \<and> item_fits (queue_of s' q) = item_fits (queue_of s q)"
    using ok [of queueSEND_TO_BACK] ok [of queueSEND_TO_FRONT] by (simp_all add: put_spec_def)
next
  fix s :: qsys and x :: "u8 list" and xs
  assume "queue_ready c q s" "items (queue_of s q) = x # xs"
  from receive_now_ok [OF this] same_frame_fits
  show "\<exists>s'. receive_now c q s = Inr (x, s') \<and> queue_ready c q s' \<and> items (queue_of s' q) = xs \<and>
      uxLength (queue_of s' q) = uxLength (queue_of s q) \<and> item_fits (queue_of s' q) = item_fits (queue_of s q)"
    by blast
qed

text \<open>First in, first out: when tasks send messages to the back of a queue, up to its length, and as many
  are received as it then holds, every call succeeds at once and the messages arrive in the order in
  which they were sent, behind those that were there.\<close>

theorem queue_fifo:
  assumes "stable (kern s)" "waiters_wf (kern s)" "c < configNUMBER_OF_CORES" "queue_wf (queue_of s q)"
    and "length (items (queue_of s q)) + length xs \<le> uxLength (queue_of s q)"
    and "\<forall>x \<in> set xs. length x = uxItemSize (queue_of s q)"
  shows "\<exists>s1 s2. bounded_buffer.puts (send_now c q queueSEND_TO_BACK) xs s = Inr s1 \<and>
    bounded_buffer.gets (receive_now c q) (length (items (queue_of s q)) + length xs) s1 = Inr (items (queue_of s q) @ xs, s2) \<and>
    stable (kern s2) \<and> items (queue_of s2 q) = []"
  using calls.fifo [of c q s xs] assms by (auto simp: queue_ready_def item_fits_def)

theorem queue_fifo_witness:
  "\<exists>s1 s2. bounded_buffer.puts (send_now 0 5 queueSEND_TO_BACK) [[1], [2]] demo_sys = Inr s1 \<and>
    bounded_buffer.gets (receive_now 0 5) 2 s1 = Inr ([[1], [2]], s2)"
proof -
  have c: "0 < configNUMBER_OF_CORES" by (simp add: configNUMBER_OF_CORES_def)
  have q: "length (items (queue_of demo_sys 5)) + length [[1], [2::u8]] \<le> uxLength (queue_of demo_sys 5)"
    "\<forall>x \<in> set [[1], [2::u8]]. length x = uxItemSize (queue_of demo_sys 5)"
    by (simp_all add: demo_sys_def demo_queue_defs)
  from queue_fifo [OF demo_sys_stable demo_waiters c demo_queues_wf(3) q]
  show ?thesis unfolding demo_items by (auto simp: numeral_2_eq_2)
qed

section \<open>Waiting for a queue\<close>

text \<open>What a call does that cannot proceed, \<open>k\<close> ticks after the task entered it: without a limit the task
  waits, otherwise it returns if \<open>k\<close> has reached the ticks to wait and waits for the others if not.\<close>

definition waited :: "nat \<Rightarrow> nat \<Rightarrow> nat \<Rightarrow> 'r \<Rightarrow> waiting \<Rightarrow> kernel \<Rightarrow> 'r round \<Rightarrow> kernel \<Rightarrow> bool" where
  "waited c m k fails v s r s' \<longleftrightarrow>
     (let n = xTicksToWait v in
      if n = portMAX_DELAY then
        r = Again (v\<lparr>xTimeOut := Some (entry_time v s), xInheritanceOccurred := False\<rparr>) \<and> blocked c m n s s'
      else if unat n \<le> k then r = Returned fails \<and> (\<forall>u. stateContainer (tcb s' u) = stateContainer (tcb s u))
      else r = Again (v\<lparr>xTimeOut := Some (vTaskInternalSetTimeOutState s), xTicksToWait := n - of_nat k, xInheritanceOccurred := False\<rparr>) \<and>
        blocked c m (n - of_nat k) s s')"

text \<open>\<open>k\<close> ticks have gone by since the time was taken.\<close>

definition ticks_since :: "timeout \<Rightarrow> nat \<Rightarrow> kernel \<Rightarrow> bool" where
  "ticks_since tmo k s \<longleftrightarrow> k < 2 ^ 32 \<and> xTickCount s = xTimeOnEntering tmo + of_nat k \<and>
     xNumOfOverflows s = xOverflowCount tmo + (if unat (xTimeOnEntering tmo) + k < 2 ^ 32 then 0 else 1)"

lemma failed_or_blocked_waited:
  assumes f: "failed_or_blocked c m fails v s r s'" and k: "ticks_since (entry_time v (kern s)) k (kern s)"
  shows "waited c m k fails v (kern s) r (kern s')"
proof (cases "xTicksToWait v = portMAX_DELAY")
  case True
  then have "check_timeout (kern s) (entry_time v (kern s)) (xTicksToWait v) = (False, entry_time v (kern s), xTicksToWait v)"
    "xTicksToWait v \<noteq> 0"
    by (simp_all add: check_timeout_def portMAX_DELAY_def Let_def)
  then show ?thesis using f True by (simp add: failed_or_blocked_def waited_def)
next
  case False
  then have "check_timeout (kern s) (entry_time v (kern s)) (xTicksToWait v) =
      (if k < unat (xTicksToWait v) then (False, vTaskInternalSetTimeOutState (kern s), xTicksToWait v - of_nat k)
       else (True, entry_time v (kern s), 0))"
    using check_timeout_exact [of k "xTicksToWait v" "kern s" "entry_time v (kern s)"] k by (simp add: ticks_since_def)
  moreover have "xTicksToWait v \<noteq> 0" if "k < unat (xTicksToWait v)" using that by auto
  ultimately show ?thesis using f False
    by (cases "k < unat (xTicksToWait v)") (auto simp: failed_or_blocked_def waited_def Let_def unmoved_def not_less)
qed

text \<open>A receive from an empty queue: when \<open>k\<close> ticks have gone by since the call was made, across any
  number of rounds and the wrap of the tick count, it fails if \<open>k\<close> has reached its time limit, without
  moving a task, and otherwise puts the task in the event list of the queue, behind those of its
  priority, to be woken after exactly the rest of the time.  No queue changes.\<close>

theorem xQueueReceive_waits:
  assumes "stable (kern s)" "waiters_wf (kern s)" "caller c (kern s)" "queue_wf (queue_of s q)" "items (queue_of s q) = []"
    and "ticks_since (entry_time v (kern s)) k (kern s)"
  shows "\<exists>r s'. xQueueReceive c q v s = Inr (r, s') \<and> queue_of s' = queue_of s \<and>
    waited c (2 * q + 1) k None v (kern s) r (kern s') \<and> stable (kern s') \<and> waiters_wf (kern s')"
proof -
  obtain r s' where s': "xQueueReceive c q v s = Inr (r, s')" "failed_or_blocked c (2 * q + 1) None v s r s'"
    using xQueueReceive_empty [OF assms(1-5), of v] by (auto simp: ensures_def)
  then have "queue_of s' = queue_of s" "stable (kern s')" by (simp_all add: failed_or_blocked_def)
  then show ?thesis
    using s' failed_or_blocked_waited [OF s'(2) assms(6)] failed_or_blocked_waiters_wf [OF s'(2) assms(2)] by blast
qed

text \<open>Two ticks after it was made with a limit of five, the receive of task 1 from queue 5 waits for
  three more.\<close>

theorem xQueueReceive_waits_witness:
  defines "v \<equiv> \<lparr>xTimeOut = Some \<lparr>xOverflowCount = 0, xTimeOnEntering = 98\<rparr>, xTicksToWait = 5, xInheritanceOccurred = False\<rparr>"
  shows "\<exists>v' s'. xQueueReceive 0 5 v demo_sys = Inr (Again v', s') \<and> xTicksToWait v' = 3 \<and>
    remaining (kern s') 1 = Some 3 \<and> lists (kern s') (xTasksWaitingToReceive 5) = [1]"
proof -
  have t: "entry_time v demo_kern = \<lparr>xOverflowCount = 0, xTimeOnEntering = 98\<rparr>" by (simp add: entry_time_def v_def)
  have k: "ticks_since (entry_time v (kern demo_sys)) 2 (kern demo_sys)"
    unfolding demo_sys_kern t by (simp add: ticks_since_def demo_kern_defs)
  have w: "waited 0 11 2 fails v demo_kern r s' \<longleftrightarrow>
      r = Again (v\<lparr>xTimeOut := Some (vTaskInternalSetTimeOutState demo_kern), xTicksToWait := 3\<rparr>) \<and> blocked 0 11 3 demo_kern s'" for fails r s'
    by (simp add: waited_def v_def portMAX_DELAY_def)
  have c: "cur demo_kern 0 = 1" "lists demo_kern (EventL 11) = []" by (simp_all add: cur_def demo_kern_defs)
  have one: "insert_after_le f x [] = [x]" for f and x :: nat by (simp add: insert_after_le_def)
  from xQueueReceive_waits [OF demo_sys_stable demo_waiters demo_caller(1) demo_queues_wf(3) demo_items(3) k]
  show ?thesis by (auto simp: w blocked_def c one xTasksWaitingToReceive_def portMAX_DELAY_def)
qed

text \<open>A send to the back or the front of a full queue: it fails, or puts the task in the list of those
  that wait to send for exactly the rest of its time, as a receive from an empty queue does.\<close>

theorem xQueueGenericSend_waits:
  assumes "stable (kern s)" "waiters_wf (kern s)" "caller c (kern s)" "queue_wf (queue_of s q)"
    and "length (items (queue_of s q)) = uxLength (queue_of s q)" "pos \<noteq> queueOVERWRITE"
    and "ticks_since (entry_time v (kern s)) k (kern s)"
  shows "\<exists>r s'. xQueueGenericSend c q item pos v s = Inr (r, s') \<and> queue_of s' = queue_of s \<and>
    waited c (2 * q) k False v (kern s) r (kern s') \<and> stable (kern s') \<and> waiters_wf (kern s')"
proof -
  obtain r s' where s': "xQueueGenericSend c q item pos v s = Inr (r, s')" "failed_or_blocked c (2 * q) False v s r s'"
    using xQueueGenericSend_full [OF assms(1-6), of item v] by (auto simp: ensures_def)
  then have "queue_of s' = queue_of s" "stable (kern s')" by (simp_all add: failed_or_blocked_def)
  then show ?thesis
    using s' failed_or_blocked_waited [OF s'(2) assms(7)] failed_or_blocked_waiters_wf [OF s'(2) assms(2)] by blast
qed

text \<open>Task 1 sends to the full queue 4 without a time limit, and is suspended.\<close>

theorem xQueueGenericSend_waits_witness:
  "\<exists>v s'. xQueueGenericSend 0 4 [5] queueSEND_TO_BACK (wait_for portMAX_DELAY) demo_sys = Inr (Again v, s') \<and>
    stateContainer (tcb (kern s') 1) = Some SuspendedL \<and> items (queue_of s' 4) = [[9], [7], [8]]"
proof -
  have k: "ticks_since (entry_time (wait_for portMAX_DELAY) (kern demo_sys)) 0 (kern demo_sys)"
    using unsigned_less [of "xTickCount demo_kern"]
    by (simp add: ticks_since_def entry_time_def wait_for_def vTaskInternalSetTimeOutState_def)
  have f: "length (items (queue_of demo_sys 4)) = uxLength (queue_of demo_sys 4)" "queueSEND_TO_BACK \<noteq> queueOVERWRITE"
    by (simp_all add: demo_sys_def demo_queue_defs)
  have c: "cur demo_kern 0 = 1" by (simp add: cur_def demo_kern_defs)
  from xQueueGenericSend_waits [OF demo_sys_stable demo_waiters demo_caller(1) demo_queues_wf(2) f k, of "[5]"]
  obtain r s' where s': "xQueueGenericSend 0 4 [5] queueSEND_TO_BACK (wait_for portMAX_DELAY) demo_sys = Inr (r, s')"
    "queue_of s' = queue_of demo_sys" "waited 0 (2 * 4) 0 False (wait_for portMAX_DELAY) (kern demo_sys) r (kern s')" by blast
  moreover have "items (queue_of s' 4) = [[9], [7], [8]]" using s'(2) demo_items(2) by simp
  ultimately show ?thesis using c by (auto simp: waited_def blocked_def wait_for_def)
qed

section \<open>Mutexes\<close>

text \<open>C12: A mutex has one holder: a take, with any time limit, returns success exactly when the mutex is free,
  the task that took it is then the holder, and while it is held the holder stays the same.\<close>

theorem mutex_exclusive:
  assumes "stable (kern s)" "waiters_wf (kern s)" "caller c (kern s)" "mutex_wf (queue_of s q)"
    and "\<And>t. xMutexHolder (queue_of s q) = Some t \<Longrightarrow> \<not> idle_task (kern s) t"
  shows "\<exists>r s'. xQueueSemaphoreTake c q (wait_for n) s = Inr (r, s') \<and>
    (r = Returned True \<longleftrightarrow> xMutexHolder (queue_of s q) = None) \<and>
    xMutexHolder (queue_of s' q) = (case xMutexHolder (queue_of s q) of None \<Rightarrow> Some (cur (kern s) c) | Some t \<Rightarrow> Some t) \<and>
    stable (kern s') \<and> waiters_wf (kern s') \<and> mutex_wf (queue_of s' q)"
proof (cases "xMutexHolder (queue_of s q)")
  case None
  have c: "c < configNUMBER_OF_CORES" using assms(3) by (simp add: caller_def)
  obtain s' where s': "xQueueSemaphoreTake c q (wait_for n) s = Inr (Returned True, s')" "taken q (cur (kern s) c) (queue_of s) (queue_of s')"
    "wakes (2 * q) (kern s) (kern s')" "stable (kern s')"
    using xQueueSemaphoreTake_free [OF assms(1,2) c assms(4) None, of "wait_for n"] by (auto simp: ensures_def)
  have "xMutexHolder (queue_of s' q) = Some (cur (kern s) c)" using s'(2) by (simp add: taken_def)
  then show ?thesis using s' None wakes_waiters_wf [OF s'(3) assms(2)] taken_wf [OF s'(2) assms(4)] by auto
next
  case (Some t)
  note i = assms(5) [OF Some]
  show ?thesis
  proof (cases "n = 0")
    case True
    have c: "c < configNUMBER_OF_CORES" using assms(3) by (simp add: caller_def)
    have none: "uxMessagesWaiting (queue_of s q) = 0" using assms(4) Some by (simp add: mutex_wf_def)
    have "xQueueSemaphoreTake c q (wait_for n) s = Inr (Returned False, upd_kern (kick c) s)"
      unfolding xQueueSemaphoreTake_def
      by (subst blocking_round_fails [OF assms(1) c]) (simp_all add: take_body_def none Let_def True wait_for_def)
    then show ?thesis using Some assms(4) stable_kick [OF assms(1), of c] assms(2) by (simp add: waiters_wf_def)
  next
    case False
    obtain v s' where s': "xQueueSemaphoreTake c q (wait_for n) s = Inr (Again v, s')" "queue_of s' = queue_of s" "stable (kern s')"
      and h: "\<exists>h. waiters_wf h \<and> blocked c (2 * q + 1) n h (kern s')"
      using xQueueSemaphoreTake_blocks [OF assms(1-4) Some i False] by (auto simp: ensures_def)
    have "waiters_wf (kern s')" using h blocked_waiters_wf stable_running(2) [OF s'(3)] by blast
    then show ?thesis using s' Some assms(4) by simp
  qed
qed

text \<open>Task 1 takes the free mutex 3, and task 2 cannot take mutex 1.\<close>

theorem mutex_exclusive_witness:
  "(\<exists>s'. xQueueSemaphoreTake 0 3 (wait_for 0) demo_sys = Inr (Returned True, s') \<and> xMutexHolder (queue_of s' 3) = Some 1) \<and>
   (\<exists>r s'. xQueueSemaphoreTake 1 1 (wait_for 5) demo_sys = Inr (r, s') \<and> r \<noteq> Returned True \<and> xMutexHolder (queue_of s' 1) = Some 1)"
proof -
  have h: "xMutexHolder (queue_of demo_sys 3) = None" "xMutexHolder (queue_of demo_sys 1) = Some 1"
    by (simp_all add: demo_sys_def demo_queue_defs)
  have i: "\<not> idle_task (kern demo_sys) 1" by (auto simp: idle_task_def demo_kern_defs)
  have c: "cur demo_kern 0 = 1" by (simp add: cur_def demo_kern_defs)
  have "\<exists>s'. xQueueSemaphoreTake 0 3 (wait_for 0) demo_sys = Inr (Returned True, s') \<and> xMutexHolder (queue_of s' 3) = Some 1"
    using mutex_exclusive [OF demo_sys_stable demo_waiters demo_caller(1) demo_queues_wf(7), of 0] c by (auto simp: h)
  moreover have "\<exists>r s'. xQueueSemaphoreTake 1 1 (wait_for 5) demo_sys = Inr (r, s') \<and> r \<noteq> Returned True \<and> xMutexHolder (queue_of s' 1) = Some 1"
  proof -
    have "\<not> idle_task (kern demo_sys) t" if "xMutexHolder (queue_of demo_sys 1) = Some t" for t using that i unfolding h by simp
    from mutex_exclusive [OF demo_sys_stable demo_waiters demo_caller(2) demo_queues_wf(5) this, of 5]
    show ?thesis unfolding h by auto
  qed
  ultimately show ?thesis ..
qed

text \<open>C13: A task that waits for a mutex lends its priority to the holder: the holder has the higher of the two
  priorities and, if it was ready, is in the ready list of that priority; the task waits in the event list
  of the mutex for exactly the time it asked for, and every other task keeps its priority.\<close>

theorem mutex_wait_lends_priority:
  assumes "stable (kern s)" "waiters_wf (kern s)" "caller c (kern s)" "mutex_wf (queue_of s q)"
    and "xMutexHolder (queue_of s q) = Some t" "\<not> idle_task (kern s) t" "t \<noteq> cur (kern s) c" "n \<noteq> 0"
  defines "p \<equiv> max (prio (kern s) t) (prio (kern s) (cur (kern s) c))"
  shows "\<exists>v s'. xQueueSemaphoreTake c q (wait_for n) s = Inr (Again v, s') \<and> stable (kern s') \<and>
    (\<forall>u. prio (kern s') u = (if u = t then p else prio (kern s) u)) \<and>
    (stateContainer (tcb (kern s) t) = Some (ReadyL (prio (kern s) t)) \<longrightarrow> stateContainer (tcb (kern s') t) = Some (ReadyL p)) \<and>
    eventContainer (tcb (kern s') (cur (kern s) c)) = Some (xTasksWaitingToReceive q) \<and>
    (if n = portMAX_DELAY then stateContainer (tcb (kern s') (cur (kern s) c)) = Some SuspendedL
     else remaining (kern s') (cur (kern s) c) = Some (unat n))"
proof -
  obtain v s' h where s': "xQueueSemaphoreTake c q (wait_for n) s = Inr (Again v, s')" "stable (kern s')"
    and h: "reprio t p (kern s) h" "blocked c (2 * q + 1) n h (kern s')"
    using xQueueSemaphoreTake_blocks [OF assms(1-6) assms(8)] unfolding p_def by (auto simp: ensures_def)
  have c: "cur h = cur (kern s)" using h(1) by (simp add: reprio_def cur_def fun_eq_iff)
  show ?thesis using s' h assms(7) unfolding reprio_def blocked_def c xTasksWaitingToReceive_def by auto
qed

text \<open>Task 1, at priority 3, waits for mutex 2, and its holder, task 6, runs at priority 3 from then on.\<close>

theorem mutex_wait_lends_priority_witness:
  "\<exists>v s'. xQueueSemaphoreTake 0 2 (wait_for 7) demo_sys = Inr (Again v, s') \<and> prio (kern s') 6 = 3 \<and>
    stateContainer (tcb (kern s') 6) = Some (ReadyL 3) \<and> remaining (kern s') 1 = Some 7"
proof -
  have h: "xMutexHolder (queue_of demo_sys 2) = Some 6" "\<not> idle_task (kern demo_sys) 6" "6 \<noteq> cur (kern demo_sys) 0" "(7::u32) \<noteq> 0"
    by (auto simp: demo_sys_def demo_queue_defs idle_task_def cur_def demo_kern_defs)
  have c: "cur demo_kern 0 = 1" "prio demo_kern 6 = 2" "prio demo_kern 1 = 3" "stateContainer (tcb demo_kern 6) = Some (ReadyL 2)"
    by (simp_all add: cur_def demo_kern_defs)
  show ?thesis
    using mutex_wait_lends_priority [OF demo_sys_stable demo_waiters demo_caller(1) demo_queues_wf(6) h]
    by (auto simp: c c [unfolded One_nat_def] portMAX_DELAY_def)
qed

text \<open>C14: When the holder gives its only mutex back, it has its base priority again, the mutex is free, and the
  first of the tasks that wait for it becomes ready and leaves the event list; a holder of several mutexes
  keeps the priority it has inherited.\<close>

theorem mutex_give_restores_priority:
  assumes "stable (kern s)" "waiters_wf (kern s)" "c < configNUMBER_OF_CORES" "mutex_wf (queue_of s q)"
    and "xMutexHolder (queue_of s q) = Some t" "\<not> idle_task (kern s) t" "stateContainer (tcb (kern s) t) = Some (ReadyL (prio (kern s) t))"
    and "0 < uxMutexesHeld (tcb (kern s) t)" "uxMutexesHeld (tcb (kern s) t) < 2 ^ 32"
  shows "\<exists>s'. xQueueGenericSend c q [] queueSEND_TO_BACK v s = Inr (Returned True, s') \<and>
    xMutexHolder (queue_of s' q) = None \<and> uxMessagesWaiting (queue_of s' q) = 1 \<and>
    (\<forall>u. prio (kern s') u =
      (if u = t \<and> uxMutexesHeld (tcb (kern s) t) = 1 then uxBasePriority (tcb (kern s) t) else prio (kern s) u)) \<and>
    (case lists (kern s) (xTasksWaitingToReceive q) of [] \<Rightarrow> True
     | w # ws \<Rightarrow> stateContainer (tcb (kern s') w) = Some (ReadyL (prio (kern s') w)) \<and> eventContainer (tcb (kern s') w) = None \<and>
         lists (kern s') (xTasksWaitingToReceive q) = ws) \<and>
    stable (kern s') \<and> waiters_wf (kern s')"
proof -
  obtain s' where s': "xQueueGenericSend c q [] queueSEND_TO_BACK v s = Inr (Returned True, s')" "given q (queue_of s) (queue_of s')"
    "handed_on t (returned_prio (kern s) t) (2 * q + 1) (kern s) (kern s')" "waiters_wf (kern s')" "stable (kern s')"
    using xQueueGenericSend_mutex [OF assms, of v] by (auto simp: ensures_def)
  have g: "xMutexHolder (queue_of s' q) = None" "uxMessagesWaiting (queue_of s' q) = 1" using s'(2) by (simp_all add: given_def)
  have p: "\<forall>u. prio (kern s') u =
      (if u = t \<and> uxMutexesHeld (tcb (kern s) t) = 1 then uxBasePriority (tcb (kern s) t) else prio (kern s) u)"
    using s'(3) by (simp add: handed_on_def returned_prio_def)
  show ?thesis
    by (intro exI [of _ s'] conjI s'(1,4,5) g p)
      (use s'(3) in \<open>auto simp: handed_on_def xTasksWaitingToReceive_def split: list.splits\<close>)
qed

text \<open>Task 1 gives mutex 1 back: its priority falls from 3 to 1, and task 4 no longer waits.\<close>

theorem mutex_give_restores_priority_witness:
  "\<exists>s'. xQueueGenericSend 0 1 [] queueSEND_TO_BACK (wait_for 0) demo_sys = Inr (Returned True, s') \<and>
    xMutexHolder (queue_of s' 1) = None \<and> prio (kern s') 1 = 1 \<and> stateContainer (tcb (kern s') 4) = Some (ReadyL 4)"
proof -
  have c: "0 < configNUMBER_OF_CORES" by (simp add: configNUMBER_OF_CORES_def)
  have h: "xMutexHolder (queue_of demo_sys 1) = Some 1" "\<not> idle_task (kern demo_sys) 1"
    "stateContainer (tcb (kern demo_sys) 1) = Some (ReadyL (prio (kern demo_sys) 1))"
    "0 < uxMutexesHeld (tcb (kern demo_sys) 1)" "uxMutexesHeld (tcb (kern demo_sys) 1) < 2 ^ 32"
    by (auto simp: demo_sys_def demo_queue_defs idle_task_def demo_kern_defs)
  have w: "uxMutexesHeld (tcb demo_kern 1) = 1" "uxBasePriority (tcb demo_kern 1) = 1" "prio demo_kern 4 = 4"
    "lists demo_kern (xTasksWaitingToReceive 1) = [4]"
    by (simp_all add: demo_kern_defs xTasksWaitingToReceive_def)
  show ?thesis
    using mutex_give_restores_priority [OF demo_sys_stable demo_waiters c demo_queues_wf(5) h, of "wait_for 0"]
    by (auto simp: w w [unfolded One_nat_def])
qed

section \<open>The running system\<close>

text \<open>C7: No run of the system with queues ends in a fault: in every state reached by ticks, context switches,
  calls of tasks, idle tasks and sends, receives and takes on the queues and counting semaphores in use,
  every enabled step completes and leaves the kernel stable, its event lists in order and every queue well
  formed, with at most as many messages as its length.\<close>

theorem queue_system_never_faults:
  assumes "sys_ok D s" "qruns slp D s es s1" "qenabled D a s1"
  shows "\<exists>e s2. qact slp a s1 = Inr (e, s2) \<and> sys_ok D s2 \<and>
    (\<forall>q \<in> D. length (items (queue_of s2 q)) \<le> uxLength (queue_of s q))"
proof -
  have s1: "sys_ok D s1" "refines_queues D s es s1" using qruns_ok [OF assms(2,1)] by simp_all
  obtain e s2 where s2: "qact slp a s1 = Inr (e, s2)" "sys_ok D s2" "refines_queues D s1 e s2"
    using qact_ok [OF s1(1) assms(3), of slp] by (auto simp: ensures_def)
  have "length (items (queue_of s2 q)) \<le> uxLength (queue_of s q)" if "q \<in> D" for q
    using s2(2,3) s1(2) that by (auto simp: sys_ok_def refines_queues_def queue_wf_def)
  then show ?thesis using s2 by blast
qed

text \<open>Task 2, on core 1, sends to the full queue 4 and waits; then a tick comes.\<close>

theorem queue_system_never_faults_witness:
  "\<exists>e s1 e2 s2. qact (\<lambda>_ s. Inr s) (QSend 1 4 [6] queueSEND_TO_BACK (wait_for 9)) demo_sys = Inr (e, s1) \<and>
    qact (\<lambda>_ s. Inr s) (Kernel Tick) s1 = Inr (e2, s2) \<and> sys_ok {0, 4, 5, 6} s2"
proof -
  have en: "qenabled {0, 4, 5, 6} (QSend 1 4 [6] queueSEND_TO_BACK (wait_for 9)) demo_sys"
    using demo_calls_now by (simp add: qenabled_def) (simp add: demo_sys_def demo_queue_defs)
  obtain e s1 where s1: "qact (\<lambda>_ s. Inr s) (QSend 1 4 [6] queueSEND_TO_BACK (wait_for 9)) demo_sys = Inr (e, s1)"
    using queue_system_never_faults [OF demo_sys_ok qruns.start en] by blast
  from qruns.goes [OF qruns.start en s1] have "qruns (\<lambda>_ s. Inr s) {0, 4, 5, 6} demo_sys ([] @ e) s1" .
  moreover have "qenabled {0, 4, 5, 6} (Kernel Tick) s1" by (simp add: qenabled_def enabled_def)
  ultimately show ?thesis using queue_system_never_faults [OF demo_sys_ok] s1 by blast
qed

text \<open>C9: In every run, however the calls, ticks and context switches interleave and whichever tasks make them,
  the messages that a queue which is no mutex holds at the end are those it held in the beginning, changed by the
  sends and receives that succeeded, in their order: a receive took the message at the front, a send to the back appended, a send to
  the front put its message first, an overwrite replaced what was there.  So as long as nothing is
  overwritten, no message is lost or doubled: the messages received and those still held are those held in the
  beginning and those sent.  And when all messages are sent to the back none is overtaken either: the messages
  received, followed by those still held, are the messages held in the beginning followed by those sent.\<close>

theorem queue_keeps_order:
  assumes "sys_ok D s" "qruns slp D s es s'" "q \<in> D"
  shows "replay q es (items (queue_of s q)) = Some (items (queue_of s' q)) \<and>
    (no_overwrite q es \<longrightarrow>
       mset (gots q es) + mset (items (queue_of s' q)) = mset (items (queue_of s q)) + mset (sents q es)) \<and>
    (back_only q es \<longrightarrow> gots q es @ items (queue_of s' q) = items (queue_of s q) @ sents q es)"
proof -
  have "replay q es (items (queue_of s q)) = Some (items (queue_of s' q))"
    using qruns_ok [OF assms(2,1)] assms(3) by (simp add: refines_queues_def)
  then show ?thesis using replay_fifo replay_keeps by blast
qed

theorem queue_keeps_order_witness:
  "\<exists>s'. qruns (\<lambda>_ s. Inr s) {0, 4, 5, 6} demo_sys [Got 4 [9]] s' \<and> items (queue_of s' 4) = [[7], [8]]"
proof -
  have ne: "items (queue_of demo_sys 4) \<noteq> []" unfolding demo_items by simp
  have c: "0 < configNUMBER_OF_CORES" by (simp add: configNUMBER_OF_CORES_def)
  obtain item s' where s': "xQueueReceive 0 4 (wait_for 0) demo_sys = Inr (Returned (Some item), s')"
    "received 4 item (queue_of demo_sys) (queue_of s')"
    using xQueueReceive_ok [OF demo_sys_stable demo_waiters c demo_queues_wf(2) ne, of "wait_for 0"] by (auto simp: ensures_def)
  have i: "item = [9]" using s'(2) demo_items(2) by (simp add: received_def)
  have "qact (\<lambda>_ s. Inr s) (QReceive 0 4 (wait_for 0)) demo_sys = Inr ([Got 4 [9]], s')" using s'(1) i by (simp add: qact_def)
  moreover have "qenabled {0, 4, 5, 6} (QReceive 0 4 (wait_for 0)) demo_sys" using demo_calls_now by (simp add: qenabled_def)
  ultimately have "qruns (\<lambda>_ s. Inr s) {0, 4, 5, 6} demo_sys ([] @ [Got 4 [9]]) s'" using qruns.goes qruns.start by blast
  then have r: "qruns (\<lambda>_ s. Inr s) {0, 4, 5, 6} demo_sys [Got 4 [9]] s'" by simp
  have four: "(4::nat) \<in> {0, 4, 5, 6}" by simp
  have b: "back_only 4 [Got 4 [9]]" by (simp add: back_only_def)
  have "gots 4 [Got 4 [9]] @ items (queue_of s' 4) = items (queue_of demo_sys 4) @ sents 4 [Got 4 [9]]"
    by (rule queue_keeps_order [OF demo_sys_ok r four, THEN conjunct2, THEN conjunct2, THEN mp, OF b])
  then have "items (queue_of s' 4) = [[7], [8]]" unfolding demo_items(2) by simp
  then show ?thesis using r by blast
qed

end
