(* ===== verification/EventGroups.thy ===== *)
theory EventGroups
  imports TaskEvents
begin

text \<open>
  Event groups (\<open>event_groups.c\<close>).  An event group is a number; the tasks that wait for bits of group \<open>g\<close>
  are in the kernel list \<open>EventL g\<close>.  A function that blocks is split where the calling task is switched out.
\<close>

unbundle bit_operations_syntax

section \<open>Data\<close>

record event_group =
  uxEventBits :: u32
  eg_ucStaticallyAllocated :: bool

record esys =
  ekern :: kernel
  group_of :: "nat \<Rightarrow> event_group"

definition eventCLEAR_EVENTS_ON_EXIT_BIT :: u32 where "eventCLEAR_EVENTS_ON_EXIT_BIT = 0x01000000"
definition eventUNBLOCKED_DUE_TO_BIT_SET :: u32 where "eventUNBLOCKED_DUE_TO_BIT_SET = 0x02000000"
definition eventWAIT_FOR_ALL_BITS :: u32 where "eventWAIT_FOR_ALL_BITS = 0x04000000"
definition eventEVENT_BITS_CONTROL_BYTES :: u32 where "eventEVENT_BITS_CONTROL_BYTES = 0xff000000"

definition xTasksWaitingForBits :: "nat \<Rightarrow> klist" where "xTasksWaitingForBits g = EventL g"

definition upd_bits :: "nat \<Rightarrow> (u32 \<Rightarrow> u32) \<Rightarrow> esys \<Rightarrow> esys" where
  "upd_bits g f s = s\<lparr>group_of := (group_of s)(g := (group_of s g)\<lparr>uxEventBits := f (uxEventBits (group_of s g))\<rparr>)\<rparr>"

definition bits :: "nat \<Rightarrow> esys \<Rightarrow> u32" where "bits g s = uxEventBits (group_of s g)"

definition upd_ekern :: "(kernel \<Rightarrow> kernel) \<Rightarrow> esys \<Rightarrow> esys" where
  "upd_ekern f s = s\<lparr>ekern := f (ekern s)\<rparr>"

definition on_ekern :: "(kernel \<Rightarrow> fault + 'a \<times> kernel) \<Rightarrow> esys \<Rightarrow> fault + 'a \<times> esys" where
  "on_ekern f s = bindE (f (ekern s)) (\<lambda>(r, k). Inr (r, s\<lparr>ekern := k\<rparr>))"

section \<open>Creation\<close>

text \<open>\<open>g\<close> is the group whose memory was allocated or passed, if any.\<close>

definition init_group :: "bool \<Rightarrow> nat \<Rightarrow> esys \<Rightarrow> esys" where
  "init_group static g s = s\<lparr>group_of := (group_of s)(g := \<lparr>uxEventBits = 0, eg_ucStaticallyAllocated = static\<rparr>),
     ekern := set_list (xTasksWaitingForBits g) [] (ekern s)\<rparr>"

definition xEventGroupCreateStatic :: "ptr \<Rightarrow> esys \<Rightarrow> ptr \<times> esys" where
  "xEventGroupCreateStatic buffer s = (buffer, case buffer of None \<Rightarrow> s | Some g \<Rightarrow> init_group True g s)"

definition xEventGroupCreate :: "ptr \<Rightarrow> esys \<Rightarrow> ptr \<times> esys" where
  "xEventGroupCreate mem s = (mem, case mem of None \<Rightarrow> s | Some g \<Rightarrow> init_group False g s)"

section \<open>Setting and clearing bits\<close>

definition prvTestWaitCondition :: "u32 \<Rightarrow> u32 \<Rightarrow> bool \<Rightarrow> bool" where
  "prvTestWaitCondition uxCurrentEventBits uxBitsToWaitFor xWaitForAllBits =
     (if \<not> xWaitForAllBits then (uxCurrentEventBits AND uxBitsToWaitFor) \<noteq> 0
      else (uxCurrentEventBits AND uxBitsToWaitFor) = uxBitsToWaitFor)"

text \<open>The loop of \<open>xEventGroupSetBits\<close> over the waiting tasks, whose next one is read before a task is removed;
  the result is the bits to clear.\<close>

fun set_bits_loop :: "nat \<Rightarrow> u32 \<Rightarrow> nat list \<Rightarrow> u32 \<Rightarrow> kernel \<Rightarrow> fault + (u32 \<times> kernel)" where
  "set_bits_loop c b [] uxBitsToClear k = Inr (uxBitsToClear, k)"
| "set_bits_loop c b (t # ts) uxBitsToClear k =
     (let v = xEventListItem (tcb k t);
          uxControlBits = v AND eventEVENT_BITS_CONTROL_BYTES;
          uxBitsWaitedFor = v AND NOT eventEVENT_BITS_CONTROL_BYTES;
          xMatchFound = (if (uxControlBits AND eventWAIT_FOR_ALL_BITS) = 0 then (uxBitsWaitedFor AND b) \<noteq> 0
            else (uxBitsWaitedFor AND b) = uxBitsWaitedFor)
      in if xMatchFound then
           bindE (vTaskRemoveFromUnorderedEventList c t (b OR eventUNBLOCKED_DUE_TO_BIT_SET) k)
             (set_bits_loop c b ts (if (uxControlBits AND eventCLEAR_EVENTS_ON_EXIT_BIT) \<noteq> 0
               then uxBitsToClear OR uxBitsWaitedFor else uxBitsToClear))
         else set_bits_loop c b ts uxBitsToClear k)"

definition xEventGroupSetBits :: "nat \<Rightarrow> nat \<Rightarrow> u32 \<Rightarrow> esys \<Rightarrow> fault + (u32 \<times> esys)" where
  "xEventGroupSetBits c g uxBitsToSet s =
     (let s1 = upd_bits g (\<lambda>b. b OR uxBitsToSet) (upd_ekern vTaskSuspendAll s) in
      bindE (on_ekern (set_bits_loop c (bits g s1) (lists (ekern s1) (xTasksWaitingForBits g)) 0) s1) (\<lambda>(clr, s2).
      let s3 = upd_bits g (\<lambda>b. b AND NOT clr) s2 in
      bindE (on_ekern (xTaskResumeAll c) s3) (\<lambda>(_, s4). Inr (bits g s3, s4))))"

definition xEventGroupClearBits :: "nat \<Rightarrow> nat \<Rightarrow> u32 \<Rightarrow> esys \<Rightarrow> u32 \<times> esys" where
  "xEventGroupClearBits c g uxBitsToClear s =
     (let s1 = upd_ekern (vTaskEnterCritical c) s
      in (bits g s1, upd_ekern (vTaskExitCritical c) (upd_bits g (\<lambda>b. b AND NOT uxBitsToClear) s1)))"

definition xEventGroupGetBitsFromISR :: "nat \<Rightarrow> nat \<Rightarrow> esys \<Rightarrow> u32 \<times> esys" where
  "xEventGroupGetBitsFromISR c g s =
     (let s1 = upd_ekern (vTaskEnterCriticalFromISR c) s in (bits g s1, upd_ekern (vTaskExitCriticalFromISR c) s1))"

definition vEventGroupSetBitsCallback :: "nat \<Rightarrow> nat \<Rightarrow> u32 \<Rightarrow> esys \<Rightarrow> fault + esys" where
  "vEventGroupSetBitsCallback c g ulBitsToSet s = bindE (xEventGroupSetBits c g ulBitsToSet s) (\<lambda>(_, s'). Inr s')"

definition vEventGroupClearBitsCallback :: "nat \<Rightarrow> nat \<Rightarrow> u32 \<Rightarrow> esys \<Rightarrow> esys" where
  "vEventGroupClearBitsCallback c g ulBitsToClear s = snd (xEventGroupClearBits c g ulBitsToClear s)"

section \<open>Waiting for bits\<close>

text \<open>The end of a function that may have blocked its task: the scheduler goes on, and a task that waits yields.\<close>

definition resume_and_yield :: "nat \<Rightarrow> bool \<Rightarrow> esys \<Rightarrow> fault + esys" where
  "resume_and_yield c waits s =
     bindE (on_ekern (xTaskResumeAll c) s) (\<lambda>(xAlreadyYielded, s1).
       Inr (if waits \<and> \<not> xAlreadyYielded then upd_ekern (vTaskYieldWithinAPI c) s1 else s1))"

text \<open>\<open>xEventGroupWaitBits\<close> up to the switch: the bits it returns, or \<open>None\<close> if the task waits.\<close>

definition xEventGroupWaitBits :: "nat \<Rightarrow> nat \<Rightarrow> u32 \<Rightarrow> bool \<Rightarrow> bool \<Rightarrow> u32 \<Rightarrow> esys \<Rightarrow> fault + (u32 option \<times> esys)" where
  "xEventGroupWaitBits c g uxBitsToWaitFor xClearOnExit xWaitForAllBits xTicksToWait s =
     (let s1 = upd_ekern vTaskSuspendAll s;
          uxCurrentEventBits = bits g s1
      in if prvTestWaitCondition uxCurrentEventBits uxBitsToWaitFor xWaitForAllBits then
           bindE (resume_and_yield c False (if xClearOnExit then upd_bits g (\<lambda>b. b AND NOT uxBitsToWaitFor) s1 else s1))
             (\<lambda>s2. Inr (Some uxCurrentEventBits, s2))
         else if xTicksToWait = 0 then
           bindE (resume_and_yield c False s1) (\<lambda>s2. Inr (Some uxCurrentEventBits, s2))
         else
           let uxControlBits = (if xClearOnExit then eventCLEAR_EVENTS_ON_EXIT_BIT else 0) OR
                 (if xWaitForAllBits then eventWAIT_FOR_ALL_BITS else 0)
           in bindE (vTaskPlaceOnUnorderedEventList c (xTasksWaitingForBits g) (uxBitsToWaitFor OR uxControlBits) xTicksToWait
                (ekern s1)) (\<lambda>k.
              bindE (resume_and_yield c True (s1\<lparr>ekern := k\<rparr>)) (\<lambda>s2. Inr (None, s2))))"

text \<open>What the task does when it runs again.\<close>

definition xEventGroupWaitBits_return :: "nat \<Rightarrow> nat \<Rightarrow> u32 \<Rightarrow> bool \<Rightarrow> bool \<Rightarrow> esys \<Rightarrow> fault + (u32 \<times> esys)" where
  "xEventGroupWaitBits_return c g uxBitsToWaitFor xClearOnExit xWaitForAllBits s =
     bindE (on_ekern (uxTaskResetEventItemValue c) s) (\<lambda>(v, s1).
       if (v AND eventUNBLOCKED_DUE_TO_BIT_SET) = 0 then
         let s2 = upd_ekern (vTaskEnterCritical c) s1;
             b = bits g s2;
             s3 = (if prvTestWaitCondition b uxBitsToWaitFor xWaitForAllBits \<and> xClearOnExit
               then upd_bits g (\<lambda>b. b AND NOT uxBitsToWaitFor) s2 else s2)
         in Inr (b AND NOT eventEVENT_BITS_CONTROL_BYTES, upd_ekern (vTaskExitCritical c) s3)
       else Inr (v AND NOT eventEVENT_BITS_CONTROL_BYTES, s1))"

text \<open>\<open>xEventGroupSync\<close>, a rendezvous, in the same two parts.\<close>

definition xEventGroupSync :: "nat \<Rightarrow> nat \<Rightarrow> u32 \<Rightarrow> u32 \<Rightarrow> u32 \<Rightarrow> esys \<Rightarrow> fault + (u32 option \<times> esys)" where
  "xEventGroupSync c g uxBitsToSet uxBitsToWaitFor xTicksToWait s =
     (let s1 = upd_ekern vTaskSuspendAll s;
          uxOriginalBitValue = bits g s1
      in bindE (xEventGroupSetBits c g uxBitsToSet s1) (\<lambda>(_, s2).
         if ((uxOriginalBitValue OR uxBitsToSet) AND uxBitsToWaitFor) = uxBitsToWaitFor then
           bindE (resume_and_yield c False (upd_bits g (\<lambda>b. b AND NOT uxBitsToWaitFor) s2))
             (\<lambda>s3. Inr (Some (uxOriginalBitValue OR uxBitsToSet), s3))
         else if xTicksToWait \<noteq> 0 then
           bindE (vTaskPlaceOnUnorderedEventList c (xTasksWaitingForBits g)
             (uxBitsToWaitFor OR eventCLEAR_EVENTS_ON_EXIT_BIT OR eventWAIT_FOR_ALL_BITS) xTicksToWait (ekern s2)) (\<lambda>k.
           bindE (resume_and_yield c True (s2\<lparr>ekern := k\<rparr>)) (\<lambda>s3. Inr (None, s3)))
         else bindE (resume_and_yield c False s2) (\<lambda>s3. Inr (Some (bits g s2), s3))))"

definition xEventGroupSync_return :: "nat \<Rightarrow> nat \<Rightarrow> u32 \<Rightarrow> esys \<Rightarrow> fault + (u32 \<times> esys)" where
  "xEventGroupSync_return c g uxBitsToWaitFor s =
     bindE (on_ekern (uxTaskResetEventItemValue c) s) (\<lambda>(v, s1).
       if (v AND eventUNBLOCKED_DUE_TO_BIT_SET) = 0 then
         let s2 = upd_ekern (vTaskEnterCritical c) s1;
             b = bits g s2;
             s3 = (if (b AND uxBitsToWaitFor) = uxBitsToWaitFor then upd_bits g (\<lambda>b. b AND NOT uxBitsToWaitFor) s2 else s2)
         in Inr (b AND NOT eventEVENT_BITS_CONTROL_BYTES, upd_ekern (vTaskExitCritical c) s3)
       else Inr (v AND NOT eventEVENT_BITS_CONTROL_BYTES, s1))"

section \<open>Deletion\<close>

text \<open>All tasks that wait are woken; the result says whether the memory is freed.\<close>

fun delete_group_loop :: "nat \<Rightarrow> nat \<Rightarrow> nat \<Rightarrow> kernel \<Rightarrow> fault + kernel" where
  "delete_group_loop 0 c g k = (if lists k (xTasksWaitingForBits g) = [] then Inr k else Inl Diverges)"
| "delete_group_loop (Suc fuel) c g k =
     (case lists k (xTasksWaitingForBits g) of [] \<Rightarrow> Inr k
      | t # _ \<Rightarrow> bindE (vTaskRemoveFromUnorderedEventList c t eventUNBLOCKED_DUE_TO_BIT_SET k) (delete_group_loop fuel c g))"

definition vEventGroupDelete :: "nat \<Rightarrow> nat \<Rightarrow> esys \<Rightarrow> fault + (bool \<times> esys)" where
  "vEventGroupDelete c g s =
     (let k = vTaskSuspendAll (ekern s) in
      bindE (delete_group_loop (length (lists k (xTasksWaitingForBits g))) c g k) (\<lambda>k1.
      bindE (xTaskResumeAll c k1) (\<lambda>(_, k2). Inr (\<not> eg_ucStaticallyAllocated (group_of s g), s\<lparr>ekern := k2\<rparr>))))"

definition xEventGroupGetStaticBuffer :: "nat \<Rightarrow> esys \<Rightarrow> bool" where
  "xEventGroupGetStaticBuffer g s = eg_ucStaticallyAllocated (group_of s g)"

end
