(* ===== verification/EventGroupProps.thy ===== *)
theory EventGroupProps
  imports EventProps EventGroups
begin

text \<open>
  Event groups: setting bits readies exactly the tasks whose condition holds, with the bits they waited for recorded
  in their event item, and clears the bits that one of them asked to clear; waiting for bits that are set returns
  them, and waiting for bits that are not puts the task at the end of the list.  No task is left waiting for bits
  that are set.
\<close>

section \<open>With the scheduler suspended\<close>

text \<open>\<open>d\<close> times, by a task outside any critical section.\<close>

definition held :: "nat \<Rightarrow> kernel \<Rightarrow> bool" where
  "held d s \<longleftrightarrow> stable (s\<lparr>uxSchedulerSuspended := 0\<rparr>) \<and> uxSchedulerSuspended s = d"

lemma held_stable: "held 0 s = stable s"
  by (cases s) (auto simp: held_def stable_def)

lemma held_iff: "c < configNUMBER_OF_CORES \<Longrightarrow> held d s \<longleftrightarrow>
    basic s \<and> pended s \<and> uxSchedulerSuspended s = d \<and> xPendedTicks s = 0 \<and> nestings c 0 s"
  by (auto simp: held_def stable_iff pended_def runs_def cur_def nestings_def)

lemma held_running: "held d s \<Longrightarrow> xSchedulerRunning s"
  by (simp add: held_def stable_def)

lemma held_suspend: "held d s \<Longrightarrow> held (Suc d) (vTaskSuspendAll s)"
  by (simp add: vTaskSuspendAll_def held_running) (simp add: held_def)

lemma held_nesting: "held d s \<Longrightarrow> c < configNUMBER_OF_CORES \<Longrightarrow> uxCriticalNestings s c = 0"
  by (simp add: held_iff nestings_def)

lemma held_kick: "held d s \<Longrightarrow> held d (kick c s)"
  using stable_kick [of "s\<lparr>uxSchedulerSuspended := 0\<rparr>" c] by (simp add: held_def)

text \<open>Going on after the outermost suspension and after a nested one.\<close>

lemma held_resume:
  assumes "held (Suc d) s" "Suc d < 2 ^ 32" "c < configNUMBER_OF_CORES"
  shows "\<exists>b. xTaskResumeAll c s = Inr (b, kick c (s\<lparr>uxSchedulerSuspended := d\<rparr>)) \<and> (d = 0 \<or> \<not> b)"
proof (cases d)
  case 0
  then show ?thesis using xTaskResumeAll_eq [of s c] held_nesting [OF assms(1,3)] assms(1)
    by (simp add: held_def stable_def)
next
  case (Suc e)
  let ?s1 = "s\<lparr>uxSchedulerSuspended := d\<rparr>"
  have "vTaskEnterCritical c s = (vTaskEnterCritical c ?s1)\<lparr>uxSchedulerSuspended := Suc d\<rparr>"
    using assms(1) by (cases s) (simp add: vTaskEnterCritical_def held_def set_nesting_def)
  moreover have "vTaskExitCritical c (vTaskEnterCritical c ?s1) = kick c ?s1"
    by (rule enter_exit) (use held_nesting [OF assms(1,3)] held_running [OF assms(1)] in simp_all)
  moreover have "(vTaskEnterCritical c ?s1)\<lparr>uxSchedulerSuspended := d\<rparr> = vTaskEnterCritical c ?s1"
    by (simp add: vTaskEnterCritical_def set_nesting_def)
  ultimately have "xTaskResumeAll c s = Inr (False, kick c ?s1)"
    using held_running [OF assms(1)] Suc dec32_Suc [OF assms(2)] by (simp add: xTaskResumeAll_def critical_def Let_def)
  then show ?thesis by auto
qed

section \<open>Tasks that are woken\<close>

text \<open>The tasks \<open>T\<close>, of event list \<open>n\<close>, have become ready with \<open>v\<close> in their event items.\<close>

definition freed :: "nat set \<Rightarrow> nat \<Rightarrow> u32 \<Rightarrow> kernel \<Rightarrow> kernel \<Rightarrow> bool" where
  "freed T n v s s' \<longleftrightarrow> quiet s s' \<and>
     (\<forall>u. stateContainer (tcb s' u) = (if u \<in> T then Some (ReadyL (prio s u)) else stateContainer (tcb s u)) \<and>
        eventContainer (tcb s' u) = (if u \<in> T then None else eventContainer (tcb s u)) \<and>
        event_item s' u = (if u \<in> T then v OR taskEVENT_LIST_ITEM_VALUE_IN_USE else event_item s u)) \<and>
     (\<forall>m. lists s' (EventL m) = (if m = n then filter (\<lambda>u. u \<notin> T) (lists s (EventL n)) else lists s (EventL m)))"

lemma freed_refl: "freed {} n v s s"
  by (simp add: freed_def)

lemma freed_trans: "freed A n v s s1 \<Longrightarrow> freed B n v s1 s2 \<Longrightarrow> freed (A \<union> B) n v s s2"
  using quiet_trans by (auto simp: freed_def quiet_def)

lemma freed_yields: "freed T n v s s1 \<Longrightarrow> yields s1 s' \<Longrightarrow> freed T n v s s'"
  using yields_quiet quiet_trans by (simp add: freed_def yields_same event_item_def) blast

lemma waiters_wf_freed: "waiters_wf s \<Longrightarrow> freed T n v s s' \<Longrightarrow> waiters_wf s'"
  unfolding waiters_wf_def freed_def by auto

lemma waiter_list: "kinv s \<Longrightarrow> t \<in> set (lists s (EventL n)) \<longleftrightarrow> eventContainer (tcb s t) = Some (EventL n)"
  unfolding kinv_def lists_wf_def by (metis state_list_simps(7))

text \<open>The last part of \<open>vTaskRemoveFromUnorderedEventList\<close>, a critical section of its own.\<close>

lemma yield_section_ok:
  assumes "held d s" "c < configNUMBER_OF_CORES"
  shows "ensures (critical c (\<lambda>s4. bindE (prvYieldForTask c t s4) (\<lambda>s5. Inr ((), s5))) s)
    (\<lambda>(_, s'). held d s' \<and> yields s s')"
proof -
  have h: "basic s" "pended s" "uxSchedulerSuspended s = d" "xPendedTicks s = 0" "nestings c 0 s"
    using assms by (simp_all add: held_iff)
  let ?s0 = "set_nesting c 1 s"
  have e: "vTaskEnterCritical c s = ?s0" by (rule enter_eq [OF held_running [OF assms(1)] held_nesting [OF assms]])
  have k: "kinv ?s0" using h(1) by (simp add: basic_def)
  have x: "held d (vTaskExitCritical c s5) \<and> yields s (vTaskExitCritical c s5)" if y: "yields ?s0 s5" for s5
  proof -
    let ?s6 = "set_nesting c 0 s5"
    have n: "uxCriticalNestings s5 c = 1" "xSchedulerRunning s5"
      using y held_running [OF assms(1)] by (simp_all add: yields_same set_nesting_def)
    have eq: "vTaskExitCritical c s5 = kick c ?s6"
      using n by (simp add: vTaskExitCritical_def kick_def set_nesting_def)
    have nn: "(uxCriticalNestings s)(c := 0) = uxCriticalNestings s" using held_nesting [OF assms] by (auto simp: fun_eq_iff)
    obtain yp p r where s5: "s5 = ?s0\<lparr>xYieldPendings := yp, pendsv := p, tcb := (\<lambda>t. (tcb ?s0 t)\<lparr>xTaskRunState := r t\<rparr>)\<rparr>"
        "(\<forall>x. pendsv s x \<longrightarrow> p x) \<and> (\<forall>x. xYieldPendings s x \<longrightarrow> yp x) \<and>
        (\<forall>t. r t = runstate s t \<or> r t = taskTASK_SCHEDULED_TO_YIELD \<and>
        (\<exists>x < configNUMBER_OF_CORES. pxCurrentTCBs s x = Some t \<and> p x))"
      using y unfolding yields_def by (auto simp: set_nesting_def)
    have "?s6 = s\<lparr>xYieldPendings := yp, pendsv := p, tcb := (\<lambda>t. (tcb s t)\<lparr>xTaskRunState := r t\<rparr>)\<rparr>"
      unfolding s5(1) by (simp add: set_nesting_def nn)
    then have y6: "yields s ?s6" using s5(2) unfolding yields_def by blast
    moreover have "basic ?s6" "pended ?s6"
      using basic_yields [OF h(1) y6] pended_yields [OF _ y6 h(2)] h(1) by (simp_all add: basic_def)
    ultimately have "held d ?s6" using h(3-5) unfolding held_iff [OF assms(2)] by (simp add: yields_same nestings_def)
    then show ?thesis unfolding eq using held_kick yields_trans [OF y6] by simp
  qed
  show ?thesis unfolding critical_def e
    using prvYieldForTask_ok [OF k, of c t] x by (cases "prvYieldForTask c t ?s0") auto
qed

text \<open>One task is woken.\<close>

lemma vTaskRemoveFromUnorderedEventList_ok:
  assumes "held d s" "waiters_wf s" "c < configNUMBER_OF_CORES" "eventContainer (tcb s t) = Some (EventL n)"
  shows "ensures (vTaskRemoveFromUnorderedEventList c t v s) (\<lambda>s'. held d s' \<and> freed {t} n v s s')"
proof -
  have h: "basic s" "pended s" "uxSchedulerSuspended s = d" "xPendedTicks s = 0" "nestings c 0 s"
    using assms(1,3) by (simp_all add: held_iff)
  have k: "kinv s" using h(1) by (simp add: basic_def)
  obtain L where L: "stateContainer (tcb s t) = Some L" "L \<in> {DelayedL1, DelayedL2, SuspendedL}"
    using assms(2,4) unfolding waiters_wf_def by fastforce
  have idle: "\<not> idle_task s t" using idle_ready [OF k, of t] L by auto
  let ?w = "v OR taskEVENT_LIST_ITEM_VALUE_IN_USE"
  let ?a = "upd_tcb t (\<lambda>x. x\<lparr>xEventListItem := ?w\<rparr>) s"
  let ?b = "event_out (EventL n) t ?a" and ?r = "prvResetNextTaskUnblockTime (event_out (EventL n) t ?a)"
  have ka: "kinv ?a" by (rule kinv_neutral [OF k]) (simp add: neutral_def)
  have ca: "eventContainer (tcb ?a t) = Some (EventL n)" using assms(4) by (simp add: upd_tcb_def)
  have kb: "kinv ?b" by (rule kinv_event_out [OF ka ca])
  have mb: "moves t (Some L) s ?b" using L(1) by (auto simp: event_out_def prim_defs moves_def quiet_def)
  have eb: "eventContainer (tcb ?b u) = (if u = t then None else eventContainer (tcb s u))"
    "event_item ?b u = (if u = t then ?w else event_item s u)"
    "lists ?b (EventL m) = (if m = n then remove1 t (lists s (EventL n)) else lists s (EventL m))" for u m
    by (simp_all add: event_out_def prim_defs event_item_def)
  have r: "kinv ?r" "moves t (Some L) s ?r" "ev_same ?b ?r" "event_item ?r = event_item ?b"
    using kinv_reset [OF kb] reset_same [of t ?b] mb moves_trans [OF mb] ev_same_reset
    by (auto simp: moves_def event_item_def prvResetNextTaskUnblockTime_def fun_eq_iff)
  have cr: "stateContainer (tcb ?r t) = Some L" "\<not> idle_task ?r t" "L \<noteq> TerminationL" "state_list L"
    using r(2) L idle by (auto simp: moves_def quiet_def idle_task_def)
  let ?P = "\<lambda>s3. kinv s3 \<and> moves t (Some (ReadyL (prio s t))) s s3 \<and> ev_same ?b s3 \<and> event_item s3 = event_item ?b"
  have pr: "prio ?r t = prio s t" using r(2) by (simp add: moves_def quiet_def)
  have item: "event_item s3 = event_item ?r" if "bindE (state_remove t ?r) (prvAddTaskToReadyList t) = Inr s3" for s3
    using that cr(1) by (auto simp: state_remove_def prvAddTaskToReadyList_def state_insert_end_def prim_defs
        event_item_def fun_eq_iff Let_def split: if_splits)
  have "ensures (bindE (state_remove t ?r) (prvAddTaskToReadyList t))
      (\<lambda>s3. (kinv s3 \<and> moves t (Some (ReadyL (prio ?r t))) ?r s3) \<and> ev_same ?r s3 \<and> event_item s3 = event_item ?r)"
    by (rule ensures_also [OF requeue_ok [OF r(1) cr(1-3)]]) (intro conjI ev_same_requeue [OF _ cr(1,4)] item)
  then have rq: "ensures (bindE (state_remove t ?r) (prvAddTaskToReadyList t)) ?P"
    by (rule ensures_mono) (use pr moves_trans [OF r(2)] ev_same_trans [OF r(3)] r(4) in auto)
  have last: "ensures (bindE (critical c (\<lambda>s4. bindE (prvYieldForTask c t s4) (\<lambda>s5. Inr ((), s5))) s3) (\<lambda>(_, s6). Inr s6))
      (\<lambda>s'. held d s' \<and> freed {t} n v s s')" if s3: "?P s3" for s3
  proof -
    have m: "moves t (Some (ReadyL (prio s t))) s s3" and k3: "kinv s3" using s3 by simp_all
    have "basic s3" using basic_moves [OF h(1) k3 m] L(1) by simp
    moreover have "pended s3" by (rule pended_moves [OF m h(2)]) simp
    ultimately have h3: "held d s3" using m h(3-5)
      unfolding held_iff [OF assms(3)] by (simp add: moves_def quiet_def nestings_def)
    have "distinct (lists s (EventL n))" using k by (simp add: kinv_distinct)
    then have f: "freed {t} n v s s3" using s3 m eb unfolding freed_def
      by (simp add: ev_same_def moves_def distinct_remove1_removeAll removeAll_filter_not_eq neq_commute)
    show ?thesis
      by (rule ensures_bind [OF yield_section_ok [OF h3 assms(3), of t]]) (use freed_yields [OF f] in auto)
  qed
  show ?thesis unfolding vTaskRemoveFromUnorderedEventList_def event_remove_eq [OF ca]
    using ensures_bind [OF rq last] by (simp add: bindE_assoc)
qed

section \<open>Setting bits\<close>

text \<open>What a waiting task has asked for, from its event item.\<close>

definition bits_wanted :: "kernel \<Rightarrow> nat \<Rightarrow> u32" where
  "bits_wanted k t = event_item k t AND NOT eventEVENT_BITS_CONTROL_BYTES"

definition wants_all :: "kernel \<Rightarrow> nat \<Rightarrow> bool" where
  "wants_all k t \<longleftrightarrow> event_item k t AND eventWAIT_FOR_ALL_BITS \<noteq> 0"

definition clears :: "kernel \<Rightarrow> nat \<Rightarrow> bool" where
  "clears k t \<longleftrightarrow> event_item k t AND eventCLEAR_EVENTS_ON_EXIT_BIT \<noteq> 0"

definition satisfied :: "u32 \<Rightarrow> kernel \<Rightarrow> nat \<Rightarrow> bool" where
  "satisfied b k t = prvTestWaitCondition b (bits_wanted k t) (wants_all k t)"

lemma control_mask:
  "(v AND eventEVENT_BITS_CONTROL_BYTES) AND eventWAIT_FOR_ALL_BITS = v AND eventWAIT_FOR_ALL_BITS"
  "(v AND eventEVENT_BITS_CONTROL_BYTES) AND eventCLEAR_EVENTS_ON_EXIT_BIT = v AND eventCLEAR_EVENTS_ON_EXIT_BIT"
proof -
  have "eventEVENT_BITS_CONTROL_BYTES AND eventWAIT_FOR_ALL_BITS = eventWAIT_FOR_ALL_BITS"
    "eventEVENT_BITS_CONTROL_BYTES AND eventCLEAR_EVENTS_ON_EXIT_BIT = eventCLEAR_EVENTS_ON_EXIT_BIT"
    by (simp_all add: eventEVENT_BITS_CONTROL_BYTES_def eventWAIT_FOR_ALL_BITS_def eventCLEAR_EVENTS_ON_EXIT_BIT_def)
  then show "(v AND eventEVENT_BITS_CONTROL_BYTES) AND eventWAIT_FOR_ALL_BITS = v AND eventWAIT_FOR_ALL_BITS"
    "(v AND eventEVENT_BITS_CONTROL_BYTES) AND eventCLEAR_EVENTS_ON_EXIT_BIT = v AND eventCLEAR_EVENTS_ON_EXIT_BIT"
    by (simp_all add: and.assoc)
qed

lemma set_bits_loop_Cons:
  "set_bits_loop c b (t # ts) clr k =
     (if satisfied b k t then
        bindE (vTaskRemoveFromUnorderedEventList c t (b OR eventUNBLOCKED_DUE_TO_BIT_SET) k)
          (set_bits_loop c b ts (clr OR (if clears k t then bits_wanted k t else 0)))
      else set_bits_loop c b ts clr k)"
  by (simp add: satisfied_def clears_def bits_wanted_def wants_all_def prvTestWaitCondition_def event_item_def
      control_mask Let_def and.commute [of b])

text \<open>A bit that one of the tasks \<open>T\<close> asked to clear.\<close>

definition cleared :: "kernel \<Rightarrow> nat set \<Rightarrow> nat \<Rightarrow> bool" where
  "cleared k T i \<longleftrightarrow> (\<exists>t \<in> T. clears k t \<and> bit (bits_wanted k t) i)"

lemma set_bits_loop_ok:
  assumes "held d k" "waiters_wf k" "c < configNUMBER_OF_CORES" "distinct ts"
    "\<And>t. t \<in> set ts \<Longrightarrow> eventContainer (tcb k t) = Some (EventL g)"
  shows "ensures (set_bits_loop c b ts clr k) (\<lambda>(clr', k'). held d k' \<and>
    freed {t \<in> set ts. satisfied b k t} g (b OR eventUNBLOCKED_DUE_TO_BIT_SET) k k' \<and>
    (\<forall>i. bit clr' i \<longleftrightarrow> bit clr i \<or> cleared k {t \<in> set ts. satisfied b k t} i))"
  using assms
proof (induction ts arbitrary: clr k)
  case Nil
  then show ?case by (simp add: freed_refl cleared_def)
next
  case (Cons t ts)
  let ?v = "b OR eventUNBLOCKED_DUE_TO_BIT_SET"
  show ?case
  proof (cases "satisfied b k t")
    case False
    then have "{u \<in> set (t # ts). satisfied b k u} = {u \<in> set ts. satisfied b k u}" by auto
    then show ?thesis using False Cons.IH [OF Cons.prems(1-3)] Cons.prems(4,5) unfolding set_bits_loop_Cons by simp
  next
    case True
    have w: "ensures (vTaskRemoveFromUnorderedEventList c t ?v k) (\<lambda>k1. held d k1 \<and> freed {t} g ?v k k1)"
      by (rule vTaskRemoveFromUnorderedEventList_ok [OF Cons.prems(1-3)]) (simp add: Cons.prems(5))
    have n: "ensures (set_bits_loop c b ts (clr OR (if clears k t then bits_wanted k t else 0)) k1) (\<lambda>(clr', k'). held d k' \<and>
      freed {u \<in> set (t # ts). satisfied b k u} g ?v k k' \<and>
      (\<forall>i. bit clr' i \<longleftrightarrow> bit clr i \<or> cleared k {u \<in> set (t # ts). satisfied b k u} i))"
      if k1: "held d k1 \<and> freed {t} g ?v k k1" for k1
    proof -
      have it: "event_item k1 u = event_item k u" "eventContainer (tcb k1 u) = eventContainer (tcb k u)" if "u \<in> set ts" for u
        using k1 that Cons.prems(4) by (auto simp: freed_def)
      let ?T = "{u \<in> set ts. satisfied b k u}"
      have eq: "{u \<in> set ts. satisfied b k1 u} = ?T" "cleared k1 ?T = cleared k ?T"
        using it(1) by (auto simp: satisfied_def cleared_def clears_def bits_wanted_def wants_all_def fun_eq_iff)
      have all: "{u \<in> set (t # ts). satisfied b k u} = {t} \<union> ?T" using True by auto
      have "bit clr i \<or> clears k t \<and> bit (bits_wanted k t) i \<or> cleared k ?T i \<longleftrightarrow> bit clr i \<or> cleared k ({t} \<union> ?T) i" for i
        by (auto simp: cleared_def)
      moreover have "ensures (set_bits_loop c b ts (clr OR (if clears k t then bits_wanted k t else 0)) k1) (\<lambda>(clr', k'). held d k' \<and>
          freed {u \<in> set ts. satisfied b k1 u} g ?v k1 k' \<and>
          (\<forall>i. bit clr' i \<longleftrightarrow> bit (clr OR (if clears k t then bits_wanted k t else 0)) i \<or> cleared k1 {u \<in> set ts. satisfied b k1 u} i))"
        by (rule Cons.IH) (use k1 Cons.prems it waiters_wf_freed in auto)
      ultimately show ?thesis unfolding eq all using freed_trans [of "{t}" g ?v k k1] k1
        by (auto elim!: ensures_mono simp: bit_or_iff)
    qed
    show ?thesis using True ensures_bind [OF w n] unfolding set_bits_loop_Cons by simp
  qed
qed

section \<open>The functions\<close>

lemma upd_same [simp]:
  "ekern (upd_bits g f s) = ekern s" "bits g (upd_ekern h s) = bits g s" "ekern (upd_ekern h s) = h (ekern s)"
  "bits g (upd_bits g f s) = f (bits g s)" "g' \<noteq> g \<Longrightarrow> bits g' (upd_bits g f s) = bits g' s" "bits g (s\<lparr>ekern := k\<rparr>) = bits g s"
  "upd_bits g f s\<lparr>ekern := k\<rparr> = upd_bits g f (s\<lparr>ekern := k\<rparr>)"
  by (simp_all add: upd_bits_def upd_ekern_def bits_def)

lemma freed_susp:
  "freed T n v (s\<lparr>uxSchedulerSuspended := a\<rparr>) s' \<Longrightarrow> uxSchedulerSuspended s = d \<Longrightarrow> freed T n v s (s'\<lparr>uxSchedulerSuspended := d\<rparr>)"
  by (simp add: freed_def quiet_def event_item_def)

text \<open>The tasks that wait for group \<open>g\<close>, and those of them that the bits \<open>b\<close> satisfy.\<close>

definition group_waiters :: "nat \<Rightarrow> kernel \<Rightarrow> nat list" where
  "group_waiters g k = lists k (EventL g)"

definition released :: "nat \<Rightarrow> u32 \<Rightarrow> kernel \<Rightarrow> nat set" where
  "released g b k = {t \<in> set (group_waiters g k). satisfied b k t}"

text \<open>The contract of setting the bits \<open>v\<close> of group \<open>g\<close>.\<close>

definition bits_set :: "nat \<Rightarrow> u32 \<Rightarrow> esys \<Rightarrow> esys \<Rightarrow> bool" where
  "bits_set g v s s' \<longleftrightarrow>
     (let b = bits g s OR v; T = released g b (ekern s) in
      freed T g (b OR eventUNBLOCKED_DUE_TO_BIT_SET) (ekern s) (ekern s') \<and>
      (\<forall>i. bit (bits g s') i \<longleftrightarrow> bit b i \<and> \<not> cleared (ekern s) T i) \<and>
      (\<forall>g'. g' \<noteq> g \<longrightarrow> bits g' s' = bits g' s))"

lemma waiters_susp [simp]: "waiters_wf (s\<lparr>uxSchedulerSuspended := d\<rparr>) = waiters_wf s"
  by (simp add: waiters_wf_def)

lemma bit_clear: "bit (x AND NOT y) i \<longleftrightarrow> bit x i \<and> \<not> bit y i" for x y :: u32
  by (auto simp: bit_and_iff bit_not_iff dest: bit_imp_possible_bit)

lemma xEventGroupSetBits_held:
  assumes "held d (ekern s)" "Suc d < 2 ^ 32" "waiters_wf (ekern s)" "c < configNUMBER_OF_CORES"
  shows "ensures (xEventGroupSetBits c g v s) (\<lambda>(r, s'). held d (ekern s') \<and> bits_set g v s s' \<and> r = bits g s')"
proof -
  let ?k = "ekern s" and ?b = "bits g s OR v"
  let ?k1 = "?k\<lparr>uxSchedulerSuspended := Suc d\<rparr>"
  have h1: "held (Suc d) ?k1" using held_suspend [OF assms(1)] assms(1) held_running [OF assms(1)]
    by (simp add: vTaskSuspendAll_def held_def)
  have su: "vTaskSuspendAll ?k = ?k1" using held_running [OF assms(1)] assms(1) by (simp add: vTaskSuspendAll_def held_def)
  have k1: "kinv ?k1" using h1 by (simp add: held_iff [OF assms(4)] basic_def)
  let ?s1 = "upd_bits g (\<lambda>b. b OR v) (upd_ekern vTaskSuspendAll s)"
  have s1: "bits g ?s1 = ?b" "ekern ?s1 = ?k1" by (simp_all add: su)
  have T: "{t \<in> set (lists ?k1 (EventL g)). satisfied ?b ?k1 t} = released g ?b ?k" "cleared ?k1 A = cleared ?k A" for A
    by (auto simp: released_def group_waiters_def satisfied_def cleared_def clears_def bits_wanted_def wants_all_def event_item_def fun_eq_iff)
  have loop: "ensures (set_bits_loop c ?b (lists ?k1 (EventL g)) 0 ?k1) (\<lambda>(clr, k'). held (Suc d) k' \<and>
    freed (released g ?b ?k) g (?b OR eventUNBLOCKED_DUE_TO_BIT_SET) ?k1 k' \<and>
    (\<forall>i. bit clr i \<longleftrightarrow> bit (0::u32) i \<or> cleared ?k (released g ?b ?k) i))"
    by (rule set_bits_loop_ok [OF h1 _ assms(4), of "lists ?k1 (EventL g)" g ?b 0, unfolded T])
      (use assms(3) k1 waiter_list [OF k1] in \<open>simp_all add: kinv_distinct\<close>)
  then obtain clr k' where l: "set_bits_loop c ?b (lists ?k1 (EventL g)) 0 ?k1 = Inr (clr, k')" "held (Suc d) k'"
    "freed (released g ?b ?k) g (?b OR eventUNBLOCKED_DUE_TO_BIT_SET) ?k1 k'"
    "\<And>i. bit clr i \<longleftrightarrow> cleared ?k (released g ?b ?k) i"
    by (rule ensures_obtain) (auto split: prod.splits)
  obtain y where r: "xTaskResumeAll c k' = Inr (y, kick c (k'\<lparr>uxSchedulerSuspended := d\<rparr>))"
    using held_resume [OF l(2) assms(2,4)] by blast
  let ?k2 = "k'\<lparr>uxSchedulerSuspended := d\<rparr>"
  have "uxSchedulerSuspended ?k = d" using assms(1) by (simp add: held_def)
  then have "freed (released g ?b ?k) g (?b OR eventUNBLOCKED_DUE_TO_BIT_SET) ?k (kick c ?k2)"
    by (intro freed_yields [OF freed_susp [OF l(3)] yields_kick])
  moreover have "held d (kick c ?k2)" using l(2) by (intro held_kick) (simp add: held_def)
  moreover have "bit (?b AND NOT clr) i \<longleftrightarrow> bit ?b i \<and> \<not> cleared ?k (released g ?b ?k) i" for i
    unfolding bit_clear l(4) ..
  moreover have set: "xEventGroupSetBits c g v s = Inr (?b AND NOT clr, upd_bits g (\<lambda>b. (b OR v) AND NOT clr) (s\<lparr>ekern := kick c ?k2\<rparr>))"
  proof -
    have e: "on_ekern (set_bits_loop c ?b (lists ?k1 (EventL g)) 0) ?s1 = Inr (clr, ?s1\<lparr>ekern := k'\<rparr>)"
      unfolding on_ekern_def s1 l(1) by simp
    have f: "on_ekern (xTaskResumeAll c) (upd_bits g (\<lambda>b. b AND NOT clr) (?s1\<lparr>ekern := k'\<rparr>)) =
        Inr (y, upd_bits g (\<lambda>b. b AND NOT clr) ?s1\<lparr>ekern := kick c ?k2\<rparr>)"
      unfolding on_ekern_def using r by (simp del: kick_susp)
    show ?thesis unfolding xEventGroupSetBits_def Let_def xTasksWaitingForBits_def s1 e bindE_simps prod.case f
      by (simp add: upd_bits_def upd_ekern_def bits_def)
  qed
  ultimately show ?thesis unfolding set bits_set_def Let_def by simp
qed

lemma stable_alive': "stable k \<Longrightarrow> xSchedulerRunning k" "stable k \<Longrightarrow> uxSchedulerSuspended k = 0"
  "stable k \<Longrightarrow> lists k PendingReadyL = []" "stable k \<Longrightarrow> xPendedTicks k = 0"
  by (simp_all add: stable_def)

text \<open>The scheduler suspended and resumed, with nothing between.\<close>

lemma suspend_resume:
  assumes "stable k" "c < configNUMBER_OF_CORES"
  shows "vTaskSuspendAll k = k\<lparr>uxSchedulerSuspended := 1\<rparr>"
    "\<exists>b. xTaskResumeAll c (k\<lparr>uxSchedulerSuspended := 1\<rparr>) = Inr (b, kick c k)"
proof -
  have h: "held 0 k" using assms(1) by (simp add: held_stable)
  have z: "k\<lparr>uxSchedulerSuspended := 0\<rparr> = k" using stable_alive'(2) [OF assms(1)] by (cases k) simp
  show s: "vTaskSuspendAll k = k\<lparr>uxSchedulerSuspended := 1\<rparr>"
    using h held_running [OF h] by (simp add: vTaskSuspendAll_def held_def)
  have "held 1 (k\<lparr>uxSchedulerSuspended := 1\<rparr>)" by (simp add: held_def z assms(1))
  then have "\<exists>b. xTaskResumeAll c (k\<lparr>uxSchedulerSuspended := 1\<rparr>) = Inr (b, kick c (k\<lparr>uxSchedulerSuspended := 0\<rparr>))"
    using held_resume [of 0 "k\<lparr>uxSchedulerSuspended := 1\<rparr>" c] assms(2) by auto
  then show "\<exists>b. xTaskResumeAll c (k\<lparr>uxSchedulerSuspended := 1\<rparr>) = Inr (b, kick c k)" unfolding z .
qed

text \<open>Waiting for bits that are set, and not waiting.\<close>

lemma xEventGroupWaitBits_now:
  assumes "stable (ekern s)" "c < configNUMBER_OF_CORES"
    "prvTestWaitCondition (bits g s) w wall \<or> n = 0"
  shows "xEventGroupWaitBits c g w clr wall n s = Inr (Some (bits g s), upd_ekern (kick c)
    (if prvTestWaitCondition (bits g s) w wall \<and> clr then upd_bits g (\<lambda>b. b AND NOT w) s else s))"
proof -
  note sr = suspend_resume [OF assms(1,2)]
  obtain y where y: "xTaskResumeAll c (ekern s\<lparr>uxSchedulerSuspended := 1\<rparr>) = Inr (y, kick c (ekern s))" using sr(2) by blast
  have "resume_and_yield c False (upd_bits g f (upd_ekern vTaskSuspendAll s)) = Inr (upd_ekern (kick c) (upd_bits g f s))"
    "resume_and_yield c False (upd_ekern vTaskSuspendAll s) = Inr (upd_ekern (kick c) s)" for f
    by (simp_all add: resume_and_yield_def on_ekern_def sr(1) y del: One_nat_def) (simp_all add: upd_bits_def upd_ekern_def)
  then show ?thesis using assms(3) by (auto simp: xEventGroupWaitBits_def Let_def)
qed

lemma vTaskPlaceOnUnorderedEventList_ok:
  assumes st: "stable k" and c: "c < configNUMBER_OF_CORES" and w: "waiters_wf k" and r: "on_ready c k"
    and live: "\<not> idle_task k (cur k c)" and n: "n \<noteq> 0"
  shows "ensures (vTaskPlaceOnUnorderedEventList c (EventL m) v n (k\<lparr>uxSchedulerSuspended := 1\<rparr>))
    (\<lambda>k1. halted c k1 \<and> waits_in c m n (lists k (EventL m) @ [cur k c])
      ((event_item k)(cur k c := v OR taskEVENT_LIST_ITEM_VALUE_IN_USE)) k (portYIELD c (k1\<lparr>uxSchedulerSuspended := 0\<rparr>)))"
proof -
  let ?s = "k\<lparr>uxSchedulerSuspended := 1\<rparr>" and ?t = "cur k c" and ?v = "v OR taskEVENT_LIST_ITEM_VALUE_IN_USE"
  let ?a = "upd_tcb ?t (\<lambda>x. x\<lparr>xEventListItem := ?v\<rparr>) ?s"
  let ?e = "event_insert_end (EventL m) ?t ?a"
  have ks: "kinv ?s" using st by (simp add: stable_iff [OF c] basic_def)
  have cur: "cur ?s = cur k" by (simp add: cur_def fun_eq_iff)
  have ka: "kinv ?a" by (rule kinv_neutral [OF ks]) (simp add: neutral_def)
  have "eventContainer (tcb ?s ?t) = None" using waiting_delayed [OF _ w, of ?t] ks r by (auto simp: on_ready_def)
  then have "eventContainer (tcb ?a ?t) = None" by (simp add: upd_tcb_def)
  then have "kinv ?e" by (rule kinv_event_insert(2) [OF ka]) simp
  then have "entered ?t m (lists k (EventL m) @ [?t]) ((event_item k)(?t := ?v)) ?s ?e" unfolding entered_def
    by (simp add: event_insert_end_def prim_defs event_item_def)
  then have "ensures (prvAddCurrentTaskToDelayedList c n True ?e)
      (\<lambda>k1. halted c k1 \<and> waits_in c m n (lists k (EventL m) @ [?t]) ((event_item k)(?t := ?v)) k
        (portYIELD c (k1\<lparr>uxSchedulerSuspended := 0\<rparr>)))"
    by (rule place_ok [OF st c r live n])
  then show ?thesis using current_eq [OF ks c]
    by (simp add: vTaskPlaceOnUnorderedEventList_def cur [unfolded One_nat_def])
qed

lemma resume_halted:
  assumes "halted c k" "c < configNUMBER_OF_CORES"
  shows "resume_and_yield c True (s\<lparr>ekern := k\<rparr>) = Inr (s\<lparr>ekern := portYIELD c (k\<lparr>uxSchedulerSuspended := 0\<rparr>)\<rparr>)"
proof -
  have f: "xSchedulerRunning k" "uxCriticalNestings k c = 0" "uxSchedulerSuspended k = 1" "lists k PendingReadyL = []"
    "xPendedTicks k = 0" using assms by (simp_all add: halted_def basic_def nestings_def)
  obtain b k' where r: "xTaskResumeAll c k = Inr (b, k')" using xTaskResumeAll_eq [OF f] by blast
  show ?thesis using resume_yield_eq [OF f r] r
    by (cases b) (simp_all add: resume_and_yield_def on_ekern_def upd_ekern_def)
qed

text \<open>The task of core \<open>c\<close> waits for group \<open>g\<close>, at the end of its list, for \<open>n\<close> ticks, with \<open>v\<close> in its event item.\<close>

definition enlisted :: "nat \<Rightarrow> nat \<Rightarrow> u32 \<Rightarrow> u32 \<Rightarrow> esys \<Rightarrow> esys \<Rightarrow> bool" where
  "enlisted c g n v s s' \<longleftrightarrow> (let k = ekern s; t = cur k c in
     waits_in c g n (group_waiters g k @ [t]) ((event_item k)(t := v OR taskEVENT_LIST_ITEM_VALUE_IN_USE)) k (ekern s') \<and>
     group_of s' = group_of s)"

definition may_block :: "nat \<Rightarrow> kernel \<Rightarrow> bool" where
  "may_block c k \<longleftrightarrow> c < configNUMBER_OF_CORES \<and> on_ready c k \<and> \<not> idle_task k (cur k c)"

lemma block_ok:
  assumes "stable (ekern s)" "waiters_wf (ekern s)" "may_block c (ekern s)" "n \<noteq> 0"
  shows "ensures (bindE (vTaskPlaceOnUnorderedEventList c (xTasksWaitingForBits g) v n ((ekern s)\<lparr>uxSchedulerSuspended := 1\<rparr>))
      (\<lambda>k. bindE (resume_and_yield c True (s\<lparr>ekern := k\<rparr>)) (\<lambda>s2. Inr (None, s2))))
    (\<lambda>(r, s'). r = None \<and> stable (ekern s') \<and> enlisted c g n v s s')"
proof -
  have c: "c < configNUMBER_OF_CORES" "on_ready c (ekern s)" "\<not> idle_task (ekern s) (cur (ekern s) c)"
    using assms(3) by (simp_all add: may_block_def)
  show ?thesis unfolding xTasksWaitingForBits_def
  proof (rule ensures_bind [OF vTaskPlaceOnUnorderedEventList_ok [OF assms(1) c(1) assms(2) c(2,3) assms(4), of g v]])
    fix k assume "halted c k \<and> waits_in c g n (lists (ekern s) (EventL g) @ [cur (ekern s) c])
      ((event_item (ekern s))(cur (ekern s) c := v OR taskEVENT_LIST_ITEM_VALUE_IN_USE)) (ekern s) (portYIELD c (k\<lparr>uxSchedulerSuspended := 0\<rparr>))"
    then show "ensures (bindE (resume_and_yield c True (s\<lparr>ekern := k\<rparr>)) (\<lambda>s2. Inr (None, s2)))
        (\<lambda>(r, s'). r = None \<and> stable (ekern s') \<and> enlisted c g n v s s')"
      using resume_halted [of c k s] halted_stable [of c k] c(1) by (simp add: enlisted_def group_waiters_def Let_def)
  qed
qed

text \<open>What a task asks for, in its event item.\<close>

definition request :: "u32 \<Rightarrow> bool \<Rightarrow> bool \<Rightarrow> u32" where
  "request w clr wall = w OR ((if clr then eventCLEAR_EVENTS_ON_EXIT_BIT else 0) OR (if wall then eventWAIT_FOR_ALL_BITS else 0))"

lemma xEventGroupWaitBits_blocks:
  assumes "stable (ekern s)" "waiters_wf (ekern s)" "may_block c (ekern s)" "n \<noteq> 0"
    "\<not> prvTestWaitCondition (bits g s) w wall"
  shows "ensures (xEventGroupWaitBits c g w clr wall n s)
    (\<lambda>(r, s'). r = None \<and> stable (ekern s') \<and> enlisted c g n (request w clr wall) s s')"
proof -
  have c: "c < configNUMBER_OF_CORES" using assms(3) by (simp add: may_block_def)
  have e: "ekern (upd_ekern vTaskSuspendAll s) = (ekern s)\<lparr>uxSchedulerSuspended := 1\<rparr>"
    "(upd_ekern vTaskSuspendAll s)\<lparr>ekern := k\<rparr> = s\<lparr>ekern := k\<rparr>" for k
    using suspend_resume(1) [OF assms(1) c] by (simp_all add: upd_ekern_def)
  show ?thesis using block_ok [OF assms(1-4), of g "request w clr wall"] assms(4,5)
    unfolding xEventGroupWaitBits_def Let_def e request_def by simp
qed

lemma stable_section:
  assumes "stable k" "c < configNUMBER_OF_CORES"
  shows "vTaskExitCritical c (vTaskEnterCritical c k) = kick c k"
proof -
  have "held 0 k" using assms(1) by (simp add: held_stable)
  then show ?thesis using held_running held_nesting assms(2) by (intro enter_exit) blast+
qed

lemma xEventGroupClearBits_eq:
  assumes "stable (ekern s)" "c < configNUMBER_OF_CORES"
  shows "xEventGroupClearBits c g v s = (bits g s, upd_ekern (kick c) (upd_bits g (\<lambda>b. b AND NOT v) s))"
  using stable_section [OF assms] by (simp add: xEventGroupClearBits_def Let_def) (simp add: upd_ekern_def upd_bits_def)

subsection \<open>What a task does when it runs again\<close>

definition reset_item :: "nat \<Rightarrow> esys \<Rightarrow> esys" where
  "reset_item t = upd_ekern (upd_tcb t (\<lambda>x. x\<lparr>xEventListItem := of_nat configMAX_PRIORITIES - of_nat (uxPriority x)\<rparr>))"

lemma reset_item_stable: "stable (ekern s) \<Longrightarrow> stable (ekern (reset_item t s))"
proof -
  let ?k' = "ekern (reset_item t s)"
  assume st: "stable (ekern s)"
  then have "kinv (ekern s)" by (simp add: stable_def)
  then have "kinv ?k'" unfolding reset_item_def upd_same by (rule kinv_neutral) (simp add: neutral_def)
  then show ?thesis using st
    by (simp add: stable_def reset_item_def) (auto simp: pended_def runs_def cur_def ontime_def addressed_def upd_tcb_def)
qed

lemma reset_item_same [simp]: "bits g (reset_item t s) = bits g s"
  by (simp add: reset_item_def)

lemma uxTaskResetEventItemValue_ok:
  assumes "stable (ekern s)" "c < configNUMBER_OF_CORES"
  shows "on_ekern (uxTaskResetEventItemValue c) s = Inr (event_item (ekern s) (cur (ekern s) c), reset_item (cur (ekern s) c) s)"
  using current_eq [of "ekern s" c] assms
  by (simp add: on_ekern_def uxTaskResetEventItemValue_def stable_def event_item_def reset_item_def upd_ekern_def)

text \<open>A task that \<open>xEventGroupSetBits\<close> woke returns the bits it was woken with.\<close>

lemma woken_item:
  assumes "v = (b OR eventUNBLOCKED_DUE_TO_BIT_SET) OR taskEVENT_LIST_ITEM_VALUE_IN_USE"
  shows "v AND eventUNBLOCKED_DUE_TO_BIT_SET \<noteq> 0" "v AND NOT eventEVENT_BITS_CONTROL_BYTES = b AND NOT eventEVENT_BITS_CONTROL_BYTES"
proof -
  have "bit v 25" using assms by (simp add: bit_or_iff eventUNBLOCKED_DUE_TO_BIT_SET_def)
  then have "bit (v AND eventUNBLOCKED_DUE_TO_BIT_SET) 25" by (simp add: bit_and_iff eventUNBLOCKED_DUE_TO_BIT_SET_def)
  then show "v AND eventUNBLOCKED_DUE_TO_BIT_SET \<noteq> 0" by auto
  have "eventUNBLOCKED_DUE_TO_BIT_SET AND NOT eventEVENT_BITS_CONTROL_BYTES = 0"
    "taskEVENT_LIST_ITEM_VALUE_IN_USE AND NOT eventEVENT_BITS_CONTROL_BYTES = 0"
    by (simp_all add: eventUNBLOCKED_DUE_TO_BIT_SET_def taskEVENT_LIST_ITEM_VALUE_IN_USE_def eventEVENT_BITS_CONTROL_BYTES_def)
  then show "v AND NOT eventEVENT_BITS_CONTROL_BYTES = b AND NOT eventEVENT_BITS_CONTROL_BYTES"
    unfolding assms by (simp add: bit.conj_disj_distrib2)
qed

text \<open>A task whose time ran out looks at the bits once more.\<close>

lemma request_pending:
  assumes "w AND eventEVENT_BITS_CONTROL_BYTES = 0" "v = request w clr wall OR taskEVENT_LIST_ITEM_VALUE_IN_USE"
  shows "v AND eventUNBLOCKED_DUE_TO_BIT_SET = 0" "v AND NOT eventEVENT_BITS_CONTROL_BYTES = w"
    "v AND eventWAIT_FOR_ALL_BITS \<noteq> 0 \<longleftrightarrow> wall" "v AND eventCLEAR_EVENTS_ON_EXIT_BIT \<noteq> 0 \<longleftrightarrow> clr"
proof -
  let ?z = "((if clr then eventCLEAR_EVENTS_ON_EXIT_BIT else 0) OR (if wall then eventWAIT_FOR_ALL_BITS else 0)) OR
    taskEVENT_LIST_ITEM_VALUE_IN_USE"
  have v: "v = w OR ?z" using assms(2) by (simp add: request_def or.assoc)
  have sub: "w AND x = 0" if "eventEVENT_BITS_CONTROL_BYTES AND x = x" for x
  proof -
    have "w AND x = (w AND eventEVENT_BITS_CONTROL_BYTES) AND x" by (simp add: that and.assoc)
    then show ?thesis by (simp add: assms(1))
  qed
  have m: "eventEVENT_BITS_CONTROL_BYTES AND eventUNBLOCKED_DUE_TO_BIT_SET = eventUNBLOCKED_DUE_TO_BIT_SET"
    "eventEVENT_BITS_CONTROL_BYTES AND eventWAIT_FOR_ALL_BITS = eventWAIT_FOR_ALL_BITS"
    "eventEVENT_BITS_CONTROL_BYTES AND eventCLEAR_EVENTS_ON_EXIT_BIT = eventCLEAR_EVENTS_ON_EXIT_BIT"
    by (simp_all add: eventEVENT_BITS_CONTROL_BYTES_def eventWAIT_FOR_ALL_BITS_def eventCLEAR_EVENTS_ON_EXIT_BIT_def
        eventUNBLOCKED_DUE_TO_BIT_SET_def)
  note cdefs = eventEVENT_BITS_CONTROL_BYTES_def eventWAIT_FOR_ALL_BITS_def eventCLEAR_EVENTS_ON_EXIT_BIT_def
    eventUNBLOCKED_DUE_TO_BIT_SET_def taskEVENT_LIST_ITEM_VALUE_IN_USE_def
  have z: "?z AND eventUNBLOCKED_DUE_TO_BIT_SET = 0" "?z AND NOT eventEVENT_BITS_CONTROL_BYTES = 0"
    "?z AND eventWAIT_FOR_ALL_BITS \<noteq> 0 \<longleftrightarrow> wall" "?z AND eventCLEAR_EVENTS_ON_EXIT_BIT \<noteq> 0 \<longleftrightarrow> clr"
    by (cases clr; cases wall; simp add: cdefs)+
  have d: "v AND x = (w AND x) OR (?z AND x)" for x unfolding v by (rule bit.conj_disj_distrib2)
  have "w = (w AND eventEVENT_BITS_CONTROL_BYTES) OR (w AND NOT eventEVENT_BITS_CONTROL_BYTES)"
    by (simp flip: bit.conj_disj_distrib)
  then have "w AND NOT eventEVENT_BITS_CONTROL_BYTES = w" by (simp add: assms(1))
  then show "v AND eventUNBLOCKED_DUE_TO_BIT_SET = 0" "v AND NOT eventEVENT_BITS_CONTROL_BYTES = w"
    "v AND eventWAIT_FOR_ALL_BITS \<noteq> 0 \<longleftrightarrow> wall" "v AND eventCLEAR_EVENTS_ON_EXIT_BIT \<noteq> 0 \<longleftrightarrow> clr"
    unfolding d using sub [OF m(1)] sub [OF m(2)] sub [OF m(3)] z by simp_all
qed

text \<open>In both cases the task has the bits at hand, and its event item is its own again.\<close>

lemma returns_eq:
  assumes "stable (ekern s)" "c < configNUMBER_OF_CORES" "v = event_item (ekern s) (cur (ekern s) c)"
  shows "xEventGroupWaitBits_return c g w clr wall s =
      (let s1 = reset_item (cur (ekern s) c) s in
       if v AND eventUNBLOCKED_DUE_TO_BIT_SET = 0 then Inr (bits g s AND NOT eventEVENT_BITS_CONTROL_BYTES, upd_ekern (kick c)
         (if prvTestWaitCondition (bits g s) w wall \<and> clr then upd_bits g (\<lambda>b. b AND NOT w) s1 else s1))
       else Inr (v AND NOT eventEVENT_BITS_CONTROL_BYTES, s1))"
    "xEventGroupSync_return c g w s = xEventGroupWaitBits_return c g w True True s"
  using stable_section [OF reset_item_stable [OF assms(1)] assms(2), of "cur (ekern s) c"]
  by (simp_all add: xEventGroupWaitBits_return_def xEventGroupSync_return_def uxTaskResetEventItemValue_ok [OF assms(1,2)]
      assms(3) prvTestWaitCondition_def Let_def) (simp_all add: upd_ekern_def upd_bits_def bits_def)

lemma xEventGroupWaitBits_return_late:
  assumes "stable (ekern s)" "c < configNUMBER_OF_CORES" "w AND eventEVENT_BITS_CONTROL_BYTES = 0"
    "event_item (ekern s) (cur (ekern s) c) = request w clr wall OR taskEVENT_LIST_ITEM_VALUE_IN_USE"
  shows "xEventGroupWaitBits_return c g w clr wall s = Inr (bits g s AND NOT eventEVENT_BITS_CONTROL_BYTES,
    upd_ekern (kick c) (let s1 = reset_item (cur (ekern s) c) s in
      if prvTestWaitCondition (bits g s) w wall \<and> clr then upd_bits g (\<lambda>b. b AND NOT w) s1 else s1))"
  using request_pending(1) [OF assms(3,4)] by (simp add: returns_eq(1) [OF assms(1,2) refl] Let_def)

text \<open>A task that \<open>xEventGroupSetBits\<close> woke returns the bits it was woken with.\<close>

lemma xEventGroupWaitBits_return_woken:
  assumes "stable (ekern s)" "c < configNUMBER_OF_CORES"
    "event_item (ekern s) (cur (ekern s) c) = (b OR eventUNBLOCKED_DUE_TO_BIT_SET) OR taskEVENT_LIST_ITEM_VALUE_IN_USE"
  shows "xEventGroupWaitBits_return c g w clr wall s =
      Inr (b AND NOT eventEVENT_BITS_CONTROL_BYTES, reset_item (cur (ekern s) c) s)"
    "xEventGroupSync_return c g w s = Inr (b AND NOT eventEVENT_BITS_CONTROL_BYTES, reset_item (cur (ekern s) c) s)"
  using woken_item [OF assms(3)] by (simp_all add: returns_eq [OF assms(1,2) refl] Let_def)

section \<open>The rendezvous\<close>

text \<open>The state of \<open>xEventGroupSync\<close> after it has set the bits, seen with the scheduler running.\<close>

definition resumed :: "esys \<Rightarrow> esys" where
  "resumed = upd_ekern (\<lambda>k. k\<lparr>uxSchedulerSuspended := 0\<rparr>)"

lemma released_susp:
  "released g b (k\<lparr>uxSchedulerSuspended := d\<rparr>) = released g b k" "cleared (k\<lparr>uxSchedulerSuspended := d\<rparr>) = cleared k"
  by (simp_all add: released_def group_waiters_def satisfied_def cleared_def clears_def bits_wanted_def wants_all_def
      event_item_def fun_eq_iff)

lemma freed_may_block:
  assumes "freed T n v k k'" "may_block c k"
  shows "may_block c k'"
proof -
  have "quiet k k'" using assms(1) by (simp add: freed_def)
  then have "cur k' = cur k" "idle_task k' x = idle_task k x" "prio k' x = prio k x" for x
    by (simp_all add: quiet_def cur_def idle_task_def fun_eq_iff)
  then show ?thesis using assms by (auto simp: may_block_def on_ready_def freed_def)
qed

lemma sync_set:
  assumes "stable (ekern s)" "waiters_wf (ekern s)" "may_block c (ekern s)"
  shows "ensures (xEventGroupSetBits c g v (upd_ekern vTaskSuspendAll s)) (\<lambda>(r, s2). s2 = upd_ekern (\<lambda>k. k\<lparr>uxSchedulerSuspended := 1\<rparr>) (resumed s2) \<and>
    stable (ekern (resumed s2)) \<and> waiters_wf (ekern (resumed s2)) \<and> may_block c (ekern (resumed s2)) \<and> bits_set g v s (resumed s2))"
proof -
  have c: "c < configNUMBER_OF_CORES" using assms(3) by (simp add: may_block_def)
  let ?s1 = "upd_ekern vTaskSuspendAll s"
  have e: "ekern ?s1 = (ekern s)\<lparr>uxSchedulerSuspended := 1\<rparr>" using suspend_resume(1) [OF assms(1) c] by simp
  have h: "held 1 (ekern ?s1)" using held_suspend [of 0 "ekern s"] assms(1) by (simp add: held_stable)
  have w: "waiters_wf (ekern ?s1)" unfolding e using assms(2) by simp
  have z: "uxSchedulerSuspended (ekern s) = 0" using assms(1) by (simp add: stable_def)
  show ?thesis
  proof (rule ensures_mono [OF xEventGroupSetBits_held [OF h _ w c, of g v]])
    fix x assume "case x of (r, s') \<Rightarrow> held 1 (ekern s') \<and> bits_set g v ?s1 s' \<and> r = bits g s'"
    then obtain r s2 where x: "x = (r, s2)" "held 1 (ekern s2)" "bits_set g v ?s1 s2" by (cases x) simp
    let ?T = "released g (bits g s OR v) (ekern s)"
    have "freed ?T g ((bits g s OR v) OR eventUNBLOCKED_DUE_TO_BIT_SET) ((ekern s)\<lparr>uxSchedulerSuspended := 1\<rparr>) (ekern s2)"
      using x(3) unfolding bits_set_def Let_def e released_susp by simp
    from freed_susp [OF this z] have f: "freed ?T g ((bits g s OR v) OR eventUNBLOCKED_DUE_TO_BIT_SET) (ekern s) (ekern (resumed s2))"
      by (simp add: resumed_def)
    moreover have "s2 = upd_ekern (\<lambda>k. k\<lparr>uxSchedulerSuspended := 1\<rparr>) (resumed s2)"
      using x(2) by (cases s2; cases "ekern s2") (simp add: upd_ekern_def resumed_def held_def)
    moreover have "stable (ekern (resumed s2))" using x(2) by (simp add: held_def resumed_def)
    moreover have "bits g' (resumed s2) = bits g' s2" for g' by (simp add: resumed_def)
    then have "bits_set g v s (resumed s2)" using x(3) f unfolding bits_set_def Let_def e released_susp by simp
    ultimately show "case x of (r, s2) \<Rightarrow> s2 = upd_ekern (\<lambda>k. k\<lparr>uxSchedulerSuspended := 1\<rparr>) (resumed s2) \<and>
        stable (ekern (resumed s2)) \<and> waiters_wf (ekern (resumed s2)) \<and> may_block c (ekern (resumed s2)) \<and> bits_set g v s (resumed s2)"
      using x(1) waiters_wf_freed [OF assms(2) f] freed_may_block [OF f assms(3)] by simp
  qed simp
qed

lemma xEventGroupSync_ok:
  assumes "stable (ekern s)" "waiters_wf (ekern s)" "may_block c (ekern s)"
  shows "ensures (xEventGroupSync c g v w n s) (\<lambda>(r, s'). \<exists>s1. stable (ekern s1) \<and> waiters_wf (ekern s1) \<and>
    may_block c (ekern s1) \<and> bits_set g v s s1 \<and>
    (if (bits g s OR v) AND w = w then r = Some (bits g s OR v) \<and> s' = upd_ekern (kick c) (upd_bits g (\<lambda>b. b AND NOT w) s1)
     else if n = 0 then r = Some (bits g s1) \<and> s' = upd_ekern (kick c) s1
     else r = None \<and> stable (ekern s') \<and> enlisted c g n (request w True True) s1 s'))"
proof -
  have c: "c < configNUMBER_OF_CORES" using assms(3) by (simp add: may_block_def)
  obtain x s2 where s2: "xEventGroupSetBits c g v (upd_ekern vTaskSuspendAll s) = Inr (x, s2)"
    "s2 = upd_ekern (\<lambda>k. k\<lparr>uxSchedulerSuspended := 1\<rparr>) (resumed s2)" "stable (ekern (resumed s2))" "waiters_wf (ekern (resumed s2))"
    "may_block c (ekern (resumed s2))" "bits_set g v s (resumed s2)"
    using sync_set [OF assms, of g v] by (rule ensures_obtain) auto
  define s1 where "s1 = resumed s2"
  have s1: "s2 = upd_ekern (\<lambda>k. k\<lparr>uxSchedulerSuspended := 1\<rparr>) s1" "stable (ekern s1)" "waiters_wf (ekern s1)" "may_block c (ekern s1)" "bits_set g v s s1"
    using s2(2-6) by (simp_all add: s1_def)
  have b: "bits g (upd_ekern vTaskSuspendAll s) = bits g s" "bits g s2 = bits g s1" using s1(1) by simp_all
  obtain y where y: "xTaskResumeAll c ((ekern s1)\<lparr>uxSchedulerSuspended := 1\<rparr>) = Inr (y, kick c (ekern s1))"
    using suspend_resume(2) [OF s1(2) c] by blast
  have f: "resume_and_yield c False (upd_bits g h s2) = Inr (upd_ekern (kick c) (upd_bits g h s1))"
    "resume_and_yield c False s2 = Inr (upd_ekern (kick c) s1)" for h
    unfolding s1(1) by (simp_all add: resume_and_yield_def on_ekern_def y [unfolded One_nat_def]) (simp_all add: upd_bits_def upd_ekern_def)
  show ?thesis
  proof (cases "(bits g s OR v) AND w = w \<or> n = 0")
    case True
    then show ?thesis using s1(2-5) by (auto simp: xEventGroupSync_def Let_def b s2(1) f)
  next
    case False
    have e: "ekern s2 = (ekern s1)\<lparr>uxSchedulerSuspended := 1\<rparr>" "s2\<lparr>ekern := k\<rparr> = s1\<lparr>ekern := k\<rparr>" for k
      unfolding s1(1) by (simp_all add: upd_ekern_def)
    have rq: "w OR eventCLEAR_EVENTS_ON_EXIT_BIT OR eventWAIT_FOR_ALL_BITS = request w True True" by (simp add: request_def or.assoc)
    have "xEventGroupSync c g v w n s = bindE (vTaskPlaceOnUnorderedEventList c (xTasksWaitingForBits g) (request w True True) n
        ((ekern s1)\<lparr>uxSchedulerSuspended := 1\<rparr>)) (\<lambda>k. bindE (resume_and_yield c True (s1\<lparr>ekern := k\<rparr>)) (\<lambda>s3. Inr (None, s3)))"
      using False unfolding xEventGroupSync_def Let_def b s2(1) rq by (simp add: e [unfolded One_nat_def])
    moreover have "n \<noteq> 0" using False by simp
    ultimately show ?thesis using block_ok [OF s1(2-4), of n g "request w True True"] False s1(2-5) by (auto elim!: ensures_mono)
  qed
qed

section \<open>Deletion\<close>

lemma delete_group_loop_ok:
  assumes "held d k" "waiters_wf k" "c < configNUMBER_OF_CORES" "length (lists k (EventL g)) \<le> fuel"
  shows "ensures (delete_group_loop fuel c g k)
    (\<lambda>k'. held d k' \<and> freed (set (lists k (EventL g))) g eventUNBLOCKED_DUE_TO_BIT_SET k k')"
  using assms
proof (induction fuel arbitrary: k)
  case 0
  then show ?case by (simp add: xTasksWaitingForBits_def freed_refl)
next
  case (Suc fuel)
  show ?case
  proof (cases "lists k (EventL g)")
    case Nil
    then show ?thesis using Suc.prems(1) by (simp add: xTasksWaitingForBits_def freed_refl)
  next
    case (Cons t ts)
    have k: "kinv k" using Suc.prems(1,3) by (simp add: held_iff basic_def)
    have t: "eventContainer (tcb k t) = Some (EventL g)" using waiter_list [OF k, of t g] Cons by simp
    have d: "distinct (t # ts)" using kinv_distinct [OF k, of "EventL g"] Cons by simp
    have n: "ensures (delete_group_loop fuel c g k1) (\<lambda>k'. held d k' \<and> freed (set (lists k (EventL g))) g eventUNBLOCKED_DUE_TO_BIT_SET k k')"
      if k1: "held d k1 \<and> freed {t} g eventUNBLOCKED_DUE_TO_BIT_SET k k1" for k1
    proof -
      have l: "lists k1 (EventL g) = ts" using k1 d Cons by (auto simp: freed_def filter_id_conv)
      have "ensures (delete_group_loop fuel c g k1) (\<lambda>k'. held d k' \<and> freed (set ts) g eventUNBLOCKED_DUE_TO_BIT_SET k1 k')"
        using Suc.IH [of k1] Suc.prems(2-4) k1 waiters_wf_freed Cons l by auto
      then show ?thesis using freed_trans [of "{t}" g _ k k1 "set ts"] k1 Cons by (auto elim!: ensures_mono)
    qed
    show ?thesis using ensures_bind [OF vTaskRemoveFromUnorderedEventList_ok [OF Suc.prems(1-3) t] n] Cons
      by (simp add: xTasksWaitingForBits_def)
  qed
qed

lemma vEventGroupDelete_ok:
  assumes "stable (ekern s)" "waiters_wf (ekern s)" "c < configNUMBER_OF_CORES"
  shows "ensures (vEventGroupDelete c g s) (\<lambda>(fr, s'). stable (ekern s') \<and> group_of s' = group_of s \<and>
    fr = (\<not> eg_ucStaticallyAllocated (group_of s g)) \<and>
    freed (set (group_waiters g (ekern s))) g eventUNBLOCKED_DUE_TO_BIT_SET (ekern s) (ekern s'))"
proof -
  let ?k = "(ekern s)\<lparr>uxSchedulerSuspended := 1\<rparr>"
  have e: "vTaskSuspendAll (ekern s) = ?k" by (rule suspend_resume(1) [OF assms(1,3)])
  have h: "held 1 ?k" using held_suspend [of 0 "ekern s"] assms(1) by (simp add: held_stable e [unfolded One_nat_def])
  obtain k1 where k1: "delete_group_loop (length (lists ?k (EventL g))) c g ?k = Inr k1" "held 1 k1"
    "freed (set (lists ?k (EventL g))) g eventUNBLOCKED_DUE_TO_BIT_SET ?k k1"
    using delete_group_loop_ok [OF h _ assms(3) order_refl, of g] assms(2) by (auto elim!: ensures_obtain)
  obtain y where y: "xTaskResumeAll c k1 = Inr (y, kick c (k1\<lparr>uxSchedulerSuspended := 0\<rparr>))"
    using held_resume [of 0 k1 c] k1(2) assms(3) by auto
  have z: "uxSchedulerSuspended (ekern s) = 0" using assms(1) by (simp add: stable_def)
  have "freed (set (group_waiters g (ekern s))) g eventUNBLOCKED_DUE_TO_BIT_SET (ekern s) (kick c (k1\<lparr>uxSchedulerSuspended := 0\<rparr>))"
    using freed_yields [OF freed_susp [OF k1(3) z] yields_kick] by (simp add: group_waiters_def)
  moreover have "stable (kick c (k1\<lparr>uxSchedulerSuspended := 0\<rparr>))" using k1(2) by (intro stable_kick) (simp add: held_def)
  moreover have "vEventGroupDelete c g s = Inr (\<not> eg_ucStaticallyAllocated (group_of s g), s\<lparr>ekern := kick c (k1\<lparr>uxSchedulerSuspended := 0\<rparr>)\<rparr>)"
    unfolding vEventGroupDelete_def e xTasksWaitingForBits_def Let_def k1(1) bindE_simps y by simp
  ultimately show ?thesis by simp
qed

end
