(* ===== verification/EventGroupSteps.thy ===== *)
theory EventGroupSteps
  imports EventGroupProps WaitSteps
begin

text \<open>
  The running system with event groups: tick interrupts, context switches, calls of tasks and idle tasks, and the
  calls on event groups, in any order.  The invariant: the kernel is stable, the tasks in event lists sleep or are
  suspended, the bits of a group leave the control byte free, and no task waits for bits that are set.
\<close>

unbundle bit_operations_syntax

section \<open>The invariant\<close>

definition user_bits :: "u32 \<Rightarrow> bool" where
  "user_bits b \<longleftrightarrow> b AND eventEVENT_BITS_CONTROL_BYTES = 0"

text \<open>No task waits whose condition holds.\<close>

definition no_missed :: "esys \<Rightarrow> bool" where
  "no_missed s \<longleftrightarrow> (\<forall>g t. eventContainer (tcb (ekern s) t) = Some (EventL g) \<longrightarrow> \<not> satisfied (bits g s) (ekern s) t)"

definition esys_ok :: "esys \<Rightarrow> bool" where
  "esys_ok s \<longleftrightarrow> stable (ekern s) \<and> waiters_wf (ekern s) \<and> (\<forall>g. user_bits (bits g s)) \<and> no_missed s"

text \<open>Fewer bits satisfy fewer conditions.\<close>

definition fewer :: "u32 \<Rightarrow> u32 \<Rightarrow> bool" where
  "fewer b' b \<longleftrightarrow> (\<forall>i. bit b' i \<longrightarrow> bit b i)"

lemma fewer_refl [simp]: "fewer b b"
  by (simp add: fewer_def)

lemma fewer_and [simp]: "fewer (b AND m) b"
  by (simp add: fewer_def bit_and_iff)

lemma fewer_iff: "fewer b' b \<longleftrightarrow> b' AND b = b'"
proof
  show "b' AND b = b'" if "fewer b' b" using that by (intro bit_eqI) (auto simp: fewer_def bit_and_iff)
  show "fewer b' b" if "b' AND b = b'" using that unfolding fewer_def by (metis bit_and_iff)
qed

lemma test_fewer:
  assumes "fewer b' b" "prvTestWaitCondition b' w wall"
  shows "prvTestWaitCondition b w wall"
proof -
  have s: "b' AND (b AND w) = b' AND w" using assms(1) by (simp add: fewer_iff flip: and.assoc)
  show ?thesis
  proof (cases wall)
    case True
    then have w: "b' AND w = w" using assms(2) by (simp add: prvTestWaitCondition_def)
    then have "b AND w = b AND (b' AND w)" by simp
    also have "\<dots> = b' AND w" using s by (simp add: and.left_commute)
    finally show ?thesis using True w by (simp add: prvTestWaitCondition_def)
  next
    case False
    then show ?thesis using assms(2) s by (auto simp: prvTestWaitCondition_def)
  qed
qed

lemma satisfied_fewer: "fewer b' b \<Longrightarrow> \<not> satisfied b k t \<Longrightarrow> \<not> satisfied b' k t"
  using test_fewer by (auto simp: satisfied_def)

lemma satisfied_item: "event_item k' t = event_item k t \<Longrightarrow> satisfied b k' t = satisfied b k t"
  by (simp add: satisfied_def bits_wanted_def wants_all_def)

lemma user_fewer: "fewer b' b \<Longrightarrow> user_bits b \<Longrightarrow> user_bits b'"
proof -
  assume f: "fewer b' b" and u: "user_bits b"
  have "b' AND eventEVENT_BITS_CONTROL_BYTES = b' AND (b AND eventEVENT_BITS_CONTROL_BYTES)"
    using f by (simp add: fewer_iff flip: and.assoc)
  then show "user_bits b'" using u by (simp add: user_bits_def)
qed

lemma user_or: "user_bits a \<Longrightarrow> user_bits b \<Longrightarrow> user_bits (a OR b)"
  by (simp add: user_bits_def bit.conj_disj_distrib2)

text \<open>Steps after which fewer tasks wait, unchanged, and fewer bits are set.\<close>

lemma esys_ok_calm:
  assumes "esys_ok s" "stable (ekern s')" "kept (ekern s) (ekern s')" "\<And>g. fewer (bits g s') (bits g s)"
  shows "esys_ok s'"
proof -
  have "waiters_wf (ekern s')" using assms(1,3) waiters_wf_kept by (auto simp: esys_ok_def)
  moreover have "no_missed s'" unfolding no_missed_def
  proof (intro allI impI)
    fix g t assume e: "eventContainer (tcb (ekern s') t) = Some (EventL g)"
    then have k: "eventContainer (tcb (ekern s) t) = Some (EventL g)" "event_item (ekern s') t = event_item (ekern s) t"
      using iffD1 [OF kept_iff assms(3), THEN spec, of t] by simp_all
    then have "\<not> satisfied (bits g s) (ekern s) t" using assms(1) by (simp add: esys_ok_def no_missed_def)
    then show "\<not> satisfied (bits g s') (ekern s') t"
      unfolding satisfied_item [OF k(2)] by (rule satisfied_fewer [OF assms(4)])
  qed
  moreover have "user_bits (bits g s')" for g using user_fewer [OF assms(4)] assms(1) by (simp add: esys_ok_def)
  ultimately show ?thesis using assms(2) by (simp add: esys_ok_def)
qed

lemma kept_tcb: "tcb k' = tcb k \<Longrightarrow> kept k k'"
  by (simp add: kept_def conts_def event_item_def)

lemma esys_ok_kick: "esys_ok s \<Longrightarrow> (\<And>g. fewer (bits g s') (bits g s)) \<Longrightarrow> ekern s' = kick c (ekern s) \<Longrightarrow> esys_ok s'"
  by (rule esys_ok_calm) (auto simp: esys_ok_def kept_tcb intro: stable_kick)

section \<open>The calls\<close>

lemma bits_set_fewer: "bits_set g v s s' \<Longrightarrow> fewer (bits g s') (bits g s OR v)"
  by (auto simp: bits_set_def fewer_def Let_def)

lemma bits_set_ok:
  assumes "esys_ok s" "bits_set g v s s'" "stable (ekern s')" "user_bits v"
  shows "esys_ok s'"
proof -
  let ?b = "bits g s OR v"
  let ?T = "released g ?b (ekern s)"
  have f: "freed ?T g (?b OR eventUNBLOCKED_DUE_TO_BIT_SET) (ekern s) (ekern s')" and o: "\<And>h. h \<noteq> g \<Longrightarrow> bits h s' = bits h s"
    using assms(2) by (simp_all add: bits_set_def Let_def)
  have "user_bits (bits h s')" for h
    using assms(1,4) user_fewer [OF bits_set_fewer [OF assms(2)]] user_or o by (cases "h = g") (auto simp: esys_ok_def)
  moreover have "no_missed s'" unfolding no_missed_def
  proof (intro allI impI)
    fix h t assume e: "eventContainer (tcb (ekern s') t) = Some (EventL h)"
    then have t: "t \<notin> ?T" "eventContainer (tcb (ekern s) t) = Some (EventL h)" "event_item (ekern s') t = event_item (ekern s) t"
      using f by (auto simp: freed_def split: if_splits)
    show "\<not> satisfied (bits h s') (ekern s') t"
    proof (cases "h = g")
      case True
      have "kinv (ekern s)" using assms(1) by (simp add: esys_ok_def stable_def)
      then have "\<not> satisfied ?b (ekern s) t"
        using t waiter_list True by (auto simp: released_def group_waiters_def)
      then show ?thesis using satisfied_fewer [OF bits_set_fewer [OF assms(2)]] satisfied_item [OF t(3)] True by simp
    next
      case False
      then show ?thesis using assms(1) t o satisfied_item [OF t(3)] by (simp add: esys_ok_def no_missed_def)
    qed
  qed
  ultimately show ?thesis using assms(1,3) waiters_wf_freed [OF _ f] by (simp add: esys_ok_def)
qed

lemma enlisted_waiters_wf:
  assumes "enlisted c g n v s s'" "waiters_wf (ekern s)"
  shows "waiters_wf (ekern s')"
  unfolding waiters_wf_def
proof (intro allI impI)
  let ?k = "ekern s" and ?k' = "ekern s'"
  have w: "waits_in c g n (group_waiters g ?k @ [cur ?k c]) ((event_item ?k)(cur ?k c := v OR taskEVENT_LIST_ITEM_VALUE_IN_USE)) ?k ?k'"
    using assms(1) by (simp add: enlisted_def Let_def)
  fix t assume e: "eventContainer (tcb ?k' t) \<noteq> None"
  show "stateContainer (tcb ?k' t) \<in> {Some DelayedL1, Some DelayedL2, Some SuspendedL}"
  proof (cases "t = cur ?k c")
    case True
    then show ?thesis using w
      by (cases "n = portMAX_DELAY") (auto simp: waits_in_def remaining_def sleeping_def split: if_splits)
  next
    case False
    then show ?thesis using w assms(2) e by (simp add: waits_in_def waiters_wf_def)
  qed
qed

lemma bits_group: "group_of s' = group_of s \<Longrightarrow> bits g s' = bits g s"
  by (simp add: bits_def)

lemma enlisted_ok:
  assumes "esys_ok s" "enlisted c g n (request w clr wall) s s'" "stable (ekern s')" "user_bits w"
    "\<not> prvTestWaitCondition (bits g s) w wall"
  shows "esys_ok s'"
proof -
  let ?k = "ekern s" and ?k' = "ekern s'"
  have w: "waits_in c g n (group_waiters g ?k @ [cur ?k c]) ((event_item ?k)(cur ?k c := request w clr wall OR taskEVENT_LIST_ITEM_VALUE_IN_USE)) ?k ?k'"
    and b: "bits h s' = bits h s" for h
    using assms(2) bits_group [of s' s h] by (simp_all add: enlisted_def Let_def)
  have item: "event_item ?k' = (event_item ?k)(cur ?k c := request w clr wall OR taskEVENT_LIST_ITEM_VALUE_IN_USE)"
    using w by (simp add: waits_in_def)
  have "no_missed s'" unfolding no_missed_def
  proof (intro allI impI)
    fix h t assume e: "eventContainer (tcb ?k' t) = Some (EventL h)"
    show "\<not> satisfied (bits h s') ?k' t"
    proof (cases "t = cur ?k c")
      case True
      then have "h = g" using e w by (simp add: waits_in_def)
      moreover have "satisfied (bits g s) ?k' t = prvTestWaitCondition (bits g s) w wall"
        using True request_pending [OF assms(4) [unfolded user_bits_def] refl, of clr wall]
        by (simp add: satisfied_def bits_wanted_def wants_all_def item)
      ultimately show ?thesis using assms(5) b by simp
    next
      case False
      then have "eventContainer (tcb ?k t) = Some (EventL h)" using e w by (simp add: waits_in_def)
      then show ?thesis using assms(1) satisfied_item [of ?k' t ?k] item False b by (simp add: esys_ok_def no_missed_def)
    qed
  qed
  then show ?thesis using assms(1,3) enlisted_waiters_wf [OF assms(2)] b by (simp add: esys_ok_def)
qed

text \<open>The end of a wait.\<close>

lemma reset_item_ok:
  assumes "esys_ok s" "on_ready c (ekern s)"
  shows "esys_ok (reset_item (cur (ekern s) c) s)"
proof -
  let ?t = "cur (ekern s) c"
  let ?s' = "reset_item ?t s"
  have "kinv (ekern s)" "waiters_wf (ekern s)" using assms(1) by (simp_all add: esys_ok_def stable_def)
  then have n: "eventContainer (tcb (ekern s) ?t) = None" using waiting_delayed assms(2) by (auto simp: on_ready_def)
  have t: "eventContainer (tcb (ekern ?s') u) = eventContainer (tcb (ekern s) u)"
    "stateContainer (tcb (ekern ?s') u) = stateContainer (tcb (ekern s) u)"
    "u \<noteq> ?t \<Longrightarrow> event_item (ekern ?s') u = event_item (ekern s) u" for u
    by (simp_all add: reset_item_def upd_tcb_def event_item_def)
  have "no_missed ?s'" unfolding no_missed_def t(1)
  proof (intro allI impI)
    fix g u assume e: "eventContainer (tcb (ekern s) u) = Some (EventL g)"
    then have "u \<noteq> ?t" using n by auto
    then show "\<not> satisfied (bits g ?s') (ekern ?s') u"
      using assms(1) e satisfied_item [OF t(3)] by (simp add: esys_ok_def no_missed_def)
  qed
  then show ?thesis using assms(1) t reset_item_stable by (simp add: esys_ok_def waiters_wf_def)
qed

lemma return_ok:
  assumes "esys_ok s" "c < configNUMBER_OF_CORES" "on_ready c (ekern s)"
  shows "ensures (xEventGroupWaitBits_return c g w clr wall s) (\<lambda>(r, s'). esys_ok s')"
proof -
  have st: "stable (ekern s)" using assms(1) by (simp add: esys_ok_def)
  let ?s1 = "reset_item (cur (ekern s) c) s"
  have "esys_ok (upd_ekern (kick c) (if b then upd_bits g (\<lambda>b. b AND NOT w) ?s1 else ?s1))" for b
  proof (rule esys_ok_kick [OF reset_item_ok [OF assms(1,3)]])
    show "fewer (bits h (upd_ekern (kick c) (if b then upd_bits g (\<lambda>b. b AND NOT w) ?s1 else ?s1))) (bits h ?s1)" for h
      by (cases "h = g") auto
  qed simp
  then show ?thesis using reset_item_ok [OF assms(1,3)]
    by (simp add: returns_eq(1) [OF st assms(2) refl] Let_def del: upd_same)
qed

section \<open>Steps\<close>

datatype eaction =
    EKernel action
  | ESet nat nat u32
  | EClear nat nat u32
  | EWait nat nat u32 bool bool u32
  | EWaitEnd nat nat u32 bool bool
  | ESync nat nat u32 u32 u32
  | ESyncEnd nat nat u32

text \<open>A task calls between two interrupts, and passes bits outside the control byte, as the functions assert.\<close>

definition ecalls_now :: "nat \<Rightarrow> esys \<Rightarrow> bool" where
  "ecalls_now c s \<longleftrightarrow> c < configNUMBER_OF_CORES \<and> runs (ekern s) c \<and> \<not> idle_task (ekern s) (cur (ekern s) c) \<and> \<not> pendsv (ekern s) c"

definition eenabled :: "eaction \<Rightarrow> esys \<Rightarrow> bool" where
  "eenabled a s = (case a of
       EKernel k \<Rightarrow> enabled k (ekern s)
     | ESet c g v \<Rightarrow> ecalls_now c s \<and> user_bits v
     | EClear c g v \<Rightarrow> ecalls_now c s \<and> user_bits v
     | EWait c g w clr wall n \<Rightarrow> ecalls_now c s \<and> user_bits w \<and> w \<noteq> 0
     | EWaitEnd c g w clr wall \<Rightarrow> ecalls_now c s
     | ESync c g v w n \<Rightarrow> ecalls_now c s \<and> user_bits v \<and> user_bits w \<and> w \<noteq> 0
     | ESyncEnd c g w \<Rightarrow> ecalls_now c s)"

definition eact :: "(u32 \<Rightarrow> kernel \<Rightarrow> fault + kernel) \<Rightarrow> eaction \<Rightarrow> esys \<Rightarrow> fault + esys" where
  "eact slp a s = (case a of
       EKernel k \<Rightarrow> bindE (act slp k (ekern s)) (\<lambda>k'. Inr (s\<lparr>ekern := k'\<rparr>))
     | ESet c g v \<Rightarrow> bindE (xEventGroupSetBits c g v s) (\<lambda>(_, s'). Inr s')
     | EClear c g v \<Rightarrow> Inr (snd (xEventGroupClearBits c g v s))
     | EWait c g w clr wall n \<Rightarrow> bindE (xEventGroupWaitBits c g w clr wall n s) (\<lambda>(_, s'). Inr s')
     | EWaitEnd c g w clr wall \<Rightarrow> bindE (xEventGroupWaitBits_return c g w clr wall s) (\<lambda>(_, s'). Inr s')
     | ESync c g v w n \<Rightarrow> bindE (xEventGroupSync c g v w n s) (\<lambda>(_, s'). Inr s')
     | ESyncEnd c g w \<Rightarrow> bindE (xEventGroupSync_return c g w s) (\<lambda>(_, s'). Inr s'))"

inductive eruns :: "(u32 \<Rightarrow> kernel \<Rightarrow> fault + kernel) \<Rightarrow> esys \<Rightarrow> esys \<Rightarrow> bool" for slp where
  begins: "eruns slp s s"
| proceeds: "eruns slp s s1 \<Longrightarrow> eenabled a s1 \<Longrightarrow> eact slp a s1 = Inr s2 \<Longrightarrow> eruns slp s s2"

lemma ecalls_may_block: "ecalls_now c s \<Longrightarrow> may_block c (ekern s)"
  by (auto simp: ecalls_now_def may_block_def intro: runs_on_ready)

lemma set_ok:
  assumes "esys_ok s" "c < configNUMBER_OF_CORES"
  shows "ensures (xEventGroupSetBits c g v s) (\<lambda>(r, s'). stable (ekern s') \<and> bits_set g v s s' \<and> r = bits g s')"
  using xEventGroupSetBits_held [of 0 s c g v] assms by (simp add: esys_ok_def held_stable)

lemma eact_ok:
  assumes ok: "esys_ok s" and en: "eenabled a s"
  shows "ensures (eact slp a s) esys_ok"
proof -
  have st: "stable (ekern s)" "waiters_wf (ekern s)" using ok by (simp_all add: esys_ok_def)
  have one: "ensures (bindE m (\<lambda>(_, s'). Inr s')) esys_ok" if "ensures m (\<lambda>(r, s'). esys_ok s')" for m :: "fault + ('x \<times> esys)"
    using that by (rule ensures_snd)
  show ?thesis
  proof (cases a)
    case (EKernel k)
    then have e: "enabled k (ekern s)" using en by (simp add: eenabled_def)
    obtain k' where k': "act slp k (ekern s) = Inr k'" "stable k'" using act_ok [OF st(1) e, of slp] by (auto simp: ensures_def)
    have "esys_ok (s\<lparr>ekern := k'\<rparr>)"
      by (rule esys_ok_calm [OF ok]) (use k' kept_act [OF k'(1) e st] in simp_all)
    then show ?thesis using k' by (simp add: eact_def EKernel)
  next
    case (ESet c g v)
    then have c: "c < configNUMBER_OF_CORES" and v: "user_bits v" using en by (simp_all add: eenabled_def ecalls_now_def)
    show ?thesis unfolding eact_def ESet eaction.case
      by (rule one [OF ensures_mono [OF set_ok [OF ok c]]]) (use bits_set_ok [OF ok _ _ v] in auto)
  next
    case (EClear c g v)
    then have c: "c < configNUMBER_OF_CORES" using en by (simp add: eenabled_def ecalls_now_def)
    have "esys_ok (upd_ekern (kick c) (upd_bits g (\<lambda>b. b AND NOT v) s))"
    proof (rule esys_ok_kick [OF ok])
      show "fewer (bits h (upd_ekern (kick c) (upd_bits g (\<lambda>b. b AND NOT v) s))) (bits h s)" for h by (cases "h = g") auto
    qed simp
    then show ?thesis by (simp add: eact_def EClear xEventGroupClearBits_eq [OF st(1) c])
  next
    case (EWait c g w clr wall n)
    then have mb: "may_block c (ekern s)" and w: "user_bits w" using en ecalls_may_block by (simp_all add: eenabled_def)
    then have c: "c < configNUMBER_OF_CORES" by (simp add: may_block_def)
    have "ensures (xEventGroupWaitBits c g w clr wall n s) (\<lambda>(r, s'). esys_ok s')"
    proof (cases "prvTestWaitCondition (bits g s) w wall \<or> n = 0")
      case True
      have "esys_ok (upd_ekern (kick c) (if b then upd_bits g (\<lambda>b. b AND NOT w) s else s))" for b
      proof (rule esys_ok_kick [OF ok])
        show "fewer (bits h (upd_ekern (kick c) (if b then upd_bits g (\<lambda>b. b AND NOT w) s else s))) (bits h s)" for h
          by (cases "h = g") auto
      qed simp
      then show ?thesis by (simp add: xEventGroupWaitBits_now [OF st(1) c True] del: upd_same)
    next
      case False
      then have f: "n \<noteq> 0" "\<not> prvTestWaitCondition (bits g s) w wall" by simp_all
      show ?thesis
        by (rule ensures_mono [OF xEventGroupWaitBits_blocks [OF st mb f, of clr]]) (use enlisted_ok [OF ok _ _ w f(2)] in auto)
    qed
    then show ?thesis unfolding eact_def EWait eaction.case by (rule one)
  next
    case (EWaitEnd c g w clr wall)
    then have mb: "may_block c (ekern s)" using en ecalls_may_block by (simp add: eenabled_def)
    then show ?thesis unfolding eact_def EWaitEnd eaction.case by (intro one return_ok [OF ok]) (simp_all add: may_block_def)
  next
    case (ESync c g v w n)
    then have mb: "may_block c (ekern s)" and v: "user_bits v" "user_bits w" using en ecalls_may_block by (simp_all add: eenabled_def)
    show ?thesis unfolding eact_def ESync eaction.case
    proof (rule one [OF ensures_mono [OF xEventGroupSync_ok [OF st mb]]])
      fix x assume x: "case x of (r, s') \<Rightarrow> \<exists>s1. stable (ekern s1) \<and> waiters_wf (ekern s1) \<and>
        may_block c (ekern s1) \<and> bits_set g v s s1 \<and>
        (if (bits g s OR v) AND w = w then r = Some (bits g s OR v) \<and> s' = upd_ekern (kick c) (upd_bits g (\<lambda>b. b AND NOT w) s1)
         else if n = 0 then r = Some (bits g s1) \<and> s' = upd_ekern (kick c) s1
         else r = None \<and> stable (ekern s') \<and> enlisted c g n (request w True True) s1 s')"
      obtain r s' where x': "x = (r, s')" by fastforce
      then obtain s1 where s1: "stable (ekern s1)" "bits_set g v s s1"
        and r: "if (bits g s OR v) AND w = w then r = Some (bits g s OR v) \<and> s' = upd_ekern (kick c) (upd_bits g (\<lambda>b. b AND NOT w) s1)
         else if n = 0 then r = Some (bits g s1) \<and> s' = upd_ekern (kick c) s1
         else r = None \<and> stable (ekern s') \<and> enlisted c g n (request w True True) s1 s'"
        using x by auto
      have ok1: "esys_ok s1" by (rule bits_set_ok [OF ok s1(2,1) v(1)])
      have k: "esys_ok (upd_ekern (kick c) (if b then upd_bits g (\<lambda>b. b AND NOT w) s1 else s1))" for b
      proof (rule esys_ok_kick [OF ok1])
        show "fewer (bits h (upd_ekern (kick c) (if b then upd_bits g (\<lambda>b. b AND NOT w) s1 else s1))) (bits h s1)" for h
          by (cases "h = g") auto
      qed simp
      show "case x of (r, s') \<Rightarrow> esys_ok s'"
      proof (cases "(bits g s OR v) AND w = w")
        case True
        then show ?thesis using r x' k [of True] by simp
      next
        case False
        then have "\<not> prvTestWaitCondition (bits g s OR v) w True" by (simp add: prvTestWaitCondition_def)
        then have "\<not> prvTestWaitCondition (bits g s1) w True" using test_fewer [OF bits_set_fewer [OF s1(2)]] by blast
        then show ?thesis using False r x' k [of False] enlisted_ok [OF ok1 _ _ v(2)] by (cases "n = 0") auto
      qed
    qed
  next
    case (ESyncEnd c g w)
    then have mb: "may_block c (ekern s)" using en ecalls_may_block by (simp add: eenabled_def)
    then have c: "c < configNUMBER_OF_CORES" "on_ready c (ekern s)" by (simp_all add: may_block_def)
    show ?thesis unfolding eact_def ESyncEnd eaction.case returns_eq(2) [OF st(1) c(1) refl] by (intro one return_ok [OF ok c])
  qed
qed

lemma eruns_ok: "eruns slp s s' \<Longrightarrow> esys_ok s \<Longrightarrow> esys_ok s'"
proof (induction rule: eruns.induct)
  case (proceeds s s1 a s2)
  then show ?case using eact_ok [of s1 a slp] by (auto simp: ensures_def)
qed

section \<open>A task that was woken\<close>

text \<open>The core whose task makes the call.\<close>

definition eactor :: "eaction \<Rightarrow> nat option" where
  "eactor a = (case a of EKernel k \<Rightarrow> None | ESet c g v \<Rightarrow> Some c | EClear c g v \<Rightarrow> Some c | EWait c g w clr wall n \<Rightarrow> Some c
     | EWaitEnd c g w clr wall \<Rightarrow> Some c | ESync c g v w n \<Rightarrow> Some c | ESyncEnd c g w \<Rightarrow> Some c)"

text \<open>Runs in which task \<open>t\<close> makes no call on event groups.\<close>

inductive eruns_without :: "nat \<Rightarrow> (u32 \<Rightarrow> kernel \<Rightarrow> fault + kernel) \<Rightarrow> esys \<Rightarrow> esys \<Rightarrow> bool" for t slp where
  silent: "eruns_without t slp s s"
| other: "eruns_without t slp s s1 \<Longrightarrow> eenabled a s1 \<Longrightarrow> (\<And>c. eactor a = Some c \<Longrightarrow> cur (ekern s1) c \<noteq> t) \<Longrightarrow>
    eact slp a s1 = Inr s2 \<Longrightarrow> eruns_without t slp s s2"

lemma eruns_without_runs: "eruns_without t slp s s' \<Longrightarrow> eruns slp s s'"
  by (induction rule: eruns_without.induct) (auto intro: eruns.intros)

text \<open>Task \<open>t\<close> is in no event list and has \<open>v\<close> in its event item.\<close>

definition carries :: "nat \<Rightarrow> u32 \<Rightarrow> kernel \<Rightarrow> bool" where
  "carries t v k \<longleftrightarrow> event_item k t = v \<and> eventContainer (tcb k t) = None"

lemma carries_tcb: "tcb k' = tcb k \<Longrightarrow> carries t v k' = carries t v k"
  by (simp add: carries_def event_item_def)

lemma carries_kept: "kept k k' \<Longrightarrow> carries t v k \<Longrightarrow> carries t v k'"
  unfolding carries_def kept_iff by metis

lemma carries_bits_set:
  assumes "stable (ekern s)" "bits_set g b s s'" "carries t v (ekern s)"
  shows "carries t v (ekern s')"
proof -
  have "kinv (ekern s)" using assms(1) by (simp add: stable_def)
  then have "t \<notin> released g (bits g s OR b) (ekern s)"
    using assms(3) waiter_list [of "ekern s" t g] by (simp add: carries_def released_def group_waiters_def)
  then show ?thesis using assms(2,3) by (simp add: bits_set_def freed_def carries_def Let_def)
qed

lemma carries_enlisted: "enlisted c g n u s s' \<Longrightarrow> cur (ekern s) c \<noteq> t \<Longrightarrow> carries t v (ekern s) \<Longrightarrow> carries t v (ekern s')"
  by (simp add: enlisted_def waits_in_def carries_def Let_def)

lemma carries_reset: "u \<noteq> t \<Longrightarrow> carries t v (ekern (reset_item u s)) = carries t v (ekern s)"
  by (simp add: carries_def event_item_def reset_item_def upd_tcb_def)

lemma bits_set_cur: "bits_set g b s s' \<Longrightarrow> cur (ekern s') = cur (ekern s)"
  by (auto simp: bits_set_def freed_def quiet_def cur_def fun_eq_iff Let_def)

lemma eact_carries:
  assumes ok: "esys_ok s" and en: "eenabled a s" and s': "eact slp a s = Inr s'"
    and other: "\<And>c. eactor a = Some c \<Longrightarrow> cur (ekern s) c \<noteq> t" and v: "carries t v (ekern s)"
  shows "carries t v (ekern s')"
proof -
  have st: "stable (ekern s)" "waiters_wf (ekern s)" using ok by (simp_all add: esys_ok_def)
  have kick: "carries t v (ekern (upd_ekern (kick c) s1)) = carries t v (ekern s1)" for c s1
    using carries_tcb [of "kick c (ekern s1)" "ekern s1"] by simp
  have ret: "carries t v (ekern s2)" if "xEventGroupWaitBits_return c g w clr wall s = Inr (r, s2)"
      "c < configNUMBER_OF_CORES" "cur (ekern s) c \<noteq> t" for c g w clr wall r s2
    using that v by (auto simp: returns_eq(1) [OF st(1) that(2) refl] kick carries_reset Let_def simp del: upd_same(3) split: if_splits)
  show ?thesis
  proof (cases a)
    case (EKernel k)
    then obtain k' where k': "act slp k (ekern s) = Inr k'" "s' = s\<lparr>ekern := k'\<rparr>" using s' by (auto simp: eact_def)
    have "kept (ekern s) k'" by (rule kept_act [OF k'(1) _ st]) (use en EKernel in \<open>simp add: eenabled_def\<close>)
    then show ?thesis using carries_kept [OF _ v] k'(2) by simp
  next
    case (ESet c g b)
    then have "c < configNUMBER_OF_CORES" using en by (simp add: eenabled_def ecalls_now_def)
    then show ?thesis using s' set_ok [OF ok, of c g b] carries_bits_set [OF st(1) _ v]
      by (auto simp: ensures_def eact_def ESet)
  next
    case (EClear c g b)
    then have "c < configNUMBER_OF_CORES" using en by (simp add: eenabled_def ecalls_now_def)
    then show ?thesis using s' v xEventGroupClearBits_eq [OF st(1), of c g b] kick
      by (auto simp: eact_def EClear simp del: upd_same(3))
  next
    case (EWait c g w clr wall n)
    then have mb: "may_block c (ekern s)" and t: "cur (ekern s) c \<noteq> t"
      using en ecalls_may_block other by (simp_all add: eenabled_def eactor_def)
    then have c: "c < configNUMBER_OF_CORES" by (simp add: may_block_def)
    show ?thesis
    proof (cases "prvTestWaitCondition (bits g s) w wall \<or> n = 0")
      case True
      then show ?thesis using s' v kick xEventGroupWaitBits_now [OF st(1) c True, of clr]
        by (auto simp: eact_def EWait simp del: upd_same(3))
    next
      case False
      then have f: "n \<noteq> 0" "\<not> prvTestWaitCondition (bits g s) w wall" by simp_all
      show ?thesis using s' xEventGroupWaitBits_blocks [OF st mb f, of clr] carries_enlisted [OF _ t v]
        by (auto simp: ensures_def eact_def EWait)
    qed
  next
    case (EWaitEnd c g w clr wall)
    then have "c < configNUMBER_OF_CORES" "cur (ekern s) c \<noteq> t" using en other by (simp_all add: eenabled_def ecalls_now_def eactor_def)
    then show ?thesis using s' ret by (auto simp: eact_def EWaitEnd)
  next
    case (ESync c g b w n)
    then have mb: "may_block c (ekern s)" and t: "cur (ekern s) c \<noteq> t"
      using en ecalls_may_block other by (simp_all add: eenabled_def eactor_def)
    obtain r s1 where s1: "bits_set g b s s1" and r: "if (bits g s OR b) AND w = w then s' = upd_ekern (kick c) (upd_bits g (\<lambda>b. b AND NOT w) s1)
         else if n = 0 then s' = upd_ekern (kick c) s1 else enlisted c g n (request w True True) s1 s'"
      using s' xEventGroupSync_ok [OF st mb, of g b w n] by (auto simp: ensures_def eact_def ESync split: if_splits)
    have "carries t v (ekern s1)" by (rule carries_bits_set [OF st(1) s1 v])
    moreover have "cur (ekern s1) c \<noteq> t" using t bits_set_cur [OF s1] by simp
    ultimately show ?thesis using r kick carries_enlisted by (auto simp del: upd_same(3) split: if_splits)
  next
    case (ESyncEnd c g w)
    then have c: "c < configNUMBER_OF_CORES" "cur (ekern s) c \<noteq> t" using en other by (simp_all add: eenabled_def ecalls_now_def eactor_def)
    then show ?thesis using s' ret returns_eq(2) [OF st(1) c(1) refl] by (auto simp: eact_def ESyncEnd)
  qed
qed

lemma eruns_without_carries:
  "eruns_without t slp s s' \<Longrightarrow> esys_ok s \<Longrightarrow> carries t v (ekern s) \<Longrightarrow> carries t v (ekern s')"
proof (induction rule: eruns_without.induct)
  case (other s s1 a s2)
  have "esys_ok s1" by (rule eruns_ok [OF eruns_without_runs [OF other.hyps(1)] other.prems(1)])
  then show ?case using eact_carries [OF _ other.hyps(2,4,3)] other by blast
qed simp

end
