(* ===== verification/EventGroupExample.thy ===== *)
theory EventGroupExample
  imports EventGroupSteps KernelExample
begin

text \<open>
  Event groups in mid-operation: the kernel of the example, where task 3 waits for one of the bits 0 and 1 of
  group 0, to be cleared, with a time limit, task 7 waits for both bits 1 and 2 of it, and task 4 waits at a
  rendezvous of group 1.
\<close>

definition demo_ekern :: kernel where
  "demo_ekern = demo\<lparr>
     tcb := (tcb demo)(3 := (demo_task 3 3 (-1) DelayedL1 105)\<lparr>eventContainer := Some (EventL 0), xEventListItem := 0x81000003\<rparr>,
       4 := (demo_task 4 1 (-1) SuspendedL 0)\<lparr>eventContainer := Some (EventL 1), xEventListItem := 0x85000003\<rparr>,
       7 := (demo_task 1 3 (-1) SuspendedL 0)\<lparr>eventContainer := Some (EventL 0), xEventListItem := 0x84000006\<rparr>),
     lists := (lists demo)(SuspendedL := [4, 7], EventL 0 := [3, 7], EventL 1 := [4])\<rparr>"

definition demo_esys :: esys where
  "demo_esys = \<lparr>ekern = demo_ekern,
     group_of = (\<lambda>g. \<lparr>uxEventBits = (if g = 0 then 0x10 else if g = 1 then 1 else 0), eg_ucStaticallyAllocated = False\<rparr>)\<rparr>"

lemmas demo_ekern_defs = demo_ekern_def demo_defs

lemma demo_ekern_lists_wf: "lists_wf demo_ekern"
  unfolding lists_wf_def
proof (intro conjI allI impI)
  fix L t
  show "distinct (lists demo_ekern L)" by (simp add: demo_ekern_defs)
  show "(t \<in> set (lists demo_ekern L)) =
      (if state_list L then stateContainer (tcb demo_ekern t) = Some L else eventContainer (tcb demo_ekern t) = Some L)"
    by (cases L) (auto simp: demo_ekern_defs)
  show "state_list L" if "stateContainer (tcb demo_ekern t) = Some L" using that by (auto simp: demo_ekern_defs split: if_splits)
  show "\<not> state_list L" if "eventContainer (tcb demo_ekern t) = Some L" using that by (auto simp: demo_ekern_defs split: if_splits)
qed

lemma demo_ekern_stable: "stable demo_ekern"
proof -
  have "prios_wf demo_ekern" by (auto simp: prios_wf_def demo_ekern_defs configMAX_PRIORITIES_def split: if_splits)
  moreover have "delays_wf demo_ekern" by (simp add: delays_wf_def demo_ekern_defs)
  moreover have "cores_wf demo_ekern"
    by (auto simp: cores_wf_def settled_def cur_def may_run_on_def demo_ekern_defs taskTASK_NOT_RUNNING_def
        all_cores ex_core)
  moreover have "idle_wf demo_ekern" by (simp add: idle_wf_def may_run_on_def demo_ekern_defs all_cores)
  moreover have "pended demo_ekern" by (simp add: pended_def runs_def cur_def demo_ekern_defs all_cores)
  moreover have "ontime demo_ekern" by (auto simp: ontime_def demo_ekern_defs)
  moreover have "addressed demo_ekern" by (auto simp: addressed_def demo_ekern_defs split: if_splits)
  ultimately show ?thesis using demo_ekern_lists_wf
    by (simp add: stable_def kinv_def) (simp add: demo_ekern_defs)
qed

lemma demo_esys_kern [simp]: "ekern demo_esys = demo_ekern"
  by (simp add: demo_esys_def)

lemma demo_esys_bits [simp]: "bits g demo_esys = (if g = 0 then 0x10 else if g = 1 then 1 else 0)"
  by (simp add: demo_esys_def bits_def)

lemma demo_esys_ok: "esys_ok demo_esys"
proof -
  have "waiters_wf demo_ekern" by (simp add: waiters_wf_def demo_ekern_defs)
  moreover have "user_bits (bits g demo_esys)" for g
    by (simp add: user_bits_def eventEVENT_BITS_CONTROL_BYTES_def)
  moreover have "no_missed demo_esys"
    by (auto simp: no_missed_def satisfied_def prvTestWaitCondition_def bits_wanted_def wants_all_def event_item_def demo_ekern_defs
        eventEVENT_BITS_CONTROL_BYTES_def eventWAIT_FOR_ALL_BITS_def split: if_splits)
  ultimately show ?thesis by (simp add: esys_ok_def demo_ekern_stable)
qed

lemma demo_ecalls: "ecalls_now 0 demo_esys" "ecalls_now 1 demo_esys"
  by (simp_all add: ecalls_now_def runs_def idle_task_def cur_def demo_ekern_defs configNUMBER_OF_CORES_def
      ex_core [unfolded configNUMBER_OF_CORES_def])

section \<open>A wake-up, evaluated\<close>

text \<open>Task 1, on core 0, sets bit 1 of group 0: task 3 is woken and core 1, on which task 2 runs, is asked to
  yield; its interrupt switches to task 3.\<close>

definition demo_woken :: kernel where
  "demo_woken = demo_ekern\<lparr>
     tcb := (tcb demo_ekern)(3 := (demo_task 3 3 (-1) (ReadyL 3) 105)\<lparr>xEventListItem := 0x82000012\<rparr>,
       2 := (demo_task 2 2 (-2) (ReadyL 2) 0)),
     lists := (lists demo_ekern)(DelayedL1 := [], ReadyL 3 := [1, 3], EventL 0 := [7]),
     pendsv := (\<lambda>_. False)(1 := True)\<rparr>"

lemmas eval_words = eventEVENT_BITS_CONTROL_BYTES_def eventWAIT_FOR_ALL_BITS_def eventCLEAR_EVENTS_ON_EXIT_BIT_def
  eventUNBLOCKED_DUE_TO_BIT_SET_def taskEVENT_LIST_ITEM_VALUE_IN_USE_def configMAX_PRIORITIES_def configNUMBER_OF_CORES_def
  taskTASK_NOT_RUNNING_def taskTASK_SCHEDULED_TO_YIELD_def

lemma two_cores: "[0..<2] = [0, 1::nat]"
  by (simp add: upt_rec)

lemma demo_set_bits: "ensures (xEventGroupSetBits 0 0 2 demo_esys) (\<lambda>x. x = (0x10, demo_esys\<lparr>ekern := demo_woken\<rparr>))"
  apply (simp add: demo_woken_def demo_esys_def demo_ekern_defs xEventGroupSetBits_def upd_bits_def upd_ekern_def vTaskSuspendAll_def
      bits_def xTasksWaitingForBits_def on_ekern_def Let_def eval_words)
  apply (simp add: vTaskRemoveFromUnorderedEventList_def event_remove_def state_remove_def prvResetNextTaskUnblockTime_def
      prvAddTaskToReadyList_def state_insert_end_def prim_defs follow_def Let_def eval_words)
  apply (simp add: critical_def vTaskEnterCritical_def vTaskExitCritical_def set_nesting_def prvYieldForTask_def current_def
      prvYieldCore_def taskTASK_IS_RUNNING_def effective_priority_def may_run_on_def portYIELD_def follow_def prim_defs Let_def
      two_cores eval_words)
  apply (simp add: xTaskResumeAll_def critical_def resume_outermost_def dec32_def vTaskEnterCritical_def vTaskExitCritical_def
      set_nesting_def Let_def fun_eq_iff)
  done

lemma demo_switch: "ensures (eact slp (EKernel (Switch 1)) (demo_esys\<lparr>ekern := demo_woken\<rparr>))
    (\<lambda>s2. cur (ekern s2) 1 = 3 \<and> ecalls_now 1 s2)"
  apply (simp add: demo_woken_def demo_ekern_defs eact_def act_def vTaskSwitchContext_def prvSelectHighestPriorityTask_def
      rotate_current_def set_yield_pending_def current_def state_remove_def state_insert_end_def prim_defs follow_def Let_def)
  apply (subst select_loop.simps, simp add: current_def follow_def prim_defs may_run_on_def Let_def eval_words)
  apply (simp add: place_evicted_def current_def follow_def Let_def effective_priority_def eval_words two_cores cur_def runs_def
      ecalls_now_def idle_task_def ex_core [unfolded configNUMBER_OF_CORES_def])
  done

end
