(* ===== verification/SdkLocks.thy ===== *)
theory SdkLocks
  imports EventGroups
begin

text \<open>
  The locks of the SDK under FreeRTOS: the wait and notify functions with which the port replaces those of the SDK
  (\<open>port.c\<close>), on top of one event group, and the semaphore of the SDK (\<open>sem.c\<close>), which is built on them.
  A spin lock is held from \<open>spin_lock_blocking\<close> to \<open>spin_unlock\<close>, with the interrupts of the core disabled.  A
  function that unlocks its spin lock and then waits is two steps, since other tasks may run between the two.
\<close>

unbundle bit_operations_syntax

section \<open>Data\<close>

type_synonym i16 = "16 word"

text \<open>The spin lock of a \<open>lock_core\<close> is its number.\<close>

record semaphore =
  spin_lock :: nat
  permits :: i16
  max_permits :: i16

text \<open>\<open>event_register\<close> is the flag of a core that \<open>__sev\<close> sets and \<open>__wfe\<close> clears.\<close>

record sdk =
  sesys :: esys
  xEventGroup :: nat
  ucPrimaryCoreNum :: u8
  spin_held :: "nat \<Rightarrow> bool"
  event_register :: "nat \<Rightarrow> bool"
  sem_of :: "nat \<Rightarrow> semaphore"

definition on_sesys :: "(esys \<Rightarrow> fault + 'a \<times> esys) \<Rightarrow> sdk \<Rightarrow> fault + 'a \<times> sdk" where
  "on_sesys f s = bindE (f (sesys s)) (\<lambda>(r, e). Inr (r, s\<lparr>sesys := e\<rparr>))"

definition upd_sem :: "nat \<Rightarrow> (semaphore \<Rightarrow> semaphore) \<Rightarrow> sdk \<Rightarrow> sdk" where
  "upd_sem k f s = s\<lparr>sem_of := (sem_of s)(k := f (sem_of s k))\<rparr>"

definition INVALID_PRIMARY_CORE_NUM :: u8 where "INVALID_PRIMARY_CORE_NUM = 0xff"

definition portIS_FREE_RTOS_CORE :: "sdk \<Rightarrow> bool" where
  "portIS_FREE_RTOS_CORE s \<longleftrightarrow> ucPrimaryCoreNum s \<noteq> INVALID_PRIMARY_CORE_NUM"

section \<open>Spin locks and events of the hardware\<close>

text \<open>A lock that is held is waited for: on its own the function does not return.\<close>

definition spin_lock_blocking :: "nat \<Rightarrow> sdk \<Rightarrow> fault + sdk" where
  "spin_lock_blocking lock s = (if spin_held s lock then Inl Diverges else Inr (s\<lparr>spin_held := (spin_held s)(lock := True)\<rparr>))"

definition spin_unlock :: "nat \<Rightarrow> sdk \<Rightarrow> sdk" where
  "spin_unlock lock s = s\<lparr>spin_held := (spin_held s)(lock := False)\<rparr>"

definition sev :: "sdk \<Rightarrow> sdk" where
  "sev s = s\<lparr>event_register := (\<lambda>_. True)\<rparr>"

text \<open>\<open>None\<close> as the result: the core sleeps until the next event.\<close>

definition wfe :: "nat \<Rightarrow> sdk \<Rightarrow> u32 option \<times> sdk" where
  "wfe c s = (if event_register s c then Some 0 else None, s\<lparr>event_register := (event_register s)(c := False)\<rparr>)"

section \<open>Waiting and notifying\<close>

text \<open>The bit of a spin lock of the SDK, which has 32 of them.\<close>

definition prvGetEventGroupBit :: "nat \<Rightarrow> u32" where
  "prvGetEventGroupBit lock_num = push_bit (if lock_num \<ge> 24 then lock_num - 24 else lock_num) 1"

definition prvGetAllEventGroupBits :: u32 where "prvGetAllEventGroupBits = 0xffffff"

text \<open>Up to the unlocking; what follows is \<open>lock_wait\<close>.\<close>

definition vPortLockInternalSpinUnlockWithWait :: "nat \<Rightarrow> sdk \<Rightarrow> sdk" where
  "vPortLockInternalSpinUnlockWithWait lock s = spin_unlock lock s"

text \<open>The wait of core \<open>c\<close>: for an event of the hardware on a core that does not run FreeRTOS, otherwise for the bit.
  The result is \<open>None\<close> if the caller waits, and otherwise what the wait returns, which the function ignores.\<close>

definition lock_wait :: "nat \<Rightarrow> nat \<Rightarrow> sdk \<Rightarrow> fault + u32 option \<times> sdk" where
  "lock_wait c lock s =
     (if \<not> portIS_FREE_RTOS_CORE s then Inr (wfe c s)
      else on_sesys (xEventGroupWaitBits c (xEventGroup s) (prvGetEventGroupBit lock) True False portMAX_DELAY) s)"

text \<open>In an interrupt the setting of the bits is left to the timer task: \<open>set_from_isr\<close> is
  \<open>xEventGroupSetBitsFromISR\<close>, whose command goes through the queue of \<open>Timers\<close>; it says whether a task of higher
  priority was woken.\<close>

definition vPortLockInternalSpinUnlockWithNotify ::
  "(nat \<Rightarrow> u32 \<Rightarrow> sdk \<Rightarrow> fault + bool \<times> sdk) \<Rightarrow> nat \<Rightarrow> bool \<Rightarrow> nat \<Rightarrow> sdk \<Rightarrow> fault + sdk" where
  "vPortLockInternalSpinUnlockWithNotify set_from_isr c in_isr lock s =
     (let uxBits = prvGetEventGroupBit lock; s1 = spin_unlock lock (sev s) in
      if \<not> portIS_FREE_RTOS_CORE s then Inr s1
      else if \<not> in_isr then bindE (on_sesys (xEventGroupSetBits c (xEventGroup s) uxBits) s1) (\<lambda>(_, s2). Inr s2)
      else bindE (set_from_isr (xEventGroup s) uxBits s1) (\<lambda>(woken, s2).
        Inr (if woken then s2\<lparr>sesys := upd_ekern (portYIELD c) (sesys s2)\<rparr> else s2)))"

definition configTICK_RATE_HZ :: int where "configTICK_RATE_HZ = 100"

text \<open>\<open>delay_us\<close> is the difference of the two times in microseconds.  The quotient is stored in 32 bits.\<close>

definition prvGetTicksToWaitBefore :: "int \<Rightarrow> u32" where
  "prvGetTicksToWaitBefore delay_us =
     (let ulTickPeriod = 1000000 div configTICK_RATE_HZ; xDelay = delay_us - ulTickPeriod
      in if xDelay \<ge> ulTickPeriod then of_int (xDelay div ulTickPeriod) else 0)"

text \<open>Up to the unlocking, then the wait, which there is only if a whole tick is left; \<open>wfe_or_timeout\<close> is
  \<open>best_effort_wfe_or_timeout\<close>, which sets an alarm of the hardware and says whether the time was reached.\<close>

definition xPortLockInternalSpinUnlockWithBestEffortWaitOrTimeout :: "nat \<Rightarrow> sdk \<Rightarrow> sdk" where
  "xPortLockInternalSpinUnlockWithBestEffortWaitOrTimeout lock s = spin_unlock lock s"

definition best_effort_wait :: "(int \<Rightarrow> sdk \<Rightarrow> bool \<times> sdk) \<Rightarrow> nat \<Rightarrow> nat \<Rightarrow> int \<Rightarrow> sdk \<Rightarrow> fault + u32 option \<times> sdk" where
  "best_effort_wait wfe_or_timeout c lock delay_us s =
     (let uxTicksToWait = prvGetTicksToWaitBefore delay_us in
      if \<not> portIS_FREE_RTOS_CORE s then (let (b, s1) = wfe_or_timeout delay_us s in Inr (Some (of_bool b), s1))
      else if uxTicksToWait \<noteq> 0
      then on_sesys (xEventGroupWaitBits c (xEventGroup s) (prvGetEventGroupBit lock) True False uxTicksToWait) s
      else Inr (Some 0, s))"

text \<open>What a core that runs FreeRTOS does after the wait: it yields if the time has not come, and the result says
  whether it has.\<close>

definition best_effort_end :: "nat \<Rightarrow> bool \<Rightarrow> sdk \<Rightarrow> bool \<times> sdk" where
  "best_effort_end c time_reached s =
     (time_reached, if time_reached then s else s\<lparr>sesys := upd_ekern (portYIELD c) (sesys s)\<rparr>)"

definition xPortSyncInternalYieldUntilBefore :: "nat \<Rightarrow> int \<Rightarrow> sdk \<Rightarrow> fault + sdk" where
  "xPortSyncInternalYieldUntilBefore c delay_us s =
     (let uxTicksToWait = prvGetTicksToWaitBefore delay_us in
      if uxTicksToWait \<noteq> 0 then bindE (vTaskDelay c uxTicksToWait (ekern (sesys s))) (\<lambda>k.
        Inr (s\<lparr>sesys := (sesys s)\<lparr>ekern := k\<rparr>\<rparr>))
      else Inr s)"

section \<open>The semaphore\<close>

definition sem_init :: "nat \<Rightarrow> nat \<Rightarrow> i16 \<Rightarrow> i16 \<Rightarrow> sdk \<Rightarrow> sdk" where
  "sem_init k lock_num initial_permits most s =
     upd_sem k (\<lambda>x. x\<lparr>spin_lock := lock_num, permits := initial_permits, max_permits := most\<rparr>) s"

definition sem_available :: "nat \<Rightarrow> sdk \<Rightarrow> int" where
  "sem_available k s = sint (permits (sem_of s k))"

text \<open>One round of the loop of \<open>sem_acquire_blocking\<close>: whether a permit was taken.  If not, the spin lock has been
  unlocked and the caller goes on to \<open>lock_wait\<close>, and after that to the next round.\<close>

definition sem_acquire_blocking :: "nat \<Rightarrow> sdk \<Rightarrow> fault + bool \<times> sdk" where
  "sem_acquire_blocking k s =
     (let lock = spin_lock (sem_of s k) in
      bindE (spin_lock_blocking lock s) (\<lambda>s1.
        if sint (permits (sem_of s1 k)) > 0
        then Inr (True, spin_unlock lock (upd_sem k (\<lambda>x. x\<lparr>permits := permits x - 1\<rparr>) s1))
        else Inr (False, vPortLockInternalSpinUnlockWithWait lock s1)))"

definition sem_acquire_block_until :: "nat \<Rightarrow> sdk \<Rightarrow> fault + bool \<times> sdk" where
  "sem_acquire_block_until k s =
     (let lock = spin_lock (sem_of s k) in
      bindE (spin_lock_blocking lock s) (\<lambda>s1.
        if sint (permits (sem_of s1 k)) > 0
        then Inr (True, spin_unlock lock (upd_sem k (\<lambda>x. x\<lparr>permits := permits x - 1\<rparr>) s1))
        else Inr (False, xPortLockInternalSpinUnlockWithBestEffortWaitOrTimeout lock s1)))"

definition sem_try_acquire :: "nat \<Rightarrow> sdk \<Rightarrow> fault + bool \<times> sdk" where
  "sem_try_acquire k s =
     (let lock = spin_lock (sem_of s k) in
      bindE (spin_lock_blocking lock s) (\<lambda>s1.
        if sint (permits (sem_of s1 k)) > 0
        then Inr (True, spin_unlock lock (upd_sem k (\<lambda>x. x\<lparr>permits := permits x - 1\<rparr>) s1))
        else Inr (False, spin_unlock lock s1)))"

definition sem_release ::
  "(nat \<Rightarrow> u32 \<Rightarrow> sdk \<Rightarrow> fault + bool \<times> sdk) \<Rightarrow> nat \<Rightarrow> bool \<Rightarrow> nat \<Rightarrow> sdk \<Rightarrow> fault + bool \<times> sdk" where
  "sem_release set_from_isr c in_isr k s =
     (let lock = spin_lock (sem_of s k) in
      bindE (spin_lock_blocking lock s) (\<lambda>s1.
        let count = sint (permits (sem_of s1 k)) in
        if count < sint (max_permits (sem_of s1 k))
        then bindE (vPortLockInternalSpinUnlockWithNotify set_from_isr c in_isr lock
               (upd_sem k (\<lambda>x. x\<lparr>permits := of_int (count + 1)\<rparr>) s1)) (\<lambda>s2. Inr (True, s2))
        else Inr (False, spin_unlock lock s1)))"

text \<open>The number of permits is in the range that the function asserts.\<close>

definition sem_reset ::
  "(nat \<Rightarrow> u32 \<Rightarrow> sdk \<Rightarrow> fault + bool \<times> sdk) \<Rightarrow> nat \<Rightarrow> bool \<Rightarrow> nat \<Rightarrow> i16 \<Rightarrow> sdk \<Rightarrow> fault + sdk" where
  "sem_reset set_from_isr c in_isr k n s =
     (let lock = spin_lock (sem_of s k) in
      bindE (spin_lock_blocking lock s) (\<lambda>s1.
        let s2 = upd_sem k (\<lambda>x. x\<lparr>permits := n\<rparr>) s1 in
        if sint n > sint (permits (sem_of s1 k))
        then vPortLockInternalSpinUnlockWithNotify set_from_isr c in_isr lock s2
        else Inr (spin_unlock lock s2)))"

end
