(* ===== verification/StuckProps.thy ===== *)
theory StuckProps
  imports WaitSteps
begin

text \<open>
  A task that waits for an event without a time limit: no step of the kernel takes it out of the suspended list
  or off its event list, other than a call of \<open>vTaskSuspend\<close> or \<open>vTaskDelete\<close> for this task.
\<close>

definition stuck :: "nat \<Rightarrow> nat \<Rightarrow> kernel \<Rightarrow> bool" where
  "stuck u g s \<longleftrightarrow> stateContainer (tcb s u) = Some SuspendedL \<and> eventContainer (tcb s u) = Some (EventL g)"

lemma stuck_not_current:
  assumes "stuck u g s" "stable s" "c < configNUMBER_OF_CORES" "\<not> pendsv s c"
  shows "u \<noteq> cur s c"
proof -
  have "runs s c" using assms(2-4) by (auto simp: stable_def pended_def)
  then show ?thesis using assms(1) by (auto simp: runs_def stuck_def)
qed

lemma stuck_not_suspended: "stuck u g s \<Longrightarrow> \<not> prvTaskIsTaskSuspended u s"
  by (simp add: stuck_def prvTaskIsTaskSuspended_def)

lemma perform_stuck:
  assumes st: "stable s" and en: "enabled (TaskCall c call) s" and u: "stuck u g s"
    and nd: "\<not> disturbs u (TaskCall c call) s"
  shows "ensures (perform c call s) (\<lambda>s'. stateContainer (tcb s' u) = Some SuspendedL)"
proof -
  have c: "c < configNUMBER_OF_CORES" "\<not> pendsv s c" "\<not> idle_task s (cur s c)" using en by (simp_all add: enabled_def)
  note lv = running_live(1) [OF st c] and ne = stuck_not_current [OF u st c(1,2)]
  have su: "stateContainer (tcb s u) = Some SuspendedL" using u by (simp add: stuck_def)
  show ?thesis
  proof (cases call)
    case (CallSuspend h)
    have "live s (target c h s)" "target c h s \<noteq> u" using en nd by (auto simp: enabled_def CallSuspend disturbs_def)
    then have "ensures (vTaskSuspend c h s) (\<lambda>(_, s'). stateContainer (tcb s' u) = Some SuspendedL)"
      using su by (intro ensures_mono [OF vTaskSuspend_ok [OF st c(1)]]) (auto simp: parked_def)
    from ensures_snd [OF this] show ?thesis by (simp add: perform_def CallSuspend)
  next
    case (CallDelete h)
    have "live s (target c h s)" "target c h s \<noteq> u" using en nd by (auto simp: enabled_def CallDelete disturbs_def)
    then have "ensures (vTaskDelete c h s) (\<lambda>(_, s'). stateContainer (tcb s' u) = Some SuspendedL)"
      using su by (intro ensures_mono [OF vTaskDelete_ok [OF st c(1)]]) (auto simp: deleted_def Let_def)
    from ensures_snd [OF this] show ?thesis by (simp add: perform_def CallDelete)
  next
    case (CallResume h)
    show ?thesis
    proof (cases h)
      case None
      then show ?thesis using su by (simp add: perform_def CallResume vTaskResume_def)
    next
      case (Some t)
      have "ensures (vTaskResume c (Some t) s) (\<lambda>(_, s'). stateContainer (tcb s' u) = Some SuspendedL)"
        using su stuck_not_suspended [OF u]
        by (intro ensures_mono [OF vTaskResume_ok [OF st c(1)]]) (auto simp: readied_def split: if_splits)
      from ensures_snd [OF this] show ?thesis by (simp add: perform_def CallResume Some)
    qed
  next
    case (CallDelay n)
    have nest: "uxCriticalNestings s c = 0" using st c(1) by (simp add: stable_def)
    show ?thesis
    proof (cases "n = 0")
      case True
      then show ?thesis using vTaskDelay_0 [OF nest] su by (simp add: perform_def CallDelay portYIELD_def)
    next
      case False
      from ensures_mono [OF vTaskDelay_ok [OF st c(1) lv False]] show ?thesis
        using su ne by (simp add: perform_def CallDelay delayed_by_def)
    qed
  next
    case (CallDelayUntil prev inc)
    have "ensures (xTaskDelayUntil c prev inc s) (\<lambda>(_, s'). stateContainer (tcb s' u) = Some SuspendedL)"
      by (rule ensures_mono [OF xTaskDelayUntil_ok [OF st c(1) lv]])
        (use su ne in \<open>auto simp: delayed_by_def resumed_from_def split: if_splits\<close>)
    from ensures_snd [OF this] show ?thesis by (simp add: perform_def CallDelayUntil)
  next
    case (CallSleep n)
    then show ?thesis using su by (simp add: perform_def)
  qed
qed

lemma idle_stuck:
  assumes st: "stable s" and c: "c < configNUMBER_OF_CORES" and u: "stuck u g s"
  shows "ensures (prvIdleTask slp c piece s) (\<lambda>s'. stateContainer (tcb s' u) = Some SuspendedL)"
    "ensures (prvPassiveIdleTask c piece s) (\<lambda>s'. stateContainer (tcb s' u) = Some SuspendedL)"
proof -
  have su: "stateContainer (tcb s u) = Some SuspendedL" using u by (simp add: stuck_def)
  show "ensures (prvPassiveIdleTask c piece s) (\<lambda>s'. stateContainer (tcb s' u) = Some SuspendedL)"
    using su by (cases piece) (simp_all add: prvPassiveIdleTask_def portYIELD_def)
  have reap: "ensures (bindE (termination_round c s) (\<lambda>(_, s'). Inr s')) (\<lambda>s'. stateContainer (tcb s' u) = Some SuspendedL)"
    if pos: "uxDeletedTasksWaitingCleanUp s > 0"
  proof -
    have "stateContainer (tcb s' u) = Some SuspendedL" if go: "reaped s [t] s'" for t s'
    proof -
      have "stateContainer (tcb s t) = Some TerminationL"
        using go stable_terminating(1) [OF st] by (simp add: reaped_def)
      then show ?thesis using go su by (auto simp: reaped_def)
    qed
    then have "ensures (termination_round c s) (\<lambda>(_, s'). stateContainer (tcb s' u) = Some SuspendedL)"
      using su by (intro ensures_mono [OF termination_round_ok [OF st c pos]]) auto
    then show ?thesis by (rule ensures_snd)
  qed
  show "ensures (prvIdleTask slp c piece s) (\<lambda>s'. stateContainer (tcb s' u) = Some SuspendedL)"
    using su reap prvGetExpectedIdleTime_ok [OF st c]
    by (cases piece) (simp_all add: prvIdleTask_def portYIELD_def idle_sleep_def configEXPECTED_IDLE_TIME_BEFORE_SLEEP_def)
qed

lemma act_suspended:
  assumes st: "stable s" and en: "enabled a s" and u: "stuck u g s" and nd: "\<not> disturbs u a s"
  shows "ensures (act slp a s) (\<lambda>s'. stateContainer (tcb s' u) = Some SuspendedL)"
proof -
  have su: "stateContainer (tcb s u) = Some SuspendedL" using u by (simp add: stuck_def)
  show ?thesis
  proof (cases a)
    case Tick
    have z: "(0::nat) < configNUMBER_OF_CORES" by (simp add: configNUMBER_OF_CORES_def)
    have "\<not> sleeping s u" using su by (simp add: sleeping_def)
    then have "stateContainer (tcb s' u) = Some SuspendedL" if "aged n s s'" for n s'
      using that su by (simp add: aged_def)
    then have "ensures (xPortSysTickHandler 0 s) (\<lambda>s'. stateContainer (tcb s' u) = Some SuspendedL)"
      by (intro ensures_mono [OF xPortSysTickHandler_ok [OF st z]]) blast
    then show ?thesis by (simp add: act_def Tick)
  next
    case (Switch x)
    then have "x < configNUMBER_OF_CORES" using en by (simp add: enabled_def)
    from ensures_mono [OF vTaskSwitchContext_ok [OF st this]] show ?thesis
      using su by (simp add: act_def Switch switched_def set_yield_pending_def)
  next
    case (TaskCall c call)
    then show ?thesis using perform_stuck [OF st _ u, of c call] en nd by (simp add: act_def)
  next
    case (IdleRun c piece)
    then show ?thesis using idle_stuck [OF st _ u, of c] en by (simp add: act_def enabled_def)
  qed
qed

text \<open>Every step of the kernel keeps a waiting task where it is, unless it is directed at the task.\<close>

lemma act_stuck:
  assumes "act slp a s = Inr s'" "enabled a s" "stable s" "waiters_wf s" "stuck u g s" "\<not> disturbs u a s"
  shows "stuck u g s'" "event_item s' u = event_item s u"
proof -
  have su: "stateContainer (tcb s' u) = Some SuspendedL"
    using act_suspended [OF assms(3,2,5,6), of slp] assms(1) by (simp add: ensures_def)
  have "waits_or_left u s s'"
    by (rule left.waits_act [OF assms(1-3) _ assms(4)]) (use assms(6) in \<open>auto simp: waits_or_left_def disturbs_def\<close>)
  then have "conts s' u = conts s u" using su by (simp add: waits_or_left_def)
  then show "stuck u g s'" "event_item s' u = event_item s u" using assms(5) by (simp_all add: stuck_def conts_def)
qed

end
