(* ===== verification/SdkProps.thy ===== *)
theory SdkProps
  imports SdkLocks EventGroupSteps StuckProps
begin

text \<open>
  A task that waits for the bit of a lock without a time limit goes on waiting as long as nobody sets this bit and
  nobody suspends or deletes the task; and what the releases of a semaphore and the waits leave.
\<close>

unbundle bit_operations_syntax

section \<open>A task that waits for bits\<close>

text \<open>Task \<open>u\<close> waits for one of the bits \<open>m\<close> of group \<open>g\<close>, none of which is set.\<close>

definition awaits_bits :: "nat \<Rightarrow> nat \<Rightarrow> u32 \<Rightarrow> esys \<Rightarrow> bool" where
  "awaits_bits u g m s \<longleftrightarrow> stuck u g (ekern s) \<and> bits_wanted (ekern s) u = m \<and> \<not> wants_all (ekern s) u \<and> bits g s AND m = 0"

lemma awaits_bits_mono:
  assumes "awaits_bits u g m s" "conts (ekern s') u = conts (ekern s) u" "fewer (bits g s') (bits g s)"
  shows "awaits_bits u g m s'"
proof -
  have "bits g s' AND m = bits g s' AND (bits g s AND m)" using assms(3) by (simp add: fewer_iff flip: and.assoc)
  then show ?thesis using assms(1,2) by (simp add: awaits_bits_def stuck_def conts_def bits_wanted_def wants_all_def)
qed

lemma awaits_bits_bits_set:
  assumes "awaits_bits u g m s" "bits_set h v s s'" "stable (ekern s)" "h = g \<Longrightarrow> v AND m = 0"
  shows "awaits_bits u g m s'"
proof -
  let ?b = "bits h s OR v"
  have k: "kinv (ekern s)" using assms(3) by (simp add: stable_def)
  have z: "?b AND m = 0" if "h = g" using assms(1,4) that by (simp add: awaits_bits_def bit.conj_disj_distrib2)
  have "\<not> satisfied ?b (ekern s) u" if "h = g" using z [OF that] assms(1) by (simp add: awaits_bits_def satisfied_def prvTestWaitCondition_def)
  then have "u \<notin> released h ?b (ekern s)"
    using waiter_list [OF k, of u h] assms(1) by (auto simp: released_def group_waiters_def awaits_bits_def stuck_def)
  then have c: "conts (ekern s') u = conts (ekern s) u" using assms(2) by (simp add: bits_set_def freed_def conts_def Let_def)
  have "bits g s' AND m = 0"
  proof (cases "h = g")
    case True
    have "bits g s' AND m = bits g s' AND (?b AND m)" using bits_set_fewer [OF assms(2)] True by (simp add: fewer_iff flip: and.assoc)
    then show ?thesis using z [OF True] by simp
  next
    case False
    then show ?thesis using assms(1,2) by (simp add: bits_set_def awaits_bits_def Let_def)
  qed
  then show ?thesis using assms(1) c by (simp add: awaits_bits_def stuck_def conts_def bits_wanted_def wants_all_def)
qed

lemma awaits_bits_kick [simp]: "awaits_bits u g m (upd_ekern (kick c) s) = awaits_bits u g m s"
  by (simp add: awaits_bits_def stuck_def bits_wanted_def wants_all_def event_item_def)

lemma awaits_bits_clear: "awaits_bits u g m s \<Longrightarrow> awaits_bits u g m (upd_bits h (\<lambda>b. b AND NOT w) s)"
  by (rule awaits_bits_mono, assumption) (simp, cases "h = g", auto)

lemma awaits_bits_not_current: "awaits_bits u g m s \<Longrightarrow> may_block c (ekern s) \<Longrightarrow> cur (ekern s) c \<noteq> u"
  by (auto simp: awaits_bits_def stuck_def may_block_def on_ready_def)

lemma awaits_bits_reset: "awaits_bits u g m s \<Longrightarrow> t \<noteq> u \<Longrightarrow> awaits_bits u g m (reset_item t s)"
  by (rule awaits_bits_mono, assumption) (auto simp: conts_def event_item_def reset_item_def upd_tcb_def)

lemma awaits_bits_enlisted:
  assumes "awaits_bits u g m s" "enlisted c h n v s s'" "cur (ekern s) c \<noteq> u"
  shows "awaits_bits u g m s'"
  by (rule awaits_bits_mono [OF assms(1)])
    (use assms(2,3) bits_group [of s' s] in \<open>auto simp: enlisted_def waits_in_def conts_def Let_def\<close>)

lemma awaits_bits_return:
  assumes "awaits_bits u g m s" "stable (ekern s)" "may_block c (ekern s)"
  shows "ensures (xEventGroupWaitBits_return c h w clr wall s) (\<lambda>(r, s'). awaits_bits u g m s')"
proof -
  have c: "c < configNUMBER_OF_CORES" using assms(3) by (simp add: may_block_def)
  show ?thesis
    using awaits_bits_reset [OF assms(1) awaits_bits_not_current [OF assms(1,3)]] awaits_bits_clear
    by (auto simp: returns_eq(1) [OF assms(2) c refl] Let_def simp del: upd_same)
qed

section \<open>Runs in which nobody notifies\<close>

text \<open>The steps that set one of the bits \<open>m\<close> of group \<open>g\<close>, and the calls that take task \<open>u\<close> off its lists.\<close>

definition notifies :: "nat \<Rightarrow> u32 \<Rightarrow> eaction \<Rightarrow> bool" where
  "notifies g m a \<longleftrightarrow> (\<exists>c v w n. (a = ESet c g v \<or> a = ESync c g v w n) \<and> v AND m \<noteq> 0)"

definition removes :: "nat \<Rightarrow> eaction \<Rightarrow> esys \<Rightarrow> bool" where
  "removes u a s \<longleftrightarrow> (\<exists>k. a = EKernel k \<and> disturbs u k (ekern s))"

inductive eruns_unnotified :: "nat \<Rightarrow> nat \<Rightarrow> u32 \<Rightarrow> (u32 \<Rightarrow> kernel \<Rightarrow> fault + kernel) \<Rightarrow> esys \<Rightarrow> esys \<Rightarrow> bool"
  for u g m slp where
  at_rest: "eruns_unnotified u g m slp s s"
| goes_on: "eruns_unnotified u g m slp s s1 \<Longrightarrow> eenabled a s1 \<Longrightarrow> \<not> notifies g m a \<Longrightarrow> \<not> removes u a s1 \<Longrightarrow>
    eact slp a s1 = Inr s2 \<Longrightarrow> eruns_unnotified u g m slp s s2"

lemma eruns_unnotified_runs: "eruns_unnotified u g m slp s s' \<Longrightarrow> eruns slp s s'"
  by (induction rule: eruns_unnotified.induct) (auto intro: eruns.intros)

lemma eact_awaits_bits:
  assumes ok: "esys_ok s" and en: "eenabled a s" and s': "eact slp a s = Inr s'"
    and no: "\<not> notifies g m a" "\<not> removes u a s" and a: "awaits_bits u g m s"
  shows "awaits_bits u g m s'"
proof -
  have st: "stable (ekern s)" "waiters_wf (ekern s)" using ok by (simp_all add: esys_ok_def)
  show ?thesis
  proof (cases a)
    case (EKernel k)
    then obtain k' where k': "act slp k (ekern s) = Inr k'" "s' = s\<lparr>ekern := k'\<rparr>" using s' by (auto simp: eact_def)
    have e: "enabled k (ekern s)" "\<not> disturbs u k (ekern s)" using en no EKernel by (simp_all add: eenabled_def removes_def)
    have "stuck u g (ekern s)" using a by (simp add: awaits_bits_def)
    note act_stuck [OF k'(1) e(1) st this e(2)]
    then show ?thesis using a k'(2) by (simp add: awaits_bits_def bits_wanted_def wants_all_def)
  next
    case (ESet c h v)
    then have c: "c < configNUMBER_OF_CORES" and v: "h = g \<Longrightarrow> v AND m = 0"
      using en no by (auto simp: eenabled_def ecalls_now_def notifies_def)
    have "bits_set h v s s'" using s' set_ok [OF ok c, of h v] by (auto simp: ensures_def eact_def ESet)
    then show ?thesis by (rule awaits_bits_bits_set [OF a _ st(1) v])
  next
    case (EClear c h v)
    then have "c < configNUMBER_OF_CORES" using en by (simp add: eenabled_def ecalls_now_def)
    then show ?thesis using s' awaits_bits_clear [OF a] xEventGroupClearBits_eq [OF st(1)] by (auto simp: eact_def EClear simp del: upd_same)
  next
    case (EWait c h w clr wall n)
    then have mb: "may_block c (ekern s)" using en ecalls_may_block by (simp add: eenabled_def)
    then have c: "c < configNUMBER_OF_CORES" by (simp add: may_block_def)
    show ?thesis
    proof (cases "prvTestWaitCondition (bits h s) w wall \<or> n = 0")
      case True
      then show ?thesis using s' a awaits_bits_clear [OF a] xEventGroupWaitBits_now [OF st(1) c True, of clr]
        by (auto simp: eact_def EWait simp del: upd_same split: if_splits)
    next
      case False
      then have f: "n \<noteq> 0" "\<not> prvTestWaitCondition (bits h s) w wall" by simp_all
      show ?thesis using s' xEventGroupWaitBits_blocks [OF st mb f, of clr] awaits_bits_enlisted [OF a _ awaits_bits_not_current [OF a mb]]
        by (auto simp: ensures_def eact_def EWait)
    qed
  next
    case (EWaitEnd c h w clr wall)
    then have mb: "may_block c (ekern s)" using en ecalls_may_block by (simp add: eenabled_def)
    from awaits_bits_return [OF a st(1) this, of h w clr wall] show ?thesis using s' by (auto simp: eact_def EWaitEnd ensures_def)
  next
    case (ESync c h v w n)
    then have mb: "may_block c (ekern s)" and v: "h = g \<Longrightarrow> v AND m = 0"
      using en no ecalls_may_block by (auto simp: eenabled_def notifies_def)
    obtain r s1 where s1: "bits_set h v s s1" "may_block c (ekern s1)"
      and r: "if (bits h s OR v) AND w = w then s' = upd_ekern (kick c) (upd_bits h (\<lambda>b. b AND NOT w) s1)
         else if n = 0 then s' = upd_ekern (kick c) s1 else enlisted c h n (request w True True) s1 s'"
      using s' xEventGroupSync_ok [OF st mb, of h v w n] by (auto simp: ensures_def eact_def ESync split: if_splits)
    have a1: "awaits_bits u g m s1" by (rule awaits_bits_bits_set [OF a s1(1) st(1) v])
    show ?thesis using r a1 awaits_bits_clear [OF a1] awaits_bits_enlisted [OF a1 _ awaits_bits_not_current [OF a1 s1(2)]]
      by (auto simp del: upd_same split: if_splits)
  next
    case (ESyncEnd c h w)
    then have mb: "may_block c (ekern s)" using en ecalls_may_block by (simp add: eenabled_def)
    then have c: "c < configNUMBER_OF_CORES" by (simp add: may_block_def)
    from awaits_bits_return [OF a st(1) mb, of h w True True] show ?thesis
      using s' returns_eq(2) [OF st(1) c refl] by (auto simp: eact_def ESyncEnd ensures_def)
  qed
qed

lemma unnotified_awaits_bits:
  "eruns_unnotified u g m slp s s' \<Longrightarrow> esys_ok s \<Longrightarrow> awaits_bits u g m s \<Longrightarrow> awaits_bits u g m s'"
proof (induction rule: eruns_unnotified.induct)
  case (goes_on s s1 a s2)
  have "esys_ok s1" by (rule eruns_ok [OF eruns_unnotified_runs [OF goes_on.hyps(1)] goes_on.prems(1)])
  then show ?case using eact_awaits_bits [OF _ goes_on.hyps(2,5,3,4)] goes_on by blast
qed simp

section \<open>The semaphore\<close>

lemma may_block_kick [simp]: "may_block x (kick c k) = may_block x k"
  by (simp add: may_block_def on_ready_def idle_task_def)

lemma xEventGroupSetBits_none:
  assumes "stable (ekern s)" "c < configNUMBER_OF_CORES" "group_waiters g (ekern s) = []"
  shows "xEventGroupSetBits c g v s = Inr (bits g s OR v, upd_ekern (kick c) (upd_bits g (\<lambda>b. b OR v) s))"
proof -
  note sr = suspend_resume [OF assms(1,2)]
  obtain y where y: "xTaskResumeAll c (ekern s\<lparr>uxSchedulerSuspended := 1\<rparr>) = Inr (y, kick c (ekern s))" using sr(2) by blast
  have l: "lists (ekern s) (xTasksWaitingForBits g) = []" using assms(3) by (simp add: group_waiters_def xTasksWaitingForBits_def)
  show ?thesis
    by (simp add: xEventGroupSetBits_def on_ekern_def upd_bits_def upd_ekern_def bits_def sr(1) l y Let_def del: One_nat_def upd_same)
qed

lemma sem_acquire_blocking_eq:
  assumes "\<not> spin_held s (spin_lock (sem_of s k))"
  shows "sem_acquire_blocking k s =
    Inr (if sint (permits (sem_of s k)) > 0 then (True, upd_sem k (\<lambda>x. x\<lparr>permits := permits x - 1\<rparr>) s) else (False, s))"
proof -
  have "(spin_held s)(spin_lock (sem_of s k) := False) = spin_held s" using assms by (auto simp: fun_eq_iff)
  then show ?thesis using assms
    by (simp add: sem_acquire_blocking_def spin_lock_blocking_def spin_unlock_def vPortLockInternalSpinUnlockWithWait_def
        upd_sem_def Let_def)
qed

lemma sem_release_eq:
  assumes "esys_ok (sesys s)" "portIS_FREE_RTOS_CORE s" "c < configNUMBER_OF_CORES"
    and "lock = spin_lock (sem_of s k)" "\<not> spin_held s lock" "g = xEventGroup s" "group_waiters g (ekern (sesys s)) = []"
    and "sint (permits (sem_of s k)) < sint (max_permits (sem_of s k))"
  shows "sem_release set_from_isr c False k s = Inr (True, (upd_sem k (\<lambda>x. x\<lparr>permits := permits x + 1\<rparr>) (sev s))\<lparr>
    sesys := upd_ekern (kick c) (upd_bits g (\<lambda>b. b OR prvGetEventGroupBit lock) (sesys s))\<rparr>)"
proof -
  have st: "stable (ekern (sesys s))" using assms(1) by (simp add: esys_ok_def)
  have h: "(spin_held s)(spin_lock (sem_of s k) := False) = spin_held s" using assms(4,5) by (auto simp: fun_eq_iff)
  show ?thesis using assms(2,4-8)
    by (simp add: sem_release_def spin_lock_blocking_def vPortLockInternalSpinUnlockWithNotify_def portIS_FREE_RTOS_CORE_def
        sev_def spin_unlock_def upd_sem_def on_sesys_def xEventGroupSetBits_none [OF st assms(3)] h Let_def)
qed

lemma lock_wait_now:
  assumes "stable (ekern (sesys s))" "portIS_FREE_RTOS_CORE s" "c < configNUMBER_OF_CORES" "g = xEventGroup s"
    and "m = prvGetEventGroupBit lock" "bits g (sesys s) AND m \<noteq> 0"
  shows "lock_wait c lock s = Inr (Some (bits g (sesys s)), s\<lparr>sesys := upd_ekern (kick c) (upd_bits g (\<lambda>b. b AND NOT m) (sesys s))\<rparr>)"
proof -
  have "prvTestWaitCondition (bits g (sesys s)) m False" using assms(6) by (simp add: prvTestWaitCondition_def)
  then show ?thesis using xEventGroupWaitBits_now [OF assms(1,3), of g m False portMAX_DELAY True] assms(2,4,5)
    by (simp add: lock_wait_def on_sesys_def)
qed

lemma lock_wait_sleeps:
  assumes "esys_ok (sesys s)" "portIS_FREE_RTOS_CORE s" "may_block c (ekern (sesys s))" "g = xEventGroup s"
    and "m = prvGetEventGroupBit lock" "user_bits m" "bits g (sesys s) AND m = 0"
  shows "\<exists>e. lock_wait c lock s = Inr (None, s\<lparr>sesys := e\<rparr>) \<and> esys_ok e \<and> awaits_bits (cur (ekern (sesys s)) c) g m e"
proof -
  let ?s = "sesys s" and ?t = "cur (ekern (sesys s)) c"
  have st: "stable (ekern ?s)" "waiters_wf (ekern ?s)" using assms(1) by (simp_all add: esys_ok_def)
  have n: "\<not> prvTestWaitCondition (bits g ?s) m False" using assms(7) by (simp add: prvTestWaitCondition_def)
  have d: "portMAX_DELAY \<noteq> 0" by (simp add: portMAX_DELAY_def)
  obtain e where e: "xEventGroupWaitBits c g m True False portMAX_DELAY ?s = Inr (None, e)" "stable (ekern e)"
    "enlisted c g portMAX_DELAY (request m True False) ?s e"
    using xEventGroupWaitBits_blocks [OF st assms(3) d n, of True] by (auto simp: ensures_def)
  have ok: "esys_ok e" by (rule enlisted_ok [OF assms(1) e(3,2) assms(6) n])
  have w: "waits_in c g portMAX_DELAY (group_waiters g (ekern ?s) @ [?t])
      ((event_item (ekern ?s))(?t := request m True False OR taskEVENT_LIST_ITEM_VALUE_IN_USE)) (ekern ?s) (ekern e)"
    and b: "bits g e = bits g ?s" using e(3) bits_group [of e ?s g] by (simp_all add: enlisted_def Let_def)
  have i: "event_item (ekern e) ?t = request m True False OR taskEVENT_LIST_ITEM_VALUE_IN_USE"
    using w by (simp add: waits_in_def)
  have "stuck ?t g (ekern e)" using w by (simp add: waits_in_def stuck_def)
  then have "awaits_bits ?t g m e" using request_pending [OF assms(6) [unfolded user_bits_def] i] b assms(7)
    by (simp add: awaits_bits_def bits_wanted_def wants_all_def)
  then show ?thesis using e(1) ok assms(2,4,5) by (intro exI [of _ e]) (simp add: lock_wait_def on_sesys_def)
qed

lemma esys_ok_set_none:
  assumes "esys_ok e" "c < configNUMBER_OF_CORES" "group_waiters g (ekern e) = []" "user_bits v"
  shows "esys_ok (upd_ekern (kick c) (upd_bits g (\<lambda>b. b OR v) e))"
proof -
  have "stable (ekern e)" using assms(1) by (simp add: esys_ok_def)
  from set_ok [OF assms(1,2), of g v] xEventGroupSetBits_none [OF this assms(2,3), of v] show ?thesis
    using bits_set_ok [OF assms(1) _ _ assms(4)] by (auto simp: ensures_def)
qed

lemma esys_ok_clear:
  assumes "esys_ok e"
  shows "esys_ok (upd_ekern (kick c) (upd_bits g (\<lambda>b. b AND NOT m) e))"
proof (rule esys_ok_kick [OF assms])
  show "fewer (bits h (upd_ekern (kick c) (upd_bits g (\<lambda>b. b AND NOT m) e))) (bits h e)" for h by (cases "h = g") auto
qed simp

lemma sdk_same [simp]:
  "sesys (upd_sem k f s) = sesys s" "xEventGroup (upd_sem k f s) = xEventGroup s" "spin_held (upd_sem k f s) = spin_held s"
  "portIS_FREE_RTOS_CORE (upd_sem k f s) = portIS_FREE_RTOS_CORE s" "sem_of (upd_sem k f s) = (sem_of s)(k := f (sem_of s k))"
  "sesys (sev s) = sesys s" "xEventGroup (sev s) = xEventGroup s" "spin_held (sev s) = spin_held s"
  "portIS_FREE_RTOS_CORE (sev s) = portIS_FREE_RTOS_CORE s" "sem_of (sev s) = sem_of s"
  "portIS_FREE_RTOS_CORE (s\<lparr>sesys := e\<rparr>) = portIS_FREE_RTOS_CORE s"
  by (simp_all add: upd_sem_def sev_def portIS_FREE_RTOS_CORE_def)

text \<open>Two permits released while nobody waits.\<close>

lemma two_releases:
  assumes "esys_ok (sesys s)" "portIS_FREE_RTOS_CORE s" "e < configNUMBER_OF_CORES"
    and "lock = spin_lock (sem_of s k)" "m = prvGetEventGroupBit lock" "user_bits m" "\<not> spin_held s lock"
    and "permits (sem_of s k) = 0" "2 \<le> sint (max_permits (sem_of s k))"
    and "g = xEventGroup s" "group_waiters g (ekern (sesys s)) = []"
  shows "\<exists>s1 s2. sem_release isr e False k s = Inr (True, s1) \<and> sem_release isr e False k s1 = Inr (True, s2) \<and>
    sem_of s2 = (sem_of s)(k := (sem_of s k)\<lparr>permits := 2\<rparr>) \<and> spin_held s2 = spin_held s \<and> xEventGroup s2 = g \<and>
    portIS_FREE_RTOS_CORE s2 \<and> bits g (sesys s2) = bits g (sesys s) OR m \<and> esys_ok (sesys s2) \<and>
    group_waiters g (ekern (sesys s2)) = [] \<and> (\<forall>x. may_block x (ekern (sesys s2)) = may_block x (ekern (sesys s)))"
proof -
  let ?f = "\<lambda>s. (upd_sem k (\<lambda>x. x\<lparr>permits := permits x + 1\<rparr>) (sev s))\<lparr>
    sesys := upd_ekern (kick e) (upd_bits g (\<lambda>b. b OR m) (sesys s))\<rparr>"
  have one: "sem_release isr e False k s = Inr (True, ?f s)"
    using sem_release_eq [OF assms(1-4,7,10,11)] assms(5,8,9) by simp
  have ok: "esys_ok (sesys (?f s))" using esys_ok_set_none [OF assms(1,3,11,6)] by simp
  have two: "sem_release isr e False k (?f s) = Inr (True, ?f (?f s))"
    using sem_release_eq [OF ok _ assms(3), of lock k g isr] assms by (simp add: group_waiters_def)
  have "esys_ok (sesys (?f (?f s)))" using esys_ok_set_none [OF ok assms(3) _ assms(6)] assms(11) by (simp add: group_waiters_def)
  then show ?thesis using one two assms(2,8,10,11) by (intro exI [of _ "?f s"] exI [of _ "?f (?f s)"]) (simp add: group_waiters_def or.assoc)
qed

text \<open>The first task to wait finds the bit, clears it and takes a permit.\<close>

lemma first_wait:
  assumes "esys_ok y" "bits g y AND m \<noteq> 0" "may_block c (ekern y)"
    and "portIS_FREE_RTOS_CORE s" "xEventGroup s = g" "lock = spin_lock (sem_of s k)" "\<not> spin_held s lock"
    and "m = prvGetEventGroupBit lock" "permits (sem_of s k) = 2"
  shows "\<exists>r s1 s2. lock_wait c lock (s\<lparr>sesys := y\<rparr>) = Inr (Some r, s1) \<and> sem_acquire_blocking k s1 = Inr (True, s2) \<and>
    sem_available k s2 = 1 \<and> xEventGroup s2 = g \<and> portIS_FREE_RTOS_CORE s2 \<and> esys_ok (sesys s2) \<and> bits g (sesys s2) AND m = 0 \<and>
    sesys s2 = upd_ekern (kick c) (upd_bits g (\<lambda>b. b AND NOT m) y)"
proof -
  let ?y = "upd_ekern (kick c) (upd_bits g (\<lambda>b. b AND NOT m) y)"
  have "stable (ekern y)" "c < configNUMBER_OF_CORES" using assms(1,3) by (simp_all add: esys_ok_def may_block_def)
  then have "lock_wait c lock (s\<lparr>sesys := y\<rparr>) = Inr (Some (bits g y), s\<lparr>sesys := ?y\<rparr>)"
    using lock_wait_now [of "s\<lparr>sesys := y\<rparr>" c g m lock] assms(2,4,5,8) by simp
  moreover have "sem_acquire_blocking k (s\<lparr>sesys := ?y\<rparr>) =
      Inr (True, upd_sem k (\<lambda>x. x\<lparr>permits := permits x - 1\<rparr>) (s\<lparr>sesys := ?y\<rparr>))"
    using sem_acquire_blocking_eq [of "s\<lparr>sesys := ?y\<rparr>" k] assms(6,7,9) by simp
  moreover have "bits g ?y AND m = 0" by (simp add: and.assoc)
  ultimately show ?thesis using assms(4,5,9) esys_ok_clear [OF assms(1), of c g m] by (simp add: sem_available_def del: upd_same)
qed

text \<open>The next wait: the task of core \<open>c\<close> is suspended beside a permit, and stays so until it is notified.\<close>

definition sleeps_for_ever :: "(u32 \<Rightarrow> kernel \<Rightarrow> fault + kernel) \<Rightarrow> nat \<Rightarrow> nat \<Rightarrow> nat \<Rightarrow> nat \<Rightarrow> sdk \<Rightarrow> bool" where
  "sleeps_for_ever slp k lock g c s \<longleftrightarrow> (let t = cur (ekern (sesys s)) c; m = prvGetEventGroupBit lock in
     \<exists>s'. lock_wait c lock s = Inr (None, s') \<and> sem_available k s' = 1 \<and>
       (\<forall>w. eruns_unnotified t g m slp (sesys s') w \<longrightarrow> awaits_bits t g m w))"

lemma next_wait:
  assumes "esys_ok z" "bits g z AND m = 0" "may_block c (ekern z)"
    and "portIS_FREE_RTOS_CORE s" "xEventGroup s = g" "m = prvGetEventGroupBit lock" "user_bits m" "sem_available k s = 1"
  shows "sleeps_for_ever slp k lock g c (s\<lparr>sesys := z\<rparr>)"
proof -
  obtain x where "lock_wait c lock (s\<lparr>sesys := z\<rparr>) = Inr (None, s\<lparr>sesys := x\<rparr>)" "esys_ok x" "awaits_bits (cur (ekern z) c) g m x"
    using lock_wait_sleeps [of "s\<lparr>sesys := z\<rparr>" c g m lock] assms by auto
  then show ?thesis using assms(5,6,8) unnotified_awaits_bits unfolding sleeps_for_ever_def Let_def
    by (intro exI [of _ "s\<lparr>sesys := x\<rparr>"]) (auto simp: sem_available_def)
qed

end
