(* ===== verification/SdkExample.thy ===== *)
theory SdkExample
  imports EventGroupExample SdkProps
begin

text \<open>
  A semaphore of the SDK on the example of event groups.  Tasks 2 and 6 have found no permit; task 1 releases two and
  sleeps; task 2 waits on core 1, and task 6, to which core 0 switches, waits after it.
\<close>

unbundle bit_operations_syntax

text \<open>Task 1 sleeps for 10 ticks, and the interrupt of core 0 switches to task 6.\<close>

definition demo_delayed :: kernel where
  "demo_delayed = demo_ekern\<lparr>
     tcb := (tcb demo_ekern)(1 := demo_task 3 1 0 DelayedL1 110),
     lists := (lists demo_ekern)(DelayedL1 := [3, 1], ReadyL 3 := []),
     pendsv := (\<lambda>_. False)(0 := True)\<rparr>"

lemma demo_delay: "ensures (eact slp (EKernel (TaskCall 0 (CallDelay 10))) demo_esys) (\<lambda>s. s = demo_esys\<lparr>ekern := demo_delayed\<rparr>)"
  apply (simp add: eact_def act_def perform_def vTaskDelay_def vTaskSuspendAll_def demo_delayed_def demo_ekern_defs
     prvAddCurrentTaskToDelayedList_def current_def upd_tcb_def follow_def state_remove_def state_insert_def prim_defs Let_def insert_after_le_def eval_words)
  apply (simp add: xTaskResumeAll_def critical_def resume_outermost_def dec32_def vTaskEnterCritical_def vTaskExitCritical_def
      set_nesting_def vTaskYieldWithinAPI_def portYIELD_def Let_def fun_eq_iff)
  done

lemma demo_switch_6: "ensures (eact slp (EKernel (Switch 0)) (demo_esys\<lparr>ekern := demo_delayed\<rparr>))
    (\<lambda>s2. cur (ekern s2) 0 = 6 \<and> may_block 0 (ekern s2) \<and> bits 2 s2 = 0)"
  apply (simp add: demo_delayed_def demo_ekern_defs eact_def act_def vTaskSwitchContext_def prvSelectHighestPriorityTask_def
      rotate_current_def set_yield_pending_def current_def state_remove_def state_insert_end_def prim_defs follow_def Let_def)
  apply (subst select_loop.simps, simp add: current_def follow_def prim_defs may_run_on_def Let_def eval_words)
  apply (subst select_loop.simps, simp add: current_def follow_def prim_defs may_run_on_def Let_def eval_words)
  apply (simp add: place_evicted_def current_def follow_def Let_def effective_priority_def eval_words two_cores cur_def
      may_block_def on_ready_def idle_task_def ex_core [unfolded configNUMBER_OF_CORES_def])
  done

lemma demo_task_6_runs: "\<exists>z. eruns slp demo_esys z \<and> cur (ekern z) 0 = 6 \<and> may_block 0 (ekern z) \<and> bits 2 z = 0"
proof -
  have r1: "eruns slp demo_esys (demo_esys\<lparr>ekern := demo_delayed\<rparr>)"
    using eruns.intros(2) [OF eruns.intros(1), of "EKernel (TaskCall 0 (CallDelay 10))" demo_esys slp] demo_delay [of slp] demo_ecalls(1)
    by (simp add: eenabled_def enabled_def ecalls_now_def ensures_def)
  obtain z where z: "eact slp (EKernel (Switch 0)) (demo_esys\<lparr>ekern := demo_delayed\<rparr>) = Inr z"
    "cur (ekern z) 0 = 6 \<and> may_block 0 (ekern z) \<and> bits 2 z = 0" using demo_switch_6 [of slp] by (auto simp: ensures_def)
  have "eenabled (EKernel (Switch 0)) (demo_esys\<lparr>ekern := demo_delayed\<rparr>)"
    by (simp add: eenabled_def enabled_def demo_delayed_def configNUMBER_OF_CORES_def)
  then show ?thesis using eruns.intros(2) [OF r1 _ z(1)] z(2) by blast
qed

text \<open>The event group of the locks is group 2; semaphore 0 uses lock 14 and has no permit of two.\<close>

definition demo_sdk :: sdk where
  "demo_sdk = \<lparr>sesys = demo_esys, xEventGroup = 2, ucPrimaryCoreNum = 0, spin_held = (\<lambda>_. False), event_register = (\<lambda>_. False),
     sem_of = (\<lambda>_. \<lparr>spin_lock = 14, permits = 0, max_permits = 2\<rparr>)\<rparr>"

lemma demo_kick: "kick c demo_ekern = demo_ekern"
  by (simp add: kick_def demo_ekern_defs)

lemma demo_bit_cleared:
  "upd_ekern (kick c) (upd_bits 2 (\<lambda>b. b AND NOT 0x4000) (upd_ekern (kick 0) (upd_bits 2 (\<lambda>b. b OR 0x4000)
     (upd_ekern (kick 0) (upd_bits 2 (\<lambda>b. b OR 0x4000) demo_esys))))) = demo_esys"
proof -
  have "group_of demo_esys 2 = \<lparr>uxEventBits = 0, eg_ucStaticallyAllocated = False\<rparr>" by (simp add: demo_esys_def)
  moreover have "(group_of demo_esys)(2 := group_of demo_esys 2) = group_of demo_esys" by simp
  ultimately show ?thesis by (simp add: upd_ekern_def upd_bits_def demo_kick del: fun_upd_triv)
qed

lemma demo_sdk_same:
  "sesys demo_sdk = demo_esys" "xEventGroup demo_sdk = 2" "portIS_FREE_RTOS_CORE demo_sdk" "\<not> spin_held demo_sdk n"
  "sem_of demo_sdk k = \<lparr>spin_lock = 14, permits = 0, max_permits = 2\<rparr>"
  by (simp_all add: demo_sdk_def portIS_FREE_RTOS_CORE_def INVALID_PRIMARY_CORE_NUM_def)

lemma demo_lock_bit: "prvGetEventGroupBit 14 = 0x4000"
  by code_simp

lemma demo_group_2: "group_waiters 2 (ekern demo_esys) = []"
  by (simp add: group_waiters_def demo_ekern_defs)

lemma demo_released:
  assumes "sem_release isr 0 False 0 demo_sdk = Inr (True, s1)" "sem_release isr 0 False 0 s1 = Inr (True, s2)"
  shows "sesys s2 = upd_ekern (kick 0) (upd_bits 2 (\<lambda>b. b OR 0x4000) (upd_ekern (kick 0) (upd_bits 2 (\<lambda>b. b OR 0x4000) demo_esys)))"
proof -
  have c: "0 < configNUMBER_OF_CORES" by (simp add: configNUMBER_OF_CORES_def)
  let ?e = "upd_ekern (kick 0) (upd_bits 2 (\<lambda>b. b OR 0x4000) demo_esys)"
  have ok: "esys_ok ?e" by (rule esys_ok_set_none [OF demo_esys_ok c demo_group_2]) (simp add: user_bits_def eventEVENT_BITS_CONTROL_BYTES_def)
  have g: "group_waiters 2 (ekern ?e) = []" using demo_group_2 by (simp add: group_waiters_def)
  have s1: "s1 = (upd_sem 0 (\<lambda>x. x\<lparr>permits := permits x + 1\<rparr>) (sev demo_sdk))\<lparr>sesys := ?e\<rparr>"
    using sem_release_eq [of demo_sdk 0 14 0 2 isr, unfolded demo_sdk_same demo_lock_bit, OF demo_esys_ok _ c]
      assms(1) demo_sdk_same demo_group_2 by (simp del: upd_same)
  have s: "sesys s1 = ?e" "xEventGroup s1 = 2" "portIS_FREE_RTOS_CORE s1" "\<not> spin_held s1 14"
    "sem_of s1 0 = \<lparr>spin_lock = 14, permits = 1, max_permits = 2\<rparr>"
    using s1 demo_sdk_same by (simp_all del: upd_same)
  have "sem_release isr 0 False 0 s1 = Inr (True, (upd_sem 0 (\<lambda>x. x\<lparr>permits := permits x + 1\<rparr>) (sev s1))\<lparr>
      sesys := upd_ekern (kick 0) (upd_bits 2 (\<lambda>b. b OR 0x4000) ?e)\<rparr>)"
    using sem_release_eq [of s1 0 14 0 2 isr] s(3-5) unfolding s(1,2) demo_lock_bit using ok c g by (simp del: upd_same)
  then show ?thesis using assms(2) by simp
qed

end
