(* ===== verification/EventGroupResults.thy ===== *)
theory EventGroupResults
  imports SdkExample
begin

text \<open>
  The properties of event groups: which tasks a set of bits wakes and with what, what a wait returns, the rendezvous,
  the invariant of the running system, and the wake-up that the locks of the SDK can lose.
\<close>

unbundle bit_operations_syntax

section \<open>Setting bits\<close>

text \<open>C15: Setting bits of an event group readies exactly the waiting tasks whose condition then holds, gives each of
  them the bits that satisfied it, leaves every other task where it was and in its place in the list, and clears
  exactly the bits that one of the readied tasks waited for and asked to have cleared; the rest stay set.\<close>

theorem set_bits_wakes_satisfied:
  assumes "stable (ekern s)" "waiters_wf (ekern s)" "c < configNUMBER_OF_CORES"
  shows "\<exists>s'. xEventGroupSetBits c g v s = Inr (bits g s', s') \<and> stable (ekern s') \<and>
    (let k = ekern s; k' = ekern s'; b = bits g s OR v; T = {t \<in> set (group_waiters g k). satisfied b k t} in
     (\<forall>t \<in> T. stateContainer (tcb k' t) = Some (ReadyL (prio k t)) \<and>
        event_item k' t = (b OR eventUNBLOCKED_DUE_TO_BIT_SET) OR taskEVENT_LIST_ITEM_VALUE_IN_USE) \<and>
     (\<forall>u. u \<notin> T \<longrightarrow> stateContainer (tcb k' u) = stateContainer (tcb k u) \<and>
        eventContainer (tcb k' u) = eventContainer (tcb k u) \<and> event_item k' u = event_item k u) \<and>
     group_waiters g k' = filter (\<lambda>t. \<not> satisfied b k t) (group_waiters g k) \<and>
     (\<forall>i. bit (bits g s') i \<longleftrightarrow> bit b i \<and> \<not> (\<exists>t \<in> T. clears k t \<and> bit (bits_wanted k t) i)))"
proof -
  have h: "held 0 (ekern s)" using assms(1) by (simp add: held_stable)
  obtain r s' where s': "xEventGroupSetBits c g v s = Inr (r, s')" "held 0 (ekern s')" "bits_set g v s s'" "r = bits g s'"
    using xEventGroupSetBits_held [OF h _ assms(2,3), of g v] by (auto simp: ensures_def)
  let ?k = "ekern s" and ?k' = "ekern s'" and ?b = "bits g s OR v"
  let ?T = "{t \<in> set (group_waiters g ?k). satisfied ?b ?k t}"
  have f: "freed ?T g (?b OR eventUNBLOCKED_DUE_TO_BIT_SET) ?k ?k'"
    and c: "\<forall>i. bit (bits g s') i \<longleftrightarrow> bit ?b i \<and> \<not> (\<exists>t \<in> ?T. clears ?k t \<and> bit (bits_wanted ?k t) i)"
    using s'(3) unfolding bits_set_def released_def cleared_def Let_def by blast+
  have "group_waiters g ?k' = filter (\<lambda>t. \<not> satisfied ?b ?k t) (group_waiters g ?k)"
    using f by (auto simp: freed_def group_waiters_def intro: filter_cong)
  then show ?thesis using f c s'(1,2,4) unfolding Let_def by (auto simp: freed_def held_stable)
qed

text \<open>Of the two tasks that wait for group 0, bit 1 wakes task 3 only, which asked to clear it.\<close>

theorem set_bits_wakes_satisfied_witness:
  "\<exists>s'. xEventGroupSetBits 0 0 2 demo_esys = Inr (bits 0 s', s') \<and> group_waiters 0 (ekern s') = [7] \<and>
    stateContainer (tcb (ekern s') 3) = Some (ReadyL 3) \<and> \<not> bit (bits 0 s') 1 \<and> bit (bits 0 s') 4"
proof -
  have w: "waiters_wf (ekern demo_esys)" "stable (ekern demo_esys)" using demo_esys_ok by (simp_all add: esys_ok_def)
  have c: "0 < configNUMBER_OF_CORES" by (simp add: configNUMBER_OF_CORES_def)
  have l: "group_waiters 0 demo_ekern = [3, 7]" by (simp add: group_waiters_def demo_ekern_defs)
  have s: "satisfied (16 OR 2) demo_ekern 3" "\<not> satisfied (16 OR 2) demo_ekern 7" "clears demo_ekern 3" "bits_wanted demo_ekern 3 = 3"
    "prio demo_ekern 3 = 3"
    by (simp_all add: satisfied_def prvTestWaitCondition_def bits_wanted_def wants_all_def clears_def event_item_def demo_ekern_defs eval_words)
  obtain s' where s': "xEventGroupSetBits 0 0 2 demo_esys = Inr (bits 0 s', s')"
    "let k = demo_ekern; k' = ekern s'; b = bits 0 demo_esys OR 2; T = {t \<in> set (group_waiters 0 k). satisfied b k t} in
     (\<forall>t \<in> T. stateContainer (tcb k' t) = Some (ReadyL (prio k t)) \<and>
        event_item k' t = (b OR eventUNBLOCKED_DUE_TO_BIT_SET) OR taskEVENT_LIST_ITEM_VALUE_IN_USE) \<and>
     (\<forall>u. u \<notin> T \<longrightarrow> stateContainer (tcb k' u) = stateContainer (tcb k u) \<and>
        eventContainer (tcb k' u) = eventContainer (tcb k u) \<and> event_item k' u = event_item k u) \<and>
     group_waiters 0 k' = filter (\<lambda>t. \<not> satisfied b k t) (group_waiters 0 k) \<and>
     (\<forall>i. bit (bits 0 s') i \<longleftrightarrow> bit b i \<and> \<not> (\<exists>t \<in> T. clears k t \<and> bit (bits_wanted k t) i))"
    using set_bits_wakes_satisfied [OF w(2,1) c, of 0 2, unfolded demo_esys_kern] by blast
  have T: "{t \<in> set (group_waiters 0 demo_ekern). satisfied (bits 0 demo_esys OR 2) demo_ekern t} = {3}" using s by (auto simp: l)
  show ?thesis using s' s unfolding Let_def T by (simp add: l bit_or_iff del: bit_numeral_simps) (simp add: bit_numeral_rec)
qed

section \<open>The running system\<close>

text \<open>C18: Every state of the running system with event groups is well formed, and no step faults: whatever ticks,
  context switches, calls of tasks and calls on event groups came before, an enabled step completes and leaves the
  kernel stable, every task in an event list asleep or suspended, and the control byte of every group clear.\<close>

theorem event_system_well_formed:
  assumes "esys_ok s" "eruns slp s s1" "eenabled a s1"
  shows "\<exists>s2. eact slp a s1 = Inr s2 \<and> stable (ekern s2) \<and> waiters_wf (ekern s2) \<and>
    (\<forall>g. bits g s2 AND eventEVENT_BITS_CONTROL_BYTES = 0)"
  using eact_ok [OF eruns_ok [OF assms(2,1)] assms(3), of slp] by (auto simp: ensures_def esys_ok_def user_bits_def)

theorem event_system_well_formed_witness:
  "\<exists>s2. eact (\<lambda>_ s. Inr s) (ESync 1 1 2 3 9) demo_esys = Inr s2 \<and> stable (ekern s2)"
proof -
  have "eenabled (ESync 1 1 2 3 9) demo_esys"
    using demo_ecalls by (simp add: eenabled_def user_bits_def eventEVENT_BITS_CONTROL_BYTES_def)
  then show ?thesis using event_system_well_formed [OF demo_esys_ok eruns.begins] by blast
qed

text \<open>C16: No wake-up inside an event group is missed: in every reachable state, no task waits in the list of a group
  whose bits satisfy what the task waits for.\<close>

theorem no_event_missed:
  assumes "esys_ok s" "eruns slp s s'" "t \<in> set (group_waiters g (ekern s'))"
  shows "\<not> prvTestWaitCondition (bits g s') (bits_wanted (ekern s') t) (wants_all (ekern s') t)"
proof -
  have ok: "esys_ok s'" by (rule eruns_ok [OF assms(2,1)])
  then have "kinv (ekern s')" by (simp add: esys_ok_def stable_def)
  then have "eventContainer (tcb (ekern s') t) = Some (EventL g)"
    using waiter_list assms(3) by (simp add: group_waiters_def)
  then have "\<not> satisfied (bits g s') (ekern s') t" using ok by (simp add: esys_ok_def no_missed_def)
  then show ?thesis by (simp add: satisfied_def)
qed

text \<open>Task 1 sets bit 1 of group 0; task 7 goes on waiting for the bits 1 and 2.\<close>

theorem no_event_missed_witness:
  "\<exists>s'. eruns (\<lambda>_ k. Inr k) demo_esys s' \<and> 7 \<in> set (group_waiters 0 (ekern s')) \<and>
    \<not> prvTestWaitCondition (bits 0 s') (bits_wanted (ekern s') 7) (wants_all (ekern s') 7)"
proof -
  let ?s' = "demo_esys\<lparr>ekern := demo_woken\<rparr>"
  have "xEventGroupSetBits 0 0 2 demo_esys = Inr (0x10, ?s')" using demo_set_bits by (auto simp: ensures_def)
  then have a: "eact (\<lambda>_ k. Inr k) (ESet 0 0 2) demo_esys = Inr ?s'" by (simp add: eact_def)
  have "eenabled (ESet 0 0 2) demo_esys" using demo_ecalls by (simp add: eenabled_def user_bits_def eventEVENT_BITS_CONTROL_BYTES_def)
  then have r: "eruns (\<lambda>_ k. Inr k) demo_esys ?s'" using a eruns.begins eruns.proceeds by blast
  moreover have m: "7 \<in> set (group_waiters 0 (ekern ?s'))" by (simp add: group_waiters_def demo_woken_def)
  ultimately show ?thesis using no_event_missed [OF demo_esys_ok r m] by blast
qed

section \<open>Waiting for bits\<close>

text \<open>\<open>xEventGroupWaitBits\<close> returns the bits at once if they satisfy the condition, clearing those it waited for if
  asked to, and also if it may not wait; otherwise the calling task is put at the end of the list of the group for
  exactly the ticks it asked for, or for ever, with its condition in its event item, and its core switches.\<close>

theorem wait_bits_outcome:
  assumes "stable (ekern s)" "waiters_wf (ekern s)" "may_block c (ekern s)"
  shows "\<exists>r s'. xEventGroupWaitBits c g w clr wall n s = Inr (r, s') \<and> stable (ekern s') \<and>
    (let k = ekern s; k' = ekern s'; t = cur k c in
     if prvTestWaitCondition (bits g s) w wall then
       r = Some (bits g s) \<and> tcb k' = tcb k \<and> bits g s' = (if clr then bits g s AND NOT w else bits g s)
     else bits g s' = bits g s \<and>
       (if n = 0 then r = Some (bits g s) \<and> tcb k' = tcb k
        else r = None \<and> pendsv k' c \<and> group_waiters g k' = group_waiters g k @ [t] \<and>
          (if n = portMAX_DELAY then stateContainer (tcb k' t) = Some SuspendedL else remaining k' t = Some (unat n)) \<and>
          event_item k' t = request w clr wall OR taskEVENT_LIST_ITEM_VALUE_IN_USE))"
proof (cases "prvTestWaitCondition (bits g s) w wall \<or> n = 0")
  case True
  have c: "c < configNUMBER_OF_CORES" using assms(3) by (simp add: may_block_def)
  show ?thesis using True stable_kick [OF assms(1)] xEventGroupWaitBits_now [OF assms(1) c True, of clr]
    by (auto simp: Let_def)
next
  case False
  then have f: "n \<noteq> 0" "\<not> prvTestWaitCondition (bits g s) w wall" by simp_all
  obtain s' where s': "xEventGroupWaitBits c g w clr wall n s = Inr (None, s')" "stable (ekern s')" "enlisted c g n (request w clr wall) s s'"
    using xEventGroupWaitBits_blocks [OF assms f, of clr] by (auto simp: ensures_def)
  have "bits g s' = bits g s" using s'(3) by (simp add: enlisted_def bits_def Let_def)
  then show ?thesis using s' f by (simp add: enlisted_def waits_in_def group_waiters_def Let_def)
qed

lemma demo_may_block: "may_block 0 (ekern demo_esys)" "may_block 1 (ekern demo_esys)"
  by (rule ecalls_may_block [OF demo_ecalls(1)], rule ecalls_may_block [OF demo_ecalls(2)])

theorem wait_bits_outcome_witness:
  "\<exists>s'. xEventGroupWaitBits 1 0 5 True False 9 demo_esys = Inr (None, s') \<and> group_waiters 0 (ekern s') = [3, 7, 2] \<and>
    remaining (ekern s') 2 = Some 9"
proof -
  have w: "stable (ekern demo_esys)" "waiters_wf (ekern demo_esys)" using demo_esys_ok by (simp_all add: esys_ok_def)
  have f: "\<not> prvTestWaitCondition (bits 0 demo_esys) 5 False" by (simp add: prvTestWaitCondition_def)
  have l: "group_waiters 0 demo_ekern = [3, 7]" "cur demo_ekern 1 = 2" by (simp_all add: group_waiters_def cur_def demo_ekern_defs)
  show ?thesis using wait_bits_outcome [OF w demo_may_block(2), of 0 5 True False 9] f
    by (auto simp: Let_def l l(2) [unfolded One_nat_def] portMAX_DELAY_def)
qed

text \<open>C17: From the wait to its return: a task that waits with some condition, and whose condition the bits set by
  another task satisfy, is readied, and when it runs again, after whatever other tasks, interrupts and context
  switches did in between, its \<open>xEventGroupWaitBits\<close> returns exactly the bits that satisfied the condition.\<close>

theorem event_wait_returns_bits:
  assumes "esys_ok s" "eenabled (ESet c g v) s" "t \<in> set (group_waiters g (ekern s))"
    and "event_item (ekern s) t = request w clr wall OR taskEVENT_LIST_ITEM_VALUE_IN_USE" "user_bits w"
    and "prvTestWaitCondition (bits g s OR v) w wall"
    and "xEventGroupSetBits c g v s = Inr (r, s1)" "eruns_without t slp s1 s2"
    and "eenabled (EWaitEnd d g w clr wall) s2" "cur (ekern s2) d = t"
  shows "stateContainer (tcb (ekern s1) t) = Some (ReadyL (prio (ekern s) t)) \<and>
    (\<exists>s3. xEventGroupWaitBits_return d g w clr wall s2 = Inr (bits g s OR v, s3))"
proof -
  let ?b = "bits g s OR v"
  have c: "c < configNUMBER_OF_CORES" and v: "user_bits v" using assms(2) by (simp_all add: eenabled_def ecalls_now_def)
  have s1: "stable (ekern s1)" "bits_set g v s s1" using set_ok [OF assms(1) c, of g v] assms(7) by (simp_all add: ensures_def)
  have ok1: "esys_ok s1" by (rule bits_set_ok [OF assms(1) s1(2,1) v])
  have "t \<in> released g ?b (ekern s)"
    using assms(3,6) request_pending [OF assms(5) [unfolded user_bits_def] assms(4)]
    by (simp add: released_def satisfied_def bits_wanted_def wants_all_def)
  then have t: "stateContainer (tcb (ekern s1) t) = Some (ReadyL (prio (ekern s) t))"
    "carries t ((?b OR eventUNBLOCKED_DUE_TO_BIT_SET) OR taskEVENT_LIST_ITEM_VALUE_IN_USE) (ekern s1)"
    using s1(2) by (simp_all add: bits_set_def freed_def carries_def Let_def)
  have "esys_ok s2" by (rule eruns_ok [OF eruns_without_runs [OF assms(8)] ok1])
  then have st: "stable (ekern s2)" by (simp add: esys_ok_def)
  have d: "d < configNUMBER_OF_CORES" using assms(9) by (simp add: eenabled_def ecalls_now_def)
  have "carries t ((?b OR eventUNBLOCKED_DUE_TO_BIT_SET) OR taskEVENT_LIST_ITEM_VALUE_IN_USE) (ekern s2)"
    by (rule eruns_without_carries [OF assms(8) ok1 t(2)])
  then have "event_item (ekern s2) (cur (ekern s2) d) = (?b OR eventUNBLOCKED_DUE_TO_BIT_SET) OR taskEVENT_LIST_ITEM_VALUE_IN_USE"
    using assms(10) by (simp add: carries_def)
  from xEventGroupWaitBits_return_woken(1) [OF st d this]
  have "xEventGroupWaitBits_return d g w clr wall s2 = Inr (?b AND NOT eventEVENT_BITS_CONTROL_BYTES, reset_item t s2)"
    using assms(10) by simp
  moreover have "user_bits ?b" using assms(1) v user_or by (simp add: esys_ok_def)
  then have "?b = (?b AND eventEVENT_BITS_CONTROL_BYTES) OR (?b AND NOT eventEVENT_BITS_CONTROL_BYTES)"
    by (simp flip: bit.conj_disj_distrib)
  then have "?b AND NOT eventEVENT_BITS_CONTROL_BYTES = ?b" using \<open>user_bits ?b\<close> by (simp add: user_bits_def)
  ultimately show ?thesis using t(1) by simp
qed

text \<open>Task 3 waits for one of the bits 0 and 1 of group 0, task 1 sets bit 1, core 1 switches to task 3.\<close>

theorem event_wait_returns_bits_witness:
  "\<exists>s1 s2 s3. xEventGroupSetBits 0 0 2 demo_esys = Inr (0x10, s1) \<and> eact (\<lambda>_ k. Inr k) (EKernel (Switch 1)) s1 = Inr s2 \<and>
    cur (ekern s2) 1 = 3 \<and> xEventGroupWaitBits_return 1 0 3 True False s2 = Inr (0x12, s3)"
proof -
  let ?s1 = "demo_esys\<lparr>ekern := demo_woken\<rparr>"
  have s1: "xEventGroupSetBits 0 0 2 demo_esys = Inr (0x10, ?s1)" using demo_set_bits by (auto simp: ensures_def)
  obtain s2 where s2: "eact (\<lambda>_ k. Inr k) (EKernel (Switch 1)) ?s1 = Inr s2" "cur (ekern s2) 1 = 3" "ecalls_now 1 s2"
    using demo_switch [of "\<lambda>_ k. Inr k"] by (auto simp: ensures_def)
  have "eenabled (EKernel (Switch 1)) ?s1" by (simp add: eenabled_def enabled_def demo_woken_def configNUMBER_OF_CORES_def)
  then have r: "eruns_without 3 (\<lambda>_ k. Inr k) ?s1 s2"
    by (rule eruns_without.other [OF eruns_without.silent _ _ s2(1)]) (simp add: eactor_def)
  have en: "eenabled (ESet 0 0 2) demo_esys" "eenabled (EWaitEnd 1 0 3 True False) s2"
    using demo_ecalls s2(3) by (simp_all add: eenabled_def user_bits_def eventEVENT_BITS_CONTROL_BYTES_def)
  have t: "3 \<in> set (group_waiters 0 (ekern demo_esys))" "user_bits 3" "prvTestWaitCondition (bits 0 demo_esys OR 2) 3 False"
    "event_item (ekern demo_esys) 3 = request 3 True False OR taskEVENT_LIST_ITEM_VALUE_IN_USE"
    by (simp_all add: group_waiters_def demo_ekern_defs user_bits_def prvTestWaitCondition_def event_item_def request_def eval_words)
  show ?thesis using event_wait_returns_bits [OF demo_esys_ok en(1) t(1,4,2,3) s1 r en(2) s2(2)] s1 s2 by auto
qed

section \<open>The rendezvous\<close>

text \<open>A rendezvous of tasks that all wait for the bits \<open>w\<close>: the call of \<open>xEventGroupSync\<close> that completes them
  readies all the tasks that wait, each with the completed bits, returns these bits itself and leaves the bits of the
  rendezvous clear; a call that does not complete them wakes no task and clears no bit, and its task waits too.\<close>

theorem sync_rendezvous:
  assumes "esys_ok s" "may_block c (ekern s)" "user_bits w" "n \<noteq> 0"
    and "\<forall>t \<in> set (group_waiters g (ekern s)). event_item (ekern s) t = request w True True OR taskEVENT_LIST_ITEM_VALUE_IN_USE"
  shows "\<exists>r s'. xEventGroupSync c g v w n s = Inr (r, s') \<and> stable (ekern s') \<and>
    (let k = ekern s; k' = ekern s'; b = bits g s OR v; t = cur k c in
     if b AND w = w then
       r = Some b \<and> bits g s' = b AND NOT w \<and> group_waiters g k' = [] \<and>
       (\<forall>u \<in> set (group_waiters g k). stateContainer (tcb k' u) = Some (ReadyL (prio k u)) \<and>
          event_item k' u = (b OR eventUNBLOCKED_DUE_TO_BIT_SET) OR taskEVENT_LIST_ITEM_VALUE_IN_USE)
     else r = None \<and> bits g s' = b \<and> group_waiters g k' = group_waiters g k @ [t] \<and>
       event_item k' t = request w True True OR taskEVENT_LIST_ITEM_VALUE_IN_USE)"
proof -
  let ?k = "ekern s" and ?b = "bits g s OR v" and ?t = "cur (ekern s) c"
  have st: "stable ?k" "waiters_wf ?k" using assms(1) by (simp_all add: esys_ok_def)
  obtain r s' s1 where s': "xEventGroupSync c g v w n s = Inr (r, s')" and s1: "stable (ekern s1)" "bits_set g v s s1"
    and r: "if ?b AND w = w then r = Some ?b \<and> s' = upd_ekern (kick c) (upd_bits g (\<lambda>b. b AND NOT w) s1)
         else if n = 0 then r = Some (bits g s1) \<and> s' = upd_ekern (kick c) s1
         else r = None \<and> stable (ekern s') \<and> enlisted c g n (request w True True) s1 s'"
    using xEventGroupSync_ok [OF st assms(2), of g v w n] by (auto simp: ensures_def)
  note rq = request_pending [OF assms(3) [unfolded user_bits_def] refl, of True True]
  have sat: "satisfied ?b ?k u \<longleftrightarrow> ?b AND w = w" "bits_wanted ?k u = w" if "u \<in> set (group_waiters g ?k)" for u
    using assms(5) that rq by (simp_all add: satisfied_def bits_wanted_def wants_all_def prvTestWaitCondition_def)
  have T: "released g ?b ?k = (if ?b AND w = w then set (group_waiters g ?k) else {})"
    using sat by (auto simp: released_def)
  have f: "freed (released g ?b ?k) g (?b OR eventUNBLOCKED_DUE_TO_BIT_SET) ?k (ekern s1)"
    and bt: "\<And>i. bit (bits g s1) i \<longleftrightarrow> bit ?b i \<and> \<not> cleared ?k (released g ?b ?k) i"
    using s1(2) by (simp_all add: bits_set_def Let_def)
  show ?thesis
  proof (cases "?b AND w = w")
    case True
    have b: "bits g s1 AND NOT w = ?b AND NOT w"
    proof (rule bit_eqI)
      fix i
      have "cleared ?k (released g ?b ?k) i \<Longrightarrow> bit w i" using T True sat(2) by (auto simp: cleared_def)
      then show "bit (bits g s1 AND NOT w) i \<longleftrightarrow> bit (?b AND NOT w) i" unfolding bit_clear bt by blast
    qed
    have e: "r = Some ?b" "s' = upd_ekern (kick c) (upd_bits g (\<lambda>b. b AND NOT w) s1)" using r True by simp_all
    then have k': "tcb (ekern s') = tcb (ekern s1)" "lists (ekern s') = lists (ekern s1)" "bits g s' = ?b AND NOT w"
      "stable (ekern s')" using b s1(1) stable_kick by simp_all
    have "group_waiters g (ekern s') = []" using f T True k'(2) by (auto simp: freed_def group_waiters_def filter_empty_conv)
    moreover have "event_item (ekern s') u = event_item (ekern s1) u" for u using k'(1) by (simp add: event_item_def)
    ultimately show ?thesis using s' e(1) k' f T True by (simp add: freed_def Let_def)
  next
    case False
    then have e: "r = None" "stable (ekern s')" "enlisted c g n (request w True True) s1 s'" using r assms(4) by simp_all
    have "bits g s1 = ?b" by (rule bit_eqI) (use bt T False in \<open>simp add: cleared_def\<close>)
    moreover have "bits g s' = bits g s1" using e(3) by (simp add: enlisted_def bits_def Let_def)
    moreover have "group_waiters g (ekern s1) = group_waiters g ?k" using f T False by (simp add: freed_def group_waiters_def)
    moreover have "cur (ekern s1) = cur ?k" using bits_set_cur [OF s1(2)] .
    ultimately show ?thesis using s' e False by (simp add: enlisted_def waits_in_def group_waiters_def Let_def)
  qed
qed

text \<open>Bit 0 of group 1 is set and task 4 waits for the bits 0 and 1; task 1 arrives with bit 1.\<close>

theorem sync_rendezvous_witness:
  "\<exists>s'. xEventGroupSync 0 1 2 3 9 demo_esys = Inr (Some 3, s') \<and> bits 1 s' = 0 \<and>
    stateContainer (tcb (ekern s') 4) = Some (ReadyL 4)"
proof -
  have l: "group_waiters 1 demo_ekern = [4]" "group_waiters (Suc 0) demo_ekern = [4]" "prio demo_ekern 4 = 4"
    by (simp_all add: group_waiters_def demo_ekern_defs)
  have u: "user_bits 3" by (simp add: user_bits_def eventEVENT_BITS_CONTROL_BYTES_def)
  have i: "event_item demo_ekern 4 = request 3 True True OR taskEVENT_LIST_ITEM_VALUE_IN_USE"
    by (simp add: event_item_def request_def demo_ekern_defs eval_words)
  then have "\<forall>t \<in> set (group_waiters 1 (ekern demo_esys)). event_item (ekern demo_esys) t = request 3 True True OR taskEVENT_LIST_ITEM_VALUE_IN_USE"
    by (simp add: l)
  from sync_rendezvous [OF demo_esys_ok demo_may_block(1) u _ this, of 9 2]
  show ?thesis by (auto simp: Let_def l)
qed

section \<open>The locks of the SDK\<close>

lemma lock_bit:
  assumes "lock < 32"
  shows "prvGetEventGroupBit lock \<noteq> 0" "user_bits (prvGetEventGroupBit lock)"
proof -
  have "\<forall>n \<in> {..<32}. prvGetEventGroupBit n \<noteq> 0 \<and> prvGetEventGroupBit n AND eventEVENT_BITS_CONTROL_BYTES = 0" by code_simp
  then show "prvGetEventGroupBit lock \<noteq> 0" "user_bits (prvGetEventGroupBit lock)" using assms by (simp_all add: user_bits_def)
qed

text \<open>C38: A semaphore of the SDK can leave a task asleep for ever next to a permit that it could take.  Tasks find no
  permit and unlock the spin lock; before they wait, two permits are released, which both set the one bit of the
  lock.  However the system runs on, the first task to wait while the bit is set returns at once, clears the bit and
  takes a permit, for which the SDK sends no notification.  The next task to wait while the bit is clear is suspended
  without a time limit, with a permit still there, and no step of the kernel or of an event group wakes it, short of
  another setting of this bit, or its suspension or deletion.  The contract in \<open>lock_core.h\<close> is that a notification wakes every wait that started before it, and the
  comment in \<open>vPortLockInternalSpinUnlockWithWait\<close> claims that this wait cannot block.\<close>

theorem sdk_wakeup_lost:
  assumes "esys_ok (sesys s)" "portIS_FREE_RTOS_CORE s" "e < configNUMBER_OF_CORES"
    and "lock = spin_lock (sem_of s k)" "lock < 32" "\<not> spin_held s lock" "m = prvGetEventGroupBit lock"
    and "permits (sem_of s k) = 0" "2 \<le> sint (max_permits (sem_of s k))"
    and "g = xEventGroup s" "group_waiters g (ekern (sesys s)) = []"
  shows "sem_acquire_blocking k s = Inr (False, s) \<and>
    (\<exists>s1 s2. sem_release isr e False k s = Inr (True, s1) \<and> sem_release isr e False k s1 = Inr (True, s2) \<and>
      sem_available k s2 = 2 \<and> bits g (sesys s2) AND m \<noteq> 0 \<and>
      (\<forall>x. may_block x (ekern (sesys s2)) = may_block x (ekern (sesys s))) \<and>
      (\<forall>y c. eruns slp (sesys s2) y \<and> bits g y AND m \<noteq> 0 \<and> may_block c (ekern y) \<longrightarrow>
        (\<exists>r s3 s4. lock_wait c lock (s2\<lparr>sesys := y\<rparr>) = Inr (Some r, s3) \<and> sem_acquire_blocking k s3 = Inr (True, s4) \<and>
          sem_available k s4 = 1 \<and> sesys s4 = upd_ekern (kick c) (upd_bits g (\<lambda>b. b AND NOT m) y) \<and>
          (\<forall>z d. eruns slp (sesys s4) z \<and> bits g z AND m = 0 \<and> may_block d (ekern z) \<longrightarrow>
            sleeps_for_ever slp k lock g d (s4\<lparr>sesys := z\<rparr>)))))"
proof -
  note m = lock_bit [OF assms(5), folded assms(7)]
  obtain s1 s2 where rel: "sem_release isr e False k s = Inr (True, s1)" "sem_release isr e False k s1 = Inr (True, s2)"
    and s2: "sem_of s2 = (sem_of s)(k := (sem_of s k)\<lparr>permits := 2\<rparr>)" "spin_held s2 = spin_held s" "xEventGroup s2 = g"
      "portIS_FREE_RTOS_CORE s2" "bits g (sesys s2) = bits g (sesys s) OR m" "esys_ok (sesys s2)"
      "\<forall>x. may_block x (ekern (sesys s2)) = may_block x (ekern (sesys s))"
    using two_releases [OF assms(1-4,7) m(2) assms(6,8-11)] by blast
  have "sem_acquire_blocking k s = Inr (False, s)" using sem_acquire_blocking_eq [of s k] assms(4,6,8) by simp
  moreover have "sem_available k s2 = 2" by (simp add: sem_available_def s2(1))
  moreover have "bits g (sesys s2) AND m \<noteq> 0" using m(1) by (simp add: s2(5) bit.conj_disj_distrib2)
  moreover have "\<exists>r s3 s4. lock_wait c lock (s2\<lparr>sesys := y\<rparr>) = Inr (Some r, s3) \<and> sem_acquire_blocking k s3 = Inr (True, s4) \<and>
      sem_available k s4 = 1 \<and> sesys s4 = upd_ekern (kick c) (upd_bits g (\<lambda>b. b AND NOT m) y) \<and>
      (\<forall>z d. eruns slp (sesys s4) z \<and> bits g z AND m = 0 \<and> may_block d (ekern z) \<longrightarrow>
        sleeps_for_ever slp k lock g d (s4\<lparr>sesys := z\<rparr>))"
    if y: "eruns slp (sesys s2) y" "bits g y AND m \<noteq> 0" "may_block c (ekern y)" for y c
  proof -
    have l: "lock = spin_lock (sem_of s2 k)" "\<not> spin_held s2 lock" "permits (sem_of s2 k) = 2" using s2(1,2) assms(4,6) by simp_all
    obtain r s3 s4 where s4: "lock_wait c lock (s2\<lparr>sesys := y\<rparr>) = Inr (Some r, s3)" "sem_acquire_blocking k s3 = Inr (True, s4)"
      "sem_available k s4 = 1" "xEventGroup s4 = g" "portIS_FREE_RTOS_CORE s4" "esys_ok (sesys s4)"
      "sesys s4 = upd_ekern (kick c) (upd_bits g (\<lambda>b. b AND NOT m) y)"
      using first_wait [OF eruns_ok [OF y(1) s2(6)] y(2,3) s2(4,3) l(1,2) assms(7) l(3)] by blast
    have "sleeps_for_ever slp k lock g d (s4\<lparr>sesys := z\<rparr>)"
      if z: "eruns slp (sesys s4) z" "bits g z AND m = 0" "may_block d (ekern z)" for z d
      by (rule next_wait [OF eruns_ok [OF z(1) s4(6)] z(2,3) s4(5,4) assms(7) m(2) s4(3)])
    then show ?thesis using s4 by blast
  qed
  ultimately show ?thesis using rel s2(7) by blast
qed

text \<open>Task 1 releases both permits and goes to sleep; task 2 takes one, and task 6 sleeps beside the other.\<close>

theorem sdk_wakeup_lost_witness:
  "\<exists>s1 s2 r s3 s4 z s5. sem_acquire_blocking 0 demo_sdk = Inr (False, demo_sdk) \<and>
    sem_release (\<lambda>g v s. Inr (False, s)) 0 False 0 demo_sdk = Inr (True, s1) \<and>
    sem_release (\<lambda>g v s. Inr (False, s)) 0 False 0 s1 = Inr (True, s2) \<and>
    lock_wait 1 14 s2 = Inr (Some r, s3) \<and> sem_acquire_blocking 0 s3 = Inr (True, s4) \<and>
    eruns (\<lambda>n k. Inr k) (sesys s4) z \<and> cur (ekern z) 0 = 6 \<and>
    lock_wait 0 14 (s4\<lparr>sesys := z\<rparr>) = Inr (None, s5) \<and> sem_available 0 s5 = 1 \<and> awaits_bits 6 2 0x4000 (sesys s5)"
proof -
  let ?isr = "\<lambda>g v s. Inr (False, s)" and ?slp = "\<lambda>n k. Inr k"
  have c: "0 < configNUMBER_OF_CORES" by (simp add: configNUMBER_OF_CORES_def)
  have p: "14 = spin_lock (sem_of demo_sdk 0)" "permits (sem_of demo_sdk 0) = 0" "2 \<le> sint (max_permits (sem_of demo_sdk 0))"
    by (simp_all add: demo_sdk_same)
  have e: "esys_ok (sesys demo_sdk)" "2 = xEventGroup demo_sdk" "group_waiters 2 (ekern (sesys demo_sdk)) = []"
    using demo_esys_ok demo_group_2 by (simp_all add: demo_sdk_same)
  have l: "14 < (32::nat)" by simp
  note lost = sdk_wakeup_lost [OF e(1) demo_sdk_same(3) c p(1) l demo_sdk_same(4) refl p(2,3) e(2,3), of ?isr ?slp,
      unfolded demo_lock_bit]
  obtain s1 s2 where s2: "sem_acquire_blocking 0 demo_sdk = Inr (False, demo_sdk)"
    "sem_release ?isr 0 False 0 demo_sdk = Inr (True, s1)" "sem_release ?isr 0 False 0 s1 = Inr (True, s2)"
    "bits 2 (sesys s2) AND 0x4000 \<noteq> 0" "\<forall>x. may_block x (ekern (sesys s2)) = may_block x (ekern (sesys demo_sdk))"
    and w: "\<forall>y c. eruns ?slp (sesys s2) y \<and> bits 2 y AND 0x4000 \<noteq> 0 \<and> may_block c (ekern y) \<longrightarrow>
        (\<exists>r s3 s4. lock_wait c 14 (s2\<lparr>sesys := y\<rparr>) = Inr (Some r, s3) \<and> sem_acquire_blocking 0 s3 = Inr (True, s4) \<and>
          sem_available 0 s4 = 1 \<and> sesys s4 = upd_ekern (kick c) (upd_bits 2 (\<lambda>b. b AND NOT 0x4000) y) \<and>
          (\<forall>z d. eruns ?slp (sesys s4) z \<and> bits 2 z AND 0x4000 = 0 \<and> may_block d (ekern z) \<longrightarrow>
            sleeps_for_ever ?slp 0 14 2 d (s4\<lparr>sesys := z\<rparr>)))"
    using lost by blast
  have "may_block 1 (ekern (sesys s2))" using s2(5) demo_may_block(2) by (simp add: demo_sdk_same)
  then obtain r s3 s4 where s4: "lock_wait 1 14 (s2\<lparr>sesys := sesys s2\<rparr>) = Inr (Some r, s3)" "sem_acquire_blocking 0 s3 = Inr (True, s4)"
    "sesys s4 = upd_ekern (kick 1) (upd_bits 2 (\<lambda>b. b AND NOT 0x4000) (sesys s2))"
    and v: "\<forall>z d. eruns ?slp (sesys s4) z \<and> bits 2 z AND 0x4000 = 0 \<and> may_block d (ekern z) \<longrightarrow>
            sleeps_for_ever ?slp 0 14 2 d (s4\<lparr>sesys := z\<rparr>)"
    using w [rule_format, OF conjI [OF eruns.begins conjI [OF s2(4)]]] by blast
  have d: "sesys s4 = demo_esys" unfolding s4(3) demo_released [OF s2(2,3)] by (rule demo_bit_cleared)
  obtain z where z: "eruns ?slp (sesys s4) z" "cur (ekern z) 0 = 6" "may_block 0 (ekern z)" "bits 2 z = 0"
    using demo_task_6_runs [of ?slp] unfolding d by blast
  from v z have "sleeps_for_ever ?slp 0 14 2 0 (s4\<lparr>sesys := z\<rparr>)" by simp
  then obtain s5 where "lock_wait 0 14 (s4\<lparr>sesys := z\<rparr>) = Inr (None, s5)" "sem_available 0 s5 = 1" "awaits_bits 6 2 0x4000 (sesys s5)"
    using at_rest z(2) unfolding sleeps_for_ever_def Let_def demo_lock_bit by auto
  then show ?thesis using s2(1-3) s4(1,2) z(1,2) by fastforce
qed

end
