(* ===== verification/QueueAdmin.thy ===== *)
theory QueueAdmin
  imports QueueApi
begin

text \<open>
  The rest of \<open>queue.c\<close>: creation in memory the caller provides, the queries, queue sets as their reader uses them,
  and deletion.
\<close>

section \<open>Static creation\<close>

text \<open>\<open>buffer\<close> and \<open>pucQueueStorage\<close> are what the caller passes, \<open>None\<close> for NULL.\<close>

definition xQueueGenericCreateStatic :: "nat \<Rightarrow> nat \<Rightarrow> nat \<Rightarrow> u8 list option \<Rightarrow> ptr \<Rightarrow> qsys \<Rightarrow> fault + (ptr \<times> qsys)" where
  "xQueueGenericCreateStatic c uxQueueLength uxSize pucQueueStorage buffer s =
     (case buffer of None \<Rightarrow> Inr (None, s)
      | Some q \<Rightarrow>
          if uxQueueLength > 0 \<and> \<not> (pucQueueStorage \<noteq> None \<and> uxSize = 0) \<and> \<not> (pucQueueStorage = None \<and> uxSize \<noteq> 0) then
            bindE (prvInitialiseNewQueue c q uxQueueLength uxSize (case pucQueueStorage of None \<Rightarrow> [] | Some st \<Rightarrow> st)
              (upd_queue q (\<lambda>x. x\<lparr>ucStaticallyAllocated := True\<rparr>) s)) (\<lambda>s1. Inr (Some q, s1))
          else Inr (None, s))"

definition xQueueCreateMutexStatic :: "nat \<Rightarrow> ptr \<Rightarrow> qsys \<Rightarrow> fault + (ptr \<times> qsys)" where
  "xQueueCreateMutexStatic c buffer s =
     bindE (xQueueGenericCreateStatic c 1 0 None buffer s) (\<lambda>(p, s1).
     bindE (prvInitialiseMutex c p s1) (\<lambda>s2. Inr (p, s2)))"

definition xQueueCreateCountingSemaphoreStatic :: "nat \<Rightarrow> nat \<Rightarrow> nat \<Rightarrow> ptr \<Rightarrow> qsys \<Rightarrow> fault + (ptr \<times> qsys)" where
  "xQueueCreateCountingSemaphoreStatic c uxMaxCount uxInitialCount buffer s =
     (if uxMaxCount \<noteq> 0 \<and> uxInitialCount \<le> uxMaxCount then
        bindE (xQueueGenericCreateStatic c uxMaxCount 0 None buffer s) (\<lambda>(p, s1).
          Inr (p, case p of None \<Rightarrow> s1 | Some q \<Rightarrow> upd_queue q (\<lambda>x. x\<lparr>uxMessagesWaiting := uxInitialCount\<rparr>) s1))
      else Inr (None, s))"

text \<open>The storage area of a statically created queue; that of a semaphore is the queue itself.\<close>

definition xQueueGenericGetStaticBuffers :: "nat \<Rightarrow> qsys \<Rightarrow> (qhead \<times> nat) option" where
  "xQueueGenericGetStaticBuffers q s =
     (if ucStaticallyAllocated (queue_of s q) then Some (pcHead (queue_of s q), q) else None)"

section \<open>Queries\<close>

definition xQueueGetMutexHolder :: "nat \<Rightarrow> nat \<Rightarrow> qsys \<Rightarrow> fault + (ptr \<times> qsys)" where
  "xQueueGetMutexHolder c q = qcritical c (\<lambda>s.
     Inr (if pcHead (queue_of s q) = HeadNull then xMutexHolder (queue_of s q) else None, s))"

definition xQueueGetMutexHolderFromISR :: "nat \<Rightarrow> qsys \<Rightarrow> ptr" where
  "xQueueGetMutexHolderFromISR q s = (if pcHead (queue_of s q) = HeadNull then xMutexHolder (queue_of s q) else None)"

definition uxQueueMessagesWaitingFromISR :: "queue \<Rightarrow> nat" where
  "uxQueueMessagesWaitingFromISR x = uxMessagesWaiting x"

definition xQueueIsQueueEmptyFromISR :: "queue \<Rightarrow> bool" where
  "xQueueIsQueueEmptyFromISR x = (uxMessagesWaiting x = 0)"

definition xQueueIsQueueFullFromISR :: "queue \<Rightarrow> bool" where
  "xQueueIsQueueFullFromISR x = (uxMessagesWaiting x = uxLength x)"

definition uxQueueGetQueueItemSize :: "queue \<Rightarrow> nat" where
  "uxQueueGetQueueItemSize x = uxItemSize x"

definition uxQueueGetQueueLength :: "queue \<Rightarrow> nat" where
  "uxQueueGetQueueLength x = uxLength x"

section \<open>Queue sets and deletion\<close>

text \<open>The four bytes of a pointer, least significant first; the address 0 is NULL.\<close>

definition number_of_bytes :: "u8 list \<Rightarrow> nat" where
  "number_of_bytes bs = foldr (\<lambda>b n. unat b + 256 * n) bs 0"

definition pointer_of_bytes :: "u8 list \<Rightarrow> ptr" where
  "pointer_of_bytes bs = (let n = number_of_bytes bs in if n = 0 then None else Some n)"

definition xQueueCreateSet :: "nat \<Rightarrow> nat \<Rightarrow> nat \<Rightarrow> ptr \<Rightarrow> u8 list \<Rightarrow> qsys \<Rightarrow> fault + (ptr \<times> qsys)" where
  "xQueueCreateSet sz c uxEventQueueLength = xQueueGenericCreate sz c uxEventQueueLength 4"

definition xQueueCreateSetStatic :: "nat \<Rightarrow> nat \<Rightarrow> u8 list option \<Rightarrow> ptr \<Rightarrow> qsys \<Rightarrow> fault + (ptr \<times> qsys)" where
  "xQueueCreateSetStatic c uxEventQueueLength = xQueueGenericCreateStatic c uxEventQueueLength 4"

text \<open>The result is the queue that received data, NULL when none did.\<close>

definition xQueueSelectFromSet :: "nat \<Rightarrow> nat \<Rightarrow> waiting \<Rightarrow> qsys \<Rightarrow> fault + (ptr round \<times> qsys)" where
  "xQueueSelectFromSet c k w s =
     bindE (xQueueReceive c k w s) (\<lambda>(r, s1).
       Inr (case r of Again w' \<Rightarrow> Again w' | Returned None \<Rightarrow> Returned None
          | Returned (Some item) \<Rightarrow> Returned (pointer_of_bytes item), s1))"

definition xQueueSelectFromSetFromISR :: "nat \<Rightarrow> nat \<Rightarrow> qsys \<Rightarrow> fault + (ptr \<times> qsys)" where
  "xQueueSelectFromSetFromISR c k s =
     bindE (xQueueReceiveFromISR c k s) (\<lambda>((r, _), s1).
       Inr (case r of None \<Rightarrow> None | Some item \<Rightarrow> pointer_of_bytes item, s1))"

text \<open>Whether the memory of the queue is freed; tasks that wait for it are not looked at.\<close>

definition vQueueDelete :: "nat \<Rightarrow> qsys \<Rightarrow> bool" where
  "vQueueDelete q s = (\<not> ucStaticallyAllocated (queue_of s q))"

section \<open>Bytes and numbers\<close>

lemma number_of_bytes_simps [simp]:
  "number_of_bytes [] = 0" "number_of_bytes (b # bs) = unat b + 256 * number_of_bytes bs"
  by (simp_all add: number_of_bytes_def)

lemma number_handle: "number_of_bytes (handle_bytes n) = n mod 2 ^ 32"
proof -
  have h: "handle_bytes n = [of_nat n, of_nat (n div 256), of_nat (n div 65536), of_nat (n div 16777216)]"
    by (simp add: handle_bytes_def upt_rec)
  have "number_of_bytes (handle_bytes n) = n mod 256 + 256 * (n div 256 mod 256 + 256 * (n div 65536 mod 256 + 256 * (n div 16777216 mod 256)))"
    by (simp add: h unat_of_nat)
  also have "\<dots> = n mod 2 ^ 32"
    using div_mult_mod_eq [of n 256] div_mult_mod_eq [of "n div 256" 256] div_mult_mod_eq [of "n div 65536" 256]
      div_mult_mod_eq [of "n div 16777216" 256]
    by (simp add: mod_mult2_eq [of n 256 16777216, simplified] mod_mult2_eq [of _ 256 65536, simplified]
        mod_mult2_eq [of _ 256 256, simplified] div_mult2_eq [symmetric])
  finally show ?thesis .
qed

lemma handle_bytes_length [simp]: "length (handle_bytes n) = 4"
  by (simp add: handle_bytes_def)

lemma pointer_handle: "0 < n \<Longrightarrow> n < 2 ^ 32 \<Longrightarrow> pointer_of_bytes (handle_bytes n) = Some n"
  by (simp add: pointer_of_bytes_def number_handle)

end
