(* ===== verification/Timers.thy ===== *)
theory Timers
  imports QueueAdmin
begin

text \<open>
  Software timers (\<open>timers.c\<close>): the service task with its two lists of active timers, and the functions with which
  other tasks and interrupts send it commands through a queue.

  A \<open>Timer_t *\<close> is the number of a timer, its address.  The lists of active timers are the sequences that \<^theory_text>\<open>ListImpl\<close>
  shows the pointer structures to represent.  The functions a timer calls when it expires and the pended functions
  belong to the application: they are the parameters \<open>cb\<close> and \<open>pf\<close>, given the function pointer, the arguments and the
  state.  The trace macro \<open>traceTIMER_EXPIRED\<close> appends to the field \<open>expired\<close>, \<open>vPortFree\<close> of a timer to \<open>tm_freed\<close>.
\<close>

unbundle bit_operations_syntax

section \<open>Data\<close>

datatype tlist = TimerList1 | TimerList2

record timer =
  pcTimerName :: string
  tm_value :: u32 \<comment> \<open>\<open>xTimerListItem.xItemValue\<close>, the expiry time\<close>
  tm_container :: "tlist option" \<comment> \<open>\<open>xTimerListItem.pxContainer\<close>\<close>
  xTimerPeriodInTicks :: u32
  pvTimerID :: nat
  pxCallbackFunction :: nat
  ucStatus :: u8

record tsys =
  qs :: qsys
  timer_of :: "nat \<Rightarrow> timer"
  active :: "tlist \<Rightarrow> nat list"
  pxCurrentTimerList :: tlist
  pxOverflowTimerList :: tlist
  xTimerQueue :: ptr
  xTimerTaskHandle :: ptr
  xLastTime :: u32
  expired :: "nat list"
  tm_freed :: "nat list"

type_synonym callback = "nat \<Rightarrow> nat \<Rightarrow> tsys \<Rightarrow> fault + tsys"
type_synonym pended_function = "nat \<Rightarrow> nat \<Rightarrow> u32 \<Rightarrow> tsys \<Rightarrow> fault + tsys"

definition tmrSTATUS_IS_ACTIVE :: u8 where "tmrSTATUS_IS_ACTIVE = 1"
definition tmrSTATUS_IS_STATICALLY_ALLOCATED :: u8 where "tmrSTATUS_IS_STATICALLY_ALLOCATED = 2"
definition tmrSTATUS_IS_AUTORELOAD :: u8 where "tmrSTATUS_IS_AUTORELOAD = 4"
definition tmrMAX_TIME_BEFORE_OVERFLOW :: u32 where "tmrMAX_TIME_BEFORE_OVERFLOW = -1"

definition tmrCOMMAND_EXECUTE_CALLBACK_FROM_ISR :: int where "tmrCOMMAND_EXECUTE_CALLBACK_FROM_ISR = -2"
definition tmrCOMMAND_EXECUTE_CALLBACK :: int where "tmrCOMMAND_EXECUTE_CALLBACK = -1"
definition tmrCOMMAND_START :: int where "tmrCOMMAND_START = 1"
definition tmrCOMMAND_RESET :: int where "tmrCOMMAND_RESET = 2"
definition tmrCOMMAND_STOP :: int where "tmrCOMMAND_STOP = 3"
definition tmrCOMMAND_CHANGE_PERIOD :: int where "tmrCOMMAND_CHANGE_PERIOD = 4"
definition tmrCOMMAND_DELETE :: int where "tmrCOMMAND_DELETE = 5"
definition tmrFIRST_FROM_ISR_COMMAND :: int where "tmrFIRST_FROM_ISR_COMMAND = 6"
definition tmrCOMMAND_START_FROM_ISR :: int where "tmrCOMMAND_START_FROM_ISR = 6"
definition tmrCOMMAND_RESET_FROM_ISR :: int where "tmrCOMMAND_RESET_FROM_ISR = 7"
definition tmrCOMMAND_STOP_FROM_ISR :: int where "tmrCOMMAND_STOP_FROM_ISR = 8"
definition tmrCOMMAND_CHANGE_PERIOD_FROM_ISR :: int where "tmrCOMMAND_CHANGE_PERIOD_FROM_ISR = 9"

definition upd_timer :: "nat \<Rightarrow> (timer \<Rightarrow> timer) \<Rightarrow> tsys \<Rightarrow> tsys" where
  "upd_timer t f s = s\<lparr>timer_of := (timer_of s)(t := f (timer_of s t))\<rparr>"

definition upd_active :: "tlist \<Rightarrow> (nat list \<Rightarrow> nat list) \<Rightarrow> tsys \<Rightarrow> tsys" where
  "upd_active L f s = s\<lparr>active := (active s)(L := f (active s L))\<rparr>"

definition upd_tkern :: "(kernel \<Rightarrow> kernel) \<Rightarrow> tsys \<Rightarrow> tsys" where
  "upd_tkern f s = s\<lparr>qs := upd_kern f (qs s)\<rparr>"

definition on_qs :: "(qsys \<Rightarrow> fault + 'a \<times> qsys) \<Rightarrow> tsys \<Rightarrow> fault + 'a \<times> tsys" where
  "on_qs f s = bindE (f (qs s)) (\<lambda>(r, q). Inr (r, s\<lparr>qs := q\<rparr>))"

definition on_qs1 :: "(qsys \<Rightarrow> fault + qsys) \<Rightarrow> tsys \<Rightarrow> fault + tsys" where
  "on_qs1 f s = bindE (f (qs s)) (\<lambda>q. Inr (s\<lparr>qs := q\<rparr>))"

definition set_status :: "u8 \<Rightarrow> nat \<Rightarrow> tsys \<Rightarrow> tsys" where
  "set_status m t = upd_timer t (\<lambda>x. x\<lparr>ucStatus := ucStatus x OR m\<rparr>)"

definition clear_status :: "u8 \<Rightarrow> nat \<Rightarrow> tsys \<Rightarrow> tsys" where
  "clear_status m t = upd_timer t (\<lambda>x. x\<lparr>ucStatus := ucStatus x AND NOT m\<rparr>)"

definition has_status :: "u8 \<Rightarrow> nat \<Rightarrow> tsys \<Rightarrow> bool" where
  "has_status m t s = ((ucStatus (timer_of s t) AND m) \<noteq> 0)"

section \<open>The lists of active timers\<close>

text \<open>\<open>uxListRemove\<close> and \<open>vListInsert\<close> on the item of a timer.\<close>

definition timer_remove :: "nat \<Rightarrow> tsys \<Rightarrow> fault + tsys" where
  "timer_remove t s =
     bindE (follow (tm_container (timer_of s t))) (\<lambda>L.
       Inr (upd_timer t (\<lambda>x. x\<lparr>tm_container := None\<rparr>) (upd_active L (remove1 t) s)))"

definition timer_insert :: "tlist \<Rightarrow> nat \<Rightarrow> tsys \<Rightarrow> tsys" where
  "timer_insert L t s = upd_timer t (\<lambda>x. x\<lparr>tm_container := Some L\<rparr>)
     (upd_active L (insert_after_le (\<lambda>i. tm_value (timer_of s i)) t) s)"

text \<open>The result says that the timer is to be processed now; then it was not inserted.\<close>

definition prvInsertTimerInActiveList :: "nat \<Rightarrow> u32 \<Rightarrow> u32 \<Rightarrow> u32 \<Rightarrow> tsys \<Rightarrow> bool \<times> tsys" where
  "prvInsertTimerInActiveList t xNextExpiryTime xTimeNow xCommandTime s =
     (let s1 = upd_timer t (\<lambda>x. x\<lparr>tm_value := xNextExpiryTime\<rparr>) s in
      if xNextExpiryTime \<le> xTimeNow then
        if xTimeNow - xCommandTime \<ge> xTimerPeriodInTicks (timer_of s1 t) then (True, s1)
        else (False, timer_insert (pxOverflowTimerList s1) t s1)
      else if xTimeNow < xCommandTime \<and> xNextExpiryTime \<ge> xCommandTime then (True, s1)
      else (False, timer_insert (pxCurrentTimerList s1) t s1))"

text \<open>The callback of a timer.\<close>

definition call_back :: "callback \<Rightarrow> nat \<Rightarrow> tsys \<Rightarrow> fault + tsys" where
  "call_back cb t s = cb (pxCallbackFunction (timer_of s t)) t (s\<lparr>expired := expired s @ [t]\<rparr>)"

text \<open>The loop of \<open>prvReloadTimer\<close>.  A round advances the expiry time by the period, towards the time now, so that
  the ticks between the two bound the number of rounds.\<close>

fun reload_loop :: "nat \<Rightarrow> callback \<Rightarrow> nat \<Rightarrow> u32 \<Rightarrow> u32 \<Rightarrow> tsys \<Rightarrow> fault + tsys" where
  "reload_loop 0 cb t xExpiredTime xTimeNow s = Inl Diverges"
| "reload_loop (Suc n) cb t xExpiredTime xTimeNow s =
     (let xPeriod = xTimerPeriodInTicks (timer_of s t);
          (again, s1) = prvInsertTimerInActiveList t (xExpiredTime + xPeriod) xTimeNow xExpiredTime s
      in if again then bindE (call_back cb t s1) (reload_loop n cb t (xExpiredTime + xPeriod) xTimeNow) else Inr s1)"

definition prvReloadTimer :: "callback \<Rightarrow> nat \<Rightarrow> u32 \<Rightarrow> u32 \<Rightarrow> tsys \<Rightarrow> fault + tsys" where
  "prvReloadTimer cb t xExpiredTime xTimeNow =
     reload_loop (unat (xTimeNow - xExpiredTime) + 1) cb t xExpiredTime xTimeNow"

text \<open>What happens to a timer that has expired and is in no list: the next expiry or the end, then the callback.\<close>

definition process_timer :: "callback \<Rightarrow> nat \<Rightarrow> u32 \<Rightarrow> u32 \<Rightarrow> tsys \<Rightarrow> fault + tsys" where
  "process_timer cb t xExpiredTime xTimeNow s =
     bindE (if has_status tmrSTATUS_IS_AUTORELOAD t s then prvReloadTimer cb t xExpiredTime xTimeNow s
            else Inr (clear_status tmrSTATUS_IS_ACTIVE t s)) (call_back cb t)"

definition prvProcessExpiredTimer :: "callback \<Rightarrow> u32 \<Rightarrow> u32 \<Rightarrow> tsys \<Rightarrow> fault + tsys" where
  "prvProcessExpiredTimer cb xNextExpireTime xTimeNow s =
     (case active s (pxCurrentTimerList s) of [] \<Rightarrow> Inl NullDeref
      | t # _ \<Rightarrow> bindE (timer_remove t s) (process_timer cb t xNextExpireTime xTimeNow))"

text \<open>The loop of \<open>prvSwitchTimerLists\<close>: every round takes a timer out of the current list.\<close>

fun switch_loop :: "nat \<Rightarrow> callback \<Rightarrow> tsys \<Rightarrow> fault + tsys" where
  "switch_loop 0 cb s = (if active s (pxCurrentTimerList s) = [] then Inr s else Inl Diverges)"
| "switch_loop (Suc n) cb s =
     (case active s (pxCurrentTimerList s) of [] \<Rightarrow> Inr s
      | t # _ \<Rightarrow> bindE (prvProcessExpiredTimer cb (tm_value (timer_of s t)) tmrMAX_TIME_BEFORE_OVERFLOW s) (switch_loop n cb))"

definition prvSwitchTimerLists :: "callback \<Rightarrow> tsys \<Rightarrow> fault + tsys" where
  "prvSwitchTimerLists cb s =
     bindE (switch_loop (length (active s (pxCurrentTimerList s))) cb s) (\<lambda>s1.
       Inr (s1\<lparr>pxCurrentTimerList := pxOverflowTimerList s1, pxOverflowTimerList := pxCurrentTimerList s1\<rparr>))"

text \<open>The time, and whether the lists were switched.\<close>

definition prvSampleTimeNow :: "callback \<Rightarrow> tsys \<Rightarrow> fault + ((u32 \<times> bool) \<times> tsys)" where
  "prvSampleTimeNow cb s =
     (let xTimeNow = xTaskGetTickCount (kern (qs s)) in
      if xTimeNow < xLastTime s then
        bindE (prvSwitchTimerLists cb s) (\<lambda>s1. Inr ((xTimeNow, True), s1\<lparr>xLastTime := xTimeNow\<rparr>))
      else Inr ((xTimeNow, False), s\<lparr>xLastTime := xTimeNow\<rparr>))"

definition prvGetNextExpireTime :: "tsys \<Rightarrow> u32 \<times> bool" where
  "prvGetNextExpireTime s =
     (case active s (pxCurrentTimerList s) of [] \<Rightarrow> (0, True) | t # _ \<Rightarrow> (tm_value (timer_of s t), False))"

section \<open>Messages\<close>

text \<open>\<open>DaemonTaskMessage_t\<close>: the number of the command and a union, sixteen bytes.\<close>

datatype parameters =
    xTimerParameters u32 ptr \<comment> \<open>\<open>xMessageValue\<close>, \<open>pxTimer\<close>\<close>
  | xCallbackParameters nat nat u32 \<comment> \<open>\<open>pxCallbackFunction\<close>, \<open>pvParameter1\<close>, \<open>ulParameter2\<close>\<close>

datatype message = Message (xMessageID: int) (xMessage_u: parameters)

text \<open>The bytes of a message; \<open>junk\<close> are those of the union that the sender leaves as they were.\<close>

definition message_bytes :: "u8 list \<Rightarrow> message \<Rightarrow> u8 list" where
  "message_bytes junk m = handle_bytes (nat (xMessageID m mod 2 ^ 32)) @
     (case xMessage_u m of xTimerParameters v p \<Rightarrow> handle_bytes (unat v) @ handle_bytes (case p of None \<Rightarrow> 0 | Some t \<Rightarrow> t) @ junk
      | xCallbackParameters f a b \<Rightarrow> handle_bytes f @ handle_bytes a @ handle_bytes (unat b))"

text \<open>The receiver reads the member of the union that the sign of the command selects.\<close>

definition message_of :: "u8 list \<Rightarrow> message" where
  "message_of bs =
     (let n = number_of_bytes (take 4 bs); i = (if n < 2 ^ 31 then int n else int n - 2 ^ 32);
          w1 = number_of_bytes (take 4 (drop 4 bs)); w2 = number_of_bytes (take 4 (drop 8 bs));
          w3 = number_of_bytes (take 4 (drop 12 bs))
      in Message i (if i < 0 then xCallbackParameters w1 w2 (of_nat w3)
           else xTimerParameters (of_nat w1) (if w2 = 0 then None else Some w2)))"

section \<open>The service task\<close>

text \<open>The command \<open>i\<close> for the timer \<open>t\<close> with the value \<open>v\<close>, at the time \<open>xTimeNow\<close>.\<close>

definition timer_command :: "callback \<Rightarrow> int \<Rightarrow> u32 \<Rightarrow> nat \<Rightarrow> u32 \<Rightarrow> tsys \<Rightarrow> fault + tsys" where
  "timer_command cb i v t xTimeNow s =
     (if i \<in> {tmrCOMMAND_START, tmrCOMMAND_START_FROM_ISR, tmrCOMMAND_RESET, tmrCOMMAND_RESET_FROM_ISR} then
        let s1 = set_status tmrSTATUS_IS_ACTIVE t s;
            xPeriod = xTimerPeriodInTicks (timer_of s1 t);
            (now, s2) = prvInsertTimerInActiveList t (v + xPeriod) xTimeNow v s1
        in if now then process_timer cb t (v + xPeriod) xTimeNow s2 else Inr s2
      else if i \<in> {tmrCOMMAND_STOP, tmrCOMMAND_STOP_FROM_ISR} then Inr (clear_status tmrSTATUS_IS_ACTIVE t s)
      else if i \<in> {tmrCOMMAND_CHANGE_PERIOD, tmrCOMMAND_CHANGE_PERIOD_FROM_ISR} then
        let s1 = upd_timer t (\<lambda>x. x\<lparr>xTimerPeriodInTicks := v\<rparr>) (set_status tmrSTATUS_IS_ACTIVE t s)
        in Inr (snd (prvInsertTimerInActiveList t (xTimeNow + v) xTimeNow xTimeNow s1))
      else if i = tmrCOMMAND_DELETE then
        Inr (if \<not> has_status tmrSTATUS_IS_STATICALLY_ALLOCATED t s then s\<lparr>tm_freed := tm_freed s @ [t]\<rparr>
             else clear_status tmrSTATUS_IS_ACTIVE t s)
      else Inr s)"

text \<open>One message.\<close>

definition process_message :: "callback \<Rightarrow> pended_function \<Rightarrow> message \<Rightarrow> tsys \<Rightarrow> fault + tsys" where
  "process_message cb pf m s =
     (case xMessage_u m of
        xCallbackParameters f a b \<Rightarrow> pf f a b s
      | xTimerParameters v p \<Rightarrow> (case p of None \<Rightarrow> Inr s
          | Some t \<Rightarrow>
              bindE (if tm_container (timer_of s t) \<noteq> None then timer_remove t s else Inr s) (\<lambda>s1.
              bindE (prvSampleTimeNow cb s1) (\<lambda>((xTimeNow, _), s2). timer_command cb (xMessageID m) v t xTimeNow s2))))"

text \<open>One attempt of the service task, on core \<open>c\<close>, to receive a message, without waiting.\<close>

definition receive_message :: "nat \<Rightarrow> tsys \<Rightarrow> fault + (message option \<times> tsys)" where
  "receive_message c s =
     bindE (follow (xTimerQueue s)) (\<lambda>q.
     bindE (on_qs (xQueueReceive c q (wait_for 0)) s) (\<lambda>(r, s1).
       Inr (case r of Returned (Some bs) \<Rightarrow> Some (message_of bs) | _ \<Rightarrow> None, s1)))"

text \<open>The loop of \<open>prvProcessReceivedCommands\<close>, which ends only when the queue is found empty.\<close>

partial_function (option) prvProcessReceivedCommands :: "callback \<Rightarrow> pended_function \<Rightarrow> nat \<Rightarrow> tsys \<Rightarrow> (fault + tsys) option" where
  "prvProcessReceivedCommands cb pf c s =
     (case receive_message c s of Inl e \<Rightarrow> Some (Inl e)
      | Inr (None, s1) \<Rightarrow> Some (Inr s1)
      | Inr (Some m, s1) \<Rightarrow> (case process_message cb pf m s1 of Inl e \<Rightarrow> Some (Inl e)
          | Inr s2 \<Rightarrow> prvProcessReceivedCommands cb pf c s2))"

text \<open>The wait of \<open>prvProcessTimerOrBlockTask\<close>, with the scheduler suspended.\<close>

definition block_for_message :: "nat \<Rightarrow> u32 \<Rightarrow> bool \<Rightarrow> tsys \<Rightarrow> fault + tsys" where
  "block_for_message c ticks indefinitely s =
     bindE (follow (xTimerQueue s)) (\<lambda>q.
     bindE (on_qs1 (vQueueWaitForMessageRestricted c q ticks indefinitely) s) (\<lambda>s1.
     bindE (on_qs (on_kern (xTaskResumeAll c)) s1) (\<lambda>(yielded, s2).
       Inr (if yielded then s2 else upd_tkern (vTaskYieldWithinAPI c) s2))))"

definition prvProcessTimerOrBlockTask :: "callback \<Rightarrow> nat \<Rightarrow> u32 \<Rightarrow> bool \<Rightarrow> tsys \<Rightarrow> fault + tsys" where
  "prvProcessTimerOrBlockTask cb c xNextExpireTime xListWasEmpty s =
     bindE (prvSampleTimeNow cb (upd_tkern vTaskSuspendAll s)) (\<lambda>((xTimeNow, switched), s1).
       if switched then bindE (on_qs (on_kern (xTaskResumeAll c)) s1) (\<lambda>(_, s2). Inr s2)
       else if \<not> xListWasEmpty \<and> xNextExpireTime \<le> xTimeNow then
         bindE (on_qs (on_kern (xTaskResumeAll c)) s1) (\<lambda>(_, s2). prvProcessExpiredTimer cb xNextExpireTime xTimeNow s2)
       else block_for_message c (xNextExpireTime - xTimeNow)
              (xListWasEmpty \<and> active s1 (pxOverflowTimerList s1) = []) s1)"

text \<open>One round of \<open>prvTimerTask\<close> up to the commands, which follow when the task runs again.\<close>

definition prvTimerTask :: "callback \<Rightarrow> nat \<Rightarrow> tsys \<Rightarrow> fault + tsys" where
  "prvTimerTask cb c s =
     (let (xNextExpireTime, xListWasEmpty) = prvGetNextExpireTime s
      in prvProcessTimerOrBlockTask cb c xNextExpireTime xListWasEmpty s)"

section \<open>Creation\<close>

definition configTIMER_QUEUE_LENGTH :: nat where "configTIMER_QUEUE_LENGTH = 10"

text \<open>\<open>tq\<close> is the static queue \<open>xStaticTimerQueue\<close>.\<close>

definition prvCheckForValidListAndQueue :: "nat \<Rightarrow> nat \<Rightarrow> tsys \<Rightarrow> fault + tsys" where
  "prvCheckForValidListAndQueue tq c s =
     (let s1 = upd_tkern (vTaskEnterCritical c) s in
      bindE (if xTimerQueue s1 = None then
          let s2 = s1\<lparr>active := (\<lambda>_. []), pxCurrentTimerList := TimerList1, pxOverflowTimerList := TimerList2\<rparr> in
          bindE (on_qs (xQueueGenericCreateStatic c configTIMER_QUEUE_LENGTH 16
            (Some (replicate (configTIMER_QUEUE_LENGTH * 16) 0)) (Some tq)) s2) (\<lambda>(p, s3). Inr (s3\<lparr>xTimerQueue := p\<rparr>))
        else Inr s1) (\<lambda>s4. Inr (upd_tkern (vTaskExitCritical c) s4)))"

definition prvInitialiseNewTimer :: "nat \<Rightarrow> nat \<Rightarrow> string \<Rightarrow> u32 \<Rightarrow> bool \<Rightarrow> nat \<Rightarrow> nat \<Rightarrow> nat \<Rightarrow> tsys \<Rightarrow> fault + tsys" where
  "prvInitialiseNewTimer tq c name period xAutoReload timerID fnc t s =
     bindE (prvCheckForValidListAndQueue tq c s) (\<lambda>s1.
       let s2 = upd_timer t (\<lambda>x. x\<lparr>pcTimerName := name, xTimerPeriodInTicks := period, pvTimerID := timerID,
                  pxCallbackFunction := fnc, tm_container := None\<rparr>) s1
       in Inr (if xAutoReload then set_status tmrSTATUS_IS_AUTORELOAD t s2 else s2))"

definition xTimerCreate :: "nat \<Rightarrow> nat \<Rightarrow> string \<Rightarrow> u32 \<Rightarrow> bool \<Rightarrow> nat \<Rightarrow> nat \<Rightarrow> ptr \<Rightarrow> tsys \<Rightarrow> fault + (ptr \<times> tsys)" where
  "xTimerCreate tq c name period xAutoReload timerID fnc mem s =
     (case mem of None \<Rightarrow> Inr (None, s)
      | Some t \<Rightarrow> bindE (prvInitialiseNewTimer tq c name period xAutoReload timerID fnc t
          (upd_timer t (\<lambda>x. x\<lparr>ucStatus := 0\<rparr>) s)) (\<lambda>s1. Inr (Some t, s1)))"

definition xTimerCreateStatic :: "nat \<Rightarrow> nat \<Rightarrow> string \<Rightarrow> u32 \<Rightarrow> bool \<Rightarrow> nat \<Rightarrow> nat \<Rightarrow> ptr \<Rightarrow> tsys \<Rightarrow> fault + (ptr \<times> tsys)" where
  "xTimerCreateStatic tq c name period xAutoReload timerID fnc buffer s =
     (case buffer of None \<Rightarrow> Inr (None, s)
      | Some t \<Rightarrow> bindE (prvInitialiseNewTimer tq c name period xAutoReload timerID fnc t
          (upd_timer t (\<lambda>x. x\<lparr>ucStatus := tmrSTATUS_IS_STATICALLY_ALLOCATED\<rparr>) s)) (\<lambda>s1. Inr (Some t, s1)))"

text \<open>\<open>tmr\<close> is the static TCB of the service task.\<close>

definition xTimerCreateTimerTask :: "nat \<Rightarrow> nat \<Rightarrow> nat \<Rightarrow> tsys \<Rightarrow> fault + (bool \<times> tsys)" where
  "xTimerCreateTimerTask tq c tmr s =
     bindE (prvCheckForValidListAndQueue tq c s) (\<lambda>s1.
       if xTimerQueue s1 \<noteq> None then
         bindE (on_qs1 (on_kern1 (create_with_affinity c False ''Tmr Svc'' (of_nat (configMAX_PRIORITIES - 1))
           configTASK_DEFAULT_CORE_AFFINITY tmr)) s1) (\<lambda>s2. Inr (True, s2\<lparr>xTimerTaskHandle := Some tmr\<rparr>))
       else Inr (False, s1))"

section \<open>Commands\<close>

datatype scheduler_state = taskSCHEDULER_NOT_STARTED | taskSCHEDULER_RUNNING | taskSCHEDULER_SUSPENDED

definition xTaskGetSchedulerState :: "kernel \<Rightarrow> scheduler_state" where
  "xTaskGetSchedulerState k =
     (if \<not> xSchedulerRunning k then taskSCHEDULER_NOT_STARTED
      else if uxSchedulerSuspended k = 0 then taskSCHEDULER_RUNNING else taskSCHEDULER_SUSPENDED)"

text \<open>A round of the blocking send; \<open>w\<close> is what the last round left, \<open>wait_for\<close> the ticks to wait at first.\<close>

definition xTimerGenericCommandFromTask ::
  "nat \<Rightarrow> u8 list \<Rightarrow> ptr \<Rightarrow> int \<Rightarrow> u32 \<Rightarrow> waiting \<Rightarrow> tsys \<Rightarrow> fault + (bool round \<times> tsys)" where
  "xTimerGenericCommandFromTask c junk xTimer xCommandID xOptionalValue w s =
     (case (xTimerQueue s, xTimer) of
        (Some q, Some t) \<Rightarrow>
          if xCommandID < tmrFIRST_FROM_ISR_COMMAND then
            on_qs (xQueueGenericSend c q (message_bytes junk (Message xCommandID (xTimerParameters xOptionalValue (Some t))))
              queueSEND_TO_BACK (if xTaskGetSchedulerState (kern (qs s)) = taskSCHEDULER_RUNNING then w else wait_for 0)) s
          else Inr (Returned False, s)
      | _ \<Rightarrow> Inr (Returned False, s))"

definition xTimerGenericCommandFromISR ::
  "nat \<Rightarrow> u8 list \<Rightarrow> ptr \<Rightarrow> int \<Rightarrow> u32 \<Rightarrow> tsys \<Rightarrow> fault + ((bool \<times> bool) \<times> tsys)" where
  "xTimerGenericCommandFromISR c junk xTimer xCommandID xOptionalValue s =
     (case (xTimerQueue s, xTimer) of
        (Some q, Some t) \<Rightarrow>
          if xCommandID \<ge> tmrFIRST_FROM_ISR_COMMAND then
            on_qs (xQueueGenericSendFromISR c q (message_bytes junk (Message xCommandID (xTimerParameters xOptionalValue (Some t))))
              queueSEND_TO_BACK) s
          else Inr ((False, False), s)
      | _ \<Rightarrow> Inr ((False, False), s))"

definition xTimerPendFunctionCall :: "nat \<Rightarrow> nat \<Rightarrow> nat \<Rightarrow> u32 \<Rightarrow> waiting \<Rightarrow> tsys \<Rightarrow> fault + (bool round \<times> tsys)" where
  "xTimerPendFunctionCall c xFunctionToPend pvParameter1 ulParameter2 w s =
     bindE (follow (xTimerQueue s)) (\<lambda>q.
       on_qs (xQueueGenericSend c q (message_bytes [] (Message tmrCOMMAND_EXECUTE_CALLBACK
         (xCallbackParameters xFunctionToPend pvParameter1 ulParameter2))) queueSEND_TO_BACK w) s)"

definition xTimerPendFunctionCallFromISR :: "nat \<Rightarrow> nat \<Rightarrow> nat \<Rightarrow> u32 \<Rightarrow> tsys \<Rightarrow> fault + ((bool \<times> bool) \<times> tsys)" where
  "xTimerPendFunctionCallFromISR c xFunctionToPend pvParameter1 ulParameter2 s =
     bindE (follow (xTimerQueue s)) (\<lambda>q.
       on_qs (xQueueGenericSendFromISR c q (message_bytes [] (Message tmrCOMMAND_EXECUTE_CALLBACK_FROM_ISR
         (xCallbackParameters xFunctionToPend pvParameter1 ulParameter2))) queueSEND_TO_BACK) s)"

text \<open>The commands of \<open>timers.h\<close>; starting and resetting carry the time at which they were issued.\<close>

definition xTimerStart :: "nat \<Rightarrow> u8 list \<Rightarrow> ptr \<Rightarrow> waiting \<Rightarrow> tsys \<Rightarrow> fault + (bool round \<times> tsys)" where
  "xTimerStart c junk xTimer w s =
     xTimerGenericCommandFromTask c junk xTimer tmrCOMMAND_START (xTaskGetTickCount (kern (qs s))) w s"

definition xTimerStop :: "nat \<Rightarrow> u8 list \<Rightarrow> ptr \<Rightarrow> waiting \<Rightarrow> tsys \<Rightarrow> fault + (bool round \<times> tsys)" where
  "xTimerStop c junk xTimer = xTimerGenericCommandFromTask c junk xTimer tmrCOMMAND_STOP 0"

definition xTimerChangePeriod :: "nat \<Rightarrow> u8 list \<Rightarrow> ptr \<Rightarrow> u32 \<Rightarrow> waiting \<Rightarrow> tsys \<Rightarrow> fault + (bool round \<times> tsys)" where
  "xTimerChangePeriod c junk xTimer = xTimerGenericCommandFromTask c junk xTimer tmrCOMMAND_CHANGE_PERIOD"

definition xTimerDelete :: "nat \<Rightarrow> u8 list \<Rightarrow> ptr \<Rightarrow> waiting \<Rightarrow> tsys \<Rightarrow> fault + (bool round \<times> tsys)" where
  "xTimerDelete c junk xTimer = xTimerGenericCommandFromTask c junk xTimer tmrCOMMAND_DELETE 0"

definition xTimerReset :: "nat \<Rightarrow> u8 list \<Rightarrow> ptr \<Rightarrow> waiting \<Rightarrow> tsys \<Rightarrow> fault + (bool round \<times> tsys)" where
  "xTimerReset c junk xTimer w s =
     xTimerGenericCommandFromTask c junk xTimer tmrCOMMAND_RESET (xTaskGetTickCount (kern (qs s))) w s"

text \<open>The same for interrupts.\<close>

definition xTaskGetTickCountFromISR :: "kernel \<Rightarrow> u32" where
  "xTaskGetTickCountFromISR k = xTickCount k"

definition xTimerStartFromISR :: "nat \<Rightarrow> u8 list \<Rightarrow> ptr \<Rightarrow> tsys \<Rightarrow> fault + ((bool \<times> bool) \<times> tsys)" where
  "xTimerStartFromISR c junk xTimer s =
     xTimerGenericCommandFromISR c junk xTimer tmrCOMMAND_START_FROM_ISR (xTaskGetTickCountFromISR (kern (qs s))) s"

definition xTimerStopFromISR :: "nat \<Rightarrow> u8 list \<Rightarrow> ptr \<Rightarrow> tsys \<Rightarrow> fault + ((bool \<times> bool) \<times> tsys)" where
  "xTimerStopFromISR c junk xTimer = xTimerGenericCommandFromISR c junk xTimer tmrCOMMAND_STOP_FROM_ISR 0"

definition xTimerChangePeriodFromISR :: "nat \<Rightarrow> u8 list \<Rightarrow> ptr \<Rightarrow> u32 \<Rightarrow> tsys \<Rightarrow> fault + ((bool \<times> bool) \<times> tsys)" where
  "xTimerChangePeriodFromISR c junk xTimer = xTimerGenericCommandFromISR c junk xTimer tmrCOMMAND_CHANGE_PERIOD_FROM_ISR"

definition xTimerResetFromISR :: "nat \<Rightarrow> u8 list \<Rightarrow> ptr \<Rightarrow> tsys \<Rightarrow> fault + ((bool \<times> bool) \<times> tsys)" where
  "xTimerResetFromISR c junk xTimer s =
     xTimerGenericCommandFromISR c junk xTimer tmrCOMMAND_RESET_FROM_ISR (xTaskGetTickCountFromISR (kern (qs s))) s"

section \<open>Properties of a timer\<close>

definition xTimerGetTimerDaemonTaskHandle :: "tsys \<Rightarrow> ptr" where
  "xTimerGetTimerDaemonTaskHandle s = xTimerTaskHandle s"

definition xTimerGetPeriod :: "nat \<Rightarrow> tsys \<Rightarrow> u32" where
  "xTimerGetPeriod t s = xTimerPeriodInTicks (timer_of s t)"

definition vTimerSetReloadMode :: "nat \<Rightarrow> nat \<Rightarrow> bool \<Rightarrow> tsys \<Rightarrow> tsys" where
  "vTimerSetReloadMode c t xAutoReload s =
     upd_tkern (vTaskExitCritical c) ((if xAutoReload then set_status tmrSTATUS_IS_AUTORELOAD t
       else clear_status tmrSTATUS_IS_AUTORELOAD t) (upd_tkern (vTaskEnterCritical c) s))"

text \<open>Reading a field in a critical section of core \<open>c\<close>, the end of which lets a pending yield happen.\<close>

definition in_section :: "nat \<Rightarrow> (tsys \<Rightarrow> 'a) \<Rightarrow> tsys \<Rightarrow> 'a \<times> tsys" where
  "in_section c f s = (let s1 = upd_tkern (vTaskEnterCritical c) s in (f s1, upd_tkern (vTaskExitCritical c) s1))"

definition xTimerGetReloadMode :: "nat \<Rightarrow> nat \<Rightarrow> tsys \<Rightarrow> bool \<times> tsys" where
  "xTimerGetReloadMode c t = in_section c (has_status tmrSTATUS_IS_AUTORELOAD t)"

definition uxTimerGetReloadMode :: "nat \<Rightarrow> nat \<Rightarrow> tsys \<Rightarrow> nat \<times> tsys" where
  "uxTimerGetReloadMode c t s = (let (b, s1) = xTimerGetReloadMode c t s in (if b then 1 else 0, s1))"

definition xTimerGetExpiryTime :: "nat \<Rightarrow> tsys \<Rightarrow> u32" where
  "xTimerGetExpiryTime t s = tm_value (timer_of s t)"

definition xTimerGetStaticBuffer :: "nat \<Rightarrow> tsys \<Rightarrow> ptr" where
  "xTimerGetStaticBuffer t s = (if has_status tmrSTATUS_IS_STATICALLY_ALLOCATED t s then Some t else None)"

definition pcTimerGetName :: "nat \<Rightarrow> tsys \<Rightarrow> string" where
  "pcTimerGetName t s = pcTimerName (timer_of s t)"

definition xTimerIsTimerActive :: "nat \<Rightarrow> nat \<Rightarrow> tsys \<Rightarrow> bool \<times> tsys" where
  "xTimerIsTimerActive c t = in_section c (has_status tmrSTATUS_IS_ACTIVE t)"

definition pvTimerGetTimerID :: "nat \<Rightarrow> nat \<Rightarrow> tsys \<Rightarrow> nat \<times> tsys" where
  "pvTimerGetTimerID c t = in_section c (\<lambda>s. pvTimerID (timer_of s t))"

definition vTimerSetTimerID :: "nat \<Rightarrow> nat \<Rightarrow> nat \<Rightarrow> tsys \<Rightarrow> tsys" where
  "vTimerSetTimerID c t pvNewID s =
     upd_tkern (vTaskExitCritical c) (upd_timer t (\<lambda>x. x\<lparr>pvTimerID := pvNewID\<rparr>) (upd_tkern (vTaskEnterCritical c) s))"

definition vTimerResetState :: "tsys \<Rightarrow> tsys" where
  "vTimerResetState s = s\<lparr>xTimerQueue := None, xTimerTaskHandle := None\<rparr>"

end
