(* ===== verification/TimerProps.thy ===== *)
theory TimerProps
  imports Timers KernelInv
begin

text \<open>
  The lists of active timers against a clock that does not wrap around.  A time is a natural number, \<open>of_nat\<close> of it
  what the kernel counts; the expiry times in the current list belong to the epoch of the last sample of the clock,
  those in the overflow list to the next one.
\<close>

unbundle bit_operations_syntax

section \<open>The clock\<close>

lemma div_step:
  fixes a k :: nat
  assumes "k < 4294967296"
  shows "(a + k) div 4294967296 = a div 4294967296 \<and> (a + k) mod 4294967296 = a mod 4294967296 + k \<or>
    (a + k) div 4294967296 = a div 4294967296 + 1 \<and> (a + k) mod 4294967296 + 4294967296 = a mod 4294967296 + k"
proof -
  have "(a + k) div 4294967296 = a div 4294967296 \<or> (a + k) div 4294967296 = a div 4294967296 + 1"
    using assms by linarith
  then show ?thesis using div_mult_mod_eq [of a 4294967296] div_mult_mod_eq [of "a + k" 4294967296] by linarith
qed

text \<open>The decision of the code, with \<open>k\<close> ticks between the command and now, in numbers.\<close>

lemma decide:
  fixes c n e k P w :: nat
  assumes "qn = qc \<and> n = c + k \<or> qn = qc + 1 \<and> n + w = c + k" "qe = qc \<and> e = c + P \<or> qe = qc + 1 \<and> e + w = c + P"
    and "c < w" "n < w" "e < w" "0 < P" "P < w" "k < (w :: nat)"
  shows "P \<le> k \<longleftrightarrow> (if e \<le> n then P \<le> k else n < c \<and> c \<le> e)" and "k < P \<Longrightarrow> qe = (qn :: nat) \<longleftrightarrow> n < e"
  using assms by (auto split: if_split)

definition epoch :: "nat \<Rightarrow> nat" where "epoch T = T div 2 ^ 32"

lemma unat_clock: "unat (of_nat T :: u32) = T mod 4294967296"
  by (simp add: unat_of_nat)

lemma clock_diff: "(of_nat (C + k) :: u32) - of_nat C = of_nat k"
  by simp

lemma clock_less:
  assumes "k < 2 ^ 32"
  shows "(of_nat (a + k) :: u32) < of_nat a \<longleftrightarrow> epoch (a + k) \<noteq> epoch a"
  using div_step [of k a] assms mod_less_divisor [of 4294967296 "a + k"]
  unfolding word_less_nat_alt unat_clock epoch_def by (auto simp del: mod_less_divisor)

text \<open>When a timer with period \<open>P\<close> is started at \<open>C\<close> and the time now is \<open>C + k\<close>.\<close>

lemma insertion_test:
  fixes C :: nat
  assumes "k < 2 ^ 32" "0 < P" "P < 2 ^ 32"
  defines "e \<equiv> of_nat (C + P) :: u32" and "n \<equiv> of_nat (C + k) :: u32" and "c \<equiv> of_nat C :: u32"
  shows "P \<le> k \<longleftrightarrow> (if e \<le> n then n - c \<ge> of_nat P else n < c \<and> e \<ge> c)"
    and "k < P \<Longrightarrow> epoch (C + P) = epoch (C + k) \<longleftrightarrow> n < e"
proof -
  have u: "unat (of_nat P :: u32) = P" "unat (n - c) = k"
    using assms(1,3) unfolding n_def c_def clock_diff by (simp_all add: unat_clock)
  have p: "P < 4294967296" "k < 4294967296" using assms(1,3) by simp_all
  note d = decide [OF div_step [OF p(2), of C] div_step [OF p(1), of C] _ _ _ assms(2) p]
  show "P \<le> k \<longleftrightarrow> (if e \<le> n then n - c \<ge> of_nat P else n < c \<and> e \<ge> c)"
    unfolding word_le_nat_alt word_less_nat_alt u unfolding e_def n_def c_def unat_clock by (rule d(1)) simp_all
  show "k < P \<Longrightarrow> epoch (C + P) = epoch (C + k) \<longleftrightarrow> n < e"
    unfolding word_less_nat_alt epoch_def unfolding e_def n_def unat_clock by (simp add: d(2))
qed

section \<open>What callbacks leave alone\<close>

text \<open>A callback runs in the service task.  It may use queues and the kernel, and change the identity and the reload
  mode of timers, but only the service task itself uses the lists.  \<open>A\<close> are the timers whose mode it leaves.\<close>

definition same_timer :: "bool \<Rightarrow> timer \<Rightarrow> timer \<Rightarrow> bool" where
  "same_timer m x y \<longleftrightarrow> tm_value y = tm_value x \<and> tm_container y = tm_container x \<and>
     xTimerPeriodInTicks y = xTimerPeriodInTicks x \<and> pxCallbackFunction y = pxCallbackFunction x \<and>
     ucStatus y AND NOT tmrSTATUS_IS_AUTORELOAD = ucStatus x AND NOT tmrSTATUS_IS_AUTORELOAD \<and>
     (m \<longrightarrow> ucStatus y = ucStatus x)"

definition tframe :: "tsys \<Rightarrow> tsys \<Rightarrow> bool" where
  "tframe s s' \<longleftrightarrow> pxCurrentTimerList s' = pxCurrentTimerList s \<and> pxOverflowTimerList s' = pxOverflowTimerList s \<and>
     xTimerQueue s' = xTimerQueue s \<and> xLastTime s' = xLastTime s \<and> tm_freed s' = tm_freed s"

definition undisturbed :: "nat set \<Rightarrow> tsys \<Rightarrow> tsys \<Rightarrow> bool" where
  "undisturbed A s s' \<longleftrightarrow> tframe s s' \<and> active s' = active s \<and> expired s' = expired s \<and>
     (\<forall>t. same_timer (t \<in> A) (timer_of s t) (timer_of s' t))"

definition polite :: "nat set \<Rightarrow> (qsys \<Rightarrow> bool) \<Rightarrow> callback \<Rightarrow> bool" where
  "polite A I cb \<longleftrightarrow> (\<forall>f t s. I (qs s) \<longrightarrow> ensures (cb f t s) (\<lambda>s'. undisturbed A s s' \<and> I (qs s')))"

lemma same_timer_refl [simp]: "same_timer m x x"
  by (simp add: same_timer_def)

lemma same_timer_trans [trans]: "same_timer m x y \<Longrightarrow> same_timer m y z \<Longrightarrow> same_timer m x z"
  by (simp add: same_timer_def)

lemma same_timer_upd: "same_timer m x y \<Longrightarrow> same_timer m (x\<lparr>tm_value := v, tm_container := c\<rparr>) (y\<lparr>tm_value := v, tm_container := c\<rparr>)"
  by (simp add: same_timer_def)

lemma tframe_refl [simp]: "tframe s s"
  by (simp add: tframe_def)

lemma tframe_trans [trans]: "tframe s s1 \<Longrightarrow> tframe s1 s2 \<Longrightarrow> tframe s s2"
  by (simp add: tframe_def)

lemma undisturbed_refl [simp]: "undisturbed A s s"
  by (simp add: undisturbed_def)

lemma upd_timer_simps [simp]:
  "timer_of (upd_timer t f s) u = (if u = t then f (timer_of s t) else timer_of s u)" "active (upd_timer t f s) = active s"
  "qs (upd_timer t f s) = qs s" "pxCurrentTimerList (upd_timer t f s) = pxCurrentTimerList s"
  "pxOverflowTimerList (upd_timer t f s) = pxOverflowTimerList s" "xTimerQueue (upd_timer t f s) = xTimerQueue s"
  "xLastTime (upd_timer t f s) = xLastTime s" "expired (upd_timer t f s) = expired s" "tm_freed (upd_timer t f s) = tm_freed s"
  by (simp_all add: upd_timer_def)

lemma upd_active_simps [simp]:
  "active (upd_active L f s) l = (if l = L then f (active s L) else active s l)" "timer_of (upd_active L f s) = timer_of s"
  "qs (upd_active L f s) = qs s" "pxCurrentTimerList (upd_active L f s) = pxCurrentTimerList s"
  "pxOverflowTimerList (upd_active L f s) = pxOverflowTimerList s" "xTimerQueue (upd_active L f s) = xTimerQueue s"
  "xLastTime (upd_active L f s) = xLastTime s" "expired (upd_active L f s) = expired s" "tm_freed (upd_active L f s) = tm_freed s"
  by (simp_all add: upd_active_def)

lemma upd_tkern_simps [simp]:
  "timer_of (upd_tkern f s) = timer_of s" "active (upd_tkern f s) = active s" "qs (upd_tkern f s) = upd_kern f (qs s)"
  "pxCurrentTimerList (upd_tkern f s) = pxCurrentTimerList s" "pxOverflowTimerList (upd_tkern f s) = pxOverflowTimerList s"
  "xTimerQueue (upd_tkern f s) = xTimerQueue s" "xLastTime (upd_tkern f s) = xLastTime s"
  "expired (upd_tkern f s) = expired s" "tm_freed (upd_tkern f s) = tm_freed s"
  by (simp_all add: upd_tkern_def)

lemma undisturbed_upd_tkern [simp]: "undisturbed A s (upd_tkern f s)"
  by (simp add: undisturbed_def tframe_def)

text \<open>The functions of \<open>timers.c\<close> that a callback may call are of this kind.\<close>

lemma status_without:
  fixes x :: u8
  shows "(x AND NOT m) AND NOT m = x AND NOT m" "(x OR m) AND NOT m = x AND NOT m"
  by (rule bit_eqI, auto simp: bit_simps)+

lemma undisturbed_set_id: "undisturbed A s (vTimerSetTimerID c t i s)"
  by (simp add: vTimerSetTimerID_def undisturbed_def tframe_def same_timer_def)

lemma undisturbed_set_mode: "t \<notin> A \<Longrightarrow> undisturbed A s (vTimerSetReloadMode c t b s)"
  by (simp add: vTimerSetReloadMode_def set_status_def clear_status_def undisturbed_def tframe_def same_timer_def status_without)

lemma undisturbed_on_qs: "on_qs f s = Inr (r, s') \<Longrightarrow> undisturbed A s s'"
  by (auto simp: on_qs_def undisturbed_def tframe_def)

lemma undisturbed_command: "xTimerGenericCommandFromTask c j p i v w s = Inr (r, s') \<Longrightarrow> undisturbed A s s'"
  by (auto simp: xTimerGenericCommandFromTask_def undisturbed_on_qs split: option.splits if_splits)

lemma undisturbed_pend: "xTimerPendFunctionCall c f a b w s = Inr (r, s') \<Longrightarrow> undisturbed A s s'"
  by (auto simp: xTimerPendFunctionCall_def undisturbed_on_qs)

section \<open>Putting a timer into the lists\<close>

definition list_for :: "nat \<Rightarrow> nat \<Rightarrow> tsys \<Rightarrow> tlist" where
  "list_for E N s = (if epoch E = epoch N then pxCurrentTimerList s else pxOverflowTimerList s)"

lemma insert_now:
  assumes "k < 2 ^ 32" "xTimerPeriodInTicks (timer_of s t) = of_nat P" "0 < P" "P < 2 ^ 32"
  shows "P \<le> k \<Longrightarrow> prvInsertTimerInActiveList t (of_nat (C + P)) (of_nat (C + k)) (of_nat C) s =
      (True, upd_timer t (\<lambda>x. x\<lparr>tm_value := of_nat (C + P)\<rparr>) s)"
    and "k < P \<Longrightarrow> prvInsertTimerInActiveList t (of_nat (C + P)) (of_nat (C + k)) (of_nat C) s =
      (False, timer_insert (list_for (C + P) (C + k) s) t (upd_timer t (\<lambda>x. x\<lparr>tm_value := of_nat (C + P)\<rparr>) s))"
  using insertion_test [OF assms(1,3,4), of C] assms(2)
  by (auto simp: prvInsertTimerInActiveList_def Let_def list_for_def not_le split: if_splits)

text \<open>Timer \<open>t\<close>, in no list so far, is now to expire at \<open>E\<close>, after \<open>n\<close> calls of its callback.\<close>

definition scheduled :: "nat set \<Rightarrow> nat \<Rightarrow> nat \<Rightarrow> nat \<Rightarrow> nat \<Rightarrow> tsys \<Rightarrow> tsys \<Rightarrow> bool" where
  "scheduled A t E N n s s' \<longleftrightarrow> (let L = list_for E N s in
     tframe s s' \<and> (\<forall>u. u \<noteq> t \<longrightarrow> same_timer (u \<in> A) (timer_of s u) (timer_of s' u)) \<and>
     same_timer (t \<in> A) ((timer_of s t)\<lparr>tm_value := of_nat E, tm_container := Some L\<rparr>) (timer_of s' t) \<and>
     active s' = (active s)(L := insert_after_le (\<lambda>i. tm_value (timer_of s' i)) t (active s L)) \<and>
     expired s' = expired s @ replicate n t)"

lemma scheduled_insert:
  "scheduled A t E N 0 s (timer_insert (list_for E N s) t (upd_timer t (\<lambda>x. x\<lparr>tm_value := of_nat E\<rparr>) s))"
  by (auto simp: scheduled_def timer_insert_def tframe_def same_timer_def Let_def fun_eq_iff insert_after_le_def if_distrib cong: if_cong)

text \<open>Before \<open>t\<close> is put into a list its item does not matter.\<close>

definition prepared :: "nat set \<Rightarrow> nat \<Rightarrow> nat list \<Rightarrow> tsys \<Rightarrow> tsys \<Rightarrow> bool" where
  "prepared A t es s s' \<longleftrightarrow> tframe s s' \<and> active s' = active s \<and> expired s' = expired s @ es \<and>
     (\<forall>u. u \<noteq> t \<longrightarrow> same_timer (u \<in> A) (timer_of s u) (timer_of s' u)) \<and>
     (\<forall>v c. same_timer (t \<in> A) ((timer_of s t)\<lparr>tm_value := v, tm_container := c\<rparr>) ((timer_of s' t)\<lparr>tm_value := v, tm_container := c\<rparr>))"

lemma prepared_scheduled:
  assumes "prepared A t (replicate m t) s s1" "scheduled A t E N n s1 s'"
  shows "scheduled A t E N (m + n) s s'"
proof -
  have l: "list_for E N s1 = list_for E N s" using assms(1) by (simp add: prepared_def tframe_def list_for_def)
  have "same_timer (u \<in> A) (timer_of s u) (timer_of s' u)" if "u \<noteq> t" for u
    using assms that same_timer_trans by (fastforce simp: prepared_def scheduled_def Let_def)
  moreover have "tframe s s'" using assms tframe_trans by (fastforce simp: prepared_def scheduled_def Let_def)
  moreover have "same_timer (t \<in> A) ((timer_of s t)\<lparr>tm_value := of_nat E, tm_container := Some (list_for E N s)\<rparr>) (timer_of s' t)"
    using assms same_timer_trans unfolding prepared_def scheduled_def Let_def l by blast
  ultimately show ?thesis using assms unfolding prepared_def scheduled_def Let_def l
    by (simp add: replicate_add)
qed

lemma undisturbed_prepared: "undisturbed A s s' \<Longrightarrow> prepared A t [] s s'"
  by (simp add: undisturbed_def prepared_def same_timer_upd)

section \<open>Timers that have expired\<close>

lemma call_back_ok:
  assumes "polite A I cb" "I (qs s)"
  shows "ensures (call_back cb t s) (\<lambda>s'. undisturbed A (s\<lparr>expired := expired s @ [t]\<rparr>) s' \<and> I (qs s'))"
  using assms by (simp add: polite_def call_back_def)

lemma prepared_refl: "prepared A t [] s s"
  by (simp add: prepared_def)

lemma prepared_value: "prepared A t [] s (upd_timer t (\<lambda>x. x\<lparr>tm_value := v\<rparr>) s)"
  by (simp add: prepared_def tframe_def same_timer_def)

lemma prepared_called:
  assumes "prepared A t es s s1" "undisturbed A (s1\<lparr>expired := expired s1 @ [t]\<rparr>) s2"
  shows "prepared A t (es @ [t]) s s2"
proof -
  have u: "same_timer (u \<in> A) (timer_of s1 u) (timer_of s2 u)" for u using assms(2) by (simp add: undisturbed_def)
  have "same_timer (u \<in> A) (timer_of s u) (timer_of s2 u)" if "u \<noteq> t" for u
    using assms(1) that same_timer_trans [OF _ u] by (simp add: prepared_def)
  moreover have "same_timer (t \<in> A) ((timer_of s t)\<lparr>tm_value := v, tm_container := c\<rparr>) ((timer_of s2 t)\<lparr>tm_value := v, tm_container := c\<rparr>)"
    for v c using assms(1) same_timer_trans [OF _ same_timer_upd [OF u]] by (simp add: prepared_def)
  ultimately show ?thesis using assms by (simp add: prepared_def undisturbed_def tframe_def)
qed

text \<open>With \<open>k\<close> ticks since the timer expired it expires once more for every whole period in them.\<close>

lemma reload_loop_ok:
  assumes "polite A I cb" "I (qs s)" "k < 2 ^ 32" "xTimerPeriodInTicks (timer_of s t) = of_nat P" "0 < P" "P < 2 ^ 32" "k < n"
  shows "ensures (reload_loop n cb t (of_nat X) (of_nat (X + k)) s)
    (\<lambda>s'. scheduled A t (X + (k div P + 1) * P) (X + k) (k div P) s s' \<and> I (qs s'))"
  using assms(2-4,7)
proof (induction n arbitrary: s X k)
  case (Suc n)
  note ins = insert_now [OF Suc.prems(2,3) assms(5,6), of X]
  show ?case
  proof (cases "P \<le> k")
    case True
    let ?s1 = "upd_timer t (\<lambda>x. x\<lparr>tm_value := of_nat (X + P)\<rparr>) s"
    obtain s2 where s2: "call_back cb t ?s1 = Inr s2" "undisturbed A (?s1\<lparr>expired := expired ?s1 @ [t]\<rparr>) s2" "I (qs s2)"
      using call_back_ok [OF assms(1), of ?s1 t] Suc.prems(1) by (auto simp: ensures_def)
    have p: "prepared A t [t] s s2" using prepared_called [OF prepared_value s2(2)] by simp
    have per: "xTimerPeriodInTicks (timer_of s2 t) = of_nat P"
      using s2(2) Suc.prems(3) by (simp add: undisturbed_def same_timer_def)
    have k: "X + P + (k - P) = X + k" "X + P + ((k - P) div P + 1) * P = X + (k div P + 1) * P" "Suc ((k - P) div P) = k div P"
      using True assms(5) by (simp_all add: le_div_geq)
    have "ensures (reload_loop n cb t (of_nat (X + P)) (of_nat (X + k)) s2)
        (\<lambda>s'. scheduled A t (X + (k div P + 1) * P) (X + k) ((k - P) div P) s2 s' \<and> I (qs s'))"
      using Suc.IH [of s2 "k - P" "X + P"] s2(3) Suc.prems(2,4) per assms(5) True unfolding k by simp
    then have "ensures (reload_loop n cb t (of_nat (X + P)) (of_nat (X + k)) s2)
        (\<lambda>s'. scheduled A t (X + (k div P + 1) * P) (X + k) (k div P) s s' \<and> I (qs s'))"
      by (rule ensures_mono) (use prepared_scheduled [of A t 1 s s2] p k(3) in fastforce)
    then show ?thesis using ins(1) [OF True] s2(1) Suc.prems(3) by (simp add: Let_def)
  next
    case False
    then have "reload_loop (Suc n) cb t (of_nat X) (of_nat (X + k)) s = Inr (timer_insert (list_for (X + P) (X + k) s) t
        (upd_timer t (\<lambda>x. x\<lparr>tm_value := of_nat (X + P)\<rparr>) s))"
      using ins(2) Suc.prems(3) by (simp add: Let_def)
    then show ?thesis using False Suc.prems(1) scheduled_insert [of A t "X + P" "X + k" s]
      by (simp add: timer_insert_def)
  qed
qed simp

text \<open>A one-shot timer is no longer active.\<close>

definition stopped :: "nat set \<Rightarrow> nat \<Rightarrow> tsys \<Rightarrow> tsys \<Rightarrow> bool" where
  "stopped A t s s' \<longleftrightarrow> undisturbed A (clear_status tmrSTATUS_IS_ACTIVE t (s\<lparr>expired := expired s @ [t]\<rparr>)) s'"

definition processed :: "nat set \<Rightarrow> nat \<Rightarrow> nat \<Rightarrow> nat \<Rightarrow> tsys \<Rightarrow> tsys \<Rightarrow> bool" where
  "processed A t X N s s' \<longleftrightarrow> (let P = unat (xTimerPeriodInTicks (timer_of s t)); m = (N - X) div P + 1 in
     if has_status tmrSTATUS_IS_AUTORELOAD t s then scheduled A t (X + m * P) N m s s' else stopped A t s s')"

lemma scheduled_called:
  assumes "scheduled A t E N m s s1" "undisturbed A (s1\<lparr>expired := expired s1 @ [t]\<rparr>) s2"
  shows "scheduled A t E N (m + 1) s s2"
proof -
  have u: "same_timer (u \<in> A) (timer_of s1 u) (timer_of s2 u)" for u using assms(2) by (simp add: undisturbed_def)
  then have v: "(\<lambda>i. tm_value (timer_of s2 i)) = (\<lambda>i. tm_value (timer_of s1 i))" by (simp add: same_timer_def)
  have f: "tframe s1 s2" using assms(2) by (simp add: undisturbed_def tframe_def)
  have "same_timer (u \<in> A) (timer_of s u) (timer_of s2 u)" if "u \<noteq> t" for u
    using assms(1) that same_timer_trans [OF _ u] by (simp add: scheduled_def Let_def)
  moreover have "same_timer (t \<in> A) ((timer_of s t)\<lparr>tm_value := of_nat E, tm_container := Some (list_for E N s)\<rparr>) (timer_of s2 t)"
    using assms(1) same_timer_trans [OF _ u] by (simp add: scheduled_def Let_def)
  ultimately show ?thesis using assms tframe_trans [OF _ f] unfolding scheduled_def Let_def v
    by (simp add: undisturbed_def replicate_append_same)
qed

lemma process_timer_ok:
  assumes "polite A I cb" "I (qs s)" "k < 2 ^ 32" "xTimerPeriodInTicks (timer_of s t) \<noteq> 0"
  shows "ensures (process_timer cb t (of_nat X) (of_nat (X + k)) s) (\<lambda>s'. processed A t X (X + k) s s' \<and> I (qs s'))"
proof (cases "has_status tmrSTATUS_IS_AUTORELOAD t s")
  case True
  let ?P = "unat (xTimerPeriodInTicks (timer_of s t))"
  have P: "xTimerPeriodInTicks (timer_of s t) = of_nat ?P" "0 < ?P" "?P < 2 ^ 32"
    using assms(4) unsigned_less [of "xTimerPeriodInTicks (timer_of s t)"] by (simp_all add: unat_gt_0)
  have "unat (of_nat (X + k) - of_nat X :: u32) = k" using assms(3) unfolding clock_diff by (simp add: unat_clock)
  then have l: "prvReloadTimer cb t (of_nat X) (of_nat (X + k)) = reload_loop (k + 1) cb t (of_nat X) (of_nat (X + k))"
    unfolding prvReloadTimer_def by presburger
  obtain s1 where s1: "prvReloadTimer cb t (of_nat X) (of_nat (X + k)) s = Inr s1" "I (qs s1)"
    "scheduled A t (X + (k div ?P + 1) * ?P) (X + k) (k div ?P) s s1"
    using reload_loop_ok [OF assms(1-3) P, of "k + 1" X] unfolding l [symmetric] by (auto simp: ensures_def)
  obtain s2 where s2: "call_back cb t s1 = Inr s2" "undisturbed A (s1\<lparr>expired := expired s1 @ [t]\<rparr>) s2" "I (qs s2)"
    using call_back_ok [OF assms(1) s1(2), of t] by (auto simp: ensures_def)
  show ?thesis using True s1(1) s2(1,3) scheduled_called [OF s1(3) s2(2)] by (simp add: process_timer_def processed_def)
next
  case False
  let ?s1 = "clear_status tmrSTATUS_IS_ACTIVE t s"
  obtain s2 where s2: "call_back cb t ?s1 = Inr s2" "undisturbed A (?s1\<lparr>expired := expired ?s1 @ [t]\<rparr>) s2" "I (qs s2)"
    using call_back_ok [OF assms(1), of ?s1 t] assms(2) by (auto simp: ensures_def clear_status_def)
  have "?s1\<lparr>expired := expired ?s1 @ [t]\<rparr> = clear_status tmrSTATUS_IS_ACTIVE t (s\<lparr>expired := expired s @ [t]\<rparr>)"
    by (simp add: clear_status_def upd_timer_def)
  then show ?thesis using False s2 by (simp add: process_timer_def processed_def stopped_def)
qed

section \<open>The invariant of the lists\<close>

text \<open>The expiry times in the overflow list, which belong to the next epoch, are less than \<open>b\<close>.\<close>

definition lists_ok :: "nat \<Rightarrow> tsys \<Rightarrow> bool" where
  "lists_ok b s \<longleftrightarrow> pxCurrentTimerList s \<noteq> pxOverflowTimerList s \<and>
     (\<forall>l. sorted (map (\<lambda>i. tm_value (timer_of s i)) (active s l)) \<and> distinct (active s l) \<and>
       (\<forall>t. t \<in> set (active s l) \<longleftrightarrow> tm_container (timer_of s t) = Some l)) \<and>
     (\<forall>t \<in> set (active s (pxOverflowTimerList s)). unat (tm_value (timer_of s t)) < b)"

text \<open>A timer in a list is active and has a period; the converse holds for every timer whose memory was not freed,
  except those in \<open>E\<close>, which a command is being carried out for.\<close>

definition status_ok :: "nat set \<Rightarrow> tsys \<Rightarrow> bool" where
  "status_ok E s \<longleftrightarrow> (\<forall>t. (tm_container (timer_of s t) \<noteq> None \<longrightarrow>
       has_status tmrSTATUS_IS_ACTIVE t s \<and> xTimerPeriodInTicks (timer_of s t) \<noteq> 0) \<and>
     (has_status tmrSTATUS_IS_ACTIVE t s \<and> t \<notin> E \<union> set (tm_freed s) \<longrightarrow> tm_container (timer_of s t) \<noteq> None))"

text \<open>The time at which timer \<open>t\<close>, which is in a list, expires, when the current list is that of epoch \<open>e\<close>.\<close>

definition due :: "nat \<Rightarrow> tsys \<Rightarrow> nat \<Rightarrow> nat" where
  "due e s t = (if tm_container (timer_of s t) = Some (pxCurrentTimerList s) then e else e + 1) * 2 ^ 32
     + unat (tm_value (timer_of s t))"

abbreviation calls :: "tsys \<Rightarrow> nat \<Rightarrow> nat" where "calls s t \<equiv> count_list (expired s) t"
abbreviation listed :: "tsys \<Rightarrow> nat \<Rightarrow> bool" where "listed s t \<equiv> tm_container (timer_of s t) \<noteq> None"
abbreviation period :: "tsys \<Rightarrow> nat \<Rightarrow> nat" where "period s t \<equiv> unat (xTimerPeriodInTicks (timer_of s t))"
abbreviation auto_reload :: "tsys \<Rightarrow> nat \<Rightarrow> bool" where "auto_reload s t \<equiv> has_status tmrSTATUS_IS_AUTORELOAD t s"

lemma same_timer_status:
  assumes "same_timer m (timer_of s t) (timer_of s' t)"
  shows "has_status tmrSTATUS_IS_ACTIVE t s' = has_status tmrSTATUS_IS_ACTIVE t s" "m \<Longrightarrow> auto_reload s' t = auto_reload s t"
proof -
  have a: "x AND tmrSTATUS_IS_ACTIVE = (x AND NOT tmrSTATUS_IS_AUTORELOAD) AND tmrSTATUS_IS_ACTIVE" for x :: u8
    by (simp add: tmrSTATUS_IS_ACTIVE_def tmrSTATUS_IS_AUTORELOAD_def and.assoc)
  show "has_status tmrSTATUS_IS_ACTIVE t s' = has_status tmrSTATUS_IS_ACTIVE t s"
    using assms unfolding has_status_def same_timer_def by (metis a)
  show "m \<Longrightarrow> auto_reload s' t = auto_reload s t" using assms by (simp add: has_status_def same_timer_def)
qed

lemma undisturbed_views:
  assumes "undisturbed A s s'"
  shows "(\<lambda>i. tm_value (timer_of s' i)) = (\<lambda>i. tm_value (timer_of s i))" "tm_container (timer_of s' t) = tm_container (timer_of s t)"
    "xTimerPeriodInTicks (timer_of s' t) = xTimerPeriodInTicks (timer_of s t)" "active s' = active s" "expired s' = expired s"
    "tm_freed s' = tm_freed s" "pxCurrentTimerList s' = pxCurrentTimerList s" "pxOverflowTimerList s' = pxOverflowTimerList s"
    "xLastTime s' = xLastTime s" "xTimerQueue s' = xTimerQueue s"
    "has_status tmrSTATUS_IS_ACTIVE t s' = has_status tmrSTATUS_IS_ACTIVE t s"
  using assms same_timer_status(1) [of "t \<in> A" s t s'] by (simp_all add: undisturbed_def tframe_def same_timer_def)

lemma undisturbed_lists_ok: "undisturbed A s s' \<Longrightarrow> lists_ok b s' = lists_ok b s"
  unfolding lists_ok_def undisturbed_views(1) using undisturbed_views [of A s s'] fun_cong [OF undisturbed_views(1), of A s s'] by simp

lemma undisturbed_status_ok: "undisturbed A s s' \<Longrightarrow> status_ok E s' = status_ok E s"
  unfolding status_ok_def using undisturbed_views [of A s s'] by simp

lemma undisturbed_due: "undisturbed A s s' \<Longrightarrow> due e s' t = due e s t"
  using undisturbed_views [of A s s'] fun_cong [OF undisturbed_views(1), of A s s' t] by (simp add: due_def)

text \<open>Taking a timer out of its list.\<close>

definition extracted :: "nat \<Rightarrow> tlist \<Rightarrow> tsys \<Rightarrow> tsys" where
  "extracted t L s = upd_timer t (\<lambda>x. x\<lparr>tm_container := None\<rparr>) (upd_active L (remove1 t) s)"

lemma extracted_simps [simp]:
  "pxCurrentTimerList (extracted t L s) = pxCurrentTimerList s" "pxOverflowTimerList (extracted t L s) = pxOverflowTimerList s"
  "xTimerQueue (extracted t L s) = xTimerQueue s" "xLastTime (extracted t L s) = xLastTime s" "expired (extracted t L s) = expired s"
  "tm_freed (extracted t L s) = tm_freed s" "qs (extracted t L s) = qs s"
  "timer_of (extracted t L s) u = (if u = t then (timer_of s t)\<lparr>tm_container := None\<rparr> else timer_of s u)"
  "active (extracted t L s) l = (if l = L then remove1 t (active s L) else active s l)"
  "has_status m u (extracted t L s) = has_status m u s"
  by (simp_all add: extracted_def has_status_def)

lemma timer_remove_eq: "tm_container (timer_of s t) = Some L \<Longrightarrow> timer_remove t s = Inr (extracted t L s)"
  by (simp add: timer_remove_def extracted_def)

lemma extracted_lists_ok:
  assumes "lists_ok b s" "tm_container (timer_of s t) = Some L"
  shows "lists_ok b (extracted t L s)"
proof -
  have v: "(\<lambda>i. tm_value (timer_of (extracted t L s) i)) = (\<lambda>i. tm_value (timer_of s i))" by auto
  have d: "distinct (active s l)" "sorted (map (\<lambda>i. tm_value (timer_of s i)) (active s l))" for l
    using assms(1) by (simp_all add: lists_ok_def)
  have m: "u \<in> set (active (extracted t L s) l) \<longleftrightarrow> u \<noteq> t \<and> u \<in> set (active s l)" for u l
    using assms d [of l] by (auto simp: lists_ok_def)
  show ?thesis unfolding lists_ok_def v m using assms d by (auto simp: lists_ok_def sorted_map_remove1)
qed

lemma extracted_status_ok: "status_ok E s \<Longrightarrow> status_ok (insert t E) (extracted t L s)"
  by (auto simp: status_ok_def)

lemma extracted_due: "u \<noteq> t \<Longrightarrow> due e (extracted t L s) u = due e s u"
  by (simp add: due_def)

section \<open>Timers that are processed\<close>

lemma scheduled_views:
  assumes "scheduled A t E N n s s'"
  shows "tframe s s'" "expired s' = expired s @ replicate n t"
    "(\<lambda>i. tm_value (timer_of s' i)) = (\<lambda>i. tm_value (timer_of s i))(t := of_nat E)"
    "tm_container (timer_of s' u) = (if u = t then Some (list_for E N s) else tm_container (timer_of s u))"
    "xTimerPeriodInTicks (timer_of s' u) = xTimerPeriodInTicks (timer_of s u)"
    "has_status tmrSTATUS_IS_ACTIVE u s' = has_status tmrSTATUS_IS_ACTIVE u s" "u \<in> A \<Longrightarrow> auto_reload s' u = auto_reload s u"
    "active s' = (active s)(list_for E N s := insert_after_le ((\<lambda>i. tm_value (timer_of s i))(t := of_nat E)) t (active s (list_for E N s)))"
proof -
  let ?x = "timer_of s t\<lparr>tm_value := of_nat E, tm_container := Some (list_for E N s)\<rparr>"
  have t: "same_timer (t \<in> A) ?x (timer_of s' t)" and o: "\<And>u. u \<noteq> t \<Longrightarrow> same_timer (u \<in> A) (timer_of s u) (timer_of s' u)"
    using assms by (simp_all add: scheduled_def Let_def)
  show v: "(\<lambda>i. tm_value (timer_of s' i)) = (\<lambda>i. tm_value (timer_of s i))(t := of_nat E)"
    using t o by (auto simp: same_timer_def fun_eq_iff)
  show "tframe s s'" "expired s' = expired s @ replicate n t"
    "active s' = (active s)(list_for E N s := insert_after_le ((\<lambda>i. tm_value (timer_of s i))(t := of_nat E)) t (active s (list_for E N s)))"
    using assms unfolding scheduled_def Let_def v by simp_all
  show "tm_container (timer_of s' u) = (if u = t then Some (list_for E N s) else tm_container (timer_of s u))"
    "xTimerPeriodInTicks (timer_of s' u) = xTimerPeriodInTicks (timer_of s u)"
    using t o [of u] by (cases "u = t"; simp add: same_timer_def)+
  let ?s = "upd_timer t (\<lambda>_. ?x) s"
  have "same_timer (u \<in> A) (timer_of ?s u) (timer_of s' u)" using t o [of u] by simp
  from same_timer_status [OF this]
  show "has_status tmrSTATUS_IS_ACTIVE u s' = has_status tmrSTATUS_IS_ACTIVE u s" "u \<in> A \<Longrightarrow> auto_reload s' u = auto_reload s u"
    by (auto simp: has_status_def)
qed

lemma scheduled_lists_ok:
  assumes "lists_ok b s" "tm_container (timer_of s t) = None" "scheduled A t E N n s s'"
    and "epoch E \<noteq> epoch N \<Longrightarrow> E mod 2 ^ 32 < b"
  shows "lists_ok b s'"
proof -
  note v = scheduled_views [OF assms(3)]
  let ?L = "list_for E N s" and ?val = "(\<lambda>i. tm_value (timer_of s i))(t := of_nat E)"
  have n: "t \<notin> set (active s l)" for l using assms(1,2) by (simp add: lists_ok_def)
  have "map ?val (active s l) = map (\<lambda>i. tm_value (timer_of s i)) (active s l)" for l
    using n [of l] by (intro map_cong) auto
  then have s: "sorted (map ?val (active s l))" "distinct (active s l)" for l
    using assms(1) by (simp_all only: lists_ok_def)
  have fr: "pxCurrentTimerList s' = pxCurrentTimerList s" "pxOverflowTimerList s' = pxOverflowTimerList s"
    using v(1) by (simp_all add: tframe_def)
  have a: "sorted (map ?val (active s' l))" "distinct (active s' l)" "set (active s' l) = (if l = ?L then insert t (set (active s l)) else set (active s l))" for l
    using s n by (simp_all add: v(8) sorted_insert_after_le distinct_insert_after_le set_insert_after_le)
  have val: "unat (tm_value (timer_of s' u)) < b" if "u \<in> set (active s' (pxOverflowTimerList s'))" for u
  proof (cases "u = t")
    case True
    with that n have "?L = pxOverflowTimerList s" unfolding a(3) fr by (simp split: if_splits)
    then have "epoch E \<noteq> epoch N" using assms(1) by (auto simp: list_for_def lists_ok_def)
    then show ?thesis using assms(4) True fun_cong [OF v(3), of t] by (simp add: unat_clock)
  next
    case False
    then have "u \<in> set (active s (pxOverflowTimerList s))" using that unfolding a(3) fr by (simp split: if_splits)
    then show ?thesis using assms(1) False fun_cong [OF v(3), of u] by (simp add: lists_ok_def)
  qed
  have "u \<in> set (active s' l) \<longleftrightarrow> tm_container (timer_of s' u) = Some l" for u l
    unfolding a(3) v(4) using assms(1) n by (auto simp: lists_ok_def)
  then show ?thesis using a(1,2) val assms(1) unfolding lists_ok_def v(3) by (simp add: fr)
qed

lemma scheduled_due:
  assumes "scheduled A t E N n s s'" "epoch E = epoch N \<or> epoch E = epoch N + 1" "pxCurrentTimerList s \<noteq> pxOverflowTimerList s"
  shows "due (epoch N) s' t = E" "u \<noteq> t \<Longrightarrow> due e s' u = due e s u"
proof -
  note v = scheduled_views [OF assms(1)]
  have c: "pxCurrentTimerList s' = pxCurrentTimerList s" using v(1) by (simp add: tframe_def)
  have E: "epoch E * 4294967296 + E mod 4294967296 = E" by (simp add: epoch_def)
  have t: "tm_value (timer_of s' t) = of_nat E" using fun_cong [OF v(3), of t] by simp
  have "tm_container (timer_of s' t) = Some (pxCurrentTimerList s') \<longleftrightarrow> epoch E = epoch N"
    using assms(3) by (simp add: v(4) c list_for_def)
  then show "due (epoch N) s' t = E" using assms(2) E by (auto simp: due_def t unat_clock)
  show "u \<noteq> t \<Longrightarrow> due e s' u = due e s u" using fun_cong [OF v(3), of u] by (simp add: due_def v(4) c)
qed

lemma stopped_views:
  assumes "stopped A t s s'"
  shows "tframe s s'" "expired s' = expired s @ [t]" "(\<lambda>i. tm_value (timer_of s' i)) = (\<lambda>i. tm_value (timer_of s i))"
    "tm_container (timer_of s' u) = tm_container (timer_of s u)" "xTimerPeriodInTicks (timer_of s' u) = xTimerPeriodInTicks (timer_of s u)"
    "has_status tmrSTATUS_IS_ACTIVE u s' \<longleftrightarrow> u \<noteq> t \<and> has_status tmrSTATUS_IS_ACTIVE u s" "u \<in> A \<Longrightarrow> auto_reload s' u = auto_reload s u"
    "active s' = active s"
proof -
  let ?s = "clear_status tmrSTATUS_IS_ACTIVE t (s\<lparr>expired := expired s @ [t]\<rparr>)"
  have u: "undisturbed A ?s s'" using assms by (simp add: stopped_def)
  note v = undisturbed_views [OF u]
  have m: "(x AND NOT tmrSTATUS_IS_ACTIVE) AND tmrSTATUS_IS_AUTORELOAD = x AND tmrSTATUS_IS_AUTORELOAD"
    "(x AND NOT tmrSTATUS_IS_ACTIVE) AND tmrSTATUS_IS_ACTIVE = 0" for x :: u8
    by (simp_all add: tmrSTATUS_IS_ACTIVE_def tmrSTATUS_IS_AUTORELOAD_def and.assoc)
  show "tframe s s'" "expired s' = expired s @ [t]" "active s' = active s"
    "(\<lambda>i. tm_value (timer_of s' i)) = (\<lambda>i. tm_value (timer_of s i))"
    using v by (auto simp: tframe_def clear_status_def)
  show "tm_container (timer_of s' u) = tm_container (timer_of s u)" "xTimerPeriodInTicks (timer_of s' u) = xTimerPeriodInTicks (timer_of s u)"
    using v(2,3) [of u] by (simp_all add: clear_status_def)
  show "has_status tmrSTATUS_IS_ACTIVE u s' \<longleftrightarrow> u \<noteq> t \<and> has_status tmrSTATUS_IS_ACTIVE u s"
    using v(11) [of u] by (simp add: clear_status_def has_status_def m)
  have "same_timer (u \<in> A) (timer_of ?s u) (timer_of s' u)" using u by (simp add: undisturbed_def)
  from same_timer_status(2) [OF this] show "u \<in> A \<Longrightarrow> auto_reload s' u = auto_reload s u"
    by (auto simp: clear_status_def has_status_def m)
qed

lemma stopped_lists_ok: "stopped A t s s' \<Longrightarrow> lists_ok b s' = lists_ok b s"
  using stopped_views [of A t s s'] fun_cong [OF stopped_views(3), of A t s s'] unfolding lists_ok_def stopped_views(3)
  by (simp add: tframe_def)

end
