(* ===== verification/TimerDaemon.thy ===== *)
theory TimerDaemon
  imports TimerProps
begin

text \<open>
  The operations of the service task on the lists: a timer that has expired is processed, the lists are switched when
  the clock has wrapped around, the clock is sampled, a command is carried out.
\<close>

section \<open>How a timer evolves\<close>

text \<open>From epoch \<open>e\<close> to epoch \<open>e'\<close>, up to the time \<open>N\<close>, without a command for timer \<open>t\<close>: an auto-reload timer expires
  once for every period by which its expiry time advances, and never before that time; a one-shot timer may expire
  once.\<close>

definition evolves :: "nat \<Rightarrow> nat \<Rightarrow> tsys \<Rightarrow> nat \<Rightarrow> tsys \<Rightarrow> nat \<Rightarrow> bool" where
  "evolves N e s e' s' t \<longleftrightarrow>
     xTimerPeriodInTicks (timer_of s' t) = xTimerPeriodInTicks (timer_of s t) \<and> auto_reload s' t = auto_reload s t \<and>
     (if \<not> listed s t then \<not> listed s' t \<and> calls s' t = calls s t
      else if \<not> listed s' t then \<not> auto_reload s t \<and> calls s' t = calls s t + 1 \<and> due e s t \<le> N
      else \<exists>n. due e' s' t = due e s t + n * period s t \<and> calls s' t = calls s t + n \<and>
        (n > 0 \<longrightarrow> auto_reload s t \<and> due e' s' t \<le> N + period s t))"

lemma evolves_refl: "evolves N e s e s t"
  by (simp add: evolves_def)

lemma evolves_later: "evolves N e s e' s' t \<Longrightarrow> N \<le> N' \<Longrightarrow> evolves N' e s e' s' t"
  unfolding evolves_def by (auto intro: order_trans split: if_splits)

lemma evolves_trans:
  assumes "evolves N e s e1 s1 t" "evolves N e1 s1 e' s' t"
  shows "evolves N e s e' s' t"
proof (cases "listed s t \<and> listed s' t")
  case True
  have 1: "listed s1 t" using assms(2) True by (simp add: evolves_def split: if_splits)
  have p: "period s1 t = period s t" "auto_reload s1 t = auto_reload s t" using assms(1) by (simp_all add: evolves_def)
  obtain n m where n: "due e1 s1 t = due e s t + n * period s t" "calls s1 t = calls s t + n"
      "n > 0 \<longrightarrow> auto_reload s t \<and> due e1 s1 t \<le> N + period s t"
    and m: "due e' s' t = due e1 s1 t + m * period s t" "calls s' t = calls s1 t + m"
      "m > 0 \<longrightarrow> auto_reload s t \<and> due e' s' t \<le> N + period s t"
    using assms True 1 p by (auto simp: evolves_def)
  have "due e' s' t = due e s t + (n + m) * period s t \<and> calls s' t = calls s t + (n + m) \<and>
      (n + m > 0 \<longrightarrow> auto_reload s t \<and> due e' s' t \<le> N + period s t)"
    using n m by (cases "m = 0") (auto simp: algebra_simps)
  then show ?thesis using True assms by (auto simp: evolves_def)
next
  case False
  show ?thesis
  proof (cases "listed s t")
    case l: True
    then have "\<not> listed s' t" using False by simp
    then show ?thesis using assms l by (cases "listed s1 t") (auto simp: evolves_def)
  next
    case l: False
    then show ?thesis using assms by (auto simp: evolves_def)
  qed
qed

lemma evolves_same:
  assumes "xTimerPeriodInTicks (timer_of s' t) = xTimerPeriodInTicks (timer_of s t)" "auto_reload s' t = auto_reload s t"
    and "tm_container (timer_of s' t) = tm_container (timer_of s t)" "due e' s' t = due e s t" "calls s' t = calls s t"
  shows "evolves N e s e' s' t"
  using assms by (auto simp: evolves_def)

lemma undisturbed_evolves: "undisturbed A s s' \<Longrightarrow> t \<in> A \<Longrightarrow> evolves N e s e s' t"
proof -
  assume u: "undisturbed A s s'" "t \<in> A"
  then have "same_timer True (timer_of s t) (timer_of s' t)" by (metis (full_types) undisturbed_def)
  then have "auto_reload s' t = auto_reload s t" by (rule same_timer_status(2)) simp
  then show "evolves N e s e s' t" using undisturbed_views [OF u(1)] undisturbed_due [OF u(1)] by (intro evolves_same) simp_all
qed

section \<open>A timer that has expired\<close>

lemma count_replicate [simp]: "count_list (replicate n x) y = (if x = y then n else 0)"
  by (cases "x = y"; induction n) simp_all

lemma word_wrap: "(4294967296 :: u32) = 0"
  by simp

lemma next_expiry:
  fixes X N P :: nat
  assumes "X \<le> N" "0 < P"
  defines "E \<equiv> X + ((N - X) div P + 1) * P"
  shows "N < E" "E \<le> N + P"
proof -
  have "(N - X) div P * P + (N - X) mod P = N - X" "(N - X) mod P < P" using assms(2) by simp_all
  then have "(N - X) div P * P \<le> N - X" "N - X < (N - X) div P * P + P" by linarith+
  moreover have "E = X + (N - X) div P * P + P" by (simp add: E_def)
  ultimately show "N < E" "E \<le> N + P" using assms(1) by linarith+
qed

lemma next_epoch:
  assumes "N < E" "E < N + 2 ^ 32"
  shows "epoch E = epoch N \<or> epoch E = epoch N + 1" "epoch E \<noteq> epoch N \<Longrightarrow> E mod 2 ^ 32 < N mod 2 ^ 32"
proof -
  have "E - N < 4294967296" "N + (E - N) = E" using assms by simp_all
  then have "E div 4294967296 = N div 4294967296 \<or> E div 4294967296 = N div 4294967296 + 1 \<and>
      E mod 4294967296 + 4294967296 = N mod 4294967296 + (E - N)"
    using div_step [of "E - N" N] by auto
  then show "epoch E = epoch N \<or> epoch E = epoch N + 1" "epoch E \<noteq> epoch N \<Longrightarrow> E mod 2 ^ 32 < N mod 2 ^ 32"
    using \<open>E - N < 4294967296\<close> by (auto simp: epoch_def)
qed

text \<open>What processing a timer of the current list, expired at \<open>X\<close>, does to the lists by the time \<open>N\<close>.\<close>

definition handled :: "nat set \<Rightarrow> nat \<Rightarrow> nat \<Rightarrow> tsys \<Rightarrow> tsys \<Rightarrow> nat \<Rightarrow> bool" where
  "handled A N e s s' t \<longleftrightarrow> tframe s s' \<and> (listed s' t \<longrightarrow> N < due e s' t) \<and>
     (\<forall>u. u \<noteq> t \<longrightarrow> tm_container (timer_of s' u) = tm_container (timer_of s u) \<and> due e s' u = due e s u \<and> calls s' u = calls s u) \<and>
     (\<forall>u \<in> A. evolves N e s e s' u) \<and> (\<forall>u. xTimerPeriodInTicks (timer_of s' u) = xTimerPeriodInTicks (timer_of s u)) \<and>
     (epoch (N + 1) \<noteq> e \<longrightarrow> active s' (pxCurrentTimerList s) = remove1 t (active s (pxCurrentTimerList s)))"

lemma processed_handled:
  assumes "lists_ok b s" "status_ok F s" "tm_container (timer_of s t) = Some (pxCurrentTimerList s)" "epoch N = e"
    and "due e s t \<le> N" "N mod 2 ^ 32 \<le> b"
    and "processed A t (due e s t) N (extracted t (pxCurrentTimerList s) s) s'"
  shows "lists_ok b s' \<and> status_ok F s' \<and> handled A N e s s' t"
proof -
  let ?s = "extracted t (pxCurrentTimerList s) s" and ?X = "due e s t" and ?P = "period s t"
  have lo: "lists_ok b ?s" using extracted_lists_ok assms(1,3) by simp
  have P: "0 < ?P" "?P < 2 ^ 32" and act: "has_status tmrSTATUS_IS_ACTIVE t s"
    using assms(2,3) unsigned_less [of "xTimerPeriodInTicks (timer_of s t)"] by (auto simp: status_ok_def unat_gt_0)
  have cur: "pxCurrentTimerList s \<noteq> pxOverflowTimerList s" using assms(1) by (simp add: lists_ok_def)
  show ?thesis
  proof (cases "auto_reload s t")
    case True
    let ?m = "(N - ?X) div ?P + 1"
    let ?E = "?X + ?m * ?P"
    have sc: "scheduled A t ?E N ?m ?s s'" using assms(7) True by (simp add: processed_def Let_def)
    note v = scheduled_views [OF sc]
    have E: "N < ?E" "?E \<le> N + ?P" using next_expiry [OF assms(5) P(1)] by simp_all
    then have ep: "epoch ?E = epoch N \<or> epoch ?E = epoch N + 1" "epoch ?E \<noteq> epoch N \<Longrightarrow> ?E mod 2 ^ 32 < N mod 2 ^ 32"
      using next_epoch [of N ?E] P(2) by linarith+
    have l: "lists_ok b s'" by (rule scheduled_lists_ok [OF lo _ sc]) (use ep(2) assms(6) in \<open>auto intro: less_le_trans\<close>)
    have d: "due e s' t = ?E" "\<And>u. u \<noteq> t \<Longrightarrow> due e s' u = due e s u"
      using scheduled_due [OF sc ep(1)] cur assms(4) extracted_due by simp_all
    have c: "tm_container (timer_of s' u) = tm_container (timer_of s u)" if "u \<noteq> t" for u using that by (simp add: v(4))
    have lt: "listed s' t" by (simp add: v(4))
    have st: "status_ok F s'"
      using assms(2,3) v(1) unfolding status_ok_def v(4-6) by (auto simp: tframe_def)
    have ev: "evolves N e s e s' u" if "u \<in> A" for u
    proof (cases "u = t")
      case u: True
      show ?thesis unfolding evolves_def u
        using that u True lt assms(3) E d v(5) [of t] v(7) [of t] v(2)
        by (auto simp: intro!: exI [of _ ?m])
    next
      case False
      show ?thesis by (rule evolves_same) (use that False c d v(2) v(5,7) [of u] in \<open>auto simp: v(4)\<close>)
    qed
    have "active s' (pxCurrentTimerList s) = remove1 t (active s (pxCurrentTimerList s))" if "epoch (N + 1) \<noteq> e"
    proof -
      have "epoch ?E \<noteq> epoch N"
        using that E(1) assms(4) div_le_mono [of "N + 1" ?E "2 ^ 32"] div_le_mono [of N "N + 1" "2 ^ 32"]
        by (auto simp: epoch_def)
      then show ?thesis using v(8) cur by (simp add: list_for_def)
    qed
    then show ?thesis using l st d c lt E v ev by (auto simp: handled_def tframe_def)
  next
    case False
    have sp: "stopped A t ?s s'" using assms(7) False by (simp add: processed_def Let_def)
    note v = stopped_views [OF sp]
    have l: "lists_ok b s'" using stopped_lists_ok [OF sp] lo by simp
    have st: "status_ok F s'"
      using assms(2) v(1) unfolding status_ok_def v(4-6) by (auto simp: tframe_def)
    have d: "due e s' u = due e s u" if "u \<noteq> t" for u
      using that fun_cong [OF v(3), of u] v(1) by (simp add: due_def v(4) tframe_def)
    have ev: "evolves N e s e s' u" if "u \<in> A" for u
    proof (cases "u = t")
      case u: True
      show ?thesis unfolding evolves_def u using that u False assms(3,5) v(5) [of t] v(7) [of t] v(2) by (auto simp: v(4))
    next
      case n: False
      show ?thesis by (rule evolves_same) (use that n d v(2) v(5,7) [of u] in \<open>auto simp: v(4)\<close>)
    qed
    then show ?thesis using l st d v by (auto simp: handled_def tframe_def)
  qed
qed

lemma prvProcessExpiredTimer_ok:
  assumes "polite A I cb" "I (qs s)" "lists_ok b s" "status_ok F s" "active s (pxCurrentTimerList s) = t # ts" "epoch N = e"
    and "due e s t \<le> N" "N mod 2 ^ 32 \<le> b"
  shows "ensures (prvProcessExpiredTimer cb (tm_value (timer_of s t)) (of_nat N) s)
    (\<lambda>s'. lists_ok b s' \<and> status_ok F s' \<and> handled A N e s s' t \<and> I (qs s'))"
proof -
  let ?s = "extracted t (pxCurrentTimerList s) s"
  have c: "tm_container (timer_of s t) = Some (pxCurrentTimerList s)" using assms(3,5) unfolding lists_ok_def by (metis list.set_intros(1))
  have p: "xTimerPeriodInTicks (timer_of ?s t) \<noteq> 0" using assms(4) c by (auto simp: status_ok_def)
  have X: "of_nat (due e s t) = tm_value (timer_of s t)" by (simp add: due_def c word_wrap)
  have k: "N - due e s t < 2 ^ 32" "due e s t + (N - due e s t) = N"
    using assms(6,7) div_mult_mod_eq [of N "2 ^ 32"] mod_less_divisor [of "2 ^ 32" N] by (auto simp: due_def c epoch_def)
  from process_timer_ok [OF assms(1) _ k(1) p, of "due e s t"] assms(2)
  have "ensures (process_timer cb t (tm_value (timer_of s t)) (of_nat N) ?s) (\<lambda>s'. processed A t (due e s t) N ?s s' \<and> I (qs s'))"
    unfolding k(2) X by simp
  then have "ensures (process_timer cb t (tm_value (timer_of s t)) (of_nat N) ?s)
      (\<lambda>s'. lists_ok b s' \<and> status_ok F s' \<and> handled A N e s s' t \<and> I (qs s'))"
    by (rule ensures_mono) (use processed_handled [OF assms(3,4) c assms(6-8)] in blast)
  then show ?thesis using assms(5) timer_remove_eq [OF c] by (simp add: prvProcessExpiredTimer_def)
qed

section \<open>The clock wraps around\<close>

definition epoch_end :: "nat \<Rightarrow> nat" where "epoch_end e = e * 2 ^ 32 + (2 ^ 32 - 1)"

lemma epoch_end_simps:
  "epoch (epoch_end e) = e" "epoch (epoch_end e + 1) \<noteq> e" "epoch_end e mod 2 ^ 32 = 2 ^ 32 - 1"
  "of_nat (epoch_end e) = tmrMAX_TIME_BEFORE_OVERFLOW"
proof -
  show "epoch (epoch_end e) = e" "epoch_end e mod 2 ^ 32 = 2 ^ 32 - 1" by (simp_all add: epoch_end_def epoch_def)
  have "epoch_end e + 1 = (e + 1) * 2 ^ 32" by (simp add: epoch_end_def)
  then show "epoch (epoch_end e + 1) \<noteq> e" by (simp add: epoch_def)
  show "of_nat (epoch_end e) = tmrMAX_TIME_BEFORE_OVERFLOW"
    by (simp add: epoch_end_def tmrMAX_TIME_BEFORE_OVERFLOW_def word_wrap)
qed

lemma lists_ok_weaken: "lists_ok b s \<Longrightarrow> b \<le> b' \<Longrightarrow> lists_ok b' s"
  by (auto simp: lists_ok_def)

lemma handled_evolves: "handled A N e s s' t \<Longrightarrow> u \<in> A \<Longrightarrow> evolves N e s e s' u"
  by (simp add: handled_def)

lemma due_current_end: "tm_container (timer_of s t) = Some (pxCurrentTimerList s) \<Longrightarrow> due e s t \<le> epoch_end e"
proof -
  have "unat (tm_value (timer_of s t)) < 2 ^ 32" using unsigned_less [of "tm_value (timer_of s t)", where ?'a = nat] by simp
  then show "tm_container (timer_of s t) = Some (pxCurrentTimerList s) \<Longrightarrow> due e s t \<le> epoch_end e"
    by (simp add: due_def epoch_end_def)
qed

lemma switch_loop_ok:
  assumes "polite A I cb" "I (qs s)" "lists_ok (2 ^ 32 - 1) s" "status_ok F s" "length (active s (pxCurrentTimerList s)) \<le> n"
  shows "ensures (switch_loop n cb s) (\<lambda>s'. lists_ok (2 ^ 32 - 1) s' \<and> status_ok F s' \<and> active s' (pxCurrentTimerList s') = [] \<and>
    tframe s s' \<and> (\<forall>u \<in> A. evolves (epoch_end e) e s e s' u) \<and> I (qs s'))"
  using assms(2-)
proof (induction n arbitrary: s)
  case (Suc n)
  show ?case
  proof (cases "active s (pxCurrentTimerList s)")
    case (Cons t ts)
    have c: "tm_container (timer_of s t) = Some (pxCurrentTimerList s)"
      using Suc.prems(2) Cons unfolding lists_ok_def by (metis list.set_intros(1))
    note p = prvProcessExpiredTimer_ok [OF assms(1) Suc.prems(1-3) Cons epoch_end_simps(1) due_current_end [OF c]]
    obtain s1 where s1: "prvProcessExpiredTimer cb (tm_value (timer_of s t)) tmrMAX_TIME_BEFORE_OVERFLOW s = Inr s1"
      "lists_ok (2 ^ 32 - 1) s1" "status_ok F s1" "handled A (epoch_end e) e s s1 t" "I (qs s1)"
      using p [of e] unfolding epoch_end_simps by (auto simp: ensures_def)
    have f: "tframe s s1" "active s1 (pxCurrentTimerList s1) = ts"
      using s1(4) epoch_end_simps(2) [of e] Cons by (simp_all add: handled_def tframe_def)
    have "length (active s1 (pxCurrentTimerList s1)) \<le> n" using Suc.prems(4) f(2) Cons by simp
    from Suc.IH [OF s1(5,2,3) this] obtain s' where s': "switch_loop n cb s1 = Inr s'" "lists_ok (2 ^ 32 - 1) s'" "status_ok F s'"
      "active s' (pxCurrentTimerList s') = []" "tframe s1 s'" "\<forall>u \<in> A. evolves (epoch_end e) e s1 e s' u" "I (qs s')"
      by (auto simp: ensures_def)
    have "evolves (epoch_end e) e s e s' u" if "u \<in> A" for u
      using evolves_trans handled_evolves [OF s1(4) that] s'(6) that by blast
    then show ?thesis using s1(1) s' tframe_trans [OF f(1) s'(5)] Cons by simp
  qed (use Suc.prems evolves_refl in simp)
qed (simp add: evolves_refl)

definition timers_ok :: "nat set \<Rightarrow> nat \<Rightarrow> tsys \<Rightarrow> bool" where
  "timers_ok F L s \<longleftrightarrow> lists_ok (L mod 2 ^ 32) s \<and> status_ok F s \<and> xLastTime s = of_nat L"

definition swapped :: "u32 \<Rightarrow> tsys \<Rightarrow> tsys" where
  "swapped now s = s\<lparr>pxCurrentTimerList := pxOverflowTimerList s, pxOverflowTimerList := pxCurrentTimerList s, xLastTime := now\<rparr>"

lemma swapped_ok:
  assumes "lists_ok b s" "status_ok F s" "active s (pxCurrentTimerList s) = []"
  shows "lists_ok b' (swapped now s)" "status_ok F (swapped now s)" "evolves N e s (e + 1) (swapped now s) t"
proof -
  show "lists_ok b' (swapped now s)" "status_ok F (swapped now s)"
    using assms by (auto simp: lists_ok_def status_ok_def swapped_def has_status_def)
  have "tm_container (timer_of s t) \<noteq> Some (pxCurrentTimerList s)"
    using assms(1,3) unfolding lists_ok_def by (metis empty_iff list.set(1))
  moreover have "L \<noteq> pxCurrentTimerList s \<Longrightarrow> L = pxOverflowTimerList s" for L
    using assms(1) by (cases L; cases "pxCurrentTimerList s"; cases "pxOverflowTimerList s") (auto simp: lists_ok_def)
  ultimately have "listed s t \<Longrightarrow> due (e + 1) (swapped now s) t = due e s t" by (auto simp: due_def swapped_def)
  then show "evolves N e s (e + 1) (swapped now s) t" by (auto simp: evolves_def swapped_def has_status_def)
qed

lemma prvSwitchTimerLists_ok:
  assumes "polite A I cb" "I (qs s)" "lists_ok b s" "b < 2 ^ 32" "status_ok F s"
  shows "ensures (prvSwitchTimerLists cb s) (\<lambda>s'. lists_ok b' (s'\<lparr>xLastTime := now\<rparr>) \<and> status_ok F (s'\<lparr>xLastTime := now\<rparr>) \<and>
    xTimerQueue s' = xTimerQueue s \<and> tm_freed s' = tm_freed s \<and>
    (\<forall>u \<in> A. evolves (epoch_end e) e s (e + 1) (s'\<lparr>xLastTime := now\<rparr>) u) \<and> I (qs s'))"
proof -
  have l: "lists_ok (2 ^ 32 - 1) s" using lists_ok_weaken [OF assms(3)] assms(4) by simp
  obtain s1 where s1: "switch_loop (length (active s (pxCurrentTimerList s))) cb s = Inr s1" "lists_ok (2 ^ 32 - 1) s1" "status_ok F s1"
    "active s1 (pxCurrentTimerList s1) = []" "tframe s s1" "\<forall>u \<in> A. evolves (epoch_end e) e s e s1 u" "I (qs s1)"
    using switch_loop_ok [OF assms(1,2) l assms(5) order_refl, of e] by (auto simp: ensures_def)
  note sw = swapped_ok [OF s1(2-4)]
  have "evolves (epoch_end e) e s (e + 1) (swapped now s1) u" if "u \<in> A" for u
    using evolves_trans s1(6) that sw(3) by blast
  then show ?thesis using s1 sw(1,2) by (simp add: prvSwitchTimerLists_def swapped_def tframe_def)
qed

section \<open>Sampling the clock\<close>

definition tick_now :: "tsys \<Rightarrow> u32" where "tick_now s = xTickCount (kern (qs s))"

lemma prvSampleTimeNow_ok:
  assumes "polite A I cb" "I (qs s)" "timers_ok F L s" "tick_now s = of_nat T" "L \<le> T" "T < L + 2 ^ 32"
  shows "ensures (prvSampleTimeNow cb s) (\<lambda>((now, sw), s'). now = of_nat T \<and> sw = (epoch T \<noteq> epoch L) \<and> timers_ok F T s' \<and>
    xTimerQueue s' = xTimerQueue s \<and> tm_freed s' = tm_freed s \<and> I (qs s') \<and>
    (\<forall>u \<in> A. evolves T (epoch L) s (epoch T) s' u) \<and> (\<not> sw \<longrightarrow> s' = s\<lparr>xLastTime := of_nat T\<rparr>))"
proof (cases "epoch T = epoch L")
  case True
  have "L mod 2 ^ 32 \<le> T mod 2 ^ 32"
    using div_step [of "T - L" L] assms(5,6) True by (auto simp: epoch_def)
  then have "lists_ok (T mod 2 ^ 32) s" using lists_ok_weaken assms(3) by (auto simp: timers_ok_def)
  then have "timers_ok F T (s\<lparr>xLastTime := of_nat T\<rparr>)"
    using assms(3) by (simp add: timers_ok_def lists_ok_def status_ok_def has_status_def)
  moreover have "\<not> (of_nat T :: u32) < of_nat L" using clock_less [of "T - L" L] assms(5,6) True by simp
  moreover have "evolves T e s e (s\<lparr>xLastTime := of_nat T\<rparr>) u" for e u
    by (rule evolves_same) (simp_all add: has_status_def due_def)
  ultimately show ?thesis using assms True by (simp add: prvSampleTimeNow_def xTaskGetTickCount_def tick_now_def timers_ok_def Let_def)
next
  case False
  have e: "epoch T = epoch L + 1" using next_epoch(1) [of L T] assms(5,6) False by (cases "L = T") auto
  have "epoch_end (epoch L) \<le> T" using e div_mult_mod_eq [of T "2 ^ 32"] by (simp add: epoch_end_def epoch_def)
  then have ev: "evolves (epoch_end (epoch L)) a s b s' u \<Longrightarrow> evolves T a s b s' u" for a b s' u using evolves_later by blast
  have lt: "(of_nat T :: u32) < of_nat L" using clock_less [of "T - L" L] assms(5,6) False by simp
  obtain s1 where s1: "prvSwitchTimerLists cb s = Inr s1" "lists_ok (T mod 2 ^ 32) (s1\<lparr>xLastTime := of_nat T\<rparr>)"
    "status_ok F (s1\<lparr>xLastTime := of_nat T\<rparr>)" "xTimerQueue s1 = xTimerQueue s" "tm_freed s1 = tm_freed s" "I (qs s1)"
    "\<forall>u \<in> A. evolves (epoch_end (epoch L)) (epoch L) s (epoch T) (s1\<lparr>xLastTime := of_nat T\<rparr>) u"
    using prvSwitchTimerLists_ok [OF assms(1,2), of "L mod 2 ^ 32" F "T mod 2 ^ 32" "of_nat T" "epoch L"] assms(3) e
    by (auto simp: ensures_def timers_ok_def)
  then show ?thesis using assms False lt ev by (simp add: prvSampleTimeNow_def xTaskGetTickCount_def tick_now_def timers_ok_def Let_def)
qed

section \<open>Commands\<close>

text \<open>A command for timer \<open>t\<close> leaves the other timers where they are.\<close>

definition others_keep :: "nat set \<Rightarrow> nat \<Rightarrow> tsys \<Rightarrow> tsys \<Rightarrow> bool" where
  "others_keep A t s s' \<longleftrightarrow> xTimerQueue s' = xTimerQueue s \<and>
     (\<forall>u \<in> A. u \<noteq> t \<longrightarrow> (\<forall>N e. evolves N e s e s' u))"

lemma scheduled_others:
  assumes "scheduled A t E N n s s'" "pxCurrentTimerList s \<noteq> pxOverflowTimerList s"
  shows "others_keep A t s s'"
proof -
  note v = scheduled_views [OF assms(1)]
  have "due e s' u = due e s u" if "u \<noteq> t" for e u
    using that v(1) fun_cong [OF v(3), of u] by (simp add: due_def v(4) tframe_def)
  then have "evolves M e s e s' u" if "u \<in> A" "u \<noteq> t" for M e u
    by (intro evolves_same) (use that v(2) v(5,7) [of u] in \<open>simp_all add: v(4)\<close>)
  then show ?thesis using v(1) by (simp add: others_keep_def tframe_def)
qed

lemma stopped_others:
  assumes "stopped A t s s'"
  shows "others_keep A t s s'"
proof -
  note v = stopped_views [OF assms]
  have "due e s' u = due e s u" for e u using v(1) fun_cong [OF v(3), of u] by (simp add: due_def v(4) tframe_def)
  then have "evolves M e s e s' u" if "u \<in> A" "u \<noteq> t" for M e u
    by (intro evolves_same) (use that v(2) v(5,7) [of u] in \<open>simp_all add: v(4)\<close>)
  then show ?thesis using v(1) by (simp add: others_keep_def tframe_def)
qed

lemma others_keep_trans: "others_keep A t s s1 \<Longrightarrow> others_keep A t s1 s' \<Longrightarrow> others_keep A t s s'"
  unfolding others_keep_def using evolves_trans by metis

lemma set_active_simps:
  "has_status tmrSTATUS_IS_ACTIVE u (set_status tmrSTATUS_IS_ACTIVE t s) \<longleftrightarrow> u = t \<or> has_status tmrSTATUS_IS_ACTIVE u s"
  "auto_reload (set_status tmrSTATUS_IS_ACTIVE t s) u = auto_reload s u"
  "has_status tmrSTATUS_IS_ACTIVE u (clear_status tmrSTATUS_IS_ACTIVE t s) \<longleftrightarrow> u \<noteq> t \<and> has_status tmrSTATUS_IS_ACTIVE u s"
  "auto_reload (clear_status tmrSTATUS_IS_ACTIVE t s) u = auto_reload s u"
proof -
  have m: "((x OR tmrSTATUS_IS_ACTIVE) AND tmrSTATUS_IS_ACTIVE) \<noteq> 0" "(x OR tmrSTATUS_IS_ACTIVE) AND tmrSTATUS_IS_AUTORELOAD = x AND tmrSTATUS_IS_AUTORELOAD"
    "(x AND NOT tmrSTATUS_IS_ACTIVE) AND tmrSTATUS_IS_AUTORELOAD = x AND tmrSTATUS_IS_AUTORELOAD"
    "(x AND NOT tmrSTATUS_IS_ACTIVE) AND tmrSTATUS_IS_ACTIVE = 0" for x :: u8
    by (simp_all add: tmrSTATUS_IS_ACTIVE_def tmrSTATUS_IS_AUTORELOAD_def and.assoc bit.conj_disj_distrib2)
  show "has_status tmrSTATUS_IS_ACTIVE u (set_status tmrSTATUS_IS_ACTIVE t s) \<longleftrightarrow> u = t \<or> has_status tmrSTATUS_IS_ACTIVE u s"
    "auto_reload (set_status tmrSTATUS_IS_ACTIVE t s) u = auto_reload s u"
    "has_status tmrSTATUS_IS_ACTIVE u (clear_status tmrSTATUS_IS_ACTIVE t s) \<longleftrightarrow> u \<noteq> t \<and> has_status tmrSTATUS_IS_ACTIVE u s"
    "auto_reload (clear_status tmrSTATUS_IS_ACTIVE t s) u = auto_reload s u"
    using m(1) [of 0] by (simp_all add: has_status_def set_status_def clear_status_def m)
qed

text \<open>Changes of an unlisted timer that the lists do not notice.\<close>

lemma unlisted_lists_ok:
  assumes "lists_ok b s" "\<not> listed s t" "tm_container (f (timer_of s t)) = None"
  shows "lists_ok b (upd_timer t f s)"
proof -
  have n: "t \<notin> set (active s l)" for l using assms(1,2) by (auto simp: lists_ok_def)
  have m: "map (\<lambda>i. tm_value (timer_of (upd_timer t f s) i)) (active s l) = map (\<lambda>i. tm_value (timer_of s i)) (active s l)" for l
    using n [of l] by (intro map_cong) auto
  have "sorted (map (\<lambda>i. tm_value (timer_of (upd_timer t f s) i)) (active s l))" for l
    unfolding m using assms(1) by (simp add: lists_ok_def)
  moreover have "tm_container (timer_of (upd_timer t f s) u) = tm_container (timer_of s u)" for u using assms(2,3) by simp
  moreover have "unat (tm_value (timer_of (upd_timer t f s) u)) < b" if "u \<in> set (active s (pxOverflowTimerList s))" for u
    using that n assms(1) by (auto simp: lists_ok_def)
  ultimately show ?thesis using assms(1) unfolding lists_ok_def by (simp del: upd_timer_simps(1))
qed

lemma upd_others: "others_keep A t s (upd_timer t f s)"
  by (auto simp: others_keep_def due_def has_status_def intro!: evolves_same)

lemma timers_ok_upd:
  assumes "timers_ok F L s" "\<not> listed s t" "tm_container (f (timer_of s t)) = None" "t \<in> F"
  shows "timers_ok F L (upd_timer t f s)"
  using assms unlisted_lists_ok [of "L mod 2 ^ 32" s t f] by (auto simp: timers_ok_def status_ok_def has_status_def)

text \<open>A timer started at \<open>C\<close> and processed at \<open>T\<close>.\<close>

definition started :: "nat \<Rightarrow> nat \<Rightarrow> nat \<Rightarrow> tsys \<Rightarrow> tsys \<Rightarrow> bool" where
  "started C T t s s' \<longleftrightarrow> (let P = period s t; n = (T - C) div P in
     if auto_reload s t then listed s' t \<and> due (epoch T) s' t = C + (n + 1) * P \<and> calls s' t = calls s t + n
     else if C + P \<le> T then \<not> listed s' t \<and> calls s' t = calls s t + 1
     else listed s' t \<and> due (epoch T) s' t = C + P \<and> calls s' t = calls s t)"

lemma scheduled_timers_ok:
  assumes "timers_ok (insert t F) T s" "\<not> listed s t" "scheduled A t E T n s s'" "T < E" "E < T + 2 ^ 32"
    and "has_status tmrSTATUS_IS_ACTIVE t s" "xTimerPeriodInTicks (timer_of s t) \<noteq> 0"
  shows "timers_ok F T s'" "due (epoch T) s' t = E" "listed s' t" "others_keep A t s s'"
proof -
  note v = scheduled_views [OF assms(3)]
  have c: "pxCurrentTimerList s \<noteq> pxOverflowTimerList s" using assms(1) by (simp add: timers_ok_def lists_ok_def)
  have "lists_ok (T mod 2 ^ 32) s'"
    by (rule scheduled_lists_ok [OF _ _ assms(3)]) (use assms(1,2) next_epoch(2) [OF assms(4,5)] in \<open>auto simp: timers_ok_def\<close>)
  moreover have "status_ok F s'" using assms(1,6,7) v(1) unfolding timers_ok_def status_ok_def v(4-6) by (auto simp: tframe_def)
  ultimately show "timers_ok F T s'" using assms(1) v(1) by (simp add: timers_ok_def tframe_def)
  show "due (epoch T) s' t = E" using scheduled_due(1) [OF assms(3) next_epoch(1) [OF assms(4,5)] c] .
  show "listed s' t" by (simp add: v(4))
  show "others_keep A t s s'" by (rule scheduled_others [OF assms(3) c])
qed

text \<open>The commands that the API sends, with the conditions its documentation states: a start carries a time stamp at
  most one turn of the clock old, and no period is zero.\<close>

definition start_command :: "int \<Rightarrow> bool" where
  "start_command i \<longleftrightarrow> i \<in> {tmrCOMMAND_START, tmrCOMMAND_START_FROM_ISR, tmrCOMMAND_RESET, tmrCOMMAND_RESET_FROM_ISR}"

definition stop_command :: "int \<Rightarrow> bool" where
  "stop_command i \<longleftrightarrow> i \<in> {tmrCOMMAND_STOP, tmrCOMMAND_STOP_FROM_ISR}"

definition change_command :: "int \<Rightarrow> bool" where
  "change_command i \<longleftrightarrow> i \<in> {tmrCOMMAND_CHANGE_PERIOD, tmrCOMMAND_CHANGE_PERIOD_FROM_ISR}"

lemmas command_numbers = tmrCOMMAND_START_def tmrCOMMAND_START_FROM_ISR_def tmrCOMMAND_RESET_def tmrCOMMAND_RESET_FROM_ISR_def
  tmrCOMMAND_STOP_def tmrCOMMAND_STOP_FROM_ISR_def tmrCOMMAND_CHANGE_PERIOD_def tmrCOMMAND_CHANGE_PERIOD_FROM_ISR_def
  tmrCOMMAND_DELETE_def tmrFIRST_FROM_ISR_COMMAND_def

lemma command_kinds:
  "start_command i \<Longrightarrow> \<not> stop_command i \<and> \<not> change_command i \<and> i \<noteq> tmrCOMMAND_DELETE"
  "stop_command i \<Longrightarrow> \<not> change_command i \<and> i \<noteq> tmrCOMMAND_DELETE"
  "change_command i \<Longrightarrow> i \<noteq> tmrCOMMAND_DELETE"
  by (auto simp: start_command_def stop_command_def change_command_def command_numbers)

lemma timer_command_start:
  assumes "polite A I cb" "I (qs s)" "timers_ok (insert t F) T s" "\<not> listed s t" "t \<in> A" "start_command i"
    and "C \<le> T" "T < C + 2 ^ 32" "xTimerPeriodInTicks (timer_of s t) \<noteq> 0"
  shows "ensures (timer_command cb i (of_nat C) t (of_nat T) s)
    (\<lambda>s'. timers_ok F T s' \<and> started C T t s s' \<and> others_keep A t s s' \<and> I (qs s'))"
proof -
  let ?s1 = "set_status tmrSTATUS_IS_ACTIVE t s" and ?P = "period s t" and ?k = "T - C"
  let ?s2 = "upd_timer t (\<lambda>x. x\<lparr>tm_value := of_nat (C + ?P)\<rparr>) ?s1"
  have P: "0 < ?P" "?P < 2 ^ 32" "xTimerPeriodInTicks (timer_of s t) = of_nat ?P"
    using assms(9) unsigned_less [of "xTimerPeriodInTicks (timer_of s t)", where ?'a = nat] by (auto simp: unat_gt_0)
  have k: "C + ?k = T" "?k < 2 ^ 32" using assms(7,8) by simp_all
  have x: "timer_of ?s1 t = (timer_of s t)\<lparr>ucStatus := ucStatus (timer_of s t) OR tmrSTATUS_IS_ACTIVE\<rparr>" by (simp add: set_status_def)
  have s1: "timers_ok (insert t F) T ?s1" "others_keep A t s ?s1"
    unfolding set_status_def using assms(3,4) by (auto intro: timers_ok_upd upd_others)
  have s2: "timers_ok (insert t F) T ?s2" "others_keep A t s ?s2" "\<not> listed ?s2 t" "xTimerPeriodInTicks (timer_of ?s2 t) \<noteq> 0" "qs ?s2 = qs s"
    using timers_ok_upd [OF s1(1)] others_keep_trans [OF s1(2) upd_others] assms(4,9) by (simp_all add: x) (simp add: set_status_def)
  have h: "has_status m t ?s2 = has_status m t ?s1" for m by (simp add: has_status_def)
  have st: "has_status tmrSTATUS_IS_ACTIVE t ?s2" "auto_reload ?s2 t = auto_reload s t" "period ?s2 t = ?P" "calls ?s2 t = calls s t"
    unfolding h by (simp_all add: set_active_simps x) (simp add: set_status_def)
  have v: "of_nat C + xTimerPeriodInTicks (timer_of s t) = (of_nat (C + ?P) :: u32)" by simp
  have per: "xTimerPeriodInTicks (timer_of ?s1 t) = of_nat ?P" by (simp add: x)
  have s1': "timer_command cb i (of_nat C) t (of_nat T) s =
      (let (now, z) = prvInsertTimerInActiveList t (of_nat (C + ?P)) (of_nat T) (of_nat C) ?s1
       in if now then process_timer cb t (of_nat (C + ?P)) (of_nat T) z else Inr z)"
    using assms(6) unfolding timer_command_def start_command_def v [symmetric] by (simp add: Let_def x cong: if_cong)
  note ins = insert_now [OF k(2) per P(1,2), of C, unfolded k(1)]
  show ?thesis
  proof (cases "?P \<le> ?k")
    case True
    have X: "C + ?P \<le> T" "C + ?P + (T - (C + ?P)) = T" "T - (C + ?P) < 2 ^ 32" using True assms(7,8) by linarith+
    have c: "timer_command cb i (of_nat C) t (of_nat T) s = process_timer cb t (of_nat (C + ?P)) (of_nat T) ?s2"
      unfolding s1' ins(1) [OF True] by simp
    obtain s' where s': "timer_command cb i (of_nat C) t (of_nat T) s = Inr s'" "processed A t (C + ?P) T ?s2 s'" "I (qs s')"
      using process_timer_ok [OF assms(1) _ X(3) s2(4), of "C + ?P"] assms(2) s2(5) unfolding X(2) c by (auto simp: ensures_def)
    show ?thesis
    proof (cases "auto_reload s t")
      case a: True
      let ?m = "(T - (C + ?P)) div ?P + 1"
      have m: "?m = (T - C) div ?P" using True P(1) by (simp add: le_div_geq)
      have E: "C + ?P + (T - C) div ?P * ?P = C + ((T - C) div ?P + 1) * ?P" by simp
      have sc: "scheduled A t (C + ((T - C) div ?P + 1) * ?P) T ((T - C) div ?P) ?s2 s'"
        using s'(2) a unfolding processed_def Let_def st by (simp only: if_True m E)
      have lt: "T < C + ((T - C) div ?P + 1) * ?P" "C + ((T - C) div ?P + 1) * ?P < T + 2 ^ 32"
        using next_expiry [OF assms(7) P(1)] P(2) by linarith+
      note r = scheduled_timers_ok [OF s2(1,3) sc lt st(1) s2(4)]
      have "started C T t s s'" using a r st(4) scheduled_views(2) [OF sc] by (simp add: started_def)
      then show ?thesis using s'(1,3) r(1) others_keep_trans [OF s2(2) r(4)] by simp
    next
      case a: False
      have sp: "stopped A t ?s2 s'" using s'(2) a unfolding processed_def Let_def st by simp
      note w = stopped_views [OF sp]
      have "timers_ok F T s'" using s2(1,3) w(1) stopped_lists_ok [OF sp] unfolding timers_ok_def status_ok_def w(4-6)
        by (auto simp: tframe_def)
      moreover have "started C T t s s'" using a s2(3) w X(1) st(4) by (simp add: started_def)
      ultimately show ?thesis using s'(1,3) others_keep_trans [OF s2(2) stopped_others [OF sp]] by simp
    qed
  next
    case False
    then have f: "?k < ?P" by simp
    let ?s' = "timer_insert (list_for (C + ?P) T ?s2) t ?s2"
    have l: "list_for (C + ?P) T ?s1 = list_for (C + ?P) T ?s2" by (simp add: list_for_def)
    have c: "timer_command cb i (of_nat C) t (of_nat T) s = Inr ?s'" unfolding s1' ins(2) [OF f] l by simp
    have sc: "scheduled A t (C + ?P) T 0 ?s2 ?s'"
      using scheduled_insert [of A t "C + ?P" T ?s2] by (simp add: list_for_def upd_timer_def)
    have lt: "T < C + ?P" "C + ?P < T + 2 ^ 32" using f assms(7) P(2) by linarith+
    note r = scheduled_timers_ok [OF s2(1,3) sc lt st(1) s2(4)]
    have "(T - C) div ?P = 0" using f by simp
    then have "started C T t s ?s'" using r st(4) scheduled_views(2) [OF sc] lt by (simp add: started_def)
    then show ?thesis using c r(1) others_keep_trans [OF s2(2) r(4)] assms(2) s2(5) by (simp add: timer_insert_def)
  qed
qed

lemma timers_ok_stop:
  assumes "timers_ok (insert t F) T s" "\<not> listed s t"
  shows "timers_ok F T (clear_status tmrSTATUS_IS_ACTIVE t s)"
proof -
  let ?s = "clear_status tmrSTATUS_IS_ACTIVE t s"
  have "timers_ok (insert t F) T ?s" unfolding clear_status_def using assms by (auto intro: timers_ok_upd)
  moreover have "\<not> has_status tmrSTATUS_IS_ACTIVE t ?s" by (simp add: set_active_simps)
  ultimately show ?thesis by (auto simp: timers_ok_def status_ok_def)
qed

lemma timer_command_stop:
  assumes "timers_ok (insert t F) T s" "\<not> listed s t" "stop_command i"
  shows "timer_command cb i v t now s = Inr (clear_status tmrSTATUS_IS_ACTIVE t s)"
    "timers_ok F T (clear_status tmrSTATUS_IS_ACTIVE t s)" "others_keep A t s (clear_status tmrSTATUS_IS_ACTIVE t s)"
    "\<not> listed (clear_status tmrSTATUS_IS_ACTIVE t s) t"
proof -
  show "timer_command cb i v t now s = Inr (clear_status tmrSTATUS_IS_ACTIVE t s)"
    using assms(3) by (auto simp: timer_command_def stop_command_def command_numbers)
  show "timers_ok F T (clear_status tmrSTATUS_IS_ACTIVE t s)" by (rule timers_ok_stop [OF assms(1,2)])
  show "others_keep A t s (clear_status tmrSTATUS_IS_ACTIVE t s)" "\<not> listed (clear_status tmrSTATUS_IS_ACTIVE t s) t"
    using assms(2) upd_others by (simp_all add: clear_status_def)
qed

text \<open>After a change of the period the timer expires one new period from now.\<close>

lemma timer_command_change:
  assumes "timers_ok (insert t F) T s" "\<not> listed s t" "change_command i" "v \<noteq> 0"
  shows "\<exists>s'. timer_command cb i v t (of_nat T) s = Inr s' \<and> timers_ok F T s' \<and> others_keep A t s s' \<and> qs s' = qs s \<and>
    listed s' t \<and> due (epoch T) s' t = T + unat v \<and> xTimerPeriodInTicks (timer_of s' t) = v \<and> calls s' t = calls s t"
proof -
  let ?f = "\<lambda>x. x\<lparr>xTimerPeriodInTicks := v, ucStatus := ucStatus x OR tmrSTATUS_IS_ACTIVE\<rparr>"
  let ?s2 = "upd_timer t (\<lambda>x. x\<lparr>xTimerPeriodInTicks := v\<rparr>) (set_status tmrSTATUS_IS_ACTIVE t s)"
  let ?s3 = "upd_timer t (\<lambda>x. x\<lparr>tm_value := of_nat (T + unat v)\<rparr>) ?s2"
  let ?s' = "timer_insert (list_for (T + unat v) T ?s3) t ?s3"
  have P: "0 < unat v" "unat v < 2 ^ 32" "v = of_nat (unat v)"
    using assms(4) unsigned_less [of v, where ?'a = nat] by (auto simp: unat_gt_0)
  have ok: "timers_ok (insert t F) T ?s3" "\<not> listed ?s3 t" "others_keep A t s ?s3" "xTimerPeriodInTicks (timer_of ?s3 t) = v" "qs ?s3 = qs s" "calls ?s3 t = calls s t"
  proof -
    have 1: "timers_ok (insert t F) T (set_status tmrSTATUS_IS_ACTIVE t s)" "\<not> listed (set_status tmrSTATUS_IS_ACTIVE t s) t"
      unfolding set_status_def using assms(1,2) by (auto intro: timers_ok_upd)
    have "timers_ok (insert t F) T ?s2" by (rule timers_ok_upd) (use 1 in simp_all)
    then show "timers_ok (insert t F) T ?s3" by (rule timers_ok_upd) (use 1 in simp_all)
    show "\<not> listed ?s3 t" using 1(2) by simp
    show "others_keep A t s ?s3"
      unfolding set_status_def by (rule others_keep_trans [OF upd_others others_keep_trans [OF upd_others upd_others]])
    show "xTimerPeriodInTicks (timer_of ?s3 t) = v" "qs ?s3 = qs s" "calls ?s3 t = calls s t"
      by (simp_all add: set_status_def)
  qed
  have a: "has_status tmrSTATUS_IS_ACTIVE t ?s3"
    using set_active_simps(1) [of t t s] by (simp add: has_status_def)
  have l: "list_for (T + unat v) T ?s2 = list_for (T + unat v) T ?s3" by (simp add: list_for_def)
  have "xTimerPeriodInTicks (timer_of ?s2 t) = of_nat (unat v)" by simp
  note insert_now(2) [OF _ this P(1,2), of 0 T, simplified add_0_right]
  from this [OF _ P(1)] have "prvInsertTimerInActiveList t (of_nat (T + unat v)) (of_nat T) (of_nat T) ?s2 = (False, ?s')"
    by (simp add: l del: of_nat_add)
  then have "timer_command cb i v t (of_nat T) s = Inr ?s'"
    using assms(3) P(3) by (auto simp: timer_command_def change_command_def command_numbers)
  moreover have sc: "scheduled A t (T + unat v) T 0 ?s3 ?s'"
    using scheduled_insert [of A t "T + unat v" T ?s3] by (simp add: list_for_def upd_timer_def)
  note r = scheduled_timers_ok [OF ok(1,2) sc _ _ a]
  have "timers_ok F T ?s'" "due (epoch T) ?s' t = T + unat v" "listed ?s' t" "others_keep A t ?s3 ?s'"
    using r P(1,2) ok(4) assms(4) by simp_all
  ultimately show ?thesis
    using others_keep_trans [OF ok(3)] ok(4-6) scheduled_views(2,5) [OF sc] by (intro exI [of _ ?s']) (simp add: timer_insert_def)
qed

lemma timer_command_delete:
  assumes "timers_ok (insert t F) T s" "\<not> listed s t"
  shows "\<exists>s'. timer_command cb tmrCOMMAND_DELETE v t now s = Inr s' \<and> timers_ok F T s' \<and> others_keep A t s s' \<and> qs s' = qs s \<and>
    \<not> listed s' t \<and> (\<not> has_status tmrSTATUS_IS_STATICALLY_ALLOCATED t s \<longrightarrow> tm_freed s' = tm_freed s @ [t])"
proof (cases "has_status tmrSTATUS_IS_STATICALLY_ALLOCATED t s")
  case True
  let ?s = "clear_status tmrSTATUS_IS_ACTIVE t s"
  have "timer_command cb tmrCOMMAND_DELETE v t now s = Inr ?s" using True by (simp add: timer_command_def command_numbers)
  moreover have "others_keep A t s ?s" "\<not> listed ?s t" "qs ?s = qs s" using assms(2) upd_others by (simp_all add: clear_status_def)
  ultimately show ?thesis using True timers_ok_stop [OF assms] by simp
next
  case False
  let ?s = "s\<lparr>tm_freed := tm_freed s @ [t]\<rparr>"
  have "timer_command cb tmrCOMMAND_DELETE v t now s = Inr ?s" using False by (simp add: timer_command_def command_numbers)
  moreover have "timers_ok F T ?s" using assms by (auto simp: timers_ok_def lists_ok_def status_ok_def has_status_def)
  moreover have "others_keep A t s ?s" by (auto simp: others_keep_def due_def has_status_def intro!: evolves_same)
  ultimately show ?thesis using assms(2) by simp
qed

section \<open>Messages\<close>

text \<open>The messages that the functions of the API send, when the command is carried out at \<open>T\<close>.\<close>

definition proper :: "nat \<Rightarrow> tsys \<Rightarrow> message \<Rightarrow> bool" where
  "proper T s m \<longleftrightarrow> (case xMessage_u m of xCallbackParameters f a b \<Rightarrow> True
     | xTimerParameters v p \<Rightarrow> (\<forall>t. p = Some t \<longrightarrow> (let i = xMessageID m in
         start_command i \<and> (\<exists>C \<le> T. T < C + 2 ^ 32 \<and> v = of_nat C) \<and> xTimerPeriodInTicks (timer_of s t) \<noteq> 0 \<or>
         stop_command i \<or> change_command i \<and> v \<noteq> 0 \<or> i = tmrCOMMAND_DELETE)))"

lemma timer_command_ok:
  assumes "polite A I cb" "I (qs s)" "timers_ok (insert t F) T s" "\<not> listed s t" "t \<in> A"
    and "proper T s (Message i (xTimerParameters v (Some t)))"
  shows "ensures (timer_command cb i v t (of_nat T) s) (\<lambda>s'. timers_ok F T s' \<and> others_keep A t s s' \<and> I (qs s'))"
proof -
  consider C where "start_command i" "C \<le> T" "T < C + 2 ^ 32" "v = of_nat C" "xTimerPeriodInTicks (timer_of s t) \<noteq> 0"
    | "stop_command i" | "change_command i" "v \<noteq> 0" | "i = tmrCOMMAND_DELETE"
    using assms(6) by (auto simp: proper_def Let_def)
  then show ?thesis
  proof cases
    case 1
    show ?thesis unfolding 1(4) by (rule ensures_mono [OF timer_command_start [OF assms(1-5) 1(1-3,5)]]) simp
  next
    case 2
    from timer_command_stop [OF assms(3,4) 2] assms(2) show ?thesis by (simp add: clear_status_def)
  next
    case 3
    from timer_command_change [OF assms(3,4) 3, of cb A] obtain s' where "timer_command cb i v t (of_nat T) s = Inr s'"
      "timers_ok F T s'" "others_keep A t s s'" "qs s' = qs s" by blast
    then show ?thesis using assms(2) by simp
  next
    case 4
    from timer_command_delete [OF assms(3,4), of cb v "of_nat T" A] obtain s' where
      "timer_command cb i v t (of_nat T) s = Inr s'" "timers_ok F T s'" "others_keep A t s s'" "qs s' = qs s" unfolding 4 by blast
    then show ?thesis using assms(2) by simp
  qed
qed

text \<open>The timer a message is for.\<close>

fun addressee :: "message \<Rightarrow> ptr" where
  "addressee (Message i (xTimerParameters v p)) = p"
| "addressee (Message i (xCallbackParameters f a b)) = None"

definition polite_function :: "nat set \<Rightarrow> (qsys \<Rightarrow> bool) \<Rightarrow> pended_function \<Rightarrow> bool" where
  "polite_function A I pf \<longleftrightarrow> (\<forall>f a b s. I (qs s) \<longrightarrow> ensures (pf f a b s) (\<lambda>s'. undisturbed A s s' \<and> I (qs s')))"

lemma extracted_evolves: "u \<noteq> t \<Longrightarrow> evolves N e s e (extracted t L s) u"
  by (rule evolves_same) (simp_all add: extracted_due)

lemma timers_ok_extracted:
  assumes "timers_ok F L s"
  shows "\<exists>s1. (if tm_container (timer_of s t) \<noteq> None then timer_remove t s else Inr s) = Inr s1 \<and> timers_ok (insert t F) L s1 \<and>
    \<not> listed s1 t \<and> qs s1 = qs s \<and> xTimerQueue s1 = xTimerQueue s \<and> auto_reload s1 t = auto_reload s t \<and> calls s1 t = calls s t \<and>
    xTimerPeriodInTicks (timer_of s1 t) = xTimerPeriodInTicks (timer_of s t) \<and> (\<forall>u N e. u \<noteq> t \<longrightarrow> evolves N e s e s1 u)"
proof (cases "tm_container (timer_of s t)")
  case None
  have "timers_ok (insert t F) L s" using assms by (auto simp: timers_ok_def status_ok_def)
  with None show ?thesis by (simp add: evolves_refl)
next
  case (Some K)
  have "timers_ok (insert t F) L (extracted t K s)"
    using assms extracted_lists_ok [OF _ Some] extracted_status_ok by (simp add: timers_ok_def)
  then show ?thesis using Some timer_remove_eq [OF Some] extracted_evolves by simp
qed

text \<open>A command for a timer is carried out when the timer is out of its list and the clock has been sampled.\<close>

lemma process_message_begin:
  assumes "polite A I cb" "I (qs s)" "timers_ok F L s" "tick_now s = of_nat T" "L \<le> T" "T < L + 2 ^ 32" "t \<in> A"
  obtains s2 where
    "process_message cb pf (Message i (xTimerParameters v (Some t))) s = timer_command cb i v t (of_nat T) s2"
    "timers_ok (insert t F) T s2" "\<not> listed s2 t" "I (qs s2)" "xTimerQueue s2 = xTimerQueue s"
    "xTimerPeriodInTicks (timer_of s2 t) = xTimerPeriodInTicks (timer_of s t)" "auto_reload s2 t = auto_reload s t"
    "calls s2 t = calls s t" "\<And>u. u \<in> A \<Longrightarrow> u \<noteq> t \<Longrightarrow> evolves T (epoch L) s (epoch T) s2 u"
proof -
  obtain s1 where s1: "(if tm_container (timer_of s t) \<noteq> None then timer_remove t s else Inr s) = Inr s1"
    "timers_ok (insert t F) L s1" "\<not> listed s1 t" "qs s1 = qs s" "xTimerQueue s1 = xTimerQueue s"
    "xTimerPeriodInTicks (timer_of s1 t) = xTimerPeriodInTicks (timer_of s t)" "auto_reload s1 t = auto_reload s t"
    "calls s1 t = calls s t" "\<And>u N e. u \<noteq> t \<Longrightarrow> evolves N e s e s1 u"
    using timers_ok_extracted [OF assms(3), of t] by blast
  have "tick_now s1 = of_nat T" using assms(4) s1(4) by (simp add: tick_now_def)
  from prvSampleTimeNow_ok [OF assms(1) _ s1(2) this assms(5,6)] assms(2) s1(4)
  obtain sw s2 where s2: "prvSampleTimeNow cb s1 = Inr ((of_nat T, sw), s2)" "timers_ok (insert t F) T s2"
    "xTimerQueue s2 = xTimerQueue s1" "I (qs s2)" "\<And>u. u \<in> A \<Longrightarrow> evolves T (epoch L) s1 (epoch T) s2 u"
    by (auto simp: ensures_def)
  have t2: "\<not> listed s2 t" "xTimerPeriodInTicks (timer_of s2 t) = xTimerPeriodInTicks (timer_of s1 t)"
    "auto_reload s2 t = auto_reload s1 t" "calls s2 t = calls s1 t"
    using s2(5) [OF assms(7)] s1(3) by (simp_all add: evolves_def)
  show ?thesis
  proof (rule that [of s2])
    show "process_message cb pf (Message i (xTimerParameters v (Some t))) s = timer_command cb i v t (of_nat T) s2"
      using s1(1) s2(1) by (simp add: process_message_def)
  next
    fix u assume u: "u \<in> A" "u \<noteq> t"
    show "evolves T (epoch L) s (epoch T) s2 u" using evolves_trans [OF s1(9) [OF u(2)] s2(5) [OF u(1)]] .
  qed (use s1 s2 t2 in simp_all)
qed

lemma process_message_ok:
  assumes "polite A I cb" "polite_function A I pf" "I (qs s)" "timers_ok F L s" "tick_now s = of_nat T" "L \<le> T" "T < L + 2 ^ 32"
    and "proper T s m" "\<forall>t. addressee m = Some t \<longrightarrow> t \<in> A"
  defines "L' \<equiv> if addressee m = None then L else T"
  shows "ensures (process_message cb pf m s) (\<lambda>s'. timers_ok F L' s' \<and> xTimerQueue s' = xTimerQueue s \<and> I (qs s') \<and>
    (\<forall>u \<in> A. addressee m \<noteq> Some u \<longrightarrow> evolves T (epoch L) s (epoch L') s' u))"
proof (cases "xMessage_u m")
  case (xCallbackParameters f a b)
  obtain s' where s': "pf f a b s = Inr s'" "undisturbed A s s'" "I (qs s')"
    using assms(2,3) unfolding polite_function_def ensures_def by blast
  have "addressee m = None" using xCallbackParameters by (cases m) simp
  moreover have "timers_ok F L s'" using assms(4) s'(2) undisturbed_lists_ok undisturbed_status_ok undisturbed_views(9)
    by (simp add: timers_ok_def)
  ultimately show ?thesis
    using s' xCallbackParameters undisturbed_evolves [OF s'(2)] undisturbed_views(10) [OF s'(2)] by (simp add: process_message_def L'_def)
next
  case (xTimerParameters v p)
  show ?thesis
  proof (cases p)
    case None
    then show ?thesis using xTimerParameters assms(3,4) evolves_refl by (cases m) (simp add: process_message_def L'_def)
  next
    case (Some t)
    obtain i where m: "m = Message i (xTimerParameters v (Some t))" using xTimerParameters Some by (cases m) simp
    have A: "t \<in> A" using assms(9) m by simp
    obtain s2 where s2: "process_message cb pf m s = timer_command cb i v t (of_nat T) s2" "timers_ok (insert t F) T s2"
      "\<not> listed s2 t" "I (qs s2)" "xTimerQueue s2 = xTimerQueue s"
      "xTimerPeriodInTicks (timer_of s2 t) = xTimerPeriodInTicks (timer_of s t)" "auto_reload s2 t = auto_reload s t"
      "calls s2 t = calls s t" "\<And>u. u \<in> A \<Longrightarrow> u \<noteq> t \<Longrightarrow> evolves T (epoch L) s (epoch T) s2 u"
      by (rule process_message_begin [OF assms(1,3-7) A, of pf i v]) (rule that [unfolded m])
    have "proper T s2 (Message i (xTimerParameters v (Some t)))" using assms(8) s2(6) m by (simp add: proper_def Let_def)
    from timer_command_ok [OF assms(1) s2(4,2,3) A this]
    obtain s' where s': "timer_command cb i v t (of_nat T) s2 = Inr s'" "timers_ok F T s'" "others_keep A t s2 s'" "I (qs s')"
      by (auto simp: ensures_def)
    have ev: "evolves T (epoch L) s (epoch T) s' u" if "u \<in> A" "u \<noteq> t" for u
      by (rule evolves_trans [OF s2(9) [OF that]]) (use s'(3) that in \<open>simp add: others_keep_def\<close>)
    have "xTimerQueue s' = xTimerQueue s" using s'(3) s2(5) by (simp add: others_keep_def)
    moreover have "addressee m = Some t" using m by simp
    ultimately show ?thesis unfolding s2(1) s'(1) using s'(2,4) ev by (simp add: L'_def)
  qed
qed

text \<open>A start command, sent at \<open>C\<close> and carried out at \<open>T\<close>.\<close>

lemma process_start_ok:
  assumes "polite A I cb" "I (qs s)" "timers_ok F L s" "tick_now s = of_nat T" "L \<le> T" "T < L + 2 ^ 32" "t \<in> A"
    and "start_command i" "C \<le> T" "T < C + 2 ^ 32" "xTimerPeriodInTicks (timer_of s t) \<noteq> 0"
  shows "ensures (process_message cb pf (Message i (xTimerParameters (of_nat C) (Some t))) s)
    (\<lambda>s'. timers_ok F T s' \<and> started C T t s s' \<and> I (qs s') \<and> (\<forall>u \<in> A. u \<noteq> t \<longrightarrow> evolves T (epoch L) s (epoch T) s' u))"
proof -
  obtain s2 where s2: "process_message cb pf (Message i (xTimerParameters (of_nat C) (Some t))) s = timer_command cb i (of_nat C) t (of_nat T) s2"
    "timers_ok (insert t F) T s2" "\<not> listed s2 t" "I (qs s2)" "xTimerQueue s2 = xTimerQueue s"
    "xTimerPeriodInTicks (timer_of s2 t) = xTimerPeriodInTicks (timer_of s t)"
    "auto_reload s2 t = auto_reload s t" "calls s2 t = calls s t" "\<And>u. u \<in> A \<Longrightarrow> u \<noteq> t \<Longrightarrow> evolves T (epoch L) s (epoch T) s2 u"
    by (rule process_message_begin [OF assms(1-7), of pf i "of_nat C"]) (rule that)
  have "xTimerPeriodInTicks (timer_of s2 t) \<noteq> 0" using assms(11) s2(6) by simp
  from timer_command_start [OF assms(1) s2(4,2,3) assms(7-10) this]
  obtain s' where s': "timer_command cb i (of_nat C) t (of_nat T) s2 = Inr s'" "timers_ok F T s'" "started C T t s2 s'"
    "others_keep A t s2 s'" "I (qs s')" by (auto simp: ensures_def)
  have "started C T t s s'" using s'(3) by (simp only: started_def s2(6-8))
  moreover have "evolves T (epoch L) s (epoch T) s' u" if "u \<in> A" "u \<noteq> t" for u
    by (rule evolves_trans [OF s2(9) [OF that]]) (use s'(4) that in \<open>simp add: others_keep_def\<close>)
  ultimately show ?thesis unfolding s2(1) s'(1) using s'(2,5) by simp
qed

end
