(* ===== verification/TimerSteps.thy ===== *)
theory TimerSteps
  imports TimerDaemon EventGroupProps QueueSteps
begin

text \<open>
  The service task in the running system: how it waits for a message or for the next expiry, and the steps of tasks,
  interrupts and of the service task in any order, against the clock that does not wrap around.
\<close>

declare all_cores [simp del] ex_core [simp del]

section \<open>Waiting for a message\<close>

lemma vTaskPlaceOnEventListRestricted_ok:
  fixes ticks :: u32 and forever :: bool
  assumes st: "stable s" and c: "c < configNUMBER_OF_CORES" and w: "waiters_wf s" and r: "on_ready c s"
    and live: "\<not> idle_task s (cur s c)" and n: "forever \<or> ticks \<noteq> 0"
  shows "ensures (vTaskPlaceOnEventListRestricted c (EventL m) ticks forever (s\<lparr>uxSchedulerSuspended := 1\<rparr>))
    (\<lambda>s1. halted c s1 \<and> waits_for c m (if forever then None else Some (unat ticks)) (lists s (EventL m) @ [cur s c]) (event_item s) s
      (portYIELD c (s1\<lparr>uxSchedulerSuspended := 0\<rparr>)))"
proof -
  let ?s = "s\<lparr>uxSchedulerSuspended := 1\<rparr>" and ?t = "cur s c" and ?n = "if forever then portMAX_DELAY else ticks"
  let ?e = "event_insert_end (EventL m) ?t ?s" and ?xs = "lists s (EventL m) @ [?t]"
  have k: "kinv ?s" using st by (simp add: stable_iff [OF c] basic_def)
  have cur: "cur ?s = cur s" by (simp add: cur_def fun_eq_iff)
  have "eventContainer (tcb ?s ?t) = None" using waiting_delayed [OF _ w, of ?t] k r by (auto simp: on_ready_def)
  then have "kinv ?e" by (rule kinv_event_insert(2) [OF k]) simp
  then have "entered ?t m ?xs (event_item s) ?s ?e"
    unfolding entered_def by (simp add: event_insert_end_def prim_defs event_item_def [abs_def])
  moreover have "?n \<noteq> 0" using n by (auto simp: portMAX_DELAY_def)
  moreover have "(if ?n = portMAX_DELAY \<and> forever then None else Some (unat ?n)) = (if forever then None else Some (unat ticks))" by simp
  ultimately show ?thesis using place_for_ok [OF st c r live, of ?n m ?xs "event_item s" ?e forever] current_eq [OF k c]
    by (simp add: vTaskPlaceOnEventListRestricted_def cur [unfolded One_nat_def])
qed

text \<open>The end of a wait, however the task got out of the queue.\<close>

lemma resume_and_switch:
  assumes "halted c k" "c < configNUMBER_OF_CORES"
  shows "\<exists>y k'. xTaskResumeAll c (kick c k) = Inr (y, k') \<and>
    (if y then k' else vTaskYieldWithinAPI c k') = portYIELD c (k\<lparr>uxSchedulerSuspended := 0\<rparr>)"
proof -
  have f: "xSchedulerRunning (kick c k)" "uxCriticalNestings (kick c k) c = 0" "uxSchedulerSuspended (kick c k) = 1"
    "lists (kick c k) PendingReadyL = []" "xPendedTicks (kick c k) = 0"
    using assms by (simp_all add: halted_def basic_def nestings_def)
  obtain y k' where r: "xTaskResumeAll c (kick c k) = Inr (y, k')" using xTaskResumeAll_eq [OF f] by blast
  show ?thesis using r resume_yield_eq [OF f r] by (simp flip: kick_susp)
qed

lemma waits_for_waiters_wf:
  assumes "waits_for c m w xs v k k'" "waiters_wf k"
  shows "waiters_wf k'"
  unfolding waiters_wf_def
proof (intro allI impI)
  fix t assume e: "eventContainer (tcb k' t) \<noteq> None"
  show "stateContainer (tcb k' t) \<in> {Some DelayedL1, Some DelayedL2, Some SuspendedL}"
  proof (cases "t = cur k c")
    case True
    then show ?thesis using assms(1) by (cases w) (auto simp: waits_for_def remaining_def sleeping_def split: if_splits)
  next
    case False
    then show ?thesis using assms e by (simp add: waits_for_def waiters_wf_def)
  qed
qed

text \<open>The service task waits, at the end of the event list of its queue, unless there is a message already.\<close>

definition service_waits :: "nat \<Rightarrow> nat \<Rightarrow> nat option \<Rightarrow> qsys \<Rightarrow> kernel \<Rightarrow> bool" where
  "service_waits c q w s k \<longleftrightarrow>
     (if uxMessagesWaiting (queue_of s q) = 0 then
        waits_for c (2 * q + 1) w (lists (kern s) (EventL (2 * q + 1)) @ [cur (kern s) c]) (event_item (kern s)) (kern s) k
      else k = portYIELD c (kern s))"

lemma waits_for_kick: "waits_for c m w xs (event_item (kick c k)) (kick c k) k' = waits_for c m w xs (event_item k) k k'"
proof -
  have "remaining (kick c k) = remaining k" "event_item (kick c k) = event_item k"
    by (simp_all add: remaining_def sleeping_def event_item_def fun_eq_iff)
  then show ?thesis by (cases w) (simp_all add: waits_for_def)
qed

lemma block_for_message_ok:
  assumes st: "stable (kern (qs s))" and w: "waiters_wf (kern (qs s))" and cl: "caller c (kern (qs s))" and q: "xTimerQueue s = Some q"
    and wf: "unlocked (queue_of (qs s) q)" and n: "indefinitely \<or> ticks \<noteq> 0"
  shows "ensures (block_for_message c ticks indefinitely (upd_tkern vTaskSuspendAll s)) (\<lambda>s'. \<exists>k. s' = upd_tkern (\<lambda>_. k) s \<and>
    stable k \<and> waiters_wf k \<and> service_waits c q (if indefinitely then None else Some (unat ticks)) (qs s) k)"
proof -
  let ?q = "qs s" and ?h = "kick c (kern (qs s))"
  have c: "c < configNUMBER_OF_CORES" using cl by (simp add: caller_def)
  have h: "stable ?h" "waiters_wf ?h" "on_ready c ?h" "\<not> idle_task ?h (cur ?h c)"
    using st w cl stable_kick runs_on_ready by (simp_all add: waiters_wf_def caller_def on_ready_def idle_task_def runs_def)
  note lk = wait_begin(1) [OF st cl, of q]
  let ?b = "uxMessagesWaiting (queue_of ?q q) = 0"
  have end_: "ensures (bindE (prvUnlockQueue c q (upd_kern (\<lambda>_. k) (waiting_state c q ?q))) (\<lambda>z.
      bindE (on_qs (on_kern (xTaskResumeAll c)) (s\<lparr>qs := z\<rparr>)) (\<lambda>(yielded, s2).
        Inr (if yielded then s2 else upd_tkern (vTaskYieldWithinAPI c) s2))))
      (\<lambda>s'. s' = upd_tkern (\<lambda>_. portYIELD c (k\<lparr>uxSchedulerSuspended := 0\<rparr>)) s)" if k: "halted c k" for k
  proof -
    have f: "xSchedulerRunning k" "uxCriticalNestings k c = 0" using k c by (simp_all add: halted_def basic_def nestings_def)
    obtain y k' where r: "xTaskResumeAll c (kick c k) = Inr (y, k')"
      "(if y then k' else vTaskYieldWithinAPI c k') = portYIELD c (k\<lparr>uxSchedulerSuspended := 0\<rparr>)"
      using resume_and_switch [OF k c] by blast
    show ?thesis unfolding wait_unlock [OF wf f] using r
      by (auto simp: on_qs_def on_kern_def upd_kern_def upd_tkern_def split: if_splits)
  qed
  have m: "uxMessagesWaiting (queue_of (waiting_state c q ?q) q) = uxMessagesWaiting (queue_of ?q q)" by (simp add: lock_def)
  have run: "block_for_message c ticks indefinitely (upd_tkern vTaskSuspendAll s) =
      bindE (if ?b then on_kern1 (vTaskPlaceOnEventListRestricted c (EventL (2 * q + 1)) ticks indefinitely) (waiting_state c q ?q)
        else Inr (waiting_state c q ?q)) (\<lambda>z. bindE (prvUnlockQueue c q z) (\<lambda>z.
      bindE (on_qs (on_kern (xTaskResumeAll c)) (s\<lparr>qs := z\<rparr>)) (\<lambda>(yielded, s2).
        Inr (if yielded then s2 else upd_tkern (vTaskYieldWithinAPI c) s2))))"
    using lk m q by (simp add: block_for_message_def on_qs1_def vQueueWaitForMessageRestricted_def upd_tkern_def
        xTasksWaitingToReceive_def bindE_assoc)
  show ?thesis
  proof (cases ?b)
    case True
    obtain k where k: "vTaskPlaceOnEventListRestricted c (EventL (2 * q + 1)) ticks indefinitely (?h\<lparr>uxSchedulerSuspended := 1\<rparr>) = Inr k"
      "halted c k" "waits_for c (2 * q + 1) (if indefinitely then None else Some (unat ticks)) (lists ?h (EventL (2 * q + 1)) @ [cur ?h c])
        (event_item ?h) ?h (portYIELD c (k\<lparr>uxSchedulerSuspended := 0\<rparr>))"
      using vTaskPlaceOnEventListRestricted_ok [OF h(1) c h(2-4) n] by (auto simp: ensures_def)
    let ?k = "portYIELD c (k\<lparr>uxSchedulerSuspended := 0\<rparr>)"
    have p: "on_kern1 (vTaskPlaceOnEventListRestricted c (EventL (2 * q + 1)) ticks indefinitely) (waiting_state c q ?q) =
        Inr (upd_kern (\<lambda>_. k) (waiting_state c q ?q))"
      using k(1) by (simp add: on_kern1_def upd_kern_def)
    have sw: "service_waits c q (if indefinitely then None else Some (unat ticks)) ?q ?k"
      using True k(3) unfolding service_waits_def waits_for_kick by simp
    have "waiters_wf ?k" using waits_for_waiters_wf [OF k(3)] h(2) by simp
    then have "stable ?k \<and> waiters_wf ?k \<and> service_waits c q (if indefinitely then None else Some (unat ticks)) ?q ?k"
      using sw halted_stable [OF k(2) c] by simp
    then show ?thesis unfolding run if_P [OF True] p bindE_simps
      by (intro ensures_mono [OF end_ [OF k(2)]] exI [of _ ?k] conjI) simp_all
  next
    case False
    let ?k = "?h\<lparr>uxSchedulerSuspended := 1\<rparr>"
    have "held 1 ?k" using held_suspend [of 0 ?h] h(1) stable_vTaskSuspendAll [OF h(1)] by (simp add: held_stable)
    then have hk: "halted c ?k" using held_iff [OF c] by (simp add: halted_def pended_def)
    have z: "waiting_state c q ?q = upd_kern (\<lambda>_. ?k) (waiting_state c q ?q)" by (simp add: upd_kern_def waiting_state_def)
    have y: "portYIELD c (?k\<lparr>uxSchedulerSuspended := 0\<rparr>) = portYIELD c (kern (qs s))"
      using st by (simp add: stable_def portYIELD_def kick_def)
    have "stable (portYIELD c (kern (qs s)))" using halted_stable [OF hk c] unfolding y .
    moreover have "waiters_wf (portYIELD c (kern (qs s)))" using w by (simp add: waiters_wf_def portYIELD_def)
    ultimately have "stable (portYIELD c (kern ?q)) \<and> waiters_wf (portYIELD c (kern ?q)) \<and>
        service_waits c q (if indefinitely then None else Some (unat ticks)) ?q (portYIELD c (kern ?q))"
      using False by (simp add: service_waits_def)
    then show ?thesis unfolding run if_not_P [OF False] bindE_simps
      by (intro ensures_mono [OF end_ [OF hk, unfolded y, folded z]] exI [of _ "portYIELD c (kern ?q)"] conjI) simp_all
  qed
qed

section \<open>One round of the service task\<close>

text \<open>The queues and the kernel, with the scheduler suspended \<open>d\<close> times.\<close>

definition sys_at :: "nat \<Rightarrow> nat set \<Rightarrow> qsys \<Rightarrow> bool" where
  "sys_at d D z \<longleftrightarrow> held d (kern z) \<and> waiters_wf (kern z) \<and> (\<forall>q \<in> D. queue_wf (queue_of z q))"

lemma sys_at_0: "sys_at 0 D z = sys_ok D z"
  by (simp add: sys_at_def sys_ok_def held_stable)

lemma sys_suspend: "sys_at d D z \<Longrightarrow> sys_at (Suc d) D (upd_kern vTaskSuspendAll z)"
  using held_suspend by (auto simp: sys_at_def upd_kern_def waiters_wf_def vTaskSuspendAll_def)

lemma sys_resume:
  assumes "sys_at 1 D (qs s)" "c < configNUMBER_OF_CORES"
  shows "\<exists>b s'. on_qs (on_kern (xTaskResumeAll c)) s = Inr (b, s') \<and> sys_at 0 D (qs s') \<and> undisturbed A s s'"
proof -
  have h: "held 1 (kern (qs s))" using assms(1) by (simp add: sys_at_def)
  obtain b where "xTaskResumeAll c (kern (qs s)) = Inr (b, kick c (kern (qs s)\<lparr>uxSchedulerSuspended := 0\<rparr>))"
    using held_resume [of 0 "kern (qs s)" c] h assms(2) by auto
  then have r: "on_qs (on_kern (xTaskResumeAll c)) s = Inr (b, upd_tkern (\<lambda>k. kick c (k\<lparr>uxSchedulerSuspended := 0\<rparr>)) s)"
    by (simp add: on_qs_def on_kern_def upd_tkern_def upd_kern_def)
  moreover have "held 0 (kick c (kern (qs s)\<lparr>uxSchedulerSuspended := 0\<rparr>))" using h by (intro held_kick) (simp add: held_def)
  ultimately show ?thesis using assms(1) undisturbed_upd_tkern by (auto simp: sys_at_def upd_kern_def waiters_wf_def)
qed

text \<open>The task of core \<open>c\<close> is the service task and calls a function of the kernel now; \<open>L\<close> is the time of its last
  look at the clock.\<close>

definition service_ok :: "nat set \<Rightarrow> nat \<Rightarrow> nat \<Rightarrow> tsys \<Rightarrow> bool" where
  "service_ok D q L s \<longleftrightarrow> timers_ok {} L s \<and> xTimerQueue s = Some q \<and> q \<in> D \<and> sys_ok D (qs s)"

text \<open>The ticks the service task sleeps: until the first timer of the current list expires, otherwise until the clock
  wraps around, or for ever if no timer is active.\<close>

definition sleep_time :: "nat \<Rightarrow> tsys \<Rightarrow> nat option" where
  "sleep_time T s = (case active s (pxCurrentTimerList s) of t # _ \<Rightarrow> Some (due (epoch T) s t - T)
     | [] \<Rightarrow> if active s (pxOverflowTimerList s) = [] then None else Some (2 ^ 32 - T mod 2 ^ 32))"

definition overdue :: "nat \<Rightarrow> nat \<Rightarrow> tsys \<Rightarrow> nat set" where
  "overdue T e s = {t. listed s t \<and> due e s t \<le> T}"

lemma overdue_current:
  assumes "lists_ok b s" "epoch T = e"
  shows "overdue T e s = {t \<in> set (active s (pxCurrentTimerList s)). unat (tm_value (timer_of s t)) \<le> T mod 2 ^ 32}"
proof -
  have m: "t \<in> set (active s (pxCurrentTimerList s)) \<longleftrightarrow> tm_container (timer_of s t) = Some (pxCurrentTimerList s)" for t
    using assms(1) by (simp add: lists_ok_def)
  have T: "e * 4294967296 + T mod 4294967296 = T" unfolding assms(2) [symmetric] epoch_def by simp
  moreover have "T mod 4294967296 < 4294967296" by simp
  ultimately show ?thesis unfolding overdue_def m by (auto simp: due_def)
qed

text \<open>The head of the current list is the first timer to expire.\<close>

lemma overdue_empty:
  assumes "lists_ok b s" "epoch T = e"
  shows "overdue T e s = {} \<longleftrightarrow> (let (nxt, none) = prvGetNextExpireTime s in none \<or> \<not> nxt \<le> of_nat T)"
proof (cases "active s (pxCurrentTimerList s)")
  case (Cons t ts)
  have "\<forall>u \<in> set ts. tm_value (timer_of s t) \<le> tm_value (timer_of s u)"
    using assms(1) Cons unfolding lists_ok_def by (metis (no_types, lifting) imageI list.set_map list.simps(9) sorted_simps(2))
  then show ?thesis unfolding overdue_current [OF assms] prvGetNextExpireTime_def
    by (auto simp: Cons word_le_nat_alt unat_clock intro: order_trans)
qed (simp add: overdue_current [OF assms] prvGetNextExpireTime_def)

lemma sleep_ticks:
  assumes "lists_ok (T mod 2 ^ 32) s" "overdue T (epoch T) s = {}"
  shows "let (nxt, none) = prvGetNextExpireTime s; i = (none \<and> active s (pxOverflowTimerList s) = []) in
    (i \<or> nxt - of_nat T \<noteq> 0) \<and> (if i then None else Some (unat (nxt - of_nat T))) = sleep_time T s"
proof (cases "active s (pxCurrentTimerList s)")
  case (Cons t ts)
  let ?v = "tm_value (timer_of s t)"
  have c: "tm_container (timer_of s t) = Some (pxCurrentTimerList s)" using assms(1) Cons unfolding lists_ok_def by (metis list.set_intros(1))
  have d: "due (epoch T) s t = epoch T * 4294967296 + unat ?v" "T = epoch T * 4294967296 + T mod 4294967296"
    using c by (simp_all add: due_def epoch_def)
  have lt: "T mod 4294967296 < unat ?v" using assms(2) overdue_current [OF assms(1) refl] Cons by auto
  have "unat (?v - of_nat T) = unat ?v - T mod 4294967296"
    using lt by (subst unat_sub) (simp_all add: word_le_nat_alt unat_clock)
  moreover have "due (epoch T) s t - T = unat ?v - T mod 4294967296" using d by linarith
  ultimately show ?thesis using lt by (auto simp: prvGetNextExpireTime_def sleep_time_def Cons Let_def)
next
  case Nil
  show ?thesis
  proof (cases "active s (pxOverflowTimerList s)")
    case (Cons t ts)
    have "unat (tm_value (timer_of s t)) < T mod 2 ^ 32" using assms(1) Cons by (simp add: lists_ok_def)
    then have "T mod 4294967296 \<noteq> 0" by auto
    then have nz: "(of_nat T :: u32) \<noteq> 0" using unat_clock [of T] by (metis unsigned_0)
    have u: "unat (- (of_nat T :: u32)) = 2 ^ 32 - T mod 2 ^ 32"
    proof -
      let ?m = "T mod 4294967296"
      have "(of_nat T :: u32) = of_nat (T div 4294967296 * 4294967296 + ?m)" by simp
      also have "\<dots> = of_nat ?m" unfolding of_nat_add of_nat_mult by (simp add: word_wrap)
      finally have "- (of_nat T :: u32) = of_nat (4294967296 - ?m)" by (simp add: of_nat_diff word_wrap)
      then have "unat (- (of_nat T :: u32)) = (4294967296 - ?m) mod 4294967296" by (simp only: unat_clock)
      then show ?thesis using \<open>?m \<noteq> 0\<close> by simp
    qed
    then show ?thesis using Nil Cons nz u by (simp add: prvGetNextExpireTime_def sleep_time_def)
  qed (simp add: Nil prvGetNextExpireTime_def sleep_time_def)
qed

text \<open>What a round does at the time \<open>T\<close>: it deals with the wrap-around of the clock, or with the first timer that is
  overdue, or, when there is none, waits until the next one expires.\<close>

definition round_done :: "nat set \<Rightarrow> nat set \<Rightarrow> nat \<Rightarrow> nat \<Rightarrow> nat \<Rightarrow> nat \<Rightarrow> tsys \<Rightarrow> tsys \<Rightarrow> bool" where
  "round_done A D c q T L s s' \<longleftrightarrow> service_ok D q T s' \<and> (\<forall>u \<in> A. evolves T (epoch L) s (epoch T) s' u) \<and>
     (epoch T = epoch L \<longrightarrow>
       (if overdue T (epoch T) s \<noteq> {} then overdue T (epoch T) s' = overdue T (epoch T) s - {hd (active s (pxCurrentTimerList s))}
        else \<exists>k. s' = (upd_tkern (\<lambda>_. k) s)\<lparr>xLastTime := of_nat T\<rparr> \<and> service_waits c q (sleep_time T s) (qs s) k))"

lemma handled_overdue:
  assumes "handled A T e s s' t"
  shows "overdue T e s' = overdue T e s - {t}"
proof (rule set_eqI)
  fix u
  show "u \<in> overdue T e s' \<longleftrightarrow> u \<in> overdue T e s - {t}"
    using assms by (cases "u = t") (auto simp: overdue_def handled_def simp del: not_None_eq)
qed

lemma undisturbed_timers_ok: "undisturbed A s s' \<Longrightarrow> timers_ok F L s' = timers_ok F L s"
  using undisturbed_lists_ok undisturbed_status_ok undisturbed_views(9) by (simp add: timers_ok_def)

lemma prvTimerTask_ok:
  assumes cb: "polite A (sys_at 0 D) cb" "polite A (sys_at 1 D) cb" and ok: "service_ok D q L s" and cl: "caller c (kern (qs s))"
    and T: "tick_now s = of_nat T" "L \<le> T" "T < L + 2 ^ 32"
  shows "ensures (prvTimerTask cb c s) (round_done A D c q T L s)"
proof -
  have c: "c < configNUMBER_OF_CORES" using cl by (simp add: caller_def)
  have tm: "timers_ok {} L s" and q: "xTimerQueue s = Some q" "q \<in> D" and sys: "sys_ok D (qs s)"
    using ok by (simp_all add: service_ok_def)
  have st: "stable (kern (qs s))" "waiters_wf (kern (qs s))" "unlocked (queue_of (qs s) q)"
    using sys q(2) queue_wf_unlocked by (simp_all add: sys_ok_def)
  let ?s = "upd_tkern vTaskSuspendAll s"
  obtain nxt none where nx: "prvGetNextExpireTime s = (nxt, none)" by fastforce
  have s0: "undisturbed A s ?s" by simp
  have "sys_at 1 D (qs ?s)" using sys_suspend [of 0 D "qs s"] sys by (simp add: sys_at_0)
  moreover have "timers_ok {} L ?s" using tm undisturbed_timers_ok [OF s0] by simp
  moreover have "tick_now ?s = of_nat T" using T(1) by (simp add: tick_now_def upd_kern_def vTaskSuspendAll_def)
  ultimately obtain sw s1 where s1: "prvSampleTimeNow cb ?s = Inr ((of_nat T, sw), s1)" "sw = (epoch T \<noteq> epoch L)" "timers_ok {} T s1"
    "xTimerQueue s1 = xTimerQueue s" "sys_at 1 D (qs s1)" "\<And>u. u \<in> A \<Longrightarrow> evolves T (epoch L) ?s (epoch T) s1 u"
    "\<not> sw \<longrightarrow> s1 = ?s\<lparr>xLastTime := of_nat T\<rparr>"
    using prvSampleTimeNow_ok [OF cb(2), of ?s "{}" L T] T(2,3) by (auto simp: ensures_def)
  have ev1: "evolves T (epoch L) s (epoch T) s1 u" if "u \<in> A" for u
    using evolves_trans [OF undisturbed_evolves [OF s0 that] s1(6) [OF that]] .
  obtain b s2 where s2: "on_qs (on_kern (xTaskResumeAll c)) s1 = Inr (b, s2)" "sys_at 0 D (qs s2)" "undisturbed A s1 s2"
    using sys_resume [OF s1(5) c] by blast
  have ok2: "service_ok D q T s2"
    using s1(3,4) s2(2,3) q undisturbed_timers_ok [OF s2(3)] undisturbed_views(10) [OF s2(3)] by (simp add: service_ok_def sys_at_0)
  have ev2: "evolves T (epoch L) s (epoch T) s2 u" if "u \<in> A" for u
    using evolves_trans [OF ev1 [OF that] undisturbed_evolves [OF s2(3) that]] .
  show ?thesis
  proof (cases sw)
    case True
    then show ?thesis using nx s1(1,2) s2(1) ok2 ev2 by (simp add: prvTimerTask_def prvProcessTimerOrBlockTask_def round_done_def)
  next
    case False
    then have e: "epoch T = epoch L" and s1': "s1 = ?s\<lparr>xLastTime := of_nat T\<rparr>" using s1(2,7) by simp_all
    have v: "active s2 = active s" "pxCurrentTimerList s2 = pxCurrentTimerList s" "pxOverflowTimerList s2 = pxOverflowTimerList s"
      "tm_value (timer_of s2 t) = tm_value (timer_of s t)" "tm_container (timer_of s2 t) = tm_container (timer_of s t)" for t
      using undisturbed_views [OF s2(3)] fun_cong [OF undisturbed_views(1) [OF s2(3)], of t] unfolding s1' by simp_all
    have nx2: "prvGetNextExpireTime s2 = (nxt, none)" using nx v by (simp add: prvGetNextExpireTime_def split: list.splits)
    have od: "overdue T (epoch T) s2 = overdue T (epoch T) s" using v by (simp add: overdue_def due_def)
    have lo: "lists_ok (T mod 2 ^ 32) s2" "status_ok {} s2" using ok2 by (simp_all add: service_ok_def timers_ok_def)
    note emp = overdue_empty [OF lo(1) refl [of "epoch T"], unfolded nx2 od Let_def prod.case]
    show ?thesis
    proof (cases "overdue T (epoch T) s = {}")
      case none: True
      have "nxt - of_nat T \<noteq> 0 \<or> none \<and> active s2 (pxOverflowTimerList s2) = []"
        "(if none \<and> active s2 (pxOverflowTimerList s2) = [] then None else Some (unat (nxt - of_nat T))) = sleep_time T s2"
        using sleep_ticks [OF lo(1)] none unfolding od nx2 Let_def prod.case by blast+
      moreover have "sleep_time T s2 = sleep_time T s" using v by (simp add: sleep_time_def due_def split: list.splits)
      ultimately have sl: "none \<and> active s (pxOverflowTimerList s) = [] \<or> nxt - of_nat T \<noteq> 0"
        "(if none \<and> active s (pxOverflowTimerList s) = [] then None else Some (unat (nxt - of_nat T))) = sleep_time T s"
        using v by auto
      let ?z = "s\<lparr>xLastTime := of_nat T\<rparr>"
      have z: "s1 = upd_tkern vTaskSuspendAll ?z" unfolding s1' by (simp add: upd_tkern_def)
      obtain s' k where s': "block_for_message c (nxt - of_nat T) (none \<and> active s (pxOverflowTimerList s) = []) s1 = Inr s'"
        "s' = upd_tkern (\<lambda>_. k) ?z" "stable k" "waiters_wf k" "service_waits c q (sleep_time T s) (qs s) k"
        using block_for_message_ok [of ?z c q "none \<and> active s (pxOverflowTimerList s) = []" "nxt - of_nat T"] st cl q(1) sl
        unfolding z by (auto simp: ensures_def)
      have run: "prvTimerTask cb c s = Inr s'"
        using nx s1(1) False emp none s'(1) by (auto simp: prvTimerTask_def prvProcessTimerOrBlockTask_def s1')
      have t': "timers_ok {} T ?z" using s1(3) undisturbed_timers_ok [of A ?z s1] unfolding z by simp
      have "undisturbed A ?z s'" unfolding s'(2) by simp
      then have "timers_ok {} T s'" "\<And>u. u \<in> A \<Longrightarrow> evolves T (epoch T) ?z (epoch T) s' u"
        using t' undisturbed_timers_ok undisturbed_evolves by blast+
      moreover have "evolves T (epoch L) s (epoch T) ?z u" for u unfolding e by (rule evolves_same) (simp_all add: has_status_def due_def)
      ultimately have tz: "timers_ok {} T s'" "\<And>u. u \<in> A \<Longrightarrow> evolves T (epoch L) s (epoch T) s' u"
        using evolves_trans by blast+
      then have "service_ok D q T s'" using s'(2-4) q sys by (simp add: service_ok_def sys_ok_def upd_kern_def)
      moreover have "s' = (upd_tkern (\<lambda>_. k) s)\<lparr>xLastTime := of_nat T\<rparr>" unfolding s'(2) by (simp add: upd_tkern_def)
      ultimately show ?thesis using run none e s'(5) tz(2) by (auto simp: round_done_def)
    next
      case some: False
      then have nt: "\<not> none" "nxt \<le> of_nat T" using emp by auto
      then obtain t ts where a: "active s2 (pxCurrentTimerList s2) = t # ts" "nxt = tm_value (timer_of s2 t)"
        using nx2 by (auto simp: prvGetNextExpireTime_def split: list.splits)
      have ct: "tm_container (timer_of s2 t) = Some (pxCurrentTimerList s2)" using lo(1) a(1) unfolding lists_ok_def by (metis list.set_intros(1))
      have "t \<in> overdue T (epoch T) s2" unfolding overdue_current [OF lo(1) refl] using a nt(2) by (simp add: word_le_nat_alt unat_clock)
      then have dt: "due (epoch T) s2 t \<le> T" by (simp add: overdue_def)
      obtain s' where s': "prvProcessExpiredTimer cb nxt (of_nat T) s2 = Inr s'" "lists_ok (T mod 2 ^ 32) s'" "status_ok {} s'"
        "handled A T (epoch T) s2 s' t" "sys_at 0 D (qs s')"
        using prvProcessExpiredTimer_ok [OF cb(1) s2(2) lo a(1) refl dt] a(2) by (auto simp: ensures_def)
      have run: "prvTimerTask cb c s = Inr s'"
        using nx s1(1) False nt s2(1) s'(1) by (simp add: prvTimerTask_def prvProcessTimerOrBlockTask_def)
      have "service_ok D q T s'"
        using s' ok2 by (simp add: service_ok_def timers_ok_def handled_def tframe_def sys_at_0)
      moreover have "evolves T (epoch L) s (epoch T) s' u" if "u \<in> A" for u
        using evolves_trans [OF ev2 [OF that] handled_evolves [OF s'(4) that]] .
      moreover have "overdue T (epoch T) s' = overdue T (epoch T) s2 - {t}"
        by (rule handled_overdue [OF s'(4)])
      ultimately show ?thesis using run some a(1) v e od by (simp add: round_done_def)
    qed
  qed
qed

end
