(* ===== verification/TimerRuns.thy ===== *)
theory TimerRuns
  imports TimerSteps
begin

text \<open>
  The running system with timers: tick interrupts, context switches, calls of tasks, the queue calls with which tasks
  send commands, and the service task, in any order.  Next to the state run the time \<open>T\<close>, which does not wrap
  around, and \<open>L\<close>, the time of the service task's last look at the clock.
\<close>

section \<open>Steps\<close>

definition advance :: "tsys \<Rightarrow> tsys \<Rightarrow> nat \<Rightarrow> nat" where
  "advance s s' T = T + unat (tick_now s' - tick_now s)"

lemma advance_later: "T \<le> advance s s' T"
  by (simp add: advance_def)

lemma advance_tick: "tick_now s = of_nat T \<Longrightarrow> tick_now s' = of_nat (advance s s' T)"
  by (simp add: advance_def)

text \<open>The service task is on time: it looks at the clock at least once in every turn, unless no timer is active.\<close>

definition in_time :: "tsys \<Rightarrow> nat \<Rightarrow> nat \<Rightarrow> bool" where
  "in_time s T L \<longleftrightarrow> T < L + 2 ^ 32 \<or> (\<forall>t. \<not> listed s t)"

definition service_calls :: "nat \<Rightarrow> tsys \<Rightarrow> bool" where
  "service_calls c s \<longleftrightarrow> calls_now c (qs s) \<and> xTimerTaskHandle s = Some (cur (kern (qs s)) c)"

text \<open>A command the service task can carry out: its sender kept to the documentation.\<close>

definition accepted :: "nat set \<Rightarrow> tsys \<Rightarrow> nat \<Rightarrow> nat \<Rightarrow> message \<Rightarrow> bool" where
  "accepted A s T L m \<longleftrightarrow> proper T s m \<and> (\<forall>t. addressee m = Some t \<longrightarrow> t \<in> A) \<and> in_time s T L"

inductive tstep :: "(u32 \<Rightarrow> kernel \<Rightarrow> fault + kernel) \<Rightarrow> callback \<Rightarrow> pended_function \<Rightarrow> nat set \<Rightarrow> nat set \<Rightarrow>
    tsys \<times> nat \<times> nat \<Rightarrow> message list \<Rightarrow> tsys \<times> nat \<times> nat \<Rightarrow> bool" for slp cb pf D A where
  other: "qenabled D a (qs s) \<Longrightarrow> qact slp a (qs s) = Inr (e, z) \<Longrightarrow>
    tstep slp cb pf D A (s, T, L) [] (s\<lparr>qs := z\<rparr>, advance s (s\<lparr>qs := z\<rparr>) T, L)"
| name: "calls_now c (qs s) \<Longrightarrow> tstep slp cb pf D A (s, T, L) [] (vTimerSetTimerID c t i s, T, L)"
| mode: "calls_now c (qs s) \<Longrightarrow> t \<notin> A \<Longrightarrow> tstep slp cb pf D A (s, T, L) [] (vTimerSetReloadMode c t b s, T, L)"
| round: "service_calls c s \<Longrightarrow> in_time s T L \<Longrightarrow> prvTimerTask cb c s = Inr s' \<Longrightarrow>
    tstep slp cb pf D A (s, T, L) [] (s', advance s s' T, T)"
| idle: "service_calls c s \<Longrightarrow> receive_message c s = Inr (None, s') \<Longrightarrow>
    tstep slp cb pf D A (s, T, L) [] (s', advance s s' T, L)"
| command: "service_calls c s \<Longrightarrow> receive_message c s = Inr (Some m, s1) \<Longrightarrow> accepted A s1 (advance s s1 T) L m \<Longrightarrow>
    process_message cb pf m s1 = Inr s' \<Longrightarrow>
    tstep slp cb pf D A (s, T, L) [m] (s', advance s1 s' (advance s s1 T), if addressee m = None then L else advance s s1 T)"

inductive truns :: "(u32 \<Rightarrow> kernel \<Rightarrow> fault + kernel) \<Rightarrow> callback \<Rightarrow> pended_function \<Rightarrow> nat set \<Rightarrow> nat set \<Rightarrow>
    tsys \<times> nat \<times> nat \<Rightarrow> message list \<Rightarrow> tsys \<times> nat \<times> nat \<Rightarrow> bool" for slp cb pf D A where
  start: "truns slp cb pf D A x [] x"
| goes: "truns slp cb pf D A x ms y \<Longrightarrow> tstep slp cb pf D A y m z \<Longrightarrow> truns slp cb pf D A x (ms @ m) z"

section \<open>The invariant\<close>

definition run_ok :: "nat set \<Rightarrow> nat \<Rightarrow> tsys \<times> nat \<times> nat \<Rightarrow> bool" where
  "run_ok D q x \<longleftrightarrow> (case x of (s, T, L) \<Rightarrow> service_ok D q L s \<and> tick_now s = of_nat T \<and> L \<le> T)"

lemma evolves_unlisted: "\<not> listed s u \<Longrightarrow> evolves N e s e' s' u = evolves N' e1 s e2 s' u"
  by (simp add: evolves_def)

lemma same_clock:
  assumes "L \<le> T"
  obtains N where "L \<le> N" "N < L + 2 ^ 32" "N \<le> T" "(of_nat N :: u32) = of_nat T"
proof -
  define n r where "n = (T - L) div 4294967296" and "r = (T - L) mod 4294967296"
  have d: "T = L + r + 4294967296 * n" "r < 4294967296" using assms by (simp_all add: n_def r_def)
  have "(of_nat (L + r + 4294967296 * n) :: u32) = of_nat (L + r)" unfolding of_nat_add of_nat_mult by (simp add: word_wrap)
  then show ?thesis using that [of "L + r"] d by simp
qed

text \<open>While no timer is active the last look at the clock may be any number of turns ago.\<close>

lemma in_time_rebase:
  assumes "service_ok D q L s" "L \<le> T" "in_time s T L"
  obtains K where "service_ok D q K s" "K \<le> T" "T < K + 2 ^ 32" "\<And>N e' s' u. evolves N (epoch K) s e' s' u \<Longrightarrow> evolves N (epoch L) s e' s' u"
proof (cases "T < L + 2 ^ 32")
  case True
  with assms that show ?thesis by blast
next
  case False
  then have l: "\<not> listed s u" for u using assms(3) by (simp add: in_time_def)
  define n where "n = (T - L) div 4294967296"
  let ?K = "L + 4294967296 * n"
  have d: "T = ?K + (T - L) mod 4294967296" "(T - L) mod 4294967296 < 4294967296" using assms(2) by (simp_all add: n_def)
  have w: "(of_nat ?K :: u32) = of_nat L" unfolding of_nat_add of_nat_mult by (simp add: word_wrap)
  have "?K mod 2 ^ 32 = L mod 2 ^ 32" by simp
  then have "service_ok D q ?K s" using assms(1) w unfolding service_ok_def timers_ok_def by metis
  moreover have "?K \<le> T" "T < ?K + 4294967296" using d by linarith+
  moreover have "evolves N (epoch ?K) s e' s' u \<Longrightarrow> evolves N (epoch L) s e' s' u" for N e' s' u
    using evolves_unlisted [OF l] by blast
  ultimately show ?thesis using that [of ?K] by simp
qed

lemma undisturbed_service_ok: "undisturbed A s s' \<Longrightarrow> service_ok D q L s \<Longrightarrow> sys_ok D (qs s') \<Longrightarrow> service_ok D q L s'"
  using undisturbed_timers_ok undisturbed_views(10) by (simp add: service_ok_def)

lemma undisturbed_qs: "undisturbed A s (s\<lparr>qs := z\<rparr>)"
  by (simp add: undisturbed_def tframe_def)

text \<open>Receiving a message is a call on the queue.\<close>

lemma receive_message_ok:
  assumes "service_ok D q L s" "calls_now c (qs s)"
  shows "ensures (receive_message c s) (\<lambda>(m, s'). undisturbed A s s' \<and> service_ok D q L s')"
proof -
  have q: "xTimerQueue s = Some q" "q \<in> D" "sys_ok D (qs s)" using assms(1) by (simp_all add: service_ok_def)
  have "qenabled D (QReceive c q (wait_for 0)) (qs s)" using assms(2) q(2) by (simp add: qenabled_def)
  from qact_ok [OF q(3) this] obtain r z where z: "xQueueReceive c q (wait_for 0) (qs s) = Inr (r, z)" "sys_ok D z"
    by (auto simp: qact_def ensures_def bindE_def split: sum.splits)
  have "receive_message c s = Inr (case r of Returned (Some bs) \<Rightarrow> Some (message_of bs) | _ \<Rightarrow> None, s\<lparr>qs := z\<rparr>)"
    using q(1) z(1) by (simp add: receive_message_def on_qs_def)
  then show ?thesis using undisturbed_service_ok [OF undisturbed_qs assms(1)] undisturbed_qs z(2) by simp
qed

lemma service_round_ok:
  assumes "polite A (sys_at 0 D) cb" "polite A (sys_at 1 D) cb" "run_ok D q (s, T, L)" "service_calls c s" "in_time s T L"
  shows "ensures (prvTimerTask cb c s) (\<lambda>s'. service_ok D q T s' \<and> (\<forall>u \<in> A. evolves T (epoch L) s (epoch T) s' u))"
proof -
  have r: "service_ok D q L s" "tick_now s = of_nat T" "L \<le> T" using assms(3) by (simp_all add: run_ok_def)
  obtain K where K: "service_ok D q K s" "K \<le> T" "T < K + 2 ^ 32"
    "\<And>N e' s' u. evolves N (epoch K) s e' s' u \<Longrightarrow> evolves N (epoch L) s e' s' u"
    using in_time_rebase [OF r(1,3) assms(5)] by blast
  have "caller c (kern (qs s))" using assms(4) by (simp add: service_calls_def calls_now_def)
  from prvTimerTask_ok [OF assms(1,2) K(1) this r(2) K(2,3)]
  show ?thesis by (rule ensures_mono) (use K(4) in \<open>auto simp: round_done_def\<close>)
qed

lemma service_command_ok:
  assumes "polite A (sys_at 0 D) cb" "polite_function A (sys_at 0 D) pf" "run_ok D q (s, T, L)" "accepted A s T L m"
  shows "ensures (process_message cb pf m s) (\<lambda>s'. service_ok D q (if addressee m = None then L else T) s' \<and>
    (\<forall>u \<in> A. addressee m \<noteq> Some u \<longrightarrow> evolves T (epoch L) s (epoch (if addressee m = None then L else T)) s' u))"
proof -
  have r: "service_ok D q L s" "tick_now s = of_nat T" "L \<le> T" using assms(3) by (simp_all add: run_ok_def)
  have a: "proper T s m" "\<forall>t. addressee m = Some t \<longrightarrow> t \<in> A" "in_time s T L" using assms(4) by (simp_all add: accepted_def)
  have sy: "sys_at 0 D (qs s)" using r(1) by (simp add: service_ok_def sys_at_0)
  show ?thesis
  proof (cases "addressee m")
    case None
    have tm: "timers_ok {} L s" using r(1) by (simp add: service_ok_def)
    obtain N where N: "L \<le> N" "N < L + 2 ^ 32" "N \<le> T" "(of_nat N :: u32) = of_nat T" by (rule same_clock [OF r(3)])
    have "proper N s m" using None by (cases m rule: addressee.cases) (simp_all add: proper_def)
    from process_message_ok [OF assms(1,2) sy tm r(2) [folded N(4)] N(1,2) this a(2)]
    show ?thesis by (rule ensures_mono) (use None r(1) evolves_later [OF _ N(3)] in \<open>auto simp: service_ok_def sys_at_0\<close>)
  next
    case (Some t)
    obtain K where K: "service_ok D q K s" "K \<le> T" "T < K + 2 ^ 32"
      "\<And>N e' s' u. evolves N (epoch K) s e' s' u \<Longrightarrow> evolves N (epoch L) s e' s' u"
      using in_time_rebase [OF r(1,3) a(3)] by blast
    then have "timers_ok {} K s" by (simp add: service_ok_def)
    from process_message_ok [OF assms(1,2) sy this r(2) K(2,3) a(1,2)]
    show ?thesis by (rule ensures_mono) (use Some K(1,4) in \<open>auto simp: service_ok_def sys_at_0\<close>)
  qed
qed

lemma setter_ok:
  assumes "run_ok D q (s, T, L)" "calls_now c (qs s)"
    and "qs s' = upd_kern (vTaskExitCritical c) (upd_kern (vTaskEnterCritical c) (qs s))" "undisturbed A s s'"
  shows "run_ok D q (s', T, L)"
proof -
  have so: "service_ok D q L s" "c < configNUMBER_OF_CORES" using assms(1,2) by (simp_all add: run_ok_def calls_now_def caller_def)
  then have st: "stable (kern (qs s))" by (simp add: service_ok_def sys_ok_def)
  have z: "qs s' = upd_kern (kick c) (qs s)" using assms(3) stable_section [OF st so(2)] by (simp add: upd_kern_def)
  have "sys_ok D (qs s')" using so(1) stable_kick st unfolding z by (simp add: service_ok_def sys_ok_def upd_kern_def waiters_wf_def)
  then have "service_ok D q L s'" by (rule undisturbed_service_ok [OF assms(4) so(1)])
  moreover have "tick_now s' = tick_now s" unfolding tick_now_def z by (simp add: upd_kern_def)
  ultimately show ?thesis using assms(1) by (simp add: run_ok_def)
qed

lemma run_ok_advance:
  assumes "run_ok D q (s, T, L)" "service_ok D q L' s'" "L' \<le> T"
  shows "run_ok D q (s', advance s s' T, L')"
  using assms advance_tick [of s T s'] advance_later [of T s s'] by (auto simp: run_ok_def intro: order_trans)

text \<open>What happens to timer \<open>u\<close> between two states of a run.\<close>

definition progress :: "tsys \<times> nat \<times> nat \<Rightarrow> tsys \<times> nat \<times> nat \<Rightarrow> nat \<Rightarrow> bool" where
  "progress x y u \<longleftrightarrow> (case (x, y) of ((s, T, L), (s', T', L')) \<Rightarrow> T \<le> T' \<and> evolves T' (epoch L) s (epoch L') s' u)"

lemma progress_refl: "progress x x u"
  by (simp add: progress_def evolves_refl split: prod.split)

lemma progress_trans:
  assumes "progress x y u" "progress y z u"
  shows "progress x z u"
proof -
  obtain s T L s1 T1 L1 s' T' L' where xyz: "x = (s, T, L)" "y = (s1, T1, L1)" "z = (s', T', L')" by (metis prod.exhaust)
  then have "evolves T' (epoch L) s (epoch L1) s1 u" "evolves T' (epoch L1) s1 (epoch L') s' u" "T \<le> T'"
    using assms evolves_later by (auto simp: progress_def)
  then show ?thesis using evolves_trans xyz by (auto simp: progress_def)
qed

lemma progressI: "evolves N (epoch L) s (epoch L') s' u \<Longrightarrow> N \<le> T' \<Longrightarrow> T \<le> T' \<Longrightarrow> progress (s, T, L) (s', T', L') u"
  using evolves_later by (simp add: progress_def)

lemma tstep_ok:
  assumes "polite A (sys_at 0 D) cb" "polite A (sys_at 1 D) cb" "polite_function A (sys_at 0 D) pf"
    and "tstep slp cb pf D A x ms y" "run_ok D q x"
  shows "run_ok D q y \<and> (\<forall>u \<in> A. (\<forall>m \<in> set ms. addressee m \<noteq> Some u) \<longrightarrow> progress x y u)"
  using assms(4,5)
proof (induction rule: tstep.induct)
  case (other a s e z T L)
  let ?s = "s\<lparr>qs := z\<rparr>"
  have so: "service_ok D q L s" "sys_ok D (qs s)" "L \<le> T" using other.prems by (simp_all add: run_ok_def service_ok_def)
  have "sys_ok D z" using qact_ok [OF so(2) other.hyps(1), of slp] other.hyps(2) by (auto simp: ensures_def)
  then have "service_ok D q L ?s" using undisturbed_service_ok [OF undisturbed_qs so(1), of z] by simp
  then show ?case using run_ok_advance [OF other.prems _ so(3)] advance_later [of T s ?s]
      progressI [OF undisturbed_evolves [OF undisturbed_qs, of _ _ T] _ advance_later] by blast
next
  case (name c s T L t i)
  have "run_ok D q (vTimerSetTimerID c t i s, T, L)"
    by (rule setter_ok [OF name.prems name.hyps(1) _ undisturbed_set_id]) (simp add: vTimerSetTimerID_def)
  then show ?case using progressI [OF undisturbed_evolves [OF undisturbed_set_id, of _ _ T]] by blast
next
  case (mode c s t T L b)
  note u = undisturbed_set_mode [OF mode.hyps(2), of s c b]
  have "run_ok D q (vTimerSetReloadMode c t b s, T, L)"
    by (rule setter_ok [OF mode.prems mode.hyps(1) _ u]) (simp add: vTimerSetReloadMode_def set_status_def clear_status_def)
  then show ?case using progressI [OF undisturbed_evolves [OF u, of _ T]] by blast
next
  case (round c s T L s')
  have "service_ok D q T s'" "\<forall>u \<in> A. evolves T (epoch L) s (epoch T) s' u"
    using service_round_ok [OF assms(1,2) round.prems round.hyps(1,2)] round.hyps(3) by (auto simp: ensures_def)
  then show ?case using run_ok_advance [OF round.prems _ order_refl] progressI advance_later by blast
next
  case (idle c s s' T L)
  have so: "service_ok D q L s" "L \<le> T" "calls_now c (qs s)"
    using idle.prems idle.hyps(1) by (simp_all add: run_ok_def service_calls_def)
  have r: "undisturbed A s s'" "service_ok D q L s'"
    using receive_message_ok [OF so(1,3), of A] idle.hyps(2) by (auto simp: ensures_def)
  show ?case using run_ok_advance [OF idle.prems r(2) so(2)]
      progressI [OF undisturbed_evolves [OF r(1), of _ T] advance_later advance_later] by blast
next
  case (command c s m s1 T L s')
  let ?T = "advance s s1 T" and ?L = "if addressee m = None then L else advance s s1 T"
  have so: "service_ok D q L s" "L \<le> T" "calls_now c (qs s)"
    using command.prems command.hyps(1) by (simp_all add: run_ok_def service_calls_def)
  have r: "undisturbed A s s1" "service_ok D q L s1"
    using receive_message_ok [OF so(1,3), of A] command.hyps(2) by (auto simp: ensures_def)
  have r1: "run_ok D q (s1, ?T, L)" by (rule run_ok_advance [OF command.prems r(2) so(2)])
  have s': "service_ok D q ?L s'" "\<forall>u \<in> A. addressee m \<noteq> Some u \<longrightarrow> evolves ?T (epoch L) s1 (epoch ?L) s' u"
    using service_command_ok [OF assms(1,3) r1 command.hyps(3)] command.hyps(4) by (auto simp: ensures_def)
  have "?L \<le> ?T" using so(2) advance_later [of T s s1] by simp
  then have ok: "run_ok D q (s', advance s1 s' ?T, ?L)" by (rule run_ok_advance [OF r1 s'(1)])
  have "progress (s, T, L) (s1, ?T, L) u" if "u \<in> A" for u
    by (rule progressI [OF undisturbed_evolves [OF r(1) that, of T]]) (rule advance_later)+
  moreover have "progress (s1, ?T, L) (s', advance s1 s' ?T, ?L) u" if "u \<in> A" "addressee m \<noteq> Some u" for u
    by (rule progressI [of ?T]) (use s'(2) that advance_later in auto)
  ultimately have "progress (s, T, L) (s', advance s1 s' ?T, ?L) u" if "u \<in> A" "addressee m \<noteq> Some u" for u
    using progress_trans that by blast
  then show ?case using ok by simp
qed

lemma truns_ok:
  assumes "polite A (sys_at 0 D) cb" "polite A (sys_at 1 D) cb" "polite_function A (sys_at 0 D) pf"
  shows "truns slp cb pf D A x ms y \<Longrightarrow> run_ok D q x \<Longrightarrow>
    run_ok D q y \<and> (\<forall>u \<in> A. (\<forall>m \<in> set ms. addressee m \<noteq> Some u) \<longrightarrow> progress x y u)"
proof (induction rule: truns.induct)
  case (goes x ms y m z)
  then have y: "run_ok D q y" "\<forall>u \<in> A. (\<forall>m \<in> set ms. addressee m \<noteq> Some u) \<longrightarrow> progress x y u" by blast+
  note z = tstep_ok [OF assms goes.hyps(2) y(1)]
  have "progress x z u" if "u \<in> A" "\<forall>k \<in> set (ms @ m). addressee k \<noteq> Some u" for u
    by (rule progress_trans [of _ y]) (use y(2) z that in auto)
  then show ?case using z by blast
qed (simp add: progress_refl)

end
