(* ===== verification/TimerExample.thy ===== *)
theory TimerExample
  imports TimerRuns QueueExample
begin

text \<open>
  A service task at work: task 1 on core 0 is the service task, queue 7 its queue, and the clock stands at 100, ten
  ticks after the task's last look at it.  Timer 21 repeats every 10 ticks and was due at 95, timer 22 expires once at
  130, timer 24 after the clock has wrapped around, and timer 23 repeats every 20 ticks when it is started.
\<close>

definition demo_timer :: "u32 \<Rightarrow> tlist option \<Rightarrow> u32 \<Rightarrow> u8 \<Rightarrow> timer" where
  "demo_timer v l p st = \<lparr>pcTimerName = ''demo'', tm_value = v, tm_container = l, xTimerPeriodInTicks = p, pvTimerID = 0,
     pxCallbackFunction = 0, ucStatus = st\<rparr>"

definition demo_tqueue :: "u8 list \<Rightarrow> nat \<Rightarrow> queue" where
  "demo_tqueue m n = \<lparr>pcHead = HeadStorage, storage = m @ replicate (160 - length m) 0, pcWriteTo = int (16 * n), pcTail = 160,
     pcReadFrom = 144, xMutexHolder = None, uxRecursiveCallCount = 0, uxMessagesWaiting = n, uxLength = 10, uxItemSize = 16,
     cRxLock = queueUNLOCKED, cTxLock = queueUNLOCKED, ucStaticallyAllocated = True, pxQueueSetContainer = None\<rparr>"

definition demo_tsys :: tsys where
  "demo_tsys = \<lparr>qs = demo_sys\<lparr>queue_of := (queue_of demo_sys)(7 := demo_tqueue [] 0)\<rparr>,
     timer_of = (\<lambda>t. if t = 21 then demo_timer 95 (Some TimerList1) 10 5 else if t = 22 then demo_timer 130 (Some TimerList1) 50 1
       else if t = 23 then demo_timer 0 None 20 6 else if t = 24 then demo_timer 40 (Some TimerList2) (-1) 1 else demo_timer 0 None 0 0),
     active = (\<lambda>l. case l of TimerList1 \<Rightarrow> [21, 22] | TimerList2 \<Rightarrow> [24]), pxCurrentTimerList = TimerList1,
     pxOverflowTimerList = TimerList2, xTimerQueue = Some 7, xTimerTaskHandle = Some 1, xLastTime = 90, expired = [], tm_freed = []\<rparr>"

text \<open>The same system when timer 21 has been dealt with.\<close>

definition demo_quiet :: tsys where
  "demo_quiet = demo_tsys\<lparr>timer_of := (timer_of demo_tsys)(21 := demo_timer 105 (Some TimerList1) 10 5), xLastTime := 100\<rparr>"

lemmas demo_tsys_defs = demo_tsys_def demo_quiet_def demo_timer_def

lemma demo_lists_ok:
  "lists_ok 90 demo_tsys" "lists_ok 100 demo_quiet"
proof -
  have a: "active s l = (case l of TimerList1 \<Rightarrow> [21, 22] | TimerList2 \<Rightarrow> [24])" if "s \<in> {demo_tsys, demo_quiet}" for s l
    using that by (auto simp: demo_tsys_defs)
  show "lists_ok 90 demo_tsys" unfolding lists_ok_def by (auto simp: a) (auto simp: demo_tsys_defs split: tlist.splits if_splits)
  show "lists_ok 100 demo_quiet" unfolding lists_ok_def by (auto simp: a) (auto simp: demo_tsys_defs split: tlist.splits if_splits)
qed

lemma demo_status:
  "has_status tmrSTATUS_IS_ACTIVE t demo_tsys \<longleftrightarrow> t \<in> {21, 22, 24}" "auto_reload demo_tsys t \<longleftrightarrow> t \<in> {21, 23}"
  "has_status tmrSTATUS_IS_ACTIVE t demo_quiet \<longleftrightarrow> t \<in> {21, 22, 24}"
  by (simp_all add: has_status_def demo_tsys_defs tmrSTATUS_IS_ACTIVE_def tmrSTATUS_IS_AUTORELOAD_def)

lemma demo_timers_ok: "timers_ok {} 90 demo_tsys" "timers_ok {} 100 demo_quiet"
  using demo_lists_ok by (auto simp: timers_ok_def status_ok_def demo_status) (auto simp: demo_tsys_defs split: if_splits)

lemma demo_tqueue_wf: "queue_wf (demo_tqueue [] 0)"
  by (simp add: demo_tqueue_def queue_wf_def ring_wf_def read_slot_def)

lemma demo_qs: "kern (qs demo_tsys) = demo_kern" "kern (qs demo_quiet) = demo_kern" "queue_of (qs demo_tsys) 7 = demo_tqueue [] 0"
  "queue_of (qs demo_quiet) 7 = demo_tqueue [] 0"
  by (simp_all add: demo_tsys_def demo_quiet_def)

lemma demo_run_ok: "run_ok {7} 7 (demo_tsys, 100, 90)" "run_ok {7} 7 (demo_quiet, 100, 100)"
proof -
  have t: "xTickCount demo_kern = 100" by (simp add: demo_kern_defs)
  have "sys_ok {7} (qs demo_tsys)" "sys_ok {7} (qs demo_quiet)"
    using demo_kern_stable demo_waiters demo_tqueue_wf by (simp_all add: sys_ok_def demo_qs)
  then show "run_ok {7} 7 (demo_tsys, 100, 90)" "run_ok {7} 7 (demo_quiet, 100, 100)"
    using demo_timers_ok by (simp_all add: run_ok_def service_ok_def tick_now_def demo_qs t) (simp_all add: demo_tsys_def demo_quiet_def)
qed

lemma demo_service_calls: "service_calls 0 demo_tsys" "service_calls 0 demo_quiet"
proof -
  have "calls_now 0 (qs demo_tsys)" "calls_now 0 (qs demo_quiet)"
    using demo_calls_now(1) by (simp_all add: calls_now_def demo_qs)
  moreover have "cur demo_kern 0 = 1" by (simp add: cur_def demo_kern_defs)
  ultimately show "service_calls 0 demo_tsys" "service_calls 0 demo_quiet"
    by (simp_all add: service_calls_def demo_qs) (simp_all add: demo_tsys_def demo_quiet_def)
qed

text \<open>Functions that count the calls in the identity of the timer, and pended functions that change nothing.\<close>

definition demo_callback :: callback where
  "demo_callback f t s = Inr (upd_timer t (\<lambda>x. x\<lparr>pvTimerID := pvTimerID x + 1\<rparr>) s)"

definition demo_function :: pended_function where
  "demo_function f a b s = Inr s"

lemma demo_polite: "polite A I demo_callback" "polite_function A I demo_function"
  by (simp_all add: polite_def polite_function_def demo_callback_def demo_function_def undisturbed_def tframe_def same_timer_def)

lemma demo_views:
  "active demo_tsys l = (case l of TimerList1 \<Rightarrow> [21, 22] | TimerList2 \<Rightarrow> [24])" "pxCurrentTimerList demo_tsys = TimerList1"
  "pxOverflowTimerList demo_tsys = TimerList2" "timer_of demo_tsys 21 = demo_timer 95 (Some TimerList1) 10 5"
  "timer_of demo_tsys 22 = demo_timer 130 (Some TimerList1) 50 1"
  by (simp_all add: demo_tsys_def)

text \<open>One round of the service task, which deals with timer 21.\<close>

lemma demo_round:
  "\<exists>s'. prvTimerTask demo_callback 0 demo_tsys = Inr s' \<and> tick_now s' = tick_now demo_tsys \<and> due 0 s' 21 = 105"
proof -
  let ?s = "upd_tkern vTaskSuspendAll (demo_tsys\<lparr>xLastTime := 100\<rparr>)" and ?f = "\<lambda>k. kick 0 (k\<lparr>uxSchedulerSuspended := 0\<rparr>)"
  have "held 1 (vTaskSuspendAll demo_kern)" using held_suspend [of 0 demo_kern] demo_kern_stable by (simp add: held_stable)
  then obtain b where b: "xTaskResumeAll 0 (kern (qs ?s)) = Inr (b, ?f (kern (qs ?s)))"
    using held_resume [of 0 "kern (qs ?s)" 0] by (auto simp: upd_kern_def demo_qs configNUMBER_OF_CORES_def)
  then have r: "on_qs (on_kern (xTaskResumeAll 0)) ?s = Inr (b, upd_tkern ?f ?s)"
    by (simp add: on_qs_def on_kern_def upd_tkern_def upd_kern_def)
  have "xTickCount (kern (qs (upd_tkern vTaskSuspendAll demo_tsys))) = 100"
    by (simp add: upd_kern_def demo_qs vTaskSuspendAll_def) (simp add: demo_kern_defs)
  then have s: "prvSampleTimeNow demo_callback (upd_tkern vTaskSuspendAll demo_tsys) = Inr ((100, False), ?s)"
    by (simp add: prvSampleTimeNow_def xTaskGetTickCount_def) (simp add: demo_tsys_defs upd_tkern_def)
  have n: "prvGetNextExpireTime demo_tsys = (95, False)" by (simp add: prvGetNextExpireTime_def demo_tsys_defs)
  have p: "\<exists>s'. prvProcessExpiredTimer demo_callback 95 100 (upd_tkern ?f ?s) = Inr s' \<and> qs s' = qs (upd_tkern ?f ?s) \<and> due 0 s' 21 = 105"
    by (simp add: prvProcessExpiredTimer_def timer_remove_def process_timer_def prvReloadTimer_def prvInsertTimerInActiveList_def
        demo_callback_def call_back_def has_status_def timer_insert_def demo_views demo_timer_def tmrSTATUS_IS_AUTORELOAD_def due_def
        reload_loop.simps(2) [of 5, simplified])
  show ?thesis using n s r p
    by (auto simp: prvTimerTask_def prvProcessTimerOrBlockTask_def tick_now_def upd_kern_def vTaskSuspendAll_def)
qed

end
