(* ===== verification/TimerResults.thy ===== *)
theory TimerResults
  imports TimerExample
begin

text \<open>
  The properties of the software timers: when they expire in a run, that the service task never faults and when it
  sleeps, late start commands, the messages, and what becomes of a period of zero.
\<close>

section \<open>On schedule\<close>

text \<open>The expiries, up to the time \<open>T\<close>, of a timer that expires at \<open>E\<close> for the first time and then every \<open>P\<close> ticks.\<close>

definition expiries :: "nat \<Rightarrow> nat \<Rightarrow> nat \<Rightarrow> nat" where
  "expiries E P T = (if T < E then 0 else (T - E) div P + 1)"

lemma expiries_bound:
  assumes "0 < P" "n > 0 \<longrightarrow> E + n * P \<le> T + P"
  shows "n \<le> expiries E P T" "T < E + n * P \<Longrightarrow> n = expiries E P T"
proof -
  show n: "n \<le> expiries E P T"
  proof (cases n)
    case (Suc m)
    then have "E + m * P \<le> T" using assms(2) by simp
    then have "m * P \<le> T - E" "E \<le> T" by simp_all
    then have "m \<le> (T - E) div P" using assms(1) by (simp add: less_eq_div_iff_mult_less_eq)
    then show ?thesis using Suc \<open>E \<le> T\<close> by (simp add: expiries_def)
  qed simp
  show "n = expiries E P T" if "T < E + n * P"
  proof (cases "T < E")
    case False
    then have "T - E < n * P" using that by simp
    then have "(T - E) div P < n" using assms(1) by (simp add: div_less_iff_less_mult)
    then show ?thesis using n False by (simp add: expiries_def)
  qed (use n in \<open>simp add: expiries_def\<close>)
qed

text \<open>C19: An auto-reload timer keeps its schedule in every run of the system, with interrupts, calls of other tasks and
  commands for other timers in any order, and however often the tick count wraps around: its callback is never called
  early, its phase never drifts, and whenever it is not overdue it has been called exactly once for every period.\<close>

theorem timer_on_schedule:
  assumes "polite A (sys_at 0 D) cb" "polite A (sys_at 1 D) cb" "polite_function A (sys_at 0 D) pf"
    and "run_ok D q (s, T, L)" "truns slp cb pf D A (s, T, L) ms (s', T', L')" "u \<in> A" "\<forall>m \<in> set ms. addressee m \<noteq> Some u"
    and "listed s u" "auto_reload s u"
  shows "let E = due (epoch L) s u; P = period s u; n = calls s' u - calls s u in
    listed s' u \<and> calls s u \<le> calls s' u \<and> due (epoch L') s' u = E + n * P \<and> n \<le> expiries E P T' \<and>
    (T' < due (epoch L') s' u \<longrightarrow> n = expiries E P T')"
proof -
  have r: "evolves T' (epoch L) s (epoch L') s' u"
    using truns_ok [OF assms(1-3) assms(5,4)] assms(6,7) by (simp add: progress_def)
  have P: "0 < period s u" using assms(4,8) by (auto simp: run_ok_def service_ok_def timers_ok_def status_ok_def unat_gt_0)
  obtain n where n: "listed s' u" "due (epoch L') s' u = due (epoch L) s u + n * period s u" "calls s' u = calls s u + n"
    "n > 0 \<longrightarrow> due (epoch L') s' u \<le> T' + period s u"
    using r assms(8,9) by (auto simp: evolves_def split: if_splits)
  show ?thesis using n expiries_bound [OF P, of n "due (epoch L) s u" T'] by (simp add: Let_def)
qed

text \<open>One round for timer 21, which was due at 95 and repeats every 10 ticks.\<close>

theorem timer_on_schedule_witness:
  "\<exists>s'. truns (\<lambda>_ k. Inr k) demo_callback demo_function {7} {21} (demo_tsys, 100, 90) [] (s', 100, 100) \<and>
    calls s' 21 = expiries 95 10 100 \<and> due 0 s' 21 = 105"
proof -
  let ?R = "truns (\<lambda>_ k. Inr k) demo_callback demo_function {7} {21}"
  obtain s' where s': "prvTimerTask demo_callback 0 demo_tsys = Inr s'" "tick_now s' = tick_now demo_tsys" "due 0 s' 21 = 105"
    using demo_round by blast
  have "in_time demo_tsys 100 90" by (simp add: in_time_def)
  from tstep.round [OF demo_service_calls(1) this s'(1)] have r: "?R (demo_tsys, 100, 90) [] (s', 100, 100)"
    using truns.goes [OF truns.start] s'(2) by (fastforce simp: advance_def)
  have e: "epoch 90 = 0" "epoch 100 = 0" by (simp_all add: epoch_def)
  have "listed demo_tsys 21" "due 0 demo_tsys 21 = 95" "period demo_tsys 21 = 10" "calls demo_tsys 21 = 0" "auto_reload demo_tsys 21"
    by (simp_all add: due_def demo_status) (simp_all add: demo_tsys_defs)
  then show ?thesis using timer_on_schedule [OF demo_polite(1,1,2) demo_run_ok(1) r] r s'(3) e by (auto simp: Let_def)
qed

text \<open>C20: Along every run the lists of the service task are sorted, disjoint and agree with the timers, and the service
  task never faults: whenever its core may call, each of its rounds completes, a message can be received, and every
  command that a sender may give is carried out, with callbacks and pended functions that leave the lists alone.\<close>

theorem timer_service_never_faults:
  assumes "polite A (sys_at 0 D) cb" "polite A (sys_at 1 D) cb" "polite_function A (sys_at 0 D) pf"
    and "run_ok D q x" "truns slp cb pf D A x ms (s, T, L)"
  shows "timers_ok {} L s \<and> L \<le> T \<and> (\<forall>c. service_calls c s \<longrightarrow>
    (in_time s T L \<longrightarrow> (\<exists>s'. prvTimerTask cb c s = Inr s')) \<and>
    (\<exists>m s1. receive_message c s = Inr (m, s1) \<and>
      (\<forall>k. m = Some k \<and> accepted A s1 (advance s s1 T) L k \<longrightarrow> (\<exists>s'. process_message cb pf k s1 = Inr s'))))"
proof -
  have r: "run_ok D q (s, T, L)" using truns_ok [OF assms(1-3) assms(5,4)] by simp
  then have so: "service_ok D q L s" "L \<le> T" by (simp_all add: run_ok_def)
  have "\<exists>s'. prvTimerTask cb c s = Inr s'" if "service_calls c s" "in_time s T L" for c
    using service_round_ok [OF assms(1,2) r that] by (auto simp: ensures_def)
  moreover have "\<exists>m s1. receive_message c s = Inr (m, s1) \<and>
      (\<forall>k. m = Some k \<and> accepted A s1 (advance s s1 T) L k \<longrightarrow> (\<exists>s'. process_message cb pf k s1 = Inr s'))" if "service_calls c s" for c
  proof -
    have "calls_now c (qs s)" using that by (simp add: service_calls_def)
    from receive_message_ok [OF so(1) this, of A] obtain m s1 where m: "receive_message c s = Inr (m, s1)" "service_ok D q L s1"
      by (auto simp: ensures_def)
    have "run_ok D q (s1, advance s s1 T, L)" by (rule run_ok_advance [OF r m(2) so(2)])
    from service_command_ok [OF assms(1,3) this] m(1) show ?thesis by (fastforce simp: ensures_def)
  qed
  ultimately show ?thesis using so by (simp add: service_ok_def)
qed

text \<open>The example at the start of a run.\<close>

theorem timer_service_never_faults_witness:
  "\<exists>s'. prvTimerTask demo_callback 0 demo_tsys = Inr s'"
  using timer_service_never_faults [OF demo_polite(1,1,2) demo_run_ok(1) truns.start] demo_service_calls(1)
  by (simp add: in_time_def)

section \<open>Sleeping\<close>

lemma sleep_time_due:
  assumes "lists_ok b s" "overdue T (epoch T) s = {}"
  shows "case sleep_time T s of None \<Rightarrow> \<forall>u. \<not> listed s u
    | Some n \<Rightarrow> 0 < n \<and> (\<forall>u. listed s u \<longrightarrow> T + n \<le> due (epoch T) s u) \<and>
        ((\<exists>u. listed s u \<and> due (epoch T) s u = T + n) \<or> epoch (T + n) \<noteq> epoch T)"
proof -
  have m: "t \<in> set (active s l) \<longleftrightarrow> tm_container (timer_of s t) = Some l" for t l using assms(1) by (simp add: lists_ok_def)
  have ne: "pxCurrentTimerList s \<noteq> pxOverflowTimerList s" using assms(1) by (simp add: lists_ok_def)
  have T: "epoch T * 4294967296 + T mod 4294967296 = T" "T mod 4294967296 < 4294967296" unfolding epoch_def by simp_all
  have ov: "(epoch T + 1) * 4294967296 \<le> due (epoch T) s u" if "tm_container (timer_of s u) \<noteq> Some (pxCurrentTimerList s)" for u
    using that by (simp add: due_def)
  show ?thesis
  proof (cases "active s (pxCurrentTimerList s)")
    case (Cons t ts)
    have l: "listed s t" "tm_container (timer_of s t) = Some (pxCurrentTimerList s)" using m [of t "pxCurrentTimerList s"] Cons by simp_all
    have "t \<notin> overdue T (epoch T) s" using assms(2) by simp
    then have lt: "T < due (epoch T) s t" using l(1) by (simp add: overdue_def)
    have "\<forall>u \<in> set ts. tm_value (timer_of s t) \<le> tm_value (timer_of s u)"
      using assms(1) Cons unfolding lists_ok_def by (metis (no_types, lifting) imageI list.set_map list.simps(9) sorted_simps(2))
    then have cu: "due (epoch T) s t \<le> due (epoch T) s u" if "tm_container (timer_of s u) = Some (pxCurrentTimerList s)" for u
      using that l(2) m [of u "pxCurrentTimerList s"] Cons by (auto simp: due_def word_le_nat_alt)
    have "due (epoch T) s t < (epoch T + 1) * 4294967296"
      using l(2) unsigned_less [of "tm_value (timer_of s t)", where ?'a = nat] by (simp add: due_def)
    then have "due (epoch T) s t \<le> due (epoch T) s u" if "listed s u" for u using cu [of u] ov [of u] by linarith
    then show ?thesis using Cons lt l(1) by (auto simp: sleep_time_def)
  next
    case Nil
    then have nc: "tm_container (timer_of s u) \<noteq> Some (pxCurrentTimerList s)" for u using m [of u "pxCurrentTimerList s"] by simp
    have two: "K = pxOverflowTimerList s" if "K \<noteq> pxCurrentTimerList s" for K
      using that ne by (cases K; cases "pxCurrentTimerList s"; cases "pxOverflowTimerList s") simp_all
    have al: "u \<in> set (active s (pxOverflowTimerList s))" if "listed s u" for u
      using that nc [of u] m [of u] two by (cases "tm_container (timer_of s u)") auto
    let ?n = "4294967296 - T mod 4294967296"
    have n: "0 < ?n" "T + ?n = (epoch T + 1) * 4294967296" using T by simp_all
    then have "epoch (T + ?n) \<noteq> epoch T" by (simp add: epoch_def)
    moreover have "T + ?n \<le> due (epoch T) s u" for u using ov [OF nc [of u]] unfolding n(2) .
    ultimately show ?thesis using Nil al n(1) by (fastforce simp: sleep_time_def)
  qed
qed

text \<open>C21: When no message waits and no timer is overdue, a round of the service task puts it to sleep in the event list of
  its queue, where a command wakes it.  It sleeps for ever only if no timer is active, otherwise exactly until the
  first timer expires or the tick count wraps around, whichever comes first: no expiry is slept through.\<close>

theorem timer_service_sleeps_until_due:
  assumes "polite A (sys_at 0 D) cb" "polite A (sys_at 1 D) cb" "run_ok D q (s, T, L)" "service_calls c s"
    and "epoch T = epoch L" "overdue T (epoch T) s = {}" "uxMessagesWaiting (queue_of (qs s) q) = 0"
  shows "\<exists>s' k. prvTimerTask cb c s = Inr s' \<and> k = kern (qs s') \<and> stable k \<and>
    eventContainer (tcb k (cur k c)) = Some (EventL (2 * q + 1)) \<and>
    (case remaining k (cur k c) of
       None \<Rightarrow> stateContainer (tcb k (cur k c)) = Some SuspendedL \<and> (\<forall>u. \<not> listed s u)
     | Some n \<Rightarrow> 0 < n \<and> (\<forall>u. listed s u \<longrightarrow> T + n \<le> due (epoch T) s u) \<and>
         ((\<exists>u. listed s u \<and> due (epoch T) s u = T + n) \<or> epoch (T + n) \<noteq> epoch T))"
proof -
  have r: "service_ok D q L s" "tick_now s = of_nat T" "L \<le> T" using assms(3) by (simp_all add: run_ok_def)
  have lo: "lists_ok (L mod 2 ^ 32) s" using r(1) by (simp add: service_ok_def timers_ok_def)
  have c: "caller c (kern (qs s))" using assms(4) by (simp add: service_calls_def calls_now_def)
  have "T div 4294967296 * 4294967296 + T mod 4294967296 = T" "T mod 4294967296 < 4294967296" "L div 4294967296 * 4294967296 \<le> L"
    by simp_all
  then have "T < L + 2 ^ 32" using assms(5) by (simp add: epoch_def)
  from prvTimerTask_ok [OF assms(1,2) r(1) c r(2,3) this] obtain s' where s': "prvTimerTask cb c s = Inr s'" "round_done A D c q T L s s'"
    by (auto simp: ensures_def)
  then obtain k where k: "s' = (upd_tkern (\<lambda>_. k) s)\<lparr>xLastTime := of_nat T\<rparr>" "service_waits c q (sleep_time T s) (qs s) k" "service_ok D q T s'"
    using assms(5,6) by (auto simp: round_done_def)
  then have w: "waits_for c (2 * q + 1) (sleep_time T s) (lists (kern (qs s)) (EventL (2 * q + 1)) @ [cur (kern (qs s)) c])
      (event_item (kern (qs s))) (kern (qs s)) k" using assms(7) by (simp add: service_waits_def)
  have kk: "kern (qs s') = k" by (simp add: k(1) upd_kern_def)
  have st: "stable k" using k(3) kk by (simp add: service_ok_def sys_ok_def)
  have cu: "cur k = cur (kern (qs s))" "eventContainer (tcb k (cur k c)) = Some (EventL (2 * q + 1))" using w by (simp_all add: waits_for_def)
  note sl = sleep_time_due [OF lo assms(6)]
  show ?thesis
  proof (cases "sleep_time T s")
    case None
    then have "stateContainer (tcb k (cur k c)) = Some SuspendedL" "remaining k (cur k c) = None"
      using w cu(1) by (simp_all add: waits_for_def remaining_def sleeping_def)
    then show ?thesis using s'(1) kk st cu(2) sl None by (intro exI [of _ s'] exI [of _ k]) simp
  next
    case (Some n)
    then have "remaining k (cur k c) = Some n" using w cu(1) by (simp add: waits_for_def)
    then show ?thesis using s'(1) kk st cu(2) sl Some by (intro exI [of _ s'] exI [of _ k]) simp
  qed
qed

text \<open>The first timer is due at 105, in five ticks.\<close>

theorem timer_service_sleeps_until_due_witness:
  "\<exists>s'. prvTimerTask demo_callback 0 demo_quiet = Inr s' \<and> remaining (kern (qs s')) (cur (kern (qs s')) 0) = Some 5"
proof -
  have d: "due 0 demo_quiet 21 = 105" "due 0 demo_quiet 22 = 130" "due 0 demo_quiet 24 = 2 ^ 32 + 40"
    by (simp_all add: due_def demo_tsys_defs)
  have l: "listed demo_quiet u \<longleftrightarrow> u \<in> {21, 22, 24}" for u by (simp add: demo_tsys_defs)
  have e: "epoch 100 = 0" by (simp add: epoch_def)
  have "overdue 100 (epoch 100) demo_quiet = {}" using d l by (auto simp: overdue_def e simp del: not_None_eq)
  moreover have "uxMessagesWaiting (queue_of (qs demo_quiet) 7) = 0" by (simp add: demo_qs demo_tqueue_def)
  ultimately obtain s' where s': "prvTimerTask demo_callback 0 demo_quiet = Inr s'"
    and r: "case remaining (kern (qs s')) (cur (kern (qs s')) 0) of
       None \<Rightarrow> stateContainer (tcb (kern (qs s')) (cur (kern (qs s')) 0)) = Some SuspendedL \<and> (\<forall>u. \<not> listed demo_quiet u)
     | Some n \<Rightarrow> 0 < n \<and> (\<forall>u. listed demo_quiet u \<longrightarrow> 100 + n \<le> due (epoch 100) demo_quiet u) \<and>
         ((\<exists>u. listed demo_quiet u \<and> due (epoch 100) demo_quiet u = 100 + n) \<or> epoch (100 + n) \<noteq> epoch 100)"
    using timer_service_sleeps_until_due [OF demo_polite(1,1) demo_run_ok(2) demo_service_calls(2) refl] by blast
  let ?k = "kern (qs s')"
  obtain n where n: "remaining ?k (cur ?k 0) = Some n" using r l [of 21] by (auto split: option.splits)
  then have r: "\<forall>u. listed demo_quiet u \<longrightarrow> 100 + n \<le> due 0 demo_quiet u"
    "(\<exists>u. listed demo_quiet u \<and> due 0 demo_quiet u = 100 + n) \<or> epoch (100 + n) \<noteq> 0"
    using r by (simp_all add: e del: not_None_eq)
  have "n \<le> 5" using spec [OF r(1), of 21] l [of 21] d(1) by simp
  then have "epoch (100 + n) = 0" by (simp add: epoch_def)
  then have "n = 5" using r(2) d \<open>n \<le> 5\<close> unfolding l by auto
  then show ?thesis using s' n by simp
qed

section \<open>Late commands\<close>

text \<open>A start command that was sent at \<open>C\<close> and is carried out at \<open>T\<close>, however late, leaves the timer as if it had been
  started at \<open>C\<close>: an auto-reload timer catches up with one call for each whole period that has passed and keeps its
  phase, a one-shot timer that should have expired is called now; no other timer is disturbed.\<close>

theorem timer_start_catches_up:
  assumes "polite A (sys_at 0 D) cb" "run_ok D q (s, T, L)" "in_time s T L" "t \<in> A"
    and "start_command i" "C \<le> T" "T < C + 2 ^ 32" "xTimerPeriodInTicks (timer_of s t) \<noteq> 0"
  shows "\<exists>s'. process_message cb pf (Message i (xTimerParameters (of_nat C) (Some t))) s = Inr s' \<and> timers_ok {} T s' \<and>
    (let P = period s t; n = (T - C) div P in
     if auto_reload s t then listed s' t \<and> due (epoch T) s' t = C + (n + 1) * P \<and> calls s' t = calls s t + n
     else if C + P \<le> T then \<not> listed s' t \<and> calls s' t = calls s t + 1
     else listed s' t \<and> due (epoch T) s' t = C + P \<and> calls s' t = calls s t) \<and>
    (\<forall>u \<in> A. u \<noteq> t \<longrightarrow> evolves T (epoch L) s (epoch T) s' u)"
proof -
  have r: "service_ok D q L s" "tick_now s = of_nat T" "L \<le> T" using assms(2) by (simp_all add: run_ok_def)
  obtain K where K: "service_ok D q K s" "K \<le> T" "T < K + 2 ^ 32"
    "\<And>N e' s' u. evolves N (epoch K) s e' s' u \<Longrightarrow> evolves N (epoch L) s e' s' u"
    using in_time_rebase [OF r(1,3) assms(3)] by blast
  have k: "timers_ok {} K s" "sys_at 0 D (qs s)" using K(1) by (simp_all add: service_ok_def sys_at_0)
  from process_start_ok [OF assms(1) k(2,1) r(2) K(2,3) assms(4-8), of pf] obtain s' where
    "process_message cb pf (Message i (xTimerParameters (of_nat C) (Some t))) s = Inr s'" "timers_ok {} T s'" "started C T t s s'"
    "\<forall>u \<in> A. u \<noteq> t \<longrightarrow> evolves T (epoch K) s (epoch T) s' u"
    by (auto simp: ensures_def)
  then show ?thesis using K(4) unfolding started_def by blast
qed

text \<open>Timer 23 repeats every 20 ticks and was started at 55; at 100 it has missed two expiries, and the next is at 115.\<close>

theorem timer_start_catches_up_witness:
  "\<exists>s'. process_message demo_callback demo_function (Message tmrCOMMAND_START (xTimerParameters 55 (Some 23))) demo_quiet = Inr s' \<and>
    calls s' 23 = 2 \<and> due 0 s' 23 = 115"
proof -
  have p: "period demo_quiet 23 = 20" "xTimerPeriodInTicks (timer_of demo_quiet 23) \<noteq> 0" "calls demo_quiet 23 = 0"
    by (simp_all add: demo_tsys_defs)
  have "auto_reload demo_quiet 23" "in_time demo_quiet 100 100" "start_command tmrCOMMAND_START"
    using demo_status(2) [of 23] by (simp_all add: has_status_def demo_quiet_def in_time_def start_command_def)
  then show ?thesis
    using timer_start_catches_up [OF demo_polite(1) demo_run_ok(2), of 23 UNIV tmrCOMMAND_START 55 demo_function] p
    by (auto simp: Let_def epoch_def)
qed

section \<open>Messages\<close>

text \<open>The messages that fit: the command is an \<open>int\<close>, pointers and numbers have 32 bits, NULL is no address.\<close>

definition fits :: "message \<Rightarrow> bool" where
  "fits m \<longleftrightarrow> (case xMessage_u m of
     xTimerParameters v p \<Rightarrow> 0 \<le> xMessageID m \<and> xMessageID m < 2 ^ 31 \<and> (\<forall>t. p = Some t \<longrightarrow> 0 < t \<and> t < 2 ^ 32)
   | xCallbackParameters f a b \<Rightarrow> - (2 ^ 31) \<le> xMessageID m \<and> xMessageID m < 0 \<and> f < 2 ^ 32 \<and> a < 2 ^ 32)"

lemma message_roundtrip:
  assumes "fits m" "length junk = 4"
  shows "message_of (message_bytes junk m) = m" "length (message_bytes junk m) = 16"
proof -
  have u: "unat w mod 4294967296 = unat w" for w :: u32 using unsigned_less [of w, where ?'a = nat] by simp
  show "message_of (message_bytes junk m) = m"
  proof (cases "xMessage_u m")
    case (xTimerParameters v p)
    then show ?thesis using assms
      by (cases m; cases p) (auto simp: fits_def message_bytes_def message_of_def number_handle Let_def u)
  next
    case (xCallbackParameters f a b)
    have n: "i mod 4294967296 = i + 4294967296" if "- 2147483648 \<le> i" "i < 0" for i :: int
      using mod_pos_pos_trivial [of "i + 4294967296" 4294967296] that unfolding mod_add_self2 by simp
    show ?thesis using assms xCallbackParameters
      by (cases m) (auto simp: fits_def message_bytes_def message_of_def number_handle Let_def u n)
  qed
  show "length (message_bytes junk m) = 16" using assms(2) by (cases m; cases "xMessage_u m") (simp_all add: message_bytes_def)
qed

text \<open>The commands in the queue of the service task.\<close>

definition commands :: "nat \<Rightarrow> tsys \<Rightarrow> message list" where
  "commands q s = map message_of (items (queue_of (qs s) q))"

lemma send_command_ok:
  assumes "service_ok D q L s" "calls_now c (qs s)" "uxItemSize (queue_of (qs s) q) = 16"
    and "uxMessagesWaiting (queue_of (qs s) q) < uxLength (queue_of (qs s) q)" "length junk = 4"
    and i: "0 \<le> i" "i < tmrFIRST_FROM_ISR_COMMAND" and t: "0 < t" "t < 2 ^ 32"
  shows "\<exists>s'. xTimerGenericCommandFromTask c junk (Some t) i v w s = Inr (Returned True, s') \<and> service_ok D q L s' \<and>
    commands q s' = commands q s @ [Message i (xTimerParameters v (Some t))]"
proof -
  let ?m = "Message i (xTimerParameters v (Some t))" and ?Q = "queue_of (qs s)"
  let ?w = "if xTaskGetSchedulerState (kern (qs s)) = taskSCHEDULER_RUNNING then w else wait_for 0"
  have q: "xTimerQueue s = Some q" "sys_ok D (qs s)" "queue_wf (?Q q)" "stable (kern (qs s))" "waiters_wf (kern (qs s))"
    using assms(1) by (simp_all add: service_ok_def sys_ok_def)
  have c: "c < configNUMBER_OF_CORES" using assms(2) by (simp add: calls_now_def caller_def)
  have "fits ?m" using i t by (simp add: fits_def tmrFIRST_FROM_ISR_COMMAND_def)
  note rt = message_roundtrip [OF this assms(5)]
  have sd: "sendable queueSEND_TO_BACK (message_bytes junk ?m) (?Q q)" using assms(3,4) rt by (simp add: sendable_def)
  obtain z where z: "xQueueGenericSend c q (message_bytes junk ?m) queueSEND_TO_BACK ?w (qs s) = Inr (Returned True, z)"
    "sent q queueSEND_TO_BACK (message_bytes junk ?m) ?Q (queue_of z)" "wakes (2 * q + 1) (kern (qs s)) (kern z)" "stable (kern z)"
    using xQueueGenericSend_ok [OF q(4,5) c q(3) sd, of ?w] by (auto simp: ensures_def)
  have "xTimerGenericCommandFromTask c junk (Some t) i v w s = Inr (Returned True, s\<lparr>qs := z\<rparr>)"
    using i q(1) z(1) by (simp add: xTimerGenericCommandFromTask_def on_qs_def)
  moreover have "service_ok D q L (s\<lparr>qs := z\<rparr>)"
    using undisturbed_service_ok [OF undisturbed_qs assms(1), of z] step_sent [OF q(2) z(2-4)] by simp
  moreover have "commands q (s\<lparr>qs := z\<rparr>) = commands q s @ [?m]"
    using z(2) rt(1) by (simp add: commands_def sent_def put_spec_def)
  ultimately show ?thesis by blast
qed

lemma receive_command_ok:
  assumes "service_ok D q L s" "calls_now c (qs s)"
  shows "\<exists>m s'. receive_message c s = Inr (m, s') \<and> service_ok D q L s' \<and>
    (case commands q s of [] \<Rightarrow> m = None \<and> commands q s' = [] | k # ks \<Rightarrow> m = Some k \<and> commands q s' = ks)"
proof -
  have q: "xTimerQueue s = Some q" "sys_ok D (qs s)" "queue_wf (queue_of (qs s) q)" "stable (kern (qs s))" "waiters_wf (kern (qs s))"
    using assms(1) by (simp_all add: service_ok_def sys_ok_def)
  have c: "caller c (kern (qs s))" "c < configNUMBER_OF_CORES" using assms(2) by (simp_all add: calls_now_def caller_def)
  have so: "sys_ok D z \<Longrightarrow> service_ok D q L (s\<lparr>qs := z\<rparr>)" for z using undisturbed_service_ok [OF undisturbed_qs assms(1), of z] by simp
  show ?thesis
  proof (cases "items (queue_of (qs s) q)")
    case Nil
    obtain r z where z: "xQueueReceive c q (wait_for 0) (qs s) = Inr (r, z)" "failed_or_blocked c (2 * q + 1) None (wait_for 0) (qs s) r z"
      using xQueueReceive_empty [OF q(4,5) c(1) q(3) Nil, of "wait_for 0"] by (auto simp: ensures_def)
    have "queue_of z = queue_of (qs s)" using z(2) by (simp add: failed_or_blocked_def)
    moreover have "receive_message c s = Inr (None, s\<lparr>qs := z\<rparr>)"
      using q(1) z(1) step_waits(2) [OF q(2) z(2)] by (cases r) (auto simp: receive_message_def on_qs_def)
    ultimately show ?thesis using so [OF conjunct1 [OF step_waits(1) [OF q(2) z(2)]]] Nil by (simp add: commands_def)
  next
    case (Cons y ys)
    then have ne: "items (queue_of (qs s) q) \<noteq> []" by simp
    obtain z where z: "xQueueReceive c q (wait_for 0) (qs s) = Inr (Returned (Some y), z)" "received q y (queue_of (qs s)) (queue_of z)"
      "wakes (2 * q) (kern (qs s)) (kern z)" "stable (kern z)"
      using xQueueReceive_ok [OF q(4,5) c(2) q(3) ne, of "wait_for 0"] Cons by (auto simp: ensures_def received_def)
    have "receive_message c s = Inr (Some (message_of y), s\<lparr>qs := z\<rparr>)" using q(1) z(1) by (simp add: receive_message_def on_qs_def)
    then show ?thesis using so [OF conjunct1 [OF step_received [OF q(2) z(2-4)]]] Cons z(2) by (simp add: commands_def received_def)
  qed
qed

text \<open>C22: Tasks and the service task agree on the messages, which cross the queue as bytes: a command that
  \<open>xTimerGenericCommandFromTask\<close> sends to a queue with room is appended to the commands that wait, unchanged, and the
  service task takes them out one by one from the front; it finds none exactly when none waits.\<close>

theorem timer_commands_delivered:
  assumes "service_ok D q L s" "calls_now c (qs s)" "uxItemSize (queue_of (qs s) q) = 16"
  shows "(\<forall>junk i v t w. uxMessagesWaiting (queue_of (qs s) q) < uxLength (queue_of (qs s) q) \<and> length junk = 4 \<and>
      0 \<le> i \<and> i < tmrFIRST_FROM_ISR_COMMAND \<and> 0 < t \<and> t < 2 ^ 32 \<longrightarrow>
      (\<exists>s'. xTimerGenericCommandFromTask c junk (Some t) i v w s = Inr (Returned True, s') \<and> service_ok D q L s' \<and>
        commands q s' = commands q s @ [Message i (xTimerParameters v (Some t))])) \<and>
    (\<exists>m s'. receive_message c s = Inr (m, s') \<and> service_ok D q L s' \<and>
      (case commands q s of [] \<Rightarrow> m = None \<and> commands q s' = [] | k # ks \<Rightarrow> m = Some k \<and> commands q s' = ks))"
  using send_command_ok [OF assms] receive_command_ok [OF assms(1,2)] by blast

text \<open>Task 1 sends a command to the empty queue 7.\<close>

theorem timer_commands_delivered_witness:
  "\<exists>s'. xTimerGenericCommandFromTask 0 [1, 2, 3, 4] (Some 23) tmrCOMMAND_START 55 (wait_for 0) demo_quiet = Inr (Returned True, s') \<and>
    commands 7 s' = [Message tmrCOMMAND_START (xTimerParameters 55 (Some 23))]"
proof -
  have "service_ok {7} 7 100 demo_quiet" "calls_now 0 (qs demo_quiet)"
    using demo_run_ok(2) demo_service_calls(2) by (simp_all add: run_ok_def service_calls_def)
  moreover have "commands 7 demo_quiet = []" by (simp add: commands_def items_def demo_qs demo_tqueue_def)
  moreover have "uxItemSize (queue_of (qs demo_quiet) 7) = 16" "uxMessagesWaiting (queue_of (qs demo_quiet) 7) < uxLength (queue_of (qs demo_quiet) 7)"
    by (simp_all add: demo_qs demo_tqueue_def)
  ultimately show ?thesis
    using timer_commands_delivered [THEN conjunct1, rule_format, of "{7}" 7 100 demo_quiet 0 "[1, 2, 3, 4]" tmrCOMMAND_START 23 55 "wait_for 0"]
    by (auto simp: command_numbers)
qed

section \<open>A period of zero\<close>

text \<open>Without a period the expiry time does not move, so that the timer is always to be processed now.\<close>

lemma insert_zero:
  assumes "xTimerPeriodInTicks (timer_of s t) = 0"
  shows "prvInsertTimerInActiveList t v now v s = (True, upd_timer t (\<lambda>x. x\<lparr>tm_value := v\<rparr>) s)"
  using assms by (auto simp: prvInsertTimerInActiveList_def Let_def)

lemma reload_loop_zero:
  assumes "polite A I cb" "I (qs s)" "xTimerPeriodInTicks (timer_of s t) = 0"
  shows "reload_loop n cb t X now s = Inl Diverges"
  using assms(2,3)
proof (induction n arbitrary: s)
  case (Suc n)
  let ?s = "upd_timer t (\<lambda>x. x\<lparr>tm_value := X\<rparr>) s"
  obtain s2 where s2: "call_back cb t ?s = Inr s2" "undisturbed A (?s\<lparr>expired := expired ?s @ [t]\<rparr>) s2" "I (qs s2)"
    using call_back_ok [OF assms(1), of ?s t] Suc.prems(1) by (auto simp: ensures_def)
  have "xTimerPeriodInTicks (timer_of s2 t) = 0" using s2(2) Suc.prems(2) by (simp add: undisturbed_def same_timer_def)
  from Suc.IH [OF s2(3) this] show ?case using s2(1) insert_zero [OF Suc.prems(2), of X now] Suc.prems(2) by simp
qed simp

lemma start_zero:
  assumes "polite A I cb" "I (qs s)" "timers_ok F L s" "xTimerPeriodInTicks (timer_of s t) = 0" "auto_reload s t" "t \<in> A"
    and j: "start_command j"
  shows "process_message cb pf (Message j (xTimerParameters v (Some t))) s = Inl Diverges"
proof -
  define N where "N = L + unat (tick_now s - of_nat L)"
  have N: "tick_now s = of_nat N" "L \<le> N" "N < L + 2 ^ 32"
    using unsigned_less [of "tick_now s - of_nat L", where ?'a = nat] by (simp_all add: N_def)
  obtain s3 where s3: "process_message cb pf (Message j (xTimerParameters v (Some t))) s = timer_command cb j v t (of_nat N) s3"
    "I (qs s3)" "xTimerPeriodInTicks (timer_of s3 t) = xTimerPeriodInTicks (timer_of s t)" "auto_reload s3 t = auto_reload s t"
    by (rule process_message_begin [OF assms(1-3) N assms(6), of pf j v], rule that)
  let ?a = "set_status tmrSTATUS_IS_ACTIVE t s3"
  let ?b = "upd_timer t (\<lambda>x. x\<lparr>tm_value := v\<rparr>) ?a"
  have p: "xTimerPeriodInTicks (timer_of ?a t) = 0" using s3(3) assms(4) by (simp add: set_status_def)
  have b: "auto_reload ?b t" using set_active_simps(2) [of t t s3] s3(4) assms(5) by (simp add: has_status_def)
  have "prvReloadTimer cb t v (of_nat N) ?b = Inl Diverges" unfolding prvReloadTimer_def
    by (rule reload_loop_zero [OF assms(1)]) (use s3(2) p in \<open>simp_all add: set_status_def\<close>)
  then show ?thesis unfolding s3(1) using j insert_zero [OF p, of v "of_nat N"] p b
    by (auto simp: timer_command_def start_command_def process_timer_def)
qed

text \<open>C40: Nothing keeps a period from being zero, since \<open>configASSERT\<close> is empty in this configuration.  When the period of
  an auto-reload timer is changed to zero the timer is in no list and yet reported as active; the next start command
  makes the service task call the callback for ever: no number of rounds of the loop in \<open>prvReloadTimer\<close> is enough.\<close>

theorem timer_period_zero_never_returns:
  assumes "polite A (sys_at 0 D) cb" "run_ok D q (s, T, L)" "in_time s T L" "t \<in> A" "auto_reload s t" "change_command i"
  shows "\<exists>s1. process_message cb pf (Message i (xTimerParameters 0 (Some t))) s = Inr s1 \<and>
    (\<forall>c. fst (xTimerIsTimerActive c t s1)) \<and> \<not> listed s1 t \<and> xTimerPeriodInTicks (timer_of s1 t) = 0 \<and>
    (\<forall>n X now. reload_loop n cb t X now s1 = Inl Diverges) \<and>
    (\<forall>j v. start_command j \<longrightarrow> process_message cb pf (Message j (xTimerParameters v (Some t))) s1 = Inl Diverges)"
proof -
  have r: "service_ok D q L s" "tick_now s = of_nat T" "L \<le> T" using assms(2) by (simp_all add: run_ok_def)
  obtain K where K: "service_ok D q K s" "K \<le> T" "T < K + 2 ^ 32" by (rule in_time_rebase [OF r(1,3) assms(3)], rule that)
  have k: "timers_ok {} K s" "sys_at 0 D (qs s)" using K(1) by (simp_all add: service_ok_def sys_at_0)
  obtain s2 where s2: "process_message cb pf (Message i (xTimerParameters 0 (Some t))) s = timer_command cb i 0 t (of_nat T) s2"
    "timers_ok {t} T s2" "\<not> listed s2 t" "sys_at 0 D (qs s2)" "auto_reload s2 t"
    by (rule process_message_begin [OF assms(1) k(2,1) r(2) K(2,3) assms(4), of pf i 0], rule that) (simp_all add: assms(5))
  let ?z = "upd_timer t (\<lambda>x. x\<lparr>xTimerPeriodInTicks := 0\<rparr>) (set_status tmrSTATUS_IS_ACTIVE t s2)"
  let ?s1 = "upd_timer t (\<lambda>x. x\<lparr>tm_value := of_nat T\<rparr>) ?z"
  have c: "timer_command cb i 0 t (of_nat T) s2 = Inr ?s1"
    using assms(6) insert_zero [of ?z t "of_nat T" "of_nat T"]
    by (auto simp: timer_command_def change_command_def command_numbers)
  have y: "timers_ok {t} T (set_status tmrSTATUS_IS_ACTIVE t s2)" "\<not> listed (set_status tmrSTATUS_IS_ACTIVE t s2) t"
    unfolding set_status_def using timers_ok_upd [OF s2(2,3)] s2(3) by simp_all
  have z: "timers_ok {t} T ?z" "\<not> listed ?z t" using timers_ok_upd [OF y] y(2) by simp_all
  have ok: "timers_ok {t} T ?s1" "\<not> listed ?s1 t" using timers_ok_upd [OF z] z(2) by simp_all
  have st: "auto_reload ?s1 t" "has_status tmrSTATUS_IS_ACTIVE t ?s1" "xTimerPeriodInTicks (timer_of ?s1 t) = 0"
    using set_active_simps(1,2) [of t t s2] s2(5) by (simp_all add: has_status_def)
  have qs1: "sys_at 0 D (qs ?s1)" using s2(4) by (simp add: set_status_def)
  show ?thesis unfolding s2(1) c
    using st(2,3) ok(2) start_zero [OF assms(1) qs1 ok(1) st(3,1) assms(4)] reload_loop_zero [OF assms(1) qs1 st(3)] by (intro exI [of _ ?s1]) (simp add: xTimerIsTimerActive_def in_section_def has_status_def)
qed

text \<open>Timer 23, whose period is changed to zero.\<close>

theorem timer_period_zero_never_returns_witness:
  "\<exists>s1. process_message demo_callback demo_function (Message tmrCOMMAND_CHANGE_PERIOD (xTimerParameters 0 (Some 23))) demo_quiet = Inr s1 \<and>
    process_message demo_callback demo_function (Message tmrCOMMAND_START (xTimerParameters 100 (Some 23))) s1 = Inl Diverges"
proof -
  have "auto_reload demo_quiet 23" "in_time demo_quiet 100 100" "change_command tmrCOMMAND_CHANGE_PERIOD" "start_command tmrCOMMAND_START"
    using demo_status(2) [of 23] by (simp_all add: has_status_def demo_quiet_def in_time_def change_command_def start_command_def)
  then show ?thesis
    using timer_period_zero_never_returns [OF demo_polite(1) demo_run_ok(2), of 23 UNIV tmrCOMMAND_CHANGE_PERIOD demo_function] by blast
qed

end
