(* ===== verification/TaskAdmin.thy ===== *)
theory TaskAdmin
  imports TaskEvents
begin

text \<open>
  The rest of \<open>tasks.c\<close> as it is compiled in this configuration: notifications from interrupts, the queries,
  the application's tags, the search for a task by name, static creation, the test before a long sleep and the end.
  A section of an interrupt is \<^const>\<open>vTaskEnterCriticalFromISR\<close> and \<^const>\<open>vTaskExitCriticalFromISR\<close>.
\<close>

section \<open>Sections\<close>

definition critical_isr :: "nat \<Rightarrow> (kernel \<Rightarrow> fault + 'a \<times> kernel) \<Rightarrow> kernel \<Rightarrow> fault + 'a \<times> kernel" where
  "critical_isr c f s = bindE (f (vTaskEnterCriticalFromISR c s)) (\<lambda>(r, s'). Inr (r, vTaskExitCriticalFromISR c s'))"

section \<open>Notifications from interrupts\<close>

text \<open>The task \<open>t\<close> waits for the notification; the result says whether the interrupt is to switch the context.\<close>

definition notify_wake_isr :: "nat \<Rightarrow> nat \<Rightarrow> kernel \<Rightarrow> fault + (bool \<times> kernel)" where
  "notify_wake_isr c t s =
     bindE (if uxSchedulerSuspended s = 0
            then bindE (state_remove t s) (\<lambda>s1.
                 bindE (prvAddTaskToReadyList t s1) (\<lambda>s2. Inr (prvResetNextTaskUnblockTime s2)))
            else Inr (event_insert_end PendingReadyL t s)) (\<lambda>s3.
     bindE (prvYieldForTask c t s3) (\<lambda>s4. Inr (xYieldPendings s4 c, s4)))"

definition xTaskGenericNotifyFromISR ::
  "nat \<Rightarrow> nat \<Rightarrow> u32 \<Rightarrow> eNotifyAction \<Rightarrow> kernel \<Rightarrow> fault + ((bool \<times> u32 \<times> bool) \<times> kernel)" where
  "xTaskGenericNotifyFromISR c t ulValue eAction =
     critical_isr c (\<lambda>s0.
       let prev = ulNotifiedValue (tcb s0 t);
           orig = ucNotifyState (tcb s0 t);
           (v, ok) = notify_value eAction orig prev ulValue;
           s1 = upd_tcb t (\<lambda>x. x\<lparr>ucNotifyState := Received, ulNotifiedValue := v\<rparr>) s0
       in if orig = Waiting then bindE (notify_wake_isr c t s1) (\<lambda>(woken, s2). Inr ((ok, prev, woken), s2))
          else Inr ((ok, prev, False), s1))"

definition vTaskGenericNotifyGiveFromISR :: "nat \<Rightarrow> nat \<Rightarrow> kernel \<Rightarrow> fault + (bool \<times> kernel)" where
  "vTaskGenericNotifyGiveFromISR c t =
     critical_isr c (\<lambda>s0.
       let orig = ucNotifyState (tcb s0 t);
           s1 = upd_tcb t (\<lambda>x. x\<lparr>ucNotifyState := Received, ulNotifiedValue := ulNotifiedValue x + 1\<rparr>) s0
       in if orig = Waiting then notify_wake_isr c t s1 else Inr (False, s1))"

text \<open>Giving is notifying with an increment.\<close>

lemma give_is_increment:
  "vTaskGenericNotifyGiveFromISR c t s =
     bindE (xTaskGenericNotifyFromISR c t v eIncrement s) (\<lambda>((_, _, woken), s'). Inr (woken, s'))"
  by (simp add: vTaskGenericNotifyGiveFromISR_def xTaskGenericNotifyFromISR_def critical_isr_def notify_value_def bindE_def
      Let_def upd_tcb_def split: sum.split prod.split)

section \<open>Queries\<close>

definition uxTaskPriorityGetFromISR :: "nat \<Rightarrow> ptr \<Rightarrow> kernel \<Rightarrow> fault + (nat \<times> kernel)" where
  "uxTaskPriorityGetFromISR c h =
     critical_isr c (\<lambda>s. bindE (prvGetTCBFromHandle c h s) (\<lambda>t. Inr (prio s t, s)))"

definition uxTaskBasePriorityGet :: "nat \<Rightarrow> ptr \<Rightarrow> kernel \<Rightarrow> fault + (nat \<times> kernel)" where
  "uxTaskBasePriorityGet c h =
     critical c (\<lambda>s. bindE (prvGetTCBFromHandle c h s) (\<lambda>t. Inr (uxBasePriority (tcb s t), s)))"

definition uxTaskBasePriorityGetFromISR :: "nat \<Rightarrow> ptr \<Rightarrow> kernel \<Rightarrow> fault + (nat \<times> kernel)" where
  "uxTaskBasePriorityGetFromISR c h =
     critical_isr c (\<lambda>s. bindE (prvGetTCBFromHandle c h s) (\<lambda>t. Inr (uxBasePriority (tcb s t), s)))"

definition uxTaskGetNumberOfTasks :: "kernel \<Rightarrow> nat" where
  "uxTaskGetNumberOfTasks s = uxCurrentNumberOfTasks s"

definition pcTaskGetName :: "nat \<Rightarrow> ptr \<Rightarrow> kernel \<Rightarrow> fault + string" where
  "pcTaskGetName c h s = bindE (prvGetTCBFromHandle c h s) (\<lambda>t. Inr (pcTaskName (tcb s t)))"

definition xTaskGetIdleTaskHandleForCore :: "nat \<Rightarrow> kernel \<Rightarrow> ptr" where
  "xTaskGetIdleTaskHandleForCore xCoreID s = xIdleTaskHandles s xCoreID"

definition xTaskGetCurrentTaskHandle :: "nat \<Rightarrow> kernel \<Rightarrow> ptr" where
  "xTaskGetCurrentTaskHandle c s = pxCurrentTCBs s c"

definition xTaskGetCurrentTaskHandleForCore :: "int \<Rightarrow> kernel \<Rightarrow> ptr" where
  "xTaskGetCurrentTaskHandleForCore xCoreID s =
     (if 0 \<le> xCoreID \<and> xCoreID < int configNUMBER_OF_CORES then pxCurrentTCBs s (nat xCoreID) else None)"

section \<open>Tags\<close>

definition vTaskSetApplicationTaskTag :: "nat \<Rightarrow> ptr \<Rightarrow> ptr \<Rightarrow> kernel \<Rightarrow> fault + (unit \<times> kernel)" where
  "vTaskSetApplicationTaskTag c h pxHookFunction s =
     bindE (prvGetTCBFromHandle c h s) (\<lambda>t.
       critical c (\<lambda>s0. Inr ((), upd_tcb t (\<lambda>x. x\<lparr>pxTaskTag := pxHookFunction\<rparr>) s0)) s)"

definition xTaskGetApplicationTaskTag :: "nat \<Rightarrow> ptr \<Rightarrow> kernel \<Rightarrow> fault + (ptr \<times> kernel)" where
  "xTaskGetApplicationTaskTag c h s =
     bindE (prvGetTCBFromHandle c h s) (\<lambda>t. critical c (\<lambda>s0. Inr (pxTaskTag (tcb s0 t), s0)) s)"

definition xTaskGetApplicationTaskTagFromISR :: "nat \<Rightarrow> ptr \<Rightarrow> kernel \<Rightarrow> fault + (ptr \<times> kernel)" where
  "xTaskGetApplicationTaskTagFromISR c h s =
     bindE (prvGetTCBFromHandle c h s) (\<lambda>t. critical_isr c (\<lambda>s0. Inr (pxTaskTag (tcb s0 t), s0)) s)"

text \<open>\<open>hook\<close> is what the functions of the application do, given the function pointer and the parameter.\<close>

definition xTaskCallApplicationTaskHook ::
  "(nat \<Rightarrow> nat \<Rightarrow> kernel \<Rightarrow> fault + (int \<times> kernel)) \<Rightarrow> nat \<Rightarrow> ptr \<Rightarrow> nat \<Rightarrow> kernel \<Rightarrow> fault + (int \<times> kernel)" where
  "xTaskCallApplicationTaskHook hook c h pvParameter s =
     bindE (prvGetTCBFromHandle c h s) (\<lambda>t.
       case pxTaskTag (tcb s t) of None \<Rightarrow> Inr (0, s) | Some f \<Rightarrow> hook f pvParameter s)"

section \<open>The search for a task by name\<close>

text \<open>The character at position \<open>x\<close> of a C string, the terminating zero included.\<close>

definition char_at :: "string \<Rightarrow> nat \<Rightarrow> char" where
  "char_at cs x = (if x < length cs then cs ! x else CHR 0x00)"

text \<open>The loop over the characters; \<open>n\<close> of them are left.\<close>

fun name_loop :: "nat \<Rightarrow> nat \<Rightarrow> string \<Rightarrow> string \<Rightarrow> bool" where
  "name_loop 0 x stored pcNameToQuery = False"
| "name_loop (Suc n) x stored pcNameToQuery =
     (if char_at stored x \<noteq> char_at pcNameToQuery x then False
      else if char_at stored x = CHR 0x00 then True
      else name_loop n (x + 1) stored pcNameToQuery)"

definition prvSearchForNameWithinSingleList :: "klist \<Rightarrow> string \<Rightarrow> kernel \<Rightarrow> ptr" where
  "prvSearchForNameWithinSingleList L pcNameToQuery s =
     find (\<lambda>t. name_loop configMAX_TASK_NAME_LEN 0 (pcTaskName (tcb s t)) pcNameToQuery) (lists s L)"

text \<open>The lists in the order in which they are searched.\<close>

fun search_lists :: "klist list \<Rightarrow> string \<Rightarrow> kernel \<Rightarrow> ptr" where
  "search_lists [] pcNameToQuery s = None"
| "search_lists (L # Ls) pcNameToQuery s =
     (case prvSearchForNameWithinSingleList L pcNameToQuery s of None \<Rightarrow> search_lists Ls pcNameToQuery s | Some t \<Rightarrow> Some t)"

definition xTaskGetHandle :: "nat \<Rightarrow> string \<Rightarrow> kernel \<Rightarrow> fault + (ptr \<times> kernel)" where
  "xTaskGetHandle c pcNameToQuery s =
     (let s0 = vTaskSuspendAll s;
          p = search_lists (map ReadyL (rev [0..<configMAX_PRIORITIES]) @
            [pxDelayedTaskList s0, pxOverflowDelayedTaskList s0, SuspendedL, TerminationL]) pcNameToQuery s0
      in bindE (xTaskResumeAll c s0) (\<lambda>(_, s1). Inr (p, s1)))"

text \<open>Two names are found equal when they are, if the stored one is as short as \<open>prvInitialiseNewTask\<close> makes it.\<close>

lemma char_at_nz: "CHR 0x00 \<notin> set a \<Longrightarrow> char_at a k = CHR 0x00 \<longleftrightarrow> length a \<le> k"
  by (auto simp: char_at_def dest: nth_mem)

lemma take_Suc_eq_iff:
  assumes "CHR 0x00 \<notin> set a" "CHR 0x00 \<notin> set b" "take x a = take x b" "x \<le> length a" "x \<le> length b"
  shows "take (Suc x) a = take (Suc x) b \<longleftrightarrow> char_at a x = char_at b x"
proof -
  consider "x < length a" "x < length b" | "x = length a" "x = length b" | "x < length a" "x = length b"
    | "x = length a" "x < length b" using assms(4,5) by linarith
  then show ?thesis
  proof cases
    case 1
    then show ?thesis using assms(3) by (simp add: take_Suc_conv_app_nth char_at_def)
  next
    case 2
    then show ?thesis using assms(3) by (simp add: char_at_def)
  next
    case 3
    then have "a ! x \<noteq> CHR 0x00" using assms(1) nth_mem by metis
    then show ?thesis using 3 assms(3) by (simp add: take_Suc_conv_app_nth char_at_def)
  next
    case 4
    then have "b ! x \<noteq> CHR 0x00" using assms(2) nth_mem by metis
    then show ?thesis using 4 assms(3) by (simp add: take_Suc_conv_app_nth char_at_def eq_commute)
  qed
qed

lemma name_loop_iff:
  assumes "CHR 0x00 \<notin> set a" "CHR 0x00 \<notin> set b" "length a < x + n" "take x a = take x b" "x \<le> length a" "x \<le> length b"
  shows "name_loop n x a b \<longleftrightarrow> a = b"
  using assms(3-6)
proof (induction n arbitrary: x)
  case (Suc n)
  note t = take_Suc_eq_iff [OF assms(1,2) Suc.prems(2,3,4)]
  consider "char_at a x \<noteq> char_at b x" | "char_at a x = char_at b x" "length a \<le> x" "length b \<le> x"
    | "char_at a x = char_at b x" "x < length a" "x < length b"
    using char_at_nz [OF assms(1), of x] char_at_nz [OF assms(2), of x] by (metis not_less)
  then show ?case
  proof cases
    case 1
    then show ?thesis using t by auto
  next
    case 2
    then show ?thesis using char_at_nz [OF assms(1), of x] Suc.prems(2) by simp
  next
    case 3
    have "name_loop n (Suc x) a b \<longleftrightarrow> a = b" using 3 t Suc.prems(1) by (intro Suc.IH) simp_all
    then show ?thesis using 3 char_at_nz [OF assms(1), of x] by simp
  qed
qed simp

section \<open>Creation in memory of the caller\<close>

text \<open>\<open>pxTaskBuffer\<close> and \<open>puxStackBuffer\<close> are what the caller passes, \<open>None\<close> for NULL.\<close>

definition prvCreateStaticTask :: "bool \<Rightarrow> string \<Rightarrow> u32 \<Rightarrow> ptr \<Rightarrow> ptr \<Rightarrow> kernel \<Rightarrow> ptr \<times> kernel" where
  "prvCreateStaticTask idle_function pcName pr puxStackBuffer pxTaskBuffer s =
     (case (pxTaskBuffer, puxStackBuffer) of
        (Some t, Some _) \<Rightarrow> (Some t, prvInitialiseNewTask idle_function pcName pr t (upd_tcb t (\<lambda>_. zero_tcb) s))
      | _ \<Rightarrow> (None, s))"

definition xTaskCreateStatic :: "nat \<Rightarrow> bool \<Rightarrow> string \<Rightarrow> u32 \<Rightarrow> ptr \<Rightarrow> ptr \<Rightarrow> kernel \<Rightarrow> fault + (ptr \<times> kernel)" where
  "xTaskCreateStatic c idle_function pcName pr puxStackBuffer pxTaskBuffer s =
     (case prvCreateStaticTask idle_function pcName pr puxStackBuffer pxTaskBuffer s of
        (Some t, s1) \<Rightarrow> bindE (prvAddNewTaskToReadyList c t
          (upd_tcb t (\<lambda>x. x\<lparr>uxCoreAffinityMask := configTASK_DEFAULT_CORE_AFFINITY\<rparr>) s1)) (\<lambda>s2. Inr (Some t, s2))
      | (None, s1) \<Rightarrow> Inr (None, s1))"

definition xTaskCreateStaticAffinitySet ::
  "nat \<Rightarrow> bool \<Rightarrow> string \<Rightarrow> u32 \<Rightarrow> ptr \<Rightarrow> ptr \<Rightarrow> u32 \<Rightarrow> kernel \<Rightarrow> fault + (ptr \<times> kernel)" where
  "xTaskCreateStaticAffinitySet c idle_function pcName pr puxStackBuffer pxTaskBuffer affinity s =
     (case prvCreateStaticTask idle_function pcName pr puxStackBuffer pxTaskBuffer s of
        (Some t, s1) \<Rightarrow> bindE (prvAddNewTaskToReadyList c t (upd_tcb t (\<lambda>x. x\<lparr>uxCoreAffinityMask := affinity\<rparr>) s1))
          (\<lambda>s2. Inr (Some t, s2))
      | (None, s1) \<Rightarrow> Inr (None, s1))"

text \<open>In memory of the heap: \<open>mem\<close> is the TCB that was allocated, if both it and the stack could be.\<close>

definition xTaskCreateAffinitySet ::
  "nat \<Rightarrow> bool \<Rightarrow> string \<Rightarrow> u32 \<Rightarrow> u32 \<Rightarrow> ptr \<Rightarrow> kernel \<Rightarrow> fault + (ptr \<times> kernel)" where
  "xTaskCreateAffinitySet c idle_function pcName pr affinity mem s =
     (case mem of None \<Rightarrow> Inr (None, s)
      | Some t \<Rightarrow> bindE (create_with_affinity c idle_function pcName pr affinity t s) (\<lambda>s'. Inr (Some t, s')))"

lemma create_static_eq:
  "xTaskCreateStaticAffinitySet c f n p (Some k) mem m s = xTaskCreateAffinitySet c f n p m mem s"
  by (simp add: xTaskCreateStaticAffinitySet_def xTaskCreateAffinitySet_def prvCreateStaticTask_def create_with_affinity_def
      split: option.split)

lemma xTaskCreateStatic_eq:
  "xTaskCreateStatic c f n p (Some k) (Some t) s =
     bindE (create_with_affinity c f n p configTASK_DEFAULT_CORE_AFFINITY t s) (\<lambda>s'. Inr (Some t, s'))"
  by (simp add: xTaskCreateStatic_def prvCreateStaticTask_def create_with_affinity_def)

section \<open>Before a long sleep, and the end\<close>

datatype eSleepModeStatus = eAbortSleep | eStandardSleep | eNoTasksWaitingTimeout

definition eTaskConfirmSleepModeStatus :: "nat \<Rightarrow> kernel \<Rightarrow> eSleepModeStatus" where
  "eTaskConfirmSleepModeStatus c s =
     (if lists s PendingReadyL \<noteq> [] then eAbortSleep
      else if xYieldPendings s c then eAbortSleep
      else if xPendedTicks s \<noteq> 0 then eAbortSleep
      else if (of_nat (length (lists s SuspendedL)) :: u32) = of_nat (uxCurrentNumberOfTasks s) - of_nat configNUMBER_OF_CORES
      then eNoTasksWaitingTimeout
      else eStandardSleep)"

text \<open>\<open>tmr\<close> is the handle of the service task of the timers; the result are the tasks whose memory was freed at once
  and those the loop over the deleted tasks frees.\<close>

fun delete_all :: "nat \<Rightarrow> ptr list \<Rightarrow> kernel \<Rightarrow> fault + (nat list \<times> kernel)" where
  "delete_all c [] s = Inr ([], s)"
| "delete_all c (h # hs) s =
     bindE (vTaskDelete c h s) (\<lambda>(p, s1).
     bindE (delete_all c hs s1) (\<lambda>(ts, s2). Inr ((case p of None \<Rightarrow> ts | Some t \<Rightarrow> t # ts), s2)))"

definition vTaskEndScheduler :: "nat \<Rightarrow> ptr \<Rightarrow> kernel \<Rightarrow> fault + (nat list \<times> kernel)" where
  "vTaskEndScheduler c tmr s =
     bindE (vTaskDelete c tmr s) (\<lambda>(p, s1).
     bindE (delete_all c (map (xIdleTaskHandles s1) [0..<configNUMBER_OF_CORES]) s1) (\<lambda>(ts, s2).
     bindE (prvCheckTasksWaitingTermination c s2) (\<lambda>(us, s3).
       Inr ((case p of None \<Rightarrow> [] | Some t \<Rightarrow> [t]) @ ts @ us, s3\<lparr>xSchedulerRunning := False\<rparr>))))"

definition vTaskResetState :: "kernel \<Rightarrow> kernel" where
  "vTaskResetState s = s\<lparr>uxDeletedTasksWaitingCleanUp := 0, uxCurrentNumberOfTasks := 0, xTickCount := 0, uxTopReadyPriority := 0,
     xSchedulerRunning := False, xPendedTicks := 0, xYieldPendings := (\<lambda>x. if x < configNUMBER_OF_CORES then False else xYieldPendings s x),
     xNumOfOverflows := 0, uxTaskNumber := 0, xNextTaskUnblockTime := 0, uxSchedulerSuspended := 0\<rparr>"

end
