(* ===== verification/StreamBuffers.thy ===== *)
theory StreamBuffers
  imports QueueImpl TaskAdmin
begin

text \<open>
  Stream, batching and message buffers (\<open>stream_buffer.c\<close>): one writer and one reader share a ring of bytes, each
  side moves one index, and the tasks block on each other with task notifications.  A buffer is a number; its
  storage is a list of bytes, sizes and indices are 32-bit words.  A function that blocks is split where the calling
  task is switched out, as for the queues.  \<open>configASSERT\<close> is not defined in this build.
\<close>

unbundle bit_operations_syntax

section \<open>Data\<close>

record stream_buffer =
  xTail :: u32
  xHead :: u32
  xLength :: u32
  xTriggerLevelBytes :: u32
  xTaskWaitingToReceive :: ptr
  xTaskWaitingToSend :: ptr
  pucBuffer :: "u8 list"
  ucFlags :: u8
  uxNotificationIndex :: nat

record ssys =
  skern :: kernel
  sb_of :: "nat \<Rightarrow> stream_buffer"

datatype sb_type = sbTYPE_STREAM_BUFFER | sbTYPE_MESSAGE_BUFFER | sbTYPE_STREAM_BATCHING_BUFFER

definition sbBYTES_TO_STORE_MESSAGE_LENGTH :: u32 where "sbBYTES_TO_STORE_MESSAGE_LENGTH = 4"
definition sbFLAGS_IS_MESSAGE_BUFFER :: u8 where "sbFLAGS_IS_MESSAGE_BUFFER = 1"
definition sbFLAGS_IS_STATICALLY_ALLOCATED :: u8 where "sbFLAGS_IS_STATICALLY_ALLOCATED = 2"
definition sbFLAGS_IS_BATCHING_BUFFER :: u8 where "sbFLAGS_IS_BATCHING_BUFFER = 4"

definition is_message :: "stream_buffer \<Rightarrow> bool" where "is_message b = (ucFlags b AND sbFLAGS_IS_MESSAGE_BUFFER \<noteq> 0)"
definition is_batching :: "stream_buffer \<Rightarrow> bool" where "is_batching b = (ucFlags b AND sbFLAGS_IS_BATCHING_BUFFER \<noteq> 0)"
definition is_static :: "stream_buffer \<Rightarrow> bool" where "is_static b = (ucFlags b AND sbFLAGS_IS_STATICALLY_ALLOCATED \<noteq> 0)"

definition upd_sb :: "nat \<Rightarrow> (stream_buffer \<Rightarrow> stream_buffer) \<Rightarrow> ssys \<Rightarrow> ssys" where
  "upd_sb q f s = s\<lparr>sb_of := (sb_of s)(q := f (sb_of s q))\<rparr>"

definition upd_skern :: "(kernel \<Rightarrow> kernel) \<Rightarrow> ssys \<Rightarrow> ssys" where
  "upd_skern f s = s\<lparr>skern := f (skern s)\<rparr>"

definition on_skern :: "(kernel \<Rightarrow> fault + 'a \<times> kernel) \<Rightarrow> ssys \<Rightarrow> fault + 'a \<times> ssys" where
  "on_skern f s = bindE (f (skern s)) (\<lambda>(r, k). Inr (r, s\<lparr>skern := k\<rparr>))"

definition scritical :: "nat \<Rightarrow> (ssys \<Rightarrow> fault + 'a \<times> ssys) \<Rightarrow> ssys \<Rightarrow> fault + 'a \<times> ssys" where
  "scritical c f s = bindE (f (upd_skern (vTaskEnterCritical c) s)) (\<lambda>(r, s'). Inr (r, upd_skern (vTaskExitCritical c) s'))"

definition scritical_isr :: "nat \<Rightarrow> (ssys \<Rightarrow> fault + 'a \<times> ssys) \<Rightarrow> ssys \<Rightarrow> fault + 'a \<times> ssys" where
  "scritical_isr c f s = bindE (f (upd_skern (vTaskEnterCriticalFromISR c) s))
     (\<lambda>(r, s'). Inr (r, upd_skern (vTaskExitCriticalFromISR c) s'))"

section \<open>The ring of bytes\<close>

definition prvBytesInBuffer :: "stream_buffer \<Rightarrow> u32" where
  "prvBytesInBuffer b =
     (let xCount = xLength b + xHead b - xTail b in if xCount \<ge> xLength b then xCount - xLength b else xCount)"

text \<open>The loop reads the tail until it reads the same twice; nothing changes it within one step.\<close>

definition xStreamBufferSpacesAvailable :: "stream_buffer \<Rightarrow> u32" where
  "xStreamBufferSpacesAvailable b =
     (let xSpace = xLength b + xTail b - xHead b - 1 in if xSpace \<ge> xLength b then xSpace - xLength b else xSpace)"

definition prvWriteBytesToBuffer :: "stream_buffer \<Rightarrow> u8 list \<Rightarrow> u32 \<Rightarrow> u32 \<Rightarrow> fault + (u32 \<times> stream_buffer)" where
  "prvWriteBytesToBuffer b pucData xCount head =
     (let xFirstLength = min (xLength b - head) xCount in
      bindE (read_bytes pucData 0 (unat xFirstLength)) (\<lambda>d1.
      bindE (write_bytes (pucBuffer b) (uint head) d1) (\<lambda>m1.
      bindE (if xCount > xFirstLength
             then bindE (read_bytes pucData (uint xFirstLength) (unat (xCount - xFirstLength))) (write_bytes m1 0)
             else Inr m1) (\<lambda>m2.
      let h = head + xCount in Inr (if h \<ge> xLength b then h - xLength b else h, b\<lparr>pucBuffer := m2\<rparr>)))))"

definition prvReadBytesFromBuffer :: "stream_buffer \<Rightarrow> u32 \<Rightarrow> u32 \<Rightarrow> fault + (u32 \<times> u8 list)" where
  "prvReadBytesFromBuffer b xCount tail =
     (let xFirstLength = min (xLength b - tail) xCount in
      bindE (read_bytes (pucBuffer b) (uint tail) (unat xFirstLength)) (\<lambda>d1.
      bindE (if xCount > xFirstLength then read_bytes (pucBuffer b) 0 (unat (xCount - xFirstLength)) else Inr []) (\<lambda>d2.
      let t = tail + xCount in Inr (if t \<ge> xLength b then t - xLength b else t, d1 @ d2))))"

text \<open>The length of a message as the four bytes in front of it.\<close>

definition length_bytes :: "u32 \<Rightarrow> u8 list" where
  "length_bytes n = map (\<lambda>i. ucast (drop_bit (8 * i) n)) [0..<4]"

definition bytes_length :: "u8 list \<Rightarrow> u32" where
  "bytes_length bs = foldr (\<lambda>x n. ucast x OR push_bit 8 n) bs 0"

definition prvWriteMessageToBuffer :: "stream_buffer \<Rightarrow> u8 list \<Rightarrow> u32 \<Rightarrow> u32 \<Rightarrow> u32 \<Rightarrow> fault + (u32 \<times> stream_buffer)" where
  "prvWriteMessageToBuffer b pvTxData xDataLengthBytes xSpace xRequiredSpace =
     bindE (if is_message b then
              if xSpace \<ge> xRequiredSpace
              then bindE (prvWriteBytesToBuffer b (length_bytes xDataLengthBytes) sbBYTES_TO_STORE_MESSAGE_LENGTH (xHead b))
                (\<lambda>(h, b1). Inr (xDataLengthBytes, h, b1))
              else Inr (0, xHead b, b)
            else Inr (min xDataLengthBytes xSpace, xHead b, b)) (\<lambda>(n, h, b1).
     if n \<noteq> 0 then bindE (prvWriteBytesToBuffer b1 pvTxData n h) (\<lambda>(h', b2). Inr (n, b2\<lparr>xHead := h'\<rparr>))
     else Inr (n, b1))"

text \<open>The bytes handed to the reader; their number is the length of the list.\<close>

definition prvReadMessageFromBuffer :: "stream_buffer \<Rightarrow> u32 \<Rightarrow> u32 \<Rightarrow> fault + (u8 list \<times> stream_buffer)" where
  "prvReadMessageFromBuffer b xBufferLengthBytes xBytesAvailable =
     bindE (if is_message b
            then bindE (prvReadBytesFromBuffer b sbBYTES_TO_STORE_MESSAGE_LENGTH (xTail b)) (\<lambda>(t, bs).
              Inr (if bytes_length bs > xBufferLengthBytes then 0 else bytes_length bs,
                xBytesAvailable - sbBYTES_TO_STORE_MESSAGE_LENGTH, t))
            else Inr (xBufferLengthBytes, xBytesAvailable, xTail b)) (\<lambda>(want, avail, t).
     let xCount = min want avail in
     if xCount \<noteq> 0 then bindE (prvReadBytesFromBuffer b xCount t) (\<lambda>(t', bs). Inr (bs, b\<lparr>xTail := t'\<rparr>))
     else Inr ([], b))"

definition xStreamBufferNextMessageLengthBytes :: "stream_buffer \<Rightarrow> fault + u32" where
  "xStreamBufferNextMessageLengthBytes b =
     (if is_message b \<and> prvBytesInBuffer b > sbBYTES_TO_STORE_MESSAGE_LENGTH
      then bindE (prvReadBytesFromBuffer b sbBYTES_TO_STORE_MESSAGE_LENGTH (xTail b)) (\<lambda>(_, bs). Inr (bytes_length bs))
      else Inr 0)"

definition xStreamBufferBytesAvailable :: "stream_buffer \<Rightarrow> u32" where
  "xStreamBufferBytesAvailable b = prvBytesInBuffer b"

definition xStreamBufferIsEmpty :: "stream_buffer \<Rightarrow> bool" where
  "xStreamBufferIsEmpty b = (xHead b = xTail b)"

definition xStreamBufferIsFull :: "stream_buffer \<Rightarrow> bool" where
  "xStreamBufferIsFull b =
     (xStreamBufferSpacesAvailable b \<le> (if is_message b then sbBYTES_TO_STORE_MESSAGE_LENGTH else 0))"

section \<open>Creation\<close>

definition prvInitialiseNewStreamBuffer :: "u8 list \<Rightarrow> u32 \<Rightarrow> u32 \<Rightarrow> u8 \<Rightarrow> stream_buffer" where
  "prvInitialiseNewStreamBuffer buf xBufferSizeBytes trigger flags =
     \<lparr>xTail = 0, xHead = 0, xLength = xBufferSizeBytes, xTriggerLevelBytes = trigger, xTaskWaitingToReceive = None,
      xTaskWaitingToSend = None, pucBuffer = buf, ucFlags = flags, uxNotificationIndex = 0\<rparr>"

definition type_flags :: "sb_type \<Rightarrow> u8" where
  "type_flags ty = (case ty of sbTYPE_MESSAGE_BUFFER \<Rightarrow> sbFLAGS_IS_MESSAGE_BUFFER
     | sbTYPE_STREAM_BATCHING_BUFFER \<Rightarrow> sbFLAGS_IS_BATCHING_BUFFER | sbTYPE_STREAM_BUFFER \<Rightarrow> 0)"

text \<open>\<open>q\<close> is the buffer \<open>pvPortMalloc\<close> returned, if any, \<open>raw\<close> the bytes behind the structure, \<open>sz\<close> its size.\<close>

definition xStreamBufferGenericCreate :: "u32 \<Rightarrow> u32 \<Rightarrow> u32 \<Rightarrow> sb_type \<Rightarrow> ptr \<Rightarrow> u8 list \<Rightarrow> ssys \<Rightarrow> ptr \<times> ssys" where
  "xStreamBufferGenericCreate sz xBufferSizeBytes trigger ty mem raw s =
     (if xBufferSizeBytes < xBufferSizeBytes + 1 + sz then
        (case mem of None \<Rightarrow> (None, s)
         | Some q \<Rightarrow> (Some q, upd_sb q (\<lambda>_. prvInitialiseNewStreamBuffer raw (xBufferSizeBytes + 1)
             (if trigger = 0 then 1 else trigger) (type_flags ty)) s))
      else (None, s))"

definition xStreamBufferGenericCreateStatic :: "u32 \<Rightarrow> u32 \<Rightarrow> sb_type \<Rightarrow> u8 list option \<Rightarrow> ptr \<Rightarrow> ssys \<Rightarrow> ptr \<times> ssys" where
  "xStreamBufferGenericCreateStatic xBufferSizeBytes trigger ty area buffer s =
     (case (area, buffer) of
        (Some raw, Some q) \<Rightarrow> (Some q, upd_sb q (\<lambda>_. prvInitialiseNewStreamBuffer raw xBufferSizeBytes
          (if trigger = 0 then 1 else trigger) (type_flags ty OR sbFLAGS_IS_STATICALLY_ALLOCATED)) s)
      | _ \<Rightarrow> (None, s))"

definition xStreamBufferGetStaticBuffers :: "nat \<Rightarrow> ssys \<Rightarrow> (u8 list \<times> nat) option" where
  "xStreamBufferGetStaticBuffers q s = (if is_static (sb_of s q) then Some (pucBuffer (sb_of s q), q) else None)"

text \<open>The result says whether the memory is freed; otherwise the structure is scrubbed.\<close>

definition vStreamBufferDelete :: "nat \<Rightarrow> ssys \<Rightarrow> bool \<times> ssys" where
  "vStreamBufferDelete q s =
     (if \<not> is_static (sb_of s q) then (True, s)
      else (False, upd_sb q (\<lambda>_. prvInitialiseNewStreamBuffer [] 0 0 0) s))"

definition reset_if_unused :: "nat \<Rightarrow> ssys \<Rightarrow> fault + (bool \<times> ssys)" where
  "reset_if_unused q s =
     (let b = sb_of s q in
      if xTaskWaitingToReceive b = None \<and> xTaskWaitingToSend b = None
      then Inr (True, upd_sb q (\<lambda>b. prvInitialiseNewStreamBuffer (pucBuffer b) (xLength b) (xTriggerLevelBytes b) (ucFlags b)) s)
      else Inr (False, s))"

definition xStreamBufferReset :: "nat \<Rightarrow> nat \<Rightarrow> ssys \<Rightarrow> fault + (bool \<times> ssys)" where
  "xStreamBufferReset c q = scritical c (reset_if_unused q)"

definition xStreamBufferResetFromISR :: "nat \<Rightarrow> nat \<Rightarrow> ssys \<Rightarrow> fault + (bool \<times> ssys)" where
  "xStreamBufferResetFromISR c q = scritical_isr c (reset_if_unused q)"

definition xStreamBufferSetTriggerLevel :: "nat \<Rightarrow> u32 \<Rightarrow> ssys \<Rightarrow> bool \<times> ssys" where
  "xStreamBufferSetTriggerLevel q xTriggerLevel s =
     (let t = (if xTriggerLevel = 0 then 1 else xTriggerLevel) in
      if t < xLength (sb_of s q) then (True, upd_sb q (\<lambda>b. b\<lparr>xTriggerLevelBytes := t\<rparr>) s) else (False, s))"

definition uxStreamBufferGetStreamBufferNotificationIndex :: "nat \<Rightarrow> ssys \<Rightarrow> nat" where
  "uxStreamBufferGetStreamBufferNotificationIndex q s = uxNotificationIndex (sb_of s q)"

definition vStreamBufferSetStreamBufferNotificationIndex :: "nat \<Rightarrow> nat \<Rightarrow> ssys \<Rightarrow> ssys" where
  "vStreamBufferSetStreamBufferNotificationIndex q i s = upd_sb q (\<lambda>b. b\<lparr>uxNotificationIndex := i\<rparr>) s"

section \<open>Waking the other side\<close>

definition sbRECEIVE_COMPLETED :: "nat \<Rightarrow> nat \<Rightarrow> ssys \<Rightarrow> fault + ssys" where
  "sbRECEIVE_COMPLETED c q s =
     (let s1 = upd_skern vTaskSuspendAll s in
      bindE (case xTaskWaitingToSend (sb_of s1 q) of None \<Rightarrow> Inr s1
        | Some t \<Rightarrow> bindE (on_skern (xTaskGenericNotify c t 0 eNoAction) s1) (\<lambda>(_, s2).
            Inr (upd_sb q (\<lambda>b. b\<lparr>xTaskWaitingToSend := None\<rparr>) s2))) (\<lambda>s3.
      bindE (on_skern (xTaskResumeAll c) s3) (\<lambda>(_, s4). Inr s4)))"

definition sbSEND_COMPLETED :: "nat \<Rightarrow> nat \<Rightarrow> ssys \<Rightarrow> fault + ssys" where
  "sbSEND_COMPLETED c q s =
     (let s1 = upd_skern vTaskSuspendAll s in
      bindE (case xTaskWaitingToReceive (sb_of s1 q) of None \<Rightarrow> Inr s1
        | Some t \<Rightarrow> bindE (on_skern (xTaskGenericNotify c t 0 eNoAction) s1) (\<lambda>(_, s2).
            Inr (upd_sb q (\<lambda>b. b\<lparr>xTaskWaitingToReceive := None\<rparr>) s2))) (\<lambda>s3.
      bindE (on_skern (xTaskResumeAll c) s3) (\<lambda>(_, s4). Inr s4)))"

text \<open>From an interrupt: whether a task was waiting, and whether a switch of the context is to be requested.\<close>

definition xStreamBufferReceiveCompletedFromISR :: "nat \<Rightarrow> nat \<Rightarrow> ssys \<Rightarrow> fault + ((bool \<times> bool) \<times> ssys)" where
  "xStreamBufferReceiveCompletedFromISR c q =
     scritical_isr c (\<lambda>s. case xTaskWaitingToSend (sb_of s q) of None \<Rightarrow> Inr ((False, False), s)
       | Some t \<Rightarrow> bindE (on_skern (xTaskGenericNotifyFromISR c t 0 eNoAction) s) (\<lambda>((_, _, woken), s1).
           Inr ((True, woken), upd_sb q (\<lambda>b. b\<lparr>xTaskWaitingToSend := None\<rparr>) s1)))"

definition xStreamBufferSendCompletedFromISR :: "nat \<Rightarrow> nat \<Rightarrow> ssys \<Rightarrow> fault + ((bool \<times> bool) \<times> ssys)" where
  "xStreamBufferSendCompletedFromISR c q =
     scritical_isr c (\<lambda>s. case xTaskWaitingToReceive (sb_of s q) of None \<Rightarrow> Inr ((False, False), s)
       | Some t \<Rightarrow> bindE (on_skern (xTaskGenericNotifyFromISR c t 0 eNoAction) s) (\<lambda>((_, _, woken), s1).
           Inr ((True, woken), upd_sb q (\<lambda>b. b\<lparr>xTaskWaitingToReceive := None\<rparr>) s1)))"

definition sbRECEIVE_COMPLETED_FROM_ISR :: "nat \<Rightarrow> nat \<Rightarrow> ssys \<Rightarrow> fault + (bool \<times> ssys)" where
  "sbRECEIVE_COMPLETED_FROM_ISR c q s = bindE (xStreamBufferReceiveCompletedFromISR c q s) (\<lambda>((_, y), s1). Inr (y, s1))"

definition sbSEND_COMPLETE_FROM_ISR :: "nat \<Rightarrow> nat \<Rightarrow> ssys \<Rightarrow> fault + (bool \<times> ssys)" where
  "sbSEND_COMPLETE_FROM_ISR c q s = bindE (xStreamBufferSendCompletedFromISR c q s) (\<lambda>((_, y), s1). Inr (y, s1))"

section \<open>Sending\<close>

text \<open>A call has returned, or its task waits and goes on with the given data when it runs again.\<close>

datatype ('r, 'w) sb_round = Finished 'r | Blocked 'w

record send_wait =
  sw_required :: u32
  sw_ticks :: u32
  sw_timeout :: timeout
  sw_space :: u32

definition required_space :: "stream_buffer \<Rightarrow> u32 \<Rightarrow> u32" where
  "required_space b xDataLengthBytes =
     (if is_message b then xDataLengthBytes + sbBYTES_TO_STORE_MESSAGE_LENGTH
      else if xDataLengthBytes > xLength b - 1 then xLength b - 1 else xDataLengthBytes)"

text \<open>A message that never fits is not waited for.\<close>

definition send_ticks :: "stream_buffer \<Rightarrow> u32 \<Rightarrow> u32 \<Rightarrow> u32" where
  "send_ticks b xDataLengthBytes xTicksToWait =
     (if is_message b \<and> required_space b xDataLengthBytes > xLength b - 1 then 0 else xTicksToWait)"

definition send_finish :: "nat \<Rightarrow> nat \<Rightarrow> u8 list \<Rightarrow> u32 \<Rightarrow> u32 \<Rightarrow> u32 \<Rightarrow> ssys \<Rightarrow> fault + (u32 \<times> ssys)" where
  "send_finish c q pvTxData len xRequiredSpace xSpace s =
     bindE (prvWriteMessageToBuffer (sb_of s q) pvTxData len
         (if xSpace = 0 then xStreamBufferSpacesAvailable (sb_of s q) else xSpace) xRequiredSpace) (\<lambda>(n, b').
     let s1 = upd_sb q (\<lambda>_. b') s in
     bindE (if n > 0 \<and> prvBytesInBuffer b' \<ge> xTriggerLevelBytes b' then sbSEND_COMPLETED c q s1 else Inr s1)
       (\<lambda>s2. Inr (n, s2)))"

text \<open>The critical section of the loop: the space found, and whether to wait for more.\<close>

definition send_try :: "nat \<Rightarrow> nat \<Rightarrow> u32 \<Rightarrow> ssys \<Rightarrow> fault + ((u32 \<times> bool) \<times> ssys)" where
  "send_try c q xRequiredSpace =
     scritical c (\<lambda>s.
       let xSpace = xStreamBufferSpacesAvailable (sb_of s q) in
       if xSpace < xRequiredSpace then
         bindE (on_skern (xTaskGenericNotifyStateClear c None) s) (\<lambda>(_, s1).
           Inr ((xSpace, True), upd_sb q (\<lambda>b. b\<lparr>xTaskWaitingToSend := pxCurrentTCBs (skern s1) c\<rparr>) s1))
       else Inr ((xSpace, False), s))"

definition notify_wait :: "nat \<Rightarrow> u32 \<Rightarrow> ssys \<Rightarrow> fault + ssys" where
  "notify_wait c ticks s = bindE (xTaskGenericNotifyWait_block c 0 ticks (skern s)) (\<lambda>k. Inr (s\<lparr>skern := k\<rparr>))"

definition send_round :: "nat \<Rightarrow> nat \<Rightarrow> u8 list \<Rightarrow> u32 \<Rightarrow> send_wait \<Rightarrow> ssys \<Rightarrow> fault + ((u32, send_wait) sb_round \<times> ssys)" where
  "send_round c q pvTxData len w s =
     bindE (send_try c q (sw_required w) s) (\<lambda>((xSpace, waits), s1).
       if waits then bindE (notify_wait c (sw_ticks w) s1) (\<lambda>s2. Inr (Blocked (w\<lparr>sw_space := xSpace\<rparr>), s2))
       else bindE (send_finish c q pvTxData len (sw_required w) xSpace s1) (\<lambda>(n, s2). Inr (Finished n, s2)))"

definition xStreamBufferSend ::
  "nat \<Rightarrow> nat \<Rightarrow> u8 list \<Rightarrow> u32 \<Rightarrow> u32 \<Rightarrow> ssys \<Rightarrow> fault + ((u32, send_wait) sb_round \<times> ssys)" where
  "xStreamBufferSend c q pvTxData xDataLengthBytes xTicksToWait s =
     (let b = sb_of s q; req = required_space b xDataLengthBytes; ticks = send_ticks b xDataLengthBytes xTicksToWait in
      if ticks \<noteq> 0 then
        let (tmo, k) = vTaskSetTimeOutState c (skern s) in
        send_round c q pvTxData xDataLengthBytes
          \<lparr>sw_required = req, sw_ticks = ticks, sw_timeout = tmo, sw_space = 0\<rparr> (s\<lparr>skern := k\<rparr>)
      else bindE (send_finish c q pvTxData xDataLengthBytes req 0 s) (\<lambda>(n, s1). Inr (Finished n, s1)))"

text \<open>What the task does when it runs again.\<close>

definition xStreamBufferSend_return ::
  "nat \<Rightarrow> nat \<Rightarrow> u8 list \<Rightarrow> u32 \<Rightarrow> send_wait \<Rightarrow> ssys \<Rightarrow> fault + ((u32, send_wait) sb_round \<times> ssys)" where
  "xStreamBufferSend_return c q pvTxData len w s =
     bindE (on_skern (xTaskGenericNotifyWait_return c 0) s) (\<lambda>(_, s1).
     let s2 = upd_sb q (\<lambda>b. b\<lparr>xTaskWaitingToSend := None\<rparr>) s1 in
     bindE (on_skern (xTaskCheckForTimeOut c (sw_timeout w) (sw_ticks w)) s2) (\<lambda>((expired, tmo, ticks), s3).
       if \<not> expired then send_round c q pvTxData len (w\<lparr>sw_timeout := tmo, sw_ticks := ticks\<rparr>) s3
       else bindE (send_finish c q pvTxData len (sw_required w) (sw_space w) s3) (\<lambda>(n, s4). Inr (Finished n, s4))))"

definition xStreamBufferSendFromISR :: "nat \<Rightarrow> nat \<Rightarrow> u8 list \<Rightarrow> u32 \<Rightarrow> ssys \<Rightarrow> fault + ((u32 \<times> bool) \<times> ssys)" where
  "xStreamBufferSendFromISR c q pvTxData xDataLengthBytes s =
     (let b = sb_of s q in
      bindE (prvWriteMessageToBuffer b pvTxData xDataLengthBytes (xStreamBufferSpacesAvailable b)
          (if is_message b then xDataLengthBytes + sbBYTES_TO_STORE_MESSAGE_LENGTH else xDataLengthBytes)) (\<lambda>(n, b').
      let s1 = upd_sb q (\<lambda>_. b') s in
      bindE (if n > 0 \<and> prvBytesInBuffer b' \<ge> xTriggerLevelBytes b' then sbSEND_COMPLETE_FROM_ISR c q s1
             else Inr (False, s1)) (\<lambda>(y, s2). Inr ((n, y), s2))))"

section \<open>Receiving\<close>

text \<open>A reader goes on when there are more bytes than this.\<close>

definition bytes_to_exceed :: "stream_buffer \<Rightarrow> u32" where
  "bytes_to_exceed b = (if is_message b then sbBYTES_TO_STORE_MESSAGE_LENGTH
     else if is_batching b then xTriggerLevelBytes b else 0)"

definition receive_finish :: "nat \<Rightarrow> nat \<Rightarrow> u32 \<Rightarrow> u32 \<Rightarrow> u32 \<Rightarrow> ssys \<Rightarrow> fault + (u8 list \<times> ssys)" where
  "receive_finish c q xBufferLengthBytes least avail s =
     (if avail > least then
        bindE (prvReadMessageFromBuffer (sb_of s q) xBufferLengthBytes avail) (\<lambda>(bs, b').
        let s1 = upd_sb q (\<lambda>_. b') s in
        bindE (if bs \<noteq> [] then sbRECEIVE_COMPLETED c q s1 else Inr s1) (\<lambda>s2. Inr (bs, s2)))
      else Inr ([], s))"

definition receive_try :: "nat \<Rightarrow> nat \<Rightarrow> u32 \<Rightarrow> ssys \<Rightarrow> fault + (u32 \<times> ssys)" where
  "receive_try c q least =
     scritical c (\<lambda>s.
       let avail = prvBytesInBuffer (sb_of s q) in
       if avail \<le> least then
         bindE (on_skern (xTaskGenericNotifyStateClear c None) s) (\<lambda>(_, s1).
           Inr (avail, upd_sb q (\<lambda>b. b\<lparr>xTaskWaitingToReceive := pxCurrentTCBs (skern s1) c\<rparr>) s1))
       else Inr (avail, s))"

text \<open>A task that waits keeps the number of bytes to exceed.\<close>

definition xStreamBufferReceive ::
  "nat \<Rightarrow> nat \<Rightarrow> u32 \<Rightarrow> u32 \<Rightarrow> ssys \<Rightarrow> fault + ((u8 list, u32) sb_round \<times> ssys)" where
  "xStreamBufferReceive c q xBufferLengthBytes xTicksToWait s =
     (let least = bytes_to_exceed (sb_of s q) in
      if xTicksToWait \<noteq> 0 then
        bindE (receive_try c q least s) (\<lambda>(avail, s1).
          if avail \<le> least then bindE (notify_wait c xTicksToWait s1) (\<lambda>s2. Inr (Blocked least, s2))
          else bindE (receive_finish c q xBufferLengthBytes least avail s1) (\<lambda>(bs, s2). Inr (Finished bs, s2)))
      else bindE (receive_finish c q xBufferLengthBytes least (prvBytesInBuffer (sb_of s q)) s)
        (\<lambda>(bs, s1). Inr (Finished bs, s1)))"

definition xStreamBufferReceive_return :: "nat \<Rightarrow> nat \<Rightarrow> u32 \<Rightarrow> u32 \<Rightarrow> ssys \<Rightarrow> fault + (u8 list \<times> ssys)" where
  "xStreamBufferReceive_return c q xBufferLengthBytes least s =
     bindE (on_skern (xTaskGenericNotifyWait_return c 0) s) (\<lambda>(_, s1).
     let s2 = upd_sb q (\<lambda>b. b\<lparr>xTaskWaitingToReceive := None\<rparr>) s1 in
     receive_finish c q xBufferLengthBytes least (prvBytesInBuffer (sb_of s2 q)) s2)"

definition xStreamBufferReceiveFromISR :: "nat \<Rightarrow> nat \<Rightarrow> u32 \<Rightarrow> ssys \<Rightarrow> fault + ((u8 list \<times> bool) \<times> ssys)" where
  "xStreamBufferReceiveFromISR c q xBufferLengthBytes s =
     (let b = sb_of s q; avail = prvBytesInBuffer b in
      if avail > (if is_message b then sbBYTES_TO_STORE_MESSAGE_LENGTH else 0) then
        bindE (prvReadMessageFromBuffer b xBufferLengthBytes avail) (\<lambda>(bs, b').
        let s1 = upd_sb q (\<lambda>_. b') s in
        bindE (if bs \<noteq> [] then sbRECEIVE_COMPLETED_FROM_ISR c q s1 else Inr (False, s1)) (\<lambda>(y, s2). Inr ((bs, y), s2)))
      else Inr (([], False), s))"

end
