(* ===== verification/StreamBufferProps.thy ===== *)
theory StreamBufferProps
  imports StreamBuffers RingBuffer
begin

text \<open>
  The ring of bytes of a stream buffer as a list: what the index arithmetic in words computes, which bytes a write
  changes and which a read returns, and the frames of a message buffer.
\<close>

section \<open>Index arithmetic\<close>

text \<open>A buffer as creation leaves it and the operations keep it: the indices lie within the storage, which is
  smaller than half of the address space.\<close>

definition sb_ok :: "stream_buffer \<Rightarrow> bool" where
  "sb_ok b \<longleftrightarrow> xTail b < xLength b \<and> xHead b < xLength b \<and> unat (xLength b) < 2 ^ 31 \<and>
     length (pucBuffer b) = unat (xLength b)"

abbreviation sb_cap :: "stream_buffer \<Rightarrow> nat" where "sb_cap b \<equiv> unat (xLength b)"

definition used :: "stream_buffer \<Rightarrow> nat" where
  "used b = (sb_cap b + unat (xHead b) - unat (xTail b)) mod sb_cap b"

lemma sb_okD:
  assumes "sb_ok b"
  shows "unat (xTail b) < sb_cap b" "unat (xHead b) < sb_cap b" "sb_cap b < 2 ^ 31" "length (pucBuffer b) = sb_cap b"
  using assms by (auto simp: sb_ok_def word_less_nat_alt)

lemma mod_twice: "x < 2 * n \<Longrightarrow> x mod n = (if n \<le> x then x - n else x)" for x n :: nat
  by (auto simp: mod_if)

lemma wrap_eq:
  assumes "unat a < 2 * unat l" "unat l < 2 ^ 31"
  shows "unat (if a \<ge> l then a - l else a :: u32) = unat a mod unat l"
  using assms by (auto simp: mod_twice word_le_nat_alt unat_sub)

lemma bytes_in_buffer:
  assumes "sb_ok b"
  shows "unat (prvBytesInBuffer b) = used b"
proof -
  note d = sb_okD [OF assms]
  have s: "unat (xLength b + xHead b) = sb_cap b + unat (xHead b)" using d by (subst unat_plus_if_size) (simp add: word_size)
  have c: "unat (xLength b + xHead b - xTail b) = sb_cap b + unat (xHead b) - unat (xTail b)"
    using d s by (subst unat_sub) (auto simp: word_le_nat_alt)
  show ?thesis unfolding prvBytesInBuffer_def Let_def used_def
    by (subst wrap_eq) (use c d in simp_all)
qed

lemma used_less: "sb_ok b \<Longrightarrow> used b < sb_cap b"
  using sb_okD by (fastforce simp: used_def)

lemma spaces_available:
  assumes "sb_ok b"
  shows "unat (xStreamBufferSpacesAvailable b) = sb_cap b - 1 - used b"
proof -
  note d = sb_okD [OF assms]
  have s: "unat (xLength b + xTail b) = sb_cap b + unat (xTail b)" using d by (subst unat_plus_if_size) (simp add: word_size)
  have c: "unat (xLength b + xTail b - xHead b) = sb_cap b + unat (xTail b) - unat (xHead b)"
    using d s by (subst unat_sub) (auto simp: word_le_nat_alt)
  have e: "unat (xLength b + xTail b - xHead b - 1) = sb_cap b + unat (xTail b) - unat (xHead b) - 1"
    using d c by (subst unat_sub) (auto simp: word_le_nat_alt)
  have "unat (xStreamBufferSpacesAvailable b) = (sb_cap b + unat (xTail b) - unat (xHead b) - 1) mod sb_cap b"
    unfolding xStreamBufferSpacesAvailable_def Let_def by (subst wrap_eq) (use e d in simp_all)
  then show ?thesis using d by (auto simp: used_def mod_twice)
qed

section \<open>The bytes\<close>

definition ring_bytes :: "u8 list \<Rightarrow> nat \<Rightarrow> nat \<Rightarrow> u8 list" where
  "ring_bytes m i n = map (\<lambda>k. m ! ((i + k) mod length m)) [0..<n]"

definition bytes_held :: "stream_buffer \<Rightarrow> u8 list" where
  "bytes_held b = ring_bytes (pucBuffer b) (unat (xTail b)) (used b)"

lemma length_ring_bytes [simp]: "length (ring_bytes m i n) = n"
  by (simp add: ring_bytes_def)

lemma length_bytes_held [simp]: "length (bytes_held b) = used b"
  by (simp add: bytes_held_def)

lemma ring_bytes_add: "ring_bytes m i (n + k) = ring_bytes m i n @ ring_bytes m ((i + n) mod length m) k"
  by (rule nth_equalityI) (auto simp: ring_bytes_def nth_append mod_simps add.assoc)

lemma take_ring_bytes: "k \<le> n \<Longrightarrow> take k (ring_bytes m i n) = ring_bytes m i k"
  by (rule nth_equalityI) (auto simp: ring_bytes_def)

lemma drop_ring_bytes: "k \<le> n \<Longrightarrow> drop k (ring_bytes m i n) = ring_bytes m ((i + k) mod length m) (n - k)"
  by (rule nth_equalityI) (auto simp: ring_bytes_def mod_simps add.assoc)

text \<open>What two \<open>memcpy\<close> read.\<close>

lemma ring_bytes_split:
  assumes "i < length m" "n \<le> length m"
  shows "ring_bytes m i n = take (min (length m - i) n) (drop i m) @ take (n - (length m - i)) m"
  by (rule nth_equalityI) (use assms in \<open>auto simp: ring_bytes_def nth_append mod_twice min_def ac_simps\<close>)

lemma advance_eq:
  assumes "unat i < unat l" "unat n \<le> unat l" "unat l < 2 ^ 31"
  shows "unat (if i + n \<ge> l then i + n - l else i + n :: u32) = (unat i + unat n) mod unat l"
proof -
  have "unat (i + n) = unat i + unat n" using assms by (subst unat_plus_if_size) (simp add: word_size)
  then show ?thesis using assms by (subst wrap_eq) simp_all
qed

text \<open>The first of the two \<open>memcpy\<close>.\<close>

lemma first_length:
  assumes "t < l" "n \<le> l"
  shows "unat (min (l - t) n :: u32) = min (unat l - unat t) (unat n)"
    and "unat (n - min (l - t) n) = unat n - (unat l - unat t)"
    and "n > min (l - t) n \<longleftrightarrow> unat n > unat l - unat t"
proof -
  have t: "unat t < unat l" and n: "unat n \<le> unat l" using assms by (auto simp: word_less_nat_alt word_le_nat_alt)
  show f: "unat (min (l - t) n) = min (unat l - unat t) (unat n)"
    using t by (auto simp: min_def word_le_nat_alt unat_sub less_imp_le)
  have "min (l - t) n \<le> n" by simp
  then have "unat (n - min (l - t) n) = unat n - unat (min (l - t) n)" by (rule unat_sub)
  then show "unat (n - min (l - t) n) = unat n - (unat l - unat t)" unfolding f by simp
  show "n > min (l - t) n \<longleftrightarrow> unat n > unat l - unat t" unfolding word_less_nat_alt f by auto
qed

lemma uint_nat: "uint w = int (unat w)"
  by simp

lemma read_bytes_ring:
  assumes "sb_ok b" "t < xLength b" "n \<le> xLength b"
  obtains t' where "prvReadBytesFromBuffer b n t = Inr (t', ring_bytes (pucBuffer b) (unat t) (unat n))"
    "unat t' = (unat t + unat n) mod sb_cap b"
proof -
  note d = sb_okD [OF assms(1)] and f = first_length [OF assms(2,3)]
  have t: "unat t < sb_cap b" and n: "unat n \<le> sb_cap b" using assms by (auto simp: word_less_nat_alt word_le_nat_alt)
  have 1: "read_bytes (pucBuffer b) (uint t) (unat (min (xLength b - t) n)) =
      Inr (take (min (sb_cap b - unat t) (unat n)) (drop (unat t) (pucBuffer b)))"
    unfolding uint_nat read_bytes_nat f using d t by simp
  have 2: "read_bytes (pucBuffer b) 0 (unat (n - min (xLength b - t) n)) = Inr (take (unat n - (sb_cap b - unat t)) (pucBuffer b))"
    unfolding f using read_bytes_nat [of "pucBuffer b" 0] d t n by simp
  have "prvReadBytesFromBuffer b n t =
      Inr (if t + n \<ge> xLength b then t + n - xLength b else t + n, ring_bytes (pucBuffer b) (unat t) (unat n))"
    unfolding prvReadBytesFromBuffer_def Let_def 1 2 f(3) ring_bytes_split [of "unat t" "pucBuffer b", unfolded d(4), OF t n]
    by auto
  then show thesis using that advance_eq [of t "xLength b" n] t n d by simp
qed

text \<open>The bytes after a write at \<open>i\<close>.\<close>

definition written :: "u8 list \<Rightarrow> nat \<Rightarrow> u8 list \<Rightarrow> u8 list" where
  "written m i bs = map (\<lambda>j. let k = (j + length m - i) mod length m in if k < length bs then bs ! k else m ! j)
     [0..<length m]"

lemma length_written [simp]: "length (written m i bs) = length m"
  by (simp add: written_def)

lemma written_straight:
  assumes "i < length m" "length bs \<le> length m - i"
  shows "written m i bs = take i m @ bs @ drop (i + length bs) m"
  by (rule nth_equalityI) (use assms in \<open>auto simp: written_def nth_append mod_twice Let_def ac_simps\<close>)

lemma written_around:
  assumes "i < length m" "length m - i < length bs" "length bs \<le> length m"
  shows "written m i bs = drop (length m - i) bs @ drop (length bs - (length m - i)) (take i m) @ take (length m - i) bs"
  by (rule nth_equalityI) (use assms in \<open>auto simp: written_def nth_append mod_twice Let_def ac_simps\<close>)

lemma written_two:
  assumes "i < length m" "length m - i < n" "n \<le> length m" "n \<le> length bs"
  shows "take (n - (length m - i)) (drop (length m - i) bs) @ drop (n - (length m - i)) (take i m @ take (length m - i) bs) =
    written m i (take n bs)"
proof -
  have "min i (n - (length m - i)) = n - (length m - i)" using assms by simp
  then show ?thesis using assms written_around [of i m "take n bs"] by (simp add: drop_take)
qed

lemma write_bytes_ring:
  assumes "sb_ok b" "h < xLength b" "n \<le> xLength b" "unat n \<le> length bs"
  obtains h' where "prvWriteBytesToBuffer b bs n h = Inr (h', b\<lparr>pucBuffer := written (pucBuffer b) (unat h) (take (unat n) bs)\<rparr>)"
    "unat h' = (unat h + unat n) mod sb_cap b"
proof -
  note d = sb_okD [OF assms(1)] and f = first_length [OF assms(2,3)]
  have t: "unat h < sb_cap b" and n: "unat n \<le> sb_cap b" using assms by (auto simp: word_less_nat_alt word_le_nat_alt)
  let ?d1 = "take (min (sb_cap b - unat h) (unat n)) bs"
  let ?m1 = "take (unat h) (pucBuffer b) @ ?d1 @ drop (unat h + length ?d1) (pucBuffer b)"
  have 1: "read_bytes bs 0 (unat (min (xLength b - h) n)) = Inr ?d1"
    unfolding f using read_bytes_nat [of bs 0] assms(4) by simp
  have 2: "write_bytes (pucBuffer b) (uint h) ?d1 = Inr ?m1"
    unfolding uint_nat write_bytes_nat using d t by auto
  have 3: "read_bytes bs (uint (min (xLength b - h) n)) (unat (n - min (xLength b - h) n)) =
      Inr (take (unat n - (sb_cap b - unat h)) (drop (sb_cap b - unat h) bs))" if "unat n > sb_cap b - unat h"
    unfolding uint_nat read_bytes_nat f using that assms(4) by simp
  have 5: "(if unat n > sb_cap b - unat h then
      bindE (read_bytes bs (uint (min (xLength b - h) n)) (unat (n - min (xLength b - h) n))) (write_bytes ?m1 0)
      else Inr ?m1) = Inr (written (pucBuffer b) (unat h) (take (unat n) bs))"
  proof (cases "unat n > sb_cap b - unat h")
    case True
    let ?d2 = "take (unat n - (sb_cap b - unat h)) (drop (sb_cap b - unat h) bs)"
    have "write_bytes ?m1 (int 0) ?d2 = Inr (?d2 @ drop (length ?d2) ?m1)"
      unfolding write_bytes_nat using d t n by simp
    moreover have "?m1 = take (unat h) (pucBuffer b) @ take (sb_cap b - unat h) bs" "length ?d2 = unat n - (sb_cap b - unat h)"
      using True d t n assms(4) by simp_all
    ultimately have "write_bytes ?m1 0 ?d2 = Inr (written (pucBuffer b) (unat h) (take (unat n) bs))"
      using written_two [of "unat h" "pucBuffer b" "unat n" bs] True d t n assms(4) by simp
    then show ?thesis unfolding 3 [OF True] using True by simp
  next
    case False
    then show ?thesis using written_straight [of "unat h" "pucBuffer b" "take (unat n) bs"] d t assms(4) by (simp add: min_def)
  qed
  have "prvWriteBytesToBuffer b bs n h = Inr (if h + n \<ge> xLength b then h + n - xLength b else h + n,
      b\<lparr>pucBuffer := written (pucBuffer b) (unat h) (take (unat n) bs)\<rparr>)"
    unfolding prvWriteBytesToBuffer_def Let_def 1 f(3) bindE_simps 2 5 by simp
  then show thesis using that advance_eq [of h "xLength b" n] t n d by simp
qed

lemma ring_offset:
  fixes t k n l :: nat
  assumes "0 < l" "n \<le> l"
  shows "((t + k) mod l + l - (t + n) mod l) mod l = (k + (l - n)) mod l"
proof -
  have "int (((t + k) mod l + l - (t + n) mod l) mod l) = (int ((t + k) mod l) + int l - int ((t + n) mod l)) mod int l"
    using assms(1) by (subst zmod_int, subst of_nat_diff) (auto intro: order.trans [OF less_imp_le [OF mod_less_divisor]])
  also have "\<dots> = (int (t + k) + int l - int (t + n)) mod int l"
    unfolding zmod_int by (intro mod_diff_cong mod_add_cong) simp_all
  also have "int (t + k) + int l - int (t + n) = int (k + (l - n))" using assms(2) by simp
  also have "int (k + (l - n)) mod int l = int ((k + (l - n)) mod l)" by (simp only: zmod_int)
  finally show ?thesis by (simp only: of_nat_eq_iff)
qed

text \<open>Bytes written behind those held do not touch them.\<close>

lemma ring_written:
  assumes "0 < length m" "n + length bs \<le> length m"
  shows "ring_bytes (written m ((t + n) mod length m) bs) t (n + length bs) = ring_bytes m t n @ bs"
proof (rule nth_equalityI)
  fix k
  assume k: "k < length (ring_bytes (written m ((t + n) mod length m) bs) t (n + length bs))"
  let ?l = "length m"
  let ?o = "(k + (?l - n)) mod ?l"
  have j: "(t + k) mod ?l < ?l" using assms(1) by simp
  have "ring_bytes (written m ((t + n) mod ?l) bs) t (n + length bs) ! k =
      (if ?o < length bs then bs ! ?o else m ! ((t + k) mod ?l))"
    using k j assms by (simp add: ring_bytes_def written_def Let_def ring_offset)
  moreover have "?o = (if k < n then ?l - n + k else k - n)" using k assms by (auto simp: mod_twice)
  ultimately show "ring_bytes (written m ((t + n) mod ?l) bs) t (n + length bs) ! k = (ring_bytes m t n @ bs) ! k"
    using k assms by (auto simp: nth_append ring_bytes_def)
qed simp

section \<open>The length in front of a message\<close>

lemma length_length_bytes [simp]: "length (length_bytes n) = 4"
  by (simp add: length_bytes_def)

lemma bytes_length_bytes [simp]: "bytes_length (length_bytes n) = n"
proof (rule bit_eqI)
  fix k
  assume "possible_bit TYPE(32 word) k"
  then have "k div 8 < 4" by simp
  then obtain r j where k: "k = 8 * r + j" "j < 8" "r < 4" by (metis div_mult_mod_eq mod_less_divisor mult.commute zero_less_numeral)
  then consider "r = 0" | "r = 1" | "r = 2" | "r = 3" by linarith
  then show "bit (bytes_length (length_bytes n)) k = bit n k"
    by cases (use k in \<open>simp_all add: bytes_length_def length_bytes_def upt_rec bit_simps\<close>)
qed

end
