(* ===== verification/StreamLink.thy ===== *)
theory StreamLink
  imports StreamBufferProps
begin

text \<open>
  The writer and the reader of a buffer on two cores, without a lock: every access to an index of the other side is
  a step of its own, and so is each copy.  The writer reads the tail, computes the space, reads the tail again,
  copies and publishes the head; the reader reads the head, copies and publishes the tail.
\<close>

section \<open>One write and one read\<close>

definition msg_frame :: "u8 list \<Rightarrow> u8 list" where
  "msg_frame d = length_bytes (of_nat (length d)) @ d"

text \<open>What a write that takes \<open>n\<close> bytes of the data puts into the ring.\<close>

definition frame_of :: "bool \<Rightarrow> u8 list \<Rightarrow> u8 list" where
  "frame_of m d = (if d = [] then [] else if m then msg_frame d else d)"

lemma length_msg_frame [simp]: "length (msg_frame d) = 4 + length d"
  by (simp add: msg_frame_def)

lemma is_message_upd [simp]:
  "is_message (b\<lparr>pucBuffer := x\<rparr>) = is_message b" "is_message (b\<lparr>xHead := h\<rparr>) = is_message b"
  "is_message (b\<lparr>xTail := h\<rparr>) = is_message b"
  by (simp_all add: is_message_def)

text \<open>The ring after some bytes were copied behind those held, and the new head.\<close>

definition copied :: "stream_buffer \<Rightarrow> u8 list \<Rightarrow> u32 \<Rightarrow> u8 list \<Rightarrow> bool" where
  "copied b m h fr \<longleftrightarrow> length m = sb_cap b \<and> used b + length fr < sb_cap b \<and>
     ring_bytes m (unat (xTail b)) (used b + length fr) = bytes_held b @ fr \<and>
     unat h = (unat (xHead b) + length fr) mod sb_cap b"

lemma head_eq: "sb_ok b \<Longrightarrow> unat (xHead b) = (unat (xTail b) + used b) mod sb_cap b"
  using sb_okD [of b] by (auto simp: used_def mod_twice)

lemma copied_refl: "sb_ok b \<Longrightarrow> copied b (pucBuffer b) (xHead b) []"
  using sb_okD [of b] used_less [of b] by (simp add: copied_def bytes_held_def)

text \<open>One more call of \<open>prvWriteBytesToBuffer\<close>.\<close>

lemma copied_write:
  assumes "sb_ok b" "copied b m h fr" "unat n \<le> length bs" "used b + length fr + unat n < sb_cap b"
  shows "\<exists>m' h'. prvWriteBytesToBuffer (b\<lparr>pucBuffer := m\<rparr>) bs n h = Inr (h', b\<lparr>pucBuffer := m'\<rparr>) \<and>
    copied b m' h' (fr @ take (unat n) bs)"
proof -
  let ?b = "b\<lparr>pucBuffer := m\<rparr>" and ?bs = "take (unat n) bs"
  note d = sb_okD [OF assms(1)]
  have c: "length m = sb_cap b" "ring_bytes m (unat (xTail b)) (used b + length fr) = bytes_held b @ fr"
    "unat h = (unat (xHead b) + length fr) mod sb_cap b" using assms(2) by (simp_all add: copied_def)
  have h: "unat h = (unat (xTail b) + (used b + length fr)) mod sb_cap b"
    unfolding c(3) head_eq [OF assms(1)] by (simp add: mod_simps add.assoc)
  have "h < xLength b" unfolding word_less_nat_alt c(3) using d by simp
  moreover have "sb_ok ?b" using assms(1) c(1) by (simp add: sb_ok_def)
  moreover have "n \<le> xLength b" using assms(4) by (simp add: word_le_nat_alt)
  ultimately obtain h' where w: "prvWriteBytesToBuffer ?b bs n h = Inr (h', ?b\<lparr>pucBuffer := written m (unat h) ?bs\<rparr>)"
    "unat h' = (unat h + unat n) mod sb_cap b"
    using write_bytes_ring [of ?b h n bs] assms(3) by auto
  have len: "length ?bs = unat n" using assms(3) by simp
  have "ring_bytes (written m (unat h) ?bs) (unat (xTail b)) (used b + length fr + length ?bs) = (bytes_held b @ fr) @ ?bs"
    using ring_written [of m "used b + length fr" ?bs "unat (xTail b)"] c(1,2) h d len assms(4) by simp
  then have "copied b (written m (unat h) ?bs) h' (fr @ ?bs)"
    using c w(2) len assms(4) by (simp add: copied_def mod_simps add.assoc)
  then show ?thesis using w(1) by auto
qed

text \<open>The data that is taken, given the space.\<close>

definition part_taken :: "stream_buffer \<Rightarrow> u8 list \<Rightarrow> u32 \<Rightarrow> u8 list" where
  "part_taken b d sp = (if is_message b then if length d + 4 \<le> unat sp then d else [] else take (unat sp) d)"

definition required_of :: "stream_buffer \<Rightarrow> u8 list \<Rightarrow> u32" where
  "required_of b d = required_space b (of_nat (length d))"

lemma write_message:
  assumes ok: "sb_ok b" and sp: "unat sp + used b < sb_cap b" and d: "length d < 2 ^ 32 - 4"
  obtains m h where
    "prvWriteMessageToBuffer b d (of_nat (length d)) sp (required_of b d) =
       Inr (of_nat (length (part_taken b d sp)), b\<lparr>pucBuffer := m, xHead := h\<rparr>)"
    "copied b m h (frame_of (is_message b) (part_taken b d sp))"
proof -
  note bd = sb_okD [OF ok]
  have len: "unat (of_nat (length d) :: u32) = length d" using d by (simp add: unat_of_nat)
  have b0: "b\<lparr>pucBuffer := pucBuffer b\<rparr> = b" by simp
  show thesis
  proof (cases "is_message b")
    case False
    let ?n = "min (of_nat (length d)) sp :: u32"
    have n: "unat ?n = min (length d) (unat sp)" using len by (auto simp: min_def word_le_nat_alt)
    have tk: "part_taken b d sp = take (unat ?n) d" unfolding part_taken_def n using False by (simp add: min_def)
    have "length (part_taken b d sp) = unat ?n" unfolding tk using n by simp
    then have lt: "of_nat (length (part_taken b d sp)) = ?n" by (simp only: of_nat_unat ucast_id)
    show thesis
    proof (cases "?n = 0")
      case True
      then show thesis using that [where m = "pucBuffer b" and h = "xHead b"] copied_refl [OF ok] False lt tk
        by (auto simp: prvWriteMessageToBuffer_def frame_of_def)
    next
      case nz: False
      have "used b + min (length d) (unat sp) < sb_cap b" using sp by linarith
      then obtain m h where w: "prvWriteBytesToBuffer b d ?n (xHead b) = Inr (h, b\<lparr>pucBuffer := m\<rparr>)" "copied b m h (take (unat ?n) d)"
        using copied_write [OF ok copied_refl [OF ok], of ?n d] n sp by auto
      have "part_taken b d sp \<noteq> []" using nz lt by fastforce
      then show thesis using that [where m = m and h = h] w False nz lt tk by (simp add: prvWriteMessageToBuffer_def frame_of_def)
    qed
  next
    case True
    have req: "required_of b d = of_nat (length d) + 4" using True
      by (simp add: required_of_def required_space_def sbBYTES_TO_STORE_MESSAGE_LENGTH_def)
    have "unat (of_nat (length d) + 4 :: u32) = length d + 4" using d len by (subst unat_plus_if_size) (simp add: word_size)
    then have fits: "sp \<ge> required_of b d \<longleftrightarrow> length d + 4 \<le> unat sp" unfolding req word_le_nat_alt by simp
    show thesis
    proof (cases "length d + 4 \<le> unat sp")
      case no: False
      then show thesis using that [where m = "pucBuffer b" and h = "xHead b"] copied_refl [OF ok] True fits
        by (auto simp: prvWriteMessageToBuffer_def frame_of_def part_taken_def)
    next
      case yes: True
      obtain m h where w: "prvWriteBytesToBuffer b (length_bytes (of_nat (length d))) 4 (xHead b) = Inr (h, b\<lparr>pucBuffer := m\<rparr>)"
        "copied b m h (length_bytes (of_nat (length d)))"
        using copied_write [OF ok copied_refl [OF ok], of 4 "length_bytes (of_nat (length d))"] yes sp by auto
      show thesis
      proof (cases "d = []")
        case True
        have "copied b m (xHead b) []" using w(2) head_eq [OF ok] bd used_less [OF ok]
          by (auto simp: copied_def True take_ring_bytes [of "used b" "used b + 4" m, symmetric])
        then show thesis using that [where m = m and h = "xHead b"] w(1) \<open>is_message b\<close> fits yes True
          by (simp add: prvWriteMessageToBuffer_def frame_of_def part_taken_def sbBYTES_TO_STORE_MESSAGE_LENGTH_def)
      next
        case nz: False
        obtain m' h' where w': "prvWriteBytesToBuffer (b\<lparr>pucBuffer := m\<rparr>) d (of_nat (length d)) h = Inr (h', b\<lparr>pucBuffer := m'\<rparr>)"
          "copied b m' h' (msg_frame d)"
          using copied_write [OF ok w(2), of "of_nat (length d)" d] yes sp len by (auto simp: msg_frame_def)
        have "(of_nat (length d) :: u32) \<noteq> 0" using nz len by (metis length_0_conv unat_0)
        then show thesis using that [where m = m' and h = h'] w w' \<open>is_message b\<close> fits yes nz
          by (simp add: prvWriteMessageToBuffer_def frame_of_def part_taken_def sbBYTES_TO_STORE_MESSAGE_LENGTH_def)
      qed
    qed
  qed
qed

text \<open>The tail after \<open>k\<close> bytes were read.\<close>

definition passed :: "stream_buffer \<Rightarrow> nat \<Rightarrow> u32 \<Rightarrow> bool" where
  "passed b k t \<longleftrightarrow> k \<le> used b \<and> unat t = (unat (xTail b) + k) mod sb_cap b"

lemma read_bytes_held:
  assumes ok: "sb_ok b" and j: "passed b j t" and n: "j + unat n \<le> used b"
  shows "\<exists>t'. prvReadBytesFromBuffer b n t = Inr (t', take (unat n) (drop j (bytes_held b))) \<and> passed b (j + unat n) t'"
proof -
  note d = sb_okD [OF ok]
  have t: "t < xLength b" "n \<le> xLength b" "unat t = (unat (xTail b) + j) mod sb_cap b"
    using j n d used_less [OF ok] by (simp_all add: passed_def word_less_nat_alt word_le_nat_alt)
  obtain t' where r: "prvReadBytesFromBuffer b n t = Inr (t', ring_bytes (pucBuffer b) (unat t) (unat n))"
    "unat t' = (unat t + unat n) mod sb_cap b" using read_bytes_ring [OF ok t(1,2)] by blast
  have "ring_bytes (pucBuffer b) (unat t) (unat n) = take (unat n) (drop j (bytes_held b))"
    using n d(4) by (simp add: bytes_held_def drop_ring_bytes take_ring_bytes t(3))
  then show ?thesis using r n unfolding passed_def t(3) by (auto simp: mod_simps add.assoc)
qed

lemma passed_0 [simp]: "sb_ok b \<Longrightarrow> passed b 0 (xTail b)"
  using sb_okD by (simp add: passed_def)

lemma read_stream:
  assumes ok: "sb_ok b" and m: "\<not> is_message b" and a: "unat avail \<le> used b"
  shows "\<exists>t. prvReadMessageFromBuffer b want avail = Inr (take (unat (min want avail)) (bytes_held b), b\<lparr>xTail := t\<rparr>) \<and>
    passed b (unat (min want avail)) t"
proof (cases "min want avail = 0")
  case True
  then show ?thesis using m ok by (intro exI [of _ "xTail b"]) (simp add: prvReadMessageFromBuffer_def)
next
  case False
  have "unat (min want avail) \<le> used b" using a by (auto simp: min_def word_le_nat_alt)
  then show ?thesis using read_bytes_held [OF ok passed_0 [OF ok], of "min want avail"] m False
    by (auto simp: prvReadMessageFromBuffer_def)
qed

lemma read_message:
  assumes ok: "sb_ok b" and m: "is_message b" and h: "bytes_held b = msg_frame d @ rest" and d: "d \<noteq> []" "length d < 2 ^ 32 - 4"
    and a: "4 + length d \<le> unat avail"
  shows "if length d \<le> unat want
    then \<exists>t. prvReadMessageFromBuffer b want avail = Inr (d, b\<lparr>xTail := t\<rparr>) \<and> passed b (4 + length d) t
    else prvReadMessageFromBuffer b want avail = Inr ([], b)"
proof -
  let ?n = "of_nat (length d) :: u32"
  have n: "unat ?n = length d" using d(2) by (simp add: unat_of_nat)
  have u: "4 + length d \<le> used b" using arg_cong [OF h, of length] by simp
  obtain t where t: "prvReadBytesFromBuffer b 4 (xTail b) = Inr (t, take 4 (bytes_held b))" "passed b 4 t"
    using read_bytes_held [OF ok passed_0 [OF ok], of 4] u by auto
  have l: "bytes_length (take 4 (bytes_held b)) = ?n" by (simp add: h msg_frame_def)
  have av: "unat (avail - 4) = unat avail - 4" using a by (subst unat_sub) (auto simp: word_le_nat_alt)
  have "length d \<le> unat avail - 4" using a by linarith
  then have mn: "min ?n (avail - 4) = ?n" by (simp add: min_def word_le_nat_alt n av)
  have nz: "?n \<noteq> 0" using n d(1) by (metis length_0_conv unat_0)
  have cmp: "?n > want \<longleftrightarrow> \<not> length d \<le> unat want" by (simp add: word_less_nat_alt n not_le)
  obtain t' where t': "prvReadBytesFromBuffer b ?n t = Inr (t', take (length d) (drop 4 (bytes_held b)))" "passed b (4 + length d) t'"
    using read_bytes_held [OF ok t(2), of ?n] u n by auto
  show ?thesis using m t(1) t' l mn nz cmp
    by (auto simp: prvReadMessageFromBuffer_def sbBYTES_TO_STORE_MESSAGE_LENGTH_def h msg_frame_def)
qed

section \<open>Both sides\<close>

datatype writer =
    WIdle
  | WTail "u8 list" u32 \<comment> \<open>the data, and the tail read first\<close>
  | WSpace "u8 list" u32 u32 \<comment> \<open>and the space computed from the tail read next\<close>
  | WCopied "u8 list" u32 \<comment> \<open>the data taken, and the head to publish\<close>

datatype reader =
    RIdle
  | RAvail u32 u32 \<comment> \<open>the room of the caller, and the bytes found\<close>
  | RCopied "u8 list" u32 \<comment> \<open>the bytes read, and the tail to publish\<close>

record link =
  lbuf :: stream_buffer
  wr :: writer
  rd :: reader
  sb_given :: "u8 list list" \<comment> \<open>what the writer was told is in the buffer, call by call\<close>
  sb_got :: "u8 list list" \<comment> \<open>what the reader got, call by call\<close>

definition link_of :: "stream_buffer \<Rightarrow> link" where
  "link_of b = \<lparr>lbuf = b, wr = WIdle, rd = RIdle, sb_given = [], sb_got = []\<rparr>"

definition log_call :: "u8 list \<Rightarrow> u8 list list \<Rightarrow> u8 list list" where
  "log_call d l = (if d = [] then l else l @ [d])"

inductive link_step :: "link \<Rightarrow> link \<Rightarrow> bool" where
  write_begin: "wr s = WIdle \<Longrightarrow> length d < 2 ^ 32 - 4 \<Longrightarrow>
    link_step s (s\<lparr>wr := WTail d (xTail (lbuf s))\<rparr>)"
| write_space: "wr s = WTail d t \<Longrightarrow>
    link_step s (s\<lparr>wr := WSpace d t (xStreamBufferSpacesAvailable (lbuf s))\<rparr>)"
| write_again: "wr s = WSpace d t sp \<Longrightarrow> xTail (lbuf s) \<noteq> t \<Longrightarrow>
    link_step s (s\<lparr>wr := WTail d (xTail (lbuf s))\<rparr>)"
| write_copy: "wr s = WSpace d t sp \<Longrightarrow> xTail (lbuf s) = t \<Longrightarrow>
    prvWriteMessageToBuffer (lbuf s) d (of_nat (length d)) sp (required_of (lbuf s) d) = Inr (n, b') \<Longrightarrow>
    link_step s (s\<lparr>lbuf := (lbuf s)\<lparr>pucBuffer := pucBuffer b'\<rparr>, wr := WCopied (take (unat n) d) (xHead b')\<rparr>)"
| write_publish: "wr s = WCopied d h \<Longrightarrow>
    link_step s (s\<lparr>lbuf := (lbuf s)\<lparr>xHead := h\<rparr>, wr := WIdle, sb_given := log_call d (sb_given s)\<rparr>)"
| read_begin: "rd s = RIdle \<Longrightarrow>
    link_step s (s\<lparr>rd := RAvail want (prvBytesInBuffer (lbuf s))\<rparr>)"
| read_nothing: "rd s = RAvail want avail \<Longrightarrow> avail \<le> bytes_to_exceed (lbuf s) \<Longrightarrow>
    link_step s (s\<lparr>rd := RIdle\<rparr>)"
| read_copy: "rd s = RAvail want avail \<Longrightarrow> avail > bytes_to_exceed (lbuf s) \<Longrightarrow>
    prvReadMessageFromBuffer (lbuf s) want avail = Inr (bs, b') \<Longrightarrow>
    link_step s (s\<lparr>rd := RCopied bs (xTail b')\<rparr>)"
| read_publish: "rd s = RCopied bs t \<Longrightarrow>
    link_step s (s\<lparr>lbuf := (lbuf s)\<lparr>xTail := t\<rparr>, rd := RIdle, sb_got := log_call bs (sb_got s)\<rparr>)"

section \<open>The invariant\<close>

text \<open>The calls and the bytes held: a stream is cut anywhere, messages stay whole.\<close>

definition log_ok :: "bool \<Rightarrow> u8 list list \<Rightarrow> u8 list list \<Rightarrow> u8 list \<Rightarrow> bool" where
  "log_ok m acc del h \<longleftrightarrow> (if m
     then \<exists>pending. acc = del @ pending \<and> h = concat (map msg_frame pending) \<and>
       (\<forall>d \<in> set pending. d \<noteq> [] \<and> length d < 2 ^ 32 - 4)
     else concat acc = concat del @ h)"

definition writer_ok :: "stream_buffer \<Rightarrow> writer \<Rightarrow> bool" where
  "writer_ok b w \<longleftrightarrow> (case w of WIdle \<Rightarrow> True | WTail d t \<Rightarrow> length d < 2 ^ 32 - 4
     | WSpace d t sp \<Rightarrow> length d < 2 ^ 32 - 4 \<and> unat sp + used b < sb_cap b
     | WCopied d h \<Rightarrow> length d < 2 ^ 32 - 4 \<and> copied b (pucBuffer b) h (frame_of (is_message b) d))"

definition reader_ok :: "stream_buffer \<Rightarrow> reader \<Rightarrow> u8 list list \<Rightarrow> u8 list list \<Rightarrow> bool" where
  "reader_ok b r acc del \<longleftrightarrow> (case r of RIdle \<Rightarrow> True
     | RAvail want avail \<Rightarrow> unat avail \<le> used b \<and> (is_message b \<longrightarrow>
         unat avail = 0 \<or> (\<exists>d pending. acc = del @ d # pending \<and> 4 + length d \<le> unat avail))
     | RCopied bs t \<Rightarrow> \<exists>k. passed b k t \<and> log_ok (is_message b) acc (log_call bs del) (drop k (bytes_held b)))"

definition link_ok :: "link \<Rightarrow> bool" where
  "link_ok s \<longleftrightarrow> sb_ok (lbuf s) \<and> log_ok (is_message (lbuf s)) (sb_given s) (sb_got s) (bytes_held (lbuf s)) \<and>
     writer_ok (lbuf s) (wr s) \<and> reader_ok (lbuf s) (rd s) (sb_given s) (sb_got s)"

lemma log_ok_append:
  assumes "log_ok m acc del h" "length d < 2 ^ 32 - 4"
  shows "log_ok m (log_call d acc) del (h @ frame_of m d)"
  using assms by (auto simp: log_ok_def log_call_def frame_of_def split: if_splits)

text \<open>Publishing the head.\<close>

lemma publish_head:
  assumes ok: "sb_ok b" and c: "copied b (pucBuffer b) h fr"
  shows "sb_ok (b\<lparr>xHead := h\<rparr>)" "used (b\<lparr>xHead := h\<rparr>) = used b + length fr" "bytes_held (b\<lparr>xHead := h\<rparr>) = bytes_held b @ fr"
proof -
  note d = sb_okD [OF ok]
  have h: "unat h = (unat (xTail b) + (used b + length fr)) mod sb_cap b" and lt: "used b + length fr < sb_cap b"
    using c head_eq [OF ok] by (auto simp: copied_def mod_simps add.assoc)
  have "unat h < sb_cap b" unfolding h using d by simp
  then show "sb_ok (b\<lparr>xHead := h\<rparr>)" using ok by (simp add: sb_ok_def word_less_nat_alt)
  show u: "used (b\<lparr>xHead := h\<rparr>) = used b + length fr"
    unfolding used_def [of "b\<lparr>xHead := h\<rparr>"] using h lt d by (auto simp: mod_twice)
  show "bytes_held (b\<lparr>xHead := h\<rparr>) = bytes_held b @ fr" using c u by (simp add: bytes_held_def copied_def)
qed

text \<open>Publishing the tail.\<close>

lemma publish_tail:
  assumes ok: "sb_ok b" and p: "passed b k t"
  shows "sb_ok (b\<lparr>xTail := t\<rparr>)" "used (b\<lparr>xTail := t\<rparr>) = used b - k" "bytes_held (b\<lparr>xTail := t\<rparr>) = drop k (bytes_held b)"
proof -
  note d = sb_okD [OF ok]
  have t: "unat t = (unat (xTail b) + k) mod sb_cap b" and k: "k \<le> used b" using p by (auto simp: passed_def)
  have "unat t < sb_cap b" unfolding t using d by simp
  then show "sb_ok (b\<lparr>xTail := t\<rparr>)" using ok by (simp add: sb_ok_def word_less_nat_alt)
  show u: "used (b\<lparr>xTail := t\<rparr>) = used b - k"
    unfolding used_def [of "b\<lparr>xTail := t\<rparr>"] using t k used_less [OF ok] head_eq [OF ok] d by (auto simp: mod_twice)
  show "bytes_held (b\<lparr>xTail := t\<rparr>) = drop k (bytes_held b)" using u k d t by (simp add: bytes_held_def drop_ring_bytes)
qed

lemma copied_tail:
  assumes ok: "sb_ok b" and p: "passed b k t" and c: "copied b (pucBuffer b) h fr"
  shows "copied (b\<lparr>xTail := t\<rparr>) (pucBuffer b) h fr"
proof -
  note d = sb_okD [OF ok]
  have t: "unat t = (unat (xTail b) + k) mod sb_cap b" and k: "k \<le> used b" using p by (auto simp: passed_def)
  have "drop k (ring_bytes (pucBuffer b) (unat (xTail b)) (used b + length fr)) = drop k (bytes_held b) @ fr"
    using c k by (simp add: copied_def)
  moreover have "used b + length fr < sb_cap b" using c by (simp add: copied_def)
  ultimately show ?thesis using c k d by (simp add: copied_def publish_tail [OF ok p] drop_ring_bytes t)
qed

text \<open>A copy into the ring leaves the bytes held as they are.\<close>

lemma copy_in:
  assumes ok: "sb_ok b" and c: "copied b m h fr"
  shows "sb_ok (b\<lparr>pucBuffer := m\<rparr>)" "used (b\<lparr>pucBuffer := m\<rparr>) = used b" "bytes_held (b\<lparr>pucBuffer := m\<rparr>) = bytes_held b"
    "copied (b\<lparr>pucBuffer := m\<rparr>) m h fr"
proof -
  have m: "length m = sb_cap b" "ring_bytes m (unat (xTail b)) (used b + length fr) = bytes_held b @ fr" using c by (simp_all add: copied_def)
  show "sb_ok (b\<lparr>pucBuffer := m\<rparr>)" using ok m by (simp add: sb_ok_def)
  show u: "used (b\<lparr>pucBuffer := m\<rparr>) = used b" by (simp add: used_def)
  have "take (used b) (ring_bytes m (unat (xTail b)) (used b + length fr)) = bytes_held b" unfolding m(2) by simp
  then show h: "bytes_held (b\<lparr>pucBuffer := m\<rparr>) = bytes_held b" using u by (simp add: bytes_held_def take_ring_bytes)
  show "copied (b\<lparr>pucBuffer := m\<rparr>) m h fr" using c u h by (simp add: copied_def)
qed

text \<open>Each side under the steps of the other.\<close>

lemma reader_ok_same:
  "reader_ok b r acc del \<Longrightarrow> used b' = used b \<Longrightarrow> bytes_held b' = bytes_held b \<Longrightarrow> is_message b' = is_message b \<Longrightarrow>
    xTail b' = xTail b \<Longrightarrow> xLength b' = xLength b \<Longrightarrow> reader_ok b' r acc del"
  by (cases r) (simp_all add: reader_ok_def passed_def)

lemma reader_ok_head:
  assumes ok: "sb_ok b" and r: "reader_ok b r acc del" and d: "length d < 2 ^ 32 - 4"
    and c: "copied b (pucBuffer b) h (frame_of (is_message b) d)"
  shows "reader_ok (b\<lparr>xHead := h\<rparr>) r (log_call d acc) del"
proof (cases r)
  case RIdle
  then show ?thesis by (simp add: reader_ok_def)
next
  case (RAvail want avail)
  then show ?thesis using r publish_head [OF ok c] by (auto simp: reader_ok_def log_call_def)
next
  case (RCopied bs t)
  then obtain k where k: "passed b k t" "log_ok (is_message b) acc (log_call bs del) (drop k (bytes_held b))"
    using r by (auto simp: reader_ok_def)
  have "passed (b\<lparr>xHead := h\<rparr>) k t" using k(1) publish_head [OF ok c] by (simp add: passed_def)
  moreover have "drop k (bytes_held b @ frame_of (is_message b) d) = drop k (bytes_held b) @ frame_of (is_message b) d"
    using k(1) by (simp add: passed_def)
  ultimately show ?thesis using RCopied log_ok_append [OF k(2) d] publish_head [OF ok c] by (auto simp: reader_ok_def)
qed

lemma writer_ok_tail:
  assumes ok: "sb_ok b" and w: "writer_ok b w" and p: "passed b k t"
  shows "writer_ok (b\<lparr>xTail := t\<rparr>) w"
  using w copied_tail [OF ok p] publish_tail [OF ok p] by (auto simp: writer_ok_def split: writer.splits)

lemma bytes_to_exceed_message: "is_message b \<Longrightarrow> bytes_to_exceed b = 4"
  by (simp add: bytes_to_exceed_def sbBYTES_TO_STORE_MESSAGE_LENGTH_def)

text \<open>A copy out of the ring.\<close>

lemma read_copy_ok:
  assumes ok: "sb_ok b" and l: "log_ok (is_message b) acc del (bytes_held b)" and r: "reader_ok b (RAvail want avail) acc del"
    and a: "avail > bytes_to_exceed b"
  shows "\<exists>bs b'. prvReadMessageFromBuffer b want avail = Inr (bs, b') \<and> reader_ok b (RCopied bs (xTail b')) acc del"
proof (cases "is_message b")
  case False
  have u: "unat avail \<le> used b" using r by (simp add: reader_ok_def)
  let ?k = "unat (min want avail)"
  have k: "?k \<le> used b" using u by (auto simp: min_def word_le_nat_alt)
  obtain t where t: "prvReadMessageFromBuffer b want avail = Inr (take ?k (bytes_held b), b\<lparr>xTail := t\<rparr>)" "passed b ?k t"
    using read_stream [OF ok False u] by blast
  have "concat acc = concat (log_call (take ?k (bytes_held b)) del) @ drop ?k (bytes_held b)"
    using l False by (simp add: log_ok_def log_call_def)
  then show ?thesis using t False by (auto simp: reader_ok_def log_ok_def)
next
  case True
  have "unat avail > 4" using a True by (simp add: bytes_to_exceed_message word_less_nat_alt)
  then obtain d pending where d: "acc = del @ d # pending" "4 + length d \<le> unat avail" using r True by (auto simp: reader_ok_def)
  have h: "bytes_held b = msg_frame d @ concat (map msg_frame pending)" and nz: "d \<noteq> []" "length d < 2 ^ 32 - 4"
    and p: "\<forall>e \<in> set pending. e \<noteq> [] \<and> length e < 2 ^ 32 - 4" using l True d(1) by (auto simp: log_ok_def)
  note rm = read_message [OF ok True h nz d(2), of want]
  show ?thesis
  proof (cases "length d \<le> unat want")
    case fits: True
    then obtain t where t: "prvReadMessageFromBuffer b want avail = Inr (d, b\<lparr>xTail := t\<rparr>)" "passed b (4 + length d) t"
      using rm by auto
    have "log_ok True acc (log_call d del) (drop (4 + length d) (bytes_held b))"
      unfolding log_ok_def using d(1) h nz p by (auto simp: log_call_def)
    then show ?thesis using t True by (auto simp: reader_ok_def)
  next
    case False
    then have "prvReadMessageFromBuffer b want avail = Inr ([], b)" using rm by simp
    then show ?thesis using l True ok by (auto simp: reader_ok_def log_call_def intro!: exI [of _ 0])
  qed
qed

section \<open>Every step keeps it\<close>

lemma link_step_ok:
  assumes "link_step s s'" "link_ok s"
  shows "link_ok s' \<and> is_message (lbuf s') = is_message (lbuf s)"
  using assms
proof (induction rule: link_step.induct)
  case (write_begin s d)
  then show ?case by (simp add: link_ok_def writer_ok_def)
next
  case (write_space s d t)
  then show ?case using spaces_available [of "lbuf s"] used_less [of "lbuf s"] by (auto simp: link_ok_def writer_ok_def)
next
  case (write_again s d t sp)
  then show ?case by (simp add: link_ok_def writer_ok_def)
next
  case (write_copy s d t sp n b')
  let ?b = "lbuf s"
  have ok: "sb_ok ?b" and w: "unat sp + used ?b < sb_cap ?b" "length d < 2 ^ 32 - 4"
    using write_copy by (auto simp: link_ok_def writer_ok_def)
  obtain m h where m: "prvWriteMessageToBuffer ?b d (of_nat (length d)) sp (required_of ?b d) =
      Inr (of_nat (length (part_taken ?b d sp)), ?b\<lparr>pucBuffer := m, xHead := h\<rparr>)"
    "copied ?b m h (frame_of (is_message ?b) (part_taken ?b d sp))" by (rule write_message [OF ok w])
  have b': "pucBuffer b' = m" "xHead b' = h" "n = of_nat (length (part_taken ?b d sp))" using m(1) write_copy.hyps(3) by auto
  have "length (part_taken ?b d sp) \<le> length d" by (simp add: part_taken_def)
  then have "unat n = length (part_taken ?b d sp)" unfolding b'(3) using w(2) by (simp add: unat_of_nat)
  then have tk: "take (unat n) d = part_taken ?b d sp" by (auto simp: part_taken_def min_def)
  have "length (part_taken ?b d sp) < 2 ^ 32 - 4" using w(2) by (auto simp: part_taken_def)
  then show ?case using write_copy.prems copy_in [OF ok m(2)] m(2) reader_ok_same [of ?b _ _ _ "?b\<lparr>pucBuffer := m\<rparr>"]
    by (simp add: link_ok_def writer_ok_def b'(1,2) tk)
next
  case (write_publish s d h)
  let ?b = "lbuf s"
  have ok: "sb_ok ?b" and w: "copied ?b (pucBuffer ?b) h (frame_of (is_message ?b) d)" "length d < 2 ^ 32 - 4"
    using write_publish by (auto simp: link_ok_def writer_ok_def)
  show ?case using write_publish.prems publish_head [OF ok w(1)] log_ok_append [OF _ w(2)] reader_ok_head [OF ok _ w(2,1)]
    by (simp add: link_ok_def writer_ok_def)
next
  case (read_begin s want)
  let ?b = "lbuf s"
  have ok: "sb_ok ?b" and l: "log_ok (is_message ?b) (sb_given s) (sb_got s) (bytes_held ?b)"
    using read_begin by (auto simp: link_ok_def)
  have "used ?b = 0 \<or> (\<exists>d pending. sb_given s = sb_got s @ d # pending \<and> 4 + length d \<le> used ?b)" if m: "is_message ?b"
  proof -
    obtain pending where p: "sb_given s = sb_got s @ pending" "bytes_held ?b = concat (map msg_frame pending)"
      using l m by (auto simp: log_ok_def)
    have "used ?b = length (concat (map msg_frame pending))" using arg_cong [OF p(2), of length] by simp
    then show ?thesis using p(1) by (cases pending) auto
  qed
  then show ?case using read_begin.prems bytes_in_buffer [OF ok] by (simp add: link_ok_def reader_ok_def)
next
  case (read_nothing s want avail)
  then show ?case by (simp add: link_ok_def reader_ok_def)
next
  case (read_copy s want avail bs b')
  then show ?case using read_copy_ok [of "lbuf s" "sb_given s" "sb_got s" want avail] by (auto simp: link_ok_def)
next
  case (read_publish s bs t)
  let ?b = "lbuf s"
  obtain k where k: "passed ?b k t" "log_ok (is_message ?b) (sb_given s) (log_call bs (sb_got s)) (drop k (bytes_held ?b))"
    using read_publish by (auto simp: link_ok_def reader_ok_def)
  have ok: "sb_ok ?b" using read_publish by (simp add: link_ok_def)
  show ?case using read_publish.prems publish_tail [OF ok k(1)] k(2) writer_ok_tail [OF ok _ k(1)]
    by (simp add: link_ok_def reader_ok_def)
qed

lemma link_steps_ok:
  "link_step\<^sup>*\<^sup>* s s' \<Longrightarrow> link_ok s \<Longrightarrow> link_ok s' \<and> is_message (lbuf s') = is_message (lbuf s)"
  by (induction rule: rtranclp_induct) (use link_step_ok in blast)+

lemma link_of_ok: "sb_ok b \<Longrightarrow> xStreamBufferIsEmpty b \<Longrightarrow> link_ok (link_of b)"
  using sb_okD [of b]
  by (auto simp: link_ok_def link_of_def log_ok_def writer_ok_def reader_ok_def bytes_held_def used_def xStreamBufferIsEmpty_def ring_bytes_def)

section \<open>No copy faults\<close>

text \<open>The copies that are about to be made stay within the storage and the data of the caller.\<close>

definition link_safe :: "link \<Rightarrow> bool" where
  "link_safe s \<longleftrightarrow>
     (\<forall>d t sp. wr s = WSpace d t sp \<longrightarrow>
        (\<exists>n b'. prvWriteMessageToBuffer (lbuf s) d (of_nat (length d)) sp (required_of (lbuf s) d) = Inr (n, b'))) \<and>
     (\<forall>want avail. rd s = RAvail want avail \<and> avail > bytes_to_exceed (lbuf s) \<longrightarrow>
        (\<exists>bs b'. prvReadMessageFromBuffer (lbuf s) want avail = Inr (bs, b')))"

lemma link_ok_safe:
  assumes "link_ok s"
  shows "link_safe s"
proof -
  let ?b = "lbuf s"
  have ok: "sb_ok ?b" and l: "log_ok (is_message ?b) (sb_given s) (sb_got s) (bytes_held ?b)"
    and w: "writer_ok ?b (wr s)" and r: "reader_ok ?b (rd s) (sb_given s) (sb_got s)" using assms by (simp_all add: link_ok_def)
  have "\<exists>n b'. prvWriteMessageToBuffer ?b d (of_nat (length d)) sp (required_of ?b d) = Inr (n, b')" if "wr s = WSpace d t sp" for d t sp
  proof -
    have "unat sp + used ?b < sb_cap ?b" "length d < 2 ^ 32 - 4" using w that by (simp_all add: writer_ok_def)
    then show ?thesis by (rule write_message [OF ok]) blast
  qed
  moreover have "\<exists>bs b'. prvReadMessageFromBuffer ?b want avail = Inr (bs, b')"
    if rd: "rd s = RAvail want avail" and a: "avail > bytes_to_exceed ?b" for want avail
  proof (cases "is_message ?b")
    case False
    then show ?thesis using read_stream [OF ok, of avail want] r rd by (auto simp: reader_ok_def)
  next
    case True
    have "unat avail \<noteq> 0" using a by (auto simp: word_less_nat_alt)
    then obtain d pending where d: "sb_given s = sb_got s @ d # pending" "4 + length d \<le> unat avail"
      using r rd True by (auto simp: reader_ok_def)
    then have "bytes_held ?b = msg_frame d @ concat (map msg_frame pending)" "d \<noteq> []" "length d < 2 ^ 32 - 4"
      using l True by (auto simp: log_ok_def)
    then show ?thesis using read_message [OF ok True _ _ _ d(2), of _ want] by (auto split: if_splits)
  qed
  ultimately show ?thesis by (simp add: link_safe_def)
qed

end
