(* ===== verification/NotifyProps.thy ===== *)
theory NotifyProps
  imports EventGroupProps
begin

text \<open>
  Task notifications: a notification is recorded with the value the action gives, and a task that waits for it becomes
  ready in the same critical section; a task that has been notified does not go to sleep.
\<close>

section \<open>The fields of a notification\<close>

definition note_of :: "kernel \<Rightarrow> nat \<Rightarrow> notify_state \<times> u32" where
  "note_of s u = (ucNotifyState (tcb s u), ulNotifiedValue (tcb s u))"

lemma note_yields: "yields s s' \<Longrightarrow> note_of s' = note_of s"
  by (auto simp: yields_def note_of_def fun_eq_iff)

lemma note_reset: "note_of (prvResetNextTaskUnblockTime s) = note_of s"
  by (simp add: note_of_def prvResetNextTaskUnblockTime_def fun_eq_iff)

lemma note_requeue:
  "bindE (state_remove t s) (prvAddTaskToReadyList t) = Inr s' \<Longrightarrow> note_of s' = note_of s"
  by (cases "stateContainer (tcb s t)")
    (auto simp: state_remove_def follow_def prvAddTaskToReadyList_def state_insert_end_def prim_defs note_of_def fun_eq_iff Let_def
      split: if_splits)

lemma note_kick [simp]: "note_of (kick c s) = note_of s"
  by (simp add: note_of_def fun_eq_iff)

lemma note_nesting [simp]: "note_of (set_nesting c n s) = note_of s" "note_of (s\<lparr>uxSchedulerSuspended := d\<rparr>) = note_of s"
  by (simp_all add: note_of_def set_nesting_def fun_eq_iff)

text \<open>Task \<open>t\<close> has been notified with the action and value given; it is ready if it waited.\<close>

definition notified :: "nat \<Rightarrow> eNotifyAction \<Rightarrow> u32 \<Rightarrow> kernel \<Rightarrow> kernel \<Rightarrow> bool" where
  "notified t ac v s s' \<longleftrightarrow> quiet s s' \<and> ev_same s s' \<and>
     note_of s' = (note_of s)(t := (Received, fst (notify_value ac (ucNotifyState (tcb s t)) (ulNotifiedValue (tcb s t)) v))) \<and>
     (\<forall>u. stateContainer (tcb s' u) = (if u = t \<and> ucNotifyState (tcb s t) = Waiting then Some (ReadyL (prio s t))
        else stateContainer (tcb s u)))"

section \<open>Sections\<close>

text \<open>The critical section of a task, left with what holds outside it.\<close>

lemma leave_section:
  assumes "basic s" "pended s" "uxSchedulerSuspended s = d" "xPendedTicks s = 0" "nestings c 1 s" "c < configNUMBER_OF_CORES"
  shows "held d (vTaskExitCritical c s)" "vTaskExitCritical c s = kick c (set_nesting c 0 s)"
proof -
  have n: "uxCriticalNestings s c = 1" "xSchedulerRunning s" using assms(1,5,6) by (simp_all add: nestings_def basic_def)
  then show eq: "vTaskExitCritical c s = kick c (set_nesting c 0 s)"
    by (simp add: vTaskExitCritical_def kick_def set_nesting_def)
  have "held d (set_nesting c 0 s)" using assms unfolding held_iff [OF assms(6)]
    by (auto simp: set_nesting_def nestings_def pended_def runs_def cur_def)
  then show "held d (vTaskExitCritical c s)" unfolding eq by (rule held_kick)
qed

lemma basic_neutral:
  assumes "basic s" "neutral f"
  shows "basic (upd_tcb t f s)"
proof -
  have "kinv (upd_tcb t f s)" using assms by (auto simp: basic_def intro: kinv_neutral)
  then show ?thesis using assms unfolding basic_def ontime_def addressed_def neutral_def by (simp add: upd_tcb_def)
qed

lemma pended_neutral: "pended s \<Longrightarrow> neutral f \<Longrightarrow> pended (upd_tcb t f s)"
  by (auto simp: pended_def runs_def cur_def upd_tcb_def neutral_def)

section \<open>Notifying\<close>

lemma xTaskGenericNotify_ok:
  assumes "held d s" "c < configNUMBER_OF_CORES"
    and w: "ucNotifyState (tcb s t) = Waiting \<Longrightarrow> stateContainer (tcb s t) = Some L \<and> L \<noteq> TerminationL \<and> \<not> idle_task s t"
  shows "ensures (xTaskGenericNotify c t v ac s) (\<lambda>((ok, prev), s'). held d s' \<and> notified t ac v s s' \<and>
    prev = ulNotifiedValue (tcb s t) \<and> ok = snd (notify_value ac (ucNotifyState (tcb s t)) prev v))"
proof -
  have h: "basic s" "pended s" "uxSchedulerSuspended s = d" "xPendedTicks s = 0" "nestings c 0 s"
    using assms(1,2) by (simp_all add: held_iff)
  let ?v = "fst (notify_value ac (ucNotifyState (tcb s t)) (ulNotifiedValue (tcb s t)) v)"
    and ?ok = "snd (notify_value ac (ucNotifyState (tcb s t)) (ulNotifiedValue (tcb s t)) v)"
  let ?s0 = "set_nesting c 1 s" and ?f = "\<lambda>x. x\<lparr>ucNotifyState := Received, ulNotifiedValue := ?v\<rparr>"
  let ?s1 = "upd_tcb t ?f ?s0"
  have e: "vTaskEnterCritical c s = ?s0" by (rule enter_eq [OF held_running [OF assms(1)] held_nesting [OF assms(1,2)]])
  have nf: "neutral ?f" by (simp add: neutral_def)
  have b0: "basic ?s0" "pended ?s0" using h by (auto simp: set_nesting_def pended_def runs_def cur_def)
  have b1: "basic ?s1" "pended ?s1" by (rule basic_neutral [OF b0(1) nf], rule pended_neutral [OF b0(2) nf])
  have k1: "kinv ?s1" using b1(1) by (simp add: basic_def)
  have m1: "moves t (stateContainer (tcb s t)) ?s0 ?s1" by (simp add: moves_def quiet_def upd_tcb_def set_nesting_def)
  let ?note = "(note_of s)(t := (Received, ?v))"
  have n1: "note_of ?s1 = ?note" "ev_same s ?s1"
    by (auto simp: note_of_def upd_tcb_def set_nesting_def ev_same_def fun_eq_iff)
  let ?L = "if ucNotifyState (tcb s t) = Waiting then Some (ReadyL (prio s t)) else stateContainer (tcb s t)"
  let ?P = "\<lambda>s2. basic s2 \<and> pended s2 \<and> moves t ?L ?s0 s2 \<and> ev_same s s2 \<and> note_of s2 = ?note"
  let ?Q = "\<lambda>s'. held d s' \<and> notified t ac v s s'"
  have last: "?Q (vTaskExitCritical c s3)" if p: "?P s2" and y: "yields s2 s3" for s2 s3
  proof -
    have m: "moves t ?L ?s0 s2" using p by blast
    have k2: "kinv s2" using p by (simp add: basic_def)
    have b3: "basic s3" "pended s3" using basic_yields [OF _ y] pended_yields [OF k2 y] p by auto
    have f: "uxSchedulerSuspended s3 = d" "xPendedTicks s3 = 0" "nestings c 1 s3"
      using m y h(3-5) by (simp_all add: yields_same moves_def quiet_def nestings_def set_nesting_def)
    note x = leave_section [OF b3 f assms(2)]
    have nn: "(uxCriticalNestings s)(c := 0) = uxCriticalNestings s" using held_nesting [OF assms(1,2)] by (auto simp: fun_eq_iff)
    have q: "quiet ?s0 s3" using quiet_trans [OF moves_quiet [OF m] yields_quiet [OF y]] .
    then have "quiet s (kick c (set_nesting c 0 s3))"
      by (simp add: quiet_def set_nesting_def nn)
    moreover have "ev_same s (kick c (set_nesting c 0 s3))"
      using ev_same_trans [OF _ ev_same_yields [OF y], of s] p by (simp add: ev_same_def set_nesting_def)
    moreover have "note_of (kick c (set_nesting c 0 s3)) = ?note" using note_yields [OF y] p by simp
    moreover have "stateContainer (tcb (kick c (set_nesting c 0 s3)) u) = (if u = t then ?L else stateContainer (tcb s u))" for u
      using m y by (simp add: yields_same moves_def set_nesting_def)
    ultimately show ?thesis using x(1) unfolding notified_def x(2) by auto
  qed
  show ?thesis
  proof (cases "ucNotifyState (tcb s t) = Waiting")
    case False
    have p: "?P ?s1" using b1 m1 n1 False by simp
    have "xTaskGenericNotify c t v ac s = Inr ((?ok, ulNotifiedValue (tcb s t)), vTaskExitCritical c ?s1)"
      using False by (simp add: xTaskGenericNotify_def critical_def e case_prod_beta Let_def) (simp add: set_nesting_def)
    then show ?thesis using last [OF p yields_refl] by simp
  next
    case True
    have "state_list L" using h(1) w [OF True] unfolding basic_def kinv_def lists_wf_def by blast
    then have L: "stateContainer (tcb ?s1 t) = Some L" "\<not> idle_task ?s1 t" "L \<noteq> TerminationL" "state_list L"
      using w [OF True] by (simp_all add: upd_tcb_def set_nesting_def idle_task_def)
    have pr: "prio ?s1 t = prio s t" by (simp add: upd_tcb_def set_nesting_def)
    have "ensures (bindE (state_remove t ?s1) (prvAddTaskToReadyList t))
        (\<lambda>s2. (kinv s2 \<and> moves t (Some (ReadyL (prio ?s1 t))) ?s1 s2) \<and> ev_same ?s1 s2 \<and> note_of s2 = note_of ?s1)"
      by (rule ensures_also [OF requeue_ok [OF k1 L(1-3)]]) (intro conjI ev_same_requeue [OF _ L(1,4)] note_requeue)
    then have rq: "ensures (bindE (bindE (state_remove t ?s1) (prvAddTaskToReadyList t)) (\<lambda>s3. Inr (prvResetNextTaskUnblockTime s3))) ?P"
    proof (rule ensures_bind)
      fix s2
      assume s2: "(kinv s2 \<and> moves t (Some (ReadyL (prio ?s1 t))) ?s1 s2) \<and> ev_same ?s1 s2 \<and> note_of s2 = note_of ?s1"
      let ?r = "prvResetNextTaskUnblockTime s2"
      have m2: "moves t ?L ?s0 s2" using s2 moves_trans [OF m1] True pr by auto
      have mr: "moves t ?L ?s0 ?r" using moves_trans [OF m2] reset_same [of t s2] moves_container [OF m2] by simp
      have kr: "kinv ?r" using s2 by (simp add: kinv_reset)
      have c0: "stateContainer (tcb ?s0 t) \<noteq> None" using w [OF True] by (simp add: set_nesting_def)
      have "basic ?r" using basic_moves [OF b0(1) kr mr c0] True by simp
      moreover have "pended ?r" using pended_moves [OF mr b0(2)] True by (simp add: set_nesting_def)
      moreover have "ev_same s ?r" using ev_same_trans [OF n1(2)] s2 ev_same_trans [OF _ ev_same_reset] by blast
      ultimately show "ensures (Inr ?r) ?P" using mr s2 n1(1) by (simp add: note_reset)
    qed
    have eq: "xTaskGenericNotify c t v ac s =
        bindE (bindE (bindE (state_remove t ?s1) (prvAddTaskToReadyList t)) (\<lambda>s3. Inr (prvResetNextTaskUnblockTime s3)))
          (\<lambda>s2. bindE (prvYieldForTask c t s2) (\<lambda>s3. Inr ((?ok, ulNotifiedValue (tcb s t)), vTaskExitCritical c s3)))"
      using True by (simp add: xTaskGenericNotify_def critical_def e case_prod_beta Let_def bindE_assoc) (simp add: set_nesting_def)
    have fin: "ensures (bindE (prvYieldForTask c t s2) (\<lambda>s3. Inr ((?ok, ulNotifiedValue (tcb s t)), vTaskExitCritical c s3)))
        (\<lambda>((ok, prev), s'). held d s' \<and> notified t ac v s s' \<and> prev = ulNotifiedValue (tcb s t) \<and>
          ok = snd (notify_value ac (ucNotifyState (tcb s t)) prev v))"
      if p: "?P s2" for s2
    proof -
      have "kinv s2" using p by (simp add: basic_def)
      then show ?thesis by (rule ensures_bind [OF prvYieldForTask_ok]) (use last [OF p] in simp)
    qed
    show ?thesis unfolding eq by (rule ensures_bind [OF rq]) (rule fin)
  qed
qed

end
