(* ===== verification/StreamExample.thy ===== *)
theory StreamExample
  imports StreamLink NotifyProps KernelExample
begin

text \<open>
  Buffers in mid-operation: the kernel of the example, where task 3 sleeps in a wait for a notification; buffer 0 is
  an empty stream buffer that task 3 reads, 1 a batching buffer with trigger level 2, 2 an empty message buffer.
\<close>

definition demo_skern :: kernel where
  "demo_skern = upd_tcb 3 (\<lambda>x. x\<lparr>ucNotifyState := Waiting\<rparr>) demo"

definition demo_sb :: "u32 \<Rightarrow> u8 \<Rightarrow> stream_buffer" where
  "demo_sb trigger flags = prvInitialiseNewStreamBuffer [0, 0, 0, 0, 0, 0, 0, 0] 8 trigger flags"

definition demo_ssys :: ssys where
  "demo_ssys = \<lparr>skern = demo_skern, sb_of = (\<lambda>q. (if q = 0 then demo_sb 1 0 else if q = 1 then demo_sb 2 4
     else demo_sb 1 1)\<lparr>xTaskWaitingToReceive := (if q = 2 then None else Some 3)\<rparr>)\<rparr>"

lemma demo_skern_stable: "stable demo_skern"
  using basic_neutral [of demo "\<lambda>x. x\<lparr>ucNotifyState := Waiting\<rparr>" 3] pended_neutral [of demo "\<lambda>x. x\<lparr>ucNotifyState := Waiting\<rparr>" 3]
    demo_stable stable_iff [of 0]
  by (simp add: demo_skern_def configNUMBER_OF_CORES_def neutral_def) (simp add: upd_tcb_def nestings_def)

lemma demo_sb_ok: "sb_ok (demo_sb n f)" "xStreamBufferIsEmpty (demo_sb n f)"
  by (simp_all add: demo_sb_def prvInitialiseNewStreamBuffer_def sb_ok_def xStreamBufferIsEmpty_def)

text \<open>One message is written and read.\<close>

lemma demo_write:
  "prvWriteMessageToBuffer (demo_sb n 0) [7, 9] 2 7 2 = Inr (2, (demo_sb n 0)\<lparr>pucBuffer := [7, 9, 0, 0, 0, 0, 0, 0], xHead := 2\<rparr>)"
  "prvWriteMessageToBuffer (demo_sb n 1) [7, 9] 2 7 6 =
     Inr (2, (demo_sb n 1)\<lparr>pucBuffer := [2, 0, 0, 0, 7, 9, 0, 0], xHead := 6\<rparr>)"
  by (simp_all add: prvWriteMessageToBuffer_def prvWriteBytesToBuffer_def is_message_def demo_sb_def prvInitialiseNewStreamBuffer_def
      sbFLAGS_IS_MESSAGE_BUFFER_def sbBYTES_TO_STORE_MESSAGE_LENGTH_def read_bytes_def write_bytes_def length_bytes_def upt_rec
      Let_def min_def)

text \<open>A write of two bytes and a read with room for one, step by step; of the message of two bytes and a read with room
  for five.\<close>

definition demo_sent :: "u8 \<Rightarrow> link" where
  "demo_sent f = (link_of (demo_sb 1 f))\<lparr>lbuf := (demo_sb 1 f)\<lparr>
     pucBuffer := (if f = 0 then [7, 9, 0, 0, 0, 0, 0, 0] else [2, 0, 0, 0, 7, 9, 0, 0]), xHead := (if f = 0 then 2 else 6)\<rparr>,
     sb_given := [[7, 9]]\<rparr>"

definition demo_read :: "u8 \<Rightarrow> link" where
  "demo_read f = (demo_sent f)\<lparr>lbuf := (lbuf (demo_sent f))\<lparr>xTail := (if f = 0 then 1 else 6)\<rparr>,
     sb_got := [if f = 0 then [7] else [7, 9]]\<rparr>"

lemma write_steps:
  assumes w: "wr s = WIdle" and d: "length d < 2 ^ 32 - 4"
    and c: "prvWriteMessageToBuffer (lbuf s) d (of_nat (length d)) (xStreamBufferSpacesAvailable (lbuf s)) (required_of (lbuf s) d) = Inr (n, b')"
  shows "link_step\<^sup>*\<^sup>* s (s\<lparr>lbuf := (lbuf s)\<lparr>pucBuffer := pucBuffer b', xHead := xHead b'\<rparr>, wr := WIdle, sb_given := log_call (take (unat n) d) (sb_given s)\<rparr>)"
proof -
  let ?b = "lbuf s"
  let ?p = "s\<lparr>wr := WTail d (xTail ?b)\<rparr>" and ?q = "s\<lparr>wr := WSpace d (xTail ?b) (xStreamBufferSpacesAvailable ?b)\<rparr>"
  let ?r = "s\<lparr>lbuf := ?b\<lparr>pucBuffer := pucBuffer b'\<rparr>, wr := WCopied (take (unat n) d) (xHead b')\<rparr>"
  have 1: "link_step s ?p" using write_begin [OF w d] .
  have 2: "link_step ?p ?q" using write_space [of ?p d "xTail ?b"] by simp
  have 3: "link_step ?q ?r" using write_copy [of ?q d "xTail ?b" "xStreamBufferSpacesAvailable ?b" n b'] c by simp
  have 4: "link_step ?r (s\<lparr>lbuf := ?b\<lparr>pucBuffer := pucBuffer b', xHead := xHead b'\<rparr>, wr := WIdle,
      sb_given := log_call (take (unat n) d) (sb_given s)\<rparr>)"
    using write_publish [of ?r "take (unat n) d" "xHead b'"] w by simp
  show ?thesis using 1 2 3 4 by (meson converse_rtranclp_into_rtranclp rtranclp.rtrancl_refl)
qed

lemma read_steps:
  assumes r: "rd s = RIdle" and a: "prvBytesInBuffer (lbuf s) > bytes_to_exceed (lbuf s)"
    and c: "prvReadMessageFromBuffer (lbuf s) want (prvBytesInBuffer (lbuf s)) = Inr (bs, b')"
  shows "link_step\<^sup>*\<^sup>* s (s\<lparr>lbuf := (lbuf s)\<lparr>xTail := xTail b'\<rparr>, rd := RIdle, sb_got := log_call bs (sb_got s)\<rparr>)"
proof -
  let ?b = "lbuf s"
  let ?p = "s\<lparr>rd := RAvail want (prvBytesInBuffer ?b)\<rparr>" and ?q = "s\<lparr>rd := RCopied bs (xTail b')\<rparr>"
  have 1: "link_step s ?p" using read_begin [OF r] .
  have 2: "link_step ?p ?q" using read_copy [of ?p want "prvBytesInBuffer ?b" bs b'] a c by simp
  have 3: "link_step ?q (s\<lparr>lbuf := ?b\<lparr>xTail := xTail b'\<rparr>, rd := RIdle, sb_got := log_call bs (sb_got s)\<rparr>)"
    using read_publish [of ?q bs "xTail b'"] r by simp
  show ?thesis using 1 2 3 by (meson converse_rtranclp_into_rtranclp rtranclp.rtrancl_refl)
qed

lemmas demo_sb_defs = demo_sb_def prvInitialiseNewStreamBuffer_def is_message_def is_batching_def sbFLAGS_IS_MESSAGE_BUFFER_def
  sbFLAGS_IS_BATCHING_BUFFER_def sbBYTES_TO_STORE_MESSAGE_LENGTH_def

lemma demo_run: "f \<in> {0, 1} \<Longrightarrow> link_step\<^sup>*\<^sup>* (link_of (demo_sb 1 f)) (demo_read f)"
proof -
  assume f: "f \<in> {0, 1}"
  have "link_step\<^sup>*\<^sup>* (link_of (demo_sb 1 f)) (demo_sent f)"
    using f write_steps [of "link_of (demo_sb 1 0)" "[7, 9]"] write_steps [of "link_of (demo_sb 1 1)" "[7, 9]"] demo_write [of 1]
    by (auto simp: demo_sent_def link_of_def log_call_def required_of_def required_space_def xStreamBufferSpacesAvailable_def demo_sb_defs)
  moreover have "link_step\<^sup>*\<^sup>* (demo_sent f) (demo_read f)"
    using f read_steps [of "demo_sent 0" 1 "[7]"] read_steps [of "demo_sent 1" 5 "[7, 9]"]
    by (auto simp: demo_read_def demo_sent_def link_of_def log_call_def prvBytesInBuffer_def bytes_to_exceed_def demo_sb_defs
      prvReadMessageFromBuffer_def prvReadBytesFromBuffer_def read_bytes_def bytes_length_def Let_def word_le_nat_alt)
  ultimately show ?thesis by (rule rtranclp_trans)
qed

end
