(* ===== verification/StreamResults.thy ===== *)
theory StreamResults
  imports StreamExample
begin

text \<open>
  What stream and message buffers promise: the bytes arrive in order and the messages whole, whatever the
  interleaving of a writer and a reader on two cores; a send wakes the reader that waits, and is not missed by one
  that is about to wait.  One promise is not kept: the batching buffer wakes its reader one byte too early.
\<close>

section \<open>Sections of the running task\<close>

lemma exit_upd:
  assumes "xSchedulerRunning k" "uxCriticalNestings k c = 0"
  shows "vTaskExitCritical c (upd_tcb t f (set_nesting c 1 k)) = kick c (upd_tcb t f k)"
proof -
  have n: "(uxCriticalNestings k)(c := 0) = uxCriticalNestings k" using assms(2) by (auto simp: fun_eq_iff)
  have s: "set_nesting c 0 (upd_tcb t f (set_nesting c 1 k)) = upd_tcb t f k" by (simp add: set_nesting_def upd_tcb_def n)
  have "vTaskExitCritical c (upd_tcb t f (set_nesting c 1 k)) = (let r = set_nesting c 0 (upd_tcb t f (set_nesting c 1 k)) in
      if xYieldPendings r c then portYIELD c r else r)"
    using assms(1) by (simp add: vTaskExitCritical_def set_nesting_def upd_tcb_def)
  then show ?thesis unfolding s Let_def kick_def .
qed

lemma nest_twice:
  assumes "xSchedulerRunning k" "uxCriticalNestings k c = 0"
  shows "vTaskExitCritical c (upd_tcb t f (vTaskEnterCritical c (set_nesting c 1 k))) = upd_tcb t f (set_nesting c 1 k)"
    "vTaskExitCritical c (vTaskEnterCritical c (set_nesting c 1 k)) = set_nesting c 1 k"
  using assms by (simp_all add: vTaskExitCritical_def vTaskEnterCritical_def set_nesting_def upd_tcb_def)

lemma running_section:
  assumes "stable k" "c < configNUMBER_OF_CORES"
  shows "xSchedulerRunning k" "uxCriticalNestings k c = 0" "vTaskEnterCritical c k = set_nesting c 1 k" "kinv k"
proof -
  show r: "xSchedulerRunning k" "uxCriticalNestings k c = 0" "kinv k"
    using assms by (auto simp: stable_iff [OF assms(2)] basic_def nestings_def)
  show "vTaskEnterCritical c k = set_nesting c 1 k" by (rule enter_eq [OF r(1,2)])
qed

lemma stable_neutral:
  assumes "stable k" "neutral f"
  shows "stable (upd_tcb t f k)"
  using basic_neutral [of k f t] pended_neutral [of k f t] assms stable_iff [of 0]
  by (simp add: configNUMBER_OF_CORES_def) (simp add: upd_tcb_def nestings_def)

section \<open>Waking\<close>

text \<open>A task that could be notified.\<close>

definition wakeable :: "kernel \<Rightarrow> nat \<Rightarrow> bool" where
  "wakeable k t \<longleftrightarrow> (ucNotifyState (tcb k t) = Waiting \<longrightarrow>
     (\<exists>L. stateContainer (tcb k t) = Some L \<and> L \<noteq> TerminationL) \<and> \<not> idle_task k t)"

lemma quiet_resumed:
  "quiet (k\<lparr>uxSchedulerSuspended := 1\<rparr>) k' \<Longrightarrow> uxSchedulerSuspended k = 0 \<Longrightarrow>
    quiet k (kick c (k'\<lparr>uxSchedulerSuspended := 0\<rparr>))"
  by (simp add: quiet_def)

lemma completed_notifies:
  assumes "stable k" "c < configNUMBER_OF_CORES" "wakeable k t"
  shows "\<exists>r k1 b k2. xTaskGenericNotify c t 0 eNoAction (vTaskSuspendAll k) = Inr (r, k1) \<and> xTaskResumeAll c k1 = Inr (b, k2) \<and>
    stable k2 \<and> notified t eNoAction 0 k k2"
proof -
  have run: "xSchedulerRunning k" and u0: "uxSchedulerSuspended k = 0" using assms(1) by (simp_all add: stable_def)
  have s: "vTaskSuspendAll k = k\<lparr>uxSchedulerSuspended := 1\<rparr>" using run u0 by (simp add: vTaskSuspendAll_def)
  have h: "held 1 (vTaskSuspendAll k)" using held_suspend [of 0 k] assms(1) by (simp add: held_stable)
  obtain L where w: "ucNotifyState (tcb k t) = Waiting \<Longrightarrow> stateContainer (tcb k t) = Some L \<and> L \<noteq> TerminationL \<and> \<not> idle_task k t"
    using assms(3) by (auto simp: wakeable_def)
  obtain r k1 where k1: "xTaskGenericNotify c t 0 eNoAction (vTaskSuspendAll k) = Inr (r, k1)" "held 1 k1"
      "notified t eNoAction 0 (vTaskSuspendAll k) k1"
    using xTaskGenericNotify_ok [OF h assms(2), of t L 0 eNoAction] w unfolding s ensures_def
    by (fastforce simp: idle_task_def)
  let ?k2 = "kick c (k1\<lparr>uxSchedulerSuspended := 0\<rparr>)"
  obtain b where b: "xTaskResumeAll c k1 = Inr (b, ?k2)"
    using held_resume [of 0 k1 c] k1(2) assms(2) by auto
  have "stable ?k2" by (rule stable_kick) (use k1(2) in \<open>simp add: held_def\<close>)
  moreover have "notified t eNoAction 0 k ?k2" using k1(3) quiet_resumed [of k k1 c] u0 unfolding s notified_def
    by (auto simp: ev_same_def note_of_def fun_eq_iff)
  ultimately show ?thesis using k1(1) b by blast
qed

lemma sbSEND_COMPLETED_ok:
  assumes "stable (skern s)" "c < configNUMBER_OF_CORES" "wakeable (skern s) t" "xTaskWaitingToReceive (sb_of s q) = Some t"
  shows "\<exists>k. sbSEND_COMPLETED c q s = Inr (s\<lparr>skern := k, sb_of := (sb_of s)(q := (sb_of s q)\<lparr>xTaskWaitingToReceive := None\<rparr>)\<rparr>) \<and>
    stable k \<and> notified t eNoAction 0 (skern s) k"
proof -
  obtain r k1 b k2 where k: "xTaskGenericNotify c t 0 eNoAction (vTaskSuspendAll (skern s)) = Inr (r, k1)"
    "xTaskResumeAll c k1 = Inr (b, k2)" "stable k2" "notified t eNoAction 0 (skern s) k2"
    using completed_notifies [OF assms(1-3)] by blast
  then have "sbSEND_COMPLETED c q s =
      Inr (s\<lparr>skern := k2, sb_of := (sb_of s)(q := (sb_of s q)\<lparr>xTaskWaitingToReceive := None\<rparr>)\<rparr>)"
    using assms(4) by (simp add: sbSEND_COMPLETED_def on_skern_def upd_skern_def upd_sb_def Let_def)
  then show ?thesis using k(3,4) by blast
qed

lemma sbRECEIVE_COMPLETED_none:
  assumes "stable (skern s)" "c < configNUMBER_OF_CORES" "xTaskWaitingToSend (sb_of s q) = None"
  shows "sbRECEIVE_COMPLETED c q s = Inr (upd_skern (kick c) s)"
proof -
  let ?k = "skern s"
  have run: "xSchedulerRunning ?k" and u0: "uxSchedulerSuspended ?k = 0" using assms(1) by (simp_all add: stable_def)
  have s: "vTaskSuspendAll ?k = ?k\<lparr>uxSchedulerSuspended := 1\<rparr>" using run u0 by (simp add: vTaskSuspendAll_def)
  have h: "held 1 (vTaskSuspendAll ?k)" using held_suspend [of 0 ?k] assms(1) by (simp add: held_stable)
  obtain b where "xTaskResumeAll c (vTaskSuspendAll ?k) = Inr (b, kick c (vTaskSuspendAll ?k\<lparr>uxSchedulerSuspended := 0\<rparr>))"
    using held_resume [of 0 "vTaskSuspendAll ?k" c] h assms(2) by auto
  moreover have "vTaskSuspendAll ?k\<lparr>uxSchedulerSuspended := 0\<rparr> = ?k" unfolding s by (cases ?k) (use u0 in simp)
  ultimately show ?thesis using assms(3)
    by (simp add: sbRECEIVE_COMPLETED_def on_skern_def upd_skern_def Let_def)
qed

section \<open>The calls of a task that does not sleep\<close>

lemma send_try_room:
  assumes "stable (skern s)" "c < configNUMBER_OF_CORES" "req \<le> xStreamBufferSpacesAvailable (sb_of s q)"
  shows "send_try c q req s = Inr ((xStreamBufferSpacesAvailable (sb_of s q), False), upd_skern (kick c) s)"
proof -
  note d = running_section [OF assms(1,2)]
  have "vTaskExitCritical c (vTaskEnterCritical c (skern s)) = kick c (skern s)" by (rule enter_exit [OF d(1,2)])
  moreover have "\<not> xStreamBufferSpacesAvailable (sb_of s q) < req" using assms(3) by simp
  ultimately show ?thesis by (simp add: send_try_def scritical_def upd_skern_def Let_def)
qed

text \<open>The send of data that fits, whatever its time limit: the bytes are in the ring and \<open>sbSEND_COMPLETED\<close> follows.\<close>

lemma xStreamBufferSend_room:
  assumes "stable (skern s)" "c < configNUMBER_OF_CORES" "sb_ok (sb_of s q)" "d \<noteq> []" "length d < 2 ^ 32 - 4"
    and room: "used (sb_of s q) + length (frame_of (is_message (sb_of s q)) d) < unat (xLength (sb_of s q))"
    and lvl: "unat (xTriggerLevelBytes (sb_of s q)) \<le> used (sb_of s q) + length (frame_of (is_message (sb_of s q)) d)"
  shows "\<exists>b k. xStreamBufferSend c q d (of_nat (length d)) n s =
      bindE (sbSEND_COMPLETED c q (s\<lparr>skern := k, sb_of := (sb_of s)(q := b)\<rparr>)) (\<lambda>s'. Inr (Finished (of_nat (length d)), s')) \<and>
    (k = skern s \<or> k = kick c (skern s)) \<and> sb_ok b \<and> bytes_held b = bytes_held (sb_of s q) @ frame_of (is_message (sb_of s q)) d \<and>
    (\<exists>m h. b = (sb_of s q)\<lparr>pucBuffer := m, xHead := h\<rparr>)"
proof -
  let ?b = "sb_of s q" and ?m = "is_message (sb_of s q)" and ?len = "of_nat (length d) :: u32"
  let ?sp = "xStreamBufferSpacesAvailable ?b"
  note bd = sb_okD [OF assms(3)]
  have sp: "unat ?sp = sb_cap ?b - 1 - used ?b" by (rule spaces_available [OF assms(3)])
  have ul: "used ?b < sb_cap ?b" by (rule used_less [OF assms(3)])
  have fr: "length (frame_of ?m d) = (if ?m then 4 + length d else length d)" using assms(4) by (simp add: frame_of_def)
  have le: "length (frame_of ?m d) \<le> unat ?sp" using room sp by linarith
  have tk: "part_taken ?b d ?sp = d" using le fr by (auto simp: part_taken_def)
  have len: "unat ?len = length d" using assms(5) by (simp add: unat_of_nat)
  have "unat (required_space ?b ?len) = length (frame_of ?m d)"
  proof (cases ?m)
    case True
    have "unat (?len + 4) = length d + 4" using assms(5) len by (subst unat_plus_if_size) (simp add: word_size)
    then show ?thesis using True fr by (simp add: required_space_def sbBYTES_TO_STORE_MESSAGE_LENGTH_def)
  next
    case False
    have "unat (xLength ?b - 1) = sb_cap ?b - 1" using bd by (subst unat_sub) (auto simp: word_le_nat_alt)
    then have "\<not> ?len > xLength ?b - 1" using False room fr len by (simp add: word_less_nat_alt)
    then show ?thesis using False fr len by (simp add: required_space_def)
  qed
  then have rq: "required_space ?b ?len \<le> ?sp" using le by (simp add: word_le_nat_alt)
  have nz: "?sp \<noteq> 0" using le fr assms(4) by (auto split: if_splits)
  have "unat ?sp + used ?b < sb_cap ?b" using sp ul by linarith
  then obtain m h where w: "prvWriteMessageToBuffer ?b d ?len ?sp (required_space ?b ?len) = Inr (?len, ?b\<lparr>pucBuffer := m, xHead := h\<rparr>)"
    "copied ?b m h (frame_of ?m d)"
    using write_message [OF assms(3) _ assms(5), of ?sp] unfolding required_of_def tk by blast
  let ?b' = "?b\<lparr>pucBuffer := m, xHead := h\<rparr>"
  note ci = copy_in [OF assms(3) w(2)]
  have ph: "sb_ok ?b'" "used ?b' = used ?b + length (frame_of ?m d)" "bytes_held ?b' = bytes_held ?b @ frame_of ?m d"
    using publish_head [OF ci(1), of h "frame_of ?m d"] ci by simp_all
  have "prvBytesInBuffer ?b' \<ge> xTriggerLevelBytes ?b'" using bytes_in_buffer [OF ph(1)] ph(2) lvl by (simp add: word_le_nat_alt)
  moreover have "?len > 0" using len assms(4) by (auto simp: word_less_nat_alt)
  ultimately have fin: "send_finish c q d ?len (required_space ?b ?len) sp t = bindE (sbSEND_COMPLETED c q (t\<lparr>sb_of := (sb_of t)(q := ?b')\<rparr>))
      (\<lambda>s'. Inr (?len, s'))" if "sp = 0 \<or> sp = ?sp" "sb_of t q = ?b" for sp t
    using that w(1) by (auto simp: send_finish_def upd_sb_def)
  have "\<exists>k. (k = skern s \<or> k = kick c (skern s)) \<and> xStreamBufferSend c q d ?len n s =
      bindE (sbSEND_COMPLETED c q (s\<lparr>skern := k, sb_of := (sb_of s)(q := ?b')\<rparr>)) (\<lambda>s'. Inr (Finished ?len, s'))"
  proof (cases "send_ticks ?b ?len n = 0")
    case True
    then show ?thesis using fin [of 0 s]
      by (intro exI [of _ "skern s"]) (simp add: xStreamBufferSend_def Let_def bindE_assoc)
  next
    case False
    note st = running_section [OF assms(1,2)]
    have x: "vTaskExitCritical c (vTaskEnterCritical c (skern s)) = kick c (skern s)" by (rule enter_exit [OF st(1,2)])
    let ?s = "s\<lparr>skern := kick c (skern s)\<rparr>"
    have t: "send_try c q (required_space ?b ?len) ?s = Inr ((?sp, False), ?s)"
      using send_try_room [of ?s c "required_space ?b ?len" q] rq assms(1,2) by (simp add: stable_kick upd_skern_def)
    have "xStreamBufferSend c q d ?len n s = bindE (send_finish c q d ?len (required_space ?b ?len) ?sp ?s) (\<lambda>(n, s2). Inr (Finished n, s2))"
      using False by (simp add: xStreamBufferSend_def Let_def vTaskSetTimeOutState_def x send_round_def t)
    then show ?thesis using fin [of ?sp ?s] by (intro exI [of _ "kick c (skern s)"]) (simp add: bindE_assoc)
  qed
  then show ?thesis using ph by blast
qed

section \<open>In order, and whole\<close>

text \<open>C23: A writer and a reader use a stream buffer from two cores without a lock: in every interleaving of their
  accesses to the indices and the storage, the bytes the reader has got, followed by those in the ring, are the bytes
  the writer was told it had sent.  No byte is lost, doubled, torn or overtaken, also across the end of the ring, and
  no copy that is about to be made reaches beyond the storage.\<close>

theorem stream_bytes_in_order:
  assumes "sb_ok b" "xStreamBufferIsEmpty b" "\<not> is_message b" "link_step\<^sup>*\<^sup>* (link_of b) s"
  shows "concat (sb_given s) = concat (sb_got s) @ bytes_held (lbuf s) \<and> length (bytes_held (lbuf s)) < unat (xLength (lbuf s)) \<and>
    link_safe s"
proof -
  have ok: "link_ok s" and m: "\<not> is_message (lbuf s)"
    using link_steps_ok [OF assms(4) link_of_ok [OF assms(1,2)]] assms(3) by (simp_all add: link_of_def)
  then show ?thesis using used_less [of "lbuf s"] link_ok_safe [OF ok] by (simp add: link_ok_def log_ok_def)
qed

text \<open>C24: A message buffer keeps messages whole: in every interleaving of a writer and a reader, the messages the
  reader has got are the first of those sent, each as it was sent, and the ring holds exactly the others, each behind
  its length; no copy faults.\<close>

theorem messages_stay_whole:
  assumes "sb_ok b" "xStreamBufferIsEmpty b" "is_message b" "link_step\<^sup>*\<^sup>* (link_of b) s"
  shows "\<exists>pending. sb_given s = sb_got s @ pending \<and> bytes_held (lbuf s) = concat (map msg_frame pending) \<and> link_safe s"
proof -
  have ok: "link_ok s" and m: "is_message (lbuf s)"
    using link_steps_ok [OF assms(4) link_of_ok [OF assms(1,2)]] assms(3) by (simp_all add: link_of_def)
  then show ?thesis using link_ok_safe [OF ok] by (auto simp: link_ok_def log_ok_def)
qed

text \<open>Two bytes are sent, one is read; a message of two bytes is sent and read.\<close>

theorem stream_bytes_in_order_witness:
  "\<exists>s. link_step\<^sup>*\<^sup>* (link_of (demo_sb 1 0)) s \<and> sb_got s = [[7]] \<and> concat (sb_given s) = [7] @ bytes_held (lbuf s)"
proof -
  have m: "\<not> is_message (demo_sb 1 0)" by (simp add: demo_sb_defs)
  have r: "link_step\<^sup>*\<^sup>* (link_of (demo_sb 1 0)) (demo_read 0)" by (rule demo_run) simp
  have "sb_got (demo_read 0) = [[7]]" by (simp add: demo_read_def)
  then show ?thesis using stream_bytes_in_order [OF demo_sb_ok m r] r by (intro exI [of _ "demo_read 0"]) simp
qed

theorem messages_stay_whole_witness:
  "\<exists>s pending. link_step\<^sup>*\<^sup>* (link_of (demo_sb 1 1)) s \<and> sb_got s = [[7, 9]] \<and> sb_given s = [[7, 9]] @ pending"
proof -
  have m: "is_message (demo_sb 1 1)" by (simp add: demo_sb_defs)
  have r: "link_step\<^sup>*\<^sup>* (link_of (demo_sb 1 1)) (demo_read 1)" by (rule demo_run) simp
  have g: "sb_got (demo_read 1) = [[7, 9]]" by (simp add: demo_read_def)
  obtain pending where "sb_given (demo_read 1) = [[7, 9]] @ pending" using messages_stay_whole [OF demo_sb_ok m r] g by auto
  then show ?thesis using r g by blast
qed

section \<open>A send wakes the reader\<close>

lemma send_wakes:
  assumes "stable (skern s)" "c < configNUMBER_OF_CORES" "sb_ok (sb_of s q)" "d \<noteq> []" "length d < 2 ^ 32 - 4"
    and "used (sb_of s q) + length (frame_of (is_message (sb_of s q)) d) < unat (xLength (sb_of s q))"
    and "unat (xTriggerLevelBytes (sb_of s q)) \<le> used (sb_of s q) + length (frame_of (is_message (sb_of s q)) d)"
    and "xTaskWaitingToReceive (sb_of s q) = Some t" "wakeable (skern s) t"
  shows "\<exists>k m h. let b = (sb_of s q)\<lparr>pucBuffer := m, xHead := h, xTaskWaitingToReceive := None\<rparr> in
    xStreamBufferSend c q d (of_nat (length d)) n s =
      Inr (Finished (of_nat (length d)), s\<lparr>skern := k, sb_of := (sb_of s)(q := b)\<rparr>) \<and>
    stable k \<and> notified t eNoAction 0 (skern s) k \<and> sb_ok b \<and>
    bytes_held b = bytes_held (sb_of s q) @ frame_of (is_message (sb_of s q)) d"
proof -
  obtain b k where b0: "xStreamBufferSend c q d (of_nat (length d)) n s =
      bindE (sbSEND_COMPLETED c q (s\<lparr>skern := k, sb_of := (sb_of s)(q := b)\<rparr>)) (\<lambda>s'. Inr (Finished (of_nat (length d)), s'))"
    "k = skern s \<or> k = kick c (skern s)" "sb_ok b" "bytes_held b = bytes_held (sb_of s q) @ frame_of (is_message (sb_of s q)) d"
    "\<exists>m h. b = (sb_of s q)\<lparr>pucBuffer := m, xHead := h\<rparr>"
    using xStreamBufferSend_room [OF assms(1-7), of n] by blast
  obtain m h where bb: "b = (sb_of s q)\<lparr>pucBuffer := m, xHead := h\<rparr>" using b0(5) by blast
  let ?s = "s\<lparr>skern := k, sb_of := (sb_of s)(q := b)\<rparr>"
  have k: "stable k" "wakeable k t" using b0(2) assms(1,9) by (auto simp: stable_kick wakeable_def idle_task_def)
  have w: "xTaskWaitingToReceive (sb_of ?s q) = Some t" using bb assms(8) by simp
  obtain k' where k': "sbSEND_COMPLETED c q ?s =
      Inr (?s\<lparr>skern := k', sb_of := (sb_of ?s)(q := (sb_of ?s q)\<lparr>xTaskWaitingToReceive := None\<rparr>)\<rparr>)"
    "stable k'" "notified t eNoAction 0 k k'"
    using sbSEND_COMPLETED_ok [of ?s c t q] k w assms(2) by auto
  have "notified t eNoAction 0 (skern s) k'" using k'(3) b0(2)
    by (auto simp: notified_def quiet_def ev_same_def note_of_def)
  moreover have "sb_ok (b\<lparr>xTaskWaitingToReceive := None\<rparr>)" "bytes_held (b\<lparr>xTaskWaitingToReceive := None\<rparr>) = bytes_held b"
    using b0(3) by (simp_all add: sb_ok_def bytes_held_def used_def)
  ultimately show ?thesis using b0(1,4) k' unfolding bb by (intro exI [of _ k'] exI [of _ m] exI [of _ h]) (simp add: Let_def)
qed

text \<open>C25: A send of data for which there is room puts the data, with the length in front of a message, behind the
  bytes held, whatever its time limit.  If the buffer then holds the trigger level, the task registered as waiting is
  notified and, if it sleeps, ready at once; no other task moves and the kernel stays stable.\<close>

theorem stream_send_wakes_reader:
  assumes "stable (skern s)" "c < configNUMBER_OF_CORES" "sb_ok (sb_of s q)" "d \<noteq> []" "length d < 2 ^ 32 - 4"
    and "used (sb_of s q) + length (frame_of (is_message (sb_of s q)) d) < unat (xLength (sb_of s q))"
    and "unat (xTriggerLevelBytes (sb_of s q)) \<le> used (sb_of s q) + length (frame_of (is_message (sb_of s q)) d)"
    and "xTaskWaitingToReceive (sb_of s q) = Some t" "wakeable (skern s) t"
  shows "\<exists>s'. xStreamBufferSend c q d (of_nat (length d)) n s = Inr (Finished (of_nat (length d)), s') \<and>
    stable (skern s') \<and> notified t eNoAction 0 (skern s) (skern s') \<and>
    sb_ok (sb_of s' q) \<and> bytes_held (sb_of s' q) = bytes_held (sb_of s q) @ frame_of (is_message (sb_of s q)) d \<and>
    xTaskWaitingToReceive (sb_of s' q) = None \<and> (\<forall>p. p \<noteq> q \<longrightarrow> sb_of s' p = sb_of s p)"
  using send_wakes [OF assms, of n] unfolding Let_def by fastforce

text \<open>Task 1 sends a byte to the buffer on which task 3 sleeps.\<close>

theorem stream_send_wakes_reader_witness:
  "\<exists>s'. xStreamBufferSend 0 0 [5] 1 10 demo_ssys = Inr (Finished 1, s') \<and> bytes_held (sb_of s' 0) = [5] \<and>
    stateContainer (tcb (skern s') 3) = Some (ReadyL 3)"
proof -
  have p: "stable (skern demo_ssys)" "(0::nat) < configNUMBER_OF_CORES" "sb_ok (sb_of demo_ssys 0)" "[5 :: u8] \<noteq> []"
    "length [5 :: u8] < 2 ^ 32 - 4"
    "used (sb_of demo_ssys 0) + length (frame_of (is_message (sb_of demo_ssys 0)) [5]) < unat (xLength (sb_of demo_ssys 0))"
    "unat (xTriggerLevelBytes (sb_of demo_ssys 0)) \<le> used (sb_of demo_ssys 0) + length (frame_of (is_message (sb_of demo_ssys 0)) [5])"
    "xTaskWaitingToReceive (sb_of demo_ssys 0) = Some 3" "wakeable (skern demo_ssys) 3"
    using demo_skern_stable by (simp_all add: demo_ssys_def configNUMBER_OF_CORES_def demo_sb_defs sb_ok_def used_def frame_of_def
        wakeable_def demo_skern_def upd_tcb_def idle_task_def demo_defs)
  have b: "bytes_held (sb_of demo_ssys 0) @ frame_of (is_message (sb_of demo_ssys 0)) [5] = [5]"
    by (simp add: demo_ssys_def demo_sb_defs bytes_held_def used_def ring_bytes_def frame_of_def)
  have c: "ucNotifyState (tcb (skern demo_ssys) 3) = Waiting" "prio (skern demo_ssys) 3 = 3"
    by (simp_all add: demo_ssys_def demo_skern_def upd_tcb_def demo_defs)
  obtain s' where "xStreamBufferSend 0 0 [5] (of_nat (length [5 :: u8])) 10 demo_ssys = Inr (Finished (of_nat (length [5 :: u8])), s')"
    "notified 3 eNoAction 0 (skern demo_ssys) (skern s')" "bytes_held (sb_of s' 0) = [5]"
    using stream_send_wakes_reader [OF p, of 10] unfolding b by blast
  then show ?thesis using c by (intro exI [of _ s']) (simp add: notified_def)
qed

section \<open>A reader that is about to wait\<close>

lemma receive_try_waits:
  assumes "stable (skern s)" "c < configNUMBER_OF_CORES" "prvBytesInBuffer (sb_of s q) \<le> l"
  shows "\<exists>k. receive_try c q l s = Inr (prvBytesInBuffer (sb_of s q), s\<lparr>skern := k,
      sb_of := (sb_of s)(q := (sb_of s q)\<lparr>xTaskWaitingToReceive := Some (cur (skern s) c)\<rparr>)\<rparr>) \<and>
    stable k \<and> quiet (skern s) k \<and> (\<forall>u. stateContainer (tcb k u) = stateContainer (tcb (skern s) u)) \<and>
    ucNotifyState (tcb k (cur (skern s) c)) =
      (if ucNotifyState (tcb (skern s) (cur (skern s) c)) = Received then NotWaiting else ucNotifyState (tcb (skern s) (cur (skern s) c)))"
proof -
  let ?k = "skern s" and ?t = "cur (skern s) c"
  note d = running_section [OF assms(1,2)]
  let ?ka = "set_nesting c 1 ?k"
  have cur: "pxCurrentTCBs ?k c = Some ?t" "current c ?ka = Inr ?t"
    using current_eq [OF d(4) assms(2)] d(4) assms(2)
    by (auto simp: current_def set_nesting_def follow_def kinv_def cores_wf_def configNUMBER_OF_CORES_def less_2_cases_iff split: option.splits)
  let ?f = "\<lambda>x. x\<lparr>ucNotifyState := (if ucNotifyState (tcb ?k ?t) = Received then NotWaiting else ucNotifyState (tcb ?k ?t))\<rparr>"
  let ?kb = "upd_tcb ?t ?f ?k"
  have upd: "upd_tcb ?t ?f ?ka = ?ka" if "ucNotifyState (tcb ?k ?t) \<noteq> Received"
    using that by (simp add: upd_tcb_def set_nesting_def)
  have "xTaskGenericNotifyStateClear c None ?ka = Inr (ucNotifyState (tcb ?k ?t) = Received, upd_tcb ?t ?f ?ka)"
  proof (cases "ucNotifyState (tcb ?k ?t) = Received")
    case True
    have "tcb (vTaskEnterCritical c ?ka) = tcb ?k" by (simp add: vTaskEnterCritical_def set_nesting_def)
    then show ?thesis using True cur(2) nest_twice(1) [OF d(1,2), of ?t]
      by (simp add: xTaskGenericNotifyStateClear_def prvGetTCBFromHandle_def critical_def)
  next
    case False
    have "tcb (vTaskEnterCritical c ?ka) = tcb ?k" by (simp add: vTaskEnterCritical_def set_nesting_def)
    then show ?thesis using False cur(2) nest_twice(2) [OF d(1,2)] upd [OF False]
      by (simp add: xTaskGenericNotifyStateClear_def prvGetTCBFromHandle_def critical_def)
  qed
  moreover have "vTaskExitCritical c (upd_tcb ?t ?f ?ka) = kick c ?kb" by (rule exit_upd [OF d(1,2)])
  moreover have "pxCurrentTCBs (upd_tcb ?t ?f ?ka) c = Some ?t" using cur(1) by (simp add: upd_tcb_def set_nesting_def)
  ultimately have "receive_try c q l s = Inr (prvBytesInBuffer (sb_of s q), s\<lparr>skern := kick c ?kb,
      sb_of := (sb_of s)(q := (sb_of s q)\<lparr>xTaskWaitingToReceive := Some ?t\<rparr>)\<rparr>)"
    using assms(3) d(3) by (simp add: receive_try_def scritical_def upd_skern_def on_skern_def upd_sb_def Let_def)
  moreover have "stable (kick c ?kb)" by (intro stable_kick stable_neutral [OF assms(1)]) (simp add: neutral_def)
  moreover have "quiet ?k (kick c ?kb)" by (simp add: quiet_def upd_tcb_def)
  ultimately show ?thesis by (intro exI [of _ "kick c ?kb"]) (simp add: upd_tcb_def)
qed

lemma notify_wait_received:
  assumes "kinv (skern s)" "c < configNUMBER_OF_CORES" "ucNotifyState (tcb (skern s) (cur (skern s) c)) = Received"
  shows "notify_wait c n s = Inr s"
  using assms(3) current_eq [OF assms(1,2)]
  by (simp add: notify_wait_def xTaskGenericNotifyWait_block_def notify_block_def)

lemma wait_return_eq:
  assumes "stable k" "c < configNUMBER_OF_CORES"
  shows "\<exists>r k'. xTaskGenericNotifyWait_return c 0 k = Inr (r, k') \<and> stable k'"
proof -
  note d = running_section [OF assms]
  let ?t = "cur k c"
  have cur: "current c (set_nesting c 1 k) = Inr ?t"
    using current_eq [OF d(4) assms(2)] by (simp add: current_def set_nesting_def)
  let ?f = "\<lambda>x. x\<lparr>ucNotifyState := NotWaiting\<rparr>"
  let ?g = "\<lambda>x. x\<lparr>ulNotifiedValue := ulNotifiedValue (tcb k ?t), ucNotifyState := NotWaiting\<rparr>"
  have u: "upd_tcb ?t ?f (upd_tcb ?t (\<lambda>x. x\<lparr>ulNotifiedValue := ulNotifiedValue (tcb k ?t)\<rparr>) (set_nesting c 1 k)) = upd_tcb ?t ?g (set_nesting c 1 k)"
    by (simp add: upd_tcb_def set_nesting_def)
  have n: "stable (kick c (upd_tcb ?t ?f k))" "stable (kick c (upd_tcb ?t ?g k))"
    by (intro stable_kick stable_neutral [OF assms(1)]; simp add: neutral_def)+
  have tc: "tcb (set_nesting c 1 k) = tcb k" by (simp add: set_nesting_def)
  show ?thesis
  proof (cases "ucNotifyState (tcb k ?t) = Received")
    case True
    have "xTaskGenericNotifyWait_return c 0 k = Inr ((True, ulNotifiedValue (tcb k ?t)), kick c (upd_tcb ?t ?g k))"
      using True cur u exit_upd [OF d(1,2), of ?t ?g]
      by (simp add: xTaskGenericNotifyWait_return_def critical_def d(3) tc Let_def del: One_nat_def)
    then show ?thesis using n(2) by blast
  next
    case False
    have "xTaskGenericNotifyWait_return c 0 k = Inr ((False, ulNotifiedValue (tcb k ?t)), kick c (upd_tcb ?t ?f k))"
      using False cur exit_upd [OF d(1,2), of ?t ?f]
      by (simp add: xTaskGenericNotifyWait_return_def critical_def d(3) tc Let_def del: One_nat_def)
    then show ?thesis using n(1) by blast
  qed
qed

text \<open>The reader after its wait, whatever woke it.\<close>

lemma receive_return_eq:
  assumes "stable (skern s)" "c < configNUMBER_OF_CORES"
  shows "\<exists>k. stable k \<and> xStreamBufferReceive_return c q n l s = (let t = s\<lparr>skern := k,
      sb_of := (sb_of s)(q := (sb_of s q)\<lparr>xTaskWaitingToReceive := None\<rparr>)\<rparr> in receive_finish c q n l (prvBytesInBuffer (sb_of s q)) t)"
proof -
  obtain r k where k: "xTaskGenericNotifyWait_return c 0 (skern s) = Inr (r, k)" "stable k"
    using wait_return_eq [OF assms] by blast
  have "prvBytesInBuffer ((sb_of s q)\<lparr>xTaskWaitingToReceive := None\<rparr>) = prvBytesInBuffer (sb_of s q)"
    by (simp add: prvBytesInBuffer_def Let_def)
  then show ?thesis using k
    by (intro exI [of _ k]) (simp add: xStreamBufferReceive_return_def on_skern_def upd_sb_def Let_def)
qed

text \<open>Reading the only message or all of a stream.\<close>

definition read_part :: "bool \<Rightarrow> u32 \<Rightarrow> u8 list \<Rightarrow> u8 list" where
  "read_part m room d = (if m then if length d \<le> unat room then d else [] else take (unat room) d)"

lemma receive_finish_frame:
  assumes "stable (skern s)" "c < configNUMBER_OF_CORES" "sb_ok (sb_of s q)" "xTaskWaitingToSend (sb_of s q) = None"
    and "d \<noteq> []" "length d < 2 ^ 32 - 4" "bytes_held (sb_of s q) = frame_of (is_message (sb_of s q)) d"
    and "is_message (sb_of s q) \<longrightarrow> unat l = 4" "\<not> is_message (sb_of s q) \<longrightarrow> l = 0"
  shows "\<exists>s'. receive_finish c q n l (prvBytesInBuffer (sb_of s q)) s = Inr (read_part (is_message (sb_of s q)) n d, s') \<and> stable (skern s')"
proof -
  let ?b = "sb_of s q" and ?a = "prvBytesInBuffer (sb_of s q)"
  have a: "unat ?a = length (frame_of (is_message ?b) d)" "unat ?a = used ?b"
    using bytes_in_buffer [OF assms(3)] arg_cong [OF assms(7), of length] by simp_all
  have gt: "?a > l" using a(1) assms(5,8,9) by (auto simp: word_less_nat_alt frame_of_def)
  have "\<exists>t. prvReadMessageFromBuffer ?b n ?a = Inr (read_part (is_message ?b) n d, ?b\<lparr>xTail := t\<rparr>)"
  proof (cases "is_message ?b")
    case True
    have h: "bytes_held ?b = msg_frame d @ []" using assms(5,7) True by (simp add: frame_of_def)
    have "4 + length d \<le> unat ?a" using a(1) True assms(5) by (simp add: frame_of_def)
    note r = read_message [OF assms(3) True h assms(5,6) this, of n]
    show ?thesis
    proof (cases "length d \<le> unat n")
      case True
      then show ?thesis using r \<open>is_message ?b\<close> by (auto simp: read_part_def)
    next
      case False
      then show ?thesis using r \<open>is_message ?b\<close> by (intro exI [of _ "xTail ?b"]) (simp add: read_part_def)
    qed
  next
    case False
    have h: "bytes_held ?b = d" "unat ?a = length d" using assms(5,7) False a(1) by (simp_all add: frame_of_def)
    have "unat (min n ?a) = min (unat n) (length d)" using h(2) by (auto simp: min_def word_le_nat_alt)
    then have "take (unat (min n ?a)) d = take (unat n) d" by (simp add: min_def)
    then show ?thesis using read_stream [OF assms(3) False, of ?a n] a(2) h(1) False by (auto simp: read_part_def)
  qed
  then obtain t where t: "prvReadMessageFromBuffer ?b n ?a = Inr (read_part (is_message ?b) n d, ?b\<lparr>xTail := t\<rparr>)" by blast
  let ?s = "upd_sb q (\<lambda>_. ?b\<lparr>xTail := t\<rparr>) s"
  have "sbRECEIVE_COMPLETED c q ?s = Inr (upd_skern (kick c) ?s)"
    by (rule sbRECEIVE_COMPLETED_none) (use assms(1,2,4) in \<open>simp_all add: upd_sb_def\<close>)
  moreover have "stable (skern ?s)" "stable (skern (upd_skern (kick c) ?s))" using assms(1) by (simp_all add: upd_sb_def upd_skern_def stable_kick)
  ultimately show ?thesis using gt t
    by (cases "read_part (is_message ?b) n d = []") (auto simp: receive_finish_def Let_def)
qed

text \<open>C26: A send is not missed.  The reader finds a message buffer, or a stream buffer that does not batch, empty and
  registers itself in its critical section; before it goes to sleep, the writer on the other core sends data that
  fits and reaches the trigger level, and no task waits to send.  Then the reader does not sleep: its wait returns at
  once, its task was ready all the time, and the call returns the data just sent.\<close>

theorem stream_send_not_missed:
  assumes "stable (skern s)" "c < configNUMBER_OF_CORES" "c' < configNUMBER_OF_CORES" "sb_ok (sb_of s q)"
    and "xStreamBufferIsEmpty (sb_of s q)" "is_message (sb_of s q) \<or> \<not> is_batching (sb_of s q)"
    and "xTaskWaitingToSend (sb_of s q) = None" "ucNotifyState (tcb (skern s) (cur (skern s) c)) \<noteq> Waiting"
    and "d \<noteq> []" "length d < 2 ^ 32 - 4" "length (frame_of (is_message (sb_of s q)) d) < unat (xLength (sb_of s q))"
    and "unat (xTriggerLevelBytes (sb_of s q)) \<le> length (frame_of (is_message (sb_of s q)) d)"
  shows "\<exists>s1 s2 s3. receive_try c q (bytes_to_exceed (sb_of s q)) s = Inr (0, s1) \<and>
    xStreamBufferSend c' q d (of_nat (length d)) m s1 = Inr (Finished (of_nat (length d)), s2) \<and>
    notify_wait c ticks s2 = Inr s2 \<and>
    stateContainer (tcb (skern s2) (cur (skern s) c)) = stateContainer (tcb (skern s) (cur (skern s) c)) \<and>
    xStreamBufferReceive_return c q n (bytes_to_exceed (sb_of s q)) s2 = Inr (read_part (is_message (sb_of s q)) n d, s3) \<and>
    stable (skern s3)"
proof -
  let ?b = "sb_of s q" and ?t = "cur (skern s) c" and ?l = "bytes_to_exceed (sb_of s q)"
  have u: "used ?b = 0" using assms(5) sb_okD [OF assms(4)] by (simp add: used_def xStreamBufferIsEmpty_def)
  have a0: "prvBytesInBuffer ?b = 0" using bytes_in_buffer [OF assms(4)] u by (simp add: unat_eq_0)
  have "prvBytesInBuffer ?b \<le> ?l" using a0 by simp
  then obtain k where k: "receive_try c q ?l s = Inr (0, s\<lparr>skern := k, sb_of := (sb_of s)(q := ?b\<lparr>xTaskWaitingToReceive := Some ?t\<rparr>)\<rparr>)"
    "stable k" "quiet (skern s) k" "stateContainer (tcb k ?t) = stateContainer (tcb (skern s) ?t)" "ucNotifyState (tcb k ?t) \<noteq> Waiting"
    using receive_try_waits [OF assms(1,2), of q ?l] a0 assms(8) by auto
  let ?s1 = "s\<lparr>skern := k, sb_of := (sb_of s)(q := ?b\<lparr>xTaskWaitingToReceive := Some ?t\<rparr>)\<rparr>"
  have b1: "sb_ok (sb_of ?s1 q)" "used (sb_of ?s1 q) = 0" "is_message (sb_of ?s1 q) = is_message ?b" "xLength (sb_of ?s1 q) = xLength ?b"
    "xTriggerLevelBytes (sb_of ?s1 q) = xTriggerLevelBytes ?b" "bytes_held (sb_of ?s1 q) = []" "xTaskWaitingToReceive (sb_of ?s1 q) = Some ?t"
    using assms(4) u by (simp_all add: sb_ok_def used_def is_message_def bytes_held_def ring_bytes_def)
  have "wakeable (skern ?s1) ?t" using k(5) by (simp add: wakeable_def)
  then obtain k2 m2 h2 where s2: "xStreamBufferSend c' q d (of_nat (length d)) m ?s1 = Inr (Finished (of_nat (length d)), s\<lparr>skern := k2,
        sb_of := (sb_of s)(q := ?b\<lparr>pucBuffer := m2, xHead := h2, xTaskWaitingToReceive := None\<rparr>)\<rparr>)"
      "stable k2" "notified ?t eNoAction 0 k k2" "sb_ok (?b\<lparr>pucBuffer := m2, xHead := h2, xTaskWaitingToReceive := None\<rparr>)"
      "bytes_held (?b\<lparr>pucBuffer := m2, xHead := h2, xTaskWaitingToReceive := None\<rparr>) = frame_of (is_message ?b) d"
    using send_wakes [of ?s1 c' q d ?t m] k(2) b1 assms(3,9-12) by (auto simp: Let_def)
  let ?b2 = "?b\<lparr>pucBuffer := m2, xHead := h2, xTaskWaitingToReceive := None\<rparr>"
  let ?s2 = "s\<lparr>skern := k2, sb_of := (sb_of s)(q := ?b2)\<rparr>"
  have cur2: "cur k2 c = ?t" using s2(3) k(3) by (simp add: notified_def quiet_def cur_def)
  have "fst (note_of k2 ?t) = Received" using s2(3) by (simp add: notified_def)
  then have rec: "ucNotifyState (tcb k2 ?t) = Received" by (simp add: note_of_def)
  have sc: "stateContainer (tcb k2 ?t) = stateContainer (tcb k ?t)" using s2(3) k(5) by (simp add: notified_def)
  have w: "notify_wait c ticks ?s2 = Inr ?s2"
    by (rule notify_wait_received) (use running_section(4) [OF s2(2) assms(2)] assms(2) rec cur2 in simp_all)
  obtain k3 where k3: "stable k3" "xStreamBufferReceive_return c q n ?l ?s2 = receive_finish c q n ?l (prvBytesInBuffer ?b2)
      (s\<lparr>skern := k3, sb_of := (sb_of s)(q := ?b2)\<rparr>)"
    using receive_return_eq [of ?s2 c q n ?l] s2(2) assms(2) by (auto simp: Let_def)
  have m2: "is_message ?b2 = is_message ?b" by (simp add: is_message_def)
  have l: "is_message ?b \<longrightarrow> unat ?l = 4" "\<not> is_message ?b \<longrightarrow> ?l = 0"
    using assms(6) by (auto simp: bytes_to_exceed_def sbBYTES_TO_STORE_MESSAGE_LENGTH_def)
  obtain s3 where "receive_finish c q n ?l (prvBytesInBuffer ?b2) (s\<lparr>skern := k3, sb_of := (sb_of s)(q := ?b2)\<rparr>) =
      Inr (read_part (is_message ?b) n d, s3)" "stable (skern s3)"
    using receive_finish_frame [of "s\<lparr>skern := k3, sb_of := (sb_of s)(q := ?b2)\<rparr>" c q d ?l n] k3(1) assms(2,7,9,10) s2(4,5) l m2
    by auto
  then show ?thesis using k(1,4) s2(1) w sc k3(2) by (intro exI [of _ ?s1] exI [of _ ?s2] exI [of _ s3]) simp
qed

text \<open>Task 2, on core 1, is about to wait for a message when task 1 sends it.\<close>

theorem stream_send_not_missed_witness:
  "\<exists>s1 s2 s3. receive_try 1 2 4 demo_ssys = Inr (0, s1) \<and> xStreamBufferSend 0 2 [5] 1 0 s1 = Inr (Finished 1, s2) \<and>
    notify_wait 1 100 s2 = Inr s2 \<and> xStreamBufferReceive_return 1 2 8 4 s2 = Inr ([5], s3)"
proof -
  have l: "bytes_to_exceed (sb_of demo_ssys 2) = 4" "read_part (is_message (sb_of demo_ssys 2)) 8 [5] = [5]"
    by (simp_all add: bytes_to_exceed_def demo_ssys_def demo_sb_defs read_part_def)
  have p: "stable (skern demo_ssys)" "(1::nat) < configNUMBER_OF_CORES" "(0::nat) < configNUMBER_OF_CORES" "sb_ok (sb_of demo_ssys 2)"
    "xStreamBufferIsEmpty (sb_of demo_ssys 2)" "is_message (sb_of demo_ssys 2) \<or> \<not> is_batching (sb_of demo_ssys 2)"
    "xTaskWaitingToSend (sb_of demo_ssys 2) = None" "ucNotifyState (tcb (skern demo_ssys) (cur (skern demo_ssys) 1)) \<noteq> Waiting"
    "[5 :: u8] \<noteq> []" "length [5 :: u8] < 2 ^ 32 - 4"
    "length (frame_of (is_message (sb_of demo_ssys 2)) [5]) < unat (xLength (sb_of demo_ssys 2))"
    "unat (xTriggerLevelBytes (sb_of demo_ssys 2)) \<le> length (frame_of (is_message (sb_of demo_ssys 2)) [5])"
    using demo_skern_stable by (simp_all add: demo_ssys_def configNUMBER_OF_CORES_def demo_sb_defs sb_ok_def frame_of_def
        xStreamBufferIsEmpty_def cur_def demo_skern_def upd_tcb_def demo_defs)
  show ?thesis using stream_send_not_missed [OF p, of 0 100 8] unfolding l by auto
qed

section \<open>The trigger level of a batching buffer\<close>

text \<open>C39: A batching buffer wakes its reader one byte too early.  When a send brings the buffer exactly to the trigger
  level, the reader that waits is notified and made ready; but a reader goes on only with more bytes than the trigger
  level, so whenever its task then runs, before its time is up, the call returns nothing and leaves the bytes there.\<close>

theorem batching_wakes_empty_handed:
  assumes "stable (skern s)" "c < configNUMBER_OF_CORES" "sb_ok (sb_of s q)" "d \<noteq> []" "length d < 2 ^ 32 - 4"
    and "used (sb_of s q) + length d < unat (xLength (sb_of s q))" "is_batching (sb_of s q)" "\<not> is_message (sb_of s q)"
    and "used (sb_of s q) + length d = unat (xTriggerLevelBytes (sb_of s q))"
    and "xTaskWaitingToReceive (sb_of s q) = Some t" "wakeable (skern s) t"
  shows "\<exists>s1. xStreamBufferSend c q d (of_nat (length d)) n s = Inr (Finished (of_nat (length d)), s1) \<and>
    notified t eNoAction 0 (skern s) (skern s1) \<and>
    (\<forall>c' s2 room. c' < configNUMBER_OF_CORES \<and> stable (skern s2) \<and> sb_of s2 = sb_of s1 \<longrightarrow>
       (\<exists>s3. xStreamBufferReceive_return c' q room (bytes_to_exceed (sb_of s q)) s2 = Inr ([], s3) \<and>
         bytes_held (sb_of s3 q) = bytes_held (sb_of s q) @ d))"
proof -
  let ?b = "sb_of s q" and ?l = "bytes_to_exceed (sb_of s q)"
  have fr: "frame_of (is_message ?b) d = d" using assms(4,8) by (simp add: frame_of_def)
  obtain k m h where r: "xStreamBufferSend c q d (of_nat (length d)) n s = Inr (Finished (of_nat (length d)),
        s\<lparr>skern := k, sb_of := (sb_of s)(q := ?b\<lparr>pucBuffer := m, xHead := h, xTaskWaitingToReceive := None\<rparr>)\<rparr>)"
      "notified t eNoAction 0 (skern s) k" "sb_ok (?b\<lparr>pucBuffer := m, xHead := h, xTaskWaitingToReceive := None\<rparr>)"
      "bytes_held (?b\<lparr>pucBuffer := m, xHead := h, xTaskWaitingToReceive := None\<rparr>) = bytes_held ?b @ d"
    using send_wakes [of s c q d t n] assms fr by (auto simp: Let_def)
  let ?b2 = "?b\<lparr>pucBuffer := m, xHead := h, xTaskWaitingToReceive := None\<rparr>"
  have "unat (prvBytesInBuffer ?b2) = unat ?l"
    using bytes_in_buffer [OF r(3)] arg_cong [OF r(4), of length] assms(7-9) by (simp add: bytes_to_exceed_def)
  then have a: "\<not> prvBytesInBuffer ?b2 > ?l" by (simp add: word_less_nat_alt)
  have "\<exists>s3. xStreamBufferReceive_return c' q room ?l s2 = Inr ([], s3) \<and> bytes_held (sb_of s3 q) = bytes_held ?b @ d"
    if "c' < configNUMBER_OF_CORES" "stable (skern s2)" "sb_of s2 = (sb_of s)(q := ?b2)" for c' s2 room
    using receive_return_eq [OF that(2,1), of q room ?l] a r(4) that(3) by (auto simp: receive_finish_def Let_def)
  then show ?thesis using r(1,2) by auto
qed

text \<open>Task 3 waits for two bytes in the batching buffer; task 1 sends two.\<close>

theorem batching_wakes_empty_handed_witness:
  "\<exists>s1 s3. xStreamBufferSend 0 1 [5, 6] 2 0 demo_ssys = Inr (Finished 2, s1) \<and>
    stateContainer (tcb (skern s1) 3) = Some (ReadyL 3) \<and>
    xStreamBufferReceive_return 1 1 8 2 s1 = Inr ([], s3) \<and> bytes_held (sb_of s3 1) = [5, 6]"
proof -
  have l: "bytes_to_exceed (sb_of demo_ssys 1) = 2" "bytes_held (sb_of demo_ssys 1) = []"
    by (simp_all add: bytes_to_exceed_def demo_ssys_def demo_sb_defs bytes_held_def used_def ring_bytes_def)
  have p: "stable (skern demo_ssys)" "(0::nat) < configNUMBER_OF_CORES" "sb_ok (sb_of demo_ssys 1)" "[5, 6 :: u8] \<noteq> []"
    "length [5, 6 :: u8] < 2 ^ 32 - 4" "used (sb_of demo_ssys 1) + length [5, 6 :: u8] < unat (xLength (sb_of demo_ssys 1))"
    "is_batching (sb_of demo_ssys 1)" "\<not> is_message (sb_of demo_ssys 1)"
    "used (sb_of demo_ssys 1) + length [5, 6 :: u8] = unat (xTriggerLevelBytes (sb_of demo_ssys 1))"
    "xTaskWaitingToReceive (sb_of demo_ssys 1) = Some 3" "wakeable (skern demo_ssys) 3"
    using demo_skern_stable by (simp_all add: demo_ssys_def configNUMBER_OF_CORES_def demo_sb_defs sb_ok_def used_def
        wakeable_def demo_skern_def upd_tcb_def idle_task_def demo_defs)
  have c: "ucNotifyState (tcb (skern demo_ssys) 3) = Waiting" "prio (skern demo_ssys) 3 = 3"
    by (simp_all add: demo_ssys_def demo_skern_def upd_tcb_def demo_defs)
  have st: "stable (skern s1)" if "xStreamBufferSend 0 1 [5, 6] 2 0 demo_ssys = Inr (Finished 2, s1)" for s1
    using send_wakes [OF p(1-5) _ _ p(10,11), of 0] p that by (auto simp: Let_def frame_of_def)
  have s: "xStreamBufferSend 0 1 [5, 6] (of_nat (length [5, 6 :: u8])) 0 demo_ssys = xStreamBufferSend 0 1 [5, 6] 2 0 demo_ssys"
    "Finished (of_nat (length [5, 6 :: u8])) = (Finished 2 :: (u32, send_wait) sb_round)" by simp_all
  show ?thesis using batching_wakes_empty_handed [OF p, of 0] st c unfolding s l
    by (fastforce simp: notified_def configNUMBER_OF_CORES_def)
qed

end
