(* ===== verification/SpinLock.thy ===== *)
theory SpinLock
  imports KernelState
begin

text \<open>
  The two spin locks under every critical section (\<open>vPortRecursiveLock\<close> of the RP2040 port over the spin locks
  of the SDK), one memory access at a time: the accesses of the two cores interleave in any order, since the
  masked interrupts of one core do not stop the other.  A core makes one call at a time, with its interrupts
  masked.  The model justifies that critical sections are single steps in the other theories.
\<close>

section \<open>State\<close>

text \<open>Where a core is in a call: before the access that the constructor names, with the value read for a store.\<close>

datatype phase =
    Outside
  | TryLock nat | TestOwned nat | LoadCount nat | StoreCount nat nat
  | SpinOn nat | SetCount nat | SetOwned nat
  | LoadRelease nat | StoreRelease nat nat | ClearOwned nat | ReleaseLock nat

text \<open>\<open>depth c l\<close> is not part of the program: how many calls core \<open>c\<close> has made to acquire \<open>l\<close> and not undone.\<close>

record lock_sys =
  spin_taken :: "nat \<Rightarrow> bool"
  ucOwnedByCore :: "nat \<Rightarrow> nat \<Rightarrow> bool"
  ucRecursionCountByLock :: "nat \<Rightarrow> nat"
  phase_of :: "nat \<Rightarrow> phase"
  depth :: "nat \<Rightarrow> nat \<Rightarrow> nat"

definition portRTOS_SPINLOCK_COUNT :: nat where "portRTOS_SPINLOCK_COUNT = 2"

text \<open>The numbers of the locks of interrupts and of tasks.\<close>

definition ISR_LOCK :: nat where "ISR_LOCK = 0"
definition TASK_LOCK :: nat where "TASK_LOCK = 1"

definition locks_init :: lock_sys where
  "locks_init = \<lparr>spin_taken = (\<lambda>_. False), ucOwnedByCore = (\<lambda>_ _. False), ucRecursionCountByLock = (\<lambda>_. 0),
     phase_of = (\<lambda>_. Outside), depth = (\<lambda>_ _. 0)\<rparr>"

section \<open>The accesses\<close>

text \<open>A read of the register of a spin lock claims the lock; a write releases it.\<close>

definition spin_try_lock_unsafe :: "nat \<Rightarrow> lock_sys \<Rightarrow> bool \<times> lock_sys" where
  "spin_try_lock_unsafe l s = (\<not> spin_taken s l, s\<lparr>spin_taken := (spin_taken s)(l := True)\<rparr>)"

definition spin_unlock_unsafe :: "nat \<Rightarrow> lock_sys \<Rightarrow> lock_sys" where
  "spin_unlock_unsafe l s = s\<lparr>spin_taken := (spin_taken s)(l := False)\<rparr>"

definition set_phase :: "nat \<Rightarrow> phase \<Rightarrow> lock_sys \<Rightarrow> lock_sys" where
  "set_phase c p s = s\<lparr>phase_of := (phase_of s)(c := p)\<rparr>"

definition set_depth :: "nat \<Rightarrow> nat \<Rightarrow> nat \<Rightarrow> lock_sys \<Rightarrow> lock_sys" where
  "set_depth c l n s = s\<lparr>depth := (depth s)(c := (depth s c)(l := n))\<rparr>"

definition set_count :: "nat \<Rightarrow> nat \<Rightarrow> lock_sys \<Rightarrow> lock_sys" where
  "set_count l n s = s\<lparr>ucRecursionCountByLock := (ucRecursionCountByLock s)(l := n)\<rparr>"

definition set_owned :: "nat \<Rightarrow> nat \<Rightarrow> bool \<Rightarrow> lock_sys \<Rightarrow> lock_sys" where
  "set_owned c l b s = s\<lparr>ucOwnedByCore := (ucOwnedByCore s)(c := (ucOwnedByCore s c)(l := b))\<rparr>"

text \<open>One access of core \<open>c\<close> in \<open>vPortRecursiveLock\<close>; \<open>SpinOn\<close> is a round of \<open>spin_lock_unsafe_blocking\<close>.  The
  counts are \<open>uint8_t\<close>.\<close>

definition lock_access :: "nat \<Rightarrow> lock_sys \<Rightarrow> lock_sys" where
  "lock_access c s = (case phase_of s c of
       Outside \<Rightarrow> s
     | TryLock l \<Rightarrow> (case spin_try_lock_unsafe l s of (ok, s1) \<Rightarrow> set_phase c (if ok then SetCount l else TestOwned l) s1)
     | TestOwned l \<Rightarrow> set_phase c (if ucOwnedByCore s c l then LoadCount l else SpinOn l) s
     | LoadCount l \<Rightarrow> set_phase c (StoreCount l (ucRecursionCountByLock s l)) s
     | StoreCount l n \<Rightarrow> set_phase c Outside (set_depth c l (depth s c l + 1) (set_count l ((n + 1) mod 256) s))
     | SpinOn l \<Rightarrow> (case spin_try_lock_unsafe l s of (ok, s1) \<Rightarrow> if ok then set_phase c (SetCount l) s1 else s1)
     | SetCount l \<Rightarrow> set_phase c (SetOwned l) (set_count l 1 s)
     | SetOwned l \<Rightarrow> set_phase c Outside (set_depth c l (depth s c l + 1) (set_owned c l True s))
     | LoadRelease l \<Rightarrow> set_phase c (StoreRelease l (ucRecursionCountByLock s l)) s
     | StoreRelease l n \<Rightarrow> let n' = (n + 255) mod 256
         in set_phase c (if n' = 0 then ClearOwned l else Outside) (set_count l n' s)
     | ClearOwned l \<Rightarrow> set_phase c (ReleaseLock l) (set_owned c l False s)
     | ReleaseLock l \<Rightarrow> set_phase c Outside (spin_unlock_unsafe l s))"

text \<open>The asserted conditions of the function, at the accesses they stand before.\<close>

definition asserted :: "nat \<Rightarrow> lock_sys \<Rightarrow> bool" where
  "asserted c s = (case phase_of s c of
       LoadCount l \<Rightarrow> ucRecursionCountByLock s l \<noteq> 255
     | SetCount l \<Rightarrow> ucRecursionCountByLock s l = 0
     | LoadRelease l \<Rightarrow> ucOwnedByCore s c l \<and> ucRecursionCountByLock s l \<noteq> 0
     | _ \<Rightarrow> True)"

section \<open>The calls of the kernel\<close>

datatype lock_call = Acquire nat | Release nat

definition vPortRecursiveLock :: "nat \<Rightarrow> lock_call \<Rightarrow> lock_sys \<Rightarrow> lock_sys" where
  "vPortRecursiveLock c call s = (case call of
       Acquire l \<Rightarrow> set_phase c (TryLock l) s
     | Release l \<Rightarrow> set_phase c (LoadRelease l) (set_depth c l (depth s c l - 1) s))"

text \<open>What the kernel keeps to: it releases what it has acquired, does not nest too deeply, and acquires the
  task lock before the lock of interrupts.\<close>

definition call_ok :: "(nat \<Rightarrow> nat) \<Rightarrow> lock_call \<Rightarrow> bool" where
  "call_ok d call = (case call of
       Acquire l \<Rightarrow> l < portRTOS_SPINLOCK_COUNT \<and> d l < 255 \<and> (l = TASK_LOCK \<and> 0 < d ISR_LOCK \<longrightarrow> 0 < d TASK_LOCK)
     | Release l \<Rightarrow> l < portRTOS_SPINLOCK_COUNT \<and> 0 < d l)"

definition after_call :: "lock_call \<Rightarrow> (nat \<Rightarrow> nat) \<Rightarrow> nat \<Rightarrow> nat" where
  "after_call call d = (case call of Acquire l \<Rightarrow> d(l := d l + 1) | Release l \<Rightarrow> d(l := d l - 1))"

fun calls_ok :: "(nat \<Rightarrow> nat) \<Rightarrow> lock_call list \<Rightarrow> bool" where
  "calls_ok d [] = True"
| "calls_ok d (call # cs) = (call_ok d call \<and> calls_ok (after_call call d) cs)"

text \<open>The calls in \<open>vTaskEnterCritical\<close> and \<open>vTaskExitCritical\<close> at the outermost level, in
  \<open>vTaskSwitchContext\<close>, in the critical sections of interrupts, and in \<open>vTaskSuspendAll\<close> and \<open>xTaskResumeAll\<close>.\<close>

definition enter_critical_locks :: "lock_call list" where "enter_critical_locks = [Acquire TASK_LOCK, Acquire ISR_LOCK]"
definition exit_critical_locks :: "lock_call list" where "exit_critical_locks = [Release ISR_LOCK, Release TASK_LOCK]"
definition switch_locks :: "lock_call list" where
  "switch_locks = [Acquire TASK_LOCK, Acquire ISR_LOCK, Release ISR_LOCK, Release TASK_LOCK]"
definition enter_isr_locks :: "lock_call list" where "enter_isr_locks = [Acquire ISR_LOCK]"
definition exit_isr_locks :: "lock_call list" where "exit_isr_locks = [Release ISR_LOCK]"
definition suspend_all_locks :: "lock_call list" where "suspend_all_locks = [Acquire TASK_LOCK, Acquire ISR_LOCK, Release ISR_LOCK]"
definition resume_all_locks :: "lock_call list" where
  "resume_all_locks = enter_critical_locks @ [Release TASK_LOCK] @ exit_critical_locks"

text \<open>\<open>prvCheckForRunStateChange\<close>, which lets a pended switch happen in the middle: inside a critical section,
  and with the task lock only.\<close>

definition check_run_state_locks :: "bool \<Rightarrow> lock_call list" where
  "check_run_state_locks nested =
     (if nested then [Release ISR_LOCK] else []) @ [Release TASK_LOCK] @ [Acquire TASK_LOCK, Acquire ISR_LOCK] @
     (if nested then [] else [Release ISR_LOCK])"

section \<open>Runs\<close>

inductive lock_runs :: "lock_sys \<Rightarrow> bool" where
  begins: "lock_runs locks_init"
| calls: "lock_runs s \<Longrightarrow> c < configNUMBER_OF_CORES \<Longrightarrow> phase_of s c = Outside \<Longrightarrow> call_ok (depth s c) call \<Longrightarrow>
    lock_runs (vPortRecursiveLock c call s)"
| accesses: "lock_runs s \<Longrightarrow> c < configNUMBER_OF_CORES \<Longrightarrow> lock_runs (lock_access c s)"

section \<open>The invariant\<close>

text \<open>Core \<open>c\<close> has the spin lock of \<open>l\<close>.\<close>

definition owns :: "lock_sys \<Rightarrow> nat \<Rightarrow> nat \<Rightarrow> bool" where
  "owns s c l \<longleftrightarrow> 0 < depth s c l \<or> (case phase_of s c of
       SetCount k \<Rightarrow> k = l | SetOwned k \<Rightarrow> k = l | LoadRelease k \<Rightarrow> k = l | StoreRelease k _ \<Rightarrow> k = l | ClearOwned k \<Rightarrow> k = l
     | ReleaseLock k \<Rightarrow> k = l | _ \<Rightarrow> False)"

text \<open>What its phase says about the depth and the count, and whether the owner flag is set.\<close>

definition phase_wf :: "nat \<Rightarrow> nat \<Rightarrow> nat \<Rightarrow> phase \<Rightarrow> bool" where
  "phase_wf l d n p = (case p of
       SetCount k \<Rightarrow> k = l \<longrightarrow> d = 0 \<and> n = 0
     | SetOwned k \<Rightarrow> k = l \<longrightarrow> d = 0 \<and> n = 1
     | LoadCount k \<Rightarrow> k = l \<longrightarrow> 0 < d \<and> d < 255
     | StoreCount k v \<Rightarrow> k = l \<longrightarrow> 0 < d \<and> d < 255 \<and> v = d
     | TryLock k \<Rightarrow> k = l \<longrightarrow> d < 255
     | TestOwned k \<Rightarrow> k = l \<longrightarrow> d < 255
     | SpinOn k \<Rightarrow> k = l \<longrightarrow> d = 0
     | LoadRelease k \<Rightarrow> k = l \<longrightarrow> d < 255
     | StoreRelease k v \<Rightarrow> k = l \<longrightarrow> d < 255 \<and> v = d + 1
     | ClearOwned k \<Rightarrow> k = l \<longrightarrow> d = 0
     | ReleaseLock k \<Rightarrow> k = l \<longrightarrow> d = 0
     | Outside \<Rightarrow> True)"

definition flag_of :: "nat \<Rightarrow> nat \<Rightarrow> phase \<Rightarrow> bool" where
  "flag_of l d p \<longleftrightarrow> 0 < d \<or> p = LoadRelease l \<or> (\<exists>v. p = StoreRelease l v) \<or> p = ClearOwned l"

definition count_of :: "nat \<Rightarrow> nat \<Rightarrow> phase \<Rightarrow> nat" where
  "count_of l d p = (if p = SetOwned l \<or> p = LoadRelease l \<or> (\<exists>v. p = StoreRelease l v) then d + 1 else d)"

definition lock_inv :: "nat \<Rightarrow> lock_sys \<Rightarrow> bool" where
  "lock_inv l s \<longleftrightarrow>
     (\<forall>c. phase_wf l (depth s c l) (ucRecursionCountByLock s l) (phase_of s c) \<and> depth s c l \<le> 255 \<and>
        ucOwnedByCore s c l = flag_of l (depth s c l) (phase_of s c) \<and>
        (owns s c l \<longrightarrow> spin_taken s l \<and> ucRecursionCountByLock s l = count_of l (depth s c l) (phase_of s c) \<and>
           (\<forall>c'. owns s c' l \<longrightarrow> c' = c))) \<and>
     (spin_taken s l \<longrightarrow> (\<exists>c. owns s c l)) \<and> (\<not> spin_taken s l \<longrightarrow> ucRecursionCountByLock s l = 0)"

lemmas access_defs = set_phase_def set_depth_def set_count_def set_owned_def spin_try_lock_unsafe_def spin_unlock_unsafe_def
lemmas inv_defs = owns_def phase_wf_def flag_of_def count_of_def

lemma lock_inv_init: "lock_inv l locks_init"
  by (simp add: lock_inv_def locks_init_def inv_defs)

text \<open>A change of core \<open>c\<close> alone: what has to be checked.\<close>

lemma lock_inv_change:
  assumes inv: "lock_inv l s"
    and other: "\<And>c'. c' \<noteq> c \<Longrightarrow> phase_of s' c' = phase_of s c' \<and> depth s' c' l = depth s c' l \<and> ucOwnedByCore s' c' l = ucOwnedByCore s c' l"
    and own: "phase_wf l (depth s' c l) (ucRecursionCountByLock s' l) (phase_of s' c)" "depth s' c l \<le> 255"
      "ucOwnedByCore s' c l = flag_of l (depth s' c l) (phase_of s' c)"
    and mine: "owns s' c l \<Longrightarrow> spin_taken s' l \<and> ucRecursionCountByLock s' l = count_of l (depth s' c l) (phase_of s' c) \<and>
      (\<not> owns s c l \<longrightarrow> \<not> spin_taken s l)"
    and gone: "\<not> owns s' c l \<Longrightarrow> (if owns s c l then \<not> spin_taken s' l \<and> ucRecursionCountByLock s' l = 0
      else spin_taken s' l = spin_taken s l \<and> ucRecursionCountByLock s' l = ucRecursionCountByLock s l)"
  shows "lock_inv l s'"
proof -
  have o: "owns s' c' l = owns s c' l" if "c' \<noteq> c" for c' using other [OF that] by (simp add: owns_def)
  have s: "phase_wf l (depth s c' l) (ucRecursionCountByLock s l) (phase_of s c')" "depth s c' l \<le> 255"
    "ucOwnedByCore s c' l = flag_of l (depth s c' l) (phase_of s c')"
    "owns s c' l \<Longrightarrow> spin_taken s l \<and> ucRecursionCountByLock s l = count_of l (depth s c' l) (phase_of s c')"
    "owns s c' l \<Longrightarrow> owns s c2 l \<Longrightarrow> c2 = c'" for c' c2
    using inv unfolding lock_inv_def by blast+
  have t: "spin_taken s l \<Longrightarrow> \<exists>c. owns s c l" "\<not> spin_taken s l \<Longrightarrow> ucRecursionCountByLock s l = 0"
    using inv unfolding lock_inv_def by blast+
  have one: "\<not> owns s c' l" if "c' \<noteq> c" "owns s' c l" for c'
    using mine [OF that(2)] s(4) [of c'] s(5) [of c c'] that(1) by blast
  have keep: "spin_taken s' l = spin_taken s l" "ucRecursionCountByLock s' l = ucRecursionCountByLock s l"
    if "owns s c' l" "c' \<noteq> c" for c'
    using gone one that s(5) [of c c'] by (metis (full_types))+
  have wf: "phase_wf l (depth s c' l) (ucRecursionCountByLock s' l) (phase_of s c')" if "c' \<noteq> c" for c'
  proof (cases "owns s c' l")
    case True
    then show ?thesis using s(1) [of c'] keep(2) [OF True that] by simp
  next
    case False
    then show ?thesis using s(1) [of c'] by (cases "phase_of s c'") (auto simp: owns_def phase_wf_def)
  qed
  have each: "phase_wf l (depth s' c' l) (ucRecursionCountByLock s' l) (phase_of s' c') \<and> depth s' c' l \<le> 255 \<and>
      ucOwnedByCore s' c' l = flag_of l (depth s' c' l) (phase_of s' c')" for c'
    using own wf other [of c'] s(2,3) [of c'] by (cases "c' = c") simp_all
  have held: "spin_taken s' l \<and> ucRecursionCountByLock s' l = count_of l (depth s' c' l) (phase_of s' c')" if "owns s' c' l" for c'
    using that mine keep [of c'] s(4) [of c'] o [of c'] other [of c'] by (cases "c' = c") simp_all
  have uniq: "c2 = c'" if "owns s' c' l" "owns s' c2 l" for c' c2
    using that one o s(5) by (cases "c' = c"; cases "c2 = c") metis+
  have "\<exists>c. owns s' c l" if "spin_taken s' l"
  proof (cases "owns s' c l")
    case False
    then have "\<not> owns s c l" "spin_taken s l" using gone that by (auto split: if_splits)
    then obtain c' where "owns s c' l" using t(1) by blast
    then show ?thesis using o [of c'] \<open>\<not> owns s c l\<close> by metis
  qed blast
  moreover have "ucRecursionCountByLock s' l = 0" if "\<not> spin_taken s' l"
    using that mine gone t(2) by (cases "owns s' c l") (auto split: if_splits)
  ultimately show ?thesis unfolding lock_inv_def using each held uniq by blast
qed

lemma lock_inv_other: "phase_of s c = p \<Longrightarrow> owns s c l \<Longrightarrow> lock_inv l s \<Longrightarrow>
    spin_taken s l \<and> ucRecursionCountByLock s l = count_of l (depth s c l) p"
  unfolding lock_inv_def by blast

lemma lock_inv_access:
  assumes inv: "lock_inv l s"
  shows "lock_inv l (lock_access c s)"
proof (rule lock_inv_change [OF inv, of c])
  have i: "phase_wf l (depth s c l) (ucRecursionCountByLock s l) (phase_of s c)" "depth s c l \<le> 255"
    "ucOwnedByCore s c l = flag_of l (depth s c l) (phase_of s c)"
    "owns s c l \<Longrightarrow> spin_taken s l \<and> ucRecursionCountByLock s l = count_of l (depth s c l) (phase_of s c)"
    "\<not> spin_taken s l \<Longrightarrow> ucRecursionCountByLock s l = 0"
    using inv unfolding lock_inv_def by blast+
  have z: "256 dvd depth s c l \<Longrightarrow> depth s c l = 0" using i(2) by (auto dest: dvd_imp_le)
  let ?s = "lock_access c s"
  show "\<And>c'. c' \<noteq> c \<Longrightarrow> phase_of ?s c' = phase_of s c' \<and> depth ?s c' l = depth s c' l \<and> ucOwnedByCore ?s c' l = ucOwnedByCore s c' l"
    by (cases "phase_of s c") (simp_all add: lock_access_def access_defs Let_def)
  show "phase_wf l (depth ?s c l) (ucRecursionCountByLock ?s l) (phase_of ?s c)"
    using i z by (cases "phase_of s c") (auto simp: lock_access_def access_defs inv_defs Let_def split: if_splits)
  show "depth ?s c l \<le> 255"
    using i z by (cases "phase_of s c") (auto simp: lock_access_def access_defs inv_defs Let_def split: if_splits)
  show "ucOwnedByCore ?s c l = flag_of l (depth ?s c l) (phase_of ?s c)"
    using i z by (cases "phase_of s c") (auto simp: lock_access_def access_defs inv_defs Let_def split: if_splits)
  show "owns ?s c l \<Longrightarrow> spin_taken ?s l \<and> ucRecursionCountByLock ?s l = count_of l (depth ?s c l) (phase_of ?s c) \<and>
      (\<not> owns s c l \<longrightarrow> \<not> spin_taken s l)"
    using i z by (cases "phase_of s c") (auto simp: lock_access_def access_defs inv_defs Let_def split: if_splits)
  show "\<not> owns ?s c l \<Longrightarrow> (if owns s c l then \<not> spin_taken ?s l \<and> ucRecursionCountByLock ?s l = 0
      else spin_taken ?s l = spin_taken s l \<and> ucRecursionCountByLock ?s l = ucRecursionCountByLock s l)"
    using i z by (cases "phase_of s c") (auto simp: lock_access_def access_defs inv_defs Let_def split: if_splits)
qed

lemma lock_inv_call:
  assumes inv: "lock_inv l s" and out: "phase_of s c = Outside" and ok: "call_ok (depth s c) call"
  shows "lock_inv l (vPortRecursiveLock c call s)"
proof (rule lock_inv_change [OF inv, of c])
  have i: "depth s c l \<le> 255" "ucOwnedByCore s c l = flag_of l (depth s c l) Outside"
    "owns s c l \<Longrightarrow> spin_taken s l \<and> ucRecursionCountByLock s l = count_of l (depth s c l) Outside"
    using inv out unfolding lock_inv_def by (metis (no_types))+
  let ?s = "vPortRecursiveLock c call s"
  show "\<And>c'. c' \<noteq> c \<Longrightarrow> phase_of ?s c' = phase_of s c' \<and> depth ?s c' l = depth s c' l \<and> ucOwnedByCore ?s c' l = ucOwnedByCore s c' l"
    by (cases call) (simp_all add: vPortRecursiveLock_def access_defs)
  show "phase_wf l (depth ?s c l) (ucRecursionCountByLock ?s l) (phase_of ?s c)"
    using i out ok by (cases call) (auto simp: vPortRecursiveLock_def call_ok_def access_defs inv_defs)
  show "depth ?s c l \<le> 255"
    using i ok by (cases call) (auto simp: vPortRecursiveLock_def call_ok_def access_defs)
  show "ucOwnedByCore ?s c l = flag_of l (depth ?s c l) (phase_of ?s c)"
    using i out ok by (cases call) (auto simp: vPortRecursiveLock_def call_ok_def access_defs inv_defs)
  show "owns ?s c l \<Longrightarrow> spin_taken ?s l \<and> ucRecursionCountByLock ?s l = count_of l (depth ?s c l) (phase_of ?s c) \<and>
      (\<not> owns s c l \<longrightarrow> \<not> spin_taken s l)"
    using i out ok by (cases call) (auto simp: vPortRecursiveLock_def call_ok_def access_defs inv_defs split: if_splits)
  show "\<not> owns ?s c l \<Longrightarrow> (if owns s c l then \<not> spin_taken ?s l \<and> ucRecursionCountByLock ?s l = 0
      else spin_taken ?s l = spin_taken s l \<and> ucRecursionCountByLock ?s l = ucRecursionCountByLock s l)"
    using i out ok by (cases call) (auto simp: vPortRecursiveLock_def call_ok_def access_defs inv_defs split: if_splits)
qed

lemma lock_runs_inv: "lock_runs s \<Longrightarrow> lock_inv l s"
  by (induction rule: lock_runs.induct) (auto intro: lock_inv_init lock_inv_call lock_inv_access)

section \<open>The order of the locks\<close>

text \<open>The lock a core is about to acquire.\<close>

definition wants :: "phase \<Rightarrow> nat option" where
  "wants p = (case p of TryLock l \<Rightarrow> Some l | TestOwned l \<Rightarrow> Some l | SpinOn l \<Rightarrow> Some l | _ \<Rightarrow> None)"

definition order_inv :: "lock_sys \<Rightarrow> bool" where
  "order_inv s \<longleftrightarrow> (\<forall>c. (wants (phase_of s c) = Some TASK_LOCK \<and> 0 < depth s c ISR_LOCK \<longrightarrow> 0 < depth s c TASK_LOCK) \<and>
     (\<forall>l. wants (phase_of s c) = Some l \<longrightarrow> l < portRTOS_SPINLOCK_COUNT) \<and>
     (configNUMBER_OF_CORES \<le> c \<longrightarrow> phase_of s c = Outside \<and> (\<forall>l. depth s c l = 0)))"

lemma order_access:
  assumes "order_inv s" "c < configNUMBER_OF_CORES"
  shows "order_inv (lock_access c s)"
  unfolding order_inv_def
proof (intro allI conjI impI)
  have s: "wants (phase_of s x) = Some TASK_LOCK \<Longrightarrow> 0 < depth s x ISR_LOCK \<Longrightarrow> 0 < depth s x TASK_LOCK"
    "wants (phase_of s x) = Some l \<Longrightarrow> l < portRTOS_SPINLOCK_COUNT"
    "configNUMBER_OF_CORES \<le> x \<Longrightarrow> phase_of s x = Outside \<and> (\<forall>l. depth s x l = 0)" for x l
    using assms(1) unfolding order_inv_def by blast+
  have o: "x \<noteq> c \<Longrightarrow> phase_of (lock_access c s) x = phase_of s x \<and> depth (lock_access c s) x = depth s x" for x
    by (cases "phase_of s c") (simp_all add: lock_access_def access_defs Let_def)
  have w: "wants (phase_of (lock_access c s) c) = Some l \<Longrightarrow> wants (phase_of s c) = Some l \<and> depth (lock_access c s) c = depth s c" for l
    by (cases "phase_of s c") (auto simp: lock_access_def access_defs wants_def Let_def split: if_splits)
  fix x l
  show "0 < depth (lock_access c s) x TASK_LOCK"
    if "wants (phase_of (lock_access c s) x) = Some TASK_LOCK \<and> 0 < depth (lock_access c s) x ISR_LOCK"
    using that o [of x] w [of TASK_LOCK] s(1) [of x] by (cases "x = c") auto
  show "l < portRTOS_SPINLOCK_COUNT" if "wants (phase_of (lock_access c s) x) = Some l"
    using that o [of x] w [of l] s(2) [of x] by (cases "x = c") auto
  show "phase_of (lock_access c s) x = Outside" "depth (lock_access c s) x l = 0" if "configNUMBER_OF_CORES \<le> x"
    using that o [of x] s(3) [of x] assms(2) by auto
qed

lemma order_call:
  assumes "order_inv s" "c < configNUMBER_OF_CORES" "call_ok (depth s c) call"
  shows "order_inv (vPortRecursiveLock c call s)"
proof -
  have o: "x \<noteq> c \<Longrightarrow> phase_of (vPortRecursiveLock c call s) x = phase_of s x \<and> depth (vPortRecursiveLock c call s) x = depth s x" for x
    by (cases call) (simp_all add: vPortRecursiveLock_def access_defs)
  have w: "wants (phase_of (vPortRecursiveLock c call s) c) = Some l \<Longrightarrow> call = Acquire l \<and> depth (vPortRecursiveLock c call s) c = depth s c" for l
    by (cases call) (auto simp: vPortRecursiveLock_def access_defs wants_def)
  show ?thesis unfolding order_inv_def
  proof (intro allI conjI impI)
    fix x l
    show "0 < depth (vPortRecursiveLock c call s) x TASK_LOCK"
      if "wants (phase_of (vPortRecursiveLock c call s) x) = Some TASK_LOCK \<and> 0 < depth (vPortRecursiveLock c call s) x ISR_LOCK"
      using that o [of x] w [of TASK_LOCK] assms(1,3) by (cases "x = c") (auto simp: order_inv_def call_ok_def)
    show "l < portRTOS_SPINLOCK_COUNT" if "wants (phase_of (vPortRecursiveLock c call s) x) = Some l"
      using that o [of x] w [of l] assms(1,3) by (cases "x = c") (auto simp: order_inv_def call_ok_def)
    show "phase_of (vPortRecursiveLock c call s) x = Outside" "depth (vPortRecursiveLock c call s) x l = 0"
      if "configNUMBER_OF_CORES \<le> x"
      using that o [of x] assms(1,2) by (auto simp: order_inv_def)
  qed
qed

lemma order_inv_init: "order_inv locks_init"
  by (simp add: order_inv_def locks_init_def wants_def)

lemma lock_runs_order: "lock_runs s \<Longrightarrow> order_inv s"
  by (induction rule: lock_runs.induct) (auto intro: order_inv_init order_call order_access)

text \<open>A core that waits for a taken lock.\<close>

definition spins :: "nat \<Rightarrow> nat \<Rightarrow> lock_sys \<Rightarrow> bool" where
  "spins c l s \<longleftrightarrow> phase_of s c = SpinOn l \<and> spin_taken s l"

lemma owner_of_spun:
  assumes "lock_runs s" "spins c l s"
  shows "\<exists>c' < configNUMBER_OF_CORES. c' \<noteq> c \<and> owns s c' l"
proof -
  have inv: "lock_inv l s" and ord: "order_inv s" using assms(1) lock_runs_inv lock_runs_order by auto
  obtain c' where c': "owns s c' l" using inv assms(2) unfolding lock_inv_def spins_def by blast
  have "phase_wf l (depth s c l) (ucRecursionCountByLock s l) (SpinOn l)" using inv assms(2) unfolding lock_inv_def spins_def by metis
  then have "\<not> owns s c l" using assms(2) by (simp add: owns_def phase_wf_def spins_def)
  then have "c' \<noteq> c" using c' by blast
  moreover have "c' < configNUMBER_OF_CORES"
  proof (rule ccontr)
    assume "\<not> c' < configNUMBER_OF_CORES"
    then have "phase_of s c' = Outside" "depth s c' l = 0" using ord unfolding order_inv_def by (metis not_le)+
    then show False using c' by (simp add: owns_def)
  qed
  ultimately show ?thesis using c' by blast
qed

lemma spin_depth: "lock_inv l s \<Longrightarrow> phase_of s c = SpinOn l \<Longrightarrow> depth s c l = 0"
proof -
  assume "lock_inv l s" "phase_of s c = SpinOn l"
  then have "phase_wf l (depth s c l) (ucRecursionCountByLock s l) (SpinOn l)" unfolding lock_inv_def by metis
  then show ?thesis by (simp add: phase_wf_def)
qed

lemma owner_does_not_spin:
  assumes "lock_runs s" "spins c l s" "c < configNUMBER_OF_CORES" "c' < configNUMBER_OF_CORES" "c' \<noteq> c" "owns s c' l"
  shows "\<not> spins c' l' s"
proof
  assume sp: "spins c' l' s"
  have ord: "order_inv s" by (rule lock_runs_order [OF assms(1)])
  have inv: "lock_inv k s" for k by (rule lock_runs_inv [OF assms(1)])
  have p: "phase_of s c = SpinOn l" "phase_of s c' = SpinOn l'" using assms(2) sp by (simp_all add: spins_def)
  obtain o' where o': "o' < configNUMBER_OF_CORES" "o' \<noteq> c'" "owns s o' l'" using owner_of_spun [OF assms(1) sp] by blast
  then have oc: "o' = c" using assms(3-5) by (auto simp: configNUMBER_OF_CORES_def less_2_cases_iff)
  have d: "0 < depth s c' l" "0 < depth s c l'" using assms(6) o'(3) p oc by (simp_all add: owns_def)
  have z: "depth s c l = 0" "depth s c' l' = 0" using spin_depth [OF inv] p by blast+
  have w: "wants (phase_of s c) = Some l" "wants (phase_of s c') = Some l'" using p by (simp_all add: wants_def)
  have "l < 2" "l' < 2" using ord w unfolding order_inv_def portRTOS_SPINLOCK_COUNT_def by blast+
  moreover have "l \<noteq> l'" using d(2) z(1) by auto
  ultimately consider "l = TASK_LOCK" "l' = ISR_LOCK" | "l' = TASK_LOCK" "l = ISR_LOCK"
    by (auto simp: TASK_LOCK_def ISR_LOCK_def less_2_cases_iff)
  then show False using ord d w z unfolding order_inv_def by cases (metis not_less_zero)+
qed

text \<open>What the kernel does with the locks keeps to the rules, at any depth of the task lock.\<close>

lemma kernel_calls_ok:
  assumes "d ISR_LOCK = 0" "d TASK_LOCK < 200"
  shows "calls_ok d (enter_critical_locks @ exit_critical_locks)" "calls_ok d switch_locks"
    "calls_ok d (enter_isr_locks @ exit_isr_locks)" "calls_ok d (suspend_all_locks @ resume_all_locks)"
    "calls_ok d (enter_critical_locks @ check_run_state_locks True @ exit_critical_locks)"
    "calls_ok d (Acquire TASK_LOCK # check_run_state_locks False @ [Release TASK_LOCK])"
    "calls_ok d (enter_critical_locks @ enter_isr_locks @ exit_isr_locks @ exit_critical_locks)"
  using assms
  by (simp_all add: enter_critical_locks_def exit_critical_locks_def switch_locks_def enter_isr_locks_def exit_isr_locks_def
      suspend_all_locks_def resume_all_locks_def check_run_state_locks_def call_ok_def after_call_def TASK_LOCK_def ISR_LOCK_def
      portRTOS_SPINLOCK_COUNT_def)

section \<open>The properties\<close>

text \<open>C8: Critical sections exclude one another: whatever the interleaving of the accesses of the cores, no two
  cores hold the same lock at a time, at any depth of recursion, and the assertions of
  \<open>vPortRecursiveLock\<close> hold whenever they are reached.\<close>

theorem spin_locks_exclude:
  assumes "lock_runs s"
  shows "(0 < depth s c l \<and> 0 < depth s c' l \<longrightarrow> c = c') \<and> asserted c s"
proof -
  have inv: "lock_inv k s" for k by (rule lock_runs_inv [OF assms])
  have "c = c'" if "0 < depth s c l" "0 < depth s c' l"
  proof -
    have "owns s c l" "owns s c' l" using that by (simp_all add: owns_def)
    then show ?thesis using inv [of l] unfolding lock_inv_def by blast
  qed
  moreover have "asserted c s"
  proof (cases "phase_of s c")
    case (LoadCount k)
    then have "phase_wf k (depth s c k) (ucRecursionCountByLock s k) (LoadCount k)" using inv [of k] unfolding lock_inv_def by metis
    then have d: "0 < depth s c k" "depth s c k < 255" by (simp_all add: phase_wf_def)
    then have "owns s c k" by (simp add: owns_def)
    then show ?thesis using lock_inv_other [OF LoadCount _ inv [of k]] d by (simp add: asserted_def LoadCount count_of_def)
  next
    case (SetCount k)
    then have "phase_wf k (depth s c k) (ucRecursionCountByLock s k) (SetCount k)" using inv [of k] unfolding lock_inv_def by metis
    then show ?thesis by (simp add: asserted_def SetCount phase_wf_def)
  next
    case (LoadRelease k)
    then have "owns s c k" by (simp add: owns_def)
    then have "ucRecursionCountByLock s k = depth s c k + 1"
      using lock_inv_other [OF LoadRelease _ inv [of k]] by (simp add: count_of_def)
    moreover have "ucOwnedByCore s c k" using inv [of k] LoadRelease unfolding lock_inv_def flag_of_def by metis
    ultimately show ?thesis by (simp add: asserted_def LoadRelease)
  qed (simp_all add: asserted_def)
  ultimately show ?thesis by blast
qed

text \<open>Core 0 has the task lock, and core 1 waits for it.\<close>

definition lock_example :: lock_sys where
  "lock_example = lock_access 1 (lock_access 1 (vPortRecursiveLock 1 (Acquire TASK_LOCK)
     (lock_access 0 (lock_access 0 (lock_access 0 (vPortRecursiveLock 0 (Acquire TASK_LOCK) locks_init))))))"

lemma lock_example_runs: "lock_runs lock_example"
  unfolding lock_example_def
  by (intro lock_runs.intros)
    (simp_all add: configNUMBER_OF_CORES_def vPortRecursiveLock_def lock_access_def access_defs locks_init_def call_ok_def
      TASK_LOCK_def ISR_LOCK_def portRTOS_SPINLOCK_COUNT_def Let_def)

lemma lock_example_state: "depth lock_example 0 TASK_LOCK = 1" "phase_of lock_example 1 = SpinOn TASK_LOCK"
  "spin_taken lock_example TASK_LOCK"
  by (simp_all add: lock_example_def vPortRecursiveLock_def lock_access_def access_defs locks_init_def TASK_LOCK_def Let_def)

theorem spin_locks_exclude_witness: "depth lock_example 1 TASK_LOCK = 0"
  using spin_locks_exclude [OF lock_example_runs, of 0 TASK_LOCK 1] lock_example_state(1) by simp

text \<open>The locks do not deadlock: a core that spins on a lock waits for the other core, which holds the
  lock or is about to, and which does not spin itself.\<close>

theorem spin_locks_no_deadlock:
  assumes "lock_runs s" "c < configNUMBER_OF_CORES" "phase_of s c = SpinOn l" "spin_taken s l"
  shows "\<exists>c' < configNUMBER_OF_CORES. c' \<noteq> c \<and> owns s c' l \<and> \<not> (\<exists>l'. phase_of s c' = SpinOn l' \<and> spin_taken s l')"
proof -
  have sp: "spins c l s" using assms(3,4) by (simp add: spins_def)
  obtain c' where c': "c' < configNUMBER_OF_CORES" "c' \<noteq> c" "owns s c' l" using owner_of_spun [OF assms(1) sp] by blast
  have "\<not> spins c' l' s" for l' by (rule owner_does_not_spin [OF assms(1) sp assms(2) c'])
  then show ?thesis using c' by (auto simp: spins_def)
qed

theorem spin_locks_no_deadlock_witness: "\<exists>c' < configNUMBER_OF_CORES. c' \<noteq> 1 \<and> owns lock_example c' TASK_LOCK"
proof -
  have "1 < configNUMBER_OF_CORES" by (simp add: configNUMBER_OF_CORES_def)
  from spin_locks_no_deadlock [OF lock_example_runs this lock_example_state(2,3)] show ?thesis by blast
qed

end
