(* ===== verification/Spec2Isabelle.thy ===== *)
theory Spec2Isabelle
  imports PartitionResults ListImpl Heap4Props PeriodicProps KernelResults QueueResults EventGroupResults TimerResults StreamResults
    SpinLock
begin

text \<open>
  Verification of the partitioned multiprocessor scheduler of \<open>src/smp_test\<close>, of the periodic
  programs of \<open>src/smp_test\<close> and \<open>src/led_task\<close>, and of the parts of the FreeRTOS kernel
  (\<open>src/FreeRTOS-Kernel\<close>, two-core configuration for the RP2040) they run on.

  \<^bold>\<open>The program.\<close>  \<open>main\<close> of \<open>smp_test\<close> partitions a table of periodic tasks over the two cores with
  the SPA2 algorithm: heavy tasks are pre-assigned to cores of their own, the others are assigned to
  the least loaded core, and a task that does not fit is split into a body and a tail on another core.
  It does so by calls of the kernel (\<open>xTaskCreate\<close>, \<open>vTaskCoreAffinitySet\<close>) and then starts the
  scheduler.  Each task is a loop of jobs that burn execution time and wait for their next release
  with \<open>vTaskDelayUntil\<close>; the halves of a split task hand over with \<open>vTaskSuspend\<close> and
  \<open>vTaskResume\<close>; a monitor deletes all tasks after a hyperperiod.  The kernel keeps ready, delayed,
  suspended and terminated tasks in lists, selects a task for each core by priority and affinity, and
  is driven by the tick interrupt and by inter-core yield requests.

  \<^bold>\<open>The theories, bottom up.\<close>
  \<^item> \<^theory_text>\<open>Prelude\<close>: machine integers, the faults (null pointer, out of bounds, integer overflow,
    divergence), the error monad and arrays with checked access.
  \<^item> \<^theory_text>\<open>Float32\<close>: binary32 and binary64 arithmetic on integers scaled by \<open>2 ^ 149\<close>, rounding to nearest
    even, with a locale for the laws of a rounding that the proofs about loads rest on.
  \<^item> \<^theory_text>\<open>TaskManager\<close> (\<open>task_manager.c\<close>, \<open>task_manager.h\<close>) and \<^theory_text>\<open>Partition\<close> (\<open>main\<close>): the tables, the two
    stacks, the operations on them and the algorithm; the calls of the kernel are recorded in order, each setting of
    an affinity with its mask.
    \<^theory_text>\<open>TaskManagerProps\<close> (a locale of bounded stacks, interpreted on both), \<^theory_text>\<open>PartitionProps\<close> (the
    invariant of the assignment), \<^theory_text>\<open>ShippedRun\<close> (the run on the shipped table, and two others, evaluated
    in steps) and \<^theory_text>\<open>PartitionResults\<close> (the properties).
  \<^item> \<^theory_text>\<open>ListImpl\<close> (\<open>list.c\<close>): doubly linked lists with a marker node in a store of nodes, refined to HOL
    lists.  The kernel theories use the abstract lists.
  \<^item> \<^theory_text>\<open>Heap4\<close> and \<^theory_text>\<open>Heap4Props\<close> (\<open>heap_4.c\<close>): the free list of the allocator in a store of block
    headers at 32-bit addresses, refined to a tiling of the heap by free and taken segments.
  \<^item> \<^theory_text>\<open>PeriodicTask\<close> and \<^theory_text>\<open>PeriodicProps\<close> (\<open>vTask0\<close> to \<open>vTask7\<close>, \<open>run_task\<close>, \<open>Periodic_Job\<close>,
    \<open>MonitorTask\<close>; \<open>task1\<close> to \<open>task4\<close> of \<open>led_task\<close>): the tasks as sequences of clock readings and kernel
    calls; the readings of the clock are a parameter.
  \<^item> \<^theory_text>\<open>KernelState\<close>, \<^theory_text>\<open>Scheduler\<close>, \<^theory_text>\<open>TaskApi\<close>, \<^theory_text>\<open>TaskEvents\<close>, \<^theory_text>\<open>TaskAdmin\<close> (\<open>tasks.c\<close>): the TCBs, the
    lists and the file-scope variables as one record, each function as a function on it that may fault.
  \<^item> \<^theory_text>\<open>KernelInv\<close>: the invariant \<open>kinv\<close> that holds inside critical sections and \<open>stable\<close>, which holds
    between the steps of tasks and interrupts, with total-correctness rules for the primitives.
    \<^theory_text>\<open>SelectProps\<close> (context switch), \<^theory_text>\<open>TickProps\<close> (tick interrupt), \<^theory_text>\<open>CallProps\<close> and \<^theory_text>\<open>DelayProps\<close> (the calls
    of tasks), \<^theory_text>\<open>ResumeProps\<close> (the end of a suspension of the scheduler, with tasks pending ready and ticks
    pended): each function returns and establishes its contract.
  \<^item> \<^theory_text>\<open>KernelSteps\<close>: the running system as a step relation over ticks, context switches, calls of tasks
    and pieces of the idle tasks, with its reachable states; \<^theory_text>\<open>Boot\<close>: from the calls the partitioner
    recorded to the first stable state, or to the fault of setting the affinity of a task that was not created; \<^theory_text>\<open>KernelExample\<close>: a concrete stable state; \<^theory_text>\<open>KernelResults\<close>: the
    properties.
  \<^item> \<^theory_text>\<open>QueueImpl\<close>, \<^theory_text>\<open>QueueApi\<close> and \<^theory_text>\<open>QueueAdmin\<close> (\<open>queue.c\<close>): queues, semaphores and mutexes over the kernel; a queue is a
    number, its event lists are lists of the kernel, and a call that blocks is one round of its loop.
    \<^theory_text>\<open>RingBuffer\<close> (a locale of bounded buffers, interpreted on the copy operations), \<^theory_text>\<open>EventProps\<close> (waking
    and blocking on an event list), \<^theory_text>\<open>QueueProps\<close> (sending and receiving), \<^theory_text>\<open>MutexProps\<close> (priority
    inheritance), \<^theory_text>\<open>WaitSteps\<close> (what every step of the kernel keeps of the waiting tasks: a locale followed through
    the steps once and interpreted twice), \<^theory_text>\<open>StuckProps\<close> (a task that waits without a time limit stays where it is),
    \<^theory_text>\<open>QueueSteps\<close> (the running system with queues, as a step relation labelled with the messages transferred), \<^theory_text>\<open>QueueExample\<close> (concrete queues) and \<^theory_text>\<open>QueueResults\<close> (the properties; there the locale
    is interpreted a second time, on the calls of tasks).
  \<^item> \<^theory_text>\<open>EventGroups\<close> (\<open>event_groups.c\<close>): event groups over the kernel; the tasks that wait are in an unordered list of the kernel with their
    condition in their event items.  \<^theory_text>\<open>EventGroupProps\<close> (what each operation does, with the scheduler suspended or
    not), \<^theory_text>\<open>EventGroupSteps\<close> (the running system with event groups), \<^theory_text>\<open>EventGroupExample\<close> and
    \<^theory_text>\<open>EventGroupResults\<close>.
  \<^item> \<^theory_text>\<open>SdkLocks\<close> (the functions of \<open>port.c\<close> with which the locks of the SDK wait and notify, the spin locks of
    \<open>spin_lock.h\<close> as a table of flags, and the semaphore of \<open>sem.c\<close>): a function that unlocks its spin lock and waits
    is two steps.  \<^theory_text>\<open>SdkProps\<close> (a task that waits for a bit sleeps on in every run in which nobody sets it) and
    \<^theory_text>\<open>SdkExample\<close>.
  \<^item> \<^theory_text>\<open>Timers\<close> (\<open>timers.c\<close>): software timers over the queues; a timer is a number, its callback a parameter, and the
    messages cross the queue as bytes.  \<^theory_text>\<open>TimerProps\<close> (the sorted lists, what callbacks leave alone, expiry times that
    wrap around), \<^theory_text>\<open>TimerDaemon\<close> (expiries, the switch of the lists, the commands), \<^theory_text>\<open>TimerSteps\<close> (a round of the service
    task and its wait for a message), \<^theory_text>\<open>TimerRuns\<close> (the running system with the service task, against a clock that does
    not wrap around), \<^theory_text>\<open>TimerExample\<close> and \<^theory_text>\<open>TimerResults\<close>.
  \<^item> \<^theory_text>\<open>StreamBuffers\<close> (\<open>stream_buffer.c\<close>): stream, batching and message buffers over the task notifications.
    \<^theory_text>\<open>StreamBufferProps\<close> (the arithmetic of the indices, the bytes a ring holds), \<^theory_text>\<open>StreamLink\<close> (a writer and a reader
    on two cores as a step relation, and its invariant), \<^theory_text>\<open>NotifyProps\<close> (what a notification does to the kernel),
    \<^theory_text>\<open>StreamExample\<close> and \<^theory_text>\<open>StreamResults\<close>.
  \<^item> \<^theory_text>\<open>SpinLock\<close> (\<open>portmacro.h\<close> of the port, \<open>spin_lock.h\<close> of the SDK): the two recursive spin locks under
    every critical section, with the memory accesses of the cores interleaved.

  \<^bold>\<open>How the parts fit.\<close>  The partitioner yields a list of kernel calls; \<^theory_text>\<open>Boot\<close> executes that list on the
  kernel and starts the scheduler; \<^theory_text>\<open>KernelSteps\<close> lets every task issue the calls of \<^theory_text>\<open>PeriodicTask\<close>
  in any order, interleaved with interrupts.  So the pinning the partitioner decides is the pinning
  every reachable state respects.  The allocator enters through the handles of created tasks, which are
  arguments (\<open>None\<close> when memory is exhausted).

  \<^bold>\<open>Bounds.\<close>  Tick counts and wake times are 32-bit words and wrap around.  Loops over a kernel list get
  the length of the list as fuel, one more than the rounds they can make; running out is the fault
  \<open>Diverges\<close>, and the properties show that it does not occur.  Counters of the kernel (of tasks, of held mutexes, of
  overflows) are unbounded, and no property rests on their wrap-around.  The notification array of a task has one
  entry, so the index of a notification is not an argument.  The loops of the partitioner are total
  functions by a measure.  \<open>Periodic_Job\<close>, which spins for ever on a clock that stands still, is a partial
  function, and its termination on every clock that goes on is a property.

  \<^bold>\<open>Atomicity.\<close>  A step of the running system is one interrupt or one call of a task.  Interrupt masks
  and spin locks are represented by this atomicity: a critical section excludes both cores, which
  \<^theory_text>\<open>SpinLock\<close> proves of the locks.  A call
  that suspends the scheduler is one step too, so no tick falls into it in the step relation;
  \<open>xTaskResumeAll\<close> itself is proved for any number of ticks pended meanwhile and any tasks pending ready.  A round of the service task of the
  timers and each of its commands is a step; this loses nothing, since only that task uses the timer lists, and the
  callbacks it runs may change the queues and the kernel in any way that keeps them well formed.  Two hypotheses
  state what the code relies on: the service task looks at the clock once in every turn of the tick count while a
  timer is active, and no command gives a period of zero.  The two sides of a stream buffer run without a lock, so
  there a step is one access to the index of the other side or one copy; a copy is one step because the part of the
  ring it touches is neither read nor written by the other side meanwhile.

  \<^bold>\<open>Not modelled.\<close>  Console output; the assembler and register accesses of the port and
  \<open>portSUPPRESS_TICKS_AND_SLEEP\<close> (a parameter of the idle task); the Pico SDK other than its spin locks and semaphores; the stacks of the
  tasks and the flag of static allocation, so the functions of \<open>tasks.c\<close> that only read these.  Run-time statistics,
  the trace facility, thread-local storage and co-routines are not compiled in this configuration.
\<close>

end
